(* ===== verification/Prelude.thy ===== *)
theory Prelude
  imports
    Main
    "HOL-Library.Word"
    "HOL-Library.AList"
    "HOL-Library.Multiset"
    "HOL-Library.Product_Lexorder"
    "HOL-Library.List_Lexorder"
    "HOL-Library.Char_ord"
begin

text \<open>
  Shared vocabulary of the development.
  \<^item> Rust's \<open>Ordering\<close>, comparator closures and the stable \<open>slice::sort_by\<close>; the locale
    \<open>keyed_order\<close> is the contract of a comparator that orders by a key, from which
    sortedness, permutation and order independence follow once for every comparator of the code.
  \<^item> Rust's \<open>Result\<close> as a sum (\<open>Inl\<close> is \<open>Err\<close>), with the \<open>?\<close> operator as
    \<open>res_bind\<close> and \<open>collect::<Result<Vec<_>, _>>()\<close> as \<open>traverse\<close>.
  \<^item> decimal rendering for the error messages, \<open>usize\<close> bounds, association lists for
    \<open>HashMap\<close> (the list order is the unspecified iteration order).
\<close>

named_theorems res_simps \<open>rewriting of results and the early-return operator\<close>

type_synonym u8 = "8 word"
type_synonym u32 = "32 word"
type_synonym u64 = "64 word"

section \<open>Orderings and the stable sort\<close>

datatype ordering = Less | Equal | Greater

definition compare :: "'a::linorder \<Rightarrow> 'a \<Rightarrow> ordering" where
  "compare a b = (if a < b then Less else if a = b then Equal else Greater)"

fun then_with :: "ordering \<Rightarrow> ordering \<Rightarrow> ordering" where
  "then_with Equal o2 = o2"
| "then_with o1 o2 = o1"

lemma compare_simps [simp]:
  "compare a b = Less \<longleftrightarrow> a < b"
  "compare a b = Equal \<longleftrightarrow> a = b"
  "compare a b = Greater \<longleftrightarrow> b < a"
  by (auto simp: compare_def)

lemma then_with_compare:
  "then_with (compare a b) (compare c d) = compare (a, c) (b, d)"
  by (cases "compare a b") (auto simp: compare_def less_prod_def' split: if_splits)

text \<open>\<open>slice::sort_by\<close> is documented to be a stable sort by the comparator.\<close>

fun insert_by :: "('a \<Rightarrow> 'a \<Rightarrow> ordering) \<Rightarrow> 'a \<Rightarrow> 'a list \<Rightarrow> 'a list" where
  "insert_by cmp x [] = [x]"
| "insert_by cmp x (y # ys) =
     (if cmp x y = Greater then y # insert_by cmp x ys else x # y # ys)"

definition sort_by :: "('a \<Rightarrow> 'a \<Rightarrow> ordering) \<Rightarrow> 'a list \<Rightarrow> 'a list" where
  "sort_by cmp xs = foldr (insert_by cmp) xs []"

text \<open>A comparator that orders by a key: the contract the search code relies on.\<close>

locale keyed_order =
  fixes cmp :: "'a \<Rightarrow> 'a \<Rightarrow> ordering"
    and key :: "'a \<Rightarrow> 'k::linorder"
  assumes cmp_key: "cmp a b = compare (key a) (key b)"
begin

lemma insert_by_eq: "insert_by cmp x xs = insort_key key x xs"
  by (induction xs) (auto simp: cmp_key not_less)

lemma sort_by_eq: "sort_by cmp xs = sort_key key xs"
proof -
  have "insert_by cmp = insort_key key" by (intro ext insert_by_eq)
  then show ?thesis by (simp add: sort_by_def sort_key_def)
qed

lemma set_sort_by: "set (sort_by cmp xs) = set xs"
  by (simp add: sort_by_eq)

lemma mset_sort_by: "mset (sort_by cmp xs) = mset xs"
  by (simp add: sort_by_eq)

lemma length_sort_by: "length (sort_by cmp xs) = length xs"
  by (simp add: sort_by_eq)

lemma sorted_sort_by: "sorted (map key (sort_by cmp xs))"
  by (simp add: sort_by_eq)

lemma distinct_sort_by: "distinct (map f (sort_by cmp xs)) = distinct (map f xs)"
proof -
  have "mset (map f (sort_by cmp xs)) = mset (map f xs)"
    by (simp add: mset_sort_by)
  then show ?thesis by (metis mset_eq_imp_distinct_iff)
qed

lemma sort_by_id: "sorted (map key xs) \<Longrightarrow> sort_by cmp xs = xs"
  by (simp add: sort_by_eq sorted_sort_id sort_key_id_if_sorted)

text \<open>Where keys identify elements, the input order (a hash map's iteration order) is irrelevant.\<close>

lemma sort_by_mset_cong:
  assumes "mset xs = mset ys" and "inj_on key (set xs)"
  shows "sort_by cmp xs = sort_by cmp ys"
proof -
  have "sort_key key xs = sort_key key ys"
    using assms by (intro sort_key_eq_sort_key)
  then show ?thesis by (simp add: sort_by_eq)
qed

end

text \<open>
  The abstract result of a ranked query: the \<open>k\<close> least elements of \<open>S\<close> by key, in order.
\<close>

definition top_k :: "('a \<Rightarrow> 'k::linorder) \<Rightarrow> nat \<Rightarrow> 'a set \<Rightarrow> 'a list \<Rightarrow> bool" where
  "top_k key k S ns \<longleftrightarrow>
     sorted (map key ns) \<and> distinct ns \<and> set ns \<subseteq> S \<and> length ns = min k (card S) \<and>
     (\<forall>n \<in> set ns. \<forall>c \<in> S - set ns. key n < key c)"

locale injective_order = keyed_order cmp key
  for cmp :: "'a \<Rightarrow> 'a \<Rightarrow> ordering" and key :: "'a \<Rightarrow> 'k::linorder" +
  assumes inj_key: "inj key"
begin

lemma take_before_rest:
  assumes "sorted (map key xs)" "n \<in> set (take k xs)" "c \<in> set xs - set (take k xs)"
  shows "key n < key c"
proof -
  have split: "xs = take k xs @ drop k xs" by simp
  have c: "c \<in> set (drop k xs)" using assms(3) split by (metis DiffE Un_iff set_append)
  have "sorted (map key (take k xs) @ map key (drop k xs))"
    using assms(1) split by (metis map_append)
  with assms(2) c have "key n \<le> key c" by (auto simp: sorted_append)
  moreover have "n \<noteq> c" using assms(2,3) by auto
  ultimately show ?thesis using inj_key by (metis injD order_le_imp_less_or_eq)
qed

text \<open>Sorting all elements and truncating gives the top \<open>k\<close>, and nothing else does.\<close>

lemma top_k_sorted:
  assumes "distinct xs" "set xs = S"
  shows "top_k key k S (take k (sort_by cmp xs))"
proof -
  let ?s = "sort_by cmp xs"
  have set: "set ?s = S" and d: "distinct ?s"
    using assms distinct_sort_by [of id xs]
    by (simp_all add: set_sort_by)
  have srt: "sorted (map key ?s)" by (rule sorted_sort_by)
  have len: "length ?s = card S" using set d distinct_card by metis
  show ?thesis unfolding top_k_def
    using set d srt len take_before_rest [OF srt]
    by (auto simp: sorted_wrt_take take_map [symmetric] dest: in_set_takeD)
qed

text \<open>A prefix of a top \<open>n\<close> is a top \<open>k\<close>.\<close>

lemma top_k_take:
  assumes "top_k key n S xs" "k \<le> n"
  shows "top_k key k S (take k xs)"
proof -
  have srt: "sorted (map key xs)" using assms(1) by (simp add: top_k_def)
  have "key x < key c" if "x \<in> set (take k xs)" "c \<in> S - set (take k xs)" for x c
  proof (cases "c \<in> set xs")
    case True
    then show ?thesis using that by (intro take_before_rest [OF srt]) auto
  next
    case False
    then show ?thesis using that assms(1) by (auto simp: top_k_def dest: in_set_takeD)
  qed
  then show ?thesis using assms
    by (auto simp: top_k_def sorted_wrt_take take_map [symmetric] dest: in_set_takeD)
qed

lemma sorted_key_set_eq:
  assumes "sorted (map key xs)" "sorted (map key ys)"
    "distinct xs" "distinct ys" "set xs = set ys"
  shows "xs = ys"
proof -
  have "mset xs = mset ys" using assms by (simp add: set_eq_iff_mset_eq_distinct)
  then have "sort_key key xs = sort_key key ys"
    using inj_key by (intro sort_key_eq_sort_key) (auto intro: inj_on_subset)
  then show ?thesis using assms(1,2) by (simp add: sort_key_id_if_sorted)
qed

lemma top_k_set_subset:
  assumes "finite S" "top_k key k S xs" "top_k key k S ys"
  shows "set xs \<subseteq> set ys"
proof
  fix x assume x: "x \<in> set xs"
  show "x \<in> set ys"
  proof (rule ccontr)
    assume nx: "x \<notin> set ys"
    have cards: "card (set xs) = card (set ys)"
      using assms(2,3) by (simp add: top_k_def distinct_card)
    have "\<not> set ys \<subseteq> set xs"
    proof
      assume "set ys \<subseteq> set xs"
      with x nx have "set ys \<subset> set xs" by blast
      with cards show False using psubset_card_mono by (metis List.finite_set nat_neq_iff)
    qed
    then obtain y where y: "y \<in> set ys" "y \<notin> set xs" by blast
    have "x \<in> S" "y \<in> S" using assms(2,3) x y by (auto simp: top_k_def)
    then have "key x < key y" "key y < key x"
      using assms(2,3) x y nx by (auto simp: top_k_def)
    then show False by simp
  qed
qed

lemma top_k_unique:
  "finite S \<Longrightarrow> top_k key k S xs \<Longrightarrow> top_k key k S ys \<Longrightarrow> xs = ys"
  by (rule sorted_key_set_eq) (auto simp: top_k_def dest: top_k_set_subset)

text \<open>A sound but partial result list is position by position no closer than the top \<open>k\<close>.\<close>

lemma top_k_below:
  assumes "top_k key k S fs" "j < length fs"
  shows "{c \<in> S. key c < key (fs ! j)} \<subseteq> set (take j fs)"
proof
  fix c assume "c \<in> {c \<in> S. key c < key (fs ! j)}"
  then have c: "c \<in> S" "key c < key (fs ! j)" by auto
  have "c \<in> set fs"
    using assms c by (meson DiffI top_k_def not_less_iff_gr_or_eq nth_mem)
  then obtain i where i: "i < length fs" "c = fs ! i" by (metis in_set_conv_nth)
  have "\<not> j \<le> i"
  proof
    assume "j \<le> i"
    then have "key (fs ! j) \<le> key (fs ! i)"
      using assms(1) i(1) by (metis top_k_def assms(2) length_map nth_map sorted_nth_mono)
    with c i show False by simp
  qed
  then show "c \<in> set (take j fs)" using i assms(2) by (auto simp: in_set_conv_nth intro!: exI [of _ i])
qed

lemma top_k_dominates:
  assumes top: "top_k key k S fs"
    and ns: "sorted (map key ns)" "distinct ns" "set ns \<subseteq> S" "length ns \<le> k"
    and fin: "finite S" and j: "j < length ns"
  shows "j < length fs" "key (fs ! j) \<le> key (ns ! j)"
proof -
  have "length ns = card (set ns)" using ns(2) by (simp add: distinct_card)
  also have "\<dots> \<le> card S" using ns(3) fin by (simp add: card_mono)
  finally have "length ns \<le> length fs" using top ns(4) by (simp add: top_k_def)
  with j show jf: "j < length fs" by simp
  show "key (fs ! j) \<le> key (ns ! j)"
  proof (rule ccontr)
    assume "\<not> ?thesis"
    then have lt: "key (ns ! j) < key (fs ! j)" by simp
    have "key n < key (fs ! j)" if n: "n \<in> set (take (Suc j) ns)" for n
    proof -
      obtain i where i: "i \<le> j" "n = ns ! i"
        using n j by (auto simp: in_set_conv_nth less_Suc_eq_le)
      have "map key ns ! i \<le> map key ns ! j"
        using ns(1) i(1) j by (intro sorted_nth_mono) simp_all
      then have "key n \<le> key (ns ! j)" using i j by simp
      with lt show ?thesis by simp
    qed
    then have "set (take (Suc j) ns) \<subseteq> {c \<in> S. key c < key (fs ! j)}"
      using ns(3) set_take_subset by fastforce
    also have "\<dots> \<subseteq> set (take j fs)" by (rule top_k_below [OF top jf])
    finally have "card (set (take (Suc j) ns)) \<le> card (set (take j fs))" by (simp add: card_mono)
    moreover have "card (set (take (Suc j) ns)) = Suc j"
      using ns(2) j by (simp add: distinct_card)
    moreover have "card (set (take j fs)) \<le> j" by (metis card_length length_take min.cobounded2 order_trans)
    ultimately show False by simp
  qed
qed

end

section \<open>Results\<close>

definition res_bind :: "'e + 'a \<Rightarrow> ('a \<Rightarrow> 'e + 'b) \<Rightarrow> 'e + 'b" where
  "res_bind r f = (case r of Inl e \<Rightarrow> Inl e | Inr x \<Rightarrow> f x)"

definition map_res :: "('a \<Rightarrow> 'b) \<Rightarrow> 'e + 'a \<Rightarrow> 'e + 'b" where
  "map_res f r = (case r of Inl e \<Rightarrow> Inl e | Inr x \<Rightarrow> Inr (f x))"

definition map_err :: "('e \<Rightarrow> 'e2) \<Rightarrow> 'e + 'a \<Rightarrow> 'e2 + 'a" where
  "map_err f r = (case r of Inl e \<Rightarrow> Inl (f e) | Inr x \<Rightarrow> Inr x)"

definition ok_or :: "'e \<Rightarrow> 'a option \<Rightarrow> 'e + 'a" where
  "ok_or e m = (case m of None \<Rightarrow> Inl e | Some x \<Rightarrow> Inr x)"

text \<open>\<open>Option<T>\<close> of a fallible conversion: \<open>.map(f).transpose()\<close>.\<close>

definition transpose_opt :: "('a \<Rightarrow> 'e + 'b) \<Rightarrow> 'a option \<Rightarrow> 'e + 'b option" where
  "transpose_opt f m = (case m of None \<Rightarrow> Inr None | Some x \<Rightarrow> map_res Some (f x))"

text \<open>\<open>iter().map(f).collect::<Result<Vec<_>, _>>()\<close>: the first error stops the iteration.\<close>

fun traverse :: "('a \<Rightarrow> 'e + 'b) \<Rightarrow> 'a list \<Rightarrow> 'e + 'b list" where
  "traverse f [] = Inr []"
| "traverse f (x # xs) =
     (case f x of Inl e \<Rightarrow> Inl e
      | Inr y \<Rightarrow> (case traverse f xs of Inl e \<Rightarrow> Inl e | Inr ys \<Rightarrow> Inr (y # ys)))"

lemma res_bind_simps [simp]:
  "res_bind (Inl e) f = Inl e"
  "res_bind (Inr x) f = f x"
  by (simp_all add: res_bind_def)

lemma res_bind_eq_Inr [simp]:
  "res_bind r f = Inr y \<longleftrightarrow> (\<exists>x. r = Inr x \<and> f x = Inr y)"
  by (cases r) auto

lemma res_bind_eq_Inl:
  "res_bind r f = Inl e \<longleftrightarrow> r = Inl e \<or> (\<exists>x. r = Inr x \<and> f x = Inl e)"
  by (cases r) auto

lemma map_res_simps [simp]:
  "map_res f (Inl e) = Inl e" "map_res f (Inr x) = Inr (f x)"
  "map_res f r = Inl e \<longleftrightarrow> r = Inl e"
  "map_res f r = Inr y \<longleftrightarrow> (\<exists>x. r = Inr x \<and> y = f x)"
  by (cases r; auto simp: map_res_def)+

lemma map_err_simps [simp]:
  "map_err f (Inl e) = Inl (f e)" "map_err f (Inr x) = Inr x"
  "map_err f r = Inr y \<longleftrightarrow> r = Inr y"
  "map_err f r = Inl e' \<longleftrightarrow> (\<exists>e. r = Inl e \<and> e' = f e)"
  by (cases r; auto simp: map_err_def)+

lemma ok_or_simps [simp]:
  "ok_or e None = Inl e" "ok_or e (Some x) = Inr x"
  "ok_or e m = Inr x \<longleftrightarrow> m = Some x"
  by (auto simp: ok_or_def split: option.splits)

lemma transpose_opt_simps [simp]:
  "transpose_opt f None = Inr None"
  "transpose_opt f (Some x) = map_res Some (f x)"
  by (simp_all add: transpose_opt_def)

lemma traverse_map:
  "traverse f (map g xs) = traverse (\<lambda>x. f (g x)) xs"
  by (induction xs) (auto split: sum.splits)

lemma traverse_Cons_Inr:
  "traverse f (x # xs) = Inr zs \<longleftrightarrow> (\<exists>y ys. zs = y # ys \<and> f x = Inr y \<and> traverse f xs = Inr ys)"
  by (auto split: sum.splits)

lemma traverse_Inr_iff:
  "traverse f xs = Inr ys \<longleftrightarrow> list_all2 (\<lambda>x y. f x = Inr y) xs ys"
proof (induction xs arbitrary: ys)
  case Nil
  then show ?case by auto
next
  case (Cons x xs)
  then show ?case
    by (simp only: traverse_Cons_Inr list_all2_Cons1)
qed

lemma traverse_all_Inr:
  "(\<And>x. x \<in> set xs \<Longrightarrow> f x = Inr (g x)) \<Longrightarrow> traverse f xs = Inr (map g xs)"
  by (simp add: traverse_Inr_iff list_all2_conv_all_nth)

lemma traverse_cong [fundef_cong]:
  "xs = ys \<Longrightarrow> (\<And>x. x \<in> set ys \<Longrightarrow> f x = g x) \<Longrightarrow> traverse f xs = traverse g ys"
  by (induction xs arbitrary: ys) (auto split: sum.splits)

text \<open>The error reported is that of the first failing element.\<close>

lemma traverse_first_error:
  "(\<And>p. p \<in> set ps \<Longrightarrow> \<exists>y. f p = Inr y) \<Longrightarrow> f x = Inl e \<Longrightarrow>
   traverse f (ps @ x # qs) = Inl e"
  by (induction ps) (fastforce split: sum.splits)+

section \<open>Decimal rendering, machine bounds, hash maps\<close>

fun string_of_nat :: "nat \<Rightarrow> string" where
  "string_of_nat n =
     (if n < 10 then [char_of (48 + n)]
      else string_of_nat (n div 10) @ [char_of (48 + n mod 10)])"

declare string_of_nat.simps [simp del]

definition usize_max :: nat where
  "usize_max = 2 ^ 64 - 1"

definition u32_max :: nat where
  "u32_max = 2 ^ 32 - 1"

definition saturating_mul :: "nat \<Rightarrow> nat \<Rightarrow> nat" where
  "saturating_mul a b = min (a * b) usize_max"

text \<open>
  A \<open>HashMap\<close> is an association list with distinct keys: \<open>get\<close> is \<open>map_of\<close>,
  \<open>insert\<close> is \<open>AList.update\<close>, \<open>remove\<close> is \<open>AList.delete\<close>; the order of the
  list is the order in which the program happens to iterate.
\<close>

definition hm_ok :: "('k \<times> 'v) list \<Rightarrow> bool" where
  "hm_ok m \<longleftrightarrow> distinct (map fst m)"

lemma hm_ok_simps [simp]:
  "hm_ok []"
  "hm_ok m \<Longrightarrow> hm_ok (AList.update k v m)"
  "hm_ok m \<Longrightarrow> hm_ok (AList.delete k m)"
  by (auto simp: hm_ok_def distinct_update distinct_delete)

lemma map_of_update [simp]: "map_of (AList.update k v m) = (map_of m)(k \<mapsto> v)"
  by (simp add: update_conv')

lemma map_of_delete [simp]: "map_of (AList.delete k m) = (map_of m)(k := None)"
  by (simp add: delete_conv')

lemma hm_length: "hm_ok m \<Longrightarrow> length m = card (dom (map_of m))"
  by (metis card_image dom_map_of_conv_image_fst distinct_card distinct_map hm_ok_def length_map set_map)

lemma hm_mem_iff: "hm_ok m \<Longrightarrow> (k, v) \<in> set m \<longleftrightarrow> map_of m k = Some v"
  by (simp add: hm_ok_def)

end
