(* ===== verification/Softfloat.thy ===== *)
theory Softfloat
  imports Prelude
begin

text \<open>
  The language's binary floating point: \<open>f32\<close> and \<open>f64\<close> as their bit patterns, with
  the operations the sources use (\<open>+\<close>, \<open>-\<close>, \<open>*\<close>, \<open>/\<close>, \<open>sqrt\<close>, negation, comparisons,
  \<open>total_cmp\<close>, \<open>is_finite\<close>, the casts) as IEEE 754 arithmetic rounded to nearest, ties to even.
  A bit pattern is unpacked to \<open>(-1)^s * m * 2^e\<close>, the operation is computed exactly (division
  and square root with a sticky bit) and the result is rounded and packed.
  Rust leaves the sign and payload of a produced NaN unspecified; the model produces the
  preferred quiet NaN. The lemmas show the packing is exact on representable values, that
  \<open>total_cmp\<close> is a total order and that the IEEE order is contained in it.
\<close>

section \<open>Formats, unpacking, rounding\<close>

text \<open>A format is its exponent width and its fraction width.\<close>

type_synonym fmt = "nat \<times> nat"

definition b32 :: fmt where "b32 = (8, 23)"
definition b64 :: fmt where "b64 = (11, 52)"

type_synonym f32 = "32 word"
type_synonym f64 = "64 word"

datatype fp = FNaN | FInf bool | FFin bool int int

definition f_sign :: "'a::len word \<Rightarrow> bool" where
  "f_sign w \<longleftrightarrow> 2 ^ (LENGTH('a) - 1) \<le> uint w"

definition f_mag :: "'a::len word \<Rightarrow> int" where
  "f_mag w = uint w mod 2 ^ (LENGTH('a) - 1)"

text \<open>The least exponent of a unit in the last place: \<open>1 - bias - fraction width\<close>.\<close>

fun emin :: "fmt \<Rightarrow> int" where
  "emin (eb, mb) = 2 - 2 ^ (eb - 1) - int mb"

text \<open>The magnitude of infinity, the first one that is not finite.\<close>

fun inf_mag :: "fmt \<Rightarrow> int" where
  "inf_mag (eb, mb) = (2 ^ eb - 1) * 2 ^ mb"

fun unpack_mag :: "fmt \<Rightarrow> bool \<Rightarrow> int \<Rightarrow> fp" where
  "unpack_mag (eb, mb) s g =
     (let e = g div 2 ^ mb; f = g mod 2 ^ mb in
      if inf_mag (eb, mb) < g then FNaN
      else if g = inf_mag (eb, mb) then FInf s
      else if e = 0 then FFin s f (emin (eb, mb))
      else FFin s (2 ^ mb + f) (e - 1 + emin (eb, mb)))"

definition f_unpack :: "fmt \<Rightarrow> 'a::len word \<Rightarrow> fp" where
  "f_unpack F w = unpack_mag F (f_sign w) (f_mag w)"

fun bit_length :: "int \<Rightarrow> nat" where
  "bit_length m = (if m \<le> 0 then 0 else Suc (bit_length (m div 2)))"

declare bit_length.simps [simp del]

definition round_half_even :: "int \<Rightarrow> int \<Rightarrow> int" where
  "round_half_even m d =
     (let q = m div d; r = m mod d in
      if d < 2 * r \<or> (2 * r = d \<and> odd q) then q + 1 else q)"

definition round_shift :: "int \<Rightarrow> int \<Rightarrow> int" where
  "round_shift m sh =
     (if sh \<le> 0 then m * 2 ^ nat (- sh) else round_half_even m (2 ^ nat sh))"

text \<open>
  The magnitude of \<open>m * 2^e\<close> rounded to the format. The significand is rounded at the
  exponent \<open>q\<close> of its last place; a carry out of the significand runs into the exponent
  field, and past the largest finite magnitude the result is infinity.
\<close>

fun round_mag :: "fmt \<Rightarrow> int \<Rightarrow> int \<Rightarrow> int" where
  "round_mag (eb, mb) m e =
     (if m \<le> 0 then 0
      else let q = max (e + int (bit_length m) - int (mb + 1)) (emin (eb, mb));
               g = (q - emin (eb, mb)) * 2 ^ mb + round_shift m (q - e)
           in min g (inf_mag (eb, mb)))"

definition f_make :: "bool \<Rightarrow> int \<Rightarrow> 'a::len word" where
  "f_make s g = word_of_int ((if s then 2 ^ (LENGTH('a) - 1) else 0) + g)"

fun nan_mag :: "fmt \<Rightarrow> int" where
  "nan_mag (eb, mb) = inf_mag (eb, mb) + 2 ^ (mb - 1)"

fun f_pack :: "fmt \<Rightarrow> fp \<Rightarrow> 'a::len word" where
  "f_pack F FNaN = f_make False (nan_mag F)"
| "f_pack F (FInf s) = f_make s (inf_mag F)"
| "f_pack F (FFin s m e) = f_make s (round_mag F m e)"

section \<open>Arithmetic on unpacked values\<close>

definition signed_of :: "bool \<Rightarrow> int \<Rightarrow> int" where
  "signed_of s m = (if s then - m else m)"

fun fp_add :: "fp \<Rightarrow> fp \<Rightarrow> fp" where
  "fp_add FNaN y = FNaN"
| "fp_add x FNaN = FNaN"
| "fp_add (FInf s) (FInf t) = (if s = t then FInf s else FNaN)"
| "fp_add (FInf s) (FFin t m e) = FInf s"
| "fp_add (FFin s m e) (FInf t) = FInf t"
| "fp_add (FFin s m1 e1) (FFin t m2 e2) =
     (let e = min e1 e2;
          z = signed_of s (m1 * 2 ^ nat (e1 - e)) + signed_of t (m2 * 2 ^ nat (e2 - e))
      in FFin (if z = 0 then s \<and> t else z < 0) \<bar>z\<bar> e)"

fun fp_neg :: "fp \<Rightarrow> fp" where
  "fp_neg FNaN = FNaN"
| "fp_neg (FInf s) = FInf (\<not> s)"
| "fp_neg (FFin s m e) = FFin (\<not> s) m e"

fun fp_mul :: "fp \<Rightarrow> fp \<Rightarrow> fp" where
  "fp_mul FNaN y = FNaN"
| "fp_mul x FNaN = FNaN"
| "fp_mul (FInf s) (FInf t) = FInf (s \<noteq> t)"
| "fp_mul (FInf s) (FFin t m e) = (if m = 0 then FNaN else FInf (s \<noteq> t))"
| "fp_mul (FFin s m e) (FInf t) = (if m = 0 then FNaN else FInf (s \<noteq> t))"
| "fp_mul (FFin s m1 e1) (FFin t m2 e2) = FFin (s \<noteq> t) (m1 * m2) (e1 + e2)"

text \<open>A sticky bit below the computed quotient or root records that it is not exact.\<close>

definition sticky :: "int \<Rightarrow> bool \<Rightarrow> int" where
  "sticky q inexact = 2 * q + (if inexact then 1 else 0)"

fun fp_div :: "nat \<Rightarrow> fp \<Rightarrow> fp \<Rightarrow> fp" where
  "fp_div mb FNaN y = FNaN"
| "fp_div mb x FNaN = FNaN"
| "fp_div mb (FInf s) (FInf t) = FNaN"
| "fp_div mb (FInf s) (FFin t m e) = FInf (s \<noteq> t)"
| "fp_div mb (FFin s m e) (FInf t) = FFin (s \<noteq> t) 0 0"
| "fp_div mb (FFin s m1 e1) (FFin t m2 e2) =
     (if m2 = 0 then (if m1 = 0 then FNaN else FInf (s \<noteq> t))
      else let k = mb + 3 + bit_length m2; n = m1 * 2 ^ k
           in FFin (s \<noteq> t) (sticky (n div m2) (n mod m2 \<noteq> 0)) (e1 - e2 - int k - 1))"

fun isqrt :: "int \<Rightarrow> int" where
  "isqrt m = (if m \<le> 0 then 0
     else let r = 2 * isqrt (m div 4) in if (r + 1) * (r + 1) \<le> m then r + 1 else r)"

declare isqrt.simps [simp del]

fun fp_sqrt :: "nat \<Rightarrow> fp \<Rightarrow> fp" where
  "fp_sqrt mb FNaN = FNaN"
| "fp_sqrt mb (FInf s) = (if s then FNaN else FInf False)"
| "fp_sqrt mb (FFin s m e) =
     (if m = 0 then FFin s 0 0 else if s then FNaN
      else let k = 2 * (mb + 2) + nat (e mod 2); n = m * 2 ^ k; r = isqrt n
           in FFin False (sticky r (r * r \<noteq> n)) ((e - int k) div 2 - 1))"

section \<open>The operations of the source\<close>

definition f_nan :: "fmt \<Rightarrow> 'a::len word \<Rightarrow> bool" where
  "f_nan F w \<longleftrightarrow> inf_mag F < f_mag w"

definition f_finite :: "fmt \<Rightarrow> 'a::len word \<Rightarrow> bool" where
  "f_finite F w \<longleftrightarrow> f_mag w < inf_mag F"

definition f_neg :: "'a::len word \<Rightarrow> 'a word" where
  "f_neg w = f_make (\<not> f_sign w) (f_mag w)"

definition ieee_key :: "'a::len word \<Rightarrow> int" where
  "ieee_key w = (if f_sign w then - f_mag w else f_mag w)"

definition f_lt :: "fmt \<Rightarrow> 'a::len word \<Rightarrow> 'a word \<Rightarrow> bool" where
  "f_lt F a b \<longleftrightarrow> \<not> f_nan F a \<and> \<not> f_nan F b \<and> ieee_key a < ieee_key b"

definition f_eq :: "fmt \<Rightarrow> 'a::len word \<Rightarrow> 'a word \<Rightarrow> bool" where
  "f_eq F a b \<longleftrightarrow> \<not> f_nan F a \<and> \<not> f_nan F b \<and> ieee_key a = ieee_key b"

definition f_partial_cmp :: "fmt \<Rightarrow> 'a::len word \<Rightarrow> 'a word \<Rightarrow> ordering option" where
  "f_partial_cmp F a b =
     (if f_nan F a \<or> f_nan F b then None else Some (compare (ieee_key a) (ieee_key b)))"

text \<open>\<open>total_cmp\<close>: the IEEE 754 \<open>totalOrder\<close>, sign and magnitude with \<open>-0 < +0\<close>.\<close>

definition total_key :: "'a::len word \<Rightarrow> int" where
  "total_key w = (if f_sign w then - f_mag w - 1 else f_mag w)"

definition total_cmp :: "'a::len word \<Rightarrow> 'a word \<Rightarrow> ordering" where
  "total_cmp a b = compare (total_key a) (total_key b)"

definition f32_add :: "f32 \<Rightarrow> f32 \<Rightarrow> f32" where
  "f32_add a b = f_pack b32 (fp_add (f_unpack b32 a) (f_unpack b32 b))"
definition f32_sub :: "f32 \<Rightarrow> f32 \<Rightarrow> f32" where
  "f32_sub a b = f_pack b32 (fp_add (f_unpack b32 a) (fp_neg (f_unpack b32 b)))"
definition f32_mul :: "f32 \<Rightarrow> f32 \<Rightarrow> f32" where
  "f32_mul a b = f_pack b32 (fp_mul (f_unpack b32 a) (f_unpack b32 b))"
definition f32_div :: "f32 \<Rightarrow> f32 \<Rightarrow> f32" where
  "f32_div a b = f_pack b32 (fp_div 23 (f_unpack b32 a) (f_unpack b32 b))"
definition f32_sqrt :: "f32 \<Rightarrow> f32" where
  "f32_sqrt a = f_pack b32 (fp_sqrt 23 (f_unpack b32 a))"
definition f32_lt :: "f32 \<Rightarrow> f32 \<Rightarrow> bool" where "f32_lt = f_lt b32"
definition f32_eq :: "f32 \<Rightarrow> f32 \<Rightarrow> bool" where "f32_eq = f_eq b32"
definition f32_finite :: "f32 \<Rightarrow> bool" where "f32_finite = f_finite b32"
definition f32_nan :: "f32 \<Rightarrow> bool" where "f32_nan = f_nan b32"

definition f64_add :: "f64 \<Rightarrow> f64 \<Rightarrow> f64" where
  "f64_add a b = f_pack b64 (fp_add (f_unpack b64 a) (f_unpack b64 b))"
definition f64_sub :: "f64 \<Rightarrow> f64 \<Rightarrow> f64" where
  "f64_sub a b = f_pack b64 (fp_add (f_unpack b64 a) (fp_neg (f_unpack b64 b)))"
definition f64_mul :: "f64 \<Rightarrow> f64 \<Rightarrow> f64" where
  "f64_mul a b = f_pack b64 (fp_mul (f_unpack b64 a) (f_unpack b64 b))"
definition f64_div :: "f64 \<Rightarrow> f64 \<Rightarrow> f64" where
  "f64_div a b = f_pack b64 (fp_div 52 (f_unpack b64 a) (f_unpack b64 b))"
definition f64_lt :: "f64 \<Rightarrow> f64 \<Rightarrow> bool" where "f64_lt = f_lt b64"
definition f64_eq :: "f64 \<Rightarrow> f64 \<Rightarrow> bool" where "f64_eq = f_eq b64"
definition f64_finite :: "f64 \<Rightarrow> bool" where "f64_finite = f_finite b64"
definition f64_nan :: "f64 \<Rightarrow> bool" where "f64_nan = f_nan b64"
definition f64_partial_cmp :: "f64 \<Rightarrow> f64 \<Rightarrow> ordering option" where
  "f64_partial_cmp = f_partial_cmp b64"

text \<open>Casts: \<open>f64::from\<close>, \<open>as f32\<close>, integer \<open>as f64\<close> and \<open>as f32\<close>.\<close>

definition f64_of_f32 :: "f32 \<Rightarrow> f64" where
  "f64_of_f32 a = f_pack b64 (f_unpack b32 a)"
definition f32_of_f64 :: "f64 \<Rightarrow> f32" where
  "f32_of_f64 a = f_pack b32 (f_unpack b64 a)"
definition f64_of_int :: "int \<Rightarrow> f64" where
  "f64_of_int n = f_pack b64 (FFin (n < 0) \<bar>n\<bar> 0)"
definition f32_of_int :: "int \<Rightarrow> f32" where
  "f32_of_int n = f_pack b32 (FFin (n < 0) \<bar>n\<bar> 0)"

text \<open>\<open>f64::floor\<close> and the saturating \<open>as usize\<close>.\<close>

fun fp_floor :: "fp \<Rightarrow> fp" where
  "fp_floor (FFin s m e) =
     (if 0 \<le> e \<or> m = 0 then FFin s m e
      else let z = signed_of s m div 2 ^ nat (- e) in FFin s \<bar>z\<bar> 0)"
| "fp_floor x = x"

definition f64_floor :: "f64 \<Rightarrow> f64" where
  "f64_floor a = f_pack b64 (fp_floor (f_unpack b64 a))"

fun fp_to_usize :: "fp \<Rightarrow> nat" where
  "fp_to_usize FNaN = 0"
| "fp_to_usize (FInf s) = (if s then 0 else usize_max)"
| "fp_to_usize (FFin s m e) =
     (if s then 0
      else min (nat (if 0 \<le> e then m * 2 ^ nat e else m div 2 ^ nat (- e))) usize_max)"

definition usize_of_f64 :: "f64 \<Rightarrow> nat" where
  "usize_of_f64 a = fp_to_usize (f_unpack b64 a)"

definition f32_neg_zero :: f32 where "f32_neg_zero = f_make True 0"
definition f32_neg_infinity :: f32 where "f32_neg_infinity = f_make True (inf_mag b32)"


section \<open>Bits: sign and magnitude\<close>

named_theorems float_simps \<open>sign, magnitude and keys of packed values\<close>

lemma f_mag_range [simp]:
  "0 \<le> f_mag w"
  "f_mag (w :: 'a::len word) < 2 ^ (LENGTH('a) - 1)"
  by (simp_all add: f_mag_def)

lemma half_split:
  assumes "0 \<le> u" "u < 2 * (h::int)"
  shows "u = (if h \<le> u then h else 0) + u mod h"
proof (cases "h \<le> u")
  case True
  with assms have "(u - h) mod h = u - h" by (intro mod_pos_pos_trivial) auto
  moreover have "(u - h) mod h = u mod h" by simp
  ultimately show ?thesis using True by simp
qed (use assms in simp)

lemma uint_split:
  "uint (w :: 'a::len word) = (if f_sign w then 2 ^ (LENGTH('a) - 1) else 0) + f_mag w"
proof -
  have "(2::int) ^ LENGTH('a) = 2 * 2 ^ (LENGTH('a) - 1)"
    by (metis One_nat_def Suc_pred len_gt_0 power_Suc)
  then have "uint w < 2 * 2 ^ (LENGTH('a) - 1)"
    using uint_bounded [of w] by simp
  then show ?thesis
    unfolding f_sign_def f_mag_def by (intro half_split) simp_all
qed

lemma f_make_self [simp]: "f_make (f_sign w) (f_mag w) = w"
  by (metis f_make_def uint_split word_of_int_uint)

lemma uint_f_make:
  assumes "0 \<le> g" "g < 2 ^ (LENGTH('a) - 1)"
  shows "uint (f_make s g :: 'a::len word) = (if s then 2 ^ (LENGTH('a) - 1) else 0) + g"
proof -
  let ?h = "(2::int) ^ (LENGTH('a) - 1)"
  have two: "(2::int) ^ LENGTH('a) = 2 * ?h"
    by (metis One_nat_def Suc_pred len_gt_0 power_Suc)
  define z where "z = (if s then ?h else 0) + g"
  have "0 \<le> z" "z < 2 ^ LENGTH('a)" using assms two by (auto simp: z_def)
  then have "uint (word_of_int z :: 'a word) = z" by (simp add: uint_word_of_int take_bit_eq_mod)
  then show ?thesis unfolding f_make_def z_def .
qed

lemma f_make_parts [float_simps]:
  assumes "0 \<le> g" "g < 2 ^ (LENGTH('a) - 1)"
  shows "f_sign (f_make s g :: 'a::len word) = s" "f_mag (f_make s g :: 'a::len word) = g"
  using assms by (auto simp: f_sign_def f_mag_def uint_f_make)

lemma word_eq_parts: "(v :: 'a::len word) = w \<longleftrightarrow> f_sign v = f_sign w \<and> f_mag v = f_mag w"
proof
  assume "f_sign v = f_sign w \<and> f_mag v = f_mag w"
  then have "f_make (f_sign v) (f_mag v) = (f_make (f_sign w) (f_mag w) :: 'a word)" by simp
  then show "v = w" by simp
qed simp

section \<open>Comparisons\<close>

lemma total_key_inj: "total_key v = total_key w \<longleftrightarrow> v = w"
proof
  assume eq: "total_key v = total_key w"
  have nn: "0 \<le> f_mag v" "0 \<le> f_mag w" by simp_all
  show "v = w"
    using eq nn unfolding word_eq_parts total_key_def
    by (cases "f_sign v"; cases "f_sign w"; simp; linarith?)
qed simp

lemma inj_total_key: "inj total_key"
  by (rule injI) (simp add: total_key_inj)

lemma ieee_key_less_total: "ieee_key a < ieee_key b \<Longrightarrow> total_key a < total_key b"
proof -
  assume lt: "ieee_key a < ieee_key b"
  have "0 \<le> f_mag a" "0 \<le> f_mag b" by simp_all
  with lt show ?thesis unfolding ieee_key_def total_key_def
    by (cases "f_sign a"; cases "f_sign b"; simp; linarith?)
qed

lemma f_lt_total: "f_lt F a b \<Longrightarrow> total_key a < total_key b"
  by (simp add: f_lt_def ieee_key_less_total)

lemma total_le_ieee: "total_key a \<le> total_key b \<Longrightarrow> ieee_key a \<le> ieee_key b"
  using ieee_key_less_total [of b a] by linarith

text \<open>The key of every ranking of the code: descending score, then ascending id.\<close>

lemma score_desc_key:
  "then_with (total_cmp y x) (compare i j) = compare (- total_key x, i) (- total_key y, j)"
proof -
  have "total_cmp y x = compare (- total_key x) (- total_key y)"
    by (simp add: total_cmp_def compare_def)
  then show ?thesis by (simp add: then_with_compare)
qed

lemma f_lt_irrefl [simp]: "\<not> f_lt F a a"
  by (simp add: f_lt_def)

lemma f_lt_trans: "f_lt F a b \<Longrightarrow> f_lt F b c \<Longrightarrow> f_lt F a c"
  by (auto simp: f_lt_def)

lemma f_eq_refl: "f_eq F a a \<longleftrightarrow> \<not> f_nan F a"
  by (auto simp: f_eq_def)

lemma finite_not_nan: "f_finite F a \<Longrightarrow> \<not> f_nan F a"
  by (simp add: f_finite_def f_nan_def)

text \<open>Off NaN the IEEE comparisons decide, and agree with the total order up to signed zeros.\<close>

lemma f_trichotomy:
  "\<not> f_nan F a \<Longrightarrow> \<not> f_nan F b \<Longrightarrow> f_lt F a b \<or> f_eq F a b \<or> f_lt F b a"
  by (auto simp: f_lt_def f_eq_def)

section \<open>Rounding is exact on representable values\<close>

lemma bit_length_pos:
  "0 < m \<Longrightarrow> 2 ^ (bit_length m - 1) \<le> m \<and> m < 2 ^ bit_length m \<and> 0 < bit_length m"
proof (induction m rule: bit_length.induct)
  case (1 m)
  show ?case
  proof (cases "m = 1")
    case True
    then show ?thesis by (simp add: bit_length.simps)
  next
    case False
    with 1 have "0 < m div 2" by simp
    with 1 False have ih: "2 ^ (bit_length (m div 2) - 1) \<le> m div 2"
      "m div 2 < 2 ^ bit_length (m div 2)" "0 < bit_length (m div 2)" by simp_all
    obtain k where k: "bit_length (m div 2) = Suc k" using ih(3) by (cases "bit_length (m div 2)") auto
    have "bit_length m = Suc (Suc k)" using 1 k by (simp add: bit_length.simps [of m])
    moreover have "2 * (m div 2) \<le> m" "m < 2 * (m div 2) + 2" by presburger+
    moreover have "2 ^ Suc k \<le> 2 * (m div 2)" using ih(1) k by simp
    moreover have "m div 2 + 1 \<le> 2 ^ Suc k" using ih(2) k by simp
    ultimately show ?thesis by simp
  qed
qed

lemma bit_length_unique:
  assumes "2 ^ k \<le> m" "m < 2 ^ Suc k"
  shows "bit_length m = Suc k"
proof -
  have m: "0 < m" using assms(1) by (smt (verit) zero_less_power)
  note b = bit_length_pos [OF m]
  have "(2::int) ^ k < 2 ^ bit_length m" using assms(1) b by linarith
  then have "k < bit_length m" by simp
  moreover have "(2::int) ^ (bit_length m - 1) < 2 ^ Suc k" using assms(2) b by linarith
  then have "bit_length m - 1 < Suc k" by (rule power_less_imp_less_exp [rotated]) simp
  ultimately show ?thesis by simp
qed

lemma bit_length_le: "0 < m \<Longrightarrow> m < 2 ^ k \<Longrightarrow> bit_length m \<le> k"
proof -
  assume "0 < m" "m < 2 ^ k"
  then have "(2::int) ^ (bit_length m - 1) < 2 ^ k" using bit_length_pos [of m] by linarith
  then have "bit_length m - 1 < k" by (rule power_less_imp_less_exp [rotated]) simp
  with bit_length_pos [of m] \<open>0 < m\<close> show ?thesis by linarith
qed

lemma bit_length_scale:
  assumes "0 < m"
  shows "bit_length (m * 2 ^ k) = bit_length m + k"
proof -
  obtain j where j: "bit_length m = Suc j" using bit_length_pos [OF assms] by (cases "bit_length m") auto
  have "2 ^ (j + k) \<le> m * 2 ^ k" "m * 2 ^ k < 2 ^ Suc (j + k)"
    using bit_length_pos [OF assms] j by (auto simp: power_add)
  then show ?thesis using bit_length_unique j by simp
qed

lemma round_half_even_scale:
  assumes "0 < d" "0 < c"
  shows "round_half_even (m * c) (d * c) = round_half_even m d"
proof -
  have q: "m * c div (d * c) = m div d" using assms by simp
  have r: "m * c mod (d * c) = m mod d * c" using assms by (simp add: mult_mod_left)
  have "d * c < 2 * (m mod d * c) \<longleftrightarrow> d < 2 * (m mod d)"
    using assms by (simp add: mult.assoc [symmetric])
  moreover have "2 * (m mod d * c) = d * c \<longleftrightarrow> 2 * (m mod d) = d"
    using assms by (simp add: mult.assoc [symmetric])
  ultimately show ?thesis by (simp add: round_half_even_def q r Let_def)
qed

lemma round_half_even_exact: "0 < d \<Longrightarrow> round_half_even (m * d) d = m"
  by (simp add: round_half_even_def Let_def)

lemma round_shift_scale: "round_shift (m * 2 ^ k) (sh + int k) = round_shift m sh"
proof (cases "0 < sh")
  case True
  then have "nat (sh + int k) = nat sh + k" by simp
  with True show ?thesis by (simp add: round_shift_def power_add round_half_even_scale)
next
  case False
  show ?thesis
  proof (cases "0 < sh + int k")
    case True
    then have "k = nat (sh + int k) + nat (- sh)" using False by simp
    then have "m * 2 ^ k = (m * 2 ^ nat (- sh)) * 2 ^ nat (sh + int k)"
      by (metis mult.assoc mult.commute power_add)
    then have "round_half_even (m * 2 ^ k) (2 ^ nat (sh + int k)) = m * 2 ^ nat (- sh)"
      by (simp only:) (rule round_half_even_exact, simp)
    with True False show ?thesis by (simp add: round_shift_def)
  next
    case f2: False
    then have "nat (- sh) = k + nat (- (sh + int k))" using False by simp
    then show ?thesis using False f2 by (simp add: round_shift_def power_add mult.assoc)
  qed
qed

lemma round_mag_scale: "round_mag F (m * 2 ^ k) (e - int k) = round_mag F m e"
proof (cases F)
  case (Pair eb mb)
  show ?thesis
  proof (cases "m \<le> 0")
    case True
    then have "m * 2 ^ k \<le> 0" by (simp add: mult_nonpos_nonneg)
    with True Pair show ?thesis by simp
  next
    case False
    define q where "q = max (e + int (bit_length m) - int (mb + 1)) (emin (eb, mb))"
    have bl: "bit_length (m * 2 ^ k) = bit_length m + k" using False by (simp add: bit_length_scale)
    have q': "max (e - int k + int (bit_length (m * 2 ^ k)) - int (mb + 1)) (emin (eb, mb)) = q"
      by (simp add: bl q_def)
    have sh: "round_shift (m * 2 ^ k) (q - (e - int k)) = round_shift m (q - e)"
      using round_shift_scale [of m k "q - e"] by (simp add: algebra_simps)
    have pos: "\<not> m * 2 ^ k \<le> 0" using False by (simp add: mult_le_0_iff)
    show ?thesis
      using False pos q' sh unfolding Pair round_mag.simps Let_def q_def [symmetric] by (simp only: if_False)
  qed
qed

lemma round_half_even_nonneg: "0 \<le> m \<Longrightarrow> 0 < d \<Longrightarrow> 0 \<le> round_half_even m d"
  by (auto simp: round_half_even_def Let_def pos_imp_zdiv_nonneg_iff)

lemma round_shift_nonneg: "0 \<le> m \<Longrightarrow> 0 \<le> round_shift m sh"
  by (auto simp: round_shift_def round_half_even_nonneg)

lemma inf_mag_nonneg [simp]: "0 \<le> inf_mag F"
  by (cases F) auto

lemma round_mag_range: "0 \<le> round_mag F m e" "round_mag F m e \<le> inf_mag F"
proof -
  obtain eb mb where F: "F = (eb, mb)" by fastforce
  show "0 \<le> round_mag F m e" "round_mag F m e \<le> inf_mag F"
    using round_shift_nonneg [of m] inf_mag_nonneg [of F]
    by (auto simp: F Let_def)
qed

lemma unpack_mag_FFin:
  assumes "unpack_mag (eb, mb) s g = FFin t m e"
  shows "t = s" "g < inf_mag (eb, mb)"
    "(g div 2 ^ mb = 0 \<and> m = g mod 2 ^ mb \<and> e = emin (eb, mb)) \<or>
     (g div 2 ^ mb \<noteq> 0 \<and> m = 2 ^ mb + g mod 2 ^ mb \<and> e = g div 2 ^ mb - 1 + emin (eb, mb))"
  using assms unfolding unpack_mag.simps Let_def by (simp_all del: inf_mag.simps emin.simps split: if_splits)

lemma round_mag_exact:
  assumes "0 < m" "emin (eb, mb) \<le> e" "bit_length m \<le> Suc mb"
    "bit_length m = Suc mb \<or> e = emin (eb, mb)"
  shows "round_mag (eb, mb) m e = min ((e - emin (eb, mb)) * 2 ^ mb + m) (inf_mag (eb, mb))"
proof -
  have "max (e + int (bit_length m) - int (mb + 1)) (emin (eb, mb)) = e"
    using assms by auto
  then show ?thesis using assms(1) by (simp add: Let_def round_shift_def del: emin.simps inf_mag.simps)
qed

lemma round_unpack:
  assumes "unpack_mag F s g = FFin t m e" "0 \<le> g"
  shows "round_mag F m e = g" "t = s"
proof -
  obtain eb mb where F: "F = (eb, mb)" by fastforce
  note u = unpack_mag_FFin [OF assms(1) [unfolded F]]
  show "t = s" by (rule u(1))
  define E f where "E = g div 2 ^ mb" and "f = g mod 2 ^ mb"
  have g: "g = E * 2 ^ mb + f" unfolding E_def f_def by (rule div_mult_mod_eq [symmetric])
  have f: "0 \<le> f" "f < 2 ^ mb" by (simp_all add: f_def)
  have E: "0 \<le> E" using assms(2) by (simp add: E_def pos_imp_zdiv_nonneg_iff)
  have cs: "(E = 0 \<and> m = f \<and> e = emin (eb, mb)) \<or>
    (E \<noteq> 0 \<and> m = 2 ^ mb + f \<and> e = E - 1 + emin (eb, mb))"
    using u(3) unfolding E_def f_def .
  then show "round_mag F m e = g"
  proof
    assume c: "E = 0 \<and> m = f \<and> e = emin (eb, mb)"
    show ?thesis
    proof (cases "m = 0")
      case False
      with c f have m: "0 < m" "m < 2 ^ mb" by simp_all
      then have "bit_length m \<le> mb" by (rule bit_length_le)
      with c m have "round_mag F m e = min m (inf_mag (eb, mb))"
        unfolding F by (subst round_mag_exact) simp_all
      with c g u(2) show ?thesis by simp
    qed (use c g in \<open>simp add: F\<close>)
  next
    assume c: "E \<noteq> 0 \<and> m = 2 ^ mb + f \<and> e = E - 1 + emin (eb, mb)"
    have "bit_length m = Suc mb" using c f by (intro bit_length_unique) auto
    moreover have "0 < m" using c f by (smt (verit) zero_less_power)
    ultimately have "round_mag F m e = min ((E - 1) * 2 ^ mb + m) (inf_mag (eb, mb))"
      using c E unfolding F by (subst round_mag_exact) (simp_all del: emin.simps)
    moreover have "(E - 1) * 2 ^ mb + m = g" using g c by (simp add: algebra_simps)
    ultimately show ?thesis using u(2) by simp
  qed
qed

lemma unpack_mag_cases:
  "unpack_mag F s g = FNaN \<longleftrightarrow> inf_mag F < g"
  "unpack_mag F s g = FInf t \<longleftrightarrow> g = inf_mag F \<and> t = s"
  by (cases F; auto simp: Let_def)+

text \<open>Packing an unpacked value gives its bits back, NaN payloads aside.\<close>

lemma f_pack_unpack:
  assumes "\<not> f_nan F w"
  shows "f_pack F (f_unpack F w) = w"
proof (cases "f_unpack F w")
  case FNaN
  with assms show ?thesis by (simp add: f_unpack_def unpack_mag_cases f_nan_def)
next
  case (FInf s)
  then have "inf_mag F = f_mag w" "s = f_sign w" by (simp_all add: f_unpack_def unpack_mag_cases)
  with FInf show ?thesis by simp
next
  case (FFin s m e)
  then have "round_mag F m e = f_mag w" "s = f_sign w"
    using round_unpack [of F "f_sign w" "f_mag w" s m e] by (simp_all add: f_unpack_def)
  with FFin show ?thesis by simp
qed

section \<open>Widening and narrowing\<close>

lemma unpack_zero:
  "unpack_mag b32 s 0 = FFin s 0 (emin b32)" "unpack_mag b64 s 0 = FFin s 0 (emin b64)"
  by (simp_all add: Let_def b32_def b64_def)

text \<open>
  A significand that fits, placed in the normal range of the format, unpacks to itself up to the
  scaling that normalises it.
\<close>

lemma unpack_round_normal:
  assumes "0 < m" "bit_length m \<le> Suc mb" "emin (eb, mb) \<le> e - int k" "k = Suc mb - bit_length m"
    "e - int k - emin (eb, mb) + 2 < 2 ^ eb"
  shows "unpack_mag (eb, mb) s (round_mag (eb, mb) m e) = FFin s (m * 2 ^ k) (e - int k)"
    "round_mag (eb, mb) m e < inf_mag (eb, mb)"
proof -
  define M E where "M = m * 2 ^ k" and "E = e - int k - emin (eb, mb)"
  have bl: "bit_length M = Suc mb" using assms by (simp add: M_def bit_length_scale)
  have M: "0 < M" using assms(1) by (simp add: M_def)
  have rng: "2 ^ mb \<le> M" "M < 2 ^ Suc mb" using bit_length_pos [OF M] by (simp_all add: bl)
  have "round_mag (eb, mb) m e = round_mag (eb, mb) M (e - int k)"
    unfolding M_def by (rule round_mag_scale [symmetric])
  also have "\<dots> = min (E * 2 ^ mb + M) (inf_mag (eb, mb))"
    unfolding E_def using M bl assms(3) by (intro round_mag_exact) auto
  finally have r: "round_mag (eb, mb) m e = min (E * 2 ^ mb + M) (inf_mag (eb, mb))" .
  have "(E + 2) * 2 ^ mb \<le> (2 ^ eb - 1) * 2 ^ mb"
    using assms(5) by (intro mult_right_mono) (auto simp: E_def)
  then have lt: "E * 2 ^ mb + M < inf_mag (eb, mb)" using rng by (simp add: algebra_simps)
  with r have g: "round_mag (eb, mb) m e = (E + 1) * 2 ^ mb + (M - 2 ^ mb)"
    by (simp add: algebra_simps)
  from r lt show lt': "round_mag (eb, mb) m e < inf_mag (eb, mb)" by simp
  have d: "((E + 1) * 2 ^ mb + (M - 2 ^ mb)) div 2 ^ mb = E + 1"
    using rng by (subst div_mult_self3) (simp_all add: div_pos_pos_trivial)
  have r2: "((E + 1) * 2 ^ mb + (M - 2 ^ mb)) mod 2 ^ mb = M - 2 ^ mb"
    by (subst minus_div_mult_eq_mod [symmetric], subst d) (simp add: algebra_simps)
  have "0 \<le> E" using assms(3) by (simp add: E_def)
  then show "unpack_mag (eb, mb) s (round_mag (eb, mb) m e) = FFin s (m * 2 ^ k) (e - int k)"
    using lt' unfolding unpack_mag.simps Let_def g d r2
    by (simp add: M_def E_def del: inf_mag.simps emin.simps)
qed

lemma b32_FFin_bounds:
  assumes "unpack_mag b32 s g = FFin t m e" "0 \<le> g"
  shows "0 \<le> m" "m < 2 ^ 24" "- 149 \<le> e" "e \<le> 104"
proof -
  note u = unpack_mag_FFin [OF assms(1) [unfolded b32_def]]
  have E: "0 \<le> g div 2 ^ 23" "g div 2 ^ 23 < 255"
    using u(2) assms(2) by (simp_all add: pos_imp_zdiv_nonneg_iff)
  have f: "0 \<le> g mod 2 ^ 23" "g mod 2 ^ 23 < (2 ^ 23 :: int)" by simp_all
  from u(3) E f show "0 \<le> m" "m < 2 ^ 24" "- 149 \<le> e" "e \<le> 104" by auto
qed

lemma widen_narrow_FFin:
  assumes "unpack_mag b32 s g = FFin t m e" "0 \<le> g"
  obtains m' e' where
    "unpack_mag b64 u (round_mag b64 m e) = FFin u m' e'" "round_mag b64 m e < inf_mag b64"
    "round_mag b32 m' e' = g"
proof (cases "m = 0")
  case True
  then have "g = 0" using round_unpack(1) [OF assms] by (simp add: b32_def)
  with True show ?thesis
    using that [of 0 "emin b64"] unpack_zero(2) by (simp add: b64_def b32_def)
next
  case False
  note b = b32_FFin_bounds [OF assms]
  define k where "k = Suc 52 - bit_length m"
  have pos: "0 < m" using b False by simp
  have bl: "bit_length m \<le> 24" using pos b(2) by (rule bit_length_le)
  have k: "k \<le> 53" by (simp add: k_def)
  have n: "unpack_mag b64 u (round_mag b64 m e) = FFin u (m * 2 ^ k) (e - int k)"
    "round_mag b64 m e < inf_mag b64"
    unfolding b64_def
    by (rule unpack_round_normal; use pos bl b k in \<open>simp add: k_def\<close>)+
  have "round_mag b32 (m * 2 ^ k) (e - int k) = g"
    by (simp add: round_mag_scale round_unpack(1) [OF assms])
  with n show ?thesis by (rule that)
qed

lemma f_make_b32:
  assumes "0 \<le> g" "g \<le> inf_mag b32"
  shows "f_sign (f_make s g :: f32) = s" "f_mag (f_make s g :: f32) = g"
  using assms by (intro f_make_parts; simp add: b32_def)+

lemma f_make_b64:
  assumes "0 \<le> g" "g \<le> inf_mag b64"
  shows "f_sign (f_make s g :: f64) = s" "f_mag (f_make s g :: f64) = g"
  using assms by (intro f_make_parts; simp add: b64_def)+

lemma f32_of_f64_of_f32:
  assumes "\<not> f32_nan x"
  shows "f32_of_f64 (f64_of_f32 x) = x"
proof (cases "f_unpack b32 x")
  case FNaN
  with assms show ?thesis by (simp add: f_unpack_def unpack_mag_cases f32_nan_def f_nan_def)
next
  case (FInf s)
  then have x: "inf_mag b32 = f_mag x" "s = f_sign x" by (simp_all add: f_unpack_def unpack_mag_cases)
  have "f_unpack b64 (f64_of_f32 x) = FInf s"
    using FInf unfolding f64_of_f32_def
    by (simp add: f_unpack_def [of b64] f_make_b64 unpack_mag_cases)
  then show ?thesis using x by (simp add: f32_of_f64_def)
next
  case (FFin s m e)
  then have um: "unpack_mag b32 (f_sign x) (f_mag x) = FFin s m e" by (simp add: f_unpack_def)
  have s: "s = f_sign x" by (rule round_unpack(2) [OF um]) simp
  obtain m' e' where w: "unpack_mag b64 s (round_mag b64 m e) = FFin s m' e'"
    "round_mag b64 m e < inf_mag b64" "round_mag b32 m' e' = f_mag x"
    by (rule widen_narrow_FFin [OF um, of s]) auto
  have "f_unpack b64 (f64_of_f32 x) = FFin s m' e'"
    using FFin w(1,2) round_mag_range [of b64 m e]
    unfolding f64_of_f32_def by (simp add: f_unpack_def [of b64] f_make_b64)
  then show ?thesis using w(3) s by (simp add: f32_of_f64_def)
qed

section \<open>Integers below \<open>2 ^ 53\<close> convert exactly\<close>

lemma round_mag_small:
  assumes "0 < m" "m < 2 ^ 53"
  shows "round_mag b64 m 0 = (int (bit_length m) + 1021) * 2 ^ 52 + m * 2 ^ (53 - bit_length m)"
    "m * 2 ^ (53 - bit_length m) < 2 ^ 53" "2 ^ 52 \<le> m * 2 ^ (53 - bit_length m)"
proof -
  let ?k = "bit_length m"
  have k: "?k \<le> 53" "0 < ?k" using assms bit_length_le bit_length_pos by blast+
  have b: "2 ^ (?k - 1) \<le> m" "m < 2 ^ ?k" using bit_length_pos assms by blast+
  have s: "?k - 1 + (53 - ?k) = 52" "?k + (53 - ?k) = 53" using k by linarith+
  show up: "m * 2 ^ (53 - ?k) < 2 ^ 53"
    using mult_strict_right_mono [OF b(2), of "2 ^ (53 - ?k)"] s(2) by (simp flip: power_add)
  show "2 ^ 52 \<le> m * 2 ^ (53 - ?k)"
    using mult_right_mono [OF b(1), of "2 ^ (53 - ?k)"] s(1) by (simp flip: power_add)
  have q: "max (0 + int ?k - int (52 + 1)) (emin b64) = int ?k - 53"
    using k by (simp add: b64_def)
  have "round_shift m (int ?k - 53 - 0) = m * 2 ^ (53 - ?k)"
    using k by (simp add: round_shift_def nat_diff_distrib)
  then show "round_mag b64 m 0 = (int ?k + 1021) * 2 ^ 52 + m * 2 ^ (53 - ?k)"
    using q assms(1) k up unfolding b64_def round_mag.simps Let_def
    by (simp add: b64_def)
qed

lemma bit_length_mono: "0 < m \<Longrightarrow> m \<le> n \<Longrightarrow> bit_length m \<le> bit_length n"
  using bit_length_pos [of n] by (intro bit_length_le) linarith+

lemma round_mag_small_less:
  assumes "0 \<le> m" "m < n" "n < 2 ^ 53"
  shows "round_mag b64 m 0 < round_mag b64 n 0"
proof (cases "m = 0")
  case True
  then show ?thesis using round_mag_small [of n] assms by (simp add: b64_def del: round_mag.simps) (simp add: b64_def)
next
  case False
  then have p: "0 < m" "m < 2 ^ 53" "0 < n" using assms by simp_all
  note rm = round_mag_small [OF p(1,2)] and rn = round_mag_small [OF p(3) assms(3)]
  show ?thesis
  proof (cases "bit_length m = bit_length n")
    case True
    then show ?thesis using rm(1) rn(1) assms(2) by simp
  next
    case False
    then have "int (bit_length m) + 1 \<le> int (bit_length n)"
      using bit_length_mono [OF p(1), of n] assms(2) by linarith
    then show ?thesis unfolding rm(1) rn(1) using rm(2) rn(3) by simp
  qed
qed

lemma int_as_f64_key:
  assumes "\<bar>a\<bar> < 2 ^ 53" "\<bar>b\<bar> < 2 ^ 53"
  shows "f_nan b64 (f64_of_int a) = False" "ieee_key (f64_of_int a) < ieee_key (f64_of_int b) \<longleftrightarrow> a < b"
proof -
  have key: "ieee_key (f64_of_int n) = (if n < 0 then - round_mag b64 \<bar>n\<bar> 0 else round_mag b64 \<bar>n\<bar> 0)" for n
    using f_make_b64 [OF round_mag_range [of b64 "\<bar>n\<bar>" 0]]
    by (cases "n < 0") (simp_all add: f64_of_int_def ieee_key_def)
  have nn: "0 \<le> round_mag b64 \<bar>n\<bar> 0" "n \<noteq> 0 \<Longrightarrow> \<bar>n\<bar> < 2 ^ 53 \<Longrightarrow> 0 < round_mag b64 \<bar>n\<bar> 0" for n
    using round_mag_range(1) round_mag_small_less [of 0 "\<bar>n\<bar>"] round_mag_range(1) [of b64 0 0] by fastforce+
  have z: "round_mag b64 0 0 = 0" by (simp add: b64_def)
  show "f_nan b64 (f64_of_int a) = False"
    using f_make_b64 [OF round_mag_range [of b64 "\<bar>a\<bar>" 0]] round_mag_range(2) [of b64 "\<bar>a\<bar>" 0]
    by (simp add: f64_of_int_def f_nan_def)
  have less: "x < y \<Longrightarrow> ieee_key (f64_of_int x) < ieee_key (f64_of_int y)"
    if "\<bar>x\<bar> < 2 ^ 53" "\<bar>y\<bar> < 2 ^ 53" for x y
    using that nn(1) [of x] nn(1) [of y] nn(2) [of x] nn(2) [of y] z
      round_mag_small_less [of "\<bar>x\<bar>" "\<bar>y\<bar>"] round_mag_small_less [of "\<bar>y\<bar>" "\<bar>x\<bar>"]
    unfolding key by (cases "x < 0"; cases "y < 0") auto
  show "ieee_key (f64_of_int a) < ieee_key (f64_of_int b) \<longleftrightarrow> a < b"
    using less [OF assms] less [OF assms(2,1)] by (metis linorder_less_linear not_less_iff_gr_or_eq)
qed

section \<open>Symmetry of the arithmetic\<close>

lemma fp_mul_commute: "fp_mul x y = fp_mul y x"
  by (cases x; cases y) (auto simp: mult.commute add.commute)

lemma f32_mul_commute: "f32_mul a b = f32_mul b a"
  by (simp add: f32_mul_def fp_mul_commute)

lemma fp_add_commute: "fp_add x y = fp_add y x"
  by (cases x; cases y) (auto simp: Let_def min.commute add.commute)

lemma f32_add_commute: "f32_add a b = f32_add b a"
  by (simp add: f32_add_def fp_add_commute)

definition same_abs :: "fp \<Rightarrow> fp \<Rightarrow> bool" where
  "same_abs x y \<longleftrightarrow> x = y \<or> x = fp_neg y \<or>
     (\<exists>s t m e. x = FFin s m e \<and> y = FFin t m e)"

lemma fp_sub_swap: "same_abs (fp_add x (fp_neg y)) (fp_add y (fp_neg x))"
proof (cases x; cases y)
  fix s m e t n f assume xy: "x = FFin s m e" "y = FFin t n f"
  let ?q = "min e f"
  let ?a = "signed_of s (m * 2 ^ nat (e - ?q))" and ?b = "signed_of t (n * 2 ^ nat (f - ?q))"
  have "fp_add x (fp_neg y) = FFin (if ?a - ?b = 0 then s \<and> \<not> t else ?a - ?b < 0) \<bar>?a - ?b\<bar> ?q"
    "fp_add y (fp_neg x) = FFin (if ?b - ?a = 0 then t \<and> \<not> s else ?b - ?a < 0) \<bar>?b - ?a\<bar> ?q"
    by (auto simp: xy Let_def signed_of_def min.commute)
  moreover have "\<bar>?b - ?a\<bar> = \<bar>?a - ?b\<bar>" by (rule abs_minus_commute)
  ultimately show ?thesis unfolding same_abs_def by metis
qed (auto simp: same_abs_def)

lemma pack_same_abs:
  assumes "same_abs x y"
  shows "f_mag (f_pack b32 x :: f32) = f_mag (f_pack b32 y :: f32)"
proof -
  have p: "f_mag (f_pack b32 x :: f32) = (case x of FNaN \<Rightarrow> nan_mag b32 | FInf s \<Rightarrow> inf_mag b32
      | FFin s m e \<Rightarrow> round_mag b32 m e)" for x
    using round_mag_range [of b32]
    by (cases x) (simp_all add: f_make_b32, simp add: b32_def f_make_parts)
  show ?thesis using assms unfolding p same_abs_def by (cases x; cases y) auto
qed

lemma f32_square_mag: "f_mag a = f_mag b \<Longrightarrow> f32_mul a a = f32_mul b b"
proof -
  have "fp_mul (unpack_mag F s g) (unpack_mag F s g) = fp_mul (unpack_mag F t g) (unpack_mag F t g)"
    for F s t g by (cases F) (auto simp: Let_def)
  then show "f_mag a = f_mag b \<Longrightarrow> f32_mul a a = f32_mul b b"
    by (simp add: f32_mul_def f_unpack_def) metis
qed

lemma f32_sub_square_commute: "f32_mul (f32_sub a b) (f32_sub a b) = f32_mul (f32_sub b a) (f32_sub b a)"
  unfolding f32_sub_def by (intro f32_square_mag pack_same_abs fp_sub_swap)

section \<open>Small integers in \<open>f32\<close>\<close>

lemma unpack_small_f32:
  assumes "0 < n" "n < 2 ^ 24"
  shows "f_unpack b32 (f32_of_int n) = FFin False (n * 2 ^ (24 - bit_length n)) (- int (24 - bit_length n))"
proof -
  have bl: "bit_length n \<le> 24" using assms by (rule bit_length_le)
  have "unpack_mag b32 False (round_mag b32 n 0) = FFin False (n * 2 ^ (24 - bit_length n)) (0 - int (24 - bit_length n))"
    unfolding b32_def by (rule unpack_round_normal) (use assms(1) bl in simp_all)
  then show ?thesis
    using assms(1) f_make_b32 [OF round_mag_range [of b32 n 0], of False] by (simp add: f32_of_int_def f_unpack_def)
qed

text \<open>The sum of two is rounded as the integer would be.\<close>

lemma common_exponent:
  fixes a b :: int and j k :: nat
  shows "a * 2 ^ j * 2 ^ nat (- int j - min (- int j) (- int k)) + b * 2 ^ k * 2 ^ nat (- int k - min (- int j) (- int k)) =
    (a + b) * 2 ^ max j k"
proof -
  have "nat (- int j - min (- int j) (- int k)) = max j k - j" "nat (- int k - min (- int j) (- int k)) = max j k - k" by linarith+
  moreover have "j + (max j k - j) = max j k" "k + (max j k - k) = max j k" by simp_all
  ultimately show ?thesis by (simp add: distrib_right mult.assoc flip: power_add)
qed

lemma f32_add_small:
  assumes "0 < a" "a < 2 ^ 24" "0 < b" "b < 2 ^ 24"
  shows "f32_add (f32_of_int a) (f32_of_int b) = f32_of_int (a + b)"
proof -
  let ?j = "24 - bit_length a" and ?k = "24 - bit_length b"
  define m where "m = max ?j ?k"
  have e: "min (- int ?j) (- int ?k) = 0 - int m" by (simp add: m_def)
  have z: "(a + b) * 2 ^ m \<noteq> 0" "\<not> (a + b) * 2 ^ m < 0" "\<bar>(a + b) * 2 ^ m\<bar> = (a + b) * 2 ^ m"
    using assms(1,3) by (simp_all add: not_less)
  have "fp_add (f_unpack b32 (f32_of_int a)) (f_unpack b32 (f32_of_int b)) = FFin False ((a + b) * 2 ^ m) (0 - int m)"
    unfolding unpack_small_f32 [OF assms(1,2)] unpack_small_f32 [OF assms(3,4)] fp_add.simps Let_def signed_of_def if_False
      common_exponent unfolding e m_def [symmetric] using z by simp
  then show ?thesis
    using assms(1,3) unfolding f32_add_def f32_of_int_def [of "a + b"] by (simp only: f_pack.simps round_mag_scale) simp
qed

text \<open>A positive one over itself is one.\<close>

lemma f32_div_self_small:
  assumes "0 < n" "n < 2 ^ 24"
  shows "f32_div (f32_of_int n) (f32_of_int n) = f32_of_int 1"
proof -
  let ?m = "n * 2 ^ (24 - bit_length n)"
  define k where "k = 23 + 3 + bit_length ?m"
  have m: "?m \<noteq> 0" using assms(1) by simp
  have "fp_div 23 (f_unpack b32 (f32_of_int n)) (f_unpack b32 (f32_of_int n)) = FFin False (1 * 2 ^ Suc k) (0 - int (Suc k))"
    using m unfolding unpack_small_f32 [OF assms] fp_div.simps Let_def k_def [symmetric] by (simp add: sticky_def)
  then show ?thesis
    unfolding f32_div_def f32_of_int_def by (simp only: f_pack.simps round_mag_scale) simp
qed

end
