(* ===== verification/Core.thy ===== *)
theory Core
  imports Softfloat
begin

text \<open>
  The data model of \<open>eidosdb-core\<close>: \<open>Dimension\<close>, \<open>VectorId\<close>, \<open>IndexError\<close>,
  \<open>Embedding\<close>, \<open>Metric\<close> with its scoring functions, \<open>Score\<close> and
  \<open>Neighbor\<close>, in the order of the crate's modules.
  A \<open>Vec<f32>\<close> is a list of bit patterns; a UUID is its 128 bits read big-endian, which is the
  order \<open>Uuid: Ord\<close> compares.
\<close>

section \<open>Dimension\<close>

datatype Dimension = Dimension u32

datatype DimensionError = Zero | TooLarge nat

definition Dimension_get :: "Dimension \<Rightarrow> nat" where
  "Dimension_get d = (case d of Dimension raw \<Rightarrow> unat raw)"

definition Dimension_try_from :: "u32 \<Rightarrow> DimensionError + Dimension" where
  "Dimension_try_from value = (if value = 0 then Inl Zero else Inr (Dimension value))"

definition Dimension_new :: "nat \<Rightarrow> DimensionError + Dimension" where
  "Dimension_new components =
     (if u32_max < components then Inl (TooLarge components)
      else if components = 0 then Inl Zero
      else Inr (Dimension (of_nat components)))"

section \<open>Identifiers\<close>

type_synonym uuid = "128 word"

datatype VectorId = VectorId uuid

definition VectorId_from_uuid :: "uuid \<Rightarrow> VectorId" where
  "VectorId_from_uuid u = VectorId u"

definition VectorId_as_uuid :: "VectorId \<Rightarrow> uuid" where
  "VectorId_as_uuid i = (case i of VectorId u \<Rightarrow> u)"

text \<open>The derived \<open>Ord\<close>.\<close>

instantiation VectorId :: linorder
begin

definition less_eq_VectorId :: "VectorId \<Rightarrow> VectorId \<Rightarrow> bool" where
  "a \<le> b \<longleftrightarrow> VectorId_as_uuid a \<le> VectorId_as_uuid b"

definition less_VectorId :: "VectorId \<Rightarrow> VectorId \<Rightarrow> bool" where
  "a < b \<longleftrightarrow> VectorId_as_uuid a < VectorId_as_uuid b"

instance
  by standard
    (auto simp: less_eq_VectorId_def less_VectorId_def VectorId_as_uuid_def split: VectorId.splits)

end

section \<open>Metrics, scores and neighbours\<close>

datatype Metric = Cosine | DotProduct | Euclidean

datatype Score = Score (score_value: f32)

record Neighbor =
  neighbor_id :: VectorId
  neighbor_score :: Score

text \<open>\<open>Iterator::sum\<close> of floats starts from negative zero, the neutral element of \<open>+\<close>.\<close>

definition f32_sum :: "f32 list \<Rightarrow> f32" where
  "f32_sum xs = foldl f32_add f32_neg_zero xs"

definition dot :: "f32 list \<Rightarrow> f32 list \<Rightarrow> f32" where
  "dot a b = f32_sum (map (\<lambda>(x, y). f32_mul x y) (zip a b))"

definition euclidean :: "f32 list \<Rightarrow> f32 list \<Rightarrow> f32" where
  "euclidean a b =
     f32_sqrt (f32_sum (map (\<lambda>(x, y). let d = f32_sub x y in f32_mul d d) (zip a b)))"

definition cosine :: "f32 list \<Rightarrow> f32 list \<Rightarrow> f32" where
  "cosine a b =
     (let norm_a = f32_sqrt (dot a a);
          norm_b = f32_sqrt (dot b b)
      in if f32_eq norm_a 0 \<or> f32_eq norm_b 0 then 0
         else f32_div (dot a b) (f32_mul norm_a norm_b))"

definition Metric_score :: "Metric \<Rightarrow> f32 list \<Rightarrow> f32 list \<Rightarrow> Score" where
  "Metric_score m a b =
     (case m of
        Cosine \<Rightarrow> Score (cosine a b)
      | DotProduct \<Rightarrow> Score (dot a b)
      | Euclidean \<Rightarrow> Score (f_neg (euclidean a b)))"

section \<open>Errors and embeddings\<close>

datatype IndexError =
    DimensionMismatch nat nat
  | DuplicateId VectorId
  | EmptyEmbedding
  | NonFiniteComponent
  | Backend string
  | UnsupportedMetric Metric

datatype Embedding = Embedding (as_slice: "f32 list")

definition Embedding_new :: "f32 list \<Rightarrow> IndexError + Embedding" where
  "Embedding_new values =
     (if values = [] then Inl EmptyEmbedding
      else if \<exists>value \<in> set values. \<not> f32_finite value then Inl NonFiniteComponent
      else Inr (Embedding values))"

text \<open>
  \<open>Embedding::dimension\<close> panics where \<open>Dimension::new\<close> fails; that branch is the value
  \<open>Dimension 0\<close>, which no \<open>Dimension\<close> of the program has.
\<close>

definition Embedding_dimension :: "Embedding \<Rightarrow> Dimension" where
  "Embedding_dimension e =
     (case Dimension_new (length (as_slice e)) of Inl _ \<Rightarrow> Dimension 0 | Inr d \<Rightarrow> d)"

definition embedding_ok :: "Embedding \<Rightarrow> bool" where
  "embedding_ok e \<longleftrightarrow> as_slice e \<noteq> [] \<and> (\<forall>x \<in> set (as_slice e). f32_finite x)"

section \<open>Facts\<close>

lemma Dimension_new_Inr:
  "Dimension_new n = Inr d \<longleftrightarrow> 0 < n \<and> n \<le> u32_max \<and> d = Dimension (of_nat n)"
  by (auto simp: Dimension_new_def)

lemma Dimension_get_new: "Dimension_new n = Inr d \<Longrightarrow> Dimension_get d = n"
  by (auto simp: Dimension_new_Inr Dimension_get_def u32_max_def unat_of_nat)

lemma Embedding_new_Inr:
  "Embedding_new values = Inr e \<longleftrightarrow> e = Embedding values \<and> embedding_ok e"
  by (auto simp: Embedding_new_def embedding_ok_def)

lemma Embedding_dimension_get:
  "as_slice e \<noteq> [] \<Longrightarrow> length (as_slice e) \<le> u32_max \<Longrightarrow>
   Dimension_get (Embedding_dimension e) = length (as_slice e)"
  by (simp add: Embedding_dimension_def Dimension_new_def Dimension_get_def u32_max_def unat_of_nat)

lemma VectorId_less_simps [simp]:
  "VectorId a \<le> VectorId b \<longleftrightarrow> a \<le> b" "VectorId a < VectorId b \<longleftrightarrow> a < b"
  by (simp_all add: less_eq_VectorId_def less_VectorId_def VectorId_as_uuid_def)

section \<open>Every metric is symmetric, bit for bit\<close>

lemma dot_commute: "dot a b = dot b a"
proof -
  have "map (\<lambda>(x, y). f32_mul x y) (zip a b) = map (\<lambda>(x, y). f32_mul x y) (zip b a)"
    by (subst zip_commute) (auto simp: f32_mul_commute intro!: map_cong)
  then show ?thesis by (simp add: dot_def)
qed

lemma euclidean_commute: "euclidean a b = euclidean b a"
proof -
  have "map (\<lambda>(x, y). let d = f32_sub x y in f32_mul d d) (zip a b)
      = map (\<lambda>(x, y). let d = f32_sub x y in f32_mul d d) (zip b a)"
    by (subst zip_commute) (auto simp: Let_def f32_sub_square_commute intro!: map_cong)
  then show ?thesis by (simp add: euclidean_def)
qed

lemma cosine_commute: "cosine a b = cosine b a"
  by (auto simp: cosine_def Let_def dot_commute [of a b] f32_mul_commute)

text \<open>
  Scoring is symmetric: whatever the metric, the score of \<open>a\<close> against \<open>b\<close> is bit for bit the
  score of \<open>b\<close> against \<open>a\<close>, rounding, overflow and the zero-norm rule included.
\<close>

lemma Metric_score_commute: "Metric_score m a b = Metric_score m b a"
  by (cases m) (simp_all add: Metric_score_def dot_commute [of a b] euclidean_commute [of a b]
      cosine_commute [of a b])

end
