(* ===== verification/Bytes.thy ===== *)
theory Bytes
  imports Core
begin

text \<open>
  Integers as bytes: \<open>to_le_bytes\<close> and \<open>from_le_bytes\<close> of a given width, their
  big-endian mirror images for UUIDs, and \<open>BTreeMap\<close> built from a sequence of entries.
\<close>

section \<open>Little endian\<close>

fun le_bytes :: "nat \<Rightarrow> nat \<Rightarrow> u8 list" where
  "le_bytes 0 n = []"
| "le_bytes (Suc k) n = word_of_nat n # le_bytes k (n div 256)"

fun le_val :: "u8 list \<Rightarrow> nat" where
  "le_val [] = 0"
| "le_val (b # bs) = unat b + 256 * le_val bs"

lemma length_le_bytes [simp]: "length (le_bytes k n) = k"
  by (induction k arbitrary: n) simp_all

lemma unat_u8 [simp]: "unat (word_of_nat n :: u8) = n mod 256"
  by (simp add: unat_of_nat)

lemma le_val_bytes: "le_val (le_bytes k n) = n mod 256 ^ k"
proof (induction k arbitrary: n)
  case (Suc k)
  have "n mod 256 + 256 * (n div 256 mod 256 ^ k) = n mod 256 ^ Suc k"
    by (simp add: mod_mult2_eq)
  with Suc show ?case by simp
qed simp

lemma u8_less [simp]: "unat (b :: u8) < 256"
  by (rule order_less_le_trans [OF unsigned_less]) simp

lemma le_bytes_val: "le_bytes (length bs) (le_val bs) = bs"
proof (induction bs)
  case (Cons b bs)
  have "(word_of_nat (unat b + 256 * le_val bs) :: u8) = b"
  proof -
    have "(256 :: u8) = 0" by simp
    then show ?thesis by (simp only: of_nat_add of_nat_mult of_nat_numeral) simp
  qed
  then show ?case using Cons by simp
qed simp

lemma le_val_less: "le_val bs < 256 ^ length bs"
proof (induction bs)
  case (Cons b bs)
  then have "Suc (le_val bs) \<le> 256 ^ length bs" by simp
  then have step: "256 * Suc (le_val bs) \<le> 256 * 256 ^ length bs" by (rule mult_le_mono2)
  have arith: "u < 256 \<Longrightarrow> 256 * Suc v \<le> w \<Longrightarrow> u + 256 * v < w" for u v w :: nat by simp
  show ?case unfolding le_val.simps length_Cons power_Suc by (rule arith [OF u8_less step])
qed simp

lemma le_bytes_inj: "m < 256 ^ k \<Longrightarrow> n < 256 ^ k \<Longrightarrow> le_bytes k m = le_bytes k n \<Longrightarrow> m = n"
  by (metis le_val_bytes mod_less)

section \<open>UUIDs\<close>

text \<open>\<open>Uuid::as_bytes\<close> and \<open>Uuid::from_bytes\<close>: sixteen bytes in network order.\<close>

definition uuid_as_bytes :: "uuid \<Rightarrow> u8 list" where
  "uuid_as_bytes u = rev (le_bytes 16 (unat u))"

definition uuid_from_bytes :: "u8 list \<Rightarrow> uuid" where
  "uuid_from_bytes bs = word_of_nat (le_val (rev bs))"

lemma length_uuid_as_bytes [simp]: "length (uuid_as_bytes u) = 16"
  by (simp add: uuid_as_bytes_def)

lemma uuid_roundtrip [simp]: "uuid_from_bytes (uuid_as_bytes u) = u"
proof -
  have "unat u < 256 ^ 16" using unsigned_less [of u] by simp
  then show ?thesis by (simp add: uuid_as_bytes_def uuid_from_bytes_def le_val_bytes)
qed

lemma uuid_bytes_roundtrip:
  assumes "length bs = 16"
  shows "uuid_as_bytes (uuid_from_bytes bs) = bs"
proof -
  have "le_val (rev bs) < 2 ^ 128" using le_val_less [of "rev bs"] assms by simp
  then have "unat (word_of_nat (le_val (rev bs)) :: uuid) = le_val (rev bs)"
    by (simp add: unat_of_nat)
  then show ?thesis using le_bytes_val [of "rev bs"] assms
    by (simp add: uuid_as_bytes_def uuid_from_bytes_def)
qed

lemma uuid_as_bytes_inj [simp]: "uuid_as_bytes u = uuid_as_bytes v \<longleftrightarrow> u = v"
  by (metis uuid_roundtrip)

section \<open>Ordered maps\<close>

fun bt_insert :: "'k::linorder \<Rightarrow> 'v \<Rightarrow> ('k \<times> 'v) list \<Rightarrow> ('k \<times> 'v) list" where
  "bt_insert k v [] = [(k, v)]"
| "bt_insert k v ((k', v') # m) =
     (if k < k' then (k, v) # (k', v') # m
      else if k = k' then (k, v) # m
      else (k', v') # bt_insert k v m)"

definition bt_collect :: "('k::linorder \<times> 'v) list \<Rightarrow> ('k \<times> 'v) list" where
  "bt_collect xs = foldl (\<lambda>m (k, v). bt_insert k v m) [] xs"

definition btree_ok :: "('k::linorder \<times> 'v) list \<Rightarrow> bool" where
  "btree_ok m \<longleftrightarrow> sorted (map fst m) \<and> distinct (map fst m)"

lemma bt_insert_keys: "set (map fst (bt_insert k v m)) = insert k (set (map fst m))"
  by (induction k v m rule: bt_insert.induct) auto

lemma btree_ok_Cons: "btree_ok ((k, v) # m) \<longleftrightarrow> btree_ok m \<and> (\<forall>k' \<in> set (map fst m). k < k')"
  by (force simp: btree_ok_def less_le)

lemma bt_insert_ok: "btree_ok m \<Longrightarrow> btree_ok (bt_insert k v m)"
proof (induction m)
  case Nil
  then show ?case by (simp add: btree_ok_def)
next
  case (Cons p m)
  obtain k' v' where p: "p = (k', v')" by fastforce
  show ?case using Cons bt_insert_keys [of k v m]
    unfolding p bt_insert.simps by (auto simp: btree_ok_Cons simp del: set_map)
qed

lemma map_of_bt_insert: "btree_ok m \<Longrightarrow> map_of (bt_insert k v m) = (map_of m)(k \<mapsto> v)"
proof (induction m)
  case (Cons p m)
  obtain k' v' where p: "p = (k', v')" by fastforce
  show ?case using Cons by (auto simp: p btree_ok_Cons)
qed simp

lemma bt_collect_ok:
  "btree_ok (bt_collect xs) \<and> map_of (bt_collect xs) = foldl (\<lambda>f (k, v). f(k \<mapsto> v)) Map.empty xs"
proof -
  have "btree_ok m \<Longrightarrow> btree_ok (foldl (\<lambda>m (k, v). bt_insert k v m) m xs) \<and>
      map_of (foldl (\<lambda>m (k, v). bt_insert k v m) m xs) = foldl (\<lambda>f (k, v). f(k \<mapsto> v)) (map_of m) xs" for m
    by (induction xs arbitrary: m) (auto simp: bt_insert_ok map_of_bt_insert)
  from this [of "[]"] show ?thesis by (simp add: bt_collect_def btree_ok_def)
qed

lemma updates_map_of:
  "distinct (map fst xs) \<Longrightarrow> foldl (\<lambda>f (k, v). f(k \<mapsto> v)) Map.empty xs = map_of xs"
proof (induction xs rule: rev_induct)
  case (snoc p xs)
  obtain k v where p: "p = (k, v)" by fastforce
  have "k \<notin> fst ` set ys \<Longrightarrow> map_of (ys @ [(k, v)]) = (map_of ys)(k \<mapsto> v)" for ys
    by (induction ys) auto
  with snoc show ?case by (simp add: p del: map_of_append)
qed simp

lemma btree_unique: "btree_ok m \<Longrightarrow> btree_ok n \<Longrightarrow> map_of m = map_of n \<Longrightarrow> m = n"
proof -
  assume m: "btree_ok m" and n: "btree_ok n" and eq: "map_of m = map_of n"
  have "set (map fst m) = set (map fst n)" using eq by (metis dom_map_of_conv_image_fst set_map)
  then have keys: "map fst m = map fst n"
    using m n by (simp add: btree_ok_def sorted_distinct_set_unique)
  have "xs = map (\<lambda>k. (k, the (map_of xs k))) (map fst xs)" if "distinct (map fst xs)" for xs :: "('a \<times> 'b) list"
  proof -
    have "map ((\<lambda>k. (k, the (map_of xs k))) \<circ> fst) xs = xs"
      by (rule map_idI) (use that in auto)
    then show ?thesis by simp
  qed
  then show "m = n" using m n keys eq unfolding btree_ok_def by metis
qed

text \<open>Collecting the entries of an ordered map, in whatever order, rebuilds it.\<close>

lemma bt_collect_mset:
  assumes "btree_ok m" "mset xs = mset m"
  shows "bt_collect xs = m"
proof (rule btree_unique)
  have "mset (map fst xs) = mset (map fst m)" using assms(2) by simp
  then have d: "distinct (map fst xs)" using assms(1) by (metis btree_ok_def mset_eq_imp_distinct_iff)
  have s: "set xs = set m" using assms(2) by (metis set_mset_mset)
  have "map_of xs = map_of m"
  proof
    show "map_of xs k = map_of m k" for k
      using s d assms(1) by (metis btree_ok_def map_of_eq_None_iff map_of_eq_Some_iff not_Some_eq set_map)
  qed
  with d show "map_of (bt_collect xs) = map_of m" using bt_collect_ok [of xs] by (simp add: updates_map_of)
qed (use assms bt_collect_ok in auto)

end
