(* ===== verification/Strings.thy ===== *)
theory Strings
  imports Prelude
begin

text \<open>
  Rust's \<open>str\<close>: a \<open>string\<close> holds the UTF-8 bytes, \<open>chars\<close> decodes them into scalar values and
  \<open>encode_char\<close> is the way back. The Unicode tables of the standard library
  (\<open>char::is_alphanumeric\<close>, \<open>to_lowercase\<close>, \<open>is_whitespace\<close>) are the fields of a record
  the definitions take as an argument.
\<close>

record Unicode =
  uc_is_alphanumeric :: "nat \<Rightarrow> bool"
  uc_to_lowercase :: "nat \<Rightarrow> nat list"
  uc_is_whitespace :: "nat \<Rightarrow> bool"

text \<open>The tables restricted to ASCII, a concrete instance to evaluate with.\<close>

definition ascii :: Unicode where
  "ascii = \<lparr>uc_is_alphanumeric = (\<lambda>c. (48 \<le> c \<and> c \<le> 57) \<or> (65 \<le> c \<and> c \<le> 90) \<or> (97 \<le> c \<and> c \<le> 122)),
    uc_to_lowercase = (\<lambda>c. [if 65 \<le> c \<and> c \<le> 90 then c + 32 else c]),
    uc_is_whitespace = (\<lambda>c. c = 32 \<or> (9 \<le> c \<and> c \<le> 13))\<rparr>"

text \<open>The width of a sequence from its first byte, and its scalar value.\<close>

definition utf8_width :: "nat \<Rightarrow> nat" where
  "utf8_width b = (if b < 128 then 1 else if b < 224 then 2 else if b < 240 then 3 else 4)"

definition utf8_first :: "nat \<Rightarrow> nat" where
  "utf8_first b = (if b < 128 then b else if b < 224 then b mod 32 else if b < 240 then b mod 16 else b mod 8)"

definition utf8_seq :: "string \<Rightarrow> nat" where
  "utf8_seq cs = (case cs of [] \<Rightarrow> 0
     | b # rest \<Rightarrow> foldl (\<lambda>acc c. acc * 64 + of_char c mod 64) (utf8_first (of_char b)) rest)"

fun chars :: "string \<Rightarrow> nat list" where
  "chars [] = []"
| "chars (b # bs) =
     (let w = utf8_width (of_char b)
      in utf8_seq (b # take (w - 1) bs) # chars (drop (w - 1) bs))"

definition encode_char :: "nat \<Rightarrow> string" where
  "encode_char n =
     (if n < 128 then [char_of n]
      else if n < 2048 then [char_of (192 + n div 64), char_of (128 + n mod 64)]
      else if n < 65536
      then [char_of (224 + n div 4096), char_of (128 + n div 64 mod 64), char_of (128 + n mod 64)]
      else [char_of (240 + n div 262144), char_of (128 + n div 4096 mod 64),
            char_of (128 + n div 64 mod 64), char_of (128 + n mod 64)])"

definition encode_chars :: "nat list \<Rightarrow> string" where
  "encode_chars ns = concat (map encode_char ns)"

text \<open>\<open>str::trim().is_empty()\<close>: nothing is left but white space.\<close>

definition trim_is_empty :: "Unicode \<Rightarrow> string \<Rightarrow> bool" where
  "trim_is_empty U s \<longleftrightarrow> list_all (uc_is_whitespace U) (chars s)"

lemma of_char_char_of [simp]: "n < 256 \<Longrightarrow> (of_char (char_of n :: char) :: nat) = n"
  by simp

lemma utf8_masks:
  "a < 32 \<Longrightarrow> (192 + a) mod 32 = (a :: nat)" "a < 16 \<Longrightarrow> (224 + a) mod 16 = (a :: nat)"
  "a < 8 \<Longrightarrow> (240 + a) mod 8 = (a :: nat)" "(128 + a) mod 64 = a mod (64 :: nat)"
  using mod_mult_self3 [of 6 32 a] mod_mult_self3 [of 14 16 a] mod_mult_self3 [of 30 8 a]
    mod_mult_self3 [of 2 64 a] by simp_all

lemma utf8_split:
  "n div 4096 * 64 + n div 64 mod 64 = (n div 64 :: nat)"
  "n div 262144 * 64 + n div 4096 mod 64 = (n div 4096 :: nat)"
proof -
  have "n div 4096 = n div 64 div 64" "n div 262144 = n div 4096 div 64"
    by (simp_all add: div_mult2_eq [symmetric])
  then show "n div 4096 * 64 + n div 64 mod 64 = (n div 64 :: nat)"
    "n div 262144 * 64 + n div 4096 mod 64 = (n div 4096 :: nat)"
    by (simp_all add: div_mult_mod_eq)
qed

lemma chars_encode_char:
  assumes "n < 1114112"
  shows "chars (encode_char n @ s) = n # chars s"
proof -
  consider "n < 128" | "128 \<le> n" "n < 2048" | "2048 \<le> n" "n < 65536" | "65536 \<le> n" by linarith
  then show ?thesis
  proof cases
    case 1
    then show ?thesis by (simp add: encode_char_def utf8_width_def utf8_seq_def utf8_first_def)
  next
    case 2
    then have "n div 64 < 32" by simp
    with 2 show ?thesis
      by (simp add: encode_char_def utf8_width_def utf8_seq_def utf8_first_def utf8_masks)
  next
    case 3
    then have "n div 4096 < 16" by simp
    then show ?thesis using 3
      by (simp add: encode_char_def utf8_width_def utf8_seq_def utf8_first_def utf8_masks utf8_split)
  next
    case 4
    then have "n div 262144 < 8" using assms by simp
    then show ?thesis using 4 assms
      by (simp add: encode_char_def utf8_width_def utf8_seq_def utf8_first_def utf8_masks utf8_split)
  qed
qed

lemma chars_encode_chars: "\<forall>n \<in> set ns. n < 1114112 \<Longrightarrow> chars (encode_chars ns) = ns"
proof (induction ns)
  case (Cons n ns)
  then show ?case using chars_encode_char [of n "encode_chars ns"] by (simp add: encode_chars_def)
qed (simp add: encode_chars_def)

text \<open>Bytes below 128 are characters of their own.\<close>

lemma chars_ascii: "\<forall>c \<in> set s. (of_char c :: nat) < 128 \<Longrightarrow> chars s = map of_char s"
  by (induction s) (simp_all add: utf8_width_def utf8_seq_def utf8_first_def)

end
