(* ===== verification/Lexical.thy ===== *)
theory Lexical
  imports Core Strings
begin

text \<open>
  \<open>eidosdb-lexical\<close>: the analyzer, the BM25 arithmetic, \<open>Document\<close>, Reciprocal Rank Fusion and
  the port \<open>trait LexicalIndex\<close>. A document is abstracted to its bag: how often each of its terms occurs and
  how many tokens it has, both as the code counts them, in 32 bits. Over a map of such bags \<open>bm25_results\<close> is what
  BM25 ranks, and the locale \<open>lexical_index\<close> is the contract: the stored bags are a map, a search is the top \<open>k\<close> of
  \<open>bm25_results\<close>. \<open>corpus_results\<close> is BM25 over the token lists themselves, with plain numbers; the two agree as
  long as no document has \<open>2 ^ 32\<close> tokens and the corpus not \<open>2 ^ 64\<close>.
\<close>

section \<open>Analyzer\<close>

definition tokenize_step :: "Unicode \<Rightarrow> string list \<times> string \<Rightarrow> nat \<Rightarrow> string list \<times> string" where
  "tokenize_step U st ch =
     (case st of (tokens, current) \<Rightarrow>
        if uc_is_alphanumeric U ch
        then (tokens, current @ encode_chars (uc_to_lowercase U ch))
        else if current \<noteq> [] then (tokens @ [current], [])
        else (tokens, current))"

definition tokenize :: "Unicode \<Rightarrow> string \<Rightarrow> string list" where
  "tokenize U text =
     (case foldl (tokenize_step U) ([], []) (chars text) of
        (tokens, current) \<Rightarrow> if current \<noteq> [] then tokens @ [current] else tokens)"

section \<open>BM25\<close>

definition K1 :: f64 where "K1 = 0x3FF3333333333333"
definition B :: f64 where "B = 0x3FE8000000000000"

definition f64_half :: f64 where "f64_half = 0x3FE0000000000000"

definition idf :: "(f64 \<Rightarrow> f64) \<Rightarrow> nat \<Rightarrow> nat \<Rightarrow> f64" where
  "idf ln_f corpus_size doc_freq =
     (let n = f64_of_int (int corpus_size); df = f64_of_int (int doc_freq)
      in ln_f (f64_add (f64_of_int 1)
           (f64_div (f64_add (f64_sub n df) f64_half) (f64_add df f64_half))))"

definition term_score :: "u32 \<Rightarrow> u32 \<Rightarrow> f64 \<Rightarrow> f64 \<Rightarrow> f64" where
  "term_score term_frequency doc_length average_doc_length idf_value =
     (if f64_eq average_doc_length 0 then 0
      else
        let f = f64_of_int (uint term_frequency); len = f64_of_int (uint doc_length)
        in f64_div (f64_mul idf_value (f64_mul f (f64_add K1 (f64_of_int 1))))
             (f64_add f (f64_mul K1
               (f64_add (f64_sub (f64_of_int 1) B) (f64_div (f64_mul B len) average_doc_length)))))"

section \<open>Documents\<close>

datatype LexicalError = EmptyDocument | Lex_Serialization string | Lex_Backend string

datatype Document = Document (doc_str: string)

definition Document_new :: "Unicode \<Rightarrow> string \<Rightarrow> LexicalError + Document" where
  "Document_new U text = (if trim_is_empty U text then Inl EmptyDocument else Inr (Document text))"

section \<open>Scored ids\<close>

type_synonym scored = "VectorId \<times> f64"

definition scored_cmp :: "scored \<Rightarrow> scored \<Rightarrow> ordering" where
  "scored_cmp a b = then_with (total_cmp (snd b) (snd a)) (compare (fst a) (fst b))"

definition scored_key :: "scored \<Rightarrow> int \<times> VectorId" where
  "scored_key a = (- total_key (snd a), fst a)"

interpretation scored_order: injective_order scored_cmp scored_key
proof
  show "scored_cmp a b = compare (scored_key a) (scored_key b)" for a b
    by (simp add: scored_cmp_def scored_key_def score_desc_key)
  show "inj scored_key"
    by (rule injI) (simp add: scored_key_def total_key_inj prod_eq_iff)
qed

section \<open>Reciprocal Rank Fusion\<close>

definition rrf_add :: "f64 \<Rightarrow> (VectorId \<times> f64) list \<Rightarrow> nat \<times> VectorId \<Rightarrow> (VectorId \<times> f64) list" where
  "rrf_add k scores p =
     (case p of (position, i) \<Rightarrow>
        let rank = f64_of_int (int (position + 1));
            old = (case map_of scores i of None \<Rightarrow> 0 | Some s \<Rightarrow> s)
        in AList.update i (f64_add old (f64_div (f64_of_int 1) (f64_add k rank))) scores)"

definition fuse_rrf :: "VectorId list list \<Rightarrow> f64 \<Rightarrow> (VectorId \<times> f64) list" where
  "fuse_rrf rankings k =
     sort_by scored_cmp
       (foldl (\<lambda>scores ranking. foldl (rrf_add k) scores (enumerate 0 ranking)) [] rankings)"

text \<open>The fused score of an id: its contributions, summed in the order of the rankings.\<close>

definition rrf_ranks :: "VectorId list list \<Rightarrow> (nat \<times> VectorId) list" where
  "rrf_ranks rankings = concat (map (enumerate 0) rankings)"

definition rrf_score :: "VectorId list list \<Rightarrow> f64 \<Rightarrow> VectorId \<Rightarrow> f64" where
  "rrf_score rankings k i =
     foldl (\<lambda>s p. f64_add s (f64_div (f64_of_int 1) (f64_add k (f64_of_int (int (fst p + 1))))))
       0 (filter (\<lambda>p. snd p = i) (rrf_ranks rankings))"

lemma fuse_rrf_flat:
  "foldl (\<lambda>scores ranking. foldl (rrf_add k) scores (enumerate 0 ranking)) m rankings
    = foldl (rrf_add k) m (rrf_ranks rankings)"
  by (induction rankings arbitrary: m) (simp_all add: rrf_ranks_def)

lemma rrf_fold:
  "hm_ok m \<Longrightarrow> hm_ok (foldl (rrf_add k) m ps) \<and>
   map_of (foldl (rrf_add k) m ps) i =
     (if i \<in> snd ` set ps \<or> i \<in> dom (map_of m)
      then Some (foldl (\<lambda>s p. f64_add s (f64_div (f64_of_int 1) (f64_add k (f64_of_int (int (fst p + 1))))))
        (case map_of m i of None \<Rightarrow> 0 | Some s \<Rightarrow> s) (filter (\<lambda>p. snd p = i) ps))
      else None)"
proof (induction ps arbitrary: m)
  case Nil
  then show ?case by (auto simp: dom_def)
next
  case (Cons p ps)
  obtain n j where p: "p = (n, j)" by fastforce
  have ok: "hm_ok (rrf_add k m p)" using Cons.prems by (simp add: rrf_add_def p Let_def)
  show ?case
    using Cons.IH [OF ok] by (auto simp: p rrf_add_def Let_def split: option.splits)
qed

text \<open>
  C34. Fusion returns each id of the rankings exactly once, with the sum of \<open>1 / (k + rank)\<close> over its
  occurrences, by descending score and ascending id: the unspecified order in which the hash map
  is drained does not reach the result.
\<close>

theorem fuse_rrf_exact:
  "set (fuse_rrf rankings k) = {(i, rrf_score rankings k i) | i. i \<in> \<Union> (set ` set rankings)} \<and>
   distinct (map fst (fuse_rrf rankings k)) \<and> sorted (map scored_key (fuse_rrf rankings k))"
proof -
  define m where "m = foldl (rrf_add k) [] (rrf_ranks rankings)"
  have f: "fuse_rrf rankings k = sort_by scored_cmp m" by (simp add: fuse_rrf_def fuse_rrf_flat m_def)
  have ok: "hm_ok m" using rrf_fold [of "[]" k "rrf_ranks rankings"] by (simp add: m_def)
  have "snd ` set (enumerate n xs) = set xs" for n and xs :: "VectorId list"
    by (metis list.set_map map_snd_enumerate)
  then have ids: "snd ` set (rrf_ranks rankings) = \<Union> (set ` set rankings)"
    by (simp add: rrf_ranks_def image_UN)
  have "(i, s) \<in> set m \<longleftrightarrow> i \<in> \<Union> (set ` set rankings) \<and> s = rrf_score rankings k i" for i s
    using rrf_fold [of "[]" k "rrf_ranks rankings" i] ok
    unfolding hm_mem_iff [OF ok] ids m_def [symmetric] by (auto simp: rrf_score_def)
  then have "set m = {(i, rrf_score rankings k i) | i. i \<in> \<Union> (set ` set rankings)}" by auto
  with ok show ?thesis
    by (simp add: f scored_order.set_sort_by scored_order.distinct_sort_by scored_order.sorted_sort_by hm_ok_def)
qed

section \<open>The port\<close>

record 'l LexicalIndex =
  lx_insert :: "VectorId \<Rightarrow> Document \<Rightarrow> 'l \<Rightarrow> (LexicalError + unit) \<times> 'l"
  lx_remove :: "VectorId \<Rightarrow> 'l \<Rightarrow> (LexicalError + unit) \<times> 'l"
  lx_len :: "'l \<Rightarrow> nat"
  lx_search_text_filtered :: "string \<Rightarrow> nat \<Rightarrow> (VectorId \<Rightarrow> bool) \<Rightarrow> 'l \<Rightarrow> (VectorId \<times> f64) list"

definition lx_is_empty :: "'l LexicalIndex \<Rightarrow> 'l \<Rightarrow> bool" where
  "lx_is_empty L l \<longleftrightarrow> lx_len L l = 0"

definition lx_search_text :: "'l LexicalIndex \<Rightarrow> string \<Rightarrow> nat \<Rightarrow> 'l \<Rightarrow> (VectorId \<times> f64) list" where
  "lx_search_text L query k l = lx_search_text_filtered L query k (\<lambda>_. True) l"

section \<open>What BM25 ranks, over bags of tokens\<close>

text \<open>A term that occurs is in the bag even when its 32-bit count is back at zero.\<close>

record Bag =
  bag_freq :: "string \<rightharpoonup> u32"
  bag_len :: u32

type_synonym bags = "VectorId \<rightharpoonup> Bag"

definition token_bag :: "string list \<Rightarrow> Bag" where
  "token_bag ts = \<lparr>bag_freq = (\<lambda>t. if t \<in> set ts then Some (word_of_nat (count (mset ts) t)) else None),
     bag_len = word_of_nat (length ts)\<rparr>"

definition bag :: "Unicode \<Rightarrow> Document \<Rightarrow> Bag" where
  "bag U d = token_bag (tokenize U (doc_str d))"

definition bag_terms :: "Bag \<Rightarrow> string set" where
  "bag_terms M = dom (bag_freq M)"

lemma token_bag_simps [simp]:
  "bag_freq (token_bag ts) t = (if t \<in> set ts then Some (word_of_nat (count (mset ts) t)) else None)"
  "bag_len (token_bag ts) = word_of_nat (length ts)"
  by (simp_all add: token_bag_def)

lemma bag_terms_token [simp]: "bag_terms (token_bag ts) = set ts"
  by (auto simp: bag_terms_def split: if_splits)

definition doc_freq :: "bags \<Rightarrow> string \<Rightarrow> nat" where
  "doc_freq D t = card {i. \<exists>M. D i = Some M \<and> t \<in> bag_terms M}"

definition total_length :: "bags \<Rightarrow> nat" where
  "total_length D = (\<Sum>i \<in> dom D. unat (bag_len (the (D i))))"

text \<open>The total is a \<open>u64\<close>.\<close>

definition avg_length :: "bags \<Rightarrow> f64" where
  "avg_length D = f64_div (f64_of_int (uint (word_of_nat (total_length D) :: u64))) (f64_of_int (int (card (dom D))))"

definition bm25_score :: "(f64 \<Rightarrow> f64) \<Rightarrow> bags \<Rightarrow> string list \<Rightarrow> Bag \<Rightarrow> f64" where
  "bm25_score ln_f D query_terms M =
     foldl (\<lambda>s t. case bag_freq M t of
         None \<Rightarrow> s
       | Some f \<Rightarrow> f64_add s (term_score f (bag_len M) (avg_length D) (idf ln_f (card (dom D)) (doc_freq D t))))
       0 query_terms"

definition bm25_results ::
  "Unicode \<Rightarrow> (f64 \<Rightarrow> f64) \<Rightarrow> bags \<Rightarrow> string \<Rightarrow> (VectorId \<Rightarrow> bool) \<Rightarrow> scored set" where
  "bm25_results U ln_f D query adm =
     {(i, s) | i s M. D i = Some M \<and> adm i \<and> s = bm25_score ln_f D (tokenize U query) M \<and> f64_lt 0 s}"

lemma finite_bm25_results: "finite (dom D) \<Longrightarrow> finite (bm25_results U ln_f D query adm)"
proof -
  assume f: "finite (dom D)"
  have "bm25_results U ln_f D query adm \<subseteq> (\<lambda>i. (i, bm25_score ln_f D (tokenize U query) (the (D i)))) ` dom D"
    by (force simp: bm25_results_def)
  with f show ?thesis by (meson finite_imageI finite_subset)
qed

section \<open>BM25 over the token lists\<close>

text \<open>
  The textbook definition, over the documents as lists of tokens and without machine counters: \<open>occurrences\<close> of a term
  in a document, \<open>containing\<close> documents of the corpus, the mean length, and the sum of the contributions of the query
  terms that occur, in the order of the query. Only the arithmetic is that of the machine.
\<close>

type_synonym corpus = "VectorId \<rightharpoonup> string list"

definition corpus_docs :: "corpus \<Rightarrow> nat" where
  "corpus_docs C = card (dom C)"

definition corpus_tokens :: "corpus \<Rightarrow> nat" where
  "corpus_tokens C = (\<Sum>i \<in> dom C. length (the (C i)))"

definition containing :: "corpus \<Rightarrow> string \<Rightarrow> nat" where
  "containing C t = card {i \<in> dom C. t \<in> set (the (C i))}"

definition bm25_term :: "(f64 \<Rightarrow> f64) \<Rightarrow> corpus \<Rightarrow> string list \<Rightarrow> string \<Rightarrow> f64" where
  "bm25_term ln_f C ts t =
     (let n = f64_of_int (int (corpus_docs C)); avg = f64_div (f64_of_int (int (corpus_tokens C))) n;
          df = f64_of_int (int (containing C t)); f = f64_of_int (int (count (mset ts) t));
          len = f64_of_int (int (length ts)); one = f64_of_int 1
      in if f64_eq avg 0 then 0
         else f64_div
           (f64_mul (ln_f (f64_add one (f64_div (f64_add (f64_sub n df) f64_half) (f64_add df f64_half))))
             (f64_mul f (f64_add K1 one)))
           (f64_add f (f64_mul K1 (f64_add (f64_sub one B) (f64_div (f64_mul B len) avg)))))"

definition corpus_score :: "(f64 \<Rightarrow> f64) \<Rightarrow> corpus \<Rightarrow> string list \<Rightarrow> string list \<Rightarrow> f64" where
  "corpus_score ln_f C query_terms ts =
     foldl f64_add 0 (map (bm25_term ln_f C ts) (filter (\<lambda>t. t \<in> set ts) query_terms))"

definition corpus_results ::
  "(f64 \<Rightarrow> f64) \<Rightarrow> corpus \<Rightarrow> string list \<Rightarrow> (VectorId \<Rightarrow> bool) \<Rightarrow> scored set" where
  "corpus_results ln_f C query_terms adm =
     {(i, s). \<exists>ts. C i = Some ts \<and> adm i \<and> s = corpus_score ln_f C query_terms ts \<and> f64_lt 0 s}"

definition corpus_bags :: "corpus \<Rightarrow> bags" where
  "corpus_bags C = (\<lambda>i. map_option token_bag (C i))"

text \<open>No counter has wrapped.\<close>

definition counters_fit :: "corpus \<Rightarrow> bool" where
  "counters_fit C \<longleftrightarrow> (\<forall>i ts. C i = Some ts \<longrightarrow> length ts < 2 ^ 32) \<and> corpus_tokens C < 2 ^ 64"

lemma corpus_bags_simps [simp]:
  "dom (corpus_bags C) = dom C" "doc_freq (corpus_bags C) = containing C"
proof -
  show d: "dom (corpus_bags C) = dom C" by (auto simp: corpus_bags_def)
  have "{i. \<exists>M. corpus_bags C i = Some M \<and> t \<in> bag_terms M} = {i \<in> dom C. t \<in> set (the (C i))}" for t
    by (auto simp: corpus_bags_def)
  then show "doc_freq (corpus_bags C) = containing C" by (simp add: fun_eq_iff doc_freq_def containing_def)
qed

lemma uint_word_of_nat: "n < 2 ^ LENGTH('a) \<Longrightarrow> uint (word_of_nat n :: 'a :: len word) = int n"
  by (simp add: uint_nat unat_of_nat)

lemma count_le_length: "count (mset ts) t \<le> length ts"
  by (metis count_le_size size_mset)

lemma bm25_over_corpus:
  assumes "counters_fit C"
  shows "bm25_results U ln_f (corpus_bags C) query adm = corpus_results ln_f C (tokenize U query) adm"
proof -
  have small: "length ts < 2 ^ 32" if "C i = Some ts" for i ts using assms that by (auto simp: counters_fit_def)
  have "total_length (corpus_bags C) = corpus_tokens C"
    unfolding total_length_def corpus_tokens_def corpus_bags_simps
  proof (rule sum.cong [OF refl])
    fix i assume "i \<in> dom C"
    then obtain ts where "C i = Some ts" by auto
    with small [OF this] show "unat (bag_len (the (corpus_bags C i))) = length (the (C i))"
      by (simp add: corpus_bags_def unat_of_nat)
  qed
  moreover have "corpus_tokens C < 2 ^ LENGTH(64)" using assms by (simp add: counters_fit_def)
  ultimately have avg: "avg_length (corpus_bags C) =
      f64_div (f64_of_int (int (corpus_tokens C))) (f64_of_int (int (corpus_docs C)))"
    by (simp only: avg_length_def uint_word_of_nat corpus_bags_simps corpus_docs_def)
  have "bm25_score ln_f (corpus_bags C) qs (token_bag ts) = corpus_score ln_f C qs ts" if "C i = Some ts" for i qs ts
  proof -
    have len: "length ts < 2 ^ LENGTH(32)" using small [OF that] by simp
    have cnt: "count (mset ts) t < 2 ^ LENGTH(32)" for t using count_le_length [of ts t] len by (rule le_less_trans)
    have "term_score (word_of_nat (count (mset ts) t)) (word_of_nat (length ts)) (avg_length (corpus_bags C))
        (idf ln_f (card (dom C)) (containing C t)) = bm25_term ln_f C ts t" for t
      unfolding term_score_def uint_word_of_nat [OF len] uint_word_of_nat [OF cnt]
      by (simp only: bm25_term_def idf_def avg corpus_docs_def Let_def)
    then have "foldl (\<lambda>s t. case bag_freq (token_bag ts) t of None \<Rightarrow> s
        | Some f \<Rightarrow> f64_add s (term_score f (bag_len (token_bag ts)) (avg_length (corpus_bags C))
            (idf ln_f (card (dom (corpus_bags C))) (doc_freq (corpus_bags C) t)))) a qs =
        foldl f64_add a (map (bm25_term ln_f C ts) (filter (\<lambda>t. t \<in> set ts) qs))" for a
      by (induction qs arbitrary: a) simp_all
    then show ?thesis by (simp only: bm25_score_def corpus_score_def)
  qed
  then show ?thesis by (force simp: bm25_results_def corpus_results_def corpus_bags_def)
qed

section \<open>The contract\<close>

locale lexical_index =
  fixes U :: Unicode and ln_f :: "f64 \<Rightarrow> f64" and L :: "'l LexicalIndex"
    and ok :: "'l \<Rightarrow> bool" and docs :: "'l \<Rightarrow> bags"
  assumes finite_docs: "ok l \<Longrightarrow> finite (dom (docs l))"
    and len_docs: "ok l \<Longrightarrow> lx_len L l = card (dom (docs l))"
    and insert_ok: "ok l \<Longrightarrow> lx_insert L i d l = (r, l') \<Longrightarrow> ok l' \<and>
      docs l' = (case r of Inl _ \<Rightarrow> docs l | Inr _ \<Rightarrow> (docs l)(i \<mapsto> bag U d))"
    and remove_ok: "ok l \<Longrightarrow> lx_remove L i l = (r, l') \<Longrightarrow> ok l' \<and>
      docs l' = (case r of Inl _ \<Rightarrow> docs l | Inr _ \<Rightarrow> (docs l)(i := None))"
    and search_exact: "ok l \<Longrightarrow>
      top_k scored_key k (bm25_results U ln_f (docs l) query adm) (lx_search_text_filtered L query k adm l)"
begin

lemma search_docs_cong:
  assumes "ok l" "ok l'" "docs l = docs l'"
  shows "lx_search_text_filtered L query k adm l = lx_search_text_filtered L query k adm l'"
  using scored_order.top_k_unique [OF finite_bm25_results [OF finite_docs [OF assms(1)]]
      search_exact [OF assms(1)] search_exact [OF assms(2), folded assms(3)]] .

lemma search_mem:
  assumes "ok l" "(i, s) \<in> set (lx_search_text_filtered L query k adm l)"
  shows "i \<in> dom (docs l)" "adm i" "f64_lt 0 s"
  using search_exact [OF assms(1), of k query adm] assms(2) by (auto simp: top_k_def bm25_results_def)

lemma search_length: "ok l \<Longrightarrow> length (lx_search_text_filtered L query k adm l) \<le> k"
  using search_exact [of l k query adm] by (simp add: top_k_def)

lemma reinsert_replaces:
  assumes "ok l" "lx_insert L i d1 l = (Inr u, l1)" "lx_insert L i d2 l1 = (Inr v, l2)"
  shows "docs l2 = (docs l)(i \<mapsto> bag U d2)"
  using insert_ok [OF assms(1,2)] insert_ok [OF _ assms(3)] by auto

end

text \<open>An index whose updates never fail.\<close>

locale total_lexical = lexical_index U ln_f L ok docs
  for U ln_f and L :: "'l LexicalIndex" and ok docs +
  assumes insert_total: "ok l \<Longrightarrow> fst (lx_insert L i d l) = Inr ()"
    and remove_total: "ok l \<Longrightarrow> fst (lx_remove L i l) = Inr ()"
begin

lemma insert_spec:
  "ok l \<Longrightarrow> \<exists>l'. lx_insert L i d l = (Inr (), l') \<and> ok l' \<and> docs l' = (docs l)(i \<mapsto> bag U d)"
  using insert_total [of l i d] insert_ok [of l i d] by (cases "lx_insert L i d l") auto

lemma remove_spec:
  "ok l \<Longrightarrow> \<exists>l'. lx_remove L i l = (Inr (), l') \<and> ok l' \<and> docs l' = (docs l)(i := None)"
  using remove_total [of l i] remove_ok [of l i] by (cases "lx_remove L i l") auto

end

end
