(* ===== verification/Query.thy ===== *)
theory Query
  imports Bytes Lexical
begin

text \<open>
  The value layer of \<open>eidosdb-query\<close>: \<open>Value\<close> and \<open>FieldValue\<close>, the filter expressions and
  their evaluation, \<open>Payload\<close> with its validation, and the error types. A \<open>BTreeMap\<close> is the
  list of its entries by ascending key; an \<open>i64\<close> is a word read by \<open>sint\<close>; a string is its UTF-8
  bytes, whose lexicographic order is the order of \<open>String: Ord\<close>.
\<close>

type_synonym i64 = "64 word"

section \<open>Errors\<close>

datatype PayloadError = NonFiniteValue | Pe_Serialization string | Pe_Backend string

datatype QueryError =
    Qe_UnsupportedMetric Metric
  | Qe_Index IndexError
  | Qe_Payload PayloadError
  | EmptyQuery
  | Qe_Lexical LexicalError

section \<open>Values\<close>

datatype Value = Text string | Integer i64 | Float f64 | Bool bool

text \<open>The derived \<open>PartialEq\<close>: by variant, floats by IEEE equality.\<close>

fun value_eq :: "Value \<Rightarrow> Value \<Rightarrow> bool" where
  "value_eq (Text a) (Text b) \<longleftrightarrow> a = b"
| "value_eq (Integer a) (Integer b) \<longleftrightarrow> a = b"
| "value_eq (Float a) (Float b) \<longleftrightarrow> f64_eq a b"
| "value_eq (Bool a) (Bool b) \<longleftrightarrow> a = b"
| "value_eq _ _ \<longleftrightarrow> False"

fun Value_as_f64 :: "Value \<Rightarrow> f64 option" where
  "Value_as_f64 (Integer i) = Some (f64_of_int (sint i))"
| "Value_as_f64 (Float f) = Some f"
| "Value_as_f64 _ = None"

fun Value_is_numeric :: "Value \<Rightarrow> bool" where
  "Value_is_numeric (Integer _) \<longleftrightarrow> True"
| "Value_is_numeric (Float _) \<longleftrightarrow> True"
| "Value_is_numeric _ \<longleftrightarrow> False"

fun Value_ordered :: "Value \<Rightarrow> Value \<Rightarrow> ordering option" where
  "Value_ordered (Integer a) (Integer b) = Some (compare (sint a) (sint b))"
| "Value_ordered (Text a) (Text b) = Some (compare a b)"
| "Value_ordered a b =
     (if Value_is_numeric a \<and> Value_is_numeric b
      then (case Value_as_f64 a of None \<Rightarrow> None
            | Some x \<Rightarrow> (case Value_as_f64 b of None \<Rightarrow> None
                         | Some y \<Rightarrow> f64_partial_cmp x y))
      else None)"

datatype FieldValue = Scalar Value | Array "Value list"

section \<open>Payloads\<close>

datatype Payload = Payload (payload_fields: "(string \<times> FieldValue) list")

fun check_finite :: "Value \<Rightarrow> PayloadError + unit" where
  "check_finite (Float f) = (if \<not> f64_finite f then Inl NonFiniteValue else Inr ())"
| "check_finite _ = Inr ()"

fun check_field :: "FieldValue \<Rightarrow> PayloadError + unit" where
  "check_field (Scalar v) = check_finite v"
| "check_field (Array vs) = map_res (\<lambda>_. ()) (traverse check_finite vs)"

definition Payload_new :: "(string \<times> FieldValue) list \<Rightarrow> PayloadError + Payload" where
  "Payload_new entries =
     res_bind (traverse check_field (map snd entries)) (\<lambda>_. Inr (Payload entries))"

definition Payload_get :: "string \<Rightarrow> Payload \<Rightarrow> FieldValue option" where
  "Payload_get name p = map_of (payload_fields p) name"

definition Payload_len :: "Payload \<Rightarrow> nat" where
  "Payload_len p = length (payload_fields p)"

definition Payload_is_empty :: "Payload \<Rightarrow> bool" where
  "Payload_is_empty p \<longleftrightarrow> payload_fields p = []"

definition Payload_iter :: "Payload \<Rightarrow> (string \<times> FieldValue) list" where
  "Payload_iter p = payload_fields p"

definition Payload_try_from :: "(string \<times> FieldValue) list \<Rightarrow> PayloadError + Payload" where
  "Payload_try_from entries = Payload_new entries"

definition Payload_into_map :: "Payload \<Rightarrow> (string \<times> FieldValue) list" where
  "Payload_into_map p = payload_fields p"

text \<open>
  A payload of the program has its fields by strictly ascending name and finite values only.
\<close>

fun value_finite :: "Value \<Rightarrow> bool" where
  "value_finite (Float f) \<longleftrightarrow> f64_finite f"
| "value_finite _ \<longleftrightarrow> True"

fun field_finite :: "FieldValue \<Rightarrow> bool" where
  "field_finite (Scalar v) \<longleftrightarrow> value_finite v"
| "field_finite (Array vs) \<longleftrightarrow> (\<forall>v \<in> set vs. value_finite v)"

definition payload_ok :: "Payload \<Rightarrow> bool" where
  "payload_ok p \<longleftrightarrow> btree_ok (payload_fields p) \<and> (\<forall>(k, fv) \<in> set (payload_fields p). field_finite fv)"

section \<open>Filters\<close>

datatype Filter =
    FEq string Value
  | FNe string Value
  | FLt string Value
  | FLte string Value
  | FGt string Value
  | FGte string Value
  | FIn string "Value list"
  | FContains string Value
  | FExists string
  | FAnd "Filter list"
  | FOr "Filter list"
  | FNot Filter

datatype CompiledFilter = CompiledFilter (compiled_root: Filter)

definition Filter_compile :: "Filter \<Rightarrow> CompiledFilter" where
  "Filter_compile f = CompiledFilter f"

definition scalar :: "Payload \<Rightarrow> string \<Rightarrow> Value option" where
  "scalar payload field =
     (case Payload_get field payload of Some (Scalar value) \<Rightarrow> Some value | _ \<Rightarrow> None)"

definition is_some_and :: "('a \<Rightarrow> bool) \<Rightarrow> 'a option \<Rightarrow> bool" where
  "is_some_and P m = (case m of None \<Rightarrow> False | Some x \<Rightarrow> P x)"

definition ordered_is :: "Payload \<Rightarrow> string \<Rightarrow> Value \<Rightarrow> ordering \<Rightarrow> bool" where
  "ordered_is payload field value expected =
     is_some_and (\<lambda>ordering. ordering = expected)
       (Option.bind (scalar payload field) (\<lambda>s. Value_ordered s value))"

fun evaluate :: "Filter \<Rightarrow> Payload \<Rightarrow> bool" where
  "evaluate (FEq field value) p = is_some_and (\<lambda>s. value_eq s value) (scalar p field)"
| "evaluate (FNe field value) p = is_some_and (\<lambda>s. \<not> value_eq s value) (scalar p field)"
| "evaluate (FLt field value) p = ordered_is p field value Less"
| "evaluate (FLte field value) p =
     (ordered_is p field value Less \<or> ordered_is p field value Equal)"
| "evaluate (FGt field value) p = ordered_is p field value Greater"
| "evaluate (FGte field value) p =
     (ordered_is p field value Greater \<or> ordered_is p field value Equal)"
| "evaluate (FIn field values) p =
     is_some_and (\<lambda>s. list_ex (\<lambda>v. value_eq v s) values) (scalar p field)"
| "evaluate (FContains field value) p =
     (case Payload_get field p of Some (Array values) \<Rightarrow> list_ex (\<lambda>v. value_eq v value) values | _ \<Rightarrow> False)"
| "evaluate (FExists field) p = (Payload_get field p \<noteq> None)"
| "evaluate (FAnd filters) p = list_all (\<lambda>f. evaluate f p) filters"
| "evaluate (FOr filters) p = list_ex (\<lambda>f. evaluate f p) filters"
| "evaluate (FNot inner) p = (\<not> evaluate inner p)"

definition CompiledFilter_matches :: "CompiledFilter \<Rightarrow> Payload \<Rightarrow> bool" where
  "CompiledFilter_matches c payload = evaluate (compiled_root c) payload"

section \<open>Facts\<close>

lemma is_some_and_simps [simp]:
  "is_some_and P None = False" "is_some_and P (Some x) = P x"
  by (simp_all add: is_some_and_def)

lemma matches_compile [simp]: "CompiledFilter_matches (Filter_compile f) p = evaluate f p"
  by (simp add: CompiledFilter_matches_def Filter_compile_def)

lemma check_finite_iff: "check_finite v = (if value_finite v then Inr () else Inl NonFiniteValue)"
  by (cases v) simp_all

lemma traverse_unit:
  "(\<And>x. f x = (if P x then Inr () else Inl e)) \<Longrightarrow>
   traverse f xs = (if \<forall>x \<in> set xs. P x then Inr (map (\<lambda>_. ()) xs) else Inl e)"
  by (induction xs) auto

lemma check_field_iff: "check_field fv = (if field_finite fv then Inr () else Inl NonFiniteValue)"
  by (cases fv) (simp_all add: check_finite_iff traverse_unit [where P = value_finite])

lemma Payload_new_eq:
  "Payload_new entries =
     (if \<forall>(k, fv) \<in> set entries. field_finite fv then Inr (Payload entries) else Inl NonFiniteValue)"
proof -
  have "(\<forall>fv \<in> snd ` set entries. field_finite fv) = (\<forall>(k, fv) \<in> set entries. field_finite fv)"
    by auto
  then show ?thesis
    by (simp add: Payload_new_def traverse_unit [where P = field_finite, OF check_field_iff])
qed

lemma scalar_finite: "payload_ok p \<Longrightarrow> scalar p field = Some v \<Longrightarrow> value_finite v"
  by (force simp: payload_ok_def scalar_def Payload_get_def
      split: option.splits FieldValue.splits dest: map_of_SomeD)

lemma value_eq_sym: "value_eq a b = value_eq b a"
  by (cases "(a, b)" rule: value_eq.cases) (auto simp: f64_eq_def f_eq_def)

lemma value_eq_refl: "value_finite v \<Longrightarrow> value_eq v v"
  by (cases v) (auto simp: f64_eq_def f_eq_refl f64_finite_def dest: finite_not_nan)

fun reverse :: "ordering \<Rightarrow> ordering" where
  "reverse Less = Greater"
| "reverse Equal = Equal"
| "reverse Greater = Less"

lemma compare_reverse: "compare b a = reverse (compare a b)"
  by (auto simp: compare_def)

lemma partial_cmp_reverse: "f64_partial_cmp b a = map_option reverse (f64_partial_cmp a b)"
  by (simp add: f64_partial_cmp_def f_partial_cmp_def compare_reverse [of "ieee_key b" "ieee_key a"])

lemma Value_ordered_reverse: "Value_ordered b a = map_option reverse (Value_ordered a b)"
  by (cases a; cases b) (simp_all add: compare_reverse [symmetric] partial_cmp_reverse [symmetric])

section \<open>Properties\<close>

text \<open>Two values are comparable when both are numeric or both are text.\<close>

fun comparable :: "Value \<Rightarrow> Value \<Rightarrow> bool" where
  "comparable (Text a) (Text b) \<longleftrightarrow> True"
| "comparable a b \<longleftrightarrow> Value_is_numeric a \<and> Value_is_numeric b"

lemma int_as_f64_not_nan: "\<not> f_nan b64 (f64_of_int n)"
  using f_make_b64 [OF round_mag_range [of b64 "\<bar>n\<bar>" 0]] round_mag_range(2) [of b64 "\<bar>n\<bar>" 0]
  by (simp add: f64_of_int_def f_nan_def)

lemma Value_ordered_comparable:
  "value_finite a \<Longrightarrow> value_finite b \<Longrightarrow> Value_ordered a b \<noteq> None \<longleftrightarrow> comparable a b"
  by (cases a; cases b)
    (auto simp: f64_partial_cmp_def f_partial_cmp_def int_as_f64_not_nan f64_finite_def dest: finite_not_nan)

lemma value_eq_ordered:
  "value_eq a b \<Longrightarrow> comparable a b \<Longrightarrow> Value_ordered a b = Some Equal"
  by (cases a; cases b) (auto simp: f64_partial_cmp_def f_partial_cmp_def f64_eq_def f_eq_def)

text \<open>
  The comparison filters on a valid payload. An absent or array field satisfies none of them. On a scalar,
  \<open>Ne\<close> is the negation of \<open>Eq\<close>; if the two values are comparable the four
  orderings are coherent (\<open>Lte\<close> is not \<open>Gt\<close>, \<open>Gte\<close> is not \<open>Lt\<close>, never both \<open>Lt\<close> and \<open>Gt\<close>) and
  \<open>Eq\<close> implies \<open>Lte\<close> and \<open>Gte\<close>; if not, no ordering holds.
\<close>

lemma filter_comparisons_coherent:
  assumes "payload_ok p" "value_finite v"
  shows "case scalar p f of
     None \<Rightarrow> \<not> evaluate (FEq f v) p \<and> \<not> evaluate (FNe f v) p \<and> \<not> evaluate (FLt f v) p \<and>
       \<not> evaluate (FLte f v) p \<and> \<not> evaluate (FGt f v) p \<and> \<not> evaluate (FGte f v) p \<and> \<not> evaluate (FIn f vs) p
   | Some s \<Rightarrow>
       evaluate (FNe f v) p = (\<not> evaluate (FEq f v) p) \<and>
       (if comparable s v
        then evaluate (FLte f v) p = (\<not> evaluate (FGt f v) p) \<and>
          evaluate (FGte f v) p = (\<not> evaluate (FLt f v) p) \<and>
          \<not> (evaluate (FLt f v) p \<and> evaluate (FGt f v) p) \<and>
          (evaluate (FEq f v) p \<longrightarrow> evaluate (FLte f v) p \<and> evaluate (FGte f v) p)
        else \<not> evaluate (FLt f v) p \<and> \<not> evaluate (FLte f v) p \<and> \<not> evaluate (FGt f v) p \<and> \<not> evaluate (FGte f v) p)"
proof (cases "scalar p f")
  case (Some s)
  note fin = scalar_finite [OF assms(1) Some] assms(2)
  show ?thesis
  proof (cases "comparable s v")
    case True
    then obtain o1 where "Value_ordered s v = Some o1" using Value_ordered_comparable [OF fin] by auto
    then show ?thesis using Some True value_eq_ordered [of s v]
      by (cases o1) (auto simp: ordered_is_def)
  next
    case False
    then show ?thesis using Some Value_ordered_comparable [OF fin] by (simp add: ordered_is_def)
  qed
qed (simp add: ordered_is_def)

lemma filter_comparisons_coherent_witness:
  "payload_ok (Payload [(''n'', Scalar (Integer 3))]) \<and> value_finite (Float 0) \<and>
   evaluate (FGt ''n'' (Integer 1)) (Payload [(''n'', Scalar (Integer 3))]) \<and>
   evaluate (FNe ''n'' (Float 0)) (Payload [(''n'', Scalar (Integer 3))]) =
     (\<not> evaluate (FEq ''n'' (Float 0)) (Payload [(''n'', Scalar (Integer 3))]))"
proof -
  have ok: "payload_ok (Payload [(''n'', Scalar (Integer 3))])" "value_finite (Float 0)"
    by (simp_all add: payload_ok_def btree_ok_def f64_finite_def f_finite_def f_mag_def b64_def)
  have s: "scalar (Payload [(''n'', Scalar (Integer 3))]) ''n'' = Some (Integer 3)"
    by (simp add: scalar_def Payload_get_def)
  from filter_comparisons_coherent [OF ok, of "''n''"] ok show ?thesis
    unfolding s by (simp add: ordered_is_def s)
qed

text \<open>
  Ordering an integer field against a float value is exact below \<open>2 ^ 53\<close>, in both directions, although it
  goes through \<open>f64\<close>; at \<open>2 ^ 53 + 1\<close> it no longer is: that integer compares equal to
  the float \<open>2 ^ 53\<close>.
\<close>

lemma mixed_comparison_exact:
  assumes "\<bar>sint a\<bar> < 2 ^ 53" "\<bar>n\<bar> < 2 ^ 53"
  shows "Value_ordered (Integer a) (Float (f64_of_int n)) = Some (compare (sint a) n) \<and>
    Value_ordered (Float (f64_of_int n)) (Integer a) = Some (compare n (sint a)) \<and>
    Value_ordered (Integer 9007199254740993) (Float (f64_of_int 9007199254740992)) = Some Equal"
proof -
  have key: "ieee_key (f64_of_int (sint a)) = ieee_key (f64_of_int n) \<longleftrightarrow> sint a = n"
    using int_as_f64_key(2) [OF assms] int_as_f64_key(2) [OF assms(2,1)]
    by (metis linorder_less_linear not_less_iff_gr_or_eq)
  have c: "Value_ordered (Integer a) (Float (f64_of_int n)) = Some (compare (sint a) n)"
    using int_as_f64_key(2) [OF assms] key
    by (simp add: f64_partial_cmp_def f_partial_cmp_def int_as_f64_not_nan compare_def)
  moreover have "Value_ordered (Float (f64_of_int n)) (Integer a) = Some (compare n (sint a))"
    using Value_ordered_reverse [of "Float (f64_of_int n)" "Integer a"]
    unfolding c by (simp add: compare_reverse [of n])
  moreover have "sint (9007199254740993 :: i64) = 9007199254740993" by simp
  then have "Value_ordered (Integer 9007199254740993) (Float (f64_of_int 9007199254740992)) = Some Equal"
    by code_simp
  ultimately show ?thesis by blast
qed

lemma mixed_comparison_exact_witness:
  "\<bar>sint (5 :: i64)\<bar> < 2 ^ 53 \<and> Value_ordered (Integer 5) (Float (f64_of_int 7)) = Some Less"
  using mixed_comparison_exact [of 5 7] by simp

text \<open>
  Membership and the connectives: \<open>In\<close> is the disjunction of the \<open>Eq\<close> filters, \<open>And\<close> and
  \<open>Or\<close> are dual under \<open>Not\<close>, the empty \<open>And\<close> holds and the empty \<open>Or\<close> fails, and
  nested conjunctions and disjunctions flatten in any order.
\<close>

lemma filter_connectives:
  "evaluate (FIn f vs) p = evaluate (FOr (map (FEq f) vs)) p \<and>
   evaluate (FNot (FAnd fs)) p = evaluate (FOr (map FNot fs)) p \<and>
   evaluate (FNot (FOr fs)) p = evaluate (FAnd (map FNot fs)) p \<and>
   evaluate (FAnd []) p \<and> \<not> evaluate (FOr []) p \<and>
   evaluate (FAnd (fs @ gs)) p = evaluate (FAnd [FAnd gs, FAnd fs]) p \<and>
   evaluate (FOr (fs @ gs)) p = evaluate (FOr [FOr gs, FOr fs]) p"
proof -
  have "evaluate (FIn f vs) p = evaluate (FOr (map (FEq f) vs)) p"
    by (cases "scalar p f") (auto simp: list_ex_iff value_eq_sym)
  then show ?thesis by (auto simp: list_ex_iff list_all_iff)
qed

text \<open>
  A payload is accepted exactly when every float in it, arrays included, is finite, and then holds the
  given fields; accepted payloads survive the conversion into a map and back, and every lookup of an accepted
  scalar satisfies the equality filter with itself.
\<close>

lemma payload_validation_exact:
  "(case Payload_new m of
      Inl e \<Rightarrow> e = NonFiniteValue \<and> \<not> list_all (\<lambda>(k, fv). field_finite fv) m
    | Inr p \<Rightarrow> payload_fields p = m \<and> list_all (\<lambda>(k, fv). field_finite fv) m \<and>
        Payload_try_from (Payload_into_map p) = Inr p \<and>
        (case scalar p f of None \<Rightarrow> True | Some v \<Rightarrow> evaluate (FEq f v) p))"
proof (cases "\<forall>(k, fv) \<in> set m. field_finite fv")
  case True
  have "evaluate (FEq f v) (Payload m)" if "scalar (Payload m) f = Some v" for v
  proof -
    have "value_finite v" using that True
      by (force simp: scalar_def Payload_get_def split: option.splits FieldValue.splits dest: map_of_SomeD)
    then show ?thesis using that by (simp add: value_eq_refl)
  qed
  then show ?thesis using True
    by (simp add: Payload_new_eq Payload_try_from_def Payload_into_map_def list_all_iff split: option.split)
qed (auto simp: Payload_new_eq list_all_iff)

end
