(* ===== verification/Payload_Store.thy ===== *)
theory Payload_Store
  imports Query
begin

text \<open>
  The port \<open>trait PayloadStore\<close> and \<open>InMemoryPayloadStore\<close> of
  \<open>eidosdb-query/src/payload_store.rs\<close>. A \<open>HashSet\<close> of ids is a list without repetition, in the
  unspecified order in which it is iterated. The locale \<open>payload_store\<close> is the contract: the
  store is a finite map, \<open>matching_ids\<close> is exactly the set of ids whose payload satisfies the filter.
\<close>

section \<open>The port\<close>

record 'p PayloadStore =
  ps_set :: "VectorId \<Rightarrow> Payload \<Rightarrow> 'p \<Rightarrow> (PayloadError + unit) \<times> 'p"
  ps_get :: "VectorId \<Rightarrow> 'p \<Rightarrow> PayloadError + Payload option"
  ps_remove :: "VectorId \<Rightarrow> 'p \<Rightarrow> (PayloadError + bool) \<times> 'p"
  ps_len :: "'p \<Rightarrow> nat"
  ps_matching_ids :: "CompiledFilter \<Rightarrow> 'p \<Rightarrow> PayloadError + VectorId list"

definition ps_is_empty :: "'p PayloadStore \<Rightarrow> 'p \<Rightarrow> bool" where
  "ps_is_empty P s \<longleftrightarrow> ps_len P s = 0"

text \<open>The ids a filter selects in a map of payloads.\<close>

definition selected :: "Filter \<Rightarrow> (VectorId \<rightharpoonup> Payload) \<Rightarrow> VectorId set" where
  "selected f st = {i. \<exists>p. st i = Some p \<and> evaluate f p}"

lemma selected_dom: "selected f st \<subseteq> dom st"
  by (auto simp: selected_def)

locale payload_store =
  fixes P :: "'p PayloadStore" and ok :: "'p \<Rightarrow> bool" and payloads :: "'p \<Rightarrow> VectorId \<rightharpoonup> Payload"
  assumes finite_payloads: "ok s \<Longrightarrow> finite (dom (payloads s))"
    and len_payloads: "ok s \<Longrightarrow> ps_len P s = card (dom (payloads s))"
    and set_ok: "ok s \<Longrightarrow> ps_set P i p s = (r, s') \<Longrightarrow> ok s' \<and>
      payloads s' = (case r of Inl _ \<Rightarrow> payloads s | Inr _ \<Rightarrow> (payloads s)(i \<mapsto> p))"
    and remove_ok: "ok s \<Longrightarrow> ps_remove P i s = (rr, s') \<Longrightarrow> ok s' \<and>
      (case rr of Inl _ \<Rightarrow> payloads s' = payloads s
       | Inr b \<Rightarrow> b = (payloads s i \<noteq> None) \<and> payloads s' = (payloads s)(i := None))"
    and get_Inr: "ok s \<Longrightarrow> ps_get P i s = Inr x \<Longrightarrow> x = payloads s i"
    and matching_Inr: "ok s \<Longrightarrow> ps_matching_ids P c s = Inr ids \<Longrightarrow>
      distinct ids \<and> set ids = selected (compiled_root c) (payloads s)"
begin

lemma is_empty_iff: "ok s \<Longrightarrow> ps_is_empty P s \<longleftrightarrow> payloads s = Map.empty"
  by (simp add: ps_is_empty_def len_payloads finite_payloads)

lemma matching_count:
  "ok s \<Longrightarrow> ps_matching_ids P c s = Inr ids \<Longrightarrow> length ids = card (selected (compiled_root c) (payloads s))"
  by (metis matching_Inr distinct_card)

end

text \<open>A store whose operations never fail.\<close>

locale total_store = payload_store P ok payloads
  for P :: "'p PayloadStore" and ok payloads +
  assumes set_total: "ok s \<Longrightarrow> fst (ps_set P i p s) = Inr ()"
    and remove_total: "ok s \<Longrightarrow> fst (ps_remove P i s) = Inr (payloads s i \<noteq> None)"
    and get_total: "ok s \<Longrightarrow> ps_get P i s = Inr (payloads s i)"
    and matching_total: "ok s \<Longrightarrow> \<exists>ids. ps_matching_ids P c s = Inr ids"
begin

lemma set_spec:
  "ok s \<Longrightarrow> \<exists>s'. ps_set P i p s = (Inr (), s') \<and> ok s' \<and> payloads s' = (payloads s)(i \<mapsto> p)"
  using set_total [of s i p] set_ok [of s i p] by (cases "ps_set P i p s") auto

lemma remove_spec:
  "ok s \<Longrightarrow> \<exists>s'. ps_remove P i s = (Inr (payloads s i \<noteq> None), s') \<and> ok s' \<and>
     payloads s' = (payloads s)(i := None)"
  using remove_total [of s i] remove_ok [of s i] by (cases "ps_remove P i s") auto

lemma matching_spec:
  "ok s \<Longrightarrow> \<exists>ids. ps_matching_ids P c s = Inr ids \<and> distinct ids \<and>
     set ids = selected (compiled_root c) (payloads s)"
  using matching_total [of s c] matching_Inr [of s c] by auto

end

section \<open>The in-memory store\<close>

record InMemoryPayloadStore =
  pm_payloads :: "(VectorId \<times> Payload) list"

definition InMemoryPayloadStore_new :: InMemoryPayloadStore where
  "InMemoryPayloadStore_new = \<lparr>pm_payloads = []\<rparr>"

definition InMemoryPayloadStore_set ::
  "VectorId \<Rightarrow> Payload \<Rightarrow> InMemoryPayloadStore \<Rightarrow> (PayloadError + unit) \<times> InMemoryPayloadStore" where
  "InMemoryPayloadStore_set i payload self =
     (Inr (), self\<lparr>pm_payloads := AList.update i payload (pm_payloads self)\<rparr>)"

definition InMemoryPayloadStore_get ::
  "VectorId \<Rightarrow> InMemoryPayloadStore \<Rightarrow> PayloadError + Payload option" where
  "InMemoryPayloadStore_get i self = Inr (map_of (pm_payloads self) i)"

definition InMemoryPayloadStore_remove ::
  "VectorId \<Rightarrow> InMemoryPayloadStore \<Rightarrow> (PayloadError + bool) \<times> InMemoryPayloadStore" where
  "InMemoryPayloadStore_remove i self =
     (Inr (map_of (pm_payloads self) i \<noteq> None), self\<lparr>pm_payloads := AList.delete i (pm_payloads self)\<rparr>)"

definition InMemoryPayloadStore_matching_ids ::
  "CompiledFilter \<Rightarrow> InMemoryPayloadStore \<Rightarrow> PayloadError + VectorId list" where
  "InMemoryPayloadStore_matching_ids c self =
     Inr (map fst (filter (\<lambda>(_, payload). CompiledFilter_matches c payload) (pm_payloads self)))"

definition InMemoryPayloadStore_store :: "InMemoryPayloadStore PayloadStore" where
  "InMemoryPayloadStore_store =
     \<lparr>ps_set = InMemoryPayloadStore_set, ps_get = InMemoryPayloadStore_get,
      ps_remove = InMemoryPayloadStore_remove, ps_len = (\<lambda>self. length (pm_payloads self)),
      ps_matching_ids = InMemoryPayloadStore_matching_ids\<rparr>"

definition pm_ok :: "InMemoryPayloadStore \<Rightarrow> bool" where
  "pm_ok self \<longleftrightarrow> hm_ok (pm_payloads self)"

definition pm_contents :: "InMemoryPayloadStore \<Rightarrow> VectorId \<rightharpoonup> Payload" where
  "pm_contents self = map_of (pm_payloads self)"

lemma matching_filter:
  "hm_ok m \<Longrightarrow> distinct (map fst (filter (\<lambda>(_, p). CompiledFilter_matches c p) m)) \<and>
   set (map fst (filter (\<lambda>(_, p). CompiledFilter_matches c p) m)) = selected (compiled_root c) (map_of m)"
  by (force simp: hm_ok_def selected_def CompiledFilter_matches_def distinct_map_filter)

lemmas pm_defs = InMemoryPayloadStore_store_def InMemoryPayloadStore_set_def InMemoryPayloadStore_get_def
  InMemoryPayloadStore_remove_def InMemoryPayloadStore_matching_ids_def pm_ok_def pm_contents_def

interpretation in_memory_store: total_store InMemoryPayloadStore_store pm_ok pm_contents
proof
  fix s s' :: InMemoryPayloadStore and i p r rr x c ids
  show "pm_ok s \<Longrightarrow> finite (dom (pm_contents s))" by (simp add: pm_defs finite_dom_map_of)
  show "pm_ok s \<Longrightarrow> ps_len InMemoryPayloadStore_store s = card (dom (pm_contents s))"
    by (simp add: pm_defs hm_length)
  show "pm_ok s \<Longrightarrow> ps_set InMemoryPayloadStore_store i p s = (r, s') \<Longrightarrow> pm_ok s' \<and>
      pm_contents s' = (case r of Inl _ \<Rightarrow> pm_contents s | Inr _ \<Rightarrow> (pm_contents s)(i \<mapsto> p))"
    by (auto simp: pm_defs)
  show "pm_ok s \<Longrightarrow> ps_remove InMemoryPayloadStore_store i s = (rr, s') \<Longrightarrow> pm_ok s' \<and>
      (case rr of Inl _ \<Rightarrow> pm_contents s' = pm_contents s
       | Inr b \<Rightarrow> b = (pm_contents s i \<noteq> None) \<and> pm_contents s' = (pm_contents s)(i := None))"
    by (auto simp: pm_defs)
  show "pm_ok s \<Longrightarrow> ps_get InMemoryPayloadStore_store i s = Inr x \<Longrightarrow> x = pm_contents s i"
    by (simp add: pm_defs)
  show "pm_ok s \<Longrightarrow> ps_matching_ids InMemoryPayloadStore_store c s = Inr ids \<Longrightarrow>
      distinct ids \<and> set ids = selected (compiled_root c) (pm_contents s)"
    using matching_filter [of "pm_payloads s" c] by (auto simp: pm_defs)
qed (simp_all add: pm_defs)

end
