(* ===== verification/Lexical_Memory.thy ===== *)
theory Lexical_Memory
  imports Lexical
begin

text \<open>
  \<open>InMemoryLexicalIndex\<close> of \<open>eidosdb-lexical/src/in_memory.rs\<close>. Its hash maps are association
  lists whose order is the unspecified iteration order. The term frequencies and the length of a document are \<open>u32\<close>,
  the token total is a \<open>u64\<close>, and all three wrap around as they do in a release build; the document frequencies are
  \<open>usize\<close>, bounded by the number of documents in memory, and naturals here (the invariant shows every count subtracted
  from is positive). The index meets the contract of the port, so its searches are exact BM25 over the stored bags, and
  BM25 over the token lists where no counter has wrapped.
\<close>

section \<open>State and operations\<close>

record DocStats =
  ds_term_frequencies :: "(string \<times> u32) list"
  ds_length :: u32

record InMemoryLexicalIndex =
  im_docs :: "(VectorId \<times> DocStats) list"
  im_doc_frequencies :: "(string \<times> nat) list"
  im_total_tokens :: u64

definition InMemoryLexicalIndex_new :: InMemoryLexicalIndex where
  "InMemoryLexicalIndex_new = \<lparr>im_docs = [], im_doc_frequencies = [], im_total_tokens = 0\<rparr>"

text \<open>\<open>*map.entry(key).or_default() += 1\<close>.\<close>

definition bump :: "'k \<Rightarrow> ('k \<times> 'n :: {zero, one, plus}) list \<Rightarrow> ('k \<times> 'n) list" where
  "bump key m = AList.update key ((case map_of m key of None \<Rightarrow> 0 | Some n \<Rightarrow> n) + 1) m"

definition drop_term :: "(string \<times> nat) list \<Rightarrow> string \<Rightarrow> (string \<times> nat) list" where
  "drop_term dfs term =
     (case map_of dfs term of
        None \<Rightarrow> dfs
      | Some n \<Rightarrow>
          (let n' = n - 1; dfs' = AList.update term n' dfs
           in if n' = 0 then AList.delete term dfs' else dfs'))"

definition forget :: "VectorId \<Rightarrow> InMemoryLexicalIndex \<Rightarrow> InMemoryLexicalIndex" where
  "forget i self =
     (case map_of (im_docs self) i of
        None \<Rightarrow> self
      | Some stats \<Rightarrow>
          self\<lparr>im_docs := AList.delete i (im_docs self),
               im_doc_frequencies := foldl drop_term (im_doc_frequencies self)
                 (map fst (ds_term_frequencies stats)),
               im_total_tokens := im_total_tokens self - ucast (ds_length stats)\<rparr>)"

definition doc_stats :: "string list \<Rightarrow> DocStats" where
  "doc_stats tokens =
     foldl (\<lambda>st token. st\<lparr>ds_term_frequencies := bump token (ds_term_frequencies st),
                          ds_length := ds_length st + 1\<rparr>)
       \<lparr>ds_term_frequencies = [], ds_length = 0\<rparr> tokens"

definition InMemoryLexicalIndex_insert ::
  "Unicode \<Rightarrow> VectorId \<Rightarrow> Document \<Rightarrow> InMemoryLexicalIndex \<Rightarrow> (LexicalError + unit) \<times> InMemoryLexicalIndex" where
  "InMemoryLexicalIndex_insert U i document self =
     (let self = forget i self;
          stats = doc_stats (tokenize U (doc_str document))
      in (Inr (), self\<lparr>im_doc_frequencies := foldl (\<lambda>m t. bump t m) (im_doc_frequencies self)
                         (map fst (ds_term_frequencies stats)),
                       im_total_tokens := im_total_tokens self + ucast (ds_length stats),
                       im_docs := AList.update i stats (im_docs self)\<rparr>))"

definition InMemoryLexicalIndex_remove ::
  "VectorId \<Rightarrow> InMemoryLexicalIndex \<Rightarrow> (LexicalError + unit) \<times> InMemoryLexicalIndex" where
  "InMemoryLexicalIndex_remove i self = (Inr (), forget i self)"

definition score_doc ::
  "(f64 \<Rightarrow> f64) \<Rightarrow> InMemoryLexicalIndex \<Rightarrow> nat \<Rightarrow> f64 \<Rightarrow> string list \<Rightarrow> DocStats \<Rightarrow> f64" where
  "score_doc ln_f self corpus_size average_doc_length query_terms stats =
     foldl (\<lambda>score term.
         case map_of (ds_term_frequencies stats) term of
           None \<Rightarrow> score
         | Some frequency \<Rightarrow>
             let df = (case map_of (im_doc_frequencies self) term of None \<Rightarrow> 0 | Some n \<Rightarrow> n)
             in f64_add score (term_score frequency (ds_length stats) average_doc_length
                  (idf ln_f corpus_size df)))
       0 query_terms"

definition InMemoryLexicalIndex_search_text_filtered ::
  "Unicode \<Rightarrow> (f64 \<Rightarrow> f64) \<Rightarrow> string \<Rightarrow> nat \<Rightarrow> (VectorId \<Rightarrow> bool) \<Rightarrow> InMemoryLexicalIndex \<Rightarrow>
   (VectorId \<times> f64) list" where
  "InMemoryLexicalIndex_search_text_filtered U ln_f query k is_admissible self =
     (let corpus_size = length (im_docs self)
      in if corpus_size = 0 then []
         else
           let average_doc_length =
                 f64_div (f64_of_int (uint (im_total_tokens self))) (f64_of_int (int corpus_size));
               query_terms = tokenize U query
           in take k (sort_by scored_cmp
                (List.map_filter
                  (\<lambda>(i, stats).
                     let score = score_doc ln_f self corpus_size average_doc_length query_terms stats
                     in if f64_lt 0 score then Some (i, score) else None)
                  (filter (\<lambda>(i, _). is_admissible i) (im_docs self)))))"

definition InMemoryLexicalIndex_index ::
  "Unicode \<Rightarrow> (f64 \<Rightarrow> f64) \<Rightarrow> InMemoryLexicalIndex LexicalIndex" where
  "InMemoryLexicalIndex_index U ln_f =
     \<lparr>lx_insert = InMemoryLexicalIndex_insert U,
      lx_remove = InMemoryLexicalIndex_remove,
      lx_len = (\<lambda>self. length (im_docs self)),
      lx_search_text_filtered = InMemoryLexicalIndex_search_text_filtered U ln_f\<rparr>"

section \<open>Counting maps\<close>

lemma map_filter_cong_set:
  "(\<And>x. x \<in> set xs \<Longrightarrow> f x = g x) \<Longrightarrow> List.map_filter f xs = List.map_filter g xs"
  by (induction xs) (simp_all add: map_filter_simps split: option.splits)

lemma bump_simps [simp]:
  "hm_ok m \<Longrightarrow> hm_ok (bump k m)"
  "map_of (bump k m) = (map_of m)(k \<mapsto> (case map_of m k of None \<Rightarrow> 0 | Some n \<Rightarrow> n) + 1)"
  by (simp_all add: bump_def)

text \<open>\<open>represents m f\<close>: the map holds exactly the positive values of \<open>f\<close>.\<close>

definition represents :: "('k \<times> nat) list \<Rightarrow> ('k \<Rightarrow> nat) \<Rightarrow> bool" where
  "represents m f \<longleftrightarrow> hm_ok m \<and> (\<forall>t. map_of m t = (if f t = 0 then None else Some (f t)))"

lemma represents_bump: "represents m f \<Longrightarrow> represents (bump k m) (f(k := f k + 1))"
  by (auto simp: represents_def)

lemma represents_bumps:
  "represents m f \<Longrightarrow> represents (foldl (\<lambda>m t. bump t m) m ts) (\<lambda>t. f t + count (mset ts) t)"
proof (induction ts arbitrary: m f)
  case (Cons t ts)
  have "(\<lambda>s. (f(t := f t + 1)) s + count (mset ts) s) = (\<lambda>s. f s + count (mset (t # ts)) s)" by auto
  with Cons.IH [OF represents_bump [OF Cons.prems, of t]] show ?case by simp
qed simp

lemma represents_drop: "represents m f \<Longrightarrow> represents (drop_term m k) (f(k := f k - 1))"
  by (auto simp: represents_def drop_term_def Let_def split: option.splits if_splits)

lemma represents_drops:
  "represents m f \<Longrightarrow> represents (foldl drop_term m ts) (\<lambda>t. f t - count (mset ts) t)"
proof (induction ts arbitrary: m f)
  case (Cons t ts)
  have "(\<lambda>s. (f(t := f t - 1)) s - count (mset ts) s) = (\<lambda>s. f s - count (mset (t # ts)) s)" by auto
  with Cons.IH [OF represents_drop [OF Cons.prems, of t]] show ?case by simp
qed simp

lemma represents_keys: "represents m f \<Longrightarrow> set (map fst m) = {t. f t \<noteq> 0}"
  unfolding represents_def by (metis (mono_tags, lifting) Collect_cong dom_def dom_map_of_conv_image_fst list.set_map option.distinct(1))

section \<open>Invariant\<close>

text \<open>The bag of a document is what its statistics hold.\<close>

definition stats_bag :: "DocStats \<Rightarrow> Bag" where
  "stats_bag st = \<lparr>bag_freq = map_of (ds_term_frequencies st), bag_len = ds_length st\<rparr>"

definition im_bags :: "InMemoryLexicalIndex \<Rightarrow> bags" where
  "im_bags self i = map_option stats_bag (map_of (im_docs self) i)"

definition im_ok :: "InMemoryLexicalIndex \<Rightarrow> bool" where
  "im_ok self \<longleftrightarrow>
     hm_ok (im_docs self) \<and> (\<forall>(i, st) \<in> set (im_docs self). hm_ok (ds_term_frequencies st)) \<and>
     represents (im_doc_frequencies self) (doc_freq (im_bags self)) \<and>
     im_total_tokens self = word_of_nat (total_length (im_bags self))"

lemma stats_bag_simps [simp]:
  "bag_freq (stats_bag st) = map_of (ds_term_frequencies st)" "bag_len (stats_bag st) = ds_length st"
  by (simp_all add: stats_bag_def)

text \<open>A hash map lists every key once, so the code's loops over the keys count every term of the document once.\<close>

lemma keys_once:
  "hm_ok (ds_term_frequencies st) \<Longrightarrow>
   count (mset (map fst (ds_term_frequencies st))) t = (if t \<in> bag_terms (stats_bag st) then 1 else 0)"
  by (auto simp: bag_terms_def hm_ok_def distinct_count_atmost_1 set_eq_iff dom_map_of_conv_image_fst)

lemma doc_stats_spec:
  "hm_ok (ds_term_frequencies (doc_stats tokens)) \<and> stats_bag (doc_stats tokens) = token_bag tokens"
proof (induction tokens rule: rev_induct)
  case Nil
  then show ?case by (simp add: doc_stats_def stats_bag_def token_bag_def)
next
  case (snoc t ts)
  let ?st = "doc_stats ts"
  have step: "doc_stats (ts @ [t]) = ?st\<lparr>ds_term_frequencies := bump t (ds_term_frequencies ?st), ds_length := ds_length ?st + 1\<rparr>"
    by (simp add: doc_stats_def)
  have freq: "map_of (ds_term_frequencies ?st) = bag_freq (token_bag ts)" and len: "ds_length ?st = word_of_nat (length ts)"
    using snoc by (metis stats_bag_simps(1), metis stats_bag_simps(2) token_bag_simps(2))
  have "(bag_freq (token_bag ts))(t \<mapsto> (case bag_freq (token_bag ts) t of None \<Rightarrow> 0 | Some n \<Rightarrow> n) + 1) =
      bag_freq (token_bag (ts @ [t]))"
    by (auto simp: fun_eq_iff algebra_simps count_eq_zero_iff [THEN iffD2])
  then show ?case using snoc len unfolding step by (simp add: stats_bag_def freq token_bag_def algebra_simps)
qed

section \<open>Document frequencies and totals of a changed map\<close>

lemma doc_freq_remove:
  assumes "finite (dom D)" "D i = Some M"
  shows "doc_freq (D(i := None)) t = doc_freq D t - (if t \<in> bag_terms M then 1 else 0)"
proof -
  let ?S = "{j. \<exists>N. D j = Some N \<and> t \<in> bag_terms N}"
  have "{j. \<exists>N. (D(i := None)) j = Some N \<and> t \<in> bag_terms N} = ?S - {i}" by auto
  moreover have "i \<in> ?S \<longleftrightarrow> t \<in> bag_terms M" using assms(2) by auto
  ultimately show ?thesis by (simp add: doc_freq_def card_Diff_singleton_if)
qed

lemma doc_freq_insert:
  assumes "finite (dom D)" "D i = None"
  shows "doc_freq (D(i \<mapsto> M)) t = doc_freq D t + (if t \<in> bag_terms M then 1 else 0)"
proof -
  let ?S = "{j. \<exists>N. D j = Some N \<and> t \<in> bag_terms N}"
  have "finite ?S" using assms(1) by (rule finite_subset [rotated]) auto
  moreover have "{j. \<exists>N. (D(i \<mapsto> M)) j = Some N \<and> t \<in> bag_terms N} = (if t \<in> bag_terms M then insert i ?S else ?S)"
    using assms(2) by auto
  moreover have "i \<notin> ?S" using assms(2) by auto
  ultimately show ?thesis by (simp add: doc_freq_def)
qed

lemma total_length_remove:
  assumes "finite (dom D)" "D i = Some M"
  shows "total_length D = unat (bag_len M) + total_length (D(i := None))"
proof -
  have "i \<in> dom D" using assms(2) by auto
  then have "total_length D = unat (bag_len (the (D i))) + (\<Sum>j \<in> dom D - {i}. unat (bag_len (the (D j))))"
    using assms(1) by (simp add: total_length_def sum.remove)
  moreover have "(\<Sum>j \<in> dom D - {i}. unat (bag_len (the (D j)))) = total_length (D(i := None))"
    unfolding total_length_def by (rule sum.cong) auto
  ultimately show ?thesis using assms(2) by simp
qed

lemma total_length_insert:
  assumes "finite (dom D)" "D i = None"
  shows "total_length (D(i \<mapsto> M)) = total_length D + unat (bag_len M)"
  using total_length_remove [of "D(i \<mapsto> M)" i M] assms by (simp add: fun_upd_idem)

section \<open>The operations preserve the invariant\<close>

lemma im_bags_dom: "dom (im_bags self) = dom (map_of (im_docs self))"
  by (auto simp: im_bags_def)

lemma token_total_insert:
  "word_of_nat (total_length D + unat (bag_len M)) = (word_of_nat (total_length D) + ucast (bag_len M) :: u64)"
  by simp

lemma forget_ok:
  assumes "im_ok self"
  shows "im_ok (forget i self)" "im_bags (forget i self) = (im_bags self)(i := None)"
    "map_of (im_docs (forget i self)) i = None"
proof -
  have "im_ok (forget i self) \<and> im_bags (forget i self) = (im_bags self)(i := None) \<and>
      map_of (im_docs (forget i self)) i = None"
  proof (cases "map_of (im_docs self) i")
    case None
    then show ?thesis using assms by (auto simp: forget_def im_bags_def fun_eq_iff)
  next
    case (Some st)
    define self' where "self' = forget i self"
    have f: "im_docs self' = AList.delete i (im_docs self)"
      "im_doc_frequencies self' = foldl drop_term (im_doc_frequencies self) (map fst (ds_term_frequencies st))"
      "im_total_tokens self' = im_total_tokens self - ucast (ds_length st)"
      using Some by (simp_all add: self'_def forget_def)
    have hm: "hm_ok (im_docs self)" using assms by (simp add: im_ok_def)
    have st: "hm_ok (ds_term_frequencies st)"
      using assms Some hm by (auto simp: im_ok_def dest: map_of_SomeD)
    have Di: "im_bags self i = Some (stats_bag st)" by (simp add: im_bags_def Some)
    have bags: "im_bags self' = (im_bags self)(i := None)" by (auto simp: im_bags_def f fun_eq_iff)
    have fin: "finite (dom (im_bags self))" by (simp add: im_bags_dom finite_dom_map_of)
    have "(\<lambda>t. doc_freq (im_bags self) t - count (mset (map fst (ds_term_frequencies st))) t)
        = doc_freq (im_bags self')"
      by (rule ext) (simp only: keys_once [OF st] bags doc_freq_remove [OF fin Di])
    then have "represents (im_doc_frequencies self') (doc_freq (im_bags self'))"
      using represents_drops [of "im_doc_frequencies self" "doc_freq (im_bags self)" "map fst (ds_term_frequencies st)"]
        assms unfolding f(2) by (simp only: im_ok_def)
    moreover have "im_total_tokens self' = word_of_nat (total_length (im_bags self'))"
      using total_length_remove [OF fin Di] assms token_total_insert [of "im_bags self'" "stats_bag st"]
      unfolding f(3) bags by (simp add: im_ok_def algebra_simps)
    moreover have "\<forall>(j, s) \<in> set (im_docs self'). hm_ok (ds_term_frequencies s)"
      using assms hm by (force simp: f(1) im_ok_def hm_mem_iff split: if_splits)
    ultimately show ?thesis using hm bags by (simp add: im_ok_def f(1) self'_def [symmetric])
  qed
  then show "im_ok (forget i self)" "im_bags (forget i self) = (im_bags self)(i := None)"
    "map_of (im_docs (forget i self)) i = None" by blast+
qed

lemma insert_im_ok:
  assumes "im_ok self" "InMemoryLexicalIndex_insert U i d self = (r, self')"
  shows "r = Inr ()" "im_ok self'" "im_bags self' = (im_bags self)(i \<mapsto> bag U d)"
proof -
  define s0 where "s0 = forget i self"
  define st where "st = doc_stats (tokenize U (doc_str d))"
  note fo = forget_ok [OF assms(1), of i, folded s0_def]
  have f: "im_docs self' = AList.update i st (im_docs s0)"
    "im_doc_frequencies self' = foldl (\<lambda>m t. bump t m) (im_doc_frequencies s0) (map fst (ds_term_frequencies st))"
    "im_total_tokens self' = im_total_tokens s0 + ucast (ds_length st)"
    and r: "r = Inr ()"
    using assms(2) by (auto simp: InMemoryLexicalIndex_insert_def Let_def s0_def st_def)
  show "r = Inr ()" by (rule r)
  have bagst: "stats_bag st = bag U d" and sok: "hm_ok (ds_term_frequencies st)"
    using doc_stats_spec by (simp_all add: st_def bag_def)
  have bags: "im_bags self' = (im_bags s0)(i \<mapsto> bag U d)" by (auto simp: im_bags_def f bagst fun_eq_iff)
  have none: "im_bags s0 i = None" using fo(3) by (simp add: im_bags_def)
  have fin: "finite (dom (im_bags s0))" by (simp add: im_bags_dom finite_dom_map_of)
  have hm: "hm_ok (im_docs s0)" using fo(1) by (simp add: im_ok_def)
  have "(\<lambda>t. doc_freq (im_bags s0) t + count (mset (map fst (ds_term_frequencies st))) t)
      = doc_freq (im_bags self')"
    by (rule ext) (simp only: bags doc_freq_insert [OF fin none] keys_once [OF sok] bagst)
  then have "represents (im_doc_frequencies self') (doc_freq (im_bags self'))"
    using represents_bumps [of "im_doc_frequencies s0" "doc_freq (im_bags s0)" "map fst (ds_term_frequencies st)"] fo(1)
    unfolding f(2) by (simp only: im_ok_def)
  moreover have "im_total_tokens self' = word_of_nat (total_length (im_bags self'))"
    using fo(1) unfolding f(3) bags total_length_insert [OF fin none] token_total_insert
    by (simp add: im_ok_def bagst [symmetric])
  moreover have "\<forall>(j, s) \<in> set (im_docs self'). hm_ok (ds_term_frequencies s)"
    using fo(1) sok hm by (force simp: f(1) im_ok_def hm_mem_iff split: if_splits)
  ultimately show "im_ok self'" using hm by (simp add: im_ok_def f(1))
  show "im_bags self' = (im_bags self)(i \<mapsto> bag U d)" by (simp add: bags fo(2))
qed

section \<open>Search is exact BM25\<close>

lemma score_doc_bm25:
  assumes "im_ok self"
  shows "score_doc ln_f self (length (im_docs self))
      (f64_div (f64_of_int (uint (im_total_tokens self))) (f64_of_int (int (length (im_docs self))))) ts st
    = bm25_score ln_f (im_bags self) ts (stats_bag st)"
proof -
  have n: "length (im_docs self) = card (dom (im_bags self))"
    using assms by (simp add: im_bags_dom im_ok_def hm_length)
  have df: "(case map_of (im_doc_frequencies self) t of None \<Rightarrow> 0 | Some n \<Rightarrow> n) = doc_freq (im_bags self) t" for t
    using assms by (simp add: im_ok_def represents_def)
  have total: "im_total_tokens self = word_of_nat (total_length (im_bags self))" using assms by (simp add: im_ok_def)
  show ?thesis by (simp only: score_doc_def bm25_score_def Let_def n df total avg_length_def stats_bag_simps)
qed

lemma im_search_exact:
  assumes ok: "im_ok self"
  shows "top_k scored_key k (bm25_results U ln_f (im_bags self) query adm)
    (InMemoryLexicalIndex_search_text_filtered U ln_f query k adm self)"
proof (cases "im_docs self")
  case Nil
  then have "bm25_results U ln_f (im_bags self) query adm = {}"
    by (simp add: bm25_results_def im_bags_def)
  with Nil show ?thesis by (simp add: InMemoryLexicalIndex_search_text_filtered_def top_k_def)
next
  case (Cons p ps)
  define sc where "sc = (\<lambda>st. bm25_score ln_f (im_bags self) (tokenize U query) (stats_bag st))"
  define pick where "pick = (\<lambda>(i :: VectorId, st). if f64_lt 0 (sc st) then Some (i, sc st) else None)"
  let ?f = "filter (\<lambda>(i, _). adm i) (im_docs self)"
  have hm: "distinct (map fst (im_docs self))" using ok by (simp add: im_ok_def hm_ok_def)
  have eq: "InMemoryLexicalIndex_search_text_filtered U ln_f query k adm self
      = take k (sort_by scored_cmp (List.map_filter pick ?f))"
  proof -
    have "List.map_filter (\<lambda>(i, stats).
        let score = score_doc ln_f self (length (im_docs self))
          (f64_div (f64_of_int (uint (im_total_tokens self))) (f64_of_int (int (length (im_docs self)))))
          (tokenize U query) stats
        in if f64_lt 0 score then Some (i, score) else None) ?f = List.map_filter pick ?f"
    proof (rule map_filter_cong_set)
      fix x assume "x \<in> set ?f"
      moreover obtain i s where "x = (i, s)" by fastforce
      ultimately have "x = (i, s)" "(i, s) \<in> set (im_docs self)" by auto
      then show "(case x of (i, stats) \<Rightarrow>
        let score = score_doc ln_f self (length (im_docs self))
          (f64_div (f64_of_int (uint (im_total_tokens self))) (f64_of_int (int (length (im_docs self)))))
          (tokenize U query) stats
        in if f64_lt 0 score then Some (i, score) else None) = pick x"
        by (simp add: score_doc_bm25 [OF ok] pick_def sc_def Let_def)
    qed
    then show ?thesis using Cons by (simp add: InMemoryLexicalIndex_search_text_filtered_def Let_def)
  qed
  have ids: "map fst (List.map_filter pick xs) = map fst (filter (\<lambda>x. pick x \<noteq> None) xs)" for xs
    by (induction xs) (auto simp: map_filter_simps pick_def split: prod.splits)
  have "distinct (map fst (List.map_filter pick ?f))"
    unfolding ids using hm by (simp add: distinct_map_filter)
  then have d: "distinct (List.map_filter pick ?f)" by (simp add: distinct_map)
  have "set (List.map_filter pick ?f) = bm25_results U ln_f (im_bags self) query adm"
  proof -
    have "(i, st) \<in> set (im_docs self) \<longleftrightarrow> map_of (im_docs self) i = Some st" for i st using hm by simp
    moreover have "(i, s) \<in> set (List.map_filter pick xs) \<longleftrightarrow> (\<exists>st. (i, st) \<in> set xs \<and> f64_lt 0 (sc st) \<and> s = sc st)"
      for i s xs by (induction xs) (auto simp: map_filter_simps pick_def split: prod.splits)
    ultimately have "(i, s) \<in> set (List.map_filter pick ?f) \<longleftrightarrow>
        (\<exists>st. map_of (im_docs self) i = Some st \<and> adm i \<and> f64_lt 0 (sc st) \<and> s = sc st)" for i s by auto
    then show ?thesis by (auto simp: bm25_results_def im_bags_def sc_def)
  qed
  then show ?thesis unfolding eq by (intro scored_order.top_k_sorted d)
qed

interpretation in_memory: total_lexical U ln_f "InMemoryLexicalIndex_index U ln_f" im_ok im_bags
proof
  fix l l' :: InMemoryLexicalIndex and i d r k query adm
  show "im_ok l \<Longrightarrow> finite (dom (im_bags l))" by (simp add: im_bags_dom finite_dom_map_of)
  show "im_ok l \<Longrightarrow> lx_len (InMemoryLexicalIndex_index U ln_f) l = card (dom (im_bags l))"
    by (simp add: InMemoryLexicalIndex_index_def im_bags_dom im_ok_def hm_length)
  show "im_ok l \<Longrightarrow> lx_insert (InMemoryLexicalIndex_index U ln_f) i d l = (r, l') \<Longrightarrow> im_ok l' \<and>
      im_bags l' = (case r of Inl _ \<Rightarrow> im_bags l | Inr _ \<Rightarrow> (im_bags l)(i \<mapsto> bag U d))"
    using insert_im_ok [of l U i d r l'] by (simp add: InMemoryLexicalIndex_index_def)
  show "im_ok l \<Longrightarrow> lx_remove (InMemoryLexicalIndex_index U ln_f) i l = (r, l') \<Longrightarrow> im_ok l' \<and>
      im_bags l' = (case r of Inl _ \<Rightarrow> im_bags l | Inr _ \<Rightarrow> (im_bags l)(i := None))"
    using forget_ok [of l i] by (auto simp: InMemoryLexicalIndex_index_def InMemoryLexicalIndex_remove_def)
  show "im_ok l \<Longrightarrow> top_k scored_key k (bm25_results U ln_f (im_bags l) query adm)
      (lx_search_text_filtered (InMemoryLexicalIndex_index U ln_f) query k adm l)"
    using im_search_exact by (simp add: InMemoryLexicalIndex_index_def)
qed (simp_all add: InMemoryLexicalIndex_index_def InMemoryLexicalIndex_insert_def
    InMemoryLexicalIndex_remove_def Let_def)

lemma im_new_ok: "im_bags InMemoryLexicalIndex_new = Map.empty" "im_ok InMemoryLexicalIndex_new"
proof -
  show b: "im_bags InMemoryLexicalIndex_new = Map.empty"
    by (auto simp: InMemoryLexicalIndex_new_def im_bags_def)
  show "im_ok InMemoryLexicalIndex_new"
    unfolding im_ok_def b
    by (simp add: InMemoryLexicalIndex_new_def represents_def doc_freq_def total_length_def)
qed

section \<open>Properties\<close>

datatype lex_op = Lex_insert VectorId Document | Lex_remove VectorId

fun lex_apply :: "'l LexicalIndex \<Rightarrow> lex_op \<Rightarrow> 'l \<Rightarrow> 'l" where
  "lex_apply L (Lex_insert i d) l = snd (lx_insert L i d l)"
| "lex_apply L (Lex_remove i) l = snd (lx_remove L i l)"

fun lex_spec :: "Unicode \<Rightarrow> lex_op \<Rightarrow> bags \<Rightarrow> bags" where
  "lex_spec U (Lex_insert i d) D = D(i \<mapsto> bag U d)"
| "lex_spec U (Lex_remove i) D = D(i := None)"

definition im_run :: "Unicode \<Rightarrow> (f64 \<Rightarrow> f64) \<Rightarrow> lex_op list \<Rightarrow> InMemoryLexicalIndex" where
  "im_run U ln_f ops = fold (lex_apply (InMemoryLexicalIndex_index U ln_f)) ops InMemoryLexicalIndex_new"

definition lex_spec_run :: "Unicode \<Rightarrow> lex_op list \<Rightarrow> bags" where
  "lex_spec_run U ops = fold (lex_spec U) ops Map.empty"

lemma im_run_ok: "im_ok (im_run U ln_f ops) \<and> im_bags (im_run U ln_f ops) = lex_spec_run U ops"
proof (induction ops rule: rev_induct)
  case Nil
  then show ?case by (simp add: im_run_def lex_spec_run_def im_new_ok)
next
  case (snoc a ops)
  let ?s = "im_run U ln_f ops"
  have ok: "im_ok ?s" and b: "im_bags ?s = lex_spec_run U ops" using snoc by auto
  show ?case
  proof (cases a)
    case (Lex_insert i d)
    obtain r s' where t: "InMemoryLexicalIndex_insert U i d ?s = (r, s')" by fastforce
    with insert_im_ok [OF ok t] b Lex_insert show ?thesis
      by (simp add: im_run_def lex_spec_run_def InMemoryLexicalIndex_index_def)
  next
    case (Lex_remove i)
    with forget_ok [OF ok, of i] b show ?thesis
      by (simp add: im_run_def lex_spec_run_def InMemoryLexicalIndex_index_def InMemoryLexicalIndex_remove_def)
  qed
qed

text \<open>
  The running statistics are exact after any sequence of insertions, replacements and removals: the document
  frequency of every term is the number of stored documents that contain it (absent when none does),
  the token total is the sum of their lengths modulo \<open>2 ^ 64\<close>, and the length is their number; so no decrement of
  a document frequency ever underflows and \<open>avgdl\<close> never drifts.
\<close>

lemma in_memory_statistics_exact:
  "map_of (im_doc_frequencies (im_run U ln_f ops)) t =
     (if doc_freq (lex_spec_run U ops) t = 0 then None else Some (doc_freq (lex_spec_run U ops) t)) \<and>
   im_total_tokens (im_run U ln_f ops) = word_of_nat (total_length (lex_spec_run U ops)) \<and>
   length (im_docs (im_run U ln_f ops)) = card (dom (lex_spec_run U ops))"
proof -
  note r = im_run_ok [of U ln_f ops]
  then show ?thesis
    using in_memory.len_docs [of "im_run U ln_f ops" U ln_f]
    by (auto simp: im_ok_def represents_def InMemoryLexicalIndex_index_def)
qed

text \<open>The documents a history leaves, as token lists.\<close>

fun corpus_step :: "Unicode \<Rightarrow> lex_op \<Rightarrow> corpus \<Rightarrow> corpus" where
  "corpus_step U (Lex_insert i d) C = C(i \<mapsto> tokenize U (doc_str d))"
| "corpus_step U (Lex_remove i) C = C(i := None)"

definition corpus_of :: "Unicode \<Rightarrow> lex_op list \<Rightarrow> corpus" where
  "corpus_of U ops = fold (corpus_step U) ops Map.empty"

lemma lex_spec_run_corpus: "lex_spec_run U ops = corpus_bags (corpus_of U ops)"
proof -
  have "lex_spec U op (corpus_bags C) = corpus_bags (corpus_step U op C)" for op C
    by (cases op) (auto simp: corpus_bags_def bag_def fun_eq_iff)
  then have "fold (lex_spec U) ops (corpus_bags C) = corpus_bags (fold (corpus_step U) ops C)" for C
    by (induction ops arbitrary: C) simp_all
  from this [of Map.empty] show ?thesis
    by (simp add: lex_spec_run_def corpus_of_def corpus_bags_def [of Map.empty])
qed

text \<open>
  C33. Text search is exact BM25. After any sequence of insertions, replacements and removals the result is the top \<open>k\<close>,
  by descending score and ascending id, of the admissible stored documents whose score is positive: the score of the
  documents as the 32-bit term frequencies and lengths and the 64-bit token total describe them, whatever these counters
  hold; and where no stored document has \<open>2 ^ 32\<close> tokens and the corpus not \<open>2 ^ 64\<close>, the textbook BM25 of the token lists.
\<close>

theorem in_memory_search_exact:
  "top_k scored_key k (bm25_results U ln_f (lex_spec_run U ops) query adm)
     (InMemoryLexicalIndex_search_text_filtered U ln_f query k adm (im_run U ln_f ops)) \<and>
   (counters_fit (corpus_of U ops) \<longrightarrow>
     top_k scored_key k (corpus_results ln_f (corpus_of U ops) (tokenize U query) adm)
       (InMemoryLexicalIndex_search_text_filtered U ln_f query k adm (im_run U ln_f ops)))"
proof -
  have "top_k scored_key k (bm25_results U ln_f (lex_spec_run U ops) query adm)
     (InMemoryLexicalIndex_search_text_filtered U ln_f query k adm (im_run U ln_f ops))"
    using im_search_exact [of "im_run U ln_f ops"] im_run_ok [of U ln_f ops] by simp
  then show ?thesis by (simp add: bm25_over_corpus [symmetric] lex_spec_run_corpus)
qed

text \<open>Two documents, one of them replaced: two tokens are left, and the counters are far from wrapping.\<close>

lemma in_memory_search_exact_witness:
  "\<exists>hits. hits = InMemoryLexicalIndex_search_text_filtered ascii (\<lambda>x. x) ''a'' 5 (\<lambda>_. True)
       (im_run ascii (\<lambda>x. x) [Lex_insert (VectorId 1) (Document ''b c''), Lex_insert (VectorId 2) (Document ''b''),
          Lex_insert (VectorId 1) (Document ''a'')]) \<and>
     top_k scored_key 5 (corpus_results (\<lambda>x. x) [VectorId 1 \<mapsto> [''a''], VectorId 2 \<mapsto> [''b'']] [''a''] (\<lambda>_. True)) hits"
proof -
  let ?ops = "[Lex_insert (VectorId 1) (Document ''b c''), Lex_insert (VectorId 2) (Document ''b''),
    Lex_insert (VectorId 1) (Document ''a'')]"
  have tok: "tokenize ascii ''a'' = [''a'']" "tokenize ascii ''b'' = [''b'']" by code_simp+
  have c: "corpus_of ascii ?ops = [VectorId 1 \<mapsto> [''a''], VectorId 2 \<mapsto> [''b'']]"
    by (auto simp: corpus_of_def tok)
  have "counters_fit [VectorId 1 \<mapsto> [''a''], VectorId 2 \<mapsto> [''b'']]"
    by (auto simp: counters_fit_def corpus_tokens_def split: if_splits)
  then show ?thesis
    using in_memory_search_exact [of 5 ascii "\<lambda>x. x" ?ops "''a''" "\<lambda>_. True"] unfolding c tok by blast
qed

end
