(* ===== verification/Hnsw_Config.thy ===== *)
theory Hnsw_Config
  imports Core
begin

unbundle bit_operations_syntax

text \<open>
  \<open>HnswConfig\<close> (\<open>eidosdb-hnsw/src/config.rs\<close>) with its validating constructor, and the
  \<open>SplitMix64\<close> generator with the level sampler (\<open>rng.rs\<close>). The natural logarithm
  \<open>f64::ln\<close> has unspecified precision in the standard library: it is the parameter
  \<open>ln_f\<close> of the sampler and of everything that draws a level.
\<close>

section \<open>Configuration\<close>

record HnswConfig =
  cfg_metric :: Metric
  cfg_m :: nat
  cfg_ef_construction :: nat
  cfg_ef_search :: nat
  cfg_seed :: u64

datatype HnswConfigError = DegreeTooSmall nat | ZeroConstructionBeam | ZeroSearchBeam

definition MIN_DEGREE :: nat where "MIN_DEGREE = 2"

definition HnswConfig_new ::
  "Metric \<Rightarrow> nat \<Rightarrow> nat \<Rightarrow> nat \<Rightarrow> u64 \<Rightarrow> HnswConfigError + HnswConfig" where
  "HnswConfig_new metric m ef_construction ef_search seed =
     (if m < MIN_DEGREE then Inl (DegreeTooSmall m)
      else if ef_construction = 0 then Inl ZeroConstructionBeam
      else if ef_search = 0 then Inl ZeroSearchBeam
      else Inr \<lparr>cfg_metric = metric, cfg_m = m, cfg_ef_construction = ef_construction,
                cfg_ef_search = ef_search, cfg_seed = seed\<rparr>)"

definition m_max0 :: "HnswConfig \<Rightarrow> nat" where
  "m_max0 self = saturating_mul (cfg_m self) 2"

definition m_max :: "HnswConfig \<Rightarrow> nat" where
  "m_max self = cfg_m self"

definition m_l :: "(f64 \<Rightarrow> f64) \<Rightarrow> HnswConfig \<Rightarrow> f64" where
  "m_l ln_f self =
     (let m = f64_of_int (int (cfg_m self)) in f64_div (f64_of_int 1) (ln_f m))"

definition DEFAULT_SEED :: u64 where "DEFAULT_SEED = 0xDEADBEEFCAFE1234"

definition HnswConfig_default :: HnswConfig where
  "HnswConfig_default =
     \<lparr>cfg_metric = Cosine, cfg_m = 16, cfg_ef_construction = 200, cfg_ef_search = 64,
      cfg_seed = DEFAULT_SEED\<rparr>"

text \<open>The disk mirror, and the conversions serde runs through on either side.\<close>

record HnswConfigRepr =
  repr_metric :: Metric
  repr_m :: nat
  repr_ef_construction :: nat
  repr_ef_search :: nat
  repr_seed :: u64

definition HnswConfig_try_from :: "HnswConfigRepr \<Rightarrow> HnswConfigError + HnswConfig" where
  "HnswConfig_try_from repr =
     HnswConfig_new (repr_metric repr) (repr_m repr) (repr_ef_construction repr)
       (repr_ef_search repr) (repr_seed repr)"

definition HnswConfigRepr_from :: "HnswConfig \<Rightarrow> HnswConfigRepr" where
  "HnswConfigRepr_from config =
     \<lparr>repr_metric = cfg_metric config, repr_m = cfg_m config,
      repr_ef_construction = cfg_ef_construction config,
      repr_ef_search = cfg_ef_search config, repr_seed = cfg_seed config\<rparr>"

definition config_ok :: "HnswConfig \<Rightarrow> bool" where
  "config_ok c \<longleftrightarrow> 2 \<le> cfg_m c \<and> 1 \<le> cfg_ef_construction c \<and> 1 \<le> cfg_ef_search c"

lemma HnswConfig_new_Inr:
  "HnswConfig_new metric m efc efs seed = Inr c \<longleftrightarrow>
     config_ok c \<and> c = \<lparr>cfg_metric = metric, cfg_m = m, cfg_ef_construction = efc,
       cfg_ef_search = efs, cfg_seed = seed\<rparr>"
  by (auto simp: HnswConfig_new_def MIN_DEGREE_def config_ok_def)

lemma HnswConfig_repr_roundtrip:
  "HnswConfig_try_from (HnswConfigRepr_from c) = Inr c \<longleftrightarrow> config_ok c"
  by (cases c) (auto simp: HnswConfig_try_from_def HnswConfigRepr_from_def HnswConfig_new_Inr)

lemma config_ok_default: "config_ok HnswConfig_default"
  by (simp add: config_ok_def HnswConfig_default_def)

section \<open>Random generator\<close>

definition MAX_LEVEL :: nat where "MAX_LEVEL = 64"

datatype SplitMix64 = SplitMix64 (rng_state: u64)

definition SplitMix64_new :: "u64 \<Rightarrow> SplitMix64" where
  "SplitMix64_new seed = SplitMix64 seed"

definition SplitMix64_from_state :: "u64 \<Rightarrow> SplitMix64" where
  "SplitMix64_from_state state = SplitMix64 state"

definition next_u64 :: "SplitMix64 \<Rightarrow> u64 \<times> SplitMix64" where
  "next_u64 self =
     (let s = rng_state self + 0x9E3779B97F4A7C15;
          z = s;
          z = (z XOR drop_bit 30 z) * 0xBF58476D1CE4E5B9;
          z = (z XOR drop_bit 27 z) * 0x94D049BB133111EB
      in (z XOR drop_bit 31 z, SplitMix64 s))"

text \<open>\<open>f64::clamp\<close>: NaN passes, otherwise the bounds replace what lies outside them.\<close>

definition f64_clamp :: "f64 \<Rightarrow> f64 \<Rightarrow> f64 \<Rightarrow> f64" where
  "f64_clamp x lo hi =
     (let x = (if f64_lt x lo then lo else x) in if f64_lt hi x then hi else x)"

text \<open>The uniform draw: \<open>raw.wrapping_add(1)\<close> over \<open>u64::MAX as f64 + 1.0\<close>.\<close>

definition level_u :: "u64 \<Rightarrow> f64" where
  "level_u raw =
     f64_div (f64_of_int (uint (raw + 1))) (f64_add (f64_of_int (2 ^ 64 - 1)) (f64_of_int 1))"

definition next_level :: "(f64 \<Rightarrow> f64) \<Rightarrow> f64 \<Rightarrow> SplitMix64 \<Rightarrow> nat \<times> SplitMix64" where
  "next_level ln_f ml self =
     (let (raw, self') = next_u64 self;
          u = level_u raw;
          level = f64_floor (f64_mul (f_neg (ln_f u)) ml);
          max_level = f64_of_int (int MAX_LEVEL);
          bounded_level =
            (if f64_finite level then f64_clamp level (f64_of_int 0) max_level else max_level)
      in (usize_of_f64 bounded_level, self'))"

section \<open>The sampled level is bounded\<close>

lemma usize_of_f64_le_64:
  assumes "ieee_key w \<le> 0x4050000000000000" "f64_finite w"
  shows "usize_of_f64 w \<le> 64"
proof (cases "f_sign w")
  case True
  then show ?thesis
    using assms(2)
    by (auto simp: usize_of_f64_def f_unpack_def b64_def Let_def f64_finite_def f_finite_def)
next
  case False
  define g where "g = f_mag w"
  have g: "0 \<le> g" "g \<le> 0x4050000000000000" using assms(1) False by (simp_all add: g_def ieee_key_def)
  define E f where "E = g div 2 ^ 52" and "f = g mod 2 ^ 52"
  have Ef: "g = E * 2 ^ 52 + f" "0 \<le> f" "f < 2 ^ 52"
    unfolding E_def f_def by (simp_all add: div_mult_mod_eq)
  have E: "E \<le> 1029" using g(2) Ef by simp
  have E0: "E = 1029 \<longrightarrow> f = 0" using g(2) Ef by auto
  have fin: "g < inf_mag b64" using assms(2) by (simp add: g_def f64_finite_def f_finite_def)
  obtain m e where me: "f_unpack b64 w = FFin False m e"
    "(E = 0 \<and> m = f \<and> e = - 1074) \<or> (E \<noteq> 0 \<and> m = 2 ^ 52 + f \<and> e = E - 1075)"
  proof (cases "E = 0")
    case True
    then have "f_unpack b64 w = FFin False f (- 1074)"
      using fin False by (simp add: f_unpack_def b64_def Let_def g_def E_def f_def)
    with True that show ?thesis by blast
  next
    case E0: False
    then have "f_unpack b64 w = FFin False (2 ^ 52 + f) (E - 1075)"
      using fin False by (simp add: f_unpack_def b64_def Let_def g_def E_def f_def)
    with E0 that show ?thesis by blast
  qed
  have m: "0 \<le> m" "m < 2 ^ 53" "e < 0" using me(2) Ef E by auto
  have "m \<le> 64 * 2 ^ nat (- e)"
  proof (cases "E = 1029")
    case True
    with me(2) E0 have "m = 2 ^ 52" "e = - 46" by auto
    then show ?thesis by simp
  next
    case False
    then have "47 \<le> nat (- e)" using me(2) E Ef by auto
    then have "(2::int) ^ 47 \<le> 2 ^ nat (- e)" by (intro power_increasing) auto
    with m show ?thesis by simp
  qed
  then have "m div 2 ^ nat (- e) \<le> 64 * 2 ^ nat (- e) div 2 ^ nat (- e)"
    by (intro zdiv_mono1) simp_all
  then have "m div 2 ^ nat (- e) \<le> 64" by simp
  with m me(1) show ?thesis by (simp add: usize_of_f64_def)
qed

lemma f64_clamp_range:
  assumes "f64_finite x" "f64_finite lo" "f64_finite hi" "ieee_key lo \<le> ieee_key hi"
  shows "ieee_key (f64_clamp x lo hi) \<le> ieee_key hi" "f64_finite (f64_clamp x lo hi)"
  using assms finite_not_nan [of b64 x] finite_not_nan [of b64 hi]
  by (auto simp: f64_clamp_def Let_def f64_lt_def f_lt_def f64_finite_def)

lemma level_bounds:
  "f64_finite (f64_of_int 0)" "f64_finite (f64_of_int (int MAX_LEVEL))"
  "ieee_key (f64_of_int 0) = 0" "ieee_key (f64_of_int (int MAX_LEVEL)) = 0x4050000000000000"
  by (code_simp, code_simp, code_simp, code_simp)

lemma bounded_level_le:
  assumes "f64_finite lo" "f64_finite hi" "ieee_key lo \<le> ieee_key hi"
    "ieee_key hi \<le> 0x4050000000000000"
  shows "usize_of_f64 (if f64_finite l then f64_clamp l lo hi else hi) \<le> 64"
  using assms f64_clamp_range [where x = l and lo = lo and hi = hi]
  by (auto intro!: usize_of_f64_le_64)

lemma next_level_le: "fst (next_level ln_f ml rng) \<le> MAX_LEVEL"
proof -
  have "fst (next_level ln_f ml rng) \<le> 64"
    unfolding next_level_def Let_def split_beta fst_conv
    by (rule bounded_level_le) (simp_all add: level_bounds)
  then show ?thesis by (simp add: MAX_LEVEL_def)
qed

lemma next_level_state: "snd (next_level ln_f ml rng) = snd (next_u64 rng)"
  by (simp add: next_level_def Let_def split_beta)

end
