(* ===== verification/Hnsw_Graph.thy ===== *)
theory Hnsw_Graph
  imports Core
begin

text \<open>
  The private graph of \<open>eidosdb-hnsw/src/graph.rs\<close>: nodes in insertion order, the map of live
  ids, the entry point and the live count, with one definition per method, and the
  serialisable snapshot types. Node indices, levels and the \<open>u64\<close> of the snapshot are
  naturals (a 64-bit \<open>usize\<close> converts to and from \<open>u64\<close> unchanged). The sixteen bytes of an
  id are its UUID. The invariant \<open>graph_ok\<close> collects what every operation preserves.
\<close>

section \<open>Nodes and graph\<close>

type_synonym NodeIdx = nat

record Node =
  nd_id :: VectorId
  nd_embedding :: Embedding
  nd_neighbors :: "NodeIdx list list"
  nd_level :: nat
  nd_tombstone :: bool

record HnswGraph =
  gr_nodes :: "Node list"
  gr_live :: "VectorId \<rightharpoonup> NodeIdx"
  gr_entry_point :: "NodeIdx option"
  gr_live_count :: nat

definition HnswGraph_new :: HnswGraph where
  "HnswGraph_new =
     \<lparr>gr_nodes = [], gr_live = Map.empty, gr_entry_point = None, gr_live_count = 0\<rparr>"

text \<open>The capacity is a hint to the allocator.\<close>

definition HnswGraph_with_capacity :: "nat \<Rightarrow> HnswGraph" where
  "HnswGraph_with_capacity capacity = HnswGraph_new"

definition get_node :: "HnswGraph \<Rightarrow> NodeIdx \<Rightarrow> Node option" where
  "get_node self i = (if i < length (gr_nodes self) then Some (gr_nodes self ! i) else None)"

definition dimension_hint :: "HnswGraph \<Rightarrow> Dimension option" where
  "dimension_hint self =
     (case gr_nodes self of [] \<Rightarrow> None | n # _ \<Rightarrow> Some (Embedding_dimension (nd_embedding n)))"

definition add_node ::
  "VectorId \<Rightarrow> Embedding \<Rightarrow> nat \<Rightarrow> HnswGraph \<Rightarrow> (IndexError + NodeIdx) \<times> HnswGraph" where
  "add_node i e level self =
     (let push = (let idx = length (gr_nodes self);
                      node = \<lparr>nd_id = i, nd_embedding = e,
                              nd_neighbors = replicate (level + 1) [],
                              nd_level = level, nd_tombstone = False\<rparr>
                  in (Inr idx, self\<lparr>gr_nodes := gr_nodes self @ [node],
                                    gr_live := (gr_live self)(i \<mapsto> idx),
                                    gr_live_count := gr_live_count self + 1\<rparr>));
          check_id = (if gr_live self i \<noteq> None then (Inl (DuplicateId i), self) else push)
      in case dimension_hint self of
           Some expected \<Rightarrow>
             (if Embedding_dimension e \<noteq> expected
              then (Inl (DimensionMismatch (Dimension_get expected)
                           (Dimension_get (Embedding_dimension e))), self)
              else check_id)
         | None \<Rightarrow> check_id)"

definition set_neighbors :: "NodeIdx \<Rightarrow> nat \<Rightarrow> NodeIdx list \<Rightarrow> HnswGraph \<Rightarrow> HnswGraph" where
  "set_neighbors node layer ns self =
     (case get_node self node of
        Some n \<Rightarrow>
          (if layer < length (nd_neighbors n)
           then self\<lparr>gr_nodes := (gr_nodes self)
                       [node := n\<lparr>nd_neighbors := (nd_neighbors n)[layer := ns]\<rparr>]\<rparr>
           else self)
      | None \<Rightarrow> self)"

definition neighbors :: "HnswGraph \<Rightarrow> NodeIdx \<Rightarrow> nat \<Rightarrow> NodeIdx list" where
  "neighbors self node layer =
     (case get_node self node of
        Some n \<Rightarrow> if layer < length (nd_neighbors n) then nd_neighbors n ! layer else []
      | None \<Rightarrow> [])"

definition is_tombstone :: "HnswGraph \<Rightarrow> NodeIdx \<Rightarrow> bool" where
  "is_tombstone self node = (case get_node self node of Some n \<Rightarrow> nd_tombstone n | None \<Rightarrow> False)"

definition tombstone :: "NodeIdx \<Rightarrow> HnswGraph \<Rightarrow> bool \<times> HnswGraph" where
  "tombstone node self =
     (case get_node self node of
        None \<Rightarrow> (False, self)
      | Some n \<Rightarrow>
          (if nd_tombstone n then (False, self)
           else (True, self\<lparr>gr_nodes := (gr_nodes self)[node := n\<lparr>nd_tombstone := True\<rparr>],
                            gr_live := (gr_live self)(nd_id n := None),
                            gr_live_count := gr_live_count self - 1\<rparr>)))"

definition node_level :: "HnswGraph \<Rightarrow> NodeIdx \<Rightarrow> nat" where
  "node_level self node = (case get_node self node of Some n \<Rightarrow> nd_level n | None \<Rightarrow> 0)"

definition node_id :: "HnswGraph \<Rightarrow> NodeIdx \<Rightarrow> VectorId option" where
  "node_id self node = map_option nd_id (get_node self node)"

definition node_embedding :: "HnswGraph \<Rightarrow> NodeIdx \<Rightarrow> f32 list option" where
  "node_embedding self node = map_option (\<lambda>n. as_slice (nd_embedding n)) (get_node self node)"

definition set_entry_point :: "NodeIdx option \<Rightarrow> HnswGraph \<Rightarrow> HnswGraph" where
  "set_entry_point node self = self\<lparr>gr_entry_point := node\<rparr>"

definition node_count :: "HnswGraph \<Rightarrow> nat" where
  "node_count self = length (gr_nodes self)"

definition id_to_node :: "HnswGraph \<Rightarrow> VectorId \<Rightarrow> NodeIdx option" where
  "id_to_node self i = gr_live self i"

definition live_nodes :: "HnswGraph \<Rightarrow> (NodeIdx \<times> VectorId \<times> f32 list \<times> nat) list" where
  "live_nodes self =
     map (\<lambda>(idx, n). (idx, nd_id n, as_slice (nd_embedding n), nd_level n))
       (filter (\<lambda>(_, n). \<not> nd_tombstone n) (enumerate 0 (gr_nodes self)))"

record SnapshotNode =
  sn_id_bytes :: uuid
  sn_level :: nat
  sn_tombstone :: bool
  sn_neighbors_per_layer :: "nat list list"

record GraphSnapshot =
  gs_nodes :: "SnapshotNode list"
  gs_entry_point :: "nat option"
  gs_entry_level :: nat
  gs_rng_state :: u64
  gs_live_count :: nat

section \<open>Reading facts\<close>

named_theorems graph_simps \<open>what the accessors return\<close>

lemma get_node_Some [graph_simps]:
  "get_node g i = Some n \<longleftrightarrow> i < node_count g \<and> n = gr_nodes g ! i"
  "get_node g i = None \<longleftrightarrow> node_count g \<le> i"
  by (auto simp: get_node_def node_count_def)

lemma get_node_in [graph_simps]: "i < node_count g \<Longrightarrow> get_node g i = Some (gr_nodes g ! i)"
  by (simp add: get_node_def node_count_def)

lemma get_node_out [graph_simps]: "node_count g \<le> i \<Longrightarrow> get_node g i = None"
  by (simp add: get_node_def node_count_def)

lemma node_id_in [graph_simps]: "i < node_count g \<Longrightarrow> node_id g i = Some (nd_id (gr_nodes g ! i))"
  by (simp add: node_id_def graph_simps)

lemma node_embedding_in [graph_simps]:
  "i < node_count g \<Longrightarrow> node_embedding g i = Some (as_slice (nd_embedding (gr_nodes g ! i)))"
  by (simp add: node_embedding_def graph_simps)

lemma is_tombstone_in [graph_simps]:
  "i < node_count g \<Longrightarrow> is_tombstone g i = nd_tombstone (gr_nodes g ! i)"
  by (simp add: is_tombstone_def graph_simps)

lemma node_level_in [graph_simps]: "i < node_count g \<Longrightarrow> node_level g i = nd_level (gr_nodes g ! i)"
  by (simp add: node_level_def graph_simps)

lemma neighbors_out [graph_simps]: "node_count g \<le> i \<Longrightarrow> neighbors g i l = []"
  by (simp add: neighbors_def graph_simps)

text \<open>Changing adjacency changes nothing else.\<close>

lemma set_neighbors_frame [simp]:
  "node_count (set_neighbors x l ns g) = node_count g"
  "gr_live (set_neighbors x l ns g) = gr_live g"
  "gr_live_count (set_neighbors x l ns g) = gr_live_count g"
  "gr_entry_point (set_neighbors x l ns g) = gr_entry_point g"
  by (auto simp: set_neighbors_def node_count_def split: option.splits)

lemma set_neighbors_nodes [simp]:
  "i < node_count g \<Longrightarrow> nd_id (gr_nodes (set_neighbors x l ns g) ! i) = nd_id (gr_nodes g ! i)"
  "i < node_count g \<Longrightarrow> nd_embedding (gr_nodes (set_neighbors x l ns g) ! i) = nd_embedding (gr_nodes g ! i)"
  "i < node_count g \<Longrightarrow> nd_level (gr_nodes (set_neighbors x l ns g) ! i) = nd_level (gr_nodes g ! i)"
  "i < node_count g \<Longrightarrow> nd_tombstone (gr_nodes (set_neighbors x l ns g) ! i) = nd_tombstone (gr_nodes g ! i)"
  "i < node_count g \<Longrightarrow>
     length (nd_neighbors (gr_nodes (set_neighbors x l ns g) ! i)) = length (nd_neighbors (gr_nodes g ! i))"
  by (cases "i = x"; auto simp: set_neighbors_def get_node_def node_count_def)+

lemma nodes_set_neighbors_other:
  "i \<noteq> x \<Longrightarrow> gr_nodes (set_neighbors x l ns g) ! i = gr_nodes g ! i"
  by (auto simp: set_neighbors_def split: option.splits)

lemma nodes_set_neighbors_same:
  "x < node_count g \<Longrightarrow> nd_neighbors (gr_nodes (set_neighbors x l ns g) ! x) =
     (nd_neighbors (gr_nodes g ! x))[l := ns]"
  by (auto simp: set_neighbors_def get_node_def node_count_def list_update_beyond)

lemma accessors_set_neighbors [simp]:
  "node_id (set_neighbors x l ns g) i = node_id g i"
  "node_embedding (set_neighbors x l ns g) i = node_embedding g i"
  "is_tombstone (set_neighbors x l ns g) i = is_tombstone g i"
  "node_level (set_neighbors x l ns g) i = node_level g i"
  by (cases "i < node_count g"; simp add: node_id_def node_embedding_def is_tombstone_def node_level_def
      graph_simps)+

section \<open>Invariant\<close>

text \<open>
  \<open>c\<close> bounds the degree per layer, \<open>d\<close> is the dimension. Levels and adjacency agree, every
  adjacency entry is a node, the live map is exactly the nodes without tombstone (so a live id
  has one node), the count is their number, and the entry point is a live node of maximal level.
\<close>

definition live_set :: "HnswGraph \<Rightarrow> NodeIdx set" where
  "live_set g = {i. i < node_count g \<and> \<not> nd_tombstone (gr_nodes g ! i)}"

definition node_ok :: "Dimension \<Rightarrow> (nat \<Rightarrow> nat) \<Rightarrow> nat \<Rightarrow> nat \<Rightarrow> Node \<Rightarrow> bool" where
  "node_ok d deg lmax n nd \<longleftrightarrow>
     Embedding_dimension (nd_embedding nd) = d \<and> nd_level nd \<le> lmax \<and>
     length (nd_neighbors nd) = nd_level nd + 1 \<and>
     (\<forall>l < length (nd_neighbors nd). length (nd_neighbors nd ! l) \<le> deg l \<and>
        (\<forall>x \<in> set (nd_neighbors nd ! l). x < n))"

definition live_ok :: "HnswGraph \<Rightarrow> bool" where
  "live_ok g \<longleftrightarrow>
     (\<forall>i x. gr_live g i = Some x \<longleftrightarrow> x \<in> live_set g \<and> nd_id (gr_nodes g ! x) = i) \<and>
     gr_live_count g = card (live_set g)"

definition entry_ok :: "HnswGraph \<Rightarrow> bool" where
  "entry_ok g \<longleftrightarrow>
     (case gr_entry_point g of
        None \<Rightarrow> live_set g = {}
      | Some e \<Rightarrow> e \<in> live_set g \<and> (\<forall>x \<in> live_set g. node_level g x \<le> node_level g e))"

definition graph_ok :: "Dimension \<Rightarrow> (nat \<Rightarrow> nat) \<Rightarrow> nat \<Rightarrow> HnswGraph \<Rightarrow> bool" where
  "graph_ok d deg lmax g \<longleftrightarrow>
     (\<forall>nd \<in> set (gr_nodes g). node_ok d deg lmax (node_count g) nd) \<and> live_ok g"

definition graph_contents :: "HnswGraph \<Rightarrow> VectorId \<rightharpoonup> Embedding" where
  "graph_contents g i = map_option (\<lambda>x. nd_embedding (gr_nodes g ! x)) (gr_live g i)"

lemma finite_live_set [simp]: "finite (live_set g)"
  by (simp add: live_set_def)

lemma live_set_lt: "x \<in> live_set g \<Longrightarrow> x < node_count g"
  by (simp add: live_set_def)

lemma graph_ok_nodeD:
  "graph_ok d deg lmax g \<Longrightarrow> x < node_count g \<Longrightarrow> node_ok d deg lmax (node_count g) (gr_nodes g ! x)"
  by (simp add: graph_ok_def node_count_def)

lemma graph_ok_live:
  "graph_ok d deg lmax g \<Longrightarrow>
   gr_live g i = Some x \<longleftrightarrow> x \<in> live_set g \<and> nd_id (gr_nodes g ! x) = i"
  by (simp add: graph_ok_def live_ok_def)

lemma live_ok_get: "live_ok g \<Longrightarrow> x \<in> live_set g \<Longrightarrow> gr_live g (nd_id (gr_nodes g ! x)) = Some x"
  by (simp add: live_ok_def)

lemma live_ok_inj:
  "live_ok g \<Longrightarrow> x \<in> live_set g \<Longrightarrow> y \<in> live_set g \<Longrightarrow>
   nd_id (gr_nodes g ! x) = nd_id (gr_nodes g ! y) \<Longrightarrow> x = y"
  unfolding live_ok_def by (metis option.inject)

lemma live_ok_dom: "live_ok g \<Longrightarrow> dom (gr_live g) = (\<lambda>x. nd_id (gr_nodes g ! x)) ` live_set g"
  unfolding live_ok_def by (force simp: dom_def)

lemma live_ok_card: "live_ok g \<Longrightarrow> gr_live_count g = card (dom (gr_live g))"
  using live_ok_inj live_ok_dom by (subst live_ok_dom) (auto simp: card_image inj_on_def live_ok_def)

lemma graph_contents_dom: "dom (graph_contents g) = dom (gr_live g)"
  by (auto simp: graph_contents_def)

lemma neighbors_cases:
  "neighbors g x l = [] \<or> (x < node_count g \<and> l < length (nd_neighbors (gr_nodes g ! x)) \<and>
     neighbors g x l = nd_neighbors (gr_nodes g ! x) ! l)"
  by (cases "x < node_count g") (simp_all add: neighbors_def graph_simps)

lemma node_okD:
  assumes "node_ok d deg lmax n nd" "l < length (nd_neighbors nd)"
  shows "length (nd_neighbors nd ! l) \<le> deg l" "x \<in> set (nd_neighbors nd ! l) \<Longrightarrow> x < n"
  using assms by (auto simp: node_ok_def)

lemma graph_ok_neighbors:
  assumes "graph_ok d deg lmax g" "y \<in> set (neighbors g x l)"
  shows "y < node_count g"
  using neighbors_cases [of g x l] assms(2) node_okD(2) [OF graph_ok_nodeD [OF assms(1)]] by auto

lemma graph_ok_degree:
  assumes "graph_ok d deg lmax g"
  shows "length (neighbors g x l) \<le> deg l"
  using neighbors_cases [of g x l] node_okD(1) [OF graph_ok_nodeD [OF assms]] by auto

section \<open>Preservation\<close>

lemma set_neighbors_live_set [simp]: "live_set (set_neighbors x l ns g) = live_set g"
  by (auto simp: live_set_def)

lemma set_neighbors_live_ok [simp]: "live_ok (set_neighbors x l ns g) = live_ok g"
  by (auto simp: live_ok_def live_set_lt)

lemma set_neighbors_contents [simp]:
  "live_ok g \<Longrightarrow> graph_contents (set_neighbors x l ns g) = graph_contents g"
proof
  fix i
  assume "live_ok g"
  then have "gr_live g i = Some y \<Longrightarrow> y < node_count g" for y
    by (simp add: live_ok_def live_set_lt)
  then show "graph_contents (set_neighbors x l ns g) i = graph_contents g i"
    by (cases "gr_live g i") (auto simp: graph_contents_def)
qed

lemma set_neighbors_ok:
  assumes "graph_ok d deg lmax g" "length ns \<le> deg l" "\<forall>y \<in> set ns. y < node_count g"
  shows "graph_ok d deg lmax (set_neighbors x l ns g)"
proof -
  have "node_ok d deg lmax (node_count g) (gr_nodes (set_neighbors x l ns g) ! i)"
    if i: "i < node_count g" for i
  proof (cases "i = x")
    case True
    have nth: "xs[l := ns] ! j = (if j = l then ns else xs ! j)" if "j < length xs" for xs j
      using that by (simp add: nth_list_update)
    with True graph_ok_nodeD [OF assms(1) i] assms(2,3) i show ?thesis
      by (simp add: node_ok_def nodes_set_neighbors_same nth)
  next
    case False
    then show ?thesis using graph_ok_nodeD [OF assms(1) i] by (simp add: nodes_set_neighbors_other)
  qed
  then show ?thesis
    using assms(1) set_neighbors_frame(1) [of x l ns g]
    by (auto simp: graph_ok_def in_set_conv_nth simp flip: node_count_def)
qed

lemma set_entry_point_frame [simp]:
  "gr_nodes (set_entry_point e g) = gr_nodes g" "gr_live (set_entry_point e g) = gr_live g"
  "gr_live_count (set_entry_point e g) = gr_live_count g"
  "gr_entry_point (set_entry_point e g) = e"
  "node_count (set_entry_point e g) = node_count g"
  by (simp_all add: set_entry_point_def node_count_def)

lemma set_entry_point_ok [simp]:
  "live_set (set_entry_point e g) = live_set g"
  "graph_ok d deg lmax (set_entry_point e g) = graph_ok d deg lmax g"
  "graph_contents (set_entry_point e g) = graph_contents g"
  "node_level (set_entry_point e g) = node_level g"
  by (auto simp: live_set_def graph_ok_def live_ok_def graph_contents_def node_level_def get_node_def
      fun_eq_iff)

text \<open>Adding a node, on each of its three branches.\<close>

lemma dimension_hint_ok:
  "graph_ok d deg lmax g \<Longrightarrow> dimension_hint g = (if node_count g = 0 then None else Some d)"
  by (cases "gr_nodes g") (auto simp: graph_ok_def node_ok_def dimension_hint_def node_count_def)

lemma add_node_Inr:
  assumes "add_node i e level g = (Inr idx, g')"
  shows "idx = node_count g" "gr_live g i = None"
    "gr_nodes g' = gr_nodes g @ [\<lparr>nd_id = i, nd_embedding = e, nd_neighbors = replicate (level + 1) [],
       nd_level = level, nd_tombstone = False\<rparr>]"
    "gr_live g' = (gr_live g)(i \<mapsto> idx)" "gr_live_count g' = gr_live_count g + 1"
    "gr_entry_point g' = gr_entry_point g"
  using assms by (auto simp: add_node_def Let_def node_count_def split: option.splits if_splits)

lemma add_node_result:
  assumes "graph_ok d deg lmax g" "Embedding_dimension e = d" "gr_live g i = None"
  shows "fst (add_node i e level g) = Inr (node_count g)"
  using assms by (auto simp: add_node_def Let_def dimension_hint_ok node_count_def)

lemma add_node_live_set:
  assumes "add_node i e level g = (Inr idx, g')"
  shows "live_set g' = insert (node_count g) (live_set g)" "node_count g' = Suc (node_count g)"
    "x < node_count g \<Longrightarrow> gr_nodes g' ! x = gr_nodes g ! x"
  using add_node_Inr [OF assms] by (auto simp: live_set_def node_count_def nth_append)

lemma add_node_ok:
  assumes "graph_ok d deg lmax g" "add_node i e level g = (Inr idx, g')"
    "Embedding_dimension e = d" "level \<le> lmax"
  shows "graph_ok d deg lmax g'"
proof -
  note a = add_node_Inr [OF assms(2)] and b = add_node_live_set [OF assms(2)]
  have g: "live_ok g" using assms(1) by (simp add: graph_ok_def)
  have "node_ok d deg lmax (node_count g') nd" if "nd \<in> set (gr_nodes g')" for nd
    using that assms(1,3,4) b(2) unfolding a(3) graph_ok_def node_ok_def
    by (auto simp: less_Suc_eq all_conj_distrib simp del: replicate.simps)
  moreover have "live_ok g'"
  proof -
    have n: "node_count g \<notin> live_set g" by (auto dest: live_set_lt)
    have nth: "gr_nodes g' ! node_count g =
        \<lparr>nd_id = i, nd_embedding = e, nd_neighbors = replicate (level + 1) [],
         nd_level = level, nd_tombstone = False\<rparr>"
      unfolding a(3) node_count_def by simp
    have old: "x \<in> live_set g \<Longrightarrow> nd_id (gr_nodes g ! x) \<noteq> i" for x
      using g a(2) unfolding live_ok_def by (metis option.distinct(1))
    have "gr_live g' j = Some x \<longleftrightarrow> x \<in> live_set g' \<and> nd_id (gr_nodes g' ! x) = j" for j x
    proof (cases "x = node_count g")
      case True
      then show ?thesis using n nth g live_set_lt [of x g] unfolding a(4) b(1) a(1) live_ok_def by auto
    next
      case False
      then show ?thesis
        using g old [of x] live_set_lt [of x g] b(3) [of x] unfolding a(4) b(1) a(1) live_ok_def by auto
    qed
    then show ?thesis using g n by (simp add: live_ok_def a(5) b(1))
  qed
  ultimately show ?thesis by (simp add: graph_ok_def)
qed

lemma add_node_contents:
  assumes "live_ok g" "add_node i e level g = (Inr idx, g')"
  shows "graph_contents g' = (graph_contents g)(i \<mapsto> e)"
proof
  note a = add_node_Inr [OF assms(2)]
  fix j
  have lt: "gr_live g j = Some x \<Longrightarrow> x < length (gr_nodes g)" for x
    using assms(1) by (simp add: live_ok_def live_set_def node_count_def)
  show "graph_contents g' j = ((graph_contents g)(i \<mapsto> e)) j"
    using a lt by (cases "gr_live g j") (auto simp: graph_contents_def node_count_def nth_append)
qed

text \<open>Tombstoning a live node.\<close>

lemma tombstone_live:
  assumes "x \<in> live_set g"
  shows "fst (tombstone x g)"
    "live_set (snd (tombstone x g)) = live_set g - {x}"
    "node_count (snd (tombstone x g)) = node_count g"
    "gr_live (snd (tombstone x g)) = (gr_live g)(nd_id (gr_nodes g ! x) := None)"
    "gr_live_count (snd (tombstone x g)) = gr_live_count g - 1"
    "gr_entry_point (snd (tombstone x g)) = gr_entry_point g"
    "gr_nodes (snd (tombstone x g)) = (gr_nodes g)[x := (gr_nodes g ! x)\<lparr>nd_tombstone := True\<rparr>]"
proof -
  have x: "x < length (gr_nodes g)" "\<not> nd_tombstone (gr_nodes g ! x)"
    using assms by (simp_all add: live_set_def node_count_def)
  then have t: "tombstone x g = (True, g\<lparr>gr_nodes := (gr_nodes g)[x := (gr_nodes g ! x)\<lparr>nd_tombstone := True\<rparr>],
      gr_live := (gr_live g)(nd_id (gr_nodes g ! x) := None), gr_live_count := gr_live_count g - 1\<rparr>)"
    by (simp add: tombstone_def get_node_def)
  show "fst (tombstone x g)"
    "live_set (snd (tombstone x g)) = live_set g - {x}"
    "node_count (snd (tombstone x g)) = node_count g"
    "gr_live (snd (tombstone x g)) = (gr_live g)(nd_id (gr_nodes g ! x) := None)"
    "gr_live_count (snd (tombstone x g)) = gr_live_count g - 1"
    "gr_entry_point (snd (tombstone x g)) = gr_entry_point g"
    "gr_nodes (snd (tombstone x g)) = (gr_nodes g)[x := (gr_nodes g ! x)\<lparr>nd_tombstone := True\<rparr>]"
    using x unfolding t by (auto simp: live_set_def node_count_def nth_list_update split: if_splits)
qed

lemma tombstone_ok:
  assumes "graph_ok d deg lmax g" "x \<in> live_set g"
  shows "graph_ok d deg lmax (snd (tombstone x g))"
proof -
  note t = tombstone_live [OF assms(2)]
  have g: "live_ok g" using assms(1) by (simp add: graph_ok_def)
  have x: "x < length (gr_nodes g)" using assms(2) by (simp add: live_set_def node_count_def)
  have "node_ok d deg lmax (node_count g) nd" if nd: "nd \<in> set (gr_nodes (snd (tombstone x g)))" for nd
  proof -
    have "nd \<in> insert ((gr_nodes g ! x)\<lparr>nd_tombstone := True\<rparr>) (set (gr_nodes g))"
      using nd unfolding t(7) by (rule subsetD [OF set_update_subset_insert])
    then show ?thesis
      using assms(1) nth_mem [OF x] unfolding graph_ok_def node_ok_def by (cases "nd \<in> set (gr_nodes g)") auto
  qed
  moreover have "live_ok (snd (tombstone x g))"
  proof -
    have "nd_id (gr_nodes (snd (tombstone x g)) ! y) = nd_id (gr_nodes g ! y)" for y
      using x unfolding t(7) by (cases "y = x") simp_all
    then show ?thesis
      using g assms(2) live_ok_inj [OF g] unfolding live_ok_def t(2,4,5)
      by (auto simp: card_Diff_singleton)
  qed
  ultimately show ?thesis by (simp add: graph_ok_def t(3))
qed

lemma tombstone_contents:
  assumes "live_ok g" "x \<in> live_set g"
  shows "graph_contents (snd (tombstone x g)) = (graph_contents g)(nd_id (gr_nodes g ! x) := None)"
proof
  note t = tombstone_live [OF assms(2)]
  have x: "x < length (gr_nodes g)" using assms(2) by (simp add: live_set_def node_count_def)
  have "nd_embedding (gr_nodes (snd (tombstone x g)) ! y) = nd_embedding (gr_nodes g ! y)" for y
    using x unfolding t(7) by (cases "y = x") simp_all
  then show "graph_contents (snd (tombstone x g)) i
      = ((graph_contents g)(nd_id (gr_nodes g ! x) := None)) i" for i
    by (simp add: graph_contents_def t(4))
qed

text \<open>The live nodes, in index order.\<close>

lemma live_nodes_mem:
  "(x, i, s, l) \<in> set (live_nodes g) \<longleftrightarrow>
   x \<in> live_set g \<and> i = nd_id (gr_nodes g ! x) \<and> s = as_slice (nd_embedding (gr_nodes g ! x)) \<and>
   l = nd_level (gr_nodes g ! x)"
  by (auto simp: live_nodes_def live_set_def node_count_def in_set_enumerate_eq image_iff)

end
