(* ===== verification/Vector_Index.thy ===== *)
theory Vector_Index
  imports Core
begin

text \<open>
  The port \<open>trait VectorIndex\<close> of \<open>eidosdb-core/src/index.rs\<close>: a record of its required
  methods over an index state \<open>'i\<close> (a \<open>&mut self\<close> method returns its result and the state it
  leaves), with the provided methods \<open>is_empty\<close> and \<open>search\<close> as definitions.
  Three locales state the contract the layers above rely on: \<open>vector_index\<close> (the
  stored vectors are a finite map, a search is sound), \<open>total_index\<close> (operations fail on
  a dimension mismatch or a duplicate only) and \<open>exact_index\<close> (a search is the true top \<open>k\<close>).
\<close>

section \<open>The trait\<close>

record 'i VectorIndex =
  vi_metric :: "'i \<Rightarrow> Metric"
  vi_supported_metrics :: "'i \<Rightarrow> Metric list"
  vi_dimension :: "'i \<Rightarrow> Dimension"
  vi_len :: "'i \<Rightarrow> nat"
  vi_insert :: "VectorId \<Rightarrow> Embedding \<Rightarrow> 'i \<Rightarrow> (IndexError + unit) \<times> 'i"
  vi_remove :: "VectorId \<Rightarrow> 'i \<Rightarrow> (IndexError + bool) \<times> 'i"
  vi_search_filtered ::
    "Embedding \<Rightarrow> nat \<Rightarrow> Metric \<Rightarrow> (VectorId \<Rightarrow> bool) \<Rightarrow> 'i \<Rightarrow> IndexError + Neighbor list"

definition is_empty :: "'i VectorIndex \<Rightarrow> 'i \<Rightarrow> bool" where
  "is_empty V i \<longleftrightarrow> vi_len V i = 0"

definition search :: "'i VectorIndex \<Rightarrow> Embedding \<Rightarrow> nat \<Rightarrow> 'i \<Rightarrow> IndexError + Neighbor list" where
  "search V query k i = vi_search_filtered V query k (vi_metric V i) (\<lambda>_. True) i"

section \<open>The order of results and the abstract top \<open>k\<close>\<close>

text \<open>The comparator of every result list: descending score, ties by ascending id.\<close>

definition neighbor_cmp :: "Neighbor \<Rightarrow> Neighbor \<Rightarrow> ordering" where
  "neighbor_cmp a b =
     then_with (total_cmp (score_value (neighbor_score b)) (score_value (neighbor_score a)))
       (compare (neighbor_id a) (neighbor_id b))"

definition neighbor_key :: "Neighbor \<Rightarrow> int \<times> VectorId" where
  "neighbor_key n = (- total_key (score_value (neighbor_score n)), neighbor_id n)"

interpretation neighbor_order: injective_order neighbor_cmp neighbor_key
proof
  show "neighbor_cmp a b = compare (neighbor_key a) (neighbor_key b)" for a b
    by (simp add: neighbor_cmp_def neighbor_key_def score_desc_key)
  show "inj neighbor_key"
  proof (rule injI)
    fix a b assume "neighbor_key a = neighbor_key b"
    then show "a = b"
      by (cases a; cases b; cases "neighbor_score a"; cases "neighbor_score b")
        (simp add: neighbor_key_def total_key_inj)
  qed
qed

text \<open>\<open>score_of\<close> is the neighbour a stored vector gives; \<open>candidates\<close> all the admissible ones.\<close>

definition score_of :: "Metric \<Rightarrow> Embedding \<Rightarrow> VectorId \<Rightarrow> Embedding \<Rightarrow> Neighbor" where
  "score_of m query i e =
     \<lparr>neighbor_id = i, neighbor_score = Metric_score m (as_slice query) (as_slice e)\<rparr>"

definition candidates ::
  "Metric \<Rightarrow> Embedding \<Rightarrow> (VectorId \<Rightarrow> bool) \<Rightarrow> (VectorId \<rightharpoonup> Embedding) \<Rightarrow> Neighbor set" where
  "candidates m query adm st = {score_of m query i e | i e. st i = Some e \<and> adm i}"

abbreviation is_top_k :: "nat \<Rightarrow> Neighbor set \<Rightarrow> Neighbor list \<Rightarrow> bool" where
  "is_top_k \<equiv> top_k neighbor_key"

lemma score_of_simps [simp]:
  "neighbor_id (score_of m q i e) = i"
  "neighbor_score (score_of m q i e) = Metric_score m (as_slice q) (as_slice e)"
  by (simp_all add: score_of_def)

lemma candidates_id_inj: "inj_on neighbor_id (candidates m q adm st)"
  by (auto simp: inj_on_def candidates_def)

lemma finite_candidates: "finite (dom st) \<Longrightarrow> finite (candidates m q adm st)"
proof -
  assume f: "finite (dom st)"
  have "candidates m q adm st \<subseteq> (\<lambda>i. score_of m q i (the (st i))) ` dom st"
    by (force simp: candidates_def)
  with f show ?thesis by (meson finite_imageI finite_subset)
qed

lemma card_candidates:
  "card (candidates m q adm st) = card {i \<in> dom st. adm i}"
proof -
  have "neighbor_id ` candidates m q adm st = {i \<in> dom st. adm i}"
    by (force simp: candidates_def)
  then show ?thesis by (metis candidates_id_inj card_image)
qed

section \<open>Sequences of operations\<close>

datatype index_op = Op_insert VectorId Embedding | Op_remove VectorId

fun apply_op :: "'i VectorIndex \<Rightarrow> index_op \<Rightarrow> 'i \<Rightarrow> 'i" where
  "apply_op V (Op_insert x e) i = snd (vi_insert V x e i)"
| "apply_op V (Op_remove x) i = snd (vi_remove V x i)"

definition run_ops :: "'i VectorIndex \<Rightarrow> index_op list \<Rightarrow> 'i \<Rightarrow> 'i" where
  "run_ops V ops i = fold (apply_op V) ops i"

text \<open>The same operations on the abstract state: a finite map of the stored vectors.\<close>

fun spec_op :: "Dimension \<Rightarrow> index_op \<Rightarrow> (VectorId \<rightharpoonup> Embedding) \<Rightarrow> (VectorId \<rightharpoonup> Embedding)" where
  "spec_op d (Op_insert x e) st =
     (if Embedding_dimension e = d \<and> st x = None then st(x \<mapsto> e) else st)"
| "spec_op d (Op_remove x) st = st(x := None)"

definition spec_run :: "Dimension \<Rightarrow> index_op list \<Rightarrow> (VectorId \<rightharpoonup> Embedding)" where
  "spec_run d ops = fold (spec_op d) ops Map.empty"

section \<open>The contract\<close>

locale vector_index =
  fixes V :: "'i VectorIndex"
    and ok :: "'i \<Rightarrow> bool"
    and contents :: "'i \<Rightarrow> VectorId \<rightharpoonup> Embedding"
  assumes finite_contents: "ok i \<Longrightarrow> finite (dom (contents i))"
    and len_contents: "ok i \<Longrightarrow> vi_len V i = card (dom (contents i))"
    and insert_ok: "ok i \<Longrightarrow> vi_insert V x e i = (r, i') \<Longrightarrow>
      ok i' \<and> vi_dimension V i' = vi_dimension V i \<and> vi_metric V i' = vi_metric V i"
    and insert_Inr: "ok i \<Longrightarrow> vi_insert V x e i = (Inr u, i') \<Longrightarrow>
      contents i x = None \<and> Embedding_dimension e = vi_dimension V i \<and> contents i' = (contents i)(x \<mapsto> e)"
    and insert_Inl: "ok i \<Longrightarrow> vi_insert V x e i = (Inl err, i') \<Longrightarrow> contents i' = contents i"
    and remove_ok: "ok i \<Longrightarrow> vi_remove V x i = (rr, i') \<Longrightarrow>
      ok i' \<and> vi_dimension V i' = vi_dimension V i \<and> vi_metric V i' = vi_metric V i"
    and remove_Inr: "ok i \<Longrightarrow> vi_remove V x i = (Inr b, i') \<Longrightarrow>
      b = (contents i x \<noteq> None) \<and> contents i' = (contents i)(x := None)"
    and remove_Inl: "ok i \<Longrightarrow> vi_remove V x i = (Inl err, i') \<Longrightarrow> contents i' = contents i"
    and search_sound: "ok i \<Longrightarrow> vi_search_filtered V q k m adm i = Inr ns \<Longrightarrow>
      Embedding_dimension q = vi_dimension V i \<and> m \<in> set (vi_supported_metrics V i) \<and>
      sorted (map neighbor_key ns) \<and> distinct (map neighbor_id ns) \<and> length ns \<le> k \<and>
      set ns \<subseteq> candidates m q adm (contents i)"
begin

lemma is_empty_iff: "ok i \<Longrightarrow> is_empty V i \<longleftrightarrow> contents i = Map.empty"
  by (simp add: is_empty_def len_contents finite_contents)

lemma apply_op_ok: "ok i \<Longrightarrow> ok (apply_op V a i) \<and> vi_dimension V (apply_op V a i) = vi_dimension V i
    \<and> vi_metric V (apply_op V a i) = vi_metric V i"
  by (cases a) (auto dest: insert_ok remove_ok simp: prod.expand split_beta intro: prod.collapse [symmetric])

lemma run_ops_ok: "ok i \<Longrightarrow> ok (run_ops V ops i) \<and> vi_dimension V (run_ops V ops i) = vi_dimension V i
    \<and> vi_metric V (run_ops V ops i) = vi_metric V i"
  by (induction ops arbitrary: i) (simp_all add: run_ops_def apply_op_ok)

lemma insert_then_remove:
  assumes "ok i" "vi_insert V x e i = (Inr u, i1)" "vi_remove V x i1 = (Inr b, i2)"
  shows "b" "contents i2 = contents i"
  using insert_ok [OF assms(1,2)] insert_Inr [OF assms(1,2)] remove_Inr [OF _ assms(3)] by auto

lemma search_ids:
  assumes "ok i" "vi_search_filtered V q k m adm i = Inr ns" "n \<in> set ns"
  shows "adm (neighbor_id n)" "neighbor_id n \<in> dom (contents i)"
  using search_sound [OF assms(1,2)] assms(3) by (auto simp: candidates_def)

lemma search_length:
  assumes "ok i" "vi_search_filtered V q k m adm i = Inr ns"
  shows "length ns \<le> k" "length ns \<le> vi_len V i"
proof -
  note s = search_sound [OF assms]
  then show "length ns \<le> k" by simp
  have "length ns = card (neighbor_id ` set ns)" using s by (metis distinct_card length_map set_map)
  also have "\<dots> \<le> card (dom (contents i))"
    using search_ids(2) [OF assms] assms(1) by (intro card_mono) (auto simp: finite_contents)
  finally show "length ns \<le> vi_len V i" using assms(1) by (simp add: len_contents)
qed

end

locale total_index = vector_index V ok contents
  for V :: "'i VectorIndex" and ok contents +
  assumes insert_total: "ok i \<Longrightarrow> fst (vi_insert V x e i) =
      (if Embedding_dimension e \<noteq> vi_dimension V i
       then Inl (DimensionMismatch (Dimension_get (vi_dimension V i)) (Dimension_get (Embedding_dimension e)))
       else if contents i x \<noteq> None then Inl (DuplicateId x) else Inr ())"
    and remove_total: "ok i \<Longrightarrow> fst (vi_remove V x i) = Inr (contents i x \<noteq> None)"
    and default_supported: "ok i \<Longrightarrow> vi_metric V i \<in> set (vi_supported_metrics V i)"
    and search_total: "ok i \<Longrightarrow> m \<in> set (vi_supported_metrics V i) \<Longrightarrow>
      Embedding_dimension q = vi_dimension V i \<Longrightarrow> \<exists>ns. vi_search_filtered V q k m adm i = Inr ns"
    and search_mismatch: "ok i \<Longrightarrow> m \<in> set (vi_supported_metrics V i) \<Longrightarrow>
      Embedding_dimension q \<noteq> vi_dimension V i \<Longrightarrow> vi_search_filtered V q k m adm i =
        Inl (DimensionMismatch (Dimension_get (vi_dimension V i)) (Dimension_get (Embedding_dimension q)))"
begin

lemma insert_spec:
  assumes "ok i" "Embedding_dimension e = vi_dimension V i" "contents i x = None"
  shows "\<exists>i'. vi_insert V x e i = (Inr (), i') \<and> ok i' \<and> contents i' = (contents i)(x \<mapsto> e) \<and>
    vi_dimension V i' = vi_dimension V i \<and> vi_metric V i' = vi_metric V i"
  using insert_total [OF assms(1), of x e] insert_ok [OF assms(1), of x e] insert_Inr [OF assms(1), of x e] assms(2,3)
  by (cases "vi_insert V x e i") auto

lemma insert_mismatch:
  assumes "ok i" "Embedding_dimension e \<noteq> vi_dimension V i"
  shows "\<exists>i'. vi_insert V x e i =
      (Inl (DimensionMismatch (Dimension_get (vi_dimension V i)) (Dimension_get (Embedding_dimension e))), i') \<and>
    ok i' \<and> contents i' = contents i \<and>
    vi_dimension V i' = vi_dimension V i \<and> vi_metric V i' = vi_metric V i"
  using insert_total [OF assms(1), of x e] insert_ok [OF assms(1), of x e] insert_Inl [OF assms(1), of x e] assms(2)
  by (cases "vi_insert V x e i") auto

lemma remove_spec:
  assumes "ok i"
  shows "\<exists>i'. vi_remove V x i = (Inr (contents i x \<noteq> None), i') \<and> ok i' \<and>
    contents i' = (contents i)(x := None) \<and>
    vi_dimension V i' = vi_dimension V i \<and> vi_metric V i' = vi_metric V i"
  using remove_total [OF assms, of x] remove_ok [OF assms, of x] remove_Inr [OF assms, of x]
  by (cases "vi_remove V x i") auto

lemma contents_apply_op:
  assumes "ok i"
  shows "contents (apply_op V a i) = spec_op (vi_dimension V i) a (contents i)"
proof (cases a)
  case (Op_insert x e)
  obtain r i' where ins: "vi_insert V x e i = (r, i')" by fastforce
  have r: "r = (if Embedding_dimension e \<noteq> vi_dimension V i
       then Inl (DimensionMismatch (Dimension_get (vi_dimension V i)) (Dimension_get (Embedding_dimension e)))
       else if contents i x \<noteq> None then Inl (DuplicateId x) else Inr ())"
    using insert_total [OF assms, of x e] unfolding ins fst_conv .
  show ?thesis
  proof (cases r)
    case (Inl err)
    then have "contents i' = contents i" using insert_Inl [OF assms] ins by blast
    then show ?thesis using Inl r ins Op_insert by (simp split: if_splits)
  next
    case (Inr u)
    then have "vi_insert V x e i = (Inr u, i')" using ins by simp
    from insert_Inr [OF assms this] show ?thesis using Op_insert ins by simp
  qed
next
  case (Op_remove x)
  obtain r i' where rem: "vi_remove V x i = (r, i')" by fastforce
  have "r = Inr (contents i x \<noteq> None)" using remove_total [OF assms, of x] unfolding rem fst_conv .
  with rem have "vi_remove V x i = (Inr (contents i x \<noteq> None), i')" by simp
  from remove_Inr [OF assms this] show ?thesis using Op_remove rem by simp
qed

lemma contents_run_ops:
  "ok i \<Longrightarrow> contents i = Map.empty \<Longrightarrow>
   contents (run_ops V ops i) = spec_run (vi_dimension V i) ops"
proof -
  have "ok i \<Longrightarrow> contents (run_ops V ops i) = fold (spec_op (vi_dimension V i)) ops (contents i)" for i
    by (induction ops arbitrary: i) (simp_all add: run_ops_def contents_apply_op apply_op_ok)
  then show "ok i \<Longrightarrow> contents i = Map.empty \<Longrightarrow> ?thesis" by (simp add: spec_run_def)
qed

end

text \<open>
  What the collection above the port relies on, weaker than \<open>total_index\<close>: an insertion is needed only for an id that is not
  stored and an embedding the index \<open>admits\<close>, while there is \<open>room\<close> for it, since a file has a largest length.
\<close>

locale fitting_index =
  fixes V :: "'i VectorIndex"
    and ok :: "'i \<Rightarrow> bool"
    and contents :: "'i \<Rightarrow> VectorId \<rightharpoonup> Embedding"
    and room :: "nat \<Rightarrow> 'i \<Rightarrow> bool"
    and admits :: "Dimension \<Rightarrow> Embedding \<Rightarrow> bool"
  assumes finite_contents: "ok i \<Longrightarrow> finite (dom (contents i))"
    and len_contents: "ok i \<Longrightarrow> vi_len V i = card (dom (contents i))"
    and room_mono: "room (Suc n) i \<Longrightarrow> room n i"
    and insert_spec: "ok i \<Longrightarrow> room (Suc n) i \<Longrightarrow> admits (vi_dimension V i) e \<Longrightarrow>
      Embedding_dimension e = vi_dimension V i \<Longrightarrow> contents i x = None \<Longrightarrow>
      \<exists>i'. vi_insert V x e i = (Inr (), i') \<and> ok i' \<and> contents i' = (contents i)(x \<mapsto> e) \<and>
        vi_dimension V i' = vi_dimension V i \<and> vi_metric V i' = vi_metric V i \<and> room n i'"
    and insert_mismatch: "ok i \<Longrightarrow> room (Suc n) i \<Longrightarrow> admits (vi_dimension V i) e \<Longrightarrow>
      Embedding_dimension e \<noteq> vi_dimension V i \<Longrightarrow>
      \<exists>i'. vi_insert V x e i =
          (Inl (DimensionMismatch (Dimension_get (vi_dimension V i)) (Dimension_get (Embedding_dimension e))), i') \<and>
        ok i' \<and> contents i' = contents i \<and> vi_dimension V i' = vi_dimension V i \<and> vi_metric V i' = vi_metric V i \<and> room n i'"
    and remove_spec: "ok i \<Longrightarrow> \<exists>i'. vi_remove V x i = (Inr (contents i x \<noteq> None), i') \<and> ok i' \<and>
        contents i' = (contents i)(x := None) \<and> vi_dimension V i' = vi_dimension V i \<and> vi_metric V i' = vi_metric V i \<and>
        (\<forall>n. room n i \<longrightarrow> room n i')"
    and search_sound: "ok i \<Longrightarrow> vi_search_filtered V q k m adm i = Inr ns \<Longrightarrow>
      Embedding_dimension q = vi_dimension V i \<and> m \<in> set (vi_supported_metrics V i) \<and>
      sorted (map neighbor_key ns) \<and> distinct (map neighbor_id ns) \<and> length ns \<le> k \<and>
      set ns \<subseteq> candidates m q adm (contents i)"
    and search_total: "ok i \<Longrightarrow> m \<in> set (vi_supported_metrics V i) \<Longrightarrow>
      Embedding_dimension q = vi_dimension V i \<Longrightarrow> \<exists>ns. vi_search_filtered V q k m adm i = Inr ns"
    and search_mismatch: "ok i \<Longrightarrow> m \<in> set (vi_supported_metrics V i) \<Longrightarrow>
      Embedding_dimension q \<noteq> vi_dimension V i \<Longrightarrow> vi_search_filtered V q k m adm i =
        Inl (DimensionMismatch (Dimension_get (vi_dimension V i)) (Dimension_get (Embedding_dimension q)))"

sublocale total_index \<subseteq> fit: fitting_index V ok contents "\<lambda>_ _. True" "\<lambda>_ _. True"
proof unfold_locales
  fix i :: 'i and x e q k m adm ns
  assume ok: "ok i"
  show "finite (dom (contents i))" "vi_len V i = card (dom (contents i))"
    using ok by (simp_all add: finite_contents len_contents)
  show "Embedding_dimension e = vi_dimension V i \<Longrightarrow> contents i x = None \<Longrightarrow>
      \<exists>i'. vi_insert V x e i = (Inr (), i') \<and> ok i' \<and> contents i' = (contents i)(x \<mapsto> e) \<and>
        vi_dimension V i' = vi_dimension V i \<and> vi_metric V i' = vi_metric V i \<and> True"
    using insert_spec [OF ok] by simp
  show "Embedding_dimension e \<noteq> vi_dimension V i \<Longrightarrow>
      \<exists>i'. vi_insert V x e i =
          (Inl (DimensionMismatch (Dimension_get (vi_dimension V i)) (Dimension_get (Embedding_dimension e))), i') \<and>
        ok i' \<and> contents i' = contents i \<and> vi_dimension V i' = vi_dimension V i \<and> vi_metric V i' = vi_metric V i \<and> True"
    using insert_mismatch [OF ok] by simp
  show "\<exists>i'. vi_remove V x i = (Inr (contents i x \<noteq> None), i') \<and> ok i' \<and>
        contents i' = (contents i)(x := None) \<and> vi_dimension V i' = vi_dimension V i \<and> vi_metric V i' = vi_metric V i \<and>
        (\<forall>n. True \<longrightarrow> True)"
    using remove_spec [OF ok] by simp
  show "vi_search_filtered V q k m adm i = Inr ns \<Longrightarrow>
      Embedding_dimension q = vi_dimension V i \<and> m \<in> set (vi_supported_metrics V i) \<and>
      sorted (map neighbor_key ns) \<and> distinct (map neighbor_id ns) \<and> length ns \<le> k \<and>
      set ns \<subseteq> candidates m q adm (contents i)"
    by (rule search_sound [OF ok])
  show "m \<in> set (vi_supported_metrics V i) \<Longrightarrow>
      Embedding_dimension q = vi_dimension V i \<Longrightarrow> \<exists>ns. vi_search_filtered V q k m adm i = Inr ns"
    by (rule search_total [OF ok])
  show "m \<in> set (vi_supported_metrics V i) \<Longrightarrow>
      Embedding_dimension q \<noteq> vi_dimension V i \<Longrightarrow> vi_search_filtered V q k m adm i =
        Inl (DimensionMismatch (Dimension_get (vi_dimension V i)) (Dimension_get (Embedding_dimension q)))"
    by (rule search_mismatch [OF ok])
qed simp

locale exact_index = vector_index V ok contents
  for V :: "'i VectorIndex" and ok contents +
  assumes search_exact: "ok i \<Longrightarrow> vi_search_filtered V q k m adm i = Inr ns \<Longrightarrow>
      is_top_k k (candidates m q adm (contents i)) ns"
begin

lemma search_unique:
  "ok i \<Longrightarrow> vi_search_filtered V q k m adm i = Inr ns \<Longrightarrow>
   is_top_k k (candidates m q adm (contents i)) ms \<Longrightarrow> ns = ms"
  by (rule neighbor_order.top_k_unique) (auto intro: finite_candidates finite_contents search_exact)

text \<open>The result depends on the stored map alone, not on the state that represents it.\<close>

lemma search_contents_cong:
  "ok i \<Longrightarrow> ok j \<Longrightarrow> contents i = contents j \<Longrightarrow>
   vi_search_filtered V q k m adm i = Inr ns \<Longrightarrow> vi_search_filtered V q k m adm j = Inr ms \<Longrightarrow> ns = ms"
  by (metis search_exact search_unique)

lemma search_length_exact:
  "ok i \<Longrightarrow> vi_search_filtered V q k m adm i = Inr ns \<Longrightarrow>
   length ns = min k (card {x \<in> dom (contents i). adm x})"
  by (auto dest!: search_exact simp: top_k_def card_candidates)

text \<open>Any sound result over the same vectors is dominated, position by position.\<close>

lemma search_dominates:
  assumes "ok i" "vi_search_filtered V q k m adm i = Inr fs"
    and "sorted (map neighbor_key ns)" "distinct (map neighbor_id ns)" "length ns \<le> k"
    and "set ns \<subseteq> candidates m q adm (contents i)" "j < length ns"
  shows "j < length fs" "neighbor_key (fs ! j) \<le> neighbor_key (ns ! j)"
proof -
  have d: "distinct ns" using assms(4) by (simp add: distinct_map)
  have f: "finite (candidates m q adm (contents i))"
    using assms(1) by (intro finite_candidates finite_contents)
  note neighbor_order.top_k_dominates [OF search_exact [OF assms(1,2)] assms(3) d assms(6,5) f assms(7)]
  then show "j < length fs" "neighbor_key (fs ! j) \<le> neighbor_key (ns ! j)" by blast+
qed

end

end
