(* ===== verification/Hnsw_Search.thy ===== *)
theory Hnsw_Search
  imports Hnsw_Graph Vector_Index
begin

text \<open>
  The search primitives of \<open>eidosdb-hnsw/src/index.rs\<close>: \<open>Candidate\<close> and its order,
  \<open>greedy_descent\<close>, \<open>beam_search\<close> and \<open>select_neighbors_heuristic\<close>, with the proofs that
  both loops end and that a beam search is sound, bounded and, when its width covers the graph, complete.
  A \<open>BinaryHeap\<close> is the list of its elements in descending order, so \<open>peek\<close> and \<open>pop\<close> take
  the head; among elements that compare equal the standard library fixes no order and the model takes
  the most recently pushed (in the frontier these can only be tombstones of one id, in the result
  heap there are none).
\<close>

section \<open>Candidates\<close>

record Candidate =
  cd_score_bits :: u32
  cd_node :: NodeIdx
  cd_id :: VectorId

definition Candidate_new :: "Score \<Rightarrow> NodeIdx \<Rightarrow> VectorId \<Rightarrow> Candidate" where
  "Candidate_new score node i =
     \<lparr>cd_score_bits = score_value score, cd_node = node, cd_id = i\<rparr>"

definition cd_score :: "Candidate \<Rightarrow> Score" where
  "cd_score c = Score (cd_score_bits c)"

definition Candidate_cmp :: "Candidate \<Rightarrow> Candidate \<Rightarrow> ordering" where
  "Candidate_cmp self other =
     then_with (total_cmp (score_value (cd_score self)) (score_value (cd_score other)))
       (compare (cd_id other) (cd_id self))"

text \<open>The comparator of the sorts: descending score, then ascending id.\<close>

definition cand_desc :: "Candidate \<Rightarrow> Candidate \<Rightarrow> ordering" where
  "cand_desc a b =
     then_with (total_cmp (score_value (cd_score b)) (score_value (cd_score a)))
       (compare (cd_id a) (cd_id b))"

definition heap_push :: "('a \<Rightarrow> 'a \<Rightarrow> ordering) \<Rightarrow> 'a \<Rightarrow> 'a list \<Rightarrow> 'a list" where
  "heap_push cmp x h = insert_by (\<lambda>a b. cmp b a) x h"

text \<open>\<open>Reverse<Candidate>\<close>.\<close>

definition Reverse_cmp :: "Candidate \<Rightarrow> Candidate \<Rightarrow> ordering" where
  "Reverse_cmp a b = Candidate_cmp b a"

definition nil_id :: VectorId where
  "nil_id = VectorId_from_uuid 0"

definition unwrap_or :: "'a \<Rightarrow> 'a option \<Rightarrow> 'a" where
  "unwrap_or d m = (case m of None \<Rightarrow> d | Some x \<Rightarrow> x)"

definition id_or_nil :: "HnswGraph \<Rightarrow> NodeIdx \<Rightarrow> VectorId" where
  "id_or_nil graph n = unwrap_or nil_id (node_id graph n)"

definition emb_or_empty :: "HnswGraph \<Rightarrow> NodeIdx \<Rightarrow> f32 list" where
  "emb_or_empty graph n = unwrap_or [] (node_embedding graph n)"

section \<open>Greedy descent\<close>

definition greedy_step ::
  "HnswGraph \<Rightarrow> f32 list \<Rightarrow> Metric \<Rightarrow> NodeIdx \<times> Score \<times> bool \<Rightarrow> NodeIdx \<Rightarrow> NodeIdx \<times> Score \<times> bool" where
  "greedy_step graph query metric st neighbor =
     (case st of (current, current_score, improved) \<Rightarrow>
        let s = Metric_score metric query (emb_or_empty graph neighbor);
            is_tie = (total_cmp (score_value s) (score_value current_score) = Equal)
        in if f32_lt (score_value current_score) (score_value s) \<or>
              (is_tie \<and> id_or_nil graph neighbor < id_or_nil graph current)
           then (neighbor, s, True)
           else (current, current_score, improved))"

text \<open>The measure of the inner loop: how many node keys exceed the current one.\<close>

definition greedy_key :: "HnswGraph \<Rightarrow> NodeIdx \<Rightarrow> Score \<Rightarrow> int \<times> int" where
  "greedy_key graph n s = (total_key (score_value s), - uint (VectorId_as_uuid (id_or_nil graph n)))"

definition greedy_keys :: "HnswGraph \<Rightarrow> f32 list \<Rightarrow> Metric \<Rightarrow> (int \<times> int) set" where
  "greedy_keys graph query metric =
     (\<lambda>n. greedy_key graph n (Metric_score metric query (emb_or_empty graph n))) ` {..node_count graph}"

lemma greedy_key_mem:
  "greedy_key graph n (Metric_score metric query (emb_or_empty graph n)) \<in> greedy_keys graph query metric"
proof (cases "n \<le> node_count graph")
  case False
  then have "greedy_key graph n (Metric_score metric query (emb_or_empty graph n)) =
    greedy_key graph (node_count graph) (Metric_score metric query (emb_or_empty graph (node_count graph)))"
    by (simp add: greedy_key_def id_or_nil_def emb_or_empty_def node_id_def node_embedding_def graph_simps)
  then show ?thesis by (auto simp: greedy_keys_def)
qed (auto simp: greedy_keys_def)

lemma finite_greedy_keys [simp]: "finite (greedy_keys graph query metric)"
  by (simp add: greedy_keys_def)

lemma greedy_step_key:
  assumes "greedy_step graph query metric (c, s, imp) n = (c', s', imp')"
  shows "(c' = n \<and> s' = Metric_score metric query (emb_or_empty graph n) \<and> imp' \<and>
      greedy_key graph c s < greedy_key graph c' s') \<or> (c' = c \<and> s' = s \<and> imp' = imp)"
  using assms f_lt_total [of b32 "score_value s"]
  by (auto simp: greedy_step_def greedy_key_def Let_def f32_lt_def total_cmp_def less_VectorId_def
      word_less_def split: if_splits)

lemma greedy_steps_key:
  assumes "foldl (greedy_step graph query metric) (c, s, False) ns = (c', s', imp')"
  shows "if imp' then c' \<in> set ns \<and> s' = Metric_score metric query (emb_or_empty graph c') \<and>
      greedy_key graph c s < greedy_key graph c' s' else c' = c \<and> s' = s"
  using assms
proof (induction ns arbitrary: c' s' imp' rule: rev_induct)
  case (snoc n ns)
  obtain c1 s1 i1 where f: "foldl (greedy_step graph query metric) (c, s, False) ns = (c1, s1, i1)"
    by (cases "foldl (greedy_step graph query metric) (c, s, False) ns")
  then have "greedy_step graph query metric (c1, s1, i1) n = (c', s', imp')" using snoc.prems by simp
  from greedy_step_key [OF this] snoc.IH [OF f] show ?case
    by (auto split: if_splits intro: order.strict_trans)
qed auto

function greedy_layer ::
  "HnswGraph \<Rightarrow> f32 list \<Rightarrow> Metric \<Rightarrow> nat \<Rightarrow> NodeIdx \<times> Score \<Rightarrow> NodeIdx \<times> Score" where
  "greedy_layer graph query metric layer (current, current_score) =
     (case foldl (greedy_step graph query metric) (current, current_score, False)
             (neighbors graph current layer) of
        (current', score', improved) \<Rightarrow>
          if improved then greedy_layer graph query metric layer (current', score')
          else (current', score'))"
  by pat_completeness auto

termination
proof (relation "measure (\<lambda>(graph, query, metric, layer, (c, s)).
    card {k \<in> greedy_keys graph query metric. greedy_key graph c s < k})", goal_cases)
  case (2 graph query metric layer c s c' y s' imp)
  then have f: "foldl (greedy_step graph query metric) (c, s, False) (neighbors graph c layer) = (c', s', True)"
    by simp
  note k = greedy_steps_key [OF f, simplified]
  let ?A = "\<lambda>c s. {k \<in> greedy_keys graph query metric. greedy_key graph c s < k}"
  have "greedy_key graph c' s' \<in> ?A c s - ?A c' s'"
    using k greedy_key_mem [of graph c' metric query] by auto
  moreover have "?A c' s' \<subseteq> ?A c s" using k by auto
  ultimately have "?A c' s' \<subset> ?A c s" by blast
  then have "card (?A c' s') < card (?A c s)" by (intro psubset_card_mono) simp_all
  then show ?case by simp
qed simp

declare greedy_layer.simps [simp del]

definition greedy_descent ::
  "HnswGraph \<Rightarrow> f32 list \<Rightarrow> Metric \<Rightarrow> NodeIdx \<Rightarrow> nat \<Rightarrow> nat \<Rightarrow> NodeIdx" where
  "greedy_descent graph query metric entry from_layer to_layer =
     fst (foldl (\<lambda>st layer. greedy_layer graph query metric layer st)
            (entry, Metric_score metric query (emb_or_empty graph entry))
            (rev [to_layer ..< Suc from_layer]))"

lemma greedy_layer_lt:
  assumes "\<And>x l y. y \<in> set (neighbors graph x l) \<Longrightarrow> y < n" "fst st < n"
  shows "fst (greedy_layer graph query metric layer st) < n"
  using assms
proof (induction graph query metric layer st rule: greedy_layer.induct)
  case (1 graph query metric layer c s)
  obtain c' s' i where f: "foldl (greedy_step graph query metric) (c, s, False) (neighbors graph c layer) = (c', s', i)"
    by (cases "foldl (greedy_step graph query metric) (c, s, False) (neighbors graph c layer)")
  have "c' < n" using greedy_steps_key [OF f] 1(2,3) by (auto split: if_splits)
  with 1 f show ?case by (subst greedy_layer.simps) (auto simp: f)
qed

lemma greedy_descent_lt:
  assumes "\<And>x l y. y \<in> set (neighbors graph x l) \<Longrightarrow> y < n" "entry < n"
  shows "greedy_descent graph query metric entry from to < n"
proof -
  have "fst (foldl (\<lambda>st layer. greedy_layer graph query metric layer st) st ls) < n" if "fst st < n" for st ls
    using that by (induction ls arbitrary: st) (auto simp: greedy_layer_lt [OF assms(1)])
  then show ?thesis using assms(2) by (simp add: greedy_descent_def)
qed

section \<open>Beam search\<close>

definition worst_in_result :: "Candidate list \<Rightarrow> f32" where
  "worst_in_result r = (case r of [] \<Rightarrow> f32_neg_infinity | c # _ \<Rightarrow> score_value (cd_score c))"

text \<open>\<open>while result.len() > ef { result.pop(); }\<close>\<close>

fun evict :: "nat \<Rightarrow> Candidate list \<Rightarrow> Candidate list" where
  "evict ef [] = []"
| "evict ef (c # r) = (if ef < length (c # r) then evict ef r else c # r)"

definition beam_step ::
  "HnswGraph \<Rightarrow> f32 list \<Rightarrow> Metric \<Rightarrow> nat \<Rightarrow> (VectorId \<Rightarrow> bool) \<Rightarrow>
   bool list \<times> Candidate list \<times> Candidate list \<Rightarrow> NodeIdx \<Rightarrow>
   bool list \<times> Candidate list \<times> Candidate list" where
  "beam_step graph query metric ef is_admissible st neighbor =
     (case st of (visited, frontier, result) \<Rightarrow>
        if length visited \<le> neighbor \<or> visited ! neighbor then (visited, frontier, result)
        else
          let visited' = visited[neighbor := True];
              s = Metric_score metric query (emb_or_empty graph neighbor);
              nid = id_or_nil graph neighbor;
              frontier' = heap_push Candidate_cmp (Candidate_new s neighbor nid) frontier;
              result' =
                (if \<not> is_tombstone graph neighbor \<and> is_admissible nid \<and>
                    (length result < ef \<or> f32_lt (worst_in_result result) (score_value s))
                 then evict ef (heap_push Reverse_cmp (Candidate_new s neighbor nid) result)
                 else result)
          in (visited', frontier', result'))"

lemma length_insert_by [simp]: "length (insert_by cmp x xs) = Suc (length xs)"
  by (induction xs) auto

lemma mset_insert_by [simp]: "mset (insert_by cmp x xs) = add_mset x (mset xs)"
  by (induction xs) auto

lemma set_insert_by [simp]: "set (insert_by cmp x xs) = insert x (set xs)"
  by (induction xs) auto

lemma heap_push_facts [simp]:
  "length (heap_push cmp x h) = Suc (length h)"
  "mset (heap_push cmp x h) = add_mset x (mset h)"
  "set (heap_push cmp x h) = insert x (set h)"
  by (simp_all add: heap_push_def)

definition unvisited :: "bool list \<Rightarrow> nat" where
  "unvisited v = length (filter Not v)"

lemma unvisited_update: "n < length v \<Longrightarrow> \<not> v ! n \<Longrightarrow> Suc (unvisited (v[n := True])) = unvisited v"
proof (induction v arbitrary: n)
  case (Cons b v)
  then show ?case by (cases n) (auto simp: unvisited_def)
qed simp

text \<open>A step skips a neighbour or visits it once, and then admits it or not.\<close>

definition cand_of :: "HnswGraph \<Rightarrow> f32 list \<Rightarrow> Metric \<Rightarrow> NodeIdx \<Rightarrow> Candidate" where
  "cand_of graph query metric n =
     Candidate_new (Metric_score metric query (emb_or_empty graph n)) n (id_or_nil graph n)"

lemma beam_step_cases:
  assumes "beam_step graph query metric ef adm (v, f, r) n = (v', f', r')"
  obtains (skip) "length v \<le> n \<or> v ! n" "v' = v" "f' = f" "r' = r"
  | (visit) "n < length v" "\<not> v ! n" "v' = v[n := True]"
      "f' = heap_push Candidate_cmp (cand_of graph query metric n) f"
      "r' = (if \<not> is_tombstone graph n \<and> adm (id_or_nil graph n) \<and>
          (length r < ef \<or> f32_lt (worst_in_result r) (cd_score_bits (cand_of graph query metric n)))
        then evict ef (heap_push Reverse_cmp (cand_of graph query metric n) r) else r)"
proof (cases "length v \<le> n \<or> v ! n")
  case True
  then have "v' = v" "f' = f" "r' = r" using assms by (simp_all add: beam_step_def)
  with True show ?thesis by (intro skip)
next
  case False
  have "score_value (Metric_score metric query (emb_or_empty graph n)) =
      cd_score_bits (cand_of graph query metric n)"
    by (simp add: cand_of_def Candidate_new_def)
  note e = assms [unfolded beam_step_def Let_def prod.case if_not_P [OF False] prod.inject this,
      folded cand_of_def]
  from False e show ?thesis by (intro visit) auto
qed

lemma beam_step_measure:
  assumes "beam_step graph query metric ef adm (v, f, r) n = (v', f', r')"
  shows "2 * unvisited v' + length f' \<le> 2 * unvisited v + length f \<and> length v' = length v"
  using assms
proof (cases rule: beam_step_cases)
  case visit
  with unvisited_update [of n v] show ?thesis by simp
qed simp

lemma beam_steps_measure:
  "foldl (beam_step graph query metric ef adm) (v, f, r) ns = (v', f', r') \<Longrightarrow>
   2 * unvisited v' + length f' \<le> 2 * unvisited v + length f \<and> length v' = length v"
proof (induction ns arbitrary: v f r)
  case (Cons n ns)
  obtain v1 f1 r1 where "beam_step graph query metric ef adm (v, f, r) n = (v1, f1, r1)"
    by (cases "beam_step graph query metric ef adm (v, f, r) n")
  with Cons show ?case using beam_step_measure by fastforce
qed simp

function beam_loop ::
  "HnswGraph \<Rightarrow> f32 list \<Rightarrow> Metric \<Rightarrow> nat \<Rightarrow> nat \<Rightarrow> (VectorId \<Rightarrow> bool) \<Rightarrow>
   bool list \<times> Candidate list \<times> Candidate list \<Rightarrow> Candidate list" where
  "beam_loop graph query metric ef layer is_admissible (visited, [], result) = result"
| "beam_loop graph query metric ef layer is_admissible (visited, candidate # frontier, result) =
     (if ef \<le> length result \<and>
         f32_lt (score_value (cd_score candidate)) (worst_in_result result)
      then result
      else beam_loop graph query metric ef layer is_admissible
             (foldl (beam_step graph query metric ef is_admissible) (visited, frontier, result)
                (neighbors graph (cd_node candidate) layer)))"
  by pat_completeness auto

termination
proof (relation "measure (\<lambda>(graph, query, metric, ef, layer, adm, (v, f, r)).
    2 * unvisited v + length f)", goal_cases)
  case (2 graph query metric ef layer adm v c f r)
  obtain v' f' r' where s: "foldl (beam_step graph query metric ef adm) (v, f, r)
      (neighbors graph (cd_node c) layer) = (v', f', r')"
    by (cases "foldl (beam_step graph query metric ef adm) (v, f, r) (neighbors graph (cd_node c) layer)")
  from beam_steps_measure [OF s] show ?case by (simp add: s)
qed simp

declare beam_loop.simps [simp del]

text \<open>
  \<open>visited[entry] = true\<close> panics when the entry is not a node; every caller passes a node, as
  the entry invariant of the index shows.
\<close>

definition beam_search ::
  "HnswGraph \<Rightarrow> f32 list \<Rightarrow> Metric \<Rightarrow> NodeIdx \<Rightarrow> nat \<Rightarrow> nat \<Rightarrow> (VectorId \<Rightarrow> bool) \<Rightarrow> Candidate list" where
  "beam_search graph query metric entry ef layer is_admissible =
     (let visited = (replicate (node_count graph) False)[entry := True];
          entry_score = Metric_score metric query (emb_or_empty graph entry);
          entry_id = id_or_nil graph entry;
          frontier = heap_push Candidate_cmp (Candidate_new entry_score entry entry_id) [];
          result = (if \<not> is_tombstone graph entry \<and> is_admissible entry_id
                    then heap_push Reverse_cmp (Candidate_new entry_score entry entry_id) [] else [])
      in sort_by cand_desc
           (beam_loop graph query metric ef layer is_admissible (visited, frontier, result)))"

section \<open>Neighbour selection\<close>

fun select_loop ::
  "Metric \<Rightarrow> nat \<Rightarrow> HnswGraph \<Rightarrow> NodeIdx list \<Rightarrow> Candidate list \<Rightarrow> NodeIdx list" where
  "select_loop metric m_max graph selected [] = selected"
| "select_loop metric m_max graph selected (candidate # cands) =
     (if m_max \<le> length selected then selected
      else
        let cand_emb = emb_or_empty graph (cd_node candidate);
            score_to_base = score_value (cd_score candidate)
        in if list_ex (\<lambda>sel. f32_lt score_to_base
                 (score_value (Metric_score metric cand_emb (emb_or_empty graph sel)))) selected
           then select_loop metric m_max graph selected cands
           else select_loop metric m_max graph (selected @ [cd_node candidate]) cands)"

definition select_neighbors_heuristic ::
  "Candidate list \<Rightarrow> f32 list \<Rightarrow> Metric \<Rightarrow> nat \<Rightarrow> HnswGraph \<Rightarrow> NodeIdx list" where
  "select_neighbors_heuristic cands base_embedding metric m_max graph =
     select_loop metric m_max graph [] cands"

section \<open>Soundness of the beam\<close>

lemma cand_of_simps [simp]:
  "cd_node (cand_of graph query metric n) = n"
  "cd_id (cand_of graph query metric n) = id_or_nil graph n"
  "cd_score (cand_of graph query metric n) = Metric_score metric query (emb_or_empty graph n)"
  by (simp_all add: cand_of_def Candidate_new_def cd_score_def)

lemma evict_drop: "evict ef r = drop (length r - ef) r"
  by (induction r) (auto simp: Suc_diff_le)

lemma evict_facts:
  "length (evict ef r) \<le> ef" "set (evict ef r) \<subseteq> set r" "length r \<le> ef \<Longrightarrow> evict ef r = r"
  "distinct (map g r) \<Longrightarrow> distinct (map g (evict ef r))"
  by (auto simp: evict_drop set_drop_subset simp flip: drop_map dest: in_set_dropD)

lemma distinct_heap_push:
  "distinct (map g (heap_push cmp x h)) \<longleftrightarrow> g x \<notin> g ` set h \<and> distinct (map g h)"
proof -
  have "mset (map g (heap_push cmp x h)) = mset (map g (x # h))" by simp
  then have "distinct (map g (heap_push cmp x h)) = distinct (map g (x # h))"
    by (rule mset_eq_imp_distinct_iff)
  then show ?thesis by simp
qed

definition beam_inv ::
  "HnswGraph \<Rightarrow> f32 list \<Rightarrow> Metric \<Rightarrow> nat \<Rightarrow> (VectorId \<Rightarrow> bool) \<Rightarrow>
   bool list \<times> Candidate list \<times> Candidate list \<Rightarrow> bool" where
  "beam_inv graph query metric ef adm st \<longleftrightarrow>
     (case st of (v, f, r) \<Rightarrow>
        length v = node_count graph \<and> length r \<le> ef \<and> distinct (map cd_node r) \<and>
        (\<forall>c \<in> set f \<union> set r. c = cand_of graph query metric (cd_node c) \<and>
           cd_node c < node_count graph \<and> v ! cd_node c) \<and>
        (\<forall>c \<in> set r. \<not> is_tombstone graph (cd_node c) \<and> adm (cd_id c)))"

lemma beam_step_inv:
  assumes "beam_inv graph query metric ef adm st"
  shows "beam_inv graph query metric ef adm (beam_step graph query metric ef adm st n)"
proof -
  obtain v f r where st: "st = (v, f, r)" by (cases st)
  obtain v' f' r' where s: "beam_step graph query metric ef adm (v, f, r) n = (v', f', r')"
    by (cases "beam_step graph query metric ef adm (v, f, r) n")
  from s show ?thesis
  proof (cases rule: beam_step_cases)
    case skip
    with assms s show ?thesis by (simp add: st)
  next
    case visit
    let ?c = "cand_of graph query metric n"
    have new: "cd_node c \<noteq> n" if "c \<in> set f \<union> set r" for c
      using assms that visit(2) unfolding st beam_inv_def by auto
    then have d: "distinct (map cd_node (heap_push Reverse_cmp ?c r))"
      using assms unfolding st beam_inv_def distinct_heap_push by auto
    have r': "r' = r \<or> (r' = evict ef (heap_push Reverse_cmp ?c r) \<and> \<not> is_tombstone graph n \<and> adm (cd_id ?c))"
      using visit(5) by (auto split: if_splits)
    then have sub: "set r' \<subseteq> insert ?c (set r)"
      using evict_facts(2) [of ef "heap_push Reverse_cmp ?c r"] by auto
    have "distinct (map cd_node r')" "length r' \<le> ef"
      using r' d assms evict_facts(1,4) unfolding st beam_inv_def by auto
    moreover have "\<forall>c \<in> set r'. \<not> is_tombstone graph (cd_node c) \<and> adm (cd_id c)"
      using r' sub assms unfolding st beam_inv_def by auto
    moreover have "\<forall>c \<in> set f' \<union> set r'. c = cand_of graph query metric (cd_node c) \<and>
           cd_node c < node_count graph \<and> v' ! cd_node c"
      using sub assms visit(1-4) unfolding st beam_inv_def by (auto simp: nth_list_update)
    ultimately show ?thesis
      using assms visit(3) unfolding st s by (simp add: beam_inv_def)
  qed
qed

lemma beam_steps_inv:
  "beam_inv graph query metric ef adm st \<Longrightarrow>
   beam_inv graph query metric ef adm (foldl (beam_step graph query metric ef adm) st ns)"
  by (induction ns arbitrary: st) (simp_all add: beam_step_inv)

lemma beam_inv_pop:
  "beam_inv graph query metric ef adm (v, c # f, r) \<Longrightarrow> beam_inv graph query metric ef adm (v, f, r)"
  by (simp add: beam_inv_def)

definition beam_result ::
  "HnswGraph \<Rightarrow> f32 list \<Rightarrow> Metric \<Rightarrow> nat \<Rightarrow> (VectorId \<Rightarrow> bool) \<Rightarrow> Candidate list \<Rightarrow> bool" where
  "beam_result graph query metric ef adm r \<longleftrightarrow>
     length r \<le> ef \<and> distinct (map cd_node r) \<and>
     (\<forall>c \<in> set r. c = cand_of graph query metric (cd_node c) \<and> cd_node c < node_count graph \<and>
        \<not> is_tombstone graph (cd_node c) \<and> adm (cd_id c))"

lemma beam_loop_result:
  "beam_inv graph query metric ef adm st \<Longrightarrow>
   beam_result graph query metric ef adm (beam_loop graph query metric ef layer adm st)"
proof (induction graph query metric ef layer adm st rule: beam_loop.induct)
  case (1 graph query metric ef layer adm v r)
  then show ?case by (auto simp: beam_loop.simps beam_inv_def beam_result_def)
next
  case (2 graph query metric ef layer adm v c f r)
  show ?case
  proof (cases "ef \<le> length r \<and> f32_lt (score_value (cd_score c)) (worst_in_result r)")
    case True
    with 2(2) show ?thesis by (auto simp: beam_loop.simps beam_inv_def beam_result_def)
  next
    case False
    with 2(1) beam_steps_inv [OF beam_inv_pop [OF 2(2)]] show ?thesis
      by (simp only: beam_loop.simps if_False) simp
  qed
qed

definition cand_key :: "Candidate \<Rightarrow> int \<times> VectorId" where
  "cand_key c = (- total_key (score_value (cd_score c)), cd_id c)"

interpretation cand_order: keyed_order cand_desc cand_key
  by unfold_locales (simp add: cand_desc_def cand_key_def score_desc_key)

definition beam_init ::
  "HnswGraph \<Rightarrow> f32 list \<Rightarrow> Metric \<Rightarrow> NodeIdx \<Rightarrow> (VectorId \<Rightarrow> bool) \<Rightarrow>
   bool list \<times> Candidate list \<times> Candidate list" where
  "beam_init graph query metric entry adm =
     ((replicate (node_count graph) False)[entry := True], [cand_of graph query metric entry],
      if \<not> is_tombstone graph entry \<and> adm (id_or_nil graph entry)
      then [cand_of graph query metric entry] else [])"

lemma beam_search_eq:
  "beam_search graph query metric entry ef layer adm =
     sort_by cand_desc (beam_loop graph query metric ef layer adm (beam_init graph query metric entry adm))"
  by (simp add: beam_search_def beam_init_def Let_def heap_push_def cand_of_def)

lemma beam_init_inv:
  "entry < node_count graph \<Longrightarrow> 1 \<le> ef \<Longrightarrow>
   beam_inv graph query metric ef adm (beam_init graph query metric entry adm)"
  by (auto simp: beam_init_def beam_inv_def)

lemma beam_search_sound:
  assumes "entry < node_count graph" "1 \<le> ef"
  shows "beam_result graph query metric ef adm (beam_search graph query metric entry ef layer adm)"
    "sorted (map cand_key (beam_search graph query metric entry ef layer adm))"
  using beam_loop_result [OF beam_init_inv [OF assms, of query metric adm], of layer]
  unfolding beam_search_eq beam_result_def
  by (simp_all add: cand_order.length_sort_by cand_order.set_sort_by cand_order.distinct_sort_by
      cand_order.sorted_sort_by)

section \<open>A beam as wide as the graph is exhaustive\<close>

definition layer_edges :: "HnswGraph \<Rightarrow> nat \<Rightarrow> (NodeIdx \<times> NodeIdx) set" where
  "layer_edges graph layer = {(x, y). y \<in> set (neighbors graph x layer) \<and> y < node_count graph}"

definition reachable :: "HnswGraph \<Rightarrow> nat \<Rightarrow> NodeIdx \<Rightarrow> NodeIdx set" where
  "reachable graph layer entry = {y. (entry, y) \<in> (layer_edges graph layer)\<^sup>*}"

text \<open>Visited nodes are exactly accounted for: admitted ones are in the result, all are reachable.\<close>

definition full_inv ::
  "HnswGraph \<Rightarrow> f32 list \<Rightarrow> Metric \<Rightarrow> nat \<Rightarrow> (VectorId \<Rightarrow> bool) \<Rightarrow> NodeIdx set \<Rightarrow> NodeIdx set \<Rightarrow>
   bool list \<times> Candidate list \<times> Candidate list \<Rightarrow> bool" where
  "full_inv graph query metric ef adm R P st \<longleftrightarrow>
     beam_inv graph query metric ef adm st \<and>
     (case st of (v, f, r) \<Rightarrow>
        (\<forall>n < node_count graph. v ! n \<longrightarrow> n \<in> R \<and>
           (\<not> is_tombstone graph n \<and> adm (id_or_nil graph n) \<longrightarrow> n \<in> cd_node ` set r) \<and>
           (n \<in> cd_node ` set f \<or> n \<in> P)))"

lemma beam_inv_room:
  assumes "beam_inv graph query metric ef adm (v, f, r)" "n < node_count graph" "\<not> v ! n"
    "node_count graph \<le> ef"
  shows "length r < ef"
proof -
  have "cd_node ` set r \<subseteq> {..<node_count graph} - {n}"
    using assms by (auto simp: beam_inv_def)
  then have "card (cd_node ` set r) \<le> card ({..<node_count graph} - {n})"
    by (intro card_mono) simp_all
  moreover have "card (cd_node ` set r) = length r"
    using assms(1) by (simp add: beam_inv_def flip: distinct_card [of "map cd_node r", simplified])
  ultimately show ?thesis using assms(2,4) by simp
qed

lemma beam_step_full:
  assumes "full_inv graph query metric ef adm R P st" "node_count graph \<le> ef"
    "n \<in> R \<or> node_count graph \<le> n"
  shows "full_inv graph query metric ef adm R P (beam_step graph query metric ef adm st n)"
proof -
  obtain v f r where st: "st = (v, f, r)" by (cases st)
  obtain v' f' r' where s: "beam_step graph query metric ef adm (v, f, r) n = (v', f', r')"
    by (cases "beam_step graph query metric ef adm (v, f, r) n")
  have inv: "beam_inv graph query metric ef adm (v, f, r)" using assms(1) by (simp add: full_inv_def st)
  have inv': "beam_inv graph query metric ef adm (v', f', r')"
    using beam_step_inv [OF inv, of n] by (simp add: s)
  from s show ?thesis
  proof (cases rule: beam_step_cases)
    case skip
    with assms s show ?thesis by (simp add: st)
  next
    case visit
    then have n: "n < node_count graph" "n \<in> R" using inv assms(3) by (auto simp: beam_inv_def)
    have room: "length r < ef" using beam_inv_room [OF inv n(1) visit(2) assms(2)] .
    then have r': "r' = (if \<not> is_tombstone graph n \<and> adm (id_or_nil graph n)
        then heap_push Reverse_cmp (cand_of graph query metric n) r else r)"
      using visit(5) by (simp add: evict_facts(3))
    have "x \<in> R \<and> (\<not> is_tombstone graph x \<and> adm (id_or_nil graph x) \<longrightarrow> x \<in> cd_node ` set r') \<and>
        (x \<in> cd_node ` set f' \<or> x \<in> P)" if x: "x < node_count graph" "v' ! x" for x
    proof (cases "x = n")
      case True
      then show ?thesis using n visit(4) r' by auto
    next
      case False
      then have "v ! x" using x(2) visit(3) by simp
      then show ?thesis using assms(1) x(1) visit(4) r' unfolding st full_inv_def by auto
    qed
    with inv' s show ?thesis by (simp add: full_inv_def st)
  qed
qed

lemma beam_step_mono:
  assumes "beam_step graph query metric ef adm (v, f, r) n = (v', f', r')"
  shows "v ! x \<Longrightarrow> v' ! x" "n < length v \<Longrightarrow> v' ! n" "length v' = length v"
  using assms by (cases rule: beam_step_cases; cases "x = n"; cases "n < length v"; auto)+

lemma beam_steps_mono:
  assumes "foldl (beam_step graph query metric ef adm) (v, f, r) ns = (v', f', r')"
  shows "(\<forall>x. v ! x \<longrightarrow> v' ! x) \<and> (\<forall>n \<in> set ns. n < length v \<longrightarrow> v' ! n)"
  using assms
proof (induction ns arbitrary: v f r)
  case (Cons n ns)
  obtain v1 f1 r1 where s: "beam_step graph query metric ef adm (v, f, r) n = (v1, f1, r1)"
    by (cases "beam_step graph query metric ef adm (v, f, r) n")
  then have "foldl (beam_step graph query metric ef adm) (v1, f1, r1) ns = (v', f', r')"
    using Cons.prems by simp
  from Cons.IH [OF this] beam_step_mono [OF s] show ?case by auto
qed simp

lemma beam_steps_full:
  assumes "full_inv graph query metric ef adm R P st" "node_count graph \<le> ef"
    "\<forall>n \<in> set ns. n \<in> R \<or> node_count graph \<le> n"
  shows "full_inv graph query metric ef adm R P (foldl (beam_step graph query metric ef adm) st ns)"
  using assms by (induction ns arbitrary: st) (simp_all add: beam_step_full)

lemma full_inv_pop:
  assumes "full_inv graph query metric ef adm R P (v, c # f, r)"
  shows "full_inv graph query metric ef adm R (insert (cd_node c) P) (v, f, r)" "cd_node c \<in> R"
    "cd_node c < node_count graph"
  using assms by (auto simp: full_inv_def beam_inv_def)

lemma full_inv_result:
  assumes "full_inv graph query metric ef adm R P (v, f, r)"
  shows "cd_node ` set r =
    {n \<in> R. n < node_count graph \<and> v ! n \<and> \<not> is_tombstone graph n \<and> adm (id_or_nil graph n)}"
proof (intro equalityI subsetI)
  fix n assume "n \<in> cd_node ` set r"
  then obtain c where c: "c \<in> set r" "n = cd_node c" by blast
  have "c = cand_of graph query metric n" using assms c by (auto simp: full_inv_def beam_inv_def)
  then have "cd_id c = id_or_nil graph n" by (metis cand_of_simps(2))
  with assms c show "n \<in> {n \<in> R. n < node_count graph \<and> v ! n \<and> \<not> is_tombstone graph n \<and> adm (id_or_nil graph n)}"
    by (auto simp: full_inv_def beam_inv_def)
qed (use assms in \<open>auto simp: full_inv_def\<close>)

text \<open>\<open>P\<close> holds the expanded nodes: their neighbours have been visited.\<close>

definition expanded :: "HnswGraph \<Rightarrow> nat \<Rightarrow> NodeIdx set \<Rightarrow> bool list \<Rightarrow> bool" where
  "expanded graph layer P v \<longleftrightarrow>
     (\<forall>x \<in> P. \<forall>y \<in> set (neighbors graph x layer). y < node_count graph \<longrightarrow> v ! y)"

lemma beam_loop_full:
  assumes "full_inv graph query metric ef adm (reachable graph layer entry) P st"
    "node_count graph \<le> ef" "expanded graph layer P (fst st)" "fst st ! entry" "entry < node_count graph"
  shows "cd_node ` set (beam_loop graph query metric ef layer adm st) =
     {n \<in> reachable graph layer entry. n < node_count graph \<and> \<not> is_tombstone graph n \<and> adm (id_or_nil graph n)}"
  using assms
proof (induction graph query metric ef layer adm st arbitrary: P rule: beam_loop.induct)
  case (1 graph query metric ef layer adm v r)
  have "v ! y" if "(entry, y) \<in> (layer_edges graph layer)\<^sup>*" for y
    using that
  proof (induction rule: rtrancl_induct)
    case base
    then show ?case using 1 by simp
  next
    case (step y z)
    then have "y < node_count graph" using 1(5) by (metis (no_types, lifting) case_prodD layer_edges_def mem_Collect_eq rtranclE)
    then have "y \<in> P" using 1(1) step.IH by (auto simp: full_inv_def)
    with 1(3) step(2) show ?case by (auto simp: expanded_def layer_edges_def)
  qed
  with full_inv_result [OF 1(1)] show ?case by (auto simp: beam_loop.simps reachable_def)
next
  case (2 graph query metric ef layer adm v c f r)
  let ?R = "reachable graph layer entry"
  show ?case
  proof (cases "ef \<le> length r \<and> f32_lt (score_value (cd_score c)) (worst_in_result r)")
    case True
    have inv: "beam_inv graph query metric ef adm (v, c # f, r)" using 2(2) by (simp add: full_inv_def)
    have all: "v ! n" if "n < node_count graph" for n
      using beam_inv_room [OF inv that _ 2(3)] True by fastforce
    with full_inv_result [OF 2(2)] True show ?thesis by (auto simp: beam_loop.simps)
  next
    case False
    let ?st = "foldl (beam_step graph query metric ef adm) (v, f, r) (neighbors graph (cd_node c) layer)"
    note p = full_inv_pop [OF 2(2)]
    have nb: "\<forall>n \<in> set (neighbors graph (cd_node c) layer). n \<in> ?R \<or> node_count graph \<le> n"
      using p(2) by (auto simp: reachable_def layer_edges_def not_le intro: rtrancl_into_rtrancl)
    obtain v' f' r' where st: "?st = (v', f', r')" by (cases ?st)
    have len: "length v = node_count graph" using 2(2) by (simp add: full_inv_def beam_inv_def)
    have "full_inv graph query metric ef adm ?R (insert (cd_node c) P) ?st"
      by (rule beam_steps_full [OF p(1) 2(3) nb])
    moreover have "expanded graph layer (insert (cd_node c) P) (fst ?st)"
      using beam_steps_mono [OF st] 2(4) len by (auto simp: expanded_def st)
    moreover have "fst ?st ! entry" using beam_steps_mono [OF st] 2(5) by (simp add: st)
    ultimately have "cd_node ` set (beam_loop graph query metric ef layer adm ?st) =
      {n \<in> ?R. n < node_count graph \<and> \<not> is_tombstone graph n \<and> adm (id_or_nil graph n)}"
      by (rule 2(1) [OF False _ 2(3) _ _ 2(6)])
    with False show ?thesis by (simp only: beam_loop.simps if_False)
  qed
qed

lemma beam_search_exhaustive:
  assumes "entry < node_count graph" "node_count graph \<le> ef"
  shows "cd_node ` set (beam_search graph query metric entry ef layer adm) =
     {n \<in> reachable graph layer entry. n < node_count graph \<and> \<not> is_tombstone graph n \<and> adm (id_or_nil graph n)}"
proof -
  have "full_inv graph query metric ef adm (reachable graph layer entry) {} (beam_init graph query metric entry adm)"
    using beam_init_inv [of entry graph ef query metric adm] assms
    by (auto simp: full_inv_def beam_init_def reachable_def nth_list_update split: if_splits)
  moreover have "expanded graph layer {} (fst (beam_init graph query metric entry adm))"
    by (simp add: expanded_def)
  moreover have "fst (beam_init graph query metric entry adm) ! entry"
    using assms(1) by (simp add: beam_init_def)
  ultimately show ?thesis
    unfolding beam_search_eq cand_order.set_sort_by using assms by (intro beam_loop_full)
qed

section \<open>What neighbour selection keeps\<close>

lemma select_loop_facts:
  "set (select_loop metric mx graph sel cs) \<subseteq> set sel \<union> cd_node ` set cs"
  "length sel \<le> mx \<Longrightarrow> length (select_loop metric mx graph sel cs) \<le> mx"
  by (induction metric mx graph sel cs rule: select_loop.induct) (auto simp: Let_def)

lemma select_facts:
  "set (select_neighbors_heuristic cs b metric mx graph) \<subseteq> cd_node ` set cs"
  "length (select_neighbors_heuristic cs b metric mx graph) \<le> mx"
  using select_loop_facts [where sel = "[]"] by (simp_all add: select_neighbors_heuristic_def)

lemma select_loop_prefix: "\<exists>ys. select_loop metric mx graph sel cs = sel @ ys"
proof (induction metric mx graph sel cs rule: select_loop.induct)
  case (2 metric mx graph sel c cs)
  then show ?case by (auto simp: Let_def) (metis append.assoc append_Cons)
qed simp

text \<open>The closest candidate is always kept.\<close>

lemma select_first:
  "0 < mx \<Longrightarrow> cs \<noteq> [] \<Longrightarrow>
   \<exists>ys. select_neighbors_heuristic cs b metric mx graph = cd_node (hd cs) # ys"
  using select_loop_prefix [of metric mx graph "[cd_node (hd cs)]" "tl cs"]
  by (cases cs) (auto simp: select_neighbors_heuristic_def Let_def)

end
