(* ===== verification/Hnsw_Index.thy ===== *)
theory Hnsw_Index
  imports Hnsw_Config Hnsw_Search
begin

text \<open>
  \<open>HnswIndex\<close> of \<open>eidosdb-hnsw/src/index.rs\<close>: construction, tracked insertion and removal,
  search, compaction, snapshot and reload. The invariant \<open>hnsw_ok\<close> (levels, degrees, live map,
  entry point) holds of a new index and is preserved by every operation, so the index meets the
  contract of the port; a search whose width covers the graph is exact on what is reachable.
\<close>

section \<open>State and construction\<close>

record HnswIndex =
  hi_config :: HnswConfig
  hi_dimension :: Dimension
  hi_graph :: HnswGraph
  hi_rng :: SplitMix64
  hi_supported :: "Metric list"

definition HnswIndex_new :: "HnswConfig \<Rightarrow> Dimension \<Rightarrow> HnswIndex" where
  "HnswIndex_new config d =
     \<lparr>hi_config = config, hi_dimension = d, hi_graph = HnswGraph_new,
      hi_rng = SplitMix64_new (cfg_seed config), hi_supported = [cfg_metric config]\<rparr>"

definition HnswIndex_with_capacity :: "HnswConfig \<Rightarrow> Dimension \<Rightarrow> nat \<Rightarrow> HnswIndex" where
  "HnswIndex_with_capacity config d capacity =
     \<lparr>hi_config = config, hi_dimension = d, hi_graph = HnswGraph_with_capacity capacity,
      hi_rng = SplitMix64_new (cfg_seed config), hi_supported = [cfg_metric config]\<rparr>"

section \<open>Insertion\<close>

record InsertDelta =
  new_node_idx :: nat
  ins_touched_nodes :: "nat list"
  ins_entry_changed :: bool

record RemoveDelta =
  rem_touched_nodes :: "nat list"
  rem_entry_changed :: bool

text \<open>\<open>BTreeSet::insert\<close> on the ascending list of the set.\<close>

definition btree_insert :: "nat \<Rightarrow> nat list \<Rightarrow> nat list" where
  "btree_insert x xs = (if x \<in> set xs then xs else insort x xs)"

text \<open>
  One iteration of the loop over the selected neighbours: \<open>back_links\<close> is the list
  \<open>sel_neighbors\<close> with the new node pushed, pruned when it is over the limit.
\<close>

definition back_links :: "Metric \<Rightarrow> nat \<Rightarrow> NodeIdx \<Rightarrow> nat \<Rightarrow> HnswGraph \<Rightarrow> NodeIdx \<Rightarrow> NodeIdx list" where
  "back_links metric m_limit new_node layer graph sel =
     (let sel_neighbors = neighbors graph sel layer @ [new_node]
      in if m_limit < length sel_neighbors
         then
           let sel_emb = emb_or_empty graph sel;
               pruning_candidates = sort_by cand_desc
                 (map (\<lambda>n. Candidate_new (Metric_score metric sel_emb (emb_or_empty graph n)) n
                             (id_or_nil graph n)) sel_neighbors)
           in select_neighbors_heuristic pruning_candidates sel_emb metric m_limit graph
         else sel_neighbors)"

definition link_one ::
  "Metric \<Rightarrow> nat \<Rightarrow> NodeIdx \<Rightarrow> nat \<Rightarrow> HnswGraph \<times> nat list \<Rightarrow> NodeIdx \<Rightarrow> HnswGraph \<times> nat list" where
  "link_one metric m_limit new_node layer st sel =
     (case st of (graph, touched) \<Rightarrow>
        (set_neighbors sel layer (back_links metric m_limit new_node layer graph sel) graph,
         btree_insert sel touched))"

definition degree_limit :: "HnswConfig \<Rightarrow> nat \<Rightarrow> nat" where
  "degree_limit config layer = (if layer = 0 then m_max0 config else m_max config)"

text \<open>One iteration of the loop over the layers.\<close>

definition link_layer ::
  "HnswConfig \<Rightarrow> f32 list \<Rightarrow> NodeIdx \<Rightarrow> HnswGraph \<times> nat list \<times> NodeIdx \<Rightarrow> nat \<Rightarrow>
   HnswGraph \<times> nat list \<times> NodeIdx" where
  "link_layer config q new_node st layer =
     (case st of (graph, touched, current_entry) \<Rightarrow>
        let metric = cfg_metric config;
            m_limit = degree_limit config layer;
            cands = beam_search graph q metric current_entry (cfg_ef_construction config) layer (\<lambda>_. True);
            selected = select_neighbors_heuristic cands q metric m_limit graph;
            graph = set_neighbors new_node layer selected graph
        in case foldl (link_one metric m_limit new_node layer) (graph, touched) selected of
             (graph, touched) \<Rightarrow>
               (graph, touched, (case cands of best # _ \<Rightarrow> cd_node best | [] \<Rightarrow> current_entry)))"

definition insert_tracked ::
  "(f64 \<Rightarrow> f64) \<Rightarrow> VectorId \<Rightarrow> Embedding \<Rightarrow> HnswIndex \<Rightarrow> (IndexError + InsertDelta) \<times> HnswIndex" where
  "insert_tracked ln_f i embedding self =
     (if Embedding_dimension embedding \<noteq> hi_dimension self
      then (Inl (DimensionMismatch (Dimension_get (hi_dimension self))
                   (Dimension_get (Embedding_dimension embedding))), self)
      else if id_to_node (hi_graph self) i \<noteq> None then (Inl (DuplicateId i), self)
      else
        let entry_before = gr_entry_point (hi_graph self);
            config = hi_config self
        in case next_level ln_f (m_l ln_f config) (hi_rng self) of (level, rng) \<Rightarrow>
           (case add_node i embedding level (hi_graph self) of
              (Inl err, graph) \<Rightarrow> (Inl err, self\<lparr>hi_graph := graph, hi_rng := rng\<rparr>)
            | (Inr new_node, graph) \<Rightarrow>
                (case gr_entry_point graph of
                   None \<Rightarrow>
                     (Inr \<lparr>new_node_idx = new_node, ins_touched_nodes = [new_node], ins_entry_changed = True\<rparr>,
                      self\<lparr>hi_graph := set_entry_point (Some new_node) graph, hi_rng := rng\<rparr>)
                 | Some entry \<Rightarrow>
                     let entry_level = node_level graph entry;
                         q = as_slice embedding;
                         current_entry =
                           (if level < entry_level
                            then greedy_descent graph q (cfg_metric config) entry entry_level (level + 1)
                            else entry)
                     in case foldl (link_layer config q new_node)
                               (graph, btree_insert new_node [], current_entry)
                               (rev [0 ..< Suc (min level entry_level)]) of
                          (graph, touched, _) \<Rightarrow>
                            let graph' = (if entry_level < level then set_entry_point (Some new_node) graph
                                          else graph);
                                entry_changed = (if entry_level < level then True
                                                 else gr_entry_point graph \<noteq> entry_before)
                            in (Inr \<lparr>new_node_idx = new_node, ins_touched_nodes = touched,
                                     ins_entry_changed = entry_changed\<rparr>,
                                self\<lparr>hi_graph := graph', hi_rng := rng\<rparr>))))"

section \<open>Removal\<close>

text \<open>\<open>Iterator::max_by_key\<close> returns the last of several maximal elements.\<close>

definition max_by_key :: "('a \<Rightarrow> nat) \<Rightarrow> 'a list \<Rightarrow> 'a option" where
  "max_by_key f xs =
     foldl (\<lambda>acc x. case acc of None \<Rightarrow> Some x | Some y \<Rightarrow> if f y \<le> f x then Some x else Some y) None xs"

definition remove_tracked :: "VectorId \<Rightarrow> HnswIndex \<Rightarrow> (IndexError + RemoveDelta option) \<times> HnswIndex" where
  "remove_tracked i self =
     (case id_to_node (hi_graph self) i of
        None \<Rightarrow> (Inr None, self)
      | Some node \<Rightarrow>
          let was_entry = (gr_entry_point (hi_graph self) = Some node)
          in case tombstone node (hi_graph self) of (became_tombstone, graph) \<Rightarrow>
             (if \<not> became_tombstone then (Inr None, self\<lparr>hi_graph := graph\<rparr>)
              else
                let new_entry = map_option fst (max_by_key (\<lambda>(_, _, _, level). level) (live_nodes graph));
                    graph' = (if was_entry then set_entry_point new_entry graph else graph)
                in (Inr (Some \<lparr>rem_touched_nodes = [node], rem_entry_changed = was_entry\<rparr>),
                    self\<lparr>hi_graph := graph'\<rparr>)))"

section \<open>The port\<close>

definition HnswIndex_insert ::
  "(f64 \<Rightarrow> f64) \<Rightarrow> VectorId \<Rightarrow> Embedding \<Rightarrow> HnswIndex \<Rightarrow> (IndexError + unit) \<times> HnswIndex" where
  "HnswIndex_insert ln_f i e self =
     (case insert_tracked ln_f i e self of (r, self') \<Rightarrow> (map_res (\<lambda>_. ()) r, self'))"

definition HnswIndex_remove :: "VectorId \<Rightarrow> HnswIndex \<Rightarrow> (IndexError + bool) \<times> HnswIndex" where
  "HnswIndex_remove i self =
     (case remove_tracked i self of (r, self') \<Rightarrow> (map_res (\<lambda>opt. opt \<noteq> None) r, self'))"

definition HnswIndex_search_filtered ::
  "Embedding \<Rightarrow> nat \<Rightarrow> Metric \<Rightarrow> (VectorId \<Rightarrow> bool) \<Rightarrow> HnswIndex \<Rightarrow> IndexError + Neighbor list" where
  "HnswIndex_search_filtered query k metric is_admissible self =
     (if Embedding_dimension query \<noteq> hi_dimension self
      then Inl (DimensionMismatch (Dimension_get (hi_dimension self))
                  (Dimension_get (Embedding_dimension query)))
      else if metric \<noteq> cfg_metric (hi_config self) then Inl (UnsupportedMetric metric)
      else case gr_entry_point (hi_graph self) of
        None \<Rightarrow> Inr []
      | Some entry \<Rightarrow>
          let graph = hi_graph self;
              entry_level = node_level graph entry;
              q = as_slice query;
              ef = max (cfg_ef_search (hi_config self)) k;
              current_entry = (if 0 < entry_level then greedy_descent graph q metric entry entry_level 1
                               else entry);
              cands = beam_search graph q metric current_entry ef 0 is_admissible;
              results = map (\<lambda>c. \<lparr>neighbor_id = cd_id c, neighbor_score = cd_score c\<rparr>) (take k cands)
          in Inr (take k (sort_by neighbor_cmp results)))"

definition HnswIndex_index :: "(f64 \<Rightarrow> f64) \<Rightarrow> HnswIndex VectorIndex" where
  "HnswIndex_index ln_f =
     \<lparr>vi_metric = (\<lambda>self. cfg_metric (hi_config self)),
      vi_supported_metrics = hi_supported,
      vi_dimension = hi_dimension,
      vi_len = (\<lambda>self. gr_live_count (hi_graph self)),
      vi_insert = HnswIndex_insert ln_f,
      vi_remove = HnswIndex_remove,
      vi_search_filtered = HnswIndex_search_filtered\<rparr>"

section \<open>Bulk insertion, compaction, snapshots\<close>

fun bulk_insert ::
  "(f64 \<Rightarrow> f64) \<Rightarrow> (VectorId \<times> Embedding) list \<Rightarrow> HnswIndex \<Rightarrow> (IndexError + unit) \<times> HnswIndex" where
  "bulk_insert ln_f [] self = (Inr (), self)"
| "bulk_insert ln_f ((i, e) # points) self =
     (case HnswIndex_insert ln_f i e self of
        (Inl err, self') \<Rightarrow> (Inl err, self')
      | (Inr _, self') \<Rightarrow> bulk_insert ln_f points self')"

definition compact :: "(f64 \<Rightarrow> f64) \<Rightarrow> HnswIndex \<Rightarrow> (IndexError + unit) \<times> HnswIndex" where
  "compact ln_f self =
     (case traverse (\<lambda>(_, i, slice, _). map_res (\<lambda>e. (i, e)) (Embedding_new slice))
             (live_nodes (hi_graph self)) of
        Inl err \<Rightarrow> (Inl err, self)
      | Inr live \<Rightarrow>
          bulk_insert ln_f live
            (self\<lparr>hi_rng := SplitMix64_new (cfg_seed (hi_config self)),
                  hi_graph := HnswGraph_with_capacity (length live)\<rparr>))"

definition u32_of_level :: "nat \<Rightarrow> nat \<Rightarrow> nat" where
  "u32_of_level fallback level = (if level \<le> u32_max then level else fallback)"

definition node_snapshot :: "HnswIndex \<Rightarrow> nat \<Rightarrow> SnapshotNode option" where
  "node_snapshot self idx =
     (if node_count (hi_graph self) \<le> idx then None
      else
        let level = node_level (hi_graph self) idx
        in Some \<lparr>sn_id_bytes = (case node_id (hi_graph self) idx of None \<Rightarrow> 0 | Some i \<Rightarrow> VectorId_as_uuid i),
                 sn_level = u32_of_level u32_max level,
                 sn_tombstone = is_tombstone (hi_graph self) idx,
                 sn_neighbors_per_layer = map (\<lambda>layer. neighbors (hi_graph self) idx layer) [0 ..< Suc level]\<rparr>)"

definition state_meta :: "HnswIndex \<Rightarrow> nat option \<times> nat \<times> u64 \<times> nat" where
  "state_meta self =
     (gr_entry_point (hi_graph self),
      (case gr_entry_point (hi_graph self) of None \<Rightarrow> 0
       | Some ep \<Rightarrow> u32_of_level 0 (node_level (hi_graph self) ep)),
      rng_state (hi_rng self),
      node_count (hi_graph self))"

definition snapshot :: "HnswIndex \<Rightarrow> GraphSnapshot" where
  "snapshot self =
     (let snap_nodes = List.map_filter (node_snapshot self) [0 ..< node_count (hi_graph self)]
      in case state_meta self of (entry_point, entry_level, rng_st, _) \<Rightarrow>
        \<lparr>gs_nodes = snap_nodes, gs_entry_point = entry_point, gs_entry_level = entry_level,
         gs_rng_state = rng_st,
         gs_live_count = length (filter (\<lambda>n. \<not> sn_tombstone n) snap_nodes)\<rparr>)"

definition usize_try_from :: "string \<Rightarrow> nat \<Rightarrow> IndexError + nat" where
  "usize_try_from msg n = (if n \<le> usize_max then Inr n else Inl (Backend msg))"

text \<open>The loop over \<open>neighbors_per_layer\<close>, then the loop over the nodes.\<close>

fun restore_layers :: "nat \<Rightarrow> nat \<Rightarrow> nat list list \<Rightarrow> HnswGraph \<Rightarrow> IndexError + HnswGraph" where
  "restore_layers idx layer [] graph = Inr graph"
| "restore_layers idx layer (ns # rest) graph =
     res_bind (traverse (usize_try_from ''neighbor index overflow'') ns)
       (\<lambda>neighbor_idxs. restore_layers idx (layer + 1) rest (set_neighbors idx layer neighbor_idxs graph))"

definition restore_node ::
  "(nat \<Rightarrow> f32 list option) \<Rightarrow> nat \<Rightarrow> SnapshotNode \<Rightarrow> HnswGraph \<Rightarrow> IndexError + HnswGraph" where
  "restore_node embeddings idx node graph =
     res_bind (ok_or (Backend (''missing embedding for node '' @ string_of_nat idx)) (embeddings idx))
       (\<lambda>values. res_bind (Embedding_new values)
         (\<lambda>embedding. res_bind (usize_try_from ''node level overflow'' (sn_level node))
           (\<lambda>level. case add_node (VectorId_from_uuid (sn_id_bytes node)) embedding level graph of
              (Inl err, _) \<Rightarrow> Inl err
            | (Inr _, graph) \<Rightarrow>
                restore_layers idx 0 (sn_neighbors_per_layer node)
                  (if sn_tombstone node then snd (tombstone idx graph) else graph))))"

fun restore_nodes ::
  "(nat \<Rightarrow> f32 list option) \<Rightarrow> nat \<Rightarrow> SnapshotNode list \<Rightarrow> HnswGraph \<Rightarrow> IndexError + HnswGraph" where
  "restore_nodes embeddings idx [] graph = Inr graph"
| "restore_nodes embeddings idx (node # nodes) graph =
     res_bind (restore_node embeddings idx node graph)
       (\<lambda>graph. restore_nodes embeddings (idx + 1) nodes graph)"

definition from_snapshot ::
  "HnswConfig \<Rightarrow> Dimension \<Rightarrow> GraphSnapshot \<Rightarrow> (nat \<Rightarrow> f32 list option) \<Rightarrow> IndexError + HnswIndex" where
  "from_snapshot config d snap embeddings_by_node_idx =
     res_bind (restore_nodes embeddings_by_node_idx 0 (gs_nodes snap)
                 (HnswGraph_with_capacity (length (gs_nodes snap))))
       (\<lambda>graph. res_bind (transpose_opt (usize_try_from ''entry_point overflow'') (gs_entry_point snap))
         (\<lambda>entry_point.
            Inr \<lparr>hi_config = config, hi_dimension = d, hi_graph = set_entry_point entry_point graph,
                 hi_rng = SplitMix64_from_state (gs_rng_state snap),
                 hi_supported = [cfg_metric config]\<rparr>))"

section \<open>Invariant\<close>

text \<open>The live node of an id is the last node with that id, so a reload meets no duplicate.\<close>

definition latest_ok :: "HnswGraph \<Rightarrow> bool" where
  "latest_ok g \<longleftrightarrow>
     (\<forall>x \<in> live_set g. \<forall>y. x < y \<and> y < node_count g \<longrightarrow> nd_id (gr_nodes g ! y) \<noteq> nd_id (gr_nodes g ! x))"

definition hnsw_ok :: "HnswIndex \<Rightarrow> bool" where
  "hnsw_ok self \<longleftrightarrow>
     config_ok (hi_config self) \<and> hi_supported self = [cfg_metric (hi_config self)] \<and>
     graph_ok (hi_dimension self) (degree_limit (hi_config self)) MAX_LEVEL (hi_graph self) \<and>
     entry_ok (hi_graph self) \<and> latest_ok (hi_graph self)"

definition hnsw_contents :: "HnswIndex \<Rightarrow> VectorId \<rightharpoonup> Embedding" where
  "hnsw_contents self = graph_contents (hi_graph self)"

lemma hnsw_new_ok:
  "config_ok c \<Longrightarrow> hnsw_ok (HnswIndex_new c d)" "hnsw_contents (HnswIndex_new c d) = Map.empty"
  by (auto simp: hnsw_ok_def HnswIndex_new_def HnswGraph_new_def graph_ok_def live_ok_def entry_ok_def
      latest_ok_def live_set_def node_count_def hnsw_contents_def graph_contents_def)

text \<open>Two graphs with the same nodes up to adjacency.\<close>

definition erase :: "HnswGraph \<Rightarrow> HnswGraph" where
  "erase g = g\<lparr>gr_nodes := map (\<lambda>n. n\<lparr>nd_neighbors := []\<rparr>) (gr_nodes g)\<rparr>"

lemma erase_facts:
  "node_count (erase g) = node_count g" "gr_live (erase g) = gr_live g"
  "gr_live_count (erase g) = gr_live_count g" "gr_entry_point (erase g) = gr_entry_point g"
  by (simp_all add: erase_def node_count_def)

lemma erase_nth:
  "i < node_count g \<Longrightarrow> gr_nodes (erase g) ! i = (gr_nodes g ! i)\<lparr>nd_neighbors := []\<rparr>"
  by (simp add: erase_def node_count_def)

lemma erase_same:
  assumes "erase g = erase h"
  shows "node_count g = node_count h" "gr_live g = gr_live h" "gr_live_count g = gr_live_count h"
    "gr_entry_point g = gr_entry_point h"
  using arg_cong [OF assms, of node_count] arg_cong [OF assms, of gr_live]
    arg_cong [OF assms, of gr_live_count] arg_cong [OF assms, of gr_entry_point]
  by (simp_all add: erase_facts)

lemma erase_node:
  assumes "erase g = erase h" "i < node_count h"
  shows "nd_id (gr_nodes g ! i) = nd_id (gr_nodes h ! i)"
    "nd_embedding (gr_nodes g ! i) = nd_embedding (gr_nodes h ! i)"
    "nd_level (gr_nodes g ! i) = nd_level (gr_nodes h ! i)"
    "nd_tombstone (gr_nodes g ! i) = nd_tombstone (gr_nodes h ! i)"
proof -
  have "(gr_nodes g ! i)\<lparr>nd_neighbors := []\<rparr> = (gr_nodes h ! i)\<lparr>nd_neighbors := []\<rparr>"
    using assms erase_same(1) [OF assms(1)] erase_nth [of i g] erase_nth [of i h] by simp
  from arg_cong [OF this, of nd_id] arg_cong [OF this, of nd_embedding]
    arg_cong [OF this, of nd_level] arg_cong [OF this, of nd_tombstone]
  show "nd_id (gr_nodes g ! i) = nd_id (gr_nodes h ! i)"
    "nd_embedding (gr_nodes g ! i) = nd_embedding (gr_nodes h ! i)"
    "nd_level (gr_nodes g ! i) = nd_level (gr_nodes h ! i)"
    "nd_tombstone (gr_nodes g ! i) = nd_tombstone (gr_nodes h ! i)" by simp_all
qed

lemma erase_live_set:
  assumes "erase g = erase h"
  shows "live_set g = live_set h"
  using erase_same(1) [OF assms] erase_node(4) [OF assms] by (auto simp: live_set_def)

lemma erase_node_level:
  assumes "erase g = erase h"
  shows "node_level g = node_level h"
proof
  fix x show "node_level g x = node_level h x"
    using erase_same(1) [OF assms] erase_node(3) [OF assms, of x]
    by (cases "x < node_count h") (simp_all add: node_level_def graph_simps)
qed

lemma erase_entry_ok:
  assumes "erase g = erase h"
  shows "entry_ok g = entry_ok h"
  by (simp only: entry_ok_def erase_same(4) [OF assms] erase_live_set [OF assms] erase_node_level [OF assms])

lemma erase_latest_ok:
  assumes "erase g = erase h"
  shows "latest_ok g = latest_ok h"
  using erase_same(1) [OF assms] erase_live_set [OF assms] erase_node(1) [OF assms]
  by (auto simp: latest_ok_def live_set_lt)

lemma erase_contents:
  assumes "erase g = erase h" "live_ok h"
  shows "graph_contents g = graph_contents h"
proof
  fix i
  have "gr_live h i = Some x \<Longrightarrow> x < node_count h" for x
    using assms(2) by (simp add: live_ok_def live_set_lt)
  then show "graph_contents g i = graph_contents h i"
    using erase_same(2) [OF assms(1)] erase_node(2) [OF assms(1)] by (cases "gr_live h i") (auto simp: graph_contents_def)
qed

lemma erase_set_neighbors [simp]: "erase (set_neighbors x l ns g) = erase g"
  by (auto simp: erase_def set_neighbors_def graph_simps list_eq_iff_nth_eq nth_list_update node_count_def
      split: option.splits)

section \<open>Linking a node preserves the graph invariant\<close>

text \<open>\<open>link_inv\<close>: the graph is still well formed and differs from \<open>g0\<close> in adjacency only.\<close>

definition link_inv :: "Dimension \<Rightarrow> HnswConfig \<Rightarrow> HnswGraph \<Rightarrow> HnswGraph \<Rightarrow> bool" where
  "link_inv d c g0 g \<longleftrightarrow> graph_ok d (degree_limit c) MAX_LEVEL g \<and> erase g = erase g0"

lemma link_inv_set_neighbors:
  assumes "link_inv d c g0 g" "length ns \<le> degree_limit c l" "\<forall>y \<in> set ns. y < node_count g0"
  shows "link_inv d c g0 (set_neighbors x l ns g)"
proof -
  have e: "erase g = erase g0" using assms(1) by (simp add: link_inv_def)
  have "\<forall>y \<in> set ns. y < node_count g" using assms(3) erase_same(1) [OF e] by simp
  then have "graph_ok d (degree_limit c) MAX_LEVEL (set_neighbors x l ns g)"
    using assms(1,2) by (intro set_neighbors_ok) (simp_all add: link_inv_def)
  with e show ?thesis by (simp add: link_inv_def)
qed

lemma link_inv_neighbors:
  "link_inv d c g0 g \<Longrightarrow> y \<in> set (neighbors g x l) \<Longrightarrow> y < node_count g0"
  unfolding link_inv_def using graph_ok_neighbors erase_same(1) by metis

lemma set_btree_insert [simp]: "set (btree_insert x xs) = insert x (set xs)"
  by (auto simp: btree_insert_def set_insort_key)

lemma back_links_facts:
  "length (back_links metric m_limit new_node layer graph sel) \<le> m_limit"
  "set (back_links metric m_limit new_node layer graph sel) \<subseteq> insert new_node (set (neighbors graph sel layer))"
proof -
  show "length (back_links metric m_limit new_node layer graph sel) \<le> m_limit"
    unfolding back_links_def Let_def by (simp add: select_facts(2) del: length_append)
  have c: "cd_node ` set (sort_by cand_desc (map (\<lambda>n. Candidate_new (f n) n (g n)) ys)) = set ys" for f g ys
    by (simp add: cand_order.set_sort_by image_image Candidate_new_def)
  have s: "set (neighbors graph sel layer @ [new_node]) = insert new_node (set (neighbors graph sel layer))"
    by simp
  have "set (if m < length ys then select_neighbors_heuristic
      (sort_by cand_desc (map (\<lambda>n. Candidate_new (f n) n (g n)) ys)) b metric m graph else ys) \<subseteq> set ys"
    for m ys f g b
    using select_facts(1) [of "sort_by cand_desc (map (\<lambda>n. Candidate_new (f n) n (g n)) ys)"] unfolding c by simp
  then show "set (back_links metric m_limit new_node layer graph sel)
      \<subseteq> insert new_node (set (neighbors graph sel layer))"
    unfolding back_links_def Let_def s [symmetric] .
qed

lemma link_one_facts:
  assumes "link_inv d c g0 g" "new_node < node_count g0"
    "link_one metric (degree_limit c l) new_node l (g, t) sel = (g', t')"
  shows "link_inv d c g0 g'" "set t' = insert sel (set t)"
    "x \<noteq> sel \<Longrightarrow> gr_nodes g' ! x = gr_nodes g ! x"
proof -
  let ?ns = "back_links metric (degree_limit c l) new_node l g sel"
  have e: "g' = set_neighbors sel l ?ns g" "t' = btree_insert sel t"
    using assms(3) by (simp_all add: link_one_def)
  have "\<forall>y \<in> set ?ns. y < node_count g0"
    using back_links_facts(2) assms(2) link_inv_neighbors [OF assms(1)] by blast
  then show "link_inv d c g0 g'"
    unfolding e by (intro link_inv_set_neighbors [OF assms(1)] back_links_facts(1))
  show "set t' = insert sel (set t)" by (simp add: e)
  show "x \<noteq> sel \<Longrightarrow> gr_nodes g' ! x = gr_nodes g ! x" by (simp add: e nodes_set_neighbors_other)
qed

lemma link_all_facts:
  assumes "link_inv d c g0 g" "new_node < node_count g0"
    "foldl (link_one metric (degree_limit c l) new_node l) (g, t) sels = (g', t')"
  shows "link_inv d c g0 g' \<and> set t' = set sels \<union> set t \<and>
    (\<forall>x. x \<notin> set t' \<longrightarrow> gr_nodes g' ! x = gr_nodes g ! x)"
  using assms(1,3)
proof (induction sels arbitrary: g t)
  case (Cons sel sels)
  obtain g1 t1 where s: "link_one metric (degree_limit c l) new_node l (g, t) sel = (g1, t1)"
    by (cases "link_one metric (degree_limit c l) new_node l (g, t) sel")
  note f = link_one_facts [OF Cons.prems(1) assms(2) s]
  have "foldl (link_one metric (degree_limit c l) new_node l) (g1, t1) sels = (g', t')"
    using Cons.prems(2) s by simp
  from Cons.IH [OF f(1) this] f(2,3) show ?case by auto
qed simp

lemma link_layer_facts:
  assumes "link_inv d c g0 g" "config_ok c" "new_node < node_count g0" "cur < node_count g0"
    "link_layer c q new_node (g, t, cur) l = (g', t', cur')" "new_node \<in> set t"
  shows "link_inv d c g0 g' \<and> cur' < node_count g0 \<and> set t \<subseteq> set t' \<and>
    (\<forall>x. x \<notin> set t' \<longrightarrow> gr_nodes g' ! x = gr_nodes g ! x)"
proof -
  have cnt: "node_count g = node_count g0"
    using assms(1) unfolding link_inv_def by (blast dest: erase_same(1))
  define cands where "cands = beam_search g q (cfg_metric c) cur (cfg_ef_construction c) l (\<lambda>_. True)"
  define selected where
    "selected = select_neighbors_heuristic cands q (cfg_metric c) (degree_limit c l) g"
  let ?g1 = "set_neighbors new_node l selected g"
  obtain g2 t2 where f: "foldl (link_one (cfg_metric c) (degree_limit c l) new_node l) (?g1, t) selected = (g2, t2)"
    by (cases "foldl (link_one (cfg_metric c) (degree_limit c l) new_node l) (?g1, t) selected")
  have r: "g' = g2" "t' = t2" "cur' = (case cands of best # _ \<Rightarrow> cd_node best | [] \<Rightarrow> cur)"
    using assms(5) unfolding link_layer_def Let_def prod.case cands_def [symmetric]
      selected_def [symmetric] f prod.inject by blast+
  have "1 \<le> cfg_ef_construction c" using assms(2) by (simp add: config_ok_def)
  with assms(4) cnt have "beam_result g q (cfg_metric c) (cfg_ef_construction c) (\<lambda>_. True) cands"
    unfolding cands_def by (intro beam_search_sound(1)) simp_all
  then have cd: "\<forall>x \<in> set cands. cd_node x < node_count g0" by (simp add: beam_result_def cnt)
  have "link_inv d c g0 ?g1"
    using select_facts [of cands q "cfg_metric c" "degree_limit c l" g] cd
    by (intro link_inv_set_neighbors [OF assms(1)]) (auto simp: selected_def)
  from link_all_facts [OF this assms(3) f]
  have "link_inv d c g0 g2" "set t2 = set selected \<union> set t"
    "\<forall>x. x \<notin> set t2 \<longrightarrow> gr_nodes g2 ! x = gr_nodes ?g1 ! x" by auto
  moreover have "cur' < node_count g0" using r(3) cd assms(4) by (auto split: list.splits)
  moreover have "gr_nodes ?g1 ! x = gr_nodes g ! x" if "x \<notin> set t" for x
    using that assms(6) by (intro nodes_set_neighbors_other) auto
  ultimately show ?thesis using r(1,2) by auto
qed

lemma link_layers_facts:
  assumes "link_inv d c g0 g" "config_ok c" "new_node < node_count g0" "cur < node_count g0"
    "foldl (link_layer c q new_node) (g, t, cur) ls = (g', t', cur')" "new_node \<in> set t"
  shows "link_inv d c g0 g' \<and> set t \<subseteq> set t' \<and>
    (\<forall>x. x \<notin> set t' \<longrightarrow> gr_nodes g' ! x = gr_nodes g ! x)"
  using assms(1,4-6)
proof (induction ls arbitrary: g t cur)
  case (Cons l ls)
  obtain g1 t1 c1 where s: "link_layer c q new_node (g, t, cur) l = (g1, t1, c1)"
    by (cases "link_layer c q new_node (g, t, cur) l")
  note f = link_layer_facts [OF Cons.prems(1) assms(2,3) Cons.prems(2) s Cons.prems(4)]
  have "foldl (link_layer c q new_node) (g1, t1, c1) ls = (g', t', cur')"
    using Cons.prems(3) s by simp
  then have "link_inv d c g0 g' \<and> set t1 \<subseteq> set t' \<and>
      (\<forall>x. x \<notin> set t' \<longrightarrow> gr_nodes g' ! x = gr_nodes g1 ! x)"
    using f Cons.prems(4) by (intro Cons.IH [of g1 c1 t1]) blast+
  with f show ?case by (metis subsetD subset_trans)
qed simp

section \<open>Insertion\<close>

lemma add_node_levels:
  assumes "add_node i e level g = (Inr n, g')"
  shows "x < node_count g \<Longrightarrow> node_level g' x = node_level g x" "node_level g' (node_count g) = level"
    "nd_id (gr_nodes g' ! node_count g) = i"
  using add_node_live_set(2,3) [OF assms] add_node_Inr(3) [OF assms]
  by (simp_all add: node_level_def graph_simps node_count_def)

lemma add_node_latest:
  assumes "latest_ok g" "live_ok g" "add_node i e level g = (Inr n, g')"
  shows "latest_ok g'"
proof -
  note a = add_node_live_set [OF assms(3)] and i = add_node_Inr(2) [OF assms(3)]
  have old: "\<forall>x \<in> live_set g. nd_id (gr_nodes g ! x) \<noteq> i"
    using assms(2) i unfolding live_ok_def by (metis option.distinct(1))
  have "nd_id (gr_nodes g' ! y) \<noteq> nd_id (gr_nodes g' ! x)"
    if "x \<in> insert (node_count g) (live_set g)" "x < y" "y < Suc (node_count g)" for x y
  proof -
    have x: "x \<in> live_set g" "x < node_count g" using that by (auto dest: live_set_lt)
    show ?thesis
    proof (cases "y = node_count g")
      case True
      then show ?thesis using old x a(3) add_node_levels(3) [OF assms(3)] by auto
    next
      case False
      then show ?thesis using that x a(3) assms(1) by (auto simp: latest_ok_def)
    qed
  qed
  then show ?thesis unfolding latest_ok_def a(1,2) by blast
qed

text \<open>The entry point after a node of \<open>level\<close> has been added and linked.\<close>

lemma insert_entry_ok:
  assumes "entry_ok g" "add_node i e level g = (Inr n, g1)" "erase g2 = erase g1"
  shows "gr_entry_point g = None \<Longrightarrow> entry_ok (set_entry_point (Some n) g2)"
    "gr_entry_point g = Some ep \<Longrightarrow> node_level g1 ep < level \<Longrightarrow> entry_ok (set_entry_point (Some n) g2)"
    "gr_entry_point g = Some ep \<Longrightarrow> level \<le> node_level g1 ep \<Longrightarrow> entry_ok g2"
proof -
  note a = add_node_Inr [OF assms(2)] and b = add_node_live_set [OF assms(2)]
    and l = add_node_levels [OF assms(2)]
  note e = erase_live_set [OF assms(3)] erase_node_level [OF assms(3)] erase_same(4) [OF assms(3)]
  show "gr_entry_point g = None \<Longrightarrow> entry_ok (set_entry_point (Some n) g2)"
    using assms(1) a(1) b(1) by (simp add: entry_ok_def e(1,2))
  show "gr_entry_point g = Some ep \<Longrightarrow> node_level g1 ep < level \<Longrightarrow> entry_ok (set_entry_point (Some n) g2)"
    using assms(1) a(1) b(1) l live_set_lt [of _ g] by (force simp: entry_ok_def e(1,2))
  show "gr_entry_point g = Some ep \<Longrightarrow> level \<le> node_level g1 ep \<Longrightarrow> entry_ok g2"
    using assms(1) a(6) b(1) l live_set_lt [of _ g] by (auto simp: entry_ok_def e)
qed

lemma insert_tracked_error:
  "Embedding_dimension e \<noteq> hi_dimension self \<Longrightarrow> insert_tracked ln_f i e self =
     (Inl (DimensionMismatch (Dimension_get (hi_dimension self)) (Dimension_get (Embedding_dimension e))), self)"
  "Embedding_dimension e = hi_dimension self \<Longrightarrow> gr_live (hi_graph self) i \<noteq> None \<Longrightarrow>
     insert_tracked ln_f i e self = (Inl (DuplicateId i), self)"
  by (simp_all add: insert_tracked_def id_to_node_def)

lemma insert_tracked_fresh:
  assumes ok: "hnsw_ok self" and d: "Embedding_dimension e = hi_dimension self"
    and fresh: "gr_live (hi_graph self) i = None"
  obtains delta g1 g2 ep where "insert_tracked ln_f i e self =
      (Inr delta, self\<lparr>hi_graph := set_entry_point ep g2, hi_rng := snd (next_u64 (hi_rng self))\<rparr>)"
    "new_node_idx delta = node_count (hi_graph self)"
    "add_node i e (fst (next_level ln_f (m_l ln_f (hi_config self)) (hi_rng self))) (hi_graph self) =
       (Inr (node_count (hi_graph self)), g1)"
    "link_inv (hi_dimension self) (hi_config self) g1 g2"
    "entry_ok (set_entry_point ep g2)"
    "node_count (hi_graph self) \<in> set (ins_touched_nodes delta)"
    "\<forall>x. x \<notin> set (ins_touched_nodes delta) \<longrightarrow> gr_nodes g2 ! x = gr_nodes g1 ! x"
    "ins_entry_changed delta \<longleftrightarrow> ep \<noteq> gr_entry_point (hi_graph self)"
proof -
  let ?g = "hi_graph self" and ?c = "hi_config self" and ?dim = "hi_dimension self"
  obtain level rng where nl: "next_level ln_f (m_l ln_f ?c) (hi_rng self) = (level, rng)"
    by (cases "next_level ln_f (m_l ln_f ?c) (hi_rng self)")
  have lev: "level \<le> MAX_LEVEL" using next_level_le [of ln_f "m_l ln_f ?c" "hi_rng self"] nl by simp
  have rng: "rng = snd (next_u64 (hi_rng self))"
    using next_level_state [of ln_f "m_l ln_f ?c" "hi_rng self"] nl by simp
  have gok: "graph_ok ?dim (degree_limit ?c) MAX_LEVEL ?g" and eok: "entry_ok ?g" and cok: "config_ok ?c"
    using ok by (simp_all add: hnsw_ok_def)
  obtain g1 where add: "add_node i e level ?g = (Inr (node_count ?g), g1)"
    using add_node_result [OF gok d fresh, of level] by (cases "add_node i e level ?g") auto
  have g1: "graph_ok ?dim (degree_limit ?c) MAX_LEVEL g1" by (rule add_node_ok [OF gok add d lev])
  have ep1: "gr_entry_point g1 = gr_entry_point ?g" by (rule add_node_Inr(6) [OF add])
  have cnt: "node_count g1 = Suc (node_count ?g)" by (rule add_node_live_set(2) [OF add])
  have l1: "link_inv ?dim ?c g1 g1" using g1 by (simp add: link_inv_def)
  show ?thesis
  proof (cases "gr_entry_point ?g")
    case None
    let ?delta = "\<lparr>new_node_idx = node_count ?g, ins_touched_nodes = [node_count ?g], ins_entry_changed = True\<rparr>"
    have "insert_tracked ln_f i e self = (Inr ?delta,
        self\<lparr>hi_graph := set_entry_point (Some (node_count ?g)) g1, hi_rng := rng\<rparr>)"
      using d fresh nl add ep1 None by (simp add: insert_tracked_def id_to_node_def Let_def)
    then show ?thesis
      using add l1 insert_entry_ok(1) [OF eok add refl None] None
      by (intro that [of ?delta "Some (node_count ?g)" g1 g1]) (simp_all add: rng nl)
  next
    case (Some ep)
    define el where "el = node_level g1 ep"
    define cur where "cur = (if level < el
      then greedy_descent g1 (as_slice e) (cfg_metric ?c) ep el (level + 1) else ep)"
    have "ep < node_count ?g" using eok Some by (simp add: entry_ok_def live_set_lt)
    then have cur: "cur < node_count g1"
      unfolding cur_def using graph_ok_neighbors [OF g1] cnt by (auto intro: greedy_descent_lt)
    obtain g2 t cur' where f: "foldl (link_layer ?c (as_slice e) (node_count ?g))
        (g1, btree_insert (node_count ?g) [], cur) (rev [0 ..< Suc (min level el)]) = (g2, t, cur')"
      by (cases "foldl (link_layer ?c (as_slice e) (node_count ?g))
        (g1, btree_insert (node_count ?g) [], cur) (rev [0 ..< Suc (min level el)])")
    have lk: "link_inv ?dim ?c g1 g2 \<and> set (btree_insert (node_count ?g) []) \<subseteq> set t \<and>
        (\<forall>x. x \<notin> set t \<longrightarrow> gr_nodes g2 ! x = gr_nodes g1 ! x)"
      using cnt by (intro link_layers_facts [OF l1 cok _ cur f]) simp_all
    then have er: "erase g2 = erase g1" by (simp add: link_inv_def)
    have ep2: "gr_entry_point g2 = Some ep" using erase_same(4) [OF er] ep1 Some by simp
    let ?ep = "if el < level then Some (node_count ?g) else Some ep"
    let ?delta = "\<lparr>new_node_idx = node_count ?g, ins_touched_nodes = t, ins_entry_changed = (el < level)\<rparr>"
    have g2: "set_entry_point (Some ep) g2 = g2" using ep2 by (simp add: set_entry_point_def)
    have "insert_tracked ln_f i e self = (Inr ?delta,
        self\<lparr>hi_graph := set_entry_point ?ep g2, hi_rng := rng\<rparr>)"
      using d fresh nl add ep1 ep2 Some f g2
      by (simp add: insert_tracked_def id_to_node_def Let_def el_def [symmetric] cur_def [symmetric])
    moreover have "entry_ok (set_entry_point ?ep g2)"
      using insert_entry_ok(2,3) [OF eok add er Some] by (auto simp: el_def g2 not_less)
    ultimately show ?thesis
      using add lk Some \<open>ep < node_count ?g\<close>
      by (intro that [of ?delta ?ep g2 g1]) (auto simp add: rng nl)
  qed
qed

text \<open>What an insertion of a fresh id does, on the level of the index.\<close>

lemma insert_tracked_Inr:
  assumes ok: "hnsw_ok self" and d: "Embedding_dimension e = hi_dimension self"
    and fresh: "gr_live (hi_graph self) i = None"
    and ins: "insert_tracked ln_f i e self = (r, self')"
  shows "\<exists>delta. r = Inr delta \<and> new_node_idx delta = node_count (hi_graph self) \<and>
      node_count (hi_graph self) \<in> set (ins_touched_nodes delta) \<and>
      (\<forall>x < node_count (hi_graph self). x \<notin> set (ins_touched_nodes delta) \<longrightarrow>
         gr_nodes (hi_graph self') ! x = gr_nodes (hi_graph self) ! x) \<and>
      (ins_entry_changed delta \<longleftrightarrow> gr_entry_point (hi_graph self') \<noteq> gr_entry_point (hi_graph self))"
    "hnsw_ok self'" "hnsw_contents self' = (hnsw_contents self)(i \<mapsto> e)"
    "hi_config self' = hi_config self" "hi_dimension self' = hi_dimension self"
    "node_count (hi_graph self') = Suc (node_count (hi_graph self))"
proof -
  let ?g = "hi_graph self" and ?c = "hi_config self" and ?dim = "hi_dimension self"
  obtain delta g1 g2 ep where
    s: "insert_tracked ln_f i e self =
      (Inr delta, self\<lparr>hi_graph := set_entry_point ep g2, hi_rng := snd (next_u64 (hi_rng self))\<rparr>)"
    and idx: "new_node_idx delta = node_count ?g"
    and add: "add_node i e (fst (next_level ln_f (m_l ln_f ?c) (hi_rng self))) ?g = (Inr (node_count ?g), g1)"
    and lk: "link_inv ?dim ?c g1 g2" and eok: "entry_ok (set_entry_point ep g2)"
    and mem: "node_count ?g \<in> set (ins_touched_nodes delta)"
    and same: "\<forall>x. x \<notin> set (ins_touched_nodes delta) \<longrightarrow> gr_nodes g2 ! x = gr_nodes g1 ! x"
    and ec: "ins_entry_changed delta \<longleftrightarrow> ep \<noteq> gr_entry_point ?g"
    by (rule insert_tracked_fresh [OF ok d fresh])
  have er: "erase g2 = erase g1" using lk by (simp add: link_inv_def)
  have r: "r = Inr delta"
    and self': "self' = self\<lparr>hi_graph := set_entry_point ep g2, hi_rng := snd (next_u64 (hi_rng self))\<rparr>"
    using ins s by simp_all
  have live: "live_ok ?g" using ok by (simp add: hnsw_ok_def graph_ok_def)
  have live2: "live_ok g2" using lk by (simp add: link_inv_def graph_ok_def)
  have l1: "latest_ok g1" using add_node_latest [OF _ live add] ok by (simp add: hnsw_ok_def)
  have live1: "live_ok g1"
    using live2 erase_same [OF er] erase_live_set [OF er] erase_node(1) [OF er]
    by (auto simp: live_ok_def dest: live_set_lt)
  show "\<exists>delta. r = Inr delta \<and> new_node_idx delta = node_count ?g \<and>
      node_count ?g \<in> set (ins_touched_nodes delta) \<and>
      (\<forall>x < node_count ?g. x \<notin> set (ins_touched_nodes delta) \<longrightarrow>
         gr_nodes (hi_graph self') ! x = gr_nodes ?g ! x) \<and>
      (ins_entry_changed delta \<longleftrightarrow> gr_entry_point (hi_graph self') \<noteq> gr_entry_point ?g)"
    using r self' idx mem same ec add_node_live_set(3) [OF add] by simp
  have "latest_ok (set_entry_point ep g2)"
    using l1 erase_latest_ok [OF er] by (simp add: latest_ok_def)
  then show "hnsw_ok self'"
    using ok lk eok by (simp add: self' hnsw_ok_def link_inv_def)
  show "hnsw_contents self' = (hnsw_contents self)(i \<mapsto> e)"
    by (simp add: self' hnsw_contents_def erase_contents [OF er live1] add_node_contents [OF live add])
  show "hi_config self' = ?c" "hi_dimension self' = ?dim" by (simp_all add: self')
  show "node_count (hi_graph self') = Suc (node_count ?g)"
    by (simp add: self' erase_same(1) [OF er] add_node_live_set(2) [OF add])
qed

section \<open>Removal\<close>

lemma max_by_key_snoc:
  "max_by_key f (xs @ [z]) =
     Some (case max_by_key f xs of None \<Rightarrow> z | Some y \<Rightarrow> if f y \<le> f z then z else y)"
  by (auto simp: max_by_key_def split: option.splits)

lemma max_by_key_None: "max_by_key f xs = None \<longleftrightarrow> xs = []"
  by (cases xs rule: rev_cases) (auto simp: max_by_key_snoc, simp add: max_by_key_def)

lemma max_by_key_Some:
  "max_by_key f xs = Some x \<Longrightarrow> x \<in> set xs \<and> (\<forall>y \<in> set xs. f y \<le> f x)"
proof (induction xs arbitrary: x rule: rev_induct)
  case (snoc z xs)
  show ?case
  proof (cases "max_by_key f xs")
    case None
    then show ?thesis using snoc.prems [unfolded max_by_key_snoc None] max_by_key_None [of f xs] by auto
  next
    case (Some y)
    then show ?thesis using snoc.prems snoc.IH [OF Some] by (auto simp: max_by_key_snoc split: if_splits)
  qed
qed (simp add: max_by_key_def)

text \<open>The election of a new entry point among the live nodes.\<close>

lemma elect_entry_ok:
  "entry_ok (set_entry_point (map_option fst (max_by_key (\<lambda>(_, _, _, level). level) (live_nodes g))) g)"
proof (cases "max_by_key (\<lambda>(_, _, _, level). level) (live_nodes g)")
  case None
  then have "live_nodes g = []" by (simp add: max_by_key_None)
  then have "live_set g = {}" using live_nodes_mem [of _ _ _ _ g] by auto
  with None show ?thesis by (simp add: entry_ok_def)
next
  case (Some t)
  obtain x i s l where t: "t = (x, i, s, l)" by (cases t)
  have x: "x \<in> live_set g" "l = node_level g x"
    using max_by_key_Some [OF Some] by (auto simp: t live_nodes_mem node_level_in live_set_lt)
  have "node_level g y \<le> l" if "y \<in> live_set g" for y
  proof -
    have "(y, nd_id (gr_nodes g ! y), as_slice (nd_embedding (gr_nodes g ! y)), node_level g y) \<in> set (live_nodes g)"
      using that by (simp add: live_nodes_mem node_level_in live_set_lt)
    then show ?thesis using max_by_key_Some [OF Some] by (auto simp: t)
  qed
  with x Some show ?thesis by (simp add: entry_ok_def t)
qed

lemma remove_tracked_spec:
  assumes ok: "hnsw_ok self" and rem: "remove_tracked i self = (r, self')"
  shows "case hnsw_contents self i of None \<Rightarrow> r = Inr None \<and> self' = self
      | Some _ \<Rightarrow> \<exists>delta. r = Inr (Some delta)"
    "hnsw_ok self'" "hnsw_contents self' = (hnsw_contents self)(i := None)"
    "hi_config self' = hi_config self" "hi_dimension self' = hi_dimension self"
proof -
  let ?g = "hi_graph self"
  have live: "live_ok ?g" and eok: "entry_ok ?g"
    and gok: "graph_ok (hi_dimension self) (degree_limit (hi_config self)) MAX_LEVEL ?g"
    using ok by (simp_all add: hnsw_ok_def graph_ok_def)
  have all: "(case hnsw_contents self i of None \<Rightarrow> r = Inr None \<and> self' = self
      | Some _ \<Rightarrow> \<exists>delta. r = Inr (Some delta)) \<and> hnsw_ok self' \<and>
      hnsw_contents self' = (hnsw_contents self)(i := None) \<and>
      hi_config self' = hi_config self \<and> hi_dimension self' = hi_dimension self"
  proof (cases "gr_live ?g i")
    case None
    then show ?thesis
      using rem ok by (auto simp: remove_tracked_def id_to_node_def hnsw_contents_def graph_contents_def)
  next
    case (Some x)
    then have x: "x \<in> live_set ?g" "nd_id (gr_nodes ?g ! x) = i" using live by (simp_all add: live_ok_def)
    note t = tombstone_live [OF x(1)]
    let ?g1 = "snd (tombstone x ?g)"
    define g2 where "g2 = (if gr_entry_point ?g = Some x
      then set_entry_point (map_option fst (max_by_key (\<lambda>(_, _, _, level). level) (live_nodes ?g1))) ?g1 else ?g1)"
    have r: "r = Inr (Some \<lparr>rem_touched_nodes = [x], rem_entry_changed = (gr_entry_point ?g = Some x)\<rparr>)"
      "self' = self\<lparr>hi_graph := g2\<rparr>"
      using rem Some t(1) by (auto simp: remove_tracked_def id_to_node_def g2_def Let_def split_beta)
    have nth: "nd_id (gr_nodes ?g1 ! y) = nd_id (gr_nodes ?g ! y)" "nd_level (gr_nodes ?g1 ! y) = nd_level (gr_nodes ?g ! y)" for y
      using live_set_lt [OF x(1)] unfolding t(7) by (cases "y = x"; simp add: node_count_def)+
    have lv: "node_level ?g1 y = node_level ?g y" if "y \<in> live_set ?g" for y
      using that t(3) nth live_set_lt [of y ?g] by (simp add: node_level_in)
    have e2: "entry_ok g2"
    proof (cases "gr_entry_point ?g = Some x")
      case True
      then show ?thesis by (simp add: g2_def elect_entry_ok)
    next
      case False
      then show ?thesis
        using eok x(1) lv unfolding entry_ok_def g2_def
        by (auto simp: t(2,6) split: option.splits dest: live_set_lt)
    qed
    have "latest_ok ?g1" using ok nth unfolding hnsw_ok_def latest_ok_def t(2,3) by auto
    then have "latest_ok g2" by (simp add: g2_def latest_ok_def)
    with e2 tombstone_ok [OF gok x(1)] ok have "hnsw_ok self'"
      by (simp add: hnsw_ok_def r g2_def)
    with Some show ?thesis
      using tombstone_contents [OF live x(1)] x(2)
      by (simp add: r hnsw_contents_def g2_def graph_contents_def [of ?g])
  qed
  from all show "case hnsw_contents self i of None \<Rightarrow> r = Inr None \<and> self' = self
      | Some _ \<Rightarrow> \<exists>delta. r = Inr (Some delta)"
    "hnsw_ok self'" "hnsw_contents self' = (hnsw_contents self)(i := None)"
    "hi_config self' = hi_config self" "hi_dimension self' = hi_dimension self" by blast+
qed

section \<open>Search\<close>

definition descent_end :: "Embedding \<Rightarrow> HnswIndex \<Rightarrow> NodeIdx \<Rightarrow> NodeIdx" where
  "descent_end query self entry =
     (if 0 < node_level (hi_graph self) entry
      then greedy_descent (hi_graph self) (as_slice query) (cfg_metric (hi_config self)) entry
             (node_level (hi_graph self) entry) 1
      else entry)"

text \<open>No panic: the beam always starts at a node of the graph.\<close>

lemma descent_end_lt:
  assumes "hnsw_ok self" "gr_entry_point (hi_graph self) = Some entry"
  shows "descent_end query self entry < node_count (hi_graph self)"
proof -
  have g: "graph_ok (hi_dimension self) (degree_limit (hi_config self)) MAX_LEVEL (hi_graph self)"
    and e: "entry < node_count (hi_graph self)"
    using assms by (simp_all add: hnsw_ok_def entry_ok_def live_set_lt)
  show ?thesis
    unfolding descent_end_def using graph_ok_neighbors [OF g] e by (auto intro: greedy_descent_lt)
qed

lemma map_sorted_neighbors:
  assumes "sorted (map cand_key cs)"
  shows "sorted (map neighbor_key (map (\<lambda>c. \<lparr>neighbor_id = cd_id c, neighbor_score = cd_score c\<rparr>) cs))"
proof -
  have "map neighbor_key (map (\<lambda>c. \<lparr>neighbor_id = cd_id c, neighbor_score = cd_score c\<rparr>) cs) = map cand_key cs"
    by (simp add: neighbor_key_def cand_key_def)
  with assms show ?thesis by (simp only:)
qed

lemma hnsw_search_cases:
  assumes "HnswIndex_search_filtered q k m adm self = Inr ns"
  obtains (empty) "gr_entry_point (hi_graph self) = None" "ns = []"
      "Embedding_dimension q = hi_dimension self" "m = cfg_metric (hi_config self)"
  | (beam) entry where "gr_entry_point (hi_graph self) = Some entry"
      "Embedding_dimension q = hi_dimension self" "m = cfg_metric (hi_config self)"
      "ns = take k (sort_by neighbor_cmp (map (\<lambda>c. \<lparr>neighbor_id = cd_id c, neighbor_score = cd_score c\<rparr>)
        (take k (beam_search (hi_graph self) (as_slice q) m (descent_end q self entry)
           (max (cfg_ef_search (hi_config self)) k) 0 adm))))"
proof (cases "gr_entry_point (hi_graph self)")
  case None
  with assms show ?thesis
    by (intro empty) (auto simp: HnswIndex_search_filtered_def split: if_splits)
next
  case (Some entry)
  with assms show ?thesis
    by (intro beam [of entry])
      (auto simp: HnswIndex_search_filtered_def descent_end_def Let_def split: if_splits)
qed

text \<open>A candidate of the beam is the neighbour its stored vector gives.\<close>

lemma cand_of_live:
  assumes "live_ok g" "x \<in> live_set g"
  shows "\<lparr>neighbor_id = cd_id (cand_of g (as_slice q) m x), neighbor_score = cd_score (cand_of g (as_slice q) m x)\<rparr>
      = score_of m q (nd_id (gr_nodes g ! x)) (nd_embedding (gr_nodes g ! x))"
    "graph_contents g (nd_id (gr_nodes g ! x)) = Some (nd_embedding (gr_nodes g ! x))"
    "id_or_nil g x = nd_id (gr_nodes g ! x)"
proof -
  have x: "x < node_count g" by (rule live_set_lt [OF assms(2)])
  have "gr_live g (nd_id (gr_nodes g ! x)) = Some x" using assms by (simp add: live_ok_def)
  then show "graph_contents g (nd_id (gr_nodes g ! x)) = Some (nd_embedding (gr_nodes g ! x))"
    by (simp add: graph_contents_def)
  show "id_or_nil g x = nd_id (gr_nodes g ! x)" using x by (simp add: id_or_nil_def unwrap_or_def graph_simps)
  with x show "\<lparr>neighbor_id = cd_id (cand_of g (as_slice q) m x), neighbor_score = cd_score (cand_of g (as_slice q) m x)\<rparr>
      = score_of m q (nd_id (gr_nodes g ! x)) (nd_embedding (gr_nodes g ! x))"
    by (simp add: score_of_def emb_or_empty_def unwrap_or_def graph_simps)
qed

lemma beam_result_live:
  assumes "live_ok g" "beam_result g q m ef adm cs"
  shows "\<forall>c \<in> set cs. cd_node c \<in> live_set g \<and> adm (nd_id (gr_nodes g ! cd_node c)) \<and>
      c = cand_of g q m (cd_node c) \<and> cd_id c = nd_id (gr_nodes g ! cd_node c)"
    "distinct (map cd_id cs)"
proof -
  show all: "\<forall>c \<in> set cs. cd_node c \<in> live_set g \<and> adm (nd_id (gr_nodes g ! cd_node c)) \<and>
      c = cand_of g q m (cd_node c) \<and> cd_id c = nd_id (gr_nodes g ! cd_node c)"
  proof
    fix c assume "c \<in> set cs"
    then have c: "c = cand_of g q m (cd_node c)" "cd_node c < node_count g"
      "\<not> is_tombstone g (cd_node c)" "adm (cd_id c)"
      using assms(2) by (auto simp: beam_result_def)
    then have "cd_node c \<in> live_set g" by (simp add: live_set_def is_tombstone_in)
    moreover have "cd_id c = nd_id (gr_nodes g ! cd_node c)"
      using c(1) cand_of_live(3) [OF assms(1) \<open>cd_node c \<in> live_set g\<close>] by (metis cand_of_simps(2))
    ultimately show "cd_node c \<in> live_set g \<and> adm (nd_id (gr_nodes g ! cd_node c)) \<and>
      c = cand_of g q m (cd_node c) \<and> cd_id c = nd_id (gr_nodes g ! cd_node c)"
      using c by simp
  qed
  have "inj_on cd_id (set cs)"
  proof (rule inj_onI)
    fix c c' assume c: "c \<in> set cs" "c' \<in> set cs" "cd_id c = cd_id c'"
    then have "cd_node c = cd_node c'" using all live_ok_inj [OF assms(1)] by simp
    then show "c = c'" using c all by metis
  qed
  moreover have "distinct cs" using assms(2) by (simp add: beam_result_def distinct_map)
  ultimately show "distinct (map cd_id cs)" by (simp add: distinct_map)
qed

lemma hnsw_search_sound:
  assumes ok: "hnsw_ok self" and s: "HnswIndex_search_filtered q k m adm self = Inr ns"
  shows "Embedding_dimension q = hi_dimension self" "m = cfg_metric (hi_config self)"
    "sorted (map neighbor_key ns)" "distinct (map neighbor_id ns)" "length ns \<le> k"
    "set ns \<subseteq> candidates m q adm (hnsw_contents self)"
proof -
  have all: "Embedding_dimension q = hi_dimension self \<and> m = cfg_metric (hi_config self) \<and>
      sorted (map neighbor_key ns) \<and> distinct (map neighbor_id ns) \<and> length ns \<le> k \<and>
      set ns \<subseteq> candidates m q adm (hnsw_contents self)"
    using s
  proof (cases rule: hnsw_search_cases)
    case empty
    then show ?thesis by simp
  next
    case (beam entry)
    let ?g = "hi_graph self"
    define cs where "cs = beam_search ?g (as_slice q) m (descent_end q self entry)
        (max (cfg_ef_search (hi_config self)) k) 0 adm"
    define ms where "ms = map (\<lambda>c. \<lparr>neighbor_id = cd_id c, neighbor_score = cd_score c\<rparr>) (take k cs)"
    have live: "live_ok ?g" using ok by (simp add: hnsw_ok_def graph_ok_def)
    have ef: "1 \<le> max (cfg_ef_search (hi_config self)) k" using ok by (auto simp: hnsw_ok_def config_ok_def)
    note bs = beam_search_sound [where query = "as_slice q" and metric = m and layer = 0 and adm = adm,
        OF descent_end_lt [OF ok beam(1), of q] ef, folded cs_def]
    note bl = beam_result_live [OF live bs(1)]
    have srt: "sorted (map neighbor_key ms)"
      unfolding ms_def using bs(2) by (intro map_sorted_neighbors) (simp add: sorted_wrt_take take_map [symmetric])
    have ns: "ns = ms"
      using beam(4) neighbor_order.sort_by_id [OF srt] by (simp add: ms_def cs_def)
    have "distinct (map neighbor_id ms)"
      using distinct_take [OF bl(2), of k] by (simp add: ms_def comp_def take_map)
    moreover have "set ms \<subseteq> candidates m q adm (hnsw_contents self)"
    proof
      fix n assume "n \<in> set ms"
      then obtain c where c: "c \<in> set cs" "n = \<lparr>neighbor_id = cd_id c, neighbor_score = cd_score c\<rparr>"
        by (auto simp: ms_def dest: in_set_takeD)
      with bl(1) have x: "cd_node c \<in> live_set ?g" "adm (nd_id (gr_nodes ?g ! cd_node c))"
        "c = cand_of ?g (as_slice q) m (cd_node c)" by auto
      from c(2) x(3) cand_of_live(1) [OF live x(1), of q m]
      have "n = score_of m q (nd_id (gr_nodes ?g ! cd_node c)) (nd_embedding (gr_nodes ?g ! cd_node c))"
        by metis
      then show "n \<in> candidates m q adm (hnsw_contents self)"
        using x(2) cand_of_live(2) [OF live x(1)] unfolding candidates_def hnsw_contents_def by blast
    qed
    ultimately show ?thesis using beam(2,3) srt by (simp add: ns) (simp add: ms_def)
  qed
  then show "Embedding_dimension q = hi_dimension self" "m = cfg_metric (hi_config self)"
    "sorted (map neighbor_key ns)" "distinct (map neighbor_id ns)" "length ns \<le> k"
    "set ns \<subseteq> candidates m q adm (hnsw_contents self)" by blast+
qed

section \<open>The index meets the contract of the port\<close>

interpretation hnsw: total_index "HnswIndex_index ln_f" hnsw_ok hnsw_contents
proof
  fix i i' :: HnswIndex and x e r rr u err b
  note defs = HnswIndex_index_def HnswIndex_insert_def HnswIndex_remove_def
  {
    assume ok: "hnsw_ok i"
    then have live: "live_ok (hi_graph i)" by (simp add: hnsw_ok_def graph_ok_def)
    have dom: "dom (hnsw_contents i) = dom (gr_live (hi_graph i))"
      by (simp add: hnsw_contents_def graph_contents_dom)
    show "finite (dom (hnsw_contents i))" by (simp add: dom live_ok_dom [OF live])
    show "vi_len (HnswIndex_index ln_f) i = card (dom (hnsw_contents i))"
      by (simp add: defs dom live_ok_card [OF live])
  }
  have ins: "hnsw_ok i \<Longrightarrow> insert_tracked ln_f x e i = (t, i') \<Longrightarrow>
      (if Embedding_dimension e \<noteq> hi_dimension i
       then t = Inl (DimensionMismatch (Dimension_get (hi_dimension i)) (Dimension_get (Embedding_dimension e))) \<and> i' = i
       else if hnsw_contents i x \<noteq> None then t = Inl (DuplicateId x) \<and> i' = i
       else (\<exists>delta. t = Inr delta) \<and> hnsw_ok i' \<and> hnsw_contents i' = (hnsw_contents i)(x \<mapsto> e) \<and>
         hi_config i' = hi_config i \<and> hi_dimension i' = hi_dimension i)" for t i'
  proof -
    assume ok: "hnsw_ok i" and t: "insert_tracked ln_f x e i = (t, i')"
    have c: "hnsw_contents i x = None \<longleftrightarrow> gr_live (hi_graph i) x = None"
      by (simp add: hnsw_contents_def graph_contents_def)
    show ?thesis
      using t insert_tracked_error [where self = i and i = x and e = e and ln_f = ln_f]
        insert_tracked_Inr [OF ok _ _ t] c by auto
  qed
  {
    assume ok: "hnsw_ok i"
    obtain t j where t: "insert_tracked ln_f x e i = (t, j)" by fastforce
    note s = ins [OF ok t]
    show "fst (vi_insert (HnswIndex_index ln_f) x e i) =
      (if Embedding_dimension e \<noteq> vi_dimension (HnswIndex_index ln_f) i
       then Inl (DimensionMismatch (Dimension_get (vi_dimension (HnswIndex_index ln_f) i)) (Dimension_get (Embedding_dimension e)))
       else if hnsw_contents i x \<noteq> None then Inl (DuplicateId x) else Inr ())"
      using s by (auto simp: defs t split: if_splits)
    assume v: "vi_insert (HnswIndex_index ln_f) x e i = (r, i')"
    then have ij: "i' = j" "r = map_res (\<lambda>_. ()) t" by (auto simp: defs t)
    show "hnsw_ok i' \<and> vi_dimension (HnswIndex_index ln_f) i' = vi_dimension (HnswIndex_index ln_f) i \<and>
      vi_metric (HnswIndex_index ln_f) i' = vi_metric (HnswIndex_index ln_f) i"
      using s ok by (auto simp: defs ij split: if_splits)
  }
  {
    assume ok: "hnsw_ok i" and v: "vi_insert (HnswIndex_index ln_f) x e i = (Inr u, i')"
    obtain t where t: "insert_tracked ln_f x e i = (t, i')" "map_res (\<lambda>_. ()) t = Inr u"
      using v by (auto simp: defs split: prod.splits)
    show "hnsw_contents i x = None \<and> Embedding_dimension e = vi_dimension (HnswIndex_index ln_f) i \<and>
      hnsw_contents i' = (hnsw_contents i)(x \<mapsto> e)"
      using ins [OF ok t(1)] t(2) by (auto simp: defs split: if_splits)
  }
  {
    assume ok: "hnsw_ok i" and v: "vi_insert (HnswIndex_index ln_f) x e i = (Inl err, i')"
    obtain t where t: "insert_tracked ln_f x e i = (t, i')" "map_res (\<lambda>_. ()) t = Inl err"
      using v by (auto simp: defs split: prod.splits)
    show "hnsw_contents i' = hnsw_contents i"
      using ins [OF ok t(1)] t(2) by (auto simp: defs split: if_splits)
  }
  {
    assume ok: "hnsw_ok i"
    obtain t j where t: "remove_tracked x i = (t, j)" by fastforce
    note s = remove_tracked_spec [OF ok t]
    show "fst (vi_remove (HnswIndex_index ln_f) x i) = Inr (hnsw_contents i x \<noteq> None)"
      using s(1) by (auto simp: defs t split: option.splits)
    {
      assume "vi_remove (HnswIndex_index ln_f) x i = (rr, i')"
      then show "hnsw_ok i' \<and> vi_dimension (HnswIndex_index ln_f) i' = vi_dimension (HnswIndex_index ln_f) i \<and>
        vi_metric (HnswIndex_index ln_f) i' = vi_metric (HnswIndex_index ln_f) i"
        using s by (auto simp: defs t)
    next
      assume "vi_remove (HnswIndex_index ln_f) x i = (Inr b, i')"
      then show "b = (hnsw_contents i x \<noteq> None) \<and> hnsw_contents i' = (hnsw_contents i)(x := None)"
        using s(1,3) by (auto simp: defs t split: option.splits)
    next
      assume "vi_remove (HnswIndex_index ln_f) x i = (Inl err, i')"
      then show "hnsw_contents i' = hnsw_contents i"
        using s(1) by (auto simp: defs t split: option.splits)
    }
  }
next
  fix i :: HnswIndex and q k m adm ns
  assume ok: "hnsw_ok i" and s: "vi_search_filtered (HnswIndex_index ln_f) q k m adm i = Inr ns"
  then have "HnswIndex_search_filtered q k m adm i = Inr ns" by (simp add: HnswIndex_index_def)
  from hnsw_search_sound [OF ok this] ok
  show "Embedding_dimension q = vi_dimension (HnswIndex_index ln_f) i \<and>
      m \<in> set (vi_supported_metrics (HnswIndex_index ln_f) i) \<and>
      sorted (map neighbor_key ns) \<and> distinct (map neighbor_id ns) \<and> length ns \<le> k \<and>
      set ns \<subseteq> candidates m q adm (hnsw_contents i)"
    by (simp add: HnswIndex_index_def hnsw_ok_def)
qed (auto simp: HnswIndex_index_def hnsw_ok_def HnswIndex_search_filtered_def Let_def split: option.split)

section \<open>A wide enough search is exact on what the entry reaches\<close>

definition reached_contents :: "Embedding \<Rightarrow> HnswIndex \<Rightarrow> VectorId \<rightharpoonup> Embedding" where
  "reached_contents q self i =
     (case gr_entry_point (hi_graph self) of
        None \<Rightarrow> None
      | Some entry \<Rightarrow>
          (case gr_live (hi_graph self) i of
             None \<Rightarrow> None
           | Some x \<Rightarrow> if x \<in> reachable (hi_graph self) 0 (descent_end q self entry)
                       then Some (nd_embedding (gr_nodes (hi_graph self) ! x)) else None))"

lemma reached_contents_Some:
  assumes "live_ok (hi_graph self)" "gr_entry_point (hi_graph self) = Some entry"
  shows "reached_contents q self i = Some e \<longleftrightarrow>
    (\<exists>x \<in> live_set (hi_graph self). x \<in> reachable (hi_graph self) 0 (descent_end q self entry) \<and>
       nd_id (gr_nodes (hi_graph self) ! x) = i \<and> nd_embedding (gr_nodes (hi_graph self) ! x) = e)"
proof (cases "gr_live (hi_graph self) i")
  case None
  then have "\<not> (\<exists>x \<in> live_set (hi_graph self). nd_id (gr_nodes (hi_graph self) ! x) = i)"
    using live_ok_get [OF assms(1)] by auto
  with None assms(2) show ?thesis by (auto simp: reached_contents_def)
next
  case (Some x)
  then have "x \<in> live_set (hi_graph self)" "nd_id (gr_nodes (hi_graph self) ! x) = i"
    using assms(1) by (simp_all add: live_ok_def)
  with Some assms(2) live_ok_inj [OF assms(1)] show ?thesis by (auto simp: reached_contents_def)
qed

lemma hnsw_search_exhaustive:
  assumes ok: "hnsw_ok self" and s: "HnswIndex_search_filtered q k m adm self = Inr ns"
    and wide: "node_count (hi_graph self) \<le> max (cfg_ef_search (hi_config self)) k"
  shows "is_top_k k (candidates m q adm (reached_contents q self)) ns"
  using s
proof (cases rule: hnsw_search_cases)
  case empty
  then have "candidates m q adm (reached_contents q self) = {}"
    by (simp add: candidates_def reached_contents_def)
  with empty show ?thesis by (simp add: top_k_def)
next
  case (beam entry)
  let ?g = "hi_graph self" and ?e = "descent_end q self entry"
  define cs where "cs = beam_search ?g (as_slice q) m ?e (max (cfg_ef_search (hi_config self)) k) 0 adm"
  define toN where "toN c = \<lparr>neighbor_id = cd_id c, neighbor_score = cd_score c\<rparr>" for c
  have live: "live_ok ?g" using ok by (simp add: hnsw_ok_def graph_ok_def)
  have ef: "1 \<le> max (cfg_ef_search (hi_config self)) k" using ok by (auto simp: hnsw_ok_def config_ok_def)
  note lt = descent_end_lt [OF ok beam(1), of q]
  note bs = beam_search_sound [where query = "as_slice q" and metric = m and layer = 0 and adm = adm,
      OF lt ef, folded cs_def]
  note bl = beam_result_live [OF live bs(1)]
  have nodes: "cd_node ` set cs = {n \<in> reachable ?g 0 ?e. n \<in> live_set ?g \<and> adm (nd_id (gr_nodes ?g ! n))}"
    unfolding cs_def beam_search_exhaustive [OF lt wide]
    by (auto simp: live_set_def is_tombstone_in id_or_nil_def unwrap_or_def node_id_in)
  have srt: "sorted (map neighbor_key (map toN cs))"
    unfolding toN_def by (rule map_sorted_neighbors [OF bs(2)])
  have all: "sort_by neighbor_cmp (map toN cs) = map toN cs" by (rule neighbor_order.sort_by_id [OF srt])
  have "sorted (map neighbor_key (take k (map toN cs)))"
    using sorted_wrt_take [OF srt] by (simp only: take_map)
  from neighbor_order.sort_by_id [OF this]
  have ns: "ns = take k (sort_by neighbor_cmp (map toN cs))"
    using beam(4) unfolding all by (simp add: cs_def toN_def [abs_def] take_map)
  have d: "distinct (map toN cs)"
    using bl(2) by (auto simp: distinct_map inj_on_def toN_def)
  have setc: "set cs = cand_of ?g (as_slice q) m ` cd_node ` set cs"
  proof -
    have "c \<in> set cs \<Longrightarrow> c = cand_of ?g (as_slice q) m (cd_node c)" for c using bl(1) by blast
    then show ?thesis by (auto simp: image_image intro: rev_image_eqI)
  qed
  have toN: "toN (cand_of ?g (as_slice q) m x) = score_of m q (nd_id (gr_nodes ?g ! x)) (nd_embedding (gr_nodes ?g ! x))"
    if "x \<in> live_set ?g" for x unfolding toN_def by (rule cand_of_live(1) [OF live that])
  have "set (map toN cs) = (\<lambda>x. score_of m q (nd_id (gr_nodes ?g ! x)) (nd_embedding (gr_nodes ?g ! x))) `
      {n \<in> reachable ?g 0 ?e. n \<in> live_set ?g \<and> adm (nd_id (gr_nodes ?g ! n))}"
    unfolding set_map by (subst setc, unfold nodes image_image) (auto simp: toN intro!: image_cong)
  also have "\<dots> = candidates m q adm (reached_contents q self)"
    unfolding candidates_def reached_contents_Some [OF live beam(1)] by blast
  finally show ?thesis unfolding ns by (rule neighbor_order.top_k_sorted [OF d])
qed

end
