(* ===== verification/Hnsw_Reload.thy ===== *)
theory Hnsw_Reload
  imports Hnsw_Index
begin

text \<open>
  Compaction and reload of \<open>HnswIndex\<close>: \<open>compact\<close> keeps exactly the stored vectors and drops
  every tombstone, and \<open>from_snapshot\<close> of a \<open>snapshot\<close> is the index itself, adjacency, entry
  point and generator state included.
\<close>

section \<open>Bulk insertion and compaction\<close>

lemma HnswIndex_insert_fresh:
  assumes "hnsw_ok s" "Embedding_dimension e = hi_dimension s" "hnsw_contents s i = None"
  obtains s' where "HnswIndex_insert ln_f i e s = (Inr (), s')" "hnsw_ok s'"
    "hnsw_contents s' = (hnsw_contents s)(i \<mapsto> e)" "hi_dimension s' = hi_dimension s"
    "hi_config s' = hi_config s"
    "node_count (hi_graph s') = Suc (node_count (hi_graph s))"
proof -
  obtain r s' where t: "insert_tracked ln_f i e s = (r, s')" by fastforce
  have "gr_live (hi_graph s) i = None" using assms(3) by (simp add: hnsw_contents_def graph_contents_def)
  note f = insert_tracked_Inr [OF assms(1,2) this t]
  from f(1) obtain delta where "r = Inr delta" by auto
  then show ?thesis using t f by (intro that [of s']) (simp_all add: HnswIndex_insert_def)
qed

lemma bulk_insert_fresh:
  assumes "hnsw_ok s" "\<forall>(i, e) \<in> set ps. Embedding_dimension e = hi_dimension s \<and> hnsw_contents s i = None"
    "distinct (map fst ps)"
  shows "\<exists>s'. bulk_insert ln_f ps s = (Inr (), s') \<and> hnsw_ok s' \<and>
    hnsw_contents s' = hnsw_contents s ++ map_of ps \<and> hi_dimension s' = hi_dimension s \<and>
    hi_config s' = hi_config s \<and> node_count (hi_graph s') = node_count (hi_graph s) + length ps"
  using assms
proof (induction ps arbitrary: s)
  case (Cons p ps)
  obtain i e where p: "p = (i, e)" by fastforce
  obtain s1 where s1: "HnswIndex_insert ln_f i e s = (Inr (), s1)" "hnsw_ok s1"
    "hnsw_contents s1 = (hnsw_contents s)(i \<mapsto> e)" "hi_dimension s1 = hi_dimension s"
    "hi_config s1 = hi_config s" "node_count (hi_graph s1) = Suc (node_count (hi_graph s))"
    by (rule HnswIndex_insert_fresh [of s e i ln_f]) (use Cons.prems in \<open>auto simp: p\<close>)
  have ni: "i \<notin> fst ` set ps" using Cons.prems(3) by (simp add: p)
  have "\<forall>(j, e) \<in> set ps. Embedding_dimension e = hi_dimension s1 \<and> hnsw_contents s1 j = None"
    using Cons.prems(2) ni by (force simp: s1)
  from Cons.IH [OF s1(2) this] Cons.prems(3) obtain s' where
    s': "bulk_insert ln_f ps s1 = (Inr (), s')" "hnsw_ok s'" "hnsw_contents s' = hnsw_contents s1 ++ map_of ps"
      "hi_dimension s' = hi_dimension s1" "hi_config s' = hi_config s1"
      "node_count (hi_graph s') = node_count (hi_graph s1) + length ps" by (auto simp: p)
  have "(hnsw_contents s)(i \<mapsto> e) ++ map_of ps = hnsw_contents s ++ map_of ((i, e) # ps)"
    using ni [folded map_of_eq_None_iff] by (auto simp: map_add_def fun_eq_iff split: option.splits)
  then have "hnsw_contents s' = hnsw_contents s ++ map_of (p # ps)" by (simp only: s'(3) s1(3) p)
  with s1 s' show ?case by (intro exI [of _ s']) (simp add: p del: map_of.simps)
qed simp

definition live_pairs :: "HnswGraph \<Rightarrow> (VectorId \<times> Embedding) list" where
  "live_pairs g = map (\<lambda>n. (nd_id n, nd_embedding n)) (filter (\<lambda>n. \<not> nd_tombstone n) (gr_nodes g))"

lemma filter_enumerate_snd:
  "map snd (filter (\<lambda>p. P (snd p)) (enumerate k xs)) = filter P xs"
  by (induction xs arbitrary: k) auto

lemma live_nodes_pairs:
  assumes "\<forall>nd \<in> set (gr_nodes g). embedding_ok (nd_embedding nd)"
  shows "traverse (\<lambda>(_, i, slice, _). map_res (\<lambda>e. (i, e)) (Embedding_new slice)) (live_nodes g)
    = Inr (live_pairs g)"
proof -
  define h where "h = (\<lambda>p :: nat \<times> Node. (nd_id (snd p), nd_embedding (snd p)))"
  have new: "Embedding_new (as_slice e) = Inr e" if "embedding_ok e" for e
    using that by (cases e) (auto simp: Embedding_new_def embedding_ok_def)
  have "traverse (\<lambda>(_, i, slice, _). map_res (\<lambda>e. (i, e)) (Embedding_new slice)) (live_nodes g)
      = Inr (map h (filter (\<lambda>p. \<not> nd_tombstone (snd p)) (enumerate 0 (gr_nodes g))))"
    unfolding live_nodes_def traverse_map case_prod_beta
  proof (rule traverse_all_Inr)
    fix p assume "p \<in> set (filter (\<lambda>p. \<not> nd_tombstone (snd p)) (enumerate 0 (gr_nodes g)))"
    then have "snd p \<in> set (gr_nodes g)" by (auto simp: in_set_enumerate_eq) (metis nth_mem)
    then show "map_res (\<lambda>e. (fst (snd (fst p, nd_id (snd p), as_slice (nd_embedding (snd p)), nd_level (snd p))), e))
        (Embedding_new (fst (snd (snd (fst p, nd_id (snd p), as_slice (nd_embedding (snd p)), nd_level (snd p)))))) = Inr (h p)"
      using assms by (simp add: h_def new)
  qed
  also have "map h (filter (\<lambda>p. \<not> nd_tombstone (snd p)) (enumerate 0 (gr_nodes g))) = live_pairs g"
    unfolding live_pairs_def filter_enumerate_snd [of "\<lambda>n. \<not> nd_tombstone n" 0, symmetric] by (simp add: h_def)
  finally show ?thesis .
qed

lemma live_pairs_contents:
  assumes "live_ok g"
  shows "distinct (map fst (live_pairs g))" "map_of (live_pairs g) = graph_contents g"
    "length (live_pairs g) = card (live_set g)"
proof -
  let ?f = "filter (\<lambda>n. \<not> nd_tombstone n) (gr_nodes g)"
  have idx: "\<exists>x. x \<in> live_set g \<and> gr_nodes g ! x = n" if "n \<in> set ?f" for n
    using that by (auto simp: live_set_def node_count_def in_set_conv_nth)
  have "distinct (map nd_id (filter (\<lambda>n. \<not> nd_tombstone n) ns))"
    if "\<forall>x y. x < length ns \<and> y < length ns \<and> \<not> nd_tombstone (ns ! x) \<and> \<not> nd_tombstone (ns ! y) \<and>
      nd_id (ns ! x) = nd_id (ns ! y) \<longrightarrow> x = y" for ns :: "Node list"
    using that
  proof (induction ns)
    case (Cons n ns)
    have "nd_id n \<notin> nd_id ` {m \<in> set ns. \<not> nd_tombstone m}" if "\<not> nd_tombstone n"
    proof
      assume "nd_id n \<in> nd_id ` {m \<in> set ns. \<not> nd_tombstone m}"
      then obtain j where "j < length ns" "\<not> nd_tombstone (ns ! j)" "nd_id n = nd_id (ns ! j)"
        by (auto simp: in_set_conv_nth)
      with Cons.prems [rule_format, of 0 "Suc j"] that show False by simp
    qed
    moreover have "distinct (map nd_id (filter (\<lambda>n. \<not> nd_tombstone n) ns))"
      using Cons.prems by (intro Cons.IH) (metis Suc_inject Suc_less_eq length_Cons nth_Cons_Suc)
    ultimately show ?case by auto
  qed simp
  then have d: "distinct (map nd_id ?f)"
    using live_ok_inj [OF assms] by (auto simp: live_set_def node_count_def)
  then show d': "distinct (map fst (live_pairs g))" by (simp add: live_pairs_def comp_def)
  show "map_of (live_pairs g) = graph_contents g"
  proof
    fix i
    have "map_of (live_pairs g) i = Some e \<longleftrightarrow> graph_contents g i = Some e" for e
    proof -
      have "map_of (live_pairs g) i = Some e \<longleftrightarrow> (i, e) \<in> set (live_pairs g)"
        using d' by (simp add: map_of_eq_Some_iff)
      also have "\<dots> \<longleftrightarrow> (\<exists>x \<in> live_set g. nd_id (gr_nodes g ! x) = i \<and> nd_embedding (gr_nodes g ! x) = e)"
        by (auto simp: live_pairs_def live_set_def node_count_def in_set_conv_nth image_iff)
      also have "\<dots> \<longleftrightarrow> graph_contents g i = Some e"
        using assms by (auto simp: graph_contents_def live_ok_def)
      finally show ?thesis .
    qed
    then show "map_of (live_pairs g) i = graph_contents g i" by (metis not_Some_eq)
  qed
  have "card (dom (map_of (live_pairs g))) = length (live_pairs g)"
    using d' by (simp add: hm_length [unfolded hm_ok_def])
  then show "length (live_pairs g) = card (live_set g)"
    using \<open>map_of (live_pairs g) = graph_contents g\<close> live_ok_card [OF assms] assms
    by (simp add: graph_contents_dom live_ok_def)
qed

lemma compact_spec:
  assumes ok: "hnsw_ok self" and emb: "\<forall>nd \<in> set (gr_nodes (hi_graph self)). embedding_ok (nd_embedding nd)"
  shows "\<exists>self'. compact ln_f self = (Inr (), self') \<and> hnsw_ok self' \<and>
    hnsw_contents self' = hnsw_contents self \<and> hi_config self' = hi_config self \<and>
    hi_dimension self' = hi_dimension self \<and>
    node_count (hi_graph self') = gr_live_count (hi_graph self)"
proof -
  let ?g = "hi_graph self"
  have live: "live_ok ?g" using ok by (simp add: hnsw_ok_def graph_ok_def)
  note lp = live_pairs_contents [OF live]
  define s0 where "s0 = self\<lparr>hi_rng := SplitMix64_new (cfg_seed (hi_config self)),
      hi_graph := HnswGraph_with_capacity (length (live_pairs ?g))\<rparr>"
  have s0: "s0 = HnswIndex_new (hi_config self) (hi_dimension self)" "hnsw_contents s0 = Map.empty"
    using ok hnsw_new_ok(2) [of "hi_config self" "hi_dimension self"]
    by (cases self; simp add: s0_def HnswIndex_new_def HnswGraph_with_capacity_def hnsw_ok_def)+
  have d0: "hi_dimension s0 = hi_dimension self" "hi_config s0 = hi_config self" by (simp_all add: s0_def)
  have dims: "\<forall>(i, e) \<in> set (live_pairs ?g). Embedding_dimension e = hi_dimension s0 \<and> hnsw_contents s0 i = None"
    using ok unfolding hnsw_ok_def graph_ok_def node_ok_def
    by (auto simp: live_pairs_def s0(2) d0)
  have "hnsw_ok s0" using ok unfolding s0(1) by (intro hnsw_new_ok) (simp add: hnsw_ok_def)
  from bulk_insert_fresh [OF this dims lp(1), of ln_f] obtain s' where
    s': "bulk_insert ln_f (live_pairs ?g) s0 = (Inr (), s')" "hnsw_ok s'"
      "hnsw_contents s' = hnsw_contents s0 ++ map_of (live_pairs ?g)" "hi_dimension s' = hi_dimension s0"
      "hi_config s' = hi_config s0" "node_count (hi_graph s') = node_count (hi_graph s0) + length (live_pairs ?g)"
    by blast
  have "compact ln_f self = (Inr (), s')"
    using s'(1) by (simp add: compact_def live_nodes_pairs [OF emb] s0_def)
  moreover have "node_count (hi_graph s0) = 0" by (simp add: s0_def HnswGraph_with_capacity_def HnswGraph_new_def node_count_def)
  ultimately show ?thesis
    using s' lp(2,3) live d0 by (simp add: s0(2) hnsw_contents_def [of self] live_ok_def)
qed

section \<open>Reload of a snapshot\<close>

text \<open>The graph restored from the first \<open>j\<close> nodes.\<close>

definition prefix_live :: "HnswGraph \<Rightarrow> nat \<Rightarrow> VectorId \<rightharpoonup> NodeIdx" where
  "prefix_live g j i = (case gr_live g i of None \<Rightarrow> None | Some x \<Rightarrow> if x < j then Some x else None)"

definition graph_prefix :: "HnswGraph \<Rightarrow> nat \<Rightarrow> HnswGraph" where
  "graph_prefix g j =
     \<lparr>gr_nodes = take j (gr_nodes g), gr_live = prefix_live g j, gr_entry_point = None,
      gr_live_count = card (live_set g \<inter> {..<j})\<rparr>"

lemma restore_layers_all:
  assumes "idx < length (gr_nodes g)" "\<forall>ns \<in> set rest. \<forall>x \<in> set ns. x \<le> usize_max"
    "l + length rest = length (nd_neighbors (gr_nodes g ! idx))"
  shows "restore_layers idx l rest g = Inr (g\<lparr>gr_nodes := (gr_nodes g)[idx := (gr_nodes g ! idx)
      \<lparr>nd_neighbors := take l (nd_neighbors (gr_nodes g ! idx)) @ rest\<rparr>]\<rparr>)"
  using assms
proof (induction rest arbitrary: l g)
  case Nil
  then show ?case by simp
next
  case (Cons ns rest)
  let ?n = "gr_nodes g ! idx"
  define g1 where "g1 = set_neighbors idx l ns g"
  have g1: "g1 = g\<lparr>gr_nodes := (gr_nodes g)[idx := ?n\<lparr>nd_neighbors := (nd_neighbors ?n)[l := ns]\<rparr>]\<rparr>"
    using Cons.prems(1,3) by (simp add: g1_def set_neighbors_def get_node_def)
  have tr: "traverse (usize_try_from ''neighbor index overflow'') ns = Inr ns"
    using Cons.prems(2) by (subst traverse_all_Inr [where g = "\<lambda>x. x"]) (simp_all add: usize_try_from_def)
  have "restore_layers idx (l + 1) rest g1 = Inr (g1\<lparr>gr_nodes := (gr_nodes g1)[idx := (gr_nodes g1 ! idx)
      \<lparr>nd_neighbors := take (l + 1) (nd_neighbors (gr_nodes g1 ! idx)) @ rest\<rparr>]\<rparr>)"
    using Cons.prems by (intro Cons.IH) (simp_all add: g1)
  moreover have "take (l + 1) ((nd_neighbors ?n)[l := ns]) = take l (nd_neighbors ?n) @ [ns]"
    using Cons.prems(3) by (simp add: take_Suc_conv_app_nth)
  ultimately show ?case using Cons.prems(1) by (simp add: tr g1_def [symmetric]) (simp add: g1)
qed

lemma restore_node_prefix:
  assumes ok: "hnsw_ok self" and j: "j < node_count (hi_graph self)"
    and emb: "\<forall>nd \<in> set (gr_nodes (hi_graph self)). embedding_ok (nd_embedding nd)"
    and size: "node_count (hi_graph self) \<le> usize_max"
    and snap: "node_snapshot self j = Some sn"
  shows "restore_node (node_embedding (hi_graph self)) j sn (graph_prefix (hi_graph self) j)
    = Inr (graph_prefix (hi_graph self) (Suc j))"
proof -
  let ?g = "hi_graph self"
  define n where "n = gr_nodes ?g ! j"
  have gok: "graph_ok (hi_dimension self) (degree_limit (hi_config self)) MAX_LEVEL ?g"
    and live: "live_ok ?g" and latest: "latest_ok ?g"
    using ok by (simp_all add: hnsw_ok_def graph_ok_def)
  have jl: "j < length (gr_nodes ?g)" and lenj: "length (take j (gr_nodes ?g)) = j"
    using j by (simp_all add: node_count_def)
  have nin: "n \<in> set (gr_nodes ?g)" using jl by (simp add: n_def)
  have nok: "node_ok (hi_dimension self) (degree_limit (hi_config self)) MAX_LEVEL (node_count ?g) n"
    using graph_ok_nodeD [OF gok j] by (simp add: n_def)
  have sn: "sn = \<lparr>sn_id_bytes = VectorId_as_uuid (nd_id n), sn_level = nd_level n, sn_tombstone = nd_tombstone n,
      sn_neighbors_per_layer = nd_neighbors n\<rparr>"
  proof -
    have "nd_level n \<le> u32_max" using nok by (simp add: node_ok_def MAX_LEVEL_def u32_max_def)
    moreover have "map (\<lambda>layer. neighbors ?g j layer) [0 ..< Suc (nd_level n)] = nd_neighbors n"
      using nok j by (intro nth_equalityI) (auto simp: neighbors_def graph_simps node_ok_def n_def simp del: upt_Suc)
    ultimately show ?thesis
      using snap j by (auto simp: node_snapshot_def graph_simps u32_of_level_def Let_def n_def simp del: upt_Suc)
  qed
  have enew: "Embedding_new (as_slice (nd_embedding n)) = Inr (nd_embedding n)"
    using emb nin by (cases "nd_embedding n") (auto simp: Embedding_new_Inr)
  have lev: "usize_try_from msg (nd_level n) = Inr (nd_level n)" for msg
    using nok by (simp add: usize_try_from_def node_ok_def MAX_LEVEL_def usize_max_def)
  have fresh: "prefix_live ?g j (nd_id n) = None"
  proof -
    have "x \<in> live_set ?g \<and> nd_id (gr_nodes ?g ! x) = nd_id n" if "gr_live ?g (nd_id n) = Some x" for x
      using that live by (simp add: live_ok_def)
    then have "\<not> x < j" if "gr_live ?g (nd_id n) = Some x" for x
      using that latest j unfolding latest_ok_def n_def by metis
    then show ?thesis by (auto simp: prefix_live_def split: option.splits)
  qed
  have hint: "dimension_hint (graph_prefix ?g j) = (if j = 0 then None else Some (hi_dimension self))"
    using gok j by (cases "gr_nodes ?g"; cases j)
      (auto simp: dimension_hint_def graph_prefix_def graph_ok_def node_ok_def node_count_def)
  have vid: "VectorId_from_uuid (VectorId_as_uuid i) = i" for i
    by (cases i) (simp add: VectorId_from_uuid_def VectorId_as_uuid_def)
  have dim: "Embedding_dimension (nd_embedding n) = hi_dimension self" using nok by (simp add: node_ok_def)
  define n0 where "n0 = n\<lparr>nd_neighbors := replicate (nd_level n + 1) [], nd_tombstone := False\<rparr>"
  define g1 where "g1 = (graph_prefix ?g j)\<lparr>gr_nodes := take j (gr_nodes ?g) @ [n0],
      gr_live := (prefix_live ?g j)(nd_id n \<mapsto> j), gr_live_count := card (live_set ?g \<inter> {..<j}) + 1\<rparr>"
  have add: "add_node (nd_id n) (nd_embedding n) (nd_level n) (graph_prefix ?g j) = (Inr j, g1)"
    using fresh hint dim lenj
    by (cases n) (simp add: add_node_def Let_def g1_def n0_def graph_prefix_def)
  define g2 where "g2 = (if nd_tombstone n then snd (tombstone j g1) else g1)"
  have g2: "g2 = (graph_prefix ?g j)\<lparr>gr_nodes := take j (gr_nodes ?g) @ [n\<lparr>nd_neighbors := replicate (nd_level n + 1) []\<rparr>],
      gr_live := prefix_live ?g (Suc j), gr_live_count := card (live_set ?g \<inter> {..<Suc j})\<rparr>"
  proof (cases "nd_tombstone n")
    case True
    then have nl: "j \<notin> live_set ?g" by (simp add: live_set_def n_def)
    then have c: "live_set ?g \<inter> {..<Suc j} = live_set ?g \<inter> {..<j}" by (auto simp: less_Suc_eq)
    have "gr_live ?g i \<noteq> Some j" for i using nl live by (simp add: live_ok_def)
    then have p: "prefix_live ?g (Suc j) = prefix_live ?g j"
      by (auto simp: prefix_live_def less_Suc_eq fun_eq_iff split: option.splits)
    have nth: "(take j (gr_nodes ?g) @ [n0]) ! j = n0" using lenj by (simp add: nth_append)
    have upd: "(take j (gr_nodes ?g) @ [n0])[j := n0\<lparr>nd_tombstone := True\<rparr>] = take j (gr_nodes ?g) @ [n0\<lparr>nd_tombstone := True\<rparr>]"
      using lenj by (simp add: list_update_append)
    have "snd (tombstone j g1) = g1\<lparr>gr_nodes := take j (gr_nodes ?g) @ [n0\<lparr>nd_tombstone := True\<rparr>],
        gr_live := (gr_live g1)(nd_id n := None), gr_live_count := gr_live_count g1 - 1\<rparr>"
      using lenj nth upd by (simp add: tombstone_def get_node_def g1_def n0_def)
    moreover have "n0\<lparr>nd_tombstone := True\<rparr> = n\<lparr>nd_neighbors := replicate (nd_level n + 1) []\<rparr>"
      using True by (cases n) (simp add: n0_def)
    ultimately show ?thesis using True fresh by (simp add: g2_def g1_def c p fun_upd_idem)
  next
    case False
    then have nl: "j \<in> live_set ?g" using j by (simp add: live_set_def n_def)
    then have c: "live_set ?g \<inter> {..<Suc j} = insert j (live_set ?g \<inter> {..<j})" by (auto simp: less_Suc_eq)
    have get: "gr_live ?g (nd_id n) = Some j" using live_ok_get [OF live nl] by (simp add: n_def)
    have p: "prefix_live ?g (Suc j) = (prefix_live ?g j)(nd_id n \<mapsto> j)"
    proof
      fix i
      have "gr_live ?g i = Some j \<longrightarrow> i = nd_id n" using live by (simp add: live_ok_def n_def)
      then have "i \<noteq> nd_id n \<Longrightarrow> gr_live ?g i \<noteq> Some j" by blast
      then have "i \<noteq> nd_id n \<Longrightarrow> prefix_live ?g (Suc j) i = prefix_live ?g j i"
        by (cases "gr_live ?g i") (simp_all add: prefix_live_def less_Suc_eq)
      then show "prefix_live ?g (Suc j) i = ((prefix_live ?g j)(nd_id n \<mapsto> j)) i"
        by (cases "i = nd_id n") (simp_all add: prefix_live_def get)
    qed
    have "n0 = n\<lparr>nd_neighbors := replicate (nd_level n + 1) []\<rparr>" using False by (cases n) (simp add: n0_def)
    then show ?thesis using False by (simp add: g2_def g1_def c p)
  qed
  have nb: "\<forall>ns \<in> set (nd_neighbors n). \<forall>x \<in> set ns. x \<le> usize_max"
  proof (intro ballI)
    fix ns x assume "ns \<in> set (nd_neighbors n)" "x \<in> set ns"
    then obtain l where "l < length (nd_neighbors n)" "x \<in> set (nd_neighbors n ! l)"
      by (metis in_set_conv_nth)
    from node_okD(2) [OF nok this] size show "x \<le> usize_max" by simp
  qed
  have "restore_layers j 0 (nd_neighbors n) g2 = Inr (graph_prefix ?g (Suc j))"
    using restore_layers_all [of j g2 "nd_neighbors n" 0] nb nok lenj jl
    by (simp add: g2 nth_append list_update_append node_ok_def graph_prefix_def take_Suc_conv_app_nth n_def)
  then show ?thesis
    using j enew lev add unfolding restore_node_def sn
    by (simp add: node_embedding_in n_def [symmetric] vid g2_def [symmetric])
qed

lemma restore_nodes_prefix:
  assumes ok: "hnsw_ok self"
    and emb: "\<forall>nd \<in> set (gr_nodes (hi_graph self)). embedding_ok (nd_embedding nd)"
    and size: "node_count (hi_graph self) \<le> usize_max"
    and "j \<le> node_count (hi_graph self)"
  shows "restore_nodes (node_embedding (hi_graph self)) j
      (List.map_filter (node_snapshot self) [j ..< node_count (hi_graph self)]) (graph_prefix (hi_graph self) j)
    = Inr (graph_prefix (hi_graph self) (node_count (hi_graph self)))"
  using assms(4)
proof (induction "node_count (hi_graph self) - j" arbitrary: j)
  case 0
  then show ?case by simp
next
  case (Suc d)
  then have j: "j < node_count (hi_graph self)" by simp
  then obtain sn where sn: "node_snapshot self j = Some sn" by (simp add: node_snapshot_def Let_def)
  have "List.map_filter (node_snapshot self) [j ..< node_count (hi_graph self)]
      = sn # List.map_filter (node_snapshot self) [Suc j ..< node_count (hi_graph self)]"
    using j sn by (simp add: upt_conv_Cons map_filter_simps)
  with Suc.hyps(1) [of "Suc j"] Suc.hyps(2) j restore_node_prefix [OF ok j emb size sn]
  show ?case by simp
qed

lemma graph_prefix_0: "graph_prefix g 0 = HnswGraph_new"
  by (auto simp: graph_prefix_def HnswGraph_new_def prefix_live_def fun_eq_iff split: option.splits)

lemma graph_prefix_full:
  assumes "live_ok g"
  shows "set_entry_point (gr_entry_point g) (graph_prefix g (node_count g)) = g"
proof -
  have "gr_live g i = Some x \<Longrightarrow> x < node_count g" for i x
    using assms by (simp add: live_ok_def live_set_lt)
  then have "prefix_live g (node_count g) = gr_live g"
    by (auto simp: prefix_live_def fun_eq_iff split: option.splits)
  moreover have "live_set g \<inter> {..<node_count g} = live_set g" by (auto dest: live_set_lt)
  ultimately show ?thesis
    using assms by (cases g) (simp add: graph_prefix_def set_entry_point_def node_count_def live_ok_def)
qed

lemma from_snapshot_snapshot:
  assumes ok: "hnsw_ok self"
    and emb: "\<forall>nd \<in> set (gr_nodes (hi_graph self)). embedding_ok (nd_embedding nd)"
    and size: "node_count (hi_graph self) \<le> usize_max"
  shows "from_snapshot (hi_config self) (hi_dimension self) (snapshot self) (node_embedding (hi_graph self)) = Inr self"
proof -
  let ?g = "hi_graph self"
  have live: "live_ok ?g" using ok by (simp add: hnsw_ok_def graph_ok_def)
  have "gr_entry_point ?g = Some e \<Longrightarrow> e \<le> usize_max" for e
    using ok size by (auto simp: hnsw_ok_def entry_ok_def dest: live_set_lt)
  then have ep: "transpose_opt (usize_try_from ''entry_point overflow'') (gr_entry_point ?g) = Inr (gr_entry_point ?g)"
    by (cases "gr_entry_point ?g") (simp_all add: usize_try_from_def)
  have "hi_supported self = [cfg_metric (hi_config self)]" using ok by (simp add: hnsw_ok_def)
  with restore_nodes_prefix [OF ok emb size, of 0] ep graph_prefix_full [OF live] show ?thesis
    by (cases self; cases "hi_rng self")
      (simp add: from_snapshot_def snapshot_def state_meta_def Let_def graph_prefix_0
        HnswGraph_with_capacity_def SplitMix64_from_state_def)
qed

end
