(* ===== verification/Flat.thy ===== *)
theory Flat
  imports Vector_Index
begin

text \<open>
  \<open>FlatIndex\<close> of \<open>eidosdb-core/src/flat.rs\<close>, the exact index: its state is the vector of
  points in insertion order. It satisfies the whole contract of the port, so every
  search is the true top \<open>k\<close> of what is stored.
\<close>

record FlatIndex =
  flat_metric :: Metric
  flat_dimension :: Dimension
  flat_points :: "(VectorId \<times> Embedding) list"

definition FlatIndex_new :: "Metric \<Rightarrow> Dimension \<Rightarrow> FlatIndex" where
  "FlatIndex_new m d = \<lparr>flat_metric = m, flat_dimension = d, flat_points = []\<rparr>"

definition FlatIndex_insert ::
  "VectorId \<Rightarrow> Embedding \<Rightarrow> FlatIndex \<Rightarrow> (IndexError + unit) \<times> FlatIndex" where
  "FlatIndex_insert i e self =
     (if Embedding_dimension e \<noteq> flat_dimension self
      then (Inl (DimensionMismatch (Dimension_get (flat_dimension self))
                   (Dimension_get (Embedding_dimension e))), self)
      else if list_ex (\<lambda>(existing, _). existing = i) (flat_points self)
      then (Inl (DuplicateId i), self)
      else (Inr (), self\<lparr>flat_points := flat_points self @ [(i, e)]\<rparr>))"

text \<open>\<open>Iterator::position\<close> and \<open>Vec::remove\<close>.\<close>

fun position :: "('a \<Rightarrow> bool) \<Rightarrow> 'a list \<Rightarrow> nat option" where
  "position P [] = None"
| "position P (x # xs) = (if P x then Some 0 else map_option Suc (position P xs))"

definition remove_at :: "nat \<Rightarrow> 'a list \<Rightarrow> 'a list" where
  "remove_at n xs = take n xs @ drop (Suc n) xs"

definition FlatIndex_remove :: "VectorId \<Rightarrow> FlatIndex \<Rightarrow> (IndexError + bool) \<times> FlatIndex" where
  "FlatIndex_remove i self =
     (case position (\<lambda>(existing, _). existing = i) (flat_points self) of
        Some n \<Rightarrow> (Inr True, self\<lparr>flat_points := remove_at n (flat_points self)\<rparr>)
      | None \<Rightarrow> (Inr False, self))"

definition FlatIndex_search_filtered ::
  "Embedding \<Rightarrow> nat \<Rightarrow> Metric \<Rightarrow> (VectorId \<Rightarrow> bool) \<Rightarrow> FlatIndex \<Rightarrow> IndexError + Neighbor list" where
  "FlatIndex_search_filtered query k m is_admissible self =
     (if Embedding_dimension query \<noteq> flat_dimension self
      then Inl (DimensionMismatch (Dimension_get (flat_dimension self))
                  (Dimension_get (Embedding_dimension query)))
      else Inr (take k (sort_by neighbor_cmp
             (map (\<lambda>(i, e). \<lparr>neighbor_id = i,
                              neighbor_score = Metric_score m (as_slice query) (as_slice e)\<rparr>)
               (filter (\<lambda>(i, _). is_admissible i) (flat_points self))))))"

definition FlatIndex_index :: "FlatIndex VectorIndex" where
  "FlatIndex_index =
     \<lparr>vi_metric = flat_metric,
      vi_supported_metrics = (\<lambda>_. [Cosine, DotProduct, Euclidean]),
      vi_dimension = flat_dimension,
      vi_len = (\<lambda>self. length (flat_points self)),
      vi_insert = FlatIndex_insert,
      vi_remove = FlatIndex_remove,
      vi_search_filtered = FlatIndex_search_filtered\<rparr>"

definition flat_ok :: "FlatIndex \<Rightarrow> bool" where
  "flat_ok self \<longleftrightarrow> distinct (map fst (flat_points self))"

definition flat_contents :: "FlatIndex \<Rightarrow> VectorId \<rightharpoonup> Embedding" where
  "flat_contents self = map_of (flat_points self)"

lemma remove_position:
  "distinct (map fst xs) \<Longrightarrow> position (\<lambda>(y, _). y = i) xs = Some n \<Longrightarrow>
   map_of (remove_at n xs) = (map_of xs)(i := None) \<and> distinct (map fst (remove_at n xs)) \<and>
   i \<in> fst ` set xs \<and> set (remove_at n xs) \<subseteq> set xs"
proof (induction xs arbitrary: n)
  case (Cons x xs)
  show ?case
  proof (cases "fst x = i")
    case True
    then have "n = 0" "map_of xs i = None" using Cons.prems by (auto simp: map_of_eq_None_iff split_beta)
    with True Cons.prems show ?thesis by (cases x) (auto simp: remove_at_def)
  next
    case False
    with Cons.prems(2) obtain k where k: "n = Suc k" "position (\<lambda>(y, _). y = i) xs = Some k"
      by (cases x) auto
    have "remove_at (Suc k) (x # xs) = x # remove_at k xs" by (simp add: remove_at_def)
    then show ?thesis using Cons.IH [OF _ k(2)] Cons.prems False k(1) by (cases x) auto
  qed
qed simp

lemma list_ex_key: "list_ex (\<lambda>(y, _). y = i) xs \<longleftrightarrow> i \<in> fst ` set xs"
  by (force simp: list_ex_iff)

lemma map_of_snoc: "x \<notin> fst ` set xs \<Longrightarrow> map_of (xs @ [(x, e)]) = (map_of xs)(x \<mapsto> e)"
  by (induction xs) auto

lemma position_None: "position (\<lambda>(y, _). y = i) xs = None \<longleftrightarrow> i \<notin> fst ` set xs"
  by (induction xs) auto

lemma flat_candidates:
  "flat_ok self \<Longrightarrow>
   set (map (\<lambda>(i, e). score_of m q i e) (filter (\<lambda>(i, _). adm i) (flat_points self)))
     = candidates m q adm (flat_contents self)"
  by (force simp: flat_ok_def flat_contents_def candidates_def)

lemma flat_scored_distinct:
  "flat_ok self \<Longrightarrow>
   distinct (map neighbor_id (map (\<lambda>(i, e). score_of m q i e) (filter (\<lambda>(i, _). adm i) (flat_points self))))"
  by (simp add: flat_ok_def comp_def split_beta distinct_map_filter)

lemma flat_search_top_k:
  assumes "flat_ok self" "FlatIndex_search_filtered q k m adm self = Inr ns"
  shows "is_top_k k (candidates m q adm (flat_contents self)) ns"
    "Embedding_dimension q = flat_dimension self"
proof -
  from assms(2) have ns: "ns = take k (sort_by neighbor_cmp
      (map (\<lambda>(i, e). score_of m q i e) (filter (\<lambda>(i, _). adm i) (flat_points self))))"
    by (auto simp: FlatIndex_search_filtered_def score_of_def split: if_splits)
  show "is_top_k k (candidates m q adm (flat_contents self)) ns"
    unfolding ns using assms(1)
    using flat_scored_distinct [of self m q adm]
    by (intro neighbor_order.top_k_sorted flat_candidates) (simp_all add: distinct_map del: map_map)
  show "Embedding_dimension q = flat_dimension self"
    using assms(2) by (auto simp: FlatIndex_search_filtered_def split: if_splits)
qed

lemma top_k_ids:
  "is_top_k k (candidates m q adm st) ns \<Longrightarrow> distinct (map neighbor_id ns)"
  by (auto simp: top_k_def distinct_map intro: inj_on_subset [OF candidates_id_inj])

interpretation flat: total_index FlatIndex_index flat_ok flat_contents
proof
  fix i i' :: FlatIndex and x e r rr u err b
  show "flat_ok i \<Longrightarrow> finite (dom (flat_contents i))"
    by (simp add: flat_contents_def finite_dom_map_of)
  show "flat_ok i \<Longrightarrow> vi_len FlatIndex_index i = card (dom (flat_contents i))"
    by (simp add: FlatIndex_index_def flat_ok_def flat_contents_def hm_length [unfolded hm_ok_def])
  show "flat_ok i \<Longrightarrow> vi_insert FlatIndex_index x e i = (r, i') \<Longrightarrow>
      flat_ok i' \<and> vi_dimension FlatIndex_index i' = vi_dimension FlatIndex_index i \<and>
      vi_metric FlatIndex_index i' = vi_metric FlatIndex_index i"
    by (auto simp: FlatIndex_index_def FlatIndex_insert_def list_ex_key flat_ok_def split: if_splits)
  show "flat_ok i \<Longrightarrow> vi_insert FlatIndex_index x e i = (Inr u, i') \<Longrightarrow>
      flat_contents i x = None \<and> Embedding_dimension e = vi_dimension FlatIndex_index i \<and>
      flat_contents i' = (flat_contents i)(x \<mapsto> e)"
    by (auto simp: FlatIndex_index_def FlatIndex_insert_def list_ex_key flat_contents_def
        map_of_snoc map_of_eq_None_iff simp del: map_of_append split: if_splits)
  show "flat_ok i \<Longrightarrow> vi_insert FlatIndex_index x e i = (Inl err, i') \<Longrightarrow>
      flat_contents i' = flat_contents i"
    by (auto simp: FlatIndex_index_def FlatIndex_insert_def list_ex_key split: if_splits)
  show "flat_ok i \<Longrightarrow> vi_remove FlatIndex_index x i = (rr, i') \<Longrightarrow>
      flat_ok i' \<and> vi_dimension FlatIndex_index i' = vi_dimension FlatIndex_index i \<and>
      vi_metric FlatIndex_index i' = vi_metric FlatIndex_index i"
    by (auto simp: FlatIndex_index_def FlatIndex_remove_def flat_ok_def dest: remove_position
        split: option.splits)
  show "flat_ok i \<Longrightarrow> vi_remove FlatIndex_index x i = (Inr b, i') \<Longrightarrow>
      b = (flat_contents i x \<noteq> None) \<and> flat_contents i' = (flat_contents i)(x := None)"
    by (auto simp: FlatIndex_index_def FlatIndex_remove_def flat_ok_def flat_contents_def
        position_None map_of_eq_None_iff dest: remove_position split: option.splits intro!: ext)
  show "flat_ok i \<Longrightarrow> vi_remove FlatIndex_index x i = (Inl err, i') \<Longrightarrow>
      flat_contents i' = flat_contents i"
    by (auto simp: FlatIndex_index_def FlatIndex_remove_def split: option.splits)
  show "flat_ok i \<Longrightarrow> fst (vi_remove FlatIndex_index x i) = Inr (flat_contents i x \<noteq> None)"
    by (auto simp: FlatIndex_index_def FlatIndex_remove_def flat_ok_def flat_contents_def
        position_None map_of_eq_None_iff dest: remove_position split: option.splits)
  show "flat_ok i \<Longrightarrow> fst (vi_insert FlatIndex_index x e i) =
      (if Embedding_dimension e \<noteq> vi_dimension FlatIndex_index i
       then Inl (DimensionMismatch (Dimension_get (vi_dimension FlatIndex_index i)) (Dimension_get (Embedding_dimension e)))
       else if flat_contents i x \<noteq> None then Inl (DuplicateId x) else Inr ())"
    by (force simp: FlatIndex_index_def FlatIndex_insert_def list_ex_key flat_contents_def map_of_eq_None_iff)
next
  fix i :: FlatIndex and q :: Embedding and k m adm
  have "m \<in> set [Cosine, DotProduct, Euclidean]" for m by (cases m) simp_all
  then show "flat_ok i \<Longrightarrow> vi_metric FlatIndex_index i \<in> set (vi_supported_metrics FlatIndex_index i)"
    by (simp add: FlatIndex_index_def)
  show "flat_ok i \<Longrightarrow> m \<in> set (vi_supported_metrics FlatIndex_index i) \<Longrightarrow>
      Embedding_dimension q = vi_dimension FlatIndex_index i \<Longrightarrow>
      \<exists>ns. vi_search_filtered FlatIndex_index q k m adm i = Inr ns"
    by (simp add: FlatIndex_index_def FlatIndex_search_filtered_def)
  show "flat_ok i \<Longrightarrow> m \<in> set (vi_supported_metrics FlatIndex_index i) \<Longrightarrow>
      Embedding_dimension q \<noteq> vi_dimension FlatIndex_index i \<Longrightarrow> vi_search_filtered FlatIndex_index q k m adm i =
      Inl (DimensionMismatch (Dimension_get (vi_dimension FlatIndex_index i)) (Dimension_get (Embedding_dimension q)))"
    by (simp add: FlatIndex_index_def FlatIndex_search_filtered_def)
next
  fix i :: FlatIndex and q k m adm ns
  assume ok: "flat_ok i" and s: "vi_search_filtered FlatIndex_index q k m adm i = Inr ns"
  then have s': "FlatIndex_search_filtered q k m adm i = Inr ns" by (simp add: FlatIndex_index_def)
  note top = flat_search_top_k [OF ok s']
  have "m \<in> set [Cosine, DotProduct, Euclidean]" by (cases m) simp_all
  with top top_k_ids [OF top(1)]
  show "Embedding_dimension q = vi_dimension FlatIndex_index i \<and>
      m \<in> set (vi_supported_metrics FlatIndex_index i) \<and>
      sorted (map neighbor_key ns) \<and> distinct (map neighbor_id ns) \<and> length ns \<le> k \<and>
      set ns \<subseteq> candidates m q adm (flat_contents i)"
    by (simp add: FlatIndex_index_def top_k_def)
qed

interpretation flat_exact: exact_index FlatIndex_index flat_ok flat_contents
  by unfold_locales (auto simp: FlatIndex_index_def intro: flat_search_top_k)

lemma flat_new_ok [simp]:
  "flat_ok (FlatIndex_new m d)" "flat_contents (FlatIndex_new m d) = Map.empty"
  by (simp_all add: FlatIndex_new_def flat_ok_def flat_contents_def)

section \<open>Properties\<close>

definition flat_run :: "Metric \<Rightarrow> Dimension \<Rightarrow> index_op list \<Rightarrow> FlatIndex" where
  "flat_run m d ops = run_ops FlatIndex_index ops (FlatIndex_new m d)"

lemma flat_run_ok: "flat_ok (flat_run m d ops)" "flat_dimension (flat_run m d ops) = d"
  "flat_contents (flat_run m d ops) = spec_run d ops"
  using flat.run_ops_ok [OF flat_new_ok(1) [of m d], of ops]
    flat.contents_run_ops [OF flat_new_ok [of m d], of ops]
  by (simp_all add: flat_run_def FlatIndex_index_def) (simp_all add: FlatIndex_new_def)

text \<open>
  C25. Flat search is exact. After any sequence of operations, a query of the right dimension returns the top \<open>k\<close> of
  the admissible stored vectors, whatever the metric; any other query is refused with the two dimensions.
\<close>

theorem flat_search_exact:
  "case FlatIndex_search_filtered q k m adm (flat_run m0 d ops) of
     Inl err \<Rightarrow> Embedding_dimension q \<noteq> d \<and>
       err = DimensionMismatch (Dimension_get d) (Dimension_get (Embedding_dimension q))
   | Inr ns \<Rightarrow> Embedding_dimension q = d \<and> is_top_k k (candidates m q adm (spec_run d ops)) ns"
proof (cases "FlatIndex_search_filtered q k m adm (flat_run m0 d ops)")
  case (Inl err)
  then show ?thesis
    using flat_run_ok(2) [of m0 d ops] by (auto simp: FlatIndex_search_filtered_def split: if_splits)
next
  case (Inr ns)
  then show ?thesis
    using flat_search_top_k [OF flat_run_ok(1) Inr] flat_run_ok(2,3) [of m0 d ops] by simp
qed

text \<open>
  The result does not depend on history. Two flat indexes that store the same vectors, whatever the order
  of insertions and removals that led there, answer every query identically, ties included.
\<close>

lemma flat_search_history_independent:
  assumes "spec_run d ops = spec_run d ops'"
  shows "FlatIndex_search_filtered q k m adm (flat_run m0 d ops) =
    FlatIndex_search_filtered q k m adm (flat_run m1 d ops')"
proof (cases "Embedding_dimension q = d")
  case True
  then obtain ns ms where
    "FlatIndex_search_filtered q k m adm (flat_run m0 d ops) = Inr ns"
    "FlatIndex_search_filtered q k m adm (flat_run m1 d ops') = Inr ms"
    using flat_run_ok(2) by (auto simp: FlatIndex_search_filtered_def)
  moreover from this have "ns = ms"
    by (intro flat_exact.search_contents_cong [OF flat_run_ok(1) flat_run_ok(1)])
      (simp_all add: FlatIndex_index_def flat_run_ok(3) assms)
  ultimately show ?thesis by simp
next
  case False
  then show ?thesis using flat_run_ok(2) by (simp add: FlatIndex_search_filtered_def)
qed

lemma flat_search_history_independent_witness:
  "FlatIndex_search_filtered (Embedding [0]) 2 DotProduct (\<lambda>_. True)
      (flat_run Cosine (Dimension 1) [Op_insert (VectorId 1) (Embedding [0]), Op_insert (VectorId 2) (Embedding [1])]) =
   FlatIndex_search_filtered (Embedding [0]) 2 DotProduct (\<lambda>_. True)
      (flat_run Cosine (Dimension 1) [Op_insert (VectorId 2) (Embedding [1]), Op_insert (VectorId 1) (Embedding [0])])"
  by (rule flat_search_history_independent)
    (simp add: spec_run_def Embedding_dimension_def Dimension_new_def u32_max_def fun_upd_twist)

text \<open>
  Insertion and removal report exactly: a wrong dimension or a stored id is refused with the matching error and
  no change, anything else is stored; removal returns whether the id was stored and deletes it.
\<close>

lemma flat_operations_exact:
  "FlatIndex_insert x e (flat_run m0 d ops) =
     (if Embedding_dimension e \<noteq> d
      then (Inl (DimensionMismatch (Dimension_get d) (Dimension_get (Embedding_dimension e))), flat_run m0 d ops)
      else if spec_run d ops x \<noteq> None then (Inl (DuplicateId x), flat_run m0 d ops)
      else (Inr (), flat_run m0 d (ops @ [Op_insert x e]))) \<and>
   FlatIndex_remove x (flat_run m0 d ops) =
     (Inr (spec_run d ops x \<noteq> None), flat_run m0 d (ops @ [Op_remove x]))"
proof -
  let ?s = "flat_run m0 d ops"
  have ins: "fst (FlatIndex_insert x e ?s) =
      (if Embedding_dimension e \<noteq> d
       then Inl (DimensionMismatch (Dimension_get d) (Dimension_get (Embedding_dimension e)))
       else if spec_run d ops x \<noteq> None then Inl (DuplicateId x) else Inr ())"
    using flat.insert_total [OF flat_run_ok(1), of x e m0 d ops] flat_run_ok(2,3) [of m0 d ops]
    by (simp add: FlatIndex_index_def)
  have err: "fst (FlatIndex_insert x e ?s) = Inl er \<Longrightarrow> snd (FlatIndex_insert x e ?s) = ?s" for er
    by (auto simp: FlatIndex_insert_def split: if_splits)
  have snoc: "flat_run m0 d (ops @ [a]) = apply_op FlatIndex_index a ?s" for a
    by (simp add: flat_run_def run_ops_def)
  have "FlatIndex_remove x ?s = (Inr (spec_run d ops x \<noteq> None), flat_run m0 d (ops @ [Op_remove x]))"
    using flat.remove_total [OF flat_run_ok(1), of x m0 d ops] flat_run_ok(3) [of m0 d ops]
    by (intro prod_eqI) (simp_all add: FlatIndex_index_def snoc)
  moreover have "FlatIndex_insert x e ?s =
     (if Embedding_dimension e \<noteq> d
      then (Inl (DimensionMismatch (Dimension_get d) (Dimension_get (Embedding_dimension e))), ?s)
      else if spec_run d ops x \<noteq> None then (Inl (DuplicateId x), ?s)
      else (Inr (), flat_run m0 d (ops @ [Op_insert x e])))"
    using ins err by (intro prod_eqI) (auto simp: snoc FlatIndex_index_def)
  ultimately show ?thesis by blast
qed

end
