(* ===== verification/Hnsw.thy ===== *)
theory Hnsw
  imports Hnsw_Reload Flat
begin

text \<open>
  What the HNSW index guarantees after any sequence of insertions and removals, for every
  logarithm \<open>ln_f\<close> and so for every sequence of sampled levels: the properties of the component,
  each a few steps over the locale facts and the invariant.
\<close>

definition hnsw_run :: "(f64 \<Rightarrow> f64) \<Rightarrow> HnswConfig \<Rightarrow> Dimension \<Rightarrow> index_op list \<Rightarrow> HnswIndex" where
  "hnsw_run ln_f c d ops = run_ops (HnswIndex_index ln_f) ops (HnswIndex_new c d)"

fun op_ok :: "index_op \<Rightarrow> bool" where
  "op_ok (Op_insert x e) = embedding_ok e"
| "op_ok (Op_remove x) = True"

lemma hnsw_run_ok:
  assumes "config_ok c"
  shows "hnsw_ok (hnsw_run ln_f c d ops)" "hi_dimension (hnsw_run ln_f c d ops) = d"
    "cfg_metric (hi_config (hnsw_run ln_f c d ops)) = cfg_metric c"
  using hnsw.run_ops_ok [OF hnsw_new_ok(1) [OF assms, of d], of ln_f ops]
  by (simp_all add: hnsw_run_def HnswIndex_index_def) (simp_all add: HnswIndex_new_def)

section \<open>Configuration and stored embeddings along a run\<close>

lemma hnsw_apply_config: "hnsw_ok s \<Longrightarrow> hi_config (apply_op (HnswIndex_index ln_f) a s) = hi_config s"
proof (cases a)
  case (Op_insert x e)
  assume ok: "hnsw_ok s"
  obtain r s' where t: "insert_tracked ln_f x e s = (r, s')" by fastforce
  have "hi_config s' = hi_config s"
  proof (cases "Embedding_dimension e = hi_dimension s \<and> gr_live (hi_graph s) x = None")
    case True
    then show ?thesis using insert_tracked_Inr(4) [OF ok _ _ t] by simp
  next
    case False
    then show ?thesis using insert_tracked_error [where e = e and self = s and ln_f = ln_f and i = x] t by auto
  qed
  with Op_insert t show ?thesis by (simp add: HnswIndex_index_def HnswIndex_insert_def)
next
  case (Op_remove x)
  assume ok: "hnsw_ok s"
  obtain r s' where t: "remove_tracked x s = (r, s')" by fastforce
  with remove_tracked_spec(4) [OF ok t] Op_remove show ?thesis
    by (simp add: HnswIndex_index_def HnswIndex_remove_def)
qed

lemma hnsw_run_config: "config_ok c \<Longrightarrow> hi_config (hnsw_run ln_f c d ops) = c"
proof (induction ops rule: rev_induct)
  case Nil
  then show ?case by (simp add: hnsw_run_def run_ops_def HnswIndex_new_def)
next
  case (snoc a ops)
  then have "hi_config (apply_op (HnswIndex_index ln_f) a (hnsw_run ln_f c d ops)) = c"
    using hnsw_apply_config [OF hnsw_run_ok(1)] by simp
  then show ?case by (simp add: hnsw_run_def run_ops_def)
qed

definition stored_ok :: "HnswIndex \<Rightarrow> bool" where
  "stored_ok s \<longleftrightarrow> (\<forall>nd \<in> set (gr_nodes (hi_graph s)). embedding_ok (nd_embedding nd))"

lemma erase_embeddings:
  assumes "erase g = erase h"
  shows "nd_embedding ` set (gr_nodes g) = nd_embedding ` set (gr_nodes h)"
proof -
  have "map nd_embedding (gr_nodes (erase g)) = map nd_embedding (gr_nodes g)" for g
    by (simp add: erase_def)
  with assms show ?thesis by (metis list.set_map)
qed

lemma hnsw_apply_stored:
  assumes ok: "hnsw_ok s" and "stored_ok s" "op_ok a"
  shows "stored_ok (apply_op (HnswIndex_index ln_f) a s) \<and>
    node_count (hi_graph (apply_op (HnswIndex_index ln_f) a s)) \<le> Suc (node_count (hi_graph s))"
proof (cases a)
  case (Op_insert x e)
  show ?thesis
  proof (cases "Embedding_dimension e = hi_dimension s \<and> gr_live (hi_graph s) x = None")
    case True
    then obtain delta g1 g2 ep where s: "insert_tracked ln_f x e s =
      (Inr delta, s\<lparr>hi_graph := set_entry_point ep g2, hi_rng := snd (next_u64 (hi_rng s))\<rparr>)"
      and add: "add_node x e (fst (next_level ln_f (m_l ln_f (hi_config s)) (hi_rng s))) (hi_graph s) =
       (Inr (node_count (hi_graph s)), g1)"
      and lk: "link_inv (hi_dimension s) (hi_config s) g1 g2"
      by (metis insert_tracked_fresh [OF ok])
    have er: "erase g2 = erase g1" using lk by (simp add: link_inv_def)
    have "nd_embedding ` set (gr_nodes g2) = insert e (nd_embedding ` set (gr_nodes (hi_graph s)))"
      unfolding erase_embeddings [OF er] add_node_Inr(3) [OF add] by simp
    then have "stored_ok (s\<lparr>hi_graph := set_entry_point ep g2, hi_rng := snd (next_u64 (hi_rng s))\<rparr>)"
      using assms(2,3) Op_insert unfolding stored_ok_def by (auto simp: ball_simps(9) [symmetric] simp del: ball_simps(9))
    then show ?thesis
      using s Op_insert erase_same(1) [OF er] add_node_live_set(2) [OF add]
      by (simp add: HnswIndex_index_def HnswIndex_insert_def)
  next
    case False
    then have "snd (insert_tracked ln_f x e s) = s"
      using insert_tracked_error [where e = e and self = s and ln_f = ln_f and i = x]
      by (cases "Embedding_dimension e = hi_dimension s") simp_all
    then show ?thesis
      using Op_insert assms(2) by (simp add: HnswIndex_index_def HnswIndex_insert_def split_beta)
  qed
next
  case (Op_remove x)
  show ?thesis
  proof (cases "gr_live (hi_graph s) x")
    case None
    then show ?thesis using Op_remove assms(2)
      by (simp add: HnswIndex_index_def HnswIndex_remove_def remove_tracked_def id_to_node_def)
  next
    case (Some n)
    have "live_ok (hi_graph s)" using ok by (simp add: hnsw_ok_def graph_ok_def)
    then have n: "n \<in> live_set (hi_graph s)" using Some by (simp add: live_ok_def)
    have "gr_nodes (hi_graph (snd (remove_tracked x s))) = gr_nodes (snd (tombstone n (hi_graph s)))"
      using Some tombstone_live(1) [OF n]
      by (simp add: remove_tracked_def id_to_node_def Let_def split_beta)
    moreover have "nd_embedding ` set (gr_nodes (snd (tombstone n (hi_graph s)))) \<subseteq> nd_embedding ` set (gr_nodes (hi_graph s))"
    proof -
      have "gr_nodes (hi_graph s) ! n \<in> set (gr_nodes (hi_graph s))"
        using live_set_lt [OF n] by (simp add: node_count_def)
      then show ?thesis
        using set_update_subset_insert [of "gr_nodes (hi_graph s)" n] unfolding tombstone_live(7) [OF n] by force
    qed
    ultimately have "nd_embedding ` set (gr_nodes (hi_graph (snd (remove_tracked x s)))) \<subseteq> nd_embedding ` set (gr_nodes (hi_graph s))"
      and c: "length (gr_nodes (hi_graph (snd (remove_tracked x s)))) = length (gr_nodes (hi_graph s))"
      using tombstone_live(3) [OF n] by (simp_all add: node_count_def)
    then have "stored_ok (snd (remove_tracked x s))"
      using assms(2) unfolding stored_ok_def by (metis image_eqI image_iff subsetD)
    then show ?thesis using Op_remove c
      by (simp add: HnswIndex_index_def HnswIndex_remove_def split_beta node_count_def)
  qed
qed

lemma hnsw_run_stored:
  assumes "config_ok c" "\<forall>a \<in> set ops. op_ok a"
  shows "stored_ok (hnsw_run ln_f c d ops) \<and> node_count (hi_graph (hnsw_run ln_f c d ops)) \<le> length ops"
  using assms(2)
proof (induction ops rule: rev_induct)
  case Nil
  then show ?case by (simp add: hnsw_run_def run_ops_def HnswIndex_new_def stored_ok_def HnswGraph_new_def node_count_def)
next
  case (snoc a ops)
  then have "stored_ok (hnsw_run ln_f c d ops)" "op_ok a" by auto
  from hnsw_apply_stored [OF hnsw_run_ok(1) [OF assms(1)] this, of ln_f] snoc show ?case
    by (auto simp: hnsw_run_def run_ops_def)
qed

lemma node_snapshot_cong:
  assumes "node_count (hi_graph s') = node_count (hi_graph s) \<or> i < node_count (hi_graph s) \<and> i < node_count (hi_graph s')"
    "i < node_count (hi_graph s) \<Longrightarrow> gr_nodes (hi_graph s') ! i = gr_nodes (hi_graph s) ! i"
  shows "node_snapshot s' i = node_snapshot s i"
  using assms
  by (cases "i < node_count (hi_graph s)")
    (auto simp: node_snapshot_def neighbors_def graph_simps Let_def simp del: upt_Suc)

text \<open>What an insertion and a removal do to the rows of the nodes and to the stored embeddings.\<close>

lemma insert_tracked_rows:
  assumes ok: "hnsw_ok s" and d: "Embedding_dimension e = hi_dimension s" "gr_live (hi_graph s) x = None"
    and t: "insert_tracked ln_f x e s = (r, s')"
  obtains delta where "r = Inr delta" "new_node_idx delta = node_count (hi_graph s)"
    "{i. node_snapshot s' i \<noteq> node_snapshot s i} \<subseteq> set (ins_touched_nodes delta)"
    "ins_entry_changed delta = (gr_entry_point (hi_graph s') \<noteq> gr_entry_point (hi_graph s))"
    "map nd_embedding (gr_nodes (hi_graph s')) = map nd_embedding (gr_nodes (hi_graph s)) @ [e]"
proof -
  note f = insert_tracked_Inr [OF ok d t]
  from f(1) obtain delta where delta: "r = Inr delta" "new_node_idx delta = node_count (hi_graph s)"
    "node_count (hi_graph s) \<in> set (ins_touched_nodes delta)"
    "\<forall>i < node_count (hi_graph s). i \<notin> set (ins_touched_nodes delta) \<longrightarrow>
       gr_nodes (hi_graph s') ! i = gr_nodes (hi_graph s) ! i"
    "ins_entry_changed delta = (gr_entry_point (hi_graph s') \<noteq> gr_entry_point (hi_graph s))" by auto
  have cnt: "node_count (hi_graph s') = Suc (node_count (hi_graph s))" by (rule f(6))
  have "node_snapshot s' i = node_snapshot s i" if "i \<notin> set (ins_touched_nodes delta)" for i
  proof (cases "i < node_count (hi_graph s)")
    case True
    with delta(4) that cnt show ?thesis by (intro node_snapshot_cong) auto
  next
    case False
    then have "node_count (hi_graph s') \<le> i" using delta(3) that cnt by (cases "i = node_count (hi_graph s)") auto
    with False show ?thesis by (simp add: node_snapshot_def)
  qed
  moreover have "map nd_embedding (gr_nodes (hi_graph s')) = map nd_embedding (gr_nodes (hi_graph s)) @ [e]"
  proof -
    obtain delta' g1 g2 ep where s: "insert_tracked ln_f x e s =
      (Inr delta', s\<lparr>hi_graph := set_entry_point ep g2, hi_rng := snd (next_u64 (hi_rng s))\<rparr>)"
      and add: "add_node x e (fst (next_level ln_f (m_l ln_f (hi_config s)) (hi_rng s))) (hi_graph s) =
       (Inr (node_count (hi_graph s)), g1)"
      and lk: "link_inv (hi_dimension s) (hi_config s) g1 g2"
      by (metis insert_tracked_fresh [OF ok d])
    have "map nd_embedding (gr_nodes (erase g)) = map nd_embedding (gr_nodes g)" for g by (simp add: erase_def)
    then have "map nd_embedding (gr_nodes g2) = map nd_embedding (gr_nodes g1)"
      using lk unfolding link_inv_def by metis
    then show ?thesis using s t add_node_Inr(3) [OF add] by simp
  qed
  ultimately show ?thesis using that delta by blast
qed

lemma remove_tracked_rows:
  assumes ok: "hnsw_ok s" and x: "gr_live (hi_graph s) x = Some n"
  obtains delta s' where "remove_tracked x s = (Inr (Some delta), s')" "rem_touched_nodes delta = [n]"
    "\<forall>i. i \<noteq> n \<longrightarrow> node_snapshot s' i = node_snapshot s i"
    "\<forall>i. map_option sn_neighbors_per_layer (node_snapshot s' i) = map_option sn_neighbors_per_layer (node_snapshot s i)"
    "rem_entry_changed delta \<or> gr_entry_point (hi_graph s') = gr_entry_point (hi_graph s)"
    "map nd_embedding (gr_nodes (hi_graph s')) = map nd_embedding (gr_nodes (hi_graph s))"
proof -
  have "live_ok (hi_graph s)" using ok by (simp add: hnsw_ok_def graph_ok_def)
  then have n: "n \<in> live_set (hi_graph s)" using x by (simp add: live_ok_def)
  note t = tombstone_live [OF n]
  define delta where "delta = \<lparr>rem_touched_nodes = [n], rem_entry_changed = (gr_entry_point (hi_graph s) = Some n)\<rparr>"
  define s' where "s' = snd (remove_tracked x s)"
  have r: "remove_tracked x s = (Inr (Some delta), s')"
    "rem_touched_nodes delta = [n]" "rem_entry_changed delta = (gr_entry_point (hi_graph s) = Some n)"
    "gr_nodes (hi_graph s') = gr_nodes (snd (tombstone n (hi_graph s)))"
    "rem_entry_changed delta \<or> gr_entry_point (hi_graph s') = gr_entry_point (hi_graph s)"
    using x t(1,6) by (simp_all add: s'_def delta_def remove_tracked_def id_to_node_def Let_def split_beta)
  have nodes: "gr_nodes (hi_graph s') = (gr_nodes (hi_graph s))[n := (gr_nodes (hi_graph s) ! n)\<lparr>nd_tombstone := True\<rparr>]"
    using r(4) t(7) by simp
  then have cnt: "node_count (hi_graph s') = node_count (hi_graph s)" by (simp add: node_count_def)
  have other: "node_snapshot s' i = node_snapshot s i" if "i \<noteq> n" for i
    using that cnt by (intro node_snapshot_cong) (simp_all add: nodes)
  have nth: "nd_level (gr_nodes (hi_graph s') ! i) = nd_level (gr_nodes (hi_graph s) ! i)"
    "nd_neighbors (gr_nodes (hi_graph s') ! i) = nd_neighbors (gr_nodes (hi_graph s) ! i)"
    if "i < node_count (hi_graph s)" for i
    using that by (cases "i = n"; simp add: nodes node_count_def)+
  have "map_option sn_neighbors_per_layer (node_snapshot s' i) = map_option sn_neighbors_per_layer (node_snapshot s i)" for i
  proof (cases "i < node_count (hi_graph s)")
    case True
    then have "neighbors (hi_graph s') i l = neighbors (hi_graph s) i l" for l
      using cnt by (simp add: neighbors_def graph_simps nth)
    then show ?thesis using True cnt by (simp add: node_snapshot_def Let_def graph_simps nth)
  qed (simp add: node_snapshot_def cnt)
  moreover have "map nd_embedding (gr_nodes (hi_graph s')) = map nd_embedding (gr_nodes (hi_graph s))"
  proof (rule nth_equalityI)
    fix i
    assume "i < length (map nd_embedding (gr_nodes (hi_graph s')))"
    then show "map nd_embedding (gr_nodes (hi_graph s')) ! i = map nd_embedding (gr_nodes (hi_graph s)) ! i"
      by (cases "i = n"; simp add: nodes)
  qed (simp add: nodes)
  ultimately show ?thesis using that r other by blast
qed

section \<open>Properties\<close>

text \<open>
  C8. Graph invariant. After any sequence of operations from a new index with a valid
  configuration: every adjacency list respects the degree limit of its layer and names existing
  nodes only, levels are at most \<open>MAX_LEVEL\<close>, the live map holds exactly the nodes without
  tombstone under their own ids, the live count is their number, and the entry point is a live
  node of maximal level (absent exactly when nothing is live).
\<close>

theorem hnsw_graph_invariant:
  assumes "config_ok c"
  shows "let g = hi_graph (hnsw_run ln_f c d ops); live = (\<lambda>x. x < node_count g \<and> \<not> is_tombstone g x) in
    (\<forall>x l. length (neighbors g x l) \<le> (if l = 0 then m_max0 c else m_max c) \<and>
       set (neighbors g x l) \<subseteq> {..<node_count g}) \<and>
    (\<forall>x. node_level g x \<le> MAX_LEVEL) \<and>
    (\<forall>i x. (id_to_node g i = Some x) = (live x \<and> node_id g x = Some i)) \<and>
    gr_live_count g = card {x. live x} \<and>
    (case gr_entry_point g of None \<Rightarrow> {x. live x} = {}
     | Some e \<Rightarrow> live e \<and> {x. live x} \<subseteq> {x. node_level g x \<le> node_level g e})"
proof -
  let ?s = "hnsw_run ln_f c d ops"
  define g where "g = hi_graph ?s"
  have ok: "hnsw_ok ?s" by (rule hnsw_run_ok(1) [OF assms])
  have gok: "graph_ok d (degree_limit c) MAX_LEVEL g" and eok: "entry_ok g"
    using ok hnsw_run_ok(2) [OF assms] hnsw_run_config [OF assms] by (simp_all add: hnsw_ok_def g_def)
  have live: "{x. x < node_count g \<and> \<not> is_tombstone g x} = live_set g"
    by (auto simp: live_set_def is_tombstone_in)
  have lset: "x < node_count g \<and> \<not> is_tombstone g x \<longleftrightarrow> x \<in> live_set g" for x using live by blast
  have "node_level g x \<le> MAX_LEVEL" for x
    using graph_ok_nodeD [OF gok, of x]
    by (cases "x < node_count g") (simp_all add: node_level_in node_ok_def node_level_def graph_simps)
  moreover have "(id_to_node g i = Some x) = (x \<in> live_set g \<and> node_id g x = Some i)" for i x
    using graph_ok_live [OF gok, of i x] by (auto simp: id_to_node_def node_id_in live_set_lt)
  moreover have "gr_live_count g = card (live_set g)" using gok by (simp add: graph_ok_def live_ok_def)
  ultimately show ?thesis
    unfolding Let_def g_def [symmetric] lset
    using graph_ok_degree [OF gok] graph_ok_neighbors [OF gok] eok
    by (auto simp: degree_limit_def entry_ok_def split: option.splits)
qed

lemma hnsw_graph_invariant_witness:
  "let g = hi_graph (hnsw_run (\<lambda>x. x) HnswConfig_default (Dimension 1)
       [Op_insert (VectorId 1) (Embedding [0x3F800000]), Op_insert (VectorId 2) (Embedding [0]), Op_remove (VectorId 1)]);
     live = (\<lambda>x. x < node_count g \<and> \<not> is_tombstone g x) in
    (\<forall>x l. length (neighbors g x l) \<le> (if l = 0 then m_max0 HnswConfig_default else m_max HnswConfig_default) \<and>
       set (neighbors g x l) \<subseteq> {..<node_count g}) \<and>
    (\<forall>x. node_level g x \<le> MAX_LEVEL) \<and>
    (\<forall>i x. (id_to_node g i = Some x) = (live x \<and> node_id g x = Some i)) \<and>
    gr_live_count g = card {x. live x} \<and>
    (case gr_entry_point g of None \<Rightarrow> {x. live x} = {}
     | Some e \<Rightarrow> live e \<and> {x. live x} \<subseteq> {x. node_level g x \<le> node_level g e})"
  by (rule hnsw_graph_invariant [OF config_ok_default])

text \<open>
  C7. Refinement. The index stores exactly the abstract map: an insertion adds a fresh id of the
  right dimension and is ignored otherwise, a removal deletes; \<open>len\<close> is the number of stored ids.
  Levels drawn, links, tombstones and re-elected entry points never change what is stored.
\<close>

theorem hnsw_refines_map:
  assumes "config_ok c"
  shows "hnsw_contents (hnsw_run ln_f c d ops) = spec_run d ops \<and>
    vi_len (HnswIndex_index ln_f) (hnsw_run ln_f c d ops) = card (dom (spec_run d ops))"
proof -
  have "hnsw_contents (hnsw_run ln_f c d ops) = spec_run d ops"
    using hnsw.contents_run_ops [OF hnsw_new_ok(1) [OF assms, of d] hnsw_new_ok(2), of ln_f ops]
    by (simp add: hnsw_run_def HnswIndex_index_def) (simp add: HnswIndex_new_def)
  then show ?thesis using hnsw.len_contents [OF hnsw_run_ok(1) [OF assms]] by metis
qed

lemma hnsw_refines_map_witness:
  "hnsw_contents (hnsw_run (\<lambda>x. x) HnswConfig_default (Dimension 1)
      [Op_insert (VectorId 7) (Embedding [0]), Op_remove (VectorId 7), Op_insert (VectorId 7) (Embedding [1])])
     = [VectorId 7 \<mapsto> Embedding [1]]"
  using hnsw_refines_map [OF config_ok_default, of "\<lambda>x. x" "Dimension 1"
      "[Op_insert (VectorId 7) (Embedding [0]), Op_remove (VectorId 7), Op_insert (VectorId 7) (Embedding [1])]"]
  by (simp add: spec_run_def Embedding_dimension_def Dimension_new_def u32_max_def)

text \<open>
  C9. Search soundness. A search returns at most \<open>k\<close> results, of distinct stored and admissible ids,
  each with the exact score of its stored vector, in descending score and ascending id; it fails
  only on a wrong dimension or an unsupported metric, with the error that says so.
\<close>

theorem hnsw_search_run_sound:
  assumes "config_ok c"
  shows "case HnswIndex_search_filtered q k m adm (hnsw_run ln_f c d ops) of
      Inl err \<Rightarrow> (Embedding_dimension q \<noteq> d \<and>
          err = DimensionMismatch (Dimension_get d) (Dimension_get (Embedding_dimension q))) \<or>
        (Embedding_dimension q = d \<and> m \<noteq> cfg_metric c \<and> err = UnsupportedMetric m)
    | Inr ns \<Rightarrow> Embedding_dimension q = d \<and> m = cfg_metric c \<and> sorted (map neighbor_key ns) \<and>
        distinct (map neighbor_id ns) \<and> length ns \<le> k \<and> set ns \<subseteq> candidates m q adm (spec_run d ops)"
proof (cases "HnswIndex_search_filtered q k m adm (hnsw_run ln_f c d ops)")
  case (Inl err)
  then show ?thesis using hnsw_run_ok(2,3) [OF assms, of ln_f d ops]
    by (auto simp: HnswIndex_search_filtered_def Let_def split: if_splits option.splits)
next
  case (Inr ns)
  note st = hnsw.contents_run_ops [OF hnsw_new_ok(1) [OF assms, of d] hnsw_new_ok(2), of ln_f ops]
  show ?thesis
    using hnsw_search_sound [OF hnsw_run_ok(1) [OF assms] Inr] hnsw_run_ok(2,3) [OF assms, of ln_f d ops] Inr st
    by (simp add: hnsw_run_def) (simp add: HnswIndex_index_def HnswIndex_new_def)
qed

lemma hnsw_search_run_sound_witness:
  "case HnswIndex_search_filtered (Embedding [0]) 3 Cosine (\<lambda>_. True)
      (hnsw_run (\<lambda>x. x) HnswConfig_default (Dimension 1) [Op_insert (VectorId 7) (Embedding [0])]) of
      Inl err \<Rightarrow> (Embedding_dimension (Embedding [0]) \<noteq> Dimension 1 \<and>
          err = DimensionMismatch (Dimension_get (Dimension 1)) (Dimension_get (Embedding_dimension (Embedding [0])))) \<or>
        (Embedding_dimension (Embedding [0]) = Dimension 1 \<and> Cosine \<noteq> cfg_metric HnswConfig_default \<and> err = UnsupportedMetric Cosine)
    | Inr ns \<Rightarrow> Embedding_dimension (Embedding [0]) = Dimension 1 \<and> Cosine = cfg_metric HnswConfig_default \<and>
        sorted (map neighbor_key ns) \<and> distinct (map neighbor_id ns) \<and> length ns \<le> 3 \<and>
        set ns \<subseteq> candidates Cosine (Embedding [0]) (\<lambda>_. True)
          (spec_run (Dimension 1) [Op_insert (VectorId 7) (Embedding [0])])"
  by (rule hnsw_search_run_sound [OF config_ok_default])

text \<open>
  C10. Exactness of a wide search. When the beam width \<open>max(ef_search, k)\<close> covers the nodes of the graph, a
  search is the true top \<open>k\<close> of the admissible vectors that the starting node reaches at layer 0:
  the only loss of an HNSW search is the beam width and the connectivity of the graph.
\<close>

theorem hnsw_wide_search_exact:
  assumes "config_ok c" "node_count (hi_graph (hnsw_run ln_f c d ops)) \<le> max (cfg_ef_search c) k"
  shows "case HnswIndex_search_filtered q k m adm (hnsw_run ln_f c d ops) of
      Inl _ \<Rightarrow> Embedding_dimension q \<noteq> d \<or> m \<noteq> cfg_metric c
    | Inr ns \<Rightarrow> is_top_k k (candidates m q adm (reached_contents q (hnsw_run ln_f c d ops))) ns"
proof (cases "HnswIndex_search_filtered q k m adm (hnsw_run ln_f c d ops)")
  case (Inl err)
  then show ?thesis using hnsw_run_ok(2,3) [OF assms(1), of ln_f d ops]
    by (auto simp: HnswIndex_search_filtered_def Let_def split: if_splits option.splits)
next
  case (Inr ns)
  then show ?thesis
    using hnsw_search_exhaustive [OF hnsw_run_ok(1) [OF assms(1)] Inr] assms(2) hnsw_run_config [OF assms(1)]
    by simp
qed

lemma hnsw_wide_search_exact_witness:
  "case HnswIndex_search_filtered (Embedding [0]) 3 Cosine (\<lambda>_. True)
      (hnsw_run (\<lambda>x. x) HnswConfig_default (Dimension 1) [Op_insert (VectorId 7) (Embedding [0])]) of
      Inl _ \<Rightarrow> Embedding_dimension (Embedding [0]) \<noteq> Dimension 1 \<or> Cosine \<noteq> cfg_metric HnswConfig_default
    | Inr ns \<Rightarrow> is_top_k 3 (candidates Cosine (Embedding [0]) (\<lambda>_. True) (reached_contents (Embedding [0])
        (hnsw_run (\<lambda>x. x) HnswConfig_default (Dimension 1) [Op_insert (VectorId 7) (Embedding [0])]))) ns"
proof (rule hnsw_wide_search_exact [OF config_ok_default])
  have "embedding_ok (Embedding [0])" by code_simp
  then have "node_count (hi_graph (hnsw_run (\<lambda>x. x) HnswConfig_default (Dimension 1) [Op_insert (VectorId 7) (Embedding [0])])) \<le> 1"
    using hnsw_run_stored [OF config_ok_default, of "[Op_insert (VectorId 7) (Embedding [0])]" "\<lambda>x. x" "Dimension 1"] by simp
  then show "node_count (hi_graph (hnsw_run (\<lambda>x. x) HnswConfig_default (Dimension 1) [Op_insert (VectorId 7) (Embedding [0])]))
      \<le> max (cfg_ef_search HnswConfig_default) 3" by simp
qed

text \<open>
  C12. The flat index is the recall oracle: over the same operations, the \<open>j\<close>-th result of an HNSW search is
  never closer than the \<open>j\<close>-th result of the flat search, and never beyond its length.
\<close>

theorem flat_dominates_hnsw:
  assumes "config_ok c"
  shows "case (HnswIndex_search_filtered q k m adm (hnsw_run ln_f c d ops),
               FlatIndex_search_filtered q k m adm (flat_run m0 d ops)) of
      (Inr ns, Inr fs) \<Rightarrow> list_all2 (\<lambda>f n. neighbor_key f \<le> neighbor_key n) (take (length ns) fs) ns
    | (Inr _, Inl _) \<Rightarrow> False
    | (Inl _, _) \<Rightarrow> Embedding_dimension q \<noteq> d \<or> m \<noteq> cfg_metric c"
proof (cases "HnswIndex_search_filtered q k m adm (hnsw_run ln_f c d ops)")
  case (Inl err)
  then show ?thesis using hnsw_run_ok(2,3) [OF assms, of ln_f d ops]
    by (auto simp: HnswIndex_search_filtered_def Let_def split: if_splits option.splits)
next
  case (Inr ns)
  note h = hnsw_search_sound [OF hnsw_run_ok(1) [OF assms] Inr]
  have st: "hnsw_contents (hnsw_run ln_f c d ops) = flat_contents (flat_run m0 d ops)"
    using hnsw.contents_run_ops [OF hnsw_new_ok(1) [OF assms, of d] hnsw_new_ok(2), of ln_f ops] flat_run_ok(3)
    by (simp add: hnsw_run_def) (simp add: HnswIndex_index_def HnswIndex_new_def)
  obtain fs where fs: "FlatIndex_search_filtered q k m adm (flat_run m0 d ops) = Inr fs"
    using h(1) hnsw_run_ok(2) [OF assms, of ln_f d ops] flat_run_ok(2) [of m0 d ops]
    by (auto simp: FlatIndex_search_filtered_def)
  then have fs': "vi_search_filtered FlatIndex_index q k m adm (flat_run m0 d ops) = Inr fs"
    by (simp add: FlatIndex_index_def)
  note dom = flat_exact.search_dominates [OF flat_run_ok(1) fs' h(3,4,5) h(6) [unfolded st]]
  have "length ns \<le> length fs"
  proof (cases "length ns")
    case (Suc l)
    then show ?thesis using dom(1) [of l] by simp
  qed simp
  with dom(2) Inr fs show ?thesis by (simp add: list_all2_conv_all_nth)
qed

lemma flat_dominates_hnsw_witness:
  "case (HnswIndex_search_filtered (Embedding [0]) 3 Cosine (\<lambda>_. True)
           (hnsw_run (\<lambda>x. x) HnswConfig_default (Dimension 1) [Op_insert (VectorId 7) (Embedding [0])]),
         FlatIndex_search_filtered (Embedding [0]) 3 Cosine (\<lambda>_. True)
           (flat_run Euclidean (Dimension 1) [Op_insert (VectorId 7) (Embedding [0])])) of
      (Inr ns, Inr fs) \<Rightarrow> list_all2 (\<lambda>f n. neighbor_key f \<le> neighbor_key n) (take (length ns) fs) ns
    | (Inr _, Inl _) \<Rightarrow> False
    | (Inl _, _) \<Rightarrow> Embedding_dimension (Embedding [0]) \<noteq> Dimension 1 \<or> Cosine \<noteq> cfg_metric HnswConfig_default"
  by (rule flat_dominates_hnsw [OF config_ok_default])

text \<open>
  The insertion delta is complete. Every node row outside \<open>touched_nodes\<close> is unchanged, so writing
  the touched rows and the state row persists the whole insertion; the new node index is the
  old node count; \<open>entry_changed\<close> tells whether the entry point moved; a refused insertion changes nothing.
\<close>

lemma insert_delta_complete:
  assumes "config_ok c"
  shows "let s = hnsw_run ln_f c d ops in
    case insert_tracked ln_f x e s of
      (Inl _, s') \<Rightarrow> s' = s
    | (Inr delta, s') \<Rightarrow>
        new_node_idx delta = node_count (hi_graph s) \<and>
        {i. node_snapshot s' i \<noteq> node_snapshot s i} \<subseteq> set (ins_touched_nodes delta) \<and>
        (ins_entry_changed delta = (gr_entry_point (hi_graph s') \<noteq> gr_entry_point (hi_graph s)))"
proof -
  define s where "s = hnsw_run ln_f c d ops"
  have ok: "hnsw_ok s" unfolding s_def by (rule hnsw_run_ok(1) [OF assms])
  obtain r s' where t: "insert_tracked ln_f x e s = (r, s')" by fastforce
  show ?thesis
  proof (cases "Embedding_dimension e = hi_dimension s \<and> gr_live (hi_graph s) x = None")
    case True
    obtain delta where "r = Inr delta" "new_node_idx delta = node_count (hi_graph s)"
      "{i. node_snapshot s' i \<noteq> node_snapshot s i} \<subseteq> set (ins_touched_nodes delta)"
      "ins_entry_changed delta = (gr_entry_point (hi_graph s') \<noteq> gr_entry_point (hi_graph s))"
      by (rule insert_tracked_rows [OF ok _ _ t]) (use True in blast)+
    then show ?thesis using t by (simp add: Let_def s_def [symmetric])
  next
    case False
    then have "insert_tracked ln_f x e s = (r, s) \<and> (\<exists>err. r = Inl err)"
      using t insert_tracked_error [where e = e and self = s and ln_f = ln_f and i = x]
      by (cases "Embedding_dimension e = hi_dimension s") auto
    with t show ?thesis by (auto simp: Let_def s_def [symmetric])
  qed
qed

lemma insert_delta_complete_witness:
  "let s = hnsw_run (\<lambda>x. x) HnswConfig_default (Dimension 1) [Op_insert (VectorId 7) (Embedding [0])] in
    case insert_tracked (\<lambda>x. x) (VectorId 8) (Embedding [1]) s of
      (Inl _, s') \<Rightarrow> s' = s
    | (Inr delta, s') \<Rightarrow>
        new_node_idx delta = node_count (hi_graph s) \<and>
        {i. node_snapshot s' i \<noteq> node_snapshot s i} \<subseteq> set (ins_touched_nodes delta) \<and>
        (ins_entry_changed delta = (gr_entry_point (hi_graph s') \<noteq> gr_entry_point (hi_graph s)))"
  by (rule insert_delta_complete [OF config_ok_default])

text \<open>
  The removal delta is complete, and removal reports exactly whether the id was stored: an absent id
  changes nothing, a present one changes the row of its node only.
\<close>

lemma remove_delta_complete:
  assumes "config_ok c"
  shows "let s = hnsw_run ln_f c d ops in
    case remove_tracked x s of
      (Inl _, _) \<Rightarrow> False
    | (Inr None, s') \<Rightarrow> spec_run d ops x = None \<and> s' = s
    | (Inr (Some delta), s') \<Rightarrow> x \<in> dom (spec_run d ops) \<and>
        {i. node_snapshot s' i \<noteq> node_snapshot s i} \<subseteq> set (rem_touched_nodes delta) \<and>
        {gr_entry_point (hi_graph s), gr_entry_point (hi_graph s')} \<subseteq>
          (if rem_entry_changed delta then UNIV else {gr_entry_point (hi_graph s)})"
proof -
  define s where "s = hnsw_run ln_f c d ops"
  have ok: "hnsw_ok s" unfolding s_def by (rule hnsw_run_ok(1) [OF assms])
  have st: "hnsw_contents s = spec_run d ops"
    using hnsw.contents_run_ops [OF hnsw_new_ok(1) [OF assms, of d] hnsw_new_ok(2), of ln_f ops]
    by (simp add: s_def hnsw_run_def) (simp add: HnswIndex_index_def HnswIndex_new_def)
  show ?thesis
  proof (cases "gr_live (hi_graph s) x")
    case None
    then have "spec_run d ops x = None" by (simp add: st [symmetric] hnsw_contents_def graph_contents_def)
    with None show ?thesis by (simp add: s_def [symmetric] remove_tracked_def id_to_node_def)
  next
    case (Some n)
    have dom: "x \<in> dom (spec_run d ops)"
      using Some by (simp add: st [symmetric] hnsw_contents_def graph_contents_def dom_def)
    obtain delta s' where "remove_tracked x s = (Inr (Some delta), s')" "rem_touched_nodes delta = [n]"
      "\<forall>i. i \<noteq> n \<longrightarrow> node_snapshot s' i = node_snapshot s i"
      "rem_entry_changed delta \<or> gr_entry_point (hi_graph s') = gr_entry_point (hi_graph s)"
      by (rule remove_tracked_rows [OF ok Some]) blast
    with dom show ?thesis by (auto simp: s_def [symmetric])
  qed
qed

lemma remove_delta_complete_witness:
  "let s = hnsw_run (\<lambda>x. x) HnswConfig_default (Dimension 1) [Op_insert (VectorId 7) (Embedding [0])] in
    case remove_tracked (VectorId 7) s of
      (Inl _, _) \<Rightarrow> False
    | (Inr None, s') \<Rightarrow> spec_run (Dimension 1) [Op_insert (VectorId 7) (Embedding [0])] (VectorId 7) = None \<and> s' = s
    | (Inr (Some delta), s') \<Rightarrow> VectorId 7 \<in> dom (spec_run (Dimension 1) [Op_insert (VectorId 7) (Embedding [0])]) \<and>
        {i. node_snapshot s' i \<noteq> node_snapshot s i} \<subseteq> set (rem_touched_nodes delta) \<and>
        {gr_entry_point (hi_graph s), gr_entry_point (hi_graph s')} \<subseteq>
          (if rem_entry_changed delta then UNIV else {gr_entry_point (hi_graph s)})"
  by (rule remove_delta_complete [OF config_ok_default])

text \<open>
  C26. Reload fidelity. Restoring the snapshot of any reachable index, with the embeddings of its nodes, gives
  the index back exactly: adjacency, tombstones, live map, entry point, counts and generator state.
\<close>

theorem hnsw_reload_exact:
  assumes "config_ok c" "\<forall>a \<in> set ops. op_ok a" "length ops \<le> usize_max"
  shows "from_snapshot c d (snapshot (hnsw_run ln_f c d ops)) (node_embedding (hi_graph (hnsw_run ln_f c d ops)))
    = Inr (hnsw_run ln_f c d ops)"
  using from_snapshot_snapshot [OF hnsw_run_ok(1) [OF assms(1)], of ln_f d ops]
    hnsw_run_stored [OF assms(1,2), of ln_f d] assms(3) hnsw_run_config [OF assms(1)] hnsw_run_ok(2) [OF assms(1)]
  by (simp add: stored_ok_def)

lemma hnsw_reload_exact_witness:
  "let s = hnsw_run (\<lambda>x. x) HnswConfig_default (Dimension 1)
      [Op_insert (VectorId 7) (Embedding [0]), Op_remove (VectorId 7), Op_insert (VectorId 7) (Embedding [1])] in
    from_snapshot HnswConfig_default (Dimension 1) (snapshot s) (node_embedding (hi_graph s)) = Inr s"
  unfolding Let_def
proof (rule hnsw_reload_exact [OF config_ok_default])
  have "embedding_ok (Embedding [0])" "embedding_ok (Embedding [1])" by (code_simp, code_simp)
  then show "\<forall>a \<in> set [Op_insert (VectorId 7) (Embedding [0]), Op_remove (VectorId 7), Op_insert (VectorId 7) (Embedding [1])]. op_ok a"
    by simp
qed (simp add: usize_max_def)

text \<open>
  Compaction. Rebuilding never fails on a reachable index, keeps exactly the stored vectors, and leaves one
  node per stored vector: every tombstone is gone.
\<close>

lemma hnsw_compact_keeps_contents:
  assumes "config_ok c" "\<forall>a \<in> set ops. op_ok a"
  shows "\<exists>s'. compact ln_f (hnsw_run ln_f c d ops) = (Inr (), s') \<and> hnsw_contents s' = spec_run d ops \<and>
    node_count (hi_graph s') = card (dom (spec_run d ops))"
proof -
  let ?s = "hnsw_run ln_f c d ops"
  have st: "hnsw_contents ?s = spec_run d ops"
    using hnsw.contents_run_ops [OF hnsw_new_ok(1) [OF assms(1), of d] hnsw_new_ok(2), of ln_f ops]
    by (simp add: hnsw_run_def) (simp add: HnswIndex_index_def HnswIndex_new_def)
  have "gr_live_count (hi_graph ?s) = card (dom (spec_run d ops))"
    using hnsw.len_contents [OF hnsw_run_ok(1) [OF assms(1)], of ln_f ln_f d ops] st
    by (simp add: HnswIndex_index_def)
  with compact_spec [OF hnsw_run_ok(1) [OF assms(1)], of ln_f d ops ln_f] hnsw_run_stored [OF assms, of ln_f d] st
  show ?thesis by (auto simp: stored_ok_def)
qed

lemma hnsw_compact_keeps_contents_witness:
  "\<exists>s'. compact (\<lambda>x. x) (hnsw_run (\<lambda>x. x) HnswConfig_default (Dimension 1)
        [Op_insert (VectorId 7) (Embedding [0]), Op_remove (VectorId 7), Op_insert (VectorId 7) (Embedding [1])]) = (Inr (), s') \<and>
      hnsw_contents s' = [VectorId 7 \<mapsto> Embedding [1]] \<and> node_count (hi_graph s') = 1"
proof -
  have "embedding_ok (Embedding [0])" "embedding_ok (Embedding [1])" by (code_simp, code_simp)
  then have ok: "\<forall>a \<in> set [Op_insert (VectorId 7) (Embedding [0]), Op_remove (VectorId 7), Op_insert (VectorId 7) (Embedding [1])]. op_ok a"
    by simp
  show ?thesis
    using hnsw_compact_keeps_contents [OF config_ok_default ok, of "\<lambda>x. x" "Dimension 1"]
    by (simp add: spec_run_def Embedding_dimension_def Dimension_new_def u32_max_def)
qed

text \<open>
  Layers are bounded: whatever the logarithm and the normalisation factor, infinities and NaN included, the
  sampled level is at most \<open>MAX_LEVEL\<close> and the generator advances by exactly one draw.
\<close>

lemma next_level_bounded:
  "fst (next_level ln_f ml rng) \<le> MAX_LEVEL \<and> snd (next_level ln_f ml rng) = snd (next_u64 rng)"
  by (simp add: next_level_le next_level_state)

text \<open>
  The draw is not confined to \<open>(0, 1]\<close> as the comments say: from this state \<open>next_u64\<close> returns
  \<open>u64::MAX\<close>, \<open>wrapping_add(1)\<close> gives zero and the logarithm is taken of zero.
\<close>

lemma level_draw_can_be_zero:
  "level_u (fst (next_u64 (SplitMix64 0x31628AF67B2131AB))) = 0"
  by code_simp

end
