(* ===== verification/Collection.thy ===== *)
theory Collection
  imports Payload_Store Lexical_Memory Hnsw
begin

text \<open>
  \<open>Collection\<close> of \<open>eidosdb-query/src/collection.rs\<close>: a vector index, a lexical index and a
  payload store behind one set of operations. The model is parametric in the three ports, as the
  code is in \<open>I: VectorIndex\<close>, \<open>L: LexicalIndex\<close> and \<open>P: PayloadStore\<close>. The locale
  \<open>collection\<close> collects the three contracts; over them a collection refines three maps, and its
  interpretations are the flat and the HNSW collection with the in-memory stores.
\<close>

section \<open>State and operations\<close>

record SearchQuery =
  sq_embedding :: Embedding
  sq_k :: nat
  sq_metric :: "Metric option"
  sq_filter :: "Filter option"

record SearchHit =
  hit_id :: VectorId
  hit_score :: Score
  hit_payload :: "Payload option"

record ('i, 'l, 'p) Collection =
  col_index :: 'i
  col_lexical :: 'l
  col_payloads :: 'p

definition Collection_new :: "'i \<Rightarrow> 'l \<Rightarrow> 'p \<Rightarrow> ('i, 'l, 'p) Collection" where
  "Collection_new index lexical payloads =
     \<lparr>col_index = index, col_lexical = lexical, col_payloads = payloads\<rparr>"

definition Collection_len :: "'i VectorIndex \<Rightarrow> ('i, 'l, 'p) Collection \<Rightarrow> nat" where
  "Collection_len V self = vi_len V (col_index self)"

definition Collection_is_empty :: "'i VectorIndex \<Rightarrow> ('i, 'l, 'p) Collection \<Rightarrow> bool" where
  "Collection_is_empty V self = is_empty V (col_index self)"

definition Collection_upsert ::
  "'i VectorIndex \<Rightarrow> 'l LexicalIndex \<Rightarrow> 'p PayloadStore \<Rightarrow>
   VectorId \<Rightarrow> Embedding \<Rightarrow> Document option \<Rightarrow> Payload option \<Rightarrow>
   ('i, 'l, 'p) Collection \<Rightarrow> (QueryError + unit) \<times> ('i, 'l, 'p) Collection" where
  "Collection_upsert V L P i embedding document payload self =
     (case vi_remove V i (col_index self) of
        (Inl e, index) \<Rightarrow> (Inl (Qe_Index e), self\<lparr>col_index := index\<rparr>)
      | (Inr _, index) \<Rightarrow>
     (case vi_insert V i embedding index of
        (Inl e, index) \<Rightarrow> (Inl (Qe_Index e), self\<lparr>col_index := index\<rparr>)
      | (Inr _, index) \<Rightarrow>
     (case (case document of
              Some document \<Rightarrow> lx_insert L i document (col_lexical self)
            | None \<Rightarrow> lx_remove L i (col_lexical self)) of
        (Inl e, lexical) \<Rightarrow> (Inl (Qe_Lexical e), self\<lparr>col_index := index, col_lexical := lexical\<rparr>)
      | (Inr _, lexical) \<Rightarrow>
     (case (case payload of
              Some payload \<Rightarrow> ps_set P i payload (col_payloads self)
            | None \<Rightarrow> (case ps_remove P i (col_payloads self) of
                         (r, payloads) \<Rightarrow> (map_res (\<lambda>_. ()) r, payloads))) of
        (Inl e, payloads) \<Rightarrow>
          (Inl (Qe_Payload e), self\<lparr>col_index := index, col_lexical := lexical, col_payloads := payloads\<rparr>)
      | (Inr _, payloads) \<Rightarrow>
          (Inr (), self\<lparr>col_index := index, col_lexical := lexical, col_payloads := payloads\<rparr>)))))"

definition Collection_delete ::
  "'i VectorIndex \<Rightarrow> 'l LexicalIndex \<Rightarrow> 'p PayloadStore \<Rightarrow> VectorId \<Rightarrow>
   ('i, 'l, 'p) Collection \<Rightarrow> (QueryError + bool) \<times> ('i, 'l, 'p) Collection" where
  "Collection_delete V L P i self =
     (case vi_remove V i (col_index self) of
        (Inl e, index) \<Rightarrow> (Inl (Qe_Index e), self\<lparr>col_index := index\<rparr>)
      | (Inr removed, index) \<Rightarrow>
     (case lx_remove L i (col_lexical self) of
        (Inl e, lexical) \<Rightarrow> (Inl (Qe_Lexical e), self\<lparr>col_index := index, col_lexical := lexical\<rparr>)
      | (Inr _, lexical) \<Rightarrow>
     (case ps_remove P i (col_payloads self) of
        (Inl e, payloads) \<Rightarrow>
          (Inl (Qe_Payload e), self\<lparr>col_index := index, col_lexical := lexical, col_payloads := payloads\<rparr>)
      | (Inr _, payloads) \<Rightarrow>
          (Inr removed, self\<lparr>col_index := index, col_lexical := lexical, col_payloads := payloads\<rparr>))))"

text \<open>The loop of \<open>delete_by_filter\<close>, over the matching ids in their iteration order.\<close>

fun delete_each ::
  "'i VectorIndex \<Rightarrow> 'l LexicalIndex \<Rightarrow> 'p PayloadStore \<Rightarrow> VectorId list \<Rightarrow> nat \<Rightarrow>
   ('i, 'l, 'p) Collection \<Rightarrow> (QueryError + nat) \<times> ('i, 'l, 'p) Collection" where
  "delete_each V L P [] n self = (Inr n, self)"
| "delete_each V L P (i # matching) n self =
     (case Collection_delete V L P i self of
        (Inl e, self) \<Rightarrow> (Inl e, self)
      | (Inr removed, self) \<Rightarrow> delete_each V L P matching (if removed then n + 1 else n) self)"

definition Collection_delete_by_filter ::
  "'i VectorIndex \<Rightarrow> 'l LexicalIndex \<Rightarrow> 'p PayloadStore \<Rightarrow> Filter \<Rightarrow>
   ('i, 'l, 'p) Collection \<Rightarrow> (QueryError + nat) \<times> ('i, 'l, 'p) Collection" where
  "Collection_delete_by_filter V L P f self =
     (case ps_matching_ids P (Filter_compile f) (col_payloads self) of
        Inl e \<Rightarrow> (Inl (Qe_Payload e), self)
      | Inr matching \<Rightarrow> delete_each V L P matching 0 self)"

definition hydrate :: "'p PayloadStore \<Rightarrow> 'p \<Rightarrow> VectorId \<Rightarrow> Score \<Rightarrow> QueryError + SearchHit" where
  "hydrate P payloads i score =
     (case ps_get P i payloads of
        Inl e \<Rightarrow> Inl (Qe_Payload e)
      | Inr payload \<Rightarrow> Inr \<lparr>hit_id = i, hit_score = score, hit_payload = payload\<rparr>)"

definition Collection_search ::
  "'i VectorIndex \<Rightarrow> 'p PayloadStore \<Rightarrow> SearchQuery \<Rightarrow> ('i, 'l, 'p) Collection \<Rightarrow>
   QueryError + SearchHit list" where
  "Collection_search V P query self =
     (let metric = (case sq_metric query of Some m \<Rightarrow> m | None \<Rightarrow> vi_metric V (col_index self)) in
      if metric \<notin> set (vi_supported_metrics V (col_index self)) then Inl (Qe_UnsupportedMetric metric)
      else
        res_bind
          (case sq_filter query of
             Some f \<Rightarrow>
               res_bind (map_err Qe_Payload (ps_matching_ids P (Filter_compile f) (col_payloads self)))
                 (\<lambda>allowed. map_err Qe_Index
                   (vi_search_filtered V (sq_embedding query) (sq_k query) metric
                     (\<lambda>i. i \<in> set allowed) (col_index self)))
           | None \<Rightarrow> map_err Qe_Index
               (vi_search_filtered V (sq_embedding query) (sq_k query) metric (\<lambda>_. True) (col_index self)))
          (traverse (\<lambda>n. hydrate P (col_payloads self) (neighbor_id n) (neighbor_score n))))"

section \<open>The abstract collection: three maps\<close>

record col_spec =
  sp_vectors :: "VectorId \<rightharpoonup> Embedding"
  sp_docs :: bags
  sp_payloads :: "VectorId \<rightharpoonup> Payload"

datatype col_op =
    Upsert VectorId Embedding "Document option" "Payload option"
  | Delete VectorId
  | Delete_by_filter Filter

datatype col_reply = Done | Deleted bool | Deleted_count nat | Failed QueryError

definition drop_ids :: "VectorId set \<Rightarrow> col_spec \<Rightarrow> col_spec" where
  "drop_ids S st = \<lparr>sp_vectors = sp_vectors st |` (- S), sp_docs = sp_docs st |` (- S),
     sp_payloads = sp_payloads st |` (- S)\<rparr>"

text \<open>An upsert of a wrong dimension fails after the old vector is gone; the rest stays.\<close>

fun col_spec_step :: "Unicode \<Rightarrow> Dimension \<Rightarrow> col_op \<Rightarrow> col_spec \<Rightarrow> col_reply \<times> col_spec" where
  "col_spec_step U d (Upsert i e doc payload) st =
     (if Embedding_dimension e \<noteq> d
      then (Failed (Qe_Index (DimensionMismatch (Dimension_get d) (Dimension_get (Embedding_dimension e)))),
            st\<lparr>sp_vectors := (sp_vectors st)(i := None)\<rparr>)
      else (Done, \<lparr>sp_vectors = (sp_vectors st)(i \<mapsto> e),
                   sp_docs = (sp_docs st)(i := map_option (bag U) doc),
                   sp_payloads = (sp_payloads st)(i := payload)\<rparr>))"
| "col_spec_step U d (Delete i) st = (Deleted (sp_vectors st i \<noteq> None), drop_ids {i} st)"
| "col_spec_step U d (Delete_by_filter f) st =
     (let S = selected f (sp_payloads st)
      in (Deleted_count (card (S \<inter> dom (sp_vectors st))), drop_ids S st))"

definition reply :: "('a \<Rightarrow> col_reply) \<Rightarrow> QueryError + 'a \<Rightarrow> col_reply" where
  "reply f r = (case r of Inl e \<Rightarrow> Failed e | Inr x \<Rightarrow> f x)"

fun col_step ::
  "'i VectorIndex \<Rightarrow> 'l LexicalIndex \<Rightarrow> 'p PayloadStore \<Rightarrow> col_op \<Rightarrow>
   ('i, 'l, 'p) Collection \<Rightarrow> col_reply \<times> ('i, 'l, 'p) Collection" where
  "col_step V L P (Upsert i e doc payload) c =
     (case Collection_upsert V L P i e doc payload c of (r, c') \<Rightarrow> (reply (\<lambda>_. Done) r, c'))"
| "col_step V L P (Delete i) c =
     (case Collection_delete V L P i c of (r, c') \<Rightarrow> (reply Deleted r, c'))"
| "col_step V L P (Delete_by_filter f) c =
     (case Collection_delete_by_filter V L P f c of (r, c') \<Rightarrow> (reply Deleted_count r, c'))"

text \<open>A sequence of requests, with the replies in order.\<close>

fun run_steps :: "('o \<Rightarrow> 's \<Rightarrow> 'r \<times> 's) \<Rightarrow> 'o list \<Rightarrow> 's \<Rightarrow> 'r list \<times> 's" where
  "run_steps f [] s = ([], s)"
| "run_steps f (a # ops) s =
     (case f a s of (r, s') \<Rightarrow> (case run_steps f ops s' of (rs, s'') \<Rightarrow> (r # rs, s'')))"

definition empty_spec :: col_spec where
  "empty_spec = \<lparr>sp_vectors = Map.empty, sp_docs = Map.empty, sp_payloads = Map.empty\<rparr>"

text \<open>The vectors a search may return: those whose payload passes the filter.\<close>

definition passes :: "Filter option \<Rightarrow> (VectorId \<rightharpoonup> Payload) \<Rightarrow> VectorId \<Rightarrow> bool" where
  "passes f st i = (case f of None \<Rightarrow> True | Some f \<Rightarrow> i \<in> selected f st)"

definition hit_of :: "(VectorId \<rightharpoonup> Payload) \<Rightarrow> VectorId \<Rightarrow> Score \<Rightarrow> SearchHit" where
  "hit_of st i s = \<lparr>hit_id = i, hit_score = s, hit_payload = st i\<rparr>"

section \<open>The contract of a collection\<close>

lemma run_steps_append:
  "run_steps f (xs @ ys) s =
     (case run_steps f xs s of (rs, s') \<Rightarrow> (case run_steps f ys s' of (rs', s'') \<Rightarrow> (rs @ rs', s'')))"
  by (induction xs arbitrary: s) (simp_all split: prod.split)

locale collection =
  vi: fitting_index V iok contents room admits + lx: total_lexical U ln_f L lok docs + ps: total_store P pok payloads
  for V :: "'i VectorIndex" and iok contents room admits and U ln_f and L :: "'l LexicalIndex" and lok docs
    and P :: "'p PayloadStore" and pok payloads
begin

definition col_ok :: "('i, 'l, 'p) Collection \<Rightarrow> bool" where
  "col_ok c \<longleftrightarrow> iok (col_index c) \<and> lok (col_lexical c) \<and> pok (col_payloads c)"

definition col_view :: "('i, 'l, 'p) Collection \<Rightarrow> col_spec" where
  "col_view c = \<lparr>sp_vectors = contents (col_index c), sp_docs = docs (col_lexical c),
     sp_payloads = payloads (col_payloads c)\<rparr>"

text \<open>\<open>good d m c\<close>: a well-formed collection of dimension \<open>d\<close> and default metric \<open>m\<close>.\<close>

definition good :: "Dimension \<Rightarrow> Metric \<Rightarrow> ('i, 'l, 'p) Collection \<Rightarrow> bool" where
  "good d m c \<longleftrightarrow> col_ok c \<and> vi_dimension V (col_index c) = d \<and> vi_metric V (col_index c) = m"

lemma len_view: "col_ok c \<Longrightarrow> Collection_len V c = card (dom (sp_vectors (col_view c)))"
  by (simp add: Collection_len_def col_ok_def col_view_def vi.len_contents)

lemma upsert_refines:
  assumes "good d m c" "room (Suc n) (col_index c)" "admits d e"
  shows "\<exists>r c'. Collection_upsert V L P i e doc payload c = (r, c') \<and> good d m c' \<and> room n (col_index c') \<and>
    (reply (\<lambda>_. Done) r, col_view c') = col_spec_step U d (Upsert i e doc payload) (col_view c)"
proof -
  from assms(1) have ok: "iok (col_index c)" "lok (col_lexical c)" "pok (col_payloads c)"
    and d: "vi_dimension V (col_index c) = d" "vi_metric V (col_index c) = m"
    by (simp_all add: good_def col_ok_def)
  obtain index where index: "vi_remove V i (col_index c) = (Inr (contents (col_index c) i \<noteq> None), index)"
    "iok index" "contents index = (contents (col_index c))(i := None)"
    "vi_dimension V index = d" "vi_metric V index = m" "room (Suc n) index"
    using vi.remove_spec [OF ok(1), of i] d assms(2) by auto
  note adm = assms(3) [folded index(4)]
  show ?thesis
  proof (cases "Embedding_dimension e = d")
    case False
    then show ?thesis using vi.insert_mismatch [OF index(2,6) adm, of i] index ok
      by (auto simp: Collection_upsert_def good_def col_ok_def col_view_def reply_def)
  next
    case True
    obtain index' where index': "vi_insert V i e index = (Inr (), index')" "iok index'"
      "contents index' = (contents (col_index c))(i \<mapsto> e)" "vi_dimension V index' = d" "vi_metric V index' = m" "room n index'"
      using vi.insert_spec [OF index(2,6) adm, of i] True index by auto
    obtain lexical where lexical: "(case doc of Some document \<Rightarrow> lx_insert L i document (col_lexical c)
        | None \<Rightarrow> lx_remove L i (col_lexical c)) = (Inr (), lexical)" "lok lexical"
      "docs lexical = (docs (col_lexical c))(i := map_option (bag U) doc)"
      using lx.insert_spec [OF ok(2)] lx.remove_spec [OF ok(2)] by (cases doc) fastforce+
    have "\<exists>pay. (case payload of Some payload \<Rightarrow> ps_set P i payload (col_payloads c)
        | None \<Rightarrow> (case ps_remove P i (col_payloads c) of
                         (r, payloads) \<Rightarrow> (map_res (\<lambda>_. ()) r, payloads))) = (Inr (), pay) \<and> pok pay \<and>
      payloads pay = (payloads (col_payloads c))(i := payload)"
    proof (cases payload)
      case None
      then show ?thesis using ps.remove_spec [OF ok(3), of i] by auto
    next
      case (Some p)
      then show ?thesis using ps.set_spec [OF ok(3), of i p] by auto
    qed
    then obtain pay where pay: "(case payload of Some payload \<Rightarrow> ps_set P i payload (col_payloads c)
        | None \<Rightarrow> (case ps_remove P i (col_payloads c) of
                         (r, payloads) \<Rightarrow> (map_res (\<lambda>_. ()) r, payloads))) = (Inr (), pay)" "pok pay"
      "payloads pay = (payloads (col_payloads c))(i := payload)" by blast
    show ?thesis using True
      by (simp add: Collection_upsert_def index index' lexical pay good_def col_ok_def col_view_def reply_def)
  qed
qed

lemma delete_refines:
  assumes "good d m c"
  shows "\<exists>c'. Collection_delete V L P i c = (Inr (sp_vectors (col_view c) i \<noteq> None), c') \<and> good d m c' \<and>
    (\<forall>n. room n (col_index c) \<longrightarrow> room n (col_index c')) \<and> col_view c' = drop_ids {i} (col_view c)"
proof -
  from assms have ok: "iok (col_index c)" "lok (col_lexical c)" "pok (col_payloads c)"
    and d: "vi_dimension V (col_index c) = d" "vi_metric V (col_index c) = m"
    by (simp_all add: good_def col_ok_def)
  have drop: "f(i := None) = f |` (- {i})" for f :: "VectorId \<rightharpoonup> 'x"
    by (auto simp: restrict_map_def)
  show ?thesis
    using vi.remove_spec [OF ok(1), of i] lx.remove_spec [OF ok(2), of i] ps.remove_spec [OF ok(3), of i] d
    by (auto simp: Collection_delete_def good_def col_ok_def col_view_def drop_ids_def drop)
qed

lemma drop_ids_empty: "drop_ids {} st = st"
  by (simp add: drop_ids_def restrict_map_def)

lemma drop_ids_drop_ids: "drop_ids S (drop_ids T st) = drop_ids (S \<union> T) st"
  by (simp add: drop_ids_def Int_commute)

lemma delete_each_refines:
  "good d m c \<Longrightarrow> distinct ids \<Longrightarrow>
   \<exists>c'. delete_each V L P ids n c = (Inr (n + card (set ids \<inter> dom (sp_vectors (col_view c)))), c') \<and>
     good d m c' \<and> (\<forall>n. room n (col_index c) \<longrightarrow> room n (col_index c')) \<and> col_view c' = drop_ids (set ids) (col_view c)"
proof (induction ids arbitrary: n c)
  case Nil
  then show ?case by (simp add: drop_ids_empty)
next
  case (Cons i ids)
  obtain c1 where c1: "Collection_delete V L P i c = (Inr (sp_vectors (col_view c) i \<noteq> None), c1)"
    "good d m c1" "col_view c1 = drop_ids {i} (col_view c)" "\<forall>n. room n (col_index c) \<longrightarrow> room n (col_index c1)"
    using delete_refines [OF Cons.prems(1)] by blast
  let ?D = "dom (sp_vectors (col_view c))"
  have i: "i \<notin> set ids" "distinct ids" using Cons.prems(2) by simp_all
  have d1: "dom (sp_vectors (col_view c1)) = ?D - {i}" by (auto simp: c1(3) drop_ids_def)
  have "set (i # ids) \<inter> ?D = (if i \<in> ?D then insert i (set ids \<inter> ?D) else set ids \<inter> ?D)" by auto
  moreover have "set ids \<inter> (?D - {i}) = set ids \<inter> ?D" using i by auto
  ultimately have n: "n + card (set (i # ids) \<inter> ?D) =
      (if sp_vectors (col_view c) i \<noteq> None then n + 1 else n) + card (set ids \<inter> dom (sp_vectors (col_view c1)))"
    using i(1) by (auto simp: d1 domIff)
  obtain c' where c': "delete_each V L P ids (if sp_vectors (col_view c) i \<noteq> None then n + 1 else n) c1 =
      (Inr (n + card (set (i # ids) \<inter> ?D)), c')"
    "good d m c'" "col_view c' = drop_ids (set ids) (col_view c1)" "\<forall>n. room n (col_index c1) \<longrightarrow> room n (col_index c')"
    using Cons.IH [OF c1(2) i(2)] n by metis
  have "delete_each V L P (i # ids) n c = (Inr (n + card (set (i # ids) \<inter> ?D)), c')"
    using c'(1) by (simp only: delete_each.simps c1(1) prod.case sum.case)
  with c' c1(4) show ?case by (intro exI [of _ c']) (simp add: c1(3) drop_ids_drop_ids)
qed

lemma delete_by_filter_refines:
  assumes "good d m c"
  shows "\<exists>c'. Collection_delete_by_filter V L P f c =
      (Inr (card (selected f (sp_payloads (col_view c)) \<inter> dom (sp_vectors (col_view c)))), c') \<and> good d m c' \<and>
    (\<forall>n. room n (col_index c) \<longrightarrow> room n (col_index c')) \<and> col_view c' = drop_ids (selected f (sp_payloads (col_view c))) (col_view c)"
proof -
  have "pok (col_payloads c)" using assms by (simp add: good_def col_ok_def)
  from ps.matching_spec [OF this, of "Filter_compile f"]
  obtain ids where ids: "ps_matching_ids P (Filter_compile f) (col_payloads c) = Inr ids" "distinct ids"
    "set ids = selected f (sp_payloads (col_view c))"
    by (auto simp: col_view_def Filter_compile_def)
  show ?thesis using delete_each_refines [OF assms ids(2), of 0]
    by (simp add: Collection_delete_by_filter_def ids(1,3))
qed

definition step_admits :: "Dimension \<Rightarrow> col_op \<Rightarrow> bool" where
  "step_admits d a \<longleftrightarrow> (case a of Upsert _ e _ _ \<Rightarrow> admits d e | _ \<Rightarrow> True)"

lemma step_refines:
  assumes "good d m c" "room (Suc n) (col_index c)" "step_admits d a"
  shows "\<exists>r c'. col_step V L P a c = (r, c') \<and> good d m c' \<and> room n (col_index c') \<and>
    (r, col_view c') = col_spec_step U d a (col_view c)"
proof (cases a)
  case (Upsert i e doc payload)
  then have "admits d e" using assms(3) by (simp add: step_admits_def)
  with Upsert show ?thesis using upsert_refines [OF assms(1,2), of e i doc payload] by fastforce
next
  case (Delete i)
  then show ?thesis using delete_refines [OF assms(1), of i] vi.room_mono [OF assms(2)]
    by (fastforce simp: reply_def)
next
  case (Delete_by_filter f)
  then show ?thesis using delete_by_filter_refines [OF assms(1), of f] vi.room_mono [OF assms(2)]
    by (fastforce simp: reply_def Let_def)
qed

lemma run_refines:
  "good d m c \<Longrightarrow> room (length ops) (col_index c) \<Longrightarrow> list_all (step_admits d) ops \<Longrightarrow>
   \<exists>rs c'. run_steps (col_step V L P) ops c = (rs, c') \<and> good d m c' \<and>
     (rs, col_view c') = run_steps (col_spec_step U d) ops (col_view c)"
proof (induction ops arbitrary: c)
  case (Cons a ops)
  then have r: "room (Suc (length ops)) (col_index c)" and a: "step_admits d a" and ops: "list_all (step_admits d) ops"
    by simp_all
  obtain r c1 where c1: "col_step V L P a c = (r, c1)" "good d m c1" "room (length ops) (col_index c1)"
    "(r, col_view c1) = col_spec_step U d a (col_view c)"
    using step_refines [OF Cons.prems(1) r a] by blast
  from Cons.IH [OF c1(2,3) ops] show ?case by (auto simp: c1(1) c1(4) [symmetric] split: prod.splits)
qed auto

text \<open>Search: the hydrated result of the index over the ids whose payload passes the filter.\<close>

lemma hydrate_good:
  "good d m c \<Longrightarrow> hydrate P (col_payloads c) i s = Inr (hit_of (sp_payloads (col_view c)) i s)"
  by (simp add: good_def col_ok_def hydrate_def hit_of_def col_view_def ps.get_total)

lemma search_sound:
  assumes "good d m c"
  shows "case Collection_search V P query c of
      Inl err \<Rightarrow>
        (let metric = (case sq_metric query of Some m' \<Rightarrow> m' | None \<Rightarrow> m) in
         if metric \<notin> set (vi_supported_metrics V (col_index c)) then err = Qe_UnsupportedMetric metric
         else Embedding_dimension (sq_embedding query) \<noteq> d \<and>
           err = Qe_Index (DimensionMismatch (Dimension_get d) (Dimension_get (Embedding_dimension (sq_embedding query)))))
    | Inr hits \<Rightarrow> \<exists>ns metric. metric = (case sq_metric query of Some m' \<Rightarrow> m' | None \<Rightarrow> m) \<and>
        metric \<in> set (vi_supported_metrics V (col_index c)) \<and> Embedding_dimension (sq_embedding query) = d \<and>
        vi_search_filtered V (sq_embedding query) (sq_k query) metric
          (passes (sq_filter query) (sp_payloads (col_view c))) (col_index c) = Inr ns \<and>
        hits = map (\<lambda>n. hit_of (sp_payloads (col_view c)) (neighbor_id n) (neighbor_score n)) ns"
proof -
  define metric where "metric = (case sq_metric query of Some m' \<Rightarrow> m' | None \<Rightarrow> m)"
  define adm where "adm = passes (sq_filter query) (sp_payloads (col_view c))"
  from assms have ok: "iok (col_index c)" "pok (col_payloads c)"
    and d: "vi_dimension V (col_index c) = d" "vi_metric V (col_index c) = m"
    by (simp_all add: good_def col_ok_def)
  let ?ns = "vi_search_filtered V (sq_embedding query) (sq_k query) metric adm (col_index c)"
  have adm: "(\<lambda>_. True) = adm" if "sq_filter query = None"
    using that by (simp add: adm_def passes_def fun_eq_iff)
  have adm': "\<exists>ids. ps_matching_ids P (Filter_compile f) (col_payloads c) = Inr ids \<and> (\<lambda>i. i \<in> set ids) = adm"
    if "sq_filter query = Some f" for f
    using that ps.matching_spec [OF ok(2), of "Filter_compile f"]
    by (auto simp: adm_def passes_def fun_eq_iff col_view_def Filter_compile_def)
  have s: "Collection_search V P query c =
      (if metric \<notin> set (vi_supported_metrics V (col_index c)) then Inl (Qe_UnsupportedMetric metric)
       else res_bind (map_err Qe_Index ?ns)
         (traverse (\<lambda>n. hydrate P (col_payloads c) (neighbor_id n) (neighbor_score n))))"
  proof -
    have mm: "(case sq_metric query of None \<Rightarrow> vi_metric V (col_index c) | Some m \<Rightarrow> m) = metric"
      by (simp add: metric_def d(2) cong: option.case_cong)
    show ?thesis
    proof (cases "sq_filter query")
      case None
      with adm [OF None] show ?thesis by (simp add: Collection_search_def Let_def mm)
    next
      case (Some f)
      with adm' [OF Some] show ?thesis by (auto simp: Collection_search_def Let_def mm)
    qed
  qed
  have tr: "traverse (\<lambda>n. hydrate P (col_payloads c) (neighbor_id n) (neighbor_score n)) ns =
      Inr (map (\<lambda>n. hit_of (sp_payloads (col_view c)) (neighbor_id n) (neighbor_score n)) ns)" for ns
    by (rule traverse_all_Inr) (rule hydrate_good [OF assms])
  show ?thesis
  proof (cases "metric \<in> set (vi_supported_metrics V (col_index c))")
    case False
    then show ?thesis by (simp add: s metric_def [symmetric])
  next
    case True
    show ?thesis
    proof (cases "Embedding_dimension (sq_embedding query) = d")
      case dim: True
      with vi.search_total [OF ok(1) True] d(1) obtain ns where "?ns = Inr ns" by blast
      with True dim show ?thesis by (auto simp: s tr metric_def [symmetric] adm_def [symmetric])
    next
      case False
      with True vi.search_mismatch [OF ok(1) True] d(1) show ?thesis
        by (simp add: s metric_def [symmetric])
    qed
  qed
qed

end

section \<open>The collections the program builds\<close>

interpretation flat_collection: collection FlatIndex_index flat_ok flat_contents "\<lambda>_ _. True" "\<lambda>_ _. True"
    U ln_f "InMemoryLexicalIndex_index U ln_f" im_ok im_bags InMemoryPayloadStore_store pm_ok pm_contents
  by unfold_locales

interpretation hnsw_collection: collection "HnswIndex_index ln_h" hnsw_ok hnsw_contents "\<lambda>_ _. True" "\<lambda>_ _. True"
    U ln_f "InMemoryLexicalIndex_index U ln_f" im_ok im_bags InMemoryPayloadStore_store pm_ok pm_contents
  by unfold_locales

definition flat_collection_run ::
  "Unicode \<Rightarrow> (f64 \<Rightarrow> f64) \<Rightarrow> Metric \<Rightarrow> Dimension \<Rightarrow> col_op list \<Rightarrow>
   col_reply list \<times> (FlatIndex, InMemoryLexicalIndex, InMemoryPayloadStore) Collection" where
  "flat_collection_run U ln_f m d ops =
     run_steps (col_step FlatIndex_index (InMemoryLexicalIndex_index U ln_f) InMemoryPayloadStore_store) ops
       (Collection_new (FlatIndex_new m d) InMemoryLexicalIndex_new InMemoryPayloadStore_new)"

definition hnsw_collection_run ::
  "Unicode \<Rightarrow> (f64 \<Rightarrow> f64) \<Rightarrow> (f64 \<Rightarrow> f64) \<Rightarrow> HnswConfig \<Rightarrow> Dimension \<Rightarrow> col_op list \<Rightarrow>
   col_reply list \<times> (HnswIndex, InMemoryLexicalIndex, InMemoryPayloadStore) Collection" where
  "hnsw_collection_run U ln_f ln_h cfg d ops =
     run_steps (col_step (HnswIndex_index ln_h) (InMemoryLexicalIndex_index U ln_f) InMemoryPayloadStore_store) ops
       (Collection_new (HnswIndex_new cfg d) InMemoryLexicalIndex_new InMemoryPayloadStore_new)"

definition col_maps ::
  "('i \<Rightarrow> VectorId \<rightharpoonup> Embedding) \<Rightarrow> ('i, InMemoryLexicalIndex, InMemoryPayloadStore) Collection \<Rightarrow> col_spec" where
  "col_maps vectors c = \<lparr>sp_vectors = vectors (col_index c), sp_docs = im_bags (col_lexical c),
     sp_payloads = pm_contents (col_payloads c)\<rparr>"

lemma pm_new_ok [simp]:
  "pm_ok InMemoryPayloadStore_new" "pm_contents InMemoryPayloadStore_new = Map.empty"
  by (simp_all add: pm_ok_def pm_contents_def InMemoryPayloadStore_new_def)

lemma memory_admits: "list_all (flat_collection.step_admits d) ops" "list_all (hnsw_collection.step_admits d) ops"
  by (simp_all add: list_all_iff flat_collection.step_admits_def split: col_op.split)

lemma flat_collection_run_ok:
  obtains rs c where "flat_collection_run U ln_f m d ops = (rs, c)" "flat_collection.good d m c"
    "(rs, col_maps flat_contents c) = run_steps (col_spec_step U d) ops empty_spec"
    "flat_collection.col_view c = col_maps flat_contents c"
proof -
  let ?c0 = "Collection_new (FlatIndex_new m d) InMemoryLexicalIndex_new InMemoryPayloadStore_new"
  have good: "flat_collection.good d m ?c0"
    by (simp add: flat_collection.good_def flat_collection.col_ok_def Collection_new_def im_new_ok)
      (simp add: FlatIndex_index_def FlatIndex_new_def)
  have view: "flat_collection.col_view ?c0 = empty_spec"
    by (simp add: flat_collection.col_view_def Collection_new_def im_new_ok empty_spec_def)
  have maps: "flat_collection.col_view c = col_maps flat_contents c" for c
    by (simp add: flat_collection.col_view_def col_maps_def)
  show ?thesis
    using flat_collection.run_refines [OF good, of ops U ln_f, OF TrueI memory_admits(1), unfolded view, unfolded maps] that maps
    unfolding flat_collection_run_def by blast
qed

lemma hnsw_collection_run_ok:
  assumes "config_ok cfg"
  obtains rs c where "hnsw_collection_run U ln_f ln_h cfg d ops = (rs, c)"
    "hnsw_collection.good ln_h d (cfg_metric cfg) c"
    "(rs, col_maps hnsw_contents c) = run_steps (col_spec_step U d) ops empty_spec"
    "hnsw_collection.col_view c = col_maps hnsw_contents c"
proof -
  let ?c0 = "Collection_new (HnswIndex_new cfg d) InMemoryLexicalIndex_new InMemoryPayloadStore_new"
  have good: "hnsw_collection.good ln_h d (cfg_metric cfg) ?c0"
    by (simp add: hnsw_collection.good_def hnsw_collection.col_ok_def Collection_new_def im_new_ok hnsw_new_ok assms)
      (simp add: HnswIndex_index_def HnswIndex_new_def)
  have view: "hnsw_collection.col_view ?c0 = empty_spec"
    by (simp add: hnsw_collection.col_view_def Collection_new_def im_new_ok empty_spec_def hnsw_new_ok)
  have maps: "hnsw_collection.col_view c = col_maps hnsw_contents c" for c
    by (simp add: hnsw_collection.col_view_def col_maps_def)
  show ?thesis
    using hnsw_collection.run_refines [OF good, of ops U ln_f, OF TrueI memory_admits(2), unfolded view, unfolded maps] that maps
    unfolding hnsw_collection_run_def by blast
qed

lemma flat_supports [simp]: "m \<in> set (vi_supported_metrics FlatIndex_index i)"
  by (cases m) (simp_all add: FlatIndex_index_def)

section \<open>Properties\<close>

text \<open>
  C20. A collection is three maps. For every sequence of upserts, deletions and deletions by filter, the flat and
  the HNSW collection give exactly the replies of the abstract machine and hold its vectors, bags of tokens and
  payloads: deletions by filter report the number of vectors removed whatever the iteration order of
  the matching ids, and the two kinds of collection cannot be told apart by these requests.
\<close>

theorem collection_refines_maps:
  assumes "config_ok cfg"
  shows "(case flat_collection_run U ln_f m d ops of (rs, c) \<Rightarrow> (rs, col_maps flat_contents c)) =
      run_steps (col_spec_step U d) ops empty_spec \<and>
    (case hnsw_collection_run U ln_f ln_h cfg d ops of (rs, c) \<Rightarrow> (rs, col_maps hnsw_contents c)) =
      run_steps (col_spec_step U d) ops empty_spec"
proof
  show "(case flat_collection_run U ln_f m d ops of (rs, c) \<Rightarrow> (rs, col_maps flat_contents c)) =
      run_steps (col_spec_step U d) ops empty_spec"
    by (rule flat_collection_run_ok [of U ln_f m d ops]) simp
  show "(case hnsw_collection_run U ln_f ln_h cfg d ops of (rs, c) \<Rightarrow> (rs, col_maps hnsw_contents c)) =
      run_steps (col_spec_step U d) ops empty_spec"
    by (rule hnsw_collection_run_ok [OF assms, of U ln_f ln_h d ops]) simp
qed

lemma collection_refines_maps_witness:
  "config_ok HnswConfig_default \<and>
   fst (flat_collection_run ascii (\<lambda>x. x) Cosine (Dimension 1)
      [Upsert (VectorId 1) (Embedding [0]) None (Some (Payload [])), Delete (VectorId 1), Delete (VectorId 1)]) =
   fst (hnsw_collection_run ascii (\<lambda>x. x) (\<lambda>x. x) HnswConfig_default (Dimension 1)
      [Upsert (VectorId 1) (Embedding [0]) None (Some (Payload [])), Delete (VectorId 1), Delete (VectorId 1)])"
  using collection_refines_maps [OF config_ok_default, of ascii "\<lambda>x. x" Cosine "Dimension 1"
      "[Upsert (VectorId 1) (Embedding [0]) None (Some (Payload [])), Delete (VectorId 1), Delete (VectorId 1)]" "\<lambda>x. x"]
    config_ok_default
  by (metis (mono_tags, lifting) case_prod_beta fst_conv)

text \<open>
  C21. Filtered search of a flat collection is exact: the hits are the top \<open>k\<close> of the stored vectors whose
  payload passes the filter (a vector without payload never passes one), under the requested or
  the default metric, each with its own payload; only a wrong dimension is refused.
\<close>

theorem collection_search_exact:
  "case (flat_collection_run U ln_f m d ops, snd (run_steps (col_spec_step U d) ops empty_spec)) of
    ((rs, c), st) \<Rightarrow>
      (case Collection_search FlatIndex_index InMemoryPayloadStore_store query c of
         Inl err \<Rightarrow> Embedding_dimension (sq_embedding query) \<noteq> d \<and> err = Qe_Index (DimensionMismatch
             (Dimension_get d) (Dimension_get (Embedding_dimension (sq_embedding query))))
       | Inr hits \<Rightarrow> Embedding_dimension (sq_embedding query) = d \<and>
           (\<exists>ns. is_top_k (sq_k query)
               (candidates (case sq_metric query of Some m' \<Rightarrow> m' | None \<Rightarrow> m) (sq_embedding query)
                 (passes (sq_filter query) (sp_payloads st)) (sp_vectors st)) ns \<and>
             hits = map (\<lambda>n. hit_of (sp_payloads st) (neighbor_id n) (neighbor_score n)) ns))"
proof (rule flat_collection_run_ok [of U ln_f m d ops])
  fix rs c
  assume run: "flat_collection_run U ln_f m d ops = (rs, c)" and good: "flat_collection.good d m c"
    and st: "(rs, col_maps flat_contents c) = run_steps (col_spec_step U d) ops empty_spec"
    and view: "flat_collection.col_view c = col_maps flat_contents c"
  have st': "snd (run_steps (col_spec_step U d) ops empty_spec) = col_maps flat_contents c"
    by (simp add: st [symmetric])
  have ok: "flat_ok (col_index c)"
    using good by (simp add: flat_collection.good_def flat_collection.col_ok_def)
  have "sp_vectors (col_maps flat_contents c) = flat_contents (col_index c)" by (simp add: col_maps_def)
  then show ?thesis
    using flat_collection.search_sound [OF good, of query]
    by (auto simp: run st' view Let_def split: sum.splits dest!: flat_exact.search_exact [OF ok])
qed

text \<open>
  C22. Filtered search of an HNSW collection is sound: at most \<open>k\<close> hits, distinct ids, in order of
  descending score, each stored and passing the filter, with its exact score and its own payload; it is refused only
  for a metric other than the index's or a wrong dimension.
\<close>

theorem hnsw_collection_search_sound:
  assumes "config_ok cfg"
  shows "case (hnsw_collection_run U ln_f ln_h cfg d ops, snd (run_steps (col_spec_step U d) ops empty_spec)) of
    ((rs, c), st) \<Rightarrow>
      (case Collection_search (HnswIndex_index ln_h) InMemoryPayloadStore_store query c of
         Inl err \<Rightarrow> (\<exists>m'. sq_metric query = Some m' \<and> m' \<noteq> cfg_metric cfg \<and> err = Qe_UnsupportedMetric m') \<or>
           (Embedding_dimension (sq_embedding query) \<noteq> d \<and> err = Qe_Index (DimensionMismatch
             (Dimension_get d) (Dimension_get (Embedding_dimension (sq_embedding query)))))
       | Inr hits \<Rightarrow> Embedding_dimension (sq_embedding query) = d \<and>
           (\<exists>ns. sorted (map neighbor_key ns) \<and> distinct (map neighbor_id ns) \<and> length ns \<le> sq_k query \<and>
             set ns \<subseteq> candidates (cfg_metric cfg) (sq_embedding query)
               (passes (sq_filter query) (sp_payloads st)) (sp_vectors st) \<and>
             hits = map (\<lambda>n. hit_of (sp_payloads st) (neighbor_id n) (neighbor_score n)) ns))"
proof (rule hnsw_collection_run_ok [OF assms, of U ln_f ln_h d ops])
  fix rs c
  assume run: "hnsw_collection_run U ln_f ln_h cfg d ops = (rs, c)"
    and good: "hnsw_collection.good ln_h d (cfg_metric cfg) c"
    and st: "(rs, col_maps hnsw_contents c) = run_steps (col_spec_step U d) ops empty_spec"
    and view: "hnsw_collection.col_view c = col_maps hnsw_contents c"
  have st': "snd (run_steps (col_spec_step U d) ops empty_spec) = col_maps hnsw_contents c"
    by (simp add: st [symmetric])
  have ok: "hnsw_ok (col_index c)" and metric: "vi_metric (HnswIndex_index ln_h) (col_index c) = cfg_metric cfg"
    using good by (simp_all add: hnsw_collection.good_def hnsw_collection.col_ok_def)
  have sup: "set (vi_supported_metrics (HnswIndex_index ln_h) (col_index c)) = {cfg_metric cfg}"
    using ok metric by (simp add: HnswIndex_index_def hnsw_ok_def)
  have "sp_vectors (col_maps hnsw_contents c) = hnsw_contents (col_index c)" by (simp add: col_maps_def)
  then show ?thesis
    using hnsw_collection.search_sound [OF good, of query]
    by (auto simp: run st' view Let_def sup split: sum.splits option.splits if_splits
        dest!: hnsw.search_sound [OF ok])
qed

text \<open>
  C24. Deletion by filter purges, and nothing else is touched: the ids whose payload matches lose their vector, their
  document and their payload, every other id keeps all three as they were, and the count answered is that of the
  matching ids that had a vector. So no stored payload matches any more, and a filtered search of the right dimension
  returns nothing.
\<close>

theorem delete_by_filter_purges:
  "case (flat_collection_run U ln_f m d (ops @ [Delete_by_filter f]), flat_collection_run U ln_f m d ops) of
     ((rs, c), (rs0, c0)) \<Rightarrow>
       selected f (pm_contents (col_payloads c)) = {} \<and>
       (Embedding_dimension (sq_embedding query) = d \<longrightarrow>
         Collection_search FlatIndex_index InMemoryPayloadStore_store (query\<lparr>sq_filter := Some f\<rparr>) c = Inr []) \<and>
       (\<forall>i. (flat_contents (col_index c) i, im_bags (col_lexical c) i, pm_contents (col_payloads c) i) =
         (if i \<in> selected f (pm_contents (col_payloads c0)) then (None, None, None)
          else (flat_contents (col_index c0) i, im_bags (col_lexical c0) i, pm_contents (col_payloads c0) i))) \<and>
       last rs = Deleted_count (card (selected f (pm_contents (col_payloads c0)) \<inter> dom (flat_contents (col_index c0))))"
proof (rule flat_collection_run_ok [of U ln_f m d "ops @ [Delete_by_filter f]"],
    rule flat_collection_run_ok [of U ln_f m d ops])
  fix rs c rs0 c0
  assume run: "flat_collection_run U ln_f m d (ops @ [Delete_by_filter f]) = (rs, c)"
    and good: "flat_collection.good d m c"
    and st: "(rs, col_maps flat_contents c) = run_steps (col_spec_step U d) (ops @ [Delete_by_filter f]) empty_spec"
    and view: "flat_collection.col_view c = col_maps flat_contents c"
    and run0: "flat_collection_run U ln_f m d ops = (rs0, c0)"
    and st0: "(rs0, col_maps flat_contents c0) = run_steps (col_spec_step U d) ops empty_spec"
  let ?S = "selected f (pm_contents (col_payloads c0))"
  have "rs = rs0 @ [Deleted_count (card (?S \<inter> dom (flat_contents (col_index c0))))]"
    and drop: "col_maps flat_contents c = drop_ids ?S (col_maps flat_contents c0)"
    using st by (simp_all add: run_steps_append st0 [symmetric] Let_def col_maps_def)
  moreover from drop have pay: "pm_contents (col_payloads c) = pm_contents (col_payloads c0) |` (- ?S)"
    and vec: "flat_contents (col_index c) = flat_contents (col_index c0) |` (- ?S)"
    and lex: "im_bags (col_lexical c) = im_bags (col_lexical c0) |` (- ?S)"
    by (simp_all add: col_maps_def drop_ids_def)
  moreover have none: "selected f (pm_contents (col_payloads c)) = {}"
    by (auto simp: pay selected_def restrict_map_def)
  moreover have "Collection_search FlatIndex_index InMemoryPayloadStore_store (query\<lparr>sq_filter := Some f\<rparr>) c = Inr []"
    if "Embedding_dimension (sq_embedding query) = d"
  proof -
    have adm: "passes (Some f) (pm_contents (col_payloads c)) = (\<lambda>_. False)"
      by (simp add: passes_def none fun_eq_iff)
    have ok: "flat_ok (col_index c)"
      using good by (simp add: flat_collection.good_def flat_collection.col_ok_def)
    have "candidates k q (\<lambda>_. False) st = {}" for k q st by (simp add: candidates_def)
    then show ?thesis
      using flat_collection.search_sound [OF good, of "query\<lparr>sq_filter := Some f\<rparr>"] that flat.search_sound [OF ok]
      by (fastforce simp: view col_maps_def adm Let_def split: sum.splits)
  qed
  moreover have "(flat_contents (col_index c) i, im_bags (col_lexical c) i, pm_contents (col_payloads c) i) =
      (if i \<in> ?S then (None, None, None)
       else (flat_contents (col_index c0) i, im_bags (col_lexical c0) i, pm_contents (col_payloads c0) i))" for i
    unfolding vec lex pay by simp
  ultimately show ?thesis by (simp add: run run0)
qed

text \<open>
  C35. A failed upsert is not atomic. An upsert whose embedding has the wrong dimension is refused, yet the vector previously
  stored under the id is gone afterwards, while its document and its payload are still there: the
  removal comes before the insertion that validates the dimension.
\<close>

theorem failed_upsert_loses_vector:
  assumes "Embedding_dimension e \<noteq> d"
  shows "case (flat_collection_run U ln_f m d (ops @ [Upsert i e doc payload]), flat_collection_run U ln_f m d ops) of
     ((rs, c), (rs0, c0)) \<Rightarrow>
       last rs = Failed (Qe_Index (DimensionMismatch (Dimension_get d) (Dimension_get (Embedding_dimension e)))) \<and>
       flat_contents (col_index c) = (flat_contents (col_index c0))(i := None) \<and>
       im_bags (col_lexical c) = im_bags (col_lexical c0) \<and>
       pm_contents (col_payloads c) = pm_contents (col_payloads c0)"
proof (rule flat_collection_run_ok [of U ln_f m d "ops @ [Upsert i e doc payload]"],
    rule flat_collection_run_ok [of U ln_f m d ops])
  fix rs c rs0 c0
  assume run: "flat_collection_run U ln_f m d (ops @ [Upsert i e doc payload]) = (rs, c)"
    and st: "(rs, col_maps flat_contents c) = run_steps (col_spec_step U d) (ops @ [Upsert i e doc payload]) empty_spec"
    and run0: "flat_collection_run U ln_f m d ops = (rs0, c0)"
    and st0: "(rs0, col_maps flat_contents c0) = run_steps (col_spec_step U d) ops empty_spec"
  show ?thesis
    using st assms by (simp add: run run0 run_steps_append st0 [symmetric] col_maps_def)
qed

lemma failed_upsert_loses_vector_witness:
  "flat_contents (col_index (snd (flat_collection_run ascii (\<lambda>x. x) Cosine (Dimension 1)
      ([Upsert (VectorId 1) (Embedding [0]) None None] @ [Upsert (VectorId 1) (Embedding [0, 0]) None None]))))
    (VectorId 1) = None"
proof -
  have "Embedding_dimension (Embedding [0, 0]) \<noteq> Dimension 1"
    by (simp add: Embedding_dimension_def Dimension_new_def u32_max_def)
  from failed_upsert_loses_vector [OF this, where ops = "[Upsert (VectorId 1) (Embedding [0]) None None]"
      and i = "VectorId 1" and doc = None and payload = None and m = Cosine and U = ascii and ln_f = "\<lambda>x. x"]
  show ?thesis by (simp add: case_prod_beta)
qed

lemma hnsw_collection_search_sound_witness:
  "config_ok HnswConfig_default \<and>
   (case (hnsw_collection_run ascii (\<lambda>x. x) (\<lambda>x. x) HnswConfig_default (Dimension 1)
        [Upsert (VectorId 1) (Embedding [0]) None None],
      snd (run_steps (col_spec_step ascii (Dimension 1)) [Upsert (VectorId 1) (Embedding [0]) None None] empty_spec)) of
    ((rs, c), st) \<Rightarrow>
      (case Collection_search (HnswIndex_index (\<lambda>x. x)) InMemoryPayloadStore_store
          \<lparr>sq_embedding = Embedding [0], sq_k = 2, sq_metric = None, sq_filter = None\<rparr> c of
         Inl err \<Rightarrow> False
       | Inr hits \<Rightarrow> length hits \<le> 2))"
  using hnsw_collection_search_sound [OF config_ok_default, where U = ascii and ln_f = "\<lambda>x. x" and ln_h = "\<lambda>x. x"
      and d = "Dimension 1" and ops = "[Upsert (VectorId 1) (Embedding [0]) None None]"
      and query = "\<lparr>sq_embedding = Embedding [0], sq_k = 2, sq_metric = None, sq_filter = None\<rparr>"] config_ok_default
  by (auto simp: Embedding_dimension_def Dimension_new_def u32_max_def split: sum.splits)

lemma delete_by_filter_purges_witness:
  "case flat_collection_run ascii (\<lambda>x. x) Cosine (Dimension 1)
      ([Upsert (VectorId 1) (Embedding [0]) None (Some (Payload []))] @ [Delete_by_filter (FAnd [])]) of
     (rs, c) \<Rightarrow> Collection_search FlatIndex_index InMemoryPayloadStore_store
       (\<lparr>sq_embedding = Embedding [0], sq_k = 2, sq_metric = None, sq_filter = None\<rparr>\<lparr>sq_filter := Some (FAnd [])\<rparr>) c = Inr []"
  using delete_by_filter_purges [where f = "FAnd []" and U = ascii and ln_f = "\<lambda>x. x" and m = Cosine and d = "Dimension 1"
      and ops = "[Upsert (VectorId 1) (Embedding [0]) None (Some (Payload []))]"
      and query = "\<lparr>sq_embedding = Embedding [0], sq_k = 2, sq_metric = None, sq_filter = None\<rparr>"]
  by (auto simp: Embedding_dimension_def Dimension_new_def u32_max_def split: prod.splits)

end
