(* ===== verification/Hybrid.thy ===== *)
theory Hybrid
  imports Collection
begin

text \<open>
  \<open>HybridQuery\<close> and \<open>Collection::search_hybrid\<close> of \<open>eidosdb-query/src/hybrid.rs\<close>: the dense
  and the lexical channel, each fetched to a common depth, fused by Reciprocal Rank Fusion. The
  lemmas are stated in the locale \<open>collection\<close>, so for every index and store that meet the contracts.
\<close>

definition DEFAULT_RRF_K :: f64 where "DEFAULT_RRF_K = 0x404E000000000000"
definition DEFAULT_OVERFETCH_FACTOR :: nat where "DEFAULT_OVERFETCH_FACTOR = 4"

record HybridQuery =
  hq_vector :: "Embedding option"
  hq_text :: "string option"
  hq_k :: nat
  hq_filter :: "Filter option"
  hq_metric :: "Metric option"
  hq_rrf_k :: f64
  hq_overfetch_factor :: nat

definition dense_channel ::
  "'i VectorIndex \<Rightarrow> HybridQuery \<Rightarrow> nat \<Rightarrow> (VectorId \<Rightarrow> bool) \<Rightarrow> 'i \<Rightarrow> QueryError + (VectorId \<times> f64) list option" where
  "dense_channel V query depth is_admissible index =
     (case hq_vector query of
        Some embedding \<Rightarrow>
          (let metric = (case hq_metric query of Some m \<Rightarrow> m | None \<Rightarrow> vi_metric V index) in
           if metric \<notin> set (vi_supported_metrics V index) then Inl (Qe_UnsupportedMetric metric)
           else map_res (\<lambda>neighbors. Some (map (\<lambda>n. (neighbor_id n, f64_of_f32 (score_value (neighbor_score n)))) neighbors))
             (map_err Qe_Index (vi_search_filtered V embedding depth metric is_admissible index)))
      | None \<Rightarrow> Inr None)"

text \<open>The last branch is \<open>unreachable!()\<close>: a query with neither channel has been rejected.\<close>

definition rank_channels ::
  "f64 \<Rightarrow> (VectorId \<times> f64) list option \<Rightarrow> (VectorId \<times> f64) list option \<Rightarrow> (VectorId \<times> f64) list" where
  "rank_channels rrf_k dense lexical =
     (case (dense, lexical) of
        (Some dense, Some lexical) \<Rightarrow> fuse_rrf [map fst dense, map fst lexical] rrf_k
      | (Some single, None) \<Rightarrow> single
      | (None, Some single) \<Rightarrow> single
      | (None, None) \<Rightarrow> [])"

definition Collection_search_hybrid ::
  "'i VectorIndex \<Rightarrow> 'l LexicalIndex \<Rightarrow> 'p PayloadStore \<Rightarrow> HybridQuery \<Rightarrow> ('i, 'l, 'p) Collection \<Rightarrow>
   QueryError + SearchHit list" where
  "Collection_search_hybrid V L P query self =
     (if hq_vector query = None \<and> hq_text query = None then Inl EmptyQuery
      else
        res_bind
          (case hq_filter query of
             Some f \<Rightarrow> map_res Some (map_err Qe_Payload (ps_matching_ids P (Filter_compile f) (col_payloads self)))
           | None \<Rightarrow> Inr None)
          (\<lambda>allowed.
             let is_admissible = (\<lambda>i. case allowed of None \<Rightarrow> True | Some ids \<Rightarrow> i \<in> set ids);
                 depth = saturating_mul (hq_k query) (hq_overfetch_factor query)
             in res_bind (dense_channel V query depth is_admissible (col_index self))
               (\<lambda>dense.
                  let lexical = map_option
                        (\<lambda>text. lx_search_text_filtered L text depth is_admissible (col_lexical self)) (hq_text query)
                  in traverse (\<lambda>(i, score). hydrate P (col_payloads self) i (Score (f32_of_f64 score)))
                       (take (hq_k query) (rank_channels (hq_rrf_k query) dense lexical)))))"

section \<open>The result over the contracts\<close>

definition hybrid_depth :: "HybridQuery \<Rightarrow> nat" where
  "hybrid_depth query = saturating_mul (hq_k query) (hq_overfetch_factor query)"

lemma le_hybrid_depth:
  "hq_k query \<le> usize_max \<Longrightarrow> 1 \<le> hq_overfetch_factor query \<Longrightarrow> hq_k query \<le> hybrid_depth query"
  by (cases "hq_overfetch_factor query") (simp_all add: hybrid_depth_def saturating_mul_def)

context collection
begin

lemma hybrid_eq:
  assumes "good d m c" "hq_vector query \<noteq> None \<or> hq_text query \<noteq> None"
  shows "Collection_search_hybrid V L P query c =
    (let adm = passes (hq_filter query) (sp_payloads (col_view c)); depth = hybrid_depth query in
     map_res (\<lambda>dense. map (\<lambda>(i, s). hit_of (sp_payloads (col_view c)) i (Score (f32_of_f64 s)))
         (take (hq_k query) (rank_channels (hq_rrf_k query) dense
           (map_option (\<lambda>text. lx_search_text_filtered L text depth adm (col_lexical c)) (hq_text query)))))
       (dense_channel V query depth adm (col_index c)))"
proof -
  define adm where "adm = passes (hq_filter query) (sp_payloads (col_view c))"
  from assms(1) have ok: "pok (col_payloads c)" by (simp add: good_def col_ok_def)
  have "\<exists>allowed. (case hq_filter query of
             Some f \<Rightarrow> map_res Some (map_err Qe_Payload (ps_matching_ids P (Filter_compile f) (col_payloads c)))
           | None \<Rightarrow> Inr None) = Inr allowed \<and>
         (\<lambda>i. case allowed of None \<Rightarrow> True | Some ids \<Rightarrow> i \<in> set ids) = adm"
  proof (cases "hq_filter query")
    case None
    then show ?thesis by (simp add: adm_def passes_def fun_eq_iff)
  next
    case (Some f)
    then show ?thesis using ps.matching_spec [OF ok, of "Filter_compile f"]
      by (auto simp: adm_def passes_def fun_eq_iff col_view_def Filter_compile_def)
  qed
  then obtain allowed where al: "(case hq_filter query of
             Some f \<Rightarrow> map_res Some (map_err Qe_Payload (ps_matching_ids P (Filter_compile f) (col_payloads c)))
           | None \<Rightarrow> Inr None) = Inr allowed"
    "(\<lambda>i. case allowed of None \<Rightarrow> True | Some ids \<Rightarrow> i \<in> set ids) = adm" by blast
  have tr: "traverse (\<lambda>(i, score). hydrate P (col_payloads c) i (Score (f32_of_f64 score))) xs =
      Inr (map (\<lambda>(i, s). hit_of (sp_payloads (col_view c)) i (Score (f32_of_f64 s))) xs)" for xs
    by (rule traverse_all_Inr) (auto simp: hydrate_good [OF assms(1)])
  show ?thesis using assms(2)
    by (cases "dense_channel V query (hybrid_depth query) adm (col_index c)")
      (auto simp: Collection_search_hybrid_def Let_def al tr adm_def [symmetric] hybrid_depth_def [symmetric])
qed

end

section \<open>Properties\<close>

text \<open>What a score becomes on its way through the \<open>f64\<close> channel.\<close>

definition through_f64 :: "SearchHit \<Rightarrow> SearchHit" where
  "through_f64 h = h\<lparr>hit_score := Score (f32_of_f64 (f64_of_f32 (score_value (hit_score h))))\<rparr>"

lemma through_f64_id: "\<not> f32_nan (score_value (hit_score h)) \<Longrightarrow> through_f64 h = h"
  by (simp add: through_f64_def f32_of_f64_of_f32)

definition dense_query :: "Embedding \<Rightarrow> HybridQuery \<Rightarrow> SearchQuery" where
  "dense_query e query = \<lparr>sq_embedding = e, sq_k = hq_k query, sq_metric = hq_metric query, sq_filter = hq_filter query\<rparr>"

lemma dense_query_simps:
  "sq_embedding (dense_query e query) = e" "sq_k (dense_query e query) = hq_k query"
  "sq_metric (dense_query e query) = hq_metric query" "sq_filter (dense_query e query) = hq_filter query"
  by (simp_all add: dense_query_def)

lemma flat_search_take:
  "k \<le> n \<Longrightarrow> vi_search_filtered FlatIndex_index q k m adm i =
     map_res (take k) (vi_search_filtered FlatIndex_index q n m adm i)"
  by (simp add: FlatIndex_index_def FlatIndex_search_filtered_def min_absorb1)

text \<open>
  A hybrid query without text is the plain search: on a flat collection, for an over-fetch factor of at least one, it
  returns the hits of \<open>search\<close> for the same vector, metric, filter and \<open>k\<close>, errors included, and the
  detour of the scores through \<open>f64\<close> changes none that is a number.
\<close>

lemma hybrid_dense_is_search:
  assumes "hq_vector query = Some e" "hq_text query = None"
    and "hq_k query \<le> usize_max" "1 \<le> hq_overfetch_factor query"
  shows "case flat_collection_run U ln_f m d ops of (rs, c) \<Rightarrow>
    Collection_search_hybrid FlatIndex_index (InMemoryLexicalIndex_index U ln_f) InMemoryPayloadStore_store query c =
      map_res (map through_f64) (Collection_search FlatIndex_index InMemoryPayloadStore_store (dense_query e query) c) \<and>
    (\<forall>hits. Collection_search FlatIndex_index InMemoryPayloadStore_store (dense_query e query) c = Inr hits \<longrightarrow>
      (\<forall>h \<in> set hits. \<not> f32_nan (score_value (hit_score h))) \<longrightarrow>
      Collection_search_hybrid FlatIndex_index (InMemoryLexicalIndex_index U ln_f) InMemoryPayloadStore_store query c = Inr hits)"
proof (rule flat_collection_run_ok [of U ln_f m d ops])
  fix rs c
  assume run: "flat_collection_run U ln_f m d ops = (rs, c)" and good: "flat_collection.good d m c"
  let ?search = "Collection_search FlatIndex_index InMemoryPayloadStore_store (dense_query e query) c"
  let ?hybrid = "Collection_search_hybrid FlatIndex_index (InMemoryLexicalIndex_index U ln_f) InMemoryPayloadStore_store query c"
  define metric where "metric = (case hq_metric query of None \<Rightarrow> m | Some m' \<Rightarrow> m')"
  have met: "(case hq_metric query of None \<Rightarrow> vi_metric FlatIndex_index (col_index c) | Some m' \<Rightarrow> m') = metric"
    using good by (simp add: metric_def flat_collection.good_def cong: option.case_cong)
  define adm where "adm = passes (hq_filter query) (sp_payloads (flat_collection.col_view c))"
  define r where "r = vi_search_filtered FlatIndex_index e (hybrid_depth query) metric adm (col_index c)"
  have take: "vi_search_filtered FlatIndex_index e (hq_k query) metric adm (col_index c) = map_res (take (hq_k query)) r"
    unfolding r_def by (rule flat_search_take) (rule le_hybrid_depth [OF assms(3,4)])
  have h: "?hybrid = map_res (\<lambda>ns. map (\<lambda>n. hit_of (sp_payloads (flat_collection.col_view c)) (neighbor_id n)
        (Score (f32_of_f64 (f64_of_f32 (score_value (neighbor_score n)))))) (take (hq_k query) ns)) (map_err Qe_Index r)"
    using flat_collection.hybrid_eq [OF good, of query U ln_f] assms(1,2)
    by (cases r) (simp_all add: dense_channel_def rank_channels_def met Let_def adm_def [symmetric] r_def [symmetric]
        take_map comp_def)
  have dim: "vi_dimension FlatIndex_index (col_index c) = d" and ok: "flat_ok (col_index c)"
    using good by (simp_all add: flat_collection.good_def flat_collection.col_ok_def)
  note s = flat_collection.search_sound [OF good, of "dense_query e query", unfolded dense_query_simps,
      folded metric_def adm_def]
  have eq: "?hybrid = map_res (map through_f64) ?search"
  proof (cases r)
    case (Inl err)
    then show ?thesis using s take flat.search_total [OF ok flat_supports, where q = e and m = metric and k = "hybrid_depth query" and adm = adm]
        flat.search_mismatch [OF ok flat_supports, where q = e and m = metric and k = "hybrid_depth query" and adm = adm] dim
      by (auto simp: h r_def Let_def split: sum.splits)
  next
    case (Inr ns)
    then show ?thesis using s take flat.search_mismatch [OF ok flat_supports, where q = e and m = metric and k = "hybrid_depth query" and adm = adm] dim
      by (auto simp: h Let_def through_f64_def hit_of_def r_def split: sum.splits)
  qed
  have "?hybrid = Inr hits" if "?search = Inr hits" "\<forall>h \<in> set hits. \<not> f32_nan (score_value (hit_score h))" for hits
  proof -
    have "map through_f64 hits = hits" using that(2) by (intro map_idI) (simp add: through_f64_id)
    then show ?thesis by (simp add: eq that(1))
  qed
  with eq show ?thesis by (simp add: run)
qed

lemma hybrid_dense_is_search_witness:
  "case flat_collection_run ascii (\<lambda>x. x) DotProduct (Dimension 1) [Upsert (VectorId 1) (Embedding [0]) None None] of (rs, c) \<Rightarrow>
    Collection_search_hybrid FlatIndex_index (InMemoryLexicalIndex_index ascii (\<lambda>x. x)) InMemoryPayloadStore_store
        \<lparr>hq_vector = Some (Embedding [0]), hq_text = None, hq_k = 2, hq_filter = None, hq_metric = None,
         hq_rrf_k = DEFAULT_RRF_K, hq_overfetch_factor = DEFAULT_OVERFETCH_FACTOR\<rparr> c =
      map_res (map through_f64) (Collection_search FlatIndex_index InMemoryPayloadStore_store
        (dense_query (Embedding [0])
          \<lparr>hq_vector = Some (Embedding [0]), hq_text = None, hq_k = 2, hq_filter = None, hq_metric = None,
           hq_rrf_k = DEFAULT_RRF_K, hq_overfetch_factor = DEFAULT_OVERFETCH_FACTOR\<rparr>) c)"
  using hybrid_dense_is_search [where e = "Embedding [0]" and U = ascii and ln_f = "\<lambda>x. x" and m = DotProduct
      and d = "Dimension 1" and ops = "[Upsert (VectorId 1) (Embedding [0]) None None]"
      and query = "\<lparr>hq_vector = Some (Embedding [0]), hq_text = None, hq_k = 2, hq_filter = None, hq_metric = None,
         hq_rrf_k = DEFAULT_RRF_K, hq_overfetch_factor = DEFAULT_OVERFETCH_FACTOR\<rparr>"]
  by (auto simp: DEFAULT_OVERFETCH_FACTOR_def usize_max_def split: prod.splits)

text \<open>
  C23. A hybrid query fuses the true top lists. With both channels set and the right dimension, the hits of a flat collection
  are the first \<open>k\<close> of the Reciprocal Rank Fusion of two lists: the top \<open>k * overfetch\<close> vectors that pass
  the filter, and the top \<open>k * overfetch\<close> documents by BM25 that pass it; each hit has its own payload.
\<close>

theorem hybrid_fuses_top_lists:
  assumes "hq_vector query = Some e" "hq_text query = Some t" "Embedding_dimension e = d"
  shows "case (flat_collection_run U ln_f m d ops, snd (run_steps (col_spec_step U d) ops empty_spec)) of
    ((rs, c), st) \<Rightarrow> \<exists>dense lexical.
      is_top_k (saturating_mul (hq_k query) (hq_overfetch_factor query))
        (candidates (case hq_metric query of Some m' \<Rightarrow> m' | None \<Rightarrow> m) e
          (passes (hq_filter query) (sp_payloads st)) (sp_vectors st)) dense \<and>
      top_k scored_key (saturating_mul (hq_k query) (hq_overfetch_factor query))
        (bm25_results U ln_f (sp_docs st) t (passes (hq_filter query) (sp_payloads st))) lexical \<and>
      Collection_search_hybrid FlatIndex_index (InMemoryLexicalIndex_index U ln_f) InMemoryPayloadStore_store query c =
        Inr (map (\<lambda>(i, s). hit_of (sp_payloads st) i (Score (f32_of_f64 s)))
          (take (hq_k query) (fuse_rrf [map neighbor_id dense, map fst lexical] (hq_rrf_k query))))"
proof (rule flat_collection_run_ok [of U ln_f m d ops])
  fix rs c
  assume run: "flat_collection_run U ln_f m d ops = (rs, c)" and good: "flat_collection.good d m c"
    and st: "(rs, col_maps flat_contents c) = run_steps (col_spec_step U d) ops empty_spec"
    and view: "flat_collection.col_view c = col_maps flat_contents c"
  define stt where "stt = col_maps flat_contents c"
  have st': "snd (run_steps (col_spec_step U d) ops empty_spec) = stt"
    by (simp add: st [symmetric] stt_def)
  have vecs: "flat_contents (col_index c) = sp_vectors stt" and docs: "im_bags (col_lexical c) = sp_docs stt"
    by (simp_all add: stt_def col_maps_def)
  define metric where "metric = (case hq_metric query of None \<Rightarrow> m | Some m' \<Rightarrow> m')"
  define adm where "adm = passes (hq_filter query) (sp_payloads stt)"
  have ok: "flat_ok (col_index c)" "im_ok (col_lexical c)" and dim: "vi_dimension FlatIndex_index (col_index c) = d"
    using good by (simp_all add: flat_collection.good_def flat_collection.col_ok_def)
  have met: "(case hq_metric query of None \<Rightarrow> vi_metric FlatIndex_index (col_index c) | Some m' \<Rightarrow> m') = metric"
    using good by (simp add: metric_def flat_collection.good_def cong: option.case_cong)
  obtain ns where ns: "vi_search_filtered FlatIndex_index e (hybrid_depth query) metric adm (col_index c) = Inr ns"
    using flat.search_total [OF ok(1) flat_supports, where q = e and m = metric and k = "hybrid_depth query" and adm = adm]
      assms(3) dim by auto
  note flat_exact.search_exact [OF ok(1) ns, unfolded vecs]
    in_memory.search_exact [OF ok(2), of "hybrid_depth query" U ln_f t adm, unfolded docs]
  moreover have "Collection_search_hybrid FlatIndex_index (InMemoryLexicalIndex_index U ln_f) InMemoryPayloadStore_store query c =
        Inr (map (\<lambda>(i, s). hit_of (sp_payloads stt) i (Score (f32_of_f64 s)))
          (take (hq_k query) (fuse_rrf [map neighbor_id ns, map fst
            (lx_search_text_filtered (InMemoryLexicalIndex_index U ln_f) t (hybrid_depth query) adm (col_lexical c))]
            (hq_rrf_k query))))"
    using flat_collection.hybrid_eq [OF good, of query U ln_f] assms(1,2)
    by (simp add: dense_channel_def met ns Let_def view stt_def [symmetric] adm_def [symmetric] rank_channels_def comp_def)
  ultimately show ?thesis
    unfolding run st' prod.case hybrid_depth_def adm_def metric_def by blast
qed

lemma hybrid_fuses_top_lists_witness:
  "Embedding_dimension (Embedding [0]) = Dimension 1 \<and>
   (case flat_collection_run ascii (\<lambda>x. x) DotProduct (Dimension 1) [] of (rs, c) \<Rightarrow>
     \<exists>hits. Collection_search_hybrid FlatIndex_index (InMemoryLexicalIndex_index ascii (\<lambda>x. x)) InMemoryPayloadStore_store
        \<lparr>hq_vector = Some (Embedding [0]), hq_text = Some ''a'', hq_k = 2, hq_filter = None, hq_metric = None,
         hq_rrf_k = DEFAULT_RRF_K, hq_overfetch_factor = DEFAULT_OVERFETCH_FACTOR\<rparr> c = Inr hits)"
proof -
  have d: "Embedding_dimension (Embedding [0]) = Dimension 1"
    by (simp add: Embedding_dimension_def Dimension_new_def u32_max_def)
  show ?thesis
    using hybrid_fuses_top_lists [OF _ _ d, where U = ascii and ln_f = "\<lambda>x. x" and m = DotProduct
        and ops = "[]" and t = "''a''"
        and query = "\<lparr>hq_vector = Some (Embedding [0]), hq_text = Some ''a'', hq_k = 2, hq_filter = None, hq_metric = None,
         hq_rrf_k = DEFAULT_RRF_K, hq_overfetch_factor = DEFAULT_OVERFETCH_FACTOR\<rparr>"] d
    by (auto split: prod.splits)
qed

text \<open>
  A hybrid query without vector is text search: for an over-fetch factor of at least one, the hits are the top
  \<open>k\<close> documents by BM25 among those whose payload passes the filter, by descending score and ascending id, whatever
  the index of the collection (a flat one here), each with its payload; a query with neither channel is refused.
\<close>

lemma hybrid_text_is_bm25:
  assumes "hq_vector query = None" "hq_text query = Some t"
    and "hq_k query \<le> usize_max" "1 \<le> hq_overfetch_factor query"
  shows "case (flat_collection_run U ln_f m d ops, snd (run_steps (col_spec_step U d) ops empty_spec)) of
    ((rs, c), st) \<Rightarrow> \<exists>lexical.
      top_k scored_key (hq_k query)
        (bm25_results U ln_f (sp_docs st) t (passes (hq_filter query) (sp_payloads st))) lexical \<and>
      Collection_search_hybrid FlatIndex_index (InMemoryLexicalIndex_index U ln_f) InMemoryPayloadStore_store query c =
        Inr (map (\<lambda>(i, s). hit_of (sp_payloads st) i (Score (f32_of_f64 s))) lexical) \<and>
      Collection_search_hybrid FlatIndex_index (InMemoryLexicalIndex_index U ln_f) InMemoryPayloadStore_store
        (query\<lparr>hq_text := None\<rparr>) c = Inl EmptyQuery"
proof (rule flat_collection_run_ok [of U ln_f m d ops])
  fix rs c
  assume run: "flat_collection_run U ln_f m d ops = (rs, c)" and good: "flat_collection.good d m c"
    and st: "(rs, col_maps flat_contents c) = run_steps (col_spec_step U d) ops empty_spec"
    and view: "flat_collection.col_view c = col_maps flat_contents c"
  define stt where "stt = col_maps flat_contents c"
  have st': "snd (run_steps (col_spec_step U d) ops empty_spec) = stt"
    by (simp add: st [symmetric] stt_def)
  have docs: "im_bags (col_lexical c) = sp_docs stt" by (simp add: stt_def col_maps_def)
  have ok: "im_ok (col_lexical c)" using good by (simp add: flat_collection.good_def flat_collection.col_ok_def)
  define adm where "adm = passes (hq_filter query) (sp_payloads stt)"
  define xs where "xs = lx_search_text_filtered (InMemoryLexicalIndex_index U ln_f) t (hybrid_depth query) adm (col_lexical c)"
  have "top_k scored_key (hq_k query) (bm25_results U ln_f (sp_docs stt) t adm) (take (hq_k query) xs)"
    unfolding xs_def using in_memory.search_exact [OF ok, of "hybrid_depth query" U ln_f t adm, unfolded docs]
    by (rule scored_order.top_k_take) (rule le_hybrid_depth [OF assms(3,4)])
  moreover have "Collection_search_hybrid FlatIndex_index (InMemoryLexicalIndex_index U ln_f) InMemoryPayloadStore_store query c =
        Inr (map (\<lambda>(i, s). hit_of (sp_payloads stt) i (Score (f32_of_f64 s))) (take (hq_k query) xs))"
    using flat_collection.hybrid_eq [OF good, of query U ln_f] assms(1,2)
    by (simp add: dense_channel_def Let_def view stt_def [symmetric] adm_def [symmetric] xs_def [symmetric] rank_channels_def)
  moreover have "Collection_search_hybrid FlatIndex_index (InMemoryLexicalIndex_index U ln_f) InMemoryPayloadStore_store
        (query\<lparr>hq_text := None\<rparr>) c = Inl EmptyQuery"
    using assms(1) by (simp add: Collection_search_hybrid_def)
  ultimately show ?thesis unfolding run st' prod.case adm_def by blast
qed

lemma hybrid_text_is_bm25_witness:
  "case flat_collection_run ascii (\<lambda>x. x) DotProduct (Dimension 1) [] of (rs, c) \<Rightarrow>
     \<exists>hits. Collection_search_hybrid FlatIndex_index (InMemoryLexicalIndex_index ascii (\<lambda>x. x)) InMemoryPayloadStore_store
        \<lparr>hq_vector = None, hq_text = Some ''a'', hq_k = 2, hq_filter = None, hq_metric = None,
         hq_rrf_k = DEFAULT_RRF_K, hq_overfetch_factor = DEFAULT_OVERFETCH_FACTOR\<rparr> c = Inr hits"
  using hybrid_text_is_bm25 [where U = ascii and ln_f = "\<lambda>x. x" and m = DotProduct and d = "Dimension 1"
      and ops = "[]" and t = "''a''"
      and query = "\<lparr>hq_vector = None, hq_text = Some ''a'', hq_k = 2, hq_filter = None, hq_metric = None,
         hq_rrf_k = DEFAULT_RRF_K, hq_overfetch_factor = DEFAULT_OVERFETCH_FACTOR\<rparr>"]
  by (auto simp: DEFAULT_OVERFETCH_FACTOR_def usize_max_def split: prod.splits)

end
