(* ===== verification/Proto.thy ===== *)
theory Proto
  imports Bytes Hybrid
begin

text \<open>
  \<open>eidosdb-proto\<close>: the wire messages of \<open>proto/eidosdb/v1/eidosdb.proto\<close> as the code generator
  lays them out (a \<open>oneof\<close> or a message field is an option, a \<open>map\<close> a hash map, an enum
  field an \<open>i32\<close>; a message with one repeated field is that list, and \<open>ContainsFilter\<close> has the
  fields of \<open>Comparison\<close>), the conversions between them and the domain types, and the status codes. The
  \<open>Debug\<close> rendering of an id, which belongs to the UUID library, is the argument \<open>fmt_id\<close>.
\<close>

section \<open>Errors and their rendering\<close>

datatype ConversionError = MissingField string | Domain string

fun ConversionError_to_string :: "ConversionError \<Rightarrow> string" where
  "ConversionError_to_string (MissingField field) = ''missing required field: '' @ field"
| "ConversionError_to_string (Domain msg) = ''domain error: '' @ msg"

fun Metric_debug :: "Metric \<Rightarrow> string" where
  "Metric_debug Cosine = ''Cosine''"
| "Metric_debug DotProduct = ''DotProduct''"
| "Metric_debug Euclidean = ''Euclidean''"

fun IndexError_to_string :: "(VectorId \<Rightarrow> string) \<Rightarrow> IndexError \<Rightarrow> string" where
  "IndexError_to_string fmt_id (DimensionMismatch expected got) =
     ''dimension mismatch: index expects '' @ string_of_nat expected @ '', got '' @ string_of_nat got"
| "IndexError_to_string fmt_id (DuplicateId i) = ''duplicate id: '' @ fmt_id i"
| "IndexError_to_string fmt_id EmptyEmbedding = ''embedding is empty''"
| "IndexError_to_string fmt_id NonFiniteComponent = ''embedding contains a non-finite component''"
| "IndexError_to_string fmt_id (Backend msg) = ''storage backend error: '' @ msg"
| "IndexError_to_string fmt_id (UnsupportedMetric m) =
     ''metric not supported by this index: '' @ Metric_debug m"

fun PayloadError_to_string :: "PayloadError \<Rightarrow> string" where
  "PayloadError_to_string NonFiniteValue = ''payload contains a non-finite float value''"
| "PayloadError_to_string (Pe_Serialization msg) = ''payload serialization error: '' @ msg"
| "PayloadError_to_string (Pe_Backend msg) = ''payload backend error: '' @ msg"

fun LexicalError_to_string :: "LexicalError \<Rightarrow> string" where
  "LexicalError_to_string EmptyDocument = ''document text is empty''"
| "LexicalError_to_string (Lex_Serialization msg) = ''serialization error: '' @ msg"
| "LexicalError_to_string (Lex_Backend msg) = ''storage backend error: '' @ msg"

fun QueryError_to_string :: "(VectorId \<Rightarrow> string) \<Rightarrow> QueryError \<Rightarrow> string" where
  "QueryError_to_string fmt_id (Qe_UnsupportedMetric m) = ''metric not supported by this index: '' @ Metric_debug m"
| "QueryError_to_string fmt_id (Qe_Index e) = IndexError_to_string fmt_id e"
| "QueryError_to_string fmt_id (Qe_Payload e) = PayloadError_to_string e"
| "QueryError_to_string fmt_id EmptyQuery = ''query has neither a vector nor text''"
| "QueryError_to_string fmt_id (Qe_Lexical e) = LexicalError_to_string e"

section \<open>Status codes\<close>

datatype Code = InvalidArgument | NotFound | AlreadyExists | FailedPrecondition | ResourceExhausted | Internal

datatype Status = Status (status_code: Code) (status_message: string)

fun index_error_to_status :: "(VectorId \<Rightarrow> string) \<Rightarrow> IndexError \<Rightarrow> Status" where
  "index_error_to_status fmt_id (DuplicateId i) = Status AlreadyExists (IndexError_to_string fmt_id (DuplicateId i))"
| "index_error_to_status fmt_id (Backend msg) = Status Internal (IndexError_to_string fmt_id (Backend msg))"
| "index_error_to_status fmt_id e = Status InvalidArgument (IndexError_to_string fmt_id e)"

fun query_error_to_status :: "(VectorId \<Rightarrow> string) \<Rightarrow> QueryError \<Rightarrow> Status" where
  "query_error_to_status fmt_id EmptyQuery = Status InvalidArgument (QueryError_to_string fmt_id EmptyQuery)"
| "query_error_to_status fmt_id (Qe_UnsupportedMetric m) =
     Status InvalidArgument (QueryError_to_string fmt_id (Qe_UnsupportedMetric m))"
| "query_error_to_status fmt_id (Qe_Payload NonFiniteValue) =
     Status InvalidArgument (QueryError_to_string fmt_id (Qe_Payload NonFiniteValue))"
| "query_error_to_status fmt_id (Qe_Index inner) = index_error_to_status fmt_id inner"
| "query_error_to_status fmt_id e = Status Internal (QueryError_to_string fmt_id e)"

definition conversion_error_to_status :: "ConversionError \<Rightarrow> Status" where
  "conversion_error_to_status e = Status InvalidArgument (ConversionError_to_string e)"

definition not_found :: "string \<Rightarrow> Status" where
  "not_found name = Status NotFound (''resource not found: '' @ name)"

definition already_exists :: "string \<Rightarrow> Status" where
  "already_exists name = Status AlreadyExists (''resource already exists: '' @ name)"

section \<open>Enums\<close>

datatype IndexTypeChoice = Choice_Flat | Choice_Hnsw

datatype PbMetric = Pb_Unspecified | Pb_Cosine | Pb_DotProduct | Pb_Euclidean

datatype PbIndexType = Pb_Index_Unspecified | Pb_Flat | Pb_Hnsw

text \<open>An enum field on the wire is an \<open>i32\<close>: the discriminants of the schema.\<close>

type_synonym i32 = "32 word"

definition PbMetric_as_i32 :: "PbMetric \<Rightarrow> i32" where
  "PbMetric_as_i32 m = (case m of Pb_Unspecified \<Rightarrow> 0 | Pb_Cosine \<Rightarrow> 1 | Pb_DotProduct \<Rightarrow> 2 | Pb_Euclidean \<Rightarrow> 3)"

definition PbMetric_try_from :: "i32 \<Rightarrow> PbMetric option" where
  "PbMetric_try_from raw =
     (if raw = 0 then Some Pb_Unspecified else if raw = 1 then Some Pb_Cosine
      else if raw = 2 then Some Pb_DotProduct else if raw = 3 then Some Pb_Euclidean else None)"

definition string_of_int :: "int \<Rightarrow> string" where
  "string_of_int n = (if n < 0 then CHR ''-'' # string_of_nat (nat (- n)) else string_of_nat (nat n))"

fun metric_to_pb :: "Metric \<Rightarrow> PbMetric" where
  "metric_to_pb Cosine = Pb_Cosine"
| "metric_to_pb DotProduct = Pb_DotProduct"
| "metric_to_pb Euclidean = Pb_Euclidean"

fun metric_from_pb :: "PbMetric \<Rightarrow> ConversionError + Metric" where
  "metric_from_pb Pb_Cosine = Inr Cosine"
| "metric_from_pb Pb_DotProduct = Inr DotProduct"
| "metric_from_pb Pb_Euclidean = Inr Euclidean"
| "metric_from_pb Pb_Unspecified = Inl (MissingField ''metric'')"

fun index_type_to_pb :: "IndexTypeChoice \<Rightarrow> PbIndexType" where
  "index_type_to_pb Choice_Flat = Pb_Flat"
| "index_type_to_pb Choice_Hnsw = Pb_Hnsw"

fun index_type_from_pb :: "PbIndexType \<Rightarrow> ConversionError + IndexTypeChoice" where
  "index_type_from_pb Pb_Flat = Inr Choice_Flat"
| "index_type_from_pb Pb_Hnsw = Inr Choice_Hnsw"
| "index_type_from_pb Pb_Index_Unspecified = Inl (MissingField ''index_type'')"

section \<open>Payloads\<close>

datatype PbValueKind = Pb_Text string | Pb_Integer i64 | Pb_FloatValue f64 | Pb_BoolValue bool
datatype PbValue = PbValue (pbv_kind: "PbValueKind option")
datatype PbFieldKind = Pb_Scalar PbValue | Pb_Array "PbValue list"
datatype PbFieldValue = PbFieldValue (pbf_kind: "PbFieldKind option")
datatype PbPayload = PbPayload (pbp_fields: "(string \<times> PbFieldValue) list")

definition value_to_pb :: "Value \<Rightarrow> PbValue" where
  "value_to_pb v = PbValue (Some (case v of Text s \<Rightarrow> Pb_Text s | Integer i \<Rightarrow> Pb_Integer i
     | Float f \<Rightarrow> Pb_FloatValue f | Bool b \<Rightarrow> Pb_BoolValue b))"

definition value_from_pb :: "PbValue \<Rightarrow> ConversionError + Value" where
  "value_from_pb v =
     (case pbv_kind v of
        None \<Rightarrow> Inl (MissingField ''value.kind'')
      | Some (Pb_Text s) \<Rightarrow> Inr (Text s)
      | Some (Pb_Integer i) \<Rightarrow> Inr (Integer i)
      | Some (Pb_FloatValue f) \<Rightarrow> Inr (Float f)
      | Some (Pb_BoolValue b) \<Rightarrow> Inr (Bool b))"

definition field_value_to_pb :: "FieldValue \<Rightarrow> PbFieldValue" where
  "field_value_to_pb fv = PbFieldValue (Some (case fv of Scalar v \<Rightarrow> Pb_Scalar (value_to_pb v)
     | Array vs \<Rightarrow> Pb_Array (map value_to_pb vs)))"

definition field_value_from_pb :: "PbFieldValue \<Rightarrow> ConversionError + FieldValue" where
  "field_value_from_pb fv =
     (case pbf_kind fv of
        None \<Rightarrow> Inl (MissingField ''field_value.kind'')
      | Some (Pb_Scalar v) \<Rightarrow> map_res Scalar (value_from_pb v)
      | Some (Pb_Array vs) \<Rightarrow> map_res Array (traverse value_from_pb vs))"

definition payload_to_pb :: "Payload \<Rightarrow> PbPayload" where
  "payload_to_pb p = PbPayload (map (\<lambda>(k, v). (k, field_value_to_pb v)) (Payload_iter p))"

text \<open>The hash map is drained in its own order and collected into a \<open>BTreeMap\<close>.\<close>

definition payload_from_pb :: "PbPayload \<Rightarrow> ConversionError + Payload" where
  "payload_from_pb p =
     res_bind (traverse (\<lambda>(k, v). map_res (\<lambda>fv. (k, fv)) (field_value_from_pb v)) (pbp_fields p))
       (\<lambda>entries. map_err (\<lambda>e. Domain (PayloadError_to_string e)) (Payload_new (bt_collect entries)))"

section \<open>Filters\<close>

record PbComparison =
  pbc_field :: string
  pbc_value :: "PbValue option"

record PbInFilter =
  pbi_field :: string
  pbi_values :: "PbValue list"

datatype PbFilter = PbFilter (pbfl_kind: "PbFilterKind option")
  and PbFilterKind =
    Pb_Eq PbComparison | Pb_Ne PbComparison | Pb_Lt PbComparison | Pb_Lte PbComparison
  | Pb_Gt PbComparison | Pb_Gte PbComparison | Pb_IsIn PbInFilter | Pb_Contains PbComparison
  | Pb_Exists string | Pb_AllOf "PbFilter list" | Pb_AnyOf "PbFilter list" | Pb_Negation PbFilter

definition pb_comparison :: "string \<Rightarrow> Value \<Rightarrow> PbComparison" where
  "pb_comparison field v = \<lparr>pbc_field = field, pbc_value = Some (value_to_pb v)\<rparr>"

fun filter_to_pb :: "Filter \<Rightarrow> PbFilter" where
  "filter_to_pb (FEq field v) = PbFilter (Some (Pb_Eq (pb_comparison field v)))"
| "filter_to_pb (FNe field v) = PbFilter (Some (Pb_Ne (pb_comparison field v)))"
| "filter_to_pb (FLt field v) = PbFilter (Some (Pb_Lt (pb_comparison field v)))"
| "filter_to_pb (FLte field v) = PbFilter (Some (Pb_Lte (pb_comparison field v)))"
| "filter_to_pb (FGt field v) = PbFilter (Some (Pb_Gt (pb_comparison field v)))"
| "filter_to_pb (FGte field v) = PbFilter (Some (Pb_Gte (pb_comparison field v)))"
| "filter_to_pb (FIn field vs) = PbFilter (Some (Pb_IsIn \<lparr>pbi_field = field, pbi_values = map value_to_pb vs\<rparr>))"
| "filter_to_pb (FContains field v) = PbFilter (Some (Pb_Contains (pb_comparison field v)))"
| "filter_to_pb (FExists field) = PbFilter (Some (Pb_Exists field))"
| "filter_to_pb (FAnd fs) = PbFilter (Some (Pb_AllOf (map filter_to_pb fs)))"
| "filter_to_pb (FOr fs) = PbFilter (Some (Pb_AnyOf (map filter_to_pb fs)))"
| "filter_to_pb (FNot f) = PbFilter (Some (Pb_Negation (filter_to_pb f)))"

definition comparison_from_pb :: "string \<Rightarrow> PbComparison \<Rightarrow> ConversionError + string \<times> Value" where
  "comparison_from_pb missing c =
     map_res (\<lambda>v. (pbc_field c, v)) (res_bind (ok_or (MissingField missing) (pbc_value c)) value_from_pb)"

definition comparison_filter :: "(string \<Rightarrow> Value \<Rightarrow> Filter) \<Rightarrow> PbComparison \<Rightarrow> ConversionError + Filter" where
  "comparison_filter F c = map_res (\<lambda>(field, v). F field v) (comparison_from_pb ''comparison.value'' c)"

fun filter_from_pb :: "PbFilter \<Rightarrow> ConversionError + Filter"
  and kind_from_pb :: "PbFilterKind \<Rightarrow> ConversionError + Filter" where
  "filter_from_pb (PbFilter k) =
     (case k of None \<Rightarrow> Inl (MissingField ''filter.kind'') | Some kind \<Rightarrow> kind_from_pb kind)"
| "kind_from_pb (Pb_Eq c) = comparison_filter FEq c"
| "kind_from_pb (Pb_Ne c) = comparison_filter FNe c"
| "kind_from_pb (Pb_Lt c) = comparison_filter FLt c"
| "kind_from_pb (Pb_Lte c) = comparison_filter FLte c"
| "kind_from_pb (Pb_Gt c) = comparison_filter FGt c"
| "kind_from_pb (Pb_Gte c) = comparison_filter FGte c"
| "kind_from_pb (Pb_IsIn c) = map_res (FIn (pbi_field c)) (traverse value_from_pb (pbi_values c))"
| "kind_from_pb (Pb_Contains c) =
     map_res (\<lambda>(field, v). FContains field v) (comparison_from_pb ''contains.value'' c)"
| "kind_from_pb (Pb_Exists field) = Inr (FExists field)"
| "kind_from_pb (Pb_AllOf fs) = map_res FAnd (traverse filter_from_pb fs)"
| "kind_from_pb (Pb_AnyOf fs) = map_res FOr (traverse filter_from_pb fs)"
| "kind_from_pb (Pb_Negation f) = map_res FNot (filter_from_pb f)"

section \<open>Round trips of values, payloads and filters\<close>

lemma value_roundtrip [simp]: "value_from_pb (value_to_pb v) = Inr v"
  by (cases v) (simp_all add: value_from_pb_def value_to_pb_def)

lemma traverse_Inr [simp]: "traverse Inr xs = Inr xs"
  by (induction xs) simp_all

lemma field_value_roundtrip [simp]: "field_value_from_pb (field_value_to_pb fv) = Inr fv"
  by (cases fv) (simp_all add: field_value_from_pb_def field_value_to_pb_def traverse_map)

lemma payload_roundtrip:
  assumes "payload_ok p" "mset entries = mset (pbp_fields (payload_to_pb p))"
  shows "payload_from_pb (PbPayload entries) = Inr p"
proof -
  let ?f = "\<lambda>(k, v). (k, field_value_to_pb v)" and ?g = "\<lambda>(k, v). map_res (\<lambda>fv. (k, fv)) (field_value_from_pb v)"
  let ?h = "\<lambda>(k, w). (k, projr (field_value_from_pb w))"
  have me: "mset entries = image_mset ?f (mset (payload_fields p))"
    using assms(2) by (simp add: payload_to_pb_def Payload_iter_def)
  define xs where "xs = map ?h entries"
  have hf: "?h (?f x) = x" for x by (cases x) simp
  have "mset xs = mset (payload_fields p)"
    by (simp add: xs_def me multiset.map_comp comp_def hf multiset.map_ident)
  moreover have "set entries = ?f ` set (payload_fields p)"
    using arg_cong [OF me, of set_mset] by simp
  then have "map ?f xs = entries" unfolding xs_def map_map by (intro map_idI) (auto simp: hf)
  ultimately have xs: "entries = map ?f xs" "mset xs = mset (payload_fields p)" by simp_all
  have "traverse ?g entries = Inr xs"
    using traverse_all_Inr [of xs "\<lambda>x. ?g (?f x)" "\<lambda>x. x"] by (simp add: xs(1) traverse_map split_beta)
  moreover have "bt_collect xs = payload_fields p"
    using assms(1) by (intro bt_collect_mset xs(2)) (simp add: payload_ok_def)
  ultimately show ?thesis using assms(1)
    by (cases p) (auto simp: payload_from_pb_def Payload_new_eq payload_ok_def)
qed

lemma comparison_roundtrip [simp]:
  "comparison_from_pb missing (pb_comparison field v) = Inr (field, v)"
  "comparison_filter F (pb_comparison field v) = Inr (F field v)"
  by (simp_all add: comparison_filter_def comparison_from_pb_def pb_comparison_def)

lemma filters_roundtrip:
  "(\<And>f. f \<in> set fs \<Longrightarrow> filter_from_pb (filter_to_pb f) = Inr f) \<Longrightarrow>
   traverse (\<lambda>x. filter_from_pb (filter_to_pb x)) fs = Inr fs"
  using traverse_all_Inr [of fs "\<lambda>x. filter_from_pb (filter_to_pb x)" "\<lambda>x. x"] by simp

lemma filter_roundtrip [simp]: "filter_from_pb (filter_to_pb f) = Inr f"
  by (induction f) (simp_all add: traverse_map filters_roundtrip)

section \<open>Points\<close>

record DecodedPoint =
  dp_id :: VectorId
  dp_embedding :: Embedding
  dp_document :: "Document option"
  dp_payload :: "Payload option"

record PbPoint =
  pbpt_id :: "u8 list"
  pbpt_vector :: "f32 list"
  pbpt_document :: "string option"
  pbpt_payload :: "PbPayload option"

definition ID_LENGTH :: nat where "ID_LENGTH = 16"

definition vector_id_to_pb :: "VectorId \<Rightarrow> u8 list" where
  "vector_id_to_pb i = uuid_as_bytes (VectorId_as_uuid i)"

definition vector_id_from_pb :: "u8 list \<Rightarrow> ConversionError + VectorId" where
  "vector_id_from_pb bs =
     (if length bs \<noteq> ID_LENGTH then Inl (Domain ''id must be 16 bytes'')
      else Inr (VectorId_from_uuid (uuid_from_bytes bs)))"

definition embedding_to_pb :: "Embedding \<Rightarrow> f32 list" where
  "embedding_to_pb e = as_slice e"

definition embedding_from_pb :: "(VectorId \<Rightarrow> string) \<Rightarrow> f32 list \<Rightarrow> ConversionError + Embedding" where
  "embedding_from_pb fmt_id vector = map_err (\<lambda>e. Domain (IndexError_to_string fmt_id e)) (Embedding_new vector)"

definition point_from_pb ::
  "Unicode \<Rightarrow> (VectorId \<Rightarrow> string) \<Rightarrow> PbPoint \<Rightarrow> ConversionError + DecodedPoint" where
  "point_from_pb U fmt_id point =
     res_bind (vector_id_from_pb (pbpt_id point)) (\<lambda>i.
     res_bind (embedding_from_pb fmt_id (pbpt_vector point)) (\<lambda>embedding.
     res_bind (map_err (\<lambda>e. Domain (LexicalError_to_string e))
         (transpose_opt (Document_new U) (pbpt_document point))) (\<lambda>document.
     res_bind (transpose_opt payload_from_pb (pbpt_payload point)) (\<lambda>payload.
       Inr \<lparr>dp_id = i, dp_embedding = embedding, dp_document = document, dp_payload = payload\<rparr>))))"

definition point_to_pb :: "VectorId \<Rightarrow> Embedding \<Rightarrow> Document option \<Rightarrow> Payload option \<Rightarrow> PbPoint" where
  "point_to_pb i embedding document payload =
     \<lparr>pbpt_id = vector_id_to_pb i, pbpt_vector = embedding_to_pb embedding,
      pbpt_document = map_option doc_str document, pbpt_payload = map_option payload_to_pb payload\<rparr>"

section \<open>Batches and deletions\<close>

record PbPointBatch =
  pbb_collection :: string
  pbb_points :: "PbPoint list"

definition point_batch_from_pb ::
  "Unicode \<Rightarrow> (VectorId \<Rightarrow> string) \<Rightarrow> PbPointBatch \<Rightarrow> ConversionError + string \<times> DecodedPoint list" where
  "point_batch_from_pb U fmt_id batch =
     res_bind (traverse (point_from_pb U fmt_id) (pbb_points batch)) (\<lambda>points. Inr (pbb_collection batch, points))"

definition point_batch_to_pb :: "string \<Rightarrow> PbPoint list \<Rightarrow> PbPointBatch" where
  "point_batch_to_pb coll points = \<lparr>pbb_collection = coll, pbb_points = points\<rparr>"

text \<open>Both requests have the optional batch as their only field.\<close>

definition batch_upsert_from_pb ::
  "Unicode \<Rightarrow> (VectorId \<Rightarrow> string) \<Rightarrow> PbPointBatch option \<Rightarrow> ConversionError + string \<times> DecodedPoint list" where
  "batch_upsert_from_pb U fmt_id batch =
     res_bind (ok_or (MissingField ''batch_upsert.batch'') batch) (point_batch_from_pb U fmt_id)"

definition bulk_upsert_from_pb ::
  "Unicode \<Rightarrow> (VectorId \<Rightarrow> string) \<Rightarrow> PbPointBatch option \<Rightarrow> ConversionError + string \<times> DecodedPoint list" where
  "bulk_upsert_from_pb U fmt_id batch =
     res_bind (ok_or (MissingField ''bulk_upsert.batch'') batch) (point_batch_from_pb U fmt_id)"

record PbDeleteByFilter =
  pbd_collection :: string
  pbd_filter :: "PbFilter option"

definition delete_by_filter_to_pb :: "string \<Rightarrow> Filter \<Rightarrow> PbDeleteByFilter" where
  "delete_by_filter_to_pb coll f = \<lparr>pbd_collection = coll, pbd_filter = Some (filter_to_pb f)\<rparr>"

definition delete_by_filter_from_pb :: "PbDeleteByFilter \<Rightarrow> ConversionError + string \<times> Filter" where
  "delete_by_filter_from_pb request =
     res_bind (ok_or (MissingField ''delete_by_filter.filter'') (pbd_filter request)) (\<lambda>f.
       map_res (\<lambda>g. (pbd_collection request, g)) (filter_from_pb f))"

section \<open>Searches\<close>

record PbSearchRequest =
  pbs_collection :: string
  pbs_vector :: "f32 list"
  pbs_k :: u32
  pbs_metric :: "i32 option"
  pbs_filter :: "PbFilter option"

record PbSearchHybridRequest =
  pbh_collection :: string
  pbh_vector :: "f32 list"
  pbh_text :: "string option"
  pbh_k :: u32
  pbh_filter :: "PbFilter option"
  pbh_metric :: "i32 option"
  pbh_rrf_k :: "f64 option"
  pbh_overfetch_factor :: "u32 option"

record PbHit =
  pbhit_id :: "u8 list"
  pbhit_score :: f32
  pbhit_payload :: "PbPayload option"

definition optional_metric_from_pb :: "i32 option \<Rightarrow> ConversionError + Metric option" where
  "optional_metric_from_pb metric =
     (case metric of
        None \<Rightarrow> Inr None
      | Some raw \<Rightarrow>
          (case PbMetric_try_from raw of
             None \<Rightarrow> Inl (Domain (''unknown metric discriminant: '' @ string_of_int (sint raw)))
           | Some pb \<Rightarrow> if pb = Pb_Unspecified then Inr None else map_res Some (metric_from_pb pb)))"

text \<open>\<open>usize::try_from\<close> of a \<open>u32\<close> always succeeds on a 64-bit target.\<close>

definition usize_of_u32 :: "string \<Rightarrow> u32 \<Rightarrow> ConversionError + nat" where
  "usize_of_u32 msg raw = (if unat raw \<le> usize_max then Inr (unat raw) else Inl (Domain msg))"

definition u32_of_usize :: "string \<Rightarrow> nat \<Rightarrow> ConversionError + u32" where
  "u32_of_usize msg n = (if n \<le> u32_max then Inr (word_of_nat n) else Inl (Domain msg))"

definition search_query_from_pb ::
  "(VectorId \<Rightarrow> string) \<Rightarrow> PbSearchRequest \<Rightarrow> ConversionError + string \<times> SearchQuery" where
  "search_query_from_pb fmt_id request =
     res_bind (embedding_from_pb fmt_id (pbs_vector request)) (\<lambda>embedding.
     res_bind (usize_of_u32 ''k out of range'' (pbs_k request)) (\<lambda>k.
     res_bind (optional_metric_from_pb (pbs_metric request)) (\<lambda>metric.
     res_bind (transpose_opt filter_from_pb (pbs_filter request)) (\<lambda>f.
       Inr (pbs_collection request,
         \<lparr>sq_embedding = embedding, sq_k = k, sq_metric = metric, sq_filter = f\<rparr>)))))"

definition rrf_k_from_pb :: "f64 option \<Rightarrow> ConversionError + f64" where
  "rrf_k_from_pb value =
     (case value of
        None \<Rightarrow> Inr DEFAULT_RRF_K
      | Some rrf_k \<Rightarrow>
          if f64_finite rrf_k \<and> f64_lt 0 rrf_k then Inr rrf_k
          else Inl (Domain ''rrf_k must be finite and strictly positive''))"

definition overfetch_factor_from_pb :: "u32 option \<Rightarrow> ConversionError + nat" where
  "overfetch_factor_from_pb value =
     (case value of
        None \<Rightarrow> Inr DEFAULT_OVERFETCH_FACTOR
      | Some raw \<Rightarrow>
          if raw = 0 then Inl (Domain ''overfetch_factor must be positive when present'')
          else usize_of_u32 ''overfetch_factor out of range'' raw)"

definition hybrid_query_from_pb ::
  "(VectorId \<Rightarrow> string) \<Rightarrow> PbSearchHybridRequest \<Rightarrow> ConversionError + string \<times> HybridQuery" where
  "hybrid_query_from_pb fmt_id request =
     res_bind (if pbh_vector request = [] then Inr None
               else map_res Some (embedding_from_pb fmt_id (pbh_vector request))) (\<lambda>vector.
     let text = (case pbh_text request of Some t \<Rightarrow> if t \<noteq> [] then Some t else None | None \<Rightarrow> None) in
     res_bind (usize_of_u32 ''k out of range'' (pbh_k request)) (\<lambda>k.
     res_bind (transpose_opt filter_from_pb (pbh_filter request)) (\<lambda>f.
     res_bind (optional_metric_from_pb (pbh_metric request)) (\<lambda>metric.
     res_bind (rrf_k_from_pb (pbh_rrf_k request)) (\<lambda>rrf_k.
     res_bind (overfetch_factor_from_pb (pbh_overfetch_factor request)) (\<lambda>overfetch_factor.
       Inr (pbh_collection request,
         \<lparr>hq_vector = vector, hq_text = text, hq_k = k, hq_filter = f, hq_metric = metric,
          hq_rrf_k = rrf_k, hq_overfetch_factor = overfetch_factor\<rparr>)))))))"

definition hit_to_pb :: "SearchHit \<Rightarrow> PbHit" where
  "hit_to_pb hit = \<lparr>pbhit_id = vector_id_to_pb (hit_id hit), pbhit_score = score_value (hit_score hit),
     pbhit_payload = map_option payload_to_pb (hit_payload hit)\<rparr>"

text \<open>Both responses have the hits as their only field.\<close>

definition hits_to_pb :: "SearchHit list \<Rightarrow> PbHit list" where
  "hits_to_pb hits = map hit_to_pb hits"

definition hybrid_hits_to_pb :: "SearchHit list \<Rightarrow> PbHit list" where
  "hybrid_hits_to_pb hits = map hit_to_pb hits"

definition hit_from_pb :: "PbHit \<Rightarrow> ConversionError + SearchHit" where
  "hit_from_pb hit =
     res_bind (vector_id_from_pb (pbhit_id hit)) (\<lambda>i.
     res_bind (transpose_opt payload_from_pb (pbhit_payload hit)) (\<lambda>payload.
       Inr \<lparr>hit_id = i, hit_score = Score (pbhit_score hit), hit_payload = payload\<rparr>))"

definition hits_from_pb :: "PbHit list \<Rightarrow> ConversionError + SearchHit list" where
  "hits_from_pb hits = traverse hit_from_pb hits"

definition hybrid_hits_from_pb :: "PbHit list \<Rightarrow> ConversionError + SearchHit list" where
  "hybrid_hits_from_pb hits = traverse hit_from_pb hits"

definition search_query_to_pb :: "string \<Rightarrow> SearchQuery \<Rightarrow> ConversionError + PbSearchRequest" where
  "search_query_to_pb coll query =
     res_bind (u32_of_usize ''k out of range'' (sq_k query)) (\<lambda>k.
       Inr \<lparr>pbs_collection = coll, pbs_vector = embedding_to_pb (sq_embedding query), pbs_k = k,
         pbs_metric = map_option (\<lambda>m. PbMetric_as_i32 (metric_to_pb m)) (sq_metric query),
         pbs_filter = map_option filter_to_pb (sq_filter query)\<rparr>)"

definition hybrid_query_to_pb :: "string \<Rightarrow> HybridQuery \<Rightarrow> ConversionError + PbSearchHybridRequest" where
  "hybrid_query_to_pb coll query =
     res_bind (u32_of_usize ''k out of range'' (hq_k query)) (\<lambda>k.
     res_bind (u32_of_usize ''overfetch_factor out of range'' (hq_overfetch_factor query)) (\<lambda>overfetch.
       Inr \<lparr>pbh_collection = coll,
         pbh_vector = (case hq_vector query of None \<Rightarrow> [] | Some e \<Rightarrow> embedding_to_pb e),
         pbh_text = hq_text query, pbh_k = k, pbh_filter = map_option filter_to_pb (hq_filter query),
         pbh_metric = map_option (\<lambda>m. PbMetric_as_i32 (metric_to_pb m)) (hq_metric query),
         pbh_rrf_k = Some (hq_rrf_k query), pbh_overfetch_factor = Some overfetch\<rparr>))"

section \<open>Round trips of points, queries and hits\<close>

lemma vector_id_roundtrip [simp]: "vector_id_from_pb (vector_id_to_pb i) = Inr i"
  by (cases i) (simp add: vector_id_from_pb_def vector_id_to_pb_def ID_LENGTH_def
      VectorId_from_uuid_def VectorId_as_uuid_def)

lemma vector_id_wire_unique: "vector_id_from_pb bs = Inr i \<Longrightarrow> vector_id_to_pb i = bs"
  by (auto simp: vector_id_from_pb_def vector_id_to_pb_def ID_LENGTH_def VectorId_from_uuid_def
      VectorId_as_uuid_def uuid_bytes_roundtrip split: if_splits)

lemma embedding_roundtrip: "embedding_ok e \<Longrightarrow> embedding_from_pb fmt_id (embedding_to_pb e) = Inr e"
  by (cases e) (auto simp: embedding_from_pb_def embedding_to_pb_def Embedding_new_def embedding_ok_def)

lemma metric_roundtrip [simp]:
  "optional_metric_from_pb (map_option (\<lambda>m. PbMetric_as_i32 (metric_to_pb m)) m) = Inr m"
proof (cases m)
  case (Some m')
  then show ?thesis
    by (cases m') (simp_all add: optional_metric_from_pb_def PbMetric_as_i32_def PbMetric_try_from_def)
qed (simp add: optional_metric_from_pb_def)

lemma filter_opt_roundtrip [simp]: "transpose_opt filter_from_pb (map_option filter_to_pb f) = Inr f"
  by (cases f) simp_all

lemma u32_roundtrip: "n \<le> u32_max \<Longrightarrow> \<exists>w. u32_of_usize msg n = Inr w \<and> usize_of_u32 msg' w = Inr n"
  by (simp add: u32_of_usize_def usize_of_u32_def u32_max_def usize_max_def unat_of_nat)

lemma u32_roundtrip_pos:
  "n \<le> u32_max \<Longrightarrow> 0 < n \<Longrightarrow> \<exists>w. u32_of_usize msg n = Inr w \<and> usize_of_u32 msg' w = Inr n \<and> w \<noteq> 0"
  using u32_roundtrip [of n msg msg'] by (fastforce simp: usize_of_u32_def split: if_splits)

lemma payload_roundtrip_id: "payload_ok p \<Longrightarrow> payload_from_pb (payload_to_pb p) = Inr p"
  using payload_roundtrip [of p "pbp_fields (payload_to_pb p)"] by simp

definition opt_ok :: "('a \<Rightarrow> bool) \<Rightarrow> 'a option \<Rightarrow> bool" where
  "opt_ok P m = (case m of None \<Rightarrow> True | Some x \<Rightarrow> P x)"

lemma payload_opt_roundtrip:
  "opt_ok payload_ok p \<Longrightarrow> transpose_opt payload_from_pb (map_option payload_to_pb p) = Inr p"
  by (cases p) (simp_all add: opt_ok_def payload_roundtrip_id)

lemma hit_roundtrip: "opt_ok payload_ok (hit_payload h) \<Longrightarrow> hit_from_pb (hit_to_pb h) = Inr h"
  by (cases h) (simp add: hit_from_pb_def hit_to_pb_def payload_opt_roundtrip)

section \<open>Properties\<close>

text \<open>
  Every filter survives the wire: encoding is total and decoding gives the same filter back at any nesting depth, on
  its own and inside a delete-by-filter request, so two filters with the same encoding are equal.
\<close>

lemma filter_wire_roundtrip:
  "filter_from_pb (filter_to_pb f) = Inr f \<and>
   delete_by_filter_from_pb (delete_by_filter_to_pb c f) = Inr (c, f) \<and>
   (filter_to_pb f = filter_to_pb g) = (f = g)"
  by (simp add: delete_by_filter_from_pb_def delete_by_filter_to_pb_def)
    (metis filter_roundtrip sum.inject(2))

text \<open>
  C37. Every valid point survives the wire: id, embedding, document and payload decode to themselves, in whatever order
  the transport delivers the entries of the payload map. The sixteen bytes of the id determine it and
  no other byte string decodes to it.
\<close>

theorem point_wire_roundtrip:
  assumes "embedding_ok e" "opt_ok (\<lambda>d. \<not> trim_is_empty U (doc_str d)) doc" "opt_ok payload_ok payload"
    and "rel_option (\<lambda>p q. mset (pbp_fields p) = mset (pbp_fields q)) wire (map_option payload_to_pb payload)"
  shows "point_from_pb U fmt_id ((point_to_pb i e doc payload)\<lparr>pbpt_payload := wire\<rparr>) =
      Inr \<lparr>dp_id = i, dp_embedding = e, dp_document = doc, dp_payload = payload\<rparr> \<and>
    (vector_id_from_pb bs = Inr i) = (bs = vector_id_to_pb i)"
proof -
  have "transpose_opt payload_from_pb wire = Inr payload"
  proof (cases payload)
    case (Some p)
    with assms(4) obtain w where w: "wire = Some w" "mset (pbp_fields w) = mset (pbp_fields (payload_to_pb p))"
      by (auto simp: rel_option_iff split: option.splits)
    then show ?thesis using payload_roundtrip [of p "pbp_fields w"] assms(3) Some by (simp add: opt_ok_def)
  qed (use assms(4) in simp)
  moreover have "transpose_opt (Document_new U) (map_option doc_str doc) = Inr doc"
    using assms(2) by (cases doc) (auto simp: opt_ok_def Document_new_def)
  moreover have "(vector_id_from_pb bs = Inr i) = (bs = vector_id_to_pb i)"
    using vector_id_wire_unique [of bs i] by auto
  ultimately show ?thesis
    by (simp add: point_from_pb_def point_to_pb_def embedding_roundtrip [OF assms(1)])
qed

lemma point_wire_roundtrip_witness:
  "point_from_pb ascii (\<lambda>_. []) ((point_to_pb (VectorId 5) (Embedding [0]) (Some (Document ''a''))
      (Some (Payload [(''a'', Scalar (Integer 1)), (''b'', Scalar (Bool True))])))
      \<lparr>pbpt_payload := Some (PbPayload [(''b'', field_value_to_pb (Scalar (Bool True))), (''a'', field_value_to_pb (Scalar (Integer 1)))])\<rparr>) =
    Inr \<lparr>dp_id = VectorId 5, dp_embedding = Embedding [0], dp_document = Some (Document ''a''),
      dp_payload = Some (Payload [(''a'', Scalar (Integer 1)), (''b'', Scalar (Bool True))])\<rparr>"
proof -
  have e: "embedding_ok (Embedding [0])"
    by (simp add: embedding_ok_def f32_finite_def f_finite_def f_mag_def b32_def)
  have d: "opt_ok (\<lambda>d. \<not> trim_is_empty ascii (doc_str d)) (Some (Document ''a''))"
    by code_simp
  have p: "opt_ok payload_ok (Some (Payload [(''a'', Scalar (Integer 1)), (''b'', Scalar (Bool True))]))"
    by (simp add: opt_ok_def payload_ok_def btree_ok_def)
  show ?thesis
    using point_wire_roundtrip [OF e d p, where i = "VectorId 5" and fmt_id = "\<lambda>_. []" and bs = "[]"
        and wire = "Some (PbPayload [(''b'', field_value_to_pb (Scalar (Bool True))), (''a'', field_value_to_pb (Scalar (Integer 1)))])"]
    by (simp add: payload_to_pb_def Payload_iter_def)
qed

text \<open>
  C38. Queries and hits survive the wire: a search or hybrid query whose counts fit 32 bits and whose parts are valid
  decodes to itself, and so do the hits of the answers. Every count that does not fit, the number of hits of a search or
  of a hybrid query or the over-fetch factor, is refused by the encoder with its own message and never truncated.
\<close>

theorem query_wire_roundtrip:
  assumes "embedding_ok (sq_embedding s)" "sq_k s \<le> u32_max"
    and "opt_ok embedding_ok (hq_vector h)" "hq_text h \<noteq> Some []" "hq_k h \<le> u32_max"
    and "0 < hq_overfetch_factor h" "hq_overfetch_factor h \<le> u32_max"
    and "f64_finite (hq_rrf_k h)" "f64_lt 0 (hq_rrf_k h)"
    and "list_all (\<lambda>x. opt_ok payload_ok (hit_payload x)) hits"
  shows "res_bind (search_query_to_pb c s) (search_query_from_pb fmt_id) = Inr (c, s) \<and>
    res_bind (hybrid_query_to_pb c h) (hybrid_query_from_pb fmt_id) = Inr (c, h) \<and>
    hits_from_pb (hits_to_pb hits) = Inr hits \<and> hybrid_hits_from_pb (hybrid_hits_to_pb hits) = Inr hits \<and>
    (u32_max < n \<longrightarrow> search_query_to_pb c (s\<lparr>sq_k := n\<rparr>) = Inl (Domain ''k out of range'') \<and>
      hybrid_query_to_pb c (h\<lparr>hq_k := n\<rparr>) = Inl (Domain ''k out of range'') \<and>
      hybrid_query_to_pb c (h\<lparr>hq_overfetch_factor := n\<rparr>) = Inl (Domain ''overfetch_factor out of range'') \<and>
      hybrid_query_to_pb c (h\<lparr>hq_k := n, hq_overfetch_factor := n\<rparr>) = Inl (Domain ''k out of range''))"
proof (intro conjI)
  obtain k where k: "u32_of_usize ''k out of range'' (sq_k s) = Inr k"
    "usize_of_u32 ''k out of range'' k = Inr (sq_k s)" using u32_roundtrip [OF assms(2)] by blast
  show "res_bind (search_query_to_pb c s) (search_query_from_pb fmt_id) = Inr (c, s)"
    using k assms(1) by (cases s) (simp add: search_query_to_pb_def search_query_from_pb_def
        embedding_roundtrip del: res_bind_eq_Inr)
  obtain k' where k': "u32_of_usize ''k out of range'' (hq_k h) = Inr k'"
    "usize_of_u32 ''k out of range'' k' = Inr (hq_k h)" using u32_roundtrip [OF assms(5)] by blast
  obtain f where f: "u32_of_usize ''overfetch_factor out of range'' (hq_overfetch_factor h) = Inr f"
    "usize_of_u32 ''overfetch_factor out of range'' f = Inr (hq_overfetch_factor h)" "f \<noteq> 0"
    using u32_roundtrip_pos [OF assms(7,6)] by blast
  have t: "(case hq_text h of Some t \<Rightarrow> if t \<noteq> [] then Some t else None | None \<Rightarrow> None) = hq_text h"
    using assms(4) by (cases "hq_text h") auto
  show "res_bind (hybrid_query_to_pb c h) (hybrid_query_from_pb fmt_id) = Inr (c, h)"
  proof (cases "hq_vector h")
    case None
    then show ?thesis using k' f t assms(8,9)
      by (cases h) (simp add: hybrid_query_to_pb_def hybrid_query_from_pb_def rrf_k_from_pb_def
          overfetch_factor_from_pb_def del: res_bind_eq_Inr)
  next
    case (Some e)
    then have "embedding_ok e" using assms(3) by (simp add: opt_ok_def)
    then have "embedding_to_pb e \<noteq> []" "embedding_from_pb fmt_id (embedding_to_pb e) = Inr e"
      by (auto simp: embedding_roundtrip) (simp add: embedding_ok_def embedding_to_pb_def)
    with Some show ?thesis using k' f t assms(8,9)
      by (cases h) (simp add: hybrid_query_to_pb_def hybrid_query_from_pb_def rrf_k_from_pb_def
          overfetch_factor_from_pb_def del: res_bind_eq_Inr)
  qed
  have h: "hit_from_pb (hit_to_pb x) = Inr x" if "x \<in> set hits" for x
    using that assms(10) by (simp add: list_all_iff hit_roundtrip)
  have "traverse hit_from_pb (map hit_to_pb hits) = Inr hits"
    using traverse_all_Inr [of hits "\<lambda>x. hit_from_pb (hit_to_pb x)" "\<lambda>x. x"] h by (simp add: traverse_map)
  then show "hits_from_pb (hits_to_pb hits) = Inr hits" "hybrid_hits_from_pb (hybrid_hits_to_pb hits) = Inr hits"
    by (simp_all add: hits_from_pb_def hits_to_pb_def hybrid_hits_from_pb_def hybrid_hits_to_pb_def)
  show "u32_max < n \<longrightarrow> search_query_to_pb c (s\<lparr>sq_k := n\<rparr>) = Inl (Domain ''k out of range'') \<and>
      hybrid_query_to_pb c (h\<lparr>hq_k := n\<rparr>) = Inl (Domain ''k out of range'') \<and>
      hybrid_query_to_pb c (h\<lparr>hq_overfetch_factor := n\<rparr>) = Inl (Domain ''overfetch_factor out of range'') \<and>
      hybrid_query_to_pb c (h\<lparr>hq_k := n, hq_overfetch_factor := n\<rparr>) = Inl (Domain ''k out of range'')"
    using assms(5) by (simp add: search_query_to_pb_def hybrid_query_to_pb_def u32_of_usize_def)
qed

lemma query_wire_roundtrip_witness:
  "res_bind (search_query_to_pb ''c'' \<lparr>sq_embedding = Embedding [0], sq_k = 3, sq_metric = Some Cosine, sq_filter = None\<rparr>)
      (search_query_from_pb (\<lambda>_. [])) =
    Inr (''c'', \<lparr>sq_embedding = Embedding [0], sq_k = 3, sq_metric = Some Cosine, sq_filter = None\<rparr>) \<and>
   hybrid_query_to_pb ''c'' (\<lparr>hq_vector = None, hq_text = Some ''a'', hq_k = 3, hq_filter = None, hq_metric = None,
      hq_rrf_k = DEFAULT_RRF_K, hq_overfetch_factor = DEFAULT_OVERFETCH_FACTOR\<rparr>\<lparr>hq_k := 2 ^ 32\<rparr>) = Inl (Domain ''k out of range'')"
proof -
  have e: "embedding_ok (Embedding [0])"
    by (simp add: embedding_ok_def f32_finite_def f_finite_def f_mag_def b32_def)
  have r: "f64_finite DEFAULT_RRF_K" "f64_lt 0 DEFAULT_RRF_K" by code_simp+
  show ?thesis
    using query_wire_roundtrip [where c = "''c''" and fmt_id = "\<lambda>_. []" and hits = "[]" and n = "2 ^ 32"
        and s = "\<lparr>sq_embedding = Embedding [0], sq_k = 3, sq_metric = Some Cosine, sq_filter = None\<rparr>"
        and h = "\<lparr>hq_vector = None, hq_text = Some ''a'', hq_k = 3, hq_filter = None, hq_metric = None,
          hq_rrf_k = DEFAULT_RRF_K, hq_overfetch_factor = DEFAULT_OVERFETCH_FACTOR\<rparr>"] e r
    by (simp add: opt_ok_def u32_max_def DEFAULT_OVERFETCH_FACTOR_def del: res_bind_eq_Inr)
qed

text \<open>
  C39. Whatever arrives on the wire, a hybrid query that is accepted is in range: a vector, if any, is non-empty with
  finite components, a text is not empty, the fusion constant is finite and positive, and the over-fetch factor is at
  least one, so the fetched depth is never below the requested count.
\<close>

theorem decoded_hybrid_query_in_range:
  assumes "hybrid_query_from_pb fmt_id request = Inr (c, q)"
  shows "opt_ok embedding_ok (hq_vector q) \<and> hq_text q \<noteq> Some [] \<and>
    f64_finite (hq_rrf_k q) \<and> f64_lt 0 (hq_rrf_k q) \<and>
    1 \<le> hq_overfetch_factor q \<and> hq_overfetch_factor q \<le> u32_max \<and> hq_k q \<le> u32_max \<and>
    hq_k q \<le> saturating_mul (hq_k q) (hq_overfetch_factor q)"
proof -
  have b: "unat w \<le> u32_max" for w :: u32
  proof -
    have "unat w < 2 ^ LENGTH(32)" by (rule unsigned_less)
    then show ?thesis by (simp add: u32_max_def)
  qed
  have vec: "opt_ok embedding_ok (hq_vector q)" and nonempty: "hq_text q \<noteq> Some []"
    using assms
    by (auto simp: hybrid_query_from_pb_def opt_ok_def embedding_from_pb_def Embedding_new_Inr
        split: if_splits option.splits)
  have k: "hq_k q \<le> u32_max"
    using assms b by (auto simp: hybrid_query_from_pb_def usize_of_u32_def split: if_splits)
  have f: "1 \<le> hq_overfetch_factor q \<and> hq_overfetch_factor q \<le> u32_max"
  proof -
    obtain o1 where o1: "overfetch_factor_from_pb o1 = Inr (hq_overfetch_factor q)"
      using assms by (auto simp: hybrid_query_from_pb_def)
    show ?thesis
    proof (cases o1)
      case None
      then show ?thesis using o1 by (auto simp: overfetch_factor_from_pb_def DEFAULT_OVERFETCH_FACTOR_def u32_max_def)
    next
      case (Some w)
      then have "w \<noteq> 0" "hq_overfetch_factor q = unat w"
        using o1 by (auto simp: overfetch_factor_from_pb_def usize_of_u32_def split: if_splits)
      then show ?thesis using b [of w] unat_gt_0 [of w] by simp
    qed
  qed
  have "f64_finite DEFAULT_RRF_K \<and> f64_lt 0 DEFAULT_RRF_K" by code_simp
  moreover obtain r where "rrf_k_from_pb r = Inr (hq_rrf_k q)"
    using assms by (auto simp: hybrid_query_from_pb_def)
  ultimately have "f64_finite (hq_rrf_k q) \<and> f64_lt 0 (hq_rrf_k q)"
    by (auto simp: rrf_k_from_pb_def split: option.splits if_splits)
  moreover have "hq_k q \<le> usize_max" using k by (simp add: u32_max_def usize_max_def)
  from le_hybrid_depth [OF this] f have "hq_k q \<le> saturating_mul (hq_k q) (hq_overfetch_factor q)"
    by (simp add: hybrid_depth_def)
  ultimately show ?thesis using vec nonempty k f by blast
qed

lemma decoded_hybrid_query_in_range_witness:
  "\<exists>c q. hybrid_query_from_pb (\<lambda>_. []) \<lparr>pbh_collection = ''c'', pbh_vector = [0], pbh_text = Some [],
      pbh_k = 7, pbh_filter = None, pbh_metric = None, pbh_rrf_k = None, pbh_overfetch_factor = Some 2\<rparr> = Inr (c, q) \<and>
    hq_k q \<le> saturating_mul (hq_k q) (hq_overfetch_factor q)"
proof -
  obtain c q where cq: "hybrid_query_from_pb (\<lambda>_. []) \<lparr>pbh_collection = ''c'', pbh_vector = [0], pbh_text = Some [],
      pbh_k = 7, pbh_filter = None, pbh_metric = None, pbh_rrf_k = None, pbh_overfetch_factor = Some 2\<rparr> = Inr (c, q)"
    by (simp add: hybrid_query_from_pb_def embedding_from_pb_def Embedding_new_def f32_finite_def f_finite_def
        f_mag_def b32_def usize_of_u32_def usize_max_def optional_metric_from_pb_def rrf_k_from_pb_def
        overfetch_factor_from_pb_def)
  from decoded_hybrid_query_in_range [OF this] cq show ?thesis by blast
qed

definition point_ok :: "Unicode \<Rightarrow> DecodedPoint \<Rightarrow> bool" where
  "point_ok U p \<longleftrightarrow> embedding_ok (dp_embedding p) \<and> opt_ok (\<lambda>d. \<not> trim_is_empty U (doc_str d)) (dp_document p) \<and>
     opt_ok payload_ok (dp_payload p)"

lemma payload_from_pb_ok: "payload_from_pb w = Inr p \<Longrightarrow> payload_ok p"
  by (auto simp: payload_from_pb_def Payload_new_eq payload_ok_def bt_collect_ok split: if_splits)

lemma point_from_pb_ok: "point_from_pb U fmt_id w = Inr p \<Longrightarrow> point_ok U p"
  by (cases "pbpt_document w"; cases "pbpt_payload w")
    (auto simp: point_from_pb_def point_ok_def embedding_from_pb_def Embedding_new_Inr opt_ok_def Document_new_def
      dest: payload_from_pb_ok split: if_splits)

lemma traverse_Inl: "traverse f xs = Inl e \<Longrightarrow> \<exists>x \<in> set xs. f x = Inl e"
  by (induction xs) (auto split: sum.splits)

text \<open>
  C40. What enters is well formed: a decoded batch has the collection's name and one point per message, each with a
  non-empty finite embedding, a document that is not blank and a payload in key order with finite values; a batch
  is refused as a whole, with the error of one of its points.
\<close>

theorem decoded_points_well_formed:
  "case point_batch_from_pb U fmt_id b of
     Inl e \<Rightarrow> \<exists>p \<in> set (pbb_points b). point_from_pb U fmt_id p = Inl e
   | Inr (c, points) \<Rightarrow> c = pbb_collection b \<and> length points = length (pbb_points b) \<and> list_all (point_ok U) points"
proof (cases "traverse (point_from_pb U fmt_id) (pbb_points b)")
  case (Inl e)
  then show ?thesis using traverse_Inl [OF Inl] by (simp add: point_batch_from_pb_def)
next
  case (Inr points)
  then have "list_all2 (\<lambda>x y. point_from_pb U fmt_id x = Inr y) (pbb_points b) points" by (simp add: traverse_Inr_iff)
  then have "length points = length (pbb_points b) \<and> list_all (point_ok U) points"
    by (auto simp: list_all2_conv_all_nth list_all_length dest: point_from_pb_ok)
  then show ?thesis using Inr by (simp add: point_batch_from_pb_def)
qed

end
