(* ===== verification/Storage.thy ===== *)
theory Storage
  imports Bytes
begin

text \<open>
  The building blocks of \<open>eidosdb-storage\<close>: the error type, the manifest record, the vector
  segment (an append-only file read through a memory map) and the catalog over the transactional
  store. A file is its bytes plus a schedule of faults: each system call consumes one entry, and a
  faulty write leaves an arbitrary prefix of its data, so running against a schedule also covers
  a crash at that call; seeking and flushing an open file do nothing here. The embedded database
  is code outside the repository: the record \<open>Redb\<close> holds its operations, and \<open>redb_ok\<close> states
  what its documentation promises (a transaction is applied entirely or not at all).
\<close>

section \<open>Errors\<close>

datatype StorageError =
    St_Io string
  | St_Catalog string
  | St_Corruption string
  | St_FormatMismatch string
  | St_Index IndexError

fun IndexError_from :: "StorageError \<Rightarrow> IndexError" where
  "IndexError_from (St_Index inner) = inner"
| "IndexError_from (St_Io m) = Backend (''io error: '' @ m)"
| "IndexError_from (St_Catalog m) = Backend (''catalog error: '' @ m)"
| "IndexError_from (St_Corruption m) = Backend (''corrupt store: '' @ m)"
| "IndexError_from (St_FormatMismatch m) = Backend (''format mismatch: '' @ m)"

section \<open>Manifest\<close>

definition MANIFEST_LEN :: nat where "MANIFEST_LEN = 17"
definition FORMAT_VERSION :: u32 where "FORMAT_VERSION = 1"

record Manifest =
  mf_format_version :: u32
  mf_dimension :: u32
  mf_metric :: Metric
  mf_record_count :: u64

fun metric_to_u8 :: "Metric \<Rightarrow> StorageError + u8" where
  "metric_to_u8 Cosine = Inr 0"
| "metric_to_u8 DotProduct = Inr 1"
| "metric_to_u8 Euclidean = Inr 2"

definition metric_from_u8 :: "u8 \<Rightarrow> StorageError + Metric" where
  "metric_from_u8 v =
     (if v = 0 then Inr Cosine else if v = 1 then Inr DotProduct else if v = 2 then Inr Euclidean
      else Inl (St_Corruption (''unknown metric byte '' @ string_of_nat (unat v))))"

definition Manifest_to_bytes :: "Manifest \<Rightarrow> StorageError + u8 list" where
  "Manifest_to_bytes m =
     map_res (\<lambda>b. le_bytes 4 (unat (mf_format_version m)) @ le_bytes 4 (unat (mf_dimension m)) @ [b] @
       le_bytes 8 (unat (mf_record_count m))) (metric_to_u8 (mf_metric m))"

definition read_u32 :: "u8 list \<Rightarrow> StorageError + u32" where
  "read_u32 bs = (if length bs = 4 then Inr (word_of_nat (le_val bs)) else Inl (St_Corruption ''expected 4 bytes''))"

definition read_u64 :: "u8 list \<Rightarrow> StorageError + u64" where
  "read_u64 bs = (if length bs = 8 then Inr (word_of_nat (le_val bs)) else Inl (St_Corruption ''expected 8 bytes''))"

definition Manifest_from_bytes :: "u8 list \<Rightarrow> StorageError + Manifest" where
  "Manifest_from_bytes bs =
     (if length bs \<noteq> MANIFEST_LEN
      then Inl (St_Corruption (''manifest length '' @ string_of_nat (length bs) @ '' != '' @ string_of_nat MANIFEST_LEN))
      else
        res_bind (read_u32 (take 4 bs)) (\<lambda>format_version.
        res_bind (read_u32 (take 4 (drop 4 bs))) (\<lambda>dimension.
        res_bind (metric_from_u8 (bs ! 8)) (\<lambda>metric.
        res_bind (read_u64 (take 8 (drop 9 bs))) (\<lambda>record_count.
          Inr \<lparr>mf_format_version = format_version, mf_dimension = dimension, mf_metric = metric,
               mf_record_count = record_count\<rparr>)))))"

lemma read_u32_le [simp]: "read_u32 (le_bytes 4 (unat (w :: u32))) = Inr w"
proof -
  have "unat w < 256 ^ 4" using unsigned_less [of w] by simp
  then show ?thesis by (simp add: read_u32_def le_val_bytes)
qed

lemma read_u64_le [simp]: "read_u64 (le_bytes 8 (unat (w :: u64))) = Inr w"
proof -
  have "unat w < 256 ^ 8" using unsigned_less [of w] by simp
  then show ?thesis by (simp add: read_u64_def le_val_bytes)
qed

lemma metric_byte [simp]: "metric_to_u8 m = Inr b \<Longrightarrow> metric_from_u8 b = Inr m"
  by (cases m) (auto simp: metric_from_u8_def)

lemma metric_to_u8_total: "\<exists>b. metric_to_u8 m = Inr b"
  by (cases m) simp_all

lemma metric_from_u8_Inr: "metric_from_u8 b = Inr m \<Longrightarrow> metric_to_u8 m = Inr b"
  by (auto simp: metric_from_u8_def split: if_splits)

lemma Manifest_roundtrip:
  "\<exists>bs. Manifest_to_bytes m = Inr bs \<and> length bs = MANIFEST_LEN \<and> Manifest_from_bytes bs = Inr m"
proof -
  obtain b where b: "metric_to_u8 (mf_metric m) = Inr b" using metric_to_u8_total by blast
  define f v r where "f = le_bytes 4 (unat (mf_format_version m))" and "v = le_bytes 4 (unat (mf_dimension m))"
    and "r = le_bytes 8 (unat (mf_record_count m))"
  have len: "length f = 4" "length v = 4" "length r = 8" by (simp_all add: f_def v_def r_def)
  have parts: "take 4 (f @ v @ b # r) = f" "take 4 (drop 4 (f @ v @ b # r)) = v" "(f @ v @ b # r) ! 8 = b"
    "take 8 (drop 9 (f @ v @ b # r)) = r"
    using len by (simp_all add: nth_append)
  have "Manifest_to_bytes m = Inr (f @ v @ b # r)"
    by (simp add: Manifest_to_bytes_def b f_def v_def r_def)
  moreover have "length (f @ v @ b # r) = MANIFEST_LEN" using len by (simp add: MANIFEST_LEN_def)
  moreover from this have "Manifest_from_bytes (f @ v @ b # r) = Inr m"
    using b unfolding Manifest_from_bytes_def parts
    by (cases m) (simp add: f_def v_def r_def del: res_bind_eq_Inr)
  ultimately show ?thesis by blast
qed

lemma le_bytes_u32: "length bs = 4 \<Longrightarrow> le_bytes 4 (unat (word_of_nat (le_val bs) :: u32)) = bs"
  using le_val_less [of bs] le_bytes_val [of bs] by (simp add: unat_of_nat)

lemma le_bytes_u64: "length bs = 8 \<Longrightarrow> le_bytes 8 (unat (word_of_nat (le_val bs) :: u64)) = bs"
  using le_val_less [of bs] le_bytes_val [of bs] by (simp add: unat_of_nat)

lemma Manifest_canonical:
  assumes "Manifest_from_bytes bs = Inr m"
  shows "Manifest_to_bytes m = Inr bs"
proof -
  have len: "length bs = 17" using assms by (auto simp: Manifest_from_bytes_def MANIFEST_LEN_def split: if_splits)
  have "bs = take 4 bs @ take 4 (drop 4 bs) @ [bs ! 8] @ take 8 (drop 9 bs)"
  proof (rule nth_equalityI)
    fix i assume i: "i < length bs"
    then consider "i < 4" | "4 \<le> i" "i < 8" | "i = 8" | "9 \<le> i" "i < 17" using len by linarith
    then show "bs ! i = (take 4 bs @ take 4 (drop 4 bs) @ [bs ! 8] @ take 8 (drop 9 bs)) ! i"
      by cases (auto simp: nth_append len)
  qed (simp add: len)
  moreover have "metric_to_u8 (mf_metric m) = Inr (bs ! 8)"
    using assms by (auto simp: Manifest_from_bytes_def dest: metric_from_u8_Inr split: if_splits)
  moreover have "mf_format_version m = word_of_nat (le_val (take 4 bs))"
    "mf_dimension m = word_of_nat (le_val (take 4 (drop 4 bs)))"
    "mf_record_count m = word_of_nat (le_val (take 8 (drop 9 bs)))"
    using assms by (auto simp: Manifest_from_bytes_def read_u32_def read_u64_def split: if_splits)
  moreover have "length (take 4 bs) = 4" "length (take 4 (drop 4 bs)) = 4" "length (take 8 (drop 9 bs)) = 8"
    using len by simp_all
  ultimately show ?thesis by (simp only: Manifest_to_bytes_def map_res_simps le_bytes_u32 le_bytes_u64)
qed

section \<open>Files\<close>

datatype fault = Fault nat string

record File =
  fl_bytes :: "u8 list"
  fl_faults :: "fault option list"

text \<open>
  One system call: \<open>full\<close> is its effect, \<open>partial n\<close> what a failure after \<open>n\<close> bytes leaves.
\<close>

definition sys_call ::
  "(nat \<Rightarrow> u8 list \<Rightarrow> u8 list) \<Rightarrow> (u8 list \<Rightarrow> u8 list) \<Rightarrow> File \<Rightarrow> (StorageError + unit) \<times> File" where
  "sys_call partial full f =
     (case fl_faults f of
        [] \<Rightarrow> (Inr (), f\<lparr>fl_bytes := full (fl_bytes f)\<rparr>)
      | None # fs \<Rightarrow> (Inr (), \<lparr>fl_bytes = full (fl_bytes f), fl_faults = fs\<rparr>)
      | Some (Fault n msg) # fs \<Rightarrow> (Inl (St_Io msg), \<lparr>fl_bytes = partial n (fl_bytes f), fl_faults = fs\<rparr>))"

text \<open>Files of 2 GiB and more exist, of \<open>2 ^ 63\<close> bytes not: such a write or length is refused.\<close>

definition FILE_MAX :: nat where "FILE_MAX = 2 ^ 63"

text \<open>Lengths and offsets are computed in \<open>u64\<close>, which wraps around.\<close>

definition u64_of :: "nat \<Rightarrow> nat" where
  "u64_of n = n mod 2 ^ 64"

lemma u64_of_file [simp]: "n < FILE_MAX \<Longrightarrow> u64_of n = n"
  by (simp add: u64_of_def FILE_MAX_def)

lemma u64_of_le: "u64_of n \<le> n"
  by (simp add: u64_of_def)

definition write_all_end :: "u8 list \<Rightarrow> File \<Rightarrow> (StorageError + unit) \<times> File" where
  "write_all_end data f =
     (if FILE_MAX \<le> length (fl_bytes f) + length data then (Inl (St_Io ''File too large''), f)
      else sys_call (\<lambda>n bs. bs @ take n data) (\<lambda>bs. bs @ data) f)"

definition resize :: "nat \<Rightarrow> u8 list \<Rightarrow> u8 list" where
  "resize n bs = take n bs @ replicate (n - length bs) 0"

definition set_len :: "nat \<Rightarrow> File \<Rightarrow> (StorageError + unit) \<times> File" where
  "set_len n f =
     (if FILE_MAX \<le> n then (Inl (St_Io ''file length out of range''), f) else sys_call (\<lambda>_ bs. bs) (resize n) f)"

text \<open>\<open>sync_all\<close>, \<open>metadata\<close>, \<open>open\<close> and \<open>Mmap::map\<close> leave the contents alone.\<close>

definition sys_only :: "File \<Rightarrow> (StorageError + unit) \<times> File" where
  "sys_only f = sys_call (\<lambda>_ bs. bs) (\<lambda>bs. bs) f"

text \<open>The early-return operator over a state.\<close>

definition then_do :: "('e + 'a) \<times> 's \<Rightarrow> ('a \<Rightarrow> 's \<Rightarrow> ('e + 'b) \<times> 's) \<Rightarrow> ('e + 'b) \<times> 's" where
  "then_do r f = (case r of (Inl e, s) \<Rightarrow> (Inl e, s) | (Inr x, s) \<Rightarrow> f x s)"

lemma then_do_simps [simp]:
  "then_do (Inl e, s) f = (Inl e, s)" "then_do (Inr x, s) f = f x s"
  by (simp_all add: then_do_def)

lemma then_do_assoc: "then_do (then_do r f) g = then_do r (\<lambda>x s. then_do (f x s) g)"
  by (cases r; cases "fst r") auto

section \<open>Segment\<close>

record Segment =
  sg_file :: File
  sg_dimension :: nat
  sg_mmap :: "nat option"
  sg_mapped_records :: nat

definition HEADER_LEN :: nat where "HEADER_LEN = 32"

definition MAGIC :: "u8 list" where
  "MAGIC = map (\<lambda>c. word_of_nat (of_char c)) ''EIDOSSEG''"

definition Segment_stride :: "Segment \<Rightarrow> nat" where
  "Segment_stride self = sg_dimension self * 4"

text \<open>\<open>bytemuck::cast_slice\<close>: the floats of a little-endian machine as bytes, and back.\<close>

definition floats_to_bytes :: "f32 list \<Rightarrow> u8 list" where
  "floats_to_bytes vs = concat (map (\<lambda>v. le_bytes 4 (unat v)) vs)"

fun floats_of_bytes :: "u8 list \<Rightarrow> f32 list" where
  "floats_of_bytes (a # b # c # d # bs) = word_of_nat (le_val [a, b, c, d]) # floats_of_bytes bs"
| "floats_of_bytes _ = []"

definition header_bytes :: "u8 \<Rightarrow> u32 \<Rightarrow> u8 list" where
  "header_bytes metric_byte dimension =
     MAGIC @ le_bytes 4 (unat FORMAT_VERSION) @ le_bytes 4 (unat dimension) @ [metric_byte] @ replicate 15 0"

definition write_header :: "u8 \<Rightarrow> nat \<Rightarrow> File \<Rightarrow> (StorageError + unit) \<times> File" where
  "write_header metric_byte dimension f =
     (if u32_max < dimension then (Inl (St_FormatMismatch ''dimension exceeds u32''), f)
      else
        let header = header_bytes metric_byte (word_of_nat dimension)
        in sys_call (\<lambda>n bs. take n header @ drop n bs) (\<lambda>bs. header @ drop HEADER_LEN bs) f)"

definition check_header :: "u8 list \<Rightarrow> Metric \<Rightarrow> nat \<Rightarrow> StorageError + unit" where
  "check_header header metric dimension =
     (let version = (word_of_nat (le_val (take 4 (drop 8 header))) :: u32);
          dim = (word_of_nat (le_val (take 4 (drop 12 header))) :: u32)
      in if take 8 header \<noteq> MAGIC then Inl (St_Corruption ''bad segment magic'')
         else if version \<noteq> FORMAT_VERSION
         then Inl (St_FormatMismatch (''segment version '' @ string_of_nat (unat version) @ '' != '' @
                string_of_nat (unat FORMAT_VERSION)))
         else if u32_max < dimension then Inl (St_FormatMismatch ''dimension exceeds u32'')
         else if dim \<noteq> word_of_nat dimension
         then Inl (St_FormatMismatch (''segment dimension '' @ string_of_nat (unat dim) @ '' != '' @
                string_of_nat dimension))
         else
           (case metric_from_u8 (header ! 16) of
              Inl e \<Rightarrow> Inl e
            | Inr m \<Rightarrow> if m \<noteq> metric then Inl (St_FormatMismatch ''segment metric mismatch'') else Inr ()))"

text \<open>\<open>read_exact\<close> fails on a file shorter than the header.\<close>

definition validate_header :: "Metric \<Rightarrow> nat \<Rightarrow> File \<Rightarrow> (StorageError + unit) \<times> File" where
  "validate_header metric dimension f =
     then_do (sys_only f) (\<lambda>_ f.
       (if length (fl_bytes f) < HEADER_LEN then Inl (St_Io ''failed to fill whole buffer'')
        else check_header (take HEADER_LEN (fl_bytes f)) metric dimension, f))"

text \<open>Lifts a file operation to the segment that owns the file.\<close>

definition on_file :: "(File \<Rightarrow> (StorageError + 'a) \<times> File) \<Rightarrow> Segment \<Rightarrow> (StorageError + 'a) \<times> Segment" where
  "on_file op self = (case op (sg_file self) of (r, f) \<Rightarrow> (r, self\<lparr>sg_file := f\<rparr>))"

definition Segment_remap :: "nat \<Rightarrow> Segment \<Rightarrow> (StorageError + unit) \<times> Segment" where
  "Segment_remap record_count self =
     (let self = self\<lparr>sg_mmap := None\<rparr>;
          needed = u64_of (HEADER_LEN + record_count * Segment_stride self)
      in then_do (on_file sys_only self) (\<lambda>_ self.
           let actual = length (fl_bytes (sg_file self)) in
           if actual < needed
           then (Inl (St_Corruption (''segment file len '' @ string_of_nat actual @ '' < required '' @
                   string_of_nat needed)), self)
           else then_do (on_file sys_only self) (\<lambda>_ self.
             (Inr (), self\<lparr>sg_mmap := Some (length (fl_bytes (sg_file self))),
                           sg_mapped_records := record_count\<rparr>))))"

text \<open>
  \<open>create\<close> and \<open>open\<close> work on the path: the file they leave there is part of the result. The
  first system call is the one that opens the path.
\<close>

definition Segment_create ::
  "Metric \<Rightarrow> nat \<Rightarrow> fault option list \<Rightarrow> u8 list option \<Rightarrow> (StorageError + Segment) \<times> (u8 list option \<times> fault option list)" where
  "Segment_create metric dimension faults path =
     (case metric_to_u8 metric of
        Inl e \<Rightarrow> (Inl e, (path, faults))
      | Inr metric_byte \<Rightarrow>
     (case path of
        Some bs \<Rightarrow> (Inl (St_Io ''File exists''), (path, faults))
      | None \<Rightarrow>
     (case sys_only \<lparr>fl_bytes = [], fl_faults = faults\<rparr> of
        (Inl e, f) \<Rightarrow> (Inl e, (None, fl_faults f))
      | (Inr _, f) \<Rightarrow>
     (case then_do (write_header metric_byte dimension f) (\<lambda>_ f. sys_only f) of
        (Inl e, f) \<Rightarrow> (Inl e, (Some (fl_bytes f), fl_faults f))
      | (Inr _, f) \<Rightarrow>
     (case Segment_remap 0 \<lparr>sg_file = f, sg_dimension = dimension, sg_mmap = None, sg_mapped_records = 0\<rparr> of
        (Inl e, s) \<Rightarrow> (Inl e, (Some (fl_bytes (sg_file s)), fl_faults (sg_file s)))
      | (Inr _, s) \<Rightarrow> (Inr s, (Some (fl_bytes (sg_file s)), fl_faults (sg_file s))))))))"

definition Segment_open ::
  "Metric \<Rightarrow> nat \<Rightarrow> nat \<Rightarrow> fault option list \<Rightarrow> u8 list option \<Rightarrow>
   (StorageError + Segment) \<times> (u8 list option \<times> fault option list)" where
  "Segment_open metric dimension record_count faults path =
     (case path of
        None \<Rightarrow> (Inl (St_Io ''No such file or directory''), (None, faults))
      | Some bs \<Rightarrow>
     (case then_do (sys_only \<lparr>fl_bytes = bs, fl_faults = faults\<rparr>) (\<lambda>_ f. validate_header metric dimension f) of
        (Inl e, f) \<Rightarrow> (Inl e, (Some (fl_bytes f), fl_faults f))
      | (Inr _, f) \<Rightarrow>
          (let segment = \<lparr>sg_file = f, sg_dimension = dimension, sg_mmap = None, sg_mapped_records = 0\<rparr>;
               valid_len = u64_of (HEADER_LEN + record_count * Segment_stride segment)
           in case then_do (on_file (set_len valid_len) segment) (\<lambda>_ s.
                   then_do (on_file sys_only s) (\<lambda>_ s. Segment_remap record_count s)) of
                (Inl e, s) \<Rightarrow> (Inl e, (Some (fl_bytes (sg_file s)), fl_faults (sg_file s)))
              | (Inr _, s) \<Rightarrow> (Inr s, (Some (fl_bytes (sg_file s)), fl_faults (sg_file s))))))"

definition Segment_append :: "f32 list \<Rightarrow> Segment \<Rightarrow> (StorageError + unit) \<times> Segment" where
  "Segment_append values self =
     (if length values mod sg_dimension self \<noteq> 0
      then (Inl (St_Corruption (''append length '' @ string_of_nat (length values) @
              '' is not a multiple of dimension '' @ string_of_nat (sg_dimension self))), self)
      else then_do (on_file (write_all_end (floats_to_bytes values)) self) (\<lambda>_ self. on_file sys_only self))"

definition Segment_truncate_to_empty :: "Segment \<Rightarrow> (StorageError + unit) \<times> Segment" where
  "Segment_truncate_to_empty self =
     then_do (on_file (set_len HEADER_LEN) (self\<lparr>sg_mmap := None, sg_mapped_records := 0\<rparr>))
       (\<lambda>_ self. on_file sys_only self)"

text \<open>The map reads through to the file, up to the length it had when it was mapped.\<close>

definition Segment_record :: "nat \<Rightarrow> Segment \<Rightarrow> f32 list option" where
  "Segment_record slot self =
     (if sg_mapped_records self \<le> slot then None
      else case sg_mmap self of
        None \<Rightarrow> None
      | Some mapped \<Rightarrow>
          (let start = HEADER_LEN + slot * Segment_stride self;
               stop = start + Segment_stride self
           in if mapped < stop then None
              else Some (floats_of_bytes (take (Segment_stride self) (drop start (fl_bytes (sg_file self)))))))"

section \<open>The database\<close>

text \<open>A table maps keys to values in ascending key order; both are bytes (a \<open>u64\<close> is eight).\<close>

type_synonym table = "(u8 list \<times> u8 list) list"
type_synonym tables = "string \<rightharpoonup> table"

datatype db_write =
    W_open string
  | W_insert string "u8 list" "u8 list"
  | W_remove string "u8 list"
  | W_delete_table string

definition table_of :: "tables \<Rightarrow> string \<Rightarrow> table" where
  "table_of ts t = (case ts t of None \<Rightarrow> [] | Some m \<Rightarrow> m)"

fun apply_write :: "db_write \<Rightarrow> tables \<Rightarrow> tables" where
  "apply_write (W_open t) ts = ts(t \<mapsto> table_of ts t)"
| "apply_write (W_insert t k v) ts = ts(t \<mapsto> bt_insert k v (table_of ts t))"
| "apply_write (W_remove t k) ts = ts(t \<mapsto> AList.delete k (table_of ts t))"
| "apply_write (W_delete_table t) ts = ts(t := None)"

record 'd Redb =
  rd_create :: "'d option \<Rightarrow> string + 'd"
  rd_open :: "'d \<Rightarrow> string + 'd"
  rd_read :: "'d \<Rightarrow> string + tables"
  rd_commit :: "db_write list \<Rightarrow> 'd \<Rightarrow> (string + unit) \<times> 'd"
  rd_no_table :: "string \<Rightarrow> string"

definition redb_ok :: "'d Redb \<Rightarrow> ('d \<Rightarrow> tables) \<Rightarrow> bool" where
  "redb_ok R view \<longleftrightarrow>
     (\<forall>path d. rd_create R path = Inr d \<longrightarrow> view d = (case path of None \<Rightarrow> Map.empty | Some d0 \<Rightarrow> view d0)) \<and>
     (\<forall>d d'. rd_open R d = Inr d' \<longrightarrow> view d' = view d) \<and>
     (\<forall>d ts. rd_read R d = Inr ts \<longrightarrow> ts = view d) \<and>
     (\<forall>ws d r d'. rd_commit R ws d = (r, d') \<longrightarrow>
        view d' = (case r of Inl _ \<Rightarrow> view d | Inr _ \<Rightarrow> fold apply_write ws (view d)))"

definition redb_total :: "'d Redb \<Rightarrow> bool" where
  "redb_total R \<longleftrightarrow> (\<forall>path. \<exists>d. rd_create R path = Inr d) \<and> (\<forall>d. \<exists>d'. rd_open R d = Inr d') \<and>
     (\<forall>d. \<exists>ts. rd_read R d = Inr ts) \<and> (\<forall>ws d. fst (rd_commit R ws d) = Inr ())"

text \<open>A database in memory, to instantiate the parameter with.\<close>

definition mem_redb :: "tables Redb" where
  "mem_redb = \<lparr>rd_create = (\<lambda>path. Inr (case path of None \<Rightarrow> Map.empty | Some ts \<Rightarrow> ts)), rd_open = Inr, rd_read = Inr,
     rd_commit = (\<lambda>ws ts. (Inr (), fold apply_write ws ts)), rd_no_table = (\<lambda>t. t)\<rparr>"

lemma mem_redb_ok: "redb_ok mem_redb (\<lambda>d. d)" "redb_total mem_redb"
  by (auto simp: redb_ok_def redb_total_def mem_redb_def split: option.splits)

section \<open>Catalog\<close>

definition MANIFEST :: string where "MANIFEST = ''manifest''"
definition SLOTS :: string where "SLOTS = ''slots''"
definition MANIFEST_KEY :: "u8 list" where "MANIFEST_KEY = map (\<lambda>c. word_of_nat (of_char c)) ''manifest''"

definition begin_read :: "'d Redb \<Rightarrow> 'd \<Rightarrow> StorageError + tables" where
  "begin_read R d = map_err St_Catalog (rd_read R d)"

definition open_table :: "'d Redb \<Rightarrow> tables \<Rightarrow> string \<Rightarrow> StorageError + table" where
  "open_table R ts t = ok_or (St_Catalog (rd_no_table R t)) (ts t)"

definition commit :: "'d Redb \<Rightarrow> db_write list \<Rightarrow> 'd \<Rightarrow> (StorageError + unit) \<times> 'd" where
  "commit R ws d = (case rd_commit R ws d of (r, d') \<Rightarrow> (map_err St_Catalog r, d'))"

definition slot_key :: "VectorId \<Rightarrow> u8 list" where
  "slot_key i = uuid_as_bytes (VectorId_as_uuid i)"

definition u64_bytes :: "nat \<Rightarrow> u8 list" where
  "u64_bytes n = le_bytes 8 n"

text \<open>The database file exists as soon as it is created, whatever the first commit does.\<close>

definition Catalog_create :: "'d Redb \<Rightarrow> 'd option \<Rightarrow> Manifest \<Rightarrow> (StorageError + 'd) \<times> 'd option" where
  "Catalog_create R path manifest =
     (case Manifest_to_bytes manifest of
        Inl e \<Rightarrow> (Inl e, path)
      | Inr bs \<Rightarrow>
     (case rd_create R path of
        Inl e \<Rightarrow> (Inl (St_Catalog e), path)
      | Inr d \<Rightarrow>
          (case commit R [W_open MANIFEST, W_insert MANIFEST MANIFEST_KEY bs, W_open SLOTS] d of
             (Inl e, d') \<Rightarrow> (Inl e, Some d')
           | (Inr _, d') \<Rightarrow> (Inr d', Some d'))))"

definition manifest_row :: "table \<Rightarrow> StorageError + Manifest" where
  "manifest_row m = res_bind (ok_or (St_Corruption ''missing manifest row'') (map_of m MANIFEST_KEY)) Manifest_from_bytes"

definition Catalog_read_manifest :: "'d Redb \<Rightarrow> 'd \<Rightarrow> StorageError + Manifest" where
  "Catalog_read_manifest R d =
     res_bind (begin_read R d) (\<lambda>ts. res_bind (open_table R ts MANIFEST) manifest_row)"

definition Catalog_open :: "'d Redb \<Rightarrow> 'd \<Rightarrow> StorageError + 'd \<times> Manifest" where
  "Catalog_open R d =
     res_bind (map_err St_Catalog (rd_open R d)) (\<lambda>d'.
       map_res (\<lambda>m. (d', m)) (Catalog_read_manifest R d'))"

definition Catalog_live_count :: "'d Redb \<Rightarrow> 'd \<Rightarrow> StorageError + nat" where
  "Catalog_live_count R d = res_bind (begin_read R d) (\<lambda>ts. map_res length (open_table R ts SLOTS))"

definition Catalog_contains :: "'d Redb \<Rightarrow> VectorId \<Rightarrow> 'd \<Rightarrow> StorageError + bool" where
  "Catalog_contains R i d =
     res_bind (begin_read R d) (\<lambda>ts. map_res (\<lambda>m. map_of m (slot_key i) \<noteq> None) (open_table R ts SLOTS))"

text \<open>The rest of both write transactions: bump the watermark in the manifest row, then commit.\<close>

definition write_slots :: "'d Redb \<Rightarrow> db_write list \<Rightarrow> nat \<Rightarrow> 'd \<Rightarrow> (StorageError + unit) \<times> 'd" where
  "write_slots R ws new_record_count d =
     (case res_bind (begin_read R d) (\<lambda>ts. res_bind (manifest_row (table_of ts MANIFEST)) (\<lambda>m.
             Manifest_to_bytes (m\<lparr>mf_record_count := word_of_nat new_record_count\<rparr>))) of
        Inl e \<Rightarrow> (Inl e, d)
      | Inr bs \<Rightarrow> commit R (ws @ [W_open MANIFEST, W_insert MANIFEST MANIFEST_KEY bs]) d)"

definition slot_writes :: "(VectorId \<times> nat) list \<Rightarrow> db_write list" where
  "slot_writes items = map (\<lambda>(i, slot). W_insert SLOTS (slot_key i) (u64_bytes slot)) items"

definition Catalog_insert_slots ::
  "'d Redb \<Rightarrow> (VectorId \<times> nat) list \<Rightarrow> nat \<Rightarrow> 'd \<Rightarrow> (StorageError + unit) \<times> 'd" where
  "Catalog_insert_slots R items new_record_count d =
     write_slots R (W_open SLOTS # slot_writes items) new_record_count d"

definition Catalog_insert_slot ::
  "'d Redb \<Rightarrow> VectorId \<Rightarrow> nat \<Rightarrow> nat \<Rightarrow> 'd \<Rightarrow> (StorageError + unit) \<times> 'd" where
  "Catalog_insert_slot R i slot new_record_count d = Catalog_insert_slots R [(i, slot)] new_record_count d"

definition Catalog_replace_slots ::
  "'d Redb \<Rightarrow> (VectorId \<times> nat) list \<Rightarrow> nat \<Rightarrow> 'd \<Rightarrow> (StorageError + unit) \<times> 'd" where
  "Catalog_replace_slots R slots new_record_count d =
     write_slots R (W_delete_table SLOTS # W_open SLOTS # slot_writes slots) new_record_count d"

definition Catalog_remove_slot :: "'d Redb \<Rightarrow> VectorId \<Rightarrow> 'd \<Rightarrow> (StorageError + bool) \<times> 'd" where
  "Catalog_remove_slot R i d =
     (case begin_read R d of
        Inl e \<Rightarrow> (Inl e, d)
      | Inr ts \<Rightarrow>
          (let existed = map_of (table_of ts SLOTS) (slot_key i) \<noteq> None
           in case commit R [W_open SLOTS, W_remove SLOTS (slot_key i)] d of
                (r, d') \<Rightarrow> (map_res (\<lambda>_. existed) r, d')))"

definition slot_entry :: "u8 list \<times> u8 list \<Rightarrow> StorageError + VectorId \<times> nat" where
  "slot_entry p =
     (if length (fst p) \<noteq> 16 then Inl (St_Corruption ''slot key is not 16 bytes'')
      else Inr (VectorId_from_uuid (uuid_from_bytes (fst p)), le_val (snd p)))"

definition Catalog_live_slots :: "'d Redb \<Rightarrow> 'd \<Rightarrow> StorageError + (VectorId \<times> nat) list" where
  "Catalog_live_slots R d =
     res_bind (begin_read R d) (\<lambda>ts. res_bind (open_table R ts SLOTS) (traverse slot_entry))"

section \<open>Records of floats\<close>

lemma length_floats_to_bytes [simp]: "length (floats_to_bytes vs) = 4 * length vs"
  by (induction vs) (simp_all add: floats_to_bytes_def)

lemma floats_to_bytes_simps [simp]:
  "floats_to_bytes [] = []"
  "floats_to_bytes (v # vs) = le_bytes 4 (unat v) @ floats_to_bytes vs"
  "floats_to_bytes (xs @ ys) = floats_to_bytes xs @ floats_to_bytes ys"
  by (simp_all add: floats_to_bytes_def)

lemma floats_of_bytes_four: "length f = 4 \<Longrightarrow> floats_of_bytes (f @ bs) = word_of_nat (le_val f) # floats_of_bytes bs"
proof -
  assume "length f = 4"
  then have "length f = Suc (Suc (Suc (Suc 0)))" by simp
  then obtain a b c d where "f = [a, b, c, d]" by (auto simp: length_Suc_conv)
  then show ?thesis by (simp del: le_val.simps)
qed

lemma floats_roundtrip [simp]: "floats_of_bytes (floats_to_bytes vs) = vs"
proof (induction vs)
  case (Cons v vs)
  have "unat v < 256 ^ 4" using unsigned_less [of v] by simp
  then show ?case using Cons by (simp add: floats_of_bytes_four le_val_bytes)
qed simp

definition record_at :: "nat \<Rightarrow> u8 list \<Rightarrow> nat \<Rightarrow> f32 list" where
  "record_at dim bytes slot = floats_of_bytes (take (dim * 4) (drop (HEADER_LEN + slot * (dim * 4)) bytes))"

lemma record_at_prefix:
  assumes "HEADER_LEN + n * (dim * 4) \<le> length bytes" "slot < n"
  shows "record_at dim (bytes @ xs) slot = record_at dim bytes slot"
    "record_at dim (take (HEADER_LEN + n * (dim * 4)) bytes) slot = record_at dim bytes slot"
proof -
  have "Suc slot * (dim * 4) \<le> n * (dim * 4)" using assms(2) by (intro mult_le_mono1) simp
  then have le: "HEADER_LEN + slot * (dim * 4) + dim * 4 \<le> HEADER_LEN + n * (dim * 4)" by simp
  then show "record_at dim (bytes @ xs) slot = record_at dim bytes slot"
    using assms(1) by (simp add: record_at_def)
  show "record_at dim (take (HEADER_LEN + n * (dim * 4)) bytes) slot = record_at dim bytes slot"
    using le by (simp add: record_at_def drop_take min_absorb1)
qed

text \<open>Records appended at the watermark are read back by their slots.\<close>

lemma record_at_appended:
  assumes "length bytes = HEADER_LEN + n * (dim * 4)" "\<forall>v \<in> set vss. length v = dim" "j < length vss"
  shows "record_at dim (bytes @ floats_to_bytes (concat vss) @ xs) (n + j) = vss ! j"
proof -
  have "take (dim * 4) (drop (j * (dim * 4)) (floats_to_bytes (concat vss) @ xs)) = floats_to_bytes (vss ! j)"
    using assms(2,3)
  proof (induction vss arbitrary: j)
    case (Cons v vss)
    show ?case
    proof (cases j)
      case (Suc i)
      then have "take (dim * 4) (drop (i * (dim * 4)) (floats_to_bytes (concat vss) @ xs)) = floats_to_bytes (vss ! i)"
        using Cons by simp
      with Suc Cons.prems show ?thesis by (simp add: add.commute)
    qed (use Cons.prems in simp)
  qed simp
  moreover have "HEADER_LEN + (n + j) * (dim * 4) = length bytes + j * (dim * 4)"
    using assms(1) by (simp add: add_mult_distrib)
  ultimately show ?thesis by (simp add: record_at_def)
qed

section \<open>The header\<close>

lemma length_header_bytes [simp]: "length (header_bytes b d) = HEADER_LEN"
  by (simp add: header_bytes_def HEADER_LEN_def MAGIC_def)

lemma check_header_ok:
  assumes "metric_to_u8 metric = Inr b" "dim \<le> u32_max"
  shows "check_header (header_bytes b (word_of_nat dim)) metric dim = Inr ()"
proof -
  have len: "length MAGIC = 8" by (simp add: MAGIC_def)
  have v: "word_of_nat (le_val (le_bytes 4 (unat w))) = w" for w :: u32
  proof -
    have "unat w < 256 ^ 4" using unsigned_less [of w] by simp
    then show ?thesis by (simp add: le_val_bytes)
  qed
  let ?h = "header_bytes b (word_of_nat dim)"
  have parts: "take 8 ?h = MAGIC" "take 4 (drop 8 ?h) = le_bytes 4 (unat FORMAT_VERSION)"
    "take 4 (drop 12 ?h) = le_bytes 4 (unat (word_of_nat dim :: u32))" "?h ! 16 = b"
    by (simp_all add: header_bytes_def len nth_append)
  show ?thesis using assms metric_byte [OF assms(1)]
    unfolding check_header_def parts Let_def v by simp
qed

section \<open>System calls without faults\<close>

lemma sys_only_clean [simp]: "fl_faults f = [] \<Longrightarrow> sys_only f = (Inr (), f)"
  by (simp add: sys_only_def sys_call_def)

lemma sys_only_bytes: "fl_bytes (snd (sys_only f)) = fl_bytes f"
  by (auto simp: sys_only_def sys_call_def split: list.splits option.splits fault.splits)

lemma on_file_clean [simp]: "fl_faults (sg_file s) = [] \<Longrightarrow> on_file sys_only s = (Inr (), s)"
  by (simp add: on_file_def)

lemma Segment_append_clean:
  assumes "fl_faults (sg_file s) = []" "length vs mod sg_dimension s = 0"
    and "length (fl_bytes (sg_file s)) + 4 * length vs < FILE_MAX"
  shows "Segment_append vs s =
    (Inr (), s\<lparr>sg_file := (sg_file s)\<lparr>fl_bytes := fl_bytes (sg_file s) @ floats_to_bytes vs\<rparr>\<rparr>)"
  using assms by (simp add: Segment_append_def on_file_def write_all_end_def sys_call_def)

text \<open>Whatever happens, an append leaves the old bytes followed by a prefix of the new ones.\<close>

lemma Segment_append_faulty:
  assumes "Segment_append vs s = (r, s')"
  shows "(\<exists>n. fl_bytes (sg_file s') = fl_bytes (sg_file s) @ take n (floats_to_bytes vs)) \<and>
    (r = Inr () \<longrightarrow> fl_bytes (sg_file s') = fl_bytes (sg_file s) @ floats_to_bytes vs \<and>
       length (fl_bytes (sg_file s')) < FILE_MAX) \<and>
    s' = s\<lparr>sg_file := sg_file s'\<rparr>"
proof -
  have all: "\<exists>n. floats_to_bytes vs = take n (floats_to_bytes vs)" by (rule exI [of _ "length (floats_to_bytes vs)"]) simp
  have none: "\<exists>n. take n (floats_to_bytes vs) = []" by (rule exI [of _ 0]) simp
  show ?thesis using assms all none
    by (fastforce simp: Segment_append_def on_file_def write_all_end_def sys_only_def sys_call_def then_do_def
        split: if_splits list.splits option.splits fault.splits)
qed

lemma Segment_remap_clean:
  assumes "fl_faults (sg_file s) = []" "HEADER_LEN + n * (sg_dimension s * 4) \<le> length (fl_bytes (sg_file s))"
  shows "Segment_remap n s =
    (Inr (), s\<lparr>sg_mmap := Some (length (fl_bytes (sg_file s))), sg_mapped_records := n\<rparr>)"
  using assms u64_of_le [of "HEADER_LEN + n * (sg_dimension s * 4)"]
  by (simp add: Segment_remap_def Let_def Segment_stride_def)

lemma Segment_record_mapped:
  assumes "slot < sg_mapped_records s" "sg_mmap s = Some mapped"
    and "HEADER_LEN + sg_mapped_records s * (sg_dimension s * 4) \<le> mapped"
  shows "Segment_record slot s = Some (record_at (sg_dimension s) (fl_bytes (sg_file s)) slot)"
proof -
  have "Suc slot * (sg_dimension s * 4) \<le> sg_mapped_records s * (sg_dimension s * 4)"
    using assms(1) by (intro mult_le_mono1) simp
  then have "HEADER_LEN + slot * (sg_dimension s * 4) + sg_dimension s * 4 \<le> mapped" using assms(3) by simp
  then show ?thesis using assms(1,2)
    by (simp add: Segment_record_def Let_def Segment_stride_def record_at_def)
qed

text \<open>A file with a valid header reopens, cut or zero-extended to the watermark.\<close>

lemma Segment_open_clean:
  assumes "metric_to_u8 metric = Inr b" "dim \<le> u32_max"
    and "take HEADER_LEN bytes = header_bytes b (word_of_nat dim)" "HEADER_LEN + n * (dim * 4) < FILE_MAX"
  shows "Segment_open metric dim n [] (Some bytes) =
    (Inr \<lparr>sg_file = \<lparr>fl_bytes = resize (HEADER_LEN + n * (dim * 4)) bytes, fl_faults = []\<rparr>, sg_dimension = dim,
          sg_mmap = Some (HEADER_LEN + n * (dim * 4)), sg_mapped_records = n\<rparr>,
     (Some (resize (HEADER_LEN + n * (dim * 4)) bytes), []))"
proof -
  have "HEADER_LEN \<le> length bytes"
    using arg_cong [OF assms(3), of length] by simp
  moreover have len: "length (resize k bytes) = k" for k by (simp add: resize_def)
  ultimately show ?thesis using check_header_ok [OF assms(1,2)] assms(3,4)
    by (simp add: Segment_open_def validate_header_def Let_def Segment_stride_def set_len_def on_file_def
        sys_call_def Segment_remap_clean)
qed

lemma Segment_create_clean:
  assumes "dim \<le> u32_max"
  obtains b where "metric_to_u8 metric = Inr b"
    "Segment_create metric dim [] None =
      (Inr \<lparr>sg_file = \<lparr>fl_bytes = header_bytes b (word_of_nat dim), fl_faults = []\<rparr>, sg_dimension = dim,
            sg_mmap = Some HEADER_LEN, sg_mapped_records = 0\<rparr>,
       (Some (header_bytes b (word_of_nat dim)), []))"
proof -
  obtain b where "metric_to_u8 metric = Inr b" using metric_to_u8_total by blast
  then show ?thesis using assms
    by (intro that [of b]) (simp_all add: Segment_create_def write_header_def Let_def sys_call_def Segment_remap_clean)
qed

section \<open>The catalog over the view of the database\<close>

lemma slot_key_simps [simp]:
  "length (slot_key i) = 16" "slot_key i = slot_key j \<longleftrightarrow> i = j"
  by (cases i; cases j; simp add: slot_key_def VectorId_as_uuid_def)+

lemma slot_key_from_uuid: "length k = 16 \<Longrightarrow> slot_key (VectorId_from_uuid (uuid_from_bytes k)) = k"
  by (simp add: slot_key_def VectorId_from_uuid_def VectorId_as_uuid_def uuid_bytes_roundtrip)

lemma u64_bytes_val: "n < 2 ^ 64 \<Longrightarrow> le_val (u64_bytes n) = n"
  by (simp add: u64_bytes_def le_val_bytes)

lemma redb_read: "redb_ok R view \<Longrightarrow> begin_read R d = Inr ts \<Longrightarrow> ts = view d"
  by (auto simp: redb_ok_def begin_read_def)

lemma redb_commit:
  assumes "redb_ok R view" "commit R ws d = (r, d')"
  shows "view d' = (case r of Inl _ \<Rightarrow> view d | Inr _ \<Rightarrow> fold apply_write ws (view d))"
proof -
  obtain r0 where r0: "rd_commit R ws d = (r0, d')" "r = map_err St_Catalog r0"
    using assms(2) by (auto simp: commit_def split: prod.splits)
  have "view d' = (case r0 of Inl _ \<Rightarrow> view d | Inr _ \<Rightarrow> fold apply_write ws (view d))"
    using assms(1) r0(1) by (simp add: redb_ok_def)
  then show ?thesis by (cases r0) (simp_all add: r0(2))
qed

definition slot_map :: "tables \<Rightarrow> VectorId \<rightharpoonup> nat" where
  "slot_map ts i = map_option le_val (map_of (table_of ts SLOTS) (slot_key i))"

definition catalog_ok :: "Metric \<Rightarrow> Dimension \<Rightarrow> nat \<Rightarrow> tables \<Rightarrow> bool" where
  "catalog_ok metric d n ts \<longleftrightarrow>
     (\<exists>mt mb. ts MANIFEST = Some mt \<and> btree_ok mt \<and> map_of mt MANIFEST_KEY = Some mb \<and>
        Manifest_from_bytes mb = Inr \<lparr>mf_format_version = FORMAT_VERSION, mf_dimension = word_of_nat (Dimension_get d),
          mf_metric = metric, mf_record_count = word_of_nat n\<rparr>) \<and>
     (\<exists>st. ts SLOTS = Some st \<and> btree_ok st \<and> (\<forall>(k, v) \<in> set st. length k = 16 \<and> le_val v < n)) \<and>
     n < 2 ^ 64"

lemma MANIFEST_SLOTS [simp]: "MANIFEST \<noteq> SLOTS" "SLOTS \<noteq> MANIFEST"
  by (simp_all add: MANIFEST_def SLOTS_def)

lemma slot_map_less:
  "catalog_ok metric d n ts \<Longrightarrow> slot_map ts i = Some slot \<Longrightarrow> slot < n"
  by (auto simp: catalog_ok_def slot_map_def table_of_def dest!: map_of_SomeD)

text \<open>The slot table on its own: sixteen-byte keys, slots below the watermark.\<close>

definition slots_ok :: "nat \<Rightarrow> tables \<Rightarrow> bool" where
  "slots_ok n ts \<longleftrightarrow>
     (\<exists>st. ts SLOTS = Some st \<and> btree_ok st \<and> (\<forall>(k, v) \<in> set st. length k = 16 \<and> le_val v < n))"

definition manifest_ok :: "Metric \<Rightarrow> Dimension \<Rightarrow> nat \<Rightarrow> tables \<Rightarrow> bool" where
  "manifest_ok metric d n ts \<longleftrightarrow>
     (\<exists>mt mb. ts MANIFEST = Some mt \<and> btree_ok mt \<and> map_of mt MANIFEST_KEY = Some mb \<and>
        Manifest_from_bytes mb = Inr \<lparr>mf_format_version = FORMAT_VERSION, mf_dimension = word_of_nat (Dimension_get d),
          mf_metric = metric, mf_record_count = word_of_nat n\<rparr>)"

lemma catalog_ok_split:
  "catalog_ok metric d n ts \<longleftrightarrow> manifest_ok metric d n ts \<and> slots_ok n ts \<and> n < 2 ^ 64"
  by (simp add: catalog_ok_def manifest_ok_def slots_ok_def)

lemma slots_ok_mono: "slots_ok n ts \<Longrightarrow> n \<le> n' \<Longrightarrow> slots_ok n' ts"
  unfolding slots_ok_def by fastforce

lemma set_bt_insert: "set (bt_insert k v m) \<subseteq> insert (k, v) (set m)"
  by (induction k v m rule: bt_insert.induct) auto

lemma slot_insert:
  assumes "slots_ok n ts" "slot < n" "n \<le> 2 ^ 64"
  shows "slots_ok n (apply_write (W_insert SLOTS (slot_key i) (u64_bytes slot)) ts) \<and>
    slot_map (apply_write (W_insert SLOTS (slot_key i) (u64_bytes slot)) ts) = (slot_map ts)(i \<mapsto> slot)"
proof -
  obtain st where st: "ts SLOTS = Some st" "btree_ok st" "\<forall>(k, v) \<in> set st. length k = 16 \<and> le_val v < n"
    using assms(1) by (auto simp: slots_ok_def)
  let ?st = "bt_insert (slot_key i) (u64_bytes slot) st"
  have v: "le_val (u64_bytes slot) = slot" using assms(2,3) by (intro u64_bytes_val) simp
  have "\<forall>(k, v) \<in> set ?st. length k = 16 \<and> le_val v < n"
    using st(3) set_bt_insert [of "slot_key i" "u64_bytes slot" st] v assms(2) by fastforce
  then show ?thesis using st v
    by (auto simp: slots_ok_def slot_map_def table_of_def bt_insert_ok map_of_bt_insert fun_eq_iff)
qed

lemma slot_inserts:
  "slots_ok n ts \<Longrightarrow> \<forall>(i, slot) \<in> set items. slot < n \<Longrightarrow> n \<le> 2 ^ 64 \<Longrightarrow>
   slots_ok n (fold apply_write (slot_writes items) ts) \<and>
   slot_map (fold apply_write (slot_writes items) ts) = slot_map ts ++ map_of (rev items) \<and>
   fold apply_write (slot_writes items) ts MANIFEST = ts MANIFEST"
proof (induction items arbitrary: ts)
  case (Cons p items)
  obtain i slot where p: "p = (i, slot)" by fastforce
  let ?ts = "apply_write (W_insert SLOTS (slot_key i) (u64_bytes slot)) ts"
  note ins = slot_insert [OF Cons.prems(1) _ Cons.prems(3), of slot i]
  have "slot < n" using Cons.prems(2) p by simp
  with ins have ok: "slots_ok n ?ts" and sm: "slot_map ?ts = (slot_map ts)(i \<mapsto> slot)" by blast+
  have "?ts MANIFEST = ts MANIFEST" by simp
  moreover have "slot_writes (p # items) = W_insert SLOTS (slot_key i) (u64_bytes slot) # slot_writes items"
    by (simp add: p slot_writes_def)
  moreover have "m ++ map_of (rev (p # items)) = m(i \<mapsto> slot) ++ map_of (rev items)" for m :: "VectorId \<rightharpoonup> nat"
    by (simp add: p map_add_def fun_eq_iff split: option.splits)
  moreover have "\<forall>(i, slot) \<in> set items. slot < n" using Cons.prems(2) by simp
  ultimately show ?case using Cons.IH [OF ok _ Cons.prems(3)] by (simp only: fold_simps sm)
qed (simp add: slot_writes_def)

lemma slots_open: "slots_ok n ts \<Longrightarrow> apply_write (W_open SLOTS) ts = ts"
  by (auto simp: slots_ok_def table_of_def)

lemma slots_fresh:
  "slots_ok n (fold apply_write [W_delete_table SLOTS, W_open SLOTS] ts)"
  "slot_map (fold apply_write [W_delete_table SLOTS, W_open SLOTS] ts) = Map.empty"
  "fold apply_write [W_delete_table SLOTS, W_open SLOTS] ts MANIFEST = ts MANIFEST"
  by (simp_all add: slots_ok_def btree_ok_def table_of_def slot_map_def fun_eq_iff)

text \<open>Rewriting the manifest row leaves the slots alone and sets the watermark.\<close>

lemma manifest_write:
  assumes "manifest_ok metric d n ts" "Manifest_to_bytes \<lparr>mf_format_version = FORMAT_VERSION,
      mf_dimension = word_of_nat (Dimension_get d), mf_metric = metric, mf_record_count = word_of_nat n'\<rparr> = Inr bs"
  shows "manifest_ok metric d n' (fold apply_write [W_open MANIFEST, W_insert MANIFEST MANIFEST_KEY bs] ts)"
    "fold apply_write [W_open MANIFEST, W_insert MANIFEST MANIFEST_KEY bs] ts SLOTS = ts SLOTS"
proof -
  obtain mt where mt: "ts MANIFEST = Some mt" "btree_ok mt" using assms(1) by (auto simp: manifest_ok_def)
  have "Manifest_from_bytes bs = Inr \<lparr>mf_format_version = FORMAT_VERSION,
      mf_dimension = word_of_nat (Dimension_get d), mf_metric = metric, mf_record_count = word_of_nat n'\<rparr>"
    using Manifest_roundtrip assms(2) by (metis sum.inject(2))
  then show "manifest_ok metric d n' (fold apply_write [W_open MANIFEST, W_insert MANIFEST MANIFEST_KEY bs] ts)"
    using mt by (auto simp: manifest_ok_def table_of_def bt_insert_ok map_of_bt_insert)
  show "fold apply_write [W_open MANIFEST, W_insert MANIFEST MANIFEST_KEY bs] ts SLOTS = ts SLOTS" by simp
qed

lemma slots_ok_cong: "ts SLOTS = ts' SLOTS \<Longrightarrow> slots_ok n ts = slots_ok n ts' \<and> slot_map ts = slot_map ts'"
  by (simp add: slots_ok_def slot_map_def table_of_def fun_eq_iff)

text \<open>Both write transactions: all or nothing, and on success the new watermark and slots.\<close>

lemma write_slots_spec:
  assumes "redb_ok R view" "catalog_ok metric d n (view c)" "write_slots R ws n' c = (r, c')"
    and "slots_ok n' (fold apply_write ws (view c))" "fold apply_write ws (view c) MANIFEST = view c MANIFEST"
    and "n' < 2 ^ 64"
  shows "case r of Inl _ \<Rightarrow> view c' = view c
    | Inr _ \<Rightarrow> catalog_ok metric d n' (view c') \<and> slot_map (view c') = slot_map (fold apply_write ws (view c))"
proof -
  let ?m = "\<lparr>mf_format_version = FORMAT_VERSION, mf_dimension = word_of_nat (Dimension_get d),
      mf_metric = metric, mf_record_count = word_of_nat n'\<rparr> :: Manifest"
  obtain bs where bs: "Manifest_to_bytes ?m = Inr bs" using Manifest_roundtrip by blast
  have m: "manifest_ok metric d n (view c)" using assms(2) by (simp add: catalog_ok_split)
  then have row: "manifest_row (table_of (view c) MANIFEST) = Inr (?m\<lparr>mf_record_count := word_of_nat n\<rparr>)"
    by (auto simp: manifest_ok_def manifest_row_def table_of_def)
  show ?thesis
  proof (cases "begin_read R c")
    case (Inl e)
    then show ?thesis using assms(3) by (auto simp: write_slots_def)
  next
    case (Inr ts)
    then have ts: "ts = view c" by (rule redb_read [OF assms(1)])
    let ?ws = "[W_open MANIFEST, W_insert MANIFEST MANIFEST_KEY bs]"
    have "commit R (ws @ ?ws) c = (r, c')"
      using assms(3) by (simp add: write_slots_def Inr ts row bs)
    note v = redb_commit [OF assms(1) this]
    show ?thesis
    proof (cases r)
      case r: (Inr u)
      let ?ts = "fold apply_write ws (view c)"
      have "manifest_ok metric d n ?ts" using m by (simp add: manifest_ok_def assms(5))
      note w = manifest_write [OF this bs]
      have view: "view c' = fold apply_write ?ws ?ts" using v r by simp
      have "manifest_ok metric d n' (view c')" "view c' SLOTS = ?ts SLOTS" unfolding view by (fact w)+
      with slots_ok_cong [where ts = "view c'" and ts' = ?ts] assms(4,6) r
      show ?thesis by (simp add: catalog_ok_split)
    qed (use v in simp)
  qed
qed

lemma insert_slots_spec:
  assumes "redb_ok R view" "catalog_ok metric d n (view c)" "Catalog_insert_slots R items n' c = (r, c')"
    and "n \<le> n'" "n' < 2 ^ 64" "\<forall>(i, slot) \<in> set items. slot < n'"
  shows "case r of Inl _ \<Rightarrow> view c' = view c
    | Inr _ \<Rightarrow> catalog_ok metric d n' (view c') \<and> slot_map (view c') = slot_map (view c) ++ map_of (rev items)"
proof -
  have ok: "slots_ok n' (view c)" using assms(2,4) by (auto simp: catalog_ok_split intro: slots_ok_mono)
  have f: "fold apply_write (W_open SLOTS # slot_writes items) (view c) = fold apply_write (slot_writes items) (view c)"
    by (simp only: fold_simps slots_open [OF ok])
  note i = slot_inserts [OF ok assms(6)]
  from write_slots_spec [OF assms(1,2) assms(3) [unfolded Catalog_insert_slots_def], unfolded f] i assms(5)
  show ?thesis by (auto split: sum.splits)
qed

lemma replace_slots_spec:
  assumes "redb_ok R view" "catalog_ok metric d n (view c)" "Catalog_replace_slots R items n' c = (r, c')"
    and "n' < 2 ^ 64" "\<forall>(i, slot) \<in> set items. slot < n'"
  shows "case r of Inl _ \<Rightarrow> view c' = view c
    | Inr _ \<Rightarrow> catalog_ok metric d n' (view c') \<and> slot_map (view c') = map_of (rev items)"
proof -
  let ?ts = "fold apply_write [W_delete_table SLOTS, W_open SLOTS] (view c)"
  have f: "fold apply_write (W_delete_table SLOTS # W_open SLOTS # slot_writes items) (view c) =
      fold apply_write (slot_writes items) ?ts" by simp
  define ts where "ts = ?ts"
  have ts: "slots_ok n' ts" "slot_map ts = Map.empty" "ts MANIFEST = view c MANIFEST"
    unfolding ts_def by (rule slots_fresh)+
  note i = slot_inserts [OF ts(1) assms(5)]
  from write_slots_spec [OF assms(1,2) assms(3) [unfolded Catalog_replace_slots_def], unfolded f, folded ts_def] i assms(4) ts
  show ?thesis by (auto split: sum.splits)
qed

lemma remove_slot_spec:
  assumes "redb_ok R view" "catalog_ok metric d n (view c)" "Catalog_remove_slot R i c = (r, c')"
  shows "case r of Inl _ \<Rightarrow> view c' = view c
    | Inr b \<Rightarrow> b = (slot_map (view c) i \<noteq> None) \<and> catalog_ok metric d n (view c') \<and>
        slot_map (view c') = (slot_map (view c))(i := None)"
proof (cases "begin_read R c")
  case (Inl e)
  then show ?thesis using assms(3) by (auto simp: Catalog_remove_slot_def)
next
  case (Inr ts)
  then have ts: "ts = view c" by (rule redb_read [OF assms(1)])
  let ?ws = "[W_open SLOTS, W_remove SLOTS (slot_key i)]"
  obtain r0 where c: "commit R ?ws c = (r0, c')"
    and r: "r = map_res (\<lambda>_. map_of (table_of (view c) SLOTS) (slot_key i) \<noteq> None) r0"
    using assms(3) by (auto simp: Catalog_remove_slot_def Inr ts Let_def split: prod.splits)
  note v = redb_commit [OF assms(1) c]
  show ?thesis
  proof (cases r0)
    case r0: (Inr u)
    obtain st where st: "view c SLOTS = Some st" "btree_ok st" "\<forall>(k, v) \<in> set st. length k = 16 \<and> le_val v < n"
      using assms(2) by (auto simp: catalog_ok_split slots_ok_def)
    have view: "view c' = (view c)(SLOTS \<mapsto> AList.delete (slot_key i) st)"
      using v r0 st(1) by (simp add: table_of_def)
    have "btree_ok (AList.delete (slot_key i) st)"
      using st(2) by (auto simp: btree_ok_def AList.delete_eq sorted_filter distinct_map_filter)
    moreover have "set (AList.delete (slot_key i) st) \<subseteq> set st" by (auto simp: AList.delete_eq)
    ultimately have "slots_ok n (view c')" using st(3) by (fastforce simp: slots_ok_def view)
    moreover have "slot_map (view c') = (slot_map (view c))(i := None)"
      by (auto simp: slot_map_def table_of_def view st(1) fun_eq_iff)
    moreover have "manifest_ok metric d n (view c')"
      using assms(2) by (simp add: catalog_ok_split manifest_ok_def view)
    ultimately show ?thesis using assms(2)
      by (simp add: r r0 catalog_ok_split slot_map_def)
  qed (use v r in simp)
qed

text \<open>A table keyed by ids, read back row by row.\<close>

lemma keyed_rows:
  assumes "btree_ok st" "\<forall>(k, v) \<in> set st. length k = 16"
  shows "distinct (map fst (map (\<lambda>p. (VectorId_from_uuid (uuid_from_bytes (fst p)), g (snd p))) st))" (is "distinct (map fst ?rows)")
    "map_of (map (\<lambda>p. (VectorId_from_uuid (uuid_from_bytes (fst p)), g (snd p))) st) =
      (\<lambda>i. map_option g (map_of st (slot_key i)))"
    "length st = card (dom (\<lambda>i. map_option g (map_of st (slot_key i))))"
proof -
  let ?g = "\<lambda>p. (VectorId_from_uuid (uuid_from_bytes (fst p)), g (snd p))"
  have key: "slot_key (fst (?g p)) = fst p" if "p \<in> set st" for p
    using slot_key_from_uuid [of "fst p"] assms(2) that by auto
  have "map slot_key (map fst ?rows) = map fst st" using key by simp
  moreover have "distinct (map fst st)" using assms(1) by (simp add: btree_ok_def)
  ultimately have "distinct (map slot_key (map fst ?rows))" by (simp only:)
  then show d: "distinct (map fst ?rows)" by (simp only: distinct_map [of slot_key])
  show m: "map_of ?rows = (\<lambda>i. map_option g (map_of st (slot_key i)))"
  proof
    fix i
    have "map_of (map ?g xs) i = map_option g (map_of xs (slot_key i))" if "set xs \<subseteq> set st" for xs
      using that
    proof (induction xs)
      case (Cons p xs)
      have "fst (?g p) = i \<longleftrightarrow> fst p = slot_key i" using key [of p] Cons.prems by auto
      then show ?case using Cons by (cases p) auto
    qed simp
    then show "map_of ?rows i = map_option g (map_of st (slot_key i))" by simp
  qed
  have "length ?rows = card (dom (map_of ?rows))" using d by (simp add: hm_length hm_ok_def del: length_map)
  then show "length st = card (dom (\<lambda>i. map_option g (map_of st (slot_key i))))" unfolding m by simp
qed

lemma live_slots_spec:
  assumes "slots_ok n ts"
  obtains live where "open_table R ts SLOTS = Inr (table_of ts SLOTS)"
    "traverse slot_entry (table_of ts SLOTS) = Inr live" "distinct (map fst live)" "map_of live = slot_map ts"
    "length (table_of ts SLOTS) = card (dom (slot_map ts))"
proof -
  obtain st where st: "ts SLOTS = Some st" "btree_ok st" "\<forall>(k, v) \<in> set st. length k = 16 \<and> le_val v < n"
    using assms by (auto simp: slots_ok_def)
  then have t: "table_of ts SLOTS = st" and keys: "\<forall>(k, v) \<in> set st. length k = 16"
    by (auto simp: table_of_def)
  have sm: "(\<lambda>i. map_option le_val (map_of st (slot_key i))) = slot_map ts" by (simp add: slot_map_def t fun_eq_iff)
  have "traverse slot_entry st = Inr (map (\<lambda>p. (VectorId_from_uuid (uuid_from_bytes (fst p)), le_val (snd p))) st)"
    by (rule traverse_all_Inr) (use keys in \<open>auto simp: slot_entry_def\<close>)
  with keyed_rows [OF st(2) keys, where g = le_val, unfolded sm] show ?thesis
    using that st(1) by (simp add: t open_table_def)
qed

lemma finite_slot_map: "slots_ok n ts \<Longrightarrow> finite (dom (slot_map ts))"
  by (metis finite_dom_map_of live_slots_spec)

end
