(* ===== verification/Persistent_Flat.thy ===== *)
theory Persistent_Flat
  imports Storage Flat
begin

text \<open>
  \<open>PersistentFlatIndex\<close> of \<open>eidosdb-storage/src/persistent_flat.rs\<close>: an exact index over a
  segment file and a catalog. A directory is what a restart finds: the bytes of the segment, the
  database, and the faults the next calls will meet. The directory itself exists.
\<close>

section \<open>State and opening\<close>

record 'd PersistentFlatIndex =
  pf_catalog :: 'd
  pf_segment :: Segment
  pf_metric :: Metric
  pf_dimension :: Dimension
  pf_record_count :: nat
  pf_live_count :: nat
  pf_tail :: "(VectorId \<times> Embedding) list"

record 'd Store_dir =
  sd_segment :: "u8 list option"
  sd_catalog :: "'d option"
  sd_faults :: "fault option list"

definition Pf_open ::
  "'d Redb \<Rightarrow> Metric \<Rightarrow> Dimension \<Rightarrow> 'd Store_dir \<Rightarrow> (StorageError + 'd PersistentFlatIndex) \<times> 'd Store_dir" where
  "Pf_open R metric dimension dir =
     (let usize_dim = Dimension_get dimension in
      case sd_catalog dir of
        Some db \<Rightarrow>
          (case Catalog_open R db of
             Inl e \<Rightarrow> (Inl e, dir)
           | Inr (catalog, manifest) \<Rightarrow>
               if mf_format_version manifest \<noteq> FORMAT_VERSION
               then (Inl (St_FormatMismatch (''catalog version '' @ string_of_nat (unat (mf_format_version manifest)) @
                       '' != '' @ string_of_nat (unat FORMAT_VERSION))), dir)
               else if u32_max < usize_dim then (Inl (St_FormatMismatch ''dimension exceeds u32''), dir)
               else if mf_dimension manifest \<noteq> word_of_nat usize_dim \<or> mf_metric manifest \<noteq> metric
               then (Inl (St_FormatMismatch ''open parameters differ from stored manifest''), dir)
               else
                 (case Segment_open metric usize_dim (unat (mf_record_count manifest)) (sd_faults dir) (sd_segment dir) of
                    (Inl e, (path, faults)) \<Rightarrow>
                      (Inl e, \<lparr>sd_segment = path, sd_catalog = Some catalog, sd_faults = faults\<rparr>)
                  | (Inr segment, (path, faults)) \<Rightarrow>
                      (case Catalog_live_count R catalog of
                         Inl e \<Rightarrow> (Inl e, \<lparr>sd_segment = path, sd_catalog = Some catalog, sd_faults = faults\<rparr>)
                       | Inr live_count \<Rightarrow>
                           (Inr \<lparr>pf_catalog = catalog, pf_segment = segment, pf_metric = metric,
                                 pf_dimension = dimension, pf_record_count = unat (mf_record_count manifest),
                                 pf_live_count = live_count, pf_tail = []\<rparr>,
                            \<lparr>sd_segment = path, sd_catalog = Some catalog, sd_faults = faults\<rparr>))))
      | None \<Rightarrow>
          if u32_max < usize_dim then (Inl (St_FormatMismatch ''dimension exceeds u32''), dir)
          else
            (let manifest = \<lparr>mf_format_version = FORMAT_VERSION, mf_dimension = word_of_nat usize_dim,
                             mf_metric = metric, mf_record_count = 0\<rparr> in
             case Catalog_create R (sd_catalog dir) manifest of
               (Inl e, db) \<Rightarrow> (Inl e, dir\<lparr>sd_catalog := db\<rparr>)
             | (Inr catalog, db) \<Rightarrow>
                 (case Segment_create metric usize_dim (sd_faults dir) (sd_segment dir) of
                    (Inl e, (path, faults)) \<Rightarrow> (Inl e, \<lparr>sd_segment = path, sd_catalog = db, sd_faults = faults\<rparr>)
                  | (Inr segment, (path, faults)) \<Rightarrow>
                      (Inr \<lparr>pf_catalog = catalog, pf_segment = segment, pf_metric = metric,
                            pf_dimension = dimension, pf_record_count = 0, pf_live_count = 0, pf_tail = []\<rparr>,
                       \<lparr>sd_segment = path, sd_catalog = db, sd_faults = faults\<rparr>))))"

text \<open>What a restart finds, whether the process closed the index or crashed.\<close>

definition pf_dir :: "'d PersistentFlatIndex \<Rightarrow> 'd Store_dir" where
  "pf_dir self = \<lparr>sd_segment = Some (fl_bytes (sg_file (pf_segment self))),
     sd_catalog = Some (pf_catalog self), sd_faults = []\<rparr>"

section \<open>Operations\<close>

definition on_segment ::
  "(Segment \<Rightarrow> (StorageError + 'a) \<times> Segment) \<Rightarrow> 'd PersistentFlatIndex \<Rightarrow>
   (IndexError + 'a) \<times> 'd PersistentFlatIndex" where
  "on_segment op self =
     (case op (pf_segment self) of (r, s) \<Rightarrow> (map_err IndexError_from r, self\<lparr>pf_segment := s\<rparr>))"

definition on_catalog ::
  "('d \<Rightarrow> (StorageError + 'a) \<times> 'd) \<Rightarrow> 'd PersistentFlatIndex \<Rightarrow> (IndexError + 'a) \<times> 'd PersistentFlatIndex" where
  "on_catalog op self =
     (case op (pf_catalog self) of (r, c) \<Rightarrow> (map_err IndexError_from r, self\<lparr>pf_catalog := c\<rparr>))"

definition mismatch :: "Dimension \<Rightarrow> Embedding \<Rightarrow> IndexError" where
  "mismatch d e = DimensionMismatch (Dimension_get d) (Dimension_get (Embedding_dimension e))"

definition Pf_insert ::
  "'d Redb \<Rightarrow> VectorId \<Rightarrow> Embedding \<Rightarrow> 'd PersistentFlatIndex \<Rightarrow> (IndexError + unit) \<times> 'd PersistentFlatIndex" where
  "Pf_insert R i embedding self =
     (if Embedding_dimension embedding \<noteq> pf_dimension self
      then (Inl (mismatch (pf_dimension self) embedding), self)
      else case Catalog_contains R i (pf_catalog self) of
        Inl e \<Rightarrow> (Inl (IndexError_from e), self)
      | Inr present \<Rightarrow>
          if present then (Inl (DuplicateId i), self)
          else
            (let slot = pf_record_count self in
             then_do (on_segment (Segment_append (as_slice embedding)) self) (\<lambda>_ self.
             then_do (on_catalog (Catalog_insert_slot R i slot (slot + 1)) self) (\<lambda>_ self.
               (Inr (), self\<lparr>pf_record_count := slot + 1, pf_live_count := pf_live_count self + 1,
                             pf_tail := pf_tail self @ [(i, embedding)]\<rparr>)))))"

fun validate_items ::
  "'d Redb \<Rightarrow> 'd \<Rightarrow> Dimension \<Rightarrow> VectorId set \<Rightarrow> (VectorId \<times> Embedding) list \<Rightarrow> IndexError + unit" where
  "validate_items R c d seen [] = Inr ()"
| "validate_items R c d seen ((i, e) # items) =
     (if Embedding_dimension e \<noteq> d then Inl (mismatch d e)
      else if i \<in> seen then Inl (DuplicateId i)
      else case Catalog_contains R i c of
        Inl err \<Rightarrow> Inl (IndexError_from err)
      | Inr present \<Rightarrow>
          if present then Inl (DuplicateId i) else validate_items R c d (insert i seen) items)"

definition Pf_insert_batch ::
  "'d Redb \<Rightarrow> (VectorId \<times> Embedding) list \<Rightarrow> 'd PersistentFlatIndex \<Rightarrow>
   (IndexError + unit) \<times> 'd PersistentFlatIndex" where
  "Pf_insert_batch R items self =
     (if items = [] then (Inr (), self)
      else case validate_items R (pf_catalog self) (pf_dimension self) {} items of
        Inl e \<Rightarrow> (Inl e, self)
      | Inr _ \<Rightarrow>
          (let flat = concat (map (\<lambda>(_, e). as_slice e) items);
               slots = map (\<lambda>(n, (i, _)). (i, n)) (enumerate (pf_record_count self) items);
               next_slot = pf_record_count self + length items
           in then_do (on_segment (Segment_append flat) self) (\<lambda>_ self.
              then_do (on_catalog (Catalog_insert_slots R slots next_slot) self) (\<lambda>_ self.
                (Inr (), self\<lparr>pf_record_count := next_slot, pf_live_count := pf_live_count self + length items,
                              pf_tail := pf_tail self @ items\<rparr>)))))"

definition Pf_checkpoint :: "'d PersistentFlatIndex \<Rightarrow> (IndexError + unit) \<times> 'd PersistentFlatIndex" where
  "Pf_checkpoint self =
     then_do (on_segment (Segment_remap (pf_record_count self)) self) (\<lambda>_ self. (Inr (), self\<lparr>pf_tail := []\<rparr>))"

definition Pf_values_at_storage :: "'d PersistentFlatIndex \<Rightarrow> nat \<Rightarrow> nat \<Rightarrow> StorageError + f32 list" where
  "Pf_values_at_storage self slot mapped =
     (if slot < mapped
      then ok_or (St_Corruption (''missing mapped slot '' @ string_of_nat slot)) (Segment_record slot (pf_segment self))
      else if slot - mapped < length (pf_tail self) then Inr (as_slice (snd (pf_tail self ! (slot - mapped))))
      else Inl (St_Corruption (''missing tail slot '' @ string_of_nat slot)))"

definition Pf_values_at :: "'d PersistentFlatIndex \<Rightarrow> nat \<Rightarrow> nat \<Rightarrow> IndexError + f32 list" where
  "Pf_values_at self slot mapped =
     (if slot < mapped
      then ok_or (Backend (''missing mapped slot '' @ string_of_nat slot)) (Segment_record slot (pf_segment self))
      else if slot - mapped < length (pf_tail self) then Inr (as_slice (snd (pf_tail self ! (slot - mapped))))
      else Inl (Backend (''missing tail slot '' @ string_of_nat slot)))"

definition Pf_compact :: "'d Redb \<Rightarrow> 'd PersistentFlatIndex \<Rightarrow> (IndexError + unit) \<times> 'd PersistentFlatIndex" where
  "Pf_compact R self =
     (let mapped = sg_mapped_records (pf_segment self) in
      case res_bind (Catalog_live_slots R (pf_catalog self)) (\<lambda>live.
             traverse (\<lambda>(i, slot). map_res (Pair i) (Pf_values_at_storage self slot mapped)) (sort_key snd live)) of
        Inl e \<Rightarrow> (Inl (IndexError_from e), self)
      | Inr live \<Rightarrow>
          (let flat = concat (map snd live);
               new_slots = map (\<lambda>(n, (i, _)). (i, n)) (enumerate 0 live);
               count = length new_slots
           in then_do (on_segment Segment_truncate_to_empty self) (\<lambda>_ self.
              then_do (on_segment (Segment_append flat) self) (\<lambda>_ self.
              then_do (on_segment (Segment_remap count) self) (\<lambda>_ self.
              then_do (on_catalog (Catalog_replace_slots R new_slots count) self) (\<lambda>_ self.
                (Inr (), self\<lparr>pf_record_count := count, pf_tail := [], pf_live_count := count\<rparr>)))))))"

text \<open>The destination holds no store yet; its faults are those of the final write.\<close>

definition Pf_snapshot ::
  "'d Redb \<Rightarrow> fault option list \<Rightarrow> 'd PersistentFlatIndex \<Rightarrow> (IndexError + unit) \<times> 'd Store_dir" where
  "Pf_snapshot R faults self =
     (let dest = \<lparr>sd_segment = None, sd_catalog = None, sd_faults = faults\<rparr>;
          dim = Dimension_get (pf_dimension self);
          manifest = \<lparr>mf_format_version = FORMAT_VERSION, mf_dimension = word_of_nat dim,
                      mf_metric = pf_metric self, mf_record_count = word_of_nat (pf_record_count self)\<rparr>
      in if u32_max < dim then (Inl (IndexError_from (St_FormatMismatch ''dimension exceeds u32'')), dest)
         else case Catalog_create R (sd_catalog dest) manifest of
           (Inl e, db) \<Rightarrow> (Inl (IndexError_from e), dest\<lparr>sd_catalog := db\<rparr>)
         | (Inr catalog, db) \<Rightarrow>
        (case Catalog_live_slots R (pf_catalog self) of
           Inl e \<Rightarrow> (Inl (IndexError_from e), dest\<lparr>sd_catalog := db\<rparr>)
         | Inr live \<Rightarrow>
        (case Catalog_replace_slots R live (pf_record_count self) catalog of
           (Inl e, catalog) \<Rightarrow> (Inl (IndexError_from e), dest\<lparr>sd_catalog := Some catalog\<rparr>)
         | (Inr _, catalog) \<Rightarrow>
             (let valid_len = u64_of (HEADER_LEN + pf_record_count self * (dim * 4));
                  bytes = fl_bytes (sg_file (pf_segment self))
              in if length bytes < valid_len
                 then (Inl (IndexError_from (St_Corruption ''segment shorter than watermark'')),
                       dest\<lparr>sd_catalog := Some catalog\<rparr>)
                 else case sys_call (\<lambda>n _. take n (take valid_len bytes)) (\<lambda>_. take valid_len bytes)
                     \<lparr>fl_bytes = [], fl_faults = faults\<rparr> of
                   (r, f) \<Rightarrow> (map_err IndexError_from r,
                     \<lparr>sd_segment = Some (fl_bytes f), sd_catalog = Some catalog, sd_faults = fl_faults f\<rparr>)))))"

definition Pf_remove ::
  "'d Redb \<Rightarrow> VectorId \<Rightarrow> 'd PersistentFlatIndex \<Rightarrow> (IndexError + bool) \<times> 'd PersistentFlatIndex" where
  "Pf_remove R i self =
     then_do (on_catalog (Catalog_remove_slot R i) self) (\<lambda>existed self.
       (Inr existed, if existed then self\<lparr>pf_live_count := pf_live_count self - 1\<rparr> else self))"

definition Pf_search_filtered ::
  "'d Redb \<Rightarrow> Embedding \<Rightarrow> nat \<Rightarrow> Metric \<Rightarrow> (VectorId \<Rightarrow> bool) \<Rightarrow> 'd PersistentFlatIndex \<Rightarrow>
   IndexError + Neighbor list" where
  "Pf_search_filtered R query k metric is_admissible self =
     (if Embedding_dimension query \<noteq> pf_dimension self then Inl (mismatch (pf_dimension self) query)
      else
        res_bind (map_err IndexError_from (Catalog_live_slots R (pf_catalog self))) (\<lambda>live.
        res_bind (traverse (\<lambda>(i, slot).
            map_res (\<lambda>values. \<lparr>neighbor_id = i, neighbor_score = Metric_score metric (as_slice query) values\<rparr>)
              (Pf_values_at self slot (sg_mapped_records (pf_segment self))))
            (filter (\<lambda>(i, _). is_admissible i) live)) (\<lambda>scored.
          Inr (take k (sort_by neighbor_cmp scored)))))"

definition Pf_index :: "'d Redb \<Rightarrow> 'd PersistentFlatIndex VectorIndex" where
  "Pf_index R =
     \<lparr>vi_metric = pf_metric, vi_supported_metrics = (\<lambda>_. [Cosine, DotProduct, Euclidean]),
      vi_dimension = pf_dimension, vi_len = pf_live_count,
      vi_insert = Pf_insert R, vi_remove = Pf_remove R, vi_search_filtered = Pf_search_filtered R\<rparr>"

end
