(* ===== verification/Durability.thy ===== *)
theory Durability
  imports Persistent_Flat
begin

text \<open>
  What \<open>PersistentFlatIndex\<close> promises: \<open>store_ok\<close> is the state of a directory that reopens,
  \<open>store_contents\<close> the vectors it holds. Every operation is followed under an arbitrary schedule of
  faults (\<open>pf_durable\<close>), which gives crash atomicity, and without faults (\<open>pf_ok\<close>), which gives
  the contract of the index port.
\<close>

section \<open>The store on disk\<close>

definition header_ok :: "Metric \<Rightarrow> Dimension \<Rightarrow> u8 list \<Rightarrow> bool" where
  "header_ok metric d bytes \<longleftrightarrow>
     (\<exists>b. metric_to_u8 metric = Inr b \<and> take HEADER_LEN bytes = header_bytes b (word_of_nat (Dimension_get d)))"

definition disk_ok :: "Metric \<Rightarrow> Dimension \<Rightarrow> nat \<Rightarrow> u8 list \<Rightarrow> tables \<Rightarrow> bool" where
  "disk_ok metric d n bytes ts \<longleftrightarrow> catalog_ok metric d n ts \<and> header_ok metric d bytes \<and> 0 < Dimension_get d \<and>
     HEADER_LEN + n * (Dimension_get d * 4) \<le> length bytes \<and> HEADER_LEN + n * (Dimension_get d * 4) < FILE_MAX"

definition disk_contents :: "Dimension \<Rightarrow> u8 list \<Rightarrow> tables \<Rightarrow> VectorId \<rightharpoonup> Embedding" where
  "disk_contents d bytes ts i = map_option (\<lambda>slot. Embedding (record_at (Dimension_get d) bytes slot)) (slot_map ts i)"

definition store_ok :: "('d \<Rightarrow> tables) \<Rightarrow> Metric \<Rightarrow> Dimension \<Rightarrow> 'd Store_dir \<Rightarrow> bool" where
  "store_ok view metric d dir \<longleftrightarrow>
     (\<exists>bytes c n. sd_segment dir = Some bytes \<and> sd_catalog dir = Some c \<and> disk_ok metric d n bytes (view c))"

definition store_contents :: "('d \<Rightarrow> tables) \<Rightarrow> Dimension \<Rightarrow> 'd Store_dir \<Rightarrow> VectorId \<rightharpoonup> Embedding" where
  "store_contents view d dir = disk_contents d (the (sd_segment dir)) (view (the (sd_catalog dir)))"

abbreviation pf_bytes :: "'d PersistentFlatIndex \<Rightarrow> u8 list" where
  "pf_bytes s \<equiv> fl_bytes (sg_file (pf_segment s))"

definition pf_contents :: "('d \<Rightarrow> tables) \<Rightarrow> 'd PersistentFlatIndex \<Rightarrow> VectorId \<rightharpoonup> Embedding" where
  "pf_contents view s = store_contents view (pf_dimension s) (pf_dir s)"

text \<open>Between two calls the segment ends exactly at the watermark.\<close>

definition pf_durable :: "('d \<Rightarrow> tables) \<Rightarrow> 'd PersistentFlatIndex \<Rightarrow> bool" where
  "pf_durable view s \<longleftrightarrow>
     disk_ok (pf_metric s) (pf_dimension s) (pf_record_count s) (pf_bytes s) (view (pf_catalog s)) \<and>
     length (pf_bytes s) = HEADER_LEN + pf_record_count s * (Dimension_get (pf_dimension s) * 4) \<and>
     sg_dimension (pf_segment s) = Dimension_get (pf_dimension s)"

lemma pf_dir_simps [simp]:
  "sd_segment (pf_dir s) = Some (pf_bytes s)" "sd_catalog (pf_dir s) = Some (pf_catalog s)" "sd_faults (pf_dir s) = []"
  by (simp_all add: pf_dir_def)

lemma store_contents_pf_dir:
  "store_contents view d (pf_dir s) = disk_contents d (pf_bytes s) (view (pf_catalog s))"
  "pf_contents view s = disk_contents (pf_dimension s) (pf_bytes s) (view (pf_catalog s))"
  by (simp_all add: store_contents_def pf_contents_def)

lemma store_ok_pf_dir: "store_ok view m d (pf_dir s) \<longleftrightarrow> (\<exists>n. disk_ok m d n (pf_bytes s) (view (pf_catalog s)))"
  by (simp add: store_ok_def)

lemma durable_store_ok: "pf_durable view s \<Longrightarrow> store_ok view (pf_metric s) (pf_dimension s) (pf_dir s)"
  by (auto simp: pf_durable_def store_ok_pf_dir)

lemma header_ok_prefix:
  assumes "header_ok m d bytes" "take HEADER_LEN bytes' = take HEADER_LEN bytes"
  shows "header_ok m d bytes'"
  using assms by (simp add: header_ok_def)

text \<open>A larger file, or one cut at the watermark, holds the same vectors.\<close>

lemma disk_same_records:
  assumes "disk_ok m d n bytes ts" "HEADER_LEN + n * (Dimension_get d * 4) \<le> length bytes'"
    and "take (HEADER_LEN + n * (Dimension_get d * 4)) bytes' = take (HEADER_LEN + n * (Dimension_get d * 4)) bytes"
  shows "disk_ok m d n bytes' ts \<and> disk_contents d bytes' ts = disk_contents d bytes ts"
proof
  let ?k = "HEADER_LEN + n * (Dimension_get d * 4)"
  have b: "?k \<le> length bytes" using assms(1) by (simp add: disk_ok_def)
  have "take HEADER_LEN bytes' = take HEADER_LEN bytes"
    using arg_cong [OF assms(3), of "take HEADER_LEN"] by simp
  then show "disk_ok m d n bytes' ts"
    using assms(1,2) header_ok_prefix [of m d bytes bytes'] by (auto simp: disk_ok_def)
  have "record_at (Dimension_get d) bytes' slot = record_at (Dimension_get d) bytes slot" if "slot < n" for slot
    using record_at_prefix(2) [OF b that] record_at_prefix(2) [OF assms(2) that] assms(3) by simp
  then show "disk_contents d bytes' ts = disk_contents d bytes ts"
    using assms(1) slot_map_less [of m d n ts]
    by (auto simp: disk_contents_def disk_ok_def fun_eq_iff intro!: option.map_cong)
qed

lemma disk_append:
  "disk_ok m d n bytes ts \<Longrightarrow> disk_ok m d n (bytes @ xs) ts \<and> disk_contents d (bytes @ xs) ts = disk_contents d bytes ts"
  by (rule disk_same_records) (auto simp: disk_ok_def)

text \<open>New records at the end of an exact file, bound to their ids by the catalog.\<close>

abbreviation slots_from :: "nat \<Rightarrow> (VectorId \<times> 'a) list \<Rightarrow> (VectorId \<times> nat) list" where
  "slots_from n items \<equiv> map (\<lambda>(n, (i, _)). (i, n)) (enumerate n items)"

lemma disk_extend:
  fixes items :: "(VectorId \<times> Embedding) list"
  assumes "disk_ok m d n bytes ts" "length bytes = HEADER_LEN + n * (Dimension_get d * 4)"
    and "\<forall>(i, e) \<in> set items. length (as_slice e) = Dimension_get d"
    and "catalog_ok m d (n + length items) ts'" "slot_map ts' = slot_map ts ++ map_of (rev (slots_from n items))"
    and "HEADER_LEN + (n + length items) * (Dimension_get d * 4) < FILE_MAX"
  shows "disk_ok m d (n + length items) (bytes @ floats_to_bytes (concat (map (\<lambda>(_, e). as_slice e) items))) ts' \<and>
    disk_contents d (bytes @ floats_to_bytes (concat (map (\<lambda>(_, e). as_slice e) items))) ts' =
      disk_contents d bytes ts ++ map_of (rev items)"
proof
  let ?vss = "map (\<lambda>(_, e). as_slice e) items"
  let ?bytes = "bytes @ floats_to_bytes (concat ?vss)"
  have vss: "\<forall>v \<in> set ?vss. length v = Dimension_get d" using assms(3) by auto
  have len: "length (concat vss) = length vss * D" if "\<forall>v \<in> set vss. length v = D" for vss :: "f32 list list" and D
    using that by (induction vss) auto
  have "length ?bytes = HEADER_LEN + (n + length items) * (Dimension_get d * 4)"
    using assms(2) len [OF vss] by (simp add: add_mult_distrib)
  then show "disk_ok m d (n + length items) ?bytes ts'"
    using assms(1,4,6) header_ok_prefix [of m d bytes ?bytes] assms(2) by (simp add: disk_ok_def)
  have old: "disk_contents d ?bytes ts = disk_contents d bytes ts" using disk_append [OF assms(1)] by blast
  have new: "map_option (\<lambda>slot. Embedding (record_at (Dimension_get d) ?bytes slot)) (map_of (rev (slots_from n items)) i)
      = map_of (rev items) i" for i
  proof -
    have rec: "Embedding (record_at (Dimension_get d) ?bytes (n + j)) = snd (items ! j)" if "j < length items" for j
      using record_at_appended [OF assms(2) vss, of j "[]"] that by (simp add: split_beta)
    have "map (\<lambda>(i, slot). (i, Embedding (record_at (Dimension_get d) ?bytes slot))) (slots_from n items) = items"
      by (rule nth_equalityI) (simp_all add: nth_enumerate_eq split_beta rec)
    then have "rev items = map (\<lambda>(i, slot). (i, Embedding (record_at (Dimension_get d) ?bytes slot))) (rev (slots_from n items))"
      by (simp only: rev_map [symmetric])
    then show ?thesis by (simp add: map_of_map)
  qed
  show "disk_contents d ?bytes ts' = disk_contents d bytes ts ++ map_of (rev items)"
  proof
    fix i
    show "disk_contents d ?bytes ts' i = (disk_contents d bytes ts ++ map_of (rev items)) i"
      using new [of i] fun_cong [OF old, of i]
      by (auto simp: disk_contents_def assms(5) map_add_def split: option.splits)
  qed
qed

section \<open>Operations under any faults\<close>

lemma on_segment_append_faulty:
  assumes "on_segment (Segment_append vs) s = (r, s')"
  shows "(\<exists>n. pf_bytes s' = pf_bytes s @ take n (floats_to_bytes vs)) \<and>
    (r = Inr () \<longrightarrow> pf_bytes s' = pf_bytes s @ floats_to_bytes vs \<and> length (pf_bytes s') < FILE_MAX) \<and>
    s' = s\<lparr>pf_segment := (pf_segment s)\<lparr>sg_file := sg_file (pf_segment s')\<rparr>\<rparr>"
proof -
  obtain r0 g where g: "Segment_append vs (pf_segment s) = (r0, g)" "r = map_err IndexError_from r0" "s' = s\<lparr>pf_segment := g\<rparr>"
    using assms by (auto simp: on_segment_def split: prod.splits)
  show ?thesis using Segment_append_faulty [OF g(1)] g(2,3) by auto
qed

lemma watermark_u64:
  assumes "HEADER_LEN + n * k < FILE_MAX" "0 < k"
  shows "n < 2 ^ 64"
proof -
  have "n * 1 \<le> n * k" using assms(2) by (intro mult_le_mono2) simp
  with assms(1) have "n < FILE_MAX" by linarith
  also have "FILE_MAX < 2 ^ 64" by (simp add: FILE_MAX_def)
  finally show ?thesis .
qed

text \<open>Appending records and then binding them: the step both insertions share.\<close>

definition append_commit ::
  "'d Redb \<Rightarrow> (VectorId \<times> Embedding) list \<Rightarrow> 'd PersistentFlatIndex \<Rightarrow> (IndexError + unit) \<times> 'd PersistentFlatIndex" where
  "append_commit R items s =
     then_do (on_segment (Segment_append (concat (map (\<lambda>(_, e). as_slice e) items))) s) (\<lambda>_ s1.
       on_catalog (Catalog_insert_slots R (slots_from (pf_record_count s) items) (pf_record_count s + length items)) s1)"

lemma append_commit_spec:
  assumes "redb_ok R view" "pf_durable view s" "\<forall>(i, e) \<in> set items. length (as_slice e) = Dimension_get (pf_dimension s)"
    and "append_commit R items s = (r, s')"
  shows "s' = s\<lparr>pf_segment := (pf_segment s)\<lparr>sg_file := sg_file (pf_segment s')\<rparr>, pf_catalog := pf_catalog s'\<rparr> \<and>
    (case r of
       Inl _ \<Rightarrow> disk_ok (pf_metric s) (pf_dimension s) (pf_record_count s) (pf_bytes s') (view (pf_catalog s')) \<and>
         disk_contents (pf_dimension s) (pf_bytes s') (view (pf_catalog s')) = pf_contents view s
     | Inr _ \<Rightarrow>
         disk_ok (pf_metric s) (pf_dimension s) (pf_record_count s + length items) (pf_bytes s') (view (pf_catalog s')) \<and>
         disk_contents (pf_dimension s) (pf_bytes s') (view (pf_catalog s')) = pf_contents view s ++ map_of (rev items) \<and>
         slot_map (view (pf_catalog s')) = slot_map (view (pf_catalog s)) ++ map_of (rev (slots_from (pf_record_count s) items)) \<and>
         pf_bytes s' = pf_bytes s @ floats_to_bytes (concat (map (\<lambda>(_, e). as_slice e) items)))"
proof -
  let ?m = "pf_metric s" and ?d = "pf_dimension s" and ?n = "pf_record_count s" and ?ts = "view (pf_catalog s)"
  let ?vs = "concat (map (\<lambda>(_, e). as_slice e) items)" and ?slots = "slots_from (pf_record_count s) items"
  have disk: "disk_ok ?m ?d ?n (pf_bytes s) ?ts" and exact: "length (pf_bytes s) = HEADER_LEN + ?n * (Dimension_get ?d * 4)"
    using assms(2) by (simp_all add: pf_durable_def)
  obtain r1 s1 where s1: "on_segment (Segment_append ?vs) s = (r1, s1)" by fastforce
  note a = on_segment_append_faulty [OF s1]
  from a obtain k where k: "pf_bytes s1 = pf_bytes s @ take k (floats_to_bytes ?vs)" by blast
  have frame: "s1 = s\<lparr>pf_segment := (pf_segment s)\<lparr>sg_file := sg_file (pf_segment s1)\<rparr>\<rparr>" using a by blast
  have same: "pf_catalog s1 = pf_catalog s" by (subst frame) simp
  have old: "disk_ok ?m ?d ?n (pf_bytes s1) ?ts \<and> disk_contents ?d (pf_bytes s1) ?ts = pf_contents view s"
    using disk_append [OF disk] by (simp add: k store_contents_pf_dir)
  show ?thesis
  proof (cases r1)
    case (Inl e)
    then have "r = Inl e" "s' = s1" using assms(4) by (simp_all add: append_commit_def s1)
    then show ?thesis using old frame same by simp
  next
    case (Inr u)
    then have "r1 = Inr ()" by simp
    with a have full: "pf_bytes s1 = pf_bytes s @ floats_to_bytes ?vs" "length (pf_bytes s1) < FILE_MAX" by blast+
    obtain r2 c where c: "Catalog_insert_slots R ?slots (?n + length items) (pf_catalog s) = (r2, c)" by fastforce
    have s': "s' = s1\<lparr>pf_catalog := c\<rparr>" "r = map_err IndexError_from r2"
      using assms(4) Inr by (simp_all add: append_commit_def s1 on_catalog_def same c)
    have frame': "s' = s\<lparr>pf_segment := (pf_segment s)\<lparr>sg_file := sg_file (pf_segment s')\<rparr>, pf_catalog := pf_catalog s'\<rparr>"
      using arg_cong [OF frame, of "pf_catalog_update (\<lambda>_. c)"] by (simp add: s'(1))
    have len: "length ?vs = length items * Dimension_get ?d" using assms(3) by (induction items) auto
    have top: "HEADER_LEN + (?n + length items) * (Dimension_get ?d * 4) < FILE_MAX"
      using full exact len by (simp add: add_mult_distrib)
    have pos: "0 < Dimension_get ?d" and cat: "catalog_ok ?m ?d ?n ?ts" using disk by (simp_all add: disk_ok_def)
    have small: "?n + length items < 2 ^ 64" using watermark_u64 [OF top] pos by simp
    have slots: "\<forall>(i, slot) \<in> set ?slots. slot < ?n + length items" by (auto simp: in_set_enumerate_eq)
    note i = insert_slots_spec [OF assms(1) cat c _ small slots]
    show ?thesis
    proof (cases r2)
      case (Inl e)
      then show ?thesis using i frame' old s' by simp
    next
      case (Inr u)
      with i have i': "catalog_ok ?m ?d (?n + length items) (view c)" "slot_map (view c) = slot_map ?ts ++ map_of (rev ?slots)"
        by simp_all
      note disk_extend [OF disk exact assms(3) i' top]
      then show ?thesis using Inr frame' s' full(1) i'(2) by (simp add: store_contents_pf_dir)
    qed
  qed
qed

lemma Embedding_dimension_length:
  assumes "Embedding_dimension e = d" "0 < Dimension_get d"
  shows "length (as_slice e) = Dimension_get d"
proof (cases "Dimension_new (length (as_slice e))")
  case (Inl err)
  then show ?thesis using assms by (auto simp: Embedding_dimension_def Dimension_get_def)
next
  case (Inr d')
  then show ?thesis using assms(1) Dimension_get_new [OF Inr] by (simp add: Embedding_dimension_def)
qed

lemma contains_spec:
  "redb_ok R view \<Longrightarrow> Catalog_contains R i c = Inr b \<Longrightarrow> b = (slot_map (view c) i \<noteq> None)"
  by (auto simp: Catalog_contains_def open_table_def slot_map_def table_of_def dest!: redb_read)

lemma Pf_insert_append_commit:
  "Pf_insert R i e s =
     (if Embedding_dimension e \<noteq> pf_dimension s then (Inl (mismatch (pf_dimension s) e), s)
      else case Catalog_contains R i (pf_catalog s) of
        Inl err \<Rightarrow> (Inl (IndexError_from err), s)
      | Inr True \<Rightarrow> (Inl (DuplicateId i), s)
      | Inr False \<Rightarrow> then_do (append_commit R [(i, e)] s) (\<lambda>_ s'.
          (Inr (), s'\<lparr>pf_record_count := pf_record_count s + 1, pf_live_count := pf_live_count s' + 1,
                      pf_tail := pf_tail s' @ [(i, e)]\<rparr>)))"
proof -
  have "Catalog_insert_slot R i slot n = Catalog_insert_slots R [(i, slot)] n" for slot n
    by (simp add: fun_eq_iff Catalog_insert_slot_def)
  then show ?thesis
    by (auto simp: Pf_insert_def append_commit_def then_do_assoc Let_def split: sum.splits bool.splits)
qed

lemma Pf_insert_batch_append_commit:
  "Pf_insert_batch R items s =
     (if items = [] then (Inr (), s)
      else case validate_items R (pf_catalog s) (pf_dimension s) {} items of
        Inl err \<Rightarrow> (Inl err, s)
      | Inr _ \<Rightarrow> then_do (append_commit R items s) (\<lambda>_ s'.
          (Inr (), s'\<lparr>pf_record_count := pf_record_count s + length items,
                      pf_live_count := pf_live_count s' + length items, pf_tail := pf_tail s' @ items\<rparr>)))"
  by (simp add: Pf_insert_batch_def append_commit_def then_do_assoc Let_def split: sum.split)

lemma validate_items_spec:
  assumes "redb_ok R view" "validate_items R c d seen items = Inr u"
  shows "list_all (\<lambda>(i, e). Embedding_dimension e = d \<and> slot_map (view c) i = None \<and> i \<notin> seen) items \<and>
    distinct (map fst items)"
  using assms(2)
proof (induction items arbitrary: seen)
  case (Cons p items)
  obtain i e where p: "p = (i, e)" by fastforce
  from Cons.prems have *: "Embedding_dimension e = d" "i \<notin> seen" "Catalog_contains R i c = Inr False"
    "validate_items R c d (insert i seen) items = Inr u"
    by (auto simp: p split: if_splits sum.splits bool.splits)
  with Cons.IH [OF *(4)] contains_spec [OF assms(1) *(3)] show ?case
    by (fastforce simp: p list_all_iff)
qed simp

text \<open>An insertion under any faults: the directory reopens, with the old vectors or the new ones.\<close>

lemma Pf_insert_durable:
  assumes "redb_ok R view" "pf_durable view s" "Pf_insert R i e s = (r, s')"
  shows "store_ok view (pf_metric s) (pf_dimension s) (pf_dir s') \<and>
    store_contents view (pf_dimension s) (pf_dir s') =
      (case r of Inl _ \<Rightarrow> pf_contents view s | Inr _ \<Rightarrow> (pf_contents view s)(i \<mapsto> e))"
proof (cases "\<exists>r0 s0. append_commit R [(i, e)] s = (r0, s0) \<and> Embedding_dimension e = pf_dimension s \<and>
    r = r0 \<and> pf_dir s' = pf_dir s0")
  case True
  then obtain s0 where s0: "append_commit R [(i, e)] s = (r, s0)" "Embedding_dimension e = pf_dimension s"
    "pf_dir s' = pf_dir s0" by blast
  have pos: "0 < Dimension_get (pf_dimension s)" using assms(2) by (simp add: pf_durable_def disk_ok_def)
  have "\<forall>(i, e) \<in> set [(i, e)]. length (as_slice e) = Dimension_get (pf_dimension s)"
    using Embedding_dimension_length [OF s0(2) pos] by simp
  note append_commit_spec [OF assms(1,2) this s0(1)]
  then show ?thesis unfolding s0(3) store_ok_pf_dir by (cases r) (auto simp: store_contents_pf_dir)
next
  case False
  then have "s' = s \<and> (\<exists>err. r = Inl err)"
    using assms(3) by (auto simp: Pf_insert_append_commit then_do_def pf_dir_def split: if_splits sum.splits bool.splits prod.splits)
  then show ?thesis using durable_store_ok [OF assms(2)] by (auto simp: pf_contents_def)
qed

lemma Pf_insert_batch_durable:
  assumes "redb_ok R view" "pf_durable view s" "Pf_insert_batch R items s = (r, s')"
  shows "store_ok view (pf_metric s) (pf_dimension s) (pf_dir s') \<and>
    store_contents view (pf_dimension s) (pf_dir s') =
      (case r of Inl _ \<Rightarrow> pf_contents view s | Inr _ \<Rightarrow> pf_contents view s ++ map_of items)"
proof (cases "\<exists>r0 s0 u. append_commit R items s = (r0, s0) \<and> r = r0 \<and> pf_dir s' = pf_dir s0 \<and>
    validate_items R (pf_catalog s) (pf_dimension s) {} items = Inr u")
  case True
  then obtain s0 u where s0: "append_commit R items s = (r, s0)" "pf_dir s' = pf_dir s0"
    "validate_items R (pf_catalog s) (pf_dimension s) {} items = Inr u" by blast
  have pos: "0 < Dimension_get (pf_dimension s)" using assms(2) by (simp add: pf_durable_def disk_ok_def)
  note v = validate_items_spec [OF assms(1) s0(3)]
  then have "\<forall>(i, e) \<in> set items. length (as_slice e) = Dimension_get (pf_dimension s)"
    using Embedding_dimension_length [OF _ pos] by (fastforce simp: list_all_iff)
  note append_commit_spec [OF assms(1,2) this s0(1)]
  moreover have "map_of (rev items) = map_of items" using v by (subst map_of_inject_set) (simp_all add: rev_map [symmetric])
  ultimately show ?thesis unfolding s0(2) store_ok_pf_dir by (cases r) (auto simp: store_contents_pf_dir)
next
  case False
  then have "s' = s \<and> ((\<exists>err. r = Inl err) \<or> items = [])"
    using assms(3) by (cases "validate_items R (pf_catalog s) (pf_dimension s) {} items";
      auto simp: Pf_insert_batch_append_commit then_do_def pf_dir_def split: if_splits sum.splits prod.splits; metis)
  then show ?thesis using durable_store_ok [OF assms(2)] by (auto simp: pf_contents_def split: sum.splits)
qed

lemma Pf_remove_durable:
  assumes "redb_ok R view" "pf_durable view s" "Pf_remove R i s = (r, s')"
  shows "pf_durable view s' \<and> pf_metric s' = pf_metric s \<and> pf_dimension s' = pf_dimension s \<and>
    pf_contents view s' = (case r of Inl _ \<Rightarrow> pf_contents view s | Inr _ \<Rightarrow> (pf_contents view s)(i := None)) \<and>
    (\<forall>b. r = Inr b \<longrightarrow> b = (pf_contents view s i \<noteq> None))"
proof -
  obtain r0 c where c: "Catalog_remove_slot R i (pf_catalog s) = (r0, c)" by fastforce
  have r: "r = map_err IndexError_from r0" and cat: "pf_catalog s' = c" and
    same: "pf_metric s' = pf_metric s" "pf_dimension s' = pf_dimension s" "pf_segment s' = pf_segment s"
      "pf_record_count s' = pf_record_count s"
    using assms(3) by (auto simp: Pf_remove_def on_catalog_def c then_do_def split: sum.splits if_splits)
  have disk: "disk_ok (pf_metric s) (pf_dimension s) (pf_record_count s) (pf_bytes s) (view (pf_catalog s))"
    using assms(2) by (simp add: pf_durable_def)
  then have "catalog_ok (pf_metric s) (pf_dimension s) (pf_record_count s) (view (pf_catalog s))"
    by (simp add: disk_ok_def)
  note spec = remove_slot_spec [OF assms(1) this c]
  show ?thesis
  proof (cases r0)
    case (Inl e)
    with spec show ?thesis using assms(2) disk
      by (simp add: r same cat pf_durable_def store_contents_pf_dir)
  next
    case (Inr b)
    with spec have *: "b = (slot_map (view (pf_catalog s)) i \<noteq> None)"
      "catalog_ok (pf_metric s) (pf_dimension s) (pf_record_count s) (view c)"
      "slot_map (view c) = (slot_map (view (pf_catalog s)))(i := None)" by simp_all
    have "disk_contents (pf_dimension s) (pf_bytes s) (view c) =
        (disk_contents (pf_dimension s) (pf_bytes s) (view (pf_catalog s)))(i := None)"
      by (simp add: fun_eq_iff disk_contents_def *(3))
    then show ?thesis using assms(2) disk *(1,2)
      by (simp add: r Inr same cat pf_durable_def disk_ok_def store_contents_pf_dir) (simp add: disk_contents_def)
  qed
qed

section \<open>Opening\<close>

lemma Dimension_get_le [simp]: "Dimension_get d \<le> u32_max"
proof (cases d)
  case (Dimension raw)
  have "unat raw < 2 ^ 32" using unsigned_less [of raw] by simp
  then show ?thesis by (simp add: Dimension Dimension_get_def u32_max_def)
qed

text \<open>Between calls the map covers the mapped records and the tail holds the rest.\<close>

definition pf_ready :: "('d \<Rightarrow> tables) \<Rightarrow> 'd PersistentFlatIndex \<Rightarrow> bool" where
  "pf_ready view s \<longleftrightarrow> pf_durable view s \<and>
     pf_live_count s = card (dom (slot_map (view (pf_catalog s)))) \<and>
     (let g = pf_segment s; d = Dimension_get (pf_dimension s); mapped = sg_mapped_records g in
        (\<exists>len. sg_mmap g = Some len \<and> HEADER_LEN + mapped * (d * 4) \<le> len) \<and>
        mapped + length (pf_tail s) = pf_record_count s \<and>
        (\<forall>j < length (pf_tail s). as_slice (snd (pf_tail s ! j)) = record_at d (pf_bytes s) (mapped + j)))"

lemma Catalog_open_spec:
  assumes "redb_ok R view" "catalog_ok m d n (view c)"
  shows "case Catalog_open R c of Inl e \<Rightarrow> \<exists>msg. e = St_Catalog msg
    | Inr (c', mf) \<Rightarrow> view c' = view c \<and> mf = \<lparr>mf_format_version = FORMAT_VERSION,
        mf_dimension = word_of_nat (Dimension_get d), mf_metric = m, mf_record_count = word_of_nat n\<rparr>"
proof (cases "rd_open R c")
  case (Inr c')
  then have v: "view c' = view c" using assms(1) by (auto simp: redb_ok_def)
  have row: "\<exists>mt. view c MANIFEST = Some mt \<and> manifest_row mt = Inr \<lparr>mf_format_version = FORMAT_VERSION,
        mf_dimension = word_of_nat (Dimension_get d), mf_metric = m, mf_record_count = word_of_nat n\<rparr>"
    using assms(2) by (auto simp: catalog_ok_def manifest_row_def)
  show ?thesis
  proof (cases "begin_read R c'")
    case (Inl e)
    then show ?thesis by (auto simp: Catalog_open_def Inr Catalog_read_manifest_def begin_read_def)
  next
    case ts: (Inr ts)
    then have "ts = view c" using redb_read [OF assms(1) ts] v by simp
    with row v show ?thesis
      by (auto simp: Catalog_open_def Inr Catalog_read_manifest_def ts open_table_def)
  qed
qed (simp add: Catalog_open_def)

lemma Catalog_live_count_spec:
  assumes "redb_ok R view" "catalog_ok m d n (view c)"
  shows "case Catalog_live_count R c of Inl e \<Rightarrow> \<exists>msg. e = St_Catalog msg
    | Inr k \<Rightarrow> k = card (dom (slot_map (view c)))"
proof (cases "begin_read R c")
  case (Inr ts)
  then have ts: "ts = view c" by (rule redb_read [OF assms(1)])
  have "slots_ok n (view c)" using assms(2) by (simp add: catalog_ok_split)
  then obtain live where "open_table R (view c) SLOTS = Inr (table_of (view c) SLOTS)"
    "length (table_of (view c) SLOTS) = card (dom (slot_map (view c)))"
    by (rule live_slots_spec)
  then show ?thesis by (simp add: Catalog_live_count_def Inr ts)
qed (auto simp: Catalog_live_count_def begin_read_def)

lemma sys_only_cases:
  assumes "sys_only f = (r, f')"
  shows "fl_bytes f' = fl_bytes f" "fl_faults f = [] \<Longrightarrow> r = Inr () \<and> f' = f"
  using assms sys_only_bytes [of f] by simp_all

lemma validate_header_bytes: "fl_bytes (snd (validate_header m d f)) = fl_bytes f"
  using sys_only_bytes [of f] by (auto simp: validate_header_def then_do_def split: prod.splits sum.splits)

lemma set_len_cases:
  "set_len n f = (r, f') \<Longrightarrow> fl_bytes f' = (case r of Inl _ \<Rightarrow> fl_bytes f | Inr _ \<Rightarrow> resize n (fl_bytes f))"
  by (auto simp: set_len_def sys_call_def split: if_splits list.splits option.splits fault.splits)

lemma Segment_remap_faulty:
  assumes "Segment_remap n s = (r, s')"
  shows "fl_bytes (sg_file s') = fl_bytes (sg_file s)"
    "r = Inr u \<Longrightarrow> s' = s\<lparr>sg_file := sg_file s', sg_mmap := Some (length (fl_bytes (sg_file s))), sg_mapped_records := n\<rparr>"
proof -
  obtain r1 f1 where f1: "sys_only (sg_file s) = (r1, f1)" by fastforce
  obtain r2 f2 where f2: "sys_only f1 = (r2, f2)" by fastforce
  note b = sys_only_cases(1) [OF f1] sys_only_cases(1) [OF f2]
  show "fl_bytes (sg_file s') = fl_bytes (sg_file s)"
    using assms f1 f2 b by (cases r1; cases r2) (auto simp: Segment_remap_def on_file_def Let_def split: if_splits)
  show "r = Inr u \<Longrightarrow> s' = s\<lparr>sg_file := sg_file s', sg_mmap := Some (length (fl_bytes (sg_file s))), sg_mapped_records := n\<rparr>"
    using assms f1 f2 b by (cases r1; cases r2) (auto simp: Segment_remap_def on_file_def Let_def split: if_splits)
qed

lemma Segment_open_faulty:
  assumes "Segment_open m dim n faults (Some bytes) = (r, (path, faults'))" "HEADER_LEN + n * (dim * 4) < FILE_MAX"
  shows "\<exists>bytes'. path = Some bytes' \<and> (bytes' = bytes \<or> bytes' = resize (HEADER_LEN + n * (dim * 4)) bytes) \<and>
    (\<forall>s. r = Inr s \<longrightarrow> bytes' = resize (HEADER_LEN + n * (dim * 4)) bytes \<and>
       s = \<lparr>sg_file = \<lparr>fl_bytes = bytes', fl_faults = faults'\<rparr>, sg_dimension = dim,
            sg_mmap = Some (length bytes'), sg_mapped_records = n\<rparr>)"
proof -
  obtain r1 f1 where f1: "then_do (sys_only \<lparr>fl_bytes = bytes, fl_faults = faults\<rparr>) (\<lambda>_ f. validate_header m dim f) = (r1, f1)"
    by fastforce
  obtain r0 f0 where f0: "sys_only \<lparr>fl_bytes = bytes, fl_faults = faults\<rparr> = (r0, f0)" by fastforce
  have b1: "fl_bytes f1 = bytes"
    using f1 sys_only_cases(1) [OF f0] validate_header_bytes [of m dim f0] by (cases r0) (auto simp: f0)
  show ?thesis
  proof (cases r1)
    case (Inl e)
    then show ?thesis using assms(1) f1 b1 by (auto simp: Segment_open_def)
  next
    case (Inr u)
    let ?k = "HEADER_LEN + n * (dim * 4)" and ?s = "\<lparr>sg_file = f1, sg_dimension = dim, sg_mmap = None, sg_mapped_records = 0\<rparr>"
    obtain r2 f2 where f2: "set_len ?k f1 = (r2, f2)" by fastforce
    obtain r3 f3 where f3: "sys_only f2 = (r3, f3)" by fastforce
    obtain r4 s4 where s4: "Segment_remap n (?s\<lparr>sg_file := f3\<rparr>) = (r4, s4)" by fastforce
    note b = b1 set_len_cases [OF f2] sys_only_cases(1) [OF f3] Segment_remap_faulty [OF s4]
    show ?thesis
    proof (cases "r2 = Inr () \<and> r3 = Inr () \<and> r4 = Inr ()")
      case True
      then have "r = Inr s4" "path = Some (fl_bytes (sg_file s4))" "faults' = fl_faults (sg_file s4)"
        using assms f1 Inr f2 f3 s4
        by (simp_all add: Segment_open_def Let_def on_file_def Segment_stride_def)
      moreover obtain g where "s4 = \<lparr>sg_file = g, sg_dimension = dim, sg_mmap = Some (length (fl_bytes f3)), sg_mapped_records = n\<rparr>"
        using b(5) True by simp
      then have "sg_dimension s4 = dim \<and> sg_mmap s4 = Some (length (fl_bytes f3)) \<and> sg_mapped_records s4 = n" by simp
      ultimately show ?thesis using b True by (cases s4) auto
    next
      case False
      then show ?thesis using assms f1 Inr f2 f3 s4 b
        by (cases r2; cases r3; cases r4) (auto simp: Segment_open_def Let_def on_file_def Segment_stride_def)
    qed
  qed
qed

lemma resize_take: "n \<le> length bytes \<Longrightarrow> resize n bytes = take n bytes"
  by (simp add: resize_def)

lemma pf_readyI:
  assumes "pf_durable view s"
    and "pf_live_count s = card (dom (slot_map (view (pf_catalog s))))" "pf_tail s = []"
    and "sg_mmap (pf_segment s) = Some (length (pf_bytes s))" "sg_mapped_records (pf_segment s) = pf_record_count s"
  shows "pf_ready view s"
  using assms by (simp add: pf_ready_def Let_def pf_durable_def)

lemma Segment_open_store:
  assumes "disk_ok m d n bytes ts" "Segment_open m (Dimension_get d) n fs (Some bytes) = (rs, (path, fs'))"
  shows "\<exists>bytes'. path = Some bytes' \<and> disk_ok m d n bytes' ts \<and> disk_contents d bytes' ts = disk_contents d bytes ts \<and>
    (fs = [] \<longrightarrow> fs' = [] \<and> (\<exists>s. rs = Inr s)) \<and>
    (\<forall>s. rs = Inr s \<longrightarrow> length bytes' = HEADER_LEN + n * (Dimension_get d * 4) \<and>
       s = \<lparr>sg_file = \<lparr>fl_bytes = bytes', fl_faults = fs'\<rparr>, sg_dimension = Dimension_get d,
            sg_mmap = Some (length bytes'), sg_mapped_records = n\<rparr>)"
proof -
  let ?k = "HEADER_LEN + n * (Dimension_get d * 4)"
  have le: "?k \<le> length bytes" using assms(1) by (simp add: disk_ok_def)
  obtain bytes' where b': "path = Some bytes'" "bytes' = bytes \<or> bytes' = take ?k bytes"
    "\<forall>s. rs = Inr s \<longrightarrow> bytes' = take ?k bytes \<and> s = \<lparr>sg_file = \<lparr>fl_bytes = bytes', fl_faults = fs'\<rparr>,
      sg_dimension = Dimension_get d, sg_mmap = Some (length bytes'), sg_mapped_records = n\<rparr>"
    using Segment_open_faulty [OF assms(2)] resize_take [OF le] assms(1) by (auto simp: disk_ok_def)
  have "disk_ok m d n bytes' ts \<and> disk_contents d bytes' ts = disk_contents d bytes ts"
    by (rule disk_same_records [OF assms(1)]) (use b'(2) le in auto)
  moreover have "fs' = [] \<and> (\<exists>s. rs = Inr s)" if "fs = []"
  proof -
    obtain b where "metric_to_u8 m = Inr b" "take HEADER_LEN bytes = header_bytes b (word_of_nat (Dimension_get d))"
      using assms(1) by (auto simp: disk_ok_def header_ok_def)
    from Segment_open_clean [OF this(1) Dimension_get_le this(2)] assms that show ?thesis by (auto simp: disk_ok_def)
  qed
  ultimately show ?thesis using b'(1,3) le by (intro exI [of _ bytes']) auto
qed

lemma Pf_open_existing:
  assumes "sd_catalog dir = Some c" "n < 2 ^ 64"
    and "Catalog_open R c = Inr (c', \<lparr>mf_format_version = FORMAT_VERSION, mf_dimension = word_of_nat (Dimension_get d),
      mf_metric = m, mf_record_count = word_of_nat n\<rparr>)"
    and "Segment_open m (Dimension_get d) n (sd_faults dir) (sd_segment dir) = (rs, (path, fs))"
  shows "Pf_open R m d dir =
    (res_bind rs (\<lambda>g. map_res (\<lambda>live. \<lparr>pf_catalog = c', pf_segment = g, pf_metric = m, pf_dimension = d,
        pf_record_count = n, pf_live_count = live, pf_tail = []\<rparr>) (Catalog_live_count R c')),
     \<lparr>sd_segment = path, sd_catalog = Some c', sd_faults = fs\<rparr>)"
proof -
  have un: "unat (word_of_nat n :: u64) = n" using assms(2) by (simp add: unat_of_nat)
  have le: "\<not> u32_max < Dimension_get d" by (rule leD) simp
  show ?thesis using assms(1,3,4)
    by (simp add: Pf_open_def Let_def un le res_bind_def map_res_def split: sum.splits)
qed

text \<open>
  Opening an existing store under any faults: it stays a store with the same vectors, and an index that
  opens shows them; without faults only the database can refuse.
\<close>

lemma Pf_open_store:
  assumes "redb_ok R view" "store_ok view m d dir" "Pf_open R m d dir = (r, dir')"
  shows "store_ok view m d dir' \<and> store_contents view d dir' = store_contents view d dir \<and>
    (case r of
       Inl e \<Rightarrow> sd_faults dir = [] \<longrightarrow> (\<exists>msg. e = St_Catalog msg)
     | Inr s \<Rightarrow> pf_metric s = m \<and> pf_dimension s = d \<and> pf_ready view s \<and> pf_contents view s = store_contents view d dir \<and>
         (sd_faults dir = [] \<longrightarrow> fl_faults (sg_file (pf_segment s)) = []))"
proof -
  obtain bytes c n where dir: "sd_segment dir = Some bytes" "sd_catalog dir = Some c" and disk: "disk_ok m d n bytes (view c)"
    using assms(2) by (auto simp: store_ok_def)
  have cat: "catalog_ok m d n (view c)" and n: "n < 2 ^ 64" using disk by (simp_all add: disk_ok_def catalog_ok_def)
  have cont: "store_contents view d dir = disk_contents d bytes (view c)" by (simp add: store_contents_def dir)
  note copen = Catalog_open_spec [OF assms(1) cat]
  show ?thesis
  proof (cases "Catalog_open R c")
    case (Inl e)
    then show ?thesis using assms(2,3) copen by (auto simp: Pf_open_def dir)
  next
    case (Inr p)
    then obtain c' where c': "Catalog_open R c = Inr (c', \<lparr>mf_format_version = FORMAT_VERSION,
        mf_dimension = word_of_nat (Dimension_get d), mf_metric = m, mf_record_count = word_of_nat n\<rparr>)" "view c' = view c"
      using copen by (auto split: prod.splits)
    obtain rs path fs where seg: "Segment_open m (Dimension_get d) n (sd_faults dir) (sd_segment dir) = (rs, (path, fs))"
      by (metis prod.collapse)
    note eq = Pf_open_existing [OF dir(2) n c'(1) seg, unfolded assms(3)]
    obtain bytes' where b': "path = Some bytes'" "disk_ok m d n bytes' (view c')"
      "disk_contents d bytes' (view c') = disk_contents d bytes (view c)"
      "sd_faults dir = [] \<Longrightarrow> fs = [] \<and> (\<exists>s. rs = Inr s)"
      "\<And>s. rs = Inr s \<Longrightarrow> length bytes' = HEADER_LEN + n * (Dimension_get d * 4) \<and>
       s = \<lparr>sg_file = \<lparr>fl_bytes = bytes', fl_faults = fs\<rparr>, sg_dimension = Dimension_get d,
            sg_mmap = Some (length bytes'), sg_mapped_records = n\<rparr>"
      using Segment_open_store [OF disk seg [unfolded dir(1)]] by (auto simp: c'(2))
    have store: "store_ok view m d dir'" "store_contents view d dir' = store_contents view d dir"
      using b'(2,3) eq by (auto simp: store_ok_def store_contents_def b'(1) dir)
    have cat': "catalog_ok m d n (view c')" using cat c'(2) by simp
    note live = Catalog_live_count_spec [OF assms(1) cat']
    show ?thesis
    proof (cases r)
      case (Inl e)
      then show ?thesis using store live eq b'(4) by (auto simp: res_bind_eq_Inl split: sum.splits)
    next
      case (Inr s)
      then obtain g k where g: "rs = Inr g" "Catalog_live_count R c' = Inr k" and s: "s = \<lparr>pf_catalog = c', pf_segment = g,
          pf_metric = m, pf_dimension = d, pf_record_count = n, pf_live_count = k, pf_tail = []\<rparr>" using eq
        by (cases rs; cases "Catalog_live_count R c'") auto
      note g' = b'(5) [OF g(1)]
      have dur: "pf_durable view s" using g' b'(2) by (simp add: pf_durable_def s)
      moreover have "pf_ready view s"
        using g' live g(2) by (intro pf_readyI dur) (simp_all add: s)
      moreover have "sd_faults dir = [] \<Longrightarrow> fl_faults (sg_file (pf_segment s)) = []" using g' b'(4) by (simp add: s)
      moreover have "pf_contents view s = store_contents view d dir"
        using b'(3) g' by (simp add: store_contents_pf_dir s cont)
      ultimately show ?thesis using store Inr by (simp add: s)
    qed
  qed
qed

section \<open>Operations without faults\<close>

definition pf_ok :: "'d Redb \<Rightarrow> ('d \<Rightarrow> tables) \<Rightarrow> 'd PersistentFlatIndex \<Rightarrow> bool" where
  "pf_ok R view s \<longleftrightarrow> redb_ok R view \<and> redb_total R \<and> pf_ready view s \<and> fl_faults (sg_file (pf_segment s)) = []"

lemma commit_total:
  assumes "redb_total R"
  shows "fst (commit R ws c) = Inr ()"
proof -
  have "fst (rd_commit R ws c) = Inr ()" using assms by (simp add: redb_total_def)
  then show ?thesis by (cases "rd_commit R ws c") (simp add: commit_def)
qed

lemma begin_read_total: "redb_ok R view \<Longrightarrow> redb_total R \<Longrightarrow> begin_read R c = Inr (view c)"
  by (auto simp: redb_ok_def redb_total_def begin_read_def) (metis map_err_simps(2))

lemma write_slots_total:
  assumes "redb_ok R view" "redb_total R" "catalog_ok m d n (view c)"
  shows "fst (write_slots R ws n' c) = Inr ()"
proof -
  obtain mf where "manifest_row (table_of (view c) MANIFEST) = Inr mf"
    using assms(3) by (auto simp: catalog_ok_def manifest_row_def table_of_def)
  moreover obtain bs where "Manifest_to_bytes (mf\<lparr>mf_record_count := word_of_nat n'\<rparr>) = Inr bs"
    using Manifest_roundtrip by blast
  ultimately show ?thesis
    by (simp add: write_slots_def begin_read_total [OF assms(1,2)] commit_total [OF assms(2)])
qed

text \<open>A clean append either succeeds or finds the file full and changes nothing.\<close>

lemma append_commit_total:
  assumes "pf_ok R view s" "\<forall>(i, e) \<in> set items. length (as_slice e) = Dimension_get (pf_dimension s)"
  shows "append_commit R items s = (Inl (Backend ''io error: File too large''), s) \<and>
      FILE_MAX \<le> HEADER_LEN + (pf_record_count s + length items) * (Dimension_get (pf_dimension s) * 4) \<or>
    (\<exists>c. append_commit R items s = (Inr (), s\<lparr>pf_catalog := c, pf_segment := (pf_segment s)\<lparr>sg_file :=
      (sg_file (pf_segment s))\<lparr>fl_bytes := pf_bytes s @ floats_to_bytes (concat (map (\<lambda>(_, e). as_slice e) items))\<rparr>\<rparr>\<rparr>))"
proof -
  let ?vs = "concat (map (\<lambda>(_, e). as_slice e) items)" and ?dim = "Dimension_get (pf_dimension s)"
  have R: "redb_ok R view" "redb_total R" and clean: "fl_faults (sg_file (pf_segment s)) = []"
    and dur: "pf_durable view s" using assms(1) by (simp_all add: pf_ok_def pf_ready_def)
  then have cat: "catalog_ok (pf_metric s) (pf_dimension s) (pf_record_count s) (view (pf_catalog s))"
    and exact: "length (pf_bytes s) = HEADER_LEN + pf_record_count s * (?dim * 4)" and dim: "sg_dimension (pf_segment s) = ?dim"
    by (simp_all add: pf_durable_def disk_ok_def)
  have len: "length ?vs = length items * ?dim" using assms(2) by (induction items) auto
  show ?thesis
  proof (cases "FILE_MAX \<le> length (pf_bytes s) + 4 * length ?vs")
    case True
    then have "Segment_append ?vs (pf_segment s) = (Inl (St_Io ''File too large''), pf_segment s)"
      using len by (simp add: Segment_append_def on_file_def write_all_end_def dim)
    then have "append_commit R items s = (Inl (Backend ''io error: File too large''), s)"
      by (simp add: append_commit_def on_segment_def)
    with True exact len show ?thesis by (simp add: add_mult_distrib)
  next
    case False
    then have "Segment_append ?vs (pf_segment s) = (Inr (), (pf_segment s)\<lparr>sg_file :=
        (sg_file (pf_segment s))\<lparr>fl_bytes := pf_bytes s @ floats_to_bytes ?vs\<rparr>\<rparr>)"
      using Segment_append_clean [OF clean] len by (simp add: dim)
    moreover obtain c where "Catalog_insert_slots R (slots_from (pf_record_count s) items) (pf_record_count s + length items)
        (pf_catalog s) = (Inr (), c)"
      using write_slots_total [OF R cat] by (metis Catalog_insert_slots_def prod.collapse)
    ultimately show ?thesis by (intro disjI2 exI [of _ c]) (simp add: append_commit_def on_segment_def on_catalog_def)
  qed
qed

lemma slots_from_fst [simp]: "map fst (slots_from n items) = map fst items"
  by (rule nth_equalityI) (simp_all add: nth_enumerate_eq split_beta)

lemma card_dom_slots:
  assumes "finite (dom m)" "distinct (map fst items)" "\<forall>i \<in> fst ` set items. m i = None"
  shows "card (dom (m ++ map_of (rev (slots_from n items)))) = card (dom m) + length items"
proof -
  have d: "dom (map_of (rev (slots_from n items))) = fst ` set items"
    by (simp only: dom_map_of_conv_image_fst set_rev) (metis list.set_map slots_from_fst)
  then have "dom (m ++ map_of (rev (slots_from n items))) = dom m \<union> fst ` set items" by (simp add: Un_commute)
  moreover have "dom m \<inter> fst ` set items = {}" using assms(3) by auto
  moreover have "card (fst ` set items) = length items"
    using assms(2) by (metis distinct_card length_map list.set_map)
  ultimately show ?thesis using assms(1) by (simp add: card_Un_disjoint)
qed

lemma append_commit_ready:
  assumes "redb_ok R view" "pf_ready view s" "\<forall>(i, e) \<in> set items. length (as_slice e) = Dimension_get (pf_dimension s)"
    and "distinct (map fst items)" "\<forall>i \<in> fst ` set items. slot_map (view (pf_catalog s)) i = None"
    and "append_commit R items s = (Inr u, s1)"
    and "s' = s1\<lparr>pf_record_count := pf_record_count s + length items, pf_live_count := pf_live_count s1 + length items,
      pf_tail := pf_tail s1 @ items\<rparr>"
  shows "pf_ready view s' \<and> pf_metric s' = pf_metric s \<and> pf_dimension s' = pf_dimension s \<and>
    pf_contents view s' = pf_contents view s ++ map_of items"
proof -
  let ?dim = "Dimension_get (pf_dimension s)" and ?vss = "map (\<lambda>(_, e). as_slice e) items"
  have dur: "pf_durable view s" using assms(2) by (simp add: pf_ready_def)
  then have exact: "length (pf_bytes s) = HEADER_LEN + pf_record_count s * (?dim * 4)"
    and dim: "sg_dimension (pf_segment s) = ?dim" by (simp_all add: pf_durable_def)
  have fin: "finite (dom (slot_map (view (pf_catalog s))))"
    using dur by (auto simp: pf_durable_def disk_ok_def catalog_ok_split intro: finite_slot_map)
  note spec = append_commit_spec [OF assms(1) dur assms(3,6), unfolded sum.case]
  then obtain c f where s1: "s1 = s\<lparr>pf_segment := (pf_segment s)\<lparr>sg_file := f\<rparr>, pf_catalog := c\<rparr>"
    and f: "fl_bytes f = pf_bytes s @ floats_to_bytes (concat ?vss)" by blast
  have vss: "\<forall>v \<in> set ?vss. length v = ?dim" using assms(3) by auto
  then have "length (concat ?vss) = length items * ?dim" using assms(3) by (induction items) auto
  then have dur': "pf_durable view s'"
    using spec exact dim by (simp add: pf_durable_def assms(7) s1 f add_mult_distrib)
  have old: "record_at ?dim (pf_bytes s @ floats_to_bytes (concat ?vss)) slot = record_at ?dim (pf_bytes s) slot"
    if "slot < pf_record_count s" for slot using record_at_prefix(1) [OF _ that] exact by simp
  have new: "record_at ?dim (pf_bytes s @ floats_to_bytes (concat ?vss)) (pf_record_count s + j) = as_slice (snd (items ! j))"
    if "j < length items" for j using record_at_appended [OF exact vss, of j "[]"] that by (simp add: split_beta)
  let ?mapped = "sg_mapped_records (pf_segment s)"
  have tail: "?mapped + length (pf_tail s) = pf_record_count s"
    "\<forall>j < length (pf_tail s). as_slice (snd (pf_tail s ! j)) = record_at ?dim (pf_bytes s) (?mapped + j)"
    using assms(2) by (simp_all add: pf_ready_def Let_def)
  have "as_slice (snd ((pf_tail s @ items) ! j)) = record_at ?dim (pf_bytes s @ floats_to_bytes (concat ?vss)) (?mapped + j)"
    if j: "j < length (pf_tail s) + length items" for j
  proof (cases "j < length (pf_tail s)")
    case True
    then show ?thesis using tail old [of "?mapped + j"] by (simp add: nth_append)
  next
    case False
    then obtain i where i: "j = length (pf_tail s) + i" by (metis le_add_diff_inverse not_less)
    then have "?mapped + j = pf_record_count s + i" using tail(1) by linarith
    then show ?thesis using new [of i] j by (simp only: i) (simp add: nth_append)
  qed
  moreover have "card (dom (slot_map (view c))) = card (dom (slot_map (view (pf_catalog s)))) + length items"
    using card_dom_slots [OF fin assms(4,5)] spec by (simp add: s1)
  ultimately have "pf_ready view s'"
    using assms(2) dur' tail(1) by (simp add: pf_ready_def Let_def assms(7) s1 f)
  moreover have "map_of (rev items) = map_of items" using assms(4) by (subst map_of_inject_set) (simp_all add: rev_map [symmetric])
  ultimately show ?thesis using spec by (simp add: assms(7) s1 f store_contents_pf_dir)
qed

lemma contains_total:
  "redb_ok R view \<Longrightarrow> redb_total R \<Longrightarrow> catalog_ok m d n (view c) \<Longrightarrow>
   Catalog_contains R i c = Inr (slot_map (view c) i \<noteq> None)"
  by (auto simp: Catalog_contains_def begin_read_total open_table_def catalog_ok_def slot_map_def table_of_def)

lemma pf_ok_catalog:
  "pf_ok R view s \<Longrightarrow> redb_ok R view \<and> redb_total R \<and> pf_durable view s \<and> 0 < Dimension_get (pf_dimension s) \<and>
   catalog_ok (pf_metric s) (pf_dimension s) (pf_record_count s) (view (pf_catalog s))"
  by (simp add: pf_ok_def pf_ready_def pf_durable_def disk_ok_def)

lemma pf_contents_slot: "pf_contents view s i = None \<longleftrightarrow> slot_map (view (pf_catalog s)) i = None"
  by (simp add: store_contents_pf_dir disk_contents_def)

lemma pf_contents_dom: "dom (pf_contents view s) = dom (slot_map (view (pf_catalog s)))"
  by (auto simp: store_contents_pf_dir disk_contents_def dom_def)

lemma Pf_insert_ok:
  assumes "pf_ok R view s" "Pf_insert R i e s = (r, s')"
  shows "pf_ok R view s' \<and> pf_metric s' = pf_metric s \<and> pf_dimension s' = pf_dimension s \<and>
    (r = (if Embedding_dimension e \<noteq> pf_dimension s then Inl (mismatch (pf_dimension s) e)
          else if pf_contents view s i \<noteq> None then Inl (DuplicateId i) else Inr ()) \<or>
     r = Inl (Backend ''io error: File too large'') \<and>
       FILE_MAX \<le> HEADER_LEN + (pf_record_count s + 1) * (Dimension_get (pf_dimension s) * 4)) \<and>
    pf_record_count s' = (case r of Inl _ \<Rightarrow> pf_record_count s | Inr _ \<Rightarrow> pf_record_count s + 1) \<and>
    (case r of Inl _ \<Rightarrow> s' = s
     | Inr _ \<Rightarrow> Embedding_dimension e = pf_dimension s \<and> pf_contents view s i = None \<and>
         pf_contents view s' = (pf_contents view s)(i \<mapsto> e))"
proof (cases "Embedding_dimension e = pf_dimension s \<and> pf_contents view s i = None")
  case True
  note ok = pf_ok_catalog [OF assms(1)]
  have free: "slot_map (view (pf_catalog s)) i = None" using True by (simp add: pf_contents_slot)
  then have c: "Catalog_contains R i (pf_catalog s) = Inr False"
    using contains_total [of R view "pf_metric s" "pf_dimension s" "pf_record_count s" "pf_catalog s" i] ok by simp
  have len: "\<forall>(i, e) \<in> set [(i, e)]. length (as_slice e) = Dimension_get (pf_dimension s)"
    using Embedding_dimension_length ok True by simp
  obtain r1 s1 where s1: "append_commit R [(i, e)] s = (r1, s1)" by fastforce
  show ?thesis
  proof (cases r1)
    case (Inl err)
    then show ?thesis using append_commit_total [OF assms(1) len] assms True c s1
      by (auto simp: Pf_insert_append_commit)
  next
    case (Inr u)
    have s': "r = Inr ()" "s' = s1\<lparr>pf_record_count := pf_record_count s + length [(i, e)],
        pf_live_count := pf_live_count s1 + length [(i, e)], pf_tail := pf_tail s1 @ [(i, e)]\<rparr>"
      using assms(2) True c s1 Inr by (simp_all add: Pf_insert_append_commit)
    have "pf_record_count s' = pf_record_count s + 1" by (simp add: s'(2))
    moreover have "fl_faults (sg_file (pf_segment s')) = []"
      using append_commit_total [OF assms(1) len] s1 Inr assms(1) by (auto simp: s'(2) pf_ok_def)
    moreover have R: "redb_ok R view" "redb_total R" "pf_ready view s" using assms(1) by (simp_all add: pf_ok_def)
    ultimately show ?thesis using append_commit_ready [OF R(1,3) len _ _ s1 [unfolded Inr] s'(2)] free True s'(1)
      by (simp add: pf_ok_def)
  qed
next
  case False
  then show ?thesis
    using assms contains_total [of R view "pf_metric s" "pf_dimension s" "pf_record_count s" "pf_catalog s" i]
      pf_ok_catalog [OF assms(1)]
    by (auto simp: Pf_insert_append_commit pf_contents_slot split: if_splits)
qed

lemma Pf_remove_ready:
  assumes "redb_ok R view" "pf_ready view s" "Pf_remove R i s = (r, s')"
  shows "pf_ready view s' \<and> pf_segment s' = pf_segment s \<and> pf_record_count s' = pf_record_count s"
proof -
  have dur: "pf_durable view s" using assms(2) by (simp add: pf_ready_def)
  note d = Pf_remove_durable [OF assms(1) dur assms(3)]
  obtain r0 c where c: "Catalog_remove_slot R i (pf_catalog s) = (r0, c)" by fastforce
  have cat: "catalog_ok (pf_metric s) (pf_dimension s) (pf_record_count s) (view (pf_catalog s))"
    using dur by (simp add: pf_durable_def disk_ok_def)
  have fin: "finite (dom (slot_map (view (pf_catalog s))))" using cat by (auto simp: catalog_ok_split intro: finite_slot_map)
  note spec = remove_slot_spec [OF assms(1) cat c]
  have same: "pf_segment s' = pf_segment s" "pf_record_count s' = pf_record_count s" "pf_tail s' = pf_tail s" "pf_catalog s' = c"
    and live: "pf_live_count s' = pf_live_count s - (if r0 = Inr True then 1 else 0)"
    using assms(3) by (auto simp: Pf_remove_def on_catalog_def c then_do_def split: sum.splits if_splits)
  have "card (dom (slot_map (view c))) = card (dom (slot_map (view (pf_catalog s)))) - (if r0 = Inr True then 1 else 0)"
    using spec fin by (cases r0) (auto simp: card_Diff_singleton_if domIff)
  then show ?thesis using assms(2) d same live by (simp add: pf_ready_def Let_def)
qed

lemma Pf_remove_ok:
  assumes "pf_ok R view s" "Pf_remove R i s = (r, s')"
  shows "pf_ok R view s' \<and> pf_metric s' = pf_metric s \<and> pf_dimension s' = pf_dimension s \<and>
    pf_record_count s' = pf_record_count s \<and> r = Inr (pf_contents view s i \<noteq> None) \<and>
    pf_contents view s' = (pf_contents view s)(i := None)"
proof -
  note ok = pf_ok_catalog [OF assms(1)]
  have rd: "pf_ready view s" "fl_faults (sg_file (pf_segment s)) = []" using assms(1) by (simp_all add: pf_ok_def)
  obtain r0 c where c: "Catalog_remove_slot R i (pf_catalog s) = (r0, c)" by fastforce
  have "fst (commit R ws (pf_catalog s)) = Inr ()" for ws using ok by (simp add: commit_total)
  moreover have "begin_read R (pf_catalog s) = Inr (view (pf_catalog s))" using ok by (simp add: begin_read_total)
  ultimately obtain b where r0: "r0 = Inr b"
    using c by (auto simp: Catalog_remove_slot_def Let_def split: prod.splits) (metis fst_conv map_res_simps(2))
  have r: "r = Inr b" using assms(2) by (auto simp: Pf_remove_def on_catalog_def c r0)
  then show ?thesis using ok rd Pf_remove_ready [OF _ rd(1) assms(2)] Pf_remove_durable [OF _ _ assms(2)]
    by (auto simp: pf_ok_def)
qed

lemma pf_finite: "pf_ok R view s \<Longrightarrow> finite (dom (slot_map (view (pf_catalog s))))"
  using pf_ok_catalog [of R view s] finite_slot_map [of "pf_record_count s" "view (pf_catalog s)"]
  by (simp add: catalog_ok_split)

lemma Pf_record:
  assumes "pf_ready view s" "slot < pf_record_count s"
  shows "Pf_values_at s slot (sg_mapped_records (pf_segment s)) =
      Inr (record_at (Dimension_get (pf_dimension s)) (pf_bytes s) slot)"
    "Pf_values_at_storage s slot (sg_mapped_records (pf_segment s)) =
      Inr (record_at (Dimension_get (pf_dimension s)) (pf_bytes s) slot)"
proof -
  let ?m = "sg_mapped_records (pf_segment s)" and ?dim = "Dimension_get (pf_dimension s)"
  obtain len where len: "sg_mmap (pf_segment s) = Some len" "HEADER_LEN + ?m * (?dim * 4) \<le> len"
    and tail: "?m + length (pf_tail s) = pf_record_count s"
      "\<forall>j < length (pf_tail s). as_slice (snd (pf_tail s ! j)) = record_at ?dim (pf_bytes s) (?m + j)"
    using assms(1) by (auto simp: pf_ready_def Let_def)
  have dim: "sg_dimension (pf_segment s) = ?dim" using assms(1) by (simp add: pf_ready_def pf_durable_def)
  have "slot < ?m \<Longrightarrow> Segment_record slot (pf_segment s) = Some (record_at ?dim (pf_bytes s) slot)"
    using Segment_record_mapped [of slot "pf_segment s" len] len dim by simp
  moreover have "slot - ?m < length (pf_tail s) \<and> ?m + (slot - ?m) = slot" if "\<not> slot < ?m"
    using that tail(1) assms(2) by linarith
  moreover from this have "\<not> slot < ?m \<Longrightarrow> as_slice (snd (pf_tail s ! (slot - ?m))) = record_at ?dim (pf_bytes s) slot"
    using tail(2) by metis
  ultimately show "Pf_values_at s slot ?m = Inr (record_at ?dim (pf_bytes s) slot)"
    "Pf_values_at_storage s slot ?m = Inr (record_at ?dim (pf_bytes s) slot)"
    by (auto simp: Pf_values_at_def Pf_values_at_storage_def)
qed

lemma live_slots_ready:
  assumes "redb_ok R view" "pf_ready view s"
  shows "case Catalog_live_slots R (pf_catalog s) of Inl e \<Rightarrow> \<exists>msg. e = St_Catalog msg
    | Inr live \<Rightarrow> distinct (map fst live) \<and> map_of live = slot_map (view (pf_catalog s)) \<and>
        (\<forall>(i, slot) \<in> set live. slot < pf_record_count s)"
proof -
  let ?ts = "view (pf_catalog s)"
  have cat: "catalog_ok (pf_metric s) (pf_dimension s) (pf_record_count s) ?ts"
    using assms(2) by (simp add: pf_ready_def pf_durable_def disk_ok_def)
  then have "slots_ok (pf_record_count s) ?ts" by (simp add: catalog_ok_split)
  then obtain live where live: "open_table R ?ts SLOTS = Inr (table_of ?ts SLOTS)"
    "traverse slot_entry (table_of ?ts SLOTS) = Inr live" "distinct (map fst live)" "map_of live = slot_map ?ts"
    by (rule live_slots_spec)
  moreover have "\<forall>(i, slot) \<in> set live. slot < pf_record_count s"
    using slot_map_less [OF cat] live(3) live(4) [symmetric] by auto
  ultimately show ?thesis
    by (cases "rd_read R (pf_catalog s)") (use redb_read [OF assms(1)] in \<open>auto simp: Catalog_live_slots_def begin_read_def\<close>)
qed

lemma Pf_search_ready:
  assumes "redb_ok R view" "pf_ready view s" "Embedding_dimension q = pf_dimension s"
  shows "case Pf_search_filtered R q k metric adm s of Inl e \<Rightarrow> \<exists>msg. e = Backend (''catalog error: '' @ msg)
    | Inr ns \<Rightarrow> is_top_k k (candidates metric q adm (pf_contents view s)) ns"
proof (cases "Catalog_live_slots R (pf_catalog s)")
  case (Inl e)
  then show ?thesis using live_slots_ready [OF assms(1,2)] assms(3) by (auto simp: Pf_search_filtered_def)
next
  case (Inr live)
  then have live: "distinct (map fst live)" "map_of live = slot_map (view (pf_catalog s))"
    "\<forall>(i, slot) \<in> set live. slot < pf_record_count s" using live_slots_ready [OF assms(1,2)] by simp_all
  let ?rec = "record_at (Dimension_get (pf_dimension s)) (pf_bytes s)"
  let ?g = "\<lambda>p. score_of metric q (fst p) (Embedding (?rec (snd p)))"
  let ?adm = "filter (\<lambda>(i, _). adm i) live"
  have "traverse (\<lambda>(i, slot).
            map_res (\<lambda>values. \<lparr>neighbor_id = i, neighbor_score = Metric_score metric (as_slice q) values\<rparr>)
              (Pf_values_at s slot (sg_mapped_records (pf_segment s)))) ?adm = Inr (map ?g ?adm)"
    by (rule traverse_all_Inr) (use live(3) Pf_record [OF assms(2)] in \<open>auto simp: score_of_def\<close>)
  then have "Pf_search_filtered R q k metric adm s = Inr (take k (sort_by neighbor_cmp (map ?g ?adm)))"
    using assms(3) Inr by (simp add: Pf_search_filtered_def)
  moreover have "is_top_k k (candidates metric q adm (pf_contents view s)) (take k (sort_by neighbor_cmp (map ?g ?adm)))"
  proof (rule neighbor_order.top_k_sorted)
    have "distinct (map neighbor_id (map ?g ?adm))"
      using live(1) by (simp add: comp_def split_beta distinct_map_filter)
    then show "distinct (map ?g ?adm)" by (simp only: distinct_map [of neighbor_id])
    have mem: "(i, slot) \<in> set live \<longleftrightarrow> slot_map (view (pf_catalog s)) i = Some slot" for i slot
      using live(1,2) by (metis map_of_eq_Some_iff)
    show "set (map ?g ?adm) = candidates metric q adm (pf_contents view s)"
      by (force simp: candidates_def store_contents_pf_dir disk_contents_def mem)
  qed
  ultimately show ?thesis by simp
qed

lemma traverse_total: "(\<And>x. x \<in> set xs \<Longrightarrow> \<exists>y. f x = Inr y) \<Longrightarrow> \<exists>ys. traverse f xs = Inr ys"
proof (induction xs)
  case (Cons x xs)
  then have "\<exists>ys. traverse f xs = Inr ys" "\<exists>y. f x = Inr y" by auto
  then show ?case by (auto simp: traverse_Cons_Inr)
qed simp

lemma Pf_search_ok:
  assumes "pf_ok R view s" "Embedding_dimension q = pf_dimension s"
  shows "\<exists>ns. Pf_search_filtered R q k metric adm s = Inr ns \<and>
    is_top_k k (candidates metric q adm (pf_contents view s)) ns"
proof -
  have ok: "redb_ok R view" "redb_total R" "pf_ready view s" using assms(1) by (simp_all add: pf_ok_def)
  have cat: "catalog_ok (pf_metric s) (pf_dimension s) (pf_record_count s) (view (pf_catalog s))"
    using pf_ok_catalog [OF assms(1)] by simp
  then have so: "slots_ok (pf_record_count s) (view (pf_catalog s))" by (simp add: catalog_ok_split)
  obtain live where "open_table R (view (pf_catalog s)) SLOTS = Inr (table_of (view (pf_catalog s)) SLOTS)"
    "traverse slot_entry (table_of (view (pf_catalog s)) SLOTS) = Inr live" using live_slots_spec [OF so] .
  then have "Catalog_live_slots R (pf_catalog s) = Inr live"
    by (simp add: Catalog_live_slots_def begin_read_total [OF ok(1,2)] del: res_bind_eq_Inr)
  moreover from this have "\<forall>(i, slot) \<in> set live. slot < pf_record_count s" using live_slots_ready [OF ok(1,3)] by simp
  then have "\<exists>zs. traverse (\<lambda>(i, slot).
            map_res (\<lambda>values. \<lparr>neighbor_id = i, neighbor_score = Metric_score metric (as_slice q) values\<rparr>)
              (Pf_values_at s slot (sg_mapped_records (pf_segment s)))) (filter (\<lambda>(i, _). adm i) live) = Inr zs"
    using Pf_record(1) [OF ok(3)] by (intro traverse_total) auto
  ultimately obtain ns where "Pf_search_filtered R q k metric adm s = Inr ns"
    using assms(2) by (auto simp: Pf_search_filtered_def)
  then show ?thesis using Pf_search_ready [OF ok(1,3) assms(2), of k metric adm] by simp
qed

lemma Pf_search_mismatch:
  "Embedding_dimension q \<noteq> pf_dimension s \<Longrightarrow> Pf_search_filtered R q k metric adm s = Inl (mismatch (pf_dimension s) q)"
  by (simp add: Pf_search_filtered_def)

text \<open>
  The contract of the port. Insertion is not total, since a file has a largest length; everything else of
  \<open>exact_index\<close> holds.
\<close>

interpretation pf: exact_index "Pf_index R" "pf_ok R view" "pf_contents view"
  for R :: "'d Redb" and view
proof
  fix i i' :: "'d PersistentFlatIndex" and x e r rr u err b
  let ?V = "Pf_index R" and ?ok = "pf_ok R view" and ?c = "pf_contents view"
  show "?ok i \<Longrightarrow> finite (dom (?c i))"
  proof -
    assume "?ok i"
    then have "finite (dom (slot_map (view (pf_catalog i))))" by (rule pf_finite)
    then show ?thesis by (simp add: pf_contents_dom)
  qed
  show "?ok i \<Longrightarrow> vi_len ?V i = card (dom (?c i))"
  proof -
    assume "?ok i"
    then show ?thesis by (simp add: Pf_index_def pf_ok_def pf_ready_def pf_contents_dom)
  qed
  show "?ok i \<Longrightarrow> vi_insert ?V x e i = (r, i') \<Longrightarrow>
      ?ok i' \<and> vi_dimension ?V i' = vi_dimension ?V i \<and> vi_metric ?V i' = vi_metric ?V i"
    using Pf_insert_ok [of R view i x e r i'] by (simp add: Pf_index_def)
  show "?ok i \<Longrightarrow> vi_insert ?V x e i = (Inr u, i') \<Longrightarrow>
      ?c i x = None \<and> Embedding_dimension e = vi_dimension ?V i \<and> ?c i' = (?c i)(x \<mapsto> e)"
    using Pf_insert_ok [of R view i x e "Inr u" i'] by (simp add: Pf_index_def)
  show "?ok i \<Longrightarrow> vi_insert ?V x e i = (Inl err, i') \<Longrightarrow> ?c i' = ?c i"
    using Pf_insert_ok [of R view i x e "Inl err" i'] by (simp add: Pf_index_def)
  show "?ok i \<Longrightarrow> vi_remove ?V x i = (rr, i') \<Longrightarrow>
      ?ok i' \<and> vi_dimension ?V i' = vi_dimension ?V i \<and> vi_metric ?V i' = vi_metric ?V i"
    using Pf_remove_ok [of R view i x rr i'] by (simp add: Pf_index_def)
  show "?ok i \<Longrightarrow> vi_remove ?V x i = (Inr b, i') \<Longrightarrow> b = (?c i x \<noteq> None) \<and> ?c i' = (?c i)(x := None)"
    using Pf_remove_ok [of R view i x "Inr b" i'] by (simp add: Pf_index_def)
  show "?ok i \<Longrightarrow> vi_remove ?V x i = (Inl err, i') \<Longrightarrow> ?c i' = ?c i"
    using Pf_remove_ok [of R view i x "Inl err" i'] by (simp add: Pf_index_def)
next
  fix i :: "'d PersistentFlatIndex" and q k m adm ns
  assume ok: "pf_ok R view i" and s: "vi_search_filtered (Pf_index R) q k m adm i = Inr ns"
  then have s': "Pf_search_filtered R q k m adm i = Inr ns" by (simp add: Pf_index_def)
  have d: "Embedding_dimension q = pf_dimension i" using s' Pf_search_mismatch [of q i R k m adm] by fastforce
  show top: "is_top_k k (candidates m q adm (pf_contents view i)) ns"
    using Pf_search_ok [OF ok d, of k m adm] s' by simp
  have "m \<in> set [Cosine, DotProduct, Euclidean]" by (cases m) simp_all
  with d top top_k_ids [OF top]
  show "Embedding_dimension q = vi_dimension (Pf_index R) i \<and> m \<in> set (vi_supported_metrics (Pf_index R) i) \<and>
      sorted (map neighbor_key ns) \<and> distinct (map neighbor_id ns) \<and> length ns \<le> k \<and>
      set ns \<subseteq> candidates m q adm (pf_contents view i)"
    by (simp add: Pf_index_def top_k_def)
qed

end
