(* ===== verification/Recovery.thy ===== *)
theory Recovery
  imports Durability
begin

text \<open>
  The persistent flat index as a state machine with crashes: first opening, checkpoint, compaction
  and snapshot, the relation \<open>reach\<close> of an index to the vectors it has acknowledged, and the
  three properties that follow from it. The last section states where a fault does damage.
\<close>

section \<open>A fresh store\<close>

lemma fresh_catalog:
  assumes "Manifest_to_bytes \<lparr>mf_format_version = FORMAT_VERSION, mf_dimension = word_of_nat (Dimension_get d),
      mf_metric = m, mf_record_count = word_of_nat n\<rparr> = Inr bs" "n < 2 ^ 64"
  shows "catalog_ok m d n (fold apply_write [W_open MANIFEST, W_insert MANIFEST MANIFEST_KEY bs, W_open SLOTS] Map.empty)"
    "slot_map (fold apply_write [W_open MANIFEST, W_insert MANIFEST MANIFEST_KEY bs, W_open SLOTS] Map.empty) = Map.empty"
proof -
  have "Manifest_from_bytes bs = Inr \<lparr>mf_format_version = FORMAT_VERSION, mf_dimension = word_of_nat (Dimension_get d),
      mf_metric = m, mf_record_count = word_of_nat n\<rparr>"
    using Manifest_roundtrip assms(1) by (metis sum.inject(2))
  then show "catalog_ok m d n (fold apply_write [W_open MANIFEST, W_insert MANIFEST MANIFEST_KEY bs, W_open SLOTS] Map.empty)"
    using assms(2) by (simp add: catalog_ok_def table_of_def btree_ok_def)
  show "slot_map (fold apply_write [W_open MANIFEST, W_insert MANIFEST MANIFEST_KEY bs, W_open SLOTS] Map.empty) = Map.empty"
    by (simp add: slot_map_def table_of_def fun_eq_iff)
qed

lemma Catalog_create_spec:
  assumes "redb_ok R view" "n < 2 ^ 64"
    and "Catalog_create R None \<lparr>mf_format_version = FORMAT_VERSION, mf_dimension = word_of_nat (Dimension_get d),
      mf_metric = m, mf_record_count = word_of_nat n\<rparr> = (r, db)"
  shows "case r of Inl e \<Rightarrow> \<exists>msg. e = St_Catalog msg
    | Inr c \<Rightarrow> db = Some c \<and> catalog_ok m d n (view c) \<and> slot_map (view c) = Map.empty"
proof -
  let ?mf = "\<lparr>mf_format_version = FORMAT_VERSION, mf_dimension = word_of_nat (Dimension_get d),
      mf_metric = m, mf_record_count = word_of_nat n\<rparr> :: Manifest"
  obtain bs where bs: "Manifest_to_bytes ?mf = Inr bs" using Manifest_roundtrip by blast
  show ?thesis
  proof (cases "rd_create R None")
    case (Inl e)
    then show ?thesis using assms(3) by (auto simp: Catalog_create_def bs)
  next
    case (Inr c0)
    then have v0: "view c0 = Map.empty" using assms(1) by (simp add: redb_ok_def)
    let ?ws = "[W_open MANIFEST, W_insert MANIFEST MANIFEST_KEY bs, W_open SLOTS]"
    obtain r1 c1 where c1: "commit R ?ws c0 = (r1, c1)" by fastforce
    note v1 = redb_commit [OF assms(1) c1]
    show ?thesis
    proof (cases r1)
      case Inl: (Inl e)
      moreover have "\<exists>msg. e = St_Catalog msg" using c1 Inl by (auto simp: commit_def split: prod.splits)
      moreover have "r = Inl e" using assms(3) c1 Inl by (simp add: Catalog_create_def bs Inr)
      ultimately show ?thesis by simp
    next
      case ok: (Inr u)
      then have "r = Inr c1" "db = Some c1" using assms(3) c1 by (simp_all add: Catalog_create_def bs Inr)
      moreover have "view c1 = fold apply_write ?ws Map.empty" using v1 ok v0 by simp
      ultimately show ?thesis using fresh_catalog [OF bs assms(2)] by simp
    qed
  qed
qed

lemma write_header_cases:
  "write_header b dim f = (r, f') \<Longrightarrow> dim \<le> u32_max \<Longrightarrow>
   (r = Inr () \<and> fl_bytes f' = header_bytes b (word_of_nat dim) @ drop HEADER_LEN (fl_bytes f)) \<or> (\<exists>e. r = Inl e)"
  by (auto simp: write_header_def sys_call_def Let_def split: list.splits option.splits fault.splits)

lemma Segment_create_faulty:
  assumes "Segment_create m dim fs None = (Inr g, (path, fs'))" "dim \<le> u32_max" "metric_to_u8 m = Inr b"
  shows "path = Some (header_bytes b (word_of_nat dim)) \<and>
    (\<exists>f. fl_bytes f = header_bytes b (word_of_nat dim) \<and> (fs = [] \<longrightarrow> fl_faults f = []) \<and>
      g = \<lparr>sg_file = f, sg_dimension = dim, sg_mmap = Some HEADER_LEN, sg_mapped_records = 0\<rparr>)"
proof -
  obtain r1 f1 where f1: "sys_only \<lparr>fl_bytes = [], fl_faults = fs\<rparr> = (r1, f1)" by fastforce
  obtain r2 f2 where f2: "write_header b dim f1 = (r2, f2)" by fastforce
  obtain r3 f3 where f3: "sys_only f2 = (r3, f3)" by fastforce
  let ?s = "\<lparr>sg_file = f3, sg_dimension = dim, sg_mmap = None, sg_mapped_records = 0\<rparr>"
  obtain r4 g4 where g4: "Segment_remap 0 ?s = (r4, g4)" by fastforce
  have ok: "r1 = Inr ()" "r2 = Inr ()" "r3 = Inr ()" "r4 = Inr ()" "g = g4" "path = Some (fl_bytes (sg_file g4))"
    using assms(1,3) f1 f2 f3 g4
    by (cases r1; cases r2; cases r3; cases r4; simp add: Segment_create_def)+
  have b2: "fl_bytes f2 = header_bytes b (word_of_nat dim)"
    using write_header_cases [OF f2 assms(2)] ok(2) sys_only_cases(1) [OF f1] by simp
  note b3 = sys_only_cases(1) [OF f3] and r = Segment_remap_faulty [OF g4]
  obtain f where f: "g = \<lparr>sg_file = f, sg_dimension = dim, sg_mmap = Some HEADER_LEN, sg_mapped_records = 0\<rparr>"
    using r(2) ok(4,5) b2 b3 by simp
  have "fl_bytes f = header_bytes b (word_of_nat dim)" using r(1) b2 b3 f unfolding ok(5) by simp
  moreover have "fl_faults f = []" if "fs = []"
    using Segment_create_clean [of dim m] assms(1,2) f that by (metis File.select_convs(2) Pair_inject Segment.ext_inject sum.inject(2))
  ultimately show ?thesis using f ok(5,6) by simp
qed

text \<open>Opening an empty directory: the index that comes up is empty.\<close>

lemma Pf_open_fresh:
  assumes "redb_ok R view" "0 < Dimension_get d"
    and "Pf_open R m d \<lparr>sd_segment = None, sd_catalog = None, sd_faults = fs\<rparr> = (Inr s, dir)"
  shows "pf_ready view s \<and> pf_metric s = m \<and> pf_dimension s = d \<and> pf_contents view s = Map.empty \<and>
    pf_record_count s = 0 \<and> (fs = [] \<longrightarrow> fl_faults (sg_file (pf_segment s)) = [])"
proof -
  let ?dim = "Dimension_get d"
  have le: "\<not> u32_max < ?dim" by (rule leD) simp
  obtain rc db where c: "Catalog_create R None \<lparr>mf_format_version = FORMAT_VERSION, mf_dimension = word_of_nat ?dim,
      mf_metric = m, mf_record_count = 0\<rparr> = (rc, db)" by fastforce
  obtain rs path fs' where g: "Segment_create m ?dim fs None = (rs, (path, fs'))" by (metis prod.collapse)
  obtain k g0 where ok: "rc = Inr k" "rs = Inr g0" and s: "s = \<lparr>pf_catalog = k, pf_segment = g0, pf_metric = m,
      pf_dimension = d, pf_record_count = 0, pf_live_count = 0, pf_tail = []\<rparr>"
    using assms(3) c g by (cases rc; cases rs) (auto simp: Pf_open_def Let_def le)
  have cat: "catalog_ok m d 0 (view k)" "slot_map (view k) = Map.empty"
    using Catalog_create_spec [OF assms(1), of 0 d m rc db] c ok(1) by simp_all
  obtain b where b: "metric_to_u8 m = Inr b" using metric_to_u8_total by blast
  obtain f where f: "fl_bytes f = header_bytes b (word_of_nat ?dim)" "fs = [] \<longrightarrow> fl_faults f = []"
    "g0 = \<lparr>sg_file = f, sg_dimension = ?dim, sg_mmap = Some HEADER_LEN, sg_mapped_records = 0\<rparr>"
    using Segment_create_faulty [OF g [unfolded ok] _ b] by auto
  have "disk_ok m d 0 (header_bytes b (word_of_nat ?dim)) (view k)"
    using cat(1) assms(2) b by (simp add: disk_ok_def header_ok_def HEADER_LEN_def [symmetric] FILE_MAX_def)
      (simp add: HEADER_LEN_def)
  then have "pf_durable view s" by (simp add: pf_durable_def s f)
  then have "pf_ready view s" by (rule pf_readyI) (simp_all add: s f cat(2))
  then show ?thesis using f cat(2) by (simp add: s store_contents_pf_dir disk_contents_def fun_eq_iff)
qed

section \<open>Checkpoint, compaction, snapshot\<close>

lemma on_segment_remap:
  assumes "on_segment (Segment_remap n) s = (r, s')"
  shows "pf_bytes s' = pf_bytes s \<and> pf_catalog s' = pf_catalog s \<and> pf_metric s' = pf_metric s \<and> pf_dimension s' = pf_dimension s \<and>
    (r = Inr () \<longrightarrow> (\<exists>f. fl_bytes f = pf_bytes s \<and> s' = s\<lparr>pf_segment := (pf_segment s)\<lparr>sg_file := f,
       sg_mmap := Some (length (pf_bytes s)), sg_mapped_records := n\<rparr>\<rparr>))"
proof -
  obtain r0 g where g: "Segment_remap n (pf_segment s) = (r0, g)" "r = map_err IndexError_from r0" "s' = s\<lparr>pf_segment := g\<rparr>"
    using assms by (auto simp: on_segment_def split: prod.splits)
  note f = Segment_remap_faulty [OF g(1)]
  have "\<exists>f. g = (pf_segment s)\<lparr>sg_file := f, sg_mmap := Some (length (pf_bytes s)), sg_mapped_records := n\<rparr>"
    if "r = Inr ()" using f(2) that g(2) by simp blast
  with f(1) g(3) have "\<exists>f. fl_bytes f = pf_bytes s \<and> s' = s\<lparr>pf_segment := (pf_segment s)\<lparr>sg_file := f,
      sg_mmap := Some (length (pf_bytes s)), sg_mapped_records := n\<rparr>\<rparr>" if "r = Inr ()"
    using that by fastforce
  with f(1) show ?thesis by (simp add: g(3))
qed

lemma Pf_checkpoint_keeps:
  assumes "pf_ready view s" "Pf_checkpoint s = (r, s')"
  shows "pf_metric s' = pf_metric s \<and> pf_dimension s' = pf_dimension s \<and> pf_dir s' = pf_dir s \<and>
    pf_contents view s' = pf_contents view s \<and> (r = Inr () \<longrightarrow> pf_ready view s')"
proof -
  obtain r1 s1 where s1: "on_segment (Segment_remap (pf_record_count s)) s = (r1, s1)" by fastforce
  note f = on_segment_remap [OF s1]
  show ?thesis
  proof (cases r1)
    case (Inl e)
    then show ?thesis using assms(2) s1 f by (auto simp: Pf_checkpoint_def pf_dir_def store_contents_pf_dir)
  next
    case (Inr u)
    then have s': "r = Inr ()" "s' = s1\<lparr>pf_tail := []\<rparr>" using assms(2) s1 by (simp_all add: Pf_checkpoint_def)
    obtain fl where s1': "s1 = s\<lparr>pf_segment := (pf_segment s)\<lparr>sg_file := fl, sg_mmap := Some (length (pf_bytes s)),
        sg_mapped_records := pf_record_count s\<rparr>\<rparr>" and fl: "fl_bytes fl = pf_bytes s"
      using f Inr by auto
    then have "pf_durable view s'" using assms(1) by (simp add: pf_ready_def pf_durable_def s'(2) s1' fl)
    then have "pf_ready view s'"
      by (rule pf_readyI) (use assms(1) in \<open>simp_all add: s'(2) s1' fl pf_ready_def\<close>)
    then show ?thesis by (simp add: s' s1' fl pf_dir_def store_contents_pf_dir)
  qed
qed

lemma on_segment_truncate:
  assumes "on_segment Segment_truncate_to_empty s = (Inr u, s')"
  shows "\<exists>f. s' = s\<lparr>pf_segment := (pf_segment s)\<lparr>sg_mmap := None, sg_mapped_records := 0, sg_file := f\<rparr>\<rparr> \<and>
    fl_bytes f = resize HEADER_LEN (pf_bytes s)"
proof -
  obtain r1 f1 where f1: "set_len HEADER_LEN (sg_file (pf_segment s)) = (r1, f1)" by fastforce
  obtain r2 f2 where f2: "sys_only f1 = (r2, f2)" by fastforce
  have "r1 = Inr () \<and> r2 = Inr () \<and> s' = s\<lparr>pf_segment := (pf_segment s)\<lparr>sg_mmap := None, sg_mapped_records := 0, sg_file := f2\<rparr>\<rparr>"
    using assms f1 f2 by (cases r1; cases r2) (simp_all add: on_segment_def Segment_truncate_to_empty_def on_file_def)
  then show ?thesis using set_len_cases [OF f1] sys_only_cases(1) [OF f2] by auto
qed

text \<open>The file of an exact store of \<open>items\<close> and nothing else.\<close>

lemma disk_rebuild:
  fixes items :: "(VectorId \<times> Embedding) list"
  assumes "disk_ok m d n bytes ts" "\<forall>(i, e) \<in> set items. length (as_slice e) = Dimension_get d"
    and "catalog_ok m d (length items) ts'" "slot_map ts' = map_of (rev (slots_from 0 items))"
    and "HEADER_LEN + length items * (Dimension_get d * 4) < FILE_MAX"
  shows "disk_ok m d (length items) (take HEADER_LEN bytes @ floats_to_bytes (concat (map (\<lambda>(_, e). as_slice e) items))) ts' \<and>
    disk_contents d (take HEADER_LEN bytes @ floats_to_bytes (concat (map (\<lambda>(_, e). as_slice e) items))) ts' = map_of (rev items)"
proof -
  obtain bs where bs: "Manifest_to_bytes \<lparr>mf_format_version = FORMAT_VERSION, mf_dimension = word_of_nat (Dimension_get d),
      mf_metric = m, mf_record_count = word_of_nat 0\<rparr> = Inr bs" using Manifest_roundtrip by blast
  note e = fresh_catalog [OF bs zero_less_power [OF zero_less_numeral]]
  let ?ts = "fold apply_write [W_open MANIFEST, W_insert MANIFEST MANIFEST_KEY bs, W_open SLOTS] Map.empty"
  have h: "HEADER_LEN \<le> length bytes" using assms(1) by (simp add: disk_ok_def)
  then have "disk_ok m d 0 (take HEADER_LEN bytes) ?ts"
    using assms(1) e(1) header_ok_prefix [of m d bytes "take HEADER_LEN bytes"]
    by (simp add: disk_ok_def del: fold_simps)
  moreover have "length (take HEADER_LEN bytes) = HEADER_LEN + 0 * (Dimension_get d * 4)" using h by simp
  ultimately have "disk_ok m d (0 + length items) (take HEADER_LEN bytes @ floats_to_bytes (concat (map (\<lambda>(_, e). as_slice e) items))) ts' \<and>
    disk_contents d (take HEADER_LEN bytes @ floats_to_bytes (concat (map (\<lambda>(_, e). as_slice e) items))) ts' =
    disk_contents d (take HEADER_LEN bytes) ?ts ++ map_of (rev items)"
    by (rule disk_extend) (use assms(2-5) e(2) in \<open>simp_all del: fold_simps\<close>)
  moreover have "disk_contents d (take HEADER_LEN bytes) ?ts = Map.empty"
    unfolding disk_contents_def e(2) by simp
  ultimately show ?thesis by (simp del: fold_simps)
qed

lemma length_floats_of_bytes: "length (floats_of_bytes bs) = length bs div 4"
  by (induction bs rule: floats_of_bytes.induct) simp_all

lemma length_record_at:
  assumes "HEADER_LEN + n * (dim * 4) \<le> length bytes" "slot < n"
  shows "length (record_at dim bytes slot) = dim"
proof -
  have "Suc slot * (dim * 4) \<le> n * (dim * 4)" using assms(2) by (intro mult_le_mono1) simp
  then have "dim * 4 \<le> length bytes - (HEADER_LEN + slot * (dim * 4))" using assms(1) by simp
  then show ?thesis by (simp add: record_at_def length_floats_of_bytes min_absorb2)
qed

text \<open>What compaction reads: the live records in slot order.\<close>

lemma compact_reads:
  assumes "redb_ok R view" "pf_ready view s"
    and "res_bind (Catalog_live_slots R (pf_catalog s)) (\<lambda>live. traverse (\<lambda>(i, slot).
      map_res (Pair i) (Pf_values_at_storage s slot (sg_mapped_records (pf_segment s)))) (sort_key snd live)) = Inr recs"
  shows "distinct (map fst recs)" "map_of (map (\<lambda>(i, v). (i, Embedding v)) recs) = pf_contents view s"
    "\<forall>(i, v) \<in> set recs. length v = Dimension_get (pf_dimension s)"
proof -
  let ?rec = "record_at (Dimension_get (pf_dimension s)) (pf_bytes s)"
  have disk: "disk_ok (pf_metric s) (pf_dimension s) (pf_record_count s) (pf_bytes s) (view (pf_catalog s))"
    using assms(2) by (simp add: pf_ready_def pf_durable_def)
  obtain live0 where live: "Catalog_live_slots R (pf_catalog s) = Inr live0" using assms(3) by auto
  then have l0: "distinct (map fst live0)" "map_of live0 = slot_map (view (pf_catalog s))"
    "\<forall>(i, slot) \<in> set live0. slot < pf_record_count s" using live_slots_ready [OF assms(1,2)] by simp_all
  define live where "live = sort_key snd live0"
  have d: "distinct (map fst live)" using l0(1) unfolding live_def
    by (metis distinct_map distinct_sort inj_on_cong set_sort)
  have m: "map_of live = slot_map (view (pf_catalog s))"
    using d l0(1) unfolding l0(2) [symmetric] by (subst map_of_inject_set) (simp_all add: live_def)
  have lt: "slot < pf_record_count s" if "(i, slot) \<in> set live" for i slot using l0(3) that by (auto simp: live_def)
  have "traverse (\<lambda>(i, slot). map_res (Pair i) (Pf_values_at_storage s slot (sg_mapped_records (pf_segment s)))) live
      = Inr (map (\<lambda>(i, slot). (i, ?rec slot)) live)"
    using lt Pf_record(2) [OF assms(2)] by (intro traverse_all_Inr) auto
  with assms(3) live have recs: "recs = map (\<lambda>(i, slot). (i, ?rec slot)) live" by (simp add: live_def)
  show "distinct (map fst recs)" using d by (simp add: recs comp_def split_beta)
  have "map (\<lambda>(i, v). (i, Embedding v)) recs = map (\<lambda>(i, slot). (i, Embedding (?rec slot))) live" by (simp add: recs split_beta)
  then show "map_of (map (\<lambda>(i, v). (i, Embedding v)) recs) = pf_contents view s"
    by (simp add: map_of_map m store_contents_pf_dir disk_contents_def fun_eq_iff)
  have "length (?rec slot) = Dimension_get (pf_dimension s)" if "slot < pf_record_count s" for slot
    using length_record_at [OF _ that] disk by (simp add: disk_ok_def)
  then show "\<forall>(i, v) \<in> set recs. length v = Dimension_get (pf_dimension s)" using lt by (auto simp: recs)
qed

lemma rewrite_segment:
  assumes "on_segment Segment_truncate_to_empty s = (Inr (), s1)" "on_segment (Segment_append vs) s1 = (Inr (), s2)"
    and "on_segment (Segment_remap n) s2 = (Inr (), s3)" "HEADER_LEN \<le> length (pf_bytes s)"
  shows "\<exists>f. s3 = s\<lparr>pf_segment := (pf_segment s)\<lparr>sg_file := f, sg_mmap := Some (length (fl_bytes f)), sg_mapped_records := n\<rparr>\<rparr> \<and>
    fl_bytes f = take HEADER_LEN (pf_bytes s) @ floats_to_bytes vs \<and> length (fl_bytes f) < FILE_MAX"
proof -
  obtain f1 where f1: "s1 = s\<lparr>pf_segment := (pf_segment s)\<lparr>sg_mmap := None, sg_mapped_records := 0, sg_file := f1\<rparr>\<rparr>"
    "fl_bytes f1 = take HEADER_LEN (pf_bytes s)"
    using on_segment_truncate [OF assms(1)] resize_take [OF assms(4)] by auto
  have "pf_bytes s2 = pf_bytes s1 @ floats_to_bytes vs" "length (pf_bytes s2) < FILE_MAX"
    "\<exists>f. s2 = s1\<lparr>pf_segment := (pf_segment s1)\<lparr>sg_file := f\<rparr>\<rparr>"
    using on_segment_append_faulty [OF assms(2)] by blast+
  moreover obtain f3 where "s3 = s2\<lparr>pf_segment := (pf_segment s2)\<lparr>sg_file := f3, sg_mmap := Some (length (pf_bytes s2)),
      sg_mapped_records := n\<rparr>\<rparr>" "fl_bytes f3 = pf_bytes s2"
    using on_segment_remap [OF assms(3)] by auto
  ultimately show ?thesis by (intro exI [of _ f3]) (auto simp: f1)
qed

lemma Pf_compact_steps:
  assumes "Pf_compact R s = (Inr u, s')" "HEADER_LEN \<le> length (pf_bytes s)"
  obtains recs f c where
    "res_bind (Catalog_live_slots R (pf_catalog s)) (\<lambda>live. traverse (\<lambda>(i, slot).
      map_res (Pair i) (Pf_values_at_storage s slot (sg_mapped_records (pf_segment s)))) (sort_key snd live)) = Inr recs"
    "Catalog_replace_slots R (slots_from 0 recs) (length recs) (pf_catalog s) = (Inr (), c)"
    "s' = s\<lparr>pf_segment := (pf_segment s)\<lparr>sg_file := f, sg_mmap := Some (length (fl_bytes f)), sg_mapped_records := length recs\<rparr>,
      pf_catalog := c, pf_record_count := length recs, pf_tail := [], pf_live_count := length recs\<rparr>"
    "fl_bytes f = take HEADER_LEN (pf_bytes s) @ floats_to_bytes (concat (map snd recs))" "length (fl_bytes f) < FILE_MAX"
proof -
  obtain recs where recs: "res_bind (Catalog_live_slots R (pf_catalog s)) (\<lambda>live. traverse (\<lambda>(i, slot).
      map_res (Pair i) (Pf_values_at_storage s slot (sg_mapped_records (pf_segment s)))) (sort_key snd live)) = Inr recs"
    using assms(1) by (auto simp: Pf_compact_def Let_def simp del: res_bind_eq_Inr split: sum.splits)
  let ?slots = "slots_from 0 recs" and ?n = "length recs"
  have run: "then_do (on_segment Segment_truncate_to_empty s) (\<lambda>_ self.
              then_do (on_segment (Segment_append (concat (map snd recs))) self) (\<lambda>_ self.
              then_do (on_segment (Segment_remap ?n) self) (\<lambda>_ self.
              then_do (on_catalog (Catalog_replace_slots R ?slots ?n) self) (\<lambda>_ self.
                (Inr (), self\<lparr>pf_record_count := ?n, pf_tail := [], pf_live_count := ?n\<rparr>))))) = (Inr u, s')"
    using assms(1) unfolding Pf_compact_def Let_def recs by simp
  obtain s1 where s1: "on_segment Segment_truncate_to_empty s = (Inr (), s1)"
    using run by (cases "on_segment Segment_truncate_to_empty s") (auto simp: then_do_def split: sum.splits)
  obtain s2 where s2: "on_segment (Segment_append (concat (map snd recs))) s1 = (Inr (), s2)"
    using run by (cases "on_segment (Segment_append (concat (map snd recs))) s1") (auto simp: s1 then_do_def split: sum.splits)
  obtain s3 where s3: "on_segment (Segment_remap ?n) s2 = (Inr (), s3)"
    using run by (cases "on_segment (Segment_remap ?n) s2") (auto simp: s1 s2 then_do_def split: sum.splits)
  from rewrite_segment [OF s1 s2 s3 assms(2)] obtain f where
    f: "s3 = s\<lparr>pf_segment := (pf_segment s)\<lparr>sg_file := f, sg_mmap := Some (length (fl_bytes f)), sg_mapped_records := ?n\<rparr>\<rparr>"
      "fl_bytes f = take HEADER_LEN (pf_bytes s) @ floats_to_bytes (concat (map snd recs))" "length (fl_bytes f) < FILE_MAX"
    by blast
  obtain c where c: "Catalog_replace_slots R ?slots ?n (pf_catalog s) = (Inr (), c)"
    using run by (cases "Catalog_replace_slots R ?slots ?n (pf_catalog s)")
      (auto simp: s1 s2 s3 f(1) then_do_def on_catalog_def split: sum.splits)
  moreover have "s' = s\<lparr>pf_segment := (pf_segment s)\<lparr>sg_file := f, sg_mmap := Some (length (fl_bytes f)), sg_mapped_records := ?n\<rparr>,
      pf_catalog := c, pf_record_count := ?n, pf_tail := [], pf_live_count := ?n\<rparr>"
    using run by (simp add: s1 s2 s3 on_catalog_def f(1) c)
  ultimately show ?thesis using that recs f(2,3) by blast
qed

text \<open>A compaction that reports success has kept every vector and left a segment of live records only.\<close>

lemma Pf_compact_keeps:
  assumes "redb_ok R view" "pf_ready view s" "Pf_compact R s = (Inr u, s')"
  shows "pf_ready view s' \<and> pf_metric s' = pf_metric s \<and> pf_dimension s' = pf_dimension s \<and>
    pf_contents view s' = pf_contents view s \<and> pf_record_count s' = card (dom (pf_contents view s))"
proof -
  let ?m = "pf_metric s" and ?d = "pf_dimension s"
  have disk: "disk_ok ?m ?d (pf_record_count s) (pf_bytes s) (view (pf_catalog s))"
    using assms(2) by (simp add: pf_ready_def pf_durable_def)
  then have cat: "catalog_ok ?m ?d (pf_record_count s) (view (pf_catalog s))" and pos: "0 < Dimension_get ?d"
    and h: "HEADER_LEN \<le> length (pf_bytes s)" by (simp_all add: disk_ok_def)
  obtain recs f c where recs: "res_bind (Catalog_live_slots R (pf_catalog s)) (\<lambda>live. traverse (\<lambda>(i, slot).
      map_res (Pair i) (Pf_values_at_storage s slot (sg_mapped_records (pf_segment s)))) (sort_key snd live)) = Inr recs"
    and c: "Catalog_replace_slots R (slots_from 0 recs) (length recs) (pf_catalog s) = (Inr (), c)"
    and s': "s' = s\<lparr>pf_segment := (pf_segment s)\<lparr>sg_file := f, sg_mmap := Some (length (fl_bytes f)), sg_mapped_records := length recs\<rparr>,
      pf_catalog := c, pf_record_count := length recs, pf_tail := [], pf_live_count := length recs\<rparr>"
    and f: "fl_bytes f = take HEADER_LEN (pf_bytes s) @ floats_to_bytes (concat (map snd recs))" "length (fl_bytes f) < FILE_MAX"
    using Pf_compact_steps [OF assms(3) h] .
  note rd = compact_reads [OF assms(1,2) recs]
  let ?items = "map (\<lambda>(i, v). (i, Embedding v)) recs" and ?n = "length recs"
  have flat: "concat (map snd recs) = concat (map (\<lambda>(_, e). as_slice e) ?items)" by (simp add: comp_def split_beta)
  have dims: "\<forall>(i, e) \<in> set ?items. length (as_slice e) = Dimension_get ?d" using rd(3) by auto
  have "length (concat (map snd recs)) = ?n * Dimension_get ?d" using rd(3) by (induction recs) auto
  then have len: "length (fl_bytes f) = HEADER_LEN + ?n * (Dimension_get ?d * 4)" using h f(1) by simp
  have small: "?n < 2 ^ 64" using watermark_u64 [of ?n "Dimension_get ?d * 4"] f(2) len pos by simp
  have "\<forall>(i, slot) \<in> set (slots_from 0 recs). slot < ?n" by (auto simp: in_set_enumerate_eq)
  note rep = replace_slots_spec [OF assms(1) cat c small this, unfolded sum.case]
  have sl: "slots_from 0 ?items = slots_from 0 recs" by (rule nth_equalityI) (simp_all add: nth_enumerate_eq split_beta)
  have re: "disk_ok ?m ?d ?n (fl_bytes f) (view c) \<and> disk_contents ?d (fl_bytes f) (view c) = map_of (rev ?items)"
    using disk_rebuild [OF disk dims, of "view c"] rep f(2) len unfolding sl length_map f(1) flat by simp
  have di: "distinct (map fst ?items)" using rd(1) by (simp add: comp_def split_beta)
  then have "map_of (rev ?items) = map_of ?items" by (subst map_of_inject_set) (simp_all add: rev_map [symmetric])
  then have cont: "pf_contents view s' = pf_contents view s" using re rd(2) by (simp add: store_contents_pf_dir s')
  have card: "?n = card (dom (pf_contents view s))"
    using hm_length [of ?items] di unfolding hm_ok_def rd(2) by simp
  have "pf_durable view s'" using re len assms(2) by (simp add: pf_durable_def pf_ready_def s')
  then have "pf_ready view s'"
    by (rule pf_readyI) (use card cont pf_contents_dom [of view s'] in \<open>simp_all add: s'\<close>)
  then show ?thesis using cont card by (simp add: s')
qed

lemma sys_write_cases:
  assumes "sys_call (\<lambda>n _. take n data) (\<lambda>_. data) f = (r, f')"
  shows "r = Inr () \<Longrightarrow> fl_bytes f' = data"
  using assms by (auto simp: sys_call_def split: list.splits option.splits fault.splits)

text \<open>A snapshot that reports success is a store with the same vectors.\<close>

lemma Pf_snapshot_store:
  assumes "redb_ok R view" "pf_ready view s" "Pf_snapshot R fs s = (Inr u, dest)"
  shows "store_ok view (pf_metric s) (pf_dimension s) dest \<and>
    store_contents view (pf_dimension s) dest = pf_contents view s"
proof -
  let ?m = "pf_metric s" and ?d = "pf_dimension s" and ?n = "pf_record_count s"
  let ?k = "HEADER_LEN + ?n * (Dimension_get ?d * 4)"
  have le: "\<not> u32_max < Dimension_get ?d" by (rule leD) simp
  have disk: "disk_ok ?m ?d ?n (pf_bytes s) (view (pf_catalog s))" and exact: "length (pf_bytes s) = ?k"
    using assms(2) by (simp_all add: pf_ready_def pf_durable_def)
  then have n: "?n < 2 ^ 64" and fit: "u64_of ?k = ?k" by (simp_all add: disk_ok_def catalog_ok_def)
  obtain rc db where c: "Catalog_create R None \<lparr>mf_format_version = FORMAT_VERSION, mf_dimension = word_of_nat (Dimension_get ?d),
      mf_metric = ?m, mf_record_count = word_of_nat ?n\<rparr> = (rc, db)" by fastforce
  obtain c0 where c0: "rc = Inr c0" using assms(3) c by (cases rc) (auto simp: Pf_snapshot_def Let_def le)
  note cat0 = Catalog_create_spec [OF assms(1) n c, unfolded c0 sum.case]
  obtain live where live: "Catalog_live_slots R (pf_catalog s) = Inr live"
    using assms(3) c c0 by (cases "Catalog_live_slots R (pf_catalog s)") (auto simp: Pf_snapshot_def Let_def le)
  then have l: "distinct (map fst live)" "map_of live = slot_map (view (pf_catalog s))"
    "\<forall>(i, slot) \<in> set live. slot < ?n" using live_slots_ready [OF assms(1,2)] by simp_all
  obtain r1 c1 where c1: "Catalog_replace_slots R live ?n c0 = (r1, c1)" by fastforce
  obtain u1 where u1: "r1 = Inr u1"
    using assms(3) c c0 live c1 by (cases r1) (auto simp: Pf_snapshot_def Let_def le)
  have cat: "catalog_ok ?m ?d ?n (view c1)" "slot_map (view c1) = map_of (rev live)"
    using replace_slots_spec [OF assms(1) _ c1 n l(3), of ?m ?d ?n] cat0 u1 by simp_all
  have "map_of (rev live) = slot_map (view (pf_catalog s))"
    unfolding l(2) [symmetric] using l(1) by (subst map_of_inject_set) (simp_all add: rev_map [symmetric])
  with cat have same: "slot_map (view c1) = slot_map (view (pf_catalog s))" by simp
  have dest: "dest = \<lparr>sd_segment = Some (fl_bytes f), sd_catalog = Some c1, sd_faults = fl_faults f\<rparr> \<and> fl_bytes f = pf_bytes s"
    if "sys_call (\<lambda>n _. take n (take ?k (pf_bytes s))) (\<lambda>_. take ?k (pf_bytes s)) \<lparr>fl_bytes = [], fl_faults = fs\<rparr> = (rf, f)" for rf f
    using assms(3) c c0 live c1 u1 that sys_write_cases [OF that] exact by (auto simp: Pf_snapshot_def Let_def le fit)
  obtain rf f where "sys_call (\<lambda>n _. take n (take ?k (pf_bytes s))) (\<lambda>_. take ?k (pf_bytes s))
      \<lparr>fl_bytes = [], fl_faults = fs\<rparr> = (rf, f)" by fastforce
  note dest = dest [OF this]
  have "disk_ok ?m ?d ?n (pf_bytes s) (view c1)" using disk cat(1) by (simp add: disk_ok_def)
  moreover have "disk_contents ?d (pf_bytes s) (view c1) = pf_contents view s"
    by (simp add: disk_contents_def same store_contents_pf_dir fun_eq_iff)
  ultimately show ?thesis using dest by (auto simp: store_ok_def store_contents_def)
qed

section \<open>The store as a state machine\<close>

datatype store_op =
    S_insert VectorId Embedding
  | S_insert_batch "(VectorId \<times> Embedding) list"
  | S_remove VectorId
  | S_checkpoint
  | S_compact

fun store_step :: "'d Redb \<Rightarrow> store_op \<Rightarrow> 'd PersistentFlatIndex \<Rightarrow> (IndexError + unit) \<times> 'd PersistentFlatIndex" where
  "store_step R (S_insert i e) s = Pf_insert R i e s"
| "store_step R (S_insert_batch items) s = Pf_insert_batch R items s"
| "store_step R (S_remove i) s = (case Pf_remove R i s of (r, s') \<Rightarrow> (map_res (\<lambda>_. ()) r, s'))"
| "store_step R S_checkpoint s = Pf_checkpoint s"
| "store_step R S_compact s = Pf_compact R s"

fun store_spec :: "store_op \<Rightarrow> (VectorId \<rightharpoonup> Embedding) \<Rightarrow> (VectorId \<rightharpoonup> Embedding)" where
  "store_spec (S_insert i e) st = st(i \<mapsto> e)"
| "store_spec (S_insert_batch items) st = st ++ map_of items"
| "store_spec (S_remove i) st = st(i := None)"
| "store_spec S_checkpoint st = st"
| "store_spec S_compact st = st"

text \<open>
  A process that is restarted tries to open the directory until it succeeds; the faults each attempt
  meets are arbitrary.
\<close>

inductive opens :: "'d Redb \<Rightarrow> Metric \<Rightarrow> Dimension \<Rightarrow> 'd Store_dir \<Rightarrow> 'd PersistentFlatIndex \<Rightarrow> bool"
  for R m d where
  opens_now: "Pf_open R m d (dir\<lparr>sd_faults := fs\<rparr>) = (Inr s, dir') \<Longrightarrow> opens R m d dir s"
| opens_later: "Pf_open R m d (dir\<lparr>sd_faults := fs\<rparr>) = (Inl e, dir') \<Longrightarrow> opens R m d dir' s \<Longrightarrow> opens R m d dir s"

text \<open>
  \<open>reach R m d st s\<close>: the running index \<open>s\<close> has acknowledged the vectors \<open>st\<close>. A call that is refused (a vector of
  another dimension, an id that is taken) leaves the index running. A call that fails for any other reason, a fault of
  the disk or of the database, is followed by a restart, and so is a crash inside a call, which is a call whose
  remaining system calls fail. The faults ahead may change at any time.
\<close>

inductive reach :: "'d Redb \<Rightarrow> Metric \<Rightarrow> Dimension \<Rightarrow> (VectorId \<rightharpoonup> Embedding) \<Rightarrow> 'd PersistentFlatIndex \<Rightarrow> bool"
  for R m d where
  first: "Pf_open R m d \<lparr>sd_segment = None, sd_catalog = None, sd_faults = fs\<rparr> = (Inr s, dir) \<Longrightarrow> reach R m d Map.empty s"
| acknowledged: "reach R m d st s \<Longrightarrow> store_step R op s = (Inr u, s') \<Longrightarrow> reach R m d (store_spec op st) s'"
| refused: "reach R m d st s \<Longrightarrow> store_step R op s = (Inl e, s') \<Longrightarrow> e \<notin> range Backend \<Longrightarrow> reach R m d st s'"
| crashed: "reach R m d st s \<Longrightarrow> store_step R op s = (r, s1) \<Longrightarrow> op \<noteq> S_compact \<Longrightarrow> opens R m d (pf_dir s1) s' \<Longrightarrow>
    reach R m d (case r of Inl _ \<Rightarrow> st | Inr _ \<Rightarrow> store_spec op st) s'"
| weather: "reach R m d st s \<Longrightarrow>
    reach R m d st (s\<lparr>pf_segment := (pf_segment s)\<lparr>sg_file := (sg_file (pf_segment s))\<lparr>fl_faults := fs\<rparr>\<rparr>\<rparr>)"

inductive_cases opens_cases: "opens R m d dir s"

text \<open>Faults are reported as \<open>Backend\<close>, so any other error is a refusal; and a refusal changes nothing.\<close>

definition io_error :: "StorageError \<Rightarrow> bool" where
  "io_error e \<longleftrightarrow> IndexError_from e \<in> range Backend"

definition fails_with :: "('e \<Rightarrow> bool) \<Rightarrow> ('e + 'a) \<Rightarrow> bool" where
  "fails_with P r \<longleftrightarrow> (\<forall>e. r = Inl e \<longrightarrow> P e)"

lemma io_error_simps [simp]:
  "io_error (St_Io m)" "io_error (St_Catalog m)" "io_error (St_Corruption m)" "io_error (St_FormatMismatch m)"
  by (simp_all add: io_error_def)

lemma fails_with_simps [simp]:
  "fails_with P (Inr x)" "fails_with P (Inl e) \<longleftrightarrow> P e" "fails_with P (map_res f r) \<longleftrightarrow> fails_with P r"
  "fails_with P (ok_or e opt) \<longleftrightarrow> (opt = None \<longrightarrow> P e)" "fails_with P (map_err g s) \<longleftrightarrow> fails_with (\<lambda>e. P (g e)) s"
  by (cases r; auto simp: fails_with_def ok_or_def split: option.splits)+

lemma fails_with_always [simp]: "(\<And>e. P e) \<Longrightarrow> fails_with P r"
  by (simp add: fails_with_def)

lemma fails_with_bind: "fails_with P r \<Longrightarrow> (\<And>x. fails_with P (f x)) \<Longrightarrow> fails_with P (res_bind r f)"
  by (cases r) simp_all

lemma fails_with_then_do:
  "fails_with P (fst r) \<Longrightarrow> (\<And>x s. fails_with P (fst (f x s))) \<Longrightarrow> fails_with P (fst (then_do r f))"
  by (cases r; cases "fst r") auto

lemma fails_with_traverse: "(\<And>x. fails_with P (f x)) \<Longrightarrow> fails_with P (traverse f xs)"
  by (induction xs) (auto simp: fails_with_def split: sum.splits)

lemma file_calls_io:
  "fails_with io_error (fst (sys_call a b f))" "fails_with io_error (fst (sys_only f))"
  "fails_with io_error (fst (set_len n f))" "fails_with io_error (fst (write_all_end bs f))"
  by (auto simp: sys_only_def set_len_def write_all_end_def sys_call_def split: list.split option.split fault.split)

lemma on_file_io: "fails_with io_error (fst (op (sg_file g))) \<Longrightarrow> fails_with io_error (fst (on_file op g))"
  by (auto simp: on_file_def split: prod.split)

lemma segment_calls_io:
  "fails_with io_error (fst (Segment_append vs g))" "fails_with io_error (fst (Segment_remap n g))"
  "fails_with io_error (fst (Segment_truncate_to_empty g))"
  by (auto simp: Segment_append_def Segment_remap_def Segment_truncate_to_empty_def Let_def
      intro!: fails_with_then_do on_file_io file_calls_io)

lemma catalog_reads_io:
  "fails_with io_error (begin_read R c)" "fails_with io_error (open_table R ts t)"
  "fails_with io_error (manifest_row table)" "fails_with io_error (Manifest_to_bytes mf)"
proof -
  show "fails_with io_error (begin_read R c)" "fails_with io_error (open_table R ts t)"
    by (simp_all add: begin_read_def open_table_def)
  show "fails_with io_error (manifest_row table)"
    unfolding manifest_row_def Manifest_from_bytes_def read_u32_def read_u64_def metric_from_u8_def
    by (auto intro!: fails_with_bind)
  show "fails_with io_error (Manifest_to_bytes mf)"
    by (cases "mf_metric mf") (simp_all add: Manifest_to_bytes_def)
qed

lemma catalog_calls_io:
  "fails_with io_error (fst (write_slots R ws n c))" "fails_with io_error (fst (Catalog_remove_slot R i c))"
  "fails_with io_error (Catalog_live_slots R c)"
proof -
  have commit: "fails_with io_error (fst (commit R ws c))" for ws
    by (simp add: commit_def split: prod.split)
  have read: "fails_with io_error (res_bind (begin_read R c) f)" if "\<And>ts. fails_with io_error (f ts)" for f :: "_ \<Rightarrow> _ + 'x"
    using that by (intro fails_with_bind catalog_reads_io)
  have row: "fails_with io_error (res_bind (begin_read R c) (\<lambda>ts. res_bind (manifest_row (table_of ts MANIFEST)) (\<lambda>m.
      Manifest_to_bytes (m\<lparr>mf_record_count := word_of_nat n\<rparr>))))"
    by (intro fails_with_bind catalog_reads_io)
  show "fails_with io_error (fst (write_slots R ws n c))"
    using row commit by (auto simp: write_slots_def fails_with_def split: sum.splits)
  show "fails_with io_error (fst (Catalog_remove_slot R i c))"
    using catalog_reads_io(1) [of R c] commit
    by (auto simp: Catalog_remove_slot_def Let_def split: sum.splits prod.splits) (metis fails_with_simps(3) fst_conv)
  show "fails_with io_error (Catalog_live_slots R c)"
    unfolding Catalog_live_slots_def
    by (intro fails_with_bind catalog_reads_io fails_with_traverse) (simp add: slot_entry_def)
qed

lemma index_calls_io:
  "fails_with io_error (fst (op (pf_segment s))) \<Longrightarrow> fails_with (\<lambda>e. e \<in> range Backend) (fst (on_segment op s))"
  "fails_with io_error (fst (op' (pf_catalog s))) \<Longrightarrow> fails_with (\<lambda>e. e \<in> range Backend) (fst (on_catalog op' s))"
  by (auto simp: on_segment_def on_catalog_def io_error_def fails_with_def split: prod.splits)

lemma refusal_keeps:
  assumes "store_step R op s = (Inl e, s')" "e \<notin> range Backend"
  shows "s' = s"
proof -
  let ?io = "\<lambda>r. fails_with (\<lambda>e. e \<in> range Backend) (fst r)"
  note calls = fails_with_then_do index_calls_io segment_calls_io catalog_calls_io
  have bad: False if "?io (store_step R op s)" using that assms by (simp add: fails_with_def)
  show ?thesis
  proof (cases op)
    case (S_insert i v)
    have "?io (append_commit R [(i, v)] s)" unfolding append_commit_def Catalog_insert_slots_def by (intro calls)
    then show ?thesis using assms S_insert
      by (cases "append_commit R [(i, v)] s")
        (auto simp: Pf_insert_append_commit fails_with_def then_do_def split: if_splits sum.splits bool.splits)
  next
    case (S_insert_batch items)
    have "?io (append_commit R items s)" unfolding append_commit_def Catalog_insert_slots_def by (intro calls)
    then show ?thesis using assms S_insert_batch
      by (cases "append_commit R items s")
        (auto simp: Pf_insert_batch_append_commit fails_with_def then_do_def split: if_splits sum.splits)
  next
    case (S_remove i)
    have "?io (Pf_remove R i s)" unfolding Pf_remove_def by (intro calls) simp
    then have "?io (store_step R op s)" by (auto simp: S_remove split: prod.split)
    then show ?thesis using bad by blast
  next
    case S_checkpoint
    have "?io (Pf_checkpoint s)" unfolding Pf_checkpoint_def by (intro calls) simp
    then show ?thesis using bad S_checkpoint by simp
  next
    case S_compact
    have "fails_with io_error (Pf_values_at_storage s slot mapped)" for slot mapped
      by (simp add: Pf_values_at_storage_def)
    then have "fails_with io_error (res_bind (Catalog_live_slots R (pf_catalog s)) (\<lambda>live.
        traverse (\<lambda>(i, slot). map_res (Pair i) (Pf_values_at_storage s slot (sg_mapped_records (pf_segment s)))) (sort_key snd live)))"
      by (intro fails_with_bind fails_with_traverse catalog_calls_io) (simp split: prod.split)
    then have "?io (Pf_compact R s)" unfolding Pf_compact_def Let_def Catalog_replace_slots_def
      by (auto simp: io_error_def split: sum.split intro!: calls)
    then show ?thesis using bad S_compact by simp
  qed
qed

lemma insert_acknowledged:
  assumes "redb_ok R view" "pf_ready view s" "Pf_insert R i e s = (Inr u, s')"
  shows "pf_ready view s' \<and> pf_metric s' = pf_metric s \<and> pf_dimension s' = pf_dimension s \<and>
    pf_contents view s' = (pf_contents view s)(i \<mapsto> e)"
proof -
  have pos: "0 < Dimension_get (pf_dimension s)" using assms(2) by (simp add: pf_ready_def pf_durable_def disk_ok_def)
  from assms(3) have dim: "Embedding_dimension e = pf_dimension s" and free: "Catalog_contains R i (pf_catalog s) = Inr False"
    by (auto simp: Pf_insert_append_commit split: if_splits sum.splits bool.splits)
  obtain r1 s1 where s1: "append_commit R [(i, e)] s = (r1, s1)" by fastforce
  with assms(3) dim free have s1: "append_commit R [(i, e)] s = (Inr (), s1)" and
    s': "s' = s1\<lparr>pf_record_count := pf_record_count s + length [(i, e)],
      pf_live_count := pf_live_count s1 + length [(i, e)], pf_tail := pf_tail s1 @ [(i, e)]\<rparr>"
    by (cases r1; simp add: Pf_insert_append_commit)+
  have "\<forall>(i, e) \<in> set [(i, e)]. length (as_slice e) = Dimension_get (pf_dimension s)"
    using Embedding_dimension_length [OF dim pos] by simp
  from append_commit_ready [OF assms(1,2) this _ _ s1 s'] contains_spec [OF assms(1) free]
  show ?thesis by simp
qed

lemma insert_batch_acknowledged:
  assumes "redb_ok R view" "pf_ready view s" "Pf_insert_batch R items s = (Inr u, s')"
  shows "pf_ready view s' \<and> pf_metric s' = pf_metric s \<and> pf_dimension s' = pf_dimension s \<and>
    pf_contents view s' = pf_contents view s ++ map_of items"
proof (cases "items = []")
  case False
  have pos: "0 < Dimension_get (pf_dimension s)" using assms(2) by (simp add: pf_ready_def pf_durable_def disk_ok_def)
  from assms(3) False obtain v where val: "validate_items R (pf_catalog s) (pf_dimension s) {} items = Inr v"
    by (auto simp: Pf_insert_batch_append_commit split: sum.splits)
  obtain r1 s1 where s1: "append_commit R items s = (r1, s1)" by fastforce
  with assms(3) False val have s1: "append_commit R items s = (Inr (), s1)" and
    s': "s' = s1\<lparr>pf_record_count := pf_record_count s + length items,
      pf_live_count := pf_live_count s1 + length items, pf_tail := pf_tail s1 @ items\<rparr>"
    by (cases r1; simp add: Pf_insert_batch_append_commit)+
  note v = validate_items_spec [OF assms(1) val]
  then have "\<forall>(i, e) \<in> set items. length (as_slice e) = Dimension_get (pf_dimension s)"
    using Embedding_dimension_length [OF _ pos] by (fastforce simp: list_all_iff)
  from append_commit_ready [OF assms(1,2) this _ _ s1 s'] v show ?thesis by (fastforce simp: list_all_iff)
qed (use assms in \<open>simp add: Pf_insert_batch_def\<close>)

lemma store_step_acknowledged:
  assumes "redb_ok R view" "pf_ready view s" "store_step R op s = (Inr u, s')"
  shows "pf_ready view s' \<and> pf_metric s' = pf_metric s \<and> pf_dimension s' = pf_dimension s \<and>
    pf_contents view s' = store_spec op (pf_contents view s)"
proof (cases op)
  case (S_remove i)
  then obtain b where "Pf_remove R i s = (Inr b, s')" using assms(3) by (auto split: prod.splits)
  moreover from this have "pf_ready view s'" using Pf_remove_ready [OF assms(1,2)] by simp
  moreover have "pf_durable view s" using assms(2) by (simp add: pf_ready_def)
  ultimately show ?thesis using Pf_remove_durable [OF assms(1)] S_remove by fastforce
next
  case S_checkpoint
  then show ?thesis using assms(3) Pf_checkpoint_keeps [OF assms(2), of "Inr u" s'] by simp
qed (use assms(3) insert_acknowledged [OF assms(1,2)] insert_batch_acknowledged [OF assms(1,2)]
    Pf_compact_keeps [OF assms(1,2)] in simp_all)

lemma store_step_durable:
  assumes "redb_ok R view" "pf_ready view s" "store_step R op s = (r, s1)" "op \<noteq> S_compact"
  shows "store_ok view (pf_metric s) (pf_dimension s) (pf_dir s1) \<and>
    store_contents view (pf_dimension s) (pf_dir s1) =
      (case r of Inl _ \<Rightarrow> pf_contents view s | Inr _ \<Rightarrow> store_spec op (pf_contents view s))"
proof -
  have dur: "pf_durable view s" using assms(2) by (simp add: pf_ready_def)
  show ?thesis
  proof (cases op)
    case (S_remove i)
    then obtain r0 where r0: "Pf_remove R i s = (r0, s1)" "r = map_res (\<lambda>_. ()) r0" using assms(3) by (auto split: prod.splits)
    note d = Pf_remove_durable [OF assms(1) dur r0(1)]
    then have "store_ok view (pf_metric s) (pf_dimension s) (pf_dir s1)" using durable_store_ok [of view s1] by simp
    moreover have "store_contents view (pf_dimension s) (pf_dir s1) = pf_contents view s1" using d by (simp add: pf_contents_def)
    ultimately show ?thesis using d r0(2) S_remove by (cases r0) simp_all
  next
    case S_checkpoint
    then have "Pf_checkpoint s = (r, s1)" using assms(3) by simp
    from Pf_checkpoint_keeps [OF assms(2) this] show ?thesis
      using durable_store_ok [OF dur] S_checkpoint by (simp add: pf_contents_def split: sum.split)
  next
    case (S_insert i e)
    then show ?thesis using Pf_insert_durable [OF assms(1) dur, of i e r s1] assms(3) by (simp split: sum.split)
  next
    case (S_insert_batch items)
    then show ?thesis using Pf_insert_batch_durable [OF assms(1) dur, of items r s1] assms(3) by (simp split: sum.split)
  qed (use assms(4) in simp)
qed

lemma opens_store:
  assumes "opens R m d dir s" "redb_ok R view" "store_ok view m d dir"
  shows "pf_ready view s \<and> pf_metric s = m \<and> pf_dimension s = d \<and> pf_contents view s = store_contents view d dir"
  using assms(1,3)
proof (induction rule: opens.induct)
  case (opens_now fs dir s dir')
  have "store_ok view m d (dir\<lparr>sd_faults := fs\<rparr>)" using opens_now(2) by (simp add: store_ok_def)
  from Pf_open_store [OF assms(2) this opens_now(1)] show ?case by (simp add: store_contents_def)
next
  case (opens_later fs dir e dir' s)
  have "store_ok view m d (dir\<lparr>sd_faults := fs\<rparr>)" using opens_later(4) by (simp add: store_ok_def)
  from Pf_open_store [OF assms(2) this opens_later(1)] opens_later(3) show ?case by (simp add: store_contents_def)
qed

lemma pf_ready_weather:
  "pf_ready view s \<Longrightarrow> pf_ready view (s\<lparr>pf_segment := (pf_segment s)\<lparr>sg_file := (sg_file (pf_segment s))\<lparr>fl_faults := fs\<rparr>\<rparr>\<rparr>)"
  by (simp add: pf_ready_def pf_durable_def Let_def)

lemma reach_contents:
  assumes "reach R m d st s" "redb_ok R view" "0 < Dimension_get d"
  shows "pf_ready view s \<and> pf_metric s = m \<and> pf_dimension s = d \<and> pf_contents view s = st"
  using assms(1)
proof (induction rule: reach.induct)
  case (first fs s dir)
  then show ?case using Pf_open_fresh [OF assms(2,3)] by blast
next
  case (acknowledged st s op u s')
  then show ?case using store_step_acknowledged [OF assms(2), of s op u s'] by simp
next
  case (refused st s op e s')
  then show ?case using refusal_keeps [OF refused(2,3)] by simp
next
  case (crashed st s op r s1 s')
  then show ?case using opens_store [OF crashed(4) assms(2)] store_step_durable [OF assms(2) _ crashed(2,3)]
    by (simp split: sum.split)
next
  case (weather st s fs)
  then show ?case using pf_ready_weather [of view s fs] by (auto simp: store_contents_pf_dir)
qed

lemma create_total:
  assumes "redb_ok R view" "redb_total R"
  shows "\<exists>c. Catalog_create R None \<lparr>mf_format_version = FORMAT_VERSION, mf_dimension = word_of_nat (Dimension_get d),
      mf_metric = m, mf_record_count = word_of_nat n\<rparr> = (Inr c, Some c)"
proof -
  obtain bs where "Manifest_to_bytes \<lparr>mf_format_version = FORMAT_VERSION, mf_dimension = word_of_nat (Dimension_get d),
      mf_metric = m, mf_record_count = word_of_nat n\<rparr> = Inr bs" using Manifest_roundtrip by blast
  moreover obtain c0 where "rd_create R None = Inr c0" using assms(2) unfolding redb_total_def by blast
  moreover obtain c where "commit R [W_open MANIFEST, W_insert MANIFEST MANIFEST_KEY bs, W_open SLOTS] c0 = (Inr (), c)"
    using commit_total [OF assms(2)] by (metis prod.collapse)
  ultimately show ?thesis by (simp add: Catalog_create_def)
qed

lemma Pf_open_fresh_total:
  assumes "redb_ok R view" "redb_total R"
  shows "\<exists>s dir. Pf_open R m d \<lparr>sd_segment = None, sd_catalog = None, sd_faults = []\<rparr> = (Inr s, dir)"
proof -
  have le: "\<not> u32_max < Dimension_get d" by (rule leD) simp
  obtain b where "Segment_create m (Dimension_get d) [] None =
      (Inr \<lparr>sg_file = \<lparr>fl_bytes = header_bytes b (word_of_nat (Dimension_get d)), fl_faults = []\<rparr>,
            sg_dimension = Dimension_get d, sg_mmap = Some HEADER_LEN, sg_mapped_records = 0\<rparr>,
       (Some (header_bytes b (word_of_nat (Dimension_get d))), []))"
    using Segment_create_clean [OF Dimension_get_le] by blast
  then show ?thesis using create_total [OF assms, of d m 0] by (auto simp: Pf_open_def Let_def le)
qed

lemma Catalog_open_total:
  assumes "redb_ok R view" "redb_total R" "catalog_ok m d n (view c)"
  shows "\<exists>c'. Catalog_open R c = Inr (c', \<lparr>mf_format_version = FORMAT_VERSION,
      mf_dimension = word_of_nat (Dimension_get d), mf_metric = m, mf_record_count = word_of_nat n\<rparr>) \<and> view c' = view c"
proof -
  obtain c' where c': "rd_open R c = Inr c'" using assms(2) unfolding redb_total_def by blast
  then have v: "view c' = view c" using assms(1) by (auto simp: redb_ok_def)
  have rd: "begin_read R c' = Inr (view c)" using begin_read_total [OF assms(1,2), of c'] v by simp
  obtain p where "Catalog_open R c = Inr p"
    using assms(3) by (auto simp: Catalog_open_def c' Catalog_read_manifest_def rd open_table_def catalog_ok_def manifest_row_def)
  with Catalog_open_spec [OF assms(1,3)] show ?thesis by (auto split: prod.splits)
qed

lemma Pf_open_store_total:
  assumes "redb_ok R view" "redb_total R" "store_ok view m d dir" "sd_faults dir = []"
  shows "\<exists>s dir'. Pf_open R m d dir = (Inr s, dir')"
proof -
  obtain bytes c n where dir: "sd_segment dir = Some bytes" "sd_catalog dir = Some c" and disk: "disk_ok m d n bytes (view c)"
    using assms(3) by (auto simp: store_ok_def)
  have cat: "catalog_ok m d n (view c)" and n: "n < 2 ^ 64" using disk by (simp_all add: disk_ok_def catalog_ok_def)
  obtain c2 where c2: "Catalog_open R c = Inr (c2, \<lparr>mf_format_version = FORMAT_VERSION,
        mf_dimension = word_of_nat (Dimension_get d), mf_metric = m, mf_record_count = word_of_nat n\<rparr>)" "view c2 = view c"
    using Catalog_open_total [OF assms(1,2) cat] by blast
  obtain rs path fs where seg: "Segment_open m (Dimension_get d) n (sd_faults dir) (sd_segment dir) = (rs, (path, fs))"
    by (metis prod.collapse)
  obtain g where "rs = Inr g" using Segment_open_store [OF disk seg [unfolded dir(1)]] assms(4) by auto
  moreover obtain k where "Catalog_live_count R c2 = Inr k"
    using begin_read_total [OF assms(1,2), of c2] cat c2(2) by (auto simp: Catalog_live_count_def open_table_def catalog_ok_def)
  ultimately show ?thesis using Pf_open_existing [OF dir(2) n c2(1) seg] by simp
qed

lemma live_slots_Inr:
  assumes "pf_ok R view s"
  shows "\<exists>live. Catalog_live_slots R (pf_catalog s) = Inr live"
proof -
  have cat: "catalog_ok (pf_metric s) (pf_dimension s) (pf_record_count s) (view (pf_catalog s))"
    using pf_ok_catalog [OF assms] by simp
  then have so: "slots_ok (pf_record_count s) (view (pf_catalog s))" by (simp add: catalog_ok_split)
  obtain live where "open_table R (view (pf_catalog s)) SLOTS = Inr (table_of (view (pf_catalog s)) SLOTS)"
    "traverse slot_entry (table_of (view (pf_catalog s)) SLOTS) = Inr live" using live_slots_spec [OF so] .
  moreover have "begin_read R (pf_catalog s) = Inr (view (pf_catalog s))"
    using begin_read_total [of R view] assms by (simp add: pf_ok_def)
  ultimately show ?thesis by (simp add: Catalog_live_slots_def del: res_bind_eq_Inr)
qed

lemma compact_reads_total:
  assumes "pf_ok R view s"
  shows "\<exists>recs. res_bind (Catalog_live_slots R (pf_catalog s)) (\<lambda>live. traverse (\<lambda>(i, slot).
      map_res (Pair i) (Pf_values_at_storage s slot (sg_mapped_records (pf_segment s)))) (sort_key snd live)) = Inr recs"
proof -
  have ok: "redb_ok R view" "pf_ready view s" using assms by (simp_all add: pf_ok_def)
  obtain live where live: "Catalog_live_slots R (pf_catalog s) = Inr live" using live_slots_Inr [OF assms] by blast
  then have "\<forall>(i, slot) \<in> set live. slot < pf_record_count s" using live_slots_ready [OF ok] by simp
  then have "\<exists>recs. traverse (\<lambda>(i, slot).
      map_res (Pair i) (Pf_values_at_storage s slot (sg_mapped_records (pf_segment s)))) (sort_key snd live) = Inr recs"
    using Pf_record(2) [OF ok(2)] by (intro traverse_total) auto
  then show ?thesis by (simp add: live)
qed

lemma rewrite_segment_clean:
  assumes "fl_faults (sg_file (pf_segment s)) = []" "length vs = n * sg_dimension (pf_segment s)"
    and "HEADER_LEN + 4 * length vs < FILE_MAX"
  shows "\<exists>s1 s2 s3. on_segment Segment_truncate_to_empty s = (Inr (), s1) \<and> on_segment (Segment_append vs) s1 = (Inr (), s2) \<and>
    on_segment (Segment_remap n) s2 = (Inr (), s3) \<and> pf_catalog s3 = pf_catalog s"
proof -
  obtain g1 where g1: "Segment_truncate_to_empty (pf_segment s) = (Inr (), g1)" "fl_faults (sg_file g1) = []"
    "length (fl_bytes (sg_file g1)) = HEADER_LEN" "sg_dimension g1 = sg_dimension (pf_segment s)"
    using assms(1) by (simp add: Segment_truncate_to_empty_def on_file_def set_len_def sys_call_def resize_def HEADER_LEN_def FILE_MAX_def)
  obtain g2 where g2: "Segment_append vs g1 = (Inr (), g2)" "fl_faults (sg_file g2) = []"
    "length (fl_bytes (sg_file g2)) = HEADER_LEN + 4 * length vs" "sg_dimension g2 = sg_dimension (pf_segment s)"
    using Segment_append_clean [OF g1(2), of vs] assms(2,3) g1 by simp
  obtain g3 where "Segment_remap n g2 = (Inr (), g3)"
    using Segment_remap_clean [OF g2(2), of n] assms(2) g2(3,4) by simp
  then show ?thesis by (simp add: on_segment_def g1(1) g2(1))
qed

text \<open>Without faults compaction and snapshot return, as long as the live records fit a file.\<close>

lemma Pf_compact_total:
  assumes "pf_ok R view s" "HEADER_LEN + card (dom (pf_contents view s)) * (Dimension_get (pf_dimension s) * 4) < FILE_MAX"
  shows "\<exists>s'. Pf_compact R s = (Inr (), s')"
proof -
  have ok: "redb_ok R view" "redb_total R" "pf_ready view s" "fl_faults (sg_file (pf_segment s)) = []"
    using assms(1) by (simp_all add: pf_ok_def)
  have cat: "catalog_ok (pf_metric s) (pf_dimension s) (pf_record_count s) (view (pf_catalog s))"
    and dim: "sg_dimension (pf_segment s) = Dimension_get (pf_dimension s)"
    using ok(3) by (simp_all add: pf_ready_def pf_durable_def disk_ok_def)
  obtain recs where recs: "res_bind (Catalog_live_slots R (pf_catalog s)) (\<lambda>live. traverse (\<lambda>(i, slot).
      map_res (Pair i) (Pf_values_at_storage s slot (sg_mapped_records (pf_segment s)))) (sort_key snd live)) = Inr recs"
    using compact_reads_total [OF assms(1)] by blast
  note rd = compact_reads [OF ok(1,3) recs]
  have len: "length (concat (map snd recs)) = length recs * Dimension_get (pf_dimension s)" using rd(3) by (induction recs) auto
  have "hm_ok (map (\<lambda>(i, v). (i, Embedding v)) recs)" using rd(1) by (simp add: hm_ok_def comp_def split_beta)
  from hm_length [OF this] have n: "length recs = card (dom (pf_contents view s))" by (simp add: rd(2))
  have "HEADER_LEN + 4 * length (concat (map snd recs)) < FILE_MAX" using assms(2) by (simp add: len n)
  then obtain s1 s2 s3 where steps: "on_segment Segment_truncate_to_empty s = (Inr (), s1)"
    "on_segment (Segment_append (concat (map snd recs))) s1 = (Inr (), s2)"
    "on_segment (Segment_remap (length recs)) s2 = (Inr (), s3)" "pf_catalog s3 = pf_catalog s"
    using rewrite_segment_clean [OF ok(4), of "concat (map snd recs)" "length recs"] len dim by auto
  obtain c where c: "Catalog_replace_slots R (slots_from 0 recs) (length recs) (pf_catalog s) = (Inr (), c)"
    using write_slots_total [OF ok(1,2) cat] by (metis Catalog_replace_slots_def prod.collapse)
  show ?thesis unfolding Pf_compact_def Let_def recs by (simp add: steps on_catalog_def c)
qed

lemma Pf_snapshot_total:
  assumes "pf_ok R view s"
  shows "\<exists>dest. Pf_snapshot R [] s = (Inr (), dest)"
proof -
  have ok: "redb_ok R view" "redb_total R" "pf_ready view s" using assms by (simp_all add: pf_ok_def)
  have disk: "disk_ok (pf_metric s) (pf_dimension s) (pf_record_count s) (pf_bytes s) (view (pf_catalog s))"
    using ok(3) by (simp add: pf_ready_def pf_durable_def)
  then have n: "pf_record_count s < 2 ^ 64" by (simp add: disk_ok_def catalog_ok_def)
  have le: "\<not> u32_max < Dimension_get (pf_dimension s)" by (rule leD) simp
  obtain c where c: "Catalog_create R None \<lparr>mf_format_version = FORMAT_VERSION, mf_dimension = word_of_nat (Dimension_get (pf_dimension s)),
      mf_metric = pf_metric s, mf_record_count = word_of_nat (pf_record_count s)\<rparr> = (Inr c, Some c)"
    using create_total [OF ok(1,2)] by blast
  then have cat: "catalog_ok (pf_metric s) (pf_dimension s) (pf_record_count s) (view c)"
    using Catalog_create_spec [OF ok(1) n] by fastforce
  obtain live where live: "Catalog_live_slots R (pf_catalog s) = Inr live" using live_slots_Inr [OF assms] by blast
  obtain c1 where c1: "Catalog_replace_slots R live (pf_record_count s) c = (Inr (), c1)"
    using write_slots_total [OF ok(1,2) cat] by (metis Catalog_replace_slots_def prod.collapse)
  have "\<not> length (pf_bytes s) < u64_of (HEADER_LEN + pf_record_count s * (Dimension_get (pf_dimension s) * 4))"
    using disk by (simp add: disk_ok_def)
  then show ?thesis by (simp add: Pf_snapshot_def Let_def le c live c1 sys_call_def)
qed

section \<open>Properties\<close>

text \<open>
  C13. What a store acknowledged, it serves: after any sequence of insertions, batches, removals, checkpoints and
  reported compactions, in which calls may be refused, a call that fails for a fault of the disk or the database is
  followed by a restart, and the process may crash inside a call other than a compaction, the index counts exactly the
  acknowledged vectors and every search is their true top \<open>k\<close>, or the database refuses to read. (\<open>Storage_Faults\<close> shows
  what happens otherwise: a store used on after a fault may misplace vectors, a crash inside a compaction zero them.)
\<close>

theorem acknowledged_writes_survive_crashes:
  assumes "redb_ok R view" "0 < Dimension_get d" "reach R m d st s" "Embedding_dimension q = d"
  shows "pf_live_count s = card (dom st) \<and>
    (case Pf_search_filtered R q k metric adm s of
       Inl e \<Rightarrow> \<exists>msg. e = Backend (''catalog error: '' @ msg)
     | Inr ns \<Rightarrow> is_top_k k (candidates metric q adm st) ns)"
proof -
  note r = reach_contents [OF assms(3,1,2)]
  have "pf_live_count s = card (dom (pf_contents view s))" using r unfolding pf_contents_dom by (simp add: pf_ready_def)
  moreover have "case Pf_search_filtered R q k metric adm s of
       Inl e \<Rightarrow> \<exists>msg. e = Backend (''catalog error: '' @ msg)
     | Inr ns \<Rightarrow> is_top_k k (candidates metric q adm (pf_contents view s)) ns"
    using r assms(4) by (intro Pf_search_ready assms(1)) simp_all
  moreover have "pf_contents view s = st" using r by simp
  ultimately show ?thesis by (simp only:)
qed

text \<open>A concrete run: one vector inserted into a fresh store in memory.\<close>

lemma reach_one:
  "\<exists>s. reach mem_redb Cosine (Dimension 1) [VectorId 7 \<mapsto> Embedding [0]] s \<and> pf_ok mem_redb (\<lambda>t. t) s"
proof -
  have dim: "Dimension_get (Dimension 1) = 1" "Embedding_dimension (Embedding [0]) = Dimension 1"
    by (simp_all add: Dimension_get_def Embedding_dimension_def Dimension_new_def u32_max_def)
  obtain s dir where s: "Pf_open mem_redb Cosine (Dimension 1) \<lparr>sd_segment = None, sd_catalog = None, sd_faults = []\<rparr> = (Inr s, dir)"
    using Pf_open_fresh_total [OF mem_redb_ok] by blast
  have fresh: "pf_ok mem_redb (\<lambda>t. t) s" "pf_dimension s = Dimension 1" "pf_contents (\<lambda>t. t) s = Map.empty" "pf_record_count s = 0"
    using Pf_open_fresh [OF mem_redb_ok(1) _ s] dim mem_redb_ok by (simp_all add: pf_ok_def)
  obtain r s' where s': "Pf_insert mem_redb (VectorId 7) (Embedding [0]) s = (r, s')" by fastforce
  note ins = Pf_insert_ok [OF fresh(1) s']
  have "r = Inr ()" using ins fresh(2-4) dim by (auto simp: FILE_MAX_def HEADER_LEN_def)
  with s' have "store_step mem_redb (S_insert (VectorId 7) (Embedding [0])) s = (Inr (), s')" by simp
  from reach.acknowledged [OF reach.first [OF s] this] ins show ?thesis by auto
qed

lemma acknowledged_writes_survive_crashes_witness:
  "\<exists>s. reach mem_redb Cosine (Dimension 1) [VectorId 7 \<mapsto> Embedding [0]] s \<and> pf_live_count s = 1"
proof -
  have "0 < Dimension_get (Dimension 1)" "Embedding_dimension (Embedding [0]) = Dimension 1"
    by (simp_all add: Dimension_get_def Embedding_dimension_def Dimension_new_def u32_max_def)
  then show ?thesis
    using reach_one acknowledged_writes_survive_crashes [OF mem_redb_ok(1), of "Dimension 1" Cosine "[VectorId 7 \<mapsto> Embedding [0]]"]
    by fastforce
qed

text \<open>
  C15. Recovery returns. With a database that does not refuse, whatever fault interrupts an operation other than
  compaction, the next opening succeeds and shows the old vectors if the operation failed, the new ones if it did not.
\<close>

theorem restart_recovers:
  assumes "redb_ok R view" "redb_total R" "0 < Dimension_get d" "reach R m d st s"
    and "store_step R op s = (r, s1)" "op \<noteq> S_compact"
  shows "\<exists>s2 dir. Pf_open R m d (pf_dir s1) = (Inr s2, dir) \<and> pf_ready view s2 \<and>
    pf_contents view s2 = (case r of Inl _ \<Rightarrow> st | Inr _ \<Rightarrow> store_spec op st)"
proof -
  note r = reach_contents [OF assms(4,1,3)]
  have rd: "pf_ready view s" using r by simp
  note d = store_step_durable [OF assms(1) rd assms(5,6)]
  then have ok: "store_ok view m d (pf_dir s1)" using r by simp
  obtain s2 dir where s2: "Pf_open R m d (pf_dir s1) = (Inr s2, dir)"
    using Pf_open_store_total [OF assms(1,2) ok] by auto
  from Pf_open_store [OF assms(1) ok s2] d r s2 show ?thesis by (auto split: sum.split)
qed

lemma restart_recovers_witness:
  "\<exists>s r s1 s2 dir. store_step mem_redb (S_insert_batch [(VectorId 8, Embedding [1])]) s = (r, s1) \<and>
     Pf_open mem_redb Cosine (Dimension 1) (pf_dir s1) = (Inr s2, dir)"
proof -
  obtain s where s: "reach mem_redb Cosine (Dimension 1) [VectorId 7 \<mapsto> Embedding [0]] s" using reach_one by blast
  obtain r s1 where step: "store_step mem_redb (S_insert_batch [(VectorId 8, Embedding [1])]) s = (r, s1)" by fastforce
  have "0 < Dimension_get (Dimension 1)" by (simp add: Dimension_get_def)
  from restart_recovers [OF mem_redb_ok this s step] step show ?thesis by blast
qed

lemma apply_op_room:
  assumes "pf_ok R view t" "HEADER_LEN + (pf_record_count t + 1) * (Dimension_get (pf_dimension t) * 4) < FILE_MAX"
  shows "pf_ok R view (apply_op (Pf_index R) a t) \<and> pf_dimension (apply_op (Pf_index R) a t) = pf_dimension t \<and>
    pf_record_count (apply_op (Pf_index R) a t) \<le> pf_record_count t + 1 \<and>
    pf_contents view (apply_op (Pf_index R) a t) = spec_op (pf_dimension t) a (pf_contents view t)"
proof (cases a)
  case (Op_insert i e)
  obtain r t' where t': "Pf_insert R i e t = (r, t')" by fastforce
  from Pf_insert_ok [OF assms(1) t'] assms(2) show ?thesis
    by (cases r) (auto simp: Op_insert Pf_index_def t' split: if_splits)
next
  case (Op_remove i)
  obtain r t' where t': "Pf_remove R i t = (r, t')" by fastforce
  from Pf_remove_ok [OF assms(1) t'] show ?thesis by (simp add: Op_remove Pf_index_def t')
qed

lemma run_ops_room:
  assumes "pf_ok R view t" "HEADER_LEN + (pf_record_count t + length ops) * (Dimension_get (pf_dimension t) * 4) < FILE_MAX"
  shows "pf_ok R view (run_ops (Pf_index R) ops t) \<and> pf_dimension (run_ops (Pf_index R) ops t) = pf_dimension t \<and>
    pf_contents view (run_ops (Pf_index R) ops t) = fold (spec_op (pf_dimension t)) ops (pf_contents view t)"
  using assms
proof (induction ops arbitrary: t)
  case (Cons a ops)
  let ?k = "Dimension_get (pf_dimension t) * 4" and ?t = "apply_op (Pf_index R) a t"
  have "(pf_record_count t + 1) * ?k \<le> (pf_record_count t + length (a # ops)) * ?k" by (intro mult_le_mono1) simp
  then have "HEADER_LEN + (pf_record_count t + 1) * ?k < FILE_MAX" using Cons.prems(2) by linarith
  note a = apply_op_room [OF Cons.prems(1) this, of a]
  then have "(pf_record_count ?t + length ops) * ?k \<le> (pf_record_count t + length (a # ops)) * ?k" by (intro mult_le_mono1) simp
  then have "HEADER_LEN + (pf_record_count ?t + length ops) * (Dimension_get (pf_dimension ?t) * 4) < FILE_MAX"
    using Cons.prems(2) a by simp
  with a Cons.IH [of ?t] show ?case by (simp add: run_ops_def)
qed (simp add: run_ops_def)

text \<open>
  C14. The persistent index is the flat index. From an empty store, any sequence of insertions and removals that fits a
  file leaves the persistent index with the size of the in-memory exact index and the same answer to every query.
\<close>

theorem persistent_flat_equals_oracle:
  assumes "redb_ok R view" "redb_total R" "0 < Dimension_get d"
    and "HEADER_LEN + length ops * (Dimension_get d * 4) < FILE_MAX"
  shows "\<exists>s dir. Pf_open R m d \<lparr>sd_segment = None, sd_catalog = None, sd_faults = []\<rparr> = (Inr s, dir) \<and>
    vi_len (Pf_index R) (run_ops (Pf_index R) ops s) = vi_len FlatIndex_index (flat_run m d ops) \<and>
    (\<forall>q k metric adm. vi_search_filtered (Pf_index R) q k metric adm (run_ops (Pf_index R) ops s) =
       FlatIndex_search_filtered q k metric adm (flat_run m d ops))"
proof -
  obtain s dir where s: "Pf_open R m d \<lparr>sd_segment = None, sd_catalog = None, sd_faults = []\<rparr> = (Inr s, dir)"
    using Pf_open_fresh_total [OF assms(1,2)] by blast
  have fresh: "pf_ok R view s" "pf_dimension s = d" "pf_contents view s = Map.empty" "pf_record_count s = 0"
    using Pf_open_fresh [OF assms(1,3) s] assms(1,2) by (simp_all add: pf_ok_def)
  let ?p = "run_ops (Pf_index R) ops s" and ?f = "flat_run m d ops"
  have run: "pf_ok R view ?p" "pf_dimension ?p = d" "pf_contents view ?p = flat_contents ?f"
    using run_ops_room [OF fresh(1), of ops] fresh(2-4) assms(4) flat_run_ok(3) [of m d ops] by (simp_all add: spec_run_def)
  have "vi_len (Pf_index R) ?p = vi_len FlatIndex_index ?f"
    using pf.len_contents [OF run(1)] flat.len_contents [OF flat_run_ok(1)] run(3) by simp
  moreover have "Pf_search_filtered R q k metric adm ?p = FlatIndex_search_filtered q k metric adm ?f" for q k metric adm
  proof (cases "Embedding_dimension q = d")
    case True
    then obtain ns where ns: "Pf_search_filtered R q k metric adm ?p = Inr ns" using Pf_search_ok [OF run(1)] run(2) by metis
    moreover obtain fs where fs: "FlatIndex_search_filtered q k metric adm ?f = Inr fs"
      using True flat_run_ok(2) by (auto simp: FlatIndex_search_filtered_def)
    moreover have "ns = fs"
      using pf.search_unique [OF run(1), of q k metric adm ns fs] flat_search_top_k(1) [OF flat_run_ok(1) fs] ns run(3)
      by (simp add: Pf_index_def)
    ultimately show ?thesis by simp
  next
    case False
    then show ?thesis using run(2) flat_run_ok(2) by (simp add: Pf_search_filtered_def FlatIndex_search_filtered_def mismatch_def)
  qed
  ultimately show ?thesis using s by (auto simp: Pf_index_def)
qed

lemma persistent_flat_equals_oracle_witness:
  "\<exists>s dir. Pf_open mem_redb Cosine (Dimension 1) \<lparr>sd_segment = None, sd_catalog = None, sd_faults = []\<rparr> = (Inr s, dir) \<and>
    vi_search_filtered (Pf_index mem_redb) (Embedding [0]) 1 Cosine (\<lambda>_. True)
      (run_ops (Pf_index mem_redb) [Op_insert (VectorId 7) (Embedding [0]), Op_remove (VectorId 9)] s) =
    FlatIndex_search_filtered (Embedding [0]) 1 Cosine (\<lambda>_. True)
      (flat_run Cosine (Dimension 1) [Op_insert (VectorId 7) (Embedding [0]), Op_remove (VectorId 9)])"
proof -
  have "0 < Dimension_get (Dimension 1)"
    "HEADER_LEN + length [Op_insert (VectorId 7) (Embedding [0]), Op_remove (VectorId 9)] * (Dimension_get (Dimension 1) * 4) < FILE_MAX"
    by (simp_all add: Dimension_get_def HEADER_LEN_def FILE_MAX_def)
  from persistent_flat_equals_oracle [OF mem_redb_ok this, of Cosine] show ?thesis by blast
qed

text \<open>
  A snapshot reopens. A snapshot that reports success, taken of any reachable index, opens with the same vectors.
\<close>

lemma snapshot_reopens:
  assumes "redb_ok R view" "redb_total R" "0 < Dimension_get d" "reach R m d st s" "Pf_snapshot R fs s = (Inr u, dest)"
  shows "\<exists>s2 dir. Pf_open R m d (dest\<lparr>sd_faults := []\<rparr>) = (Inr s2, dir) \<and> pf_ready view s2 \<and> pf_contents view s2 = st"
proof -
  note r = reach_contents [OF assms(4,1,3)]
  have rd: "pf_ready view s" using r by simp
  have ok: "store_ok view m d (dest\<lparr>sd_faults := []\<rparr>)" "store_contents view d (dest\<lparr>sd_faults := []\<rparr>) = st"
    using Pf_snapshot_store [OF assms(1) rd assms(5)] r by (simp_all add: store_ok_def store_contents_def)
  obtain s2 dir where s2: "Pf_open R m d (dest\<lparr>sd_faults := []\<rparr>) = (Inr s2, dir)"
    using Pf_open_store_total [OF assms(1,2) ok(1)] by auto
  from Pf_open_store [OF assms(1) ok(1) s2] ok(2) s2 show ?thesis by simp
qed

lemma snapshot_reopens_witness:
  "\<exists>s dest s2 dir. Pf_snapshot mem_redb [] s = (Inr (), dest) \<and>
     Pf_open mem_redb Cosine (Dimension 1) (dest\<lparr>sd_faults := []\<rparr>) = (Inr s2, dir) \<and>
     pf_contents (\<lambda>t. t) s2 = [VectorId 7 \<mapsto> Embedding [0]]"
proof -
  obtain s where s: "reach mem_redb Cosine (Dimension 1) [VectorId 7 \<mapsto> Embedding [0]] s" "pf_ok mem_redb (\<lambda>t. t) s"
    using reach_one by blast
  obtain dest where dest: "Pf_snapshot mem_redb [] s = (Inr (), dest)" using Pf_snapshot_total [OF s(2)] by blast
  have "0 < Dimension_get (Dimension 1)" by (simp add: Dimension_get_def)
  from snapshot_reopens [OF mem_redb_ok this s(1) dest] dest show ?thesis by blast
qed

text \<open>
  A compaction that reports success keeps every vector and leaves a file of the header and the live records only.
\<close>

lemma compact_reclaims:
  assumes "redb_ok R view" "0 < Dimension_get d" "reach R m d st s" "Pf_compact R s = (Inr u, s')"
  shows "reach R m d st s' \<and> pf_contents view s' = st \<and>
    length (pf_bytes s') = HEADER_LEN + card (dom st) * (Dimension_get d * 4)"
proof -
  note r = reach_contents [OF assms(3,1,2)]
  have rd: "pf_ready view s" using r by simp
  note c = Pf_compact_keeps [OF assms(1) rd assms(4)]
  have "store_step R S_compact s = (Inr u, s')" using assms(4) by simp
  from reach.acknowledged [OF assms(3) this] have "reach R m d st s'" by simp
  then show ?thesis using c r by (simp add: pf_ready_def pf_durable_def)
qed

lemma compact_reclaims_witness:
  "\<exists>s s'. Pf_compact mem_redb s = (Inr (), s') \<and> length (pf_bytes s') = 36"
proof -
  obtain s where s: "reach mem_redb Cosine (Dimension 1) [VectorId 7 \<mapsto> Embedding [0]] s" "pf_ok mem_redb (\<lambda>t. t) s"
    using reach_one by blast
  have d: "0 < Dimension_get (Dimension 1)" by (simp add: Dimension_get_def)
  have "pf_contents (\<lambda>t. t) s = [VectorId 7 \<mapsto> Embedding [0]]" "pf_dimension s = Dimension 1"
    using reach_contents [OF s(1) mem_redb_ok(1) d] by simp_all
  then obtain s' where s': "Pf_compact mem_redb s = (Inr (), s')"
    using Pf_compact_total [OF s(2)] by (auto simp: HEADER_LEN_def FILE_MAX_def Dimension_get_def)
  from compact_reclaims [OF mem_redb_ok(1) d s(1) s'] s' show ?thesis
    by (auto simp: HEADER_LEN_def Dimension_get_def)
qed

end
