(* ===== verification/Storage_Faults.thy ===== *)
theory Storage_Faults
  imports Recovery
begin

text \<open>
  Where a fault does damage that recovery does not repair, each as a theorem over every state: an
  interrupted compaction zeroes the store, a failed synchronisation shifts the next insertion onto the
  bytes of the failed one, and an interrupted first opening leaves a directory that never opens.
\<close>

section \<open>An interrupted compaction\<close>

lemma floats_of_zeros: "floats_of_bytes (replicate (k * 4) 0) = replicate k 0"
proof (induction k)
  case (Suc k)
  have "replicate (Suc k * 4) (0 :: u8) = 0 # 0 # 0 # 0 # replicate (k * 4) 0" by (simp add: numeral_eq_Suc)
  then show ?case using Suc by simp
qed simp

lemma record_at_zeros:
  assumes "length h = HEADER_LEN" "slot < n"
  shows "record_at dim (h @ replicate (n * (dim * 4)) 0) slot = replicate dim 0"
proof -
  have "Suc slot * (dim * 4) \<le> n * (dim * 4)" using assms(2) by (intro mult_le_mono1) simp
  then have "min (dim * 4) (n * (dim * 4) - slot * (dim * 4)) = dim * 4" by simp
  then show ?thesis using assms(1) floats_of_zeros [of dim] by (simp add: record_at_def)
qed

text \<open>A store whose segment was cut to its header opens with every record zero.\<close>

lemma header_only_opens:
  assumes "redb_ok R view" "redb_total R" "disk_ok m d n bytes (view c)"
  shows "\<exists>s dir. Pf_open R m d \<lparr>sd_segment = Some (take HEADER_LEN bytes), sd_catalog = Some c, sd_faults = []\<rparr> = (Inr s, dir) \<and>
    pf_contents view s = (\<lambda>i. map_option (\<lambda>_. Embedding (replicate (Dimension_get d) 0)) (slot_map (view c) i))"
proof -
  let ?h = "take HEADER_LEN bytes" and ?k = "n * (Dimension_get d * 4)"
  have cat: "catalog_ok m d n (view c)" and n: "n < 2 ^ 64" and len: "length ?h = HEADER_LEN"
    using assms(3) by (simp_all add: disk_ok_def catalog_ok_def)
  let ?b = "?h @ replicate ?k 0"
  have "take HEADER_LEN ?b = take HEADER_LEN bytes" using len by simp
  then have big: "disk_ok m d n ?b (view c)"
    using assms(3) len header_ok_prefix [of m d bytes ?b] by (simp add: disk_ok_def)
  obtain b where b: "metric_to_u8 m = Inr b" "take HEADER_LEN bytes = header_bytes b (word_of_nat (Dimension_get d))"
    using assms(3) by (auto simp: disk_ok_def header_ok_def)
  have rb: "resize (HEADER_LEN + ?k) ?h = ?b" "resize (HEADER_LEN + ?k) ?b = ?b" using len by (simp_all add: resize_def)
  have seg: "Segment_open m (Dimension_get d) n [] (Some ?h) = Segment_open m (Dimension_get d) n [] (Some ?b)"
    using Segment_open_clean [OF b(1) Dimension_get_le, of ?h] Segment_open_clean [OF b(1) Dimension_get_le, of ?b] b(2) len rb
      assms(3) by (simp add: disk_ok_def)
  obtain rs path fs where ro: "Segment_open m (Dimension_get d) n [] (Some ?b) = (rs, (path, fs))" by (metis prod.collapse)
  obtain c2 where c2: "Catalog_open R c = Inr (c2, \<lparr>mf_format_version = FORMAT_VERSION,
        mf_dimension = word_of_nat (Dimension_get d), mf_metric = m, mf_record_count = word_of_nat n\<rparr>)"
    using Catalog_open_total [OF assms(1,2) cat] by blast
  have same: "Pf_open R m d \<lparr>sd_segment = Some ?h, sd_catalog = Some c, sd_faults = []\<rparr> =
      Pf_open R m d \<lparr>sd_segment = Some ?b, sd_catalog = Some c, sd_faults = []\<rparr>"
    using Pf_open_existing [OF _ n c2, of "\<lparr>sd_segment = Some ?h, sd_catalog = Some c, sd_faults = []\<rparr>"]
      Pf_open_existing [OF _ n c2, of "\<lparr>sd_segment = Some ?b, sd_catalog = Some c, sd_faults = []\<rparr>"] ro seg by simp
  have store: "store_ok view m d \<lparr>sd_segment = Some ?b, sd_catalog = Some c, sd_faults = []\<rparr>"
    using big by (auto simp: store_ok_def)
  obtain s dir where s: "Pf_open R m d \<lparr>sd_segment = Some ?b, sd_catalog = Some c, sd_faults = []\<rparr> = (Inr s, dir)"
    using Pf_open_store_total [OF assms(1,2) store] by auto
  have "pf_contents view s = disk_contents d ?b (view c)"
    using Pf_open_store [OF assms(1) store s] by (simp add: store_contents_def)
  also have "\<dots> = (\<lambda>i. map_option (\<lambda>_. Embedding (replicate (Dimension_get d) 0)) (slot_map (view c) i))"
    using record_at_zeros [OF len, of _ n "Dimension_get d"] slot_map_less [OF cat]
    by (auto simp: disk_contents_def fun_eq_iff intro!: option.map_cong)
  finally show ?thesis using s same by auto
qed

abbreviation with_faults :: "fault option list \<Rightarrow> 'd PersistentFlatIndex \<Rightarrow> 'd PersistentFlatIndex" where
  "with_faults fs s \<equiv> s\<lparr>pf_segment := (pf_segment s)\<lparr>sg_file := (sg_file (pf_segment s))\<lparr>fl_faults := fs\<rparr>\<rparr>\<rparr>"

lemma values_weather: "Pf_values_at_storage (with_faults fs s) slot mapped = Pf_values_at_storage s slot mapped"
  by (simp add: Pf_values_at_storage_def Segment_record_def Segment_stride_def Let_def split: option.split)

lemma truncate_then_fail:
  assumes "length vs mod sg_dimension g = 0" "fl_faults (sg_file g) = [None, None, Some (Fault 0 msg)]"
    and "HEADER_LEN \<le> length (fl_bytes (sg_file g))"
  shows "\<exists>g1 err g2. Segment_truncate_to_empty g = (Inr (), g1) \<and> Segment_append vs g1 = (Inl err, g2) \<and>
    fl_bytes (sg_file g2) = take HEADER_LEN (fl_bytes (sg_file g))"
proof -
  obtain g1 where g1: "Segment_truncate_to_empty g = (Inr (), g1)" "fl_faults (sg_file g1) = [Some (Fault 0 msg)]"
    "fl_bytes (sg_file g1) = take HEADER_LEN (fl_bytes (sg_file g))" "sg_dimension g1 = sg_dimension g"
    using assms(2,3) by (simp add: Segment_truncate_to_empty_def on_file_def set_len_def sys_only_def sys_call_def resize_take
        HEADER_LEN_def FILE_MAX_def)
  have "\<exists>err g2. Segment_append vs g1 = (Inl err, g2) \<and> fl_bytes (sg_file g2) = fl_bytes (sg_file g1)"
    using assms(1) g1(2,4) by (simp add: Segment_append_def on_file_def write_all_end_def sys_call_def)
  with g1 show ?thesis by auto
qed

text \<open>
  C28. Compaction is not crash safe: it cuts the segment before the new slots are committed, so an append that writes
  nothing leaves the old slots over an empty file, which the next opening silently extends with zeros. Every stored
  vector comes back as the zero vector, and no error is reported.
\<close>

theorem interrupted_compact_zeroes_vectors:
  assumes "pf_ok R view s"
  shows "\<exists>err s1 s2 dir. Pf_compact R (with_faults [None, None, Some (Fault 0 msg)] s) = (Inl err, s1) \<and>
    Pf_open R (pf_metric s) (pf_dimension s) (pf_dir s1) = (Inr s2, dir) \<and>
    pf_contents view s2 = (\<lambda>i. map_option (\<lambda>_. Embedding (replicate (Dimension_get (pf_dimension s)) 0)) (pf_contents view s i))"
proof -
  let ?t = "with_faults [None, None, Some (Fault 0 msg)] s"
  have ok: "redb_ok R view" "redb_total R" "pf_ready view s" using assms by (simp_all add: pf_ok_def)
  have disk: "disk_ok (pf_metric s) (pf_dimension s) (pf_record_count s) (pf_bytes s) (view (pf_catalog s))"
    and dim: "sg_dimension (pf_segment s) = Dimension_get (pf_dimension s)"
    using ok(3) by (simp_all add: pf_ready_def pf_durable_def)
  obtain recs where recs: "res_bind (Catalog_live_slots R (pf_catalog s)) (\<lambda>live. traverse (\<lambda>(i, slot).
      map_res (Pair i) (Pf_values_at_storage s slot (sg_mapped_records (pf_segment s)))) (sort_key snd live)) = Inr recs"
    using compact_reads_total [OF assms] by blast
  have "length (concat (map snd recs)) = length recs * Dimension_get (pf_dimension s)"
    using compact_reads(3) [OF ok(1,3) recs] by (induction recs) auto
  then obtain g1 err g2 where g: "Segment_truncate_to_empty (pf_segment ?t) = (Inr (), g1)"
    "Segment_append (concat (map snd recs)) g1 = (Inl err, g2)" "fl_bytes (sg_file g2) = take HEADER_LEN (pf_bytes s)"
    using truncate_then_fail [of "concat (map snd recs)" "pf_segment ?t" msg] disk dim by (auto simp: disk_ok_def)
  have c: "Pf_compact R ?t = (Inl (IndexError_from err), s\<lparr>pf_segment := g2\<rparr>)"
    using recs g unfolding Pf_compact_def Let_def by (simp add: values_weather on_segment_def del: res_bind_eq_Inr)
  have "pf_dir (s\<lparr>pf_segment := g2\<rparr>) = \<lparr>sd_segment = Some (take HEADER_LEN (pf_bytes s)), sd_catalog = Some (pf_catalog s), sd_faults = []\<rparr>"
    by (simp add: pf_dir_def g)
  with header_only_opens [OF ok(1,2) disk] obtain s2 dir where
    s2: "Pf_open R (pf_metric s) (pf_dimension s) (pf_dir (s\<lparr>pf_segment := g2\<rparr>)) = (Inr s2, dir)"
    "pf_contents view s2 = (\<lambda>i. map_option (\<lambda>_. Embedding (replicate (Dimension_get (pf_dimension s)) 0)) (slot_map (view (pf_catalog s)) i))"
    by auto
  have "map_option (\<lambda>_. e) (pf_contents view s i) = map_option (\<lambda>_. e) (slot_map (view (pf_catalog s)) i)" for i and e :: Embedding
    by (cases "slot_map (view (pf_catalog s)) i") (simp_all add: store_contents_pf_dir disk_contents_def)
  with c s2 show ?thesis by auto
qed

lemma interrupted_compact_zeroes_vectors_witness:
  "\<exists>s err s1. pf_contents (\<lambda>t. t) s (VectorId 7) = Some (Embedding [0]) \<and>
    Pf_compact mem_redb (with_faults [None, None, Some (Fault 0 ''disk full'')] s) = (Inl err, s1)"
proof -
  obtain s where s: "reach mem_redb Cosine (Dimension 1) [VectorId 7 \<mapsto> Embedding [0]] s" "pf_ok mem_redb (\<lambda>t. t) s"
    using reach_one by blast
  have "0 < Dimension_get (Dimension 1)" by (simp add: Dimension_get_def)
  then have "pf_contents (\<lambda>t. t) s = [VectorId 7 \<mapsto> Embedding [0]]" using reach_contents [OF s(1) mem_redb_ok(1)] by blast
  then have "pf_contents (\<lambda>t. t) s (VectorId 7) = Some (Embedding [0])" by simp
  with interrupted_compact_zeroes_vectors [OF s(2), of "''disk full''"] show ?thesis by blast
qed

section \<open>A failed synchronisation\<close>

lemma failed_sync_then_insert:
  assumes "pf_ok R view s" "pf_contents view s i = None" "pf_contents view s j = None"
    and "Embedding_dimension e = pf_dimension s" "Embedding_dimension f = pf_dimension s"
    and "HEADER_LEN + (pf_record_count s + 2) * (Dimension_get (pf_dimension s) * 4) < FILE_MAX"
  shows "\<exists>s1 s2. Pf_insert R i e (with_faults [None, Some (Fault 0 msg)] s) = (Inl (Backend (''io error: '' @ msg)), s1) \<and>
    Pf_insert R j f s1 = (Inr (), s2) \<and>
    Catalog_insert_slots R [(j, pf_record_count s)] (pf_record_count s + 1) (pf_catalog s) = (Inr (), pf_catalog s2) \<and>
    pf_bytes s2 = (pf_bytes s @ floats_to_bytes (as_slice e)) @ floats_to_bytes (as_slice f)"
proof -
  let ?dim = "Dimension_get (pf_dimension s)" and ?n = "pf_record_count s" and ?c = "pf_catalog s"
  have ok: "redb_ok R view" "redb_total R" "pf_ready view s" using assms(1) by (simp_all add: pf_ok_def)
  then have exact: "length (pf_bytes s) = HEADER_LEN + ?n * (?dim * 4)" and dim: "sg_dimension (pf_segment s) = ?dim"
    and pos: "0 < ?dim" and cat: "catalog_ok (pf_metric s) (pf_dimension s) ?n (view ?c)"
    by (simp_all add: pf_ready_def pf_durable_def disk_ok_def)
  have le: "length (as_slice e) = ?dim" "length (as_slice f) = ?dim"
    using Embedding_dimension_length [OF assms(4) pos] Embedding_dimension_length [OF assms(5) pos] by simp_all
  have free: "Catalog_contains R i ?c = Inr False" "Catalog_contains R j ?c = Inr False"
    using contains_total [OF ok(1,2) cat] assms(2,3) by (simp_all add: pf_contents_slot)
  let ?s1 = "s\<lparr>pf_segment := (pf_segment s)\<lparr>sg_file := \<lparr>fl_bytes = pf_bytes s @ floats_to_bytes (as_slice e), fl_faults = []\<rparr>\<rparr>\<rparr>"
  have room: "length (pf_bytes s) + 4 * ?dim + 4 * ?dim < FILE_MAX" using assms(6) exact by (simp add: add_mult_distrib)
  then have "Segment_append (as_slice e) (pf_segment (with_faults [None, Some (Fault 0 msg)] s)) = (Inl (St_Io msg), pf_segment ?s1)"
    using le dim by (simp add: Segment_append_def on_file_def write_all_end_def sys_only_def sys_call_def)
  then have first: "Pf_insert R i e (with_faults [None, Some (Fault 0 msg)] s) = (Inl (Backend (''io error: '' @ msg)), ?s1)"
    using assms(4) free(1) by (simp add: Pf_insert_def on_segment_def Let_def)
  obtain c where c: "Catalog_insert_slots R [(j, ?n)] (?n + 1) ?c = (Inr (), c)"
    using write_slots_total [OF ok(1,2) cat] by (metis Catalog_insert_slots_def prod.collapse)
  have "Segment_append (as_slice f) (pf_segment ?s1) = (Inr (), (pf_segment ?s1)\<lparr>sg_file :=
      (sg_file (pf_segment ?s1))\<lparr>fl_bytes := pf_bytes ?s1 @ floats_to_bytes (as_slice f)\<rparr>\<rparr>)"
    using Segment_append_clean [of "pf_segment ?s1" "as_slice f"] le dim room by simp
  moreover have "Catalog_insert_slot R j ?n (?n + 1) = Catalog_insert_slots R [(j, ?n)] (?n + 1)"
    by (simp add: fun_eq_iff Catalog_insert_slot_def)
  ultimately have "\<exists>s2. Pf_insert R j f ?s1 = (Inr (), s2) \<and> pf_catalog s2 = c \<and>
      pf_bytes s2 = (pf_bytes s @ floats_to_bytes (as_slice e)) @ floats_to_bytes (as_slice f)"
    using assms(5) free(2) c by (simp add: Pf_insert_def on_segment_def on_catalog_def Let_def)
  with first c show ?thesis by blast
qed

text \<open>
  C29. A failed insertion can corrupt the next one. When the append of a record is written and its
  synchronisation fails, the bytes stay while the watermark does not move, and the next insertion appends behind them but
  binds its id to the slot they fill: after a restart the second id holds the vector of the first, refused insertion.
\<close>

theorem failed_sync_misplaces_next_insert:
  assumes "pf_ok R view s" "pf_contents view s i = None" "pf_contents view s j = None"
    and "Embedding_dimension e = pf_dimension s" "Embedding_dimension f = pf_dimension s"
    and "HEADER_LEN + (pf_record_count s + 2) * (Dimension_get (pf_dimension s) * 4) < FILE_MAX"
  shows "\<exists>s1 s2 s3 dir. Pf_insert R i e (with_faults [None, Some (Fault 0 msg)] s) = (Inl (Backend (''io error: '' @ msg)), s1) \<and>
    Pf_insert R j f s1 = (Inr (), s2) \<and> Pf_open R (pf_metric s) (pf_dimension s) (pf_dir s2) = (Inr s3, dir) \<and>
    pf_contents view s3 = (pf_contents view s)(j \<mapsto> e)"
proof -
  let ?n = "pf_record_count s" and ?m = "pf_metric s" and ?d = "pf_dimension s"
  have ok: "redb_ok R view" "redb_total R" "pf_ready view s" using assms(1) by (simp_all add: pf_ok_def)
  then have disk: "disk_ok ?m ?d ?n (pf_bytes s) (view (pf_catalog s))"
    and exact: "length (pf_bytes s) = HEADER_LEN + ?n * (Dimension_get ?d * 4)" by (simp_all add: pf_ready_def pf_durable_def)
  then have pos: "0 < Dimension_get ?d" and cat: "catalog_ok ?m ?d ?n (view (pf_catalog s))" by (simp_all add: disk_ok_def)
  obtain s1 s2 where run: "Pf_insert R i e (with_faults [None, Some (Fault 0 msg)] s) = (Inl (Backend (''io error: '' @ msg)), s1)"
    "Pf_insert R j f s1 = (Inr (), s2)" "Catalog_insert_slots R [(j, ?n)] (?n + 1) (pf_catalog s) = (Inr (), pf_catalog s2)"
    "pf_bytes s2 = (pf_bytes s @ floats_to_bytes (as_slice e)) @ floats_to_bytes (as_slice f)"
    using failed_sync_then_insert [OF assms, of msg] by blast
  have cat': "catalog_ok ?m ?d (?n + 1) (view (pf_catalog s2)) \<and>
      slot_map (view (pf_catalog s2)) = slot_map (view (pf_catalog s)) ++ map_of (rev [(j, ?n)])"
    using insert_slots_spec [OF ok(1) cat run(3)] watermark_u64 [of "?n + 2" "Dimension_get ?d * 4"] assms(6) pos by simp
  have top: "HEADER_LEN + (?n + 1) * (Dimension_get ?d * 4) < FILE_MAX" using assms(6) by (simp add: add_mult_distrib)
  have "length (as_slice e) = Dimension_get ?d" using Embedding_dimension_length [OF assms(4) pos] .
  then have "disk_ok ?m ?d (?n + 1) (pf_bytes s @ floats_to_bytes (as_slice e)) (view (pf_catalog s2)) \<and>
      disk_contents ?d (pf_bytes s @ floats_to_bytes (as_slice e)) (view (pf_catalog s2)) = (pf_contents view s)(j \<mapsto> e)"
    using disk_extend [OF disk exact, of "[(j, e)]" "view (pf_catalog s2)"] cat' top by (simp add: store_contents_pf_dir)
  then have disk2: "disk_ok ?m ?d (?n + 1) (pf_bytes s2) (view (pf_catalog s2))"
    "disk_contents ?d (pf_bytes s2) (view (pf_catalog s2)) = (pf_contents view s)(j \<mapsto> e)"
    unfolding run(4) by (metis disk_append)+
  then have store: "store_ok view ?m ?d (pf_dir s2)" by (auto simp: store_ok_pf_dir)
  obtain s3 dir where s3: "Pf_open R ?m ?d (pf_dir s2) = (Inr s3, dir)"
    using Pf_open_store_total [OF ok(1,2) store] by auto
  have "pf_contents view s3 = (pf_contents view s)(j \<mapsto> e)"
    using Pf_open_store [OF ok(1) store s3] disk2(2) by (simp add: store_contents_pf_dir(1))
  with run(1,2) s3 show ?thesis by blast
qed

lemma failed_sync_misplaces_next_insert_witness:
  "\<exists>s s1 s2 s3 dir. Pf_insert mem_redb (VectorId 8) (Embedding [1]) s = (Inl (Backend ''io error: disk''), s1) \<and>
    Pf_insert mem_redb (VectorId 9) (Embedding [2]) s1 = (Inr (), s2) \<and>
    Pf_open mem_redb Cosine (Dimension 1) (pf_dir s2) = (Inr s3, dir) \<and>
    pf_contents (\<lambda>t. t) s3 (VectorId 9) = Some (Embedding [1])"
proof -
  have dim: "Dimension_get (Dimension 1) = 1" "\<And>x. Embedding_dimension (Embedding [x]) = Dimension 1"
    by (simp_all add: Dimension_get_def Embedding_dimension_def Dimension_new_def u32_max_def)
  obtain s dir where s: "Pf_open mem_redb Cosine (Dimension 1) \<lparr>sd_segment = None, sd_catalog = None, sd_faults = []\<rparr> = (Inr s, dir)"
    using Pf_open_fresh_total [OF mem_redb_ok] by blast
  have fresh: "pf_ok mem_redb (\<lambda>t. t) s" "pf_dimension s = Dimension 1" "pf_metric s = Cosine"
    "pf_contents (\<lambda>t. t) s = Map.empty" "pf_record_count s = 0"
    using Pf_open_fresh [OF mem_redb_ok(1) _ s] dim mem_redb_ok by (simp_all add: pf_ok_def)
  have "\<exists>s1 s2 s3 dir. Pf_insert mem_redb (VectorId 8) (Embedding [1]) (with_faults [None, Some (Fault 0 ''disk'')] s) =
      (Inl (Backend (''io error: '' @ ''disk'')), s1) \<and> Pf_insert mem_redb (VectorId 9) (Embedding [2]) s1 = (Inr (), s2) \<and>
    Pf_open mem_redb (pf_metric s) (pf_dimension s) (pf_dir s2) = (Inr s3, dir) \<and>
    pf_contents (\<lambda>t. t) s3 = (pf_contents (\<lambda>t. t) s)(VectorId 9 \<mapsto> Embedding [1])"
    by (rule failed_sync_misplaces_next_insert [OF fresh(1)]) (simp_all add: fresh(2,4,5) dim FILE_MAX_def HEADER_LEN_def)
  then show ?thesis unfolding fresh(2,3,4) by fastforce
qed

section \<open>An interrupted first opening\<close>

lemma no_segment_never_opens:
  assumes "opens R m d dir s" "sd_segment dir = None" "sd_catalog dir \<noteq> None"
  shows False
  using assms
proof (induction rule: opens.induct)
  case (opens_now fs dir s dir')
  then show ?case by (auto simp: Pf_open_def Segment_open_def Let_def split: sum.splits if_splits prod.splits)
next
  case (opens_later fs dir e dir' s)
  have "sd_segment dir' = None \<and> sd_catalog dir' \<noteq> None"
    using opens_later(1,4,5) by (auto simp: Pf_open_def Segment_open_def Let_def split: sum.splits if_splits prod.splits)
  then show ?case using opens_later(3) by blast
qed

text \<open>
  An interrupted first opening bricks the directory: the catalog is created before the segment, so when the
  creation of the segment fails, the next opening takes the catalog for an existing store, misses the segment, and no
  number of further attempts opens it.
\<close>

lemma interrupted_creation_never_opens:
  assumes "redb_ok R view" "redb_total R"
  shows "\<exists>dir. Pf_open R m d \<lparr>sd_segment = None, sd_catalog = None, sd_faults = [Some (Fault n msg)]\<rparr> = (Inl (St_Io msg), dir) \<and>
    (\<nexists>s. opens R m d dir s)"
proof -
  have le: "\<not> u32_max < Dimension_get d" by (rule leD) simp
  obtain b where b: "metric_to_u8 m = Inr b" using metric_to_u8_total by blast
  obtain c where "Catalog_create R None \<lparr>mf_format_version = FORMAT_VERSION, mf_dimension = word_of_nat (Dimension_get d),
      mf_metric = m, mf_record_count = word_of_nat 0\<rparr> = (Inr c, Some c)" using create_total [OF assms] by blast
  then have "Pf_open R m d \<lparr>sd_segment = None, sd_catalog = None, sd_faults = [Some (Fault n msg)]\<rparr> =
      (Inl (St_Io msg), \<lparr>sd_segment = None, sd_catalog = Some c, sd_faults = []\<rparr>)"
    by (simp add: Pf_open_def Let_def le Segment_create_def b sys_only_def sys_call_def)
  then show ?thesis by (auto dest: no_segment_never_opens)
qed

lemma interrupted_creation_never_opens_witness:
  "\<exists>dir. Pf_open mem_redb Cosine (Dimension 1) \<lparr>sd_segment = None, sd_catalog = None, sd_faults = [Some (Fault 0 ''disk'')]\<rparr> =
     (Inl (St_Io ''disk''), dir) \<and> (\<nexists>s. opens mem_redb Cosine (Dimension 1) dir s)"
  by (rule interrupted_creation_never_opens [OF mem_redb_ok])

end
