(* ===== verification/Codec.thy ===== *)
theory Codec
  imports Query
begin

text \<open>
  The serialization library is code outside the repository: a \<open>Codec\<close> is its pair of functions for a type, and
  \<open>codec_ok\<close> what is relied on, that what was encoded decodes to itself. The combinators below build
  concrete codecs that satisfy it, to instantiate the parameter with.
\<close>

section \<open>The parameter\<close>

record 'a Codec =
  cd_enc :: "'a \<Rightarrow> string + u8 list"
  cd_dec :: "u8 list \<Rightarrow> string + 'a"

definition codec_ok :: "'a Codec \<Rightarrow> bool" where
  "codec_ok c \<longleftrightarrow> (\<forall>x bs. cd_enc c x = Inr bs \<longrightarrow> cd_dec c bs = Inr x)"

definition codec_total :: "'a Codec \<Rightarrow> bool" where
  "codec_total c \<longleftrightarrow> (\<forall>x. \<exists>bs. cd_enc c x = Inr bs)"

lemma codec_Inr: "codec_ok c \<Longrightarrow> cd_enc c x = Inr bs \<Longrightarrow> cd_dec c bs = Inr x"
  by (simp add: codec_ok_def)

lemma codec_enc: "codec_total c \<Longrightarrow> \<exists>bs. cd_enc c x = Inr bs"
  by (simp add: codec_total_def)

section \<open>Concrete codecs\<close>

text \<open>A packer writes a value and reads it back from the front of a byte string.\<close>

record 'a Packer =
  pk_put :: "'a \<Rightarrow> u8 list"
  pk_get :: "u8 list \<Rightarrow> ('a \<times> u8 list) option"

definition pk_ok :: "'a Packer \<Rightarrow> bool" where
  "pk_ok p \<longleftrightarrow> (\<forall>x r. pk_get p (pk_put p x @ r) = Some (x, r))"

definition pk_word :: "nat \<Rightarrow> 'w::len word Packer" where
  "pk_word k = \<lparr>pk_put = (\<lambda>w. le_bytes k (unat w)),
     pk_get = (\<lambda>bs. if length bs < k then None else Some (word_of_nat (le_val (take k bs)), drop k bs))\<rparr>"

definition pk_map :: "('b \<Rightarrow> 'a) \<Rightarrow> ('a \<Rightarrow> 'b) \<Rightarrow> 'a Packer \<Rightarrow> 'b Packer" where
  "pk_map f g p = \<lparr>pk_put = (\<lambda>x. pk_put p (f x)), pk_get = (\<lambda>bs. map_option (\<lambda>(x, r). (g x, r)) (pk_get p bs))\<rparr>"

definition pk_pair :: "'a Packer \<Rightarrow> 'b Packer \<Rightarrow> ('a \<times> 'b) Packer" where
  "pk_pair p q = \<lparr>pk_put = (\<lambda>(x, y). pk_put p x @ pk_put q y),
     pk_get = (\<lambda>bs. case pk_get p bs of None \<Rightarrow> None
       | Some (x, r) \<Rightarrow> map_option (\<lambda>(y, r'). ((x, y), r')) (pk_get q r))\<rparr>"

definition pk_sum :: "'a Packer \<Rightarrow> 'b Packer \<Rightarrow> ('a + 'b) Packer" where
  "pk_sum p q = \<lparr>pk_put = (\<lambda>x. case x of Inl a \<Rightarrow> 0 # pk_put p a | Inr b \<Rightarrow> 1 # pk_put q b),
     pk_get = (\<lambda>bs. case bs of [] \<Rightarrow> None
       | b # r \<Rightarrow> if b = 0 then map_option (\<lambda>(x, r'). (Inl x, r')) (pk_get p r)
                else map_option (\<lambda>(x, r'). (Inr x, r')) (pk_get q r))\<rparr>"

definition put_list :: "'a Packer \<Rightarrow> 'a list \<Rightarrow> u8 list" where
  "put_list p xs = concat (map (\<lambda>x. 1 # pk_put p x) xs) @ [0]"

fun get_list :: "'a Packer \<Rightarrow> nat \<Rightarrow> u8 list \<Rightarrow> ('a list \<times> u8 list) option" where
  "get_list p (Suc n) (b # bs) =
     (if b = 0 then Some ([], bs)
      else case pk_get p bs of None \<Rightarrow> None
        | Some (x, r) \<Rightarrow> map_option (\<lambda>(xs, r'). (x # xs, r')) (get_list p n r))"
| "get_list p _ _ = None"

definition pk_list :: "'a Packer \<Rightarrow> 'a list Packer" where
  "pk_list p = \<lparr>pk_put = put_list p, pk_get = (\<lambda>bs. get_list p (length bs) bs)\<rparr>"

definition codec_of :: "'a Packer \<Rightarrow> 'a Codec" where
  "codec_of p = \<lparr>cd_enc = (\<lambda>x. Inr (pk_put p x)),
     cd_dec = (\<lambda>bs. case pk_get p bs of Some (x, []) \<Rightarrow> Inr x | _ \<Rightarrow> Inl ''malformed'')\<rparr>"

named_theorems pack \<open>packers that read back what they wrote\<close>

lemma pk_word_ok:
  assumes "LENGTH('w::len) \<le> 8 * k"
  shows "pk_ok (pk_word k :: 'w word Packer)"
proof -
  have "unat w < 256 ^ k" for w :: "'w word"
  proof -
    have "unat w < 2 ^ LENGTH('w)" by (rule unsigned_less)
    also have "\<dots> \<le> 2 ^ (8 * k)" using assms by (intro power_increasing) simp_all
    finally show ?thesis by (simp add: power_mult)
  qed
  then show ?thesis by (simp add: pk_ok_def pk_word_def le_val_bytes)
qed

lemma pk_map_ok [pack]: "pk_ok p \<Longrightarrow> (\<And>x. g (f x) = x) \<Longrightarrow> pk_ok (pk_map f g p)"
  by (simp add: pk_ok_def pk_map_def)

lemma pk_pair_ok [pack]: "pk_ok p \<Longrightarrow> pk_ok q \<Longrightarrow> pk_ok (pk_pair p q)"
  by (simp add: pk_ok_def pk_pair_def)

lemma pk_sum_ok [pack]: "pk_ok p \<Longrightarrow> pk_ok q \<Longrightarrow> pk_ok (pk_sum p q)"
  by (simp add: pk_ok_def pk_sum_def split: sum.split)

lemma get_put_list: "pk_ok p \<Longrightarrow> length xs < n \<Longrightarrow> get_list p n (put_list p xs @ r) = Some (xs, r)"
proof (induction xs arbitrary: n)
  case Nil
  then show ?case by (cases n) (simp_all add: put_list_def)
next
  case (Cons x xs)
  then obtain n' where n: "n = Suc n'" by (cases n) auto
  have "put_list p (x # xs) @ r = 1 # pk_put p x @ (put_list p xs @ r)" by (simp add: put_list_def)
  then show ?case using Cons by (simp add: n pk_ok_def)
qed

lemma pk_list_ok [pack]:
  assumes "pk_ok p"
  shows "pk_ok (pk_list p)"
proof -
  have "length xs < length (put_list p xs @ r)" for xs r
    by (induction xs) (auto simp: put_list_def)
  then show ?thesis using get_put_list [OF assms] by (simp add: pk_ok_def pk_list_def)
qed

lemma codec_of_ok: "pk_ok p \<Longrightarrow> codec_ok (codec_of p) \<and> codec_total (codec_of p)"
proof -
  assume "pk_ok p"
  then have "pk_get p (pk_put p x) = Some (x, [])" for x
    using spec [of "\<lambda>r. pk_get p (pk_put p x @ r) = Some (x, r)" "[]"] by (simp add: pk_ok_def)
  then show ?thesis by (simp add: codec_ok_def codec_total_def codec_of_def)
qed

definition pk_char :: "char Packer" where
  "pk_char = pk_map (\<lambda>c. word_of_nat (of_char c)) (\<lambda>b. char_of (unat b)) (pk_word 1 :: u8 Packer)"

definition pk_bool :: "bool Packer" where
  "pk_bool = pk_map (\<lambda>b. if b then 1 else 0) (\<lambda>w. w = 1) (pk_word 1 :: u8 Packer)"

definition pk_string :: "string Packer" where
  "pk_string = pk_list pk_char"

lemma pk_char_ok [pack]: "pk_ok pk_char"
proof -
  have "(of_char c :: nat) < 256" for c by simp
  then show ?thesis unfolding pk_char_def by (intro pk_map_ok pk_word_ok) simp_all
qed

lemma pk_bool_ok [pack]: "pk_ok pk_bool"
  unfolding pk_bool_def by (intro pk_map_ok pk_word_ok) simp_all

lemma pk_string_ok [pack]: "pk_ok pk_string"
  unfolding pk_string_def by (rule pack)+

text \<open>A number in unary, and an option.\<close>

definition pk_nat :: "nat Packer" where
  "pk_nat = pk_map (\<lambda>n. replicate n ()) length (pk_list \<lparr>pk_put = (\<lambda>_. []), pk_get = (\<lambda>bs. Some ((), bs))\<rparr>)"

lemma pk_nat_ok [pack]: "pk_ok pk_nat"
  unfolding pk_nat_def by (intro pk_map_ok pk_list_ok) (simp_all add: pk_ok_def)

definition pk_option :: "'a Packer \<Rightarrow> 'a option Packer" where
  "pk_option p = pk_map (\<lambda>x. case x of None \<Rightarrow> Inl 0 | Some y \<Rightarrow> Inr y) (case_sum (\<lambda>_. None) Some) (pk_sum pk_nat p)"

lemma pk_option_ok [pack]: "pk_ok p \<Longrightarrow> pk_ok (pk_option p)"
  unfolding pk_option_def by (intro pk_map_ok pk_sum_ok pk_nat_ok) (simp_all split: option.split)

text \<open>Payloads.\<close>

definition pk_value :: "Value Packer" where
  "pk_value = pk_map
     (\<lambda>v. case v of Text s \<Rightarrow> Inl s | Integer i \<Rightarrow> Inr (Inl i) | Float f \<Rightarrow> Inr (Inr (Inl f)) | Bool b \<Rightarrow> Inr (Inr (Inr b)))
     (case_sum Text (case_sum Integer (case_sum Float Bool)))
     (pk_sum pk_string (pk_sum (pk_word 8) (pk_sum (pk_word 8) pk_bool)))"

definition pk_field :: "FieldValue Packer" where
  "pk_field = pk_map (\<lambda>v. case v of Scalar x \<Rightarrow> Inl x | Array xs \<Rightarrow> Inr xs) (case_sum Scalar Array)
     (pk_sum pk_value (pk_list pk_value))"

definition pk_payload :: "Payload Packer" where
  "pk_payload = pk_map payload_fields Payload (pk_list (pk_pair pk_string pk_field))"

definition payload_codec :: "Payload Codec" where
  "payload_codec = codec_of pk_payload"

lemma pk_value_ok [pack]: "pk_ok pk_value"
  unfolding pk_value_def
  by (intro pk_map_ok pk_sum_ok pk_word_ok pk_string_ok pk_bool_ok) (simp_all split: Value.split)

lemma pk_field_ok [pack]: "pk_ok pk_field"
  unfolding pk_field_def by (intro pk_map_ok pk_sum_ok pk_list_ok pk_value_ok) (simp split: FieldValue.split)

lemma payload_codec_ok: "codec_ok payload_codec" "codec_total payload_codec"
proof -
  have "pk_ok pk_payload"
    unfolding pk_payload_def by (intro pk_map_ok pk_list_ok pk_pair_ok pk_string_ok pk_field_ok) simp
  from codec_of_ok [OF this] show "codec_ok payload_codec" "codec_total payload_codec"
    unfolding payload_codec_def by blast+
qed

end
