(* ===== verification/Rows.thy ===== *)
theory Rows
  imports Storage Codec
begin

text \<open>
  What the persistent stores share: string keys, tables whose rows are encoded values, and write
  transactions that read their own writes. A transaction holds the tables as it sees them and the
  writes it will commit; dropping it without a commit leaves the database alone.
\<close>

section \<open>Reading the database\<close>

lemma rd_read_view: "redb_ok R view \<Longrightarrow> rd_read R d = Inr ts \<Longrightarrow> ts = view d"
  by (auto simp: redb_ok_def)

text \<open>Reading never fails.\<close>

definition redb_reads :: "'d Redb \<Rightarrow> bool" where
  "redb_reads R \<longleftrightarrow> (\<forall>d. \<exists>ts. rd_read R d = Inr ts)"

lemma rd_read_reads: "redb_ok R view \<Longrightarrow> redb_reads R \<Longrightarrow> rd_read R d = Inr (view d)"
  by (metis rd_read_view redb_reads_def)

lemma redb_total_reads: "redb_total R \<Longrightarrow> redb_reads R"
  by (simp add: redb_total_def redb_reads_def)

lemma rd_read_total: "redb_ok R view \<Longrightarrow> redb_total R \<Longrightarrow> rd_read R d = Inr (view d)"
  by (simp add: rd_read_reads redb_total_reads)

lemma mem_redb_reads: "redb_reads mem_redb"
  by (rule redb_total_reads [OF mem_redb_ok(2)])

text \<open>Reading one table, and committing, with the error type of the caller.\<close>

definition open_in :: "(string \<Rightarrow> 'e) \<Rightarrow> 'd Redb \<Rightarrow> tables \<Rightarrow> string \<Rightarrow> 'e + table" where
  "open_in backend R ts t = ok_or (backend (rd_no_table R t)) (ts t)"

definition read_table :: "(string \<Rightarrow> 'e) \<Rightarrow> 'd Redb \<Rightarrow> string \<Rightarrow> 'd \<Rightarrow> 'e + table" where
  "read_table backend R t d = res_bind (map_err backend (rd_read R d)) (\<lambda>ts. open_in backend R ts t)"

definition commit_as :: "(string \<Rightarrow> 'e) \<Rightarrow> 'd Redb \<Rightarrow> db_write list \<Rightarrow> 'd \<Rightarrow> ('e + unit) \<times> 'd" where
  "commit_as backend R ws d = (case rd_commit R ws d of (r, d') \<Rightarrow> (map_err backend r, d'))"

lemma read_table_Inr:
  "redb_ok R view \<Longrightarrow> read_table backend R t d = Inr tab \<longleftrightarrow>
   (\<exists>ts. rd_read R d = Inr ts \<and> view d t = Some tab)"
  by (cases "rd_read R d") (auto simp: read_table_def open_in_def ok_or_def dest: rd_read_view split: option.splits)

lemma commit_as_view:
  "redb_ok R view \<Longrightarrow> commit_as backend R ws d = (r, d') \<Longrightarrow>
   view d' = (case r of Inl _ \<Rightarrow> view d | Inr _ \<Rightarrow> fold apply_write ws (view d))"
  by (cases "rd_commit R ws d"; cases "fst (rd_commit R ws d)") (auto simp: commit_as_def redb_ok_def)

lemma commit_as_total: "redb_total R \<Longrightarrow> \<exists>d'. commit_as backend R ws d = (Inr (), d')"
proof -
  assume "redb_total R"
  then have "fst (rd_commit R ws d) = Inr ()" by (simp add: redb_total_def)
  then show ?thesis by (cases "rd_commit R ws d") (simp add: commit_as_def)
qed

definition path_view :: "('d \<Rightarrow> tables) \<Rightarrow> 'd option \<Rightarrow> tables" where
  "path_view view path = (case path of None \<Rightarrow> Map.empty | Some d \<Rightarrow> view d)"

text \<open>\<open>redb_compat::create\<close> opens the file when it exists.\<close>

lemma rd_create_view: "redb_ok R view \<Longrightarrow> rd_create R path = Inr d \<Longrightarrow> view d = path_view view path"
  by (simp add: redb_ok_def path_view_def)

section \<open>Keys\<close>

definition str_key :: "string \<Rightarrow> u8 list" where
  "str_key s = map (\<lambda>c. word_of_nat (of_char c)) s"

lemma str_key_inj [simp]: "str_key s = str_key t \<longleftrightarrow> s = t"
proof -
  have "inj (\<lambda>c. word_of_nat (of_char c) :: u8)"
  proof (rule injI)
    fix c d :: char
    assume "(word_of_nat (of_char c) :: u8) = word_of_nat (of_char d)"
    then have "(of_char c :: nat) = of_char d"
      by (metis mod_less nat_of_char_less_256 unat_u8)
    then show "c = d" by simp
  qed
  then show ?thesis by (simp add: str_key_def inj_map_eq_map)
qed

section \<open>Tables of encoded rows\<close>

lemma btree_ok_Nil [simp]: "btree_ok []"
  by (simp add: btree_ok_def)

lemma btree_ok_delete: "btree_ok m \<Longrightarrow> btree_ok (AList.delete k m)"
  by (auto simp: btree_ok_def AList.delete_eq sorted_filter distinct_map_filter)

lemma set_delete_subset: "set (AList.delete k m) \<subseteq> set m"
  by (auto simp: AList.delete_eq)

lemma length_insert_delete:
  assumes "btree_ok m"
  shows "length (bt_insert k v m) = (if map_of m k = None then length m + 1 else length m)"
    "length (AList.delete k m) = (if map_of m k = None then length m else length m - 1)"
proof -
  have card: "length n = card (dom (map_of n))" if "btree_ok n" for n :: "('a \<times> 'b) list"
    using that by (simp add: hm_length hm_ok_def btree_ok_def)
  have f: "finite (dom (map_of m))" by (rule finite_dom_map_of)
  show "length (bt_insert k v m) = (if map_of m k = None then length m + 1 else length m)"
    using card [OF assms] card [OF bt_insert_ok [OF assms]] f
    by (auto simp: map_of_bt_insert [OF assms] insert_absorb domIff)
  show "length (AList.delete k m) = (if map_of m k = None then length m else length m - 1)"
    using card [OF assms] card [OF btree_ok_delete [OF assms]] f
    by (auto simp: domIff)
qed

text \<open>\<open>rows_ok C t\<close>: every row decodes; \<open>row C t k\<close>: the decoded row of a key.\<close>

definition rows_ok :: "'v Codec \<Rightarrow> table \<Rightarrow> bool" where
  "rows_ok C t \<longleftrightarrow> btree_ok t \<and> (\<forall>(k, v) \<in> set t. \<exists>x. cd_dec C v = Inr x)"

definition row :: "'v Codec \<Rightarrow> table \<Rightarrow> u8 list \<Rightarrow> 'v option" where
  "row C t k = map_option (\<lambda>bs. projr (cd_dec C bs)) (map_of t k)"

lemma rows_Nil [simp]: "rows_ok C []" "row C [] = Map.empty"
  by (simp_all add: rows_ok_def row_def fun_eq_iff)

lemma row_decode:
  "rows_ok C t \<Longrightarrow> map_of t k = Some bs \<Longrightarrow> \<exists>x. cd_dec C bs = Inr x \<and> row C t k = Some x"
  by (auto simp: rows_ok_def row_def dest!: map_of_SomeD)

lemma row_None: "row C t k = None \<longleftrightarrow> map_of t k = None"
  by (simp add: row_def)

lemma rows_insert:
  assumes "rows_ok C t" "codec_ok C" "cd_enc C x = Inr bs"
  shows "rows_ok C (bt_insert k bs t)" "row C (bt_insert k bs t) = (row C t)(k \<mapsto> x)"
proof -
  have dec: "cd_dec C bs = Inr x" using assms(2,3) by (rule codec_Inr)
  have b: "btree_ok t" using assms(1) by (simp add: rows_ok_def)
  show "rows_ok C (bt_insert k bs t)"
    using assms(1) set_bt_insert [of k bs t] dec by (fastforce simp: rows_ok_def bt_insert_ok)
  show "row C (bt_insert k bs t) = (row C t)(k \<mapsto> x)"
    using dec by (simp add: row_def map_of_bt_insert [OF b] fun_eq_iff)
qed

lemma rows_delete:
  assumes "rows_ok C t"
  shows "rows_ok C (AList.delete k t)" "row C (AList.delete k t) = (row C t)(k := None)"
  using assms set_delete_subset [of k t] by (fastforce simp: rows_ok_def btree_ok_delete row_def fun_eq_iff)+

text \<open>Decoding a looked-up row, with the error type of the caller.\<close>

definition decode_row :: "(string \<Rightarrow> 'e) \<Rightarrow> 'v Codec \<Rightarrow> table \<Rightarrow> u8 list \<Rightarrow> 'e + 'v option" where
  "decode_row err C t k = transpose_opt (\<lambda>bs. map_err err (cd_dec C bs)) (map_of t k)"

lemma decode_row_ok [simp]: "rows_ok C t \<Longrightarrow> decode_row err C t k = Inr (row C t k)"
  by (cases "map_of t k") (auto simp: decode_row_def row_def dest: row_decode)

section \<open>Write transactions\<close>

record Txn =
  tx_tables :: tables
  tx_writes :: "db_write list"

definition begin_write :: "(string \<Rightarrow> 'e) \<Rightarrow> 'd Redb \<Rightarrow> 'd \<Rightarrow> 'e + Txn" where
  "begin_write backend R d = map_err backend (map_res (\<lambda>ts. \<lparr>tx_tables = ts, tx_writes = []\<rparr>) (rd_read R d))"

definition tx_do :: "db_write \<Rightarrow> Txn \<Rightarrow> Txn" where
  "tx_do w t = \<lparr>tx_tables = apply_write w (tx_tables t), tx_writes = tx_writes t @ [w]\<rparr>"

definition tx_table :: "Txn \<Rightarrow> string \<Rightarrow> table" where
  "tx_table t name = table_of (tx_tables t) name"

text \<open>Inserting an encoded value.\<close>

definition tx_put :: "(string \<Rightarrow> 'e) \<Rightarrow> 'v Codec \<Rightarrow> string \<Rightarrow> u8 list \<Rightarrow> 'v \<Rightarrow> Txn \<Rightarrow> 'e + Txn" where
  "tx_put err C name k x t = map_err err (map_res (\<lambda>bs. tx_do (W_insert name k bs) t) (cd_enc C x))"

definition tx_reads :: "tables \<Rightarrow> Txn \<Rightarrow> bool" where
  "tx_reads ts t \<longleftrightarrow> tx_tables t = fold apply_write (tx_writes t) ts"

lemma tx_reads_do: "tx_reads ts t \<Longrightarrow> tx_reads ts (tx_do w t)"
  by (simp add: tx_reads_def tx_do_def)

lemma tx_reads_put: "tx_reads ts t \<Longrightarrow> tx_put err C name k x t = Inr t' \<Longrightarrow> tx_reads ts t'"
  by (cases "cd_enc C x") (auto simp: tx_put_def tx_reads_do)

lemma begin_write_Inr: "begin_write backend R d = Inr t \<Longrightarrow> redb_ok R view \<Longrightarrow>
  t = \<lparr>tx_tables = view d, tx_writes = []\<rparr> \<and> tx_reads (view d) t"
  by (cases "rd_read R d") (auto simp: begin_write_def tx_reads_def dest: rd_read_view)

lemma tx_table_do [simp]:
  "tx_table (tx_do (W_open n) t) m = tx_table t m"
  "tx_table (tx_do (W_insert n k v) t) m = (if m = n then bt_insert k v (tx_table t n) else tx_table t m)"
  "tx_table (tx_do (W_remove n k) t) m = (if m = n then AList.delete k (tx_table t n) else tx_table t m)"
  by (simp_all add: tx_table_def tx_do_def table_of_def)

lemma tx_put_rows:
  assumes "rows_ok C (tx_table t n)" "codec_ok C" "tx_put err C n k x t = Inr t'"
  shows "rows_ok C (tx_table t' n)" "row C (tx_table t' n) = (row C (tx_table t n))(k \<mapsto> x)"
    "m \<noteq> n \<Longrightarrow> tx_table t' m = tx_table t m"
proof -
  obtain bs where "cd_enc C x = Inr bs" "t' = tx_do (W_insert n k bs) t"
    using assms(3) by (cases "cd_enc C x") (auto simp: tx_put_def)
  with rows_insert [OF assms(1,2), of x bs k]
  show "rows_ok C (tx_table t' n)" "row C (tx_table t' n) = (row C (tx_table t n))(k \<mapsto> x)"
    "m \<noteq> n \<Longrightarrow> tx_table t' m = tx_table t m" by simp_all
qed

lemma tx_put_total: "codec_total C \<Longrightarrow> \<exists>t'. tx_put err C n k x t = Inr t'"
  using codec_enc [of C x] by (auto simp: tx_put_def)

section \<open>The life of a store\<close>

text \<open>
  A store lives at a path: it is opened, called, and lost when its process stops at any moment
  between two calls. \<open>life\<close> runs such events; its result is the database left at the path, the
  open store if there is one, and the calls that reported success, in order. A call without an
  open store does nothing.
\<close>

datatype 'o event = Open | Crash | Call 'o

type_synonym ('d, 's, 'o) world = "'d option \<times> 's option \<times> 'o list"

fun life_step ::
  "('d option \<Rightarrow> ('e + 's) \<times> 'd option) \<Rightarrow> ('o \<Rightarrow> 's \<Rightarrow> ('e + unit) \<times> 's) \<Rightarrow> ('s \<Rightarrow> 'd) \<Rightarrow>
   'o event \<Rightarrow> ('d, 's, 'o) world \<Rightarrow> ('d, 's, 'o) world" where
  "life_step opn call db Open (path, live, acked) =
     (case opn path of (Inl _, path') \<Rightarrow> (path', None, acked) | (Inr s, path') \<Rightarrow> (path', Some s, acked))"
| "life_step opn call db Crash (path, live, acked) = (path, None, acked)"
| "life_step opn call db (Call a) (path, None, acked) = (path, None, acked)"
| "life_step opn call db (Call a) (path, Some s, acked) =
     (case call a s of
        (Inl _, s') \<Rightarrow> (Some (db s'), Some s', acked)
      | (Inr _, s') \<Rightarrow> (Some (db s'), Some s', acked @ [a]))"

definition life ::
  "('d option \<Rightarrow> ('e + 's) \<times> 'd option) \<Rightarrow> ('o \<Rightarrow> 's \<Rightarrow> ('e + unit) \<times> 's) \<Rightarrow> ('s \<Rightarrow> 'd) \<Rightarrow>
   'o event list \<Rightarrow> ('d, 's, 'o) world" where
  "life opn call db events = fold (life_step opn call db) events (None, None, [])"

text \<open>What the path holds, \<open>left\<close>, and what an open store holds, \<open>good\<close>, follow the successful calls.\<close>

lemma life_inv:
  assumes fresh: "left None []"
    and opn: "\<And>path path' ops r. left path ops \<Longrightarrow> opn path = (r, path') \<Longrightarrow>
      left path' ops \<and> (case r of Inl _ \<Rightarrow> True | Inr s \<Rightarrow> path' = Some (db s) \<and> good s ops)"
    and call: "\<And>a s s' ops r. good s ops \<Longrightarrow> call a s = (r, s') \<Longrightarrow>
      good s' (case r of Inl _ \<Rightarrow> ops | Inr _ \<Rightarrow> ops @ [a])"
    and close: "\<And>s ops. good s ops \<Longrightarrow> left (Some (db s)) ops"
    and "life opn call db events = (path, live, acked)"
  shows "left path acked \<and> (\<forall>s. live = Some s \<longrightarrow> path = Some (db s) \<and> good s acked)"
  using assms(5)
proof (induction events arbitrary: path live acked rule: rev_induct)
  case Nil
  then show ?case using fresh by (simp add: life_def)
next
  case (snoc e events)
  obtain path0 live0 acked0 where w: "life opn call db events = (path0, live0, acked0)" by (metis prod.exhaust)
  note IH = snoc.IH [OF w]
  have step: "life_step opn call db e (path0, live0, acked0) = (path, live, acked)"
    using snoc.prems w by (simp add: life_def)
  show ?case
  proof (cases e)
    case Open
    obtain r p' where o: "opn path0 = (r, p')" by fastforce
    with opn [OF conjunct1 [OF IH] o] step Open show ?thesis by (cases r) auto
  next
    case Crash
    with step IH show ?thesis by simp
  next
    case (Call a)
    show ?thesis
    proof (cases live0)
      case None
      with step IH Call show ?thesis by simp
    next
      case (Some s)
      obtain r s' where c: "call a s = (r, s')" by fastforce
      have "good s acked0" using IH Some by simp
      from call [OF this c] step Call Some c close show ?thesis by (cases r) auto
    qed
  qed
qed

end
