(* ===== verification/Persistent_Payload.thy ===== *)
theory Persistent_Payload
  imports Rows Payload_Store
begin

text \<open>
  \<open>PersistentPayloadStore\<close> of \<open>eidosdb-storage/src/persistent_payload.rs\<close>: payloads in a table of
  the embedded database, keyed by the sixteen bytes of the id and encoded by the serialization
  library. Both are parameters. It satisfies the contract of the payload port, errors included.
\<close>

section \<open>State and operations\<close>

definition PAYLOADS :: string where "PAYLOADS = ''payloads''"

record 'd PersistentPayloadStore =
  pp_db :: 'd
  pp_count :: nat

definition pe_read :: "'d Redb \<Rightarrow> 'd \<Rightarrow> PayloadError + table" where
  "pe_read R d = read_table Pe_Backend R PAYLOADS d"

definition pe_commit :: "'d Redb \<Rightarrow> db_write list \<Rightarrow> 'd \<Rightarrow> (PayloadError + unit) \<times> 'd" where
  "pe_commit R ws d = commit_as Pe_Backend R ws d"

definition pe_encode :: "Payload Codec \<Rightarrow> Payload \<Rightarrow> PayloadError + u8 list" where
  "pe_encode C payload = map_err Pe_Serialization (cd_enc C payload)"

definition pe_decode :: "Payload Codec \<Rightarrow> u8 list \<Rightarrow> PayloadError + Payload" where
  "pe_decode C bytes = map_err Pe_Serialization (cd_dec C bytes)"

text \<open>The database found at the path, if any; the second component is what the call leaves there.\<close>

definition Pp_open :: "'d Redb \<Rightarrow> 'd option \<Rightarrow> (PayloadError + 'd PersistentPayloadStore) \<times> 'd option" where
  "Pp_open R path =
     (case map_err Pe_Backend (rd_create R path) of
        Inl e \<Rightarrow> (Inl e, path)
      | Inr db \<Rightarrow>
     (case pe_commit R [W_open PAYLOADS] db of
        (Inl e, db) \<Rightarrow> (Inl e, Some db)
      | (Inr _, db) \<Rightarrow> (map_res (\<lambda>table. \<lparr>pp_db = db, pp_count = length table\<rparr>) (pe_read R db), Some db)))"

text \<open>Inside a write transaction the table is opened first, so a missing one reads as empty.\<close>

definition Pp_set ::
  "'d Redb \<Rightarrow> Payload Codec \<Rightarrow> VectorId \<Rightarrow> Payload \<Rightarrow> 'd PersistentPayloadStore \<Rightarrow>
   (PayloadError + unit) \<times> 'd PersistentPayloadStore" where
  "Pp_set R C i payload self =
     (case pe_encode C payload of
        Inl e \<Rightarrow> (Inl e, self)
      | Inr bytes \<Rightarrow>
     (case map_err Pe_Backend (rd_read R (pp_db self)) of
        Inl e \<Rightarrow> (Inl e, self)
      | Inr ts \<Rightarrow>
          (let was_new = map_of (table_of ts PAYLOADS) (slot_key i) = None
           in case pe_commit R [W_open PAYLOADS, W_insert PAYLOADS (slot_key i) bytes] (pp_db self) of
                (Inl e, db) \<Rightarrow> (Inl e, self\<lparr>pp_db := db\<rparr>)
              | (Inr _, db) \<Rightarrow>
                  (Inr (), self\<lparr>pp_db := db, pp_count := if was_new then pp_count self + 1 else pp_count self\<rparr>))))"

definition Pp_get ::
  "'d Redb \<Rightarrow> Payload Codec \<Rightarrow> VectorId \<Rightarrow> 'd PersistentPayloadStore \<Rightarrow> PayloadError + Payload option" where
  "Pp_get R C i self =
     res_bind (pe_read R (pp_db self)) (\<lambda>table. transpose_opt (pe_decode C) (map_of table (slot_key i)))"

definition Pp_remove ::
  "'d Redb \<Rightarrow> VectorId \<Rightarrow> 'd PersistentPayloadStore \<Rightarrow> (PayloadError + bool) \<times> 'd PersistentPayloadStore" where
  "Pp_remove R i self =
     (case map_err Pe_Backend (rd_read R (pp_db self)) of
        Inl e \<Rightarrow> (Inl e, self)
      | Inr ts \<Rightarrow>
          (let existed = map_of (table_of ts PAYLOADS) (slot_key i) \<noteq> None
           in case pe_commit R [W_open PAYLOADS, W_remove PAYLOADS (slot_key i)] (pp_db self) of
                (Inl e, db) \<Rightarrow> (Inl e, self\<lparr>pp_db := db\<rparr>)
              | (Inr _, db) \<Rightarrow>
                  (Inr existed, self\<lparr>pp_db := db, pp_count := if existed then pp_count self - 1 else pp_count self\<rparr>)))"

definition payload_row :: "Payload Codec \<Rightarrow> u8 list \<times> u8 list \<Rightarrow> PayloadError + VectorId \<times> Payload" where
  "payload_row C entry =
     (if length (fst entry) \<noteq> 16 then Inl (Pe_Backend ''payload key is not 16 bytes'')
      else map_res (Pair (VectorId_from_uuid (uuid_from_bytes (fst entry)))) (pe_decode C (snd entry)))"

definition Pp_matching_ids ::
  "'d Redb \<Rightarrow> Payload Codec \<Rightarrow> CompiledFilter \<Rightarrow> 'd PersistentPayloadStore \<Rightarrow> PayloadError + VectorId list" where
  "Pp_matching_ids R C f self =
     res_bind (pe_read R (pp_db self)) (\<lambda>table.
       map_res (\<lambda>rows. map fst (filter (\<lambda>(_, payload). CompiledFilter_matches f payload) rows))
         (traverse (payload_row C) table))"

definition Pp_store :: "'d Redb \<Rightarrow> Payload Codec \<Rightarrow> 'd PersistentPayloadStore PayloadStore" where
  "Pp_store R C =
     \<lparr>ps_set = Pp_set R C, ps_get = Pp_get R C, ps_remove = Pp_remove R, ps_len = pp_count,
      ps_matching_ids = Pp_matching_ids R C\<rparr>"

section \<open>The table as a map of payloads\<close>

definition payload_table_ok :: "Payload Codec \<Rightarrow> table \<Rightarrow> bool" where
  "payload_table_ok C st \<longleftrightarrow> rows_ok C st \<and> (\<forall>(k, v) \<in> set st. length k = 16)"

definition table_payloads :: "Payload Codec \<Rightarrow> table \<Rightarrow> VectorId \<rightharpoonup> Payload" where
  "table_payloads C st i = row C st (slot_key i)"

definition pp_table :: "('d \<Rightarrow> tables) \<Rightarrow> 'd PersistentPayloadStore \<Rightarrow> table" where
  "pp_table view self = table_of (view (pp_db self)) PAYLOADS"

definition pp_payloads :: "Payload Codec \<Rightarrow> ('d \<Rightarrow> tables) \<Rightarrow> 'd PersistentPayloadStore \<Rightarrow> VectorId \<rightharpoonup> Payload" where
  "pp_payloads C view self = table_payloads C (pp_table view self)"

text \<open>The hypotheses on the parameters are part of the invariant.\<close>

definition pp_ok ::
  "'d Redb \<Rightarrow> Payload Codec \<Rightarrow> ('d \<Rightarrow> tables) \<Rightarrow> 'd PersistentPayloadStore \<Rightarrow> bool" where
  "pp_ok R C view self \<longleftrightarrow> redb_ok R view \<and> codec_ok C \<and>
     view (pp_db self) PAYLOADS \<noteq> None \<and> payload_table_ok C (pp_table view self) \<and>
     pp_count self = length (pp_table view self)"

definition pp_ready ::
  "'d Redb \<Rightarrow> Payload Codec \<Rightarrow> ('d \<Rightarrow> tables) \<Rightarrow> 'd PersistentPayloadStore \<Rightarrow> bool" where
  "pp_ready R C view self \<longleftrightarrow> redb_total R \<and> codec_total C \<and> pp_ok R C view self"

lemma payload_rows:
  assumes "payload_table_ok C st"
  obtains rows where "traverse (payload_row C) st = Inr rows" "hm_ok rows" "map_of rows = table_payloads C st"
    "length st = card (dom (table_payloads C st))"
proof -
  let ?g = "\<lambda>bs. projr (cd_dec C bs)"
  let ?rows = "map (\<lambda>p. (VectorId_from_uuid (uuid_from_bytes (fst p)), ?g (snd p))) st"
  have st: "btree_ok st" "\<forall>(k, v) \<in> set st. length k = 16" and dec: "\<forall>(k, v) \<in> set st. \<exists>p. cd_dec C v = Inr p"
    using assms by (auto simp: payload_table_ok_def rows_ok_def)
  have tp: "(\<lambda>i. map_option ?g (map_of st (slot_key i))) = table_payloads C st"
    by (simp add: table_payloads_def row_def fun_eq_iff)
  have "traverse (payload_row C) st = Inr ?rows"
    by (rule traverse_all_Inr) (use st(2) dec in \<open>auto simp: payload_row_def pe_decode_def\<close>)
  then show ?thesis using that keyed_rows [OF st, where g = ?g, unfolded tp] by (simp add: hm_ok_def)
qed

lemma payload_table_insert:
  assumes "payload_table_ok C st" "codec_ok C" "cd_enc C p = Inr bs"
  shows "payload_table_ok C (bt_insert (slot_key i) bs st) \<and>
    table_payloads C (bt_insert (slot_key i) bs st) = (table_payloads C st)(i \<mapsto> p)"
  using rows_insert [OF _ assms(2,3), of st "slot_key i"] assms(1) set_bt_insert [of "slot_key i" bs st]
  by (fastforce simp: payload_table_ok_def table_payloads_def fun_eq_iff)

lemma payload_table_delete:
  assumes "payload_table_ok C st"
  shows "payload_table_ok C (AList.delete (slot_key i) st) \<and>
    table_payloads C (AList.delete (slot_key i) st) = (table_payloads C st)(i := None)"
  using rows_delete [of C st "slot_key i"] assms set_delete_subset [of "slot_key i" st]
  by (fastforce simp: payload_table_ok_def table_payloads_def fun_eq_iff)

lemma pe_read_ok: "pp_ok R C view s \<Longrightarrow> pe_read R (pp_db s) = Inr t \<Longrightarrow> t = pp_table view s"
  by (auto simp: pp_ok_def pe_read_def read_table_Inr [of R view] pp_table_def table_of_def)

lemma pe_read_reads: "pp_ok R C view s \<Longrightarrow> redb_reads R \<Longrightarrow> pe_read R (pp_db s) = Inr (pp_table view s)"
proof -
  assume ok: "pp_ok R C view s" and "redb_reads R"
  then have "rd_read R (pp_db s) = Inr (view (pp_db s))" by (intro rd_read_reads) (simp_all add: pp_ok_def)
  then show ?thesis using ok
    by (auto simp: pp_ok_def pe_read_def read_table_Inr [of R view] pp_table_def table_of_def)
qed

lemma pe_read_total: "pp_ready R C view s \<Longrightarrow> pe_read R (pp_db s) = Inr (pp_table view s)"
  using pe_read_reads [of R C view s] redb_total_reads [of R] by (simp add: pp_ready_def)

lemmas pe_commit_view = commit_as_view [where backend = Pe_Backend, folded pe_commit_def]
lemmas pe_commit_total = commit_as_total [where backend = Pe_Backend, folded pe_commit_def]

section \<open>Correctness of the operations\<close>

lemma pp_ok_table: "pp_ok R C view s \<Longrightarrow> view (pp_db s) PAYLOADS = Some (pp_table view s)"
  by (auto simp: pp_ok_def pp_table_def table_of_def)

lemma Pp_set_spec:
  assumes "pp_ok R C view s" "Pp_set R C i p s = (r, s')"
  shows "pp_ok R C view s' \<and>
    pp_payloads C view s' = (case r of Inl _ \<Rightarrow> pp_payloads C view s | Inr _ \<Rightarrow> (pp_payloads C view s)(i \<mapsto> p))"
proof (cases "pe_encode C p = Inr (projr (pe_encode C p)) \<and> rd_read R (pp_db s) = Inr (view (pp_db s))")
  case False
  have "rd_read R (pp_db s) = Inr ts \<Longrightarrow> ts = view (pp_db s)" for ts
    using assms(1) by (auto simp: pp_ok_def dest: rd_read_view)
  with False have "s' = s \<and> (\<exists>e. r = Inl e)" using assms(2)
    by (auto simp: Pp_set_def map_err_def split: sum.splits)
  with assms(1) show ?thesis by auto
next
  case True
  then obtain bs where bs: "pe_encode C p = Inr bs" and rd: "rd_read R (pp_db s) = Inr (view (pp_db s))" by blast
  from bs have enc: "cd_enc C p = Inr bs" by (cases "cd_enc C p") (simp_all add: pe_encode_def)
  let ?ws = "[W_open PAYLOADS, W_insert PAYLOADS (slot_key i) bs]" and ?st = "pp_table view s"
  obtain r0 db where c: "pe_commit R ?ws (pp_db s) = (r0, db)" by fastforce
  have R: "redb_ok R view" "codec_ok C" "payload_table_ok C ?st" "pp_count s = length ?st"
    using assms(1) by (simp_all add: pp_ok_def)
  then have b: "btree_ok ?st" by (simp add: payload_table_ok_def rows_ok_def)
  note v = pe_commit_view [OF R(1) c] and ins = payload_table_insert [OF R(3,2) enc, of i]
  have t: "table_of (view (pp_db s)) PAYLOADS = ?st" by (simp add: pp_table_def)
  show ?thesis
  proof (cases r0)
    case Inl
    then have "s' = s\<lparr>pp_db := db\<rparr>" "\<exists>e. r = Inl e" "view db = view (pp_db s)"
      using assms(2) v by (auto simp: Pp_set_def bs rd c)
    then show ?thesis using assms(1) by (auto simp: pp_ok_def pp_payloads_def pp_table_def)
  next
    case (Inr u)
    then have s': "s' = s\<lparr>pp_db := db, pp_count := length (bt_insert (slot_key i) bs ?st)\<rparr>" and "r = Inr ()"
      using assms(2) by (auto simp: Pp_set_def bs rd c t R(4) length_insert_delete [OF b])
    moreover have "view db = (view (pp_db s))(PAYLOADS \<mapsto> bt_insert (slot_key i) bs ?st)"
      using v Inr by (simp add: pp_table_def table_of_def)
    ultimately show ?thesis using R ins by (auto simp: pp_ok_def pp_payloads_def pp_table_def table_of_def)
  qed
qed

lemma Pp_remove_spec:
  assumes "pp_ok R C view s" "Pp_remove R i s = (r, s')"
  shows "pp_ok R C view s' \<and> (case r of Inl _ \<Rightarrow> pp_payloads C view s' = pp_payloads C view s
    | Inr b \<Rightarrow> b = (pp_payloads C view s i \<noteq> None) \<and> pp_payloads C view s' = (pp_payloads C view s)(i := None))"
proof (cases "rd_read R (pp_db s)")
  case (Inl e)
  with assms show ?thesis by (auto simp: Pp_remove_def)
next
  case (Inr ts)
  have R: "redb_ok R view" "codec_ok C" "payload_table_ok C (pp_table view s)" "pp_count s = length (pp_table view s)"
    using assms(1) by (simp_all add: pp_ok_def)
  have ts: "ts = view (pp_db s)" by (rule rd_read_view [OF R(1) Inr])
  let ?ws = "[W_open PAYLOADS, W_remove PAYLOADS (slot_key i)]" and ?st = "pp_table view s"
  obtain r0 db where c: "pe_commit R ?ws (pp_db s) = (r0, db)" by fastforce
  have b: "btree_ok ?st" using R(3) by (simp add: payload_table_ok_def rows_ok_def)
  note v = pe_commit_view [OF R(1) c] and del = payload_table_delete [OF R(3), of i]
  have t: "table_of (view (pp_db s)) PAYLOADS = ?st" by (simp add: pp_table_def)
  show ?thesis
  proof (cases r0)
    case Inl
    then have "s' = s\<lparr>pp_db := db\<rparr>" "\<exists>e. r = Inl e" "view db = view (pp_db s)"
      using assms(2) v by (auto simp: Pp_remove_def ts \<open>rd_read R (pp_db s) = Inr ts\<close> c)
    then show ?thesis using assms(1) by (auto simp: pp_ok_def pp_payloads_def pp_table_def)
  next
    case r0: (Inr u)
    then have s': "s' = s\<lparr>pp_db := db, pp_count := length (AList.delete (slot_key i) ?st)\<rparr>"
      and r: "r = Inr (map_of ?st (slot_key i) \<noteq> None)"
      using assms(2) by (auto simp: Pp_remove_def Let_def ts Inr c t R(4) length_insert_delete [OF b])
    moreover have "view db = (view (pp_db s))(PAYLOADS \<mapsto> AList.delete (slot_key i) ?st)"
      using v r0 by (simp add: pp_table_def table_of_def)
    ultimately show ?thesis using R del
      by (auto simp: pp_ok_def pp_payloads_def pp_table_def table_of_def table_payloads_def row_def)
  qed
qed

lemma Pp_get_row:
  "pp_ok R C view s \<Longrightarrow> Pp_get R C i s = map_res (\<lambda>_. pp_payloads C view s i) (pe_read R (pp_db s))"
proof -
  assume ok: "pp_ok R C view s"
  then have "rows_ok C (pp_table view s)" by (simp add: pp_ok_def payload_table_ok_def)
  then have "transpose_opt (pe_decode C) (map_of (pp_table view s) (slot_key i)) = Inr (pp_payloads C view s i)"
    using decode_row_ok [of C "pp_table view s" Pe_Serialization "slot_key i"]
    by (simp add: decode_row_def pe_decode_def [abs_def] pp_payloads_def table_payloads_def)
  then show ?thesis using pe_read_ok [OF ok]
    by (cases "pe_read R (pp_db s)") (simp_all add: Pp_get_def)
qed

lemma Pp_get_spec: "pp_ok R C view s \<Longrightarrow> Pp_get R C i s = Inr x \<Longrightarrow> x = pp_payloads C view s i"
  by (cases "pe_read R (pp_db s)") (simp_all add: Pp_get_row)

lemma Pp_matching_spec:
  assumes "pp_ok R C view s" "Pp_matching_ids R C f s = Inr ids"
  shows "distinct ids \<and> set ids = selected (compiled_root f) (pp_payloads C view s)"
proof -
  have tab: "payload_table_ok C (pp_table view s)" using assms(1) by (simp add: pp_ok_def)
  obtain rows where rows: "traverse (payload_row C) (pp_table view s) = Inr rows" "hm_ok rows"
    "map_of rows = table_payloads C (pp_table view s)" by (rule payload_rows [OF tab])
  have "pe_read R (pp_db s) = Inr t \<Longrightarrow> t = pp_table view s" for t by (rule pe_read_ok [OF assms(1)])
  then have "ids = map fst (filter (\<lambda>(_, payload). CompiledFilter_matches f payload) rows)"
    using assms(2) rows(1) by (auto simp: Pp_matching_ids_def)
  then show ?thesis using matching_filter [OF rows(2), of f] by (simp add: rows(3) pp_payloads_def)
qed

lemma pp_len_spec:
  assumes "pp_ok R C view s"
  shows "finite (dom (pp_payloads C view s)) \<and> pp_count s = card (dom (pp_payloads C view s))"
proof -
  have tab: "payload_table_ok C (pp_table view s)" using assms by (simp add: pp_ok_def)
  obtain rows where "map_of rows = table_payloads C (pp_table view s)"
    "length (pp_table view s) = card (dom (table_payloads C (pp_table view s)))" by (rule payload_rows [OF tab])
  then show ?thesis using assms by (simp add: pp_ok_def pp_payloads_def) (metis finite_dom_map_of)
qed

lemma Pp_store_simps [simp]:
  "ps_set (Pp_store R C) = Pp_set R C" "ps_get (Pp_store R C) = Pp_get R C"
  "ps_remove (Pp_store R C) = Pp_remove R" "ps_len (Pp_store R C) = pp_count"
  "ps_matching_ids (Pp_store R C) = Pp_matching_ids R C"
  by (simp_all add: Pp_store_def)

interpretation pp: payload_store "Pp_store R C" "pp_ok R C view" "pp_payloads C view"
proof unfold_locales
  fix s s' :: "'a PersistentPayloadStore" and i p r rr x c ids
  assume ok: "pp_ok R C view s"
  show "finite (dom (pp_payloads C view s))" and "ps_len (Pp_store R C) s = card (dom (pp_payloads C view s))"
    using pp_len_spec [OF ok] by simp_all
  show "ps_set (Pp_store R C) i p s = (r, s') \<Longrightarrow> pp_ok R C view s' \<and>
      pp_payloads C view s' = (case r of Inl _ \<Rightarrow> pp_payloads C view s | Inr _ \<Rightarrow> (pp_payloads C view s)(i \<mapsto> p))"
    unfolding Pp_store_simps by (rule Pp_set_spec [OF ok])
  show "ps_remove (Pp_store R C) i s = (rr, s') \<Longrightarrow> pp_ok R C view s' \<and>
      (case rr of Inl _ \<Rightarrow> pp_payloads C view s' = pp_payloads C view s
       | Inr b \<Rightarrow> b = (pp_payloads C view s i \<noteq> None) \<and> pp_payloads C view s' = (pp_payloads C view s)(i := None))"
    unfolding Pp_store_simps by (rule Pp_remove_spec [OF ok])
  show "ps_get (Pp_store R C) i s = Inr x \<Longrightarrow> x = pp_payloads C view s i"
    unfolding Pp_store_simps by (rule Pp_get_spec [OF ok])
  show "ps_matching_ids (Pp_store R C) c s = Inr ids \<Longrightarrow>
      distinct ids \<and> set ids = selected (compiled_root c) (pp_payloads C view s)"
    unfolding Pp_store_simps by (rule Pp_matching_spec [OF ok])
qed

section \<open>Without failures of the parameters\<close>

lemma codec_encode: "codec_total C \<Longrightarrow> \<exists>bs. pe_encode C p = Inr bs"
  using codec_enc [of C p] by (auto simp: pe_encode_def)

lemma pp_ready_parts:
  "pp_ready R C view s \<Longrightarrow> redb_ok R view \<and> redb_total R \<and> codec_total C \<and> pp_ok R C view s"
  by (simp add: pp_ready_def pp_ok_def)

lemma Pp_set_total: "pp_ready R C view s \<Longrightarrow> fst (Pp_set R C i p s) = Inr ()"
proof -
  assume "pp_ready R C view s"
  note ok = pp_ready_parts [OF this]
  obtain bs where "pe_encode C p = Inr bs" using ok codec_encode by blast
  moreover obtain db where "pe_commit R [W_open PAYLOADS, W_insert PAYLOADS (slot_key i) bs] (pp_db s) = (Inr (), db)"
    using pe_commit_total [of R] ok by auto
  moreover have "rd_read R (pp_db s) = Inr (view (pp_db s))" by (rule rd_read_total) (simp_all add: ok)
  ultimately show ?thesis by (simp add: Pp_set_def)
qed

lemma Pp_remove_total: "pp_ready R C view s \<Longrightarrow> fst (Pp_remove R i s) = Inr (pp_payloads C view s i \<noteq> None)"
proof -
  assume "pp_ready R C view s"
  note ok = pp_ready_parts [OF this]
  obtain db where "pe_commit R [W_open PAYLOADS, W_remove PAYLOADS (slot_key i)] (pp_db s) = (Inr (), db)"
    using pe_commit_total [of R] ok by auto
  moreover have "rd_read R (pp_db s) = Inr (view (pp_db s))" by (rule rd_read_total) (simp_all add: ok)
  ultimately show ?thesis
    by (simp add: Pp_remove_def Let_def pp_payloads_def table_payloads_def pp_table_def row_def)
qed

lemma Pp_get_reads: "pp_ok R C view s \<Longrightarrow> redb_reads R \<Longrightarrow> Pp_get R C i s = Inr (pp_payloads C view s i)"
  by (simp add: Pp_get_row pe_read_reads)

lemma Pp_matching_reads: "pp_ok R C view s \<Longrightarrow> redb_reads R \<Longrightarrow> \<exists>ids. Pp_matching_ids R C f s = Inr ids"
proof -
  assume ok: "pp_ok R C view s" and "redb_reads R"
  note rd = pe_read_reads [OF this]
  have tab: "payload_table_ok C (pp_table view s)" using ok by (simp add: pp_ok_def)
  obtain rows where "traverse (payload_row C) (pp_table view s) = Inr rows" by (rule payload_rows [OF tab])
  then show ?thesis by (simp add: Pp_matching_ids_def rd)
qed

interpretation pp_ready: total_store "Pp_store R C" "pp_ready R C view" "pp_payloads C view"
proof unfold_locales
  fix s s' :: "'a PersistentPayloadStore" and i p r rr x c ids
  assume ready: "pp_ready R C view s"
  then have ok: "pp_ok R C view s" by (simp add: pp_ready_def)
  have keep: "pp_ready R C view s' \<longleftrightarrow> pp_ok R C view s'" for s' :: "'a PersistentPayloadStore"
    using ready by (simp add: pp_ready_def)
  note [simp] = keep
  show "finite (dom (pp_payloads C view s))" and "ps_len (Pp_store R C) s = card (dom (pp_payloads C view s))"
    using pp_len_spec [OF ok] by simp_all
  show "ps_set (Pp_store R C) i p s = (r, s') \<Longrightarrow> pp_ready R C view s' \<and>
      pp_payloads C view s' = (case r of Inl _ \<Rightarrow> pp_payloads C view s | Inr _ \<Rightarrow> (pp_payloads C view s)(i \<mapsto> p))"
    unfolding Pp_store_simps keep by (rule Pp_set_spec [OF ok])
  show "ps_remove (Pp_store R C) i s = (rr, s') \<Longrightarrow> pp_ready R C view s' \<and>
      (case rr of Inl _ \<Rightarrow> pp_payloads C view s' = pp_payloads C view s
       | Inr b \<Rightarrow> b = (pp_payloads C view s i \<noteq> None) \<and> pp_payloads C view s' = (pp_payloads C view s)(i := None))"
    unfolding Pp_store_simps keep by (rule Pp_remove_spec [OF ok])
  show "ps_get (Pp_store R C) i s = Inr x \<Longrightarrow> x = pp_payloads C view s i"
    unfolding Pp_store_simps by (rule Pp_get_spec [OF ok])
  show "ps_matching_ids (Pp_store R C) c s = Inr ids \<Longrightarrow>
      distinct ids \<and> set ids = selected (compiled_root c) (pp_payloads C view s)"
    unfolding Pp_store_simps by (rule Pp_matching_spec [OF ok])
  show "fst (ps_set (Pp_store R C) i p s) = Inr ()"
    unfolding Pp_store_simps by (rule Pp_set_total [OF ready])
  show "fst (ps_remove (Pp_store R C) i s) = Inr (pp_payloads C view s i \<noteq> None)"
    unfolding Pp_store_simps by (rule Pp_remove_total [OF ready])
  show "ps_get (Pp_store R C) i s = Inr (pp_payloads C view s i)"
    unfolding Pp_store_simps by (rule Pp_get_reads [OF ok redb_total_reads]) (use ready in \<open>simp add: pp_ready_def\<close>)
  show "\<exists>ids. ps_matching_ids (Pp_store R C) c s = Inr ids"
    unfolding Pp_store_simps by (rule Pp_matching_reads [OF ok redb_total_reads]) (use ready in \<open>simp add: pp_ready_def\<close>)
qed

section \<open>Opening\<close>

text \<open>A path holds no database, or one whose table, if it has it, is a map of payloads.\<close>

definition path_payloads :: "Payload Codec \<Rightarrow> ('d \<Rightarrow> tables) \<Rightarrow> 'd option \<Rightarrow> VectorId \<rightharpoonup> Payload" where
  "path_payloads C view path = table_payloads C (table_of (path_view view path) PAYLOADS)"

definition path_ok :: "Payload Codec \<Rightarrow> ('d \<Rightarrow> tables) \<Rightarrow> 'd option \<Rightarrow> bool" where
  "path_ok C view path \<longleftrightarrow> payload_table_ok C (table_of (path_view view path) PAYLOADS)"

lemma Pp_open_spec:
  assumes "redb_ok R view" "codec_ok C" "path_ok C view path" "Pp_open R path = (r, path')"
  shows "path_ok C view path' \<and> path_payloads C view path' = path_payloads C view path \<and>
    (case r of Inl _ \<Rightarrow> True
     | Inr s \<Rightarrow> path' = Some (pp_db s) \<and> pp_ok R C view s \<and> pp_payloads C view s = path_payloads C view path)"
proof (cases "map_err Pe_Backend (rd_create R path)")
  case (Inl e)
  with assms(3,4) show ?thesis by (auto simp: Pp_open_def)
next
  case (Inr db)
  let ?st = "table_of (view db) PAYLOADS"
  have "rd_create R path = Inr db" using Inr by (cases "rd_create R path") simp_all
  then have st: "payload_table_ok C ?st" "table_payloads C ?st = path_payloads C view path"
    using assms(3) rd_create_view [OF assms(1)] by (simp_all add: path_ok_def path_payloads_def)
  obtain r0 db' where c: "pe_commit R [W_open PAYLOADS] db = (r0, db')" by fastforce
  have view: "view db' = (case r0 of Inl _ \<Rightarrow> view db | Inr _ \<Rightarrow> (view db)(PAYLOADS \<mapsto> ?st))"
    using pe_commit_view [OF assms(1) c] by (simp split: sum.split)
  then have tab: "table_of (view db') PAYLOADS = ?st" by (simp add: table_of_def split: sum.splits)
  have p': "path' = Some db'" using assms(4) by (auto simp: Pp_open_def Inr c split: sum.splits)
  have "path' = Some (pp_db s) \<and> pp_ok R C view s \<and> pp_payloads C view s = path_payloads C view path"
    if s: "r = Inr s" for s
  proof -
    obtain u where r0: "r0 = Inr u" using assms(4) s by (cases r0) (auto simp: Pp_open_def Inr c)
    have "map_res (\<lambda>table. \<lparr>pp_db = db', pp_count = length table\<rparr>) (pe_read R db') = Inr s"
      using assms(4) s by (simp add: Pp_open_def Inr c r0)
    then obtain t where "pe_read R db' = Inr t" and s: "s = \<lparr>pp_db = db', pp_count = length t\<rparr>"
      by (cases "pe_read R db'") auto
    then have "t = ?st" using view r0 by (auto simp: pe_read_def read_table_Inr [OF assms(1)])
    then show ?thesis using s p' tab st assms(1,2) view r0
      by (simp add: pp_ok_def pp_payloads_def pp_table_def)
  qed
  then show ?thesis using p' tab st by (auto simp: path_ok_def path_payloads_def path_view_def split: sum.split)
qed

lemma Pp_open_total:
  assumes "redb_ok R view" "redb_total R" "codec_ok C" "codec_total C" "path_ok C view path"
  shows "\<exists>s. Pp_open R path = (Inr s, Some (pp_db s)) \<and> pp_ready R C view s \<and>
    pp_payloads C view s = path_payloads C view path"
proof -
  have "\<exists>db. rd_create R path = Inr db"
    using assms(2) by (simp add: redb_total_def)
  then obtain db where db: "rd_create R path = Inr db" by blast
  obtain db' where c: "pe_commit R [W_open PAYLOADS] db = (Inr (), db')" using pe_commit_total [OF assms(2)] by blast
  then have "view db' PAYLOADS \<noteq> None" using pe_commit_view [OF assms(1) c] by simp
  then obtain t where "pe_read R db' = Inr t"
    using rd_read_total [OF assms(1,2)] by (auto simp: pe_read_def read_table_Inr [OF assms(1)])
  then obtain s where s: "Pp_open R path = (Inr s, Some db')" by (simp add: Pp_open_def db c)
  from Pp_open_spec [OF assms(1,3,5) s] s assms(2,4) show ?thesis by (auto simp: pp_ready_def)
qed

section \<open>Equivalence with the in-memory store\<close>

datatype pay_op = Pay_set VectorId Payload | Pay_remove VectorId

fun pay_call :: "'p PayloadStore \<Rightarrow> pay_op \<Rightarrow> 'p \<Rightarrow> (PayloadError + unit) \<times> 'p" where
  "pay_call P (Pay_set i p) s = ps_set P i p s"
| "pay_call P (Pay_remove i) s = (case ps_remove P i s of (r, s') \<Rightarrow> (map_res (\<lambda>_. ()) r, s'))"

fun pay_spec :: "pay_op \<Rightarrow> (VectorId \<rightharpoonup> Payload) \<Rightarrow> VectorId \<rightharpoonup> Payload" where
  "pay_spec (Pay_set i p) st = st(i \<mapsto> p)"
| "pay_spec (Pay_remove i) st = st(i := None)"

definition pp_life ::
  "'d Redb \<Rightarrow> Payload Codec \<Rightarrow> pay_op event list \<Rightarrow> ('d, 'd PersistentPayloadStore, pay_op) world" where
  "pp_life R C events = life (Pp_open R) (pay_call (Pp_store R C)) pp_db events"

definition pm_run :: "pay_op list \<Rightarrow> InMemoryPayloadStore" where
  "pm_run ops = fold (\<lambda>a s. snd (pay_call InMemoryPayloadStore_store a s)) ops InMemoryPayloadStore_new"

lemma pm_run_ok: "pm_ok (pm_run ops) \<and> pm_contents (pm_run ops) = fold pay_spec ops Map.empty"
proof (induction ops rule: rev_induct)
  case Nil
  then show ?case by (simp add: pm_run_def InMemoryPayloadStore_new_def pm_ok_def pm_contents_def)
next
  case (snoc a ops)
  then have ok: "pm_ok (pm_run ops)" and c: "pm_contents (pm_run ops) = fold pay_spec ops Map.empty" by simp_all
  have step: "pm_run (ops @ [a]) = snd (pay_call InMemoryPayloadStore_store a (pm_run ops))" by (simp add: pm_run_def)
  show ?case
  proof (cases a)
    case (Pay_set i p)
    show ?thesis unfolding step using in_memory_store.set_spec [OF ok, of i p] by (auto simp: Pay_set c)
  next
    case (Pay_remove i)
    show ?thesis unfolding step using in_memory_store.remove_spec [OF ok, of i] by (auto simp: Pay_remove c)
  qed
qed

lemma pay_call_ok:
  assumes "pp_ok R C view s" "pay_call (Pp_store R C) a s = (r, s')"
  shows "pp_ok R C view s' \<and>
    pp_payloads C view s' = (case r of Inl _ \<Rightarrow> pp_payloads C view s | Inr _ \<Rightarrow> pay_spec a (pp_payloads C view s))"
proof (cases a)
  case (Pay_set i p)
  with assms(2) Pp_set_spec [OF assms(1), of i p r s'] show ?thesis by (cases r) simp_all
next
  case (Pay_remove i)
  then obtain r0 where "Pp_remove R i s = (r0, s')" "r = map_res (\<lambda>_. ()) r0"
    using assms(2) by (auto split: prod.splits)
  with Pay_remove Pp_remove_spec [OF assms(1), of i r0 s'] show ?thesis by (cases r0) auto
qed

lemma pp_life_ok:
  assumes "redb_ok R view" "codec_ok C" "pp_life R C events = (path, Some s, acked)"
  shows "pp_ok R C view s \<and> pp_payloads C view s = fold pay_spec acked Map.empty"
proof -
  let ?at = "\<lambda>path ops. path_ok C view path \<and> path_payloads C view path = fold pay_spec ops Map.empty"
  let ?inv = "\<lambda>s ops. pp_ok R C view s \<and> pp_payloads C view s = fold pay_spec ops Map.empty"
  have "?at path acked \<and> (\<forall>s'. Some s = Some s' \<longrightarrow> path = Some (pp_db s') \<and> ?inv s' acked)"
  proof (rule life_inv [where opn = "Pp_open R" and call = "pay_call (Pp_store R C)" and events = events])
    show "?at None []"
      by (simp add: path_ok_def path_payloads_def path_view_def table_of_def payload_table_ok_def
          table_payloads_def fun_eq_iff)
    show "life (Pp_open R) (pay_call (Pp_store R C)) pp_db events = (path, Some s, acked)"
      using assms(3) by (simp add: pp_life_def)
    show "?inv s ops \<Longrightarrow> ?at (Some (pp_db s)) ops" for s ops
      by (simp add: pp_ok_def path_ok_def path_payloads_def path_view_def pp_payloads_def pp_table_def)
    show "?at path ops \<Longrightarrow> Pp_open R path = (r, path') \<Longrightarrow> ?at path' ops \<and>
        (case r of Inl _ \<Rightarrow> True | Inr s \<Rightarrow> path' = Some (pp_db s) \<and> ?inv s ops)" for path path' ops r
      using Pp_open_spec [OF assms(1,2), of path r path'] by (auto split: sum.splits)
    show "?inv s ops \<Longrightarrow> pay_call (Pp_store R C) a s = (r, s') \<Longrightarrow>
        ?inv s' (case r of Inl _ \<Rightarrow> ops | Inr _ \<Rightarrow> ops @ [a])" for a s s' ops r
      using pay_call_ok [of R C view s a r s'] by (cases r) auto
  qed
  then show ?thesis by simp
qed

text \<open>
  C18. The persistent payload store answers like the in-memory one. After any history of openings, stops of the
  process, writes and removals, some of which may have failed, an open store has the number of
  payloads, the payload of every id and the ids for every filter of an in-memory store to which
  just the successful operations were applied.
\<close>

theorem persistent_payloads_equal_oracle:
  assumes "redb_ok R view" "redb_reads R" "codec_ok C" "pp_life R C events = (path, Some s, acked)"
  shows "pp_count s = length (pm_payloads (pm_run acked)) \<and>
    Pp_get R C i s = InMemoryPayloadStore_get i (pm_run acked) \<and>
    (\<exists>ids ids'. Pp_matching_ids R C f s = Inr ids \<and>
       InMemoryPayloadStore_matching_ids f (pm_run acked) = Inr ids' \<and> distinct ids \<and> set ids = set ids')"
proof -
  note p = pp_life_ok [OF assms(1,3,4)] and m = pm_run_ok [of acked]
  then have ok: "pp_ok R C view s" and eq: "pp_payloads C view s = pm_contents (pm_run acked)" by simp_all
  have "pp_count s = length (pm_payloads (pm_run acked))"
    using pp_len_spec [OF ok] m eq by (simp add: pm_ok_def pm_contents_def hm_length)
  moreover have "Pp_get R C i s = InMemoryPayloadStore_get i (pm_run acked)"
    by (simp add: Pp_get_reads [OF ok assms(2)] eq InMemoryPayloadStore_get_def pm_contents_def)
  moreover obtain ids where ids: "Pp_matching_ids R C f s = Inr ids" using Pp_matching_reads [OF ok assms(2)] by blast
  moreover obtain ids' where "InMemoryPayloadStore_matching_ids f (pm_run acked) = Inr ids'"
    "set ids' = selected (compiled_root f) (pm_contents (pm_run acked))"
    using in_memory_store.matching_spec [OF conjunct1 [OF m], of f] by (auto simp: InMemoryPayloadStore_store_def)
  ultimately show ?thesis using Pp_matching_spec [OF ok ids] eq by auto
qed

lemma persistent_payloads_equal_oracle_witness:
  "\<exists>path s. pp_life mem_redb payload_codec
      [Open, Call (Pay_set (VectorId 7) (Payload [(''a'', Scalar (Bool True))])), Crash, Open, Call (Pay_remove (VectorId 9))] =
      (path, Some s, [Pay_set (VectorId 7) (Payload [(''a'', Scalar (Bool True))]), Pay_remove (VectorId 9)]) \<and>
    Pp_get mem_redb payload_codec (VectorId 7) s = Inr (Some (Payload [(''a'', Scalar (Bool True))]))"
proof -
  let ?R = mem_redb and ?C = payload_codec and ?p = "Payload [(''a'', Scalar (Bool True))]" and ?view = "\<lambda>d :: tables. d"
  let ?w = "pp_life ?R ?C [Open, Call (Pay_set (VectorId 7) ?p), Crash, Open, Call (Pay_remove (VectorId 9))]"
  note total = Pp_open_total [OF mem_redb_ok payload_codec_ok]
  have fresh: "path_ok ?C ?view None" by (simp add: path_ok_def path_view_def table_of_def payload_table_ok_def)
  obtain s0 where s0: "Pp_open ?R None = (Inr s0, Some (pp_db s0))" "pp_ready ?R ?C ?view s0"
    using total [OF fresh] by blast
  obtain s1 where s1: "Pp_set ?R ?C (VectorId 7) ?p s0 = (Inr (), s1)" "pp_ready ?R ?C ?view s1"
    using pp_ready.set_spec [OF s0(2), of "VectorId 7" ?p] by auto
  then have "path_ok ?C ?view (Some (pp_db s1))" by (simp add: pp_ready_def pp_ok_def path_ok_def path_view_def pp_table_def)
  from total [OF this] obtain s2 where s2: "Pp_open ?R (Some (pp_db s1)) = (Inr s2, Some (pp_db s2))" "pp_ready ?R ?C ?view s2"
    by blast
  obtain s3 b where s3: "Pp_remove ?R (VectorId 9) s2 = (Inr b, s3)"
    using pp_ready.remove_spec [OF s2(2), of "VectorId 9"] by auto
  have w: "?w = (Some (pp_db s3), Some s3, [Pay_set (VectorId 7) ?p, Pay_remove (VectorId 9)])"
    by (simp add: pp_life_def life_def s0 s1 s2 s3)
  from persistent_payloads_equal_oracle [OF mem_redb_ok(1) mem_redb_reads payload_codec_ok(1) w, of "VectorId 7"]
  have "Pp_get ?R ?C (VectorId 7) s3 = Inr (Some ?p)"
    by (simp add: pm_run_def pm_defs InMemoryPayloadStore_new_def)
  with w show ?thesis by blast
qed

end
