(* ===== verification/Persistent_Lexical.thy ===== *)
theory Persistent_Lexical
  imports Rows Lexical_Memory
begin

text \<open>
  \<open>PersistentLexicalIndex\<close> of \<open>eidosdb-storage/src/persistent_lexical.rs\<close>: postings, document
  lengths and term lists as rows of the embedded database. The database and the serialization
  library are parameters. Each operation is one transaction; the counters of documents and tokens
  are kept in memory and recomputed at opening. Frequencies and lengths are \<open>u32\<close>, the token total is a \<open>u64\<close>.
  The index meets the contract of the lexical port.
\<close>

section \<open>State\<close>

definition POSTINGS :: string where "POSTINGS = ''postings''"
definition DOC_LENGTHS :: string where "DOC_LENGTHS = ''doc_lengths''"
definition DOC_TERMS :: string where "DOC_TERMS = ''doc_terms''"

type_synonym posting = "uuid \<times> u32"

text \<open>The encodings of the three kinds of rows.\<close>

record LexCodecs =
  lc_postings :: "posting list Codec"
  lc_length :: "u32 Codec"
  lc_terms :: "string list Codec"

record 'd PersistentLexicalIndex =
  pl_db :: 'd
  pl_corpus_size :: nat
  pl_total_tokens :: u64

section \<open>Operations\<close>

definition Pl_open ::
  "'d Redb \<Rightarrow> LexCodecs \<Rightarrow> 'd option \<Rightarrow> (LexicalError + 'd PersistentLexicalIndex) \<times> 'd option" where
  "Pl_open R C path =
     (case map_err Lex_Backend (rd_create R path) of
        Inl e \<Rightarrow> (Inl e, path)
      | Inr db \<Rightarrow>
     (case commit_as Lex_Backend R [W_open POSTINGS, W_open DOC_LENGTHS, W_open DOC_TERMS] db of
        (Inl e, db) \<Rightarrow> (Inl e, Some db)
      | (Inr _, db) \<Rightarrow>
          (res_bind (read_table Lex_Backend R DOC_LENGTHS db) (\<lambda>table.
             map_res (\<lambda>lengths. \<lparr>pl_db = db, pl_corpus_size = length lengths, pl_total_tokens = sum_list (map ucast lengths)\<rparr>)
               (traverse (\<lambda>(_, value). map_err Lex_Serialization (cd_dec (lc_length C) value)) table)),
           Some db)))"

definition get_postings :: "LexCodecs \<Rightarrow> string \<Rightarrow> Txn \<Rightarrow> LexicalError + posting list" where
  "get_postings C term t =
     map_res (\<lambda>r. case r of None \<Rightarrow> [] | Some l \<Rightarrow> l)
       (decode_row Lex_Serialization (lc_postings C) (tx_table t POSTINGS) (str_key term))"

definition put_postings :: "LexCodecs \<Rightarrow> string \<Rightarrow> posting list \<Rightarrow> Txn \<Rightarrow> LexicalError + Txn" where
  "put_postings C term l t = tx_put Lex_Serialization (lc_postings C) POSTINGS (str_key term) l t"

text \<open>The loop that takes a document out of the postings of its terms.\<close>

fun unpost :: "LexCodecs \<Rightarrow> uuid \<Rightarrow> string list \<Rightarrow> Txn \<Rightarrow> LexicalError + Txn" where
  "unpost C u [] t = Inr t"
| "unpost C u (term # terms) t =
     res_bind (get_postings C term t) (\<lambda>l.
     res_bind (let l = filter (\<lambda>(other, _). other \<noteq> u) l in
               if l = [] then Inr (tx_do (W_remove POSTINGS (str_key term)) t) else put_postings C term l t)
       (\<lambda>t. unpost C u terms t))"

fun post :: "LexCodecs \<Rightarrow> uuid \<Rightarrow> (string \<times> u32) list \<Rightarrow> Txn \<Rightarrow> LexicalError + Txn" where
  "post C u [] t = Inr t"
| "post C u ((term, frequency) # frequencies) t =
     res_bind (get_postings C term t) (\<lambda>l.
     res_bind (put_postings C term (l @ [(u, frequency)]) t) (\<lambda>t. post C u frequencies t))"

text \<open>Both operations first remove a prior document; the result is the two deltas.\<close>

definition remove_prior :: "LexCodecs \<Rightarrow> VectorId \<Rightarrow> Txn \<Rightarrow> LexicalError + (int \<times> int) \<times> Txn" where
  "remove_prior C i t =
     res_bind (decode_row Lex_Serialization (lc_terms C) (tx_table t DOC_TERMS) (slot_key i)) (\<lambda>prior_terms.
       case prior_terms of
         None \<Rightarrow> Inr ((0, 0), t)
       | Some prior_terms \<Rightarrow>
           res_bind (unpost C (VectorId_as_uuid i) prior_terms t) (\<lambda>t.
             map_res (\<lambda>old. ((- 1, case old of None \<Rightarrow> 0 | Some n \<Rightarrow> - uint n), t))
               (decode_row Lex_Serialization (lc_length C) (tx_table t DOC_LENGTHS) (slot_key i))))"

definition apply_delta :: "int \<Rightarrow> nat \<Rightarrow> nat" where
  "apply_delta delta v = (if 0 \<le> delta then v + nat delta else v - nat (- delta))"

text \<open>
  The code subtracts with \<open>saturating_sub\<close>, which is the subtraction as long as the counter covers what is taken off it;
  it always does unless more than \<open>2 ^ 64\<close> tokens were stored at once and the additions have wrapped around.
\<close>

definition apply_token_delta :: "int \<Rightarrow> u64 \<Rightarrow> u64" where
  "apply_token_delta delta v = (if 0 \<le> delta then v + word_of_int delta else v - word_of_int (- delta))"

lemma apply_token_delta_saturating:
  assumes "delta < 0" "- delta \<le> uint v"
  shows "uint (apply_token_delta delta v) = max 0 (uint v + delta)"
proof -
  define w :: u64 where "w = word_of_int (- delta)"
  have w: "uint w = - delta"
    unfolding w_def using assms uint_lt2p [of v] by (intro word_of_int_inverse [OF refl]) auto
  then have "w \<le> v" using assms(2) by (simp only: word_le_def)
  then have "uint (v - w) = uint v + delta" using w by (simp add: uint_minus_simple_alt)
  moreover have "apply_token_delta delta v = v - w" using assms(1) by (simp add: apply_token_delta_def w_def)
  ultimately show ?thesis using assms(2) by simp
qed

definition open_tables :: "Txn \<Rightarrow> Txn" where
  "open_tables t = tx_do (W_open DOC_TERMS) (tx_do (W_open DOC_LENGTHS) (tx_do (W_open POSTINGS) t))"

text \<open>Commit, then adjust the counters; a failure before the commit drops the transaction.\<close>

definition finish_txn ::
  "'d Redb \<Rightarrow> LexicalError + (int \<times> int) \<times> Txn \<Rightarrow> 'd PersistentLexicalIndex \<Rightarrow>
   (LexicalError + unit) \<times> 'd PersistentLexicalIndex" where
  "finish_txn R r self =
     (case r of
        Inl e \<Rightarrow> (Inl e, self)
      | Inr ((size_delta, token_delta), t) \<Rightarrow>
          (case commit_as Lex_Backend R (tx_writes t) (pl_db self) of
             (Inl e, db) \<Rightarrow> (Inl e, self\<lparr>pl_db := db\<rparr>)
           | (Inr _, db) \<Rightarrow>
               (Inr (), \<lparr>pl_db = db, pl_corpus_size = apply_delta size_delta (pl_corpus_size self),
                         pl_total_tokens = apply_token_delta token_delta (pl_total_tokens self)\<rparr>)))"

definition Pl_insert ::
  "Unicode \<Rightarrow> 'd Redb \<Rightarrow> LexCodecs \<Rightarrow> VectorId \<Rightarrow> Document \<Rightarrow> 'd PersistentLexicalIndex \<Rightarrow>
   (LexicalError + unit) \<times> 'd PersistentLexicalIndex" where
  "Pl_insert U R C i document self =
     (let stats = doc_stats (tokenize U (doc_str document)) in
      finish_txn R
        (res_bind (begin_write Lex_Backend R (pl_db self)) (\<lambda>t.
         res_bind (remove_prior C i (open_tables t)) (\<lambda>((size_delta, token_delta), t).
         res_bind (post C (VectorId_as_uuid i) (ds_term_frequencies stats) t) (\<lambda>t.
         res_bind (tx_put Lex_Serialization (lc_terms C) DOC_TERMS (slot_key i)
                     (map fst (ds_term_frequencies stats)) t) (\<lambda>t.
         map_res (\<lambda>t. ((size_delta + 1, token_delta + uint (ds_length stats)), t))
           (tx_put Lex_Serialization (lc_length C) DOC_LENGTHS (slot_key i) (ds_length stats) t))))))
        self)"

definition Pl_remove ::
  "'d Redb \<Rightarrow> LexCodecs \<Rightarrow> VectorId \<Rightarrow> 'd PersistentLexicalIndex \<Rightarrow>
   (LexicalError + unit) \<times> 'd PersistentLexicalIndex" where
  "Pl_remove R C i self =
     finish_txn R
       (res_bind (begin_write Lex_Backend R (pl_db self)) (\<lambda>t.
        res_bind (remove_prior C i (open_tables t)) (\<lambda>((size_delta, token_delta), t).
          Inr ((size_delta, token_delta),
               if size_delta < 0
               then tx_do (W_remove DOC_TERMS (slot_key i)) (tx_do (W_remove DOC_LENGTHS (slot_key i)) t)
               else t))))
       self"

text \<open>Scores accumulate in a hash map by document, one query term after the other.\<close>

definition add_score :: "uuid \<Rightarrow> f64 \<Rightarrow> (uuid \<times> f64) list \<Rightarrow> (uuid \<times> f64) list" where
  "add_score u contribution scores =
     AList.update u (f64_add (case map_of scores u of None \<Rightarrow> 0 | Some s \<Rightarrow> s) contribution) scores"

fun score_postings ::
  "LexCodecs \<Rightarrow> table \<Rightarrow> (VectorId \<Rightarrow> bool) \<Rightarrow> f64 \<Rightarrow> f64 \<Rightarrow> posting list \<Rightarrow> (uuid \<times> f64) list \<Rightarrow>
   LexicalError + (uuid \<times> f64) list" where
  "score_postings C lengths is_admissible avg w [] scores = Inr scores"
| "score_postings C lengths is_admissible avg w ((u, frequency) # l) scores =
     (let i = VectorId_from_uuid u in
      if \<not> is_admissible i then score_postings C lengths is_admissible avg w l scores
      else res_bind (decode_row Lex_Serialization (lc_length C) lengths (slot_key i)) (\<lambda>value.
        case value of
          None \<Rightarrow> score_postings C lengths is_admissible avg w l scores
        | Some len \<Rightarrow> score_postings C lengths is_admissible avg w l
            (add_score u (term_score frequency len avg w) scores)))"

fun score_terms ::
  "(f64 \<Rightarrow> f64) \<Rightarrow> LexCodecs \<Rightarrow> table \<Rightarrow> table \<Rightarrow> (VectorId \<Rightarrow> bool) \<Rightarrow> nat \<Rightarrow> f64 \<Rightarrow> string list \<Rightarrow>
   (uuid \<times> f64) list \<Rightarrow> LexicalError + (uuid \<times> f64) list" where
  "score_terms ln_f C postings lengths is_admissible n avg [] scores = Inr scores"
| "score_terms ln_f C postings lengths is_admissible n avg (term # terms) scores =
     res_bind (decode_row Lex_Serialization (lc_postings C) postings (str_key term)) (\<lambda>value.
       case value of
         None \<Rightarrow> score_terms ln_f C postings lengths is_admissible n avg terms scores
       | Some l \<Rightarrow>
           res_bind (score_postings C lengths is_admissible avg (idf ln_f n (length l)) l scores)
             (score_terms ln_f C postings lengths is_admissible n avg terms))"

definition Pl_scored ::
  "Unicode \<Rightarrow> (f64 \<Rightarrow> f64) \<Rightarrow> 'd Redb \<Rightarrow> LexCodecs \<Rightarrow> string \<Rightarrow> (VectorId \<Rightarrow> bool) \<Rightarrow>
   'd PersistentLexicalIndex \<Rightarrow> LexicalError + (VectorId \<times> f64) list" where
  "Pl_scored U ln_f R C query is_admissible self =
     (if pl_corpus_size self = 0 then Inr []
      else
        let avg = f64_div (f64_of_int (uint (pl_total_tokens self))) (f64_of_int (int (pl_corpus_size self)))
        in res_bind (map_err Lex_Backend (rd_read R (pl_db self))) (\<lambda>ts.
           res_bind (open_in Lex_Backend R ts POSTINGS) (\<lambda>postings.
           res_bind (open_in Lex_Backend R ts DOC_LENGTHS) (\<lambda>lengths.
           map_res (\<lambda>scores. map (\<lambda>(u, s). (VectorId_from_uuid u, s)) (filter (\<lambda>(_, s). f64_lt 0 s) scores))
             (score_terms ln_f C postings lengths is_admissible (pl_corpus_size self) avg
                (tokenize U query) [])))))"

definition Pl_search_text_filtered ::
  "Unicode \<Rightarrow> (f64 \<Rightarrow> f64) \<Rightarrow> 'd Redb \<Rightarrow> LexCodecs \<Rightarrow> string \<Rightarrow> nat \<Rightarrow> (VectorId \<Rightarrow> bool) \<Rightarrow>
   'd PersistentLexicalIndex \<Rightarrow> (VectorId \<times> f64) list" where
  "Pl_search_text_filtered U ln_f R C query k is_admissible self =
     (case Pl_scored U ln_f R C query is_admissible self of
        Inl _ \<Rightarrow> []
      | Inr scored \<Rightarrow> take k (sort_by scored_cmp scored))"

definition Pl_index :: "Unicode \<Rightarrow> (f64 \<Rightarrow> f64) \<Rightarrow> 'd Redb \<Rightarrow> LexCodecs \<Rightarrow> 'd PersistentLexicalIndex LexicalIndex" where
  "Pl_index U ln_f R C =
     \<lparr>lx_insert = Pl_insert U R C, lx_remove = Pl_remove R C, lx_len = pl_corpus_size,
      lx_search_text_filtered = Pl_search_text_filtered U ln_f R C\<rparr>"

section \<open>The tables as a map of bags\<close>

lemma option_eqI: "(\<And>x. a = Some x \<longleftrightarrow> b = Some x) \<Longrightarrow> a = b"
  by (metis not_Some_eq)

text \<open>The postings of a term, as the frequencies of the documents that are posted.\<close>

definition posts :: "LexCodecs \<Rightarrow> (string \<Rightarrow> uuid \<Rightarrow> u32 option) \<Rightarrow> table \<Rightarrow> bool" where
  "posts C F t \<longleftrightarrow> rows_ok (lc_postings C) t \<and>
     (\<forall>tm. row (lc_postings C) t (str_key tm) \<noteq> Some [] \<and>
        (\<exists>l. (case row (lc_postings C) t (str_key tm) of None \<Rightarrow> [] | Some l \<Rightarrow> l) = l \<and>
           hm_ok l \<and> (\<forall>u n. (u, n) \<in> set l \<longleftrightarrow> F tm u = Some n)))"

definition freq_of :: "bags \<Rightarrow> string \<Rightarrow> uuid \<Rightarrow> u32 option" where
  "freq_of D tm u = Option.bind (D (VectorId_from_uuid u)) (\<lambda>M. bag_freq M tm)"

definition lengths_ok :: "LexCodecs \<Rightarrow> bags \<Rightarrow> table \<Rightarrow> bool" where
  "lengths_ok C D t \<longleftrightarrow> rows_ok (lc_length C) t \<and> (\<forall>(k, v) \<in> set t. length k = 16) \<and>
     (\<forall>i. row (lc_length C) t (slot_key i) = map_option bag_len (D i))"

definition terms_ok :: "LexCodecs \<Rightarrow> bags \<Rightarrow> table \<Rightarrow> bool" where
  "terms_ok C D t \<longleftrightarrow> rows_ok (lc_terms C) t \<and>
     (\<forall>i. rel_option (\<lambda>l M. distinct l \<and> set l = bag_terms M) (row (lc_terms C) t (slot_key i)) (D i))"

definition lex_codecs_ok :: "LexCodecs \<Rightarrow> bool" where
  "lex_codecs_ok C \<longleftrightarrow> codec_ok (lc_postings C) \<and> codec_ok (lc_length C) \<and> codec_ok (lc_terms C)"

definition lex_codecs_total :: "LexCodecs \<Rightarrow> bool" where
  "lex_codecs_total C \<longleftrightarrow> codec_total (lc_postings C) \<and> codec_total (lc_length C) \<and> codec_total (lc_terms C)"

lemma lex_table_names [simp]:
  "POSTINGS \<noteq> DOC_LENGTHS" "POSTINGS \<noteq> DOC_TERMS" "DOC_LENGTHS \<noteq> DOC_TERMS"
  "DOC_LENGTHS \<noteq> POSTINGS" "DOC_TERMS \<noteq> POSTINGS" "DOC_TERMS \<noteq> DOC_LENGTHS"
  by (simp_all add: POSTINGS_def DOC_LENGTHS_def DOC_TERMS_def)

lemma postsD:
  assumes "posts C F t"
  shows "hm_ok (case row (lc_postings C) t (str_key tm) of None \<Rightarrow> [] | Some l \<Rightarrow> l)"
    "(u, n) \<in> set (case row (lc_postings C) t (str_key tm) of None \<Rightarrow> [] | Some l \<Rightarrow> l) \<longleftrightarrow> F tm u = Some n"
    "rows_ok (lc_postings C) t"
  using assms unfolding posts_def by auto

lemma get_postings_posts:
  assumes "posts C F (tx_table t POSTINGS)"
  obtains l where "get_postings C tm t = Inr l" "hm_ok l" "\<And>u n. (u, n) \<in> set l \<longleftrightarrow> F tm u = Some n"
  using that [OF _ postsD(1) [OF assms] postsD(2) [OF assms]] postsD(3) [OF assms]
  by (simp add: get_postings_def)

text \<open>Rewriting the postings of one term.\<close>

lemma posts_update:
  assumes "posts C F t" "rows_ok (lc_postings C) t'" "hm_ok l" "\<And>u n. (u, n) \<in> set l \<longleftrightarrow> F' u = Some n"
    and "row (lc_postings C) t' = (row (lc_postings C) t)(str_key tm := (if l = [] then None else Some l))"
  shows "posts C (F(tm := F')) t'"
  using assms unfolding posts_def by (auto split: if_splits intro: option_eqI)

lemma unpost_posts:
  assumes "codec_ok (lc_postings C)" "posts C F (tx_table t POSTINGS)" "unpost C u terms t = Inr t'"
  shows "posts C (\<lambda>tm v. if v = u \<and> tm \<in> set terms then None else F tm v) (tx_table t' POSTINGS) \<and>
    (\<forall>m. m \<noteq> POSTINGS \<longrightarrow> tx_table t' m = tx_table t m) \<and> (\<forall>ts. tx_reads ts t \<longrightarrow> tx_reads ts t')"
  using assms(2,3)
proof (induction terms arbitrary: t F)
  case Nil
  then show ?case by simp
next
  case (Cons tm terms)
  obtain l where l: "get_postings C tm t = Inr l" "hm_ok l" "\<And>u n. (u, n) \<in> set l \<longleftrightarrow> F tm u = Some n"
    by (rule get_postings_posts [OF Cons.prems(1), of tm]) (rule that)
  let ?l = "filter (\<lambda>(other, _). other \<noteq> u) l" and ?F = "F(tm := (\<lambda>v. if v = u then None else F tm v))"
  have hl: "hm_ok ?l" using l(2) by (simp add: hm_ok_def distinct_map_filter)
  have ml: "(v, n) \<in> set ?l \<longleftrightarrow> (if v = u then None else F tm v) = Some n" for v n using l(3) by auto
  note old = postsD(3) [OF Cons.prems(1)]
  obtain t1 where t1: "unpost C u terms t1 = Inr t'"
    "posts C ?F (tx_table t1 POSTINGS)" "\<forall>m. m \<noteq> POSTINGS \<longrightarrow> tx_table t1 m = tx_table t m"
    "\<forall>ts. tx_reads ts t \<longrightarrow> tx_reads ts t1"
  proof (cases "?l = []")
    case True
    let ?t1 = "tx_do (W_remove POSTINGS (str_key tm)) t"
    have "unpost C u terms ?t1 = Inr t'" using Cons.prems(2) l(1) True by (simp add: Let_def)
    moreover have "posts C ?F (tx_table ?t1 POSTINGS)"
      using posts_update [OF Cons.prems(1) _ hl ml, of "tx_table ?t1 POSTINGS" tm] rows_delete [OF old, of "str_key tm"] True
      by simp
    ultimately show ?thesis using that [of ?t1] tx_reads_do by simp
  next
    case False
    then obtain t1 where t1: "put_postings C tm ?l t = Inr t1" "unpost C u terms t1 = Inr t'"
      using Cons.prems(2) l(1) by (auto simp: Let_def)
    note put = tx_put_rows [OF old assms(1) t1(1) [unfolded put_postings_def]]
    have "posts C ?F (tx_table t1 POSTINGS)"
      using posts_update [OF Cons.prems(1) put(1) hl ml, of tm] put(2) False by simp
    then show ?thesis using that [OF t1(2)] put(3) tx_reads_put [OF _ t1(1) [unfolded put_postings_def]] by blast
  qed
  have "(\<lambda>tm' v. if v = u \<and> tm' \<in> set terms then None else ?F tm' v) =
      (\<lambda>tm' v. if v = u \<and> tm' \<in> set (tm # terms) then None else F tm' v)" by (auto simp: fun_eq_iff)
  with Cons.IH [OF t1(2,1)] t1(3,4) show ?case by auto
qed

lemma post_posts:
  assumes "codec_ok (lc_postings C)" "posts C F (tx_table t POSTINGS)" "post C u fs t = Inr t'"
    and "distinct (map fst fs)" "\<forall>tm \<in> fst ` set fs. F tm u = None"
  shows "posts C (\<lambda>tm v. if v = u \<and> tm \<in> fst ` set fs then map_of fs tm else F tm v) (tx_table t' POSTINGS) \<and>
    (\<forall>m. m \<noteq> POSTINGS \<longrightarrow> tx_table t' m = tx_table t m) \<and> (\<forall>ts. tx_reads ts t \<longrightarrow> tx_reads ts t')"
  using assms(2-)
proof (induction fs arbitrary: t F)
  case Nil
  then show ?case by simp
next
  case (Cons p fs)
  obtain tm n where p: "p = (tm, n)" by fastforce
  obtain l where l: "get_postings C tm t = Inr l" "hm_ok l" "\<And>u n. (u, n) \<in> set l \<longleftrightarrow> F tm u = Some n"
    by (rule get_postings_posts [OF Cons.prems(1), of tm]) (rule that)
  let ?l = "l @ [(u, n)]" and ?F = "F(tm := (\<lambda>v. if v = u then Some n else F tm v))"
  have n: "F tm u = None" "tm \<notin> fst ` set fs" using Cons.prems by (auto simp: p)
  have "u \<notin> fst ` set l" using l(3) n(1) by force
  then have hl: "hm_ok ?l" using l(2) by (simp add: hm_ok_def)
  have ml: "(v, m) \<in> set ?l \<longleftrightarrow> (if v = u then Some n else F tm v) = Some m" for v m
    using l(3) n by auto
  obtain t1 where t1: "put_postings C tm ?l t = Inr t1" "post C u fs t1 = Inr t'"
    using Cons.prems(2) l(1) by (auto simp: p)
  note put = tx_put_rows [OF postsD(3) [OF Cons.prems(1)] assms(1) t1(1) [unfolded put_postings_def]]
  have ps: "posts C ?F (tx_table t1 POSTINGS)"
    using posts_update [OF Cons.prems(1) put(1) hl ml, of tm] put(2) by simp
  have "\<forall>tm' \<in> fst ` set fs. ?F tm' u = None" using n(2) Cons.prems(4) by (auto simp: p)
  from Cons.IH [OF ps t1(2) _ this] Cons.prems(3)
  have IH: "posts C (\<lambda>tm' v. if v = u \<and> tm' \<in> fst ` set fs then map_of fs tm' else ?F tm' v) (tx_table t' POSTINGS)"
    "\<forall>m. m \<noteq> POSTINGS \<longrightarrow> tx_table t' m = tx_table t1 m" "\<forall>ts. tx_reads ts t1 \<longrightarrow> tx_reads ts t'" by (auto simp: p)
  have "(\<lambda>tm' v. if v = u \<and> tm' \<in> fst ` set fs then map_of fs tm' else ?F tm' v) =
      (\<lambda>tm' v. if v = u \<and> tm' \<in> fst ` set (p # fs) then map_of (p # fs) tm' else F tm' v)"
    using n(2) by (auto simp: fun_eq_iff p)
  with IH put(3) tx_reads_put [OF _ t1(1) [unfolded put_postings_def]] show ?case by auto
qed

section \<open>One transaction\<close>

definition lex_tables :: "LexCodecs \<Rightarrow> bags \<Rightarrow> (string \<Rightarrow> table) \<Rightarrow> bool" where
  "lex_tables C D tab \<longleftrightarrow>
     posts C (freq_of D) (tab POSTINGS) \<and> lengths_ok C D (tab DOC_LENGTHS) \<and> terms_ok C D (tab DOC_TERMS)"

lemma freq_of_upd:
  "freq_of (D(i := x)) tm u =
     (if u = VectorId_as_uuid i then Option.bind x (\<lambda>M. bag_freq M tm) else freq_of D tm u)"
  by (cases i) (auto simp: freq_of_def VectorId_as_uuid_def VectorId_from_uuid_def)

lemma remove_prior_spec:
  assumes "codec_ok (lc_postings C)" "lex_tables C D (tx_table t)" "remove_prior C i t = Inr ((a, b), t')"
  shows "a = (if D i = None then 0 else - 1) \<and> b = (case D i of None \<Rightarrow> 0 | Some M \<Rightarrow> - uint (bag_len M)) \<and>
    posts C (freq_of (D(i := None))) (tx_table t' POSTINGS) \<and>
    tx_table t' DOC_LENGTHS = tx_table t DOC_LENGTHS \<and> tx_table t' DOC_TERMS = tx_table t DOC_TERMS \<and>
    (\<forall>ts. tx_reads ts t \<longrightarrow> tx_reads ts t')"
proof -
  have ps: "posts C (freq_of D) (tx_table t POSTINGS)"
    and ls: "rows_ok (lc_length C) (tx_table t DOC_LENGTHS)"
      "row (lc_length C) (tx_table t DOC_LENGTHS) (slot_key i) = map_option bag_len (D i)"
    and ts: "rows_ok (lc_terms C) (tx_table t DOC_TERMS)"
      "rel_option (\<lambda>l M. distinct l \<and> set l = bag_terms M) (row (lc_terms C) (tx_table t DOC_TERMS) (slot_key i)) (D i)"
    using assms(2) by (auto simp: lex_tables_def lengths_ok_def terms_ok_def)
  show ?thesis
  proof (cases "D i")
    case None
    then have "row (lc_terms C) (tx_table t DOC_TERMS) (slot_key i) = None" "D(i := None) = D"
      using ts(2) by (auto simp: fun_eq_iff)
    then show ?thesis using assms(3) None ts(1) ps by (simp add: remove_prior_def)
  next
    case (Some M)
    then obtain l where l: "row (lc_terms C) (tx_table t DOC_TERMS) (slot_key i) = Some l" "set l = bag_terms M"
      using ts(2) by (auto simp: option_rel_Some2)
    obtain t1 where t1: "unpost C (VectorId_as_uuid i) l t = Inr t1"
      using assms(3) ts(1) l(1) by (auto simp: remove_prior_def)
    note un = unpost_posts [OF assms(1) ps t1]
    have "(\<lambda>tm v. if v = VectorId_as_uuid i \<and> tm \<in> set l then None else freq_of D tm v) = freq_of (D(i := None))"
      using Some by (cases i) (auto simp: fun_eq_iff freq_of_upd l(2) freq_of_def VectorId_as_uuid_def
          VectorId_from_uuid_def bag_terms_def)
    moreover have "((a, b), t') = ((- 1, - uint (bag_len M)), t1)"
      using assms(3) ts(1) l(1) t1 un ls Some by (simp add: remove_prior_def)
    ultimately show ?thesis using un Some by simp
  qed
qed

lemma lengths_upd:
  assumes "lengths_ok C D t" "codec_ok (lc_length C)" "cd_enc (lc_length C) (bag_len M) = Inr bs"
  shows "lengths_ok C (D(i \<mapsto> M)) (bt_insert (slot_key i) bs t)"
  using rows_insert [OF _ assms(2,3), of t "slot_key i"] assms(1) set_bt_insert [of "slot_key i" bs t]
  by (fastforce simp: lengths_ok_def)

lemma lengths_del: "lengths_ok C D t \<Longrightarrow> lengths_ok C (D(i := None)) (AList.delete (slot_key i) t)"
  using rows_delete [of "lc_length C" t "slot_key i"] set_delete_subset [of "slot_key i" t]
  by (fastforce simp: lengths_ok_def)

lemma terms_del: "terms_ok C D t \<Longrightarrow> terms_ok C (D(i := None)) (AList.delete (slot_key i) t)"
  using rows_delete [of "lc_terms C" t "slot_key i"] by (auto simp: terms_ok_def)

lemma begin_spec:
  assumes "redb_ok R view" "begin_write Lex_Backend R d = Inr t"
  shows "tx_table (open_tables t) = table_of (view d)" "tx_reads (view d) (open_tables t)"
  using begin_write_Inr [OF assms(2,1)]
  by (auto simp: open_tables_def tx_reads_do fun_eq_iff) (simp add: tx_table_def)

definition insert_txn ::
  "Unicode \<Rightarrow> 'd Redb \<Rightarrow> LexCodecs \<Rightarrow> VectorId \<Rightarrow> Document \<Rightarrow> 'd \<Rightarrow> LexicalError + (int \<times> int) \<times> Txn" where
  "insert_txn U R C i document d =
     (let stats = doc_stats (tokenize U (doc_str document)) in
         res_bind (begin_write Lex_Backend R d) (\<lambda>t.
         res_bind (remove_prior C i (open_tables t)) (\<lambda>((size_delta, token_delta), t).
         res_bind (post C (VectorId_as_uuid i) (ds_term_frequencies stats) t) (\<lambda>t.
         res_bind (tx_put Lex_Serialization (lc_terms C) DOC_TERMS (slot_key i)
                     (map fst (ds_term_frequencies stats)) t) (\<lambda>t.
         map_res (\<lambda>t. ((size_delta + 1, token_delta + uint (ds_length stats)), t))
           (tx_put Lex_Serialization (lc_length C) DOC_LENGTHS (slot_key i) (ds_length stats) t))))))"

lemma Pl_insert_txn: "Pl_insert U R C i document self = finish_txn R (insert_txn U R C i document (pl_db self)) self"
  by (simp add: Pl_insert_def insert_txn_def Let_def)

lemma insert_txn_spec:
  assumes "redb_ok R view" "lex_codecs_ok C" "lex_tables C D (table_of (view d))"
    and "insert_txn U R C i document d = Inr ((a, b), t)"
  shows "a = (if D i = None then 1 else 0) \<and>
    b = uint (bag_len (bag U document)) - (case D i of None \<Rightarrow> 0 | Some M \<Rightarrow> uint (bag_len M)) \<and>
    lex_tables C (D(i \<mapsto> bag U document)) (tx_table t) \<and> tx_reads (view d) t"
proof -
  define st where "st = doc_stats (tokenize U (doc_str document))"
  define M where "M = bag U document"
  have cod: "codec_ok (lc_postings C)" "codec_ok (lc_length C)" "codec_ok (lc_terms C)"
    using assms(2) by (simp_all add: lex_codecs_ok_def)
  have hm: "hm_ok (ds_term_frequencies st)" and st: "map_of (ds_term_frequencies st) = bag_freq M" "ds_length st = bag_len M"
    using doc_stats_spec [of "tokenize U (doc_str document)"] unfolding st_def M_def bag_def
    by (metis stats_bag_simps)+
  obtain t0 where t0: "begin_write Lex_Backend R d = Inr t0"
    using assms(4) by (auto simp: insert_txn_def Let_def)
  note bs = begin_spec [OF assms(1) t0]
  obtain a1 b1 t1 where t1: "remove_prior C i (open_tables t0) = Inr ((a1, b1), t1)"
    using assms(4) t0 by (auto simp: insert_txn_def Let_def)
  have lt: "lex_tables C D (tx_table (open_tables t0))" using assms(3) bs(1) by simp
  note rp = remove_prior_spec [OF cod(1) lt t1]
  obtain t2 where t2: "post C (VectorId_as_uuid i) (ds_term_frequencies st) t1 = Inr t2"
    using assms(4) t0 t1 by (auto simp: insert_txn_def Let_def st_def)
  obtain t3 where t3: "tx_put Lex_Serialization (lc_terms C) DOC_TERMS (slot_key i)
      (map fst (ds_term_frequencies st)) t2 = Inr t3"
    using assms(4) t0 t1 t2 by (auto simp: insert_txn_def Let_def st_def)
  have t4: "tx_put Lex_Serialization (lc_length C) DOC_LENGTHS (slot_key i) (bag_len M) t3 = Inr t"
    and ab: "a = a1 + 1" "b = b1 + uint (bag_len M)"
    using assms(4) t0 t1 t2 t3 st(2) by (auto simp: insert_txn_def Let_def st_def)
  have "\<forall>tm \<in> fst ` set (ds_term_frequencies st). freq_of (D(i := None)) tm (VectorId_as_uuid i) = None"
    by (simp add: freq_of_upd)
  note po = post_posts [OF cod(1) conjunct1 [OF conjunct2 [OF conjunct2 [OF rp]]] t2 _ this]
  have keys: "fst ` set (ds_term_frequencies st) = bag_terms M"
    by (simp only: bag_terms_def st(1) [symmetric] dom_map_of_conv_image_fst)
  have "(\<lambda>tm v. if v = VectorId_as_uuid i \<and> tm \<in> fst ` set (ds_term_frequencies st)
        then map_of (ds_term_frequencies st) tm else freq_of (D(i := None)) tm v) = freq_of (D(i \<mapsto> M))"
    by (fastforce simp: fun_eq_iff freq_of_upd keys st(1) bag_terms_def)
  then have ps: "posts C (freq_of (D(i \<mapsto> M))) (tx_table t2 POSTINGS)" using po hm by (simp add: hm_ok_def)
  have keep: "tx_table t2 DOC_LENGTHS = table_of (view d) DOC_LENGTHS" "tx_table t2 DOC_TERMS = table_of (view d) DOC_TERMS"
    using po rp bs(1) hm by (simp_all add: hm_ok_def)
  have ter: "rows_ok (lc_terms C) (tx_table t2 DOC_TERMS)" and len: "lengths_ok C D (tx_table t2 DOC_LENGTHS)"
    using assms(3) by (simp_all add: keep lex_tables_def terms_ok_def)
  note p3 = tx_put_rows [OF ter cod(3) t3]
  have len3: "lengths_ok C D (tx_table t3 DOC_LENGTHS)" using len p3(3) by simp
  then have "rows_ok (lc_length C) (tx_table t3 DOC_LENGTHS)" by (simp add: lengths_ok_def)
  note p4 = tx_put_rows [OF this cod(2) t4]
  have "terms_ok C (D(i \<mapsto> M)) (tx_table t3 DOC_TERMS)"
    using assms(3) p3(1,2) keep(2) hm keys by (auto simp: lex_tables_def terms_ok_def hm_ok_def)
  moreover obtain bs where "cd_enc (lc_length C) (bag_len M) = Inr bs" "t = tx_do (W_insert DOC_LENGTHS (slot_key i) bs) t3"
    using t4 by (cases "cd_enc (lc_length C) (bag_len M)") (auto simp: tx_put_def)
  then have "lengths_ok C (D(i \<mapsto> M)) (tx_table t DOC_LENGTHS)" using lengths_upd [OF len3 cod(2)] by simp
  ultimately have "lex_tables C (D(i \<mapsto> M)) (tx_table t)"
    using ps p3(3) p4(3) by (simp add: lex_tables_def)
  moreover have "tx_reads (view d) t"
    using bs(2) rp po hm tx_reads_put [OF _ t3] tx_reads_put [OF _ t4] by (simp add: hm_ok_def)
  ultimately show ?thesis using rp ab by (auto simp: M_def split: option.splits)
qed

definition remove_txn ::
  "'d Redb \<Rightarrow> LexCodecs \<Rightarrow> VectorId \<Rightarrow> 'd \<Rightarrow> LexicalError + (int \<times> int) \<times> Txn" where
  "remove_txn R C i d =
     res_bind (begin_write Lex_Backend R d) (\<lambda>t.
     res_bind (remove_prior C i (open_tables t)) (\<lambda>((size_delta, token_delta), t).
       Inr ((size_delta, token_delta),
            if size_delta < 0
            then tx_do (W_remove DOC_TERMS (slot_key i)) (tx_do (W_remove DOC_LENGTHS (slot_key i)) t)
            else t)))"

lemma Pl_remove_txn: "Pl_remove R C i self = finish_txn R (remove_txn R C i (pl_db self)) self"
  by (simp add: Pl_remove_def remove_txn_def)

lemma remove_txn_spec:
  assumes "redb_ok R view" "lex_codecs_ok C" "lex_tables C D (table_of (view d))"
    and "remove_txn R C i d = Inr ((a, b), t)"
  shows "a = (if D i = None then 0 else - 1) \<and> b = (case D i of None \<Rightarrow> 0 | Some M \<Rightarrow> - uint (bag_len M)) \<and>
    lex_tables C (D(i := None)) (tx_table t) \<and> tx_reads (view d) t"
proof -
  have cod: "codec_ok (lc_postings C)" using assms(2) by (simp add: lex_codecs_ok_def)
  obtain t0 where t0: "begin_write Lex_Backend R d = Inr t0" using assms(4) by (auto simp: remove_txn_def)
  note bs = begin_spec [OF assms(1) t0]
  obtain a1 b1 t1 where t1: "remove_prior C i (open_tables t0) = Inr ((a1, b1), t1)"
    using assms(4) t0 by (auto simp: remove_txn_def)
  have lt: "lex_tables C D (tx_table (open_tables t0))" using assms(3) bs(1) by simp
  note rp = remove_prior_spec [OF cod lt t1]
  have keep: "tx_table t1 DOC_LENGTHS = table_of (view d) DOC_LENGTHS" "tx_table t1 DOC_TERMS = table_of (view d) DOC_TERMS"
    using rp bs(1) by simp_all
  have res: "a = a1" "b = b1"
    "t = (if a1 < 0 then tx_do (W_remove DOC_TERMS (slot_key i)) (tx_do (W_remove DOC_LENGTHS (slot_key i)) t1) else t1)"
    using assms(4) t0 t1 by (auto simp: remove_txn_def)
  have "lex_tables C (D(i := None)) (tx_table t)"
  proof (cases "D i")
    case None
    then have "D(i := None) = D" by (simp add: fun_eq_iff)
    then show ?thesis using rp assms(3) None by (simp add: res(3) lex_tables_def keep)
  next
    case (Some M)
    then show ?thesis using rp assms(3)
      by (simp add: res(3) lex_tables_def keep lengths_del terms_del)
  qed
  then show ?thesis using rp bs(2) by (auto simp: res tx_reads_do)
qed

section \<open>Invariant\<close>

text \<open>The bags of the documents are read back from the terms, the postings and the lengths.\<close>

definition posted_frequency :: "LexCodecs \<Rightarrow> (string \<Rightarrow> table) \<Rightarrow> string \<Rightarrow> uuid \<Rightarrow> u32 option" where
  "posted_frequency C tab tm u = Option.bind (row (lc_postings C) (tab POSTINGS) (str_key tm)) (\<lambda>l. map_of l u)"

definition tables_bags :: "LexCodecs \<Rightarrow> (string \<Rightarrow> table) \<Rightarrow> bags" where
  "tables_bags C tab i =
     map_option (\<lambda>len. \<lparr>bag_freq = (\<lambda>tm. posted_frequency C tab tm (VectorId_as_uuid i)), bag_len = len\<rparr>)
       (row (lc_length C) (tab DOC_LENGTHS) (slot_key i))"

lemma posted_frequency_eq:
  assumes "lex_tables C D tab"
  shows "posted_frequency C tab tm u = freq_of D tm u"
proof -
  have ps: "posts C (freq_of D) (tab POSTINGS)" using assms by (simp add: lex_tables_def)
  note p = postsD(1) [OF ps, of tm] postsD(2) [OF ps, of u _ tm]
  show ?thesis
  proof (cases "row (lc_postings C) (tab POSTINGS) (str_key tm)")
    case None
    then have "freq_of D tm u \<noteq> Some n" for n using p(2) [of n] by simp
    then have "freq_of D tm u = None" by (meson not_Some_eq)
    then show ?thesis using None by (simp add: posted_frequency_def)
  next
    case (Some l)
    then have "map_of l u = Some n \<longleftrightarrow> freq_of D tm u = Some n" for n
      using p by (simp add: hm_mem_iff [symmetric])
    then have "map_of l u = freq_of D tm u" by (simp add: option_eqI)
    then show ?thesis using Some by (simp add: posted_frequency_def)
  qed
qed

lemma tables_bags_eq:
  assumes "lex_tables C D tab"
  shows "tables_bags C tab = D"
proof
  fix i
  have "row (lc_length C) (tab DOC_LENGTHS) (slot_key i) = map_option bag_len (D i)"
    using assms by (simp add: lex_tables_def lengths_ok_def)
  then show "tables_bags C tab i = D i"
    by (cases i; cases "D i") (simp_all add: tables_bags_def posted_frequency_eq [OF assms] freq_of_def
        VectorId_as_uuid_def VectorId_from_uuid_def)
qed

definition pl_tab :: "('d \<Rightarrow> tables) \<Rightarrow> 'd PersistentLexicalIndex \<Rightarrow> string \<Rightarrow> table" where
  "pl_tab view self = table_of (view (pl_db self))"

definition pl_bags :: "LexCodecs \<Rightarrow> ('d \<Rightarrow> tables) \<Rightarrow> 'd PersistentLexicalIndex \<Rightarrow> bags" where
  "pl_bags C view self = tables_bags C (pl_tab view self)"

text \<open>A search that cannot read answers with an empty list, so the contract needs reads to succeed.\<close>

definition pl_ok :: "'d Redb \<Rightarrow> LexCodecs \<Rightarrow> ('d \<Rightarrow> tables) \<Rightarrow> 'd PersistentLexicalIndex \<Rightarrow> bool" where
  "pl_ok R C view self \<longleftrightarrow> redb_ok R view \<and> redb_reads R \<and> lex_codecs_ok C \<and>
     view (pl_db self) POSTINGS \<noteq> None \<and> view (pl_db self) DOC_LENGTHS \<noteq> None \<and>
     lex_tables C (pl_bags C view self) (pl_tab view self) \<and>
     pl_corpus_size self = card (dom (pl_bags C view self)) \<and>
     pl_total_tokens self = word_of_nat (total_length (pl_bags C view self))"

lemma map_snd_keys: "distinct (map fst m) \<Longrightarrow> map snd m = map (\<lambda>k. the (map_of m k)) (map fst m)"
proof -
  assume d: "distinct (map fst m)"
  have "snd p = the (map_of m (fst p))" if "p \<in> set m" for p
    using map_of_is_SomeI [OF d, of "fst p" "snd p"] that by simp
  then show ?thesis by simp
qed

lemma lengths_rows:
  assumes "lengths_ok C D t"
  shows "finite (dom D)" "length t = card (dom D)"
    "\<exists>ls. traverse (\<lambda>(_, value). map_err err (cd_dec (lc_length C) value)) t = Inr ls \<and>
       length ls = length t \<and> sum_list (map unat ls) = total_length D"
proof -
  let ?g = "\<lambda>bs. projr (cd_dec (lc_length C) bs)"
  let ?rows = "map (\<lambda>p. (VectorId_from_uuid (uuid_from_bytes (fst p)), ?g (snd p))) t"
  have t: "btree_ok t" "\<forall>(k, v) \<in> set t. length k = 16" and dec: "\<forall>(k, v) \<in> set t. \<exists>n. cd_dec (lc_length C) v = Inr n"
    and D: "(\<lambda>i. map_option ?g (map_of t (slot_key i))) = (\<lambda>i. map_option bag_len (D i))"
    using assms by (auto simp: lengths_ok_def rows_ok_def row_def)
  note k = keyed_rows [OF t, where g = ?g, unfolded D]
  have dm: "dom (\<lambda>i. map_option bag_len (D i)) = dom D" by auto
  have "finite (dom (map_of ?rows))" by (rule finite_dom_map_of)
  then show fin: "finite (dom D)" unfolding k(2) dm .
  show "length t = card (dom D)" using k(3) dm by simp
  have tr: "traverse (\<lambda>(_, value). map_err err (cd_dec (lc_length C) value)) t = Inr (map (\<lambda>p. ?g (snd p)) t)"
    by (rule traverse_all_Inr) (use dec in auto)
  have "sum_list (map unat (map snd ?rows)) = (\<Sum>i \<in> dom D. unat (bag_len (the (D i))))"
  proof -
    have "set (map fst ?rows) = dom (map_of ?rows)" by (simp only: dom_map_of_conv_image_fst list.set_map)
    then have keys: "set (map fst ?rows) = dom D" unfolding k(2) dm .
    have "map snd ?rows = map (\<lambda>i. the (map_of ?rows i)) (map fst ?rows)" by (rule map_snd_keys [OF k(1)])
    also have "sum_list (map unat \<dots>) = (\<Sum>i \<in> dom D. unat (the (map_of ?rows i)))"
      using sum_list_distinct_conv_sum_set [OF k(1), of "\<lambda>i. unat (the (map_of ?rows i))"] keys by (simp add: comp_def)
    also have "\<dots> = (\<Sum>i \<in> dom D. unat (bag_len (the (D i))))"
      unfolding k(2) by (intro sum.cong) auto
    finally show ?thesis .
  qed
  then have "sum_list (map unat (map (\<lambda>p. ?g (snd p)) t)) = total_length D" by (simp add: total_length_def comp_def)
  with tr show "\<exists>ls. traverse (\<lambda>(_, value). map_err err (cd_dec (lc_length C) value)) t = Inr ls \<and>
       length ls = length t \<and> sum_list (map unat ls) = total_length D" by auto
qed

section \<open>Insertion and removal\<close>

lemma sum_of_lengths: "sum_list (map ucast ls) = (word_of_nat (sum_list (map unat ls)) :: u64)" for ls :: "u32 list"
  by (induction ls) simp_all

lemma token_delta_total: "int n' = int n + b \<Longrightarrow> apply_token_delta b (word_of_nat n) = word_of_nat n'"
proof -
  assume "int n' = int n + b"
  then have "(word_of_nat n' :: u64) = word_of_int (int n + b)" by (metis of_int_of_nat_eq)
  then show ?thesis by (simp add: apply_token_delta_def)
qed

lemma pl_okD:
  assumes "pl_ok R C view s"
  shows "lex_tables C (pl_bags C view s) (table_of (view (pl_db s)))" "finite (dom (pl_bags C view s))"
  using assms lengths_rows(1) [of C "pl_bags C view s" "pl_tab view s DOC_LENGTHS"]
  by (simp_all add: pl_ok_def pl_tab_def [abs_def] lex_tables_def)

lemma fold_apply_write_Some:
  "ts n \<noteq> None \<Longrightarrow> W_delete_table n \<notin> set ws \<Longrightarrow> fold apply_write ws ts n \<noteq> None"
proof (induction ws arbitrary: ts)
  case (Cons w ws)
  have "apply_write w ts n \<noteq> None" using Cons.prems by (cases w) auto
  with Cons.IH [of "apply_write w ts"] Cons.prems(2) show ?case by simp
qed simp

text \<open>Both operations: nothing happens, or the transaction is applied and the counters follow.\<close>

lemma finish_spec:
  assumes ok: "pl_ok R C view s" and "finish_txn R txn s = (r, s')"
    and txn: "\<And>a b t. txn = Inr ((a, b), t) \<Longrightarrow> lex_tables C D' (tx_table t) \<and> tx_reads (view (pl_db s)) t \<and>
      (\<forall>n. W_delete_table n \<notin> set (tx_writes t)) \<and>
      int (card (dom D')) = int (card (dom (pl_bags C view s))) + a \<and>
      int (total_length D') = int (total_length (pl_bags C view s)) + b"
  shows "pl_ok R C view s' \<and> pl_bags C view s' = (case r of Inl _ \<Rightarrow> pl_bags C view s | Inr _ \<Rightarrow> D')"
proof (cases txn)
  case (Inl e)
  then show ?thesis using assms(1,2) by (auto simp: finish_txn_def)
next
  case (Inr p)
  obtain a b t where p: "p = ((a, b), t)" by (cases p) auto
  have redb: "redb_ok R view" using ok by (simp add: pl_ok_def)
  note t = txn [OF Inr [unfolded p]]
  obtain r0 db where c: "commit_as Lex_Backend R (tx_writes t) (pl_db s) = (r0, db)" by fastforce
  note v = commit_as_view [OF redb c]
  show ?thesis
  proof (cases r0)
    case Inl
    then have "s' = s\<lparr>pl_db := db\<rparr>" "\<exists>e. r = Inl e" "view db = view (pl_db s)"
      using assms(2) v by (auto simp: finish_txn_def \<open>txn = Inr p\<close> p c)
    then show ?thesis using ok by (auto simp: pl_ok_def pl_bags_def pl_tab_def)
  next
    case r0: (Inr u)
    have s': "s' = \<lparr>pl_db = db, pl_corpus_size = apply_delta a (pl_corpus_size s),
        pl_total_tokens = apply_token_delta b (pl_total_tokens s)\<rparr>" "r = Inr ()"
      using assms(2) by (auto simp: finish_txn_def Inr p c r0)
    have view: "view db = tx_tables t" using v r0 t by (simp add: tx_reads_def)
    have tab: "pl_tab view s' = tx_table t" by (simp add: s' pl_tab_def view tx_table_def fun_eq_iff)
    then have bags: "pl_bags C view s' = D'" using tables_bags_eq t by (simp add: pl_bags_def)
    have "view db n \<noteq> None" if "view (pl_db s) n \<noteq> None" for n
      using fold_apply_write_Some [of "view (pl_db s)" n "tx_writes t"] that t v r0 by simp
    note keep = this
    have "view db POSTINGS \<noteq> None" "view db DOC_LENGTHS \<noteq> None"
      using keep [of POSTINGS] keep [of DOC_LENGTHS] ok unfolding pl_ok_def by blast+
    moreover have "pl_corpus_size s' = card (dom D')" "pl_total_tokens s' = word_of_nat (total_length D')"
      using t ok by (auto simp: s' apply_delta_def pl_ok_def intro!: token_delta_total)
    ultimately show ?thesis using ok t tab bags by (simp add: pl_ok_def s')
  qed
qed

text \<open>No operation deletes a table.\<close>

definition keeps_tables :: "Txn \<Rightarrow> bool" where
  "keeps_tables t \<longleftrightarrow> (\<forall>n. W_delete_table n \<notin> set (tx_writes t))"

lemma keeps_do [simp]: "keeps_tables (tx_do w t) \<longleftrightarrow> keeps_tables t \<and> (\<forall>n. w \<noteq> W_delete_table n)"
  by (auto simp: keeps_tables_def tx_do_def)

lemma keeps_put: "tx_put err C n k x t = Inr t' \<Longrightarrow> keeps_tables t \<Longrightarrow> keeps_tables t'"
  by (cases "cd_enc C x") (auto simp: tx_put_def)

lemma keeps_unpost: "unpost C u terms t = Inr t' \<Longrightarrow> keeps_tables t \<Longrightarrow> keeps_tables t'"
  by (induction terms arbitrary: t) (auto simp: Let_def put_postings_def intro: keeps_put split: if_splits)

lemma keeps_post: "post C u fs t = Inr t' \<Longrightarrow> keeps_tables t \<Longrightarrow> keeps_tables t'"
  by (induction fs arbitrary: t) (auto simp: put_postings_def, meson keeps_put)

lemma keeps_remove_prior: "remove_prior C i t = Inr (ab, t') \<Longrightarrow> keeps_tables t \<Longrightarrow> keeps_tables t'"
  by (auto simp: remove_prior_def intro: keeps_unpost split: option.splits)

lemma keeps_begin: "begin_write backend R d = Inr t \<Longrightarrow> keeps_tables (open_tables t)"
  by (cases "rd_read R d") (auto simp: begin_write_def open_tables_def keeps_tables_def tx_do_def)

lemma keeps_remove_txn: "remove_txn R C i d = Inr (ab, t) \<Longrightarrow> keeps_tables t"
  by (auto simp: remove_txn_def intro: keeps_remove_prior [OF _ keeps_begin] split: if_splits)

lemma keeps_insert_txn: "insert_txn U R C i doc d = Inr (ab, t) \<Longrightarrow> keeps_tables t"
  by (auto simp: insert_txn_def Let_def) (meson keeps_put keeps_post keeps_remove_prior keeps_begin)

lemma Pl_insert_spec:
  assumes ok: "pl_ok R C view s" and "Pl_insert U R C i doc s = (r, s')"
  shows "pl_ok R C view s' \<and>
    pl_bags C view s' = (case r of Inl _ \<Rightarrow> pl_bags C view s | Inr _ \<Rightarrow> (pl_bags C view s)(i \<mapsto> bag U doc))"
proof (rule finish_spec [OF ok assms(2) [unfolded Pl_insert_txn]])
  fix a b t assume txn: "insert_txn U R C i doc (pl_db s) = Inr ((a, b), t)"
  let ?D = "pl_bags C view s" and ?D' = "(pl_bags C view s)(i \<mapsto> bag U doc)"
  have R: "redb_ok R view" "lex_codecs_ok C" using ok by (simp_all add: pl_ok_def)
  note ins = insert_txn_spec [OF R pl_okD(1) [OF ok] txn]
  have fin: "finite (dom ?D)" by (rule pl_okD(2) [OF ok])
  have "int (card (dom ?D')) = int (card (dom ?D)) + a" "int (total_length ?D') = int (total_length ?D) + b"
  proof -
    have "?D' = (?D(i := None))(i \<mapsto> bag U doc)" by simp
    then have tl: "total_length ?D' = total_length (?D(i := None)) + unat (bag_len (bag U doc))"
      using total_length_insert [of "?D(i := None)" i "bag U doc"] fin by simp
    show "int (card (dom ?D')) = int (card (dom ?D)) + a"
      using ins fin by (cases "?D i") (auto simp: domIff insert_absorb)
    show "int (total_length ?D') = int (total_length ?D) + b"
    proof (cases "?D i")
      case None
      then have "?D(i := None) = ?D" by (simp add: fun_eq_iff)
      then show ?thesis using tl ins None by simp
    next
      case (Some M)
      then show ?thesis using tl ins total_length_remove [OF fin Some] by simp
    qed
  qed
  with ins keeps_insert_txn [OF txn] show "lex_tables C ?D' (tx_table t) \<and> tx_reads (view (pl_db s)) t \<and>
      (\<forall>n. W_delete_table n \<notin> set (tx_writes t)) \<and> int (card (dom ?D')) = int (card (dom ?D)) + a \<and>
      int (total_length ?D') = int (total_length ?D) + b" by (simp add: keeps_tables_def)
qed

lemma Pl_remove_spec:
  assumes ok: "pl_ok R C view s" and "Pl_remove R C i s = (r, s')"
  shows "pl_ok R C view s' \<and>
    pl_bags C view s' = (case r of Inl _ \<Rightarrow> pl_bags C view s | Inr _ \<Rightarrow> (pl_bags C view s)(i := None))"
proof (rule finish_spec [OF ok assms(2) [unfolded Pl_remove_txn]])
  fix a b t assume txn: "remove_txn R C i (pl_db s) = Inr ((a, b), t)"
  let ?D = "pl_bags C view s" and ?D' = "(pl_bags C view s)(i := None)"
  have R: "redb_ok R view" "lex_codecs_ok C" using ok by (simp_all add: pl_ok_def)
  note rem = remove_txn_spec [OF R pl_okD(1) [OF ok] txn]
  have fin: "finite (dom ?D)" by (rule pl_okD(2) [OF ok])
  have "int (card (dom ?D')) = int (card (dom ?D)) + a \<and> int (total_length ?D') = int (total_length ?D) + b"
  proof (cases "?D i")
    case None
    then have "?D' = ?D" by (simp add: fun_eq_iff)
    then show ?thesis using rem None by simp
  next
    case (Some M)
    have "card (dom ?D') = card (dom ?D) - 1" "0 < card (dom ?D)" using Some fin by (auto simp: card_gt_0_iff domIff)
    then show ?thesis using rem total_length_remove [OF fin Some] Some by simp
  qed
  with rem keeps_remove_txn [OF txn] show "lex_tables C ?D' (tx_table t) \<and> tx_reads (view (pl_db s)) t \<and>
      (\<forall>n. W_delete_table n \<notin> set (tx_writes t)) \<and> int (card (dom ?D')) = int (card (dom ?D)) + a \<and>
      int (total_length ?D') = int (total_length ?D) + b" by (simp add: keeps_tables_def)
qed

section \<open>Search\<close>

definition acc :: "(uuid \<times> f64) list \<Rightarrow> uuid \<Rightarrow> f64" where
  "acc scores u = (case map_of scores u of None \<Rightarrow> 0 | Some s \<Rightarrow> s)"

lemma add_score_simps [simp]:
  "hm_ok scores \<Longrightarrow> hm_ok (add_score u x scores)"
  "acc (add_score u x scores) v = (if v = u then f64_add (acc scores u) x else acc scores v)"
  "dom (map_of (add_score u x scores)) = insert u (dom (map_of scores))"
  by (auto simp: add_score_def acc_def)

text \<open>One term: every admissible posted document gains its contribution.\<close>

lemma score_postings_spec:
  assumes "lengths_ok C D lengths" "hm_ok l" "\<forall>u \<in> fst ` set l. D (VectorId_from_uuid u) \<noteq> None" "hm_ok scores"
  shows "\<exists>scores'. score_postings C lengths adm avg w l scores = Inr scores' \<and> hm_ok scores' \<and>
    dom (map_of scores') = dom (map_of scores) \<union> {u \<in> fst ` set l. adm (VectorId_from_uuid u)} \<and>
    (\<forall>u. acc scores' u = (case map_of l u of
        Some n \<Rightarrow> if adm (VectorId_from_uuid u)
          then f64_add (acc scores u) (term_score n (bag_len (the (D (VectorId_from_uuid u)))) avg w) else acc scores u
      | None \<Rightarrow> acc scores u))"
  using assms(2-)
proof (induction l arbitrary: scores)
  case Nil
  then show ?case by simp
next
  case (Cons p l)
  obtain u n where p: "p = (u, n)" by fastforce
  let ?i = "VectorId_from_uuid u"
  have hm: "hm_ok l" "u \<notin> fst ` set l" "map_of l u = None"
    using Cons.prems(1) by (auto simp: p hm_ok_def map_of_eq_None_iff)
  have D: "\<forall>u \<in> fst ` set l. D (VectorId_from_uuid u) \<noteq> None" using Cons.prems(2) by simp
  note IH = Cons.IH [OF hm(1) D]
  show ?case
  proof (cases "adm ?i")
    case False
    obtain s1 where s1: "score_postings C lengths adm avg w l scores = Inr s1" "hm_ok s1"
      "dom (map_of s1) = dom (map_of scores) \<union> {u \<in> fst ` set l. adm (VectorId_from_uuid u)}"
      "\<forall>u. acc s1 u = (case map_of l u of
        Some n \<Rightarrow> if adm (VectorId_from_uuid u)
          then f64_add (acc scores u) (term_score n (bag_len (the (D (VectorId_from_uuid u)))) avg w) else acc scores u
      | None \<Rightarrow> acc scores u)" using IH [OF Cons.prems(3)] by blast
    have "score_postings C lengths adm avg w (p # l) scores = Inr s1" using False s1(1) by (simp add: p)
    moreover have "{u \<in> fst ` set (p # l). adm (VectorId_from_uuid u)} = {u \<in> fst ` set l. adm (VectorId_from_uuid u)}"
      using False by (auto simp: p)
    ultimately show ?thesis using s1(2-) hm(3) False by (intro exI [of _ s1]) (simp add: p)
  next
    case True
    obtain M where M: "D ?i = Some M" using Cons.prems(2) by (auto simp: p)
    then have row: "decode_row Lex_Serialization (lc_length C) lengths (slot_key ?i) = Inr (Some (bag_len M))"
      using assms(1) by (simp add: lengths_ok_def)
    let ?s = "add_score u (term_score n (bag_len M) avg w) scores"
    have hs: "hm_ok ?s" using Cons.prems(3) by simp
    obtain s1 where s1: "score_postings C lengths adm avg w l ?s = Inr s1" "hm_ok s1"
      "dom (map_of s1) = dom (map_of ?s) \<union> {u \<in> fst ` set l. adm (VectorId_from_uuid u)}"
      "\<forall>v. acc s1 v = (case map_of l v of
        Some n \<Rightarrow> if adm (VectorId_from_uuid v)
          then f64_add (acc ?s v) (term_score n (bag_len (the (D (VectorId_from_uuid v)))) avg w) else acc ?s v
      | None \<Rightarrow> acc ?s v)" using IH [OF hs] by blast
    have "score_postings C lengths adm avg w (p # l) scores = Inr s1"
      using s1(1) by (simp add: p True row Let_def)
    moreover have "{u \<in> fst ` set (p # l). adm (VectorId_from_uuid u)} = insert u {u \<in> fst ` set l. adm (VectorId_from_uuid u)}"
      using True by (auto simp: p)
    ultimately show ?thesis using s1(2-) hm(3) True M by (intro exI [of _ s1]) (auto simp: p split: option.split)
  qed
qed

lemma posts_card:
  assumes "posts C (freq_of D) t" "row (lc_postings C) t (str_key tm) = Some l"
  shows "length l = doc_freq D tm" "\<forall>u \<in> fst ` set l. D (VectorId_from_uuid u) \<noteq> None" "hm_ok l"
    "map_of l u = freq_of D tm u"
proof -
  note p = postsD(1) [OF assms(1), of tm, unfolded assms(2) option.case]
    postsD(2) [OF assms(1), of _ _ tm, unfolded assms(2) option.case]
  show hm: "hm_ok l" by (rule p(1))
  show "\<forall>u \<in> fst ` set l. D (VectorId_from_uuid u) \<noteq> None"
    by (auto simp: p(2) freq_of_def bind_eq_Some_conv)
  show m: "map_of l u = freq_of D tm u" for u
    by (rule option_eqI) (simp add: p(2) [symmetric] hm_mem_iff [OF hm])
  have "bij_betw VectorId_from_uuid (dom (map_of l)) {i. \<exists>M. D i = Some M \<and> tm \<in> bag_terms M}"
  proof (rule bij_betw_byWitness [where f' = VectorId_as_uuid])
    have id: "VectorId_from_uuid (VectorId_as_uuid i) = i" for i
      by (cases i) (simp add: VectorId_as_uuid_def VectorId_from_uuid_def)
    then show "\<forall>i \<in> {i. \<exists>M. D i = Some M \<and> tm \<in> bag_terms M}. VectorId_from_uuid (VectorId_as_uuid i) = i" by simp
    show "VectorId_as_uuid ` {i. \<exists>M. D i = Some M \<and> tm \<in> bag_terms M} \<subseteq> dom (map_of l)"
      by (auto simp: m id freq_of_def bag_terms_def)
    show "VectorId_from_uuid ` dom (map_of l) \<subseteq> {i. \<exists>M. D i = Some M \<and> tm \<in> bag_terms M}"
      by (auto simp: m freq_of_def bag_terms_def bind_eq_Some_conv)
  qed (simp add: VectorId_as_uuid_def VectorId_from_uuid_def)
  then have "card (dom (map_of l)) = doc_freq D tm" by (simp add: doc_freq_def bij_betw_same_card)
  then show "length l = doc_freq D tm" using hm_length [OF hm] by simp
qed

text \<open>All terms: the accumulated score is the BM25 sum, term by term in the order of the query.\<close>

definition bm25_step :: "(f64 \<Rightarrow> f64) \<Rightarrow> bags \<Rightarrow> nat \<Rightarrow> f64 \<Rightarrow> Bag \<Rightarrow> f64 \<Rightarrow> string \<Rightarrow> f64" where
  "bm25_step ln_f D n avg M s t =
     (case bag_freq M t of
        None \<Rightarrow> s
      | Some f \<Rightarrow> f64_add s (term_score f (bag_len M) avg (idf ln_f n (doc_freq D t))))"

lemma score_terms_spec:
  assumes "lengths_ok C D lengths" "posts C (freq_of D) postings" "hm_ok scores"
    and "dom (map_of scores) \<subseteq> {u. adm (VectorId_from_uuid u) \<and> D (VectorId_from_uuid u) \<noteq> None}"
  shows "\<exists>scores'. score_terms ln_f C postings lengths adm n avg terms scores = Inr scores' \<and> hm_ok scores' \<and>
    dom (map_of scores') \<subseteq> {u. adm (VectorId_from_uuid u) \<and> D (VectorId_from_uuid u) \<noteq> None} \<and>
    (\<forall>u M. adm (VectorId_from_uuid u) \<longrightarrow> D (VectorId_from_uuid u) = Some M \<longrightarrow>
       acc scores' u = foldl (bm25_step ln_f D n avg M) (acc scores u) terms)"
  using assms(3,4)
proof (induction terms arbitrary: scores)
  case Nil
  then show ?case by simp
next
  case (Cons tm terms)
  have rows: "rows_ok (lc_postings C) postings" by (rule postsD(3) [OF assms(2)])
  show ?case
  proof (cases "row (lc_postings C) postings (str_key tm)")
    case None
    have "bag_freq M tm = None" if "D (VectorId_from_uuid u) = Some M" for u M
    proof -
      have "freq_of D tm u \<noteq> Some f" for f using postsD(2) [OF assms(2), of u f tm] None by simp
      then have "freq_of D tm u = None" by (meson not_Some_eq)
      then show ?thesis using that by (simp add: freq_of_def)
    qed
    then show ?thesis using Cons.IH [OF Cons.prems] rows None by (simp add: bm25_step_def)
  next
    case (Some l)
    note pc = posts_card [OF assms(2) Some]
    obtain s1 where s1: "score_postings C lengths adm avg (idf ln_f n (length l)) l scores = Inr s1" "hm_ok s1"
      "dom (map_of s1) = dom (map_of scores) \<union> {u \<in> fst ` set l. adm (VectorId_from_uuid u)}"
      "\<And>u. acc s1 u = (case map_of l u of
        Some m \<Rightarrow> if adm (VectorId_from_uuid u)
          then f64_add (acc scores u) (term_score m (bag_len (the (D (VectorId_from_uuid u)))) avg (idf ln_f n (length l))) else acc scores u
      | None \<Rightarrow> acc scores u)"
      using score_postings_spec [OF assms(1) pc(3,2) Cons.prems(1)] by blast
    have "dom (map_of s1) \<subseteq> {u. adm (VectorId_from_uuid u) \<and> D (VectorId_from_uuid u) \<noteq> None}"
      using s1(3) Cons.prems(2) pc(2) by auto
    from Cons.IH [OF s1(2) this] obtain s2 where s2: "score_terms ln_f C postings lengths adm n avg terms s1 = Inr s2"
      "hm_ok s2" "dom (map_of s2) \<subseteq> {u. adm (VectorId_from_uuid u) \<and> D (VectorId_from_uuid u) \<noteq> None}"
      "\<forall>u M. adm (VectorId_from_uuid u) \<longrightarrow> D (VectorId_from_uuid u) = Some M \<longrightarrow>
       acc s2 u = foldl (bm25_step ln_f D n avg M) (acc s1 u) terms" by blast
    have "acc s1 u = bm25_step ln_f D n avg M (acc scores u) tm"
      if "adm (VectorId_from_uuid u)" "D (VectorId_from_uuid u) = Some M" for u M
      using that by (simp add: s1(4) pc(4) bm25_step_def pc(1) freq_of_def split: option.split)
    then show ?thesis using s2 rows Some s1(1) by (intro exI [of _ s2]) simp
  qed
qed

lemma Pl_search_exact:
  assumes ok: "pl_ok R C view s"
  shows "top_k scored_key k (bm25_results U ln_f (pl_bags C view s) query adm)
    (Pl_search_text_filtered U ln_f R C query k adm s)"
proof (cases "pl_corpus_size s = 0")
  case True
  then have "pl_bags C view s = Map.empty" using ok pl_okD(2) [OF ok] by (simp add: pl_ok_def)
  then show ?thesis using True by (simp add: Pl_search_text_filtered_def Pl_scored_def bm25_results_def top_k_def sort_by_def)
next
  case False
  let ?D = "pl_bags C view s" and ?n = "pl_corpus_size s" and ?post = "pl_tab view s POSTINGS" and ?len = "pl_tab view s DOC_LENGTHS"
  let ?avg = "f64_div (f64_of_int (uint (pl_total_tokens s))) (f64_of_int (int ?n))"
  have lt: "lengths_ok C ?D ?len" "posts C (freq_of ?D) ?post" using ok by (simp_all add: pl_ok_def lex_tables_def)
  have rd: "rd_read R (pl_db s) = Inr (view (pl_db s))"
    using ok by (simp add: pl_ok_def rd_read_reads)
  have op: "open_in Lex_Backend R (view (pl_db s)) POSTINGS = Inr ?post"
    "open_in Lex_Backend R (view (pl_db s)) DOC_LENGTHS = Inr ?len"
    using ok by (auto simp: pl_ok_def open_in_def pl_tab_def table_of_def)
  obtain scores where sc: "score_terms ln_f C ?post ?len adm ?n ?avg (tokenize U query) [] = Inr scores" "hm_ok scores"
    "dom (map_of scores) \<subseteq> {u. adm (VectorId_from_uuid u) \<and> ?D (VectorId_from_uuid u) \<noteq> None}"
    "\<And>u M. adm (VectorId_from_uuid u) \<Longrightarrow> ?D (VectorId_from_uuid u) = Some M \<Longrightarrow>
       acc scores u = foldl (bm25_step ln_f ?D ?n ?avg M) (acc [] u) (tokenize U query)"
    using score_terms_spec [OF lt, of "[]" adm ln_f ?n ?avg "tokenize U query"] by auto
  have bm: "foldl (bm25_step ln_f ?D ?n ?avg M) 0 ts = bm25_score ln_f ?D ts M" for M ts
  proof -
    have "?n = card (dom ?D)" and "?avg = avg_length ?D" using ok by (simp_all add: pl_ok_def avg_length_def)
    then show ?thesis by (simp only: bm25_score_def bm25_step_def [abs_def])
  qed
  let ?res = "map (\<lambda>(u, s). (VectorId_from_uuid u, s)) (filter (\<lambda>(_, s). f64_lt 0 s) scores)"
  have search: "Pl_search_text_filtered U ln_f R C query k adm s = take k (sort_by scored_cmp ?res)"
    using False by (simp add: Pl_search_text_filtered_def Pl_scored_def rd op sc(1))
  have inj: "inj VectorId_from_uuid" by (auto simp: inj_def VectorId_from_uuid_def)
  have "distinct (map fst (filter (\<lambda>(_, s). f64_lt 0 s) scores))"
    using sc(2) by (simp add: hm_ok_def distinct_map_filter)
  then have "distinct (filter (\<lambda>(_, s). f64_lt 0 s) scores)" by (simp add: distinct_map)
  moreover have "inj_on (\<lambda>(u, s). (VectorId_from_uuid u, s)) S" for S :: "(uuid \<times> f64) set"
    using inj by (auto simp: inj_on_def inj_def)
  ultimately have d: "distinct ?res" by (simp add: distinct_map)
  have "set ?res = bm25_results U ln_f ?D query adm"
  proof (intro set_eqI iffI)
    fix x assume "x \<in> set ?res"
    then obtain u s0 where x: "x = (VectorId_from_uuid u, s0)" "(u, s0) \<in> set scores" "f64_lt 0 s0" by auto
    then have m: "map_of scores u = Some s0" using hm_mem_iff [OF sc(2)] by blast
    then obtain M where "adm (VectorId_from_uuid u)" "?D (VectorId_from_uuid u) = Some M" using sc(3) by blast
    then show "x \<in> bm25_results U ln_f ?D query adm"
      using sc(4) [of u M] m x by (auto simp: acc_def bm bm25_results_def)
  next
    fix x assume "x \<in> bm25_results U ln_f ?D query adm"
    then obtain i M where x: "?D i = Some M" "adm i" "x = (i, bm25_score ln_f ?D (tokenize U query) M)"
      "f64_lt 0 (bm25_score ln_f ?D (tokenize U query) M)" by (auto simp: bm25_results_def)
    have i: "VectorId_from_uuid (VectorId_as_uuid i) = i" by (cases i) (simp add: VectorId_from_uuid_def VectorId_as_uuid_def)
    have a: "acc scores (VectorId_as_uuid i) = bm25_score ln_f ?D (tokenize U query) M"
      using sc(4) [of "VectorId_as_uuid i" M] x(1,2) by (simp add: i acc_def bm)
    have "\<not> f64_lt 0 0" by code_simp
    then have "map_of scores (VectorId_as_uuid i) = Some (bm25_score ln_f ?D (tokenize U query) M)"
      using a x(4) by (auto simp: acc_def split: option.splits)
    then have "(VectorId_as_uuid i, bm25_score ln_f ?D (tokenize U query) M) \<in> set scores" by (rule map_of_SomeD)
    then show "x \<in> set ?res" using x(3,4) by (force simp: i)
  qed
  then show ?thesis unfolding search by (intro scored_order.top_k_sorted d)
qed

lemma Pl_index_simps [simp]:
  "lx_insert (Pl_index U ln_f R C) = Pl_insert U R C" "lx_remove (Pl_index U ln_f R C) = Pl_remove R C"
  "lx_len (Pl_index U ln_f R C) = pl_corpus_size"
  "lx_search_text_filtered (Pl_index U ln_f R C) = Pl_search_text_filtered U ln_f R C"
  by (simp_all add: Pl_index_def)

interpretation pl: lexical_index U ln_f "Pl_index U ln_f R C" "pl_ok R C view" "pl_bags C view"
proof unfold_locales
  fix l l' :: "'a PersistentLexicalIndex" and i d r k query adm
  assume ok: "pl_ok R C view l"
  show "finite (dom (pl_bags C view l))" by (rule pl_okD(2) [OF ok])
  show "lx_len (Pl_index U ln_f R C) l = card (dom (pl_bags C view l))" using ok by (simp add: pl_ok_def)
  show "lx_insert (Pl_index U ln_f R C) i d l = (r, l') \<Longrightarrow> pl_ok R C view l' \<and>
      pl_bags C view l' = (case r of Inl _ \<Rightarrow> pl_bags C view l | Inr _ \<Rightarrow> (pl_bags C view l)(i \<mapsto> bag U d))"
    unfolding Pl_index_simps by (rule Pl_insert_spec [OF ok])
  show "lx_remove (Pl_index U ln_f R C) i l = (r, l') \<Longrightarrow> pl_ok R C view l' \<and>
      pl_bags C view l' = (case r of Inl _ \<Rightarrow> pl_bags C view l | Inr _ \<Rightarrow> (pl_bags C view l)(i := None))"
    unfolding Pl_index_simps by (rule Pl_remove_spec [OF ok])
  show "top_k scored_key k (bm25_results U ln_f (pl_bags C view l) query adm)
      (lx_search_text_filtered (Pl_index U ln_f R C) query k adm l)"
    unfolding Pl_index_simps by (rule Pl_search_exact [OF ok])
qed

section \<open>Opening\<close>

definition lex_path_ok :: "LexCodecs \<Rightarrow> ('d \<Rightarrow> tables) \<Rightarrow> 'd option \<Rightarrow> bags \<Rightarrow> bool" where
  "lex_path_ok C view path D \<longleftrightarrow> lex_tables C D (table_of (path_view view path))"

lemma lex_path_fresh: "lex_path_ok C view None Map.empty"
  by (auto simp: lex_path_ok_def lex_tables_def path_view_def table_of_def posts_def lengths_ok_def terms_ok_def
      freq_of_def)

lemma lex_path_store: "pl_ok R C view s \<Longrightarrow> lex_path_ok C view (Some (pl_db s)) (pl_bags C view s)"
  by (simp add: lex_path_ok_def path_view_def pl_okD)

lemma Pl_open_spec:
  assumes "redb_ok R view" "redb_reads R" "lex_codecs_ok C" "lex_path_ok C view path D" "Pl_open R C path = (r, path')"
  shows "lex_path_ok C view path' D \<and>
    (case r of Inl _ \<Rightarrow> True | Inr s \<Rightarrow> path' = Some (pl_db s) \<and> pl_ok R C view s \<and> pl_bags C view s = D)"
proof (cases "rd_create R path")
  case (Inl e)
  with assms(4,5) show ?thesis by (auto simp: Pl_open_def)
next
  case (Inr db)
  let ?ws = "[W_open POSTINGS, W_open DOC_LENGTHS, W_open DOC_TERMS]"
  obtain r0 db' where c: "commit_as Lex_Backend R ?ws db = (r0, db')" by fastforce
  have view: "view db = path_view view path" by (rule rd_create_view [OF assms(1) Inr])
  note v = commit_as_view [OF assms(1) c]
  have tab: "table_of (view db') = table_of (view db)"
    using v by (auto simp: table_of_def fun_eq_iff split: sum.splits)
  have lt: "lex_tables C D (table_of (view db'))" using assms(4) by (simp add: tab view lex_path_ok_def)
  have p': "path' = Some db'" using assms(5) by (auto simp: Pl_open_def Inr c split: sum.splits)
  have "path' = Some (pl_db s) \<and> pl_ok R C view s \<and> pl_bags C view s = D" if s: "r = Inr s" for s
  proof -
    obtain u where r0: "r0 = Inr u" using assms(5) s by (cases r0) (auto simp: Pl_open_def Inr c)
    obtain t ls where t: "read_table Lex_Backend R DOC_LENGTHS db' = Inr t"
      "traverse (\<lambda>(_, value). map_err Lex_Serialization (cd_dec (lc_length C) value)) t = Inr ls"
      and s: "s = \<lparr>pl_db = db', pl_corpus_size = length ls, pl_total_tokens = sum_list (map ucast ls)\<rparr>"
      using assms(5) s by (auto simp: Pl_open_def Inr c r0)
    have "t = table_of (view db') DOC_LENGTHS" using t(1) by (auto simp: read_table_Inr [OF assms(1)] table_of_def)
    then have len: "lengths_ok C D t" using lt by (simp add: lex_tables_def)
    have bags: "pl_bags C view s = D" using tables_bags_eq [OF lt] by (simp add: pl_bags_def pl_tab_def [abs_def] s)
    have "view db' POSTINGS \<noteq> None" "view db' DOC_LENGTHS \<noteq> None" using v r0 by simp_all
    then have "pl_ok R C view s" using assms(1-3) lt lengths_rows(2) [OF len] lengths_rows(3) [OF len, of Lex_Serialization] t(2) bags
      by (auto simp: pl_ok_def pl_tab_def [abs_def] s sum_of_lengths)
    then show ?thesis using p' bags by (simp add: s)
  qed
  then show ?thesis using p' lt by (auto simp: lex_path_ok_def path_view_def split: sum.split)
qed

section \<open>Without failures of the parameters\<close>

lemma put_postings_total: "codec_total (lc_postings C) \<Longrightarrow> \<exists>t'. put_postings C tm l t = Inr t'"
  unfolding put_postings_def by (rule tx_put_total)

lemma unpost_total:
  assumes "codec_ok (lc_postings C)" "codec_total (lc_postings C)" "posts C F (tx_table t POSTINGS)"
  shows "\<exists>t'. unpost C u terms t = Inr t'"
  using assms(3)
proof (induction terms arbitrary: t F)
  case Nil
  then show ?case by simp
next
  case (Cons tm terms)
  obtain l where l: "get_postings C tm t = Inr l" by (rule get_postings_posts [OF Cons.prems, of tm]) (rule that)
  let ?l = "filter (\<lambda>(other, _). other \<noteq> u) l"
  have "\<exists>t1. unpost C u [tm] t = Inr t1"
    using put_postings_total [OF assms(2), of tm ?l t] l by (auto simp: Let_def)
  then obtain t1 where t1: "unpost C u [tm] t = Inr t1" by blast
  obtain t' where t': "unpost C u terms t1 = Inr t'"
    using Cons.IH [OF conjunct1 [OF unpost_posts [OF assms(1) Cons.prems t1]]] by blast
  show ?case using t1 t' l by (auto simp: Let_def split: if_splits)
qed

lemma post_total:
  assumes "codec_ok (lc_postings C)" "codec_total (lc_postings C)" "posts C F (tx_table t POSTINGS)"
    and "distinct (map fst fs)" "\<forall>tm \<in> fst ` set fs. F tm u = None"
  shows "\<exists>t'. post C u fs t = Inr t'"
  using assms(3-)
proof (induction fs arbitrary: t F)
  case Nil
  then show ?case by simp
next
  case (Cons p fs)
  obtain tm n where p: "p = (tm, n)" by fastforce
  obtain l where l: "get_postings C tm t = Inr l" by (rule get_postings_posts [OF Cons.prems(1), of tm]) (rule that)
  obtain t1 where t1: "put_postings C tm (l @ [(u, n)]) t = Inr t1" using put_postings_total [OF assms(2)] by blast
  have one: "post C u [(tm, n)] t = Inr t1" using l t1 by simp
  have "\<forall>tm \<in> fst ` set [(tm, n)]. F tm u = None" using Cons.prems(3) by (simp add: p)
  from post_posts [OF assms(1) Cons.prems(1) one _ this]
  have ps: "posts C (\<lambda>tm' v. if v = u \<and> tm' = tm then Some n else F tm' v) (tx_table t1 POSTINGS)"
    by (simp cong: if_cong)
  have "\<exists>t'. post C u fs t1 = Inr t'"
  proof (rule Cons.IH [OF ps])
    show "\<forall>tm' \<in> fst ` set fs. (if u = u \<and> tm' = tm then Some n else F tm' u) = None"
      using Cons.prems(2,3) by (auto simp: p)
  qed (use Cons.prems(2) in simp)
  then show ?case using l t1 by (auto simp: p)
qed

lemma remove_prior_total:
  assumes "codec_ok (lc_postings C)" "codec_total (lc_postings C)" "lex_tables C D (tx_table t)"
  shows "\<exists>ab t'. remove_prior C i t = Inr (ab, t')"
proof -
  have ps: "posts C (freq_of D) (tx_table t POSTINGS)" "rows_ok (lc_length C) (tx_table t DOC_LENGTHS)"
    "rows_ok (lc_terms C) (tx_table t DOC_TERMS)"
    using assms(3) by (auto simp: lex_tables_def lengths_ok_def terms_ok_def)
  show ?thesis
  proof (cases "row (lc_terms C) (tx_table t DOC_TERMS) (slot_key i)")
    case None
    then show ?thesis by (simp add: remove_prior_def ps)
  next
    case (Some l)
    obtain t1 where t1: "unpost C (VectorId_as_uuid i) l t = Inr t1" using unpost_total [OF assms(1,2) ps(1)] by blast
    have "tx_table t1 DOC_LENGTHS = tx_table t DOC_LENGTHS" using unpost_posts [OF assms(1) ps(1) t1] by simp
    then show ?thesis by (simp add: remove_prior_def ps Some t1)
  qed
qed

definition pl_ready :: "'d Redb \<Rightarrow> LexCodecs \<Rightarrow> ('d \<Rightarrow> tables) \<Rightarrow> 'd PersistentLexicalIndex \<Rightarrow> bool" where
  "pl_ready R C view self \<longleftrightarrow> redb_total R \<and> lex_codecs_total C \<and> pl_ok R C view self"

lemma begin_total: "redb_ok R view \<Longrightarrow> redb_total R \<Longrightarrow> \<exists>t. begin_write backend R d = Inr t"
  using rd_read_total [of R view d] by (simp add: begin_write_def)

lemma finish_total: "redb_total R \<Longrightarrow> fst (finish_txn R (Inr p) s) = Inr ()"
  using commit_as_total [of R Lex_Backend "tx_writes (snd p)" "pl_db s"]
  by (cases p; cases "fst p") (auto simp: finish_txn_def)

lemma pl_ready_parts:
  assumes "pl_ready R C view s"
  shows "redb_ok R view" "redb_total R" "lex_codecs_ok C" "lex_codecs_total C"
    "lex_tables C (pl_bags C view s) (table_of (view (pl_db s)))"
  using assms pl_okD(1) [of R C view s] by (simp_all add: pl_ready_def pl_ok_def)

lemma prior_total:
  assumes "pl_ready R C view s"
  obtains t0 a b t1 where "begin_write Lex_Backend R (pl_db s) = Inr t0"
    "remove_prior C i (open_tables t0) = Inr ((a, b), t1)"
    "posts C (freq_of ((pl_bags C view s)(i := None))) (tx_table t1 POSTINGS)"
proof -
  note r = pl_ready_parts [OF assms]
  have cod: "codec_ok (lc_postings C)" "codec_total (lc_postings C)"
    using r by (simp_all add: lex_codecs_ok_def lex_codecs_total_def)
  obtain t0 where t0: "begin_write Lex_Backend R (pl_db s) = Inr t0" using begin_total [OF r(1,2)] by blast
  have lt: "lex_tables C (pl_bags C view s) (tx_table (open_tables t0))"
    using r(5) begin_spec(1) [OF r(1) t0] by simp
  obtain a b t1 where t1: "remove_prior C i (open_tables t0) = Inr ((a, b), t1)"
    using remove_prior_total [OF cod lt, of i] by auto
  then show ?thesis using that t0 remove_prior_spec [OF cod(1) lt t1] by blast
qed

lemma Pl_remove_total: "pl_ready R C view s \<Longrightarrow> fst (Pl_remove R C i s) = Inr ()"
proof -
  assume ready: "pl_ready R C view s"
  obtain t0 a b t1 where "begin_write Lex_Backend R (pl_db s) = Inr t0"
    "remove_prior C i (open_tables t0) = Inr ((a, b), t1)" by (rule prior_total [OF ready])
  then show ?thesis using finish_total [OF pl_ready_parts(2) [OF ready]] by (simp add: Pl_remove_def)
qed

lemma Pl_insert_total: "pl_ready R C view s \<Longrightarrow> fst (Pl_insert U R C i doc s) = Inr ()"
proof -
  assume ready: "pl_ready R C view s"
  note r = pl_ready_parts [OF ready]
  have cod: "codec_ok (lc_postings C)" "codec_total (lc_postings C)" "codec_total (lc_terms C)" "codec_total (lc_length C)"
    using r by (simp_all add: lex_codecs_ok_def lex_codecs_total_def)
  define st where "st = doc_stats (tokenize U (doc_str doc))"
  have hm: "hm_ok (ds_term_frequencies st)" using doc_stats_spec by (simp add: st_def)
  obtain t0 a b t1 where t: "begin_write Lex_Backend R (pl_db s) = Inr t0"
    "remove_prior C i (open_tables t0) = Inr ((a, b), t1)"
    "posts C (freq_of ((pl_bags C view s)(i := None))) (tx_table t1 POSTINGS)" by (rule prior_total [OF ready])
  have "\<forall>tm \<in> fst ` set (ds_term_frequencies st). freq_of ((pl_bags C view s)(i := None)) tm (VectorId_as_uuid i) = None"
    by (simp add: freq_of_upd)
  from post_total [OF cod(1,2) t(3) _ this]
  obtain t2 where t2: "post C (VectorId_as_uuid i) (ds_term_frequencies st) t1 = Inr t2"
    using hm by (auto simp: hm_ok_def)
  obtain t3 where t3: "tx_put Lex_Serialization (lc_terms C) DOC_TERMS (slot_key i)
      (map fst (ds_term_frequencies st)) t2 = Inr t3" using tx_put_total [OF cod(3)] by blast
  obtain t4 where "tx_put Lex_Serialization (lc_length C) DOC_LENGTHS (slot_key i) (ds_length st) t3 = Inr t4"
    using tx_put_total [OF cod(4)] by blast
  then show ?thesis using t t2 t3 finish_total [OF r(2)] by (simp add: Pl_insert_def st_def [symmetric] Let_def)
qed

interpretation pl_ready: total_lexical U ln_f "Pl_index U ln_f R C" "pl_ready R C view" "pl_bags C view"
proof unfold_locales
  fix l l' :: "'a PersistentLexicalIndex" and i d r k query adm
  assume ready: "pl_ready R C view l"
  then have ok: "pl_ok R C view l" by (simp add: pl_ready_def)
  have keep: "pl_ready R C view l' \<longleftrightarrow> pl_ok R C view l'" for l' :: "'a PersistentLexicalIndex"
    using ready by (simp add: pl_ready_def)
  show "finite (dom (pl_bags C view l))" "lx_len (Pl_index U ln_f R C) l = card (dom (pl_bags C view l))"
    by (rule pl.finite_docs [OF ok], rule pl.len_docs [OF ok])
  show "lx_insert (Pl_index U ln_f R C) i d l = (r, l') \<Longrightarrow> pl_ready R C view l' \<and>
      pl_bags C view l' = (case r of Inl _ \<Rightarrow> pl_bags C view l | Inr _ \<Rightarrow> (pl_bags C view l)(i \<mapsto> bag U d))"
    unfolding keep by (rule pl.insert_ok [OF ok])
  show "lx_remove (Pl_index U ln_f R C) i l = (r, l') \<Longrightarrow> pl_ready R C view l' \<and>
      pl_bags C view l' = (case r of Inl _ \<Rightarrow> pl_bags C view l | Inr _ \<Rightarrow> (pl_bags C view l)(i := None))"
    unfolding keep by (rule pl.remove_ok [OF ok])
  show "top_k scored_key k (bm25_results U ln_f (pl_bags C view l) query adm)
      (lx_search_text_filtered (Pl_index U ln_f R C) query k adm l)" by (rule pl.search_exact [OF ok])
  show "fst (lx_insert (Pl_index U ln_f R C) i d l) = Inr ()"
    unfolding Pl_index_simps by (rule Pl_insert_total [OF ready])
  show "fst (lx_remove (Pl_index U ln_f R C) i l) = Inr ()"
    unfolding Pl_index_simps by (rule Pl_remove_total [OF ready])
qed

lemma Pl_open_total:
  assumes "redb_ok R view" "redb_total R" "lex_codecs_ok C" "lex_codecs_total C" "lex_path_ok C view path D"
  shows "\<exists>s. Pl_open R C path = (Inr s, Some (pl_db s)) \<and> pl_ready R C view s \<and> pl_bags C view s = D"
proof -
  have reads: "redb_reads R" by (rule redb_total_reads [OF assms(2)])
  have "\<exists>db. rd_create R path = Inr db"
    using assms(2) by (simp add: redb_total_def)
  then obtain db where db: "rd_create R path = Inr db" by blast
  let ?ws = "[W_open POSTINGS, W_open DOC_LENGTHS, W_open DOC_TERMS]"
  obtain db' where c: "commit_as Lex_Backend R ?ws db = (Inr (), db')" using commit_as_total [OF assms(2)] by blast
  have v: "view db' = fold apply_write ?ws (view db)" using commit_as_view [OF assms(1) c] by simp
  then have "view db' DOC_LENGTHS = Some (table_of (path_view view path) DOC_LENGTHS)"
    using rd_create_view [OF assms(1) db] by (simp add: table_of_def)
  then have rt: "read_table Lex_Backend R DOC_LENGTHS db' = Inr (table_of (path_view view path) DOC_LENGTHS)"
    using rd_read_total [OF assms(1,2)] by (simp add: read_table_Inr [OF assms(1)])
  have "lengths_ok C D (table_of (path_view view path) DOC_LENGTHS)"
    using assms(5) by (simp add: lex_path_ok_def lex_tables_def)
  from lengths_rows(3) [OF this, of Lex_Serialization]
  obtain s where s: "Pl_open R C path = (Inr s, Some db')" by (auto simp: Pl_open_def db c rt)
  from Pl_open_spec [OF assms(1) reads assms(3,5) s] s assms(2,4) show ?thesis by (auto simp: pl_ready_def)
qed

section \<open>Equivalence with the in-memory index\<close>

fun lex_call :: "'l LexicalIndex \<Rightarrow> lex_op \<Rightarrow> 'l \<Rightarrow> (LexicalError + unit) \<times> 'l" where
  "lex_call L (Lex_insert i d) l = lx_insert L i d l"
| "lex_call L (Lex_remove i) l = lx_remove L i l"

definition pl_life ::
  "Unicode \<Rightarrow> (f64 \<Rightarrow> f64) \<Rightarrow> 'd Redb \<Rightarrow> LexCodecs \<Rightarrow> lex_op event list \<Rightarrow>
   ('d, 'd PersistentLexicalIndex, lex_op) world" where
  "pl_life U ln_f R C events = life (Pl_open R C) (lex_call (Pl_index U ln_f R C)) pl_db events"

lemma pl_life_ok:
  assumes "redb_ok R view" "redb_reads R" "lex_codecs_ok C" "pl_life U ln_f R C events = (path, Some s, acked)"
  shows "pl_ok R C view s \<and> pl_bags C view s = lex_spec_run U acked"
proof -
  let ?at = "\<lambda>path ops. lex_path_ok C view path (lex_spec_run U ops)"
  let ?inv = "\<lambda>s ops. pl_ok R C view s \<and> pl_bags C view s = lex_spec_run U ops"
  have "?at path acked \<and> (\<forall>s'. Some s = Some s' \<longrightarrow> path = Some (pl_db s') \<and> ?inv s' acked)"
  proof (rule life_inv [where opn = "Pl_open R C" and call = "lex_call (Pl_index U ln_f R C)" and events = events])
    show "?at None []" by (simp add: lex_spec_run_def lex_path_fresh)
    show "life (Pl_open R C) (lex_call (Pl_index U ln_f R C)) pl_db events = (path, Some s, acked)"
      using assms(4) by (simp add: pl_life_def)
    show "?inv s ops \<Longrightarrow> ?at (Some (pl_db s)) ops" for s ops using lex_path_store [of R C view s] by auto
    show "?at path ops \<Longrightarrow> Pl_open R C path = (r, path') \<Longrightarrow> ?at path' ops \<and>
        (case r of Inl _ \<Rightarrow> True | Inr s \<Rightarrow> path' = Some (pl_db s) \<and> ?inv s ops)" for path path' ops r
      by (rule Pl_open_spec [OF assms(1-3)])
    show "?inv s ops \<Longrightarrow> lex_call (Pl_index U ln_f R C) a s = (r, s') \<Longrightarrow>
        ?inv s' (case r of Inl _ \<Rightarrow> ops | Inr _ \<Rightarrow> ops @ [a])" for a s s' ops r
      using Pl_insert_spec [of R C view s U _ _ r s'] Pl_remove_spec [of R C view s _ r s']
      by (cases a; cases r) (fastforce simp: lex_spec_run_def)+
  qed
  then show ?thesis by simp
qed

text \<open>Codecs of the three kinds of rows, to instantiate the parameter with.\<close>

definition lex_codecs :: LexCodecs where
  "lex_codecs = \<lparr>lc_postings = codec_of (pk_list (pk_pair (pk_word 16) (pk_word 4))), lc_length = codec_of (pk_word 4),
     lc_terms = codec_of (pk_list pk_string)\<rparr>"

lemma lex_codecs_fine: "lex_codecs_ok lex_codecs" "lex_codecs_total lex_codecs"
proof -
  have p: "pk_ok (pk_list (pk_pair (pk_word 16 :: uuid Packer) (pk_word 4 :: u32 Packer)))"
    and w: "pk_ok (pk_word 4 :: u32 Packer)"
    by (intro pk_list_ok pk_pair_ok pk_word_ok; simp)+
  note c = codec_of_ok [OF w] codec_of_ok [OF p] codec_of_ok [OF pk_list_ok [OF pk_string_ok]]
  then show "lex_codecs_ok lex_codecs" "lex_codecs_total lex_codecs"
    by (simp_all add: lex_codecs_ok_def lex_codecs_total_def lex_codecs_def)
qed



end
