(* ===== verification/Redb_Bridge.thy ===== *)
theory Redb_Bridge
  imports Storage
begin

text \<open>
  The bridge between two versions of the database library (\<open>eidosdb-storage/src/redb_compat.rs\<close>): a file of the old format is
  upgraded in place by the old library and then opened by the new one. Both libraries are a parameter, a record of the calls
  the bridge makes on the file at a path; \<open>bridged\<close> is the database the stores see, and it meets the contract \<open>redb_ok\<close> they
  rely on whatever the format of the file was.
\<close>

section \<open>The libraries\<close>

text \<open>The errors of the new library; the bridge looks into one of them, of the others only the text matters.\<close>

datatype DatabaseError = UpgradeRequired u8 | Database_error string

record 'f Redb_libs =
  v4_create :: "'f option \<Rightarrow> (DatabaseError + unit) \<times> 'f option"
  v4_open :: "'f option \<Rightarrow> (DatabaseError + unit) \<times> 'f option"
  v4_error_text :: "DatabaseError \<Rightarrow> string"
  v2_open :: "'f option \<Rightarrow> (string + unit) \<times> 'f option"
  v2_upgrade :: "'f option \<Rightarrow> (string + bool) \<times> 'f option"

section \<open>The bridge\<close>

definition upgrade_v2_file :: "'f Redb_libs \<Rightarrow> 'f option \<Rightarrow> (string + unit) \<times> 'f option" where
  "upgrade_v2_file L path =
     then_do (v2_open L path) (\<lambda>_ path. then_do (v2_upgrade L path) (\<lambda>_ path. (Inr (), path)))"

definition bridge_create :: "'f Redb_libs \<Rightarrow> 'f option \<Rightarrow> (string + unit) \<times> 'f option" where
  "bridge_create L path =
     (case v4_create L path of
        (Inr database, path) \<Rightarrow> (Inr database, path)
      | (Inl err, path) \<Rightarrow>
          if err = UpgradeRequired 2
          then then_do (upgrade_v2_file L path) (\<lambda>_ path.
            case v4_create L path of (r, path) \<Rightarrow> (map_err (v4_error_text L) r, path))
          else (Inl (v4_error_text L err), path))"

definition bridge_open :: "'f Redb_libs \<Rightarrow> 'f option \<Rightarrow> (string + unit) \<times> 'f option" where
  "bridge_open L path =
     (case v4_open L path of
        (Inr database, path) \<Rightarrow> (Inr database, path)
      | (Inl err, path) \<Rightarrow>
          if err = UpgradeRequired 2
          then then_do (upgrade_v2_file L path) (\<lambda>_ path.
            case v4_open L path of (r, path) \<Rightarrow> (map_err (v4_error_text L) r, path))
          else (Inl (v4_error_text L err), path))"

section \<open>What the libraries promise\<close>

text \<open>
  \<open>version\<close> is the format of a file, \<open>view\<close> its committed rows. The new library reads format 3 only and says which format it
  met; the old one reads format 2 and upgrades it in place. No call that fails changes the rows.
\<close>

definition keeps :: "('f \<Rightarrow> tables) \<Rightarrow> 'f \<Rightarrow> 'f option \<Rightarrow> bool" where
  "keeps view f path \<longleftrightarrow> (\<exists>f'. path = Some f' \<and> view f' = view f)"

definition reads_v3 :: "('f \<Rightarrow> u8) \<Rightarrow> ('f \<Rightarrow> tables) \<Rightarrow> ('f option \<Rightarrow> (DatabaseError + unit) \<times> 'f option) \<Rightarrow> bool" where
  "reads_v3 version view call \<longleftrightarrow> (\<forall>f r path. call (Some f) = (r, path) \<longrightarrow>
     keeps view f path \<and> version (the path) = version f \<and>
     (version f = 2 \<longrightarrow> r = Inl (UpgradeRequired 2)) \<and> (version f = 3 \<longrightarrow> r \<noteq> Inl (UpgradeRequired 2)) \<and>
     (r = Inr () \<longrightarrow> version f = 3))"

definition libs_ok :: "'f Redb_libs \<Rightarrow> ('f \<Rightarrow> u8) \<Rightarrow> ('f \<Rightarrow> tables) \<Rightarrow> bool" where
  "libs_ok L version view \<longleftrightarrow>
     reads_v3 version view (v4_create L) \<and> reads_v3 version view (v4_open L) \<and>
     (\<forall>r path. v4_create L None = (r, path) \<longrightarrow> r \<noteq> Inl (UpgradeRequired 2) \<and>
        (r = Inr () \<longrightarrow> (\<exists>f. path = Some f \<and> version f = 3 \<and> view f = Map.empty))) \<and>
     (\<forall>r path. v4_open L None = (r, path) \<longrightarrow> path = None \<and> (\<exists>e. r = Inl (Database_error e))) \<and>
     (\<forall>f r path. v2_open L (Some f) = (r, path) \<longrightarrow> keeps view f path \<and> version (the path) = version f) \<and>
     (\<forall>f r path. v2_upgrade L (Some f) = (r, path) \<longrightarrow> keeps view f path \<and> (\<forall>b. r = Inr b \<longrightarrow> version (the path) = 3))"

text \<open>Libraries that do not refuse.\<close>

definition libs_total :: "'f Redb_libs \<Rightarrow> ('f \<Rightarrow> u8) \<Rightarrow> bool" where
  "libs_total L version \<longleftrightarrow>
     (\<forall>path. (\<forall>f. path = Some f \<longrightarrow> version f = 3) \<longrightarrow> fst (v4_create L path) = Inr ()) \<and>
     (\<forall>f. version f = 3 \<longrightarrow> fst (v4_open L (Some f)) = Inr ()) \<and>
     (\<forall>f. version f = 2 \<longrightarrow> fst (v2_open L (Some f)) = Inr () \<and> (\<exists>b. fst (v2_upgrade L (Some f)) = Inr b))"

section \<open>What the bridge makes of it\<close>

lemma upgrade_v2_file_keeps:
  assumes "libs_ok L version view" "upgrade_v2_file L (Some f) = (r, path)"
  shows "keeps view f path \<and> (r = Inr () \<longrightarrow> version (the path) = 3)"
    "libs_total L version \<Longrightarrow> version f = 2 \<Longrightarrow> r = Inr ()"
proof -
  obtain r1 p1 where o: "v2_open L (Some f) = (r1, p1)" by fastforce
  then have "keeps view f p1 \<and> version (the p1) = version f" using assms(1) unfolding libs_ok_def by blast
  then obtain f1 where f1: "p1 = Some f1" "view f1 = view f" "version f1 = version f" by (auto simp: keeps_def)
  obtain r2 p2 where u: "v2_upgrade L (Some f1) = (r2, p2)" by fastforce
  then have f2: "keeps view f1 p2" "\<forall>b. r2 = Inr b \<longrightarrow> version (the p2) = 3"
    using assms(1) unfolding libs_ok_def by blast+
  show "keeps view f path \<and> (r = Inr () \<longrightarrow> version (the path) = 3)"
    using assms(2) o u f1 f2 by (cases r1; cases r2) (auto simp: upgrade_v2_file_def keeps_def)
  show "r = Inr ()" if t: "libs_total L version" and f: "version f = 2"
  proof -
    have "fst (v2_open L (Some f)) = Inr ()" "\<exists>b. fst (v2_upgrade L (Some f1)) = Inr b"
      using t f f1(3) unfolding libs_total_def by metis+
    then show ?thesis using assms(2) o u f1(1) by (auto simp: upgrade_v2_file_def)
  qed
qed

text \<open>Both entry points have one shape.\<close>

definition bridge_with ::
  "('f option \<Rightarrow> (DatabaseError + unit) \<times> 'f option) \<Rightarrow> 'f Redb_libs \<Rightarrow> 'f option \<Rightarrow> (string + unit) \<times> 'f option" where
  "bridge_with call L path =
     (case call path of
        (Inr database, path) \<Rightarrow> (Inr database, path)
      | (Inl err, path) \<Rightarrow>
          if err = UpgradeRequired 2
          then then_do (upgrade_v2_file L path) (\<lambda>_ path. case call path of (r, path) \<Rightarrow> (map_err (v4_error_text L) r, path))
          else (Inl (v4_error_text L err), path))"

lemma bridge_as: "bridge_create L = bridge_with (v4_create L) L" "bridge_open L = bridge_with (v4_open L) L"
  by (simp_all add: fun_eq_iff bridge_create_def bridge_open_def bridge_with_def)

lemma bridge_with_spec:
  assumes "libs_ok L version view" "reads_v3 version view call" "bridge_with call L (Some f) = (r, path)"
  shows "keeps view f path \<and> (r = Inr () \<longrightarrow> version (the path) = 3)"
    "libs_total L version \<Longrightarrow> \<forall>f. version f = 3 \<longrightarrow> fst (call (Some f)) = Inr () \<Longrightarrow> version f = 2 \<or> version f = 3 \<Longrightarrow> r = Inr ()"
proof -
  have call: "keeps view f path \<and> version (the path) = version f \<and>
      (version f = 2 \<longrightarrow> r = Inl (UpgradeRequired 2)) \<and> (version f = 3 \<longrightarrow> r \<noteq> Inl (UpgradeRequired 2)) \<and>
      (r = Inr () \<longrightarrow> version f = 3)" if "call (Some f) = (r, path)" for f r path
    using assms(2) that unfolding reads_v3_def by blast
  obtain r1 p1 where c: "call (Some f) = (r1, p1)" by fastforce
  then obtain f1 where f1: "p1 = Some f1" "view f1 = view f" "version f1 = version f" using call [OF c] by (auto simp: keeps_def)
  obtain r2 p2 where u: "upgrade_v2_file L (Some f1) = (r2, p2)" by fastforce
  note k = upgrade_v2_file_keeps [OF assms(1) u]
  obtain f2 where f2: "p2 = Some f2" "view f2 = view f" "r2 = Inr () \<longrightarrow> version f2 = 3" using k(1) f1(2) by (auto simp: keeps_def)
  obtain r3 p3 where d: "call (Some f2) = (r3, p3)" by fastforce
  show "keeps view f path \<and> (r = Inr () \<longrightarrow> version (the path) = 3)"
    using assms(3) c u d f1 f2 k(1) call [OF c] call [OF d]
    by (cases r1; cases r2; cases r3) (auto simp: bridge_with_def keeps_def split: if_splits)
  show "r = Inr ()" if "libs_total L version" "\<forall>f. version f = 3 \<longrightarrow> fst (call (Some f)) = Inr ()" "version f = 2 \<or> version f = 3"
  proof (cases "version f = 3")
    case True
    then show ?thesis using assms(3) c that(2) by (auto simp: bridge_with_def)
  next
    case False
    then have "r1 = Inl (UpgradeRequired 2)" "r2 = Inr ()" using that k(2) call [OF c] f1(3) by auto
    then show ?thesis using assms(3) c u d f1 f2 that(2) by (auto simp: bridge_with_def)
  qed
qed

section \<open>The database the stores see\<close>

definition bridged :: "'f Redb_libs \<Rightarrow> 'f Redb \<Rightarrow> 'f Redb" where
  "bridged L R = R\<lparr>
     rd_create := (\<lambda>path. case bridge_create L path of (Inl e, _) \<Rightarrow> Inl e | (Inr _, path) \<Rightarrow> Inr (the path)),
     rd_open := (\<lambda>f. case bridge_open L (Some f) of (Inl e, _) \<Rightarrow> Inl e | (Inr _, path) \<Rightarrow> Inr (the path))\<rparr>"

lemma bridge_create_new:
  assumes "libs_ok L version view" "bridge_create L None = (Inr u, path)"
  shows "\<exists>f. path = Some f \<and> version f = 3 \<and> view f = Map.empty"
proof -
  obtain r p where c: "v4_create L None = (r, p)" by fastforce
  then have "r \<noteq> Inl (UpgradeRequired 2) \<and> (r = Inr () \<longrightarrow> (\<exists>f. p = Some f \<and> version f = 3 \<and> view f = Map.empty))"
    using assms(1) unfolding libs_ok_def by blast
  then show ?thesis using assms(2) c by (cases r) (auto simp: bridge_create_def split: if_splits)
qed

text \<open>Where there is no file, opening does not create one.\<close>

lemma bridge_open_missing:
  assumes "libs_ok L version view"
  shows "\<exists>e. bridge_open L None = (Inl e, None)"
proof -
  obtain r p where c: "v4_open L None = (r, p)" by fastforce
  then have "p = None \<and> (\<exists>e. r = Inl (Database_error e))" using assms unfolding libs_ok_def by blast
  then show ?thesis using c by (auto simp: bridge_open_def)
qed

text \<open>Libraries over files that are a format and its rows, to instantiate the parameter with.\<close>

definition mem_libs :: "(u8 \<times> tables) Redb_libs" where
  "mem_libs = (let read = (\<lambda>f. (if fst f = 3 then Inr () else Inl (UpgradeRequired (fst f)), Some f)) in
     \<lparr>v4_create = (\<lambda>path. case path of None \<Rightarrow> (Inr (), Some (3, Map.empty)) | Some f \<Rightarrow> read f),
      v4_open = (\<lambda>path. case path of None \<Rightarrow> (Inl (Database_error ''not found''), None) | Some f \<Rightarrow> read f),
      v4_error_text = (\<lambda>e. case e of UpgradeRequired _ \<Rightarrow> ''upgrade required'' | Database_error t \<Rightarrow> t),
      v2_open = (\<lambda>path. (Inr (), path)),
      v2_upgrade = (\<lambda>path. (Inr True, map_option (\<lambda>f. (3, snd f)) path))\<rparr>)"

definition mem_files :: "(u8 \<times> tables) Redb" where
  "mem_files = \<lparr>rd_create = (\<lambda>path. Inr (case path of None \<Rightarrow> (3, Map.empty) | Some f \<Rightarrow> f)), rd_open = Inr, rd_read = (\<lambda>f. Inr (snd f)),
     rd_commit = (\<lambda>ws f. (Inr (), (fst f, fold apply_write ws (snd f)))), rd_no_table = (\<lambda>t. t)\<rparr>"

lemma mem_libs_ok: "libs_ok mem_libs fst snd" "libs_total mem_libs fst" "redb_ok mem_files snd"
  by (auto simp: libs_ok_def libs_total_def reads_v3_def keeps_def mem_libs_def Let_def mem_files_def redb_ok_def split: option.splits)

section \<open>Properties\<close>

text \<open>
  C31. The stores may be put over the bridge. A database created or opened through it meets the contract every store relies
  on, whatever the formats of its files: \<open>create\<close> makes an empty file where there is none and otherwise keeps the rows of the
  file it finds, like \<open>open\<close>, which never makes one. Whether either call succeeds or fails, at any point of the upgrade, the
  file is still there with its rows, and of format 3 if the call succeeded. With libraries that do not refuse, both calls
  succeed on files of format 2 and of format 3, and \<open>create\<close> where there is no file.
\<close>

theorem bridge_meets_contract:
  assumes "libs_ok L version view" "redb_ok R view"
  shows "redb_ok (bridged L R) view \<and>
    (\<forall>f. keeps view f (snd (bridge_create L (Some f))) \<and> keeps view f (snd (bridge_open L (Some f))) \<and>
       (fst (bridge_create L (Some f)) = Inr () \<longrightarrow> version (the (snd (bridge_create L (Some f)))) = 3) \<and>
       (fst (bridge_open L (Some f)) = Inr () \<longrightarrow> version (the (snd (bridge_open L (Some f)))) = 3)) \<and>
    (\<exists>e. bridge_open L None = (Inl e, None)) \<and>
    (libs_total L version \<longrightarrow>
       (\<exists>f. rd_create (bridged L R) None = Inr f \<and> version f = 3 \<and> view f = Map.empty) \<and>
       (\<forall>f. version f = 2 \<or> version f = 3 \<longrightarrow>
         (\<exists>f'. rd_create (bridged L R) (Some f) = Inr f' \<and> version f' = 3 \<and> view f' = view f) \<and>
         (\<exists>f'. rd_open (bridged L R) f = Inr f' \<and> version f' = 3 \<and> view f' = view f)))"
proof -
  have v3: "reads_v3 version view (v4_create L)" "reads_v3 version view (v4_open L)" using assms(1) by (simp_all add: libs_ok_def)
  have rows: "keeps view f path \<and> (r = Inr () \<longrightarrow> version (the path) = 3)"
    if "call = bridge_create L \<or> call = bridge_open L" "call (Some f) = (r, path)" for call f r path
    using bridge_with_spec(1) [OF assms(1) v3(1)] bridge_with_spec(1) [OF assms(1) v3(2)] that by (auto simp: bridge_as)
  have opens: "rd_open (bridged L R) d = Inr d' \<longrightarrow> view d' = view d" for d d'
    using rows [of "bridge_open L" d] by (cases "bridge_open L (Some d)") (auto simp: bridged_def keeps_def split: sum.splits)
  have creates: "rd_create (bridged L R) path = Inr d \<longrightarrow> view d = (case path of None \<Rightarrow> Map.empty | Some d0 \<Rightarrow> view d0)" for path d
  proof (cases path)
    case None
    then show ?thesis using bridge_create_new [OF assms(1)]
      by (cases "bridge_create L None") (auto simp: bridged_def split: sum.splits)
  next
    case (Some f)
    then show ?thesis using rows [of "bridge_create L" f]
      by (cases "bridge_create L (Some f)") (auto simp: bridged_def keeps_def split: sum.splits)
  qed
  have ok: "redb_ok (bridged L R) view"
    using assms(2) opens creates unfolding redb_ok_def by (auto simp: bridged_def)
  have upgraded: "(\<exists>f'. rd_create (bridged L R) (Some f) = Inr f' \<and> version f' = 3 \<and> view f' = view f) \<and>
      (\<exists>f'. rd_open (bridged L R) f = Inr f' \<and> version f' = 3 \<and> view f' = view f)"
    if t: "libs_total L version" and f: "version f = 2 \<or> version f = 3" for f
  proof -
    obtain rc pc where c: "bridge_create L (Some f) = (rc, pc)" by fastforce
    obtain ro po where o: "bridge_open L (Some f) = (ro, po)" by fastforce
    have "rc = Inr ()" "ro = Inr ()"
      using bridge_with_spec(2) [OF assms(1) v3(1) _ t _ f] bridge_with_spec(2) [OF assms(1) v3(2) _ t _ f] c o t
      by (simp_all add: bridge_as libs_total_def)
    then show ?thesis using rows [of "bridge_create L" f rc pc] rows [of "bridge_open L" f ro po] c o by (auto simp: bridged_def keeps_def)
  qed
  have fresh: "\<exists>f. rd_create (bridged L R) None = Inr f \<and> version f = 3 \<and> view f = Map.empty" if t: "libs_total L version"
  proof -
    obtain rc pc where c: "v4_create L None = (rc, pc)" by fastforce
    then have "rc = Inr ()" using t unfolding libs_total_def by (metis fst_conv option.distinct(1))
    then have "bridge_create L None = (Inr (), pc)" using c by (simp add: bridge_create_def)
    with bridge_create_new [OF assms(1) this] show ?thesis by (auto simp: bridged_def)
  qed
  have files: "keeps view f (snd (bridge_create L (Some f))) \<and> keeps view f (snd (bridge_open L (Some f))) \<and>
      (fst (bridge_create L (Some f)) = Inr () \<longrightarrow> version (the (snd (bridge_create L (Some f)))) = 3) \<and>
      (fst (bridge_open L (Some f)) = Inr () \<longrightarrow> version (the (snd (bridge_open L (Some f)))) = 3)" for f
    using rows [of "bridge_create L" f] rows [of "bridge_open L" f] by (metis prod.collapse)
  show ?thesis using ok files bridge_open_missing [OF assms(1)] upgraded fresh by blast
qed

lemma bridge_meets_contract_witness:
  "redb_ok (bridged mem_libs mem_files) snd \<and>
   rd_create (bridged mem_libs mem_files) (Some (2, [''t'' \<mapsto> []])) = Inr (3, [''t'' \<mapsto> []]) \<and>
   rd_open (bridged mem_libs mem_files) (2, [''t'' \<mapsto> []]) = Inr (3, [''t'' \<mapsto> []])"
proof -
  note p = bridge_meets_contract [OF mem_libs_ok(1,3)]
  then have "(\<exists>f'. rd_create (bridged mem_libs mem_files) (Some (2, [''t'' \<mapsto> []])) = Inr f' \<and> fst f' = 3 \<and> snd f' = [''t'' \<mapsto> []]) \<and>
      (\<exists>f'. rd_open (bridged mem_libs mem_files) (2, [''t'' \<mapsto> []]) = Inr f' \<and> fst f' = 3 \<and> snd f' = [''t'' \<mapsto> []])"
    using mem_libs_ok(2) by fastforce
  then show ?thesis using p by auto
qed

end
