(* ===== verification/Persistent_Hnsw.thy ===== *)
theory Persistent_Hnsw
  imports Rows Hnsw Persistent_Flat
begin

text \<open>
  \<open>PersistentHnswIndex\<close> of \<open>eidosdb-storage/src/persistent_hnsw.rs\<close>: an HNSW graph in memory, written
  through to rows of the embedded database (nodes, adjacency lists, configuration and state) and to
  a segment of vectors whose slots are the node indexes. The database and the serialization library
  are parameters; a directory holds the two files and the faults the next calls will meet.
\<close>

section \<open>Rows\<close>

definition ADJ :: string where "ADJ = ''hnsw_adjacency''"
definition NODES :: string where "NODES = ''hnsw_nodes''"
definition META :: string where "META = ''hnsw_meta''"
definition META_CONFIG_KEY :: "u8 list" where "META_CONFIG_KEY = str_key ''config''"
definition META_STATE_KEY :: "u8 list" where "META_STATE_KEY = str_key ''state''"

record NodeRow =
  nr_id_bytes :: uuid
  nr_level :: nat
  nr_tombstone :: bool

record AdjKey =
  ak_node_idx :: nat
  ak_layer :: nat

record MetaConfig =
  mc_metric_byte :: u8
  mc_dimension :: u32
  mc_m :: nat
  mc_ef_construction :: nat
  mc_ef_search :: nat
  mc_seed :: u64

record MetaState =
  ms_entry_point :: "nat option"
  ms_entry_level :: nat
  ms_rng_state :: u64
  ms_node_count :: nat

record HnswCodecs =
  hc_idx :: "nat Codec"
  hc_node :: "NodeRow Codec"
  hc_adj_key :: "AdjKey Codec"
  hc_neighbors :: "nat list Codec"
  hc_config :: "MetaConfig Codec"
  hc_state :: "MetaState Codec"

record 'd PersistentHnswIndex =
  pn_graph :: HnswIndex
  pn_db :: 'd
  pn_segment :: Segment

text \<open>An encoding failure is reported as corruption.\<close>

definition pn_put :: "'v Codec \<Rightarrow> string \<Rightarrow> u8 list \<Rightarrow> 'v \<Rightarrow> Txn \<Rightarrow> StorageError + Txn" where
  "pn_put C name k x t = tx_put St_Corruption C name k x t"

definition pn_put_keyed :: "'k Codec \<Rightarrow> 'v Codec \<Rightarrow> string \<Rightarrow> 'k \<Rightarrow> 'v \<Rightarrow> Txn \<Rightarrow> StorageError + Txn" where
  "pn_put_keyed K C name x v t = res_bind (map_err St_Corruption (cd_enc K x)) (\<lambda>k. pn_put C name k v t)"

section \<open>Creation\<close>

definition config_row :: "HnswConfig \<Rightarrow> Dimension \<Rightarrow> u8 \<Rightarrow> MetaConfig" where
  "config_row config d metric_byte =
     \<lparr>mc_metric_byte = metric_byte, mc_dimension = word_of_nat (Dimension_get d), mc_m = cfg_m config,
      mc_ef_construction = cfg_ef_construction config, mc_ef_search = cfg_ef_search config,
      mc_seed = cfg_seed config\<rparr>"

definition create_txn ::
  "'d Redb \<Rightarrow> HnswCodecs \<Rightarrow> HnswConfig \<Rightarrow> Dimension \<Rightarrow> u8 \<Rightarrow> 'd \<Rightarrow> StorageError + Txn" where
  "create_txn R C config d metric_byte db =
     res_bind (begin_write St_Catalog R db) (\<lambda>t.
       let t = tx_do (W_open META) (tx_do (W_open NODES) (tx_do (W_open ADJ) t)) in
       if u32_max < Dimension_get d then Inl (St_FormatMismatch ''dimension exceeds u32'')
       else
         res_bind (pn_put (hc_config C) META META_CONFIG_KEY (config_row config d metric_byte) t) (\<lambda>t.
         pn_put (hc_state C) META META_STATE_KEY
           \<lparr>ms_entry_point = None, ms_entry_level = 0, ms_rng_state = cfg_seed config, ms_node_count = 0\<rparr> t))"

definition Pn_create ::
  "'d Redb \<Rightarrow> HnswCodecs \<Rightarrow> HnswConfig \<Rightarrow> Dimension \<Rightarrow> 'd Store_dir \<Rightarrow>
   (StorageError + 'd PersistentHnswIndex) \<times> 'd Store_dir" where
  "Pn_create R C config d dir =
     (case metric_to_u8 (cfg_metric config) of
        Inl e \<Rightarrow> (Inl e, dir)
      | Inr metric_byte \<Rightarrow>
     (case map_err St_Catalog (rd_create R (sd_catalog dir)) of
        Inl e \<Rightarrow> (Inl e, dir)
      | Inr db \<Rightarrow>
     (case create_txn R C config d metric_byte db of
        Inl e \<Rightarrow> (Inl e, dir\<lparr>sd_catalog := Some db\<rparr>)
      | Inr t \<Rightarrow>
     (case commit_as St_Catalog R (tx_writes t) db of
        (Inl e, db) \<Rightarrow> (Inl e, dir\<lparr>sd_catalog := Some db\<rparr>)
      | (Inr _, db) \<Rightarrow>
     (case Segment_create (cfg_metric config) (Dimension_get d) (sd_faults dir) (sd_segment dir) of
        (Inl e, (path, faults)) \<Rightarrow> (Inl e, \<lparr>sd_segment = path, sd_catalog = Some db, sd_faults = faults\<rparr>)
      | (Inr segment, (path, faults)) \<Rightarrow>
          (Inr \<lparr>pn_graph = HnswIndex_new config d, pn_db = db, pn_segment = segment\<rparr>,
           \<lparr>sd_segment = path, sd_catalog = Some db, sd_faults = faults\<rparr>))))))"

section \<open>Opening\<close>

fun DimensionError_message :: "DimensionError \<Rightarrow> string" where
  "DimensionError_message Zero = ''dimension must be greater than zero''"
| "DimensionError_message (TooLarge n) =
     ''dimension '' @ string_of_nat n @ '' exceeds the supported maximum of '' @ string_of_nat u32_max"

fun HnswConfigError_message :: "HnswConfigError \<Rightarrow> string" where
  "HnswConfigError_message (DegreeTooSmall m) = ''m must be at least 2, got '' @ string_of_nat m"
| "HnswConfigError_message ZeroConstructionBeam = ''ef_construction must be at least 1''"
| "HnswConfigError_message ZeroSearchBeam = ''ef_search must be at least 1''"

definition read_meta :: "'d Redb \<Rightarrow> HnswCodecs \<Rightarrow> 'd \<Rightarrow> StorageError + MetaConfig \<times> MetaState" where
  "read_meta R C db =
     res_bind (read_table St_Catalog R META db) (\<lambda>table.
     res_bind (ok_or (St_Corruption ''missing hnsw config meta'') (map_of table META_CONFIG_KEY)) (\<lambda>cfg_bytes.
     res_bind (ok_or (St_Corruption ''missing hnsw state meta'') (map_of table META_STATE_KEY)) (\<lambda>state_bytes.
     res_bind (map_err St_Corruption (cd_dec (hc_config C) cfg_bytes)) (\<lambda>cfg_row.
     res_bind (map_err St_Corruption (cd_dec (hc_state C) state_bytes)) (\<lambda>state_row.
       Inr (cfg_row, state_row))))))"

definition config_of_row :: "MetaConfig \<Rightarrow> StorageError + HnswConfig \<times> Dimension" where
  "config_of_row cfg_row =
     res_bind (metric_from_u8 (mc_metric_byte cfg_row)) (\<lambda>metric.
     res_bind (map_err (\<lambda>e. St_Corruption (''invalid dimension: '' @ DimensionError_message e))
         (Dimension_try_from (mc_dimension cfg_row))) (\<lambda>d.
     res_bind (map_err (\<lambda>e. St_Corruption (''invalid hnsw config: '' @ HnswConfigError_message e))
         (HnswConfig_new metric (mc_m cfg_row) (mc_ef_construction cfg_row) (mc_ef_search cfg_row)
            (mc_seed cfg_row))) (\<lambda>config.
       Inr (config, d))))"

definition node_row_of_entry :: "HnswCodecs \<Rightarrow> u8 list \<times> u8 list \<Rightarrow> StorageError + nat \<times> NodeRow" where
  "node_row_of_entry C entry =
     res_bind (map_err St_Corruption (cd_dec (hc_idx C) (fst entry))) (\<lambda>node_idx.
     map_res (Pair node_idx) (map_err St_Corruption (cd_dec (hc_node C) (snd entry))))"

definition read_layer :: "HnswCodecs \<Rightarrow> table \<Rightarrow> nat \<Rightarrow> nat \<Rightarrow> StorageError + nat list" where
  "read_layer C adj node_idx layer =
     res_bind (map_err St_Corruption (cd_enc (hc_adj_key C) \<lparr>ak_node_idx = node_idx, ak_layer = u32_of_level u32_max layer\<rparr>))
       (\<lambda>k. map_res (\<lambda>r. case r of None \<Rightarrow> [] | Some l \<Rightarrow> l) (decode_row St_Corruption (hc_neighbors C) adj k))"

definition snapshot_node :: "HnswCodecs \<Rightarrow> table \<Rightarrow> nat \<times> NodeRow \<Rightarrow> StorageError + SnapshotNode" where
  "snapshot_node C adj p =
     (case p of (node_idx, r) \<Rightarrow>
        map_res (\<lambda>neighbors_per_layer.
            \<lparr>sn_id_bytes = nr_id_bytes r, sn_level = nr_level r, sn_tombstone = nr_tombstone r,
             sn_neighbors_per_layer = neighbors_per_layer\<rparr>)
          (traverse (read_layer C adj node_idx) [0 ..< Suc (nr_level r)]))"

definition read_snapshot :: "'d Redb \<Rightarrow> HnswCodecs \<Rightarrow> MetaState \<Rightarrow> 'd \<Rightarrow> StorageError + GraphSnapshot" where
  "read_snapshot R C state_row db =
     res_bind (map_err St_Catalog (rd_read R db)) (\<lambda>ts.
     res_bind (open_in St_Catalog R ts NODES) (\<lambda>nodes_table.
     res_bind (open_in St_Catalog R ts ADJ) (\<lambda>adj_table.
     res_bind (traverse (node_row_of_entry C) nodes_table) (\<lambda>node_rows.
     res_bind (traverse (snapshot_node C adj_table) (sort_key fst node_rows)) (\<lambda>snap_nodes.
       Inr \<lparr>gs_nodes = snap_nodes, gs_entry_point = ms_entry_point state_row,
            gs_entry_level = ms_entry_level state_row, gs_rng_state = ms_rng_state state_row,
            gs_live_count = length (filter (\<lambda>n. \<not> sn_tombstone n) snap_nodes)\<rparr>)))))"

definition Pn_open ::
  "'d Redb \<Rightarrow> HnswCodecs \<Rightarrow> 'd Store_dir \<Rightarrow> (StorageError + 'd PersistentHnswIndex) \<times> 'd Store_dir" where
  "Pn_open R C dir =
     (case sd_catalog dir of
        None \<Rightarrow> (Inl (St_Catalog ''No such file or directory''), dir)
      | Some file \<Rightarrow>
     (case map_err St_Catalog (rd_open R file) of
        Inl e \<Rightarrow> (Inl e, dir)
      | Inr db \<Rightarrow>
     (case res_bind (read_meta R C db) (\<lambda>(cfg_row, state_row).
             map_res (\<lambda>(config, d). (config, d, state_row)) (config_of_row cfg_row)) of
        Inl e \<Rightarrow> (Inl e, dir\<lparr>sd_catalog := Some db\<rparr>)
      | Inr (config, d, state_row) \<Rightarrow>
     (case Segment_open (cfg_metric config) (Dimension_get d) (ms_node_count state_row) (sd_faults dir) (sd_segment dir) of
        (Inl e, (path, faults)) \<Rightarrow> (Inl e, \<lparr>sd_segment = path, sd_catalog = Some db, sd_faults = faults\<rparr>)
      | (Inr segment, (path, faults)) \<Rightarrow>
          (res_bind (read_snapshot R C state_row db) (\<lambda>snap.
           map_res (\<lambda>graph. \<lparr>pn_graph = graph, pn_db = db, pn_segment = segment\<rparr>)
             (map_err St_Index (from_snapshot config d snap (\<lambda>idx. Segment_record idx segment)))),
           \<lparr>sd_segment = path, sd_catalog = Some db, sd_faults = faults\<rparr>)))))"

section \<open>Writing the graph\<close>

text \<open>The rows of one node; \<open>put_layers\<close> is the loop over \<open>neighbors_per_layer\<close>.\<close>

definition put_node :: "HnswCodecs \<Rightarrow> nat \<Rightarrow> SnapshotNode \<Rightarrow> Txn \<Rightarrow> StorageError + Txn" where
  "put_node C node_idx sn t =
     pn_put_keyed (hc_idx C) (hc_node C) NODES node_idx
       \<lparr>nr_id_bytes = sn_id_bytes sn, nr_level = sn_level sn, nr_tombstone = sn_tombstone sn\<rparr> t"

fun put_layers :: "HnswCodecs \<Rightarrow> nat \<Rightarrow> nat \<Rightarrow> nat list list \<Rightarrow> Txn \<Rightarrow> StorageError + Txn" where
  "put_layers C node_idx layer [] t = Inr t"
| "put_layers C node_idx layer (ns # rest) t =
     res_bind (pn_put_keyed (hc_adj_key C) (hc_neighbors C) ADJ
        \<lparr>ak_node_idx = node_idx, ak_layer = u32_of_level u32_max layer\<rparr> ns t)
       (\<lambda>t. put_layers C node_idx (layer + 1) rest t)"

fun put_touched :: "HnswCodecs \<Rightarrow> HnswIndex \<Rightarrow> nat list \<Rightarrow> Txn \<Rightarrow> StorageError + Txn" where
  "put_touched C graph [] t = Inr t"
| "put_touched C graph (node_idx # rest) t =
     (case node_snapshot graph node_idx of
        None \<Rightarrow> put_touched C graph rest t
      | Some sn \<Rightarrow>
          res_bind (put_node C node_idx sn t) (\<lambda>t.
          res_bind (put_layers C node_idx 0 (sn_neighbors_per_layer sn) t) (\<lambda>t.
            put_touched C graph rest t)))"

text \<open>A removal writes the node rows only.\<close>

fun put_touched_nodes :: "HnswCodecs \<Rightarrow> HnswIndex \<Rightarrow> nat list \<Rightarrow> Txn \<Rightarrow> StorageError + Txn" where
  "put_touched_nodes C graph [] t = Inr t"
| "put_touched_nodes C graph (node_idx # rest) t =
     (case node_snapshot graph node_idx of
        None \<Rightarrow> put_touched_nodes C graph rest t
      | Some sn \<Rightarrow> res_bind (put_node C node_idx sn t) (\<lambda>t. put_touched_nodes C graph rest t))"

definition state_row :: "HnswIndex \<Rightarrow> MetaState" where
  "state_row graph =
     (case state_meta graph of (entry_point, entry_level, rng_st, n) \<Rightarrow>
        \<lparr>ms_entry_point = entry_point, ms_entry_level = entry_level, ms_rng_state = rng_st, ms_node_count = n\<rparr>)"

definition put_state :: "HnswCodecs \<Rightarrow> HnswIndex \<Rightarrow> Txn \<Rightarrow> StorageError + Txn" where
  "put_state C graph t = pn_put (hc_state C) META META_STATE_KEY (state_row graph) t"

definition insert_rows :: "'d Redb \<Rightarrow> HnswCodecs \<Rightarrow> HnswIndex \<Rightarrow> nat list \<Rightarrow> 'd \<Rightarrow> StorageError + Txn" where
  "insert_rows R C graph touched db =
     res_bind (begin_write St_Catalog R db) (\<lambda>t.
     res_bind (put_touched C graph touched (tx_do (W_open META) (tx_do (W_open ADJ) (tx_do (W_open NODES) t)))) (\<lambda>t.
       put_state C graph t))"

definition remove_rows :: "'d Redb \<Rightarrow> HnswCodecs \<Rightarrow> HnswIndex \<Rightarrow> nat list \<Rightarrow> 'd \<Rightarrow> StorageError + Txn" where
  "remove_rows R C graph touched db =
     res_bind (begin_write St_Catalog R db) (\<lambda>t.
     res_bind (put_touched_nodes C graph touched (tx_do (W_open META) (tx_do (W_open NODES) t))) (\<lambda>t.
       put_state C graph t))"

fun put_snapshot_nodes :: "HnswCodecs \<Rightarrow> nat \<Rightarrow> SnapshotNode list \<Rightarrow> Txn \<Rightarrow> StorageError + Txn" where
  "put_snapshot_nodes C node_idx [] t = Inr t"
| "put_snapshot_nodes C node_idx (sn # rest) t =
     res_bind (put_node C node_idx sn t) (\<lambda>t.
     res_bind (put_layers C node_idx 0 (sn_neighbors_per_layer sn) t) (\<lambda>t.
       put_snapshot_nodes C (node_idx + 1) rest t))"

definition flush_rows :: "'d Redb \<Rightarrow> HnswCodecs \<Rightarrow> HnswIndex \<Rightarrow> 'd \<Rightarrow> StorageError + Txn" where
  "flush_rows R C graph db =
     (let snap = snapshot graph in
      res_bind (begin_write St_Catalog R db) (\<lambda>t.
        let t = tx_do (W_open META) (tx_do (W_open ADJ) (tx_do (W_open NODES)
                  (tx_do (W_delete_table ADJ) (tx_do (W_delete_table NODES) t)))) in
        res_bind (put_snapshot_nodes C 0 (gs_nodes snap) t) (\<lambda>t.
          pn_put (hc_state C) META META_STATE_KEY
            \<lparr>ms_entry_point = gs_entry_point snap, ms_entry_level = gs_entry_level snap,
             ms_rng_state = gs_rng_state snap, ms_node_count = length (gs_nodes snap)\<rparr> t)))"

text \<open>One commit; a transaction that could not be built is dropped.\<close>

definition commit_rows ::
  "'d Redb \<Rightarrow> (HnswIndex \<Rightarrow> 'd \<Rightarrow> StorageError + Txn) \<Rightarrow> 'd PersistentHnswIndex \<Rightarrow>
   (StorageError + unit) \<times> 'd PersistentHnswIndex" where
  "commit_rows R rows self =
     (case rows (pn_graph self) (pn_db self) of
        Inl e \<Rightarrow> (Inl e, self)
      | Inr t \<Rightarrow> (case commit_as St_Catalog R (tx_writes t) (pn_db self) of (r, db) \<Rightarrow> (r, self\<lparr>pn_db := db\<rparr>)))"

section \<open>Operations\<close>

definition pn_on_segment ::
  "(Segment \<Rightarrow> (StorageError + 'a) \<times> Segment) \<Rightarrow> 'd PersistentHnswIndex \<Rightarrow>
   (StorageError + 'a) \<times> 'd PersistentHnswIndex" where
  "pn_on_segment op self = (case op (pn_segment self) of (r, s) \<Rightarrow> (r, self\<lparr>pn_segment := s\<rparr>))"

definition pn_on_graph ::
  "(HnswIndex \<Rightarrow> (IndexError + 'a) \<times> HnswIndex) \<Rightarrow> 'd PersistentHnswIndex \<Rightarrow>
   (StorageError + 'a) \<times> 'd PersistentHnswIndex" where
  "pn_on_graph op self = (case op (pn_graph self) of (r, g) \<Rightarrow> (map_err St_Index r, self\<lparr>pn_graph := g\<rparr>))"

definition write_through_insert ::
  "(f64 \<Rightarrow> f64) \<Rightarrow> 'd Redb \<Rightarrow> HnswCodecs \<Rightarrow> VectorId \<Rightarrow> Embedding \<Rightarrow> 'd PersistentHnswIndex \<Rightarrow>
   (StorageError + unit) \<times> 'd PersistentHnswIndex" where
  "write_through_insert ln_f R C i embedding self =
     then_do (pn_on_segment (Segment_append (as_slice embedding)) self) (\<lambda>_ self.
     then_do (pn_on_graph (insert_tracked ln_f i embedding) self) (\<lambda>delta self.
       commit_rows R (\<lambda>graph db. insert_rows R C graph (ins_touched_nodes delta) db) self))"

definition write_through_remove ::
  "'d Redb \<Rightarrow> HnswCodecs \<Rightarrow> VectorId \<Rightarrow> 'd PersistentHnswIndex \<Rightarrow>
   (StorageError + bool) \<times> 'd PersistentHnswIndex" where
  "write_through_remove R C i self =
     then_do (pn_on_graph (remove_tracked i) self) (\<lambda>delta self.
       case delta of
         None \<Rightarrow> (Inr False, self)
       | Some delta \<Rightarrow>
           then_do (commit_rows R (\<lambda>graph db. remove_rows R C graph (rem_touched_nodes delta) db) self)
             (\<lambda>_ self. (Inr True, self)))"

definition flush_snapshot_to_redb ::
  "'d Redb \<Rightarrow> HnswCodecs \<Rightarrow> 'd PersistentHnswIndex \<Rightarrow> (StorageError + unit) \<times> 'd PersistentHnswIndex" where
  "flush_snapshot_to_redb R C self = commit_rows R (flush_rows R C) self"

definition Pn_compact ::
  "(f64 \<Rightarrow> f64) \<Rightarrow> 'd Redb \<Rightarrow> HnswCodecs \<Rightarrow> 'd PersistentHnswIndex \<Rightarrow>
   (StorageError + unit) \<times> 'd PersistentHnswIndex" where
  "Pn_compact ln_f R C self =
     then_do (pn_on_graph (compact ln_f) self) (\<lambda>_ self. flush_snapshot_to_redb R C self)"

fun append_points ::
  "(VectorId \<times> Embedding) list \<Rightarrow> 'd PersistentHnswIndex \<Rightarrow> (StorageError + unit) \<times> 'd PersistentHnswIndex" where
  "append_points [] self = (Inr (), self)"
| "append_points ((_, embedding) # points) self =
     then_do (pn_on_segment (Segment_append (as_slice embedding)) self) (\<lambda>_ self. append_points points self)"

text \<open>The result of the constructor is the index or the error; its second component is the directory.\<close>

definition pn_dir :: "'d PersistentHnswIndex \<Rightarrow> 'd Store_dir" where
  "pn_dir self = \<lparr>sd_segment = Some (fl_bytes (sg_file (pn_segment self))),
     sd_catalog = Some (pn_db self), sd_faults = []\<rparr>"

definition Pn_bulk_load ::
  "(f64 \<Rightarrow> f64) \<Rightarrow> 'd Redb \<Rightarrow> HnswCodecs \<Rightarrow> HnswConfig \<Rightarrow> Dimension \<Rightarrow> (VectorId \<times> Embedding) list \<Rightarrow>
   'd Store_dir \<Rightarrow> (StorageError + 'd PersistentHnswIndex) \<times> 'd Store_dir" where
  "Pn_bulk_load ln_f R C config d points dir =
     (case Pn_create R C config d dir of
        (Inl e, dir) \<Rightarrow> (Inl e, dir)
      | (Inr index, dir) \<Rightarrow>
          (case then_do (append_points points index) (\<lambda>_ index.
                then_do (pn_on_graph (bulk_insert ln_f points) index) (\<lambda>_ index.
                  flush_snapshot_to_redb R C index)) of
             (Inl e, index) \<Rightarrow> (Inl e, pn_dir index)
           | (Inr _, index) \<Rightarrow> (Inr index, pn_dir index)))"

definition Pn_insert ::
  "(f64 \<Rightarrow> f64) \<Rightarrow> 'd Redb \<Rightarrow> HnswCodecs \<Rightarrow> VectorId \<Rightarrow> Embedding \<Rightarrow> 'd PersistentHnswIndex \<Rightarrow>
   (IndexError + unit) \<times> 'd PersistentHnswIndex" where
  "Pn_insert ln_f R C i embedding self =
     (case write_through_insert ln_f R C i embedding self of (r, self) \<Rightarrow> (map_err IndexError_from r, self))"

definition Pn_remove ::
  "'d Redb \<Rightarrow> HnswCodecs \<Rightarrow> VectorId \<Rightarrow> 'd PersistentHnswIndex \<Rightarrow> (IndexError + bool) \<times> 'd PersistentHnswIndex" where
  "Pn_remove R C i self =
     (case write_through_remove R C i self of (r, self) \<Rightarrow> (map_err IndexError_from r, self))"

definition Pn_index :: "(f64 \<Rightarrow> f64) \<Rightarrow> 'd Redb \<Rightarrow> HnswCodecs \<Rightarrow> 'd PersistentHnswIndex VectorIndex" where
  "Pn_index ln_f R C =
     \<lparr>vi_metric = (\<lambda>self. cfg_metric (hi_config (pn_graph self))),
      vi_supported_metrics = (\<lambda>self. hi_supported (pn_graph self)),
      vi_dimension = (\<lambda>self. hi_dimension (pn_graph self)),
      vi_len = (\<lambda>self. gr_live_count (hi_graph (pn_graph self))),
      vi_insert = Pn_insert ln_f R C, vi_remove = Pn_remove R C,
      vi_search_filtered = (\<lambda>query k metric is_admissible self.
        HnswIndex_search_filtered query k metric is_admissible (pn_graph self))\<rparr>"

end
