(* ===== verification/Hnsw_Rows.thy ===== *)
theory Hnsw_Rows
  imports Persistent_Hnsw
begin

text \<open>
  The rows of a persistent HNSW index as maps: \<open>keyed\<close> is a table that holds exactly the encoded entries
  of a map, \<open>graph_disk\<close> and \<open>meta_disk\<close> are the tables of a graph and of its configuration and state,
  and the two write transactions of the index take the tables of the old graph to those of the new.
\<close>

section \<open>Tables of keyed rows\<close>

text \<open>\<open>keyed K V t f\<close>: the rows of \<open>t\<close> are exactly the encoded entries of the map \<open>f\<close>.\<close>

definition keyed :: "'k Codec \<Rightarrow> 'v Codec \<Rightarrow> table \<Rightarrow> ('k \<rightharpoonup> 'v) \<Rightarrow> bool" where
  "keyed K V t f \<longleftrightarrow> btree_ok t \<and>
     (\<forall>(k, v) \<in> set t. \<exists>x y. cd_enc K x = Inr k \<and> cd_dec V v = Inr y \<and> f x = Some y) \<and>
     (\<forall>x y. f x = Some y \<longrightarrow> (\<exists>k v. cd_enc K x = Inr k \<and> map_of t k = Some v \<and> cd_dec V v = Inr y))"

lemma keyed_Nil [simp]: "keyed K V [] Map.empty"
  by (simp add: keyed_def)

lemma keyed_Some:
  assumes "keyed K V t f" "f x = Some y"
  obtains k v where "cd_enc K x = Inr k" "map_of t k = Some v" "cd_dec V v = Inr y"
  using assms unfolding keyed_def by blast

lemma keyed_in:
  assumes "keyed K V t f" "(k, v) \<in> set t"
  obtains x y where "cd_enc K x = Inr k" "cd_dec V v = Inr y" "f x = Some y"
  using assms unfolding keyed_def by fast

lemma codec_inj: "codec_ok K \<Longrightarrow> cd_enc K x = Inr k \<Longrightarrow> cd_enc K y = Inr k \<Longrightarrow> x = y"
  using codec_Inr [of K x k] codec_Inr [of K y k] by simp

lemma keyed_put:
  assumes "keyed K V t f" "codec_ok K" "codec_ok V" "cd_enc K x = Inr k" "cd_enc V y = Inr v"
  shows "keyed K V (bt_insert k v t) (f(x \<mapsto> y))"
proof -
  have b: "btree_ok t" using assms(1) by (simp add: keyed_def)
  have dec: "cd_dec V v = Inr y" using assms(3,5) by (rule codec_Inr)
  have m: "map_of (bt_insert k v t) = (map_of t)(k \<mapsto> v)" by (rule map_of_bt_insert [OF b])
  have b': "btree_ok (bt_insert k v t)" by (rule bt_insert_ok [OF b])
  have "\<exists>x' y'. cd_enc K x' = Inr k' \<and> cd_dec V v' = Inr y' \<and> (f(x \<mapsto> y)) x' = Some y'"
    if "(k', v') \<in> set (bt_insert k v t)" for k' v'
  proof (cases "k' = k")
    case True
    have "distinct (map fst (bt_insert k v t))" using b' by (simp add: btree_ok_def)
    then have "map_of (bt_insert k v t) k' = Some v'" using that by (rule map_of_is_SomeI)
    then have "v' = v" using m True by simp
    then show ?thesis using assms(4) dec True by auto
  next
    case False
    then have "(k', v') \<in> set t" using that set_bt_insert [of k v t] by auto
    then obtain x' y' where "cd_enc K x' = Inr k'" "cd_dec V v' = Inr y'" "f x' = Some y'"
      by (rule keyed_in [OF assms(1)])
    moreover then have "x' \<noteq> x" using assms(4) False by auto
    ultimately show ?thesis by auto
  qed
  moreover have "\<exists>k' v'. cd_enc K x' = Inr k' \<and> map_of (bt_insert k v t) k' = Some v' \<and> cd_dec V v' = Inr y'"
    if "(f(x \<mapsto> y)) x' = Some y'" for x' y'
  proof (cases "x' = x")
    case True
    then show ?thesis using assms(4) dec m that by auto
  next
    case False
    then have "f x' = Some y'" using that by simp
    then obtain k' v' where "cd_enc K x' = Inr k'" "map_of t k' = Some v'" "cd_dec V v' = Inr y'"
      by (rule keyed_Some [OF assms(1)])
    moreover then have "k' \<noteq> k" using codec_inj [OF assms(2,4)] False by auto
    ultimately show ?thesis using m by auto
  qed
  ultimately show ?thesis using b' unfolding keyed_def by blast
qed

lemma keyed_lookup:
  assumes "keyed K V t f" "f x = Some y" "cd_enc K x = Inr k"
  shows "decode_row err V t k = Inr (Some y)"
  using keyed_Some [OF assms(1,2)] assms(3) by (force simp: decode_row_def)

lemma keyed_enc: "keyed K V t f \<Longrightarrow> f x = Some y \<Longrightarrow> \<exists>k. cd_enc K x = Inr k"
  by (metis keyed_Some)

text \<open>The table \<open>n\<close> exists and holds the map \<open>f\<close>.\<close>

definition holds :: "'k Codec \<Rightarrow> 'v Codec \<Rightarrow> string \<Rightarrow> ('k \<rightharpoonup> 'v) \<Rightarrow> tables \<Rightarrow> bool" where
  "holds K V n f ts \<longleftrightarrow> (\<exists>t. ts n = Some t \<and> keyed K V t f)"

text \<open>What a put leaves alone: the other tables, and the transaction's account of its writes.\<close>

definition only_table :: "string \<Rightarrow> Txn \<Rightarrow> Txn \<Rightarrow> bool" where
  "only_table n t t' \<longleftrightarrow> (\<forall>m. m \<noteq> n \<longrightarrow> tx_tables t' m = tx_tables t m) \<and> (\<forall>ts. tx_reads ts t \<longrightarrow> tx_reads ts t')"

lemma only_table_refl [simp]: "only_table n t t"
  by (simp add: only_table_def)

lemma only_table_trans: "only_table n t t' \<Longrightarrow> only_table n t' t'' \<Longrightarrow> only_table n t t''"
  by (simp add: only_table_def)

lemma only_table_other: "only_table n t t' \<Longrightarrow> m \<noteq> n \<Longrightarrow> tx_tables t' m = tx_tables t m"
  by (simp add: only_table_def)

lemma only_table_reads: "only_table n t t' \<Longrightarrow> tx_reads ts t \<Longrightarrow> tx_reads ts t'"
  by (simp add: only_table_def)

lemma pn_put_insert:
  "pn_put V n k y t = Inr t' \<Longrightarrow> \<exists>v. cd_enc V y = Inr v \<and> t' = tx_do (W_insert n k v) t \<and> only_table n t t'"
  by (cases "cd_enc V y") (auto simp: pn_put_def tx_put_def only_table_def tx_reads_do, simp add: tx_do_def)

lemma pn_put_keyed_holds:
  assumes "holds K V n f (tx_tables t)" "codec_ok K" "codec_ok V" "pn_put_keyed K V n x y t = Inr t'"
  shows "holds K V n (f(x \<mapsto> y)) (tx_tables t') \<and> only_table n t t'"
proof -
  obtain tab where tab: "tx_tables t n = Some tab" "keyed K V tab f" using assms(1) by (auto simp: holds_def)
  obtain k where k: "cd_enc K x = Inr k" "pn_put V n k y t = Inr t'"
    using assms(4) by (cases "cd_enc K x") (auto simp: pn_put_keyed_def)
  from pn_put_insert [OF k(2)] obtain v where v: "cd_enc V y = Inr v" "t' = tx_do (W_insert n k v) t" "only_table n t t'"
    by blast
  have "tx_tables t' n = Some (bt_insert k v tab)" using tab(1) v(2) by (simp add: tx_do_def table_of_def)
  then show ?thesis using keyed_put [OF tab(2) assms(2,3) k(1) v(1)] v(3) by (simp add: holds_def)
qed

lemma pn_put_total: "codec_total V \<Longrightarrow> \<exists>t'. pn_put V n k y t = Inr t'"
  using tx_put_total [of V St_Corruption n k y t] by (simp add: pn_put_def)

lemma pn_put_keyed_total: "codec_total K \<Longrightarrow> codec_total V \<Longrightarrow> \<exists>t'. pn_put_keyed K V n x y t = Inr t'"
  using codec_enc [of K x] pn_put_total [of V n _ y t] by (auto simp: pn_put_keyed_def)

text \<open>Reading every row of a table keyed by the numbers below \<open>n\<close>, in the order of the numbers.\<close>

lemma sort_key_upt:
  assumes "distinct (map fst ps)" "fst ` set ps = {..<n}" "\<forall>(i, y) \<in> set ps. y = h i"
  shows "sort_key fst ps = map (\<lambda>i. (i, h i)) [0 ..< n]"
proof -
  let ?q = "map (\<lambda>i. (i, h i)) [0 ..< n]"
  have "set ps = set ?q"
  proof
    show "set ps \<subseteq> set ?q"
    proof
      fix p assume p: "p \<in> set ps"
      obtain i y where iy: "p = (i, y)" by fastforce
      with p assms(2) have "i < n" by (metis fst_conv imageI lessThan_iff)
      moreover have "y = h i" using p iy assms(3) by blast
      ultimately show "p \<in> set ?q" using iy by simp
    qed
    show "set ?q \<subseteq> set ps"
    proof
      fix p assume "p \<in> set ?q"
      then obtain i where i: "i < n" "p = (i, h i)" by auto
      then have "i \<in> fst ` set ps" using assms(2) by simp
      then obtain y where "(i, y) \<in> set ps" by auto
      then show "p \<in> set ps" using i assms(3) by auto
    qed
  qed
  moreover have "distinct ps" "distinct ?q"
    using assms(1) by (simp_all add: distinct_map inj_on_def)
  ultimately have "mset ps = mset ?q" by (metis set_eq_iff_mset_eq_distinct)
  moreover have "inj_on fst (set ps)" using assms(1) by (simp add: distinct_map)
  ultimately have "sort_key fst ps = sort_key fst ?q" by (rule sort_key_eq_sort_key)
  also have "\<dots> = ?q" by (rule sort_key_id_if_sorted) (simp add: comp_def)
  finally show ?thesis .
qed

section \<open>The graph as rows\<close>

definition node_row :: "SnapshotNode \<Rightarrow> NodeRow" where
  "node_row sn = \<lparr>nr_id_bytes = sn_id_bytes sn, nr_level = sn_level sn, nr_tombstone = sn_tombstone sn\<rparr>"

definition node_map :: "HnswIndex \<Rightarrow> nat \<rightharpoonup> NodeRow" where
  "node_map s i = map_option node_row (node_snapshot s i)"

definition adj_map :: "HnswIndex \<Rightarrow> AdjKey \<rightharpoonup> nat list" where
  "adj_map s k =
     (case node_snapshot s (ak_node_idx k) of
        None \<Rightarrow> None
      | Some sn \<Rightarrow>
          if ak_layer k < length (sn_neighbors_per_layer sn) then Some (sn_neighbors_per_layer sn ! ak_layer k) else None)"

definition codecs_ok :: "HnswCodecs \<Rightarrow> bool" where
  "codecs_ok C \<longleftrightarrow> codec_ok (hc_idx C) \<and> codec_ok (hc_node C) \<and> codec_ok (hc_adj_key C) \<and>
     codec_ok (hc_neighbors C) \<and> codec_ok (hc_config C) \<and> codec_ok (hc_state C)"

definition codecs_total :: "HnswCodecs \<Rightarrow> bool" where
  "codecs_total C \<longleftrightarrow> codec_total (hc_idx C) \<and> codec_total (hc_node C) \<and> codec_total (hc_adj_key C) \<and>
     codec_total (hc_neighbors C) \<and> codec_total (hc_config C) \<and> codec_total (hc_state C)"

definition meta_disk :: "HnswCodecs \<Rightarrow> HnswConfig \<Rightarrow> Dimension \<Rightarrow> MetaState \<Rightarrow> tables \<Rightarrow> bool" where
  "meta_disk C c d st ts \<longleftrightarrow>
     (\<exists>t b bs bs'. ts META = Some t \<and> btree_ok t \<and> metric_to_u8 (cfg_metric c) = Inr b \<and>
        map_of t META_CONFIG_KEY = Some bs \<and> cd_dec (hc_config C) bs = Inr (config_row c d b) \<and>
        map_of t META_STATE_KEY = Some bs' \<and> cd_dec (hc_state C) bs' = Inr st)"

lemma hnsw_table_names [simp]:
  "ADJ \<noteq> NODES" "NODES \<noteq> ADJ" "ADJ \<noteq> META" "META \<noteq> ADJ" "NODES \<noteq> META" "META \<noteq> NODES"
  "META_CONFIG_KEY \<noteq> META_STATE_KEY" "META_STATE_KEY \<noteq> META_CONFIG_KEY"
  by (simp_all add: ADJ_def NODES_def META_def META_CONFIG_KEY_def META_STATE_KEY_def)

lemma node_snapshot_None: "node_snapshot s i = None \<longleftrightarrow> node_count (hi_graph s) \<le> i"
  by (simp add: node_snapshot_def Let_def)

lemma dom_node_map: "dom (node_map s) = {..<node_count (hi_graph s)}"
proof -
  have "i \<in> dom (node_map s) \<longleftrightarrow> i < node_count (hi_graph s)" for i
    using node_snapshot_None [of s i] by (auto simp: node_map_def domIff)
  then show ?thesis by blast
qed

lemma snapshot_layers:
  assumes "hnsw_ok s" "node_snapshot s i = Some sn"
  shows "length (sn_neighbors_per_layer sn) = Suc (sn_level sn)" "sn_level sn \<le> MAX_LEVEL"
proof -
  have i: "i < node_count (hi_graph s)" using assms(2) node_snapshot_None [of s i] by (metis not_le_imp_less option.distinct(1))
  have "graph_ok (hi_dimension s) (degree_limit (hi_config s)) MAX_LEVEL (hi_graph s)"
    using assms(1) by (simp add: hnsw_ok_def)
  from graph_ok_nodeD [OF this i] have "nd_level (gr_nodes (hi_graph s) ! i) \<le> MAX_LEVEL"
    by (simp add: node_ok_def)
  then have l: "node_level (hi_graph s) i \<le> MAX_LEVEL" using i by (simp add: node_level_in)
  then have "node_level (hi_graph s) i \<le> u32_max" by (simp add: MAX_LEVEL_def u32_max_def)
  then show "length (sn_neighbors_per_layer sn) = Suc (sn_level sn)" "sn_level sn \<le> MAX_LEVEL"
    using assms(2) i l by (auto simp: node_snapshot_def Let_def u32_of_level_def simp del: upt_Suc)
qed

section \<open>Writing rows\<close>

abbreviation nodes_disk :: "HnswCodecs \<Rightarrow> (nat \<rightharpoonup> NodeRow) \<Rightarrow> tables \<Rightarrow> bool" where
  "nodes_disk C \<equiv> holds (hc_idx C) (hc_node C) NODES"

abbreviation adj_disk :: "HnswCodecs \<Rightarrow> (AdjKey \<rightharpoonup> nat list) \<Rightarrow> tables \<Rightarrow> bool" where
  "adj_disk C \<equiv> holds (hc_adj_key C) (hc_neighbors C) ADJ"

lemma put_node_holds:
  assumes "codecs_ok C" "nodes_disk C f (tx_tables t)" "put_node C i sn t = Inr t'"
  shows "nodes_disk C (f(i \<mapsto> node_row sn)) (tx_tables t') \<and> only_table NODES t t'"
  using pn_put_keyed_holds [OF assms(2), of i "node_row sn" t'] assms(1,3)
  by (simp add: codecs_ok_def put_node_def node_row_def)

text \<open>The layers of one node, from \<open>layer\<close> on.\<close>

definition layers_from :: "nat \<Rightarrow> nat \<Rightarrow> nat list list \<Rightarrow> AdjKey \<rightharpoonup> nat list" where
  "layers_from i layer nss k =
     (if ak_node_idx k = i \<and> layer \<le> ak_layer k \<and> ak_layer k < layer + length nss
      then Some (nss ! (ak_layer k - layer)) else None)"

lemma layers_from_Cons:
  "(f(\<lparr>ak_node_idx = i, ak_layer = layer\<rparr> \<mapsto> ns)) ++ layers_from i (layer + 1) nss = f ++ layers_from i layer (ns # nss)"
proof
  fix k :: AdjKey
  show "((f(\<lparr>ak_node_idx = i, ak_layer = layer\<rparr> \<mapsto> ns)) ++ layers_from i (layer + 1) nss) k =
    (f ++ layers_from i layer (ns # nss)) k"
  proof (cases k)
    case (fields j l)
    consider "j \<noteq> i" | "l < layer" | "l = layer" | "layer + length nss < l" | m where "l = Suc (layer + m)" "m < length nss"
    proof -
      have "\<exists>m. l = Suc (layer + m) \<and> m < length nss" if "layer < l" "l \<le> layer + length nss"
        using that by (intro exI [of _ "l - Suc layer"]) auto
      then show ?thesis using that by (metis linorder_neqE_nat not_le_imp_less)
    qed
    then show ?thesis by cases (auto simp: layers_from_def map_add_def fields)
  qed
qed

lemma put_layers_holds:
  assumes "codecs_ok C" "adj_disk C f (tx_tables t)" "layer + length nss \<le> Suc u32_max"
    "put_layers C i layer nss t = Inr t'"
  shows "adj_disk C (f ++ layers_from i layer nss) (tx_tables t') \<and> only_table ADJ t t'"
  using assms(2-4)
proof (induction nss arbitrary: f t layer)
  case Nil
  have "layers_from i layer [] = Map.empty" by (auto simp: layers_from_def)
  then show ?case using Nil by simp
next
  case (Cons ns nss)
  have l: "u32_of_level u32_max layer = layer" using Cons.prems(2) by (simp add: u32_of_level_def)
  let ?k = "\<lparr>ak_node_idx = i, ak_layer = layer\<rparr>"
  obtain t1 where t1: "pn_put_keyed (hc_adj_key C) (hc_neighbors C) ADJ ?k ns t = Inr t1"
    and rest: "put_layers C i (layer + 1) nss t1 = Inr t'"
    using Cons.prems(3) by (cases "pn_put_keyed (hc_adj_key C) (hc_neighbors C) ADJ ?k ns t") (auto simp: l)
  have p: "adj_disk C (f(?k \<mapsto> ns)) (tx_tables t1) \<and> only_table ADJ t t1"
    using pn_put_keyed_holds [OF Cons.prems(1) _ _ t1] assms(1) by (simp add: codecs_ok_def)
  have "layer + 1 + length nss \<le> Suc u32_max" using Cons.prems(2) by simp
  from Cons.IH [OF conjunct1 [OF p] this rest] p show ?case
    unfolding layers_from_Cons by (metis only_table_trans)
qed

lemma put_layers_total:
  "codecs_total C \<Longrightarrow> \<exists>t'. put_layers C i layer nss t = Inr t'"
proof (induction nss arbitrary: t layer)
  case (Cons ns nss)
  then obtain t1 where "pn_put_keyed (hc_adj_key C) (hc_neighbors C) ADJ
      \<lparr>ak_node_idx = i, ak_layer = u32_of_level u32_max layer\<rparr> ns t = Inr t1"
    using pn_put_keyed_total by (metis codecs_total_def)
  then show ?case using Cons by simp
qed simp

text \<open>The rows of the touched nodes overwrite those of the maps before.\<close>

definition tx_follows :: "Txn \<Rightarrow> Txn \<Rightarrow> bool" where
  "tx_follows t t' \<longleftrightarrow> tx_tables t' META = tx_tables t META \<and> (\<forall>ts. tx_reads ts t \<longrightarrow> tx_reads ts t')"

lemma tx_follows_refl [simp]: "tx_follows t t"
  by (simp add: tx_follows_def)

lemma tx_follows_trans: "tx_follows t t' \<Longrightarrow> tx_follows t' t'' \<Longrightarrow> tx_follows t t''"
  by (simp add: tx_follows_def)

lemma only_table_follows: "only_table n t t' \<Longrightarrow> n \<noteq> META \<Longrightarrow> tx_follows t t'"
  by (simp add: only_table_def tx_follows_def)

lemma holds_other: "holds K V n f (tx_tables t) \<Longrightarrow> only_table m t t' \<Longrightarrow> n \<noteq> m \<Longrightarrow> holds K V n f (tx_tables t')"
  by (simp add: holds_def only_table_other)

lemma adj_map_layers:
  "node_snapshot g i = Some sn \<Longrightarrow> adj_map g |` {k. ak_node_idx k = i} = layers_from i 0 (sn_neighbors_per_layer sn)"
  by (rule ext) (auto simp: adj_map_def layers_from_def restrict_map_def)

lemma adj_map_split:
  "(f ++ (adj_map g |` {k. ak_node_idx k = i})) ++ (adj_map g |` {k. ak_node_idx k \<in> set xs}) =
   f ++ (adj_map g |` {k. ak_node_idx k \<in> set (i # xs)})"
  by (auto simp: map_add_def restrict_map_def fun_eq_iff split: option.splits)

lemma put_touched_holds:
  assumes "hnsw_ok g" "codecs_ok C"
    and "nodes_disk C f (tx_tables t)" "adj_disk C h (tx_tables t)" "put_touched C g xs t = Inr t'"
  shows "nodes_disk C (f ++ (node_map g |` set xs)) (tx_tables t') \<and>
    adj_disk C (h ++ (adj_map g |` {k. ak_node_idx k \<in> set xs})) (tx_tables t') \<and> tx_follows t t'"
  using assms(3-5)
proof (induction xs arbitrary: f h t)
  case (Cons i xs)
  show ?case
  proof (cases "node_snapshot g i")
    case None
    have "f ++ (node_map g |` set (i # xs)) = f ++ (node_map g |` set xs)"
      "h ++ (adj_map g |` {k. ak_node_idx k \<in> set (i # xs)}) = h ++ (adj_map g |` {k. ak_node_idx k \<in> set xs})"
      using None by (auto simp: map_add_def restrict_map_def node_map_def adj_map_def fun_eq_iff split: option.splits)
    then show ?thesis using Cons.IH [OF Cons.prems(1,2)] Cons.prems(3) None by simp
  next
    case (Some sn)
    obtain t1 t2 where t1: "put_node C i sn t = Inr t1" and t2: "put_layers C i 0 (sn_neighbors_per_layer sn) t1 = Inr t2"
      and rest: "put_touched C g xs t2 = Inr t'"
      using Cons.prems(3) Some by (auto simp: res_bind_eq_Inr)
    note p1 = put_node_holds [OF assms(2) Cons.prems(1) t1]
    have h1: "adj_disk C h (tx_tables t1)" using holds_other [OF Cons.prems(2) conjunct2 [OF p1]] by simp
    have "0 + length (sn_neighbors_per_layer sn) \<le> Suc u32_max"
      using snapshot_layers [OF assms(1) Some] by (simp add: MAX_LEVEL_def u32_max_def)
    note p2 = put_layers_holds [OF assms(2) h1 this t2]
    have n2: "nodes_disk C (f(i \<mapsto> node_row sn)) (tx_tables t2)"
      using holds_other [OF conjunct1 [OF p1] conjunct2 [OF p2]] by simp
    have a2: "adj_disk C (h ++ (adj_map g |` {k. ak_node_idx k = i})) (tx_tables t2)"
      using p2 adj_map_layers [OF Some] by simp
    have "tx_follows t t2"
      using only_table_follows [OF conjunct2 [OF p1]] only_table_follows [OF conjunct2 [OF p2]] tx_follows_trans by simp
    moreover have "(f(i \<mapsto> node_row sn)) ++ (node_map g |` set xs) = f ++ (node_map g |` set (i # xs))"
      using Some by (auto simp: map_add_def restrict_map_def node_map_def fun_eq_iff split: option.splits)
    ultimately show ?thesis
      using Cons.IH [OF n2 a2 rest] by (auto simp only: adj_map_split intro: tx_follows_trans)
  qed
qed simp

lemma put_touched_nodes_holds:
  assumes "codecs_ok C" "nodes_disk C f (tx_tables t)" "put_touched_nodes C g xs t = Inr t'"
  shows "nodes_disk C (f ++ (node_map g |` set xs)) (tx_tables t') \<and> only_table NODES t t'"
  using assms(2,3)
proof (induction xs arbitrary: f t)
  case (Cons i xs)
  show ?case
  proof (cases "node_snapshot g i")
    case None
    have "f ++ (node_map g |` set (i # xs)) = f ++ (node_map g |` set xs)"
      using None by (auto simp: map_add_def restrict_map_def node_map_def fun_eq_iff split: option.splits)
    then show ?thesis using Cons.IH [OF Cons.prems(1)] Cons.prems(2) None by simp
  next
    case (Some sn)
    obtain t1 where t1: "put_node C i sn t = Inr t1" and rest: "put_touched_nodes C g xs t1 = Inr t'"
      using Cons.prems(2) Some by (auto simp: res_bind_eq_Inr)
    note p1 = put_node_holds [OF assms(1) Cons.prems(1) t1]
    moreover have "(f(i \<mapsto> node_row sn)) ++ (node_map g |` set xs) = f ++ (node_map g |` set (i # xs))"
      using Some by (auto simp: map_add_def restrict_map_def node_map_def fun_eq_iff split: option.splits)
    ultimately show ?thesis using Cons.IH [OF conjunct1 [OF p1] rest] by (metis only_table_trans)
  qed
qed simp

lemma put_touched_total:
  assumes "codecs_total C"
  shows "\<exists>t'. put_touched C g xs t = Inr t'" "\<exists>t'. put_touched_nodes C g xs t = Inr t'"
proof -
  have node: "\<exists>t'. put_node C i sn t = Inr t'" for i sn t
    using assms by (simp add: put_node_def codecs_total_def pn_put_keyed_total)
  show "\<exists>t'. put_touched C g xs t = Inr t'"
  proof (induction xs arbitrary: t)
    case (Cons i xs)
    show ?case
    proof (cases "node_snapshot g i")
      case (Some sn)
      obtain t1 where "put_node C i sn t = Inr t1" using node by blast
      moreover obtain t2 where "put_layers C i 0 (sn_neighbors_per_layer sn) t1 = Inr t2"
        using put_layers_total [OF assms] by blast
      ultimately show ?thesis using Some Cons [of t2] by simp
    qed (use Cons in simp)
  qed simp
  show "\<exists>t'. put_touched_nodes C g xs t = Inr t'"
  proof (induction xs arbitrary: t)
    case (Cons i xs)
    show ?case
    proof (cases "node_snapshot g i")
      case (Some sn)
      obtain t1 where "put_node C i sn t = Inr t1" using node by blast
      then show ?thesis using Some Cons [of t1] by simp
    qed (use Cons in simp)
  qed simp
qed

section \<open>The two write transactions\<close>

text \<open>Adjacency rows of layers a node no longer has may stay; a reader asks for its own layers only.\<close>

definition graph_disk :: "HnswCodecs \<Rightarrow> HnswIndex \<Rightarrow> tables \<Rightarrow> bool" where
  "graph_disk C g ts \<longleftrightarrow> nodes_disk C (node_map g) ts \<and> (\<exists>h. adj_disk C h ts \<and> adj_map g \<subseteq>\<^sub>m h)"

lemma overlay:
  assumes "\<forall>i. i \<notin> A \<longrightarrow> g i = f i" "dom f \<subseteq> dom g"
  shows "f ++ (g |` A) = g"
proof
  fix i
  show "(f ++ (g |` A)) i = g i"
    using assms by (cases "i \<in> A"; cases "g i") (auto simp: map_add_def restrict_map_def domIff)
qed

lemma overlay_le:
  assumes "\<forall>i. i \<notin> A \<longrightarrow> g i = f i" "f \<subseteq>\<^sub>m h"
  shows "g \<subseteq>\<^sub>m h ++ (g |` A)"
proof -
  have "(h ++ (g |` A)) i = Some y" if "g i = Some y" for i y
    using assms that by (cases "i \<in> A") (force simp: map_add_def restrict_map_def map_le_def)+
  then show ?thesis by (force simp: map_le_def)
qed

lemma put_state_meta:
  assumes "codecs_ok C" "meta_disk C c d st (tx_tables t)" "put_state C g t = Inr t'"
  shows "meta_disk C c d (state_row g) (tx_tables t') \<and> only_table META t t'"
proof -
  obtain v where v: "cd_enc (hc_state C) (state_row g) = Inr v" "t' = tx_do (W_insert META META_STATE_KEY v) t"
    "only_table META t t'"
    using pn_put_insert [OF assms(3) [unfolded put_state_def]] by blast
  have dec: "cd_dec (hc_state C) v = Inr (state_row g)" using assms(1) v(1) codec_Inr by (metis codecs_ok_def)
  obtain tab where tab: "tx_tables t META = Some tab" "btree_ok tab" using assms(2) by (auto simp: meta_disk_def)
  have "tx_tables t' META = Some (bt_insert META_STATE_KEY v tab)" using tab(1) v(2) by (simp add: tx_do_def table_of_def)
  then show ?thesis using assms(2) tab dec v(3)
    by (auto simp: meta_disk_def bt_insert_ok map_of_bt_insert)
qed

lemma open_existing: "tx_tables t n \<noteq> None \<Longrightarrow> tx_tables (tx_do (W_open n) t) = tx_tables t"
  by (auto simp: tx_do_def table_of_def)

lemma begin_write_opens:
  assumes "redb_ok R view" "begin_write St_Catalog R db = Inr t0" "\<forall>n \<in> set ns. view db n \<noteq> None"
  shows "tx_tables (foldr (\<lambda>n. tx_do (W_open n)) ns t0) = view db \<and> tx_reads (view db) (foldr (\<lambda>n. tx_do (W_open n)) ns t0)"
  using assms(3)
proof (induction ns)
  case Nil
  then show ?case using begin_write_Inr [OF assms(2,1)] by auto
next
  case (Cons n ns)
  then show ?case using open_existing [of "foldr (\<lambda>n. tx_do (W_open n)) ns t0" n] by (simp add: tx_reads_do)
qed

lemma insert_rows_spec:
  assumes "redb_ok R view" "codecs_ok C" "hnsw_ok g'" "graph_disk C g (view db)" "meta_disk C c d st (view db)"
    and "{i. node_snapshot g' i \<noteq> node_snapshot g i} \<subseteq> set touched" "node_count (hi_graph g) \<le> node_count (hi_graph g')"
    and "insert_rows R C g' touched db = Inr t"
  shows "graph_disk C g' (tx_tables t) \<and> meta_disk C c d (state_row g') (tx_tables t) \<and> tx_reads (view db) t"
proof -
  obtain h where g: "nodes_disk C (node_map g) (view db)" "adj_disk C h (view db)" "adj_map g \<subseteq>\<^sub>m h"
    using assms(4) by (auto simp: graph_disk_def)
  obtain t0 where t0: "begin_write St_Catalog R db = Inr t0"
    using assms(8) by (cases "begin_write St_Catalog R db") (auto simp: insert_rows_def)
  let ?t = "foldr (\<lambda>n. tx_do (W_open n)) [META, ADJ, NODES] t0"
  have opened: "tx_tables ?t = view db" "tx_reads (view db) ?t"
    using begin_write_opens [OF assms(1) t0, of "[META, ADJ, NODES]"] g(1,2) assms(5) by (auto simp: holds_def meta_disk_def)
  obtain t1 where t1: "put_touched C g' touched ?t = Inr t1" and t: "put_state C g' t1 = Inr t"
    using assms(8) t0 by (auto simp: insert_rows_def res_bind_eq_Inr)
  have p: "nodes_disk C (node_map g ++ (node_map g' |` set touched)) (tx_tables t1)"
    "adj_disk C (h ++ (adj_map g' |` {k. ak_node_idx k \<in> set touched})) (tx_tables t1)" "tx_follows ?t t1"
    using put_touched_holds [OF assms(3,2) _ _ t1] g opened by simp_all
  have same: "i \<notin> set touched \<Longrightarrow> node_snapshot g' i = node_snapshot g i" for i using assms(6) by blast
  have "node_map g ++ (node_map g' |` set touched) = node_map g'"
    by (rule overlay) (use same assms(7) in \<open>auto simp: dom_node_map node_map_def [of _ i for i]\<close>)
  moreover have "adj_map g' \<subseteq>\<^sub>m h ++ (adj_map g' |` {k. ak_node_idx k \<in> set touched})"
    by (rule overlay_le [OF _ g(3)]) (use same in \<open>simp add: adj_map_def\<close>)
  moreover have "meta_disk C c d st (tx_tables t1)"
    using p(3) assms(5) opened(1) by (simp add: tx_follows_def meta_disk_def)
  note m = put_state_meta [OF assms(2) this t]
  moreover have "tx_reads (view db) t"
    using p(3) opened(2) by (intro only_table_reads [OF conjunct2 [OF m]]) (simp add: tx_follows_def)
  ultimately show ?thesis using p(1,2) m unfolding graph_disk_def by (metis holds_other hnsw_table_names)
qed

lemma remove_rows_spec:
  assumes "redb_ok R view" "codecs_ok C" "graph_disk C g (view db)" "meta_disk C c d st (view db)"
    and "\<forall>i. i \<notin> set touched \<longrightarrow> node_snapshot g' i = node_snapshot g i" "node_count (hi_graph g) \<le> node_count (hi_graph g')"
    and "adj_map g' = adj_map g" "remove_rows R C g' touched db = Inr t"
  shows "graph_disk C g' (tx_tables t) \<and> meta_disk C c d (state_row g') (tx_tables t) \<and> tx_reads (view db) t"
proof -
  obtain h where g: "nodes_disk C (node_map g) (view db)" "adj_disk C h (view db)" "adj_map g \<subseteq>\<^sub>m h"
    using assms(3) by (auto simp: graph_disk_def)
  obtain t0 where t0: "begin_write St_Catalog R db = Inr t0"
    using assms(8) by (cases "begin_write St_Catalog R db") (auto simp: remove_rows_def)
  let ?t = "foldr (\<lambda>n. tx_do (W_open n)) [META, NODES] t0"
  have opened: "tx_tables ?t = view db" "tx_reads (view db) ?t"
    using begin_write_opens [OF assms(1) t0, of "[META, NODES]"] g(1) assms(4) by (auto simp: holds_def meta_disk_def)
  obtain t1 where t1: "put_touched_nodes C g' touched ?t = Inr t1" and t: "put_state C g' t1 = Inr t"
    using assms(8) t0 by (auto simp: remove_rows_def res_bind_eq_Inr)
  have p: "nodes_disk C (node_map g ++ (node_map g' |` set touched)) (tx_tables t1)" "only_table NODES ?t t1"
    using put_touched_nodes_holds [OF assms(2) _ t1] g opened by simp_all
  have "node_map g ++ (node_map g' |` set touched) = node_map g'"
    by (rule overlay) (use assms(5,6) in \<open>auto simp: dom_node_map node_map_def [of _ i for i]\<close>)
  moreover have "meta_disk C c d st (tx_tables t1)"
    using only_table_other [OF p(2), of META] assms(4) opened(1) by (simp add: meta_disk_def)
  note m = put_state_meta [OF assms(2) this t]
  moreover have "adj_disk C h (tx_tables t1)" by (rule holds_other [OF _ p(2)]) (use g(2) opened(1) in simp_all)
  moreover have "tx_reads (view db) t"
    by (rule only_table_reads [OF conjunct2 [OF m] only_table_reads [OF p(2) opened(2)]])
  ultimately show ?thesis using p(1) m g(3) assms(7) unfolding graph_disk_def by (metis holds_other hnsw_table_names)
qed

section \<open>Reading the rows back\<close>

lemma node_rows_keyed:
  assumes "keyed (hc_idx C) (hc_node C) t f" "codec_ok (hc_idx C)" "dom f = {..<n}"
  obtains ps where "traverse (node_row_of_entry C) t = Inr ps"
    "sort_key fst ps = map (\<lambda>i. (i, the (f i))) [0 ..< n]"
proof -
  let ?g = "\<lambda>(k, v). (projr (cd_dec (hc_idx C) k), projr (cd_dec (hc_node C) v))"
  have b: "distinct (map fst t)" using assms(1) by (simp add: keyed_def btree_ok_def)
  have row: "\<exists>x y. cd_dec (hc_idx C) k = Inr x \<and> cd_dec (hc_node C) v = Inr y \<and> f x = Some y \<and> cd_enc (hc_idx C) x = Inr k"
    if "(k, v) \<in> set t" for k v
    using keyed_in [OF assms(1) that] codec_Inr [OF assms(2)] by metis
  have tr: "traverse (node_row_of_entry C) t = Inr (map ?g t)"
    by (rule traverse_all_Inr) (use row in \<open>fastforce simp: node_row_of_entry_def\<close>)
  have "inj_on (\<lambda>e. fst (?g e)) (set t)"
  proof (rule inj_onI)
    fix e e' assume e: "e \<in> set t" "e' \<in> set t" "fst (?g e) = fst (?g e')"
    obtain k v k' v' where kv: "e = (k, v)" "e' = (k', v')" by fastforce
    from row [of k v] row [of k' v'] e kv have "k = k'" by auto
    then show "e = e'" using e(1,2) b kv by (metis eq_key_imp_eq_value)
  qed
  moreover have "distinct t" using b by (simp add: distinct_map)
  ultimately have d: "distinct (map fst (map ?g t))" by (simp add: distinct_map comp_def)
  have mem: "f (fst p) = Some (snd p)" if "p \<in> set (map ?g t)" for p
  proof -
    obtain k v where "(k, v) \<in> set t" "p = ?g (k, v)" using \<open>p \<in> set (map ?g t)\<close> by auto
    with row [of k v] show ?thesis by auto
  qed
  have "fst ` set (map ?g t) = {..<n}"
  proof
    show "fst ` set (map ?g t) \<subseteq> {..<n}"
    proof
      fix i assume "i \<in> fst ` set (map ?g t)"
      then obtain p where "p \<in> set (map ?g t)" "i = fst p" by blast
      then show "i \<in> {..<n}" using mem [of p] unfolding assms(3) [symmetric] by blast
    qed
    show "{..<n} \<subseteq> fst ` set (map ?g t)"
    proof
      fix i assume "i \<in> {..<n}"
      then obtain y where "f i = Some y" using assms(3) by blast
      then obtain k v where kv: "cd_enc (hc_idx C) i = Inr k" "map_of t k = Some v" by (metis keyed_Some [OF assms(1)])
      have "fst (?g (k, v)) = i" using codec_Inr [OF assms(2) kv(1)] by simp
      moreover have "?g (k, v) \<in> set (map ?g t)"
        unfolding set_map by (rule imageI) (rule map_of_SomeD [OF kv(2)])
      ultimately show "i \<in> fst ` set (map ?g t)" by (rule image_eqI [OF sym])
    qed
  qed
  moreover have "\<forall>(i, y) \<in> set (map ?g t). y = the (f i)"
  proof (intro ballI, clarify)
    fix i y assume "(i, y) \<in> set (map ?g t)"
    from mem [OF this] show "y = the (f i)" by simp
  qed
  ultimately have "sort_key fst (map ?g t) = map (\<lambda>i. (i, the (f i))) [0 ..< n]" by (rule sort_key_upt [OF d])
  then show ?thesis using that tr by blast
qed

lemma snapshot_node_keyed:
  assumes "keyed (hc_adj_key C) (hc_neighbors C) t h" "adj_map g \<subseteq>\<^sub>m h" "hnsw_ok g" "node_snapshot g i = Some sn"
  shows "snapshot_node C t (i, node_row sn) = Inr sn"
proof -
  note sl = snapshot_layers [OF assms(3,4)]
  have "read_layer C t i layer = Inr (sn_neighbors_per_layer sn ! layer)" if "layer < Suc (sn_level sn)" for layer
  proof -
    have l: "u32_of_level u32_max layer = layer" using that sl(2) by (simp add: u32_of_level_def MAX_LEVEL_def u32_max_def)
    have "adj_map g \<lparr>ak_node_idx = i, ak_layer = layer\<rparr> = Some (sn_neighbors_per_layer sn ! layer)"
      using that sl(1) assms(4) by (simp add: adj_map_def)
    then have h: "h \<lparr>ak_node_idx = i, ak_layer = layer\<rparr> = Some (sn_neighbors_per_layer sn ! layer)"
      using assms(2) by (metis domI map_le_def)
    obtain k where "cd_enc (hc_adj_key C) \<lparr>ak_node_idx = i, ak_layer = layer\<rparr> = Inr k"
      using keyed_enc [OF assms(1) h] by blast
    with keyed_lookup [OF assms(1) h this, of St_Corruption] show ?thesis by (simp add: read_layer_def l)
  qed
  then have "traverse (read_layer C t i) [0 ..< Suc (sn_level sn)]
      = Inr (map (\<lambda>layer. sn_neighbors_per_layer sn ! layer) [0 ..< Suc (sn_level sn)])"
    by (intro traverse_all_Inr) (simp del: upt_Suc)
  also have "map (\<lambda>layer. sn_neighbors_per_layer sn ! layer) [0 ..< Suc (sn_level sn)] = sn_neighbors_per_layer sn"
    using map_nth [of "sn_neighbors_per_layer sn"] sl(1) by simp
  finally show ?thesis by (simp add: snapshot_node_def node_row_def del: upt_Suc)
qed

text \<open>The rows of a graph are read as its snapshot.\<close>

lemma read_snapshot_disk:
  assumes "redb_ok R view" "codecs_ok C" "hnsw_ok g" "graph_disk C g (view db)" "rd_read R db = Inr ts"
  shows "read_snapshot R C (state_row g) db = Inr (snapshot g)"
proof -
  let ?n = "node_count (hi_graph g)" and ?sn = "\<lambda>i. the (node_snapshot g i)"
  have ts: "ts = view db" by (rule rd_read_view [OF assms(1,5)])
  obtain nt at h where nt: "view db NODES = Some nt" "keyed (hc_idx C) (hc_node C) nt (node_map g)"
    and at: "view db ADJ = Some at" "keyed (hc_adj_key C) (hc_neighbors C) at h" "adj_map g \<subseteq>\<^sub>m h"
    using assms(4) by (auto simp: graph_disk_def holds_def)
  have idx: "codec_ok (hc_idx C)" using assms(2) by (simp add: codecs_ok_def)
  obtain ps where ps: "traverse (node_row_of_entry C) nt = Inr ps"
    "sort_key fst ps = map (\<lambda>i. (i, the (node_map g i))) [0 ..< ?n]"
    by (rule node_rows_keyed [OF nt(2) idx dom_node_map]) (rule that)
  have some: "node_snapshot g i = Some (?sn i)" if "i < ?n" for i
    using that node_snapshot_None [of g i] by (metis not_le option.collapse)
  have "snapshot_node C at (i, the (node_map g i)) = Inr (?sn i)" if "i < ?n" for i
  proof -
    have "the (node_map g i) = node_row (?sn i)"
      unfolding node_map_def by (rule option.map_sel, subst some [OF that], rule option.distinct)
    then show ?thesis using snapshot_node_keyed [OF at(2,3) assms(3) some [OF that]] by simp
  qed
  then have nodes: "traverse (snapshot_node C at) (sort_key fst ps) = Inr (map ?sn [0 ..< ?n])"
    unfolding ps(2) traverse_map by (intro traverse_all_Inr) simp
  have "List.map_filter (node_snapshot g) [0 ..< ?n] = map ?sn [0 ..< ?n]"
  proof -
    have "filter (\<lambda>i. node_snapshot g i \<noteq> None) [0 ..< ?n] = [0 ..< ?n]"
      using node_snapshot_None [of g] by (intro filter_True ballI) (simp add: not_le del: not_None_eq)
    then show ?thesis by (simp add: List.map_filter_def comp_def)
  qed
  then have "snapshot g = \<lparr>gs_nodes = map ?sn [0 ..< ?n], gs_entry_point = ms_entry_point (state_row g),
      gs_entry_level = ms_entry_level (state_row g), gs_rng_state = ms_rng_state (state_row g),
      gs_live_count = length (filter (\<lambda>n. \<not> sn_tombstone n) (map ?sn [0 ..< ?n]))\<rparr>"
    by (simp add: snapshot_def state_row_def state_meta_def Let_def)
  then show ?thesis using assms(5) ts nt(1) at(1) ps(1) nodes
    by (simp add: read_snapshot_def open_in_def ok_or_def)
qed

lemma config_of_config_row:
  assumes "config_ok c" "0 < Dimension_get d" "metric_to_u8 (cfg_metric c) = Inr b"
  shows "config_of_row (config_row c d b) = Inr (c, d)"
proof -
  have "HnswConfig_new (cfg_metric c) (cfg_m c) (cfg_ef_construction c) (cfg_ef_search c) (cfg_seed c) = Inr c"
    using assms(1) by (simp add: HnswConfig_new_Inr)
  moreover have "Dimension_try_from (word_of_nat (Dimension_get d)) = Inr d"
    using assms(2) by (cases d) (auto simp: Dimension_try_from_def Dimension_get_def)
  ultimately show ?thesis using metric_byte [OF assms(3)] by (simp add: config_of_row_def config_row_def)
qed

lemma read_meta_disk:
  assumes "redb_ok R view" "meta_disk C c d st (view db)" "rd_read R db = Inr ts" "config_ok c" "0 < Dimension_get d"
  shows "res_bind (read_meta R C db) (\<lambda>(cfg_row, state_row).
    map_res (\<lambda>(config, d). (config, d, state_row)) (config_of_row cfg_row)) = Inr (c, d, st)"
proof -
  obtain t b bs bs' where t: "view db META = Some t" "metric_to_u8 (cfg_metric c) = Inr b"
    "map_of t META_CONFIG_KEY = Some bs" "cd_dec (hc_config C) bs = Inr (config_row c d b)"
    "map_of t META_STATE_KEY = Some bs'" "cd_dec (hc_state C) bs' = Inr st"
    using assms(2) by (auto simp: meta_disk_def)
  then have "read_meta R C db = Inr (config_row c d b, st)"
    using assms(3) rd_read_view [OF assms(1,3)] by (simp add: read_meta_def read_table_def open_in_def ok_or_def)
  then show ?thesis using config_of_config_row [OF assms(4,5) t(2)] by simp
qed

section \<open>Concrete codecs\<close>

definition hnsw_codecs :: HnswCodecs where
  "hnsw_codecs =
     \<lparr>hc_idx = codec_of pk_nat,
      hc_node = codec_of (pk_map (\<lambda>r. (nr_id_bytes r, nr_level r, nr_tombstone r))
        (\<lambda>(i, l, t). \<lparr>nr_id_bytes = i, nr_level = l, nr_tombstone = t\<rparr>) (pk_pair (pk_word 16) (pk_pair pk_nat pk_bool))),
      hc_adj_key = codec_of (pk_map (\<lambda>k. (ak_node_idx k, ak_layer k))
        (\<lambda>(i, l). \<lparr>ak_node_idx = i, ak_layer = l\<rparr>) (pk_pair pk_nat pk_nat)),
      hc_neighbors = codec_of (pk_list pk_nat),
      hc_config = codec_of (pk_map
        (\<lambda>c. (mc_metric_byte c, mc_dimension c, mc_m c, mc_ef_construction c, mc_ef_search c, mc_seed c))
        (\<lambda>(b, d, m, c, s, r). \<lparr>mc_metric_byte = b, mc_dimension = d, mc_m = m, mc_ef_construction = c,
           mc_ef_search = s, mc_seed = r\<rparr>)
        (pk_pair (pk_word 1) (pk_pair (pk_word 4) (pk_pair pk_nat (pk_pair pk_nat (pk_pair pk_nat (pk_word 8))))))),
      hc_state = codec_of (pk_map (\<lambda>s. (ms_entry_point s, ms_entry_level s, ms_rng_state s, ms_node_count s))
        (\<lambda>(e, l, r, n). \<lparr>ms_entry_point = e, ms_entry_level = l, ms_rng_state = r, ms_node_count = n\<rparr>)
        (pk_pair (pk_option pk_nat) (pk_pair pk_nat (pk_pair (pk_word 8) pk_nat))))\<rparr>"

lemma hnsw_codecs_fine: "codecs_ok hnsw_codecs" "codecs_total hnsw_codecs"
  unfolding codecs_ok_def codecs_total_def hnsw_codecs_def
  by (auto intro!: codec_of_ok [THEN conjunct1] codec_of_ok [THEN conjunct2] pack pk_word_ok)

end
