(* ===== verification/Hnsw_Durability.thy ===== *)
theory Hnsw_Durability
  imports Hnsw_Rows Recovery
begin

text \<open>
  What \<open>PersistentHnswIndex\<close> leaves on disk: \<open>pn_disk\<close> says that rows and segment are those of a graph,
  every operation is followed under arbitrary faults, opening reads the very graph back, and
  \<open>pn_reach\<close> is the index as a machine with restarts.
\<close>

section \<open>The index on disk\<close>

abbreviation pn_bytes :: "'d PersistentHnswIndex \<Rightarrow> u8 list" where
  "pn_bytes self \<equiv> fl_bytes (sg_file (pn_segment self))"

abbreviation seg_end :: "HnswIndex \<Rightarrow> nat" where
  "seg_end g \<equiv> HEADER_LEN + node_count (hi_graph g) * (Dimension_get (hi_dimension g) * 4)"

definition seg_disk :: "HnswIndex \<Rightarrow> u8 list \<Rightarrow> bool" where
  "seg_disk g bytes \<longleftrightarrow> header_ok (cfg_metric (hi_config g)) (hi_dimension g) bytes \<and> 0 < Dimension_get (hi_dimension g) \<and>
     seg_end g \<le> length bytes \<and> seg_end g < FILE_MAX \<and>
     (\<forall>i < node_count (hi_graph g).
        record_at (Dimension_get (hi_dimension g)) bytes i = as_slice (nd_embedding (gr_nodes (hi_graph g) ! i)))"

definition pn_disk :: "HnswCodecs \<Rightarrow> HnswIndex \<Rightarrow> u8 list \<Rightarrow> tables \<Rightarrow> bool" where
  "pn_disk C g bytes ts \<longleftrightarrow> hnsw_ok g \<and> stored_ok g \<and> graph_disk C g ts \<and>
     meta_disk C (hi_config g) (hi_dimension g) (state_row g) ts \<and> seg_disk g bytes"

definition pn_dir_ok :: "('d \<Rightarrow> tables) \<Rightarrow> HnswCodecs \<Rightarrow> HnswIndex \<Rightarrow> 'd Store_dir \<Rightarrow> bool" where
  "pn_dir_ok view C g dir \<longleftrightarrow>
     (\<exists>bytes db. sd_segment dir = Some bytes \<and> sd_catalog dir = Some db \<and> pn_disk C g bytes (view db))"

text \<open>Between two calls the segment ends exactly at the last node.\<close>

definition pn_ok :: "('d \<Rightarrow> tables) \<Rightarrow> HnswCodecs \<Rightarrow> 'd PersistentHnswIndex \<Rightarrow> bool" where
  "pn_ok view C self \<longleftrightarrow> pn_disk C (pn_graph self) (pn_bytes self) (view (pn_db self)) \<and>
     length (pn_bytes self) = seg_end (pn_graph self) \<and>
     sg_dimension (pn_segment self) = Dimension_get (hi_dimension (pn_graph self))"

lemma pn_dir_ok_dir: "pn_dir_ok view C g (pn_dir self) \<longleftrightarrow> pn_disk C g (pn_bytes self) (view (pn_db self))"
  by (simp add: pn_dir_ok_def pn_dir_def)

lemma seg_disk_same:
  assumes "seg_disk g bytes" "seg_end g \<le> length bytes'" "take (seg_end g) bytes' = take (seg_end g) bytes"
  shows "seg_disk g bytes'"
proof -
  have le: "seg_end g \<le> length bytes" using assms(1) by (simp add: seg_disk_def)
  have "record_at (Dimension_get (hi_dimension g)) bytes' i = record_at (Dimension_get (hi_dimension g)) bytes i"
    if "i < node_count (hi_graph g)" for i
    using record_at_prefix(2) [OF le that] record_at_prefix(2) [OF assms(2) that] assms(3) by simp
  moreover have "take HEADER_LEN bytes' = take HEADER_LEN bytes"
    using arg_cong [OF assms(3), of "take HEADER_LEN"] by simp
  ultimately show ?thesis
    using assms(1,2) header_ok_prefix [of "cfg_metric (hi_config g)" "hi_dimension g" bytes bytes'] by (simp add: seg_disk_def)
qed

lemma pn_disk_same:
  "pn_disk C g bytes ts \<Longrightarrow> seg_end g \<le> length bytes' \<Longrightarrow> take (seg_end g) bytes' = take (seg_end g) bytes \<Longrightarrow>
   pn_disk C g bytes' ts"
  using seg_disk_same [of g bytes bytes'] by (simp add: pn_disk_def)

lemma pn_disk_append: "pn_disk C g bytes ts \<Longrightarrow> pn_disk C g (bytes @ xs) ts"
  by (rule pn_disk_same) (simp_all add: pn_disk_def seg_disk_def)

lemma stored_ok_map: "stored_ok s \<longleftrightarrow> (\<forall>e \<in> set (map nd_embedding (gr_nodes (hi_graph s))). embedding_ok e)"
  by (simp add: stored_ok_def)

lemma seg_disk_extend:
  assumes "seg_disk g bytes" "length bytes = seg_end g" "Embedding_dimension e = hi_dimension g"
    and "hi_config g' = hi_config g" "hi_dimension g' = hi_dimension g"
    and "map nd_embedding (gr_nodes (hi_graph g')) = map nd_embedding (gr_nodes (hi_graph g)) @ [e]"
    and "length (bytes @ floats_to_bytes (as_slice e)) < FILE_MAX"
  shows "seg_disk g' (bytes @ floats_to_bytes (as_slice e)) \<and> length (bytes @ floats_to_bytes (as_slice e)) = seg_end g'"
proof -
  let ?dim = "Dimension_get (hi_dimension g)" and ?n = "node_count (hi_graph g)" and ?b = "bytes @ floats_to_bytes (as_slice e)"
  have pos: "0 < ?dim" using assms(1) by (simp add: seg_disk_def)
  have len: "length (as_slice e) = ?dim" by (rule Embedding_dimension_length [OF assms(3) pos])
  have n: "node_count (hi_graph g') = Suc ?n"
    using arg_cong [OF assms(6), of length] by (simp add: node_count_def)
  have blen: "length ?b = seg_end g'" using assms(2) len n by (simp add: assms(5))
  have "record_at ?dim ?b i = as_slice (nd_embedding (gr_nodes (hi_graph g') ! i))" if "i < Suc ?n" for i
  proof -
    have nth: "nd_embedding (gr_nodes (hi_graph g') ! i) = (map nd_embedding (gr_nodes (hi_graph g)) @ [e]) ! i"
      using that n arg_cong [OF assms(6), of "\<lambda>xs. xs ! i"] by (simp add: node_count_def)
    show ?thesis
    proof (cases "i < ?n")
      case True
      then have "record_at ?dim ?b i = record_at ?dim bytes i"
        using record_at_prefix(1) [of ?n ?dim bytes i] assms(2) by simp
      then show ?thesis using True assms(1) nth by (simp add: seg_disk_def node_count_def nth_append)
    next
      case False
      then have "i = ?n" using that by simp
      then show ?thesis using nth record_at_appended [OF assms(2), of "[as_slice e]" 0 "[]"] len
        by (simp add: node_count_def nth_append)
    qed
  qed
  moreover have "header_ok (cfg_metric (hi_config g)) (hi_dimension g) ?b"
    using assms(1,2) header_ok_prefix [of _ _ bytes ?b] by (simp add: seg_disk_def)
  ultimately show ?thesis using pos n blen assms(7) by (simp add: seg_disk_def assms(4,5))
qed

section \<open>Operations under any faults\<close>

lemma commit_rows_spec:
  assumes "redb_ok R view" "commit_rows R rows self = (r, self')"
    and "\<And>t. rows (pn_graph self) (pn_db self) = Inr t \<Longrightarrow> tx_reads (view (pn_db self)) t"
  shows "pn_graph self' = pn_graph self \<and> pn_segment self' = pn_segment self \<and>
    (case r of Inl _ \<Rightarrow> view (pn_db self') = view (pn_db self)
     | Inr _ \<Rightarrow> \<exists>t. rows (pn_graph self) (pn_db self) = Inr t \<and> view (pn_db self') = tx_tables t)"
proof (cases "rows (pn_graph self) (pn_db self)")
  case (Inl e)
  then show ?thesis using assms(2) by (auto simp: commit_rows_def)
next
  case (Inr t)
  obtain r1 db where c: "commit_as St_Catalog R (tx_writes t) (pn_db self) = (r1, db)" by fastforce
  from assms(3) [OF Inr] commit_as_view [OF assms(1) c] assms(2) Inr c show ?thesis
    by (auto simp: commit_rows_def tx_reads_def split: sum.splits)
qed

lemma pn_on_segment_append:
  assumes "pn_on_segment (Segment_append vs) self = (r, self')"
  shows "(\<exists>n. pn_bytes self' = pn_bytes self @ take n (floats_to_bytes vs)) \<and>
    (r = Inr () \<longrightarrow> pn_bytes self' = pn_bytes self @ floats_to_bytes vs \<and> length (pn_bytes self') < FILE_MAX) \<and>
    pn_graph self' = pn_graph self \<and> pn_db self' = pn_db self \<and>
    sg_dimension (pn_segment self') = sg_dimension (pn_segment self)"
proof -
  obtain seg where g: "Segment_append vs (pn_segment self) = (r, seg)" "self' = self\<lparr>pn_segment := seg\<rparr>"
    using assms by (auto simp: pn_on_segment_def split: prod.splits)
  have "sg_dimension seg = sg_dimension (pn_segment self)" using Segment_append_faulty [OF g(1)] by (metis Segment.select_convs(2) Segment.surjective Segment.update_convs(1))
  then show ?thesis using Segment_append_faulty [OF g(1)] g(2) by auto
qed

lemma write_through_insert_spec:
  assumes "redb_ok R view" "codecs_ok C" "pn_ok view C self" "embedding_ok e"
    and "write_through_insert ln_f R C i e self = (r, self')"
  shows "case r of Inl _ \<Rightarrow> pn_disk C (pn_graph self) (pn_bytes self') (view (pn_db self'))
    | Inr _ \<Rightarrow> pn_ok view C self' \<and> pn_graph self' = snd (insert_tracked ln_f i e (pn_graph self))"
proof -
  let ?g = "pn_graph self"
  have disk: "pn_disk C ?g (pn_bytes self) (view (pn_db self))" and exact: "length (pn_bytes self) = seg_end ?g"
    and sdim: "sg_dimension (pn_segment self) = Dimension_get (hi_dimension ?g)"
    using assms(3) by (simp_all add: pn_ok_def)
  then have ok: "hnsw_ok ?g" and st: "stored_ok ?g" and gd: "graph_disk C ?g (view (pn_db self))"
    and md: "meta_disk C (hi_config ?g) (hi_dimension ?g) (state_row ?g) (view (pn_db self))" and sd: "seg_disk ?g (pn_bytes self)"
    by (simp_all add: pn_disk_def)
  obtain r1 s1 where s1: "pn_on_segment (Segment_append (as_slice e)) self = (r1, s1)" by fastforce
  note a = pn_on_segment_append [OF s1]
  have old: "pn_disk C ?g (pn_bytes s1) (view (pn_db self))" using a pn_disk_append [OF disk] by auto
  show ?thesis
  proof (cases r1)
    case (Inl err)
    then have "r = Inl err" "self' = s1" using assms(5) s1 by (simp_all add: write_through_insert_def)
    then show ?thesis using old a by simp
  next
    case (Inr u)
    with a have full: "pn_bytes s1 = pn_bytes self @ floats_to_bytes (as_slice e)" "length (pn_bytes s1) < FILE_MAX" by auto
    obtain r2 g' where g': "insert_tracked ln_f i e ?g = (r2, g')" by fastforce
    show ?thesis
    proof (cases "Embedding_dimension e = hi_dimension ?g \<and> gr_live (hi_graph ?g) i = None")
      case False
      have "\<exists>err. insert_tracked ln_f i e ?g = (Inl err, ?g)"
      proof (cases "Embedding_dimension e = hi_dimension ?g")
        case True
        with False have "gr_live (hi_graph ?g) i \<noteq> None" by simp
        from insert_tracked_error(2) [OF True this] show ?thesis by blast
      qed (use insert_tracked_error(1) in blast)
      then obtain err where "insert_tracked ln_f i e (pn_graph s1) = (Inl err, pn_graph s1)" using a by auto
      then have "r = Inl (St_Index err)" "self' = s1"
        using assms(5) s1 Inr by (cases s1; simp add: write_through_insert_def pn_on_graph_def)+
      then show ?thesis using old a by simp
    next
      case True
      then have dim: "Embedding_dimension e = hi_dimension ?g" and fresh: "gr_live (hi_graph ?g) i = None" by simp_all
      note f = insert_tracked_Inr [OF ok dim fresh g']
      obtain delta where delta: "r2 = Inr delta"
        "{i. node_snapshot g' i \<noteq> node_snapshot ?g i} \<subseteq> set (ins_touched_nodes delta)"
        "map nd_embedding (gr_nodes (hi_graph g')) = map nd_embedding (gr_nodes (hi_graph ?g)) @ [e]"
        by (rule insert_tracked_rows [OF ok dim fresh g']) (rule that)
      let ?s2 = "s1\<lparr>pn_graph := g'\<rparr>" and ?rows = "\<lambda>graph db. insert_rows R C graph (ins_touched_nodes delta) db"
      have c: "commit_rows R ?rows ?s2 = (r, self')"
        using assms(5) s1 Inr g' a delta(1) by (simp add: write_through_insert_def pn_on_graph_def)
      have rows: "graph_disk C g' (tx_tables t) \<and> meta_disk C (hi_config ?g) (hi_dimension ?g) (state_row g') (tx_tables t) \<and>
          tx_reads (view (pn_db self)) t" if "?rows g' (pn_db self) = Inr t" for t
        by (rule insert_rows_spec [OF assms(1,2) f(2) gd md delta(2) _ that]) (simp add: f(6))
      then have k: "pn_graph self' = g'" "pn_segment self' = pn_segment s1"
        "case r of Inl _ \<Rightarrow> view (pn_db self') = view (pn_db self)
         | Inr _ \<Rightarrow> \<exists>t. ?rows g' (pn_db self) = Inr t \<and> view (pn_db self') = tx_tables t"
        using commit_rows_spec [OF assms(1) c] a by (simp_all split: sum.splits)
      show ?thesis
      proof (cases r)
        case (Inl err)
        then show ?thesis using k old by simp
      next
        case ok': (Inr v)
        then obtain t where t: "?rows g' (pn_db self) = Inr t" "view (pn_db self') = tx_tables t" using k(3) by auto
        have seg: "seg_disk g' (pn_bytes s1) \<and> length (pn_bytes s1) = seg_end g'"
          using seg_disk_extend [OF sd exact dim f(4,5) delta(3)] full by simp
        have "stored_ok g'" using st assms(4) unfolding stored_ok_map delta(3) by simp
        then have "pn_ok view C self'"
          using rows [OF t(1)] seg f(2,4,5) k(1,2) t(2) a sdim by (simp add: pn_ok_def pn_disk_def)
        then show ?thesis using ok' k(1) g' by simp
      qed
    qed
  qed
qed

lemma write_through_remove_spec:
  assumes "redb_ok R view" "codecs_ok C" "pn_ok view C self" "write_through_remove R C i self = (r, self')"
  shows "case r of Inl _ \<Rightarrow> pn_disk C (pn_graph self) (pn_bytes self') (view (pn_db self'))
    | Inr b \<Rightarrow> pn_ok view C self' \<and> pn_graph self' = snd (remove_tracked i (pn_graph self)) \<and>
        b = (hnsw_contents (pn_graph self) i \<noteq> None)"
proof -
  let ?g = "pn_graph self"
  have disk: "pn_disk C ?g (pn_bytes self) (view (pn_db self))" and exact: "length (pn_bytes self) = seg_end ?g"
    and sdim: "sg_dimension (pn_segment self) = Dimension_get (hi_dimension ?g)"
    using assms(3) by (simp_all add: pn_ok_def)
  then have ok: "hnsw_ok ?g" and st: "stored_ok ?g" and gd: "graph_disk C ?g (view (pn_db self))"
    and md: "meta_disk C (hi_config ?g) (hi_dimension ?g) (state_row ?g) (view (pn_db self))" and sd: "seg_disk ?g (pn_bytes self)"
    by (simp_all add: pn_disk_def)
  have dom: "hnsw_contents ?g i = None \<longleftrightarrow> gr_live (hi_graph ?g) i = None"
    by (simp add: hnsw_contents_def graph_contents_def)
  show ?thesis
  proof (cases "gr_live (hi_graph ?g) i")
    case None
    then have "remove_tracked i ?g = (Inr None, ?g)" by (simp add: remove_tracked_def id_to_node_def)
    then have "r = Inr False" "self' = self"
      using assms(4) by (cases self; simp add: write_through_remove_def pn_on_graph_def)+
    then show ?thesis using assms(3) dom None \<open>remove_tracked i ?g = (Inr None, ?g)\<close> by simp
  next
    case (Some n)
    obtain delta g' where d: "remove_tracked i ?g = (Inr (Some delta), g')" "rem_touched_nodes delta = [n]"
      "\<forall>i. i \<noteq> n \<longrightarrow> node_snapshot g' i = node_snapshot ?g i"
      "\<forall>i. map_option sn_neighbors_per_layer (node_snapshot g' i) = map_option sn_neighbors_per_layer (node_snapshot ?g i)"
      "map nd_embedding (gr_nodes (hi_graph g')) = map nd_embedding (gr_nodes (hi_graph ?g))"
      by (rule remove_tracked_rows [OF ok Some]) (rule that)
    note f = remove_tracked_spec [OF ok d(1)]
    have cnt: "node_count (hi_graph g') = node_count (hi_graph ?g)"
      using arg_cong [OF d(5), of length] by (simp add: node_count_def)
    have adj: "adj_map g' = adj_map ?g"
    proof
      fix k
      show "adj_map g' k = adj_map ?g k" using d(4) [rule_format, of "ak_node_idx k"]
        by (cases "node_snapshot g' (ak_node_idx k)"; cases "node_snapshot ?g (ak_node_idx k)") (simp_all add: adj_map_def)
    qed
    let ?s1 = "self\<lparr>pn_graph := g'\<rparr>" and ?rows = "\<lambda>graph db. remove_rows R C graph (rem_touched_nodes delta) db"
    obtain r1 where c: "commit_rows R ?rows ?s1 = (r1, self')" "r = map_res (\<lambda>_. True) r1"
      using assms(4) d(1) by (cases "commit_rows R ?rows ?s1"; cases "fst (commit_rows R ?rows ?s1)")
        (auto simp: write_through_remove_def pn_on_graph_def)
    have rows: "graph_disk C g' (tx_tables t) \<and> meta_disk C (hi_config ?g) (hi_dimension ?g) (state_row g') (tx_tables t) \<and>
        tx_reads (view (pn_db self)) t" if "?rows g' (pn_db self) = Inr t" for t
      by (rule remove_rows_spec [OF assms(1,2) gd md _ _ adj that]) (use d(2,3) cnt in auto)
    then have k: "pn_graph self' = g'" "pn_segment self' = pn_segment self"
      "case r1 of Inl _ \<Rightarrow> view (pn_db self') = view (pn_db self)
       | Inr _ \<Rightarrow> \<exists>t. ?rows g' (pn_db self) = Inr t \<and> view (pn_db self') = tx_tables t"
      using commit_rows_spec [OF assms(1) c(1)] by (simp_all split: sum.splits)
    show ?thesis
    proof (cases r1)
      case (Inl err)
      then show ?thesis using k disk c(2) by simp
    next
      case (Inr v)
      then obtain t where t: "?rows g' (pn_db self) = Inr t" "view (pn_db self') = tx_tables t" using k(3) by auto
      have emb: "nd_embedding (gr_nodes (hi_graph g') ! j) = nd_embedding (gr_nodes (hi_graph ?g) ! j)"
        if "j < node_count (hi_graph ?g)" for j
        using that cnt arg_cong [OF d(5), of "\<lambda>xs. xs ! j"] by (simp add: node_count_def)
      have "seg_disk g' (pn_bytes self)" using sd f(4,5) cnt emb by (simp add: seg_disk_def)
      moreover have "stored_ok g'" using st unfolding stored_ok_map d(5) .
      ultimately have "pn_ok view C self'"
        using rows [OF t(1)] f(2,4,5) k(1,2) t(2) exact sdim cnt by (simp add: pn_ok_def pn_disk_def)
      then show ?thesis using Inr c(2) k(1) d(1) dom Some by simp
    qed
  qed
qed

section \<open>Opening\<close>

lemma seg_disk_reader:
  assumes "seg_disk g bytes" "length bytes = seg_end g"
  shows "(\<lambda>idx. Segment_record idx \<lparr>sg_file = \<lparr>fl_bytes = bytes, fl_faults = fs\<rparr>, sg_dimension = Dimension_get (hi_dimension g),
      sg_mmap = Some (length bytes), sg_mapped_records = node_count (hi_graph g)\<rparr>) = node_embedding (hi_graph g)"
proof
  fix i
  let ?s = "\<lparr>sg_file = \<lparr>fl_bytes = bytes, fl_faults = fs\<rparr>, sg_dimension = Dimension_get (hi_dimension g),
      sg_mmap = Some (length bytes), sg_mapped_records = node_count (hi_graph g)\<rparr>"
  show "Segment_record i ?s = node_embedding (hi_graph g) i"
  proof (cases "i < node_count (hi_graph g)")
    case True
    then have "Segment_record i ?s = Some (record_at (Dimension_get (hi_dimension g)) bytes i)"
      using Segment_record_mapped [of i ?s "length bytes"] assms(2) by simp
    then show ?thesis using True assms(1) by (simp add: seg_disk_def node_embedding_in)
  next
    case False
    then show ?thesis by (simp add: Segment_record_def node_embedding_def get_node_out)
  qed
qed

lemma seg_end_u64: "seg_disk g bytes \<Longrightarrow> node_count (hi_graph g) \<le> usize_max"
  using watermark_u64 [of "node_count (hi_graph g)" "Dimension_get (hi_dimension g) * 4"]
  by (simp add: seg_disk_def usize_max_def)

text \<open>Opening the segment of a graph: a success is exact, a failure leaves the records.\<close>

lemma Segment_open_graph:
  assumes "seg_disk g bytes"
    and "Segment_open (cfg_metric (hi_config g)) (Dimension_get (hi_dimension g)) (node_count (hi_graph g)) fs (Some bytes) =
      (rs, (path, fs'))"
  shows "\<exists>bytes'. path = Some bytes' \<and> seg_disk g bytes' \<and> (fs = [] \<longrightarrow> (\<exists>seg. rs = Inr seg)) \<and>
    (\<forall>seg. rs = Inr seg \<longrightarrow> length bytes' = seg_end g \<and>
       seg = \<lparr>sg_file = \<lparr>fl_bytes = bytes', fl_faults = fs'\<rparr>, sg_dimension = Dimension_get (hi_dimension g),
              sg_mmap = Some (length bytes'), sg_mapped_records = node_count (hi_graph g)\<rparr>)"
proof -
  have le: "seg_end g \<le> length bytes" using assms(1) by (simp add: seg_disk_def)
  obtain bytes' where b': "path = Some bytes'" "bytes' = bytes \<or> bytes' = take (seg_end g) bytes"
    "\<forall>seg. rs = Inr seg \<longrightarrow> bytes' = take (seg_end g) bytes \<and> seg = \<lparr>sg_file = \<lparr>fl_bytes = bytes', fl_faults = fs'\<rparr>,
      sg_dimension = Dimension_get (hi_dimension g), sg_mmap = Some (length bytes'), sg_mapped_records = node_count (hi_graph g)\<rparr>"
    using Segment_open_faulty [OF assms(2)] resize_take [OF le] assms(1) by (auto simp: seg_disk_def)
  have "seg_disk g bytes'" by (rule seg_disk_same [OF assms(1)]) (use b'(2) le in auto)
  moreover have "\<exists>seg. rs = Inr seg" if "fs = []"
  proof -
    obtain b where "metric_to_u8 (cfg_metric (hi_config g)) = Inr b"
      "take HEADER_LEN bytes = header_bytes b (word_of_nat (Dimension_get (hi_dimension g)))"
      using assms(1) by (auto simp: seg_disk_def header_ok_def)
    from Segment_open_clean [OF this(1) Dimension_get_le this(2)] assms that show ?thesis by (auto simp: seg_disk_def)
  qed
  ultimately show ?thesis using b'(1,3) le by (intro exI [of _ bytes']) auto
qed

text \<open>Whatever the faults, an opening that succeeds has the graph back, and one that fails can be repeated.\<close>

lemma Pn_open_spec:
  assumes "redb_ok R view" "codecs_ok C" "pn_dir_ok view C g dir" "Pn_open R C dir = (r, dir')"
  shows "pn_dir_ok view C g dir' \<and> (\<forall>self. r = Inr self \<longrightarrow> pn_ok view C self \<and> pn_graph self = g) \<and>
    (redb_total R \<and> sd_faults dir = [] \<longrightarrow> (\<exists>self. r = Inr self))"
proof -
  obtain bytes db where dir: "sd_segment dir = Some bytes" "sd_catalog dir = Some db" "pn_disk C g bytes (view db)"
    using assms(3) by (auto simp: pn_dir_ok_def)
  then have ok: "hnsw_ok g" and st: "stored_ok g" and gd: "graph_disk C g (view db)"
    and md: "meta_disk C (hi_config g) (hi_dimension g) (state_row g) (view db)" and sd: "seg_disk g bytes"
    by (simp_all add: pn_disk_def)
  have cfg: "config_ok (hi_config g)" "0 < Dimension_get (hi_dimension g)"
    using ok sd by (simp_all add: hnsw_ok_def seg_disk_def)
  show ?thesis
  proof (cases "rd_open R db")
    case (Inl e)
    then have "\<not> redb_total R" by (metis redb_total_def Inr_Inl_False)
    then show ?thesis using assms(3,4) dir Inl by (auto simp: Pn_open_def)
  next
    case o: (Inr db')
    then have v: "view db' = view db" using assms(1) by (simp add: redb_ok_def)
    show ?thesis
    proof (cases "rd_read R db'")
      case (Inl e)
      then have "read_meta R C db' = Inl (St_Catalog e)" by (simp add: read_meta_def read_table_def)
      then have "r = Inl (St_Catalog e)" "dir' = dir\<lparr>sd_catalog := Some db'\<rparr>"
        using assms(4) dir(2) o by (simp_all add: Pn_open_def)
      moreover have "\<not> redb_total R" using Inl by (metis redb_total_def Inr_Inl_False)
      ultimately show ?thesis using dir v by (auto simp: pn_dir_ok_def)
    next
      case rd: (Inr ts)
      note meta = read_meta_disk [OF assms(1) md [folded v] rd cfg]
      have n: "ms_node_count (state_row g) = node_count (hi_graph g)" by (simp add: state_row_def state_meta_def)
      obtain rs path fs' where so: "Segment_open (cfg_metric (hi_config g)) (Dimension_get (hi_dimension g))
          (node_count (hi_graph g)) (sd_faults dir) (Some bytes) = (rs, (path, fs'))" by (metis prod.collapse)
      from Segment_open_graph [OF sd so] obtain bytes' where b: "path = Some bytes'" "seg_disk g bytes'"
        "sd_faults dir = [] \<longrightarrow> (\<exists>seg. rs = Inr seg)"
        "\<forall>seg. rs = Inr seg \<longrightarrow> length bytes' = seg_end g \<and>
           seg = \<lparr>sg_file = \<lparr>fl_bytes = bytes', fl_faults = fs'\<rparr>, sg_dimension = Dimension_get (hi_dimension g),
                  sg_mmap = Some (length bytes'), sg_mapped_records = node_count (hi_graph g)\<rparr>" by blast
      have disk: "pn_disk C g bytes' (view db')" using dir(3) b(2) v by (simp add: pn_disk_def)
      have snap: "read_snapshot R C (state_row g) db' = Inr (snapshot g)"
        by (rule read_snapshot_disk [OF assms(1,2) ok gd [folded v] rd])
      show ?thesis
      proof (cases rs)
        case (Inl e)
        then have "r = Inl e" "dir' = \<lparr>sd_segment = path, sd_catalog = Some db', sd_faults = fs'\<rparr>"
          using assms(4) dir(1,2) o meta so n by (simp_all add: Pn_open_def)
        then show ?thesis using b(1,3) disk Inl by (auto simp: pn_dir_ok_def)
      next
        case (Inr seg)
        with b(4) have seg: "length bytes' = seg_end g"
          "seg = \<lparr>sg_file = \<lparr>fl_bytes = bytes', fl_faults = fs'\<rparr>, sg_dimension = Dimension_get (hi_dimension g),
                  sg_mmap = Some (length bytes'), sg_mapped_records = node_count (hi_graph g)\<rparr>" by blast+
        have "from_snapshot (hi_config g) (hi_dimension g) (snapshot g) (\<lambda>idx. Segment_record idx seg) = Inr g"
          unfolding seg(2) seg_disk_reader [OF b(2) seg(1)]
          using from_snapshot_snapshot [OF ok _ seg_end_u64 [OF sd]] st by (simp add: stored_ok_def)
        then have "r = Inr \<lparr>pn_graph = g, pn_db = db', pn_segment = seg\<rparr>"
          "dir' = \<lparr>sd_segment = path, sd_catalog = Some db', sd_faults = fs'\<rparr>"
          using assms(4) dir(1,2) o meta so n Inr snap by (simp_all add: Pn_open_def)
        then show ?thesis using b(1) disk seg by (auto simp: pn_dir_ok_def pn_ok_def)
      qed
    qed
  qed
qed

section \<open>Creation\<close>

lemma HnswIndex_new_simps [simp]:
  "hi_config (HnswIndex_new c d) = c" "hi_dimension (HnswIndex_new c d) = d" "node_count (hi_graph (HnswIndex_new c d)) = 0"
  by (simp_all add: HnswIndex_new_def HnswGraph_new_def node_count_def)

lemma empty_graph_maps: "node_map (HnswIndex_new c d) = Map.empty" "adj_map (HnswIndex_new c d) = Map.empty"
  by (simp_all add: node_map_def adj_map_def fun_eq_iff node_snapshot_None [THEN iffD2])

lemma create_txn_spec:
  assumes "redb_ok R view" "codecs_ok C" "create_txn R C c d b db = Inr t" "view db = Map.empty"
    "metric_to_u8 (cfg_metric c) = Inr b"
  shows "graph_disk C (HnswIndex_new c d) (tx_tables t) \<and>
    meta_disk C c d (state_row (HnswIndex_new c d)) (tx_tables t) \<and> tx_reads (view db) t"
proof -
  let ?st = "\<lparr>ms_entry_point = None, ms_entry_level = 0, ms_rng_state = cfg_seed c, ms_node_count = 0\<rparr>"
  have st: "state_row (HnswIndex_new c d) = ?st"
    by (simp add: state_row_def state_meta_def) (simp add: HnswIndex_new_def HnswGraph_new_def SplitMix64_new_def)
  obtain t0 where t0: "begin_write St_Catalog R db = Inr t0"
    using assms(3) by (cases "begin_write St_Catalog R db") (auto simp: create_txn_def)
  let ?t = "tx_do (W_open META) (tx_do (W_open NODES) (tx_do (W_open ADJ) t0))"
  have t0': "tx_tables t0 = Map.empty" "tx_reads (view db) t0" using begin_write_Inr [OF t0 assms(1)] assms(4) by auto
  then have tabs: "tx_tables ?t META = Some []" "tx_tables ?t NODES = Some []" "tx_tables ?t ADJ = Some []"
    by (simp_all add: tx_do_def table_of_def)
  obtain t1 where t1: "pn_put (hc_config C) META META_CONFIG_KEY (config_row c d b) ?t = Inr t1"
    and t: "pn_put (hc_state C) META META_STATE_KEY ?st t1 = Inr t"
    using assms(3) t0 by (auto simp: create_txn_def Let_def res_bind_eq_Inr split: if_splits)
  obtain v1 where v1: "cd_enc (hc_config C) (config_row c d b) = Inr v1" "t1 = tx_do (W_insert META META_CONFIG_KEY v1) ?t"
    "only_table META ?t t1" using pn_put_insert [OF t1] by blast
  obtain v2 where v2: "cd_enc (hc_state C) ?st = Inr v2" "t = tx_do (W_insert META META_STATE_KEY v2) t1" "only_table META t1 t"
    using pn_put_insert [OF t] by blast
  let ?m1 = "bt_insert META_CONFIG_KEY v1 []"
  have m1: "btree_ok ?m1" by (rule bt_insert_ok) simp
  have "tx_tables t1 META = Some ?m1" using tabs(1) by (simp add: v1(2)) (simp add: tx_do_def table_of_def)
  then have meta: "tx_tables t META = Some (bt_insert META_STATE_KEY v2 ?m1)" by (simp add: v2(2)) (simp add: tx_do_def table_of_def)
  have dec: "cd_dec (hc_config C) v1 = Inr (config_row c d b)" "cd_dec (hc_state C) v2 = Inr ?st"
    using assms(2) v1(1) v2(1) codec_Inr by (auto simp: codecs_ok_def)
  have "meta_disk C c d ?st (tx_tables t)"
    unfolding meta_disk_def using meta bt_insert_ok [OF m1] assms(5) dec map_of_bt_insert [OF m1] map_of_bt_insert [OF btree_ok_Nil]
    by (intro exI [of _ "bt_insert META_STATE_KEY v2 ?m1"] exI [of _ b] exI [of _ v1] exI [of _ v2]) simp
  moreover have "tx_tables t NODES = Some []" "tx_tables t ADJ = Some []"
    using only_table_other [OF v2(3)] only_table_other [OF v1(3)] tabs(2,3) by simp_all
  then have "graph_disk C (HnswIndex_new c d) (tx_tables t)"
    unfolding graph_disk_def holds_def empty_graph_maps by (auto intro!: exI [of _ Map.empty])
  moreover have "tx_reads (view db) ?t" using t0'(2) by (intro tx_reads_do)
  then have "tx_reads (view db) t" using only_table_reads [OF v2(3)] only_table_reads [OF v1(3)] by blast
  ultimately show ?thesis by (simp add: st)
qed

lemma create_txn_total:
  assumes "redb_total R" "codecs_total C"
  shows "\<exists>t. create_txn R C c d b db = Inr t"
proof -
  obtain ts where "rd_read R db = Inr ts" using assms(1) unfolding redb_total_def by blast
  then have t0: "\<exists>t. begin_write St_Catalog R db = Inr t" by (simp add: begin_write_def)
  then obtain t where t: "begin_write St_Catalog R db = Inr t" by blast
  let ?t = "tx_do (W_open META) (tx_do (W_open NODES) (tx_do (W_open ADJ) t))"
  have C: "codec_total (hc_config C)" "codec_total (hc_state C)" using assms(2) by (simp_all add: codecs_total_def)
  obtain t1 where t1: "pn_put (hc_config C) META META_CONFIG_KEY (config_row c d b) ?t = Inr t1" using pn_put_total [OF C(1)] by blast
  obtain t2 where "pn_put (hc_state C) META META_STATE_KEY
      \<lparr>ms_entry_point = None, ms_entry_level = 0, ms_rng_state = cfg_seed c, ms_node_count = 0\<rparr> t1 = Inr t2"
    using pn_put_total [OF C(2)] by blast
  moreover have "\<not> u32_max < Dimension_get d" by (rule leD) simp
  ultimately show ?thesis using t t1 by (simp add: create_txn_def)
qed

text \<open>A creation in an empty directory that succeeds is the empty index, and succeeds when nothing refuses.\<close>

lemma Pn_create_fresh:
  assumes "redb_ok R view" "codecs_ok C" "config_ok c" "0 < Dimension_get d"
    and "Pn_create R C c d \<lparr>sd_segment = None, sd_catalog = None, sd_faults = fs\<rparr> = (Inr self, dir)"
  shows "pn_ok view C self \<and> pn_graph self = HnswIndex_new c d"
proof -
  let ?g = "HnswIndex_new c d"
  obtain b where b: "metric_to_u8 (cfg_metric c) = Inr b" using metric_to_u8_total by blast
  obtain db0 where db0: "rd_create R None = Inr db0"
    using assms(5) b by (cases "rd_create R None") (auto simp: Pn_create_def)
  then have v0: "view db0 = Map.empty" using assms(1) by (simp add: redb_ok_def)
  obtain t where t: "create_txn R C c d b db0 = Inr t"
    using assms(5) b db0 by (cases "create_txn R C c d b db0") (auto simp: Pn_create_def)
  note tx = create_txn_spec [OF assms(1,2) t v0 b]
  obtain rc db where c: "commit_as St_Catalog R (tx_writes t) db0 = (rc, db)" by fastforce
  obtain rs path fs' where g: "Segment_create (cfg_metric c) (Dimension_get d) fs None = (rs, (path, fs'))" by (metis prod.collapse)
  obtain u seg where ok: "rc = Inr u" "rs = Inr seg" and self: "self = \<lparr>pn_graph = ?g, pn_db = db, pn_segment = seg\<rparr>"
    using assms(5) b db0 t c g by (cases rc; cases rs) (auto simp: Pn_create_def)
  have view: "view db = tx_tables t" using commit_as_view [OF assms(1) c] ok(1) tx by (simp add: tx_reads_def)
  obtain f where f: "fl_bytes f = header_bytes b (word_of_nat (Dimension_get d))"
    "seg = \<lparr>sg_file = f, sg_dimension = Dimension_get d, sg_mmap = Some HEADER_LEN, sg_mapped_records = 0\<rparr>"
    using Segment_create_faulty [OF g [unfolded ok] Dimension_get_le b] by blast
  have "seg_disk ?g (fl_bytes f)"
    using assms(4) b by (simp add: seg_disk_def header_ok_def f(1) FILE_MAX_def) (simp add: HEADER_LEN_def)
  moreover have "stored_ok ?g" by (simp add: stored_ok_def HnswIndex_new_def HnswGraph_new_def)
  ultimately have "pn_disk C ?g (fl_bytes f) (view db)"
    using tx hnsw_new_ok(1) [OF assms(3), of d] by (simp add: pn_disk_def view)
  then show ?thesis by (simp add: pn_ok_def self f)
qed

lemma Pn_create_total:
  assumes "redb_ok R view" "redb_total R" "codecs_total C"
  shows "\<exists>self dir. Pn_create R C c d \<lparr>sd_segment = None, sd_catalog = None, sd_faults = []\<rparr> = (Inr self, dir)"
proof -
  obtain db0 where db0: "rd_create R None = Inr db0" using assms(2) unfolding redb_total_def by blast
  obtain b where b: "metric_to_u8 (cfg_metric c) = Inr b"
    "Segment_create (cfg_metric c) (Dimension_get d) [] None =
      (Inr \<lparr>sg_file = \<lparr>fl_bytes = header_bytes b (word_of_nat (Dimension_get d)), fl_faults = []\<rparr>,
            sg_dimension = Dimension_get d, sg_mmap = Some HEADER_LEN, sg_mapped_records = 0\<rparr>,
       (Some (header_bytes b (word_of_nat (Dimension_get d))), []))"
    by (rule Segment_create_clean [OF Dimension_get_le])
  obtain t where "create_txn R C c d b db0 = Inr t" using create_txn_total [OF assms(2,3)] by blast
  moreover obtain db where "commit_as St_Catalog R (tx_writes t) db0 = (Inr (), db)" using commit_as_total [OF assms(2)] by blast
  ultimately show ?thesis using db0 b by (simp add: Pn_create_def)
qed

section \<open>The index as a machine with restarts\<close>

text \<open>An opening may fail any number of times before it succeeds.\<close>

inductive pn_opens :: "'d Redb \<Rightarrow> HnswCodecs \<Rightarrow> 'd Store_dir \<Rightarrow> 'd PersistentHnswIndex \<Rightarrow> bool"
  for R C where
  pn_opens_now: "Pn_open R C (dir\<lparr>sd_faults := fs\<rparr>) = (Inr s, dir') \<Longrightarrow> pn_opens R C dir s"
| pn_opens_later: "Pn_open R C (dir\<lparr>sd_faults := fs\<rparr>) = (Inl e, dir') \<Longrightarrow> pn_opens R C dir' s \<Longrightarrow> pn_opens R C dir s"

fun pn_call ::
  "(f64 \<Rightarrow> f64) \<Rightarrow> 'd Redb \<Rightarrow> HnswCodecs \<Rightarrow> index_op \<Rightarrow> 'd PersistentHnswIndex \<Rightarrow>
   (IndexError + unit) \<times> 'd PersistentHnswIndex" where
  "pn_call ln_f R C (Op_insert i e) s = Pn_insert ln_f R C i e s"
| "pn_call ln_f R C (Op_remove i) s = (case Pn_remove R C i s of (r, s') \<Rightarrow> (map_res (\<lambda>_. ()) r, s'))"

text \<open>
  \<open>pn_reach ops s\<close>: the running index \<open>s\<close>, created in an empty directory, has acknowledged the calls \<open>ops\<close>.
  A call that fails is followed by a restart, and so is a crash inside a call, which is a call whose
  remaining system calls fail. The faults ahead may change at any time.
\<close>

inductive pn_reach ::
  "(f64 \<Rightarrow> f64) \<Rightarrow> 'd Redb \<Rightarrow> HnswCodecs \<Rightarrow> HnswConfig \<Rightarrow> Dimension \<Rightarrow> index_op list \<Rightarrow> 'd PersistentHnswIndex \<Rightarrow> bool"
  for ln_f R C c d where
  created: "Pn_create R C c d \<lparr>sd_segment = None, sd_catalog = None, sd_faults = fs\<rparr> = (Inr s, dir) \<Longrightarrow>
    pn_reach ln_f R C c d [] s"
| called: "pn_reach ln_f R C c d ops s \<Longrightarrow> op_ok a \<Longrightarrow> pn_call ln_f R C a s = (Inr u, s') \<Longrightarrow>
    pn_reach ln_f R C c d (ops @ [a]) s'"
| interrupted: "pn_reach ln_f R C c d ops s \<Longrightarrow> op_ok a \<Longrightarrow> pn_call ln_f R C a s = (r, s1) \<Longrightarrow>
    pn_opens R C (pn_dir s1) s' \<Longrightarrow> pn_reach ln_f R C c d (case r of Inl _ \<Rightarrow> ops | Inr _ \<Rightarrow> ops @ [a]) s'"
| reopened: "pn_reach ln_f R C c d ops s \<Longrightarrow> pn_opens R C (pn_dir s) s' \<Longrightarrow> pn_reach ln_f R C c d ops s'"
| faults_ahead: "pn_reach ln_f R C c d ops s \<Longrightarrow> pn_reach ln_f R C c d ops
    (s\<lparr>pn_segment := (pn_segment s)\<lparr>sg_file := (sg_file (pn_segment s))\<lparr>fl_faults := fs\<rparr>\<rparr>\<rparr>)"

lemma pn_opens_graph:
  assumes "pn_opens R C dir s" "redb_ok R view" "codecs_ok C" "pn_dir_ok view C g dir"
  shows "pn_ok view C s \<and> pn_graph s = g"
  using assms(1,4)
proof (induction rule: pn_opens.induct)
  case (pn_opens_now fs dir s dir')
  then have "pn_dir_ok view C g (dir\<lparr>sd_faults := fs\<rparr>)" by (simp add: pn_dir_ok_def)
  from Pn_open_spec [OF assms(2,3) this pn_opens_now.hyps] show ?case by simp
next
  case (pn_opens_later fs dir e dir' s)
  then have "pn_dir_ok view C g (dir\<lparr>sd_faults := fs\<rparr>)" by (simp add: pn_dir_ok_def)
  from Pn_open_spec [OF assms(2,3) this pn_opens_later.hyps(1)] show ?case using pn_opens_later.IH by simp
qed

lemma pn_call_spec:
  assumes "redb_ok R view" "codecs_ok C" "pn_ok view C s" "op_ok a" "pn_call ln_f R C a s = (r, s')"
  shows "pn_dir_ok view C (case r of Inl _ \<Rightarrow> pn_graph s | Inr _ \<Rightarrow> apply_op (HnswIndex_index ln_f) a (pn_graph s)) (pn_dir s') \<and>
    (r = Inr () \<longrightarrow> pn_ok view C s' \<and> pn_graph s' = apply_op (HnswIndex_index ln_f) a (pn_graph s))"
proof (cases a)
  case (Op_insert i e)
  obtain r0 where w: "write_through_insert ln_f R C i e s = (r0, s')" "r = map_err IndexError_from r0"
    using assms(5) Op_insert by (auto simp: Pn_insert_def split: prod.splits)
  have "apply_op (HnswIndex_index ln_f) a (pn_graph s) = snd (insert_tracked ln_f i e (pn_graph s))"
    using Op_insert by (simp add: HnswIndex_index_def HnswIndex_insert_def split_beta)
  then show ?thesis using write_through_insert_spec [OF assms(1-3) _ w(1)] assms(4) Op_insert w(2)
    by (cases r0) (auto simp: pn_dir_ok_dir pn_ok_def)
next
  case (Op_remove i)
  obtain r0 where w: "write_through_remove R C i s = (r0, s')" "r = map_res (\<lambda>_. ()) (map_err IndexError_from r0)"
    using assms(5) Op_remove by (auto simp: Pn_remove_def split: prod.splits)
  have "apply_op (HnswIndex_index ln_f) a (pn_graph s) = snd (remove_tracked i (pn_graph s))"
    using Op_remove by (simp add: HnswIndex_index_def HnswIndex_remove_def split_beta)
  then show ?thesis using write_through_remove_spec [OF assms(1-3) w(1)] w(2)
    by (cases r0) (auto simp: pn_dir_ok_dir pn_ok_def)
qed

lemma hnsw_run_snoc: "hnsw_run ln_f c d (ops @ [a]) = apply_op (HnswIndex_index ln_f) a (hnsw_run ln_f c d ops)"
  by (simp add: hnsw_run_def run_ops_def)

lemma pn_reach_graph:
  assumes "pn_reach ln_f R C c d ops s" "redb_ok R view" "codecs_ok C" "config_ok c" "0 < Dimension_get d"
  shows "pn_ok view C s \<and> pn_graph s = hnsw_run ln_f c d ops"
  using assms(1)
proof (induction rule: pn_reach.induct)
  case (created fs s dir)
  then show ?case using Pn_create_fresh [OF assms(2-5)] by (simp add: hnsw_run_def run_ops_def)
next
  case (called ops s a u s')
  then show ?case using pn_call_spec [OF assms(2,3)] unfolding hnsw_run_snoc by fastforce
next
  case (interrupted ops s a r s1 s')
  then have "pn_dir_ok view C (case r of Inl _ \<Rightarrow> pn_graph s | Inr _ \<Rightarrow> apply_op (HnswIndex_index ln_f) a (pn_graph s)) (pn_dir s1)"
    using pn_call_spec [OF assms(2,3)] by blast
  from pn_opens_graph [OF interrupted.hyps(4) assms(2,3) this] interrupted.IH show ?case
    by (cases r) (simp_all add: hnsw_run_snoc)
next
  case (reopened ops s s')
  have ok: "pn_ok view C s" using reopened.IH by simp
  then have "pn_dir_ok view C (pn_graph s) (pn_dir s)"
    unfolding pn_dir_ok_dir by (simp add: pn_ok_def)
  from pn_opens_graph [OF reopened.hyps(2) assms(2,3) this] reopened.IH show ?case by simp
next
  case (faults_ahead ops s fs)
  then have g: "pn_graph s = hnsw_run ln_f c d ops" by simp
  show ?case using faults_ahead.IH unfolding g [symmetric] by (simp add: pn_ok_def)
qed

section \<open>Insertions and removals that nothing refuses\<close>

lemma begin_write_total: "redb_total R \<Longrightarrow> \<exists>t. begin_write backend R db = Inr t"
proof -
  assume "redb_total R"
  then obtain ts where "rd_read R db = Inr ts" unfolding redb_total_def by blast
  then show ?thesis by (simp add: begin_write_def)
qed

lemma commit_rows_total:
  assumes "redb_total R" "\<exists>t. rows (pn_graph self) (pn_db self) = Inr t"
  shows "\<exists>db. commit_rows R rows self = (Inr (), self\<lparr>pn_db := db\<rparr>)"
proof -
  obtain t where t: "rows (pn_graph self) (pn_db self) = Inr t" using assms(2) by blast
  obtain db where "commit_as St_Catalog R (tx_writes t) (pn_db self) = (Inr (), db)" using commit_as_total [OF assms(1)] by blast
  with t show ?thesis by (auto simp: commit_rows_def)
qed

lemma rows_total:
  assumes "redb_total R" "codecs_total C"
  shows "\<exists>t. insert_rows R C g touched db = Inr t" "\<exists>t. remove_rows R C g touched db = Inr t"
proof -
  obtain t where t: "begin_write St_Catalog R db = Inr t" using begin_write_total [OF assms(1)] by blast
  have st: "\<exists>t'. put_state C g t = Inr t'" for t
    unfolding put_state_def using assms(2) by (intro pn_put_total) (simp add: codecs_total_def)
  obtain t1 where t1: "put_touched C g touched (tx_do (W_open META) (tx_do (W_open ADJ) (tx_do (W_open NODES) t))) = Inr t1"
    using put_touched_total(1) [OF assms(2)] by blast
  obtain t2 where t2: "put_touched_nodes C g touched (tx_do (W_open META) (tx_do (W_open NODES) t)) = Inr t2"
    using put_touched_total(2) [OF assms(2)] by blast
  show "\<exists>t. insert_rows R C g touched db = Inr t" using t t1 st [of t1] by (simp add: insert_rows_def)
  show "\<exists>t. remove_rows R C g touched db = Inr t" using t t2 st [of t2] by (simp add: remove_rows_def)
qed

text \<open>The calls of a disk without faults report what the index in memory reports.\<close>

lemma Pn_insert_succeeds:
  assumes "redb_total R" "codecs_total C" "hnsw_ok (pn_graph s)" "0 < Dimension_get (hi_dimension (pn_graph s))"
    and "sg_dimension (pn_segment s) = Dimension_get (hi_dimension (pn_graph s))" "fl_faults (sg_file (pn_segment s)) = []"
    and "Embedding_dimension e = hi_dimension (pn_graph s)" "gr_live (hi_graph (pn_graph s)) i = None"
    and "length (pn_bytes s) + Dimension_get (hi_dimension (pn_graph s)) * 4 < FILE_MAX"
  shows "\<exists>s'. Pn_insert ln_f R C i e s = (Inr (), s') \<and> fl_faults (sg_file (pn_segment s')) = []"
proof -
  let ?g = "pn_graph s"
  have e: "length (as_slice e) = Dimension_get (hi_dimension ?g)" by (rule Embedding_dimension_length [OF assms(7,4)])
  obtain seg where seg: "Segment_append (as_slice e) (pn_segment s) = (Inr (), seg)" "fl_faults (sg_file seg) = []"
    using Segment_append_clean [OF assms(6), of "as_slice e"] e assms(5,6,9) by simp
  obtain r g' where g': "insert_tracked ln_f i e ?g = (r, g')" by fastforce
  obtain delta where delta: "r = Inr delta" using insert_tracked_Inr(1) [OF assms(3,7,8) g'] by blast
  let ?s = "s\<lparr>pn_segment := seg, pn_graph := g'\<rparr>"
  obtain db where "commit_rows R (\<lambda>graph db. insert_rows R C graph (ins_touched_nodes delta) db) ?s = (Inr (), ?s\<lparr>pn_db := db\<rparr>)"
    using commit_rows_total [OF assms(1), of "\<lambda>graph db. insert_rows R C graph (ins_touched_nodes delta) db" ?s]
      rows_total(1) [OF assms(1,2)] by blast
  then show ?thesis using seg g' delta
    by (simp add: Pn_insert_def write_through_insert_def pn_on_segment_def pn_on_graph_def)
qed

lemma Pn_insert_total:
  assumes "redb_total R" "codecs_total C" "pn_ok view C s" "fl_faults (sg_file (pn_segment s)) = []"
    and "Embedding_dimension e = hi_dimension (pn_graph s)" "gr_live (hi_graph (pn_graph s)) i = None"
    and "seg_end (pn_graph s) + Dimension_get (hi_dimension (pn_graph s)) * 4 < FILE_MAX"
  shows "\<exists>s'. Pn_insert ln_f R C i e s = (Inr (), s') \<and> fl_faults (sg_file (pn_segment s')) = []"
  using assms(3,7) by (intro Pn_insert_succeeds [OF assms(1,2) _ _ _ assms(4-6)]) (simp_all add: pn_ok_def pn_disk_def seg_disk_def)

text \<open>A concrete run: one vector inserted into a fresh index over the database in memory.\<close>

lemma pn_reach_one:
  "\<exists>s. pn_reach (\<lambda>x. x) mem_redb hnsw_codecs HnswConfig_default (Dimension 1) [Op_insert (VectorId 7) (Embedding [0])] s \<and>
     fl_faults (sg_file (pn_segment s)) = []"
proof -
  have dim: "0 < Dimension_get (Dimension 1)" "Embedding_dimension (Embedding [0]) = Dimension 1"
    by (simp_all add: Dimension_get_def Embedding_dimension_def Dimension_new_def u32_max_def)
  obtain s0 dir where s0: "Pn_create mem_redb hnsw_codecs HnswConfig_default (Dimension 1)
      \<lparr>sd_segment = None, sd_catalog = None, sd_faults = []\<rparr> = (Inr s0, dir)"
    using Pn_create_total [OF mem_redb_ok hnsw_codecs_fine(2)] by blast
  note f = Pn_create_fresh [OF mem_redb_ok(1) hnsw_codecs_fine(1) config_ok_default dim(1) s0]
  let ?s = "s0\<lparr>pn_segment := (pn_segment s0)\<lparr>sg_file := (sg_file (pn_segment s0))\<lparr>fl_faults := []\<rparr>\<rparr>\<rparr>"
  have s: "pn_reach (\<lambda>x. x) mem_redb hnsw_codecs HnswConfig_default (Dimension 1) [] ?s"
    by (rule pn_reach.faults_ahead [OF pn_reach.created [OF s0]])
  have ok: "pn_ok (\<lambda>t. t) hnsw_codecs ?s" "pn_graph ?s = HnswIndex_new HnswConfig_default (Dimension 1)"
    using pn_reach_graph [OF s mem_redb_ok(1) hnsw_codecs_fine(1) config_ok_default dim(1)] f by simp_all
  have "gr_live (hi_graph (pn_graph ?s)) (VectorId 7) = None" by (simp add: f HnswIndex_new_def HnswGraph_new_def)
  then obtain s' where "Pn_insert (\<lambda>x. x) mem_redb hnsw_codecs (VectorId 7) (Embedding [0]) ?s = (Inr (), s')"
    "fl_faults (sg_file (pn_segment s')) = []"
    using Pn_insert_total [OF mem_redb_ok(2) hnsw_codecs_fine(2) ok(1), of "Embedding [0]" "VectorId 7" "\<lambda>x. x"] dim f
    by (auto simp: FILE_MAX_def HEADER_LEN_def Dimension_get_def)
  moreover have "op_ok (Op_insert (VectorId 7) (Embedding [0]))" by code_simp
  ultimately show ?thesis using pn_reach.called [OF s, of "Op_insert (VectorId 7) (Embedding [0])"] by auto
qed

section \<open>Properties\<close>

text \<open>
  C16. A persistent HNSW index is its index in memory. After any sequence of insertions and removals, in which restarts come at
  any moment, the process may crash inside any call, and every call that fails, a refused one included, is followed by a
  restart before the next call, the graph in use is, with every level, link, tombstone, entry point and the state of its
  random generator, the graph the acknowledged calls build in memory; so it answers every query alike.
  (\<open>Hnsw_Misplacement\<close> shows that the restart after a refused insertion cannot be left out.)
\<close>

theorem persistent_hnsw_equals_memory:
  assumes "redb_ok R view" "codecs_ok C" "config_ok c" "0 < Dimension_get d" "pn_reach ln_f R C c d ops s"
  shows "pn_graph s = hnsw_run ln_f c d ops \<and>
    vi_len (Pn_index ln_f R C) s = card (dom (spec_run d ops)) \<and>
    vi_search_filtered (Pn_index ln_f R C) q k metric adm s =
      vi_search_filtered (HnswIndex_index ln_f) q k metric adm (hnsw_run ln_f c d ops)"
proof -
  have g: "pn_graph s = hnsw_run ln_f c d ops" using pn_reach_graph [OF assms(5,1-4)] by simp
  have "hnsw_contents (hnsw_run ln_f c d ops) = spec_run d ops"
    using hnsw.contents_run_ops [OF hnsw_new_ok(1) [OF assms(3), of d] hnsw_new_ok(2), of ln_f ops]
    by (simp add: hnsw_run_def HnswIndex_index_def)
  then have "vi_len (HnswIndex_index ln_f) (hnsw_run ln_f c d ops) = card (dom (spec_run d ops))"
    using hnsw.len_contents [OF hnsw_run_ok(1) [OF assms(3)], of ln_f ln_f d ops] by simp
  then show ?thesis by (simp add: g Pn_index_def HnswIndex_index_def)
qed

lemma persistent_hnsw_equals_memory_witness:
  "\<exists>s. pn_graph s = hnsw_run (\<lambda>x. x) HnswConfig_default (Dimension 1) [Op_insert (VectorId 7) (Embedding [0])] \<and>
     vi_len (Pn_index (\<lambda>x. x) mem_redb hnsw_codecs) s = 1"
proof -
  obtain s where s: "pn_reach (\<lambda>x. x) mem_redb hnsw_codecs HnswConfig_default (Dimension 1)
      [Op_insert (VectorId 7) (Embedding [0])] s" using pn_reach_one by blast
  have "0 < Dimension_get (Dimension 1)" by (simp add: Dimension_get_def)
  note p = persistent_hnsw_equals_memory [OF mem_redb_ok(1) hnsw_codecs_fine(1) config_ok_default this s]
  have "spec_run (Dimension 1) [Op_insert (VectorId 7) (Embedding [0])] = [VectorId 7 \<mapsto> Embedding [0]]"
    by (simp add: spec_run_def Embedding_dimension_def Dimension_new_def u32_max_def)
  with p show ?thesis by (intro exI [of _ s]) simp
qed

text \<open>
  C17. Recovery returns. With a database that does not refuse, whatever interrupts an insertion or a removal, the next opening
  succeeds with the graph before the call if the call failed, and the graph after it otherwise.
\<close>

theorem hnsw_restart_recovers:
  assumes "redb_ok R view" "redb_total R" "codecs_ok C" "config_ok c" "0 < Dimension_get d" "pn_reach ln_f R C c d ops s"
    and "op_ok a" "pn_call ln_f R C a s = (r, s1)"
  shows "\<exists>s2 dir. Pn_open R C (pn_dir s1) = (Inr s2, dir) \<and>
    pn_graph s2 = hnsw_run ln_f c d (case r of Inl _ \<Rightarrow> ops | Inr _ \<Rightarrow> ops @ [a])"
proof -
  note r = pn_reach_graph [OF assms(6,1,3-5)]
  have ok: "pn_ok view C s" using r by simp
  let ?g = "case r of Inl _ \<Rightarrow> pn_graph s | Inr _ \<Rightarrow> apply_op (HnswIndex_index ln_f) a (pn_graph s)"
  have dir: "pn_dir_ok view C ?g (pn_dir s1)" using pn_call_spec [OF assms(1,3) ok assms(7,8)] by blast
  obtain r2 dir2 where o: "Pn_open R C (pn_dir s1) = (r2, dir2)" by fastforce
  from Pn_open_spec [OF assms(1,3) dir o] assms(2) obtain s2 where "r2 = Inr s2" "pn_graph s2 = ?g"
    by (auto simp: pn_dir_def)
  then show ?thesis using o r by (cases r) (auto simp: hnsw_run_snoc)
qed

lemma hnsw_restart_recovers_witness:
  "\<exists>s r s1 s2 dir. pn_call (\<lambda>x. x) mem_redb hnsw_codecs (Op_remove (VectorId 7)) s = (r, s1) \<and>
     Pn_open mem_redb hnsw_codecs (pn_dir s1) = (Inr s2, dir)"
proof -
  obtain s where s: "pn_reach (\<lambda>x. x) mem_redb hnsw_codecs HnswConfig_default (Dimension 1)
      [Op_insert (VectorId 7) (Embedding [0])] s" using pn_reach_one by blast
  obtain r s1 where c: "pn_call (\<lambda>x. x) mem_redb hnsw_codecs (Op_remove (VectorId 7)) s = (r, s1)" by fastforce
  have "0 < Dimension_get (Dimension 1)" "op_ok (Op_remove (VectorId 7))" by (simp_all add: Dimension_get_def)
  from hnsw_restart_recovers [OF mem_redb_ok hnsw_codecs_fine(1) config_ok_default this(1) s this(2) c] c
  show ?thesis by blast
qed

end
