(* ===== verification/Collection_Kind.thy ===== *)
theory Collection_Kind
  imports Hybrid Proto Persistent_Payload Persistent_Lexical Hnsw_Durability
begin

text \<open>
  \<open>CollectionKind\<close> of \<open>eidosdb-server/src/collection_kind.rs\<close> and \<open>error.rs\<close>: a collection over the persistent
  stores, with either index, in one directory. The parameters of all the stores are gathered in the
  record \<open>Env\<close>. Creating the directory \<open>vector/\<close> is part of the first opening and is not modelled apart.
\<close>

section \<open>Errors\<close>

datatype ServerError =
    Sv_Io string
  | Sv_Serde string
  | Sv_BadName string
  | Sv_AlreadyExists string
  | Sv_Storage string
  | Sv_Index string

fun ServerError_to_string :: "ServerError \<Rightarrow> string" where
  "ServerError_to_string (Sv_Io msg) = ''I/O error: '' @ msg"
| "ServerError_to_string (Sv_Serde msg) = ''serialisation error: '' @ msg"
| "ServerError_to_string (Sv_BadName msg) = ''invalid collection name: '' @ msg"
| "ServerError_to_string (Sv_AlreadyExists msg) = ''collection already exists: '' @ msg"
| "ServerError_to_string (Sv_Storage msg) = ''storage error: '' @ msg"
| "ServerError_to_string (Sv_Index msg) = ''index error: '' @ msg"

fun StorageError_to_string :: "(VectorId \<Rightarrow> string) \<Rightarrow> StorageError \<Rightarrow> string" where
  "StorageError_to_string fmt_id (St_Io m) = ''io error: '' @ m"
| "StorageError_to_string fmt_id (St_Catalog m) = ''catalog error: '' @ m"
| "StorageError_to_string fmt_id (St_Corruption m) = ''corrupt store: '' @ m"
| "StorageError_to_string fmt_id (St_FormatMismatch m) = ''format mismatch: '' @ m"
| "StorageError_to_string fmt_id (St_Index inner) = IndexError_to_string fmt_id inner"

section \<open>The environment and the directory\<close>

record 'd Env =
  env_redb :: "'d Redb"
  env_payload :: "Payload Codec"
  env_lexical :: LexCodecs
  env_hnsw :: HnswCodecs
  env_unicode :: Unicode
  env_ln :: "f64 \<Rightarrow> f64"
  env_fmt_id :: "VectorId \<Rightarrow> string"

abbreviation env_pf :: "'d Env \<Rightarrow> 'd PersistentFlatIndex VectorIndex" where
  "env_pf E \<equiv> Pf_index (env_redb E)"

abbreviation env_pn :: "'d Env \<Rightarrow> 'd PersistentHnswIndex VectorIndex" where
  "env_pn E \<equiv> Pn_index (env_ln E) (env_redb E) (env_hnsw E)"

abbreviation env_pl :: "'d Env \<Rightarrow> 'd PersistentLexicalIndex LexicalIndex" where
  "env_pl E \<equiv> Pl_index (env_unicode E) (env_ln E) (env_redb E) (env_lexical E)"

abbreviation env_pp :: "'d Env \<Rightarrow> 'd PersistentPayloadStore PayloadStore" where
  "env_pp E \<equiv> Pp_store (env_redb E) (env_payload E)"

text \<open>A collection's directory: \<open>collection.meta\<close>, \<open>vector/\<close>, \<open>lexical.redb\<close> and \<open>payload.redb\<close>.\<close>

record 'd Collection_dir =
  dir_meta :: "u8 list option"
  dir_vector :: "'d Store_dir"
  dir_lexical :: "'d option"
  dir_payload :: "'d option"

type_synonym 'd FlatCollection =
  "('d PersistentFlatIndex, 'd PersistentLexicalIndex, 'd PersistentPayloadStore) Collection"
type_synonym 'd HnswCollection =
  "('d PersistentHnswIndex, 'd PersistentLexicalIndex, 'd PersistentPayloadStore) Collection"

datatype 'd CollectionKind = Kind_Flat "'d FlatCollection" | Kind_Hnsw "'d HnswCollection"

section \<open>Constructors\<close>

text \<open>What all four constructors do once they have the index.\<close>

definition open_stores ::
  "'d Env \<Rightarrow> 'i \<Rightarrow> 'd Collection_dir \<Rightarrow>
   (ServerError + ('i, 'd PersistentLexicalIndex, 'd PersistentPayloadStore) Collection) \<times> 'd Collection_dir" where
  "open_stores E index dir =
     (case Pl_open (env_redb E) (env_lexical E) (dir_lexical dir) of
        (Inl e, l) \<Rightarrow> (Inl (Sv_Storage (LexicalError_to_string e)), dir\<lparr>dir_lexical := l\<rparr>)
      | (Inr lexical, l) \<Rightarrow>
     (case Pp_open (env_redb E) (dir_payload dir) of
        (Inl e, p) \<Rightarrow> (Inl (Sv_Storage (PayloadError_to_string e)), dir\<lparr>dir_lexical := l, dir_payload := p\<rparr>)
      | (Inr payloads, p) \<Rightarrow>
          (Inr (Collection_new index lexical payloads), dir\<lparr>dir_lexical := l, dir_payload := p\<rparr>)))"

definition open_flat ::
  "'d Env \<Rightarrow> Metric \<Rightarrow> Dimension \<Rightarrow> 'd Collection_dir \<Rightarrow> (ServerError + 'd CollectionKind) \<times> 'd Collection_dir" where
  "open_flat E metric d dir =
     (case Pf_open (env_redb E) metric d (dir_vector dir) of
        (Inl e, v) \<Rightarrow> (Inl (Sv_Storage (StorageError_to_string (env_fmt_id E) e)), dir\<lparr>dir_vector := v\<rparr>)
      | (Inr index, v) \<Rightarrow>
          (case open_stores E index (dir\<lparr>dir_vector := v\<rparr>) of (r, dir) \<Rightarrow> (map_res Kind_Flat r, dir)))"

definition create_hnsw ::
  "'d Env \<Rightarrow> HnswConfig \<Rightarrow> Dimension \<Rightarrow> 'd Collection_dir \<Rightarrow> (ServerError + 'd CollectionKind) \<times> 'd Collection_dir" where
  "create_hnsw E config d dir =
     (case Pn_create (env_redb E) (env_hnsw E) config d (dir_vector dir) of
        (Inl e, v) \<Rightarrow> (Inl (Sv_Storage (StorageError_to_string (env_fmt_id E) e)), dir\<lparr>dir_vector := v\<rparr>)
      | (Inr index, v) \<Rightarrow>
          (case open_stores E index (dir\<lparr>dir_vector := v\<rparr>) of (r, dir) \<Rightarrow> (map_res Kind_Hnsw r, dir)))"

definition open_hnsw ::
  "'d Env \<Rightarrow> 'd Collection_dir \<Rightarrow> (ServerError + 'd CollectionKind) \<times> 'd Collection_dir" where
  "open_hnsw E dir =
     (case Pn_open (env_redb E) (env_hnsw E) (dir_vector dir) of
        (Inl e, v) \<Rightarrow> (Inl (Sv_Storage (StorageError_to_string (env_fmt_id E) e)), dir\<lparr>dir_vector := v\<rparr>)
      | (Inr index, v) \<Rightarrow>
          (case open_stores E index (dir\<lparr>dir_vector := v\<rparr>) of (r, dir) \<Rightarrow> (map_res Kind_Hnsw r, dir)))"

definition bulk_load_hnsw ::
  "'d Env \<Rightarrow> HnswConfig \<Rightarrow> Dimension \<Rightarrow> (VectorId \<times> Embedding) list \<Rightarrow> 'd Collection_dir \<Rightarrow>
   (ServerError + 'd CollectionKind) \<times> 'd Collection_dir" where
  "bulk_load_hnsw E config d points dir =
     (case Pn_bulk_load (env_ln E) (env_redb E) (env_hnsw E) config d points (dir_vector dir) of
        (Inl e, v) \<Rightarrow> (Inl (Sv_Index (StorageError_to_string (env_fmt_id E) e)), dir\<lparr>dir_vector := v\<rparr>)
      | (Inr index, v) \<Rightarrow>
          (case open_stores E index (dir\<lparr>dir_vector := v\<rparr>) of (r, dir) \<Rightarrow> (map_res Kind_Hnsw r, dir)))"

section \<open>The uniform surface\<close>

definition Kind_len :: "'d Env \<Rightarrow> 'd CollectionKind \<Rightarrow> nat" where
  "Kind_len E self = (case self of
     Kind_Flat c \<Rightarrow> Collection_len (env_pf E) c
   | Kind_Hnsw c \<Rightarrow> Collection_len (env_pn E) c)"

definition Kind_is_empty :: "'d Env \<Rightarrow> 'd CollectionKind \<Rightarrow> bool" where
  "Kind_is_empty E self = (case self of
     Kind_Flat c \<Rightarrow> Collection_is_empty (env_pf E) c
   | Kind_Hnsw c \<Rightarrow> Collection_is_empty (env_pn E) c)"

definition Kind_upsert ::
  "'d Env \<Rightarrow> VectorId \<Rightarrow> Embedding \<Rightarrow> Document option \<Rightarrow> Payload option \<Rightarrow> 'd CollectionKind \<Rightarrow>
   (QueryError + unit) \<times> 'd CollectionKind" where
  "Kind_upsert E i embedding document payload self = (case self of
     Kind_Flat c \<Rightarrow> apsnd Kind_Flat (Collection_upsert (env_pf E) (env_pl E) (env_pp E) i embedding document payload c)
   | Kind_Hnsw c \<Rightarrow> apsnd Kind_Hnsw (Collection_upsert (env_pn E) (env_pl E) (env_pp E) i embedding document payload c))"

definition Kind_delete ::
  "'d Env \<Rightarrow> VectorId \<Rightarrow> 'd CollectionKind \<Rightarrow> (QueryError + bool) \<times> 'd CollectionKind" where
  "Kind_delete E i self = (case self of
     Kind_Flat c \<Rightarrow> apsnd Kind_Flat (Collection_delete (env_pf E) (env_pl E) (env_pp E) i c)
   | Kind_Hnsw c \<Rightarrow> apsnd Kind_Hnsw (Collection_delete (env_pn E) (env_pl E) (env_pp E) i c))"

definition Kind_delete_by_filter ::
  "'d Env \<Rightarrow> Filter \<Rightarrow> 'd CollectionKind \<Rightarrow> (QueryError + nat) \<times> 'd CollectionKind" where
  "Kind_delete_by_filter E f self = (case self of
     Kind_Flat c \<Rightarrow> apsnd Kind_Flat (Collection_delete_by_filter (env_pf E) (env_pl E) (env_pp E) f c)
   | Kind_Hnsw c \<Rightarrow> apsnd Kind_Hnsw (Collection_delete_by_filter (env_pn E) (env_pl E) (env_pp E) f c))"

definition Kind_search :: "'d Env \<Rightarrow> SearchQuery \<Rightarrow> 'd CollectionKind \<Rightarrow> QueryError + SearchHit list" where
  "Kind_search E query self = (case self of
     Kind_Flat c \<Rightarrow> Collection_search (env_pf E) (env_pp E) query c
   | Kind_Hnsw c \<Rightarrow> Collection_search (env_pn E) (env_pp E) query c)"

definition Kind_search_hybrid :: "'d Env \<Rightarrow> HybridQuery \<Rightarrow> 'd CollectionKind \<Rightarrow> QueryError + SearchHit list" where
  "Kind_search_hybrid E query self = (case self of
     Kind_Flat c \<Rightarrow> Collection_search_hybrid (env_pf E) (env_pl E) (env_pp E) query c
   | Kind_Hnsw c \<Rightarrow> Collection_search_hybrid (env_pn E) (env_pl E) (env_pp E) query c)"

text \<open>Only the vector index is compacted, in place through \<open>index_mut\<close>.\<close>

definition Kind_compact :: "'d Env \<Rightarrow> 'd CollectionKind \<Rightarrow> (ServerError + unit) \<times> 'd CollectionKind" where
  "Kind_compact E self = (case self of
     Kind_Flat c \<Rightarrow>
       (case Pf_compact (env_redb E) (col_index c) of
          (r, index) \<Rightarrow> (map_err (\<lambda>e. Sv_Index (IndexError_to_string (env_fmt_id E) e)) r, Kind_Flat (c\<lparr>col_index := index\<rparr>)))
   | Kind_Hnsw c \<Rightarrow>
       (case Pn_compact (env_ln E) (env_redb E) (env_hnsw E) (col_index c) of
          (r, index) \<Rightarrow> (map_err (\<lambda>e. Sv_Storage (StorageError_to_string (env_fmt_id E) e)) r, Kind_Hnsw (c\<lparr>col_index := index\<rparr>))))"

text \<open>What the directory holds while the collection is open, and what a restart finds.\<close>

definition kind_dir :: "'d CollectionKind \<Rightarrow> 'd Collection_dir \<Rightarrow> 'd Collection_dir" where
  "kind_dir kind dir = (case kind of
     Kind_Flat c \<Rightarrow> dir\<lparr>dir_vector := pf_dir (col_index c), dir_lexical := Some (pl_db (col_lexical c)),
       dir_payload := Some (pp_db (col_payloads c))\<rparr>
   | Kind_Hnsw c \<Rightarrow> dir\<lparr>dir_vector := pn_dir (col_index c), dir_lexical := Some (pl_db (col_lexical c)),
       dir_payload := Some (pp_db (col_payloads c))\<rparr>)"

end
