(* ===== verification/Persistent_Collection.thy ===== *)
theory Persistent_Collection
  imports Collection_Kind
begin

text \<open>
  Correctness of the collections on disk: both persistent indexes meet the contract \<open>fitting_index\<close>, so the locale
  \<open>collection\<close> applies to both kinds with the persistent stores; then opening, restarts and the
  life of a collection.
\<close>

section \<open>Opening meets no fault of its own\<close>

lemma sys_call_clean: "fl_faults f = [] \<Longrightarrow> sys_call p g f = (Inr (), f\<lparr>fl_bytes := g (fl_bytes f)\<rparr>)"
  by (simp add: sys_call_def)

lemma Segment_remap_faults: "fl_faults (sg_file s) = [] \<Longrightarrow> fl_faults (sg_file (snd (Segment_remap n s))) = []"
  by (simp add: Segment_remap_def on_file_def sys_only_def sys_call_clean Let_def split: prod.split sum.split)

lemma validate_header_faults: "fl_faults f = [] \<Longrightarrow> fl_faults (snd (validate_header m d f)) = []"
  by (simp add: validate_header_def sys_only_def sys_call_clean Let_def split: prod.split sum.split)

lemma Segment_open_faults:
  assumes "Segment_open m d n [] (Some bs) = (Inr s, rest)"
  shows "fl_faults (sg_file s) = []"
proof -
  let ?f = "\<lparr>fl_bytes = bs, fl_faults = []\<rparr>"
  obtain r f where v: "validate_header m d ?f = (r, f)" by fastforce
  have f: "fl_faults f = []" using validate_header_faults [of ?f m d] v by simp
  let ?s = "\<lparr>sg_file = f\<lparr>fl_bytes := resize (u64_of (HEADER_LEN + n * (d * 4))) (fl_bytes f)\<rparr>, sg_dimension = d, sg_mmap = None,
      sg_mapped_records = 0\<rparr>"
  obtain r' s' where s': "Segment_remap n ?s = (r', s')" by fastforce
  have "fl_faults (sg_file s') = []" using Segment_remap_faults [of ?s n] f s' by simp
  moreover have "s = s'"
    using assms v f s' by (cases r; cases r'; cases "FILE_MAX \<le> u64_of (HEADER_LEN + n * (d * 4))")
      (simp_all add: Segment_open_def on_file_def sys_only_def set_len_def sys_call_clean Let_def Segment_stride_def)
  ultimately show ?thesis by simp
qed

lemma Pn_open_faults:
  assumes "Pn_open R C (pn_dir s) = (Inr s', dir)"
  shows "fl_faults (sg_file (pn_segment s')) = []"
proof -
  obtain m d n seg rest where "Segment_open m d n [] (Some (pn_bytes s)) = (Inr seg, rest)" "pn_segment s' = seg"
    using assms by (auto simp: Pn_open_def pn_dir_def res_bind_eq_Inr split: sum.splits prod.splits)
  then show ?thesis using Segment_open_faults by blast
qed

lemma Segment_create_faults:
  assumes "Segment_create m d [] None = (Inr s, rest)"
  shows "fl_faults (sg_file s) = []"
proof -
  obtain b f where f: "write_header b d \<lparr>fl_bytes = [], fl_faults = []\<rparr> = (Inr (), f)"
    and b: "metric_to_u8 m = Inr b"
    using assms by (auto simp: Segment_create_def sys_only_def sys_call_clean then_do_def split: sum.splits prod.splits)
  have clean: "fl_faults f = []" using f by (auto simp: write_header_def Let_def sys_call_clean split: if_splits)
  let ?s = "\<lparr>sg_file = f, sg_dimension = d, sg_mmap = None, sg_mapped_records = 0\<rparr>"
  obtain r' s' where s': "Segment_remap 0 ?s = (r', s')" by fastforce
  have "fl_faults (sg_file s') = []" using Segment_remap_faults [of ?s 0] clean s' by simp
  moreover have "s = s'" using assms b f s' clean by (cases r') (simp_all add: Segment_create_def sys_only_def sys_call_clean)
  ultimately show ?thesis by simp
qed

lemma Pn_create_faults:
  assumes "Pn_create R C c d \<lparr>sd_segment = None, sd_catalog = None, sd_faults = []\<rparr> = (Inr s, dir)"
  shows "fl_faults (sg_file (pn_segment s)) = []"
proof -
  obtain m n seg rest where "Segment_create m n [] None = (Inr seg, rest)" "pn_segment s = seg"
    using assms by (auto simp: Pn_create_def split: sum.splits prod.splits)
  then show ?thesis using Segment_create_faults by blast
qed

section \<open>The persistent indexes as parts of a collection\<close>

text \<open>The segment of \<open>n\<close> records is a file that can exist.\<close>

definition records_fit :: "Dimension \<Rightarrow> nat \<Rightarrow> bool" where
  "records_fit d n \<longleftrightarrow> HEADER_LEN + n * (Dimension_get d * 4) < FILE_MAX"

lemma records_fit_mono: "records_fit d n \<Longrightarrow> m \<le> n \<Longrightarrow> records_fit d m"
  by (meson add_left_mono le_less_trans mult_le_mono1 records_fit_def)

definition pf_room :: "nat \<Rightarrow> 'd PersistentFlatIndex \<Rightarrow> bool" where
  "pf_room n s \<longleftrightarrow> records_fit (pf_dimension s) (pf_record_count s + n)"

definition pn_room :: "nat \<Rightarrow> 'd PersistentHnswIndex \<Rightarrow> bool" where
  "pn_room n s \<longleftrightarrow> records_fit (hi_dimension (pn_graph s)) (node_count (hi_graph (pn_graph s)) + n)"

definition exact_embedding :: "Dimension \<Rightarrow> Embedding \<Rightarrow> bool" where
  "exact_embedding d e \<longleftrightarrow> embedding_ok e \<and> Embedding_dimension e = d"

definition pn_clean :: "'d Redb \<Rightarrow> HnswCodecs \<Rightarrow> ('d \<Rightarrow> tables) \<Rightarrow> 'd PersistentHnswIndex \<Rightarrow> bool" where
  "pn_clean R C view s \<longleftrightarrow> redb_ok R view \<and> redb_total R \<and> codecs_ok C \<and> codecs_total C \<and> pn_ok view C s \<and>
     fl_faults (sg_file (pn_segment s)) = []"

definition pn_contents :: "'d PersistentHnswIndex \<Rightarrow> VectorId \<rightharpoonup> Embedding" where
  "pn_contents s = hnsw_contents (pn_graph s)"

lemma pn_clean_parts:
  assumes "pn_clean R C view s"
  shows "redb_ok R view" "redb_total R" "codecs_ok C" "codecs_total C" "pn_ok view C s"
    "fl_faults (sg_file (pn_segment s)) = []" "hnsw_ok (pn_graph s)"
  using assms by (simp_all add: pn_clean_def pn_ok_def pn_disk_def)

lemma Pf_insert_fits:
  assumes "pf_ok R view s" "pf_room (Suc n) s"
  shows "\<exists>s'. Pf_insert R i e s = (if Embedding_dimension e \<noteq> pf_dimension s then Inl (mismatch (pf_dimension s) e)
          else if pf_contents view s i \<noteq> None then Inl (DuplicateId i) else Inr (), s') \<and> pf_ok R view s' \<and>
      pf_metric s' = pf_metric s \<and> pf_dimension s' = pf_dimension s \<and> pf_room n s' \<and>
      pf_contents view s' = (if Embedding_dimension e = pf_dimension s \<and> pf_contents view s i = None
        then (pf_contents view s)(i \<mapsto> e) else pf_contents view s)"
proof -
  obtain r s' where c: "Pf_insert R i e s = (r, s')" by fastforce
  note p = Pf_insert_ok [OF assms(1) c]
  have "records_fit (pf_dimension s) (pf_record_count s + 1)"
    using assms(2) records_fit_mono [of "pf_dimension s" "pf_record_count s + Suc n" "pf_record_count s + 1"] by (simp add: pf_room_def)
  then have r: "r = (if Embedding_dimension e \<noteq> pf_dimension s then Inl (mismatch (pf_dimension s) e)
          else if pf_contents view s i \<noteq> None then Inl (DuplicateId i) else Inr ())"
    using p by (auto simp: records_fit_def)
  have "pf_room n s'"
    using assms(2) p records_fit_mono [of "pf_dimension s" "pf_record_count s + Suc n" "pf_record_count s + n"]
    by (simp add: pf_room_def split: sum.splits)
  then show ?thesis using p r c by (auto split: if_splits)
qed

interpretation pf_fit: fitting_index "Pf_index R" "pf_ok R view" "pf_contents view" pf_room "\<lambda>_ _. True"
  for R :: "'d Redb" and view
proof
  fix i :: "'d PersistentFlatIndex" and x e q k m adm ns and n :: nat
  assume ok: "pf_ok R view i"
  show "finite (dom (pf_contents view i))" "vi_len (Pf_index R) i = card (dom (pf_contents view i))"
    by (rule pf.finite_contents [OF ok], rule pf.len_contents [OF ok])
  show "pf_room (Suc n) i \<Longrightarrow> Embedding_dimension e = vi_dimension (Pf_index R) i \<Longrightarrow> pf_contents view i x = None \<Longrightarrow>
      \<exists>i'. vi_insert (Pf_index R) x e i = (Inr (), i') \<and> pf_ok R view i' \<and> pf_contents view i' = (pf_contents view i)(x \<mapsto> e) \<and>
        vi_dimension (Pf_index R) i' = vi_dimension (Pf_index R) i \<and> vi_metric (Pf_index R) i' = vi_metric (Pf_index R) i \<and> pf_room n i'"
    using Pf_insert_fits [OF ok, of n x e] by (auto simp: Pf_index_def)
  show "pf_room (Suc n) i \<Longrightarrow> Embedding_dimension e \<noteq> vi_dimension (Pf_index R) i \<Longrightarrow>
      \<exists>i'. vi_insert (Pf_index R) x e i = (Inl (DimensionMismatch (Dimension_get (vi_dimension (Pf_index R) i))
          (Dimension_get (Embedding_dimension e))), i') \<and> pf_ok R view i' \<and> pf_contents view i' = pf_contents view i \<and>
        vi_dimension (Pf_index R) i' = vi_dimension (Pf_index R) i \<and> vi_metric (Pf_index R) i' = vi_metric (Pf_index R) i \<and> pf_room n i'"
    using Pf_insert_fits [OF ok, of n x e] by (auto simp: Pf_index_def mismatch_def)
  obtain r i' where c: "Pf_remove R x i = (r, i')" by fastforce
  show "\<exists>i'. vi_remove (Pf_index R) x i = (Inr (pf_contents view i x \<noteq> None), i') \<and> pf_ok R view i' \<and>
      pf_contents view i' = (pf_contents view i)(x := None) \<and> vi_dimension (Pf_index R) i' = vi_dimension (Pf_index R) i \<and>
      vi_metric (Pf_index R) i' = vi_metric (Pf_index R) i \<and> (\<forall>n. pf_room n i \<longrightarrow> pf_room n i')"
    using Pf_remove_ok [OF ok c] c by (simp add: Pf_index_def pf_room_def)
  show "vi_search_filtered (Pf_index R) q k m adm i = Inr ns \<Longrightarrow>
      Embedding_dimension q = vi_dimension (Pf_index R) i \<and> m \<in> set (vi_supported_metrics (Pf_index R) i) \<and>
      sorted (map neighbor_key ns) \<and> distinct (map neighbor_id ns) \<and> length ns \<le> k \<and>
      set ns \<subseteq> candidates m q adm (pf_contents view i)"
    by (rule pf.search_sound [OF ok])
  show "Embedding_dimension q = vi_dimension (Pf_index R) i \<Longrightarrow> \<exists>ns. vi_search_filtered (Pf_index R) q k m adm i = Inr ns"
    using Pf_search_ok [OF ok, of q k m adm] by (auto simp: Pf_index_def)
  show "Embedding_dimension q \<noteq> vi_dimension (Pf_index R) i \<Longrightarrow> vi_search_filtered (Pf_index R) q k m adm i =
        Inl (DimensionMismatch (Dimension_get (vi_dimension (Pf_index R) i)) (Dimension_get (Embedding_dimension q)))"
    using Pf_search_mismatch [of q i R k m adm] by (simp add: Pf_index_def mismatch_def)
next
  fix i :: "'d PersistentFlatIndex" and n
  show "pf_room (Suc n) i \<Longrightarrow> pf_room n i" by (auto simp: pf_room_def elim: records_fit_mono)
qed

lemma Pn_remove_total:
  assumes "pn_clean R C view s"
  shows "\<exists>s'. Pn_remove R C i s = (Inr (pn_contents s i \<noteq> None), s') \<and> pn_clean R C view s' \<and>
    pn_graph s' = snd (remove_tracked i (pn_graph s))"
proof -
  note p = pn_clean_parts [OF assms]
  obtain r s' where c: "write_through_remove R C i s = (r, s')" by fastforce
  have "(\<exists>b. r = Inr b) \<and> pn_segment s' = pn_segment s"
  proof (cases "gr_live (hi_graph (pn_graph s)) i")
    case None
    then have "remove_tracked i (pn_graph s) = (Inr None, pn_graph s)" by (simp add: remove_tracked_def id_to_node_def)
    then show ?thesis using c by (auto simp: write_through_remove_def pn_on_graph_def)
  next
    case (Some n)
    obtain delta g' where d: "remove_tracked i (pn_graph s) = (Inr (Some delta), g')"
      by (rule remove_tracked_rows [OF p(7) Some]) (rule that)
    let ?s = "s\<lparr>pn_graph := g'\<rparr>" and ?rows = "\<lambda>graph db. remove_rows R C graph (rem_touched_nodes delta) db"
    have "\<exists>t. ?rows (pn_graph ?s) (pn_db ?s) = Inr t" by (rule rows_total(2) [OF p(2,4)])
    from commit_rows_total [of R ?rows ?s, OF p(2) this] obtain db where
      "commit_rows R ?rows ?s = (Inr (), ?s\<lparr>pn_db := db\<rparr>)" by blast
    then show ?thesis using c d by (auto simp: write_through_remove_def pn_on_graph_def)
  qed
  then show ?thesis using write_through_remove_spec [OF p(1,3,5) c] c p
    by (auto simp: Pn_remove_def pn_clean_def pn_contents_def)
qed

lemma Pn_insert_clean:
  assumes "pn_clean R C view s" "pn_room (Suc n) s" "exact_embedding (hi_dimension (pn_graph s)) e" "pn_contents s i = None"
  shows "\<exists>s'. Pn_insert ln_f R C i e s = (Inr (), s') \<and> pn_clean R C view s' \<and> pn_room n s' \<and>
    pn_contents s' = (pn_contents s)(i \<mapsto> e) \<and> hi_config (pn_graph s') = hi_config (pn_graph s) \<and>
    hi_dimension (pn_graph s') = hi_dimension (pn_graph s)"
proof -
  note p = pn_clean_parts [OF assms(1)]
  let ?g = "pn_graph s"
  have e: "embedding_ok e" "Embedding_dimension e = hi_dimension ?g" using assms(3) by (simp_all add: exact_embedding_def)
  have free: "gr_live (hi_graph ?g) i = None"
    using assms(4) by (simp add: pn_contents_def hnsw_contents_def graph_contents_def)
  have "records_fit (hi_dimension ?g) (node_count (hi_graph ?g) + 1)"
    using assms(2) by (auto simp: pn_room_def elim: records_fit_mono)
  then have "seg_end ?g + Dimension_get (hi_dimension ?g) * 4 < FILE_MAX" by (simp add: records_fit_def add_mult_distrib)
  from Pn_insert_total [OF p(2,4,5,6) e(2) free this] obtain s' where
    s': "Pn_insert ln_f R C i e s = (Inr (), s')" "fl_faults (sg_file (pn_segment s')) = []" by blast
  obtain r0 where r0: "write_through_insert ln_f R C i e s = (r0, s')" "map_err IndexError_from r0 = Inr ()"
    using s'(1) by (auto simp: Pn_insert_def split: prod.splits)
  then obtain u where "r0 = Inr u" by (cases r0) auto
  with write_through_insert_spec [OF p(1,3,5) e(1) r0(1)]
  have w: "pn_ok view C s'" "pn_graph s' = snd (insert_tracked ln_f i e ?g)" by simp_all
  obtain r g' where g': "insert_tracked ln_f i e ?g = (r, g')" by fastforce
  note f = insert_tracked_Inr [OF p(7) e(2) free g']
  have g: "pn_graph s' = g'" using w(2) g' by simp
  have "pn_room n s'" using assms(2) by (simp add: pn_room_def g f)
  then show ?thesis using s' w(1) p f by (simp add: pn_clean_def pn_contents_def g)
qed

interpretation pn_fit: fitting_index "Pn_index ln_f R C" "pn_clean R C view" pn_contents pn_room exact_embedding
  for ln_f and R :: "'d Redb" and C view
proof
  fix i :: "'d PersistentHnswIndex" and x e q k m adm ns and n :: nat
  let ?V = "Pn_index ln_f R C" and ?H = "HnswIndex_index ln_f" and ?ok = "pn_clean R C view"
  assume ok: "?ok i"
  note g = pn_clean_parts(7) [OF ok]
  have len: "vi_len ?V i = vi_len ?H (pn_graph i)" and dim: "vi_dimension ?V i = vi_dimension ?H (pn_graph i)"
    and sup: "vi_supported_metrics ?V i = vi_supported_metrics ?H (pn_graph i)"
    and srch: "vi_search_filtered ?V q k m adm i = vi_search_filtered ?H q k m adm (pn_graph i)"
    by (simp_all add: Pn_index_def HnswIndex_index_def)
  show "finite (dom (pn_contents i))" "vi_len ?V i = card (dom (pn_contents i))"
    using hnsw.finite_contents [OF g] hnsw.len_contents [OF g] by (simp_all add: pn_contents_def len)
  show "pn_room (Suc n) i \<Longrightarrow> exact_embedding (vi_dimension ?V i) e \<Longrightarrow> Embedding_dimension e = vi_dimension ?V i \<Longrightarrow>
      pn_contents i x = None \<Longrightarrow>
      \<exists>i'. vi_insert ?V x e i = (Inr (), i') \<and> ?ok i' \<and> pn_contents i' = (pn_contents i)(x \<mapsto> e) \<and>
        vi_dimension ?V i' = vi_dimension ?V i \<and> vi_metric ?V i' = vi_metric ?V i \<and> pn_room n i'"
    using Pn_insert_clean [OF ok, of n e x ln_f] by (auto simp: Pn_index_def)
  show "pn_room (Suc n) i \<Longrightarrow> exact_embedding (vi_dimension ?V i) e \<Longrightarrow> Embedding_dimension e \<noteq> vi_dimension ?V i \<Longrightarrow>
      \<exists>i'. vi_insert ?V x e i = (Inl (DimensionMismatch (Dimension_get (vi_dimension ?V i))
          (Dimension_get (Embedding_dimension e))), i') \<and> ?ok i' \<and> pn_contents i' = pn_contents i \<and>
        vi_dimension ?V i' = vi_dimension ?V i \<and> vi_metric ?V i' = vi_metric ?V i \<and> pn_room n i'"
    by (simp add: exact_embedding_def)
  show "\<exists>i'. vi_remove ?V x i = (Inr (pn_contents i x \<noteq> None), i') \<and> ?ok i' \<and>
      pn_contents i' = (pn_contents i)(x := None) \<and> vi_dimension ?V i' = vi_dimension ?V i \<and>
      vi_metric ?V i' = vi_metric ?V i \<and> (\<forall>n. pn_room n i \<longrightarrow> pn_room n i')"
  proof -
    obtain i' where i': "Pn_remove R C x i = (Inr (pn_contents i x \<noteq> None), i')" "?ok i'"
      "pn_graph i' = snd (remove_tracked x (pn_graph i))" using Pn_remove_total [OF ok] by blast
    obtain r g' where t: "remove_tracked x (pn_graph i) = (r, g')" by fastforce
    have "vi_remove ?H x (pn_graph i) = (fst (vi_remove ?H x (pn_graph i)), g')"
      by (simp add: HnswIndex_index_def HnswIndex_remove_def t)
    then have h: "hnsw_contents g' = (hnsw_contents (pn_graph i))(x := None)" "hi_dimension g' = hi_dimension (pn_graph i)"
      "cfg_metric (hi_config g') = cfg_metric (hi_config (pn_graph i))"
      using hnsw.remove_spec [OF g, of ln_f x] by (auto simp: HnswIndex_index_def)
    have "node_count (hi_graph g') = node_count (hi_graph (pn_graph i))"
    proof (cases "gr_live (hi_graph (pn_graph i)) x")
      case None
      then show ?thesis using t by (auto simp: remove_tracked_def id_to_node_def)
    next
      case (Some k)
      obtain delta s' where "remove_tracked x (pn_graph i) = (Inr (Some delta), s')"
        "map nd_embedding (gr_nodes (hi_graph s')) = map nd_embedding (gr_nodes (hi_graph (pn_graph i)))"
        by (rule remove_tracked_rows [OF g Some]) (rule that)
      then show ?thesis using t by (metis Pair_inject length_map node_count_def)
    qed
    then show ?thesis using i' h t by (simp add: Pn_index_def pn_contents_def pn_room_def)
  qed
  show "vi_search_filtered ?V q k m adm i = Inr ns \<Longrightarrow>
      Embedding_dimension q = vi_dimension ?V i \<and> m \<in> set (vi_supported_metrics ?V i) \<and>
      sorted (map neighbor_key ns) \<and> distinct (map neighbor_id ns) \<and> length ns \<le> k \<and>
      set ns \<subseteq> candidates m q adm (pn_contents i)"
    unfolding srch dim sup pn_contents_def by (rule hnsw.search_sound [OF g])
  show "m \<in> set (vi_supported_metrics ?V i) \<Longrightarrow> Embedding_dimension q = vi_dimension ?V i \<Longrightarrow>
      \<exists>ns. vi_search_filtered ?V q k m adm i = Inr ns"
    unfolding srch dim sup by (rule hnsw.search_total [OF g])
  show "m \<in> set (vi_supported_metrics ?V i) \<Longrightarrow> Embedding_dimension q \<noteq> vi_dimension ?V i \<Longrightarrow>
      vi_search_filtered ?V q k m adm i =
        Inl (DimensionMismatch (Dimension_get (vi_dimension ?V i)) (Dimension_get (Embedding_dimension q)))"
    unfolding srch dim sup by (rule hnsw.search_mismatch [OF g])
next
  fix i :: "'d PersistentHnswIndex" and n
  show "pn_room (Suc n) i \<Longrightarrow> pn_room n i" by (auto simp: pn_room_def elim: records_fit_mono)
qed

interpretation flat_disk: collection "Pf_index R" "pf_ok R view" "pf_contents view" pf_room "\<lambda>_ _. True"
    U ln_f "Pl_index U ln_f R CL" "pl_ready R CL view" "pl_bags CL view"
    "Pp_store R CP" "pp_ready R CP view" "pp_payloads CP view"
  for R :: "'d Redb" and view U ln_f CL CP
  by unfold_locales

interpretation hnsw_disk: collection "Pn_index ln_f R CH" "pn_clean R CH view" pn_contents pn_room exact_embedding
    U ln_f "Pl_index U ln_f R CL" "pl_ready R CL view" "pl_bags CL view"
    "Pp_store R CP" "pp_ready R CP view" "pp_payloads CP view"
  for R :: "'d Redb" and view U ln_f CH CL CP
  by unfold_locales

end
