(* ===== verification/Hnsw_Misplacement.thy ===== *)
theory Hnsw_Misplacement
  imports Persistent_Collection
begin

text \<open>
  Where the persistent HNSW index loses the binding of identifiers to vectors. Rows say nothing of vectors, the segment
  holds them by node index: a graph whose rows are on disk over a segment with other records opens, without an error,
  as the graph with those records. Compaction, and an insertion after a refused one, leave such a directory.
\<close>

section \<open>Other vectors in the same graph\<close>

definition with_embeddings :: "Embedding list \<Rightarrow> HnswIndex \<Rightarrow> HnswIndex" where
  "with_embeddings es g = g\<lparr>hi_graph := (hi_graph g)\<lparr>gr_nodes :=
     map (\<lambda>(nd, e). nd\<lparr>nd_embedding := e\<rparr>) (zip (gr_nodes (hi_graph g)) es)\<rparr>\<rparr>"

lemma with_embeddings_simps [simp]:
  "hi_config (with_embeddings es g) = hi_config g" "hi_dimension (with_embeddings es g) = hi_dimension g"
  "gr_live (hi_graph (with_embeddings es g)) = gr_live (hi_graph g)"
  "gr_entry_point (hi_graph (with_embeddings es g)) = gr_entry_point (hi_graph g)"
  "gr_live_count (hi_graph (with_embeddings es g)) = gr_live_count (hi_graph g)"
  "hi_rng (with_embeddings es g) = hi_rng g" "hi_supported (with_embeddings es g) = hi_supported g"
  by (simp_all add: with_embeddings_def)

lemma with_embeddings_count:
  "node_count (hi_graph g) \<le> length es \<Longrightarrow> node_count (hi_graph (with_embeddings es g)) = node_count (hi_graph g)"
  by (simp add: with_embeddings_def node_count_def)

lemma with_embeddings_node:
  "node_count (hi_graph g) \<le> length es \<Longrightarrow> x < node_count (hi_graph g) \<Longrightarrow>
   gr_nodes (hi_graph (with_embeddings es g)) ! x = (gr_nodes (hi_graph g) ! x)\<lparr>nd_embedding := es ! x\<rparr>"
  by (simp add: with_embeddings_def node_count_def)

text \<open>The rows do not tell them apart.\<close>

lemma with_embeddings_get:
  "node_count (hi_graph g) \<le> length es \<Longrightarrow> get_node (hi_graph (with_embeddings es g)) x =
     map_option (\<lambda>nd. nd\<lparr>nd_embedding := es ! x\<rparr>) (get_node (hi_graph g) x)"
  using with_embeddings_node [of g es x] with_embeddings_count [of g es] by (simp add: get_node_def node_count_def)

lemma with_embeddings_rows:
  assumes "node_count (hi_graph g) \<le> length es"
  shows "node_snapshot (with_embeddings es g) = node_snapshot g" "state_row (with_embeddings es g) = state_row g"
proof -
  have get: "nd_level (nd\<lparr>nd_embedding := e\<rparr>) = nd_level nd" "nd_id (nd\<lparr>nd_embedding := e\<rparr>) = nd_id nd"
    "nd_tombstone (nd\<lparr>nd_embedding := e\<rparr>) = nd_tombstone nd" "nd_neighbors (nd\<lparr>nd_embedding := e\<rparr>) = nd_neighbors nd" for nd e
    by simp_all
  have same: "node_level (hi_graph (with_embeddings es g)) = node_level (hi_graph g)"
    "node_id (hi_graph (with_embeddings es g)) = node_id (hi_graph g)"
    "is_tombstone (hi_graph (with_embeddings es g)) = is_tombstone (hi_graph g)"
    "neighbors (hi_graph (with_embeddings es g)) = neighbors (hi_graph g)"
    by (auto simp: fun_eq_iff node_level_def node_id_def is_tombstone_def neighbors_def with_embeddings_get [OF assms] option.map_comp comp_def
        split: option.split)
  show "node_snapshot (with_embeddings es g) = node_snapshot g"
    by (simp add: fun_eq_iff node_snapshot_def same with_embeddings_count [OF assms])
  show "state_row (with_embeddings es g) = state_row g"
    by (simp add: state_row_def state_meta_def same with_embeddings_count [OF assms] split: option.split)
qed

lemma with_embeddings_disk:
  assumes "node_count (hi_graph g) \<le> length es"
  shows "graph_disk C (with_embeddings es g) ts \<longleftrightarrow> graph_disk C g ts"
proof -
  have "node_map (with_embeddings es g) = node_map g" "adj_map (with_embeddings es g) = adj_map g"
    by (simp_all add: fun_eq_iff node_map_def adj_map_def with_embeddings_rows [OF assms])
  then show ?thesis by (simp add: graph_disk_def)
qed

text \<open>Nor does the invariant, as long as the vectors have the dimension of the index.\<close>

lemma with_embeddings_ok:
  assumes "node_count (hi_graph g) \<le> length es" "\<forall>e \<in> set es. embedding_ok e \<and> Embedding_dimension e = hi_dimension g"
    and "hnsw_ok g"
  shows "hnsw_ok (with_embeddings es g)" "stored_ok (with_embeddings es g)"
proof -
  let ?g = "hi_graph g" and ?h = "hi_graph (with_embeddings es g)"
  note cnt = with_embeddings_count [OF assms(1)] and nth = with_embeddings_node [OF assms(1)]
  have es: "es ! x \<in> set es" if "x < node_count ?g" for x using that assms(1) by simp
  have live: "live_set ?h = live_set ?g" using nth by (auto simp: live_set_def cnt)
  have graph: "graph_ok (hi_dimension g) (degree_limit (hi_config g)) MAX_LEVEL ?g" using assms(3) by (simp add: hnsw_ok_def)
  have "node_ok (hi_dimension g) (degree_limit (hi_config g)) MAX_LEVEL (node_count ?h) nd" if nd: "nd \<in> set (gr_nodes ?h)" for nd
  proof -
    obtain x where x: "x < node_count ?g" "nd = gr_nodes ?h ! x"
      using nd cnt by (metis in_set_conv_nth node_count_def)
    then show ?thesis
      using graph_ok_nodeD [OF graph x(1)] assms(2) es [OF x(1)] by (simp add: nth cnt node_ok_def)
  qed
  moreover have "live_ok ?h"
    using graph live_set_lt [of _ ?g] by (auto simp: graph_ok_def live_ok_def live nth)
  moreover have "entry_ok ?h"
  proof -
    have "node_level ?h = node_level ?g"
      by (auto simp: fun_eq_iff node_level_def with_embeddings_get [OF assms(1)] split: option.split)
    then show ?thesis using assms(3) by (simp add: hnsw_ok_def entry_ok_def live split: option.splits)
  qed
  moreover have "latest_ok ?h"
    using assms(3) live_set_lt [of _ ?g] by (simp add: hnsw_ok_def latest_ok_def live cnt nth)
  ultimately show "hnsw_ok (with_embeddings es g)" using assms(3) by (simp add: hnsw_ok_def graph_ok_def)
  show "stored_ok (with_embeddings es g)"
    using assms(2) by (auto simp: stored_ok_def with_embeddings_def dest: set_zip_rightD)
qed

lemma with_embeddings_contents:
  assumes "node_count (hi_graph g) \<le> length es" "hnsw_ok g" "gr_live (hi_graph g) i = Some x"
  shows "hnsw_contents (with_embeddings es g) i = Some (es ! x)"
proof -
  have "x < node_count (hi_graph g)"
    using assms(2,3) live_set_lt [of x "hi_graph g"] by (simp add: hnsw_ok_def graph_ok_def live_ok_def)
  then show ?thesis using assms(3) by (simp add: hnsw_contents_def graph_contents_def with_embeddings_node [OF assms(1)])
qed

text \<open>
  Rows of one graph over the records of another list of vectors: the directory opens as the graph with those vectors.
\<close>

lemma opens_misplaced:
  assumes "pn_clean R C view s" "hnsw_ok g" "graph_disk C g (view db)"
    and "meta_disk C (hi_config g) (hi_dimension g) (state_row g) (view db)"
    and "node_count (hi_graph g) \<le> length es" "\<forall>e \<in> set es. embedding_ok e \<and> Embedding_dimension e = hi_dimension g"
    and "seg_disk (with_embeddings es g) bytes"
  shows "\<exists>self dir. Pn_open R C \<lparr>sd_segment = Some bytes, sd_catalog = Some db, sd_faults = []\<rparr> = (Inr self, dir) \<and>
    pn_graph self = with_embeddings es g"
proof -
  note p = pn_clean_parts [OF assms(1)]
  note ok = with_embeddings_ok [OF assms(5,6,2)]
  let ?dir = "\<lparr>sd_segment = Some bytes, sd_catalog = Some db, sd_faults = []\<rparr>"
  have dir: "pn_dir_ok view C (with_embeddings es g) ?dir"
    using ok assms(3,4,7) by (simp add: pn_dir_ok_def pn_disk_def with_embeddings_disk [OF assms(5)] with_embeddings_rows [OF assms(5)])
  obtain r dir' where o: "Pn_open R C ?dir = (r, dir')" by fastforce
  from Pn_open_spec [OF p(1,3) dir o] p(2) o show ?thesis by auto
qed

section \<open>Compaction\<close>

lemma put_snapshot_touched:
  assumes "k + m = node_count (hi_graph g)"
  shows "put_snapshot_nodes C k (List.map_filter (node_snapshot g) [k ..< k + m]) t = put_touched C g [k ..< k + m] t"
  using assms
proof (induction m arbitrary: k t)
  case (Suc m)
  have cons: "[k ..< k + Suc m] = k # [Suc k ..< Suc k + m]" by (simp add: upt_rec)
  obtain sn where sn: "node_snapshot g k = Some sn" using Suc.prems node_snapshot_None [of g k] by (cases "node_snapshot g k") auto
  have "put_snapshot_nodes C (k + 1) (List.map_filter (node_snapshot g) [Suc k ..< Suc k + m]) =
      put_touched C g [Suc k ..< Suc k + m]" using Suc.IH [of "Suc k"] Suc.prems by (intro ext) (simp del: upt_Suc)
  then show ?case unfolding cons by (simp add: sn map_filter_simps del: upt_Suc)
qed (simp add: map_filter_simps)

text \<open>The rows of the old graph are dropped with their tables, those of the new one written from its first node on.\<close>

lemma flush_rows_spec:
  assumes "redb_ok R view" "codecs_ok C" "hnsw_ok g" "meta_disk C c d st (view db)" "flush_rows R C g db = Inr t"
  shows "graph_disk C g (tx_tables t) \<and> meta_disk C c d (state_row g) (tx_tables t) \<and> tx_reads (view db) t"
proof -
  let ?n = "node_count (hi_graph g)"
  obtain t0 where t0: "begin_write St_Catalog R db = Inr t0"
    using assms(5) by (cases "begin_write St_Catalog R db") (auto simp: flush_rows_def Let_def)
  note view0 = begin_write_Inr [OF t0 assms(1)]
  let ?t = "tx_do (W_open META) (tx_do (W_open ADJ) (tx_do (W_open NODES) (tx_do (W_delete_table ADJ) (tx_do (W_delete_table NODES) t0))))"
  obtain mt where mt: "view db META = Some mt" using assms(4) by (auto simp: meta_disk_def)
  have tabs: "tx_tables ?t NODES = Some []" "tx_tables ?t ADJ = Some []" "tx_tables ?t META = view db META"
    using mt view0 by (simp_all add: tx_do_def table_of_def)
  have reads: "tx_reads (view db) ?t" using conjunct2 [OF view0] by (intro tx_reads_do)
  have state: "\<lparr>ms_entry_point = gs_entry_point (snapshot g), ms_entry_level = gs_entry_level (snapshot g),
      ms_rng_state = gs_rng_state (snapshot g), ms_node_count = length (gs_nodes (snapshot g))\<rparr> = state_row g"
  proof -
    have "filter (\<lambda>i. node_snapshot g i \<noteq> None) [0 ..< ?n] = [0 ..< ?n]"
      using node_snapshot_None [of g] by (intro filter_True ballI) (simp add: not_le del: not_None_eq)
    then have "length (List.map_filter (node_snapshot g) [0 ..< ?n]) = ?n" by (simp add: List.map_filter_def comp_def)
    then show ?thesis by (simp add: snapshot_def state_row_def state_meta_def Let_def)
  qed
  obtain t1 where t1: "put_touched C g [0 ..< ?n] ?t = Inr t1" and t: "put_state C g t1 = Inr t"
    using assms(5) t0 put_snapshot_touched [of 0 ?n g C ?t] state
    by (auto simp: flush_rows_def Let_def res_bind_eq_Inr put_state_def snapshot_def split_beta)
  have p: "nodes_disk C (Map.empty ++ (node_map g |` set [0 ..< ?n])) (tx_tables t1)"
    "adj_disk C (Map.empty ++ (adj_map g |` {k. ak_node_idx k \<in> set [0 ..< ?n]})) (tx_tables t1)" "tx_follows ?t t1"
    using put_touched_holds [OF assms(3,2) _ _ t1, of Map.empty Map.empty] tabs by (auto simp: holds_def)
  have in_graph: "i < ?n" if "node_snapshot g i = Some sn" for i sn
    using that node_snapshot_None [of g i] by (metis not_le option.distinct(1))
  have all: "node_map g |` set [0 ..< ?n] = node_map g" "adj_map g |` {k. ak_node_idx k \<in> set [0 ..< ?n]} = adj_map g"
    using in_graph node_snapshot_None [THEN iffD2, of g]
    by (auto simp: fun_eq_iff restrict_map_def node_map_def adj_map_def not_less split: option.split)
  have "meta_disk C c d st (tx_tables t1)" using p(3) assms(4) tabs(3) by (simp add: tx_follows_def meta_disk_def)
  note m = put_state_meta [OF assms(2) this t]
  moreover have "tx_reads (view db) t"
    using p(3) reads by (intro only_table_reads [OF conjunct2 [OF m]]) (simp add: tx_follows_def)
  ultimately show ?thesis using p(1,2) m unfolding graph_disk_def all by (metis holds_other hnsw_table_names map_le_refl empty_map_add)
qed

lemma old_vectors:
  assumes "pn_disk C g bytes ts"
  shows "\<forall>e \<in> set (map nd_embedding (gr_nodes (hi_graph g))). embedding_ok e \<and> Embedding_dimension e = hi_dimension g"
proof -
  have "\<forall>nd \<in> set (gr_nodes (hi_graph g)). Embedding_dimension (nd_embedding nd) = hi_dimension g"
    using assms by (auto simp: pn_disk_def hnsw_ok_def graph_ok_def node_ok_def)
  then show ?thesis using assms by (simp add: pn_disk_def stored_ok_def)
qed

text \<open>The node that compaction gave the index \<open>x\<close> comes back with the vector of the old node \<open>x\<close>.\<close>

lemma flush_rows_total:
  assumes "redb_total R" "codecs_total C"
  shows "\<exists>t. flush_rows R C g db = Inr t"
proof -
  obtain t0 where t0: "begin_write St_Catalog R db = Inr t0" using begin_write_total [OF assms(1)] by blast
  let ?t = "tx_do (W_open META) (tx_do (W_open ADJ) (tx_do (W_open NODES) (tx_do (W_delete_table ADJ) (tx_do (W_delete_table NODES) t0))))"
  obtain t1 where t1: "put_touched C g [0 ..< node_count (hi_graph g)] ?t = Inr t1" using put_touched_total(1) [OF assms(2)] by blast
  have "\<exists>t. pn_put (hc_state C) META META_STATE_KEY st t1 = Inr t" for st
    using assms(2) by (intro pn_put_total) (simp add: codecs_total_def)
  then show ?thesis
    using t0 t1 put_snapshot_touched [of 0 "node_count (hi_graph g)" g C ?t] by (simp add: flush_rows_def Let_def snapshot_def split_beta)
qed

lemma compact_reopens:
  assumes clean: "pn_clean R C view s"
  shows "\<exists>s1 s2 dir. Pn_compact ln_f R C s = (Inr (), s1) \<and> Pn_open R C (pn_dir s1) = (Inr s2, dir) \<and>
    hnsw_contents (pn_graph s1) = hnsw_contents (pn_graph s) \<and>
    pn_graph s2 = with_embeddings (map nd_embedding (gr_nodes (hi_graph (pn_graph s)))) (pn_graph s1) \<and>
    hnsw_ok (pn_graph s1) \<and> node_count (hi_graph (pn_graph s1)) = gr_live_count (hi_graph (pn_graph s)) \<and>
    node_count (hi_graph (pn_graph s1)) \<le> node_count (hi_graph (pn_graph s))"
proof -
  note p = pn_clean_parts [OF clean]
  let ?g = "pn_graph s" and ?es = "map nd_embedding (gr_nodes (hi_graph (pn_graph s)))"
  have disk: "pn_disk C ?g (pn_bytes s) (view (pn_db s))" using p(5) by (simp add: pn_ok_def)
  then have ok: "hnsw_ok ?g" and st: "stored_ok ?g" and sd: "seg_disk ?g (pn_bytes s)"
    and md: "meta_disk C (hi_config ?g) (hi_dimension ?g) (state_row ?g) (view (pn_db s))" by (simp_all add: pn_disk_def)
  obtain g' where g': "compact ln_f ?g = (Inr (), g')" "hnsw_ok g'" "hnsw_contents g' = hnsw_contents ?g" "hi_config g' = hi_config ?g"
    "hi_dimension g' = hi_dimension ?g" "node_count (hi_graph g') = gr_live_count (hi_graph ?g)"
    using compact_spec [OF ok] st by (auto simp: stored_ok_def)
  let ?s = "s\<lparr>pn_graph := g'\<rparr>"
  obtain s1 where c: "commit_rows R (flush_rows R C) ?s = (Inr (), s1)"
    using commit_rows_total [OF p(2), of "flush_rows R C" ?s] flush_rows_total [OF p(2,4)] by blast
  then have returns: "Pn_compact ln_f R C s = (Inr (), s1)"
    using g'(1) by (simp add: Pn_compact_def pn_on_graph_def flush_snapshot_to_redb_def)
  have rows: "graph_disk C g' (tx_tables t) \<and> meta_disk C (hi_config ?g) (hi_dimension ?g) (state_row g') (tx_tables t) \<and>
      tx_reads (view (pn_db s)) t" if "flush_rows R C g' (pn_db s) = Inr t" for t
    by (rule flush_rows_spec [OF p(1,3) g'(2) md that])
  then obtain t where k: "pn_graph s1 = g'" "pn_segment s1 = pn_segment s" "flush_rows R C g' (pn_db s) = Inr t"
    "view (pn_db s1) = tx_tables t"
    using commit_rows_spec [OF p(1) c] by auto
  have cnt: "node_count (hi_graph g') \<le> node_count (hi_graph ?g)"
  proof -
    have "live_ok (hi_graph ?g)" using ok by (simp add: hnsw_ok_def graph_ok_def)
    moreover have "card (live_set (hi_graph ?g)) \<le> card {..<node_count (hi_graph ?g)}"
      using live_set_lt [of _ "hi_graph ?g"] by (intro card_mono) auto
    ultimately show ?thesis using g'(6) by (simp add: live_ok_def)
  qed
  have le: "node_count (hi_graph g') \<le> length ?es" using cnt by (simp add: node_count_def)
  note count = with_embeddings_count [OF le]
  have "seg_end g' \<le> seg_end ?g" using cnt by (simp add: g'(5) mult_le_mono1)
  then have fit: "seg_end g' < FILE_MAX" "seg_end g' \<le> length (pn_bytes s)" using sd by (simp_all add: seg_disk_def)
  have "\<exists>s2 dir. Pn_open R C \<lparr>sd_segment = Some (pn_bytes s), sd_catalog = Some (pn_db s1), sd_faults = []\<rparr> = (Inr s2, dir) \<and>
      pn_graph s2 = with_embeddings ?es g'"
  proof (rule opens_misplaced [OF clean g'(2) _ _ le])
    show "graph_disk C g' (view (pn_db s1))" "meta_disk C (hi_config g') (hi_dimension g') (state_row g') (view (pn_db s1))"
      using rows [OF k(3)] k(4) g'(4,5) by simp_all
    show "\<forall>e \<in> set ?es. embedding_ok e \<and> Embedding_dimension e = hi_dimension g'" using old_vectors [OF disk] by (simp add: g'(5))
    show "seg_disk (with_embeddings ?es g') (pn_bytes s)" unfolding seg_disk_def count
      using sd fit cnt with_embeddings_node [OF le]
      by (auto simp: seg_disk_def g'(4,5) node_count_def)
  qed
  then show ?thesis using returns k(1,2) g'(2,3,6) cnt by (simp add: pn_dir_def)
qed

section \<open>An insertion after a refused one\<close>

text \<open>The new node is the live one of its identifier.\<close>

lemma insert_live:
  assumes "hnsw_ok g" "Embedding_dimension e = hi_dimension g" "gr_live (hi_graph g) i = None"
  shows "gr_live (hi_graph (snd (insert_tracked ln_f i e g))) i = Some (node_count (hi_graph g))"
proof -
  obtain delta g1 g2 ep where s: "insert_tracked ln_f i e g =
      (Inr delta, g\<lparr>hi_graph := set_entry_point ep g2, hi_rng := snd (next_u64 (hi_rng g))\<rparr>)"
    and add: "add_node i e (fst (next_level ln_f (m_l ln_f (hi_config g)) (hi_rng g))) (hi_graph g) =
      (Inr (node_count (hi_graph g)), g1)"
    and lk: "link_inv (hi_dimension g) (hi_config g) g1 g2"
    by (rule insert_tracked_fresh [OF assms, of ln_f])
  have "gr_live g2 = gr_live g1" using lk erase_same(2) [of g2 g1] by (simp add: link_inv_def)
  then show ?thesis using add_node_Inr(4) [OF add] by (simp add: s)
qed

text \<open>A duplicate is refused by the graph, after its record has been appended.\<close>

lemma refused_insert:
  assumes "pn_clean R C view s" "pn_room (Suc n) s" "Embedding_dimension e = hi_dimension (pn_graph s)"
    and "gr_live (hi_graph (pn_graph s)) i \<noteq> None"
  shows "Pn_insert ln_f R C i e s = (Inl (DuplicateId i), s\<lparr>pn_segment := (pn_segment s)\<lparr>sg_file :=
    (sg_file (pn_segment s))\<lparr>fl_bytes := pn_bytes s @ floats_to_bytes (as_slice e)\<rparr>\<rparr>\<rparr>)"
    "length (pn_bytes s @ floats_to_bytes (as_slice e)) + n * (Dimension_get (hi_dimension (pn_graph s)) * 4) < FILE_MAX"
proof -
  note p = pn_clean_parts [OF assms(1)]
  let ?g = "pn_graph s"
  have len: "length (pn_bytes s) = seg_end ?g" "0 < Dimension_get (hi_dimension ?g)"
    and sdim: "sg_dimension (pn_segment s) = Dimension_get (hi_dimension ?g)"
    using p(5) by (simp_all add: pn_ok_def pn_disk_def seg_disk_def)
  have e: "length (as_slice e) = Dimension_get (hi_dimension ?g)" by (rule Embedding_dimension_length [OF assms(3) len(2)])
  have room: "seg_end ?g + Suc n * (Dimension_get (hi_dimension ?g) * 4) < FILE_MAX"
    using assms(2) by (simp add: pn_room_def records_fit_def add_mult_distrib)
  then show "length (pn_bytes s @ floats_to_bytes (as_slice e)) + n * (Dimension_get (hi_dimension ?g) * 4) < FILE_MAX"
    using len(1) e by simp
  have "length (pn_bytes s) + 4 * length (as_slice e) < FILE_MAX" using room len(1) e by simp
  then show "Pn_insert ln_f R C i e s = (Inl (DuplicateId i), s\<lparr>pn_segment := (pn_segment s)\<lparr>sg_file :=
    (sg_file (pn_segment s))\<lparr>fl_bytes := pn_bytes s @ floats_to_bytes (as_slice e)\<rparr>\<rparr>\<rparr>)"
    using Segment_append_clean [OF p(6), of "as_slice e"] insert_tracked_error(2) [OF assms(3,4), of ln_f] e sdim
    by (simp add: Pn_insert_def write_through_insert_def pn_on_segment_def pn_on_graph_def)
qed

text \<open>The vectors of a graph with others, as a list.\<close>

lemma with_embeddings_all:
  "length es = node_count (hi_graph g) \<Longrightarrow> map nd_embedding (gr_nodes (hi_graph (with_embeddings es g))) = es"
  by (rule nth_equalityI) (simp_all add: with_embeddings_def node_count_def)

text \<open>
  The next insertion, over a segment with one record too many: the graph is what it should be, and its rows are on disk,
  but its new node has the index of the extra record.
\<close>

lemma insert_over_orphan:
  assumes clean: "pn_clean R C view s" and e: "exact_embedding (hi_dimension (pn_graph s)) e"
    and seg1: "pn_graph s1 = pn_graph s" "pn_db s1 = pn_db s" "pn_bytes s1 = pn_bytes s @ floats_to_bytes (as_slice e)"
    and size: "length (pn_bytes s1) < FILE_MAX"
    and ins: "Pn_insert ln_f R C j e' s1 = (Inr (), s2)"
  shows "\<exists>s3 dir. Pn_open R C (pn_dir s2) = (Inr s3, dir) \<and> hnsw_contents (pn_graph s2) j = Some e' \<and>
    hnsw_contents (pn_graph s3) j = Some e"
proof -
  note p = pn_clean_parts [OF clean]
  let ?g = "pn_graph s" and ?es = "map nd_embedding (gr_nodes (hi_graph (pn_graph s))) @ [e]"
  have disk: "pn_disk C ?g (pn_bytes s) (view (pn_db s))" and exact: "length (pn_bytes s) = seg_end ?g"
    using p(5) by (simp_all add: pn_ok_def)
  then have ok: "hnsw_ok ?g" and sd: "seg_disk ?g (pn_bytes s)" and gd: "graph_disk C ?g (view (pn_db s))"
    and md: "meta_disk C (hi_config ?g) (hi_dimension ?g) (state_row ?g) (view (pn_db s))" by (simp_all add: pn_disk_def)
  have w: "write_through_insert ln_f R C j e' s1 = (Inr (), s2)" using ins by (auto simp: Pn_insert_def split: prod.splits)
  obtain r1 t1 where t1: "pn_on_segment (Segment_append (as_slice e')) s1 = (r1, t1)" by fastforce
  note a = pn_on_segment_append [OF t1]
  have r1: "r1 = Inr ()" using w t1 by (cases r1) (simp_all add: write_through_insert_def)
  obtain r2 g' where g': "insert_tracked ln_f j e' ?g = (r2, g')" by fastforce
  have same: "pn_graph t1 = ?g" "pn_db t1 = pn_db s" using a seg1 by simp_all
  have "\<exists>delta. r2 = Inr delta"
    using w t1 r1 g' same by (cases r2) (simp_all add: write_through_insert_def pn_on_graph_def)
  then have new: "Embedding_dimension e' = hi_dimension ?g" "gr_live (hi_graph ?g) j = None"
    using g' insert_tracked_error [where ln_f = ln_f and e = e' and i = j and self = ?g] by fastforce+
  note f = insert_tracked_Inr [OF ok new g']
  obtain delta where delta: "r2 = Inr delta"
    "{i. node_snapshot g' i \<noteq> node_snapshot ?g i} \<subseteq> set (ins_touched_nodes delta)"
    by (rule insert_tracked_rows [OF ok new g']) (rule that)
  let ?rows = "\<lambda>graph db. insert_rows R C graph (ins_touched_nodes delta) db"
  have c: "commit_rows R ?rows (t1\<lparr>pn_graph := g'\<rparr>) = (Inr (), s2)"
    using w t1 r1 g' same delta(1) by (simp add: write_through_insert_def pn_on_graph_def)
  have rows: "graph_disk C g' (tx_tables t) \<and> meta_disk C (hi_config ?g) (hi_dimension ?g) (state_row g') (tx_tables t) \<and>
      tx_reads (view (pn_db s)) t" if "?rows g' (pn_db s) = Inr t" for t
    by (rule insert_rows_spec [OF p(1,3) f(2) gd md delta(2) _ that]) (simp add: f(6))
  then obtain t where k: "pn_graph s2 = g'" "pn_segment s2 = pn_segment t1" "?rows g' (pn_db s) = Inr t" "view (pn_db s2) = tx_tables t"
    using commit_rows_spec [OF p(1) c] same by auto
  have bytes: "pn_bytes s2 = pn_bytes s1 @ floats_to_bytes (as_slice e')" using a r1 k(2) by simp
  have len: "length ?es = node_count (hi_graph g')" using f(6) by (simp add: node_count_def)
  have e_ok: "embedding_ok e" "Embedding_dimension e = hi_dimension ?g" using e by (simp_all add: exact_embedding_def)
  have seg: "seg_disk (with_embeddings ?es g') (pn_bytes s1) \<and> length (pn_bytes s1) = seg_end (with_embeddings ?es g')"
    using seg_disk_extend [OF sd exact e_ok(2) _ _ with_embeddings_all [OF len]] size f(4,5) unfolding seg1(3) by simp
  have "seg_disk (with_embeddings ?es g') (pn_bytes s2)"
    unfolding bytes by (rule seg_disk_same [OF conjunct1 [OF seg]]; unfold conjunct2 [OF seg, symmetric]; simp)
  moreover have "\<forall>e \<in> set ?es. embedding_ok e \<and> Embedding_dimension e = hi_dimension g'"
    using old_vectors [OF disk] e_ok f(5) by simp
  moreover have "graph_disk C g' (view (pn_db s2))" "meta_disk C (hi_config g') (hi_dimension g') (state_row g') (view (pn_db s2))"
    using rows [OF k(3)] k(4) f(4,5) by simp_all
  ultimately obtain s3 dir where o: "Pn_open R C (pn_dir s2) = (Inr s3, dir)" "pn_graph s3 = with_embeddings ?es g'"
    using opens_misplaced [OF clean f(2), of "pn_db s2" ?es "pn_bytes s2"] len by (auto simp: pn_dir_def)
  have "gr_live (hi_graph g') j = Some (node_count (hi_graph ?g))" using insert_live [OF ok new, of ln_f] g' by simp
  then have "hnsw_contents (pn_graph s3) j = Some e"
    using with_embeddings_contents [of g' ?es j] len f(2) o(2) by (simp add: node_count_def nth_append)
  then show ?thesis using o(1) f(3) k(1) by simp
qed

section \<open>What a history leaves\<close>

lemma live_contents: "gr_live (hi_graph g) i = None \<longleftrightarrow> hnsw_contents g i = None"
  by (simp add: hnsw_contents_def graph_contents_def)

lemma hnsw_run_contents: "config_ok c \<Longrightarrow> hnsw_contents (hnsw_run ln_f c d ops) = spec_run d ops"
  using hnsw.contents_run_ops [OF hnsw_new_ok(1) hnsw_new_ok(2), of c ln_f ops d]
  by (simp add: hnsw_run_def HnswIndex_index_def)

text \<open>What a running index contains, by the calls it has acknowledged.\<close>

lemma pn_reach_contents:
  assumes "redb_ok R view" "codecs_ok C" "config_ok c" "0 < Dimension_get d" "pn_reach ln_f R C c d ops s"
  shows "pn_ok view C s" "hnsw_contents (pn_graph s) = spec_run d ops" "hi_dimension (pn_graph s) = d"
  using pn_reach_graph [OF assms(5,1-4)] hnsw_run_contents [OF assms(3), of ln_f d ops] hnsw_run_ok(2) [OF assms(3), of ln_f d ops]
  by simp_all


lemma run_insert_vectors:
  assumes "config_ok c" "Embedding_dimension e = d" "gr_live (hi_graph (hnsw_run ln_f c d ops)) i = None"
  shows "map nd_embedding (gr_nodes (hi_graph (hnsw_run ln_f c d (ops @ [Op_insert i e])))) =
    map nd_embedding (gr_nodes (hi_graph (hnsw_run ln_f c d ops))) @ [e]"
proof -
  let ?g = "hnsw_run ln_f c d ops"
  note ok = hnsw_run_ok [OF assms(1), of ln_f d ops]
  obtain r g' where t: "insert_tracked ln_f i e ?g = (r, g')" by fastforce
  obtain delta where "map nd_embedding (gr_nodes (hi_graph g')) = map nd_embedding (gr_nodes (hi_graph ?g)) @ [e]"
    using assms(2) ok(2) by (rule_tac insert_tracked_rows [OF ok(1) _ assms(3) t]) simp_all
  then show ?thesis using t by (simp add: hnsw_run_snoc HnswIndex_index_def HnswIndex_insert_def)
qed

lemma run_remove_vectors:
  assumes "config_ok c"
  shows "map nd_embedding (gr_nodes (hi_graph (hnsw_run ln_f c d (ops @ [Op_remove i])))) =
    map nd_embedding (gr_nodes (hi_graph (hnsw_run ln_f c d ops)))"
proof (cases "gr_live (hi_graph (hnsw_run ln_f c d ops)) i")
  case None
  then show ?thesis by (simp add: hnsw_run_snoc HnswIndex_index_def HnswIndex_remove_def remove_tracked_def id_to_node_def)
next
  case (Some n)
  obtain delta g' where "remove_tracked i (hnsw_run ln_f c d ops) = (Inr (Some delta), g')"
    "map nd_embedding (gr_nodes (hi_graph g')) = map nd_embedding (gr_nodes (hi_graph (hnsw_run ln_f c d ops)))"
    by (rule remove_tracked_rows [OF hnsw_run_ok(1) [OF assms] Some]) (rule that)
  then show ?thesis by (simp add: hnsw_run_snoc HnswIndex_index_def HnswIndex_remove_def)
qed

text \<open>A fresh index over the database in memory, one, two and three calls later.\<close>

abbreviation "vec_zero \<equiv> Embedding [0]"
abbreviation "vec_one \<equiv> Embedding [0x3F800000]"
abbreviation "calls_one \<equiv> [Op_insert (VectorId 7) vec_zero]"
abbreviation "calls_two \<equiv> calls_one @ [Op_insert (VectorId 8) vec_one]"
abbreviation "calls_three \<equiv> calls_two @ [Op_remove (VectorId 7)]"
abbreviation "mem_reach \<equiv> pn_reach (\<lambda>x. x) mem_redb hnsw_codecs HnswConfig_default (Dimension 1)"

lemma small_facts:
  "0 < Dimension_get (Dimension 1)" "exact_embedding (Dimension 1) vec_zero" "exact_embedding (Dimension 1) vec_one"
  "Embedding_dimension vec_zero = Dimension 1" "Embedding_dimension vec_one = Dimension 1"
proof -
  show dim: "0 < Dimension_get (Dimension 1)" "Embedding_dimension vec_zero = Dimension 1" "Embedding_dimension vec_one = Dimension 1"
    by (simp_all add: Dimension_get_def Embedding_dimension_def Dimension_new_def u32_max_def)
  have "embedding_ok vec_zero" "embedding_ok vec_one" by code_simp+
  then show "exact_embedding (Dimension 1) vec_zero" "exact_embedding (Dimension 1) vec_one"
    by (simp_all only: exact_embedding_def dim simp_thms)
qed

lemma small_specs:
  "spec_run (Dimension 1) calls_one = [VectorId 7 \<mapsto> vec_zero]"
  "spec_run (Dimension 1) calls_two = [VectorId 7 \<mapsto> vec_zero, VectorId 8 \<mapsto> vec_one]"
  "spec_run (Dimension 1) calls_three = [VectorId 8 \<mapsto> vec_one]"
  by (simp_all add: spec_run_def small_facts fun_upd_twist)

lemma small_vectors:
  assumes "mem_reach ops s"
  shows "ops = calls_one \<Longrightarrow> map nd_embedding (gr_nodes (hi_graph (pn_graph s))) = [vec_zero]"
    "ops = calls_three \<Longrightarrow> map nd_embedding (gr_nodes (hi_graph (pn_graph s))) = [vec_zero, vec_one]"
proof -
  have live: "gr_live (hi_graph (hnsw_run (\<lambda>x. x) HnswConfig_default (Dimension 1) ops)) i = None"
    if "spec_run (Dimension 1) ops i = None" for i ops
    using that by (simp add: live_contents hnsw_run_contents [OF config_ok_default])
  let ?V = "\<lambda>ops. map nd_embedding (gr_nodes (hi_graph (hnsw_run (\<lambda>x. x) HnswConfig_default (Dimension 1) ops)))"
  have nil: "?V [] = []" by (simp add: hnsw_run_def run_ops_def HnswIndex_new_def HnswGraph_new_def)
  have v1: "?V calls_one = [vec_zero]"
    using run_insert_vectors [OF config_ok_default small_facts(4) live [of "[]"]] nil by (simp add: spec_run_def)
  have "?V calls_two = [vec_zero] @ [vec_one]"
    using run_insert_vectors [OF config_ok_default small_facts(5) live [of calls_one "VectorId 8"]] small_specs(1) v1 by simp
  then have v3: "?V calls_three = [vec_zero, vec_one]"
    using run_remove_vectors [OF config_ok_default, of "\<lambda>x. x" "Dimension 1" calls_two "VectorId 7"] by simp
  have "pn_graph s = hnsw_run (\<lambda>x. x) HnswConfig_default (Dimension 1) ops"
    using pn_reach_graph [OF assms mem_redb_ok(1) hnsw_codecs_fine(1) config_ok_default small_facts(1)] by simp
  then show "ops = calls_one \<Longrightarrow> map nd_embedding (gr_nodes (hi_graph (pn_graph s))) = [vec_zero]"
    "ops = calls_three \<Longrightarrow> map nd_embedding (gr_nodes (hi_graph (pn_graph s))) = [vec_zero, vec_one]" using v1 v3 by simp_all
qed

lemma mem_reach_one:
  obtains s where "mem_reach calls_one s" "fl_faults (sg_file (pn_segment s)) = []" "pn_room 2 s" "pn_clean mem_redb hnsw_codecs (\<lambda>t. t) s"
proof -
  obtain s where s: "mem_reach calls_one s" "fl_faults (sg_file (pn_segment s)) = []" using pn_reach_one by blast
  note r = pn_reach_graph [OF s(1) mem_redb_ok(1) hnsw_codecs_fine(1) config_ok_default small_facts(1)]
  have "node_count (hi_graph (pn_graph s)) = 1"
    using arg_cong [OF small_vectors(1) [OF s(1) refl], of length] by (simp add: node_count_def)
  moreover have "hi_dimension (pn_graph s) = Dimension 1" using hnsw_run_ok(2) [OF config_ok_default] r by simp
  ultimately have "pn_room 2 s" by (simp add: pn_room_def records_fit_def HEADER_LEN_def FILE_MAX_def Dimension_get_def)
  then show ?thesis using that s r mem_redb_ok hnsw_codecs_fine by (simp add: pn_clean_def)
qed

lemma mem_reach_three:
  obtains s where "mem_reach calls_three s" "fl_faults (sg_file (pn_segment s)) = []"
proof -
  obtain s where s: "mem_reach calls_one s" "pn_room 2 s" "pn_clean mem_redb hnsw_codecs (\<lambda>t. t) s" by (rule mem_reach_one) (rule that)
  note r = pn_reach_contents [OF mem_redb_ok(1) hnsw_codecs_fine(1) config_ok_default small_facts(1) s(1)]
  have "pn_contents s = [VectorId 7 \<mapsto> vec_zero]" "hi_dimension (pn_graph s) = Dimension 1"
    using r(2,3) small_specs(1) by (simp_all add: pn_contents_def)
  moreover have "pn_room (Suc 1) s" using s(2) by (simp add: numeral_2_eq_2)
  ultimately obtain s' where s': "Pn_insert (\<lambda>x. x) mem_redb hnsw_codecs (VectorId 8) vec_one s = (Inr (), s')"
    "pn_clean mem_redb hnsw_codecs (\<lambda>t. t) s'"
    using Pn_insert_clean [OF s(3), of 1 vec_one "VectorId 8" "\<lambda>x. x"] small_facts(3) by auto
  have two: "mem_reach calls_two s'"
    by (rule pn_reach.called [OF s(1)]) (use s' small_facts(3) in \<open>simp_all add: exact_embedding_def\<close>)
  obtain b s3 where s3: "Pn_remove mem_redb hnsw_codecs (VectorId 7) s' = (Inr b, s3)" "pn_clean mem_redb hnsw_codecs (\<lambda>t. t) s3"
    using Pn_remove_total [OF s'(2)] by blast
  have "mem_reach calls_three s3" by (rule pn_reach.called [OF two]) (use s3 in simp_all)
  then show ?thesis using that pn_clean_parts(6) [OF s3(2)] by blast
qed

section \<open>Properties\<close>

text \<open>
  C30. Compacting an HNSW collection on disk misplaces its vectors. After any history compaction reports success and keeps
  the contents in memory; but the next opening, which reports no error either, gives the identifier that compaction moved
  to node \<open>x\<close> the vector of whatever was node \<open>x\<close> before, removed or not.
\<close>

theorem compact_misplaces_vectors:
  assumes "redb_ok R view" "redb_total R" "codecs_ok C" "codecs_total C" "config_ok c" "0 < Dimension_get d"
    and "pn_reach ln_f R C c d ops s" "fl_faults (sg_file (pn_segment s)) = []"
  shows "\<exists>s1 s2 dir. Pn_compact ln_f R C s = (Inr (), s1) \<and> hnsw_contents (pn_graph s1) = spec_run d ops \<and>
    Pn_open R C (pn_dir s1) = (Inr s2, dir) \<and>
    (\<forall>i x. gr_live (hi_graph (pn_graph s1)) i = Some x \<longrightarrow> x < card (dom (spec_run d ops)) \<and>
      hnsw_contents (pn_graph s2) i = Some (nd_embedding (gr_nodes (hi_graph (pn_graph s)) ! x)))"
proof -
  note r = pn_reach_contents [OF assms(1,3,5-7)]
  have clean: "pn_clean R C view s" using assms r(1) by (simp add: pn_clean_def)
  obtain s1 s2 dir where k: "Pn_compact ln_f R C s = (Inr (), s1)" "Pn_open R C (pn_dir s1) = (Inr s2, dir)"
    "hnsw_contents (pn_graph s1) = hnsw_contents (pn_graph s)" "hnsw_ok (pn_graph s1)"
    "pn_graph s2 = with_embeddings (map nd_embedding (gr_nodes (hi_graph (pn_graph s)))) (pn_graph s1)"
    "node_count (hi_graph (pn_graph s1)) = gr_live_count (hi_graph (pn_graph s))"
    "node_count (hi_graph (pn_graph s1)) \<le> node_count (hi_graph (pn_graph s))"
    using compact_reopens [OF clean] by blast
  have cnt: "gr_live_count (hi_graph (pn_graph s)) = card (dom (spec_run d ops))"
    using hnsw.len_contents [OF pn_clean_parts(7) [OF clean], of ln_f] r(2) by (simp add: HnswIndex_index_def)
  have "x < card (dom (spec_run d ops)) \<and> hnsw_contents (pn_graph s2) i = Some (nd_embedding (gr_nodes (hi_graph (pn_graph s)) ! x))"
    if i: "gr_live (hi_graph (pn_graph s1)) i = Some x" for i x
  proof -
    have x: "x < node_count (hi_graph (pn_graph s1))"
      using i k(4) live_set_lt [of x "hi_graph (pn_graph s1)"] by (simp add: hnsw_ok_def graph_ok_def live_ok_def)
    then have "nd_embedding (gr_nodes (hi_graph (pn_graph s)) ! x) = map nd_embedding (gr_nodes (hi_graph (pn_graph s))) ! x"
      using k(7) by (simp add: node_count_def)
    then show ?thesis using x with_embeddings_contents [OF _ k(4) i] k(5-7) cnt by (simp add: node_count_def)
  qed
  then show ?thesis using k r(2) by metis
qed

lemma compact_misplaces_vectors_witness:
  "\<exists>s s1 s2 dir. mem_reach calls_three s \<and> Pn_compact (\<lambda>x. x) mem_redb hnsw_codecs s = (Inr (), s1) \<and>
     Pn_open mem_redb hnsw_codecs (pn_dir s1) = (Inr s2, dir) \<and>
     hnsw_contents (pn_graph s1) (VectorId 8) = Some vec_one \<and> hnsw_contents (pn_graph s2) (VectorId 8) = Some vec_zero"
proof -
  obtain s where s: "mem_reach calls_three s" "fl_faults (sg_file (pn_segment s)) = []" by (rule mem_reach_three) (rule that)
  from compact_misplaces_vectors [OF mem_redb_ok hnsw_codecs_fine config_ok_default small_facts(1) s]
  obtain s1 s2 dir where k: "Pn_compact (\<lambda>x. x) mem_redb hnsw_codecs s = (Inr (), s1)" "Pn_open mem_redb hnsw_codecs (pn_dir s1) = (Inr s2, dir)"
    "hnsw_contents (pn_graph s1) = [VectorId 8 \<mapsto> vec_one]"
    "\<forall>i x. gr_live (hi_graph (pn_graph s1)) i = Some x \<longrightarrow> x < card (dom [VectorId 8 \<mapsto> vec_one]) \<and>
      hnsw_contents (pn_graph s2) i = Some (nd_embedding (gr_nodes (hi_graph (pn_graph s)) ! x))"
    unfolding small_specs(3) by blast
  obtain x where x: "gr_live (hi_graph (pn_graph s1)) (VectorId 8) = Some x"
    using fun_cong [OF k(3), of "VectorId 8"] by (auto simp: hnsw_contents_def graph_contents_def)
  then have "x = 0" using k(4) by fastforce
  moreover have "nd_embedding (gr_nodes (hi_graph (pn_graph s)) ! 0) = vec_zero"
    using small_vectors(2) [OF s(1) refl] by (cases "gr_nodes (hi_graph (pn_graph s))") simp_all
  ultimately have "hnsw_contents (pn_graph s2) (VectorId 8) = Some vec_zero" using k(4) x by metis
  then show ?thesis using s(1) k(1-3) by fastforce
qed

text \<open>
  C32. A refused insertion misplaces the next one. After any history, insert an identifier that is present, which is refused,
  then one that is not, which is accepted: the second has its vector in memory, but after the next opening, which reports
  no error, it has the vector of the first.
\<close>

theorem refused_insert_misplaces_next:
  assumes "redb_ok R view" "redb_total R" "codecs_ok C" "codecs_total C" "config_ok c" "0 < Dimension_get d"
    and "pn_reach ln_f R C c d ops s" "fl_faults (sg_file (pn_segment s)) = []" "pn_room 2 s"
    and "exact_embedding d e" "spec_run d ops i \<noteq> None" "Embedding_dimension e' = d" "spec_run d ops j = None"
  shows "\<exists>s1 s2 s3 dir. Pn_insert ln_f R C i e s = (Inl (DuplicateId i), s1) \<and> Pn_insert ln_f R C j e' s1 = (Inr (), s2) \<and>
    Pn_open R C (pn_dir s2) = (Inr s3, dir) \<and>
    hnsw_contents (pn_graph s2) j = Some e' \<and> hnsw_contents (pn_graph s3) j = Some e"
proof -
  note r = pn_reach_contents [OF assms(1,3,5-7)]
  have clean: "pn_clean R C view s" using assms r(1) by (simp add: pn_clean_def)
  note p = pn_clean_parts [OF clean]
  have live: "gr_live (hi_graph (pn_graph s)) i \<noteq> None" "gr_live (hi_graph (pn_graph s)) j = None"
    unfolding live_contents r(2) using assms(11,13) by simp_all
  have e: "exact_embedding (hi_dimension (pn_graph s)) e" "Embedding_dimension e = hi_dimension (pn_graph s)"
    using assms(10) r(3) by (simp_all add: exact_embedding_def)
  let ?s1 = "s\<lparr>pn_segment := (pn_segment s)\<lparr>sg_file := (sg_file (pn_segment s))\<lparr>fl_bytes := pn_bytes s @ floats_to_bytes (as_slice e)\<rparr>\<rparr>\<rparr>"
  have room: "pn_room (Suc 1) s" using assms(9) by (simp add: numeral_2_eq_2)
  note refused = refused_insert [OF clean room e(2) live(1)]
  have "\<exists>s2. Pn_insert ln_f R C j e' ?s1 = (Inr (), s2) \<and> fl_faults (sg_file (pn_segment s2)) = []"
    using p(5,6,7) refused(2) assms(6,12) r(3) live(2)
    by (intro Pn_insert_succeeds [OF p(2,4)]) (simp_all add: pn_ok_def)
  then obtain s2 where s2: "Pn_insert ln_f R C j e' ?s1 = (Inr (), s2)" by blast
  have "\<exists>s3 dir. Pn_open R C (pn_dir s2) = (Inr s3, dir) \<and> hnsw_contents (pn_graph s2) j = Some e' \<and>
      hnsw_contents (pn_graph s3) j = Some e"
    by (rule insert_over_orphan [OF clean e(1) _ _ _ _ s2]) (use refused(2) in simp_all)
  then show ?thesis using refused(1) s2 by blast
qed

lemma refused_insert_misplaces_next_witness:
  "\<exists>s s1 s2 s3 dir. Pn_insert (\<lambda>x. x) mem_redb hnsw_codecs (VectorId 7) vec_one s = (Inl (DuplicateId (VectorId 7)), s1) \<and>
     Pn_insert (\<lambda>x. x) mem_redb hnsw_codecs (VectorId 8) vec_zero s1 = (Inr (), s2) \<and>
     Pn_open mem_redb hnsw_codecs (pn_dir s2) = (Inr s3, dir) \<and>
     hnsw_contents (pn_graph s2) (VectorId 8) = Some vec_zero \<and> hnsw_contents (pn_graph s3) (VectorId 8) = Some vec_one"
proof -
  obtain s where s: "mem_reach calls_one s" "fl_faults (sg_file (pn_segment s)) = []" "pn_room 2 s"
    by (rule mem_reach_one) (rule that)
  have "spec_run (Dimension 1) calls_one (VectorId 7) \<noteq> None" "spec_run (Dimension 1) calls_one (VectorId 8) = None"
    unfolding small_specs(1) by simp_all
  from refused_insert_misplaces_next [OF mem_redb_ok hnsw_codecs_fine config_ok_default small_facts(1) s small_facts(3) this(1) small_facts(4) this(2)]
  show ?thesis by blast
qed

end
