(* ===== verification/Hnsw_Termination.thy ===== *)
theory Hnsw_Termination
  imports Hnsw_Search
begin

text \<open>
  How long the loops of a graph search run. A round is one pass of the loop in the source, the identity where the source
  leaves the loop; the loops are iterations of rounds, with a bound that depends on the number of nodes only.
\<close>

definition greedy_round ::
  "HnswGraph \<Rightarrow> f32 list \<Rightarrow> Metric \<Rightarrow> nat \<Rightarrow> NodeIdx \<times> Score \<Rightarrow> NodeIdx \<times> Score" where
  "greedy_round graph query metric layer st =
     (case foldl (greedy_step graph query metric) (fst st, snd st, False) (neighbors graph (fst st) layer) of
        (current, score, improved) \<Rightarrow> (current, score))"

definition beam_round ::
  "HnswGraph \<Rightarrow> f32 list \<Rightarrow> Metric \<Rightarrow> nat \<Rightarrow> nat \<Rightarrow> (VectorId \<Rightarrow> bool) \<Rightarrow>
   bool list \<times> Candidate list \<times> Candidate list \<Rightarrow> bool list \<times> Candidate list \<times> Candidate list" where
  "beam_round graph query metric ef layer is_admissible st =
     (case st of
        (visited, [], result) \<Rightarrow> st
      | (visited, candidate # frontier, result) \<Rightarrow>
          if ef \<le> length result \<and> f32_lt (score_value (cd_score candidate)) (worst_in_result result) then st
          else foldl (beam_step graph query metric ef is_admissible) (visited, frontier, result)
                 (neighbors graph (cd_node candidate) layer))"

lemma greedy_keys_bound: "card {k \<in> greedy_keys graph query metric. P k} \<le> node_count graph + 1"
proof -
  have "card (greedy_keys graph query metric) \<le> card {..node_count graph}"
    unfolding greedy_keys_def by (rule card_image_le) simp
  moreover have "card {k \<in> greedy_keys graph query metric. P k} \<le> card (greedy_keys graph query metric)"
    by (rule card_mono) auto
  ultimately show ?thesis by simp
qed

lemma greedy_rounds:
  "\<exists>n \<le> card {k \<in> greedy_keys graph query metric. greedy_key graph (fst st) (snd st) < k}.
     greedy_layer graph query metric layer st = (greedy_round graph query metric layer ^^ n) st \<and>
     greedy_round graph query metric layer (greedy_layer graph query metric layer st) =
       greedy_layer graph query metric layer st"
proof (induction graph query metric layer st rule: greedy_layer.induct)
  case (1 graph query metric layer c s)
  obtain c' s' imp where f: "foldl (greedy_step graph query metric) (c, s, False) (neighbors graph c layer) = (c', s', imp)"
    by (cases "foldl (greedy_step graph query metric) (c, s, False) (neighbors graph c layer)")
  note k = greedy_steps_key [OF f]
  have round: "greedy_round graph query metric layer (c, s) = (c', s')" by (simp add: greedy_round_def f)
  show ?case
  proof (cases imp)
    case False
    with k have "greedy_layer graph query metric layer (c, s) = (c, s)" by (subst greedy_layer.simps) (simp add: f)
    moreover have "greedy_round graph query metric layer (c, s) = (c, s)" using round k False by simp
    ultimately show ?thesis by (intro exI [of _ 0]) simp
  next
    case True
    have layer: "greedy_layer graph query metric layer (c, s) = greedy_layer graph query metric layer (c', s')"
      using True by (subst greedy_layer.simps) (simp add: f)
    let ?A = "\<lambda>c s. {k \<in> greedy_keys graph query metric. greedy_key graph c s < k}"
    have "greedy_key graph c' s' \<in> ?A c s - ?A c' s'"
      using k True greedy_key_mem [of graph c' metric query] by auto
    moreover have "?A c' s' \<subseteq> ?A c s" using k True by auto
    ultimately have "?A c' s' \<subset> ?A c s" by blast
    then have less: "card (?A c' s') < card (?A c s)" by (intro psubset_card_mono) simp_all
    obtain n where n: "n \<le> card (?A c' s')"
      "greedy_layer graph query metric layer (c', s') = (greedy_round graph query metric layer ^^ n) (c', s')"
      "greedy_round graph query metric layer (greedy_layer graph query metric layer (c', s')) =
        greedy_layer graph query metric layer (c', s')"
      using 1 [OF f [symmetric] refl True] by auto
    have "(greedy_round graph query metric layer ^^ Suc n) (c, s) = (greedy_round graph query metric layer ^^ n) (c', s')"
      by (simp add: funpow_swap1 round)
    then show ?thesis using n less by (intro exI [of _ "Suc n"]) (simp add: layer)
  qed
qed

lemma beam_rounds:
  "\<exists>n \<le> 2 * unvisited (fst st) + length (fst (snd st)).
     beam_loop graph query metric ef layer adm st =
       snd (snd ((beam_round graph query metric ef layer adm ^^ n) st)) \<and>
     beam_round graph query metric ef layer adm ((beam_round graph query metric ef layer adm ^^ n) st) =
       (beam_round graph query metric ef layer adm ^^ n) st"
proof (induction graph query metric ef layer adm st rule: beam_loop.induct)
  case (1 graph query metric ef layer adm v r)
  show ?case by (intro exI [of _ 0]) (simp add: beam_loop.simps beam_round_def)
next
  case (2 graph query metric ef layer adm v c f r)
  let ?round = "beam_round graph query metric ef layer adm" and ?st = "(v, c # f, r)"
  show ?case
  proof (cases "ef \<le> length r \<and> f32_lt (score_value (cd_score c)) (worst_in_result r)")
    case True
    then show ?thesis by (intro exI [of _ 0]) (simp add: beam_loop.simps beam_round_def)
  next
    case False
    obtain v' f' r' where s: "foldl (beam_step graph query metric ef adm) (v, f, r)
        (neighbors graph (cd_node c) layer) = (v', f', r')"
      by (cases "foldl (beam_step graph query metric ef adm) (v, f, r) (neighbors graph (cd_node c) layer)")
    have round: "?round ?st = (v', f', r')" using False s by (auto simp: beam_round_def)
    have loop: "beam_loop graph query metric ef layer adm ?st = beam_loop graph query metric ef layer adm (v', f', r')"
      using False s by (subst beam_loop.simps) auto
    obtain n where n: "n \<le> 2 * unvisited v' + length f'"
      "beam_loop graph query metric ef layer adm (v', f', r') = snd (snd ((?round ^^ n) (v', f', r')))"
      "?round ((?round ^^ n) (v', f', r')) = (?round ^^ n) (v', f', r')"
      using 2 [OF False] unfolding s by auto
    have "(?round ^^ Suc n) ?st = (?round ^^ n) (v', f', r')" by (simp add: funpow_swap1 round)
    then show ?thesis using n beam_steps_measure [OF s] loop by (intro exI [of _ "Suc n"]) simp
  qed
qed

text \<open>
  C11. The loops of a graph search terminate, soon. On any graph, well-formed or not, the greedy walk of a layer reaches a node
  without a closer neighbour after at most one round more than there are nodes; and the beam search of a layer stops,
  with its frontier empty or hopeless, after at most twice as many rounds as there are nodes and one.
\<close>

theorem search_loops_terminate:
  "(\<exists>n \<le> node_count graph + 1.
      greedy_layer graph query metric layer st = (greedy_round graph query metric layer ^^ n) st \<and>
      greedy_round graph query metric layer (greedy_layer graph query metric layer st) =
        greedy_layer graph query metric layer st) \<and>
   (\<exists>n \<le> 2 * node_count graph + 1. \<exists>visited frontier result.
      (beam_round graph query metric ef layer adm ^^ n) (beam_init graph query metric entry adm) = (visited, frontier, result) \<and>
      beam_round graph query metric ef layer adm (visited, frontier, result) = (visited, frontier, result) \<and>
      beam_search graph query metric entry ef layer adm = sort_by cand_desc result)"
proof
  obtain n where n: "n \<le> card {k \<in> greedy_keys graph query metric. greedy_key graph (fst st) (snd st) < k}"
    "greedy_layer graph query metric layer st = (greedy_round graph query metric layer ^^ n) st \<and>
      greedy_round graph query metric layer (greedy_layer graph query metric layer st) = greedy_layer graph query metric layer st"
    using greedy_rounds by blast
  then have "n \<le> node_count graph + 1" using greedy_keys_bound le_trans by blast
  with n(2) show "\<exists>n \<le> node_count graph + 1.
      greedy_layer graph query metric layer st = (greedy_round graph query metric layer ^^ n) st \<and>
      greedy_round graph query metric layer (greedy_layer graph query metric layer st) =
        greedy_layer graph query metric layer st" by blast
  let ?init = "beam_init graph query metric entry adm"
  have "unvisited v \<le> length v" for v by (simp add: unvisited_def)
  from this [of "fst ?init"] have "2 * unvisited (fst ?init) + length (fst (snd ?init)) \<le> 2 * node_count graph + 1"
    by (simp add: beam_init_def)
  moreover obtain n where "n \<le> 2 * unvisited (fst ?init) + length (fst (snd ?init))"
    "beam_loop graph query metric ef layer adm ?init = snd (snd ((beam_round graph query metric ef layer adm ^^ n) ?init))"
    "beam_round graph query metric ef layer adm ((beam_round graph query metric ef layer adm ^^ n) ?init) =
      (beam_round graph query metric ef layer adm ^^ n) ?init"
    using beam_rounds by blast
  ultimately show "\<exists>n \<le> 2 * node_count graph + 1. \<exists>visited frontier result.
      (beam_round graph query metric ef layer adm ^^ n) ?init = (visited, frontier, result) \<and>
      beam_round graph query metric ef layer adm (visited, frontier, result) = (visited, frontier, result) \<and>
      beam_search graph query metric entry ef layer adm = sort_by cand_desc result"
    by (intro exI [of _ n] conjI exI [of _ "fst ((beam_round graph query metric ef layer adm ^^ n) ?init)"]
        exI [of _ "fst (snd ((beam_round graph query metric ef layer adm ^^ n) ?init))"]
        exI [of _ "snd (snd ((beam_round graph query metric ef layer adm ^^ n) ?init))"])
      (simp_all add: beam_search_eq)
qed

end
