(* ===== verification/Collection_Life.thy ===== *)
theory Collection_Life
  imports Persistent_Collection
begin

text \<open>
  The life of a collection on disk: it is opened or created, serves requests, and is reopened any number of times.
  Both kinds refine the abstract machine of three maps throughout.
\<close>

section \<open>The environment\<close>

definition env_ok :: "'d Env \<Rightarrow> ('d \<Rightarrow> tables) \<Rightarrow> bool" where
  "env_ok E view \<longleftrightarrow> redb_ok (env_redb E) view \<and> codec_ok (env_payload E) \<and> lex_codecs_ok (env_lexical E) \<and>
     codecs_ok (env_hnsw E)"

definition env_total :: "'d Env \<Rightarrow> bool" where
  "env_total E \<longleftrightarrow> redb_total (env_redb E) \<and> codec_total (env_payload E) \<and> lex_codecs_total (env_lexical E) \<and>
     codecs_total (env_hnsw E)"

definition mem_env :: "tables Env" where
  "mem_env = \<lparr>env_redb = mem_redb, env_payload = payload_codec, env_lexical = lex_codecs, env_hnsw = hnsw_codecs,
     env_unicode = ascii, env_ln = (\<lambda>x. x), env_fmt_id = (\<lambda>_. [])\<rparr>"

lemma mem_env_ok: "env_ok mem_env (\<lambda>t. t)" "env_total mem_env"
  using mem_redb_ok payload_codec_ok lex_codecs_fine hnsw_codecs_fine by (simp_all add: env_ok_def env_total_def mem_env_def)

lemma env_parts:
  assumes "env_ok E view" "env_total E"
  shows "redb_ok (env_redb E) view" "redb_total (env_redb E)" "codec_ok (env_payload E)" "codec_total (env_payload E)"
    "lex_codecs_ok (env_lexical E)" "lex_codecs_total (env_lexical E)" "codecs_ok (env_hnsw E)" "codecs_total (env_hnsw E)"
  using assms by (simp_all add: env_ok_def env_total_def)

section \<open>A collection in good order\<close>

definition stores_good :: "'d Env \<Rightarrow> ('d \<Rightarrow> tables) \<Rightarrow> ('i, 'd PersistentLexicalIndex, 'd PersistentPayloadStore) Collection \<Rightarrow> bool" where
  "stores_good E view c \<longleftrightarrow> pl_ready (env_redb E) (env_lexical E) view (col_lexical c) \<and>
     pp_ready (env_redb E) (env_payload E) view (col_payloads c)"

definition kind_good :: "'d Env \<Rightarrow> ('d \<Rightarrow> tables) \<Rightarrow> Metric \<Rightarrow> Dimension \<Rightarrow> 'd CollectionKind \<Rightarrow> bool" where
  "kind_good E view m d k \<longleftrightarrow> (case k of
     Kind_Flat c \<Rightarrow> pf_ok (env_redb E) view (col_index c) \<and> pf_metric (col_index c) = m \<and> pf_dimension (col_index c) = d \<and>
       stores_good E view c
   | Kind_Hnsw c \<Rightarrow> pn_clean (env_redb E) (env_hnsw E) view (col_index c) \<and>
       cfg_metric (hi_config (pn_graph (col_index c))) = m \<and> hi_dimension (pn_graph (col_index c)) = d \<and> stores_good E view c)"

definition kind_room :: "nat \<Rightarrow> 'd CollectionKind \<Rightarrow> bool" where
  "kind_room n k = (case k of Kind_Flat c \<Rightarrow> pf_room n (col_index c) | Kind_Hnsw c \<Rightarrow> pn_room n (col_index c))"

text \<open>The three maps of a collection.\<close>

definition kind_view :: "'d Env \<Rightarrow> ('d \<Rightarrow> tables) \<Rightarrow> 'd CollectionKind \<Rightarrow> col_spec" where
  "kind_view E view k = (case k of
     Kind_Flat c \<Rightarrow> \<lparr>sp_vectors = pf_contents view (col_index c), sp_docs = pl_bags (env_lexical E) view (col_lexical c),
       sp_payloads = pp_payloads (env_payload E) view (col_payloads c)\<rparr>
   | Kind_Hnsw c \<Rightarrow> \<lparr>sp_vectors = pn_contents (col_index c), sp_docs = pl_bags (env_lexical E) view (col_lexical c),
       sp_payloads = pp_payloads (env_payload E) view (col_payloads c)\<rparr>)"

lemma index_fields:
  "vi_dimension (Pf_index R) = pf_dimension" "vi_metric (Pf_index R) = pf_metric"
  "vi_dimension (Pn_index ln_f R C) = (\<lambda>s. hi_dimension (pn_graph s))"
  "vi_metric (Pn_index ln_f R C) = (\<lambda>s. cfg_metric (hi_config (pn_graph s)))"
  by (simp_all add: Pf_index_def Pn_index_def)

lemma kind_good_flat:
  "kind_good E view m d (Kind_Flat c) = flat_disk.good (env_redb E) view (env_lexical E) (env_payload E) d m c"
  "kind_view E view (Kind_Flat c) = flat_disk.col_view view (env_lexical E) (env_payload E) c"
  by (auto simp: kind_good_def kind_view_def stores_good_def flat_disk.good_def flat_disk.col_ok_def flat_disk.col_view_def
      index_fields)

lemma kind_good_hnsw:
  "kind_good E view m d (Kind_Hnsw c) =
     hnsw_disk.good (env_ln E) (env_redb E) (env_hnsw E) view (env_lexical E) (env_payload E) d m c"
  "kind_view E view (Kind_Hnsw c) = hnsw_disk.col_view (env_lexical E) view (env_payload E) c"
  by (auto simp: kind_good_def kind_view_def stores_good_def hnsw_disk.good_def hnsw_disk.col_ok_def hnsw_disk.col_view_def
      index_fields)

section \<open>Requests\<close>

fun kind_step :: "'d Env \<Rightarrow> col_op \<Rightarrow> 'd CollectionKind \<Rightarrow> col_reply \<times> 'd CollectionKind" where
  "kind_step E (Upsert i e doc payload) k = (case Kind_upsert E i e doc payload k of (r, k') \<Rightarrow> (reply (\<lambda>_. Done) r, k'))"
| "kind_step E (Delete i) k = (case Kind_delete E i k of (r, k') \<Rightarrow> (reply Deleted r, k'))"
| "kind_step E (Delete_by_filter f) k = (case Kind_delete_by_filter E f k of (r, k') \<Rightarrow> (reply Deleted_count r, k'))"

lemma kind_step_kinds:
  "kind_step E a (Kind_Flat c) = apsnd Kind_Flat (col_step (env_pf E) (env_pl E) (env_pp E) a c)"
  "kind_step E a (Kind_Hnsw h) = apsnd Kind_Hnsw (col_step (env_pn E) (env_pl E) (env_pp E) a h)"
  by (cases a; simp add: Kind_upsert_def Kind_delete_def Kind_delete_by_filter_def split: prod.split)+

text \<open>What the service lets through: a finite embedding of the collection's dimension.\<close>

definition exact_op :: "Dimension \<Rightarrow> col_op \<Rightarrow> bool" where
  "exact_op d a \<longleftrightarrow> (case a of Upsert _ e _ _ \<Rightarrow> exact_embedding d e | _ \<Rightarrow> True)"

text \<open>A flat collection takes any request; an HNSW one leaves the record of a refused vector behind in its segment.\<close>

fun is_flat :: "'d CollectionKind \<Rightarrow> bool" where
  "is_flat (Kind_Flat c) = True"
| "is_flat (Kind_Hnsw c) = False"

lemma kind_step_admitted:
  assumes "kind_good E view m d k" "kind_room (Suc n) k" "is_flat k \<or> exact_op d a"
  shows "\<exists>r k'. kind_step E a k = (r, k') \<and> kind_good E view m d k' \<and> kind_room n k' \<and> is_flat k' = is_flat k \<and>
    (r, kind_view E view k') = col_spec_step (env_unicode E) d a (kind_view E view k)"
proof (cases k)
  case (Kind_Flat c)
  have room: "pf_room (Suc n) (col_index c)" using assms(2) by (simp add: Kind_Flat kind_room_def)
  have adm: "flat_disk.step_admits d a" by (simp add: flat_disk.step_admits_def split: col_op.split)
  obtain r c' where "col_step (env_pf E) (env_pl E) (env_pp E) a c = (r, c')" "kind_good E view m d (Kind_Flat c')"
    "pf_room n (col_index c')" "(r, kind_view E view (Kind_Flat c')) = col_spec_step (env_unicode E) d a (kind_view E view k)"
    using flat_disk.step_refines [OF assms(1) [unfolded Kind_Flat kind_good_flat] room adm]
    unfolding kind_good_flat Kind_Flat by blast
  then show ?thesis by (simp add: Kind_Flat kind_step_kinds kind_room_def)
next
  case (Kind_Hnsw c)
  have room: "pn_room (Suc n) (col_index c)" using assms(2) by (simp add: Kind_Hnsw kind_room_def)
  have adm: "hnsw_disk.step_admits d a" using assms(3) by (simp add: Kind_Hnsw hnsw_disk.step_admits_def exact_op_def split: col_op.splits)
  obtain r c' where "col_step (env_pn E) (env_pl E) (env_pp E) a c = (r, c')" "kind_good E view m d (Kind_Hnsw c')"
    "pn_room n (col_index c')" "(r, kind_view E view (Kind_Hnsw c')) = col_spec_step (env_unicode E) d a (kind_view E view k)"
    using hnsw_disk.step_refines [OF assms(1) [unfolded Kind_Hnsw kind_good_hnsw] room adm]
    unfolding kind_good_hnsw Kind_Hnsw by blast
  then show ?thesis by (simp add: Kind_Hnsw kind_step_kinds kind_room_def)
qed

lemma kind_step_refines:
  assumes "kind_good E view m d k" "kind_room (Suc n) k" "exact_op d a"
  shows "\<exists>r k'. kind_step E a k = (r, k') \<and> kind_good E view m d k' \<and> kind_room n k' \<and>
    (r, kind_view E view k') = col_spec_step (env_unicode E) d a (kind_view E view k)"
  using kind_step_admitted [OF assms(1,2) disjI2 [OF assms(3)]] by blast

section \<open>Opening and restarts\<close>

definition empty_dir :: "'d Collection_dir" where
  "empty_dir = \<lparr>dir_meta = None, dir_vector = \<lparr>sd_segment = None, sd_catalog = None, sd_faults = []\<rparr>,
     dir_lexical = None, dir_payload = None\<rparr>"

lemma open_stores_spec:
  assumes "env_ok E view" "env_total E" "lex_path_ok (env_lexical E) view (dir_lexical dir) D"
    and "path_ok (env_payload E) view (dir_payload dir)"
  shows "\<exists>c dir'. open_stores E index dir = (Inr c, dir') \<and> col_index c = index \<and> stores_good E view c \<and>
    pl_bags (env_lexical E) view (col_lexical c) = D \<and>
    pp_payloads (env_payload E) view (col_payloads c) = path_payloads (env_payload E) view (dir_payload dir) \<and>
    dir' = dir\<lparr>dir_lexical := Some (pl_db (col_lexical c)), dir_payload := Some (pp_db (col_payloads c))\<rparr>"
proof -
  note e = env_parts [OF assms(1,2)]
  obtain l where l: "Pl_open (env_redb E) (env_lexical E) (dir_lexical dir) = (Inr l, Some (pl_db l))"
    "pl_ready (env_redb E) (env_lexical E) view l" "pl_bags (env_lexical E) view l = D"
    using Pl_open_total [OF e(1,2,5,6) assms(3)] by blast
  obtain p where p: "Pp_open (env_redb E) (dir_payload dir) = (Inr p, Some (pp_db p))"
    "pp_ready (env_redb E) (env_payload E) view p"
    "pp_payloads (env_payload E) view p = path_payloads (env_payload E) view (dir_payload dir)"
    using Pp_open_total [OF e(1,2,3,4) assms(4)] by blast
  show ?thesis by (simp add: open_stores_def l p Collection_new_def stores_good_def)
qed

lemma stores_reopen:
  assumes "env_ok E view" "env_total E" "stores_good E view c"
    and "dir_lexical dir = Some (pl_db (col_lexical c))" "dir_payload dir = Some (pp_db (col_payloads c))"
  shows "\<exists>c' dir'. open_stores E index dir = (Inr c', dir') \<and> col_index c' = index \<and> stores_good E view c' \<and>
    pl_bags (env_lexical E) view (col_lexical c') = pl_bags (env_lexical E) view (col_lexical c) \<and>
    pp_payloads (env_payload E) view (col_payloads c') = pp_payloads (env_payload E) view (col_payloads c) \<and>
    dir' = dir\<lparr>dir_lexical := Some (pl_db (col_lexical c')), dir_payload := Some (pp_db (col_payloads c'))\<rparr>"
proof -
  have l: "pl_ok (env_redb E) (env_lexical E) view (col_lexical c)" and p: "pp_ok (env_redb E) (env_payload E) view (col_payloads c)"
    using assms(3) by (simp_all add: stores_good_def pl_ready_def pp_ready_def)
  have "path_ok (env_payload E) view (dir_payload dir)" "path_payloads (env_payload E) view (dir_payload dir) =
      pp_payloads (env_payload E) view (col_payloads c)"
    using p by (simp_all add: assms(5) pp_ok_def path_ok_def path_payloads_def path_view_def pp_payloads_def pp_table_def)
  with open_stores_spec [OF assms(1,2) lex_path_store [OF l, folded assms(4)], of index] show ?thesis by simp
qed

text \<open>The watermark a reopened flat index takes from the catalog is the one it had.\<close>

lemma Pf_reopen:
  assumes "pf_ok R view s"
  shows "\<exists>s' dir'. Pf_open R (pf_metric s) (pf_dimension s) (pf_dir s) = (Inr s', dir') \<and> pf_ok R view s' \<and>
    pf_metric s' = pf_metric s \<and> pf_dimension s' = pf_dimension s \<and> pf_contents view s' = pf_contents view s \<and>
    pf_record_count s' = pf_record_count s"
proof -
  let ?m = "pf_metric s" and ?d = "pf_dimension s" and ?n = "pf_record_count s"
  have R: "redb_ok R view" "redb_total R" "pf_ready view s" using assms by (simp_all add: pf_ok_def)
  have dur: "pf_durable view s" using R(3) by (simp add: pf_ready_def)
  then have cat: "catalog_ok ?m ?d ?n (view (pf_catalog s))" and n: "?n < 2 ^ 64"
    by (simp_all add: pf_durable_def disk_ok_def catalog_ok_def)
  note ok = durable_store_ok [OF dur]
  obtain s' dir' where s': "Pf_open R ?m ?d (pf_dir s) = (Inr s', dir')"
    using Pf_open_store_total [OF R(1,2) ok] by auto
  note spec = Pf_open_store [OF R(1) ok s']
  obtain c' where c': "Catalog_open R (pf_catalog s) = Inr (c', \<lparr>mf_format_version = FORMAT_VERSION,
      mf_dimension = word_of_nat (Dimension_get ?d), mf_metric = ?m, mf_record_count = word_of_nat ?n\<rparr>)"
    using Catalog_open_spec [OF R(1) cat] s' by (cases "Catalog_open R (pf_catalog s)") (auto simp: Pf_open_def)
  obtain rs path fs where seg: "Segment_open ?m (Dimension_get ?d) ?n (sd_faults (pf_dir s)) (sd_segment (pf_dir s)) = (rs, (path, fs))"
    by (metis prod.collapse)
  have "pf_record_count s' = ?n"
    using Pf_open_existing [OF pf_dir_simps(2) n c' seg] s'
    by (cases rs; cases "Catalog_live_count R c'") auto
  then show ?thesis using s' spec R by (auto simp: pf_ok_def store_contents_pf_dir)
qed

lemma Pn_reopen:
  assumes "pn_clean R C view s"
  shows "\<exists>s' dir'. Pn_open R C (pn_dir s) = (Inr s', dir') \<and> pn_clean R C view s' \<and> pn_graph s' = pn_graph s"
proof -
  note p = pn_clean_parts [OF assms]
  have dir: "pn_dir_ok view C (pn_graph s) (pn_dir s)" using p(5) by (simp add: pn_dir_ok_dir pn_ok_def)
  obtain r dir' where o: "Pn_open R C (pn_dir s) = (r, dir')" by fastforce
  note spec = Pn_open_spec [OF p(1,3) dir o]
  have "redb_total R \<and> sd_faults (pn_dir s) = []" using p(2) by (simp add: pn_dir_def)
  then obtain s' where s': "r = Inr s'" using conjunct2 [OF conjunct2 [OF spec]] by blast
  then have "pn_ok view C s'" "pn_graph s' = pn_graph s" using conjunct1 [OF conjunct2 [OF spec]] by blast+
  moreover have "fl_faults (sg_file (pn_segment s')) = []" by (rule Pn_open_faults [OF o [unfolded s']])
  ultimately show ?thesis using s' o p by (simp add: pn_clean_def)
qed

text \<open>A restart opens the directory again as the registry does, by the index type of the collection.\<close>

definition kind_restart ::
  "'d Env \<Rightarrow> Metric \<Rightarrow> Dimension \<Rightarrow> 'd CollectionKind \<Rightarrow> ServerError + 'd CollectionKind" where
  "kind_restart E m d k = (case k of
     Kind_Flat c \<Rightarrow> fst (open_flat E m d (kind_dir k empty_dir))
   | Kind_Hnsw c \<Rightarrow> fst (open_hnsw E (kind_dir k empty_dir)))"

definition same_kind :: "'d CollectionKind \<Rightarrow> 'd CollectionKind \<Rightarrow> bool" where
  "same_kind k k' \<longleftrightarrow> (case (k, k') of (Kind_Flat _, Kind_Flat _) \<Rightarrow> True | (Kind_Hnsw _, Kind_Hnsw _) \<Rightarrow> True | _ \<Rightarrow> False)"

lemma kind_reopens:
  assumes "env_ok E view" "env_total E" "kind_good E view m d k"
  shows "\<exists>k' dir'. (case k of Kind_Flat c \<Rightarrow> open_flat E m d (kind_dir k dir) | Kind_Hnsw c \<Rightarrow> open_hnsw E (kind_dir k dir)) =
      (Inr k', dir') \<and> kind_good E view m d k' \<and> kind_view E view k' = kind_view E view k \<and> same_kind k k' \<and>
      (\<forall>n. kind_room n k \<longrightarrow> kind_room n k') \<and> dir_meta dir' = dir_meta dir"
proof (cases k)
  case (Kind_Flat c)
  let ?dir = "kind_dir k dir"
  have c: "pf_ok (env_redb E) view (col_index c)" "pf_metric (col_index c) = m" "pf_dimension (col_index c) = d" "stores_good E view c"
    using assms(3) by (simp_all add: Kind_Flat kind_good_def)
  obtain s' v where s': "Pf_open (env_redb E) m d (pf_dir (col_index c)) = (Inr s', v)" "pf_ok (env_redb E) view s'"
    "pf_metric s' = m" "pf_dimension s' = d" "pf_contents view s' = pf_contents view (col_index c)"
    "pf_record_count s' = pf_record_count (col_index c)"
    using Pf_reopen [OF c(1)] c(2,3) by auto
  obtain c' dir' where c': "open_stores E s' (?dir\<lparr>dir_vector := v\<rparr>) = (Inr c', dir')" "col_index c' = s'" "stores_good E view c'"
    "pl_bags (env_lexical E) view (col_lexical c') = pl_bags (env_lexical E) view (col_lexical c)"
    "pp_payloads (env_payload E) view (col_payloads c') = pp_payloads (env_payload E) view (col_payloads c)"
    "dir' = ?dir\<lparr>dir_vector := v, dir_lexical := Some (pl_db (col_lexical c')), dir_payload := Some (pp_db (col_payloads c'))\<rparr>"
    using stores_reopen [OF assms(1,2) c(4), of "?dir\<lparr>dir_vector := v\<rparr>" s'] by (auto simp: Kind_Flat kind_dir_def)
  have "open_flat E m d ?dir = (Inr (Kind_Flat c'), dir')"
    using s'(1) c'(1) by (simp add: open_flat_def) (simp add: Kind_Flat kind_dir_def)
  then show ?thesis using s' c' c
    by (simp add: Kind_Flat kind_good_def kind_view_def kind_room_def pf_room_def same_kind_def) (simp add: kind_dir_def)
next
  case (Kind_Hnsw c)
  let ?dir = "kind_dir k dir"
  have c: "pn_clean (env_redb E) (env_hnsw E) view (col_index c)" "stores_good E view c"
    using assms(3) by (simp_all add: Kind_Hnsw kind_good_def)
  obtain s' v where s': "Pn_open (env_redb E) (env_hnsw E) (pn_dir (col_index c)) = (Inr s', v)"
    "pn_clean (env_redb E) (env_hnsw E) view s'" "pn_graph s' = pn_graph (col_index c)"
    using Pn_reopen [OF c(1)] by auto
  obtain c' dir' where c': "open_stores E s' (?dir\<lparr>dir_vector := v\<rparr>) = (Inr c', dir')" "col_index c' = s'" "stores_good E view c'"
    "pl_bags (env_lexical E) view (col_lexical c') = pl_bags (env_lexical E) view (col_lexical c)"
    "pp_payloads (env_payload E) view (col_payloads c') = pp_payloads (env_payload E) view (col_payloads c)"
    "dir' = ?dir\<lparr>dir_vector := v, dir_lexical := Some (pl_db (col_lexical c')), dir_payload := Some (pp_db (col_payloads c'))\<rparr>"
    using stores_reopen [OF assms(1,2) c(2), of "?dir\<lparr>dir_vector := v\<rparr>" s'] by (auto simp: Kind_Hnsw kind_dir_def)
  have "open_hnsw E ?dir = (Inr (Kind_Hnsw c'), dir')"
    using s'(1) c'(1) by (simp add: open_hnsw_def) (simp add: Kind_Hnsw kind_dir_def)
  then show ?thesis using s' c' c assms(3)
    by (simp add: Kind_Hnsw kind_good_def kind_view_def kind_room_def pn_room_def pn_contents_def same_kind_def) (simp add: kind_dir_def)
qed

lemma same_kind_flat: "same_kind k k' \<Longrightarrow> is_flat k' = is_flat k"
  by (cases k; cases k') (simp_all add: same_kind_def)

lemma kind_restart_ok:
  assumes "env_ok E view" "env_total E" "kind_good E view m d k"
  shows "\<exists>k'. kind_restart E m d k = Inr k' \<and> kind_good E view m d k' \<and> kind_view E view k' = kind_view E view k \<and>
    (\<forall>n. kind_room n k \<longrightarrow> kind_room n k') \<and> is_flat k' = is_flat k"
  using kind_reopens [OF assms, of empty_dir] same_kind_flat by (cases k) (fastforce simp: kind_restart_def)+

text \<open>Opening a flat collection, or creating an HNSW one, where nothing is.\<close>

lemma kind_fresh:
  assumes "env_ok E view" "env_total E" "0 < Dimension_get d" "dir_vector dir = dir_vector empty_dir"
    and "dir_lexical dir = None" "dir_payload dir = None"
  shows "\<exists>k dir'. open_flat E m d dir = (Inr k, dir') \<and> kind_good E view m d k \<and> kind_view E view k = empty_spec \<and>
      (records_fit d n \<longrightarrow> kind_room n k) \<and> dir_meta dir' = dir_meta dir \<and> (\<exists>c. k = Kind_Flat c)"
    and "config_ok cfg \<Longrightarrow> \<exists>k dir'. create_hnsw E cfg d dir = (Inr k, dir') \<and> kind_good E view (cfg_metric cfg) d k \<and>
      kind_view E view k = empty_spec \<and> (records_fit d n \<longrightarrow> kind_room n k) \<and> dir_meta dir' = dir_meta dir \<and> (\<exists>c. k = Kind_Hnsw c)"
proof -
  note e = env_parts [OF assms(1,2)]
  have st: "lex_path_ok (env_lexical E) view (dir_lexical (dir\<lparr>dir_vector := v\<rparr>)) Map.empty"
    "path_ok (env_payload E) view (dir_payload (dir\<lparr>dir_vector := v\<rparr>))"
    "path_payloads (env_payload E) view (dir_payload (dir\<lparr>dir_vector := v\<rparr>)) = Map.empty" for v
    using lex_path_fresh
    by (simp_all add: assms(5,6) path_ok_def path_view_def table_of_def payload_table_ok_def path_payloads_def table_payloads_def fun_eq_iff)
  note stores = open_stores_spec [OF assms(1,2) st(1,2), unfolded st(3)]
  obtain s v where s: "Pf_open (env_redb E) m d \<lparr>sd_segment = None, sd_catalog = None, sd_faults = []\<rparr> = (Inr s, v)"
    using Pf_open_fresh_total [OF e(1,2)] by blast
  note f = Pf_open_fresh [OF e(1) assms(3) s]
  obtain c dir' where c: "open_stores E s (dir\<lparr>dir_vector := v\<rparr>) = (Inr c, dir')" "col_index c = s" "stores_good E view c"
    "pl_bags (env_lexical E) view (col_lexical c) = Map.empty" "pp_payloads (env_payload E) view (col_payloads c) = Map.empty"
    "dir_meta dir' = dir_meta dir" using stores [of s v] by auto
  have o: "open_flat E m d dir = (Inr (Kind_Flat c), dir')"
    using assms(4) by (simp add: open_flat_def s c empty_dir_def)
  show "\<exists>k dir'. open_flat E m d dir = (Inr k, dir') \<and> kind_good E view m d k \<and> kind_view E view k = empty_spec \<and>
      (records_fit d n \<longrightarrow> kind_room n k) \<and> dir_meta dir' = dir_meta dir \<and> (\<exists>c. k = Kind_Flat c)"
    unfolding o using f c e
    by (simp add: kind_good_def kind_view_def kind_room_def pf_room_def empty_spec_def pf_ok_def)
  assume cfg: "config_ok cfg"
  obtain h w where h: "Pn_create (env_redb E) (env_hnsw E) cfg d \<lparr>sd_segment = None, sd_catalog = None, sd_faults = []\<rparr> = (Inr h, w)"
    using Pn_create_total [OF e(1,2,8)] by blast
  note f = Pn_create_fresh [OF e(1,7) cfg assms(3) h]
  have clean: "fl_faults (sg_file (pn_segment h)) = []" by (rule Pn_create_faults [OF h])
  obtain c dir' where c: "open_stores E h (dir\<lparr>dir_vector := w\<rparr>) = (Inr c, dir')" "col_index c = h" "stores_good E view c"
    "pl_bags (env_lexical E) view (col_lexical c) = Map.empty" "pp_payloads (env_payload E) view (col_payloads c) = Map.empty"
    "dir_meta dir' = dir_meta dir" using stores [of h w] by auto
  have o: "create_hnsw E cfg d dir = (Inr (Kind_Hnsw c), dir')"
    using assms(4) by (simp add: create_hnsw_def h c empty_dir_def)
  show "\<exists>k dir'. create_hnsw E cfg d dir = (Inr k, dir') \<and> kind_good E view (cfg_metric cfg) d k \<and>
      kind_view E view k = empty_spec \<and> (records_fit d n \<longrightarrow> kind_room n k) \<and> dir_meta dir' = dir_meta dir \<and> (\<exists>c. k = Kind_Hnsw c)"
    unfolding o using f c e clean hnsw_new_ok(2) [of cfg d]
    by (simp add: kind_good_def kind_view_def kind_room_def pn_room_def empty_spec_def pn_clean_def pn_contents_def)
qed

section \<open>The life of a collection\<close>

datatype life_event = Request col_op | Restart

fun kind_life ::
  "'d Env \<Rightarrow> Metric \<Rightarrow> Dimension \<Rightarrow> life_event list \<Rightarrow> 'd CollectionKind \<Rightarrow> ServerError + col_reply list \<times> 'd CollectionKind" where
  "kind_life E m d [] k = Inr ([], k)"
| "kind_life E m d (Request a # es) k =
     (case kind_step E a k of (r, k') \<Rightarrow> map_res (\<lambda>(rs, k). (r # rs, k)) (kind_life E m d es k'))"
| "kind_life E m d (Restart # es) k = res_bind (kind_restart E m d k) (kind_life E m d es)"

fun requests :: "life_event list \<Rightarrow> col_op list" where
  "requests [] = []"
| "requests (Request a # es) = a # requests es"
| "requests (Restart # es) = requests es"

lemma kind_life_refines:
  assumes "env_ok E view" "env_total E"
  shows "kind_good E view m d k \<Longrightarrow> kind_room (length (requests es)) k \<Longrightarrow>
    is_flat k \<or> list_all (exact_op d) (requests es) \<Longrightarrow>
    \<exists>rs k'. kind_life E m d es k = Inr (rs, k') \<and> kind_good E view m d k' \<and>
      (rs, kind_view E view k') = run_steps (col_spec_step (env_unicode E) d) (requests es) (kind_view E view k)"
proof (induction es arbitrary: k)
  case (Cons e es)
  show ?case
  proof (cases e)
    case (Request a)
    then have a: "kind_room (Suc (length (requests es))) k" "is_flat k \<or> exact_op d a"
      "is_flat k \<or> list_all (exact_op d) (requests es)" using Cons.prems by auto
    obtain r k1 where k1: "kind_step E a k = (r, k1)" "kind_good E view m d k1" "kind_room (length (requests es)) k1"
      "is_flat k1 = is_flat k" "(r, kind_view E view k1) = col_spec_step (env_unicode E) d a (kind_view E view k)"
      using kind_step_admitted [OF Cons.prems(1) a(1,2)] by blast
    from Cons.IH [OF k1(2,3)] a(3) show ?thesis by (auto simp: Request k1(1,4) k1(5) [symmetric] split: prod.splits)
  next
    case Restart
    obtain k1 where k1: "kind_restart E m d k = Inr k1" "kind_good E view m d k1" "kind_view E view k1 = kind_view E view k"
      "kind_room (length (requests es)) k1" "is_flat k1 = is_flat k"
      using kind_restart_ok [OF assms Cons.prems(1)] Cons.prems(2) Restart by auto
    from Cons.IH [OF k1(2,4)] Cons.prems(3) show ?thesis by (simp add: Restart k1(1,3,5))
  qed
qed simp

section \<open>Properties\<close>

text \<open>
  C6. A collection on disk is three maps, for ever. Opened flat or created with an HNSW index where nothing was, then serving
  upserts, deletions and deletions by filter that fit a file, with restarts anywhere in between, it gives exactly the
  replies of the abstract machine and ends with its vectors, bags of tokens and payloads; every restart succeeds. For a
  flat collection the upserts are arbitrary, those of a wrong dimension, which are refused, included; for an HNSW
  collection they carry finite embeddings of its dimension, which is what the service checks before it upserts (the
  segment of an HNSW index takes the record before the graph validates it).
\<close>

theorem persistent_collection_refines_maps:
  assumes "env_ok E view" "env_total E" "config_ok cfg" "0 < Dimension_get d"
    and "records_fit d (length (requests es))"
    and "opened = fst (open_flat E (cfg_metric cfg) d empty_dir) \<or>
      opened = fst (create_hnsw E cfg d empty_dir) \<and> list_all (exact_op d) (requests es)"
  shows "\<exists>k rs k'. opened = Inr k \<and> kind_life E (cfg_metric cfg) d es k = Inr (rs, k') \<and>
    (rs, kind_view E view k') = run_steps (col_spec_step (env_unicode E) d) (requests es) empty_spec"
proof -
  obtain k where k: "opened = Inr k" "kind_good E view (cfg_metric cfg) d k" "kind_view E view k = empty_spec"
    "kind_room (length (requests es)) k" "is_flat k \<or> list_all (exact_op d) (requests es)"
    using assms(5,6) kind_fresh(2) [OF assms(1,2,4) _ _ _ assms(3), of empty_dir "length (requests es)"]
      kind_fresh(1) [OF assms(1,2,4), of empty_dir "cfg_metric cfg" "length (requests es)"]
    by (auto simp: empty_dir_def)
  from kind_life_refines [OF assms(1,2) k(2,4,5)] show ?thesis by (auto simp: k(1,3))
qed

text \<open>The HNSW collection is emptied across restarts; the flat one is sent a vector of another dimension.\<close>

lemma persistent_collection_refines_maps_witness:
  "(\<exists>k k'. fst (create_hnsw mem_env HnswConfig_default (Dimension 1) empty_dir) = Inr k \<and>
     kind_life mem_env Cosine (Dimension 1)
       [Request (Upsert (VectorId 7) (Embedding [0]) None None), Restart, Request (Delete (VectorId 7)), Restart,
        Request (Delete (VectorId 7))] k = Inr ([Done, Deleted True, Deleted False], k')) \<and>
   (\<exists>k k'. fst (open_flat mem_env Cosine (Dimension 1) empty_dir) = Inr k \<and>
     kind_life mem_env Cosine (Dimension 1)
       [Request (Upsert (VectorId 7) (Embedding [0, 0]) None None), Restart, Request (Delete (VectorId 7))] k =
         Inr ([Failed (Qe_Index (DimensionMismatch 1 2)), Deleted False], k'))"
proof
  let ?es = "[Request (Upsert (VectorId 7) (Embedding [0]) None None), Restart, Request (Delete (VectorId 7)), Restart,
        Request (Delete (VectorId 7))]"
  let ?es' = "[Request (Upsert (VectorId 7) (Embedding [0, 0]) None None), Restart, Request (Delete (VectorId 7))]"
  have "embedding_ok (Embedding [0])" by code_simp
  then have dims: "0 < Dimension_get (Dimension 1)" "records_fit (Dimension 1) (length (requests ?es))"
    "list_all (exact_op (Dimension 1)) (requests ?es)" "Embedding_dimension (Embedding [0]) = Dimension 1"
    "records_fit (Dimension 1) (length (requests ?es'))" "Embedding_dimension (Embedding [0, 0]) = Dimension 2"
    by (simp_all add: Dimension_get_def records_fit_def HEADER_LEN_def FILE_MAX_def exact_op_def exact_embedding_def
        Embedding_dimension_def Dimension_new_def u32_max_def)
  have cfg: "cfg_metric HnswConfig_default = Cosine" by (simp add: HnswConfig_default_def)
  note p = persistent_collection_refines_maps [OF mem_env_ok config_ok_default dims(1)]
  show "\<exists>k k'. fst (create_hnsw mem_env HnswConfig_default (Dimension 1) empty_dir) = Inr k \<and>
     kind_life mem_env Cosine (Dimension 1) ?es k = Inr ([Done, Deleted True, Deleted False], k')"
    using p [OF dims(2) disjI2 [OF conjI [OF refl dims(3)]]] dims(4) by (auto simp: cfg drop_ids_def empty_spec_def)
  show "\<exists>k k'. fst (open_flat mem_env Cosine (Dimension 1) empty_dir) = Inr k \<and>
     kind_life mem_env Cosine (Dimension 1) ?es' k =
       Inr ([Failed (Qe_Index (DimensionMismatch 1 2)), Deleted False], k')"
    using p [OF dims(5) disjI1 [OF refl]] dims(6) by (auto simp: cfg drop_ids_def empty_spec_def Dimension_get_def)
qed

end
