(* ===== verification/Registry.thy ===== *)
theory Registry
  imports Collection_Life
begin

text \<open>
  \<open>Registry\<close> of \<open>eidosdb-server/src/registry.rs\<close> and the metadata file of \<open>meta.rs\<close>. The root directory is a list of
  entries in the order \<open>read_dir\<close> delivers them; the directory of an open collection is kept as its stores leave it.
  Each system call on the root consumes one entry of a schedule of faults. The JSON of the metadata is a
  parameter; locks and reference counts, which only matter to threads, have no state here, and
  the interleaving of two creations is a sequence of the steps of \<open>create\<close>.
\<close>

section \<open>Metadata\<close>

record CollectionMeta =
  cm_name :: string
  cm_metric :: Metric
  cm_dimension :: Dimension
  cm_index_type :: IndexTypeChoice
  cm_hnsw :: "HnswConfig option"

fun next_fault :: "fault option list \<Rightarrow> fault option \<times> fault option list" where
  "next_fault [] = (None, [])"
| "next_fault (f # fs) = (f, fs)"

text \<open>\<open>fs::write\<close> may fail before it touches the file, or after truncating it and writing a part.\<close>

definition write_meta ::
  "CollectionMeta Codec \<Rightarrow> CollectionMeta \<Rightarrow> 'd Collection_dir \<times> fault option list \<Rightarrow>
   (ServerError + unit) \<times> ('d Collection_dir \<times> fault option list)" where
  "write_meta MC meta st =
     (case st of (dir, faults) \<Rightarrow>
     (case cd_enc MC meta of
        Inl e \<Rightarrow> (Inl (Sv_Serde e), (dir, faults))
      | Inr bytes \<Rightarrow>
     (case next_fault faults of
        (None, faults) \<Rightarrow> (Inr (), (dir\<lparr>dir_meta := Some bytes\<rparr>, faults))
      | (Some (Fault 0 msg), faults) \<Rightarrow> (Inl (Sv_Io msg), (dir, faults))
      | (Some (Fault (Suc n) msg), faults) \<Rightarrow> (Inl (Sv_Io msg), (dir\<lparr>dir_meta := Some (take n bytes)\<rparr>, faults)))))"

definition read_meta_file ::
  "CollectionMeta Codec \<Rightarrow> fault option list \<Rightarrow> 'd Collection_dir \<Rightarrow>
   (ServerError + CollectionMeta) \<times> fault option list" where
  "read_meta_file MC faults dir =
     (case next_fault faults of
        (Some (Fault n msg), faults) \<Rightarrow> (Inl (Sv_Io msg), faults)
      | (None, faults) \<Rightarrow>
          (case dir_meta dir of
             None \<Rightarrow> (Inl (Sv_Io ''No such file or directory''), faults)
           | Some bytes \<Rightarrow> (map_err Sv_Serde (cd_dec MC bytes), faults)))"

section \<open>State\<close>

datatype 'd Entry = Entry_other | Entry_dir "'d Collection_dir"

text \<open>\<open>None\<close>: the root directory does not exist.\<close>

record 'd Disk =
  dk_entries :: "(string \<times> 'd Entry) list option"
  dk_faults :: "fault option list"

record 'd CollectionHandle =
  ch_inner :: "'d CollectionKind"
  ch_meta :: CollectionMeta
  ch_dir :: string

record 'd Registry =
  rg_map :: "(string \<times> 'd CollectionHandle) list"
  rg_disk :: "'d Disk"

definition Registry_new :: "'d Disk \<Rightarrow> 'd Registry" where
  "Registry_new disk = \<lparr>rg_map = [], rg_disk = disk\<rparr>"

section \<open>Opening\<close>

text \<open>The arms of the match on the index type.\<close>

definition reopen_kind ::
  "'d Env \<Rightarrow> CollectionMeta \<Rightarrow> 'd Collection_dir \<Rightarrow> (ServerError + 'd CollectionKind) \<times> 'd Collection_dir" where
  "reopen_kind E meta dir =
     (case cm_index_type meta of
        Choice_Flat \<Rightarrow> open_flat E (cm_metric meta) (cm_dimension meta) dir
      | Choice_Hnsw \<Rightarrow> open_hnsw E dir)"

text \<open>One round of the loop over the directory: what cannot be read or opened is skipped.\<close>

definition open_entry ::
  "'d Env \<Rightarrow> CollectionMeta Codec \<Rightarrow> string \<times> 'd Entry \<Rightarrow> fault option list \<Rightarrow>
   'd CollectionHandle option \<times> 'd Entry \<times> fault option list" where
  "open_entry E MC entry faults =
     (case next_fault faults of
        (Some _, faults) \<Rightarrow> (None, snd entry, faults)
      | (None, faults) \<Rightarrow>
     (case snd entry of
        Entry_other \<Rightarrow> (None, Entry_other, faults)
      | Entry_dir dir \<Rightarrow>
          if dir_meta dir = None then (None, Entry_dir dir, faults)
          else
            (case read_meta_file MC faults dir of
               (Inl _, faults) \<Rightarrow> (None, Entry_dir dir, faults)
             | (Inr meta, faults) \<Rightarrow>
            (case reopen_kind E meta dir of
               (Inl _, dir) \<Rightarrow> (None, Entry_dir dir, faults)
             | (Inr kind, dir) \<Rightarrow>
                 (Some \<lparr>ch_inner = kind, ch_meta = meta, ch_dir = fst entry\<rparr>, Entry_dir (kind_dir kind dir), faults)))))"

fun open_entries ::
  "'d Env \<Rightarrow> CollectionMeta Codec \<Rightarrow> (string \<times> 'd Entry) list \<Rightarrow> fault option list \<Rightarrow>
   (string \<times> 'd CollectionHandle) list \<Rightarrow>
   (string \<times> 'd CollectionHandle) list \<times> (string \<times> 'd Entry) list \<times> fault option list" where
  "open_entries E MC [] faults m = (m, [], faults)"
| "open_entries E MC (entry # entries) faults m =
     (case open_entry E MC entry faults of (h, e, faults) \<Rightarrow>
     (case open_entries E MC entries faults
         (case h of None \<Rightarrow> m | Some handle \<Rightarrow> AList.update (cm_name (ch_meta handle)) handle m) of
        (m, entries, faults) \<Rightarrow> (m, (fst entry, e) # entries, faults)))"

definition Registry_open ::
  "'d Env \<Rightarrow> CollectionMeta Codec \<Rightarrow> 'd Disk \<Rightarrow> ServerError + 'd Registry" where
  "Registry_open E MC disk =
     (case next_fault (dk_faults disk) of
        (Some (Fault n msg), faults) \<Rightarrow> Inl (Sv_Io msg)
      | (None, faults) \<Rightarrow>
          (case dk_entries disk of
             None \<Rightarrow> Inr (Registry_new \<lparr>dk_entries = Some [], dk_faults = faults\<rparr>)
           | Some entries \<Rightarrow>
               (case open_entries E MC entries faults [] of
                  (m, entries, faults) \<Rightarrow>
                    Inr \<lparr>rg_map = m, rg_disk = \<lparr>dk_entries = Some entries, dk_faults = faults\<rparr>\<rparr>)))"

section \<open>Names\<close>

definition is_ascii_alphanumeric :: "char \<Rightarrow> bool" where
  "is_ascii_alphanumeric c \<longleftrightarrow> (let n = of_char c :: nat in
     48 \<le> n \<and> n \<le> 57 \<or> 65 \<le> n \<and> n \<le> 90 \<or> 97 \<le> n \<and> n \<le> 122)"

definition is_valid_name :: "string \<Rightarrow> bool" where
  "is_valid_name name \<longleftrightarrow> name \<noteq> [] \<and> length name \<le> 64 \<and>
     list_all (\<lambda>c. is_ascii_alphanumeric c \<or> c = CHR ''_'' \<or> c = CHR ''-'') name"

section \<open>Creation\<close>

text \<open>Steps 1 and 2.\<close>

definition create_check :: "CollectionMeta \<Rightarrow> 'd Registry \<Rightarrow> ServerError + unit" where
  "create_check meta self =
     (if \<not> is_valid_name (cm_name meta) then Inl (Sv_BadName (cm_name meta))
      else if map_of (rg_map self) (cm_name meta) \<noteq> None then Inl (Sv_AlreadyExists (cm_name meta))
      else Inr ())"

text \<open>Step 3; the root is created along with the directory when it is missing.\<close>

definition create_dir_all :: "string \<Rightarrow> 'd Disk \<Rightarrow> (ServerError + unit) \<times> 'd Disk" where
  "create_dir_all name disk =
     (case next_fault (dk_faults disk) of
        (Some (Fault n msg), faults) \<Rightarrow> (Inl (Sv_Io msg), disk\<lparr>dk_faults := faults\<rparr>)
      | (None, faults) \<Rightarrow>
          (let entries = (case dk_entries disk of None \<Rightarrow> [] | Some entries \<Rightarrow> entries) in
           case map_of entries name of
             None \<Rightarrow> (Inr (), \<lparr>dk_entries = Some (AList.update name (Entry_dir empty_dir) entries), dk_faults = faults\<rparr>)
           | Some (Entry_dir _) \<Rightarrow> (Inr (), disk\<lparr>dk_faults := faults\<rparr>)
           | Some Entry_other \<Rightarrow> (Inl (Sv_Io ''File exists''), disk\<lparr>dk_faults := faults\<rparr>)))"

definition dir_at :: "string \<Rightarrow> 'd Disk \<Rightarrow> 'd Collection_dir" where
  "dir_at name disk =
     (case dk_entries disk of
        None \<Rightarrow> empty_dir
      | Some entries \<Rightarrow> (case map_of entries name of Some (Entry_dir dir) \<Rightarrow> dir | _ \<Rightarrow> empty_dir))"

definition put_dir :: "string \<Rightarrow> 'd Collection_dir \<Rightarrow> 'd Disk \<Rightarrow> 'd Disk" where
  "put_dir name dir disk =
     disk\<lparr>dk_entries := Some (AList.update name (Entry_dir dir)
       (case dk_entries disk of None \<Rightarrow> [] | Some entries \<Rightarrow> entries))\<rparr>"

text \<open>Steps 3 and 4.\<close>

definition prepare_dir ::
  "CollectionMeta Codec \<Rightarrow> CollectionMeta \<Rightarrow> 'd Disk \<Rightarrow> (ServerError + unit) \<times> 'd Disk" where
  "prepare_dir MC meta disk =
     then_do (create_dir_all (cm_name meta) disk) (\<lambda>_ disk.
       case write_meta MC meta (dir_at (cm_name meta) disk, dk_faults disk) of
         (r, (dir, faults)) \<Rightarrow> (r, (put_dir (cm_name meta) dir disk)\<lparr>dk_faults := faults\<rparr>))"

text \<open>Step 5.\<close>

definition create_kind ::
  "'d Env \<Rightarrow> CollectionMeta \<Rightarrow> 'd Collection_dir \<Rightarrow> (ServerError + 'd CollectionKind) \<times> 'd Collection_dir" where
  "create_kind E meta dir =
     (case cm_index_type meta of
        Choice_Flat \<Rightarrow> open_flat E (cm_metric meta) (cm_dimension meta) dir
      | Choice_Hnsw \<Rightarrow>
          (let config = (case cm_hnsw meta of Some config \<Rightarrow> config | None \<Rightarrow> HnswConfig_default)
           in create_hnsw E config (cm_dimension meta) dir))"

definition instantiate_kind ::
  "'d Env \<Rightarrow> CollectionMeta \<Rightarrow> 'd Disk \<Rightarrow> (ServerError + 'd CollectionKind) \<times> 'd Disk" where
  "instantiate_kind E meta disk =
     (case create_kind E meta (dir_at (cm_name meta) disk) of
        (Inl e, dir) \<Rightarrow> (Inl e, put_dir (cm_name meta) dir disk)
      | (Inr kind, dir) \<Rightarrow> (Inr kind, put_dir (cm_name meta) (kind_dir kind dir) disk))"

text \<open>Step 6.\<close>

definition publish :: "CollectionMeta \<Rightarrow> 'd CollectionKind \<Rightarrow> 'd Registry \<Rightarrow> 'd Registry" where
  "publish meta kind self =
     self\<lparr>rg_map := AList.update (cm_name meta) \<lparr>ch_inner = kind, ch_meta = meta, ch_dir = cm_name meta\<rparr> (rg_map self)\<rparr>"

text \<open>Steps 3 to 6, which run after the read lock of step 2 is gone: another creation may come in between.\<close>

definition create_steps ::
  "'d Env \<Rightarrow> CollectionMeta Codec \<Rightarrow> CollectionMeta \<Rightarrow> 'd Registry \<Rightarrow> (ServerError + unit) \<times> 'd Registry" where
  "create_steps E MC meta self =
     (case then_do (prepare_dir MC meta (rg_disk self)) (\<lambda>_ disk. instantiate_kind E meta disk) of
        (Inl e, disk) \<Rightarrow> (Inl e, self\<lparr>rg_disk := disk\<rparr>)
      | (Inr kind, disk) \<Rightarrow> (Inr (), publish meta kind (self\<lparr>rg_disk := disk\<rparr>)))"

definition Registry_create ::
  "'d Env \<Rightarrow> CollectionMeta Codec \<Rightarrow> CollectionMeta \<Rightarrow> 'd Registry \<Rightarrow> (ServerError + unit) \<times> 'd Registry" where
  "Registry_create E MC meta self =
     (case create_check meta self of
        Inl e \<Rightarrow> (Inl e, self)
      | Inr _ \<Rightarrow> create_steps E MC meta self)"

section \<open>Dropping, listing, lookup\<close>

text \<open>What \<open>remove_dir_all\<close> leaves of a directory when it fails: bit \<open>j\<close> of \<open>n\<close> says that file \<open>j\<close> is gone.\<close>

definition wreck :: "nat \<Rightarrow> 'd Collection_dir \<Rightarrow> 'd Collection_dir" where
  "wreck n dir =
     (let gone = (\<lambda>j. odd (n div 2 ^ j)) in
      \<lparr>dir_meta = (if gone 0 then None else dir_meta dir),
       dir_vector = (dir_vector dir)\<lparr>sd_segment := if gone 1 then None else sd_segment (dir_vector dir),
         sd_catalog := if gone 2 then None else sd_catalog (dir_vector dir)\<rparr>,
       dir_lexical = (if gone 3 then None else dir_lexical dir),
       dir_payload = (if gone 4 then None else dir_payload dir)\<rparr>)"

definition remove_dir_all :: "string \<Rightarrow> 'd Disk \<Rightarrow> (ServerError + unit) \<times> 'd Disk" where
  "remove_dir_all name disk =
     (case next_fault (dk_faults disk) of
        (Some (Fault n msg), faults) \<Rightarrow> (Inl (Sv_Io msg), (put_dir name (wreck n (dir_at name disk)) disk)\<lparr>dk_faults := faults\<rparr>)
      | (None, faults) \<Rightarrow> (Inr (), disk\<lparr>dk_entries := map_option (AList.delete name) (dk_entries disk), dk_faults := faults\<rparr>))"

definition Registry_drop_collection :: "string \<Rightarrow> 'd Registry \<Rightarrow> (ServerError + bool) \<times> 'd Registry" where
  "Registry_drop_collection name self =
     (case map_of (rg_map self) name of
        None \<Rightarrow> (Inr False, self)
      | Some h \<Rightarrow>
          (case remove_dir_all (ch_dir h) (rg_disk self) of
             (r, disk) \<Rightarrow> (map_res (\<lambda>_. True) r, \<lparr>rg_map = AList.delete name (rg_map self), rg_disk = disk\<rparr>)))"

definition Registry_list :: "'d Registry \<Rightarrow> CollectionMeta list" where
  "Registry_list self = map (\<lambda>(_, h). ch_meta h) (rg_map self)"

definition Registry_get :: "string \<Rightarrow> 'd Registry \<Rightarrow> 'd CollectionHandle option" where
  "Registry_get name self = map_of (rg_map self) name"

text \<open>A write through a handle: the collection it holds, and the directory that collection keeps.\<close>

definition put_kind :: "'d CollectionHandle \<Rightarrow> 'd CollectionKind \<Rightarrow> 'd Registry \<Rightarrow> 'd Registry" where
  "put_kind h kind self =
     \<lparr>rg_map = AList.update (cm_name (ch_meta h)) (h\<lparr>ch_inner := kind\<rparr>) (rg_map self),
      rg_disk = put_dir (ch_dir h) (kind_dir kind (dir_at (ch_dir h) (rg_disk self))) (rg_disk self)\<rparr>"

end
