(* ===== verification/Registry_Correct.thy ===== *)
theory Registry_Correct
  imports Registry
begin

text \<open>
  What the registry promises: \<open>reg_ok\<close> says that the map of handles and the root directory describe the same collections,
  each in good order; \<open>reg_view\<close> is the abstract state, a map from names to metadata and three maps. Creation,
  dropping, writes through a handle and restarts are followed on it.
\<close>

section \<open>The invariant\<close>

definition meta_ok :: "CollectionMeta \<Rightarrow> bool" where
  "meta_ok meta \<longleftrightarrow> 0 < Dimension_get (cm_dimension meta) \<and>
     (case cm_index_type meta of
        Choice_Flat \<Rightarrow> cm_hnsw meta = None
      | Choice_Hnsw \<Rightarrow> (\<exists>c. cm_hnsw meta = Some c \<and> config_ok c \<and> cfg_metric c = cm_metric meta))"

text \<open>The metadata of a collection that can exist survives its file.\<close>

definition meta_codec_ok :: "CollectionMeta Codec \<Rightarrow> bool" where
  "meta_codec_ok MC \<longleftrightarrow> (\<forall>meta. meta_ok meta \<longrightarrow> (\<exists>bs. cd_enc MC meta = Inr bs \<and> cd_dec MC bs = Inr meta))"

definition of_type :: "IndexTypeChoice \<Rightarrow> 'd CollectionKind \<Rightarrow> bool" where
  "of_type t k \<longleftrightarrow> (case k of Kind_Flat _ \<Rightarrow> t = Choice_Flat | Kind_Hnsw _ \<Rightarrow> t = Choice_Hnsw)"

definition entry_ok ::
  "'d Env \<Rightarrow> CollectionMeta Codec \<Rightarrow> ('d \<Rightarrow> tables) \<Rightarrow> string \<Rightarrow> 'd CollectionHandle \<Rightarrow> 'd Entry \<Rightarrow> bool" where
  "entry_ok E MC view name h e \<longleftrightarrow> cm_name (ch_meta h) = name \<and> ch_dir h = name \<and> is_valid_name name \<and>
     meta_ok (ch_meta h) \<and> of_type (cm_index_type (ch_meta h)) (ch_inner h) \<and>
     kind_good E view (cm_metric (ch_meta h)) (cm_dimension (ch_meta h)) (ch_inner h) \<and>
     (\<exists>dir bs. e = Entry_dir dir \<and> kind_dir (ch_inner h) dir = dir \<and> dir_meta dir = Some bs \<and>
        cd_dec MC bs = Inr (ch_meta h))"

definition reg_ok :: "'d Env \<Rightarrow> CollectionMeta Codec \<Rightarrow> ('d \<Rightarrow> tables) \<Rightarrow> 'd Registry \<Rightarrow> bool" where
  "reg_ok E MC view reg \<longleftrightarrow> hm_ok (rg_map reg) \<and> dk_faults (rg_disk reg) = [] \<and>
     (\<exists>es. dk_entries (rg_disk reg) = Some es \<and> hm_ok es \<and> dom (map_of es) = dom (map_of (rg_map reg)) \<and>
        (\<forall>name h. map_of (rg_map reg) name = Some h \<longrightarrow> (\<exists>e. map_of es name = Some e \<and> entry_ok E MC view name h e)))"

definition reg_room :: "nat \<Rightarrow> 'd Registry \<Rightarrow> bool" where
  "reg_room n reg \<longleftrightarrow> (\<forall>name h. map_of (rg_map reg) name = Some h \<longrightarrow> kind_room n (ch_inner h))"

text \<open>The abstract state of the service.\<close>

type_synonym reg_spec = "string \<rightharpoonup> CollectionMeta \<times> col_spec"

definition handle_view :: "'d Env \<Rightarrow> ('d \<Rightarrow> tables) \<Rightarrow> 'd CollectionHandle \<Rightarrow> CollectionMeta \<times> col_spec" where
  "handle_view E view h = (ch_meta h, kind_view E view (ch_inner h))"

definition reg_view :: "'d Env \<Rightarrow> ('d \<Rightarrow> tables) \<Rightarrow> 'd Registry \<Rightarrow> reg_spec" where
  "reg_view E view reg name = map_option (handle_view E view) (map_of (rg_map reg) name)"

lemma kind_dir_simps [simp]:
  "kind_dir k' (kind_dir k dir) = kind_dir k' dir" "dir_meta (kind_dir k dir) = dir_meta dir"
  unfolding kind_dir_def by (simp_all split: CollectionKind.split)

lemma same_kind_type: "same_kind k k' \<Longrightarrow> of_type t k' = of_type t k"
  by (cases k; cases k') (simp_all add: same_kind_def of_type_def)

lemma reg_okE:
  assumes "reg_ok E MC view reg"
  obtains es where "hm_ok (rg_map reg)" "rg_disk reg = \<lparr>dk_entries = Some es, dk_faults = []\<rparr>" "hm_ok es"
    "dom (map_of es) = dom (map_of (rg_map reg))"
    "\<And>name h. map_of (rg_map reg) name = Some h \<Longrightarrow> \<exists>e. map_of es name = Some e \<and> entry_ok E MC view name h e"
proof -
  obtain es where "dk_entries (rg_disk reg) = Some es" "hm_ok es" "dom (map_of es) = dom (map_of (rg_map reg))"
    "\<forall>name h. map_of (rg_map reg) name = Some h \<longrightarrow> (\<exists>e. map_of es name = Some e \<and> entry_ok E MC view name h e)"
    using assms unfolding reg_ok_def by blast
  moreover have "hm_ok (rg_map reg)" "dk_faults (rg_disk reg) = []" using assms by (simp_all add: reg_ok_def)
  ultimately show thesis by (intro that [of es]) simp_all
qed

section \<open>Restarts\<close>

lemma open_entry_ok:
  assumes "env_ok E view" "env_total E" "entry_ok E MC view name h e"
  shows "\<exists>h' e'. open_entry E MC (name, e) [] = (Some h', e', []) \<and> entry_ok E MC view name h' e' \<and>
    handle_view E view h' = handle_view E view h \<and> (\<forall>n. kind_room n (ch_inner h) \<longrightarrow> kind_room n (ch_inner h'))"
proof -
  obtain dir bs where e: "e = Entry_dir dir" "kind_dir (ch_inner h) dir = dir" "dir_meta dir = Some bs" "cd_dec MC bs = Inr (ch_meta h)"
    and h: "cm_name (ch_meta h) = name" "is_valid_name name" "meta_ok (ch_meta h)" "of_type (cm_index_type (ch_meta h)) (ch_inner h)"
      "kind_good E view (cm_metric (ch_meta h)) (cm_dimension (ch_meta h)) (ch_inner h)"
    using assms(3) by (auto simp: entry_ok_def)
  obtain k' dir' where k': "reopen_kind E (ch_meta h) dir = (Inr k', dir')"
    "kind_good E view (cm_metric (ch_meta h)) (cm_dimension (ch_meta h)) k'" "kind_view E view k' = kind_view E view (ch_inner h)"
    "same_kind (ch_inner h) k'" "\<forall>n. kind_room n (ch_inner h) \<longrightarrow> kind_room n k'" "dir_meta dir' = dir_meta dir"
    using kind_reopens [OF assms(1,2) h(5), of dir] h(4) unfolding e(2)
    by (cases "ch_inner h") (auto simp: reopen_kind_def of_type_def)
  have "open_entry E MC (name, e) [] = (Some \<lparr>ch_inner = k', ch_meta = ch_meta h, ch_dir = name\<rparr>, Entry_dir (kind_dir k' dir'), [])"
    by (simp add: open_entry_def e read_meta_file_def k'(1))
  moreover have "of_type (cm_index_type (ch_meta h)) k'" using h(4) same_kind_type [OF k'(4)] by simp
  ultimately show ?thesis using h k' e(3,4) by (simp add: entry_ok_def handle_view_def)
qed

lemma open_entries_ok:
  assumes "env_ok E view" "env_total E"
  shows "hm_ok es \<Longrightarrow> hm_ok m \<Longrightarrow> dom (map_of es) \<inter> dom (map_of m) = {} \<Longrightarrow>
    (\<And>name e. (name, e) \<in> set es \<Longrightarrow> entry_ok E MC view name (H name) e) \<Longrightarrow>
    \<exists>m' es'. open_entries E MC es [] m = (m', es', []) \<and> hm_ok m' \<and> map fst es' = map fst es \<and>
      dom (map_of m') = dom (map_of es) \<union> dom (map_of m) \<and>
      (\<forall>name. map_of es name = None \<longrightarrow> map_of m' name = map_of m name) \<and>
      (\<forall>name e. (name, e) \<in> set es' \<longrightarrow> (\<exists>h'. map_of m' name = Some h' \<and> entry_ok E MC view name h' e \<and>
         handle_view E view h' = handle_view E view (H name) \<and> (\<forall>n. kind_room n (ch_inner (H name)) \<longrightarrow> kind_room n (ch_inner h'))))"
proof (induction es arbitrary: m)
  case (Cons entry es)
  obtain name e where entry: "entry = (name, e)" by fastforce
  have nd: "name \<notin> fst ` set es" "hm_ok es" using Cons.prems(1) by (auto simp: entry hm_ok_def)
  have ok: "entry_ok E MC view name (H name) e" using Cons.prems(4) [of name e] by (simp add: entry)
  obtain h' e' where o: "open_entry E MC (name, e) [] = (Some h', e', [])" "entry_ok E MC view name h' e'"
    "handle_view E view h' = handle_view E view (H name)" "\<forall>n. kind_room n (ch_inner (H name)) \<longrightarrow> kind_room n (ch_inner h')"
    using open_entry_ok [OF assms ok] by blast
  have cm: "cm_name (ch_meta h') = name" using o(2) by (simp add: entry_ok_def)
  let ?m = "AList.update name h' m"
  have es: "map_of es name = None" using nd(1) by (simp add: map_of_eq_None_iff)
  have sets: "A \<subseteq> A' \<Longrightarrow> A' \<inter> B = {} \<Longrightarrow> x \<notin> A \<Longrightarrow> A \<inter> insert x B = {}" for A A' B :: "string set" and x by blast
  have "dom (map_of es) \<subseteq> dom (map_of (entry # es))" by (auto simp: entry)
  moreover have "name \<notin> dom (map_of es)" using es by (simp add: domIff)
  ultimately have "dom (map_of es) \<inter> insert name (dom (map_of m)) = {}" by (rule sets [OF _ Cons.prems(3)])
  then have "dom (map_of es) \<inter> dom (map_of ?m) = {}" by simp
  moreover have "hm_ok ?m" using Cons.prems(2) by simp
  moreover have "(x, y) \<in> set es \<Longrightarrow> entry_ok E MC view x (H x) y" for x y using Cons.prems(4) by simp
  ultimately obtain m' es' where r: "open_entries E MC es [] ?m = (m', es', [])" "hm_ok m'" "map fst es' = map fst es"
    "dom (map_of m') = dom (map_of es) \<union> dom (map_of ?m)"
    "\<forall>x. map_of es x = None \<longrightarrow> map_of m' x = map_of ?m x"
    "\<forall>x y. (x, y) \<in> set es' \<longrightarrow> (\<exists>h'. map_of m' x = Some h' \<and> entry_ok E MC view x h' y \<and>
         handle_view E view h' = handle_view E view (H x) \<and> (\<forall>n. kind_room n (ch_inner (H x)) \<longrightarrow> kind_room n (ch_inner h')))"
    using Cons.IH [OF nd(2), of ?m] by blast
  have "open_entries E MC (entry # es) [] m = (m', (name, e') # es', [])" by (simp add: entry o(1) cm r(1))
  moreover have "map_of m' name = Some h'" using r(5) es by simp
  ultimately show ?case using r o es
    by (intro exI [of _ m'] exI [of _ "(name, e') # es'"]) (auto simp: entry)
qed simp

lemma Registry_reopens:
  assumes "env_ok E view" "env_total E" "reg_ok E MC view reg"
  shows "\<exists>reg'. Registry_open E MC (rg_disk reg) = Inr reg' \<and> reg_ok E MC view reg' \<and>
    reg_view E view reg' = reg_view E view reg \<and> (\<forall>n. reg_room n reg \<longrightarrow> reg_room n reg')"
proof -
  obtain es where es: "hm_ok (rg_map reg)" "rg_disk reg = \<lparr>dk_entries = Some es, dk_faults = []\<rparr>" "hm_ok es"
    "dom (map_of es) = dom (map_of (rg_map reg))"
    "\<And>name h. map_of (rg_map reg) name = Some h \<Longrightarrow> \<exists>e. map_of es name = Some e \<and> entry_ok E MC view name h e"
    by (rule reg_okE [OF assms(3)]) (rule that)
  define H where "H = (\<lambda>name. the (map_of (rg_map reg) name))"
  have old: "\<exists>h. map_of (rg_map reg) name = Some h \<and> H name = h \<and> entry_ok E MC view name h e" if "(name, e) \<in> set es" for name e
  proof -
    have e: "map_of es name = Some e" using that es(3) by (simp add: hm_mem_iff)
    then have "name \<in> dom (map_of (rg_map reg))" using es(4) by blast
    then obtain h where h: "map_of (rg_map reg) name = Some h" by blast
    from es(5) [OF this] e h show ?thesis by (simp add: H_def)
  qed
  then have "(name, e) \<in> set es \<Longrightarrow> entry_ok E MC view name (H name) e" for name e by blast
  then obtain m' es' where o: "open_entries E MC es [] [] = (m', es', [])" "hm_ok m'" "map fst es' = map fst es"
    "dom (map_of m') = dom (map_of es)"
    and new: "\<forall>name e. (name, e) \<in> set es' \<longrightarrow> (\<exists>h'. map_of m' name = Some h' \<and> entry_ok E MC view name h' e \<and>
         handle_view E view h' = handle_view E view (H name) \<and> (\<forall>n. kind_room n (ch_inner (H name)) \<longrightarrow> kind_room n (ch_inner h')))"
    using open_entries_ok [OF assms(1,2) es(3), of "[]" MC H] by (auto simp: hm_ok_def)
  let ?reg = "\<lparr>rg_map = m', rg_disk = \<lparr>dk_entries = Some es', dk_faults = []\<rparr>\<rparr>"
  have open': "Registry_open E MC (rg_disk reg) = Inr ?reg" by (simp add: Registry_open_def es(2) o(1))
  have es': "hm_ok es'" "dom (map_of es') = dom (map_of es)" using es(3) o(3) by (simp_all add: hm_ok_def dom_map_of_conv_image_fst) (metis list.set_map)
  have pair: "\<exists>h e. map_of (rg_map reg) name = Some h \<and> H name = h \<and> map_of es' name = Some e \<and> entry_ok E MC view name h' e \<and>
      handle_view E view h' = handle_view E view h \<and> (\<forall>n. kind_room n (ch_inner h) \<longrightarrow> kind_room n (ch_inner h'))"
    if "map_of m' name = Some h'" for name h'
  proof -
    have "name \<in> dom (map_of es')" using that o(4) es'(2) by blast
    then obtain e where e: "map_of es' name = Some e" by blast
    then have "(name, e) \<in> set es'" by (rule map_of_SomeD)
    with new obtain h'' where "map_of m' name = Some h''" "entry_ok E MC view name h'' e"
      "handle_view E view h'' = handle_view E view (H name)" "\<forall>n. kind_room n (ch_inner (H name)) \<longrightarrow> kind_room n (ch_inner h'')" by blast
    moreover have "name \<in> dom (map_of (rg_map reg))" using that o(4) es(4) by blast
    then have "map_of (rg_map reg) name = Some (H name)" by (auto simp: H_def)
    ultimately show ?thesis using that e by auto
  qed
  have "\<forall>name h. map_of m' name = Some h \<longrightarrow> (\<exists>e. map_of es' name = Some e \<and> entry_ok E MC view name h e)"
    using pair by blast
  then have "reg_ok E MC view ?reg" using o(2,4) es' by (simp add: reg_ok_def)
  moreover have "reg_view E view ?reg = reg_view E view reg"
  proof
    fix name
    show "reg_view E view ?reg name = reg_view E view reg name"
    proof (cases "map_of m' name")
      case None
      then have "name \<notin> dom (map_of (rg_map reg))" using o(4) es(4) by blast
      then have "map_of (rg_map reg) name = None" by blast
      then show ?thesis using None by (simp add: reg_view_def)
    next
      case (Some h')
      from pair [OF this] show ?thesis using Some by (auto simp: reg_view_def)
    qed
  qed
  moreover have "reg_room n ?reg" if "reg_room n reg" for n
    using that pair by (fastforce simp: reg_room_def)
  ultimately show ?thesis using open' by blast
qed

section \<open>Writes, creation, dropping\<close>

lemma kind_step_same: "kind_step E a k = (r, k') \<Longrightarrow> same_kind k k'"
  by (cases k; cases "col_step (env_pf E) (env_pl E) (env_pp E) a (case k of Kind_Flat c \<Rightarrow> c)";
      cases "col_step (env_pn E) (env_pl E) (env_pp E) a (case k of Kind_Hnsw c \<Rightarrow> c)")
    (auto simp: kind_step_kinds same_kind_def)

lemma dir_at_put [simp]: "dir_at name (put_dir name dir disk) = dir"
  by (simp add: dir_at_def put_dir_def)

lemma put_kind_ok:
  assumes "reg_ok E MC view reg" "map_of (rg_map reg) name = Some h" "same_kind (ch_inner h) k"
    and "kind_good E view (cm_metric (ch_meta h)) (cm_dimension (ch_meta h)) k"
  shows "reg_ok E MC view (put_kind h k reg) \<and>
    reg_view E view (put_kind h k reg) = (reg_view E view reg)(name \<mapsto> (ch_meta h, kind_view E view k)) \<and>
    (\<forall>n. reg_room n reg \<longrightarrow> kind_room n k \<longrightarrow> reg_room n (put_kind h k reg)) \<and>
    map_of (rg_map (put_kind h k reg)) = (map_of (rg_map reg))(name \<mapsto> h\<lparr>ch_inner := k\<rparr>)"
proof -
  obtain es where es: "hm_ok (rg_map reg)" "rg_disk reg = \<lparr>dk_entries = Some es, dk_faults = []\<rparr>" "hm_ok es"
    "dom (map_of es) = dom (map_of (rg_map reg))"
    "\<And>name h. map_of (rg_map reg) name = Some h \<Longrightarrow> \<exists>e. map_of es name = Some e \<and> entry_ok E MC view name h e"
    by (rule reg_okE [OF assms(1)]) (rule that)
  from es(5) [OF assms(2)] obtain e where e: "map_of es name = Some e" "entry_ok E MC view name h e" by blast
  then obtain dir bs where dir: "e = Entry_dir dir" "dir_meta dir = Some bs" "cd_dec MC bs = Inr (ch_meta h)"
    and h: "cm_name (ch_meta h) = name" "ch_dir h = name" "of_type (cm_index_type (ch_meta h)) (ch_inner h)"
    by (auto simp: entry_ok_def)
  let ?h = "h\<lparr>ch_inner := k\<rparr>" and ?e = "Entry_dir (kind_dir k dir)"
  have at: "dir_at name (rg_disk reg) = dir" by (simp add: dir_at_def es(2) e(1) dir(1))
  have put: "put_kind h k reg = \<lparr>rg_map = AList.update name ?h (rg_map reg),
      rg_disk = \<lparr>dk_entries = Some (AList.update name ?e es), dk_faults = []\<rparr>\<rparr>"
    by (simp add: put_kind_def h(1,2) at) (simp add: put_dir_def es(2))
  have new: "entry_ok E MC view name ?h ?e"
    using e(2) dir assms(4) h(3) same_kind_type [OF assms(3)] by (auto simp: entry_ok_def)
  have "\<forall>x y. map_of (AList.update name ?h (rg_map reg)) x = Some y \<longrightarrow>
      (\<exists>e. map_of (AList.update name ?e es) x = Some e \<and> entry_ok E MC view x y e)"
    using es(5) new by simp
  then have "reg_ok E MC view (put_kind h k reg)" using es(1,3,4) by (simp add: reg_ok_def put)
  then show ?thesis by (auto simp: put reg_view_def handle_view_def reg_room_def fun_eq_iff)
qed

lemma create_fresh:
  assumes "env_ok E view" "env_total E" "meta_codec_ok MC" "reg_ok E MC view reg" "meta_ok meta" "create_check meta reg = Inr ()"
  shows "\<exists>reg'. Registry_create E MC meta reg = (Inr (), reg') \<and> reg_ok E MC view reg' \<and>
    reg_view E view reg' = (reg_view E view reg)(cm_name meta \<mapsto> (meta, empty_spec)) \<and>
    (\<forall>n. reg_room n reg \<longrightarrow> records_fit (cm_dimension meta) n \<longrightarrow> reg_room n reg')"
proof -
  let ?name = "cm_name meta"
  obtain es where es: "hm_ok (rg_map reg)" "rg_disk reg = \<lparr>dk_entries = Some es, dk_faults = []\<rparr>" "hm_ok es"
    "dom (map_of es) = dom (map_of (rg_map reg))"
    "\<And>name h. map_of (rg_map reg) name = Some h \<Longrightarrow> \<exists>e. map_of es name = Some e \<and> entry_ok E MC view name h e"
    by (rule reg_okE [OF assms(4)]) (rule that)
  have valid: "is_valid_name ?name" and free: "map_of (rg_map reg) ?name = None"
    using assms(6) by (auto simp: create_check_def split: if_splits)
  then have none: "map_of es ?name = None" using es(4) by blast
  obtain bs where bs: "cd_enc MC meta = Inr bs" "cd_dec MC bs = Inr meta" using assms(3,5) by (auto simp: meta_codec_ok_def)
  let ?dir = "empty_dir\<lparr>dir_meta := Some bs\<rparr>"
  have prep: "prepare_dir MC meta (rg_disk reg) =
      (Inr (), put_dir ?name ?dir \<lparr>dk_entries = Some (AList.update ?name (Entry_dir empty_dir) es), dk_faults = []\<rparr>)"
    by (simp add: prepare_dir_def create_dir_all_def es(2) none write_meta_def bs(1) dir_at_def put_dir_def)
  have fresh: "dir_vector ?dir = dir_vector empty_dir" "dir_lexical ?dir = None" "dir_payload ?dir = None" "0 < Dimension_get (cm_dimension meta)"
    using assms(5) by (simp_all add: empty_dir_def meta_ok_def)
  have "\<exists>k dir'. create_kind E meta ?dir = (Inr k, dir') \<and> kind_good E view (cm_metric meta) (cm_dimension meta) k \<and>
      kind_view E view k = empty_spec \<and> (\<forall>n. records_fit (cm_dimension meta) n \<longrightarrow> kind_room n k) \<and> dir_meta dir' = Some bs \<and>
      of_type (cm_index_type meta) k"
  proof (cases "cm_index_type meta")
    case Choice_Flat
    have k: "\<exists>k dir'. open_flat E (cm_metric meta) (cm_dimension meta) ?dir = (Inr k, dir') \<and> kind_good E view (cm_metric meta) (cm_dimension meta) k \<and>
        kind_view E view k = empty_spec \<and> (records_fit (cm_dimension meta) n \<longrightarrow> kind_room n k) \<and> dir_meta dir' = Some bs \<and> (\<exists>c. k = Kind_Flat c)" for n
      using kind_fresh(1) [OF assms(1,2) fresh(4,1,2,3)] by simp
    obtain c' dir' where o: "open_flat E (cm_metric meta) (cm_dimension meta) ?dir = (Inr (Kind_Flat c'), dir')" using k [of 0] by blast
    with k show ?thesis by (auto simp: create_kind_def Choice_Flat of_type_def)
  next
    case Choice_Hnsw
    then obtain c where c: "cm_hnsw meta = Some c" "config_ok c" "cfg_metric c = cm_metric meta" using assms(5) by (auto simp: meta_ok_def)
    have k: "\<exists>k dir'. create_hnsw E c (cm_dimension meta) ?dir = (Inr k, dir') \<and> kind_good E view (cm_metric meta) (cm_dimension meta) k \<and>
        kind_view E view k = empty_spec \<and> (records_fit (cm_dimension meta) n \<longrightarrow> kind_room n k) \<and> dir_meta dir' = Some bs \<and> (\<exists>c. k = Kind_Hnsw c)" for n
      using kind_fresh(2) [OF assms(1,2) fresh(4,1,2,3) c(2)] c(3) by simp
    obtain c' dir' where o: "create_hnsw E c (cm_dimension meta) ?dir = (Inr (Kind_Hnsw c'), dir')" using k [of 0] by blast
    with k show ?thesis by (auto simp: create_kind_def Choice_Hnsw c(1) of_type_def)
  qed
  then obtain k dir' where k: "create_kind E meta ?dir = (Inr k, dir')" "kind_good E view (cm_metric meta) (cm_dimension meta) k"
    "kind_view E view k = empty_spec" "\<forall>n. records_fit (cm_dimension meta) n \<longrightarrow> kind_room n k" "dir_meta dir' = Some bs"
    "of_type (cm_index_type meta) k" by blast
  let ?h = "\<lparr>ch_inner = k, ch_meta = meta, ch_dir = ?name\<rparr>" and ?e = "Entry_dir (kind_dir k dir')"
  let ?es = "AList.update ?name ?e (AList.update ?name (Entry_dir ?dir) (AList.update ?name (Entry_dir empty_dir) es))"
  let ?reg = "\<lparr>rg_map = AList.update ?name ?h (rg_map reg), rg_disk = \<lparr>dk_entries = Some ?es, dk_faults = []\<rparr>\<rparr>"
  have create: "Registry_create E MC meta reg = (Inr (), ?reg)"
    by (simp add: Registry_create_def create_steps_def assms(6) prep instantiate_kind_def k(1)) (simp add: publish_def put_dir_def)
  have new: "entry_ok E MC view ?name ?h ?e" using valid assms(5) k bs(2) by (simp add: entry_ok_def)
  have "\<forall>x y. map_of (rg_map ?reg) x = Some y \<longrightarrow> (\<exists>e. map_of ?es x = Some e \<and> entry_ok E MC view x y e)"
    using es(5) new by simp
  then have "reg_ok E MC view ?reg" using es(1,3,4) by (simp add: reg_ok_def insert_absorb2)
  moreover have "reg_view E view ?reg = (reg_view E view reg)(?name \<mapsto> (meta, empty_spec))"
    by (simp add: reg_view_def handle_view_def fun_eq_iff k(3))
  ultimately show ?thesis using create k(4) by (auto simp: reg_room_def)
qed

lemma drop_ok:
  assumes "reg_ok E MC view reg"
  shows "\<exists>reg'. Registry_drop_collection name reg = (Inr (reg_view E view reg name \<noteq> None), reg') \<and> reg_ok E MC view reg' \<and>
    reg_view E view reg' = (reg_view E view reg)(name := None) \<and> (\<forall>n. reg_room n reg \<longrightarrow> reg_room n reg')"
proof (cases "map_of (rg_map reg) name")
  case None
  then show ?thesis using assms by (auto simp: Registry_drop_collection_def reg_view_def fun_eq_iff)
next
  case (Some h)
  obtain es where es: "hm_ok (rg_map reg)" "rg_disk reg = \<lparr>dk_entries = Some es, dk_faults = []\<rparr>" "hm_ok es"
    "dom (map_of es) = dom (map_of (rg_map reg))"
    "\<And>name h. map_of (rg_map reg) name = Some h \<Longrightarrow> \<exists>e. map_of es name = Some e \<and> entry_ok E MC view name h e"
    by (rule reg_okE [OF assms(1)]) (rule that)
  have dir: "ch_dir h = name" using es(5) [OF Some] by (auto simp: entry_ok_def)
  let ?reg = "\<lparr>rg_map = AList.delete name (rg_map reg), rg_disk = \<lparr>dk_entries = Some (AList.delete name es), dk_faults = []\<rparr>\<rparr>"
  have drop: "Registry_drop_collection name reg = (Inr True, ?reg)"
    by (simp add: Registry_drop_collection_def Some dir remove_dir_all_def es(2))
  have "\<forall>x y. map_of (rg_map ?reg) x = Some y \<longrightarrow> (\<exists>e. map_of (AList.delete name es) x = Some e \<and> entry_ok E MC view x y e)"
    using es(5) by (simp add: delete_conv)
  then have "reg_ok E MC view ?reg" using es(1,3,4) by (simp add: reg_ok_def delete_conv)
  then show ?thesis using drop Some by (auto simp: reg_view_def reg_room_def delete_conv fun_eq_iff)
qed

section \<open>A codec for the metadata\<close>

definition pk_metric :: "Metric Packer" where
  "pk_metric = pk_map (\<lambda>m. case m of Cosine \<Rightarrow> 0 | DotProduct \<Rightarrow> 1 | Euclidean \<Rightarrow> 2)
     (\<lambda>b. if b = 0 then Cosine else if b = 1 then DotProduct else Euclidean) (pk_word 1 :: u8 Packer)"

definition pk_config :: "HnswConfig Packer" where
  "pk_config = pk_map (\<lambda>c. (cfg_metric c, cfg_m c, cfg_ef_construction c, cfg_ef_search c, cfg_seed c))
     (\<lambda>(metric, m, ef_c, ef_s, seed). \<lparr>cfg_metric = metric, cfg_m = m, cfg_ef_construction = ef_c,
       cfg_ef_search = ef_s, cfg_seed = seed\<rparr>)
     (pk_pair pk_metric (pk_pair pk_nat (pk_pair pk_nat (pk_pair pk_nat (pk_word 8)))))"

definition pk_meta :: "CollectionMeta Packer" where
  "pk_meta = pk_map (\<lambda>meta. (cm_name meta, cm_metric meta, case cm_dimension meta of Dimension d \<Rightarrow> d,
       cm_index_type meta = Choice_Hnsw, cm_hnsw meta))
     (\<lambda>(name, metric, d, is_hnsw, hnsw). \<lparr>cm_name = name, cm_metric = metric, cm_dimension = Dimension d,
       cm_index_type = (if is_hnsw then Choice_Hnsw else Choice_Flat), cm_hnsw = hnsw\<rparr>)
     (pk_pair pk_string (pk_pair pk_metric (pk_pair (pk_word 4) (pk_pair pk_bool (pk_option pk_config)))))"

definition meta_codec :: "CollectionMeta Codec" where
  "meta_codec = codec_of pk_meta"

lemma meta_codec_fine: "meta_codec_ok meta_codec"
proof -
  have metric: "pk_ok pk_metric"
    unfolding pk_metric_def by (intro pk_map_ok pk_word_ok) (simp_all split: Metric.split)
  then have config: "pk_ok pk_config"
    unfolding pk_config_def by (intro pk_map_ok pk_pair_ok pk_nat_ok pk_word_ok) simp_all
  have "pk_ok pk_meta"
    unfolding pk_meta_def
    by (intro pk_map_ok pk_pair_ok pk_string_ok pk_word_ok pk_bool_ok pk_option_ok metric config)
      (auto intro!: CollectionMeta.equality split: Dimension.split, metis IndexTypeChoice.exhaust)
  from codec_of_ok [OF this] show ?thesis
    unfolding meta_codec_ok_def meta_codec_def codec_ok_def codec_total_def by blast
qed

end
