(* ===== verification/Registry_Race.thy ===== *)
theory Registry_Race
  imports Registry_Correct
begin

text \<open>
  Two creations of one name. The check for duplicates and the insertion into the map are two critical sections, and the
  directory is written between them.
\<close>

lemma Pf_open_mismatch:
  assumes "redb_ok R view" "catalog_ok m d n (view db)" "sd_catalog dir = Some db" "m' \<noteq> m \<or> d' \<noteq> d"
  shows "\<exists>e. Pf_open R m' d' dir = (Inl e, dir)"
proof (cases "Catalog_open R db")
  case (Inl e)
  then show ?thesis by (simp add: Pf_open_def assms(3))
next
  case (Inr cm)
  have dims: "(word_of_nat (Dimension_get d) :: u32) = word_of_nat (Dimension_get d') \<longleftrightarrow> d = d'"
    by (cases d; cases d') (simp add: Dimension_get_def)
  show ?thesis using Catalog_open_spec [OF assms(1,2)] assms(4)
    by (cases cm) (auto simp: Pf_open_def assms(3) Inr dims Let_def)
qed

text \<open>
  C27. Two creations of one name can lose a collection. Both pass the check while the name is free; the first completes
  and its collection is served; the second then overwrites \<open>collection.meta\<close>, and fails because the files are of another
  dimension or metric. The caller of the first is told that all is well, and the next restart no longer
  finds the collection, whose metadata and files contradict each other.
\<close>

theorem create_race_loses_collection:
  assumes "env_ok E view" "env_total E" "meta_codec_ok MC" "meta_ok a" "meta_ok b" "is_valid_name (cm_name a)"
    and "cm_name b = cm_name a" "cm_index_type a = Choice_Flat" "cm_index_type b = Choice_Flat"
    and "cm_metric b \<noteq> cm_metric a \<or> cm_dimension b \<noteq> cm_dimension a"
    and "reg0 = Registry_new \<lparr>dk_entries = Some [], dk_faults = []\<rparr>"
  shows "create_check a reg0 = Inr () \<and> create_check b reg0 = Inr () \<and>
    (case create_steps E MC a reg0 of (ra, reg1) \<Rightarrow>
      (case create_steps E MC b reg1 of (rb, reg2) \<Rightarrow>
        ra = Inr () \<and> (\<exists>e. rb = Inl e) \<and> Registry_get (cm_name a) reg2 \<noteq> None \<and>
        (\<exists>reg3. Registry_open E MC (rg_disk reg2) = Inr reg3 \<and> Registry_get (cm_name a) reg3 = None)))"
proof -
  let ?name = "cm_name a"
  have checks: "create_check a reg0 = Inr ()" "create_check b reg0 = Inr ()"
    using assms(6,7) by (simp_all add: create_check_def assms(11) Registry_new_def)
  have reg0: "reg_ok E MC view reg0" by (simp add: assms(11) reg_ok_def Registry_new_def hm_ok_def)
  obtain reg1 where create: "Registry_create E MC a reg0 = (Inr (), reg1)" and reg1: "reg_ok E MC view reg1"
    and view1: "reg_view E view reg1 = (reg_view E view reg0)(?name \<mapsto> (a, empty_spec))"
    using create_fresh [OF assms(1-3) reg0 assms(4) checks(1)] by blast
  have steps: "create_steps E MC a reg0 = (Inr (), reg1)" using create checks(1) by (simp add: Registry_create_def)
  have dom1: "dom (map_of (rg_map reg1)) = {?name}"
    using view1 by (auto simp: reg_view_def fun_eq_iff dom_def assms(11) Registry_new_def split: if_splits)
  obtain h where h: "map_of (rg_map reg1) ?name = Some h" "ch_meta h = a"
    using fun_cong [OF view1, of ?name] by (auto simp: reg_view_def handle_view_def)
  obtain es where es: "hm_ok (rg_map reg1)" "rg_disk reg1 = \<lparr>dk_entries = Some es, dk_faults = []\<rparr>" "hm_ok es"
    "dom (map_of es) = dom (map_of (rg_map reg1))"
    "\<And>name h. map_of (rg_map reg1) name = Some h \<Longrightarrow> \<exists>e. map_of es name = Some e \<and> entry_ok E MC view name h e"
    by (rule reg_okE [OF reg1]) (rule that)
  have es1: "\<exists>e. es = [(?name, e)]"
  proof -
    have "fst ` set es = {?name}" using es(4) dom1 by (simp add: dom_map_of_conv_image_fst)
    moreover have "distinct (map fst es)" using es(3) by (simp add: hm_ok_def)
    ultimately have "length es = 1" by (metis card.empty card_insert_disjoint distinct_card empty_iff finite.emptyI length_map list.set_map One_nat_def)
    then obtain p where "es = [p]" by (auto simp: length_Suc_conv)
    then show ?thesis using \<open>fst ` set es = {?name}\<close> by (cases p) simp
  qed
  then obtain e where e: "es = [(?name, e)]" by blast
  have entry: "entry_ok E MC view ?name h e" using es(5) [OF h(1)] by (simp add: e)
  then obtain dir where dir: "e = Entry_dir dir" "kind_dir (ch_inner h) dir = dir" by (auto simp: entry_ok_def)
  obtain c where c: "ch_inner h = Kind_Flat c" "kind_good E view (cm_metric a) (cm_dimension a) (Kind_Flat c)"
    using entry h(2) assms(8) by (cases "ch_inner h") (auto simp: entry_ok_def of_type_def)
  have "dir_vector (kind_dir (ch_inner h) dir) = pf_dir (col_index c)" by (simp add: c(1) kind_dir_def)
  then have vec: "sd_catalog (dir_vector dir) = Some (pf_catalog (col_index c))" by (simp add: dir(2) pf_dir_def)
  have R: "redb_ok (env_redb E) view" using env_parts(1) [OF assms(1,2)] .
  have cat: "catalog_ok (cm_metric a) (cm_dimension a) (pf_record_count (col_index c)) (view (pf_catalog (col_index c)))"
    using c(2) by (auto simp: kind_good_def pf_ok_def pf_ready_def pf_durable_def disk_ok_def)
  obtain bs where bs: "cd_enc MC b = Inr bs" "cd_dec MC bs = Inr b" using assms(3,5) by (auto simp: meta_codec_ok_def)
  let ?dir = "dir\<lparr>dir_meta := Some bs\<rparr>"
  obtain err where err: "Pf_open (env_redb E) (cm_metric b) (cm_dimension b) (dir_vector dir) = (Inl err, dir_vector dir)"
    using Pf_open_mismatch [OF R cat vec assms(10)] by blast
  then have refused: "open_flat E (cm_metric b) (cm_dimension b) ?dir =
      (Inl (Sv_Storage (StorageError_to_string (env_fmt_id E) err)), ?dir)"
    by (simp add: open_flat_def)
  let ?reg2 = "reg1\<lparr>rg_disk := \<lparr>dk_entries = Some [(?name, Entry_dir ?dir)], dk_faults = []\<rparr>\<rparr>"
  have second: "create_steps E MC b reg1 = (Inl (Sv_Storage (StorageError_to_string (env_fmt_id E) err)), ?reg2)"
    by (simp add: create_steps_def prepare_dir_def create_dir_all_def es(2) e dir(1) assms(7,9) write_meta_def bs(1) dir_at_def
        put_dir_def instantiate_kind_def create_kind_def refused)
  have "open_entries E MC [(?name, Entry_dir ?dir)] [] [] = ([], [(?name, Entry_dir ?dir)], [])"
    by (simp add: open_entry_def read_meta_file_def bs(2) reopen_kind_def assms(9) refused)
  then have "\<exists>reg3. Registry_open E MC (rg_disk ?reg2) = Inr reg3 \<and> Registry_get ?name reg3 = None"
    by (simp add: Registry_open_def Registry_get_def)
  moreover have "Registry_get ?name ?reg2 \<noteq> None" by (simp add: Registry_get_def h(1))
  ultimately show ?thesis by (simp add: checks steps second)
qed

lemma create_race_loses_collection_witness:
  "\<exists>e reg1 reg2 reg3.
     create_steps mem_env meta_codec \<lparr>cm_name = ''c'', cm_metric = Cosine, cm_dimension = Dimension 1,
       cm_index_type = Choice_Flat, cm_hnsw = None\<rparr> (Registry_new \<lparr>dk_entries = Some [], dk_faults = []\<rparr>) = (Inr (), reg1) \<and>
     create_steps mem_env meta_codec \<lparr>cm_name = ''c'', cm_metric = Cosine, cm_dimension = Dimension 2,
       cm_index_type = Choice_Flat, cm_hnsw = None\<rparr> reg1 = (Inl e, reg2) \<and>
     Registry_open mem_env meta_codec (rg_disk reg2) = Inr reg3 \<and> Registry_get ''c'' reg3 = None"
proof -
  let ?a = "\<lparr>cm_name = ''c'', cm_metric = Cosine, cm_dimension = Dimension 1, cm_index_type = Choice_Flat, cm_hnsw = None\<rparr>"
  let ?b = "\<lparr>cm_name = ''c'', cm_metric = Cosine, cm_dimension = Dimension 2, cm_index_type = Choice_Flat, cm_hnsw = None\<rparr>"
  have ok: "meta_ok ?a" "meta_ok ?b" "is_valid_name (cm_name ?a)"
    by (simp_all add: meta_ok_def Dimension_get_def) code_simp
  have eqs: "cm_name ?b = cm_name ?a" "cm_index_type ?a = Choice_Flat" "cm_index_type ?b = Choice_Flat"
    "cm_metric ?b \<noteq> cm_metric ?a \<or> cm_dimension ?b \<noteq> cm_dimension ?a" by simp_all
  from create_race_loses_collection [OF mem_env_ok meta_codec_fine ok eqs refl] show ?thesis
    by (auto split: prod.splits)
qed

end
