(* ===== verification/Service.thy ===== *)
theory Service
  imports Registry
begin

text \<open>
  The RPC handlers of \<open>eidosdb-server/src/service.rs\<close> and \<open>hnsw_params.rs\<close>, over the registry. A handler takes the
  decoded message and returns a response or a status, with the registry it leaves. The transport, tasks and
  locks are left out: one handler runs at a time, except that the chunks of a bulk upsert arrive as a list.
\<close>

section \<open>Messages\<close>

record PbHnswParams =
  php_m :: "u32 option"
  php_ef_construction :: "u32 option"
  php_ef_search :: "u32 option"
  php_seed :: "u64 option"

record PbCreateCollection =
  pbcc_name :: string
  pbcc_metric :: i32
  pbcc_dimension :: u32
  pbcc_index_type :: i32
  pbcc_hnsw_params :: "PbHnswParams option"

record PbCollectionInfo =
  pbci_name :: string
  pbci_metric :: i32
  pbci_dimension :: u32
  pbci_index_type :: i32
  pbci_count :: u64

record PbUpsert =
  pbu_collection :: string
  pbu_point :: "PbPoint option"

record PbDelete =
  pbdel_collection :: string
  pbdel_id :: "u8 list"

definition PbIndexType_as_i32 :: "PbIndexType \<Rightarrow> i32" where
  "PbIndexType_as_i32 t = (case t of Pb_Index_Unspecified \<Rightarrow> 0 | Pb_Flat \<Rightarrow> 1 | Pb_Hnsw \<Rightarrow> 2)"

definition PbIndexType_try_from :: "i32 \<Rightarrow> PbIndexType option" where
  "PbIndexType_try_from raw =
     (if raw = 0 then Some Pb_Index_Unspecified else if raw = 1 then Some Pb_Flat
      else if raw = 2 then Some Pb_Hnsw else None)"

definition invalid_argument :: "string \<Rightarrow> Status" where
  "invalid_argument msg = Status InvalidArgument msg"

section \<open>Parameters of an HNSW collection\<close>

definition positive_or_default :: "u32 option \<Rightarrow> nat \<Rightarrow> string \<Rightarrow> Status + nat" where
  "positive_or_default v fallback field =
     (case v of
        None \<Rightarrow> Inr fallback
      | Some raw \<Rightarrow>
          if raw = 0 then Inl (invalid_argument (field @ '' must be positive when present''))
          else if unat raw \<le> usize_max then Inr (unat raw)
          else Inl (invalid_argument (field @ '' out of range'')))"

definition hnsw_config_from_pb :: "Metric \<Rightarrow> PbHnswParams option \<Rightarrow> Status + HnswConfig" where
  "hnsw_config_from_pb metric params =
     (let params = (case params of
            Some params \<Rightarrow> params
          | None \<Rightarrow> \<lparr>php_m = None, php_ef_construction = None, php_ef_search = None, php_seed = None\<rparr>);
          defaults = HnswConfig_default in
      res_bind (positive_or_default (php_m params) (cfg_m defaults) ''m'') (\<lambda>m.
      res_bind (positive_or_default (php_ef_construction params) (cfg_ef_construction defaults) ''ef_construction'')
        (\<lambda>ef_construction.
      res_bind (positive_or_default (php_ef_search params) (cfg_ef_search defaults) ''ef_search'') (\<lambda>ef_search.
        let seed = (case php_seed params of Some seed \<Rightarrow> seed | None \<Rightarrow> cfg_seed defaults) in
        map_err (\<lambda>e. invalid_argument (HnswConfigError_message e))
          (HnswConfig_new metric m ef_construction ef_search seed)))))"

section \<open>Statuses and guards\<close>

fun server_error_to_status :: "ServerError \<Rightarrow> Status" where
  "server_error_to_status (Sv_BadName msg) = invalid_argument msg"
| "server_error_to_status (Sv_AlreadyExists msg) = Status AlreadyExists msg"
| "server_error_to_status (Sv_Io msg) = Status Internal msg"
| "server_error_to_status (Sv_Serde msg) = Status Internal msg"
| "server_error_to_status (Sv_Storage msg) = Status Internal msg"
| "server_error_to_status (Sv_Index msg) = Status Internal msg"

definition ensure_dimension :: "DecodedPoint list \<Rightarrow> nat \<Rightarrow> Status + unit" where
  "ensure_dimension points expected =
     (case List.find (\<lambda>got. got \<noteq> expected) (map (\<lambda>p. Dimension_get (Embedding_dimension (dp_embedding p))) points) of
        Some got \<Rightarrow> Inl (invalid_argument
          (''vector dimension mismatch: expected '' @ string_of_nat expected @ '', got '' @ string_of_nat got))
      | None \<Rightarrow> Inr ())"

text \<open>
  The handle shares the collection with the registry. After a drop the handle keeps the collection alive, but
  nothing reaches it any more.
\<close>

definition run_blocking ::
  "'d CollectionHandle \<Rightarrow> ('d CollectionKind \<Rightarrow> (Status + 'a) \<times> 'd CollectionKind) \<Rightarrow> 'd Registry \<Rightarrow>
   (Status + 'a) \<times> 'd Registry" where
  "run_blocking handle f reg =
     (case Registry_get (cm_name (ch_meta handle)) reg of
        None \<Rightarrow> (fst (f (ch_inner handle)), reg)
      | Some handle \<Rightarrow> (case f (ch_inner handle) of (r, kind) \<Rightarrow> (r, put_kind handle kind reg)))"

definition run_blocking_read ::
  "'d CollectionHandle \<Rightarrow> ('d CollectionKind \<Rightarrow> Status + 'a) \<Rightarrow> Status + 'a" where
  "run_blocking_read handle f = f (ch_inner handle)"

definition find_handle :: "string \<Rightarrow> 'd Registry \<Rightarrow> Status + 'd CollectionHandle" where
  "find_handle name reg = ok_or (not_found name) (Registry_get name reg)"

section \<open>The lifecycle of collections\<close>

definition create_meta :: "PbCreateCollection \<Rightarrow> Status + CollectionMeta" where
  "create_meta req =
     res_bind (ok_or (invalid_argument ''unknown metric value'') (PbMetric_try_from (pbcc_metric req))) (\<lambda>pb_metric.
     res_bind (map_err conversion_error_to_status (metric_from_pb pb_metric)) (\<lambda>metric.
     res_bind (map_err (\<lambda>e. invalid_argument (DimensionError_message e)) (Dimension_try_from (pbcc_dimension req)))
       (\<lambda>dimension.
     res_bind (ok_or (invalid_argument ''unknown index_type value'') (PbIndexType_try_from (pbcc_index_type req)))
       (\<lambda>pb_index_type.
     res_bind (map_err conversion_error_to_status (index_type_from_pb pb_index_type)) (\<lambda>index_type.
     res_bind (if index_type = Choice_Hnsw then map_res Some (hnsw_config_from_pb metric (pbcc_hnsw_params req))
               else Inr None) (\<lambda>hnsw.
       Inr \<lparr>cm_name = pbcc_name req, cm_metric = metric, cm_dimension = dimension, cm_index_type = index_type,
            cm_hnsw = hnsw\<rparr>))))))"

definition create_collection ::
  "'d Env \<Rightarrow> CollectionMeta Codec \<Rightarrow> PbCreateCollection \<Rightarrow> 'd Registry \<Rightarrow> (Status + unit) \<times> 'd Registry" where
  "create_collection E MC req reg =
     (case create_meta req of
        Inl status \<Rightarrow> (Inl status, reg)
      | Inr meta \<Rightarrow> (case Registry_create E MC meta reg of (r, reg) \<Rightarrow> (map_err server_error_to_status r, reg)))"

definition drop_collection :: "string \<Rightarrow> 'd Registry \<Rightarrow> (Status + bool) \<times> 'd Registry" where
  "drop_collection name reg =
     (case Registry_drop_collection name reg of (r, reg) \<Rightarrow> (map_err server_error_to_status r, reg))"

definition collection_info :: "CollectionMeta \<Rightarrow> u64 \<Rightarrow> PbCollectionInfo" where
  "collection_info meta n =
     \<lparr>pbci_name = cm_name meta, pbci_metric = PbMetric_as_i32 (metric_to_pb (cm_metric meta)),
      pbci_dimension = (case u32_of_usize [] (Dimension_get (cm_dimension meta)) of Inl _ \<Rightarrow> 0 | Inr d \<Rightarrow> d),
      pbci_index_type = PbIndexType_as_i32 (index_type_to_pb (cm_index_type meta)), pbci_count = n\<rparr>"

definition list_collections :: "'d Env \<Rightarrow> 'd Registry \<Rightarrow> PbCollectionInfo list" where
  "list_collections E reg =
     map (\<lambda>meta. collection_info meta
         (case Registry_get (cm_name meta) reg of None \<Rightarrow> 0 | Some h \<Rightarrow> word_of_nat (Kind_len E (ch_inner h))))
       (Registry_list reg)"

definition describe_collection :: "'d Env \<Rightarrow> string \<Rightarrow> 'd Registry \<Rightarrow> Status + PbCollectionInfo" where
  "describe_collection E name reg =
     map_res (\<lambda>h. collection_info (ch_meta h) (word_of_nat (Kind_len E (ch_inner h)))) (find_handle name reg)"

section \<open>Writes\<close>

definition upsert_point ::
  "'d Env \<Rightarrow> DecodedPoint \<Rightarrow> 'd CollectionKind \<Rightarrow> (Status + unit) \<times> 'd CollectionKind" where
  "upsert_point E p kind =
     (case Kind_upsert E (dp_id p) (dp_embedding p) (dp_document p) (dp_payload p) kind of
        (r, kind) \<Rightarrow> (map_err (query_error_to_status (env_fmt_id E)) r, kind))"

fun upsert_points ::
  "'d Env \<Rightarrow> DecodedPoint list \<Rightarrow> 'd CollectionKind \<Rightarrow> (Status + unit) \<times> 'd CollectionKind" where
  "upsert_points E [] kind = (Inr (), kind)"
| "upsert_points E (p # ps) kind = then_do (upsert_point E p kind) (\<lambda>_ kind. upsert_points E ps kind)"

definition upsert ::
  "'d Env \<Rightarrow> PbUpsert \<Rightarrow> 'd Registry \<Rightarrow> (Status + unit) \<times> 'd Registry" where
  "upsert E req reg =
     (case res_bind (find_handle (pbu_collection req) reg) (\<lambda>handle.
           res_bind (ok_or (invalid_argument ''missing point'') (pbu_point req)) (\<lambda>point.
             let expected = Dimension_get (cm_dimension (ch_meta handle)); got = length (pbpt_vector point) in
             if got \<noteq> expected
             then Inl (invalid_argument (''vector dimension mismatch: expected '' @ string_of_nat expected @
                     '', got '' @ string_of_nat got))
             else map_res (Pair handle)
               (map_err conversion_error_to_status (point_from_pb (env_unicode E) (env_fmt_id E) point)))) of
        Inl status \<Rightarrow> (Inl status, reg)
      | Inr (handle, decoded) \<Rightarrow> run_blocking handle (upsert_point E decoded) reg)"

definition u64_of_usize :: "nat \<Rightarrow> u64" where
  "u64_of_usize n = (if n < 2 ^ 64 then word_of_nat n else - 1)"

definition batch_upsert ::
  "'d Env \<Rightarrow> PbPointBatch option \<Rightarrow> 'd Registry \<Rightarrow> (Status + u64) \<times> 'd Registry" where
  "batch_upsert E req reg =
     (case res_bind (map_err conversion_error_to_status (batch_upsert_from_pb (env_unicode E) (env_fmt_id E) req))
           (\<lambda>(coll, points).
             res_bind (find_handle coll reg) (\<lambda>handle.
             res_bind (ensure_dimension points (Dimension_get (cm_dimension (ch_meta handle)))) (\<lambda>_.
               Inr (handle, points)))) of
        Inl status \<Rightarrow> (Inl status, reg)
      | Inr (handle, points) \<Rightarrow>
          (case run_blocking handle (upsert_points E points) reg of
             (r, reg) \<Rightarrow> (map_res (\<lambda>_. u64_of_usize (length points)) r, reg)))"

text \<open>
  The loop of \<open>bulk_upsert\<close>: \<open>points\<close> is the pending chunk, \<open>stream\<close> what is still to arrive, a message being the
  request or the error of the transport.
\<close>

fun bulk_chunks ::
  "'d Env \<Rightarrow> 'd CollectionHandle \<Rightarrow> string \<Rightarrow> DecodedPoint list \<Rightarrow> (Status + PbPointBatch option) list \<Rightarrow> u64 \<Rightarrow>
   'd Registry \<Rightarrow> (Status + u64) \<times> 'd Registry" where
  "bulk_chunks E handle coll points stream upserted reg =
     (case ensure_dimension points (Dimension_get (cm_dimension (ch_meta handle))) of
        Inl status \<Rightarrow> (Inl status, reg)
      | Inr _ \<Rightarrow>
          then_do (run_blocking handle (upsert_points E points) reg) (\<lambda>_ reg.
            let upserted = upserted + u64_of_usize (length points) in
            case stream of
              [] \<Rightarrow> (Inr upserted, reg)
            | message # stream \<Rightarrow>
                (case res_bind message (\<lambda>req.
                      map_err conversion_error_to_status (bulk_upsert_from_pb (env_unicode E) (env_fmt_id E) req)) of
                   Inl status \<Rightarrow> (Inl status, reg)
                 | Inr (chunk_coll, points) \<Rightarrow>
                     if chunk_coll \<noteq> [] \<and> chunk_coll \<noteq> coll
                     then (Inl (invalid_argument ''bulk_upsert stream changed collection mid-stream''), reg)
                     else bulk_chunks E handle coll points stream upserted reg)))"

definition bulk_upsert ::
  "'d Env \<Rightarrow> (Status + PbPointBatch option) list \<Rightarrow> 'd Registry \<Rightarrow> (Status + u64) \<times> 'd Registry" where
  "bulk_upsert E stream reg =
     (case stream of
        [] \<Rightarrow> (Inl (invalid_argument ''bulk_upsert stream carried no messages''), reg)
      | first # stream \<Rightarrow>
          (case res_bind first (\<lambda>req.
                res_bind (map_err conversion_error_to_status (bulk_upsert_from_pb (env_unicode E) (env_fmt_id E) req))
                  (\<lambda>(coll, points).
                    map_res (\<lambda>handle. (coll, points, handle)) (find_handle coll reg))) of
             Inl status \<Rightarrow> (Inl status, reg)
           | Inr (coll, points, handle) \<Rightarrow> bulk_chunks E handle coll points stream 0 reg))"

definition delete :: "'d Env \<Rightarrow> PbDelete \<Rightarrow> 'd Registry \<Rightarrow> (Status + bool) \<times> 'd Registry" where
  "delete E req reg =
     (case res_bind (find_handle (pbdel_collection req) reg) (\<lambda>handle.
           map_res (Pair handle) (map_err conversion_error_to_status (vector_id_from_pb (pbdel_id req)))) of
        Inl status \<Rightarrow> (Inl status, reg)
      | Inr (handle, i) \<Rightarrow>
          run_blocking handle (\<lambda>kind. case Kind_delete E i kind of
            (r, kind) \<Rightarrow> (map_err (query_error_to_status (env_fmt_id E)) r, kind)) reg)"

definition delete_by_filter :: "'d Env \<Rightarrow> PbDeleteByFilter \<Rightarrow> 'd Registry \<Rightarrow> (Status + u64) \<times> 'd Registry" where
  "delete_by_filter E req reg =
     (case res_bind (map_err conversion_error_to_status (delete_by_filter_from_pb req)) (\<lambda>(coll, f).
           map_res (\<lambda>handle. (handle, f)) (find_handle coll reg)) of
        Inl status \<Rightarrow> (Inl status, reg)
      | Inr (handle, f) \<Rightarrow>
          run_blocking handle (\<lambda>kind. case Kind_delete_by_filter E f kind of
            (r, kind) \<Rightarrow> (map_res word_of_nat (map_err (query_error_to_status (env_fmt_id E)) r), kind)) reg)"

definition compact_collection :: "'d Env \<Rightarrow> string \<Rightarrow> 'd Registry \<Rightarrow> (Status + unit) \<times> 'd Registry" where
  "compact_collection E name reg =
     (case find_handle name reg of
        Inl status \<Rightarrow> (Inl status, reg)
      | Inr handle \<Rightarrow>
          run_blocking handle (\<lambda>kind. case Kind_compact E kind of
            (r, kind) \<Rightarrow> (map_err server_error_to_status r, kind)) reg)"

section \<open>Searches\<close>

definition query_mismatch :: "nat \<Rightarrow> nat \<Rightarrow> Status" where
  "query_mismatch expected got = invalid_argument
     (''query dimension mismatch: expected '' @ string_of_nat expected @ '', got '' @ string_of_nat got)"

definition search_collection :: "'d Env \<Rightarrow> PbSearchRequest \<Rightarrow> 'd Registry \<Rightarrow> Status + PbHit list" where
  "search_collection E req reg =
     res_bind (map_err conversion_error_to_status (search_query_from_pb (env_fmt_id E) req)) (\<lambda>(name, query).
     res_bind (find_handle name reg) (\<lambda>handle.
       let expected = Dimension_get (cm_dimension (ch_meta handle));
           got = Dimension_get (Embedding_dimension (sq_embedding query)) in
       if got \<noteq> expected then Inl (query_mismatch expected got)
       else map_res hits_to_pb
         (run_blocking_read handle (\<lambda>kind. map_err (query_error_to_status (env_fmt_id E)) (Kind_search E query kind)))))"

definition search_hybrid :: "'d Env \<Rightarrow> PbSearchHybridRequest \<Rightarrow> 'd Registry \<Rightarrow> Status + PbHit list" where
  "search_hybrid E req reg =
     res_bind (map_err conversion_error_to_status (hybrid_query_from_pb (env_fmt_id E) req)) (\<lambda>(name, query).
     res_bind (find_handle name reg) (\<lambda>handle.
       let expected = Dimension_get (cm_dimension (ch_meta handle));
           run = map_res hybrid_hits_to_pb (run_blocking_read handle (\<lambda>kind.
             map_err (query_error_to_status (env_fmt_id E)) (Kind_search_hybrid E query kind))) in
       case hq_vector query of
         Some vector \<Rightarrow>
           (let got = Dimension_get (Embedding_dimension vector)
            in if got \<noteq> expected then Inl (query_mismatch expected got) else run)
       | None \<Rightarrow> run))"

end
