(* ===== verification/Client.thy ===== *)
theory Client
  imports Service
begin

text \<open>
  The client library \<open>eidosdb-client/src/lib.rs\<close>: each method encodes its arguments, calls the stub and decodes the answer. The
  stub is generated from the interface definition; it is a record of calls on a channel of type \<open>'s\<close>, and
  \<open>service_stub\<close> is the one that hands every message to the handlers unchanged.
\<close>

section \<open>Errors and views\<close>

datatype ClientError = Ce_Transport string | Ce_Status Status | Ce_Conversion ConversionError

fun ClientError_to_string :: "(Status \<Rightarrow> string) \<Rightarrow> ClientError \<Rightarrow> string" where
  "ClientError_to_string fmt_status (Ce_Transport msg) = ''transport error: '' @ msg"
| "ClientError_to_string fmt_status (Ce_Status status) = ''server error: '' @ fmt_status status"
| "ClientError_to_string fmt_status (Ce_Conversion error) = ''conversion error: '' @ ConversionError_to_string error"

definition out_of_range :: "string \<Rightarrow> ClientError" where
  "out_of_range field = Ce_Conversion (Domain (field @ '' out of range''))"

definition narrow_u32 :: "nat \<Rightarrow> string \<Rightarrow> ClientError + u32" where
  "narrow_u32 n field = (if n \<le> u32_max then Inr (word_of_nat n) else Inl (out_of_range field))"

record CollectionSpec =
  csp_name :: string
  csp_metric :: Metric
  csp_dimension :: Dimension
  csp_index_type :: IndexTypeChoice
  csp_hnsw :: "HnswConfig option"

record CollectionMetaView =
  cmv_name :: string
  cmv_metric :: Metric
  cmv_dimension :: Dimension
  cmv_index_type :: IndexTypeChoice
  cmv_count :: u64

record PointInput =
  pin_id :: VectorId
  pin_embedding :: Embedding
  pin_document :: "Document option"
  pin_payload :: "Payload option"

definition collection_info_to_view :: "PbCollectionInfo \<Rightarrow> ClientError + CollectionMetaView" where
  "collection_info_to_view info =
     res_bind (res_bind (ok_or (out_of_range ''metric'') (PbMetric_try_from (pbci_metric info)))
       (\<lambda>m. map_err Ce_Conversion (metric_from_pb m))) (\<lambda>metric.
     res_bind (res_bind (ok_or (out_of_range ''index_type'') (PbIndexType_try_from (pbci_index_type info)))
       (\<lambda>t. map_err Ce_Conversion (index_type_from_pb t))) (\<lambda>index_type.
     res_bind (map_err (\<lambda>_. out_of_range ''dimension'') (Dimension_try_from (pbci_dimension info))) (\<lambda>dimension.
       Inr \<lparr>cmv_name = pbci_name info, cmv_metric = metric, cmv_dimension = dimension, cmv_index_type = index_type,
            cmv_count = pbci_count info\<rparr>)))"

section \<open>The stub\<close>

record 's Stub =
  st_create_collection :: "PbCreateCollection \<Rightarrow> 's \<Rightarrow> (Status + unit) \<times> 's"
  st_drop_collection :: "string \<Rightarrow> 's \<Rightarrow> (Status + bool) \<times> 's"
  st_list_collections :: "'s \<Rightarrow> (Status + PbCollectionInfo list) \<times> 's"
  st_describe_collection :: "string \<Rightarrow> 's \<Rightarrow> (Status + PbCollectionInfo option) \<times> 's"
  st_upsert :: "PbUpsert \<Rightarrow> 's \<Rightarrow> (Status + unit) \<times> 's"
  st_batch_upsert :: "PbPointBatch option \<Rightarrow> 's \<Rightarrow> (Status + u64) \<times> 's"
  st_bulk_upsert :: "PbPointBatch option list \<Rightarrow> 's \<Rightarrow> (Status + u64) \<times> 's"
  st_delete :: "PbDelete \<Rightarrow> 's \<Rightarrow> (Status + bool) \<times> 's"
  st_delete_by_filter :: "PbDeleteByFilter \<Rightarrow> 's \<Rightarrow> (Status + u64) \<times> 's"
  st_compact :: "string \<Rightarrow> 's \<Rightarrow> (Status + unit) \<times> 's"
  st_search :: "PbSearchRequest \<Rightarrow> 's \<Rightarrow> (Status + PbHit list) \<times> 's"
  st_search_hybrid :: "PbSearchHybridRequest \<Rightarrow> 's \<Rightarrow> (Status + PbHit list) \<times> 's"

definition service_stub :: "'d Env \<Rightarrow> CollectionMeta Codec \<Rightarrow> 'd Registry Stub" where
  "service_stub E MC =
     \<lparr>st_create_collection = create_collection E MC, st_drop_collection = drop_collection,
      st_list_collections = (\<lambda>reg. (Inr (list_collections E reg), reg)),
      st_describe_collection = (\<lambda>name reg. (map_res Some (describe_collection E name reg), reg)),
      st_upsert = upsert E, st_batch_upsert = batch_upsert E,
      st_bulk_upsert = (\<lambda>requests. bulk_upsert E (map Inr requests)),
      st_delete = delete E, st_delete_by_filter = delete_by_filter E, st_compact = compact_collection E,
      st_search = (\<lambda>req reg. (search_collection E req reg, reg)),
      st_search_hybrid = (\<lambda>req reg. (search_hybrid E req reg, reg))\<rparr>"

text \<open>\<open>?\<close> on the result of a call.\<close>

definition call :: "(Status + 'a) \<times> 's \<Rightarrow> (ClientError + 'a) \<times> 's" where
  "call out = apfst (map_err Ce_Status) out"

section \<open>The methods\<close>

definition hnsw_to_pb :: "HnswConfig \<Rightarrow> ClientError + PbHnswParams" where
  "hnsw_to_pb config =
     res_bind (narrow_u32 (cfg_m config) ''m'') (\<lambda>m.
     res_bind (narrow_u32 (cfg_ef_construction config) ''ef_construction'') (\<lambda>ef_construction.
     res_bind (narrow_u32 (cfg_ef_search config) ''ef_search'') (\<lambda>ef_search.
       Inr \<lparr>php_m = Some m, php_ef_construction = Some ef_construction, php_ef_search = Some ef_search,
            php_seed = Some (cfg_seed config)\<rparr>)))"

definition create_request :: "CollectionSpec \<Rightarrow> ClientError + PbCreateCollection" where
  "create_request spec =
     res_bind (narrow_u32 (Dimension_get (csp_dimension spec)) ''dimension'') (\<lambda>dimension.
     res_bind (transpose_opt hnsw_to_pb (csp_hnsw spec)) (\<lambda>hnsw_params.
       Inr \<lparr>pbcc_name = csp_name spec, pbcc_metric = PbMetric_as_i32 (metric_to_pb (csp_metric spec)),
            pbcc_dimension = dimension, pbcc_index_type = PbIndexType_as_i32 (index_type_to_pb (csp_index_type spec)),
            pbcc_hnsw_params = hnsw_params\<rparr>))"

definition Client_create_collection :: "'s Stub \<Rightarrow> CollectionSpec \<Rightarrow> 's \<Rightarrow> (ClientError + unit) \<times> 's" where
  "Client_create_collection stub spec s =
     (case create_request spec of
        Inl e \<Rightarrow> (Inl e, s)
      | Inr request \<Rightarrow> call (st_create_collection stub request s))"

definition Client_drop_collection :: "'s Stub \<Rightarrow> string \<Rightarrow> 's \<Rightarrow> (ClientError + bool) \<times> 's" where
  "Client_drop_collection stub name s = call (st_drop_collection stub name s)"

definition Client_list_collections :: "'s Stub \<Rightarrow> 's \<Rightarrow> (ClientError + CollectionMetaView list) \<times> 's" where
  "Client_list_collections stub s =
     then_do (call (st_list_collections stub s)) (\<lambda>infos s. (traverse collection_info_to_view infos, s))"

definition Client_describe_collection :: "'s Stub \<Rightarrow> string \<Rightarrow> 's \<Rightarrow> (ClientError + CollectionMetaView) \<times> 's" where
  "Client_describe_collection stub name s =
     then_do (call (st_describe_collection stub name s)) (\<lambda>response s.
       (res_bind (ok_or (Ce_Conversion (MissingField ''describe_collection.collection'')) response)
          collection_info_to_view, s))"

definition Client_upsert ::
  "'s Stub \<Rightarrow> string \<Rightarrow> VectorId \<Rightarrow> Embedding \<Rightarrow> Document option \<Rightarrow> Payload option \<Rightarrow> 's \<Rightarrow> (ClientError + unit) \<times> 's" where
  "Client_upsert stub coll i embedding document payload s =
     call (st_upsert stub \<lparr>pbu_collection = coll, pbu_point = Some (point_to_pb i embedding document payload)\<rparr> s)"

definition pb_point :: "PointInput \<Rightarrow> PbPoint" where
  "pb_point p = point_to_pb (pin_id p) (pin_embedding p) (pin_document p) (pin_payload p)"

definition Client_batch_upsert :: "'s Stub \<Rightarrow> string \<Rightarrow> PointInput list \<Rightarrow> 's \<Rightarrow> (ClientError + u64) \<times> 's" where
  "Client_batch_upsert stub coll points s =
     call (st_batch_upsert stub (Some (point_batch_to_pb coll (map pb_point points))) s)"

definition Client_delete :: "'s Stub \<Rightarrow> string \<Rightarrow> VectorId \<Rightarrow> 's \<Rightarrow> (ClientError + bool) \<times> 's" where
  "Client_delete stub coll i s = call (st_delete stub \<lparr>pbdel_collection = coll, pbdel_id = vector_id_to_pb i\<rparr> s)"

definition Client_delete_by_filter :: "'s Stub \<Rightarrow> string \<Rightarrow> Filter \<Rightarrow> 's \<Rightarrow> (ClientError + u64) \<times> 's" where
  "Client_delete_by_filter stub coll f s = call (st_delete_by_filter stub (delete_by_filter_to_pb coll f) s)"

definition Client_compact :: "'s Stub \<Rightarrow> string \<Rightarrow> 's \<Rightarrow> (ClientError + unit) \<times> 's" where
  "Client_compact stub coll s = call (st_compact stub coll s)"

definition Client_search :: "'s Stub \<Rightarrow> string \<Rightarrow> SearchQuery \<Rightarrow> 's \<Rightarrow> (ClientError + SearchHit list) \<times> 's" where
  "Client_search stub coll query s =
     (case search_query_to_pb coll query of
        Inl e \<Rightarrow> (Inl (Ce_Conversion e), s)
      | Inr request \<Rightarrow>
          then_do (call (st_search stub request s)) (\<lambda>response s. (map_err Ce_Conversion (hits_from_pb response), s)))"

definition Client_search_hybrid :: "'s Stub \<Rightarrow> string \<Rightarrow> HybridQuery \<Rightarrow> 's \<Rightarrow> (ClientError + SearchHit list) \<times> 's" where
  "Client_search_hybrid stub coll query s =
     (case hybrid_query_to_pb coll query of
        Inl e \<Rightarrow> (Inl (Ce_Conversion e), s)
      | Inr request \<Rightarrow>
          then_do (call (st_search_hybrid stub request s)) (\<lambda>response s.
            (map_err Ce_Conversion (hybrid_hits_from_pb response), s)))"

definition Client_bulk_upsert :: "'s Stub \<Rightarrow> string \<Rightarrow> PointInput list list \<Rightarrow> 's \<Rightarrow> (ClientError + u64) \<times> 's" where
  "Client_bulk_upsert stub coll chunks s =
     call (st_bulk_upsert stub (map (\<lambda>chunk. Some (point_batch_to_pb coll (map pb_point chunk))) chunks) s)"

end
