(* ===== verification/Service_Correct.thy ===== *)
theory Service_Correct
  imports Service Registry_Correct
begin

text \<open>
  The service refines an abstract machine: a map from names to metadata and the three maps of a collection. The machine
  decodes a request as the handlers do, checks it, and only then changes the maps; the handlers run the stores
  underneath and the machine is what they are proved to do, over any requests and restarts.
\<close>

section \<open>The abstract service\<close>

datatype rpc =
    Rpc_create PbCreateCollection
  | Rpc_drop string
  | Rpc_upsert PbUpsert
  | Rpc_batch_upsert "PbPointBatch option"
  | Rpc_bulk_upsert "(Status + PbPointBatch option) list"
  | Rpc_delete PbDelete
  | Rpc_delete_by_filter PbDeleteByFilter

datatype rpc_reply = Unit_reply "Status + unit" | Bool_reply "Status + bool" | Count_reply "Status + u64"

datatype service_event = Rpc rpc | Service_restart

fun rpc_step :: "'d Env \<Rightarrow> CollectionMeta Codec \<Rightarrow> rpc \<Rightarrow> 'd Registry \<Rightarrow> rpc_reply \<times> 'd Registry" where
  "rpc_step E MC (Rpc_create req) reg = apfst Unit_reply (create_collection E MC req reg)"
| "rpc_step E MC (Rpc_drop name) reg = apfst Bool_reply (drop_collection name reg)"
| "rpc_step E MC (Rpc_upsert req) reg = apfst Unit_reply (upsert E req reg)"
| "rpc_step E MC (Rpc_batch_upsert req) reg = apfst Count_reply (batch_upsert E req reg)"
| "rpc_step E MC (Rpc_bulk_upsert stream) reg = apfst Count_reply (bulk_upsert E stream reg)"
| "rpc_step E MC (Rpc_delete req) reg = apfst Bool_reply (delete E req reg)"
| "rpc_step E MC (Rpc_delete_by_filter req) reg = apfst Count_reply (delete_by_filter E req reg)"

definition apply_point :: "Unicode \<Rightarrow> DecodedPoint \<Rightarrow> col_spec \<Rightarrow> col_spec" where
  "apply_point U p cs = \<lparr>sp_vectors = (sp_vectors cs)(dp_id p \<mapsto> dp_embedding p),
     sp_docs = (sp_docs cs)(dp_id p := map_option (bag U) (dp_document p)),
     sp_payloads = (sp_payloads cs)(dp_id p := dp_payload p)\<rparr>"

abbreviation apply_points :: "Unicode \<Rightarrow> DecodedPoint list \<Rightarrow> col_spec \<Rightarrow> col_spec" where
  "apply_points U ps cs \<equiv> fold (apply_point U) ps cs"

definition spec_find :: "string \<Rightarrow> reg_spec \<Rightarrow> Status + CollectionMeta \<times> col_spec" where
  "spec_find name st = ok_or (not_found name) (st name)"

definition create_spec :: "PbCreateCollection \<Rightarrow> reg_spec \<Rightarrow> (Status + unit) \<times> reg_spec" where
  "create_spec req st =
     (case create_meta req of
        Inl status \<Rightarrow> (Inl status, st)
      | Inr meta \<Rightarrow>
          if \<not> is_valid_name (cm_name meta) then (Inl (invalid_argument (cm_name meta)), st)
          else if st (cm_name meta) \<noteq> None then (Inl (Status AlreadyExists (cm_name meta)), st)
          else (Inr (), st(cm_name meta \<mapsto> (meta, empty_spec))))"

definition upsert_spec :: "'d Env \<Rightarrow> PbUpsert \<Rightarrow> reg_spec \<Rightarrow> (Status + unit) \<times> reg_spec" where
  "upsert_spec E req st =
     (case res_bind (spec_find (pbu_collection req) st) (\<lambda>(meta, cs).
           res_bind (ok_or (invalid_argument ''missing point'') (pbu_point req)) (\<lambda>point.
             let expected = Dimension_get (cm_dimension meta); got = length (pbpt_vector point) in
             if got \<noteq> expected
             then Inl (invalid_argument (''vector dimension mismatch: expected '' @ string_of_nat expected @
                     '', got '' @ string_of_nat got))
             else map_res (\<lambda>p. (meta, apply_point (env_unicode E) p cs))
               (map_err conversion_error_to_status (point_from_pb (env_unicode E) (env_fmt_id E) point)))) of
        Inl status \<Rightarrow> (Inl status, st)
      | Inr new \<Rightarrow> (Inr (), st(pbu_collection req \<mapsto> new)))"

definition batch_spec :: "'d Env \<Rightarrow> PbPointBatch option \<Rightarrow> reg_spec \<Rightarrow> (Status + u64) \<times> reg_spec" where
  "batch_spec E req st =
     (case res_bind (map_err conversion_error_to_status (batch_upsert_from_pb (env_unicode E) (env_fmt_id E) req))
           (\<lambda>(name, points).
             res_bind (spec_find name st) (\<lambda>(meta, cs).
             res_bind (ensure_dimension points (Dimension_get (cm_dimension meta))) (\<lambda>_.
               Inr (name, points, meta, cs)))) of
        Inl status \<Rightarrow> (Inl status, st)
      | Inr (name, points, meta, cs) \<Rightarrow>
          (Inr (u64_of_usize (length points)), st(name \<mapsto> (meta, apply_points (env_unicode E) points cs))))"

text \<open>Chunks are applied one after the other; the first error ends the stream and keeps what came before.\<close>

fun bulk_spec_chunks ::
  "'d Env \<Rightarrow> string \<Rightarrow> CollectionMeta \<Rightarrow> DecodedPoint list \<Rightarrow> (Status + PbPointBatch option) list \<Rightarrow> u64 \<Rightarrow>
   col_spec \<Rightarrow> (Status + u64) \<times> col_spec" where
  "bulk_spec_chunks E name meta points stream upserted cs =
     (case ensure_dimension points (Dimension_get (cm_dimension meta)) of
        Inl status \<Rightarrow> (Inl status, cs)
      | Inr _ \<Rightarrow>
          (let cs = apply_points (env_unicode E) points cs; upserted = upserted + u64_of_usize (length points) in
           case stream of
             [] \<Rightarrow> (Inr upserted, cs)
           | message # stream \<Rightarrow>
               (case res_bind message (\<lambda>req.
                     map_err conversion_error_to_status (bulk_upsert_from_pb (env_unicode E) (env_fmt_id E) req)) of
                  Inl status \<Rightarrow> (Inl status, cs)
                | Inr (chunk_coll, points) \<Rightarrow>
                    if chunk_coll \<noteq> [] \<and> chunk_coll \<noteq> name
                    then (Inl (invalid_argument ''bulk_upsert stream changed collection mid-stream''), cs)
                    else bulk_spec_chunks E name meta points stream upserted cs)))"

definition bulk_spec :: "'d Env \<Rightarrow> (Status + PbPointBatch option) list \<Rightarrow> reg_spec \<Rightarrow> (Status + u64) \<times> reg_spec" where
  "bulk_spec E stream st =
     (case stream of
        [] \<Rightarrow> (Inl (invalid_argument ''bulk_upsert stream carried no messages''), st)
      | first # stream \<Rightarrow>
          (case res_bind first (\<lambda>req.
                res_bind (map_err conversion_error_to_status (bulk_upsert_from_pb (env_unicode E) (env_fmt_id E) req))
                  (\<lambda>(name, points). map_res (\<lambda>(meta, cs). (name, points, meta, cs)) (spec_find name st))) of
             Inl status \<Rightarrow> (Inl status, st)
           | Inr (name, points, meta, cs) \<Rightarrow>
               (case bulk_spec_chunks E name meta points stream 0 cs of (r, cs) \<Rightarrow> (r, st(name \<mapsto> (meta, cs))))))"

definition delete_spec :: "PbDelete \<Rightarrow> reg_spec \<Rightarrow> (Status + bool) \<times> reg_spec" where
  "delete_spec req st =
     (case res_bind (spec_find (pbdel_collection req) st) (\<lambda>(meta, cs).
           map_res (\<lambda>i. (i, meta, cs)) (map_err conversion_error_to_status (vector_id_from_pb (pbdel_id req)))) of
        Inl status \<Rightarrow> (Inl status, st)
      | Inr (i, meta, cs) \<Rightarrow> (Inr (sp_vectors cs i \<noteq> None), st(pbdel_collection req \<mapsto> (meta, drop_ids {i} cs))))"

definition delete_by_filter_spec :: "PbDeleteByFilter \<Rightarrow> reg_spec \<Rightarrow> (Status + u64) \<times> reg_spec" where
  "delete_by_filter_spec req st =
     (case res_bind (map_err conversion_error_to_status (delete_by_filter_from_pb req)) (\<lambda>(name, f).
           map_res (\<lambda>(meta, cs). (name, f, meta, cs)) (spec_find name st)) of
        Inl status \<Rightarrow> (Inl status, st)
      | Inr (name, f, meta, cs) \<Rightarrow>
          (Inr (word_of_nat (card (selected f (sp_payloads cs) \<inter> dom (sp_vectors cs)))),
           st(name \<mapsto> (meta, drop_ids (selected f (sp_payloads cs)) cs))))"

fun rpc_spec :: "'d Env \<Rightarrow> rpc \<Rightarrow> reg_spec \<Rightarrow> rpc_reply \<times> reg_spec" where
  "rpc_spec E (Rpc_create req) st = apfst Unit_reply (create_spec req st)"
| "rpc_spec E (Rpc_drop name) st = (Bool_reply (Inr (st name \<noteq> None)), st(name := None))"
| "rpc_spec E (Rpc_upsert req) st = apfst Unit_reply (upsert_spec E req st)"
| "rpc_spec E (Rpc_batch_upsert req) st = apfst Count_reply (batch_spec E req st)"
| "rpc_spec E (Rpc_bulk_upsert stream) st = apfst Count_reply (bulk_spec E stream st)"
| "rpc_spec E (Rpc_delete req) st = apfst Bool_reply (delete_spec req st)"
| "rpc_spec E (Rpc_delete_by_filter req) st = apfst Count_reply (delete_by_filter_spec req st)"

text \<open>How many records a request can add at most, and one more.\<close>

definition batch_points :: "PbPointBatch option \<Rightarrow> nat" where
  "batch_points req = (case req of None \<Rightarrow> 0 | Some b \<Rightarrow> length (pbb_points b))"

definition stream_points :: "(Status + PbPointBatch option) list \<Rightarrow> nat" where
  "stream_points stream = sum_list (map (\<lambda>m. case m of Inl _ \<Rightarrow> 0 | Inr req \<Rightarrow> batch_points req) stream)"

definition rpc_cost :: "rpc \<Rightarrow> nat" where
  "rpc_cost r = Suc (case r of Rpc_batch_upsert req \<Rightarrow> batch_points req | Rpc_bulk_upsert stream \<Rightarrow> stream_points stream | _ \<Rightarrow> 0)"

fun service_run ::
  "'d Env \<Rightarrow> CollectionMeta Codec \<Rightarrow> service_event list \<Rightarrow> 'd Registry \<Rightarrow> ServerError + rpc_reply list \<times> 'd Registry" where
  "service_run E MC [] reg = Inr ([], reg)"
| "service_run E MC (Rpc r # es) reg =
     (case rpc_step E MC r reg of (out, reg) \<Rightarrow> map_res (\<lambda>(rs, reg). (out # rs, reg)) (service_run E MC es reg))"
| "service_run E MC (Service_restart # es) reg = res_bind (Registry_open E MC (rg_disk reg)) (service_run E MC es)"

fun rpcs :: "service_event list \<Rightarrow> rpc list" where
  "rpcs [] = []"
| "rpcs (Rpc r # es) = r # rpcs es"
| "rpcs (Service_restart # es) = rpcs es"

section \<open>Points\<close>

lemma Dimension_get_inj: "Dimension_get d = Dimension_get d' \<Longrightarrow> d = d'"
  by (cases d; cases d') (simp add: Dimension_get_def word_unat_eq_iff)

lemma find_none: "List.find P xs = None \<longleftrightarrow> (\<forall>x \<in> set xs. \<not> P x)"
  by (auto simp: find_None_iff)

lemma ensure_dimension_Inr:
  "ensure_dimension points (Dimension_get d) = Inr u \<Longrightarrow> p \<in> set points \<Longrightarrow> Embedding_dimension (dp_embedding p) = d"
  by (auto simp: ensure_dimension_def find_none Dimension_get_inj split: option.splits)

lemma point_exact:
  assumes "point_from_pb U fmt_id point = Inr p" "length (pbpt_vector point) = Dimension_get d"
  shows "exact_embedding d (dp_embedding p)"
proof -
  have "embedding_from_pb fmt_id (pbpt_vector point) = Inr (dp_embedding p)"
    using assms(1) by (auto simp: point_from_pb_def)
  then have e: "dp_embedding p = Embedding (pbpt_vector point)" "embedding_ok (dp_embedding p)"
    by (auto simp: embedding_from_pb_def map_err_def Embedding_new_Inr split: sum.splits)
  have "Dimension_get (Embedding_dimension (dp_embedding p)) = Dimension_get d"
    using Embedding_dimension_get [of "dp_embedding p"] e assms(2) Dimension_get_le [of d] by (simp add: embedding_ok_def)
  then show ?thesis using e(2) by (simp add: exact_embedding_def Dimension_get_inj)
qed

lemma batch_exact:
  assumes "point_batch_from_pb U fmt_id b = Inr (c, points)" "ensure_dimension points (Dimension_get d) = Inr u" "p \<in> set points"
  shows "exact_embedding d (dp_embedding p)"
proof -
  have "traverse (point_from_pb U fmt_id) (pbb_points b) = Inr points" using assms(1) by (auto simp: point_batch_from_pb_def)
  then have "\<exists>x. point_from_pb U fmt_id x = Inr p" using assms(3)
    by (auto simp: traverse_Inr_iff list_all2_conv_all_nth in_set_conv_nth)
  then show ?thesis using ensure_dimension_Inr [OF assms(2,3)] point_from_pb_ok
    by (auto simp: exact_embedding_def point_ok_def)
qed

lemma batch_length:
  "point_batch_from_pb U fmt_id b = Inr (c, points) \<Longrightarrow> length points = length (pbb_points b)"
  by (auto simp: point_batch_from_pb_def traverse_Inr_iff dest: list_all2_lengthD)

lemma upsert_point_ok:
  assumes "kind_good E view m d k" "kind_room (Suc n) k" "exact_embedding d (dp_embedding p)"
  shows "\<exists>k'. upsert_point E p k = (Inr (), k') \<and> kind_good E view m d k' \<and> kind_room n k' \<and> same_kind k k' \<and>
    kind_view E view k' = apply_point (env_unicode E) p (kind_view E view k)"
proof -
  let ?a = "Upsert (dp_id p) (dp_embedding p) (dp_document p) (dp_payload p)"
  have a: "exact_op d ?a" and dim: "Embedding_dimension (dp_embedding p) = d" using assms(3) by (simp_all add: exact_op_def exact_embedding_def)
  obtain r k' where k': "kind_step E ?a k = (r, k')" "kind_good E view m d k'" "kind_room n k'"
    "(r, kind_view E view k') = col_spec_step (env_unicode E) d ?a (kind_view E view k)"
    using kind_step_refines [OF assms(1,2) a] by blast
  obtain r0 where r0: "Kind_upsert E (dp_id p) (dp_embedding p) (dp_document p) (dp_payload p) k = (r0, k')" "r = reply (\<lambda>_. Done) r0"
    using k'(1) by (auto split: prod.splits)
  have "r = Done" "kind_view E view k' = apply_point (env_unicode E) p (kind_view E view k)"
    using k'(4) dim by (simp_all add: apply_point_def)
  moreover from this(1) r0(2) have "r0 = Inr ()" by (cases r0) (simp_all add: reply_def)
  ultimately show ?thesis using r0(1) k' kind_step_same [OF k'(1)] by (simp add: upsert_point_def)
qed

lemma same_kind_trans: "same_kind a b \<Longrightarrow> same_kind b c \<Longrightarrow> same_kind a c"
  by (cases a; cases b; cases c) (simp_all add: same_kind_def)

lemma same_kind_refl: "same_kind a a"
  by (cases a) (simp_all add: same_kind_def)

lemma upsert_points_ok:
  "kind_good E view m d k \<Longrightarrow> kind_room (length ps + n) k \<Longrightarrow> (\<And>p. p \<in> set ps \<Longrightarrow> exact_embedding d (dp_embedding p)) \<Longrightarrow>
   \<exists>k'. upsert_points E ps k = (Inr (), k') \<and> kind_good E view m d k' \<and> kind_room n k' \<and> same_kind k k' \<and>
     kind_view E view k' = apply_points (env_unicode E) ps (kind_view E view k)"
proof (induction ps arbitrary: k)
  case Nil
  then show ?case by (simp add: same_kind_refl)
next
  case (Cons p ps)
  have room: "kind_room (Suc (length ps + n)) k" using Cons.prems(2) by simp
  obtain k1 where k1: "upsert_point E p k = (Inr (), k1)" "kind_good E view m d k1" "kind_room (length ps + n) k1" "same_kind k k1"
    "kind_view E view k1 = apply_point (env_unicode E) p (kind_view E view k)"
    using upsert_point_ok [OF Cons.prems(1) room] Cons.prems(3) by auto
  have "\<And>p. p \<in> set ps \<Longrightarrow> exact_embedding d (dp_embedding p)" using Cons.prems(3) by simp
  from Cons.IH [OF k1(2,3) this] show ?case using k1 same_kind_trans by fastforce
qed

section \<open>Requests against the registry\<close>

lemma kind_room_mono: "kind_room n k \<Longrightarrow> m \<le> n \<Longrightarrow> kind_room m k"
  by (cases k) (auto simp: kind_room_def pf_room_def pn_room_def elim: records_fit_mono)

lemma reg_room_mono: "reg_room n reg \<Longrightarrow> m \<le> n \<Longrightarrow> reg_room m reg"
  unfolding reg_room_def using kind_room_mono by blast

definition refined ::
  "'d Env \<Rightarrow> CollectionMeta Codec \<Rightarrow> ('d \<Rightarrow> tables) \<Rightarrow> nat \<Rightarrow> 'r \<times> 'd Registry \<Rightarrow> 'r \<times> reg_spec \<Rightarrow> bool" where
  "refined E MC view n out spec \<longleftrightarrow> reg_ok E MC view (snd out) \<and> reg_room n (snd out) \<and>
     (fst out, reg_view E view (snd out)) = spec"

lemma refined_same: "reg_ok E MC view reg \<Longrightarrow> reg_room n reg \<Longrightarrow> refined E MC view n (r, reg) (r, reg_view E view reg)"
  by (simp add: refined_def)

lemma refined_apfst: "refined E MC view n out spec \<Longrightarrow> refined E MC view n (apfst f out) (apfst f spec)"
  by (cases out; cases spec) (simp add: refined_def)

lemma find_handle_spec:
  "spec_find name (reg_view E view reg) = map_res (handle_view E view) (find_handle name reg)"
  by (simp add: spec_find_def reg_view_def find_handle_def Registry_get_def ok_or_def split: option.split)

lemma find_handle_Inr: "find_handle name reg = Inr h \<longleftrightarrow> map_of (rg_map reg) name = Some h"
  by (simp add: find_handle_def Registry_get_def)

lemma handle_okE:
  assumes "reg_ok E MC view reg" "map_of (rg_map reg) name = Some h"
  shows "cm_name (ch_meta h) = name"
    "kind_good E view (cm_metric (ch_meta h)) (cm_dimension (ch_meta h)) (ch_inner h)"
  using assms by (auto simp: reg_ok_def entry_ok_def)

text \<open>A write through a handle found earlier in the same request: the registry still holds the collection.\<close>

lemma run_blocking_ok:
  assumes "reg_ok E MC view reg" "reg_room n reg" "map_of (rg_map reg) name = Some h" "ch_meta h0 = ch_meta h"
    and "f (ch_inner h) = (r, k)" "same_kind (ch_inner h) k" "kind_room n k"
    and "kind_good E view (cm_metric (ch_meta h)) (cm_dimension (ch_meta h)) k"
  shows "refined E MC view n (run_blocking h0 f reg) (r, (reg_view E view reg)(name \<mapsto> (ch_meta h, kind_view E view k))) \<and>
    map_of (rg_map (snd (run_blocking h0 f reg))) name = Some (h\<lparr>ch_inner := k\<rparr>)"
proof -
  have "run_blocking h0 f reg = (r, put_kind h k reg)"
    using assms(3-5) handle_okE(1) [OF assms(1,3)] by (simp add: run_blocking_def Registry_get_def)
  then show ?thesis using put_kind_ok [OF assms(1,3,6,8)] assms(2,7) by (simp add: refined_def)
qed

lemma room_at: "reg_room n reg \<Longrightarrow> map_of (rg_map reg) name = Some h \<Longrightarrow> kind_room n (ch_inner h)"
  by (simp add: reg_room_def)

lemma create_meta_ok:
  assumes "create_meta req = Inr meta"
  shows "meta_ok meta"
proof -
  obtain m d t hnsw where d: "Dimension_try_from (pbcc_dimension req) = Inr d"
    and hnsw: "(if t = Choice_Hnsw then map_res Some (hnsw_config_from_pb m (pbcc_hnsw_params req)) else Inr None) = Inr hnsw"
    and meta: "meta = \<lparr>cm_name = pbcc_name req, cm_metric = m, cm_dimension = d, cm_index_type = t, cm_hnsw = hnsw\<rparr>"
    using assms unfolding create_meta_def by auto
  have "0 < Dimension_get d" using d by (auto simp: Dimension_try_from_def Dimension_get_def unat_gt_0 split: if_splits)
  moreover have "config_ok c \<and> cfg_metric c = m" if "hnsw_config_from_pb m (pbcc_hnsw_params req) = Inr c" for c
    using that by (auto simp: hnsw_config_from_pb_def HnswConfig_new_Inr Let_def)
  ultimately show ?thesis using hnsw by (cases t) (auto simp: meta_ok_def meta)
qed

lemma create_refines:
  assumes "env_ok E view" "env_total E" "meta_codec_ok MC" "reg_ok E MC view reg" "reg_room n reg" "\<And>d. records_fit d n"
  shows "refined E MC view n (create_collection E MC req reg) (create_spec req (reg_view E view reg))"
proof (cases "create_meta req")
  case (Inl status)
  then show ?thesis using refined_same [OF assms(4,5)] by (simp add: create_collection_def create_spec_def)
next
  case (Inr meta)
  have taken: "reg_view E view reg x = None \<longleftrightarrow> map_of (rg_map reg) x = None" for x by (simp add: reg_view_def)
  show ?thesis
  proof (cases "create_check meta reg")
    case (Inl e)
    then show ?thesis using refined_same [OF assms(4,5)]
      by (auto simp: Inr create_collection_def create_spec_def Registry_create_def create_check_def taken split: if_splits)
  next
    case ok: (Inr u)
    then have free: "is_valid_name (cm_name meta)" "reg_view E view reg (cm_name meta) = None"
      by (auto simp: create_check_def taken split: if_splits)
    have "create_check meta reg = Inr ()" using ok by simp
    from create_fresh [OF assms(1-4) create_meta_ok [OF Inr] this]
    obtain reg' where reg': "Registry_create E MC meta reg = (Inr (), reg')" "reg_ok E MC view reg'"
      "reg_view E view reg' = (reg_view E view reg)(cm_name meta \<mapsto> (meta, empty_spec))"
      "\<forall>n. reg_room n reg \<longrightarrow> records_fit (cm_dimension meta) n \<longrightarrow> reg_room n reg'" by blast
    then show ?thesis using assms(5,6) free by (simp add: Inr create_collection_def create_spec_def refined_def)
  qed
qed

lemma drop_refines:
  assumes "reg_ok E MC view reg" "reg_room n reg"
  shows "refined E MC view n (drop_collection name reg)
    (Inr (reg_view E view reg name \<noteq> None), (reg_view E view reg)(name := None))"
proof -
  from drop_ok [OF assms(1), of name] obtain reg' where
    "Registry_drop_collection name reg = (Inr (reg_view E view reg name \<noteq> None), reg')" "reg_ok E MC view reg'"
    "reg_view E view reg' = (reg_view E view reg)(name := None)" "reg_room n reg'" using assms(2) by blast
  then show ?thesis by (simp add: drop_collection_def refined_def)
qed

text \<open>Both sides look the collection up: the reply is an error on both, or they go on with the same contents.\<close>

lemma write_refines:
  assumes "reg_ok E MC view reg" "reg_room n reg" "map_of (rg_map reg) name = Some h"
    and "\<exists>k. f (ch_inner h) = (r, k) \<and> same_kind (ch_inner h) k \<and> kind_room n k \<and>
      kind_good E view (cm_metric (ch_meta h)) (cm_dimension (ch_meta h)) k \<and> kind_view E view k = cs"
  shows "refined E MC view n (run_blocking h f reg) (r, (reg_view E view reg)(name \<mapsto> (ch_meta h, cs)))"
proof -
  obtain k where k: "f (ch_inner h) = (r, k)" "same_kind (ch_inner h) k" "kind_room n k"
    "kind_good E view (cm_metric (ch_meta h)) (cm_dimension (ch_meta h)) k" "kind_view E view k = cs"
    using assms(4) by blast
  show ?thesis using run_blocking_ok [where f = f, OF assms(1-3) refl k(1-4)] k(5) by blast
qed

lemma rpc_upsert_refines:
  assumes "reg_ok E MC view reg" "reg_room (Suc n) reg"
  shows "refined E MC view n (upsert E req reg) (upsert_spec E req (reg_view E view reg))"
proof -
  have room: "reg_room n reg" using reg_room_mono [OF assms(2)] by simp
  let ?guard = "\<lambda>handle. res_bind (ok_or (invalid_argument ''missing point'') (pbu_point req)) (\<lambda>point.
      let expected = Dimension_get (cm_dimension (ch_meta handle)); got = length (pbpt_vector point) in
      if got \<noteq> expected then Inl (invalid_argument (''vector dimension mismatch: expected '' @ string_of_nat expected @
          '', got '' @ string_of_nat got))
      else map_err conversion_error_to_status (point_from_pb (env_unicode E) (env_fmt_id E) point))"
  have code: "upsert E req reg = (case res_bind (find_handle (pbu_collection req) reg) (\<lambda>h. map_res (Pair h) (?guard h)) of
      Inl status \<Rightarrow> (Inl status, reg) | Inr (handle, decoded) \<Rightarrow> run_blocking handle (upsert_point E decoded) reg)"
    unfolding upsert_def by (auto simp: Let_def ok_or_def res_bind_def split: sum.splits option.splits)
  show ?thesis
  proof (cases "find_handle (pbu_collection req) reg")
    case (Inl status)
    then show ?thesis using refined_same [OF assms(1) room] by (simp add: code upsert_spec_def find_handle_spec)
  next
    case (Inr h)
    show ?thesis
    proof (cases "?guard h")
      case (Inl status)
      then have "upsert_spec E req (reg_view E view reg) = (Inl status, reg_view E view reg)"
        using Inr by (auto simp: upsert_spec_def find_handle_spec handle_view_def Let_def ok_or_def split: option.splits if_splits)
      then show ?thesis using refined_same [OF assms(1) room] Inl Inr by (simp add: code)
    next
      case ok: (Inr p)
      then obtain point where point: "pbu_point req = Some point" "length (pbpt_vector point) = Dimension_get (cm_dimension (ch_meta h))"
        "point_from_pb (env_unicode E) (env_fmt_id E) point = Inr p" by (auto simp: Let_def split: if_splits)
      have h: "map_of (rg_map reg) (pbu_collection req) = Some h" using Inr by (simp add: find_handle_Inr)
      have spec: "upsert_spec E req (reg_view E view reg) = (Inr (), (reg_view E view reg)(pbu_collection req \<mapsto>
          (ch_meta h, apply_point (env_unicode E) p (kind_view E view (ch_inner h)))))"
        using Inr point by (simp add: upsert_spec_def find_handle_spec handle_view_def Let_def)
      have "upsert E req reg = run_blocking h (upsert_point E p) reg"
        by (simp only: code Inr ok map_res_simps res_bind_simps sum.case prod.case)
      moreover note upsert_point_ok [OF handle_okE(2) [OF assms(1) h] room_at [OF assms(2) h] point_exact [OF point(3,2)]]
      ultimately show ?thesis unfolding spec using write_refines [OF assms(1) room h] by metis
    qed
  qed
qed

lemma batch_refines:
  assumes "reg_ok E MC view reg" "reg_room (batch_points req + n) reg"
  shows "refined E MC view n (batch_upsert E req reg) (batch_spec E req (reg_view E view reg))"
proof -
  have room: "reg_room n reg" using reg_room_mono [OF assms(2)] by simp
  note same = refined_same [OF assms(1) room]
  show ?thesis
  proof (cases "batch_upsert_from_pb (env_unicode E) (env_fmt_id E) req")
    case (Inl e)
    then show ?thesis using same by (simp add: batch_upsert_def batch_spec_def)
  next
    case (Inr np)
    obtain name points where np: "np = (name, points)" by fastforce
    obtain b where b: "req = Some b" "point_batch_from_pb (env_unicode E) (env_fmt_id E) b = Inr (name, points)"
      using Inr by (auto simp: batch_upsert_from_pb_def np ok_or_def split: option.splits)
    show ?thesis
    proof (cases "find_handle name reg")
      case (Inl status)
      then show ?thesis using same Inr by (simp add: np batch_upsert_def batch_spec_def find_handle_spec)
    next
      case h: (Inr h)
      show ?thesis
      proof (cases "ensure_dimension points (Dimension_get (cm_dimension (ch_meta h)))")
        case (Inl status)
        then show ?thesis using same Inr h by (simp add: np batch_upsert_def batch_spec_def find_handle_spec handle_view_def)
      next
        case dims: (Inr u)
        have map: "map_of (rg_map reg) name = Some h" using h by (simp add: find_handle_Inr)
        have "kind_room (length points + n) (ch_inner h)"
          using room_at [OF assms(2) map] batch_length [OF b(2)] by (simp add: b(1) batch_points_def)
        from upsert_points_ok [OF handle_okE(2) [OF assms(1) map] this batch_exact [OF b(2) dims]]
        have "refined E MC view n (run_blocking h (upsert_points E points) reg)
            (Inr (), (reg_view E view reg)(name \<mapsto> (ch_meta h, apply_points (env_unicode E) points (kind_view E view (ch_inner h)))))"
          by (intro write_refines [OF assms(1) room map]) blast
        moreover have "batch_upsert E req reg = apfst (map_res (\<lambda>_. u64_of_usize (length points)))
            (run_blocking h (upsert_points E points) reg)"
          using Inr h dims by (simp add: np batch_upsert_def apfst_def map_prod_def split: prod.split)
        ultimately show ?thesis using refined_apfst [of E MC view n _ _ "map_res (\<lambda>_. u64_of_usize (length points))"]
          using Inr h dims by (fastforce simp: np batch_spec_def find_handle_spec handle_view_def)
      qed
    qed
  qed
qed

text \<open>The loop of a bulk upsert, one chunk after the other.\<close>

lemma points_exact:
  assumes "ensure_dimension points (Dimension_get d) = Inr u" "\<forall>p \<in> set points. embedding_ok (dp_embedding p)" "p \<in> set points"
  shows "exact_embedding d (dp_embedding p)"
  using assms ensure_dimension_Inr [OF assms(1,3)] by (simp add: exact_embedding_def)

lemma batch_points_ok:
  assumes "bulk_upsert_from_pb U fmt_id req = Inr (name, points)"
  shows "length points = batch_points req" "\<forall>p \<in> set points. embedding_ok (dp_embedding p)"
proof -
  obtain b where b: "req = Some b" "point_batch_from_pb U fmt_id b = Inr (name, points)"
    using assms by (auto simp: bulk_upsert_from_pb_def)
  show "length points = batch_points req" using batch_length [OF b(2)] by (simp add: b(1) batch_points_def)
  have "traverse (point_from_pb U fmt_id) (pbb_points b) = Inr points" using b(2) by (auto simp: point_batch_from_pb_def)
  then show "\<forall>p \<in> set points. embedding_ok (dp_embedding p)"
    using point_from_pb_ok by (fastforce simp: traverse_Inr_iff list_all2_conv_all_nth in_set_conv_nth point_ok_def)
qed

lemma view_same: "map_of (rg_map reg) name = Some h \<Longrightarrow>
    (reg_view E view reg)(name \<mapsto> (ch_meta h, kind_view E view (ch_inner h))) = reg_view E view reg"
  by (simp add: fun_upd_idem reg_view_def handle_view_def)

definition with_cs :: "string \<Rightarrow> CollectionMeta \<Rightarrow> reg_spec \<Rightarrow> 'r \<times> col_spec \<Rightarrow> 'r \<times> reg_spec" where
  "with_cs name meta st out = (fst out, st(name \<mapsto> (meta, snd out)))"

lemma with_cs_upd: "with_cs name meta (st(name \<mapsto> y)) out = with_cs name meta st out"
  by (simp add: with_cs_def)

lemma one_chunk:
  assumes "reg_ok E MC view reg" "reg_room (length points + m) reg" "map_of (rg_map reg) name = Some h" "ch_meta h0 = ch_meta h"
    and "\<forall>p \<in> set points. embedding_ok (dp_embedding p)"
    and "ensure_dimension points (Dimension_get (cm_dimension (ch_meta h))) = Inr u"
  shows "\<exists>reg' h'. run_blocking h0 (upsert_points E points) reg = (Inr (), reg') \<and> reg_ok E MC view reg' \<and> reg_room m reg' \<and>
    map_of (rg_map reg') name = Some h' \<and> ch_meta h' = ch_meta h \<and>
    kind_view E view (ch_inner h') = apply_points (env_unicode E) points (kind_view E view (ch_inner h)) \<and>
    reg_view E view reg' = (reg_view E view reg)(name \<mapsto> (ch_meta h, kind_view E view (ch_inner h')))"
proof -
  have m: "reg_room m reg" using reg_room_mono [OF assms(2)] by simp
  from upsert_points_ok [OF handle_okE(2) [OF assms(1,3)] room_at [OF assms(2,3)] points_exact [OF assms(6,5)]]
  obtain k where k: "upsert_points E points (ch_inner h) = (Inr (), k)" "same_kind (ch_inner h) k" "kind_room m k"
    "kind_good E view (cm_metric (ch_meta h)) (cm_dimension (ch_meta h)) k"
    "kind_view E view k = apply_points (env_unicode E) points (kind_view E view (ch_inner h))" by blast
  obtain r reg' where out: "run_blocking h0 (upsert_points E points) reg = (r, reg')" by fastforce
  show ?thesis
    using run_blocking_ok [where f = "upsert_points E points", OF assms(1) m assms(3,4) k(1-4)] unfolding out
    by (simp add: refined_def k(5))
qed

lemma bulk_chunks_refines:
  "reg_ok E MC view reg \<Longrightarrow> reg_room (length points + stream_points stream + n) reg \<Longrightarrow> map_of (rg_map reg) name = Some h \<Longrightarrow>
   ch_meta h0 = ch_meta h \<Longrightarrow> \<forall>p \<in> set points. embedding_ok (dp_embedding p) \<Longrightarrow>
   refined E MC view n (bulk_chunks E h0 name points stream upserted reg) (with_cs name (ch_meta h) (reg_view E view reg)
     (bulk_spec_chunks E name (ch_meta h) points stream upserted (kind_view E view (ch_inner h))))"
proof (induction stream arbitrary: points upserted reg h)
  case Nil
  have room: "reg_room n reg" "reg_room (length points + n) reg"
    using reg_room_mono [OF Nil.prems(2)] by (simp_all add: stream_points_def)
  show ?case
  proof (cases "ensure_dimension points (Dimension_get (cm_dimension (ch_meta h)))")
    case (Inl status)
    then show ?thesis using refined_same [OF Nil.prems(1) room(1)] view_same [OF Nil.prems(3)]
      by (simp add: Nil.prems(4) with_cs_def)
  next
    case (Inr u)
    from one_chunk [OF Nil.prems(1) room(2) Nil.prems(3-5) Inr] Inr show ?thesis
      by (auto simp: Nil.prems(4) with_cs_def refined_def Let_def)
  qed
next
  case (Cons message stream)
  have room: "reg_room n reg" using reg_room_mono [OF Cons.prems(2)] by simp
  let ?upserted = "upserted + u64_of_usize (length points)"
  show ?case
  proof (cases "ensure_dimension points (Dimension_get (cm_dimension (ch_meta h)))")
    case (Inl status)
    then show ?thesis using refined_same [OF Cons.prems(1) room] view_same [OF Cons.prems(3)]
      by (simp add: Cons.prems(4) with_cs_def)
  next
    case dims: (Inr u)
    have "reg_room (length points + (stream_points (message # stream) + n)) reg" using Cons.prems(2) by (simp add: add.assoc)
    from one_chunk [OF Cons.prems(1) this Cons.prems(3-5) dims] obtain reg' h' where
      run: "run_blocking h0 (upsert_points E points) reg = (Inr (), reg')" "reg_ok E MC view reg'"
        "reg_room (stream_points (message # stream) + n) reg'" "map_of (rg_map reg') name = Some h'" "ch_meta h' = ch_meta h"
        "kind_view E view (ch_inner h') = apply_points (env_unicode E) points (kind_view E view (ch_inner h))"
        "reg_view E view reg' = (reg_view E view reg)(name \<mapsto> (ch_meta h, kind_view E view (ch_inner h')))" by blast
    have n: "reg_room n reg'" using reg_room_mono [OF run(3)] by simp
    note stop = refined_same [OF run(2) n, unfolded run(7)]
    let ?decode = "res_bind message (\<lambda>req. map_err conversion_error_to_status
        (bulk_upsert_from_pb (env_unicode E) (env_fmt_id E) req))"
    note step = bulk_chunks.simps [of E h0 name points "message # stream" upserted reg]
      bulk_spec_chunks.simps [of E name "ch_meta h" points "message # stream" upserted "kind_view E view (ch_inner h)"]
    note steps = step Cons.prems(4) dims run(1) run(6) [symmetric] Let_def sum.case prod.case then_do_simps list.case
    show ?thesis
    proof (cases ?decode)
      case (Inl status)
      show ?thesis unfolding steps Inl with_cs_def fst_conv snd_conv by (rule stop)
    next
      case (Inr np)
      obtain other next_points where np: "np = (other, next_points)" by fastforce
      show ?thesis
      proof (cases "other \<noteq> [] \<and> other \<noteq> name")
        case True
        show ?thesis unfolding steps Inr np with_cs_def using True stop by simp
      next
        case False
        obtain req where req: "message = Inr req" "bulk_upsert_from_pb (env_unicode E) (env_fmt_id E) req = Inr (other, next_points)"
          using Inr by (auto simp: np)
        note pts = batch_points_ok [OF req(2)]
        have room': "reg_room (length next_points + stream_points stream + n) reg'"
          using run(3) by (simp add: pts(1) req(1) stream_points_def)
        have same: "ch_meta h0 = ch_meta h'" using Cons.prems(4) run(5) by simp
        show ?thesis unfolding steps Inr np if_not_P [OF False]
          by (rule Cons.IH [OF run(2) room' run(4) same pts(2), of ?upserted, unfolded run(5,7) with_cs_upd])
      qed
    qed
  qed
qed

lemma bulk_refines:
  assumes "reg_ok E MC view reg" "reg_room (stream_points stream + n) reg"
  shows "refined E MC view n (bulk_upsert E stream reg) (bulk_spec E stream (reg_view E view reg))"
proof (cases stream)
  case Nil
  then show ?thesis using refined_same [OF assms(1)] assms(2) by (simp add: bulk_upsert_def bulk_spec_def stream_points_def)
next
  case (Cons message rest)
  have room: "reg_room n reg" using reg_room_mono [OF assms(2)] by simp
  note same = refined_same [OF assms(1) room]
  let ?decode = "res_bind message (\<lambda>req. map_err conversion_error_to_status
      (bulk_upsert_from_pb (env_unicode E) (env_fmt_id E) req))"
  have code: "bulk_upsert E stream reg = (case res_bind ?decode (\<lambda>(name, points).
      map_res (\<lambda>h. (name, points, h)) (find_handle name reg)) of
        Inl status \<Rightarrow> (Inl status, reg) | Inr (name, points, h) \<Rightarrow> bulk_chunks E h name points rest 0 reg)"
    by (cases message) (simp_all add: Cons bulk_upsert_def del: bulk_chunks.simps)
  have spec: "bulk_spec E stream st = (case res_bind ?decode (\<lambda>(name, points).
      map_res (\<lambda>(meta, cs). (name, points, meta, cs)) (spec_find name st)) of
        Inl status \<Rightarrow> (Inl status, st)
      | Inr (name, points, meta, cs) \<Rightarrow> with_cs name meta st (bulk_spec_chunks E name meta points rest 0 cs))" for st
    by (cases message) (auto simp add: Cons bulk_spec_def with_cs_def simp del: bulk_spec_chunks.simps split: sum.split prod.split)
  show ?thesis
  proof (cases ?decode)
    case (Inl status)
    show ?thesis unfolding code spec Inl by (simp add: same)
  next
    case (Inr np)
    obtain name points where np: "np = (name, points)" by fastforce
    obtain req where req: "message = Inr req" "bulk_upsert_from_pb (env_unicode E) (env_fmt_id E) req = Inr (name, points)"
      using Inr by (auto simp: np)
    note pts = batch_points_ok [OF req(2)]
    show ?thesis
    proof (cases "find_handle name reg")
      case (Inl status)
      then show ?thesis unfolding code spec Inr np by (simp add: same find_handle_spec)
    next
      case h: (Inr h)
      have h': "map_of (rg_map reg) name = Some h" using h by (simp add: find_handle_Inr)
      have "reg_room (length points + stream_points rest + n) reg"
        using assms(2) by (simp add: Cons req(1) pts(1) stream_points_def add.assoc)
      from bulk_chunks_refines [OF assms(1) this h' refl pts(2), of 0] show ?thesis
        unfolding code spec Inr np by (simp add: h find_handle_spec handle_view_def del: bulk_chunks.simps bulk_spec_chunks.simps)
    qed
  qed
qed

lemma reply_deleted: "reply Deleted r = Deleted b \<longleftrightarrow> r = Inr b"
  by (cases r) (simp_all add: reply_def)

lemma reply_deleted_count: "reply Deleted_count r = Deleted_count n \<longleftrightarrow> r = Inr n"
  by (cases r) (simp_all add: reply_def)

lemma rpc_delete_refines:
  assumes "reg_ok E MC view reg" "reg_room (Suc n) reg"
  shows "refined E MC view n (delete E req reg) (delete_spec req (reg_view E view reg))"
proof -
  have room: "reg_room n reg" using reg_room_mono [OF assms(2)] by simp
  note same = refined_same [OF assms(1) room]
  show ?thesis
  proof (cases "find_handle (pbdel_collection req) reg")
    case (Inl status)
    then show ?thesis using same by (simp add: delete_def delete_spec_def find_handle_spec)
  next
    case h: (Inr h)
    then have h': "map_of (rg_map reg) (pbdel_collection req) = Some h" by (simp add: find_handle_Inr)
    show ?thesis
    proof (cases "vector_id_from_pb (pbdel_id req)")
      case (Inl e)
      then show ?thesis using same h by (simp add: delete_def delete_spec_def find_handle_spec handle_view_def)
    next
      case (Inr i)
      let ?v = "kind_view E view (ch_inner h)"
      have "exact_op (cm_dimension (ch_meta h)) (Delete i)" by (simp add: exact_op_def)
      from kind_step_refines [OF handle_okE(2) [OF assms(1) h'] room_at [OF assms(2) h'] this]
      obtain r k where k: "kind_step E (Delete i) (ch_inner h) = (r, k)" "kind_room n k"
        "kind_good E view (cm_metric (ch_meta h)) (cm_dimension (ch_meta h)) k"
        "(r, kind_view E view k) = col_spec_step (env_unicode E) (cm_dimension (ch_meta h)) (Delete i) ?v" by blast
      have del: "Kind_delete E i (ch_inner h) = (Inr (sp_vectors ?v i \<noteq> None), k)"
        using k(1,4) by (auto simp: reply_deleted split: prod.splits)
      let ?f = "\<lambda>kind. case Kind_delete E i kind of (r, kind) \<Rightarrow> (map_err (query_error_to_status (env_fmt_id E)) r, kind)"
      have "refined E MC view n (run_blocking h ?f reg) (Inr (sp_vectors ?v i \<noteq> None),
          (reg_view E view reg)(pbdel_collection req \<mapsto> (ch_meta h, drop_ids {i} ?v)))"
        using k del kind_step_same [OF k(1)] by (intro write_refines [OF assms(1) room h']) simp
      then show ?thesis using h Inr by (simp add: delete_def delete_spec_def find_handle_spec handle_view_def)
    qed
  qed
qed

lemma rpc_purge_refines:
  assumes "reg_ok E MC view reg" "reg_room (Suc n) reg"
  shows "refined E MC view n (delete_by_filter E req reg) (delete_by_filter_spec req (reg_view E view reg))"
proof -
  have room: "reg_room n reg" using reg_room_mono [OF assms(2)] by simp
  note same = refined_same [OF assms(1) room]
  show ?thesis
  proof (cases "delete_by_filter_from_pb req")
    case (Inl e)
    then show ?thesis using same by (simp add: delete_by_filter_def delete_by_filter_spec_def)
  next
    case (Inr nf)
    obtain name f where nf: "nf = (name, f)" by fastforce
    show ?thesis
    proof (cases "find_handle name reg")
      case (Inl status)
      then show ?thesis using same Inr
        by (simp add: nf delete_by_filter_def delete_by_filter_spec_def find_handle_spec)
    next
      case h: (Inr h)
      then have h': "map_of (rg_map reg) name = Some h" by (simp add: find_handle_Inr)
      let ?v = "kind_view E view (ch_inner h)"
      let ?S = "selected f (sp_payloads ?v)"
      have "exact_op (cm_dimension (ch_meta h)) (Delete_by_filter f)" by (simp add: exact_op_def)
      from kind_step_refines [OF handle_okE(2) [OF assms(1) h'] room_at [OF assms(2) h'] this]
      obtain r k where k: "kind_step E (Delete_by_filter f) (ch_inner h) = (r, k)" "kind_room n k"
        "kind_good E view (cm_metric (ch_meta h)) (cm_dimension (ch_meta h)) k"
        "(r, kind_view E view k) = col_spec_step (env_unicode E) (cm_dimension (ch_meta h)) (Delete_by_filter f) ?v" by blast
      have del: "Kind_delete_by_filter E f (ch_inner h) = (Inr (card (?S \<inter> dom (sp_vectors ?v))), k)"
        using k(1,4) by (auto simp: Let_def reply_deleted_count split: prod.splits)
      let ?f = "\<lambda>kind. case Kind_delete_by_filter E f kind of
          (r, kind) \<Rightarrow> (map_res word_of_nat (map_err (query_error_to_status (env_fmt_id E)) r), kind)"
      have "refined E MC view n (run_blocking h ?f reg) (Inr (word_of_nat (card (?S \<inter> dom (sp_vectors ?v)))),
          (reg_view E view reg)(name \<mapsto> (ch_meta h, drop_ids ?S ?v)))"
        using k del kind_step_same [OF k(1)] by (intro write_refines [OF assms(1) room h']) (simp add: Let_def)
      then show ?thesis using h Inr
        by (simp add: nf delete_by_filter_def delete_by_filter_spec_def find_handle_spec handle_view_def)
    qed
  qed
qed

section \<open>Whole runs\<close>

lemma rpc_step_refines:
  assumes "env_ok E view" "env_total E" "meta_codec_ok MC" "reg_ok E MC view reg" "reg_room (rpc_cost r + n) reg" "\<And>d. records_fit d n"
  shows "refined E MC view n (rpc_step E MC r reg) (rpc_spec E r (reg_view E view reg))"
proof -
  have room: "reg_room (Suc n) reg" "reg_room n reg" using reg_room_mono [OF assms(5)] by (simp_all add: rpc_cost_def)
  have pts: "r = Rpc_batch_upsert req \<Longrightarrow> reg_room (batch_points req + n) reg" for req
    using reg_room_mono [OF assms(5)] by (simp add: rpc_cost_def)
  have str: "r = Rpc_bulk_upsert stream \<Longrightarrow> reg_room (stream_points stream + n) reg" for stream
    using reg_room_mono [OF assms(5)] by (simp add: rpc_cost_def)
  show ?thesis
  proof (cases r)
    case (Rpc_drop name)
    from refined_apfst [OF drop_refines [OF assms(4) room(2)], of Bool_reply name] show ?thesis
      by (simp add: Rpc_drop)
  qed (use pts str in \<open>simp_all add: refined_apfst create_refines [OF assms(1-4) room(2) assms(6)]
      rpc_upsert_refines [OF assms(4) room(1)] batch_refines [OF assms(4)] bulk_refines [OF assms(4)]
      rpc_delete_refines [OF assms(4) room(1)] rpc_purge_refines [OF assms(4) room(1)]\<close>)
qed

definition total_cost :: "service_event list \<Rightarrow> nat" where
  "total_cost es = sum_list (map rpc_cost (rpcs es))"

text \<open>\<open>n\<close> records of the largest dimension fit a file.\<close>

definition always_fits :: "nat \<Rightarrow> bool" where
  "always_fits n \<longleftrightarrow> HEADER_LEN + n * (u32_max * 4) < FILE_MAX"

lemma always_fits_records: "always_fits n \<Longrightarrow> m \<le> n \<Longrightarrow> records_fit d m"
proof -
  assume fits: "always_fits n" and m: "m \<le> n"
  have "m * (Dimension_get d * 4) \<le> n * (u32_max * 4)"
    using m Dimension_get_le [of d] by (intro mult_le_mono) simp_all
  then show ?thesis using fits by (simp add: always_fits_def records_fit_def)
qed

lemma service_run_refines:
  assumes "env_ok E view" "env_total E" "meta_codec_ok MC"
  shows "reg_ok E MC view reg \<Longrightarrow> reg_room (total_cost es) reg \<Longrightarrow> always_fits (total_cost es) \<Longrightarrow>
    \<exists>rs reg'. service_run E MC es reg = Inr (rs, reg') \<and> reg_ok E MC view reg' \<and>
      (rs, reg_view E view reg') = run_steps (rpc_spec E) (rpcs es) (reg_view E view reg)"
proof (induction es arbitrary: reg)
  case (Cons e es)
  show ?case
  proof (cases e)
    case (Rpc r)
    then have n: "total_cost (e # es) = rpc_cost r + total_cost es" by (simp add: total_cost_def)
    have fit: "records_fit d (total_cost es)" for d using always_fits_records [OF Cons.prems(3)] n by simp
    have "always_fits (total_cost es)" using Cons.prems(3) n by (simp add: always_fits_def add_mult_distrib)
    note IH = Cons.IH [OF _ _ this]
    obtain out reg1 where out: "rpc_step E MC r reg = (out, reg1)" by fastforce
    have "refined E MC view (total_cost es) (out, reg1) (rpc_spec E r (reg_view E view reg))"
      using rpc_step_refines [OF assms Cons.prems(1) _ fit] Cons.prems(2) n unfolding out [symmetric] by simp
    then have one: "reg_ok E MC view reg1" "reg_room (total_cost es) reg1"
      "rpc_spec E r (reg_view E view reg) = (out, reg_view E view reg1)" by (auto simp: refined_def)
    obtain rs reg' where run: "service_run E MC es reg1 = Inr (rs, reg')" "reg_ok E MC view reg'"
      "run_steps (rpc_spec E) (rpcs es) (reg_view E view reg1) = (rs, reg_view E view reg')"
      using IH [OF one(1,2)] by auto
    then show ?thesis by (simp add: Rpc out one(3))
  next
    case Service_restart
    then have n: "total_cost (e # es) = total_cost es" by (simp add: total_cost_def)
    obtain reg1 where o: "Registry_open E MC (rg_disk reg) = Inr reg1" "reg_ok E MC view reg1"
      "reg_view E view reg1 = reg_view E view reg" "reg_room (total_cost es) reg1"
      using Registry_reopens [OF assms(1,2) Cons.prems(1)] Cons.prems(2) n by auto
    from Cons.IH [OF o(2,4)] Cons.prems(3) n show ?thesis by (simp add: Service_restart o(1,3))
  qed
qed simp

lemma registry_fresh:
  "Registry_open E MC \<lparr>dk_entries = None, dk_faults = []\<rparr> = Inr (Registry_new \<lparr>dk_entries = Some [], dk_faults = []\<rparr>)"
  "reg_ok E MC view (Registry_new \<lparr>dk_entries = Some [], dk_faults = []\<rparr>)"
  "reg_room n (Registry_new \<lparr>dk_entries = Some [], dk_faults = []\<rparr>)"
  "reg_view E view (Registry_new \<lparr>dk_entries = Some [], dk_faults = []\<rparr>) = Map.empty"
  by (simp_all add: Registry_open_def reg_ok_def Registry_new_def reg_room_def hm_ok_def reg_view_def fun_eq_iff)

section \<open>Properties\<close>

text \<open>
  C5. The service refines its abstract machine. On an empty root, whatever requests arrive (creations, drops, upserts, batches,
  streams of chunks, deletions by identifier and by filter) in whatever order, with restarts of the server anywhere
  in between, every restart succeeds, every reply, the errors included, is the one of the machine that keeps
  for each name its metadata and three maps, and that is what the registry holds at the end.
\<close>

theorem service_refines_maps:
  assumes "env_ok E view" "env_total E" "meta_codec_ok MC" "always_fits (total_cost es)"
  shows "\<exists>reg rs reg'. Registry_open E MC \<lparr>dk_entries = None, dk_faults = []\<rparr> = Inr reg \<and>
    service_run E MC es reg = Inr (rs, reg') \<and>
    (rs, reg_view E view reg') = run_steps (rpc_spec E) (rpcs es) Map.empty"
  using service_run_refines [OF assms(1-3) registry_fresh(2,3) assms(4)] unfolding registry_fresh(1,4) by blast

lemma service_refines_maps_witness:
  "\<exists>reg reg'. Registry_open mem_env meta_codec \<lparr>dk_entries = None, dk_faults = []\<rparr> = Inr reg \<and>
     service_run mem_env meta_codec
       [Rpc (Rpc_create \<lparr>pbcc_name = ''c'', pbcc_metric = 1, pbcc_dimension = 1, pbcc_index_type = 2, pbcc_hnsw_params = None\<rparr>),
        Rpc (Rpc_upsert \<lparr>pbu_collection = ''c'', pbu_point = Some \<lparr>pbpt_id = replicate 16 0, pbpt_vector = [0],
          pbpt_document = None, pbpt_payload = None\<rparr>\<rparr>),
        Service_restart,
        Rpc (Rpc_delete \<lparr>pbdel_collection = ''c'', pbdel_id = replicate 16 0\<rparr>),
        Service_restart,
        Rpc (Rpc_delete \<lparr>pbdel_collection = ''c'', pbdel_id = replicate 16 0\<rparr>),
        Rpc (Rpc_drop ''c''), Service_restart, Rpc (Rpc_drop ''c'')] reg =
     Inr ([Unit_reply (Inr ()), Unit_reply (Inr ()), Bool_reply (Inr True), Bool_reply (Inr False), Bool_reply (Inr True),
       Bool_reply (Inr False)], reg')"
proof -
  let ?create = "\<lparr>pbcc_name = ''c'', pbcc_metric = 1, pbcc_dimension = 1, pbcc_index_type = 2, pbcc_hnsw_params = None\<rparr>"
  let ?point = "\<lparr>pbpt_id = replicate 16 0, pbpt_vector = [0], pbpt_document = None, pbpt_payload = None\<rparr>"
  let ?es = "[Rpc (Rpc_create ?create), Rpc (Rpc_upsert \<lparr>pbu_collection = ''c'', pbu_point = Some ?point\<rparr>), Service_restart,
        Rpc (Rpc_delete \<lparr>pbdel_collection = ''c'', pbdel_id = replicate 16 0\<rparr>), Service_restart,
        Rpc (Rpc_delete \<lparr>pbdel_collection = ''c'', pbdel_id = replicate 16 0\<rparr>),
        Rpc (Rpc_drop ''c''), Service_restart, Rpc (Rpc_drop ''c'')]"
  have "embedding_ok (Embedding [0])" by code_simp
  then have emb: "Embedding_new [0] = Inr (Embedding [0])" by (simp add: Embedding_new_Inr)
  have meta: "create_meta ?create = Inr \<lparr>cm_name = ''c'', cm_metric = Cosine, cm_dimension = Dimension 1,
      cm_index_type = Choice_Hnsw, cm_hnsw = Some HnswConfig_default\<rparr>"
    by (simp add: create_meta_def PbMetric_try_from_def Dimension_try_from_def PbIndexType_try_from_def hnsw_config_from_pb_def
        positive_or_default_def HnswConfig_new_def HnswConfig_default_def MIN_DEGREE_def)
  have name: "is_valid_name ''c''" by code_simp
  obtain i where i: "vector_id_from_pb (replicate 16 0) = Inr i" by (simp add: vector_id_from_pb_def ID_LENGTH_def)
  have point: "point_from_pb U fmt_id ?point =
      Inr \<lparr>dp_id = i, dp_embedding = Embedding [0], dp_document = None, dp_payload = None\<rparr>" for U fmt_id
    unfolding point_from_pb_def by (simp add: i embedding_from_pb_def emb del: replicate.simps)
  have fits: "always_fits (total_cost ?es)"
    by (simp add: total_cost_def rpc_cost_def always_fits_def HEADER_LEN_def FILE_MAX_def u32_max_def)
  have replies: "fst (run_steps (rpc_spec mem_env) (rpcs ?es) Map.empty) = [Unit_reply (Inr ()), Unit_reply (Inr ()), Bool_reply (Inr True),
      Bool_reply (Inr False), Bool_reply (Inr True), Bool_reply (Inr False)]"
    by (simp add: create_spec_def meta name upsert_spec_def spec_find_def point Dimension_get_def delete_spec_def i
        apply_point_def drop_ids_def empty_spec_def Let_def)
  from service_refines_maps [OF mem_env_ok meta_codec_fine fits] replies show ?thesis
    by (metis fst_conv)
qed

end
