(* ===== verification/Service_Reads.thy ===== *)
theory Service_Reads
  imports Service_Correct
begin

text \<open>
  The requests that only read: what they answer is determined by the state of the abstract machine, for a flat
  collection completely and for an HNSW collection up to the approximation of the graph.
\<close>

section \<open>Reading a collection\<close>

lemma Kind_len_view:
  assumes "kind_good E view m d k"
  shows "Kind_len E k = card (dom (sp_vectors (kind_view E view k)))"
proof (cases k)
  case (Kind_Flat c)
  have "flat_disk.col_ok (env_redb E) view (env_lexical E) (env_payload E) c"
    using assms unfolding Kind_Flat kind_good_flat by (simp add: flat_disk.good_def)
  from flat_disk.len_view [OF this] show ?thesis unfolding Kind_Flat kind_good_flat(2) by (simp add: Kind_len_def)
next
  case (Kind_Hnsw c)
  have "hnsw_disk.col_ok (env_redb E) (env_hnsw E) view (env_lexical E) (env_payload E) c"
    using assms unfolding Kind_Hnsw kind_good_hnsw by (simp add: hnsw_disk.good_def)
  from hnsw_disk.len_view [OF this] show ?thesis unfolding Kind_Hnsw kind_good_hnsw(2) by (simp add: Kind_len_def)
qed

text \<open>
  What a search of one graph returns: the hits of \<open>HnswIndex::search_filtered\<close>, and the true top \<open>k\<close> of the admissible
  vectors the entry reaches at layer 0 as soon as the beam is as wide as the graph has nodes.
\<close>

definition graph_finds ::
  "Embedding \<Rightarrow> nat \<Rightarrow> Metric \<Rightarrow> (VectorId \<Rightarrow> bool) \<Rightarrow> HnswIndex \<Rightarrow> Neighbor list \<Rightarrow> bool" where
  "graph_finds q k metric adm g ns \<longleftrightarrow>
     HnswIndex_search_filtered q k metric adm g = Inr ns \<and>
     (node_count (hi_graph g) \<le> max (cfg_ef_search (hi_config g)) k \<longrightarrow>
       is_top_k k (candidates metric q adm (reached_contents q g)) ns)"

text \<open>
  \<open>answers t g m cs query r\<close>: the hits are the payloads and exact scores of an ordered list of at most \<open>k\<close> distinct
  candidates. When the index is flat they are all of the top \<open>k\<close>; when it is HNSW, \<open>g\<close> is its graph, which stores exactly
  the vectors of the collection, and the list is what the search of that graph finds. The only error is a metric the
  graph was not built for.
\<close>

definition query_metric :: "Metric \<Rightarrow> SearchQuery \<Rightarrow> Metric" where
  "query_metric m query = (case sq_metric query of Some m' \<Rightarrow> m' | None \<Rightarrow> m)"

definition answers ::
  "IndexTypeChoice \<Rightarrow> HnswIndex option \<Rightarrow> Metric \<Rightarrow> col_spec \<Rightarrow> SearchQuery \<Rightarrow> QueryError + SearchHit list \<Rightarrow> bool" where
  "answers t g m cs query r \<longleftrightarrow>
     (let metric = query_metric m query; adm = passes (sq_filter query) (sp_payloads cs);
          found = candidates metric (sq_embedding query) adm (sp_vectors cs) in
      case r of
        Inl e \<Rightarrow> t = Choice_Hnsw \<and> metric \<noteq> m \<and> e = Qe_UnsupportedMetric metric
      | Inr hits \<Rightarrow> \<exists>ns. hits = map (\<lambda>n. hit_of (sp_payloads cs) (neighbor_id n) (neighbor_score n)) ns \<and>
          sorted (map neighbor_key ns) \<and> distinct (map neighbor_id ns) \<and> length ns \<le> sq_k query \<and> set ns \<subseteq> found \<and>
          (t = Choice_Flat \<longrightarrow> is_top_k (sq_k query) found ns) \<and>
          (t = Choice_Hnsw \<longrightarrow> metric = m \<and>
            (\<exists>graph. g = Some graph \<and> hnsw_contents graph = sp_vectors cs \<and>
               graph_finds (sq_embedding query) (sq_k query) metric adm graph ns)))"

text \<open>The graph of a collection, and of a name of the registry.\<close>

definition graph_of :: "'d CollectionKind \<Rightarrow> HnswIndex option" where
  "graph_of k = (case k of Kind_Flat _ \<Rightarrow> None | Kind_Hnsw c \<Rightarrow> Some (pn_graph (col_index c)))"

definition graph_in :: "'d Registry \<Rightarrow> string \<Rightarrow> HnswIndex option" where
  "graph_in reg name = Option.bind (map_of (rg_map reg) name) (\<lambda>h. graph_of (ch_inner h))"

lemma pn_finds:
  assumes "pn_clean R C view s" "vi_search_filtered (Pn_index ln_f R C) q k metric adm s = Inr ns"
  shows "graph_finds q k metric adm (pn_graph s) ns"
proof -
  have s: "HnswIndex_search_filtered q k metric adm (pn_graph s) = Inr ns" using assms(2) by (simp add: Pn_index_def)
  with hnsw_search_exhaustive [OF pn_clean_parts(7) [OF assms(1)] s] show ?thesis by (simp add: graph_finds_def)
qed

lemma flat_answers:
  assumes "kind_good E view m d (Kind_Flat c)" "Embedding_dimension (sq_embedding query) = d"
  shows "answers Choice_Flat (graph_of (Kind_Flat c)) m (kind_view E view (Kind_Flat c)) query (Kind_search E query (Kind_Flat c))"
proof -
  have good: "flat_disk.good (env_redb E) view (env_lexical E) (env_payload E) d m c"
    using assms(1) by (simp only: kind_good_flat)
  have ok: "pf_ok (env_redb E) view (col_index c)" using assms(1) by (simp add: kind_good_def)
  have sup: "metric \<in> set (vi_supported_metrics (env_pf E) (col_index c))" for metric
    by (cases metric) (simp_all add: Pf_index_def)
  have vecs: "sp_vectors (kind_view E view (Kind_Flat c)) = pf_contents view (col_index c)" by (simp add: kind_view_def)
  show ?thesis
    using flat_disk.search_sound [OF good, of query] assms(2) unfolding kind_good_flat(2) [symmetric]
    by (auto simp: answers_def query_metric_def Kind_search_def sup vecs Let_def cong: option.case_cong split: sum.splits
        dest: pf_fit.search_sound [OF ok] pf.search_exact [OF ok])
qed

lemma hnsw_answers:
  assumes "kind_good E view m d (Kind_Hnsw c)" "Embedding_dimension (sq_embedding query) = d"
  shows "answers Choice_Hnsw (graph_of (Kind_Hnsw c)) m (kind_view E view (Kind_Hnsw c)) query (Kind_search E query (Kind_Hnsw c))"
proof -
  have good: "hnsw_disk.good (env_ln E) (env_redb E) (env_hnsw E) view (env_lexical E) (env_payload E) d m c"
    using assms(1) by (simp only: kind_good_hnsw)
  have ok: "pn_clean (env_redb E) (env_hnsw E) view (col_index c)" and m: "cfg_metric (hi_config (pn_graph (col_index c))) = m"
    using assms(1) by (simp_all add: kind_good_def)
  have sup: "set (vi_supported_metrics (env_pn E) (col_index c)) = {m}"
    using pn_clean_parts(7) [OF ok] m by (simp add: Pn_index_def hnsw_ok_def)
  have vecs: "sp_vectors (kind_view E view (Kind_Hnsw c)) = pn_contents (col_index c)" by (simp add: kind_view_def)
  define adm where "adm = passes (sq_filter query) (sp_payloads (kind_view E view (Kind_Hnsw c)))"
  note fits = pn_fit.search_sound [OF ok, where ln_f = "env_ln E"]
  note s = hnsw_disk.search_sound [OF good, of query, unfolded kind_good_hnsw(2) [symmetric] sup, folded adm_def]
  show ?thesis
  proof (cases "Kind_search E query (Kind_Hnsw c)")
    case (Inl e)
    then show ?thesis using s assms(2)
      by (auto simp: answers_def query_metric_def Kind_search_def Let_def cong: option.case_cong split: if_splits)
  next
    case (Inr hits)
    then obtain ns where ns: "query_metric m query = m"
      "vi_search_filtered (env_pn E) (sq_embedding query) (sq_k query) m adm (col_index c) = Inr ns"
      "hits = map (\<lambda>n. hit_of (sp_payloads (kind_view E view (Kind_Hnsw c))) (neighbor_id n) (neighbor_score n)) ns"
      using s by (auto simp: query_metric_def Kind_search_def)
    from fits [OF ns(2)] pn_finds [OF ok ns(2)] show ?thesis
      unfolding Inr answers_def Let_def sum.case adm_def [symmetric] ns(1,3)
      by (intro exI [of _ ns]) (simp add: vecs graph_of_def pn_contents_def)
  qed
qed

lemma kind_answers:
  assumes "kind_good E view m d k" "of_type t k" "Embedding_dimension (sq_embedding query) = d"
  shows "answers t (graph_of k) m (kind_view E view k) query (Kind_search E query k)"
  using assms by (cases k) (auto simp: of_type_def intro: flat_answers hnsw_answers)

section \<open>Reading the registry\<close>

lemma handle_type: "reg_ok E MC view reg \<Longrightarrow> map_of (rg_map reg) name = Some h \<Longrightarrow>
    of_type (cm_index_type (ch_meta h)) (ch_inner h)"
  by (auto simp: reg_ok_def entry_ok_def)

definition info_of :: "CollectionMeta \<times> col_spec \<Rightarrow> PbCollectionInfo" where
  "info_of p = collection_info (fst p) (word_of_nat (card (dom (sp_vectors (snd p)))))"

lemma describe_ok:
  assumes "reg_ok E MC view reg"
  shows "describe_collection E name reg = map_res info_of (spec_find name (reg_view E view reg))"
proof (cases "find_handle name reg")
  case (Inr h)
  then have "map_of (rg_map reg) name = Some h" by (simp add: find_handle_Inr)
  from Kind_len_view [OF handle_okE(2) [OF assms this]] show ?thesis
    by (simp add: describe_collection_def find_handle_spec Inr info_of_def handle_view_def)
qed (simp add: describe_collection_def find_handle_spec)

lemma list_ok:
  assumes "reg_ok E MC view reg"
  shows "set (list_collections E reg) = info_of ` ran (reg_view E view reg)" "distinct (map pbci_name (list_collections E reg))"
    "length (list_collections E reg) = card (dom (reg_view E view reg))"
    "\<exists>ps. list_collections E reg = map info_of ps \<and> set ps = ran (reg_view E view reg) \<and> distinct (map (\<lambda>p. cm_name (fst p)) ps)"
proof -
  have hm: "hm_ok (rg_map reg)" using assms by (simp add: reg_ok_def)
  have entry: "collection_info (ch_meta h) (case Registry_get (cm_name (ch_meta h)) reg of None \<Rightarrow> 0
        | Some h \<Rightarrow> word_of_nat (Kind_len E (ch_inner h))) = info_of (handle_view E view h) \<and> cm_name (ch_meta h) = name"
    if "(name, h) \<in> set (rg_map reg)" for name h
  proof -
    have h: "map_of (rg_map reg) name = Some h" using that hm by (simp add: hm_mem_iff)
    then show ?thesis using handle_okE(1) [OF assms h] Kind_len_view [OF handle_okE(2) [OF assms h]]
      by (simp add: Registry_get_def info_of_def handle_view_def)
  qed
  have eq: "list_collections E reg = map (\<lambda>(_, h). info_of (handle_view E view h)) (rg_map reg)"
    using entry by (auto simp: list_collections_def Registry_list_def)
  have ran: "ran (reg_view E view reg) = handle_view E view ` snd ` set (rg_map reg)"
    by (simp add: reg_view_def [abs_def] ran_map_option ran_distinct hm [unfolded hm_ok_def])
  then show "set (list_collections E reg) = info_of ` ran (reg_view E view reg)"
    by (simp add: eq image_image split_beta)
  have "map (\<lambda>p. cm_name (fst p)) (map (\<lambda>e. handle_view E view (snd e)) (rg_map reg)) = map fst (rg_map reg)"
    using entry by (auto simp: handle_view_def)
  then have "distinct (map (\<lambda>p. cm_name (fst p)) (map (\<lambda>e. handle_view E view (snd e)) (rg_map reg)))"
    using hm by (simp only: hm_ok_def)
  then show "\<exists>ps. list_collections E reg = map info_of ps \<and> set ps = ran (reg_view E view reg) \<and> distinct (map (\<lambda>p. cm_name (fst p)) ps)"
    using ran by (intro exI [of _ "map (\<lambda>e. handle_view E view (snd e)) (rg_map reg)"]) (simp add: eq image_image split_beta)
  have "map pbci_name (list_collections E reg) = map fst (rg_map reg)"
    using entry by (auto simp: eq info_of_def collection_info_def handle_view_def)
  then show "distinct (map pbci_name (list_collections E reg))" using hm by (simp add: hm_ok_def)
  have "dom (reg_view E view reg) = fst ` set (rg_map reg)"
    by (simp add: reg_view_def dom_def flip: dom_map_of_conv_image_fst)
  then show "length (list_collections E reg) = card (dom (reg_view E view reg))"
    using hm by (simp add: eq hm_ok_def) (metis distinct_card length_map list.set_map)
qed

lemma search_ok:
  assumes "reg_ok E MC view reg" "search_query_from_pb (env_fmt_id E) req = Inr (name, query)"
    and "reg_view E view reg name = Some (meta, cs)"
  shows "if Embedding_dimension (sq_embedding query) \<noteq> cm_dimension meta
    then search_collection E req reg =
      Inl (query_mismatch (Dimension_get (cm_dimension meta)) (Dimension_get (Embedding_dimension (sq_embedding query))))
    else \<exists>r. search_collection E req reg = map_res hits_to_pb (map_err (query_error_to_status (env_fmt_id E)) r) \<and>
      answers (cm_index_type meta) (graph_in reg name) (cm_metric meta) cs query r"
proof -
  obtain h where h: "map_of (rg_map reg) name = Some h" "meta = ch_meta h" "cs = kind_view E view (ch_inner h)"
    using assms(3) by (auto simp: reg_view_def handle_view_def)
  have code: "search_collection E req reg =
      (let expected = Dimension_get (cm_dimension meta); got = Dimension_get (Embedding_dimension (sq_embedding query)) in
       if got \<noteq> expected then Inl (query_mismatch expected got)
       else map_res hits_to_pb (map_err (query_error_to_status (env_fmt_id E)) (Kind_search E query (ch_inner h))))"
    using assms(2) h by (simp add: search_collection_def find_handle_def Registry_get_def run_blocking_read_def Let_def)
  show ?thesis
  proof (cases "Embedding_dimension (sq_embedding query) = cm_dimension meta")
    case True
    then show ?thesis
      using kind_answers [OF handle_okE(2) [OF assms(1) h(1)] handle_type [OF assms(1) h(1)], of query] h
      by (auto simp: code graph_in_def Let_def)
  next
    case False
    then have "Dimension_get (Embedding_dimension (sq_embedding query)) \<noteq> Dimension_get (cm_dimension meta)"
      using Dimension_get_inj by blast
    then show ?thesis using False by (simp add: code Let_def)
  qed
qed

section \<open>Properties\<close>

lemma service_reaches:
  assumes "env_ok E view" "env_total E" "meta_codec_ok MC" "always_fits (total_cost es)"
    and "Registry_open E MC \<lparr>dk_entries = None, dk_faults = []\<rparr> = Inr reg" "service_run E MC es reg = Inr (rs, reg')"
  shows "reg_ok E MC view reg'" "reg_view E view reg' = snd (run_steps (rpc_spec E) (rpcs es) Map.empty)"
  using service_run_refines [OF assms(1-3) registry_fresh(2) registry_fresh(3) assms(4)] assms(5,6)
  by (auto simp: registry_fresh(1,4) dest: arg_cong [where f = snd])

text \<open>
  Searches through the service answer from the abstract machine. After any requests and restarts, a search
  that does not decode, or names a collection the machine does not have, or carries a vector of another dimension, is
  refused with the documented status; otherwise a flat collection returns the true top \<open>k\<close> of the vectors whose payload
  passes the filter, an HNSW collection what the search of its graph finds: an ordered list of at most \<open>k\<close> distinct such
  vectors, with exact scores and their own payloads, the true top \<open>k\<close> of those the entry reaches when the beam
  covers the graph; and the only refusal left is a metric the graph was not built for.
\<close>

lemma service_search_sound:
  assumes "env_ok E view" "env_total E" "meta_codec_ok MC" "always_fits (total_cost es)"
    and "Registry_open E MC \<lparr>dk_entries = None, dk_faults = []\<rparr> = Inr reg" "service_run E MC es reg = Inr (rs, reg')"
    and "st = snd (run_steps (rpc_spec E) (rpcs es) Map.empty)"
  shows "case search_query_from_pb (env_fmt_id E) req of
      Inl e \<Rightarrow> search_collection E req reg' = Inl (conversion_error_to_status e)
    | Inr (name, query) \<Rightarrow>
        (case st name of
           None \<Rightarrow> search_collection E req reg' = Inl (not_found name)
         | Some (meta, cs) \<Rightarrow>
             if Embedding_dimension (sq_embedding query) \<noteq> cm_dimension meta
             then search_collection E req reg' = Inl (query_mismatch (Dimension_get (cm_dimension meta))
                    (Dimension_get (Embedding_dimension (sq_embedding query))))
             else \<exists>r. search_collection E req reg' = map_res hits_to_pb (map_err (query_error_to_status (env_fmt_id E)) r) \<and>
               answers (cm_index_type meta) (graph_in reg' name) (cm_metric meta) cs query r)"
proof -
  note r = service_reaches [OF assms(1-6), folded assms(7)]
  have none: "st name = None \<longleftrightarrow> find_handle name reg' = Inl (not_found name)" for name
    by (simp add: r(2) [symmetric] reg_view_def find_handle_def Registry_get_def ok_or_def split: option.split)
  show ?thesis
  proof (cases "search_query_from_pb (env_fmt_id E) req")
    case (Inr nq)
    obtain name query where nq: "nq = (name, query)" by fastforce
    show ?thesis
    proof (cases "st name")
      case None
      then show ?thesis using Inr none [of name] by (simp add: nq search_collection_def)
    next
      case (Some p)
      obtain meta cs where p: "p = (meta, cs)" by fastforce
      have "reg_view E view reg' name = Some (meta, cs)" using Some by (simp add: r(2) p)
      from search_ok [OF r(1) Inr [unfolded nq] this] show ?thesis
        unfolding Inr nq sum.case prod.case Some p option.case .
    qed
  qed (simp add: search_collection_def)
qed

text \<open>
  What the service lists and describes is the abstract machine: after any requests and restarts the list has one entry
  per collection of the machine, and its entry, like the description of a single collection, carries the metadata the
  collection was created with and the exact number of its vectors.
\<close>

lemma service_listing_exact:
  assumes "env_ok E view" "env_total E" "meta_codec_ok MC" "always_fits (total_cost es)"
    and "Registry_open E MC \<lparr>dk_entries = None, dk_faults = []\<rparr> = Inr reg" "service_run E MC es reg = Inr (rs, reg')"
    and "st = snd (run_steps (rpc_spec E) (rpcs es) Map.empty)"
  shows "describe_collection E name reg' = map_res info_of (spec_find name st) \<and>
    set (list_collections E reg') = info_of ` ran st \<and> distinct (map pbci_name (list_collections E reg')) \<and>
    length (list_collections E reg') = card (dom st)"
proof -
  note r = service_reaches [OF assms(1-6), folded assms(7)]
  show ?thesis using describe_ok [OF r(1)] list_ok [OF r(1)] unfolding r(2) by blast
qed

text \<open>A small run: a flat collection, one vector, a restart.\<close>

definition example_events :: "service_event list" where
  "example_events =
     [Rpc (Rpc_create \<lparr>pbcc_name = ''c'', pbcc_metric = 1, pbcc_dimension = 1, pbcc_index_type = 1, pbcc_hnsw_params = None\<rparr>),
      Rpc (Rpc_upsert \<lparr>pbu_collection = ''c'', pbu_point = Some \<lparr>pbpt_id = replicate 16 0, pbpt_vector = [0],
        pbpt_document = None, pbpt_payload = None\<rparr>\<rparr>),
      Service_restart]"

lemma example_fits: "always_fits (total_cost example_events)"
  by (simp add: example_events_def total_cost_def rpc_cost_def always_fits_def HEADER_LEN_def FILE_MAX_def u32_max_def)

lemma example_state:
  obtains meta cs i where "snd (run_steps (rpc_spec E) (rpcs example_events) Map.empty) = [''c'' \<mapsto> (meta, cs)]"
    "cm_dimension meta = Dimension 1" "cm_index_type meta = Choice_Flat" "dom (sp_vectors cs) = {i}"
proof -
  have "embedding_ok (Embedding [0])" by code_simp
  then have emb: "Embedding_new [0] = Inr (Embedding [0])" by (simp add: Embedding_new_Inr)
  have name: "is_valid_name ''c''" by code_simp
  obtain i where i: "vector_id_from_pb (replicate 16 0) = Inr i" by (simp add: vector_id_from_pb_def ID_LENGTH_def)
  have point: "point_from_pb U fmt_id \<lparr>pbpt_id = replicate 16 0, pbpt_vector = [0], pbpt_document = None, pbpt_payload = None\<rparr> =
      Inr \<lparr>dp_id = i, dp_embedding = Embedding [0], dp_document = None, dp_payload = None\<rparr>" for U fmt_id
    unfolding point_from_pb_def by (simp add: i embedding_from_pb_def emb del: replicate.simps)
  let ?meta = "\<lparr>cm_name = ''c'', cm_metric = Cosine, cm_dimension = Dimension 1, cm_index_type = Choice_Flat, cm_hnsw = None\<rparr>"
  let ?cs = "apply_point (env_unicode E) \<lparr>dp_id = i, dp_embedding = Embedding [0], dp_document = None, dp_payload = None\<rparr> empty_spec"
  have "snd (run_steps (rpc_spec E) (rpcs example_events) Map.empty) = [''c'' \<mapsto> (?meta, ?cs)]"
    by (simp add: example_events_def create_spec_def create_meta_def PbMetric_try_from_def Dimension_try_from_def
        PbIndexType_try_from_def name upsert_spec_def spec_find_def point Dimension_get_def Let_def)
  moreover have "dom (sp_vectors ?cs) = {i}" by (simp add: apply_point_def empty_spec_def)
  ultimately show thesis using that [of ?meta ?cs i] by simp
qed

lemma example_runs:
  obtains reg rs reg' where "Registry_open mem_env meta_codec \<lparr>dk_entries = None, dk_faults = []\<rparr> = Inr reg"
    "service_run mem_env meta_codec example_events reg = Inr (rs, reg')"
  using service_run_refines [OF mem_env_ok meta_codec_fine registry_fresh(2,3) example_fits] registry_fresh(1) that by blast

lemma service_search_sound_witness:
  "\<exists>reg rs reg' hits. Registry_open mem_env meta_codec \<lparr>dk_entries = None, dk_faults = []\<rparr> = Inr reg \<and>
     service_run mem_env meta_codec example_events reg = Inr (rs, reg') \<and>
     search_collection mem_env \<lparr>pbs_collection = ''c'', pbs_vector = [0], pbs_k = 5, pbs_metric = None, pbs_filter = None\<rparr> reg' =
       Inr (hits_to_pb hits) \<and> length hits = 1"
proof -
  let ?req = "\<lparr>pbs_collection = ''c'', pbs_vector = [0], pbs_k = 5, pbs_metric = None, pbs_filter = None\<rparr>"
  let ?query = "\<lparr>sq_embedding = Embedding [0], sq_k = 5, sq_metric = None, sq_filter = None\<rparr>"
  have "embedding_ok (Embedding [0])" by code_simp
  then have emb: "Embedding_new [0] = Inr (Embedding [0])" by (simp add: Embedding_new_Inr)
  have query: "search_query_from_pb (env_fmt_id mem_env) ?req = Inr (''c'', ?query)"
    by (simp add: search_query_from_pb_def embedding_from_pb_def emb usize_of_u32_def optional_metric_from_pb_def usize_max_def)
  have dim: "Embedding_dimension (Embedding [0]) = Dimension 1"
    by (simp add: Embedding_dimension_def Dimension_new_def u32_max_def)
  obtain reg rs reg' where run: "Registry_open mem_env meta_codec \<lparr>dk_entries = None, dk_faults = []\<rparr> = Inr reg"
    "service_run mem_env meta_codec example_events reg = Inr (rs, reg')" by (rule example_runs)
  obtain meta cs i where st: "snd (run_steps (rpc_spec mem_env) (rpcs example_events) Map.empty) = [''c'' \<mapsto> (meta, cs)]"
    "cm_dimension meta = Dimension 1" "cm_index_type meta = Choice_Flat" "dom (sp_vectors cs) = {i}" by (rule example_state)
  obtain r where r: "search_collection mem_env ?req reg' = map_res hits_to_pb (map_err (query_error_to_status (env_fmt_id mem_env)) r)"
    "answers Choice_Flat (graph_in reg' ''c'') (cm_metric meta) cs ?query r"
    using service_search_sound [OF mem_env_ok meta_codec_fine example_fits run refl, of ?req] unfolding query
    by (auto simp: st dim)
  then obtain hits ns where ns: "r = Inr hits" "length hits = length ns"
    "is_top_k 5 (candidates (cm_metric meta) (Embedding [0]) (passes None (sp_payloads cs)) (sp_vectors cs)) ns"
    by (auto simp: answers_def query_metric_def Let_def split: sum.splits)
  have "{x. x = i \<and> passes None (sp_payloads cs) x} = {i}" by (auto simp: passes_def)
  then have "length ns = 1" using ns(3) st(4) by (auto simp: top_k_def card_candidates)
  then show ?thesis using run r(1) ns by auto
qed

lemma service_listing_exact_witness:
  "\<exists>reg rs reg'. Registry_open mem_env meta_codec \<lparr>dk_entries = None, dk_faults = []\<rparr> = Inr reg \<and>
     service_run mem_env meta_codec example_events reg = Inr (rs, reg') \<and>
     length (list_collections mem_env reg') = 1 \<and> map_res pbci_count (describe_collection mem_env ''c'' reg') = Inr 1"
proof -
  obtain reg rs reg' where run: "Registry_open mem_env meta_codec \<lparr>dk_entries = None, dk_faults = []\<rparr> = Inr reg"
    "service_run mem_env meta_codec example_events reg = Inr (rs, reg')" by (rule example_runs)
  obtain meta cs i where st: "snd (run_steps (rpc_spec mem_env) (rpcs example_events) Map.empty) = [''c'' \<mapsto> (meta, cs)]"
    "dom (sp_vectors cs) = {i}" by (rule example_state)
  show ?thesis
    using service_listing_exact [OF mem_env_ok meta_codec_fine example_fits run refl, of "''c''"] run
    by (auto simp: st spec_find_def info_of_def collection_info_def)
qed

end
