(* ===== verification/Client_Correct.thy ===== *)
theory Client_Correct
  imports Client Service_Reads
begin

text \<open>
  End to end: a client over the service, in the terms of the domain. The abstract machine takes collections, points,
  identifiers and filters, not messages; the client encodes, the handlers decode, check and write, the stores persist, and
  nothing of it can be seen from outside.
\<close>

section \<open>The machine\<close>

definition point_of :: "PointInput \<Rightarrow> DecodedPoint" where
  "point_of p = \<lparr>dp_id = pin_id p, dp_embedding = pin_embedding p, dp_document = pin_document p, dp_payload = pin_payload p\<rparr>"

datatype client_op =
    Cl_create CollectionSpec
  | Cl_drop string
  | Cl_upsert string PointInput
  | Cl_batch string "PointInput list"
  | Cl_bulk string "PointInput list list"
  | Cl_delete string VectorId
  | Cl_purge string Filter

datatype client_reply = Cl_unit "ClientError + unit" | Cl_bool "ClientError + bool" | Cl_count "ClientError + u64"

fun client_step :: "'s Stub \<Rightarrow> client_op \<Rightarrow> 's \<Rightarrow> client_reply \<times> 's" where
  "client_step stub (Cl_create spec) s = apfst Cl_unit (Client_create_collection stub spec s)"
| "client_step stub (Cl_drop name) s = apfst Cl_bool (Client_drop_collection stub name s)"
| "client_step stub (Cl_upsert name p) s =
     apfst Cl_unit (Client_upsert stub name (pin_id p) (pin_embedding p) (pin_document p) (pin_payload p) s)"
| "client_step stub (Cl_batch name ps) s = apfst Cl_count (Client_batch_upsert stub name ps s)"
| "client_step stub (Cl_bulk name chunks) s = apfst Cl_count (Client_bulk_upsert stub name chunks s)"
| "client_step stub (Cl_delete name i) s = apfst Cl_bool (Client_delete stub name i s)"
| "client_step stub (Cl_purge name f) s = apfst Cl_count (Client_delete_by_filter stub name f s)"

definition meta_of :: "CollectionSpec \<Rightarrow> CollectionMeta" where
  "meta_of spec = \<lparr>cm_name = csp_name spec, cm_metric = csp_metric spec, cm_dimension = csp_dimension spec,
     cm_index_type = csp_index_type spec,
     cm_hnsw = (if csp_index_type spec = Choice_Hnsw
       then Some ((case csp_hnsw spec of Some c \<Rightarrow> c | None \<Rightarrow> HnswConfig_default)\<lparr>cfg_metric := csp_metric spec\<rparr>) else None)\<rparr>"

text \<open>The first parameter of an HNSW collection that does not fit the wire.\<close>

definition too_wide :: "CollectionSpec \<Rightarrow> string option" where
  "too_wide spec = (case csp_hnsw spec of
     None \<Rightarrow> None
   | Some c \<Rightarrow> if u32_max < cfg_m c then Some ''m'' else if u32_max < cfg_ef_construction c then Some ''ef_construction''
       else if u32_max < cfg_ef_search c then Some ''ef_search'' else None)"

definition in_collection ::
  "string \<Rightarrow> (CollectionMeta \<Rightarrow> col_spec \<Rightarrow> (ClientError + 'a) \<times> col_spec) \<Rightarrow> reg_spec \<Rightarrow> (ClientError + 'a) \<times> reg_spec" where
  "in_collection name f st = (case st name of
     None \<Rightarrow> (Inl (Ce_Status (not_found name)), st)
   | Some (meta, cs) \<Rightarrow> (case f meta cs of (r, cs') \<Rightarrow> (r, st(name \<mapsto> (meta, cs')))))"

definition misfit :: "Dimension \<Rightarrow> Dimension \<Rightarrow> ClientError" where
  "misfit d d' = Ce_Status (invalid_argument (''vector dimension mismatch: expected '' @ string_of_nat (Dimension_get d) @
     '', got '' @ string_of_nat (Dimension_get d')))"

text \<open>All or nothing within one chunk.\<close>

definition put_points ::
  "Unicode \<Rightarrow> PointInput list \<Rightarrow> CollectionMeta \<Rightarrow> col_spec \<Rightarrow> (ClientError + u64) \<times> col_spec" where
  "put_points U ps meta cs = (case List.find (\<lambda>p. Embedding_dimension (pin_embedding p) \<noteq> cm_dimension meta) ps of
     Some p \<Rightarrow> (Inl (misfit (cm_dimension meta) (Embedding_dimension (pin_embedding p))), cs)
   | None \<Rightarrow> (Inr (u64_of_usize (length ps)), apply_points U (map point_of ps) cs))"

text \<open>Chunk after chunk; the first refused one ends the stream, the earlier ones stay.\<close>

fun put_chunks ::
  "Unicode \<Rightarrow> PointInput list list \<Rightarrow> u64 \<Rightarrow> CollectionMeta \<Rightarrow> col_spec \<Rightarrow> (ClientError + u64) \<times> col_spec" where
  "put_chunks U [] n meta cs = (Inr n, cs)"
| "put_chunks U (ps # chunks) n meta cs = (case put_points U ps meta cs of
     (Inl e, cs) \<Rightarrow> (Inl e, cs)
   | (Inr k, cs) \<Rightarrow> put_chunks U chunks (n + k) meta cs)"

fun client_spec :: "Unicode \<Rightarrow> client_op \<Rightarrow> reg_spec \<Rightarrow> client_reply \<times> reg_spec" where
  "client_spec U (Cl_create spec) st = apfst Cl_unit
     (case too_wide spec of
        Some field \<Rightarrow> (Inl (out_of_range field), st)
      | None \<Rightarrow>
          if \<not> is_valid_name (csp_name spec) then (Inl (Ce_Status (invalid_argument (csp_name spec))), st)
          else if st (csp_name spec) \<noteq> None then (Inl (Ce_Status (Status AlreadyExists (csp_name spec))), st)
          else (Inr (), st(csp_name spec \<mapsto> (meta_of spec, empty_spec))))"
| "client_spec U (Cl_drop name) st = (Cl_bool (Inr (st name \<noteq> None)), st(name := None))"
| "client_spec U (Cl_upsert name p) st =
     apfst (\<lambda>r. Cl_unit (map_res (\<lambda>_. ()) r)) (in_collection name (put_points U [p]) st)"
| "client_spec U (Cl_batch name ps) st = apfst Cl_count (in_collection name (put_points U ps) st)"
| "client_spec U (Cl_bulk name chunks) st = apfst Cl_count
     (if chunks = [] then (Inl (Ce_Status (invalid_argument ''bulk_upsert stream carried no messages'')), st)
      else in_collection name (put_chunks U chunks 0) st)"
| "client_spec U (Cl_delete name i) st = apfst Cl_bool
     (in_collection name (\<lambda>_ cs. (Inr (sp_vectors cs i \<noteq> None), drop_ids {i} cs)) st)"
| "client_spec U (Cl_purge name f) st = apfst Cl_count
     (in_collection name (\<lambda>_ cs. (Inr (word_of_nat (card (selected f (sp_payloads cs) \<inter> dom (sp_vectors cs)))),
        drop_ids (selected f (sp_payloads cs)) cs)) st)"

text \<open>What the types of the client guarantee of its arguments; an embedding of more components does not fit a machine.\<close>

definition valid_point :: "Unicode \<Rightarrow> PointInput \<Rightarrow> bool" where
  "valid_point U p \<longleftrightarrow> point_ok U (point_of p) \<and> length (as_slice (pin_embedding p)) \<le> u32_max"

definition valid_op :: "Unicode \<Rightarrow> client_op \<Rightarrow> bool" where
  "valid_op U a \<longleftrightarrow> (case a of
     Cl_create spec \<Rightarrow> 0 < Dimension_get (csp_dimension spec) \<and> opt_ok config_ok (csp_hnsw spec)
   | Cl_upsert _ p \<Rightarrow> valid_point U p
   | Cl_batch _ ps \<Rightarrow> list_all (valid_point U) ps
   | Cl_bulk _ chunks \<Rightarrow> list_all (list_all (valid_point U)) chunks
   | _ \<Rightarrow> True)"

section \<open>Messages\<close>

lemma point_decodes: "valid_point U p \<Longrightarrow> point_from_pb U fmt_id (pb_point p) = Inr (point_of p)"
proof -
  assume v: "valid_point U p"
  then have "transpose_opt (Document_new U) (map_option doc_str (pin_document p)) = Inr (pin_document p)"
    by (cases "pin_document p") (auto simp: valid_point_def point_ok_def point_of_def opt_ok_def Document_new_def)
  moreover have "transpose_opt payload_from_pb (map_option payload_to_pb (pin_payload p)) = Inr (pin_payload p)"
    using v by (intro payload_opt_roundtrip) (simp add: valid_point_def point_ok_def point_of_def)
  moreover have "embedding_from_pb fmt_id (embedding_to_pb (pin_embedding p)) = Inr (pin_embedding p)"
    using v by (intro embedding_roundtrip) (simp add: valid_point_def point_ok_def point_of_def)
  ultimately show ?thesis by (simp add: point_from_pb_def pb_point_def point_to_pb_def point_of_def)
qed

lemma batch_decodes:
  assumes "list_all (valid_point U) ps"
  shows "point_batch_from_pb U fmt_id (point_batch_to_pb name (map pb_point ps)) = Inr (name, map point_of ps)"
proof -
  have "traverse (point_from_pb U fmt_id) (map pb_point ps) = Inr (map point_of ps)"
    using assms by (induction ps) (simp_all add: point_decodes)
  then show ?thesis by (simp add: point_batch_from_pb_def point_batch_to_pb_def)
qed

lemma ensure_points:
  "ensure_dimension (map point_of ps) (Dimension_get d) =
     (case List.find (\<lambda>p. Embedding_dimension (pin_embedding p) \<noteq> d) ps of
        Some p \<Rightarrow> Inl (invalid_argument (''vector dimension mismatch: expected '' @ string_of_nat (Dimension_get d) @
          '', got '' @ string_of_nat (Dimension_get (Embedding_dimension (pin_embedding p)))))
      | None \<Rightarrow> Inr ())"
proof (induction ps)
  case (Cons p ps)
  have "Dimension_get (Embedding_dimension (pin_embedding p)) = Dimension_get d \<longleftrightarrow> Embedding_dimension (pin_embedding p) = d"
    using Dimension_get_inj by blast
  with Cons show ?case by (simp add: ensure_dimension_def point_of_def)
qed (simp add: ensure_dimension_def)

lemma narrowed: "n \<le> u32_max \<Longrightarrow> unat (word_of_nat n :: u32) = n"
  by (simp add: u32_max_def unat_of_nat)

lemma positive_narrowed:
  assumes "0 < n" "n \<le> u32_max"
  shows "positive_or_default (Some (word_of_nat n)) k field = Inr n"
proof -
  have "(word_of_nat n :: u32) \<noteq> 0" using narrowed [OF assms(2)] assms(1) by (metis unat_0 less_numeral_extra(3))
  then show ?thesis using narrowed [OF assms(2)] assms(2) by (simp add: positive_or_default_def usize_max_def u32_max_def)
qed

lemma hnsw_decodes:
  assumes "config_ok c" "cfg_m c \<le> u32_max" "cfg_ef_construction c \<le> u32_max" "cfg_ef_search c \<le> u32_max"
  shows "\<exists>params. hnsw_to_pb c = Inr params \<and> hnsw_config_from_pb metric (Some params) = Inr (c\<lparr>cfg_metric := metric\<rparr>)"
  using assms by (cases c) (simp add: hnsw_to_pb_def narrow_u32_def hnsw_config_from_pb_def Let_def positive_narrowed
      HnswConfig_new_Inr config_ok_def del: res_bind_eq_Inr)

lemma default_decodes: "hnsw_config_from_pb metric None = Inr (HnswConfig_default\<lparr>cfg_metric := metric\<rparr>)"
  by (simp add: hnsw_config_from_pb_def positive_or_default_def HnswConfig_default_def HnswConfig_new_def MIN_DEGREE_def)

lemma metric_decodes: "PbMetric_try_from (PbMetric_as_i32 (metric_to_pb m)) = Some (metric_to_pb m)"
  "metric_from_pb (metric_to_pb m) = Inr m"
  by (cases m; simp add: PbMetric_try_from_def PbMetric_as_i32_def)+

lemma type_decodes: "PbIndexType_try_from (PbIndexType_as_i32 (index_type_to_pb t)) = Some (index_type_to_pb t)"
  "index_type_from_pb (index_type_to_pb t) = Inr t"
  by (cases t; simp add: PbIndexType_try_from_def PbIndexType_as_i32_def)+

lemma dimension_decodes: "0 < Dimension_get d \<Longrightarrow> Dimension_try_from (word_of_nat (Dimension_get d)) = Inr d"
  by (cases d) (auto simp: Dimension_try_from_def Dimension_get_def)

lemma create_decodes:
  assumes "0 < Dimension_get (csp_dimension spec)" "opt_ok config_ok (csp_hnsw spec)"
  shows "case too_wide spec of
      Some field \<Rightarrow> create_request spec = Inl (out_of_range field)
    | None \<Rightarrow> \<exists>req. create_request spec = Inr req \<and> create_meta req = Inr (meta_of spec)"
proof -
  have dim: "narrow_u32 (Dimension_get (csp_dimension spec)) field = Inr (word_of_nat (Dimension_get (csp_dimension spec)))" for field
    using Dimension_get_le [of "csp_dimension spec"] by (simp add: narrow_u32_def)
  show ?thesis
  proof (cases "csp_hnsw spec")
    case None
    then show ?thesis
      by (simp add: too_wide_def create_request_def dim create_meta_def metric_decodes type_decodes dimension_decodes assms(1)
          default_decodes meta_of_def del: res_bind_eq_Inr)
  next
    case (Some c)
    show ?thesis
    proof (cases "too_wide spec")
      case None
      then have "cfg_m c \<le> u32_max" "cfg_ef_construction c \<le> u32_max" "cfg_ef_search c \<le> u32_max"
        by (auto simp: too_wide_def Some split: if_splits)
      moreover have "config_ok c" using assms(2) by (simp add: Some opt_ok_def)
      ultimately obtain params where "hnsw_to_pb c = Inr params"
        "hnsw_config_from_pb (csp_metric spec) (Some params) = Inr (c\<lparr>cfg_metric := csp_metric spec\<rparr>)"
        using hnsw_decodes by blast
      then show ?thesis unfolding None
        by (simp add: Some create_request_def dim create_meta_def metric_decodes type_decodes dimension_decodes assms(1)
            meta_of_def del: res_bind_eq_Inr)
    next
      case wide: (Some field)
      then have "hnsw_to_pb c = Inl (out_of_range field)"
        by (auto simp: too_wide_def Some hnsw_to_pb_def narrow_u32_def split: if_splits)
      then show ?thesis unfolding wide by (simp add: create_request_def dim Some)
    qed
  qed
qed

section \<open>One call\<close>

fun reply_of :: "rpc_reply \<Rightarrow> client_reply" where
  "reply_of (Unit_reply r) = Cl_unit (map_err Ce_Status r)"
| "reply_of (Bool_reply r) = Cl_bool (map_err Ce_Status r)"
| "reply_of (Count_reply r) = Cl_count (map_err Ce_Status r)"

fun encode :: "client_op \<Rightarrow> ClientError + rpc" where
  "encode (Cl_create spec) = map_res Rpc_create (create_request spec)"
| "encode (Cl_drop name) = Inr (Rpc_drop name)"
| "encode (Cl_upsert name p) = Inr (Rpc_upsert \<lparr>pbu_collection = name, pbu_point = Some (pb_point p)\<rparr>)"
| "encode (Cl_batch name ps) = Inr (Rpc_batch_upsert (Some (point_batch_to_pb name (map pb_point ps))))"
| "encode (Cl_bulk name chunks) =
     Inr (Rpc_bulk_upsert (map Inr (map (\<lambda>ps. Some (point_batch_to_pb name (map pb_point ps))) chunks)))"
| "encode (Cl_delete name i) = Inr (Rpc_delete \<lparr>pbdel_collection = name, pbdel_id = vector_id_to_pb i\<rparr>)"
| "encode (Cl_purge name f) = Inr (Rpc_delete_by_filter (delete_by_filter_to_pb name f))"

lemma client_step_encode:
  "client_step (service_stub E MC) a reg = (case encode a of
     Inl e \<Rightarrow> (Cl_unit (Inl e), reg)
   | Inr r \<Rightarrow> apfst reply_of (rpc_step E MC r reg))"
  by (cases a; cases "create_request (case a of Cl_create spec \<Rightarrow> spec)")
    (simp_all add: Client_create_collection_def Client_drop_collection_def Client_upsert_def Client_batch_upsert_def
      Client_bulk_upsert_def Client_delete_def Client_delete_by_filter_def call_def service_stub_def pb_point_def
      apfst_def map_prod_def split_beta)

lemma in_collection_find:
  "in_collection name f st = (case spec_find name st of
     Inl status \<Rightarrow> (Inl (Ce_Status status), st)
   | Inr (meta, cs) \<Rightarrow> (case f meta cs of (r, cs') \<Rightarrow> (r, st(name \<mapsto> (meta, cs')))))"
  by (simp add: in_collection_def spec_find_def ok_or_def split: option.split)

lemma spec_find_upd: "spec_find name st = Inr (meta, cs) \<Longrightarrow> st(name \<mapsto> (meta, cs)) = st"
  by (rule fun_upd_idem) (simp add: spec_find_def)

lemma upsert_encode:
  assumes "valid_point (env_unicode E) p"
  shows "client_spec (env_unicode E) (Cl_upsert name p) st =
    apfst reply_of (rpc_spec E (Rpc_upsert \<lparr>pbu_collection = name, pbu_point = Some (pb_point p)\<rparr>) st)"
proof -
  have "embedding_ok (pin_embedding p)" "length (as_slice (pin_embedding p)) \<le> u32_max"
    using assms by (simp_all add: valid_point_def point_ok_def point_of_def)
  then have len: "length (pbpt_vector (pb_point p)) = Dimension_get (Embedding_dimension (pin_embedding p))"
    by (simp add: pb_point_def point_to_pb_def embedding_to_pb_def Embedding_dimension_get embedding_ok_def)
  have dim: "Dimension_get (Embedding_dimension (pin_embedding p)) = Dimension_get d \<longleftrightarrow> Embedding_dimension (pin_embedding p) = d" for d
    using Dimension_get_inj by blast
  show ?thesis
    by (auto simp: in_collection_find upsert_spec_def len dim point_decodes [OF assms] put_points_def misfit_def Let_def
        spec_find_upd split: sum.split)
qed

lemma batch_encode:
  assumes "list_all (valid_point (env_unicode E)) ps"
  shows "client_spec (env_unicode E) (Cl_batch name ps) st =
    apfst reply_of (rpc_spec E (Rpc_batch_upsert (Some (point_batch_to_pb name (map pb_point ps)))) st)"
  by (auto simp: in_collection_find batch_spec_def batch_upsert_from_pb_def batch_decodes [OF assms] ensure_points put_points_def
      misfit_def spec_find_upd split: sum.split option.split)

lemma chunks_encode:
  "list_all (list_all (valid_point (env_unicode E))) (ps # chunks) \<Longrightarrow>
   apfst (map_err Ce_Status) (bulk_spec_chunks E name meta (map point_of ps)
     (map Inr (map (\<lambda>ps. Some (point_batch_to_pb name (map pb_point ps))) chunks)) n cs) =
   put_chunks (env_unicode E) (ps # chunks) n meta cs"
proof (induction chunks arbitrary: ps n cs)
  case Nil
  show ?case by (simp add: ensure_points put_points_def misfit_def Let_def split: option.split)
next
  case (Cons next_ps chunks)
  have next_ok: "list_all (valid_point (env_unicode E)) next_ps"
    and tail: "list_all (list_all (valid_point (env_unicode E))) (next_ps # chunks)" using Cons.prems by simp_all
  have dec: "bulk_upsert_from_pb (env_unicode E) fmt_id (Some (point_batch_to_pb name (map pb_point next_ps))) =
      Inr (name, map point_of next_ps)" for fmt_id
    by (simp add: bulk_upsert_from_pb_def batch_decodes [OF next_ok])
  note IH = Cons.IH [OF tail]
  show ?case
  proof (cases "List.find (\<lambda>p. Embedding_dimension (pin_embedding p) \<noteq> cm_dimension meta) ps")
    case None
    then show ?thesis
      using IH [of "n + u64_of_usize (length ps)" "apply_points (env_unicode E) (map point_of ps) cs"]
      by (simp add: ensure_points put_points_def dec Let_def del: put_chunks.simps(2) bulk_spec_chunks.simps
          add: put_chunks.simps(2) [of _ ps] bulk_spec_chunks.simps [of _ _ _ "map point_of ps"])
  next
    case (Some p)
    then show ?thesis by (simp add: ensure_points put_points_def misfit_def)
  qed
qed

lemma bulk_encode:
  assumes "list_all (list_all (valid_point (env_unicode E))) chunks"
  shows "client_spec (env_unicode E) (Cl_bulk name chunks) st = apfst reply_of (rpc_spec E
    (Rpc_bulk_upsert (map Inr (map (\<lambda>ps. Some (point_batch_to_pb name (map pb_point ps))) chunks))) st)"
proof (cases chunks)
  case Nil
  then show ?thesis by (simp add: bulk_spec_def)
next
  case (Cons ps rest)
  have ps: "list_all (valid_point (env_unicode E)) ps" using assms by (simp add: Cons)
  have dec: "bulk_upsert_from_pb (env_unicode E) fmt_id (Some (point_batch_to_pb name (map pb_point ps))) =
      Inr (name, map point_of ps)" for fmt_id
    by (simp add: bulk_upsert_from_pb_def batch_decodes [OF ps])
  show ?thesis
  proof (cases "spec_find name st")
    case (Inl status)
    then show ?thesis by (simp add: Cons bulk_spec_def dec in_collection_find)
  next
    case (Inr mc)
    obtain meta cs where mc: "mc = (meta, cs)" by fastforce
    obtain r cs' where out: "bulk_spec_chunks E name meta (map point_of ps)
        (map Inr (map (\<lambda>ps. Some (point_batch_to_pb name (map pb_point ps))) rest)) 0 cs = (r, cs')" by fastforce
    note put = chunks_encode [OF assms [unfolded Cons], of name meta 0 cs, unfolded out, symmetric]
    have "client_spec (env_unicode E) (Cl_bulk name chunks) st = (Cl_count (map_err Ce_Status r), st(name \<mapsto> (meta, cs')))"
      using Inr put by (simp add: Cons in_collection_find mc del: put_chunks.simps)
    moreover have "bulk_spec E (map Inr (map (\<lambda>ps. Some (point_batch_to_pb name (map pb_point ps))) chunks)) st =
        (r, st(name \<mapsto> (meta, cs')))"
      using Inr out [unfolded map_map] by (simp add: Cons bulk_spec_def dec mc del: bulk_spec_chunks.simps)
    ultimately show ?thesis by simp
  qed
qed

lemma client_spec_encode:
  assumes "valid_op (env_unicode E) a"
  shows "client_spec (env_unicode E) a st = (case encode a of
     Inl e \<Rightarrow> (Cl_unit (Inl e), st)
   | Inr r \<Rightarrow> apfst reply_of (rpc_spec E r st))"
proof (cases a)
  case (Cl_create spec)
  then have v: "0 < Dimension_get (csp_dimension spec)" "opt_ok config_ok (csp_hnsw spec)"
    using assms by (simp_all add: valid_op_def)
  show ?thesis
  proof (cases "too_wide spec")
    case None
    then obtain req where req: "create_request spec = Inr req" "create_meta req = Inr (meta_of spec)"
      using create_decodes [OF v] by auto
    have "cm_name (meta_of spec) = csp_name spec" by (simp add: meta_of_def)
    then show ?thesis by (simp add: Cl_create None req create_spec_def)
  next
    case (Some field)
    then show ?thesis using create_decodes [OF v] by (simp add: Cl_create)
  qed
next
  case (Cl_upsert name p)
  then show ?thesis using upsert_encode [of E p name st] assms by (simp add: valid_op_def)
next
  case (Cl_batch name ps)
  then show ?thesis using batch_encode [of E ps name st] assms by (simp add: valid_op_def)
next
  case (Cl_bulk name chunks)
  then show ?thesis using bulk_encode [of E chunks name st] assms by (simp add: valid_op_def)
next
  case (Cl_delete name i)
  then show ?thesis by (simp add: in_collection_find delete_spec_def split: sum.split prod.split)
next
  case (Cl_purge name f)
  then show ?thesis
    by (simp add: in_collection_find delete_by_filter_spec_def delete_by_filter_from_pb_def delete_by_filter_to_pb_def
        split: sum.split prod.split)
qed simp

section \<open>Whole runs\<close>

datatype client_event = Request_call client_op | Server_restart

fun client_run ::
  "'d Env \<Rightarrow> CollectionMeta Codec \<Rightarrow> client_event list \<Rightarrow> 'd Registry \<Rightarrow> ServerError + client_reply list \<times> 'd Registry" where
  "client_run E MC [] reg = Inr ([], reg)"
| "client_run E MC (Request_call a # es) reg =
     (case client_step (service_stub E MC) a reg of (out, reg) \<Rightarrow> map_res (\<lambda>(rs, reg). (out # rs, reg)) (client_run E MC es reg))"
| "client_run E MC (Server_restart # es) reg = res_bind (Registry_open E MC (rg_disk reg)) (client_run E MC es)"

fun calls :: "client_event list \<Rightarrow> client_op list" where
  "calls [] = []"
| "calls (Request_call a # es) = a # calls es"
| "calls (Server_restart # es) = calls es"

definition client_cost :: "client_op \<Rightarrow> nat" where
  "client_cost a = Suc (case a of Cl_batch _ ps \<Rightarrow> length ps | Cl_bulk _ chunks \<Rightarrow> length (concat chunks) | _ \<Rightarrow> 0)"

definition calls_cost :: "client_event list \<Rightarrow> nat" where
  "calls_cost es = sum_list (map client_cost (calls es))"

lemma rpc_cost_encode: "encode a = Inr r \<Longrightarrow> rpc_cost r = client_cost a"
proof (cases a)
  case (Cl_bulk name chunks)
  have "stream_points (map Inr (map (\<lambda>ps. Some (point_batch_to_pb name (map pb_point ps))) chunks)) = length (concat chunks)"
    by (induction chunks) (simp_all add: stream_points_def batch_points_def point_batch_to_pb_def)
  moreover assume "encode a = Inr r"
  ultimately show ?thesis by (auto simp: Cl_bulk rpc_cost_def client_cost_def)
qed (auto simp: rpc_cost_def client_cost_def batch_points_def point_batch_to_pb_def)

lemma client_step_refines:
  assumes "env_ok E view" "env_total E" "meta_codec_ok MC" "reg_ok E MC view reg" "reg_room (client_cost a + n) reg"
    and "\<And>d. records_fit d n" "valid_op (env_unicode E) a"
  shows "refined E MC view n (client_step (service_stub E MC) a reg) (client_spec (env_unicode E) a (reg_view E view reg))"
proof (cases "encode a")
  case (Inl e)
  have "reg_room n reg" using reg_room_mono [OF assms(5)] by simp
  from refined_same [OF assms(4) this] show ?thesis
    using Inl by (simp add: client_step_encode client_spec_encode [OF assms(7)])
next
  case (Inr r)
  have room: "reg_room (rpc_cost r + n) reg" using assms(5) rpc_cost_encode [OF Inr] by simp
  show ?thesis using refined_apfst [OF rpc_step_refines [OF assms(1-4) room assms(6)]]
    by (simp add: client_step_encode client_spec_encode [OF assms(7)] Inr)
qed

lemma client_run_refines:
  assumes "env_ok E view" "env_total E" "meta_codec_ok MC"
  shows "reg_ok E MC view reg \<Longrightarrow> reg_room (calls_cost es) reg \<Longrightarrow> always_fits (calls_cost es) \<Longrightarrow>
    list_all (valid_op (env_unicode E)) (calls es) \<Longrightarrow>
    \<exists>rs reg'. client_run E MC es reg = Inr (rs, reg') \<and> reg_ok E MC view reg' \<and>
      (rs, reg_view E view reg') = run_steps (client_spec (env_unicode E)) (calls es) (reg_view E view reg)"
proof (induction es arbitrary: reg)
  case (Cons e es)
  show ?case
  proof (cases e)
    case (Request_call a)
    then have n: "calls_cost (e # es) = client_cost a + calls_cost es" by (simp add: calls_cost_def)
    have a: "valid_op (env_unicode E) a" "list_all (valid_op (env_unicode E)) (calls es)" using Cons.prems(4) by (simp_all add: Request_call)
    have fit: "records_fit d (calls_cost es)" for d using always_fits_records [OF Cons.prems(3)] n by simp
    have fits: "always_fits (calls_cost es)" using Cons.prems(3) n by (simp add: always_fits_def add_mult_distrib)
    obtain out reg1 where out: "client_step (service_stub E MC) a reg = (out, reg1)" by fastforce
    have "refined E MC view (calls_cost es) (out, reg1) (client_spec (env_unicode E) a (reg_view E view reg))"
      using client_step_refines [OF assms Cons.prems(1) _ fit a(1)] Cons.prems(2) n unfolding out [symmetric] by simp
    then have one: "reg_ok E MC view reg1" "reg_room (calls_cost es) reg1"
      "client_spec (env_unicode E) a (reg_view E view reg) = (out, reg_view E view reg1)" by (auto simp: refined_def)
    obtain rs reg' where run: "client_run E MC es reg1 = Inr (rs, reg')" "reg_ok E MC view reg'"
      "run_steps (client_spec (env_unicode E)) (calls es) (reg_view E view reg1) = (rs, reg_view E view reg')"
      using Cons.IH [OF one(1,2) fits a(2)] by auto
    then show ?thesis by (simp add: Request_call out one(3) del: client_step.simps client_spec.simps)
  next
    case Server_restart
    then have n: "calls_cost (e # es) = calls_cost es" by (simp add: calls_cost_def)
    obtain reg1 where o: "Registry_open E MC (rg_disk reg) = Inr reg1" "reg_ok E MC view reg1"
      "reg_view E view reg1 = reg_view E view reg" "reg_room (calls_cost es) reg1"
      using Registry_reopens [OF assms(1,2) Cons.prems(1)] Cons.prems(2) n by auto
    from Cons.IH [OF o(2,4)] Cons.prems(3,4) n show ?thesis by (simp add: Server_restart o(1,3))
  qed
qed simp

section \<open>Payloads\<close>

text \<open>Every stored payload is valid, so the hits of a search survive the way back.\<close>

definition cs_fine :: "col_spec \<Rightarrow> bool" where
  "cs_fine cs \<longleftrightarrow> (\<forall>p \<in> ran (sp_payloads cs). payload_ok p)"

definition payloads_fine :: "reg_spec \<Rightarrow> bool" where
  "payloads_fine st \<longleftrightarrow> (\<forall>name meta cs. st name = Some (meta, cs) \<longrightarrow> (cs_fine cs))"

lemma fine_apply: "list_all (valid_point U) ps \<Longrightarrow> cs_fine cs \<Longrightarrow>
    cs_fine (apply_points U (map point_of ps) cs)"
proof (induction ps arbitrary: cs)
  case (Cons p ps)
  have "opt_ok payload_ok (pin_payload p)" using Cons.prems(1) by (simp add: valid_point_def point_ok_def point_of_def)
  then have "cs_fine (apply_point U (point_of p) cs)"
    using Cons.prems(2) by (auto simp: cs_fine_def apply_point_def point_of_def ran_def opt_ok_def split: if_splits)
  with Cons show ?case by simp
qed simp

lemma fine_put: "list_all (valid_point U) ps \<Longrightarrow> cs_fine cs \<Longrightarrow>
    cs_fine (snd (put_points U ps meta cs))"
  using fine_apply [of U ps cs] by (simp add: put_points_def split: option.split)

lemma fine_chunks: "list_all (list_all (valid_point U)) chunks \<Longrightarrow> cs_fine cs \<Longrightarrow>
    cs_fine (snd (put_chunks U chunks n meta cs))"
proof (induction chunks arbitrary: n cs)
  case (Cons ps chunks)
  obtain r cs' where put: "put_points U ps meta cs = (r, cs')" by fastforce
  have "cs_fine cs'" using fine_put [of U ps cs meta] Cons.prems put by simp
  with Cons show ?case by (cases r) (simp_all add: put)
qed simp

lemma fine_drop: "cs_fine cs \<Longrightarrow> cs_fine (drop_ids S cs)"
  by (auto simp: cs_fine_def drop_ids_def ran_def restrict_map_def split: if_splits)

lemma fine_in:
  assumes "payloads_fine st"
    and "\<And>meta cs. cs_fine cs \<Longrightarrow> cs_fine (snd (f meta cs))"
  shows "payloads_fine (snd (in_collection name f st))"
  using assms unfolding payloads_fine_def in_collection_def
  by (auto split: option.split prod.split) (metis snd_conv)+

lemma client_spec_fine:
  assumes "payloads_fine st" "valid_op U a"
  shows "payloads_fine (snd (client_spec U a st))"
proof -
  have new: "payloads_fine (st(name \<mapsto> (meta, empty_spec)))" "payloads_fine (st(name := None))" for name meta
    using assms(1) by (auto simp: payloads_fine_def cs_fine_def empty_spec_def)
  note ins = fine_in [OF assms(1)]
  show ?thesis using assms
    by (cases a) (auto simp: new valid_op_def intro!: ins fine_put fine_chunks fine_drop split: option.split)
qed

lemma client_specs_fine:
  "payloads_fine st \<Longrightarrow> list_all (valid_op U) as \<Longrightarrow> payloads_fine (snd (run_steps (client_spec U) as st))"
proof (induction as arbitrary: st)
  case (Cons a as)
  obtain r st' where step: "client_spec U a st = (r, st')" by fastforce
  have "payloads_fine st'" using client_spec_fine [OF Cons.prems(1), of U a] Cons.prems(2) step by simp
  with Cons step show ?case by (simp add: split_beta del: client_spec.simps)
qed simp

lemma answers_decode:
  assumes "answers t g m cs query (Inr hits)" "cs_fine cs"
  shows "hits_from_pb (hits_to_pb hits) = Inr hits"
proof -
  obtain ns :: "Neighbor list" where ns: "hits = map (\<lambda>n. hit_of (sp_payloads cs) (neighbor_id n) (neighbor_score n)) ns"
    using assms(1) unfolding answers_def Let_def sum.case by blast
  have "opt_ok payload_ok (hit_payload (hit_of (sp_payloads cs) i s))" for i s
    using assms(2) by (auto simp: hit_of_def opt_ok_def cs_fine_def ran_def split: option.split)
  then show ?thesis unfolding ns
    by (induction ns) (simp_all add: hits_from_pb_def hits_to_pb_def hit_roundtrip)
qed

lemma search_decodes:
  assumes "embedding_ok (sq_embedding query)" "sq_k query \<le> u32_max"
  shows "\<exists>req. search_query_to_pb name query = Inr req \<and> search_query_from_pb fmt_id req = Inr (name, query)"
proof -
  obtain k where "u32_of_usize ''k out of range'' (sq_k query) = Inr k" "usize_of_u32 ''k out of range'' k = Inr (sq_k query)"
    using u32_roundtrip [OF assms(2)] by blast
  then show ?thesis using assms(1)
    by (cases query) (simp add: search_query_to_pb_def search_query_from_pb_def embedding_roundtrip del: res_bind_eq_Inr)
qed

section \<open>Properties\<close>

lemma client_reaches:
  assumes "env_ok E view" "env_total E" "meta_codec_ok MC" "always_fits (calls_cost es)"
    and "list_all (valid_op (env_unicode E)) (calls es)"
    and "Registry_open E MC \<lparr>dk_entries = None, dk_faults = []\<rparr> = Inr reg" "client_run E MC es reg = Inr (rs, reg')"
  shows "reg_ok E MC view reg'" "reg_view E view reg' = snd (run_steps (client_spec (env_unicode E)) (calls es) Map.empty)"
  using client_run_refines [OF assms(1-3) registry_fresh(2,3) assms(4,5)] assms(6,7)
  by (auto simp: registry_fresh(1,4) dest: arg_cong [where f = snd])

text \<open>
  C1. End to end. A client that creates and drops collections, upserts points one by one, in batches and in streams, and
  deletes by identifier and by filter, against a server on an empty root that is restarted at any moments in
  between, observes exactly the abstract machine of named collections, each of three maps over the domain types: every
  reply is the machine's, errors included, and no encoding, storage or restart shows.
\<close>

theorem client_refines_maps:
  assumes "env_ok E view" "env_total E" "meta_codec_ok MC" "always_fits (calls_cost es)"
    and "list_all (valid_op (env_unicode E)) (calls es)"
  shows "\<exists>reg rs reg'. Registry_open E MC \<lparr>dk_entries = None, dk_faults = []\<rparr> = Inr reg \<and>
    client_run E MC es reg = Inr (rs, reg') \<and>
    (rs, reg_view E view reg') = run_steps (client_spec (env_unicode E)) (calls es) Map.empty"
  using client_run_refines [OF assms(1-3) registry_fresh(2,3) assms(4,5)] unfolding registry_fresh(1,4) by blast

lemma handle_meta_ok: "reg_ok E MC view reg \<Longrightarrow> map_of (rg_map reg) name = Some h \<Longrightarrow> meta_ok (ch_meta h)"
  by (auto simp: reg_ok_def entry_ok_def)

lemma client_describes:
  assumes "reg_ok E MC view reg" "st = reg_view E view reg"
  shows "Client_describe_collection (service_stub E MC) name reg = (case st name of
      None \<Rightarrow> Inl (Ce_Status (not_found name))
    | Some (meta, cs) \<Rightarrow> Inr \<lparr>cmv_name = name, cmv_metric = cm_metric meta, cmv_dimension = cm_dimension meta,
        cmv_index_type = cm_index_type meta, cmv_count = word_of_nat (card (dom (sp_vectors cs)))\<rparr>, reg)"
proof -
  have stub: "st_describe_collection (service_stub E MC) = (\<lambda>name reg. (map_res Some (describe_collection E name reg), reg))"
    by (simp add: service_stub_def)
  show ?thesis
  proof (cases "st name")
    case None
    then show ?thesis
      by (simp add: Client_describe_collection_def stub describe_ok [OF assms(1)] assms(2) spec_find_def call_def)
  next
    case (Some p)
    obtain meta cs where p: "p = (meta, cs)" by fastforce
    obtain h where h: "map_of (rg_map reg) name = Some h" "meta = ch_meta h"
      using Some by (auto simp: assms(2) reg_view_def handle_view_def p)
    have name: "cm_name meta = name" "0 < Dimension_get (cm_dimension meta)"
      using handle_okE(1) [OF assms(1) h(1)] handle_meta_ok [OF assms(1) h(1)] h(2) by (simp_all add: meta_ok_def)
    show ?thesis
      using Dimension_get_le [of "cm_dimension meta"]
      by (simp add: Client_describe_collection_def stub describe_ok [OF assms(1)] spec_find_def Some p call_def info_of_def
          collection_info_def collection_info_to_view_def metric_decodes type_decodes u32_of_usize_def dimension_decodes name
          flip: assms(2))
  qed
qed

text \<open>
  The reply to a search of a named collection: \<open>NotFound\<close> when there is none, \<open>InvalidArgument\<close> for a vector of another
  dimension and for a metric the graph was not built for, the hits otherwise.
\<close>

definition search_reply ::
  "string \<Rightarrow> HnswIndex option \<Rightarrow> (CollectionMeta \<times> col_spec) option \<Rightarrow> SearchQuery \<Rightarrow> ClientError + SearchHit list \<Rightarrow> bool" where
  "search_reply name g entry query out = (case entry of
     None \<Rightarrow> out = Inl (Ce_Status (Status NotFound (''resource not found: '' @ name)))
   | Some (meta, cs) \<Rightarrow>
       if Embedding_dimension (sq_embedding query) \<noteq> cm_dimension meta
       then out = Inl (Ce_Status (Status InvalidArgument (''query dimension mismatch: expected '' @
         string_of_nat (Dimension_get (cm_dimension meta)) @ '', got '' @
         string_of_nat (Dimension_get (Embedding_dimension (sq_embedding query))))))
       else \<exists>r. answers (cm_index_type meta) g (cm_metric meta) cs query r \<and>
         out = (case r of
           Inl _ \<Rightarrow> Inl (Ce_Status (Status InvalidArgument (''metric not supported by this index: '' @
             (case query_metric (cm_metric meta) query of
                Cosine \<Rightarrow> ''Cosine'' | DotProduct \<Rightarrow> ''DotProduct'' | Euclidean \<Rightarrow> ''Euclidean''))))
         | Inr hits \<Rightarrow> Inr hits))"

lemma answers_reply:
  assumes "answers t g m cs query r"
  shows "map_err (\<lambda>e. Ce_Status (query_error_to_status fmt_id e)) r = (case r of
      Inl _ \<Rightarrow> Inl (Ce_Status (Status InvalidArgument (''metric not supported by this index: '' @
        (case query_metric m query of Cosine \<Rightarrow> ''Cosine'' | DotProduct \<Rightarrow> ''DotProduct'' | Euclidean \<Rightarrow> ''Euclidean''))))
    | Inr hits \<Rightarrow> Inr hits)"
  using assms by (cases r; cases "query_metric m query") (simp_all add: answers_def Let_def)

lemma client_searches:
  assumes "reg_ok E MC view reg" "st = reg_view E view reg" "payloads_fine st" "embedding_ok (sq_embedding query)"
  shows "\<exists>out. Client_search (service_stub E MC) name query reg = (out, reg) \<and>
      (if u32_max < sq_k query then out = Inl (Ce_Conversion (Domain ''k out of range''))
       else search_reply name (graph_in reg name) (st name) query out)"
proof (cases "u32_max < sq_k query")
  case True
  then show ?thesis by (simp add: Client_search_def search_query_to_pb_def u32_of_usize_def)
next
  case False
  have stub: "st_search (service_stub E MC) = (\<lambda>req reg. (search_collection E req reg, reg))" by (simp add: service_stub_def)
  have find: "find_handle name reg = Inl (not_found name)" if "st name = None"
    using that by (simp add: assms(2) reg_view_def find_handle_def Registry_get_def)
  obtain req where req: "search_query_to_pb name query = Inr req"
    "search_query_from_pb (env_fmt_id E) req = Inr (name, query)"
    using search_decodes [OF assms(4)] False by fastforce
  have code: "Client_search (service_stub E MC) name query reg =
      (res_bind (map_err Ce_Status (search_collection E req reg)) (\<lambda>hits. map_err Ce_Conversion (hits_from_pb hits)), reg)"
    by (cases "search_collection E req reg") (simp_all add: Client_search_def req(1) stub call_def)
  show ?thesis
  proof (cases "st name")
    case None
    then show ?thesis using False find by (simp add: code search_collection_def req(2) search_reply_def not_found_def)
  next
    case (Some p)
    obtain meta cs where p: "p = (meta, cs)" by fastforce
    have view: "reg_view E view reg name = Some (meta, cs)" using Some by (simp add: assms(2) p)
    have cs: "cs_fine cs" using assms(3) Some by (auto simp: payloads_fine_def p)
    note search = search_ok [OF assms(1) req(2) view]
    show ?thesis
    proof (cases "Embedding_dimension (sq_embedding query) = cm_dimension meta")
      case True
      with search obtain res where res: "search_collection E req reg =
          map_res hits_to_pb (map_err (query_error_to_status (env_fmt_id E)) res)"
        "answers (cm_index_type meta) (graph_in reg name) (cm_metric meta) cs query res" by auto
      have "Client_search (service_stub E MC) name query reg =
          (map_err (\<lambda>e. Ce_Status (query_error_to_status (env_fmt_id E) e)) res, reg)"
        using answers_decode [OF _ cs] res(2) by (cases res) (auto simp: code res(1))
      then show ?thesis using False Some True res(2) answers_reply [OF res(2)] by (auto simp: p search_reply_def)
    next
      case dim: False
      then show ?thesis using search False Some
        by (simp add: p code search_reply_def query_mismatch_def invalid_argument_def)
    qed
  qed
qed

text \<open>
  C2. What a client reads back. After any such run a search returns, for a flat collection, the true top \<open>k\<close> of the vectors
  whose payload passes the filter. For an HNSW collection, whose graph stores exactly the vectors of the machine, it returns
  the hits of the search of that graph: at most \<open>k\<close> such vectors in order, and the true top \<open>k\<close> of those the entry of the
  graph reaches whenever the beam is as wide as the graph has nodes. Scores are exact and payloads are as they were given. A query of another dimension, an unknown collection and a \<open>k\<close> beyond 32 bits are
  refused, the last without a message sent; a description carries the specification and the exact number of vectors.
\<close>

theorem client_reads_exact:
  assumes "env_ok E view" "env_total E" "meta_codec_ok MC" "always_fits (calls_cost es)"
    and "list_all (valid_op (env_unicode E)) (calls es)"
    and "Registry_open E MC \<lparr>dk_entries = None, dk_faults = []\<rparr> = Inr reg" "client_run E MC es reg = Inr (rs, reg')"
    and "st = snd (run_steps (client_spec (env_unicode E)) (calls es) Map.empty)" "embedding_ok (sq_embedding query)"
  shows "Client_describe_collection (service_stub E MC) name reg' = (case st name of
      None \<Rightarrow> Inl (Ce_Status (not_found name))
    | Some (meta, cs) \<Rightarrow> Inr \<lparr>cmv_name = name, cmv_metric = cm_metric meta, cmv_dimension = cm_dimension meta,
        cmv_index_type = cm_index_type meta, cmv_count = word_of_nat (card (dom (sp_vectors cs)))\<rparr>, reg') \<and>
    (\<exists>out. Client_search (service_stub E MC) name query reg' = (out, reg') \<and>
      (if u32_max < sq_k query then out = Inl (Ce_Conversion (Domain ''k out of range''))
       else search_reply name (graph_in reg' name) (st name) query out))"
proof -
  note r = client_reaches [OF assms(1-7), folded assms(8)]
  have "payloads_fine st"
    using client_specs_fine [of Map.empty, OF _ assms(5)] by (simp add: assms(8) payloads_fine_def)
  from client_searches [OF r(1) r(2) [symmetric] this assms(9)] client_describes [OF r(1) r(2) [symmetric]]
  show ?thesis by blast
qed

text \<open>A small run: a flat collection, a batch of one vector, a restart, the same vector again.\<close>

definition example_calls :: "client_event list" where
  "example_calls =
     (let p = \<lparr>pin_id = VectorId 7, pin_embedding = Embedding [0], pin_document = None, pin_payload = None\<rparr> in
     [Request_call (Cl_create \<lparr>csp_name = ''c'', csp_metric = Cosine, csp_dimension = Dimension 1, csp_index_type = Choice_Flat,
        csp_hnsw = None\<rparr>), Request_call (Cl_batch ''c'' [p]), Server_restart, Request_call (Cl_upsert ''c'' p), Request_call (Cl_drop ''d'')])"

lemma example_calls_ok: "always_fits (calls_cost example_calls)" "list_all (valid_op U) (calls example_calls)"
proof -
  have "embedding_ok (Embedding [0])" by code_simp
  then show "always_fits (calls_cost example_calls)" "list_all (valid_op U) (calls example_calls)"
    by (simp_all add: example_calls_def Let_def calls_cost_def client_cost_def always_fits_def HEADER_LEN_def FILE_MAX_def u32_max_def
        valid_op_def valid_point_def point_ok_def point_of_def opt_ok_def Dimension_get_def)
qed

lemma example_calls_run:
  obtains meta cs where "run_steps (client_spec U) (calls example_calls) Map.empty =
      ([Cl_unit (Inr ()), Cl_count (Inr 1), Cl_unit (Inr ()), Cl_bool (Inr False)], [''c'' \<mapsto> (meta, cs)])"
    "cm_dimension meta = Dimension 1" "cm_index_type meta = Choice_Flat" "dom (sp_vectors cs) = {VectorId 7}"
proof -
  have name: "is_valid_name ''c''" by code_simp
  have dim: "Embedding_dimension (Embedding [0]) = Dimension 1"
    by (simp add: Embedding_dimension_def Dimension_new_def u32_max_def)
  let ?p = "\<lparr>pin_id = VectorId 7, pin_embedding = Embedding [0], pin_document = None, pin_payload = None\<rparr>"
  let ?meta = "\<lparr>cm_name = ''c'', cm_metric = Cosine, cm_dimension = Dimension 1, cm_index_type = Choice_Flat, cm_hnsw = None\<rparr>"
  let ?cs = "apply_point U (point_of ?p) (apply_point U (point_of ?p) empty_spec)"
  have "run_steps (client_spec U) (calls example_calls) Map.empty =
      ([Cl_unit (Inr ()), Cl_count (Inr 1), Cl_unit (Inr ()), Cl_bool (Inr False)], [''c'' \<mapsto> (?meta, ?cs)])"
    by (simp add: example_calls_def too_wide_def name meta_of_def in_collection_def put_points_def dim u64_of_usize_def Let_def)
  moreover have "dom (sp_vectors ?cs) = {VectorId 7}" by (simp add: apply_point_def point_of_def empty_spec_def)
  ultimately show thesis using that [of ?meta ?cs] by simp
qed

lemma client_refines_maps_witness:
  "\<exists>reg reg'. Registry_open mem_env meta_codec \<lparr>dk_entries = None, dk_faults = []\<rparr> = Inr reg \<and>
     client_run mem_env meta_codec example_calls reg =
       Inr ([Cl_unit (Inr ()), Cl_count (Inr 1), Cl_unit (Inr ()), Cl_bool (Inr False)], reg')"
proof -
  obtain meta cs where "run_steps (client_spec (env_unicode mem_env)) (calls example_calls) Map.empty =
      ([Cl_unit (Inr ()), Cl_count (Inr 1), Cl_unit (Inr ()), Cl_bool (Inr False)], [''c'' \<mapsto> (meta, cs)])"
    by (rule example_calls_run)
  with client_refines_maps [OF mem_env_ok meta_codec_fine example_calls_ok] show ?thesis by auto
qed

lemma client_reads_exact_witness:
  "\<exists>reg rs reg' hits. Registry_open mem_env meta_codec \<lparr>dk_entries = None, dk_faults = []\<rparr> = Inr reg \<and>
     client_run mem_env meta_codec example_calls reg = Inr (rs, reg') \<and>
     map_res cmv_count (fst (Client_describe_collection (service_stub mem_env meta_codec) ''c'' reg')) = Inr 1 \<and>
     Client_search (service_stub mem_env meta_codec) ''c''
       \<lparr>sq_embedding = Embedding [0], sq_k = 5, sq_metric = None, sq_filter = None\<rparr> reg' = (Inr hits, reg') \<and> length hits = 1"
proof -
  let ?query = "\<lparr>sq_embedding = Embedding [0], sq_k = 5, sq_metric = None, sq_filter = None\<rparr>"
  have emb: "embedding_ok (sq_embedding ?query)" by code_simp
  have dim: "Embedding_dimension (Embedding [0]) = Dimension 1"
    by (simp add: Embedding_dimension_def Dimension_new_def u32_max_def)
  obtain reg rs reg' where run: "Registry_open mem_env meta_codec \<lparr>dk_entries = None, dk_faults = []\<rparr> = Inr reg"
    "client_run mem_env meta_codec example_calls reg = Inr (rs, reg')"
    using client_run_refines [OF mem_env_ok meta_codec_fine registry_fresh(2,3) example_calls_ok] registry_fresh(1) by blast
  obtain meta cs where st: "run_steps (client_spec (env_unicode mem_env)) (calls example_calls) Map.empty =
      ([Cl_unit (Inr ()), Cl_count (Inr 1), Cl_unit (Inr ()), Cl_bool (Inr False)], [''c'' \<mapsto> (meta, cs)])"
    "cm_dimension meta = Dimension 1" "cm_index_type meta = Choice_Flat" "dom (sp_vectors cs) = {VectorId 7}"
    by (rule example_calls_run)
  note reads = client_reads_exact [OF mem_env_ok meta_codec_fine example_calls_ok run refl emb, of "''c''"]
  have view: "map_res cmv_count (fst (Client_describe_collection (service_stub mem_env meta_codec) ''c'' reg')) = Inr 1"
    using conjunct1 [OF reads] by (simp add: st)
  obtain out where out: "Client_search (service_stub mem_env meta_codec) ''c'' ?query reg' = (out, reg')"
    "search_reply ''c'' (graph_in reg' ''c'') (Some (meta, cs)) ?query out"
    using conjunct2 [OF reads] by (auto simp: st u32_max_def)
  obtain r where r: "answers Choice_Flat (graph_in reg' ''c'') (cm_metric meta) cs ?query r" "\<And>hits. r = Inr hits \<Longrightarrow> out = Inr hits"
    using out(2) by (auto simp: search_reply_def st dim)
  obtain hits ns where ns: "out = Inr hits" "length hits = length ns"
    "is_top_k 5 (candidates (cm_metric meta) (Embedding [0]) (passes None (sp_payloads cs)) (sp_vectors cs)) ns"
    using r by (auto simp: answers_def query_metric_def Let_def split: sum.splits)
  have "{x. x = VectorId 7 \<and> passes None (sp_payloads cs) x} = {VectorId 7}" by (auto simp: passes_def)
  then have "length ns = 1" using ns(3) st(4) by (auto simp: top_k_def card_candidates)
  then show ?thesis using run view out ns by auto
qed

end
