(* ===== verification/Cli.thy ===== *)
theory Cli
  imports Client_Correct
begin

text \<open>
  The command line \<open>eidosdb-cli/src/cli.rs\<close>: the parsing of the arguments a command carries, the rendering of the answers as
  JSON and \<open>run\<close>, over the client library. The JSON and UUID libraries and the \<open>Debug\<close> rendering of a string are the
  fields of the record \<open>Tools\<close>; numbers of the JSON library are an abstract type \<open>'n\<close>.
\<close>

section \<open>The standard library: splitting, trimming and reading floats\<close>

text \<open>\<open>str::split\<close> on a single byte, and \<open>str::trim\<close>.\<close>

fun split_on :: "char \<Rightarrow> string \<Rightarrow> string list" where
  "split_on c [] = [[]]"
| "split_on c (x # xs) = (if x = c then [] # split_on c xs
     else (case split_on c xs of [] \<Rightarrow> [[x]] | w # ws \<Rightarrow> (x # w) # ws))"

definition str_trim :: "Unicode \<Rightarrow> string \<Rightarrow> string" where
  "str_trim U s = encode_chars (rev (dropWhile (uc_is_whitespace U) (rev (dropWhile (uc_is_whitespace U) (chars s)))))"

text \<open>
  \<open>f32::from_str\<close>: an optional sign, then \<open>inf\<close>, \<open>infinity\<close> or \<open>nan\<close> in any case, or decimal digits with an optional point and an
  optional exponent; the value is the decimal number rounded to nearest even.
\<close>

definition is_digit :: "char \<Rightarrow> bool" where
  "is_digit c \<longleftrightarrow> CHR ''0'' \<le> c \<and> c \<le> CHR ''9''"

definition digits_value :: "string \<Rightarrow> nat" where
  "digits_value ds = foldl (\<lambda>n c. 10 * n + (of_char c - 48)) 0 ds"

definition ascii_lower :: "char \<Rightarrow> char" where
  "ascii_lower c = (if CHR ''A'' \<le> c \<and> c \<le> CHR ''Z'' then char_of (of_char c + 32 :: nat) else c)"

fun take_sign :: "string \<Rightarrow> bool \<times> string" where
  "take_sign (c # s) = (if c = CHR ''-'' then (True, s) else if c = CHR ''+'' then (False, s) else (False, c # s))"
| "take_sign [] = (False, [])"

definition exponent_value :: "string \<Rightarrow> int option" where
  "exponent_value s = (case s of
     [] \<Rightarrow> Some 0
   | c # s \<Rightarrow> if ascii_lower c \<noteq> CHR ''e'' then None
       else (case take_sign s of (neg, ds) \<Rightarrow>
         if ds = [] \<or> \<not> list_all is_digit ds then None
         else Some (if neg then - int (digits_value ds) else int (digits_value ds))))"

text \<open>The digits before and after the point, the decimal exponent.\<close>

definition number_parts :: "string \<Rightarrow> (string \<times> string \<times> int) option" where
  "number_parts s =
     (let whole = takeWhile is_digit s; rest = dropWhile is_digit s;
          frac = (case rest of c # r \<Rightarrow> if c = CHR ''.'' then takeWhile is_digit r else [] | [] \<Rightarrow> []);
          tail = (case rest of c # r \<Rightarrow> if c = CHR ''.'' then dropWhile is_digit r else rest | [] \<Rightarrow> []) in
      if whole @ frac = [] then None else map_option (\<lambda>e. (whole, frac, e)) (exponent_value tail))"

definition decimal_fp :: "bool \<Rightarrow> nat \<Rightarrow> int \<Rightarrow> fp" where
  "decimal_fp neg m e =
     (if 0 \<le> e then FFin neg (int m * 10 ^ nat e) 0 else fp_div 23 (FFin neg (int m) 0) (FFin False (10 ^ nat (- e)) 0))"

definition parse_f32 :: "string \<Rightarrow> f32 option" where
  "parse_f32 s = (case take_sign s of (neg, r) \<Rightarrow>
     let word = map ascii_lower r in
     if word = ''inf'' \<or> word = ''infinity'' then Some (f_make neg (inf_mag b32))
     else if word = ''nan'' then Some (f_make neg (nan_mag b32))
     else map_option (\<lambda>(whole, frac, e). f_pack b32 (decimal_fp neg (digits_value (whole @ frac)) (e - int (length frac))))
       (number_parts r))"

section \<open>Commands\<close>

datatype MetricArg = Arg_Cosine | Arg_DotProduct | Arg_Euclidean

fun Metric_of_arg :: "MetricArg \<Rightarrow> Metric" where
  "Metric_of_arg Arg_Cosine = Cosine"
| "Metric_of_arg Arg_DotProduct = DotProduct"
| "Metric_of_arg Arg_Euclidean = Euclidean"

datatype IndexTypeArg = Arg_Flat | Arg_Hnsw

fun IndexTypeChoice_of_arg :: "IndexTypeArg \<Rightarrow> IndexTypeChoice" where
  "IndexTypeChoice_of_arg Arg_Flat = Choice_Flat"
| "IndexTypeChoice_of_arg Arg_Hnsw = Choice_Hnsw"

datatype Command =
    Cmd_create string MetricArg u32 IndexTypeArg "u32 option" "u32 option" "u32 option" "u64 option"
  | Cmd_list
  | Cmd_describe string
  | Cmd_drop string
  | Cmd_upsert string string string "string option" "string option"
  | Cmd_delete string string
  | Cmd_compact string
  | Cmd_search string string u32 "MetricArg option" "string option"
  | Cmd_search_hybrid string "string option" "string option" u32 "string option"

record Cli =
  cli_endpoint :: string
  cli_command :: Command

datatype CliError = Cli_Client ClientError | Cli_Json string | Cli_Usage string

fun CliError_to_string :: "(Status \<Rightarrow> string) \<Rightarrow> CliError \<Rightarrow> string" where
  "CliError_to_string fmt_status (Cli_Client error) = ''client error: '' @ ClientError_to_string fmt_status error"
| "CliError_to_string fmt_status (Cli_Json msg) = ''json error: '' @ msg"
| "CliError_to_string fmt_status (Cli_Usage message) = ''usage error: '' @ message"

section \<open>JSON\<close>

text \<open>\<open>serde_json::Value\<close>; an object is the library's ordered map, which it is without the feature \<open>preserve_order\<close>.\<close>

datatype 'n Json =
    Json_Null
  | Json_Bool bool
  | Json_Number 'n
  | Json_String string
  | Json_Array "'n Json list"
  | Json_Object "(string \<times> 'n Json) list"

record 'n Tools =
  tl_unicode :: Unicode
  tl_debug :: "string \<Rightarrow> string"
  tl_fmt_id :: "VectorId \<Rightarrow> string"
  tl_parse_uuid :: "string \<Rightarrow> uuid option"
  tl_uuid_to_string :: "uuid \<Rightarrow> string"
  tl_from_str :: "string \<Rightarrow> string + 'n Json"
  tl_as_i64 :: "'n \<Rightarrow> i64 option"
  tl_as_f64 :: "'n \<Rightarrow> f64 option"
  tl_of_i64 :: "i64 \<Rightarrow> 'n Json"
  tl_of_u64 :: "u64 \<Rightarrow> 'n Json"
  tl_of_f64 :: "f64 \<Rightarrow> 'n Json"
  tl_of_f32 :: "f32 \<Rightarrow> 'n Json"

text \<open>The macro \<open>json!\<close> with an object.\<close>

definition json_object :: "(string \<times> 'n Json) list \<Rightarrow> 'n Json" where
  "json_object entries = Json_Object (bt_collect entries)"

section \<open>Parsing\<close>

definition to_usize :: "u32 \<Rightarrow> CliError + nat" where
  "to_usize value = (if unat value \<le> usize_max then Inr (unat value) else Inl (Cli_Usage ''value out of range''))"

definition parse_vector :: "'n Tools \<Rightarrow> string \<Rightarrow> CliError + f32 list" where
  "parse_vector T raw =
     traverse (\<lambda>component. ok_or (Cli_Usage (''invalid vector component: '' @ tl_debug T component))
         (parse_f32 (str_trim (tl_unicode T) component)))
       (split_on CHR '','' raw)"

definition parse_id :: "'n Tools \<Rightarrow> string \<Rightarrow> CliError + VectorId" where
  "parse_id T raw = map_res VectorId_from_uuid (ok_or (Cli_Usage (''invalid UUID: '' @ tl_debug T raw)) (tl_parse_uuid T raw))"

fun json_to_value :: "'n Tools \<Rightarrow> 'n Json \<Rightarrow> CliError + Value" where
  "json_to_value T (Json_String s) = Inr (Text s)"
| "json_to_value T (Json_Bool b) = Inr (Bool b)"
| "json_to_value T (Json_Number n) =
     (case tl_as_i64 T n of Some i \<Rightarrow> Inr (Integer i)
      | None \<Rightarrow> (case tl_as_f64 T n of Some f \<Rightarrow> Inr (Float f)
                | None \<Rightarrow> Inl (Cli_Usage ''number out of range'')))"
| "json_to_value T _ = Inl (Cli_Usage ''payload values must be scalars or scalar arrays'')"

fun json_to_field_value :: "'n Tools \<Rightarrow> 'n Json \<Rightarrow> CliError + FieldValue" where
  "json_to_field_value T (Json_Array items) = map_res Array (traverse (json_to_value T) items)"
| "json_to_field_value T other = map_res Scalar (json_to_value T other)"

fun as_object :: "'n Json \<Rightarrow> (string \<times> 'n Json) list option" where
  "as_object (Json_Object entries) = Some entries"
| "as_object _ = None"

fun as_str :: "'n Json \<Rightarrow> string option" where
  "as_str (Json_String s) = Some s"
| "as_str _ = None"

definition parse_payload :: "'n Tools \<Rightarrow> string \<Rightarrow> CliError + Payload" where
  "parse_payload T raw =
     res_bind (map_err Cli_Json (tl_from_str T raw)) (\<lambda>parsed.
     res_bind (ok_or (Cli_Usage ''payload must be a JSON object'') (as_object parsed)) (\<lambda>entries.
     res_bind (traverse (\<lambda>(key, value). map_res (Pair key) (json_to_field_value T value)) entries) (\<lambda>entries.
       map_err (\<lambda>error. Cli_Usage (PayloadError_to_string error)) (Payload_new (bt_collect entries)))))"

definition parse_filter :: "'n Tools \<Rightarrow> string \<Rightarrow> CliError + Filter" where
  "parse_filter T raw =
     res_bind (map_err Cli_Json (tl_from_str T raw)) (\<lambda>parsed.
     res_bind (ok_or (Cli_Usage ''filter must be a JSON object'') (as_object parsed)) (\<lambda>entries.
     res_bind (ok_or (Cli_Usage ''filter requires a string \"field\"'') (Option.bind (map_of entries ''field'') as_str)) (\<lambda>field.
     res_bind (ok_or (Cli_Usage ''filter supports only {\"field\":..,\"eq\":..}'') (map_of entries ''eq'')) (\<lambda>eq.
       map_res (FEq field) (json_to_value T eq)))))"

section \<open>Rendering\<close>

fun metric_label :: "Metric \<Rightarrow> string" where
  "metric_label Cosine = ''cosine''"
| "metric_label DotProduct = ''dot-product''"
| "metric_label Euclidean = ''euclidean''"

fun index_type_label :: "IndexTypeChoice \<Rightarrow> string" where
  "index_type_label Choice_Flat = ''flat''"
| "index_type_label Choice_Hnsw = ''hnsw''"

definition view_to_json :: "'n Tools \<Rightarrow> CollectionMetaView \<Rightarrow> 'n Json" where
  "view_to_json T v =
     json_object [(''name'', Json_String (cmv_name v)), (''metric'', Json_String (metric_label (cmv_metric v))),
       (''dimension'', tl_of_u64 T (word_of_nat (Dimension_get (cmv_dimension v)))),
       (''index_type'', Json_String (index_type_label (cmv_index_type v))), (''count'', tl_of_u64 T (cmv_count v))]"

fun value_to_json :: "'n Tools \<Rightarrow> Value \<Rightarrow> 'n Json" where
  "value_to_json T (Text s) = Json_String s"
| "value_to_json T (Integer i) = tl_of_i64 T i"
| "value_to_json T (Float f) = tl_of_f64 T f"
| "value_to_json T (Bool b) = Json_Bool b"

fun field_to_json :: "'n Tools \<Rightarrow> FieldValue \<Rightarrow> 'n Json" where
  "field_to_json T (Scalar v) = value_to_json T v"
| "field_to_json T (Array items) = Json_Array (map (value_to_json T) items)"

definition payload_to_json :: "'n Tools \<Rightarrow> Payload \<Rightarrow> 'n Json" where
  "payload_to_json T payload =
     Json_Object (foldl (\<lambda>object (key, field). bt_insert key (field_to_json T field) object) [] (Payload_iter payload))"

definition hit_to_json :: "'n Tools \<Rightarrow> SearchHit \<Rightarrow> 'n Json" where
  "hit_to_json T hit =
     json_object [(''id'', Json_String (tl_uuid_to_string T (VectorId_as_uuid (hit_id hit)))),
       (''score'', tl_of_f32 T (score_value (hit_score hit))),
       (''payload'', case hit_payload hit of None \<Rightarrow> Json_Null | Some p \<Rightarrow> payload_to_json T p)]"

section \<open>Executing\<close>

text \<open>\<open>?\<close> on a value computed before any call, and on the result of a call of the client.\<close>

definition try_first :: "'e + 'a \<Rightarrow> ('a \<Rightarrow> 's \<Rightarrow> ('e + 'b) \<times> 's) \<Rightarrow> 's \<Rightarrow> ('e + 'b) \<times> 's" where
  "try_first r f s = (case r of Inl e \<Rightarrow> (Inl e, s) | Inr x \<Rightarrow> f x s)"

definition calling :: "(ClientError + 'a) \<times> 's \<Rightarrow> (CliError + 'a) \<times> 's" where
  "calling out = apfst (map_err Cli_Client) out"

definition build_hnsw :: "Metric \<Rightarrow> u32 option \<Rightarrow> u32 option \<Rightarrow> u32 option \<Rightarrow> u64 option \<Rightarrow> CliError + HnswConfig" where
  "build_hnsw metric m ef_construction ef_search seed =
     (let defaults = HnswConfig_default; or_else = (\<lambda>d v. case v of Some x \<Rightarrow> x | None \<Rightarrow> d) in
      res_bind (map_res (or_else (cfg_m defaults)) (transpose_opt to_usize m)) (\<lambda>m.
      res_bind (map_res (or_else (cfg_ef_construction defaults)) (transpose_opt to_usize ef_construction)) (\<lambda>ef_construction.
      res_bind (map_res (or_else (cfg_ef_search defaults)) (transpose_opt to_usize ef_search)) (\<lambda>ef_search.
        map_err (\<lambda>error. Cli_Usage (HnswConfigError_message error))
          (HnswConfig_new metric m ef_construction ef_search (case seed of Some s \<Rightarrow> s | None \<Rightarrow> cfg_seed defaults))))))"

definition create_spec_from ::
  "string \<Rightarrow> MetricArg \<Rightarrow> u32 \<Rightarrow> IndexTypeArg \<Rightarrow> u32 option \<times> u32 option \<times> u32 option \<times> u64 option \<Rightarrow> CliError + CollectionSpec" where
  "create_spec_from name metric dimension index_type hnsw_args =
     (let metric = Metric_of_arg metric; index_type = IndexTypeChoice_of_arg index_type;
          (m, ef_construction, ef_search, seed) = hnsw_args in
      res_bind (if index_type = Choice_Hnsw then map_res Some (build_hnsw metric m ef_construction ef_search seed) else Inr None) (\<lambda>hnsw.
      res_bind (map_err (\<lambda>error. Cli_Usage (DimensionError_message error)) (Dimension_try_from dimension)) (\<lambda>dimension.
        Inr \<lparr>csp_name = name, csp_metric = metric, csp_dimension = dimension, csp_index_type = index_type, csp_hnsw = hnsw\<rparr>)))"

definition handle_create ::
  "'n Tools \<Rightarrow> 's Stub \<Rightarrow> string \<Rightarrow> MetricArg \<Rightarrow> u32 \<Rightarrow> IndexTypeArg \<Rightarrow> u32 option \<times> u32 option \<times> u32 option \<times> u64 option \<Rightarrow>
     's \<Rightarrow> (CliError + 'n Json) \<times> 's" where
  "handle_create T stub name metric dimension index_type hnsw_args =
     try_first (create_spec_from name metric dimension index_type hnsw_args) (\<lambda>spec s.
       then_do (calling (Client_create_collection stub spec s)) (\<lambda>_ s.
         (Inr (json_object [(''created'', Json_String name)]), s)))"

definition embedding_arg :: "'n Tools \<Rightarrow> string \<Rightarrow> CliError + Embedding" where
  "embedding_arg T vector =
     res_bind (parse_vector T vector) (\<lambda>values. map_err (\<lambda>e. Cli_Usage (IndexError_to_string (tl_fmt_id T) e)) (Embedding_new values))"

definition point_args ::
  "'n Tools \<Rightarrow> string \<Rightarrow> string \<Rightarrow> string option \<Rightarrow> string option \<Rightarrow> CliError + PointInput" where
  "point_args T i vector document payload =
     res_bind (parse_id T i) (\<lambda>i.
     res_bind (embedding_arg T vector) (\<lambda>embedding.
     res_bind (transpose_opt (\<lambda>s. map_err (\<lambda>e. Cli_Usage (LexicalError_to_string e)) (Document_new (tl_unicode T) s)) document) (\<lambda>document.
     res_bind (transpose_opt (parse_payload T) payload) (\<lambda>payload.
       Inr \<lparr>pin_id = i, pin_embedding = embedding, pin_document = document, pin_payload = payload\<rparr>))))"

definition handle_upsert ::
  "'n Tools \<Rightarrow> 's Stub \<Rightarrow> string \<Rightarrow> string \<Rightarrow> string \<Rightarrow> string option \<Rightarrow> string option \<Rightarrow> 's \<Rightarrow> (CliError + 'n Json) \<times> 's" where
  "handle_upsert T stub coll i vector document payload =
     try_first (point_args T i vector document payload) (\<lambda>p s.
       then_do (calling (Client_upsert stub coll (pin_id p) (pin_embedding p) (pin_document p) (pin_payload p) s)) (\<lambda>_ s.
         (Inr (json_object [(''upserted'', Json_String (tl_uuid_to_string T (VectorId_as_uuid (pin_id p))))]), s)))"

definition hits_to_json :: "'n Tools \<Rightarrow> SearchHit list \<Rightarrow> 'n Json" where
  "hits_to_json T hits = json_object [(''hits'', Json_Array (map (hit_to_json T) hits))]"

definition search_args :: "'n Tools \<Rightarrow> string \<Rightarrow> u32 \<Rightarrow> MetricArg option \<Rightarrow> string option \<Rightarrow> CliError + SearchQuery" where
  "search_args T vector k metric filter_arg =
     res_bind (embedding_arg T vector) (\<lambda>embedding.
     res_bind (transpose_opt (parse_filter T) filter_arg) (\<lambda>f.
     res_bind (to_usize k) (\<lambda>k.
       Inr \<lparr>sq_embedding = embedding, sq_k = k, sq_metric = map_option Metric_of_arg metric, sq_filter = f\<rparr>)))"

definition handle_search ::
  "'n Tools \<Rightarrow> 's Stub \<Rightarrow> string \<Rightarrow> string \<Rightarrow> u32 \<Rightarrow> MetricArg option \<Rightarrow> string option \<Rightarrow> 's \<Rightarrow> (CliError + 'n Json) \<times> 's" where
  "handle_search T stub coll vector k metric filter_arg =
     try_first (search_args T vector k metric filter_arg) (\<lambda>query s.
       then_do (calling (Client_search stub coll query s)) (\<lambda>hits s. (Inr (hits_to_json T hits), s)))"

definition hybrid_args ::
  "'n Tools \<Rightarrow> string option \<Rightarrow> string option \<Rightarrow> u32 \<Rightarrow> string option \<Rightarrow> CliError + HybridQuery" where
  "hybrid_args T vector query_text k filter_arg =
     res_bind (transpose_opt (parse_vector T) vector) (\<lambda>values.
     res_bind (map_err (\<lambda>e. Cli_Usage (IndexError_to_string (tl_fmt_id T) e)) (transpose_opt Embedding_new values)) (\<lambda>embedding.
     res_bind (transpose_opt (parse_filter T) filter_arg) (\<lambda>f.
     res_bind (to_usize k) (\<lambda>k.
       Inr \<lparr>hq_vector = embedding, hq_text = query_text, hq_k = k, hq_filter = f, hq_metric = None, hq_rrf_k = DEFAULT_RRF_K,
            hq_overfetch_factor = DEFAULT_OVERFETCH_FACTOR\<rparr>))))"

definition handle_search_hybrid ::
  "'n Tools \<Rightarrow> 's Stub \<Rightarrow> string \<Rightarrow> string option \<Rightarrow> string option \<Rightarrow> u32 \<Rightarrow> string option \<Rightarrow> 's \<Rightarrow> (CliError + 'n Json) \<times> 's" where
  "handle_search_hybrid T stub coll vector query_text k filter_arg =
     try_first (hybrid_args T vector query_text k filter_arg) (\<lambda>query s.
       then_do (calling (Client_search_hybrid stub coll query s)) (\<lambda>hits s. (Inr (hits_to_json T hits), s)))"

fun execute :: "'n Tools \<Rightarrow> 's Stub \<Rightarrow> Command \<Rightarrow> 's \<Rightarrow> (CliError + 'n Json) \<times> 's" where
  "execute T stub (Cmd_create name metric dimension index_type m ef_construction ef_search seed) s =
     handle_create T stub name metric dimension index_type (m, ef_construction, ef_search, seed) s"
| "execute T stub Cmd_list s =
     then_do (calling (Client_list_collections stub s)) (\<lambda>views s. (Inr (Json_Array (map (view_to_json T) views)), s))"
| "execute T stub (Cmd_describe name) s =
     then_do (calling (Client_describe_collection stub name s)) (\<lambda>v s. (Inr (view_to_json T v), s))"
| "execute T stub (Cmd_drop name) s =
     then_do (calling (Client_drop_collection stub name s)) (\<lambda>existed s.
       (Inr (json_object [(''dropped'', Json_Bool existed)]), s))"
| "execute T stub (Cmd_upsert coll i vector document payload) s = handle_upsert T stub coll i vector document payload s"
| "execute T stub (Cmd_delete coll i) s =
     try_first (parse_id T i) (\<lambda>i s.
       then_do (calling (Client_delete stub coll i s)) (\<lambda>existed s.
         (Inr (json_object [(''deleted'', Json_Bool existed)]), s))) s"
| "execute T stub (Cmd_compact coll) s =
     then_do (calling (Client_compact stub coll s)) (\<lambda>_ s. (Inr (json_object [(''compacted'', Json_String coll)]), s))"
| "execute T stub (Cmd_search coll vector k metric filter_arg) s = handle_search T stub coll vector k metric filter_arg s"
| "execute T stub (Cmd_search_hybrid coll vector query_text k filter_arg) s =
     handle_search_hybrid T stub coll vector query_text k filter_arg s"

text \<open>\<open>EidosClient::connect\<close> opens the transport to an endpoint and is an argument.\<close>

definition Cli_run :: "'n Tools \<Rightarrow> (string \<Rightarrow> ClientError + 's Stub) \<Rightarrow> Cli \<Rightarrow> 's \<Rightarrow> (CliError + 'n Json) \<times> 's" where
  "Cli_run T connect cli =
     try_first (map_err Cli_Client (connect (cli_endpoint cli))) (\<lambda>stub. execute T stub (cli_command cli))"

text \<open>\<open>main\<close>: a line on the standard output and success, or a line on the error output and failure.\<close>

datatype exit_code = Exit_success | Exit_failure

record Printed =
  pr_stdout :: string
  pr_stderr :: string
  pr_code :: exit_code

definition eidos_main ::
  "'n Tools \<Rightarrow> ('n Json \<Rightarrow> string + string) \<Rightarrow> (Status \<Rightarrow> string) \<Rightarrow> (string \<Rightarrow> ClientError + 's Stub) \<Rightarrow> Cli \<Rightarrow> 's \<Rightarrow> Printed \<times> 's" where
  "eidos_main T to_string_pretty fmt_status connect cli s =
     (let newline = [CHR 0x0A]; failed = (\<lambda>msg. \<lparr>pr_stdout = [], pr_stderr = ''error: '' @ msg @ newline, pr_code = Exit_failure\<rparr>) in
      case Cli_run T connect cli s of (out, s) \<Rightarrow>
        (case out of
           Inr value \<Rightarrow> (case to_string_pretty value of
              Inr rendered \<Rightarrow> \<lparr>pr_stdout = rendered @ newline, pr_stderr = [], pr_code = Exit_success\<rparr>
            | Inl error \<Rightarrow> failed error)
         | Inl error \<Rightarrow> failed (CliError_to_string fmt_status error), s))"

end
