(* ===== verification/Cli_Spec.thy ===== *)
theory Cli_Spec
  imports Cli
begin

text \<open>
  What the arguments of a command mean and what an answer looks like, in the terms of the domain and field by field, and
  the proof that the parsers and the renderers of \<open>Cli\<close> are exactly that. Only the fields of \<open>Tools\<close> and the reader of one
  decimal number are common to both sides.
\<close>

section \<open>The meaning of the arguments\<close>

abbreviation usage :: "string \<Rightarrow> CliError + 'a" where
  "usage msg \<equiv> Inl (Cli_Usage msg)"

text \<open>The first error of a list of results, or all the values.\<close>

definition all_right :: "('e + 'a) list \<Rightarrow> 'e + 'a list" where
  "all_right rs = (case List.find isl rs of Some r \<Rightarrow> Inl (projl r) | None \<Rightarrow> Inr (map projr rs))"

function comma_parts :: "string \<Rightarrow> string list" where
  "comma_parts s = (if CHR '','' \<in> set s
     then takeWhile (\<lambda>c. c \<noteq> CHR '','') s # comma_parts (tl (dropWhile (\<lambda>c. c \<noteq> CHR '','') s)) else [s])"
  by pat_completeness auto

termination
proof (relation "measure length", goal_cases)
  case (2 s)
  then have "dropWhile (\<lambda>c. c \<noteq> CHR '','') s \<noteq> []" by simp
  then have "length (tl (dropWhile (\<lambda>c. c \<noteq> CHR '','') s)) < length (dropWhile (\<lambda>c. c \<noteq> CHR '','') s)" by simp
  also have "\<dots> \<le> length s" by (rule length_dropWhile_le)
  finally show ?case by simp
qed simp

definition typed_number :: "'n Tools \<Rightarrow> string \<Rightarrow> f32 option" where
  "typed_number T w = parse_f32 (str_trim (tl_unicode T) w)"

definition typed_embedding :: "'n Tools \<Rightarrow> string \<Rightarrow> CliError + Embedding" where
  "typed_embedding T s = (case List.find (\<lambda>w. typed_number T w = None) (comma_parts s) of
     Some w \<Rightarrow> usage (''invalid vector component: '' @ tl_debug T w)
   | None \<Rightarrow>
       (let xs = map (\<lambda>w. the (typed_number T w)) (comma_parts s) in
        if list_all f32_finite xs then Inr (Embedding xs) else usage ''embedding contains a non-finite component''))"

definition typed_id :: "'n Tools \<Rightarrow> string \<Rightarrow> CliError + VectorId" where
  "typed_id T s = (case tl_parse_uuid T s of
     Some u \<Rightarrow> Inr (VectorId u) | None \<Rightarrow> usage (''invalid UUID: '' @ tl_debug T s))"

definition typed_document :: "'n Tools \<Rightarrow> string \<Rightarrow> CliError + Document" where
  "typed_document T s =
     (if list_all (uc_is_whitespace (tl_unicode T)) (chars s) then usage ''document text is empty'' else Inr (Document s))"

definition typed_scalar :: "'n Tools \<Rightarrow> 'n Json \<Rightarrow> CliError + Value" where
  "typed_scalar T j = (case j of
     Json_String s \<Rightarrow> Inr (Text s)
   | Json_Bool b \<Rightarrow> Inr (Bool b)
   | Json_Number n \<Rightarrow> (case (tl_as_i64 T n, tl_as_f64 T n) of
        (Some i, _) \<Rightarrow> Inr (Integer i)
      | (None, Some x) \<Rightarrow> Inr (Float x)
      | (None, None) \<Rightarrow> usage ''number out of range'')
   | _ \<Rightarrow> usage ''payload values must be scalars or scalar arrays'')"

definition typed_field :: "'n Tools \<Rightarrow> 'n Json \<Rightarrow> CliError + FieldValue" where
  "typed_field T j = (case j of
     Json_Array js \<Rightarrow> map_res Array (all_right (map (typed_scalar T) js))
   | _ \<Rightarrow> map_res Scalar (typed_scalar T j))"

definition typed_payload :: "'n Tools \<Rightarrow> string \<Rightarrow> CliError + Payload" where
  "typed_payload T s = (case tl_from_str T s of
     Inl msg \<Rightarrow> Inl (Cli_Json msg)
   | Inr (Json_Object es) \<Rightarrow> (case all_right (map (\<lambda>e. typed_field T (snd e)) es) of
        Inl e \<Rightarrow> Inl e
      | Inr fvs \<Rightarrow>
          (let entries = bt_collect (zip (map fst es) fvs) in
           if list_all (\<lambda>e. field_finite (snd e)) entries then Inr (Payload entries)
           else usage ''payload contains a non-finite float value''))
   | Inr _ \<Rightarrow> usage ''payload must be a JSON object'')"

definition typed_filter :: "'n Tools \<Rightarrow> string \<Rightarrow> CliError + Filter" where
  "typed_filter T s = (case tl_from_str T s of
     Inl msg \<Rightarrow> Inl (Cli_Json msg)
   | Inr (Json_Object es) \<Rightarrow> (case map_of es ''field'' of
        Some (Json_String name) \<Rightarrow> (case map_of es ''eq'' of
            Some j \<Rightarrow> (case typed_scalar T j of Inl e \<Rightarrow> Inl e | Inr v \<Rightarrow> Inr (FEq name v))
          | None \<Rightarrow> usage ''filter supports only {\"field\":..,\"eq\":..}'')
      | _ \<Rightarrow> usage ''filter requires a string \"field\"'')
   | Inr _ \<Rightarrow> usage ''filter must be a JSON object'')"

text \<open>An optional argument: nothing, or its meaning.\<close>

definition optional :: "('a \<Rightarrow> 'e + 'b) \<Rightarrow> 'a option \<Rightarrow> 'e + 'b option" where
  "optional f x = (case x of None \<Rightarrow> Inr None | Some a \<Rightarrow> (case f a of Inl e \<Rightarrow> Inl e | Inr b \<Rightarrow> Inr (Some b)))"

text \<open>The point of an \<open>upsert\<close>: the first argument that has no meaning is the one reported.\<close>

definition typed_point ::
  "'n Tools \<Rightarrow> string \<Rightarrow> string \<Rightarrow> string option \<Rightarrow> string option \<Rightarrow> CliError + PointInput" where
  "typed_point T i vector document payload =
     (case (typed_id T i, typed_embedding T vector, optional (typed_document T) document, optional (typed_payload T) payload) of
        (Inl e, _, _, _) \<Rightarrow> Inl e
      | (Inr _, Inl e, _, _) \<Rightarrow> Inl e
      | (Inr _, Inr _, Inl e, _) \<Rightarrow> Inl e
      | (Inr _, Inr _, Inr _, Inl e) \<Rightarrow> Inl e
      | (Inr x, Inr v, Inr d, Inr p) \<Rightarrow> Inr \<lparr>pin_id = x, pin_embedding = v, pin_document = d, pin_payload = p\<rparr>)"

text \<open>The collection of a \<open>create\<close>, its HNSW parameters one by one with their defaults.\<close>

fun named_metric :: "MetricArg \<Rightarrow> Metric" where
  "named_metric Arg_Cosine = Cosine"
| "named_metric Arg_DotProduct = DotProduct"
| "named_metric Arg_Euclidean = Euclidean"

definition given :: "nat \<Rightarrow> u32 option \<Rightarrow> nat" where
  "given d x = (case x of None \<Rightarrow> d | Some w \<Rightarrow> unat w)"

definition typed_collection ::
  "string \<Rightarrow> MetricArg \<Rightarrow> u32 \<Rightarrow> IndexTypeArg \<Rightarrow> u32 option \<Rightarrow> u32 option \<Rightarrow> u32 option \<Rightarrow> u64 option \<Rightarrow>
     CliError + CollectionSpec" where
  "typed_collection name metric dimension index_type m ef_construction ef_search seed =
     (let flat = (index_type = Arg_Flat) in
      if \<not> flat \<and> given 16 m < 2 then usage (''m must be at least 2, got '' @ string_of_nat (given 16 m))
      else if \<not> flat \<and> given 200 ef_construction = 0 then usage ''ef_construction must be at least 1''
      else if \<not> flat \<and> given 64 ef_search = 0 then usage ''ef_search must be at least 1''
      else if dimension = 0 then usage ''dimension must be greater than zero''
      else Inr
        \<lparr>csp_name = name, csp_metric = named_metric metric, csp_dimension = Dimension dimension,
         csp_index_type = (if flat then Choice_Flat else Choice_Hnsw),
         csp_hnsw = (if flat then None else Some
           \<lparr>cfg_metric = named_metric metric, cfg_m = given 16 m, cfg_ef_construction = given 200 ef_construction,
            cfg_ef_search = given 64 ef_search, cfg_seed = (case seed of None \<Rightarrow> 0xDEADBEEFCAFE1234 | Some w \<Rightarrow> w)\<rparr>)\<rparr>)"

text \<open>The query of a \<open>search\<close>.\<close>

definition typed_query :: "'n Tools \<Rightarrow> string \<Rightarrow> u32 \<Rightarrow> MetricArg option \<Rightarrow> string option \<Rightarrow> CliError + SearchQuery" where
  "typed_query T vector k metric f = (case (typed_embedding T vector, optional (typed_filter T) f) of
     (Inl e, _) \<Rightarrow> Inl e
   | (Inr _, Inl e) \<Rightarrow> Inl e
   | (Inr v, Inr flt) \<Rightarrow>
       Inr \<lparr>sq_embedding = v, sq_k = unat k,
         sq_metric = (case metric of None \<Rightarrow> None | Some a \<Rightarrow> Some (named_metric a)), sq_filter = flt\<rparr>)"

section \<open>The shape of the answers\<close>

definition scalar_tree :: "'n Tools \<Rightarrow> Value \<Rightarrow> 'n Json" where
  "scalar_tree T v = (case v of
     Text s \<Rightarrow> Json_String s | Integer i \<Rightarrow> tl_of_i64 T i | Float x \<Rightarrow> tl_of_f64 T x | Bool b \<Rightarrow> Json_Bool b)"

definition payload_tree :: "'n Tools \<Rightarrow> Payload \<Rightarrow> 'n Json" where
  "payload_tree T p = Json_Object (map (\<lambda>e. (fst e,
     case snd e of Scalar v \<Rightarrow> scalar_tree T v | Array vs \<Rightarrow> Json_Array (map (scalar_tree T) vs))) (payload_fields p))"

text \<open>Objects list their keys in alphabetical order.\<close>

definition hit_tree :: "'n Tools \<Rightarrow> SearchHit \<Rightarrow> 'n Json" where
  "hit_tree T hit = Json_Object
     [(''id'', case hit_id hit of VectorId u \<Rightarrow> Json_String (tl_uuid_to_string T u)),
      (''payload'', case hit_payload hit of None \<Rightarrow> Json_Null | Some p \<Rightarrow> payload_tree T p),
      (''score'', case hit_score hit of Score x \<Rightarrow> tl_of_f32 T x)]"

definition collection_tree :: "'n Tools \<Rightarrow> CollectionMeta \<times> col_spec \<Rightarrow> 'n Json" where
  "collection_tree T p = (case p of (meta, cs) \<Rightarrow> Json_Object
     [(''count'', tl_of_u64 T (word_of_nat (card (dom (sp_vectors cs))))),
      (''dimension'', tl_of_u64 T (word_of_nat (Dimension_get (cm_dimension meta)))),
      (''index_type'', Json_String (case cm_index_type meta of Choice_Flat \<Rightarrow> ''flat'' | Choice_Hnsw \<Rightarrow> ''hnsw'')),
      (''metric'', Json_String (case cm_metric meta of
         Cosine \<Rightarrow> ''cosine'' | DotProduct \<Rightarrow> ''dot-product'' | Euclidean \<Rightarrow> ''euclidean'')),
      (''name'', Json_String (cm_name meta))])"

section \<open>The parsers find the meaning\<close>

lemma traverse_all_right: "traverse f xs = all_right (map f xs)"
proof (induction xs)
  case (Cons x xs)
  then show ?case by (cases "f x") (auto simp: all_right_def split: option.splits)
qed (simp add: all_right_def)

declare comma_parts.simps [simp del]

lemma split_on_commas: "split_on CHR '','' s = comma_parts s"
proof (induction s)
  case (Cons c s)
  show ?case
  proof (cases "c = CHR '',''")
    case True
    then show ?thesis using Cons by (simp add: comma_parts.simps [of "CHR '','' # s"])
  next
    case False
    have "split_on CHR '','' (c # s) = (case comma_parts s of [] \<Rightarrow> [[c]] | w # ws \<Rightarrow> (c # w) # ws)"
      using False Cons by simp
    then show ?thesis using False by (simp add: comma_parts.simps [of "c # s"] comma_parts.simps [of s])
  qed
qed (simp add: comma_parts.simps [of "[]"])

lemma comma_parts_nonempty [simp]: "comma_parts s \<noteq> []"
  by (simp add: comma_parts.simps [of s])

lemma parse_vector_typed:
  "parse_vector T s = (case List.find (\<lambda>w. typed_number T w = None) (comma_parts s) of
     Some w \<Rightarrow> usage (''invalid vector component: '' @ tl_debug T w)
   | None \<Rightarrow> Inr (map (\<lambda>w. the (typed_number T w)) (comma_parts s)))"
proof -
  have "traverse (\<lambda>w. ok_or (Cli_Usage (''invalid vector component: '' @ tl_debug T w)) (parse_f32 (str_trim (tl_unicode T) w))) ws =
      (case List.find (\<lambda>w. typed_number T w = None) ws of
         Some w \<Rightarrow> usage (''invalid vector component: '' @ tl_debug T w)
       | None \<Rightarrow> Inr (map (\<lambda>w. the (typed_number T w)) ws))" for ws
    by (induction ws) (auto simp: typed_number_def ok_or_def split: option.splits)
  then show ?thesis by (simp add: parse_vector_def split_on_commas)
qed

lemma embedding_arg_typed: "embedding_arg T s = typed_embedding T s"
  by (auto simp: embedding_arg_def parse_vector_typed typed_embedding_def Embedding_new_def list_all_iff Let_def split: option.split)

lemma parse_id_typed: "parse_id T s = typed_id T s"
  by (simp add: parse_id_def typed_id_def ok_or_def VectorId_from_uuid_def split: option.split)

lemma document_typed:
  "map_err (\<lambda>e. Cli_Usage (LexicalError_to_string e)) (Document_new (tl_unicode T) s) = typed_document T s"
  by (simp add: typed_document_def Document_new_def trim_is_empty_def)

lemma scalar_typed: "json_to_value T j = typed_scalar T j"
  by (cases j) (auto simp: typed_scalar_def split: option.split)

lemma field_typed: "json_to_field_value T j = typed_field T j"
  by (cases j) (simp_all add: typed_field_def scalar_typed [abs_def] traverse_all_right cong: map_cong)

lemma entries_typed:
  "traverse (\<lambda>(key, value). map_res (Pair key) (json_to_field_value T value)) es =
     map_res (zip (map fst es)) (all_right (map (\<lambda>e. typed_field T (snd e)) es))"
  unfolding traverse_all_right [symmetric, of "\<lambda>e. typed_field T (snd e)"]
  by (induction es) (auto simp: field_typed map_res_def split: sum.splits)

lemma parse_payload_typed: "parse_payload T s = typed_payload T s"
proof (cases "tl_from_str T s")
  case (Inr j)
  show ?thesis
  proof (cases "as_object j")
    case None
    then show ?thesis by (cases j) (simp_all add: parse_payload_def typed_payload_def Inr ok_or_def)
  next
    case (Some es)
    then have j: "j = Json_Object es" by (cases j) simp_all
    have fin: "(\<forall>(k, fv) \<in> set entries. field_finite fv) = list_all (\<lambda>e. field_finite (snd e)) entries"
      for entries :: "(string \<times> FieldValue) list"
      by (auto simp: list_all_iff)
    show ?thesis
      by (cases "all_right (map (\<lambda>e. typed_field T (snd e)) es)")
        (simp_all add: parse_payload_def typed_payload_def Inr j ok_or_def entries_typed Payload_new_eq fin Let_def)
  qed
qed (simp add: parse_payload_def typed_payload_def)

lemma parse_filter_typed: "parse_filter T s = typed_filter T s"
proof (cases "tl_from_str T s")
  case (Inr j)
  show ?thesis
  proof (cases "as_object j")
    case None
    then show ?thesis by (cases j) (simp_all add: parse_filter_def typed_filter_def Inr ok_or_def)
  next
    case (Some es)
    then have j: "j = Json_Object es" by (cases j) simp_all
    have name: "Option.bind (map_of es ''field'') as_str =
        (case map_of es ''field'' of Some (Json_String name) \<Rightarrow> Some name | _ \<Rightarrow> None)"
      by (auto split: option.split Json.split)
    show ?thesis
      by (auto simp: parse_filter_def typed_filter_def Inr j name ok_or_def scalar_typed map_res_def
          split: option.split Json.split sum.split)
  qed
qed (simp add: parse_filter_def typed_filter_def)

lemma optional_typed: "transpose_opt f x = optional f x"
  by (simp add: transpose_opt_def optional_def map_res_def split: option.split)

lemma point_args_typed: "point_args T i vector document payload = typed_point T i vector document payload"
  unfolding point_args_def typed_point_def parse_id_typed embedding_arg_typed document_typed optional_typed
    parse_payload_typed [abs_def]
  by (auto split: sum.split)

lemma search_args_typed: "search_args T vector k metric f = typed_query T vector k metric f"
proof -
  have k: "to_usize k = Inr (unat k)"
    using unsigned_less [of k, where 'a = nat] by (simp add: to_usize_def usize_max_def)
  have "map_option Metric_of_arg metric = (case metric of None \<Rightarrow> None | Some a \<Rightarrow> Some (named_metric a))"
    by (cases metric; cases "the metric") auto
  then show ?thesis
    unfolding search_args_def typed_query_def embedding_arg_typed optional_typed parse_filter_typed [abs_def] k
    by (auto split: sum.split)
qed

lemma create_spec_typed:
  "create_spec_from name metric dimension index_type (m, ef_construction, ef_search, seed) =
     typed_collection name metric dimension index_type m ef_construction ef_search seed"
proof -
  have k: "to_usize k = Inr (unat k)" for k
    using unsigned_less [of k, where 'a = nat] by (simp add: to_usize_def usize_max_def)
  have args: "map_res (\<lambda>v. case v of Some x \<Rightarrow> x | None \<Rightarrow> d) (transpose_opt to_usize x) = Inr (given d x)" for d x
    by (cases x) (simp_all add: k given_def)
  have metric: "Metric_of_arg metric = named_metric metric" by (cases metric) simp_all
  show ?thesis
    by (cases index_type)
      (auto simp: create_spec_from_def typed_collection_def build_hnsw_def args metric Let_def HnswConfig_default_def DEFAULT_SEED_def
        HnswConfig_new_def MIN_DEGREE_def Dimension_try_from_def split: option.split)
qed

section \<open>The renderers give the shape\<close>

lemma key_order:
  "''id'' < (''payload'' :: string)" "''payload'' < (''score'' :: string)" "''id'' < (''score'' :: string)"
  "''count'' < (''dimension'' :: string)" "''dimension'' < (''index_type'' :: string)" "''index_type'' < (''metric'' :: string)"
  "''metric'' < (''name'' :: string)" "''count'' < (''index_type'' :: string)" "''count'' < (''metric'' :: string)"
  "''count'' < (''name'' :: string)" "''dimension'' < (''metric'' :: string)" "''dimension'' < (''name'' :: string)"
  "''index_type'' < (''name'' :: string)"
  by code_simp+

lemma scalar_rendered: "value_to_json T v = scalar_tree T v"
  by (cases v) (simp_all add: scalar_tree_def)

lemma payload_rendered:
  assumes "btree_ok (payload_fields p)"
  shows "payload_to_json T p = payload_tree T p"
proof -
  let ?entries = "map (\<lambda>(k, fv). (k, field_to_json T fv)) (payload_fields p)"
  have "map fst ?entries = map fst (payload_fields p)" by auto
  then have "btree_ok ?entries" using assms by (simp only: btree_ok_def)
  then have "bt_collect ?entries = ?entries" using bt_collect_mset by blast
  moreover have "field_to_json T fv = (case fv of Scalar v \<Rightarrow> scalar_tree T v | Array vs \<Rightarrow> Json_Array (map (scalar_tree T) vs))" for fv
    by (cases fv) (simp_all add: scalar_rendered)
  ultimately show ?thesis
    by (simp add: payload_to_json_def payload_tree_def Payload_iter_def bt_collect_def foldl_map case_prod_unfold)
qed

lemma hit_rendered:
  assumes "opt_ok payload_ok (hit_payload hit)"
  shows "hit_to_json T hit = hit_tree T hit"
proof -
  have "(case hit_payload hit of None \<Rightarrow> Json_Null | Some p \<Rightarrow> payload_to_json T p) =
      (case hit_payload hit of None \<Rightarrow> Json_Null | Some p \<Rightarrow> payload_tree T p)"
    using assms payload_rendered by (auto simp: opt_ok_def payload_ok_def split: option.split)
  then show ?thesis using key_order
    by (cases "hit_id hit"; cases "hit_score hit")
      (simp add: hit_to_json_def hit_tree_def json_object_def bt_collect_def VectorId_as_uuid_def less_not_sym)
qed

end
