(* ===== verification/Cli_Correct.thy ===== *)
theory Cli_Correct
  imports Cli_Spec
begin

text \<open>
  The command line over a server: what is printed for a sequence of commands is the shape of \<open>Cli_Spec\<close> of what the abstract
  machine of \<open>Client_Correct\<close> answers on the meaning of the arguments, and a payload that was printed reads back as itself.
\<close>

section \<open>Listing through the client\<close>

definition view_of :: "CollectionMeta \<times> col_spec \<Rightarrow> CollectionMetaView" where
  "view_of p = (case p of (meta, cs) \<Rightarrow>
     \<lparr>cmv_name = cm_name meta, cmv_metric = cm_metric meta, cmv_dimension = cm_dimension meta,
      cmv_index_type = cm_index_type meta, cmv_count = word_of_nat (card (dom (sp_vectors cs)))\<rparr>)"

lemma info_decodes:
  assumes "meta_ok (fst p)"
  shows "collection_info_to_view (info_of p) = Inr (view_of p)" "cmv_name (view_of p) = pbci_name (info_of p)"
  using assms Dimension_get_le [of "cm_dimension (fst p)"]
  by (simp_all add: view_of_def info_of_def collection_info_def collection_info_to_view_def metric_decodes type_decodes
      u32_of_usize_def dimension_decodes meta_ok_def split_beta)

text \<open>The view of a collection is printed in its shape.\<close>

lemma view_rendered: "view_to_json T (view_of p) = collection_tree T p"
proof (cases p)
  case (Pair meta cs)
  have "metric_label m = (case m of Cosine \<Rightarrow> ''cosine'' | DotProduct \<Rightarrow> ''dot-product'' | Euclidean \<Rightarrow> ''euclidean'')" for m
    by (cases m) simp_all
  moreover have "index_type_label t = (case t of Choice_Flat \<Rightarrow> ''flat'' | Choice_Hnsw \<Rightarrow> ''hnsw'')" for t by (cases t) simp_all
  ultimately show ?thesis using key_order
    by (simp add: Pair view_of_def view_to_json_def collection_tree_def json_object_def bt_collect_def less_not_sym)
qed

lemma client_lists:
  assumes "reg_ok E MC view reg" "st = reg_view E view reg"
  shows "\<exists>ps. Client_list_collections (service_stub E MC) reg = (Inr (map view_of ps), reg) \<and>
    set ps = ran st \<and> distinct (map (\<lambda>p. cm_name (fst p)) ps)"
proof -
  obtain ps where ps: "list_collections E reg = map info_of ps" "set ps = ran st" "distinct (map (\<lambda>p. cm_name (fst p)) ps)"
    using list_ok(4) [OF assms(1)] by (auto simp: assms(2))
  have meta: "meta_ok (fst p)" if "p \<in> ran st" for p
    using that handle_meta_ok [OF assms(1)] by (auto simp: assms(2) reg_view_def ran_def handle_view_def)
  have "traverse collection_info_to_view (list_collections E reg) = Inr (map view_of ps)"
    unfolding ps(1) traverse_map using info_decodes [OF meta] ps(2) by (intro traverse_all_Inr) auto
  then show ?thesis using ps(2,3) by (auto simp: Client_list_collections_def service_stub_def call_def)
qed

section \<open>What the parsers guarantee\<close>

lemma split_on_le: "length (split_on c s) \<le> Suc (length s)"
  by (induction s) (auto split: list.split)

lemma traverse_length: "traverse f xs = Inr ys \<Longrightarrow> length ys = length xs"
  by (simp add: traverse_Inr_iff list_all2_lengthD)

lemma embedding_arg_ok:
  assumes "embedding_arg T vector = Inr e" "length vector < u32_max"
  shows "embedding_ok e" "length (as_slice e) \<le> u32_max"
proof -
  obtain xs where v: "parse_vector T vector = Inr xs" "e = Embedding xs" "embedding_ok e"
    using assms(1) by (auto simp: embedding_arg_def Embedding_new_Inr)
  show "embedding_ok e" by fact
  have "length xs \<le> Suc (length vector)"
    using traverse_length [OF v(1) [unfolded parse_vector_def]] split_on_le [of "CHR '',''" vector] by simp
  then show "length (as_slice e) \<le> u32_max" using assms(2) by (simp add: v(2))
qed

lemma parse_payload_ok: "parse_payload T raw = Inr p \<Longrightarrow> payload_ok p"
  by (auto simp: parse_payload_def Payload_new_eq payload_ok_def bt_collect_ok split: sum.splits if_splits)

lemma point_args_ok:
  assumes "point_args T i vector document payload = Inr p" "length vector < u32_max"
  shows "valid_point (tl_unicode T) p"
proof -
  obtain e where e: "embedding_arg T vector = Inr e" "pin_embedding p = e"
    using assms(1) by (auto simp: point_args_def)
  have "opt_ok (\<lambda>d. \<not> trim_is_empty (tl_unicode T) (doc_str d)) (pin_document p)"
    using assms(1) by (cases document) (auto simp: point_args_def opt_ok_def Document_new_def map_res_def split: sum.splits if_splits)
  moreover have "opt_ok payload_ok (pin_payload p)"
    using assms(1) by (cases payload) (auto simp: point_args_def opt_ok_def map_res_def dest: parse_payload_ok split: sum.splits)
  ultimately show ?thesis
    using embedding_arg_ok [OF e(1) assms(2)] by (simp add: valid_point_def point_ok_def point_of_def e(2))
qed

lemma create_spec_ok:
  assumes "create_spec_from name metric dimension index_type hnsw_args = Inr spec"
  shows "0 < Dimension_get (csp_dimension spec)" "opt_ok config_ok (csp_hnsw spec)"
proof -
  show "0 < Dimension_get (csp_dimension spec)"
    using assms by (auto simp: create_spec_from_def Let_def Dimension_try_from_def Dimension_get_def unat_gt_0 split: prod.splits if_splits)
  show "opt_ok config_ok (csp_hnsw spec)"
    using assms by (auto simp: create_spec_from_def Let_def build_hnsw_def HnswConfig_new_Inr config_ok_def opt_ok_def
        split: prod.splits if_splits)
qed

section \<open>The machine\<close>

text \<open>
  The operation a command means, in the terms of \<open>Cli_Spec\<close>; the reading commands and compaction have none.
\<close>

fun written :: "'n Tools \<Rightarrow> Command \<Rightarrow> (CliError + client_op) option" where
  "written T (Cmd_create name metric dimension index_type m ef_construction ef_search seed) =
     Some (map_res Cl_create (typed_collection name metric dimension index_type m ef_construction ef_search seed))"
| "written T (Cmd_drop name) = Some (Inr (Cl_drop name))"
| "written T (Cmd_upsert coll i vector document payload) =
     Some (map_res (Cl_upsert coll) (typed_point T i vector document payload))"
| "written T (Cmd_delete coll i) = Some (map_res (Cl_delete coll) (typed_id T i))"
| "written T _ = None"

lemma written_code:
  "written T (Cmd_create name metric dimension index_type m ef_construction ef_search seed) =
     Some (map_res Cl_create (create_spec_from name metric dimension index_type (m, ef_construction, ef_search, seed)))"
  "written T (Cmd_upsert coll i vector document payload) =
     Some (map_res (Cl_upsert coll) (point_args T i vector document payload))"
  "written T (Cmd_delete coll i) = Some (map_res (Cl_delete coll) (parse_id T i))"
  by (simp_all add: create_spec_typed point_args_typed parse_id_typed)

declare written.simps(1,3,4) [simp del] written_code [simp]

text \<open>What is printed for the reply: one key with the name, the identifier or whether there was something.\<close>

fun shown :: "'n Tools \<Rightarrow> client_op \<Rightarrow> client_reply \<Rightarrow> CliError + 'n Json" where
  "shown T a (Cl_unit (Inl e)) = Inl (Cli_Client e)"
| "shown T a (Cl_bool (Inl e)) = Inl (Cli_Client e)"
| "shown T (Cl_create spec) (Cl_unit (Inr _)) = Inr (Json_Object [(''created'', Json_String (csp_name spec))])"
| "shown T (Cl_upsert _ p) (Cl_unit (Inr _)) =
     Inr (Json_Object [(''upserted'', case pin_id p of VectorId u \<Rightarrow> Json_String (tl_uuid_to_string T u))])"
| "shown T (Cl_drop _) (Cl_bool (Inr b)) = Inr (Json_Object [(''dropped'', Json_Bool b)])"
| "shown T (Cl_delete _ _) (Cl_bool (Inr b)) = Inr (Json_Object [(''deleted'', Json_Bool b)])"
| "shown T _ _ = Inr Json_Null"

text \<open>A command that does not parse is refused before anything is sent; the others are the operations of the machine.\<close>

definition cli_spec :: "'n Tools \<Rightarrow> Command \<Rightarrow> reg_spec \<Rightarrow> (CliError + 'n Json) \<times> reg_spec" where
  "cli_spec T command st = (case written T command of
     Some (Inr a) \<Rightarrow> apfst (shown T a) (client_spec (tl_unicode T) a st)
   | Some (Inl e) \<Rightarrow> (Inl e, st)
   | None \<Rightarrow> (Inr Json_Null, st))"

datatype cli_event = Typed Command | Restarted

fun session ::
  "'n Tools \<Rightarrow> 'd Env \<Rightarrow> CollectionMeta Codec \<Rightarrow> cli_event list \<Rightarrow> 'd Registry \<Rightarrow>
     ServerError + (CliError + 'n Json) list \<times> 'd Registry" where
  "session T E MC [] reg = Inr ([], reg)"
| "session T E MC (Typed c # es) reg =
     (case Cli_run T (\<lambda>_. Inr (service_stub E MC)) \<lparr>cli_endpoint = ''http://127.0.0.1:50051'', cli_command = c\<rparr> reg of
        (out, reg) \<Rightarrow> map_res (\<lambda>(outs, reg). (out # outs, reg)) (session T E MC es reg))"
| "session T E MC (Restarted # es) reg = res_bind (Registry_open E MC (rg_disk reg)) (session T E MC es)"

fun typed :: "cli_event list \<Rightarrow> Command list" where
  "typed [] = []"
| "typed (Typed c # es) = c # typed es"
| "typed (Restarted # es) = typed es"

text \<open>An argument of a command line is far shorter than \<open>2 ^ 32\<close> bytes.\<close>

definition short_args :: "Command \<Rightarrow> bool" where
  "short_args c = (case c of Cmd_upsert _ _ vector _ _ \<Rightarrow> length vector < u32_max | _ \<Rightarrow> True)"

definition plain_write :: "'n Tools \<Rightarrow> Command \<Rightarrow> bool" where
  "plain_write T c \<longleftrightarrow> written T c \<noteq> None \<and> short_args c"

section \<open>A session is a run of the client\<close>

fun sent :: "'n Tools \<Rightarrow> cli_event list \<Rightarrow> client_event list" where
  "sent T [] = []"
| "sent T (Restarted # es) = Server_restart # sent T es"
| "sent T (Typed c # es) = (case written T c of Some (Inr a) \<Rightarrow> Request_call a # sent T es | _ \<Rightarrow> sent T es)"

fun weave :: "'n Tools \<Rightarrow> cli_event list \<Rightarrow> client_reply list \<Rightarrow> (CliError + 'n Json) list" where
  "weave T [] rs = []"
| "weave T (Restarted # es) rs = weave T es rs"
| "weave T (Typed c # es) rs = (case written T c of
     Some (Inr a) \<Rightarrow> shown T a (hd rs) # weave T es (tl rs)
   | Some (Inl e) \<Rightarrow> Inl e # weave T es rs
   | None \<Rightarrow> Inr Json_Null # weave T es rs)"

lemma calling_then:
  "then_do (calling out) (\<lambda>x s. (Inr (f x), s)) = (map_res f (map_err Cli_Client (fst out)), snd out)"
  by (cases out; cases "fst out") (auto simp: calling_def)

lemma execute_write:
  assumes "written T c = Some w"
  shows "execute T stub c s = (case w of
    Inl e \<Rightarrow> (Inl e, s) | Inr a \<Rightarrow> apfst (shown T a) (client_step stub a s))"
proof -
  have name: "csp_name spec = name" if "create_spec_from name metric dimension index_type args = Inr spec"
    for name metric dimension index_type args spec
    using that by (auto simp: create_spec_from_def Let_def split: prod.splits if_splits)
  have single: "json_object [(key, j)] = Json_Object [(key, j)]" for key and j :: "'n Json"
    by (simp add: json_object_def bt_collect_def)
  have id: "Json_String (tl_uuid_to_string T (VectorId_as_uuid i)) = (case i of VectorId u \<Rightarrow> Json_String (tl_uuid_to_string T u))"
    for i by (cases i) (simp add: VectorId_as_uuid_def)
  have created: "map_res (\<lambda>_. Json_Object [(''created'', Json_String name)]) (map_err Cli_Client u) = shown T (Cl_create spec) (Cl_unit u)"
    if "create_spec_from name metric dimension index_type args = Inr spec" for name metric dimension index_type args spec u
    using name [OF that] by (cases u) simp_all
  have shown: "map_res (\<lambda>_. Json_Object [(''upserted'', case pin_id p of VectorId u \<Rightarrow> Json_String (tl_uuid_to_string T u))]) (map_err Cli_Client u) =
       shown T (Cl_upsert coll p) (Cl_unit u)"
    "map_res (\<lambda>b. Json_Object [(''dropped'', Json_Bool b)]) (map_err Cli_Client r) = shown T (Cl_drop coll) (Cl_bool r)"
    "map_res (\<lambda>b. Json_Object [(''deleted'', Json_Bool b)]) (map_err Cli_Client r) = shown T (Cl_delete coll i) (Cl_bool r)"
    for p coll i u r by (cases u; cases r; simp)+
  show ?thesis
    using assms by (cases c) (auto simp: handle_create_def handle_upsert_def try_first_def calling_then created single id shown
        apfst_def map_prod_def split_beta simp del: shown.simps split: sum.splits)
qed

lemma session_client:
  assumes "list_all (plain_write T) (typed es)"
  shows "session T E MC es reg = map_res (apfst (weave T es)) (client_run E MC (sent T es) reg)"
  using assms
proof (induction es arbitrary: reg)
  case (Cons e es)
  show ?case
  proof (cases e)
    case (Typed c)
    obtain w where w: "written T c = Some w" using Cons.prems by (auto simp: Typed plain_write_def)
    have run: "Cli_run T (\<lambda>_. Inr (service_stub E MC)) \<lparr>cli_endpoint = endpoint, cli_command = c\<rparr> reg =
        execute T (service_stub E MC) c reg" for endpoint
      by (simp add: Cli_run_def try_first_def)
    have IH: "session T E MC es reg = map_res (apfst (weave T es)) (client_run E MC (sent T es) reg)" for reg
      using Cons by (simp add: Typed)
    show ?thesis
    proof (cases w)
      case (Inl e)
      show ?thesis
        by (cases "client_run E MC (sent T es) reg") (simp_all add: Typed w Inl run execute_write [OF w] IH split_beta apfst_def map_prod_def)
    next
      case (Inr a)
      obtain out reg1 where out: "client_step (service_stub E MC) a reg = (out, reg1)" by fastforce
      show ?thesis
        by (cases "client_run E MC (sent T es) reg1")
          (simp_all add: Typed w Inr run execute_write [OF w] IH out split_beta apfst_def del: client_step.simps)
    qed
  next
    case Restarted
    then show ?thesis using Cons by (cases "Registry_open E MC (rg_disk reg)") simp_all
  qed
qed simp

lemma spec_client:
  assumes "list_all (plain_write T) (typed es)"
  shows "run_steps (cli_spec T) (typed es) st = apfst (weave T es) (run_steps (client_spec (tl_unicode T)) (calls (sent T es)) st)"
  using assms
proof (induction es arbitrary: st)
  case (Cons e es)
  show ?case
  proof (cases e)
    case (Typed c)
    obtain w where w: "written T c = Some w" using Cons.prems by (auto simp: Typed plain_write_def)
    have IH: "run_steps (cli_spec T) (typed es) st =
        apfst (weave T es) (run_steps (client_spec (tl_unicode T)) (calls (sent T es)) st)" for st
      using Cons by (simp add: Typed)
    have one: "cli_spec T c st = (case w of Inl e \<Rightarrow> (Inl e, st) | Inr a \<Rightarrow> apfst (shown T a) (client_spec (tl_unicode T) a st))"
      by (simp add: cli_spec_def w split: sum.split)
    show ?thesis
      by (cases w) (simp_all add: Typed w one IH split_beta apfst_def map_prod_def del: client_spec.simps)
  next
    case Restarted
    then show ?thesis using Cons by simp
  qed
qed simp

lemma sent_cost: "list_all (plain_write T) (typed es) \<Longrightarrow> calls_cost (sent T es) \<le> length (typed es)"
proof (induction es)
  case (Cons e es)
  have "client_cost a = 1" if "written T c = Some (Inr a)" for c a
    using that by (cases c) (auto simp: client_cost_def)
  with Cons show ?case by (cases e) (auto simp: calls_cost_def split: option.split sum.split)
qed (simp add: calls_cost_def)

lemma sent_valid: "list_all (plain_write T) (typed es) \<Longrightarrow> list_all (valid_op (tl_unicode T)) (calls (sent T es))"
proof (induction es)
  case (Cons e es)
  have "valid_op (tl_unicode T) a" if "written T c = Some (Inr a)" "short_args c" for c a
    using that create_spec_ok point_args_ok by (cases c) (auto simp: valid_op_def short_args_def)
  with Cons show ?case by (cases e) (auto simp: plain_write_def split: option.split sum.split)
qed simp

lemma session_refines:
  assumes "env_ok E view" "env_total E" "meta_codec_ok MC" "tl_unicode T = env_unicode E"
    and "always_fits (length (typed es))" "list_all (plain_write T) (typed es)"
  shows "\<exists>reg outs reg'. Registry_open E MC \<lparr>dk_entries = None, dk_faults = []\<rparr> = Inr reg \<and>
    session T E MC es reg = Inr (outs, reg') \<and> reg_ok E MC view reg' \<and>
    (outs, reg_view E view reg') = run_steps (cli_spec T) (typed es) Map.empty \<and> payloads_fine (reg_view E view reg')"
proof -
  have fits: "always_fits (calls_cost (sent T es))"
    using le_less_trans [OF add_left_mono [OF mult_le_mono1 [OF sent_cost [OF assms(6)]]]] assms(5)
    unfolding always_fits_def .
  have valid: "list_all (valid_op (env_unicode E)) (calls (sent T es))" using sent_valid [OF assms(6)] by (simp add: assms(4))
  obtain reg rs reg' where run: "Registry_open E MC \<lparr>dk_entries = None, dk_faults = []\<rparr> = Inr reg"
    "client_run E MC (sent T es) reg = Inr (rs, reg')" "reg_ok E MC view reg'"
    "(rs, reg_view E view reg') = run_steps (client_spec (env_unicode E)) (calls (sent T es)) Map.empty"
    using client_run_refines [OF assms(1-3) registry_fresh(2,3) fits valid] unfolding registry_fresh(1,4) by blast
  have "payloads_fine (reg_view E view reg')"
    using client_specs_fine [of Map.empty, OF _ valid] by (simp add: payloads_fine_def flip: run(4))
  then show ?thesis
    using run by (simp add: session_client [OF assms(6)] spec_client [OF assms(6)] assms(4) flip: run(4))
qed

section \<open>Properties\<close>

text \<open>
  C3. The command line. Whatever commands that write, compaction excepted, are typed, well formed or not, against a server on
  an empty root that is restarted at any moments in between, every result printed is that of the abstract machine of
  named collections on what the arguments mean: a create carries the metric, the dimension, the index type and each
  HNSW parameter as typed or its own default, an upsert the identifier, the numbers between the commas, the
  document and the fields of the payload; what has no meaning is refused with the first error, before anything is sent,
  and changes nothing; and refusals of the server come back as its status.
\<close>

theorem cli_refines_maps:
  assumes "env_ok E view" "env_total E" "meta_codec_ok MC" "tl_unicode T = env_unicode E"
    and "always_fits (length (typed es))" "list_all (plain_write T) (typed es)"
  shows "\<exists>reg outs reg'. Registry_open E MC \<lparr>dk_entries = None, dk_faults = []\<rparr> = Inr reg \<and>
    session T E MC es reg = Inr (outs, reg') \<and>
    (outs, reg_view E view reg') = run_steps (cli_spec T) (typed es) Map.empty"
  using session_refines [OF assms] by blast

text \<open>A query that has a meaning carries a valid embedding, and what is found is printed in its shape.\<close>

lemma typed_query_ok:
  assumes "typed_query T vector k metric f = Inr query" "length vector < u32_max"
  shows "embedding_ok (sq_embedding query)" "sq_k query \<le> u32_max"
proof -
  have "unat k < 2 ^ LENGTH(32)" by (rule unsigned_less)
  then show "sq_k query \<le> u32_max"
    using assms(1) by (auto simp: typed_query_def u32_max_def split: prod.splits sum.splits)
  have "embedding_arg T vector = Inr (sq_embedding query)"
    using assms(1) by (auto simp: typed_query_def embedding_arg_typed split: prod.splits sum.splits)
  from embedding_arg_ok(1) [OF this assms(2)] show "embedding_ok (sq_embedding query)" .
qed

lemma hits_rendered:
  assumes "search_reply name g entry query (Inr hits)" "\<And>meta cs. entry = Some (meta, cs) \<Longrightarrow> cs_fine cs"
  shows "hits_to_json T hits = Json_Object [(''hits'', Json_Array (map (hit_tree T) hits))]"
proof -
  obtain meta cs where entry: "entry = Some (meta, cs)"
    using assms(1) by (auto simp: search_reply_def split: option.splits)
  note reply = assms(1) [unfolded search_reply_def entry option.case prod.case]
  have "answers (cm_index_type meta) g (cm_metric meta) cs query (Inr hits)"
    using reply
    apply (simp split: if_splits)
    apply (elim exE conjE)
    subgoal for r by (cases r) simp_all
    done
  then obtain ns :: "Neighbor list" where ns: "hits = map (\<lambda>n. hit_of (sp_payloads cs) (neighbor_id n) (neighbor_score n)) ns"
    unfolding answers_def Let_def sum.case by blast
  have "opt_ok payload_ok (hit_payload (hit_of (sp_payloads cs) i s))" for i s
    using assms(2) [OF entry] by (auto simp: hit_of_def opt_ok_def cs_fine_def ran_def split: option.split)
  then show ?thesis by (simp add: ns hits_to_json_def json_object_def bt_collect_def hit_rendered)
qed

text \<open>
  C4. What the command line reads back. After any such session \<open>describe\<close> prints the count, the dimension, the index type, the
  metric and the name of the collection of the machine, \<open>list\<close> one such object per collection, and \<open>search\<close> either the
  first error of its arguments with nothing sent, or the refusal of an unknown collection, of a vector of another
  dimension or of a metric the graph was not built for, or an object with the hits for the query that the arguments
  mean (the numbers of the vector, \<open>k\<close>, the metric override, the equality filter), each with its identifier, payload and score:
  for a flat collection the true top \<open>k\<close> of the vectors whose payload passes the filter, for an HNSW collection what the search
  of its graph finds among them, the true top \<open>k\<close> of those the entry reaches when the beam covers the graph.
\<close>

theorem cli_reads_exact:
  assumes "env_ok E view" "env_total E" "meta_codec_ok MC" "tl_unicode T = env_unicode E"
    and "always_fits (length (typed es))" "list_all (plain_write T) (typed es)"
    and "Registry_open E MC \<lparr>dk_entries = None, dk_faults = []\<rparr> = Inr reg" "session T E MC es reg = Inr (outs, reg')"
    and "st = snd (run_steps (cli_spec T) (typed es) Map.empty)" "length vector < u32_max"
  shows "execute T (service_stub E MC) (Cmd_describe name) reg' = (case st name of
      None \<Rightarrow> Inl (Cli_Client (Ce_Status (Status NotFound (''resource not found: '' @ name))))
    | Some p \<Rightarrow> Inr (collection_tree T p), reg') \<and>
    (\<exists>ps. execute T (service_stub E MC) Cmd_list reg' = (Inr (Json_Array (map (collection_tree T) ps)), reg') \<and>
      set ps = ran st \<and> distinct (map (\<lambda>p. cm_name (fst p)) ps)) \<and>
    (case typed_query T vector k metric f of
       Inl e \<Rightarrow> execute T (service_stub E MC) (Cmd_search name vector k metric f) reg' = (Inl e, reg')
     | Inr query \<Rightarrow> \<exists>out. search_reply name (graph_in reg' name) (st name) query out \<and>
         execute T (service_stub E MC) (Cmd_search name vector k metric f) reg' = (case out of
           Inl e \<Rightarrow> Inl (Cli_Client e)
         | Inr hits \<Rightarrow> Inr (Json_Object [(''hits'', Json_Array (map (hit_tree T) hits))]), reg'))"
proof (intro conjI)
  have reach: "reg_ok E MC view reg'" "st = reg_view E view reg'" "payloads_fine st"
    using session_refines [OF assms(1-6)] assms(7-9) by (auto dest: arg_cong [where f = snd])
  have view: "\<lparr>cmv_name = name, cmv_metric = cm_metric meta, cmv_dimension = cm_dimension meta,
      cmv_index_type = cm_index_type meta, cmv_count = word_of_nat (card (dom (sp_vectors cs)))\<rparr> = view_of (meta, cs)"
    if "st name = Some (meta, cs)" for meta cs
    using that handle_okE(1) [OF reach(1)] by (auto simp: reach(2) reg_view_def handle_view_def view_of_def)
  show "execute T (service_stub E MC) (Cmd_describe name) reg' = (case st name of
      None \<Rightarrow> Inl (Cli_Client (Ce_Status (Status NotFound (''resource not found: '' @ name))))
    | Some p \<Rightarrow> Inr (collection_tree T p), reg')"
    by (cases "st name") (auto simp: client_describes [OF reach(1,2)] calling_then view view_rendered not_found_def)
  show "\<exists>ps. execute T (service_stub E MC) Cmd_list reg' = (Inr (Json_Array (map (collection_tree T) ps)), reg') \<and>
      set ps = ran st \<and> distinct (map (\<lambda>p. cm_name (fst p)) ps)"
    using client_lists [OF reach(1,2)] by (auto simp: calling_then comp_def view_rendered)
  show "case typed_query T vector k metric f of
       Inl e \<Rightarrow> execute T (service_stub E MC) (Cmd_search name vector k metric f) reg' = (Inl e, reg')
     | Inr query \<Rightarrow> \<exists>out. search_reply name (graph_in reg' name) (st name) query out \<and>
         execute T (service_stub E MC) (Cmd_search name vector k metric f) reg' = (case out of
           Inl e \<Rightarrow> Inl (Cli_Client e)
         | Inr hits \<Rightarrow> Inr (Json_Object [(''hits'', Json_Array (map (hit_tree T) hits))]), reg')"
  proof (cases "typed_query T vector k metric f")
    case (Inr query)
    note q = typed_query_ok [OF Inr assms(10)]
    obtain out where out: "Client_search (service_stub E MC) name query reg' = (out, reg')"
      "search_reply name (graph_in reg' name) (st name) query out"
      using client_searches [OF reach q(1), of name] q(2) by (auto simp: not_less [symmetric])
    have "execute T (service_stub E MC) (Cmd_search name vector k metric f) reg' =
        (map_res (hits_to_json T) (map_err Cli_Client out), reg')"
      by (simp add: Inr search_args_typed handle_search_def try_first_def calling_then out(1))
    moreover have "map_res (hits_to_json T) (map_err Cli_Client out) = (case out of
        Inl e \<Rightarrow> Inl (Cli_Client e) | Inr hits \<Rightarrow> Inr (Json_Object [(''hits'', Json_Array (map (hit_tree T) hits))]))"
      using out(2) reach(3) hits_rendered [of name "graph_in reg' name" "st name" query] by (cases out) (auto simp: payloads_fine_def)
    ultimately show ?thesis using out(2) unfolding Inr sum.case by metis
  qed (simp add: search_args_typed handle_search_def try_first_def)
qed

text \<open>
  The numbers of the JSON library, as its documentation has them: an integer is kept as an integer, a finite float as a float
  that is not read as an integer, and anything else is \<open>null\<close>.
\<close>

definition numbers_ok :: "'n Tools \<Rightarrow> bool" where
  "numbers_ok T \<longleftrightarrow>
     (\<forall>i. \<exists>n. tl_of_i64 T i = Json_Number n \<and> tl_as_i64 T n = Some i) \<and>
     (\<forall>f. f64_finite f \<longrightarrow> (\<exists>n. tl_of_f64 T f = Json_Number n \<and> tl_as_i64 T n = None \<and> tl_as_f64 T n = Some f))"

lemma value_reads_back: "numbers_ok T \<Longrightarrow> value_finite v \<Longrightarrow> json_to_value T (value_to_json T v) = Inr v"
proof (cases v)
  case (Integer i)
  assume "numbers_ok T"
  then obtain n where "tl_of_i64 T i = Json_Number n" "tl_as_i64 T n = Some i" unfolding numbers_ok_def by blast
  then show ?thesis by (simp add: Integer)
next
  case (Float f)
  assume "numbers_ok T" "value_finite v"
  then obtain n where "tl_of_f64 T f = Json_Number n" "tl_as_i64 T n = None" "tl_as_f64 T n = Some f"
    unfolding numbers_ok_def Float by auto
  then show ?thesis by (simp add: Float)
qed simp_all

lemma field_reads_back:
  assumes "numbers_ok T" "field_finite fv"
  shows "json_to_field_value T (field_to_json T fv) = Inr fv"
proof (cases fv)
  case (Scalar v)
  have "value_to_json T v \<noteq> Json_Array items" for items
    using value_reads_back [OF assms(1), of v] assms(2) by (auto simp: Scalar)
  then have "json_to_field_value T (value_to_json T v) = map_res Scalar (json_to_value T (value_to_json T v))"
    by (cases "value_to_json T v") auto
  then show ?thesis using value_reads_back [OF assms(1), of v] assms(2) by (simp add: Scalar)
next
  case (Array vs)
  have "traverse (json_to_value T) (map (value_to_json T) vs) = Inr vs"
    unfolding traverse_map using value_reads_back [OF assms(1)] assms(2)
    by (subst traverse_all_Inr [where g = "\<lambda>v. v"]) (simp_all add: Array)
  then show ?thesis by (simp add: Array)
qed

lemma payload_tree_reads_back:
  assumes "numbers_ok T" "payload_ok p" "tl_from_str T raw = Inr (payload_tree T p)"
  shows "parse_payload T raw = Inr p"
proof -
  have sorted: "bt_collect xs = xs" if "btree_ok xs" for xs :: "(string \<times> 'x) list"
    using bt_collect_mset [OF that refl] .
  have ok: "btree_ok (payload_fields p)" "\<forall>(k, fv) \<in> set (payload_fields p). field_finite fv"
    using assms(2) by (simp_all add: payload_ok_def)
  let ?entries = "map (\<lambda>(k, fv). (k, field_to_json T fv)) (payload_fields p)"
  have "map fst ?entries = map fst (payload_fields p)" by auto
  then have "btree_ok ?entries" using ok(1) by (simp only: btree_ok_def)
  moreover have "payload_tree T p = Json_Object (bt_collect ?entries)"
    unfolding payload_rendered [OF ok(1), symmetric]
    by (simp add: payload_to_json_def Payload_iter_def bt_collect_def foldl_map case_prod_unfold)
  moreover have "traverse (\<lambda>(key, value). map_res (Pair key) (json_to_field_value T value)) ?entries = Inr (payload_fields p)"
    unfolding traverse_map using ok(2) field_reads_back [OF assms(1)]
    by (subst traverse_all_Inr [where g = "\<lambda>e. e"]) auto
  ultimately show ?thesis
    using ok by (simp add: parse_payload_def assms(3) sorted Payload_new_eq)
qed

text \<open>
  C36. Payloads in and out. A valid payload is printed as the JSON object of its fields in key order, a scalar as a string, a
  number or a boolean and an array as an array; the argument of an upsert whose JSON value is that object is that very
  payload; and no two payloads are printed as the same object: keys, nesting, integers and floats are told apart. Which
  value a text has is the JSON library's affair.
\<close>

theorem cli_payload_reads_back:
  assumes "numbers_ok T" "payload_ok p"
  shows "payload_to_json T p = payload_tree T p \<and>
    (\<forall>raw. tl_from_str T raw = Inr (payload_tree T p) \<longrightarrow> parse_payload T raw = Inr p) \<and>
    (\<forall>p'. payload_ok p' \<longrightarrow> payload_to_json T p' = payload_to_json T p \<longrightarrow> p' = p)"
proof (intro conjI allI impI)
  have tree: "payload_to_json T p = payload_tree T p" if "payload_ok p" for p
    by (rule payload_rendered) (use that in \<open>simp add: payload_ok_def\<close>)
  show "payload_to_json T p = payload_tree T p" by (rule tree [OF assms(2)])
  show "parse_payload T raw = Inr p" if "tl_from_str T raw = Inr (payload_tree T p)" for raw
    by (rule payload_tree_reads_back [OF assms that])
  show "p' = p" if p': "payload_ok p'" "payload_to_json T p' = payload_to_json T p" for p'
  proof -
    define U where "U = T\<lparr>tl_from_str := \<lambda>_. Inr (payload_tree T p)\<rparr>"
    have numbers: "numbers_ok U" using assms(1) by (simp add: numbers_ok_def U_def)
    have "scalar_tree U = scalar_tree T" by (rule ext) (simp add: scalar_tree_def U_def split: Value.split)
    then have same: "payload_tree U q = payload_tree T q" for q by (simp only: payload_tree_def)
    have read: "tl_from_str U [] = Inr (payload_tree T p)" by (simp add: U_def)
    have "payload_tree T p' = payload_tree T p" using p'(2) by (simp add: tree p'(1) assms(2))
    then have "tl_from_str U [] = Inr (payload_tree U p')" "tl_from_str U [] = Inr (payload_tree U p)"
      by (simp_all only: same read)
    then have "parse_payload U [] = Inr p'" "parse_payload U [] = Inr p"
      using payload_tree_reads_back [OF numbers] p'(1) assms(2) by blast+
    then show ?thesis by simp
  qed
qed

text \<open>
  Concrete tools: integers and floats side by side as numbers, identifiers in decimal, and a reader that knows one text.
\<close>

definition sample_payload :: Payload where
  "sample_payload = Payload [(''a'', Scalar (Integer 5)), (''b'', Array [Text ''x'', Float 0x3FF8000000000000])]"

definition sample_tools :: "(i64 + f64) Tools" where
  "sample_tools = \<lparr>tl_unicode = ascii, tl_debug = (\<lambda>s. s), tl_fmt_id = (\<lambda>_. ''''),
     tl_parse_uuid = (\<lambda>s. if list_all is_digit s then Some (word_of_nat (digits_value s)) else None),
     tl_uuid_to_string = (\<lambda>u. string_of_nat (unat u)),
     tl_from_str = (\<lambda>s. if s = ''{\"a\":5,\"b\":[\"x\",1.5]}''
       then Inr (Json_Object [(''a'', Json_Number (Inl 5)), (''b'', Json_Array [Json_String ''x'', Json_Number (Inr 0x3FF8000000000000)])])
       else Inl ''expected value''),
     tl_as_i64 = (\<lambda>n. case n of Inl i \<Rightarrow> Some i | Inr _ \<Rightarrow> None),
     tl_as_f64 = (\<lambda>n. case n of Inl i \<Rightarrow> Some (f64_of_int (sint i)) | Inr f \<Rightarrow> Some f),
     tl_of_i64 = (\<lambda>i. Json_Number (Inl i)), tl_of_u64 = (\<lambda>n. Json_Number (Inl n)),
     tl_of_f64 = (\<lambda>f. if f64_finite f then Json_Number (Inr f) else Json_Null),
     tl_of_f32 = (\<lambda>f. if f32_finite f then Json_Number (Inr (f64_of_f32 f)) else Json_Null)\<rparr>"

definition example_session :: "cli_event list" where
  "example_session =
     [Typed (Cmd_create ''c'' Arg_Cosine 1 Arg_Flat None None None None), Typed (Cmd_upsert ''c'' ''7'' '' -1.5e0'' None None),
      Restarted, Typed (Cmd_upsert ''c'' ''x'' ''1'' None None), Typed (Cmd_drop ''d'')]"

lemma parse_f32_samples:
  "parse_f32 (str_trim ascii '' -1.5e0'') = Some 0xBFC00000" "parse_f32 ''.1'' = Some 0x3DCCCCCD" "parse_f32 ''.'' = None"
  by code_simp+

lemma sample_numbers: "numbers_ok sample_tools"
  by (simp add: numbers_ok_def sample_tools_def)

lemma sample_point:
  "point_args sample_tools ''7'' '' -1.5e0'' None None =
     Inr \<lparr>pin_id = VectorId 7, pin_embedding = Embedding [0xBFC00000], pin_document = None, pin_payload = None\<rparr>"
proof -
  have "embedding_ok (Embedding [0xBFC00000])" by code_simp
  then have "Embedding_new [0xBFC00000] = Inr (Embedding [0xBFC00000])" by (simp add: Embedding_new_Inr)
  moreover have "parse_vector sample_tools '' -1.5e0'' = Inr [0xBFC00000]"
    by (simp add: parse_vector_def sample_tools_def parse_f32_samples)
  ultimately show ?thesis
    by (simp add: point_args_def parse_id_def embedding_arg_def sample_tools_def is_digit_def digits_value_def VectorId_from_uuid_def)
qed

lemma seven: "tl_uuid_to_string sample_tools 7 = ''7''"
proof -
  have "(char_of (55 :: nat) :: char) = CHR ''7''" by code_simp
  then show ?thesis by (simp add: sample_tools_def string_of_nat.simps)
qed

definition example_meta :: CollectionMeta where
  "example_meta =
     \<lparr>cm_name = ''c'', cm_metric = Cosine, cm_dimension = Dimension 1, cm_index_type = Choice_Flat, cm_hnsw = None\<rparr>"

definition example_outs :: "(CliError + (i64 + f64) Json) list" where
  "example_outs =
     [Inr (Json_Object [(''created'', Json_String ''c'')]), Inr (Json_Object [(''upserted'', Json_String ''7'')]),
      Inl (Cli_Usage ''invalid UUID: x''), Inr (Json_Object [(''dropped'', Json_Bool False)])]"

lemma example_dim: "Embedding_dimension (Embedding [0xBFC00000]) = Dimension 1"
  by (simp add: Embedding_dimension_def Dimension_new_def u32_max_def)

lemma example_session_run:
  obtains cs where "run_steps (cli_spec sample_tools) (typed example_session) Map.empty = (example_outs, [''c'' \<mapsto> (example_meta, cs)])"
    "sp_vectors cs = [VectorId 7 \<mapsto> Embedding [0xBFC00000]]" "sp_payloads cs = Map.empty"
proof -
  have name: "is_valid_name ''c''" by code_simp
  have bad: "point_args sample_tools ''x'' ''1'' None None = Inl (Cli_Usage ''invalid UUID: x'')"
    by (simp add: point_args_def parse_id_def sample_tools_def is_digit_def)
  let ?p = "\<lparr>pin_id = VectorId 7, pin_embedding = Embedding [0xBFC00000], pin_document = None, pin_payload = None\<rparr>"
  let ?cs = "apply_point (tl_unicode sample_tools) (point_of ?p) empty_spec"
  have "run_steps (cli_spec sample_tools) (typed example_session) Map.empty = (example_outs, [''c'' \<mapsto> (example_meta, ?cs)])"
    by (simp add: example_session_def example_outs_def example_meta_def cli_spec_def sample_point bad seven create_spec_from_def
        Dimension_try_from_def too_wide_def name meta_of_def in_collection_def put_points_def example_dim u64_of_usize_def)
  moreover have "sp_vectors ?cs = [VectorId 7 \<mapsto> Embedding [0xBFC00000]]" "sp_payloads ?cs = Map.empty"
    by (simp_all add: apply_point_def point_of_def empty_spec_def)
  ultimately show thesis by (rule that)
qed

lemma example_session_ok:
  "always_fits (length (typed example_session))" "list_all (plain_write sample_tools) (typed example_session)"
  by (simp_all add: example_session_def always_fits_def HEADER_LEN_def FILE_MAX_def u32_max_def plain_write_def short_args_def)

lemma sample_unicode: "tl_unicode sample_tools = env_unicode mem_env"
  by (simp add: sample_tools_def mem_env_def)

lemma cli_refines_maps_witness:
  "\<exists>reg reg'. Registry_open mem_env meta_codec \<lparr>dk_entries = None, dk_faults = []\<rparr> = Inr reg \<and>
     session sample_tools mem_env meta_codec example_session reg =
       Inr ([Inr (Json_Object [(''created'', Json_String ''c'')]), Inr (Json_Object [(''upserted'', Json_String ''7'')]),
         Inl (Cli_Usage ''invalid UUID: x''), Inr (Json_Object [(''dropped'', Json_Bool False)])], reg')"
proof -
  obtain cs where "run_steps (cli_spec sample_tools) (typed example_session) Map.empty =
      (example_outs, [''c'' \<mapsto> (example_meta, cs)])" using example_session_run .
  with cli_refines_maps [OF mem_env_ok meta_codec_fine sample_unicode example_session_ok] show ?thesis
    unfolding example_outs_def by auto
qed

lemma example_query:
  "typed_query sample_tools '' -1.5e0'' 5 None None =
     Inr \<lparr>sq_embedding = Embedding [0xBFC00000], sq_k = 5, sq_metric = None, sq_filter = None\<rparr>"
proof -
  have "f32_finite 0xBFC00000" by code_simp
  moreover have "comma_parts '' -1.5e0'' = ['' -1.5e0'']" by (simp add: comma_parts.simps)
  moreover have "typed_number sample_tools '' -1.5e0'' = Some 0xBFC00000"
    by (simp add: typed_number_def sample_tools_def parse_f32_samples)
  ultimately have "typed_embedding sample_tools '' -1.5e0'' = Inr (Embedding [0xBFC00000])"
    by (simp add: typed_embedding_def Let_def)
  then show ?thesis by (simp add: typed_query_def optional_def)
qed

lemma cli_reads_exact_witness:
  "\<exists>reg outs reg' score. Registry_open mem_env meta_codec \<lparr>dk_entries = None, dk_faults = []\<rparr> = Inr reg \<and>
     session sample_tools mem_env meta_codec example_session reg = Inr (outs, reg') \<and>
     execute sample_tools (service_stub mem_env meta_codec) (Cmd_describe ''c'') reg' =
       (Inr (Json_Object [(''count'', Json_Number (Inl 1)), (''dimension'', Json_Number (Inl 1)), (''index_type'', Json_String ''flat''),
          (''metric'', Json_String ''cosine''), (''name'', Json_String ''c'')]), reg') \<and>
     execute sample_tools (service_stub mem_env meta_codec) (Cmd_search ''c'' '' -1.5e0'' 5 None None) reg' =
       (Inr (Json_Object [(''hits'', Json_Array
          [Json_Object [(''id'', Json_String ''7''), (''payload'', Json_Null), (''score'', score)]])]), reg')"
proof -
  let ?vector = "'' -1.5e0''"
  let ?query = "\<lparr>sq_embedding = Embedding [0xBFC00000], sq_k = 5, sq_metric = None, sq_filter = None\<rparr>"
  obtain reg outs reg' where run: "Registry_open mem_env meta_codec \<lparr>dk_entries = None, dk_faults = []\<rparr> = Inr reg"
    "session sample_tools mem_env meta_codec example_session reg = Inr (outs, reg')"
    using session_refines [OF mem_env_ok meta_codec_fine sample_unicode example_session_ok] by blast
  obtain cs where cs: "run_steps (cli_spec sample_tools) (typed example_session) Map.empty =
      (example_outs, [''c'' \<mapsto> (example_meta, cs)])"
    "sp_vectors cs = [VectorId 7 \<mapsto> Embedding [0xBFC00000]]" "sp_payloads cs = Map.empty" using example_session_run .
  have short: "length ?vector < u32_max" by (simp add: u32_max_def)
  note reads = cli_reads_exact [OF mem_env_ok meta_codec_fine sample_unicode example_session_ok run refl short,
      where name = "''c''" and k = 5 and metric = None and f = None, unfolded cs(1) snd_conv example_query sum.case fun_upd_same option.case]
  have describe: "execute sample_tools (service_stub mem_env meta_codec) (Cmd_describe ''c'') reg' =
      (Inr (collection_tree sample_tools (example_meta, cs)), reg')" using conjunct1 [OF reads] .
  have tree: "collection_tree sample_tools (example_meta, cs) =
      Json_Object [(''count'', Json_Number (Inl 1)), (''dimension'', Json_Number (Inl 1)), (''index_type'', Json_String ''flat''),
          (''metric'', Json_String ''cosine''), (''name'', Json_String ''c'')]"
    by (simp add: collection_tree_def example_meta_def cs(2) sample_tools_def Dimension_get_def)
  obtain out where out: "search_reply ''c'' (graph_in reg' ''c'') (Some (example_meta, cs)) ?query out"
    "execute sample_tools (service_stub mem_env meta_codec) (Cmd_search ''c'' ?vector 5 None None) reg' =
       (case out of Inl e \<Rightarrow> Inl (Cli_Client e)
        | Inr hits \<Rightarrow> Inr (Json_Object [(''hits'', Json_Array (map (hit_tree sample_tools) hits))]), reg')"
    using conjunct2 [OF conjunct2 [OF reads]] by blast
  obtain r where r: "answers Choice_Flat (graph_in reg' ''c'') Cosine cs ?query r" "\<And>hits. r = Inr hits \<Longrightarrow> out = Inr hits"
    using out(1) by (auto simp: search_reply_def example_meta_def example_dim)
  then obtain hits ns where ns: "out = Inr hits" "hits = map (\<lambda>n. hit_of Map.empty (neighbor_id n) (neighbor_score n)) ns"
    "is_top_k 5 (candidates Cosine (Embedding [0xBFC00000]) (passes None Map.empty) [VectorId 7 \<mapsto> Embedding [0xBFC00000]]) ns"
    by (auto simp: answers_def query_metric_def cs(2,3) Let_def split: sum.splits)
  have "candidates Cosine (Embedding [0xBFC00000]) (passes None Map.empty) [VectorId 7 \<mapsto> Embedding [0xBFC00000]] =
      {score_of Cosine (Embedding [0xBFC00000]) (VectorId 7) (Embedding [0xBFC00000])}"
    by (auto simp: candidates_def passes_def)
  then have "ns = [score_of Cosine (Embedding [0xBFC00000]) (VectorId 7) (Embedding [0xBFC00000])]"
    using ns(3) by (cases ns) (auto simp: top_k_def)
  then have "\<exists>score. map (hit_tree sample_tools) hits =
      [Json_Object [(''id'', Json_String ''7''), (''payload'', Json_Null), (''score'', score)]]"
    by (simp add: ns(2) hit_tree_def hit_of_def seven)
  then obtain score where score: "map (hit_tree sample_tools) hits =
      [Json_Object [(''id'', Json_String ''7''), (''payload'', Json_Null), (''score'', score)]]" ..
  show ?thesis
    by (intro exI [of _ reg] exI [of _ outs] exI [of _ reg'] exI [of _ score] conjI run)
      (simp_all only: describe tree out(2) ns(1) sum.case score)
qed

lemma cli_payload_reads_back_witness: "parse_payload sample_tools ''{\"a\":5,\"b\":[\"x\",1.5]}'' = Inr sample_payload"
proof -
  have fin: "f64_finite 0x3FF8000000000000" by code_simp
  have "payload_ok sample_payload"
    by (simp add: payload_ok_def sample_payload_def btree_ok_def fin)
  moreover have "tl_from_str sample_tools ''{\"a\":5,\"b\":[\"x\",1.5]}'' = Inr (payload_tree sample_tools sample_payload)"
    by (simp add: payload_tree_def scalar_tree_def sample_payload_def sample_tools_def fin)
  ultimately show ?thesis using cli_payload_reads_back [OF sample_numbers] by blast
qed

end
