(* ===== verification/Bench.thy ===== *)
theory Bench
  imports Persistent_Collection Recovery
begin

text \<open>
  The benchmark (\<open>crates/eidosdb-bench\<close>): recall against the exact index (\<open>recall.rs\<close>), percentiles (\<open>latency.rs\<close>), the
  synthetic data set (\<open>dataset.rs\<close>), the run over any index (\<open>runner.rs\<close>) and the choice of the backend (\<open>main.rs\<close>, without
  the printing of its report). The random generator, the source of fresh ids and the clock are parameters; a duration is its
  nanoseconds. A panic of \<open>expect\<close> is \<open>None\<close>.
\<close>

section \<open>Recall and percentiles\<close>

definition recall_at_k :: "Neighbor list \<Rightarrow> Neighbor list \<Rightarrow> f32" where
  "recall_at_k oracle candidate =
     (if oracle = [] then f32_of_int 1
      else let found = length (filter (\<lambda>truth. \<exists>c \<in> set candidate. neighbor_id c = neighbor_id truth) oracle)
           in f32_div (f32_of_int (int found)) (f32_of_int (int (length oracle))))"

type_synonym Duration = nat

record LatencySummary =
  lat_p50 :: Duration
  lat_p99 :: Duration

definition f64_ceil :: "f64 \<Rightarrow> f64" where
  "f64_ceil a = f_neg (f64_floor (f_neg a))"

definition percentile :: "Duration list \<Rightarrow> f64 \<Rightarrow> Duration" where
  "percentile ordered fraction =
     (let n = length ordered;
          rank = usize_of_f64 (f64_ceil (f64_mul fraction (f64_of_int (int n))));
          index = max 1 (min rank n) - 1
      in ordered ! index)"

text \<open>The literals \<open>0.50\<close> and \<open>0.99\<close>.\<close>

definition summarize :: "Duration list \<Rightarrow> LatencySummary" where
  "summarize samples =
     (if samples = [] then \<lparr>lat_p50 = 0, lat_p99 = 0\<rparr>
      else let ordered = sort samples
           in \<lparr>lat_p50 = percentile ordered 0x3FE0000000000000, lat_p99 = percentile ordered 0x3FEFAE147AE147AE\<rparr>)"

section \<open>The data set\<close>

record Dataset =
  ds_points :: "(VectorId \<times> Embedding) list"
  ds_queries :: "Embedding list"

text \<open>The generator \<open>StdRng\<close> with its uniform draw from \<open>[-1, 1)\<close>, and the source of version 7 ids.\<close>

record ('g, 'u) Bench_env =
  be_seed :: "u64 \<Rightarrow> 'g"
  be_uniform :: "'g \<Rightarrow> f32 \<times> 'g"
  be_fresh :: "'u \<Rightarrow> VectorId \<times> 'u"

fun draw_values :: "('g, 'u) Bench_env \<Rightarrow> nat \<Rightarrow> 'g \<Rightarrow> f32 list \<times> 'g" where
  "draw_values E 0 rng = ([], rng)"
| "draw_values E (Suc n) rng =
     (case be_uniform E rng of (v, rng) \<Rightarrow> case draw_values E n rng of (vs, rng) \<Rightarrow> (v # vs, rng))"

definition sample_embedding :: "('g, 'u) Bench_env \<Rightarrow> nat \<Rightarrow> 'g \<Rightarrow> (Embedding \<times> 'g) option" where
  "sample_embedding E dimension rng =
     (case draw_values E dimension rng of (vs, rng) \<Rightarrow>
       (case Embedding_new vs of Inl _ \<Rightarrow> None | Inr e \<Rightarrow> Some (e, rng)))"

fun generate_points ::
  "('g, 'u) Bench_env \<Rightarrow> nat \<Rightarrow> nat \<Rightarrow> 'g \<times> 'u \<Rightarrow> ((VectorId \<times> Embedding) list \<times> 'g \<times> 'u) option" where
  "generate_points E dimension 0 s = Some ([], s)"
| "generate_points E dimension (Suc n) (rng, ids) =
     (case be_fresh E ids of (i, ids) \<Rightarrow>
       (case sample_embedding E dimension rng of
          None \<Rightarrow> None
        | Some (e, rng) \<Rightarrow> map_option (\<lambda>(ps, s). ((i, e) # ps, s)) (generate_points E dimension n (rng, ids))))"

fun generate_queries :: "('g, 'u) Bench_env \<Rightarrow> nat \<Rightarrow> nat \<Rightarrow> 'g \<Rightarrow> Embedding list option" where
  "generate_queries E dimension 0 rng = Some []"
| "generate_queries E dimension (Suc n) rng =
     (case sample_embedding E dimension rng of
        None \<Rightarrow> None
      | Some (e, rng) \<Rightarrow> map_option ((#) e) (generate_queries E dimension n rng))"

definition generate :: "('g, 'u) Bench_env \<Rightarrow> 'u \<Rightarrow> u64 \<Rightarrow> nat \<Rightarrow> nat \<Rightarrow> nat \<Rightarrow> Dataset option" where
  "generate E ids seed dimension point_count query_count =
     (case generate_points E dimension point_count (be_seed E seed, ids) of
        None \<Rightarrow> None
      | Some (points, rng, _) \<Rightarrow>
          map_option (\<lambda>queries. \<lparr>ds_points = points, ds_queries = queries\<rparr>) (generate_queries E dimension query_count rng))"

section \<open>The run\<close>

record BenchReport =
  br_mean_recall :: f32
  br_latency :: LatencySummary
  br_query_count :: nat

fun bench_load ::
  "'i VectorIndex \<Rightarrow> (VectorId \<times> Embedding) list \<Rightarrow> 'i \<Rightarrow> FlatIndex \<Rightarrow> ('i \<times> FlatIndex) option" where
  "bench_load V [] index oracle = Some (index, oracle)"
| "bench_load V ((i, embedding) # points) index oracle =
     (case vi_insert V i embedding index of
        (Inl _, _) \<Rightarrow> None
      | (Inr _, index) \<Rightarrow>
          (case FlatIndex_insert i embedding oracle of
             (Inl _, _) \<Rightarrow> None
           | (Inr _, oracle) \<Rightarrow> bench_load V points index oracle))"

text \<open>\<open>elapsed j\<close> is what the clock measures around the query \<open>j\<close>.\<close>

fun bench_queries ::
  "'i VectorIndex \<Rightarrow> (nat \<Rightarrow> Duration) \<Rightarrow> nat \<Rightarrow> 'i \<Rightarrow> FlatIndex \<Rightarrow> nat \<Rightarrow> Embedding list \<Rightarrow> (f32 \<times> Duration) list option" where
  "bench_queries V elapsed k index oracle j [] = Some []"
| "bench_queries V elapsed k index oracle j (query # queries) =
     (case search FlatIndex_index query k oracle of
        Inl _ \<Rightarrow> None
      | Inr truth \<Rightarrow>
          (case search V query k index of
             Inl _ \<Rightarrow> None
           | Inr candidate \<Rightarrow>
               map_option ((#) (recall_at_k truth candidate, elapsed j)) (bench_queries V elapsed k index oracle (j + 1) queries)))"

definition bench_run :: "'i VectorIndex \<Rightarrow> (nat \<Rightarrow> Duration) \<Rightarrow> 'i \<Rightarrow> Dataset \<Rightarrow> nat \<Rightarrow> BenchReport option" where
  "bench_run V elapsed index dataset k =
     (case bench_load V (ds_points dataset) index (FlatIndex_new (vi_metric V index) (vi_dimension V index)) of
        None \<Rightarrow> None
      | Some (index, oracle) \<Rightarrow>
          (case bench_queries V elapsed k index oracle 0 (ds_queries dataset) of
             None \<Rightarrow> None
           | Some measured \<Rightarrow>
               let recalls = map fst measured;
                   mean_recall = (if recalls = [] then f32_of_int 1
                                  else f32_div (f32_sum recalls) (f32_of_int (int (length recalls))))
               in Some \<lparr>br_mean_recall = mean_recall, br_latency = summarize (map snd measured),
                        br_query_count = length (ds_queries dataset)\<rparr>))"

text \<open>The backends of the program. The temporary directory is the system's; opening it is the persistent index's.\<close>

datatype Backend = Backend_flat | Backend_persistent

datatype Bench_error = Bench_core DimensionError | Bench_storage StorageError | Bench_io string

definition bench_main ::
  "('g, 'u) Bench_env \<Rightarrow> 'u \<Rightarrow> (nat \<Rightarrow> Duration) \<Rightarrow> 'd Redb \<Rightarrow> string + 'd Store_dir \<Rightarrow>
   Backend \<Rightarrow> u64 \<Rightarrow> nat \<Rightarrow> nat \<Rightarrow> nat \<Rightarrow> nat \<Rightarrow> (Bench_error + BenchReport \<times> string) option" where
  "bench_main E ids elapsed R temp backend seed dimension points queries k =
     (case generate E ids seed dimension points queries of
        None \<Rightarrow> None
      | Some dataset \<Rightarrow>
          (case backend of
             Backend_flat \<Rightarrow>
               (case Dimension_new dimension of
                  Inl e \<Rightarrow> Some (Inl (Bench_core e))
                | Inr d \<Rightarrow>
                    map_option (\<lambda>report. Inr (report, ''FlatIndex (Cosine)''))
                      (bench_run FlatIndex_index elapsed (FlatIndex_new Cosine d) dataset k))
           | Backend_persistent \<Rightarrow>
               (case temp of
                  Inl e \<Rightarrow> Some (Inl (Bench_io e))
                | Inr dir \<Rightarrow>
                    (case Dimension_new dimension of
                       Inl e \<Rightarrow> Some (Inl (Bench_core e))
                     | Inr d \<Rightarrow>
                         (case Pf_open R Cosine d dir of
                            (Inl e, _) \<Rightarrow> Some (Inl (Bench_storage e))
                          | (Inr index, _) \<Rightarrow>
                              map_option (\<lambda>report. Inr (report, ''PersistentFlatIndex (Cosine)''))
                                (bench_run (Pf_index R) elapsed index dataset k))))))"

section \<open>Sums of ones\<close>

lemma f32_sum_ones:
  assumes "n < 2 ^ 24"
  shows "0 < n \<Longrightarrow> f32_sum (replicate n (f32_of_int 1)) = f32_of_int (int n)"
  using assms
proof (induction n)
  case (Suc n)
  have one: "f32_add f32_neg_zero (f32_of_int 1) = f32_of_int 1" by code_simp
  show ?case
  proof (cases "n = 0")
    case True
    then show ?thesis using one by (simp add: f32_sum_def)
  next
    case False
    have "replicate (Suc n) x = replicate n x @ [x]" for x :: f32 by (simp add: replicate_append_same)
    then have "f32_sum (replicate (Suc n) (f32_of_int 1)) = f32_add (f32_sum (replicate n (f32_of_int 1))) (f32_of_int 1)"
      by (simp only: f32_sum_def foldl_append) simp
    then show ?thesis using Suc False f32_add_small [of "int n" 1] by (simp add: add.commute)
  qed
qed simp

section \<open>Summaries\<close>

lemma percentile_sample: "xs \<noteq> [] \<Longrightarrow> percentile xs fraction \<in> set xs"
proof -
  assume "xs \<noteq> []"
  then have "max 1 (min r (length xs)) - 1 < length xs" for r by (cases xs) auto
  then show ?thesis by (simp add: percentile_def Let_def)
qed

text \<open>Both percentiles are measured durations, and the order of the measurements is no matter.\<close>

lemma summarize_samples:
  "samples \<noteq> [] \<Longrightarrow> lat_p50 (summarize samples) \<in> set samples \<and> lat_p99 (summarize samples) \<in> set samples"
proof -
  assume "samples \<noteq> []"
  moreover from this have "sort samples \<noteq> []" by (metis set_empty set_sort)
  note percentile_sample [OF this]
  ultimately show ?thesis by (simp add: summarize_def Let_def)
qed

lemma summarize_perm: "mset samples = mset samples' \<Longrightarrow> summarize samples = summarize samples'"
proof -
  assume m: "mset samples = mset samples'"
  then have "sort samples = sort samples'" by (metis mset_sort properties_for_sort sorted_sort)
  moreover have "samples = [] \<longleftrightarrow> samples' = []" using m by (metis mset_zero_iff)
  ultimately show ?thesis by (simp add: summarize_def)
qed

lemma recall_complete:
  assumes "neighbor_id ` set oracle \<subseteq> neighbor_id ` set candidate" "length oracle < 2 ^ 24"
  shows "recall_at_k oracle candidate = f32_of_int 1"
proof (cases "oracle = []")
  case False
  have "\<exists>c \<in> set candidate. neighbor_id c = neighbor_id t" if "t \<in> set oracle" for t
    using assms(1) that by (metis image_iff imageI subsetD)
  then have "filter (\<lambda>t. \<exists>c \<in> set candidate. neighbor_id c = neighbor_id t) oracle = oracle" by (simp add: filter_id_conv)
  then show ?thesis using False assms(2) f32_div_self_small [of "int (length oracle)"] by (simp add: recall_at_k_def)
qed (simp add: recall_at_k_def)

section \<open>Exact backends\<close>

text \<open>What the benchmark relies on to find nothing missing: an index with room that is exact for its own metric.\<close>

locale exact_backend =
  fit: fitting_index V ok contents room admits + exact: exact_index V ok contents
  for V :: "'i VectorIndex" and ok contents room admits +
  assumes default_supported: "ok i \<Longrightarrow> vi_metric V i \<in> set (vi_supported_metrics V i)"
begin

lemma load_all:
  assumes "ok index" "flat_ok truths" "contents index = flat_contents truths" "vi_dimension V index = flat_dimension truths"
    and "vi_metric V index = flat_metric truths" "room (length points) index" "distinct (map fst points)"
    and "\<forall>(i, e) \<in> set points. contents index i = None \<and> Embedding_dimension e = flat_dimension truths \<and> admits (flat_dimension truths) e"
  shows "\<exists>index' truths'. bench_load V points index truths = Some (index', truths') \<and> ok index' \<and> flat_ok truths' \<and>
    contents index' = flat_contents truths' \<and> vi_dimension V index' = flat_dimension truths \<and> flat_dimension truths' = flat_dimension truths \<and>
    vi_metric V index' = flat_metric truths \<and> flat_metric truths' = flat_metric truths \<and>
    length (flat_points truths') = length (flat_points truths) + length points"
  using assms
proof (induction points arbitrary: index truths)
  case (Cons p points)
  obtain i e where p: "p = (i, e)" by fastforce
  have new: "contents index i = None" "Embedding_dimension e = flat_dimension truths" "admits (flat_dimension truths) e"
    using Cons.prems(8) p by auto
  obtain index1 where index1: "vi_insert V i e index = (Inr (), index1)" "ok index1" "contents index1 = (contents index)(i \<mapsto> e)"
    "vi_dimension V index1 = vi_dimension V index" "vi_metric V index1 = vi_metric V index" "room (length points) index1"
    using fit.insert_spec [OF Cons.prems(1), of "length points" e i] Cons.prems(4,6) new by auto
  obtain truths1 where truths1: "FlatIndex_insert i e truths = (Inr (), truths1)" "flat_ok truths1"
    "flat_contents truths1 = (flat_contents truths)(i \<mapsto> e)" "flat_dimension truths1 = flat_dimension truths"
    "flat_metric truths1 = flat_metric truths"
    using flat.insert_spec [OF Cons.prems(2), of e i] Cons.prems(3) new by (auto simp: FlatIndex_index_def)
  have len: "length (flat_points truths1) = Suc (length (flat_points truths))"
    using truths1(1) by (auto simp: FlatIndex_insert_def split: if_splits)
  have rest: "contents index1 a = None \<and> Embedding_dimension b = flat_dimension truths \<and> admits (flat_dimension truths) b"
    if ab: "(a, b) \<in> set points" for a b
  proof -
    have "a \<noteq> i" using Cons.prems(7) p ab by force
    then show ?thesis using Cons.prems(8) ab index1(3) by auto
  qed
  have "\<exists>index' truths'. bench_load V points index1 truths1 = Some (index', truths') \<and> ok index' \<and> flat_ok truths' \<and>
      contents index' = flat_contents truths' \<and> vi_dimension V index' = flat_dimension truths1 \<and> flat_dimension truths' = flat_dimension truths1 \<and>
      vi_metric V index' = flat_metric truths1 \<and> flat_metric truths' = flat_metric truths1 \<and>
      length (flat_points truths') = length (flat_points truths1) + length points"
    using Cons.prems(3-5,7) p index1(2-6) truths1 rest by (intro Cons.IH) auto
  then show ?case using p index1(1) truths1(1,4,5) len by simp
qed simp

lemma queries_all:
  assumes "ok index" "flat_ok truths" "contents index = flat_contents truths" "vi_dimension V index = flat_dimension truths"
    and "vi_metric V index = flat_metric truths" "length (flat_points truths) < 2 ^ 24"
    and "\<forall>q \<in> set queries. Embedding_dimension q = flat_dimension truths"
  shows "bench_queries V elapsed k index truths j queries =
    Some (map (\<lambda>n. (f32_of_int 1, elapsed n)) [j ..< j + length queries])"
  using assms(7)
proof (induction queries arbitrary: j)
  case (Cons q queries)
  have dim: "Embedding_dimension q = flat_dimension truths" using Cons.prems by simp
  obtain truth where t: "search FlatIndex_index q k truths = Inr truth"
    "vi_search_filtered FlatIndex_index q k (flat_metric truths) (\<lambda>_. True) truths = Inr truth"
    using flat.search_total [OF assms(2) flat.default_supported [OF assms(2)], of q k "\<lambda>_. True"] dim
    by (auto simp: search_def FlatIndex_index_def)
  obtain cand where c: "search V q k index = Inr cand" "vi_search_filtered V q k (vi_metric V index) (\<lambda>_. True) index = Inr cand"
    using fit.search_total [OF assms(1) default_supported [OF assms(1)], of q k "\<lambda>_. True"] dim assms(4) by (auto simp: search_def)
  have "is_top_k k (candidates (vi_metric V index) q (\<lambda>_. True) (contents index)) truth"
    using flat_exact.search_exact [OF assms(2) t(2)] assms(3,5) by simp
  then have "cand = truth" by (rule exact.search_unique [OF assms(1) c(2)])
  moreover have "length truth < 2 ^ 24"
    using flat.search_length(2) [OF assms(2) t(2)] assms(6) by (simp add: FlatIndex_index_def)
  ultimately have "recall_at_k truth cand = f32_of_int 1" by (intro recall_complete) simp_all
  moreover have "[j ..< j + length (q # queries)] = j # [Suc j ..< Suc j + length queries]" by (simp add: upt_rec)
  ultimately show ?case using Cons.IH [of "Suc j"] Cons.prems t(1) c(1) by (simp del: upt_Suc)
qed simp

lemma run_perfect:
  assumes "ok index" "contents index = Map.empty" "room (length (ds_points ds)) index" "distinct (map fst (ds_points ds))"
    and "\<forall>e \<in> snd ` set (ds_points ds). Embedding_dimension e = vi_dimension V index \<and> admits (vi_dimension V index) e"
    and "\<forall>q \<in> set (ds_queries ds). Embedding_dimension q = vi_dimension V index"
    and "length (ds_points ds) < 2 ^ 24" "length (ds_queries ds) < 2 ^ 24"
  shows "bench_run V elapsed index ds k = Some \<lparr>br_mean_recall = f32_of_int 1,
    br_latency = summarize (map elapsed [0 ..< length (ds_queries ds)]), br_query_count = length (ds_queries ds)\<rparr>"
proof -
  let ?o = "FlatIndex_new (vi_metric V index) (vi_dimension V index)" and ?n = "length (ds_queries ds)"
  have o: "flat_dimension ?o = vi_dimension V index" "flat_metric ?o = vi_metric V index" "flat_points ?o = []"
    by (simp_all add: FlatIndex_new_def)
  obtain index' truths' where load: "bench_load V (ds_points ds) index ?o = Some (index', truths')" "ok index'" "flat_ok truths'"
    "contents index' = flat_contents truths'" "vi_dimension V index' = flat_dimension truths'" "vi_metric V index' = flat_metric truths'"
    "flat_dimension truths' = vi_dimension V index" "length (flat_points truths') = length (ds_points ds)"
    using load_all [OF assms(1) flat_new_ok(1), of "vi_metric V index" "vi_dimension V index" "ds_points ds"] assms(2-5) o
    by (fastforce simp: flat_new_ok)
  have q: "bench_queries V elapsed k index' truths' 0 (ds_queries ds) = Some (map (\<lambda>n. (f32_of_int 1, elapsed n)) [0 ..< ?n])"
    using queries_all [OF load(2-6), of "ds_queries ds"] load(7,8) assms(6,7) by simp
  have "map fst (map (\<lambda>n. (f32_of_int 1, elapsed n)) [0 ..< ?n]) = replicate ?n (f32_of_int 1)"
    by (simp add: comp_def map_replicate_const)
  moreover have "?n \<noteq> 0 \<Longrightarrow> f32_div (f32_sum (replicate ?n (f32_of_int 1))) (f32_of_int (int ?n)) = f32_of_int 1"
    using f32_sum_ones [OF assms(8)] f32_div_self_small [of "int ?n"] assms(8) by simp
  ultimately show ?thesis by (simp add: bench_run_def load(1) q Let_def comp_def)
qed

end

interpretation flat_bench: exact_backend FlatIndex_index flat_ok flat_contents "\<lambda>_ _. True" "\<lambda>_ _. True"
  by unfold_locales (rule flat.default_supported)

interpretation pf_bench: exact_backend "Pf_index R" "pf_ok R view" "pf_contents view" pf_room "\<lambda>_ _. True"
  for R :: "'d Redb" and view
  by unfold_locales (use Metric.exhaust in \<open>auto simp: Pf_index_def\<close>)

section \<open>The program\<close>

lemma draw_values_length: "length (fst (draw_values E n rng)) = n"
  by (induction n arbitrary: rng) (simp_all add: split_beta)

lemma sample_embedding_dimension:
  assumes "sample_embedding E n rng = Some (e, rng')" "Dimension_new n = Inr d"
  shows "embedding_ok e \<and> Embedding_dimension e = d"
proof -
  obtain vs r where v: "draw_values E n rng = (vs, r)" by fastforce
  then have "length vs = n" using draw_values_length [of E n rng] by simp
  then show ?thesis using assms v
    by (auto simp: sample_embedding_def Embedding_new_def embedding_ok_def Embedding_dimension_def split: sum.splits if_splits)
qed

lemma generate_points_spec:
  assumes "generate_points E n m s = Some (ps, s')" "Dimension_new n = Inr d"
  shows "length ps = m \<and> (\<forall>e \<in> snd ` set ps. embedding_ok e \<and> Embedding_dimension e = d)"
  using assms(1)
proof (induction m arbitrary: s ps s')
  case (Suc m)
  obtain rng ids where s: "s = (rng, ids)" by fastforce
  obtain i ids1 where f: "be_fresh E ids = (i, ids1)" by fastforce
  obtain e rng1 where e: "sample_embedding E n rng = Some (e, rng1)" using Suc.prems s f by (auto split: option.splits)
  obtain ps1 where r: "generate_points E n m (rng1, ids1) = Some (ps1, s')" "ps = (i, e) # ps1" using Suc.prems s f e by auto
  show ?case using Suc.IH [OF r(1)] sample_embedding_dimension [OF e assms(2)] r(2) by simp
qed simp

lemma generate_queries_spec:
  assumes "generate_queries E n m rng = Some qs" "Dimension_new n = Inr d"
  shows "length qs = m \<and> (\<forall>e \<in> set qs. embedding_ok e \<and> Embedding_dimension e = d)"
  using assms(1)
proof (induction m arbitrary: rng qs)
  case (Suc m)
  obtain e rng1 where e: "sample_embedding E n rng = Some (e, rng1)" using Suc.prems by (auto split: option.splits)
  obtain qs1 where r: "generate_queries E n m rng1 = Some qs1" "qs = e # qs1" using Suc.prems e by auto
  show ?case using Suc.IH [OF r(1)] sample_embedding_dimension [OF e assms(2)] r(2) by simp
qed simp

lemma generate_spec:
  assumes "generate E ids seed n points queries = Some ds" "Dimension_new n = Inr d"
  shows "length (ds_points ds) = points" "length (ds_queries ds) = queries"
    "\<forall>e \<in> snd ` set (ds_points ds). embedding_ok e \<and> Embedding_dimension e = d"
    "\<forall>e \<in> set (ds_queries ds). embedding_ok e \<and> Embedding_dimension e = d"
proof -
  obtain ps s rng ids' qs where g: "generate_points E n points (be_seed E seed, ids) = Some (ps, rng, ids')"
    "generate_queries E n queries rng = Some qs" "ds = \<lparr>ds_points = ps, ds_queries = qs\<rparr>"
    using assms(1) by (auto simp: generate_def split: option.splits)
  show "length (ds_points ds) = points" "length (ds_queries ds) = queries"
    "\<forall>e \<in> snd ` set (ds_points ds). embedding_ok e \<and> Embedding_dimension e = d"
    "\<forall>e \<in> set (ds_queries ds). embedding_ok e \<and> Embedding_dimension e = d"
    using generate_points_spec [OF g(1) assms(2)] generate_queries_spec [OF g(2) assms(2)] g(3) by simp_all
qed

text \<open>
  With either backend, over any data set it generates with distinct ids, the benchmark returns and reports a recall of
  exactly one. Beyond \<open>2 ^ 24\<close> queries the sum of the recalls would no longer be exact.
\<close>

lemma benchmark_reports_one:
  assumes "redb_ok R view" "redb_total R" "generate E ids seed n points queries = Some ds" "Dimension_new n = Inr d"
    and "distinct (map fst (ds_points ds))" "points < 2 ^ 24" "queries < 2 ^ 24" "records_fit d points"
  shows "\<exists>label. bench_main E ids elapsed R (Inr \<lparr>sd_segment = None, sd_catalog = None, sd_faults = []\<rparr>) backend seed n points queries k =
    Some (Inr (\<lparr>br_mean_recall = f32_of_int 1, br_latency = summarize (map elapsed [0 ..< queries]), br_query_count = queries\<rparr>, label))"
proof -
  note g = generate_spec [OF assms(3,4)]
  show ?thesis
  proof (cases backend)
    case Backend_flat
    have "vi_dimension FlatIndex_index (FlatIndex_new Cosine d) = d" by (simp add: FlatIndex_index_def FlatIndex_new_def)
    then show ?thesis
      using flat_bench.run_perfect [OF flat_new_ok(1,2), of ds Cosine d elapsed k] g assms(3-7) Backend_flat
      by (simp add: bench_main_def)
  next
    case Backend_persistent
    obtain s dir where s: "Pf_open R Cosine d \<lparr>sd_segment = None, sd_catalog = None, sd_faults = []\<rparr> = (Inr s, dir)"
      using Pf_open_fresh_total [OF assms(1,2)] by blast
    have "0 < Dimension_get d" using assms(4) Dimension_get_new [OF assms(4)] by (simp add: Dimension_new_Inr)
    note f = Pf_open_fresh [OF assms(1) this s]
    have ok: "pf_ok R view s" using f assms(1,2) by (simp add: pf_ok_def)
    have "vi_dimension (Pf_index R) s = d" "pf_room points s" using f assms(8) by (simp_all add: Pf_index_def pf_room_def)
    then show ?thesis
      using pf_bench.run_perfect [OF ok, of ds elapsed k] f g assms(3-7) Backend_persistent s by (simp add: bench_main_def)
  qed
qed

text \<open>The ramp of the tests: the product of \<open>0.99\<close> and 100 is rounded to 99.\<close>

lemma ramp_ranks:
  "usize_of_f64 (f64_ceil (f64_mul 0x3FE0000000000000 (f64_of_int 100))) = 50"
  "usize_of_f64 (f64_ceil (f64_mul 0x3FEFAE147AE147AE (f64_of_int 100))) = 99"
proof -
  have "f_unpack b64 (f64_ceil (f64_mul 0x3FE0000000000000 (f64_of_int 100))) = FFin False 7036874417766400 (- 47)"
    "f_unpack b64 (f64_ceil (f64_mul 0x3FEFAE147AE147AE (f64_of_int 100))) = FFin False 6966505673588736 (- 46)"
    by code_simp+
  then show "usize_of_f64 (f64_ceil (f64_mul 0x3FE0000000000000 (f64_of_int 100))) = 50"
    "usize_of_f64 (f64_ceil (f64_mul 0x3FEFAE147AE147AE (f64_of_int 100))) = 99"
    by (simp_all add: usize_of_f64_def usize_max_def)
qed

lemma summarize_ramp: "summarize [1 ..< 101] = \<lparr>lat_p50 = 50, lat_p99 = 99\<rparr>"
  using ramp_ranks by (simp add: summarize_def percentile_def sorted_sort_id del: upt_rec_numeral)

end
