(* ===== verification/Spec2Isabelle.thy ===== *)
theory Spec2Isabelle
  imports Hybrid Proto Storage_Faults Persistent_Payload Persistent_Lexical Redb_Bridge Hnsw_Misplacement
    Hnsw_Termination Registry_Race Cli_Correct Bench
begin

text \<open>
  EidosDB, an embeddable vector database with hybrid search, in Rust: a verification library.

  The program. \<open>crates/eidosdb-core\<close> has the data model (embeddings of 32-bit floats, ids, metrics)
  and the port \<open>VectorIndex\<close> with the exact \<open>FlatIndex\<close>; \<open>eidosdb-hnsw\<close> implements the port with a
  navigable small-world graph; \<open>eidosdb-lexical\<close> has tokenising, BM25, reciprocal rank fusion and
  an in-memory text index; \<open>eidosdb-query\<close> has payloads, filters, the payload store and \<open>Collection\<close>, which
  composes one index of each kind and offers upsert, delete, filtered search and hybrid
  search; \<open>eidosdb-storage\<close> keeps the indexes on disk, as a segment file of raw vectors
  plus an embedded transactional database; \<open>eidosdb-proto\<close> translates between the domain types and
  the wire messages; \<open>eidosdb-server\<close> keeps a directory of named collections and answers requests on them;
  \<open>eidosdb-client\<close> encodes an application's calls as requests and decodes the replies; \<open>eidosdb-cli\<close> is a
  command line over it.

  The theories, in the order of the code.

  \<^item> \<open>Prelude\<close>: sums as results with early return (\<open>res_bind\<close>, \<open>traverse\<close>), association lists as hash
    maps, orderings, sorting by a comparator and the abstract \<open>top_k\<close>; \<open>Softfloat\<close>: IEEE arithmetic on
    bit words, with the facts about rounding and the total order that the ranking proofs use.
  \<^item> \<open>Core\<close>, \<open>Vector_Index\<close>, \<open>Flat\<close> (\<open>eidosdb-core\<close>): the data model, the port as a record of operations with
    the locales \<open>vector_index\<close>, \<open>total_index\<close> and \<open>exact_index\<close> as its contract, and the flat index, which
    satisfies all three.
  \<^item> \<open>Hnsw_Config\<close>, \<open>Hnsw_Graph\<close>, \<open>Hnsw_Search\<close>, \<open>Hnsw_Index\<close>, \<open>Hnsw_Reload\<close>, \<open>Hnsw\<close> (\<open>eidosdb-hnsw\<close>: \<open>config.rs\<close>,
    \<open>rng.rs\<close>, \<open>graph.rs\<close>, \<open>index.rs\<close>): configuration and level sampler; the graph and its operations; greedy
    descent, beam search and selection with their termination proofs; insertion, removal, bulk
    loading, compaction; snapshot and reload; the properties, with the graph invariant kept by every operation.
  \<^item> \<open>Strings\<close>, \<open>Lexical\<close>, \<open>Lexical_Memory\<close> (\<open>eidosdb-lexical\<close>): UTF-8 text and Unicode tables, analyser,
    scoring and fusion, and the in-memory index with its contract \<open>total_lexical\<close>.
  \<^item> \<open>Bytes\<close>: little-endian integers, UUID bytes and \<open>BTreeMap\<close>; \<open>Query\<close>, \<open>Payload_Store\<close>, \<open>Collection\<close>, \<open>Hybrid\<close>
    (\<open>eidosdb-query\<close>): payload validation, filters, the store port and its in-memory
    provider, the collection over arbitrary ports (locale \<open>collection\<close>, interpreted on the flat and HNSW
    indexes) and hybrid search.
  \<^item> \<open>Proto\<close> (\<open>eidosdb-proto\<close>): every conversion to and from the messages and the status codes.
  \<^item> \<open>Storage\<close> (\<open>error.rs\<close>, \<open>manifest.rs\<close>, \<open>segment.rs\<close>, \<open>catalog.rs\<close> of \<open>eidosdb-storage\<close>), \<open>Persistent_Flat\<close>
    (\<open>persistent_flat.rs\<close>), \<open>Durability\<close>, \<open>Recovery\<close>, \<open>Storage_Faults\<close>: files with schedules of faults, the
    catalog over the database, the persistent flat index with every operation; \<open>Durability\<close> follows each
    operation with and without faults and interprets \<open>exact_index\<close>, \<open>Recovery\<close> states the store as a
    machine with crashes (\<open>reach\<close>), and \<open>Storage_Faults\<close> proves where a fault does lasting damage.
  \<^item> \<open>Redb_Bridge\<close> (\<open>redb_compat.rs\<close>): creating and opening a database file, which may exist, through two versions of the
    library; the result meets \<open>redb_ok\<close>, so what is proved of the stores holds over it.
  \<^item> \<open>Codec\<close>, \<open>Rows\<close>: serialised values and the tables of the database as rows of bytes, with the accessors the
    stores share and what they do on tables that hold a given finite map. On them \<open>Persistent_Payload\<close>
    (\<open>persistent_payload.rs\<close>), \<open>Persistent_Lexical\<close> (\<open>persistent_lexical.rs\<close>) and \<open>Persistent_Hnsw\<close>
    (\<open>persistent_hnsw.rs\<close>); \<open>Hnsw_Rows\<close> relates the rows of the last to the graph they store and \<open>Hnsw_Durability\<close> states it
    as a machine with crashes. \<open>Hnsw_Misplacement\<close> proves where the persistent graph loses the binding of identifiers to
    vectors: rows name nodes by index, so a graph opens over other records without an error, and compaction and an insertion
    after a refused one leave such a directory.
  \<^item> \<open>Hnsw_Termination\<close>: the number of rounds of both search loops.
  \<^item> \<open>Collection_Kind\<close> (\<open>collection_kind.rs\<close> of \<open>eidosdb-server\<close>), \<open>Persistent_Collection\<close>, \<open>Collection_Life\<close>: collections on disk
    of either kind, the interpretation of \<open>collection\<close> on the persistent ports, and runs of requests
    and restarts. The locale \<open>fitting_index\<close> of \<open>Vector_Index\<close> is the contract of an index whose insertions succeed
    while its file has room; the in-memory indexes satisfy it with every insertion fitting.
  \<^item> \<open>Registry\<close> (\<open>registry.rs\<close>), \<open>Service\<close> (\<open>service.rs\<close>): the directory of collections, and every handler from the raw request
    to the raw reply or status. \<open>Registry_Correct\<close>: the registry refines a finite map of collections, through restarts.
    \<open>Registry_Race\<close>: creation cut into its steps, with two of them interleaved. \<open>Service_Correct\<close>: the handlers refine an
    abstract machine; \<open>Service_Reads\<close>: what the reading handlers answer in a reached state.
  \<^item> \<open>Client\<close> (\<open>eidosdb-client\<close>): every method over a record \<open>Stub\<close> of remote calls, with \<open>service_stub\<close> the stub
    that runs the handlers; \<open>Client_Correct\<close>: the same abstract machine seen through the client.
  \<^item> \<open>Cli\<close> (\<open>cli.rs\<close>, \<open>main.rs\<close> of \<open>eidosdb-cli\<close>): every command with the parsing of its arguments and the rendering of
    its answer as JSON, over the client; \<open>Cli_Spec\<close>: what the arguments mean and what the answers look like, written out in the
    terms of the domain, with the proof that the parsers and renderers agree; \<open>Cli_Correct\<close>: sessions of commands
    and restarts refine the same machine on these meanings.
  \<^item> \<open>Bench\<close> (\<open>eidosdb-bench\<close>): recall, percentiles, the data set and the run over an index that meets the locale
    \<open>exact_backend\<close>, interpreted on both backends of the program; \<open>benchmark_reports_one\<close> says the recall is exactly one.

  How state and operations correspond. A struct is a record with its fields, an enum a
  datatype; a \<open>&mut self\<close> method takes the state last and returns result and state;
  \<open>Result\<close> is a sum with the error left, \<open>Option\<close> is \<open>option\<close>, \<open>?\<close> is \<open>res_bind\<close> or \<open>then_do\<close>. \<open>f32\<close> and \<open>f64\<close> are
  their bits and every arithmetic operation rounds to nearest even, so a ranking theorem speaks of
  the scores the program computes. \<open>usize\<close> is \<open>nat\<close> with saturating products written out; generator states and
  wire integers are words. A hash map is an association list in arbitrary order, and results that depend on its
  order are proved not to.

  What the groups of lemmas show. For the indexes: invariants of every reachable state, refinement of a finite map, search
  soundness, and exactness for the flat index and for wide HNSW searches. For the collection: refinement of three maps and exact
  filtered and hybrid search. For the wire: round trips, canonical forms and ranges of what is accepted. For
  storage: what was acknowledged is served after any crashes and restarts, when a call that failed for a fault is followed by
  a restart (and, for the HNSW index, every failed call is), and recovery returns. For the server and the
  client: over any calls, malformed requests and restarts, replies and errors are those of an abstract machine whose
  state is a finite map from names to three finite maps each; searches answer from its vectors, of which an HNSW collection
  returns what the search of its graph finds.

  Outside the repository, and parameters here: the natural logarithm (\<open>ln_f\<close>), the Unicode tables (record \<open>Unicode\<close>),
  the rendering of a UUID in error messages (\<open>fmt_id\<close>), the serialisation of payloads, terms and graph rows (record \<open>Codec\<close>) and of
  the metadata file, the embedded database (record \<open>Redb\<close>) and its two library versions (record \<open>Redb_libs\<close>, with \<open>libs_ok\<close>: each reads
  its own format, an upgrade keeps the rows), the benchmark's generator, ids and clock. The hypotheses \<open>codec_ok\<close> and \<open>meta_codec_ok\<close> say that decoding what
  was encoded gives it back. The hypothesis \<open>redb_ok\<close> says
  what the database's documentation promises: a read sees the committed tables, a commit applies all of its
  writes or, when it reports an error, none; \<open>redb_reads\<close> is an environment in which it never refuses to read, \<open>redb_total\<close> one in
  which it never refuses. \<open>mem_redb\<close> satisfies all three. The server's parameters are one record \<open>Env\<close>, those of the
  command line (JSON and UUID libraries, \<open>Debug\<close> rendering of a string) one record \<open>Tools\<close>; \<open>f32::from_str\<close> is defined. A file
  is its bytes; a system call either takes effect, or fails leaving a prefix of what it was to write, and a
  crash is a call after which nothing else runs; loss of unsynchronised data is not modelled, and
  files have fewer than \<open>2 ^ 63\<close> bytes, which is the largest offset.

  Bounds and fuel. No definition uses fuel: every loop is structural or has a termination proof, by the
  number of strictly better keys for the greedy descent and of unvisited nodes for the beam; \<open>greedy_round\<close> and
  \<open>beam_round\<close> count the rounds. A run of the server assumes that its files stay below their largest offset: every
  vector record is counted against \<open>2 ^ 63\<close> when the run is stated. Term frequencies and document lengths of the text
  indexes are 32-bit words and token totals 64-bit words, which wrap as they do in a release build; \<open>counters_fit\<close> is the
  condition under which BM25 over them is BM25 over the corpus. One subtraction of the persistent text index wraps where the
  code saturates (\<open>apply_token_delta\<close>), which is the same up to \<open>2 ^ 64\<close> tokens.

  Not modelled: the server binary, \<open>serve\<close>, the thread pool and the client's \<open>connect\<close> start a transport; the benchmark's printing
  of its report is output only, and the build tasks are an empty function. Locks are represented by the order of the steps
  they allow, and reference counts not at all. The compact request is modelled but is not part of the runs of the
  server, because compacting a persistent HNSW index renumbers its nodes and leaves the segment
  as it was (\<open>compact_misplaces_vectors\<close>). \<open>VectorId::new\<close> draws a time-ordered UUID from the clock and is left out.
\<close>

end
